(* ===== verification/Prelude.thy ===== *)
theory Prelude
  imports Complex_Main "HOL-Library.List_Lexorder" "HOL-Library.Char_ord" "HOL-Library.Word"
begin

text \<open>
  Shared vocabulary of the development: results with an error side, the byte-string operations
  of Rust's \<open>str\<close> that the sources use, decimal printing and parsing, and the generic
  list lemmas the components rely on.

  A Rust \<open>String\<close> is modelled by the list of its UTF-8 bytes (\<open>string\<close> is a list of
  8-bit characters). Equality, concatenation, prefix tests, searching and splitting at an
  ASCII character agree with \<open>str\<close> on bytes. Two operations that consult Unicode tables
  are modelled on ASCII and leave other bytes as they are: \<open>to_lowercase\<close>/\<open>to_uppercase\<close>
  and the \<open>{:?}\<close> formatting of strings.
  The order on strings is the lexicographic order on bytes, as Rust's \<open>Ord for str\<close>.
\<close>

named_theorems string_simps \<open>rewrite rules for the string operations\<close>
named_theorems map_laws \<open>lookup laws of the map interfaces\<close>

section \<open>Results\<close>

type_synonym ('e, 'a) result = "'e + 'a"

abbreviation Err :: "'e \<Rightarrow> ('e, 'a) result" where
  "Err \<equiv> Inl"

abbreviation Ok :: "'a \<Rightarrow> ('e, 'a) result" where
  "Ok \<equiv> Inr"

fun res_bind :: "('e, 'a) result \<Rightarrow> ('a \<Rightarrow> ('e, 'b) result) \<Rightarrow> ('e, 'b) result" where
  "res_bind (Inl e) f = Inl e"
| "res_bind (Inr a) f = f a"

text \<open>A loop that pushes \<open>f(x)?\<close> for every element and stops at the first error.\<close>

fun try_map :: "('a \<Rightarrow> ('e, 'b) result) \<Rightarrow> 'a list \<Rightarrow> ('e, 'b list) result" where
  "try_map f [] = Inr []"
| "try_map f (x # xs) =
     (case f x of Inl e \<Rightarrow> Inl e
      | Inr y \<Rightarrow> (case try_map f xs of Inl e \<Rightarrow> Inl e | Inr ys \<Rightarrow> Inr (y # ys)))"

section \<open>Strings\<close>

definition starts_with :: "string \<Rightarrow> string \<Rightarrow> bool" where
  "starts_with s p \<longleftrightarrow> take (length p) s = p"

definition ends_with :: "string \<Rightarrow> string \<Rightarrow> bool" where
  "ends_with s p \<longleftrightarrow> starts_with (rev s) (rev p)"

definition strip_prefix :: "string \<Rightarrow> string \<Rightarrow> string option" where
  "strip_prefix p s = (if starts_with s p then Some (drop (length p) s) else None)"

text \<open>\<open>str::split(c)\<close>: the empty string has one (empty) piece.\<close>

fun split_on :: "char \<Rightarrow> string \<Rightarrow> string list" where
  "split_on c [] = [[]]"
| "split_on c (x # xs) =
     (if x = c then [] # split_on c xs
      else (case split_on c xs of [] \<Rightarrow> [[x]] | s # ss \<Rightarrow> (x # s) # ss))"

fun join :: "string \<Rightarrow> string list \<Rightarrow> string" where
  "join sep [] = []"
| "join sep [s] = s"
| "join sep (s # t # ss) = s @ sep @ join sep (t # ss)"

definition newline :: string where "newline = [CHR 10]"

definition dquote :: string where "dquote = [CHR 34]"

definition trim_start_matches :: "char \<Rightarrow> string \<Rightarrow> string" where
  "trim_start_matches c s = dropWhile (\<lambda>x. x = c) s"

definition trim_end_matches :: "char \<Rightarrow> string \<Rightarrow> string" where
  "trim_end_matches c s = rev (dropWhile (\<lambda>x. x = c) (rev s))"

definition trim_matches :: "char \<Rightarrow> string \<Rightarrow> string" where
  "trim_matches c s = trim_end_matches c (trim_start_matches c s)"

text \<open>\<open>str::contains\<close> with a substring pattern, and the byte offset of its first occurrence.\<close>

fun find_sub :: "string \<Rightarrow> string \<Rightarrow> nat option" where
  "find_sub p [] = (if p = [] then Some 0 else None)"
| "find_sub p (x # xs) =
     (if starts_with (x # xs) p then Some 0 else map_option Suc (find_sub p xs))"

definition contains_sub :: "string \<Rightarrow> string \<Rightarrow> bool" where
  "contains_sub s p \<longleftrightarrow> find_sub p s \<noteq> None"

definition replace_char :: "char \<Rightarrow> string \<Rightarrow> string \<Rightarrow> string" where
  "replace_char c r s = concat (map (\<lambda>x. if x = c then r else [x]) s)"

text \<open>\<open>str::replace\<close> with a non-empty substring pattern: leftmost, non-overlapping.\<close>

function replace_sub :: "string \<Rightarrow> string \<Rightarrow> string \<Rightarrow> string" where
  "replace_sub p r s =
     (case s of
        [] \<Rightarrow> []
      | x # xs \<Rightarrow>
          if p \<noteq> [] \<and> starts_with s p then r @ replace_sub p r (drop (length p) s)
          else x # replace_sub p r xs)"
  by pat_completeness auto
termination
  by (relation "measure (\<lambda>(p, r, s). length s)") (auto simp: starts_with_def)

declare replace_sub.simps [simp del]

text \<open>
  \<open>str::trim_start\<close>: the length in bytes of a leading character with Unicode's White\_Space
  property (0 when there is none), and the string without its leading run of them.
\<close>

definition whitespace_len :: "string \<Rightarrow> nat" where
  "whitespace_len s =
     (case map of_char s :: nat list of
        a # b # c # _ \<Rightarrow>
          if a = 32 \<or> (9 \<le> a \<and> a \<le> 13) then 1
          else if a = 194 \<and> (b = 133 \<or> b = 160) then 2
          else if a = 225 \<and> b = 154 \<and> c = 128 then 3
          else if a = 226 \<and> b = 128 \<and> ((128 \<le> c \<and> c \<le> 138) \<or> c = 168 \<or> c = 169 \<or> c = 175) then 3
          else if a = 226 \<and> b = 129 \<and> c = 159 then 3
          else if a = 227 \<and> b = 128 \<and> c = 128 then 3
          else 0
      | [a, b] \<Rightarrow>
          if a = 32 \<or> (9 \<le> a \<and> a \<le> 13) then 1
          else if a = 194 \<and> (b = 133 \<or> b = 160) then 2 else 0
      | [a] \<Rightarrow> if a = 32 \<or> (9 \<le> a \<and> a \<le> 13) then 1 else 0
      | [] \<Rightarrow> 0)"

function trim_start :: "string \<Rightarrow> string" where
  "trim_start s =
     (if s = [] \<or> whitespace_len s = 0 then s else trim_start (drop (whitespace_len s) s))"
  by pat_completeness auto
termination
  by (relation "measure length") auto

declare trim_start.simps [simp del]

text \<open>\<open>str::trim_end\<close>: the bytes of a trailing white-space character, as in \<open>whitespace_len\<close>.\<close>

definition whitespace_suffix_len :: "string \<Rightarrow> nat" where
  "whitespace_suffix_len s =
     (case map of_char (rev s) :: nat list of
        [] \<Rightarrow> 0
      | a # _ \<Rightarrow>
          if a = 32 \<or> (9 \<le> a \<and> a \<le> 13) then 1
          else if whitespace_len (drop (length s - 2) s) = 2 then 2
          else if whitespace_len (drop (length s - 3) s) = 3 then 3
          else 0)"

function trim_end :: "string \<Rightarrow> string" where
  "trim_end s =
     (if s = [] \<or> whitespace_suffix_len s = 0 then s else trim_end (take (length s - whitespace_suffix_len s) s))"
  by pat_completeness auto
termination
  by (relation "measure length") auto

declare trim_end.simps [simp del]

definition trim :: "string \<Rightarrow> string" where
  "trim s = trim_end (trim_start s)"

text \<open>\<open>str::lines\<close>: pieces ended by a newline, without a carriage return before it; no empty last piece.\<close>

definition strip_cr :: "string \<Rightarrow> string" where
  "strip_cr s = (if s \<noteq> [] \<and> last s = CHR 13 then butlast s else s)"

definition str_lines :: "string \<Rightarrow> string list" where
  "str_lines s =
     (let ps = split_on (CHR 10) s;
          ps' = (if last ps = [] then butlast ps else ps)
      in map strip_cr (butlast ps') @ (if ps' = [] then [] else [if last ps = [] then strip_cr (last ps') else last ps']))"

subsection \<open>ASCII classes and case\<close>

definition byte :: "char \<Rightarrow> nat" where
  "byte c = of_char c"

definition is_ascii_digit :: "char \<Rightarrow> bool" where
  "is_ascii_digit c \<longleftrightarrow> 48 \<le> byte c \<and> byte c \<le> 57"

definition is_ascii_upper :: "char \<Rightarrow> bool" where
  "is_ascii_upper c \<longleftrightarrow> 65 \<le> byte c \<and> byte c \<le> 90"

definition is_ascii_lower :: "char \<Rightarrow> bool" where
  "is_ascii_lower c \<longleftrightarrow> 97 \<le> byte c \<and> byte c \<le> 122"

definition is_ascii_alphabetic :: "char \<Rightarrow> bool" where
  "is_ascii_alphabetic c \<longleftrightarrow> is_ascii_upper c \<or> is_ascii_lower c"

definition is_ascii_alphanumeric :: "char \<Rightarrow> bool" where
  "is_ascii_alphanumeric c \<longleftrightarrow> is_ascii_alphabetic c \<or> is_ascii_digit c"

definition to_ascii_lower :: "char \<Rightarrow> char" where
  "to_ascii_lower c = (if is_ascii_upper c then char_of (byte c + 32) else c)"

definition to_ascii_upper :: "char \<Rightarrow> char" where
  "to_ascii_upper c = (if is_ascii_lower c then char_of (byte c - 32) else c)"

definition to_lowercase :: "string \<Rightarrow> string" where
  "to_lowercase s = map to_ascii_lower s"

definition to_uppercase :: "string \<Rightarrow> string" where
  "to_uppercase s = map to_ascii_upper s"

definition eq_ignore_ascii_case :: "string \<Rightarrow> string \<Rightarrow> bool" where
  "eq_ignore_ascii_case s t \<longleftrightarrow> map to_ascii_lower s = map to_ascii_lower t"

subsection \<open>Numbers as text\<close>

definition digit_char :: "nat \<Rightarrow> char" where
  "digit_char d = char_of (48 + d)"

fun show_nat :: "nat \<Rightarrow> string" where
  "show_nat n = (if n < 10 then [digit_char n] else show_nat (n div 10) @ [digit_char (n mod 10)])"

declare show_nat.simps [simp del]

text \<open>Evaluation of numbers printed and read.\<close>

lemmas show_nat_eval = show_nat.simps digit_char_def char_of_def bit_0

text \<open>The value of a digit string, or None when a character is not a digit.\<close>

fun digits_val :: "nat \<Rightarrow> string \<Rightarrow> nat option" where
  "digits_val acc [] = Some acc"
| "digits_val acc (c # cs) =
     (if is_ascii_digit c then digits_val (10 * acc + (byte c - 48)) cs else None)"

text \<open>
  \<open>str::parse\<close> for an unsigned integer of \<open>w\<close> bits: an optional \<open>+\<close>, at least one digit,
  None on any other character and on overflow.
\<close>

definition parse_unsigned :: "nat \<Rightarrow> string \<Rightarrow> nat option" where
  "parse_unsigned w s =
     (let ds = (case s of c # cs \<Rightarrow> if c = CHR ''+'' then cs else s | [] \<Rightarrow> [])
      in if ds = [] then None
         else (case digits_val 0 ds of
                 None \<Rightarrow> None
               | Some n \<Rightarrow> if n < 2 ^ w then Some n else None))"

lemmas parse_eval = parse_unsigned_def is_ascii_digit_def byte_def

text \<open>The \<open>{:?}\<close> form of a string: quotes, with the ASCII escapes of Rust's \<open>Debug for str\<close>.\<close>

definition hex_digit :: "nat \<Rightarrow> char" where
  "hex_digit d = (if d < 10 then char_of (48 + d) else char_of (87 + d))"

definition hex_byte :: "nat \<Rightarrow> string" where
  "hex_byte n = (if n < 16 then [hex_digit n] else [hex_digit (n div 16), hex_digit (n mod 16)])"

definition debug_char :: "char \<Rightarrow> string" where
  "debug_char c =
     (let n = byte c in
      if n = 34 then [CHR 92, CHR 34]
      else if n = 92 then [CHR 92, CHR 92]
      else if n = 10 then [CHR 92, CHR ''n'']
      else if n = 13 then [CHR 92, CHR ''r'']
      else if n = 9 then [CHR 92, CHR ''t'']
      else if n = 0 then [CHR 92, CHR ''0'']
      else if n < 32 \<or> n = 127 then [CHR 92] @ ''u{'' @ hex_byte n @ ''}''
      else [c])"

definition debug_str :: "string \<Rightarrow> string" where
  "debug_str s = [CHR 34] @ concat (map debug_char s) @ [CHR 34]"

section \<open>Visiting orders\<close>

text \<open>
  The order in which a \<open>HashSet\<close> or \<open>HashMap\<close> is iterated is unspecified: a function from sets to
  lists that lists every element of a finite set once.
\<close>

definition visits_all :: "('a set \<Rightarrow> 'a list) \<Rightarrow> bool" where
  "visits_all ord \<longleftrightarrow> (\<forall>A. finite A \<longrightarrow> distinct (ord A) \<and> set (ord A) = A)"

section \<open>Lemmas on results and lists\<close>

lemma try_map_Inr_iff:
  "try_map f xs = Inr ys \<longleftrightarrow> list_all2 (\<lambda>x y. f x = Inr y) xs ys"
proof (induction xs arbitrary: ys)
  case Nil
  show ?case by auto
next
  case (Cons x xs)
  show ?case
    by (cases ys) (auto simp flip: Cons.IH split: sum.splits)
qed

lemma try_map_Inl_iff:
  "try_map f xs = Inl e \<longleftrightarrow>
     (\<exists>us x vs. xs = us @ x # vs \<and> f x = Inl e \<and> (\<forall>u\<in>set us. \<exists>y. f u = Inr y))"
proof (induction xs)
  case Nil
  show ?case by simp
next
  case (Cons x xs)
  show ?case
  proof (cases "f x")
    case (Inl e')
    then show ?thesis
      by (auto simp: Cons_eq_append_conv) force
  next
    case (Inr y)
    then have "try_map f (x # xs) = Inl e \<longleftrightarrow> try_map f xs = Inl e"
      by (auto split: sum.splits)
    also have "\<dots> \<longleftrightarrow> (\<exists>us z vs. x # xs = us @ z # vs \<and> f z = Inl e \<and>
        (\<forall>u\<in>set us. \<exists>y. f u = Inr y))" (is "_ \<longleftrightarrow> ?R")
    proof
      assume "try_map f xs = Inl e"
      then obtain us z vs where "xs = us @ z # vs" "f z = Inl e"
        "\<forall>u\<in>set us. \<exists>y. f u = Inr y"
        using Cons.IH by auto
      with Inr show ?R by (intro exI [of _ "x # us"] exI [of _ z] exI [of _ vs]) auto
    next
      assume ?R
      with Inr obtain us z vs where "xs = us @ z # vs" "f z = Inl e"
        "\<forall>u\<in>set us. \<exists>y. f u = Inr y"
        by (auto simp: Cons_eq_append_conv)
      then show "try_map f xs = Inl e"
        unfolding Cons.IH by blast
    qed
    finally show ?thesis .
  qed
qed

lemma try_map_ok: "(\<And>x. x \<in> set xs \<Longrightarrow> \<exists>y. f x = Inr y) \<Longrightarrow> \<exists>ys. try_map f xs = Inr ys"
proof (induction xs)
  case (Cons x xs)
  then obtain y ys where "f x = Inr y" "try_map f xs = Inr ys" by fastforce
  then show ?case by simp
qed simp

lemma try_map_total: "(\<And>x. x \<in> set xs \<Longrightarrow> f x = Inr (g x)) \<Longrightarrow> try_map f xs = Inr (map g xs)"
  by (induction xs) auto

lemma list_all2_right: "list_all2 P xs ys \<Longrightarrow> y \<in> set ys \<Longrightarrow> \<exists>x \<in> set xs. P x y"
  by (induction rule: list_all2_induct) auto

lemma find_Some_iff_filter: "List.find P xs = Some x \<longleftrightarrow> (\<exists>ys. filter P xs = x # ys)"
  by (induction xs) auto

lemma set_enumerate_snd: "snd ` set (List.enumerate 0 vs) = set vs"
  by (metis list.set_map map_snd_enumerate)

lemma enumerate_elem: "iv \<in> set (List.enumerate 0 vs) \<Longrightarrow> snd iv \<in> set vs"
  using set_enumerate_snd [of vs] by (metis image_eqI)

lemma elem_enumerate: "u \<in> set vs \<Longrightarrow> \<exists>i. (i, u) \<in> set (List.enumerate 0 vs)"
  using set_enumerate_snd [of vs] by (metis image_iff prod.collapse)

section \<open>Lemmas on strings\<close>

lemma starts_with_append [simp, string_simps]: "starts_with (p @ s) p"
  by (simp add: starts_with_def)

lemma starts_with_Nil [simp, string_simps]: "starts_with s []"
  by (simp add: starts_with_def)

lemma starts_with_iff: "starts_with s p \<longleftrightarrow> (\<exists>t. s = p @ t)"
  by (metis append_eq_conv_conj append_take_drop_id starts_with_def)

lemma starts_with_set: "starts_with s p \<Longrightarrow> set p \<subseteq> set s"
  by (auto simp: starts_with_iff)

lemma strip_prefix_append [simp, string_simps]: "strip_prefix p (p @ s) = Some s"
  by (simp add: strip_prefix_def)

lemma strip_prefix_Some_iff: "strip_prefix p s = Some t \<longleftrightarrow> s = p @ t"
  by (auto simp: strip_prefix_def starts_with_iff)

lemma split_on_neq_Nil [simp]: "split_on c s \<noteq> []"
  by (cases s) (auto split: list.splits)

lemma split_on_no_sep: "c \<notin> set s \<Longrightarrow> split_on c s = [s]"
  by (induction s) auto

lemma split_on_pieces: "p \<in> set (split_on c s) \<Longrightarrow> c \<notin> set p"
proof (induction s arbitrary: p)
  case Nil
  then show ?case by simp
next
  case (Cons x s)
  then show ?case
    by (cases "split_on c s") (auto split: if_splits)
qed

lemma split_on_append_sep: "split_on c (s @ c # t) = split_on c s @ split_on c t"
proof (induction s)
  case Nil
  show ?case by simp
next
  case (Cons x s)
  then show ?case by (cases "split_on c s") auto
qed

lemma join_split_on: "join [c] (split_on c s) = s"
proof (induction s)
  case Nil
  show ?case by simp
next
  case (Cons x s)
  obtain p ps where "split_on c s = p # ps"
    by (cases "split_on c s") auto
  with Cons show ?case by (cases ps) auto
qed

lemma length_split_on: "length (split_on c s) = Suc (count_list s c)"
proof (induction s)
  case (Cons x s)
  then show ?case by (cases "split_on c s") auto
qed simp

lemma trim_start_suffix: "\<exists>u. s = u @ trim_start s"
proof (induction s rule: trim_start.induct)
  case (1 s)
  show ?case
  proof (cases "s = [] \<or> whitespace_len s = 0")
    case True
    then show ?thesis by (subst trim_start.simps) simp
  next
    case False
    from 1 [OF False] obtain u where "drop (whitespace_len s) s = u @ trim_start (drop (whitespace_len s) s)" by blast
    then have "s = take (whitespace_len s) s @ u @ trim_start (drop (whitespace_len s) s)"
      by (metis append_take_drop_id)
    moreover have "trim_start s = trim_start (drop (whitespace_len s) s)"
      using False by (subst trim_start.simps) simp
    ultimately show ?thesis by (metis append_assoc)
  qed
qed

lemma trim_end_prefix: "\<exists>v. s = trim_end s @ v"
proof (induction s rule: trim_end.induct)
  case (1 s)
  let ?k = "length s - whitespace_suffix_len s"
  show ?case
  proof (cases "s = [] \<or> whitespace_suffix_len s = 0")
    case True
    then show ?thesis by (subst trim_end.simps) simp
  next
    case False
    from 1 [OF False] obtain v where "take ?k s = trim_end (take ?k s) @ v" by blast
    then have "s = trim_end (take ?k s) @ v @ drop ?k s"
      by (metis append_assoc append_take_drop_id)
    moreover have "trim_end s = trim_end (take ?k s)" using False by (subst trim_end.simps) simp
    ultimately show ?thesis by metis
  qed
qed

lemma trim_infix: "\<exists>u v. s = u @ trim s @ v"
  unfolding trim_def using trim_start_suffix [of s] trim_end_prefix [of "trim_start s"] by metis

lemma find_sub_Some: "find_sub p s = Some i \<Longrightarrow> \<exists>u v. s = u @ p @ v \<and> length u = i"
proof (induction s arbitrary: i)
  case Nil
  then show ?case by (auto split: if_splits)
next
  case (Cons x s)
  show ?case
  proof (cases "starts_with (x # s) p")
    case True
    with Cons.prems show ?thesis by (auto simp: starts_with_iff)
  next
    case False
    with Cons.prems obtain j where "find_sub p s = Some j" "i = Suc j"
      by (auto split: if_splits)
    with Cons.IH obtain u v where "s = u @ p @ v" "length u = j" by blast
    with \<open>i = Suc j\<close> show ?thesis
      by (intro exI [of _ "x # u"] exI [of _ v]) simp
  qed
qed

lemma find_sub_None: "find_sub p s = None \<Longrightarrow> s \<noteq> u @ p @ v"
proof (induction s arbitrary: u)
  case Nil
  then show ?case by (auto split: if_splits)
next
  case (Cons x s)
  then have "\<not> starts_with (x # s) p" "find_sub p s = None"
    by (auto split: if_splits)
  then show ?case
    using Cons.IH by (cases u) (auto simp: starts_with_iff)
qed

lemma contains_sub_iff: "contains_sub s p \<longleftrightarrow> (\<exists>u v. s = u @ p @ v)"
  using find_sub_Some find_sub_None unfolding contains_sub_def by blast

lemma set_replace_char: "set (replace_char c r s) \<subseteq> (set s - {c}) \<union> set r"
  by (auto simp: replace_char_def split: if_splits)

lemma replace_char_idle: "c \<notin> set s \<Longrightarrow> replace_char c r s = s"
  by (induction s) (auto simp: replace_char_def)

lemma replace_sub_Nil [simp]: "replace_sub p r [] = []"
  by (simp add: replace_sub.simps)

lemma replace_sub_idle: "c \<in> set p \<Longrightarrow> c \<notin> set s \<Longrightarrow> replace_sub p r s = s"
proof (induction s)
  case Nil
  then show ?case by simp
next
  case (Cons x s)
  then have "\<not> starts_with (x # s) p"
    using starts_with_set [of "x # s" p] by auto
  with Cons show ?case by (simp add: replace_sub.simps [of p r "x # s"])
qed

lemma byte_less [simp]: "byte c < 256"
  unfolding byte_def by simp

lemma byte_char_of [simp]: "n < 256 \<Longrightarrow> byte (char_of n) = n"
  by (simp add: byte_def)

lemma byte_eq_iff: "byte c = byte d \<longleftrightarrow> c = d"
  by (simp add: byte_def)

lemma is_ascii_digit_digit_char: "d < 10 \<Longrightarrow> is_ascii_digit (digit_char d) \<and> byte (digit_char d) = 48 + d"
  by (simp add: is_ascii_digit_def digit_char_def)

lemma show_nat_neq_Nil [simp]: "show_nat n \<noteq> []"
  by (subst show_nat.simps) simp

lemma digits_val_append:
  "digits_val acc (s @ t) = (case digits_val acc s of None \<Rightarrow> None | Some a \<Rightarrow> digits_val a t)"
  by (induction s arbitrary: acc) auto

lemma digits_val_show_nat: "digits_val 0 (show_nat n) = Some n"
proof (induction n rule: show_nat.induct)
  case (1 n)
  show ?case
  proof (cases "n < 10")
    case True
    then show ?thesis
      by (simp add: show_nat.simps [of n] is_ascii_digit_digit_char)
  next
    case False
    with 1 have "digits_val 0 (show_nat (n div 10)) = Some (n div 10)" by simp
    with False show ?thesis
      by (simp add: show_nat.simps [of n] digits_val_append is_ascii_digit_digit_char)
  qed
qed

lemma digits_show_nat: "c \<in> set (show_nat n) \<Longrightarrow> is_ascii_digit c"
proof (induction n rule: show_nat.induct)
  case (1 n)
  show ?case
  proof (cases "n < 10")
    case True
    with 1 show ?thesis by (simp add: show_nat.simps [of n] is_ascii_digit_digit_char)
  next
    case False
    with 1 show ?thesis by (auto simp: show_nat.simps [of n] is_ascii_digit_digit_char)
  qed
qed

lemma parse_show_nat: "n < 2 ^ w \<Longrightarrow> parse_unsigned w (show_nat n) = Some n"
proof -
  assume n: "n < 2 ^ w"
  obtain c cs where s: "show_nat n = c # cs"
    by (cases "show_nat n") auto
  then have "is_ascii_digit c" using digits_show_nat [of c n] by simp
  then have "c \<noteq> CHR ''+''" by (auto simp: is_ascii_digit_def byte_def)
  with s n digits_val_show_nat [of n] show ?thesis
    by (simp add: parse_unsigned_def)
qed

lemma show_nat_inject [simp]: "show_nat m = show_nat n \<longleftrightarrow> m = n"
  by (metis digits_val_show_nat option.inject)

end
