(* ===== verification/Maps.thy ===== *)
theory Maps
  imports Prelude
begin

text \<open>
  The two keyed containers the sources use, as association lists:
  \<open>indexmap::IndexMap\<close>, which keeps insertion order and on a repeated key replaces the value in
  place (\<open>im_insert\<close>), and \<open>std::collections::BTreeMap\<close>, which iterates in key order
  (\<open>bt_insert\<close>, \<open>bt_remove\<close>) and is also what \<open>serde_json::Map\<close> is in this
  build (Cargo.lock selects no \<open>preserve_order\<close> feature).

  The locale \<open>keyed_map\<close> states the contract both offer to their clients; its lemmas on
  bulk insertion (the loops \<open>for (k, v) in src { dst.insert(k, v) }\<close> of the sources) are
  proved once and used through the two interpretations.
\<close>

section \<open>Operations\<close>

fun im_insert :: "'k \<Rightarrow> 'v \<Rightarrow> ('k \<times> 'v) list \<Rightarrow> ('k \<times> 'v) list" where
  "im_insert k v [] = [(k, v)]"
| "im_insert k v ((a, b) # m) = (if a = k then (a, v) # m else (a, b) # im_insert k v m)"

fun bt_insert :: "'k::linorder \<Rightarrow> 'v \<Rightarrow> ('k \<times> 'v) list \<Rightarrow> ('k \<times> 'v) list" where
  "bt_insert k v [] = [(k, v)]"
| "bt_insert k v ((a, b) # m) =
     (if k < a then (k, v) # (a, b) # m
      else if k = a then (k, v) # m
      else (a, b) # bt_insert k v m)"

definition bt_remove :: "'k \<Rightarrow> ('k \<times> 'v) list \<Rightarrow> ('k \<times> 'v) list" where
  "bt_remove k m = filter (\<lambda>(a, b). a \<noteq> k) m"

definition contains_key :: "('k \<times> 'v) list \<Rightarrow> 'k \<Rightarrow> bool" where
  "contains_key m k \<longleftrightarrow> map_of m k \<noteq> None"

definition im_invar :: "('k \<times> 'v) list \<Rightarrow> bool" where
  "im_invar m \<longleftrightarrow> distinct (map fst m)"

definition bt_invar :: "('k::linorder \<times> 'v) list \<Rightarrow> bool" where
  "bt_invar m \<longleftrightarrow> sorted_wrt (<) (map fst m)"

definition im_insert_all :: "('k \<times> 'v) list \<Rightarrow> ('k \<times> 'v) list \<Rightarrow> ('k \<times> 'v) list" where
  "im_insert_all kvs m = fold (\<lambda>(k, v) m. im_insert k v m) kvs m"

definition bt_insert_all :: "('k::linorder \<times> 'v) list \<Rightarrow> ('k \<times> 'v) list \<Rightarrow> ('k \<times> 'v) list" where
  "bt_insert_all kvs m = fold (\<lambda>(k, v) m. bt_insert k v m) kvs m"

section \<open>The interface\<close>

locale keyed_map =
  fixes get :: "'m \<Rightarrow> 'k \<Rightarrow> 'v option"
    and insert :: "'k \<Rightarrow> 'v \<Rightarrow> 'm \<Rightarrow> 'm"
    and invar :: "'m \<Rightarrow> bool"
  assumes get_insert: "invar m \<Longrightarrow> get (insert k v m) k' = (if k' = k then Some v else get m k')"
    and invar_insert: "invar m \<Longrightarrow> invar (insert k v m)"
begin

lemma invar_insert_all: "invar m \<Longrightarrow> invar (fold (\<lambda>(k, v) m. insert k v m) kvs m)"
  by (induction kvs arbitrary: m) (auto intro: invar_insert)

text \<open>The last binding of a key in the inserted list wins; other keys keep their value.\<close>

lemma get_insert_all:
  "invar m \<Longrightarrow>
   get (fold (\<lambda>(k, v) m. insert k v m) kvs m) k =
     (case map_of (rev kvs) k of None \<Rightarrow> get m k | Some v \<Rightarrow> Some v)"
proof (induction kvs arbitrary: m)
  case Nil
  show ?case by simp
next
  case (Cons kv kvs)
  obtain a b where [simp]: "kv = (a, b)" by (cases kv)
  have "get (fold (\<lambda>(k, v) m. insert k v m) kvs (insert a b m)) k =
      (case map_of (rev kvs) k of None \<Rightarrow> get (insert a b m) k | Some v \<Rightarrow> Some v)"
    using Cons by (simp add: invar_insert)
  with Cons.prems show ?case
    by (auto simp: map_of_append map_add_def get_insert split: option.splits)
qed

text \<open>Inserting the pairs of one key-distinct list after another: the second list wins.\<close>

lemma get_insert_all_distinct:
  assumes "invar m" and "distinct (map fst kvs)"
  shows "get (fold (\<lambda>(k, v) m. insert k v m) kvs m) k =
     (case map_of kvs k of None \<Rightarrow> get m k | Some v \<Rightarrow> Some v)"
proof -
  have "map_of (rev kvs) = map_of kvs"
    using assms(2) by (subst map_of_inject_set) (simp_all add: rev_map [symmetric])
  with assms(1) show ?thesis by (simp add: get_insert_all)
qed

end

section \<open>IndexMap and BTreeMap provide the interface\<close>

lemma map_of_im_insert [map_laws]: "map_of (im_insert k v m) = (map_of m)(k \<mapsto> v)"
  by (induction k v m rule: im_insert.induct) auto

lemma keys_im_insert: "map fst (im_insert k v m) =
    (if k \<in> fst ` set m then map fst m else map fst m @ [k])"
  by (induction k v m rule: im_insert.induct) auto

lemma im_invar_insert: "im_invar m \<Longrightarrow> im_invar (im_insert k v m)"
  unfolding im_invar_def by (auto simp: keys_im_insert)

lemma map_of_bt_insert [map_laws]: "map_of (bt_insert k v m) = (map_of m)(k \<mapsto> v)"
  by (induction k v m rule: bt_insert.induct) (auto simp: fun_upd_twist)

lemma set_keys_bt_insert: "fst ` set (bt_insert k v m) = insert k (fst ` set m)"
  by (induction k v m rule: bt_insert.induct) auto

lemma bt_invar_insert: "bt_invar m \<Longrightarrow> bt_invar (bt_insert k v m)"
proof (induction k v m rule: bt_insert.induct)
  case (1 k v)
  show ?case by (simp add: bt_invar_def)
next
  case (2 k v a b m)
  then show ?case
    using set_keys_bt_insert [of k v m]
    by (auto simp: bt_invar_def image_iff)
qed

lemma bt_invar_remove: "bt_invar m \<Longrightarrow> bt_invar (bt_remove k m)"
proof (induction m)
  case Nil
  show ?case by (simp add: bt_invar_def bt_remove_def)
next
  case (Cons x m)
  then show ?case by (auto simp: bt_invar_def bt_remove_def)
qed

lemma bt_invar_distinct: "bt_invar m \<Longrightarrow> distinct (map fst m)"
  by (simp add: bt_invar_def strict_sorted_iff)

lemma map_of_bt_remove [map_laws]: "map_of (bt_remove k m) = (map_of m)(k := None)"
  by (induction m) (auto simp: bt_remove_def)

lemma bt_remove_not_in: "k \<notin> fst ` set m \<Longrightarrow> bt_remove k m = m"
  by (induction m) (auto simp: bt_remove_def)

interpretation indexmap: keyed_map map_of im_insert im_invar
  by unfold_locales (auto simp: map_laws im_invar_insert)

interpretation btreemap: keyed_map map_of bt_insert bt_invar
  by unfold_locales (auto simp: map_laws bt_invar_insert)

lemmas im_invar_insert_all = indexmap.invar_insert_all [folded im_insert_all_def]
lemmas im_get_insert_all = indexmap.get_insert_all [folded im_insert_all_def]
lemmas bt_invar_insert_all = btreemap.invar_insert_all [folded bt_insert_all_def]
lemmas bt_get_insert_all = btreemap.get_insert_all [folded bt_insert_all_def]
lemmas bt_get_insert_all_distinct = btreemap.get_insert_all_distinct [folded bt_insert_all_def]

lemma set_im_insert: "set (im_insert k v m) \<subseteq> insert (k, v) (set m)"
  by (induction k v m rule: im_insert.induct) auto

lemma set_bt_insert: "set (bt_insert k v m) \<subseteq> insert (k, v) (set m)"
  by (induction k v m rule: bt_insert.induct) auto

lemma set_bt_remove: "set (bt_remove k m) \<subseteq> set m"
  by (auto simp: bt_remove_def)

lemma contains_key_iff: "contains_key m k \<longleftrightarrow> k \<in> fst ` set m"
  by (auto simp: contains_key_def map_of_eq_None_iff)

end
