(* ===== verification/Json.thy ===== *)
theory Json
  imports Maps
begin

text \<open>
  The JSON values the sources pass around (\<open>serde_json::Value\<close>): numbers keep serde's
  three representations (unsigned, negative, finite float), objects are \<open>BTreeMap\<close>s and so
  iterate in key order. The accessors are the ones the sources call (\<open>get\<close>, \<open>as_str\<close>,
  \<open>as_object\<close>, \<open>is_number\<close>, \<dots>). \<open>json_wf\<close> is the representation invariant: every
  object at every depth is a key-sorted map.

  The locale \<open>json_rewrite\<close> captures the shape shared by the recursive passes of spec.rs:
  rewrite the entries of an object locally, then recurse into the values of the result.
\<close>

section \<open>Values\<close>

datatype json_number = PosInt "64 word" | NegInt "64 word" | Float rat

datatype json =
    JNull
  | JBool bool
  | JNumber json_number
  | JString string
  | JArray "json list"
  | JObject "(string \<times> json) list"

type_synonym json_object = "(string \<times> json) list"

fun json_get :: "json \<Rightarrow> string \<Rightarrow> json option" where
  "json_get (JObject m) k = map_of m k"
| "json_get _ k = None"

fun as_object :: "json \<Rightarrow> json_object option" where
  "as_object (JObject m) = Some m"
| "as_object _ = None"

fun as_array :: "json \<Rightarrow> json list option" where
  "as_array (JArray xs) = Some xs"
| "as_array _ = None"

fun as_str :: "json \<Rightarrow> string option" where
  "as_str (JString s) = Some s"
| "as_str _ = None"

fun as_bool :: "json \<Rightarrow> bool option" where
  "as_bool (JBool b) = Some b"
| "as_bool _ = None"

definition is_object :: "json \<Rightarrow> bool" where "is_object j \<longleftrightarrow> as_object j \<noteq> None"
definition is_array :: "json \<Rightarrow> bool" where "is_array j \<longleftrightarrow> as_array j \<noteq> None"
definition is_string :: "json \<Rightarrow> bool" where "is_string j \<longleftrightarrow> as_str j \<noteq> None"
definition is_boolean :: "json \<Rightarrow> bool" where "is_boolean j \<longleftrightarrow> as_bool j \<noteq> None"
definition is_null :: "json \<Rightarrow> bool" where "is_null j \<longleftrightarrow> j = JNull"

fun is_number :: "json \<Rightarrow> bool" where
  "is_number (JNumber _) = True"
| "is_number _ = False"

text \<open>\<open>is_i64\<close>: representable as a signed 64-bit integer; \<open>is_u64\<close>: as an unsigned one.\<close>

fun number_is_i64 :: "json_number \<Rightarrow> bool" where
  "number_is_i64 (PosInt w) = (uint w \<le> 2 ^ 63 - 1)"
| "number_is_i64 (NegInt w) = True"
| "number_is_i64 (Float r) = False"

fun number_is_u64 :: "json_number \<Rightarrow> bool" where
  "number_is_u64 (PosInt w) = True"
| "number_is_u64 _ = False"

fun is_i64 :: "json \<Rightarrow> bool" where
  "is_i64 (JNumber n) = number_is_i64 n"
| "is_i64 _ = False"

fun is_u64 :: "json \<Rightarrow> bool" where
  "is_u64 (JNumber n) = number_is_u64 n"
| "is_u64 _ = False"

lemma as_array_Some [simp]: "as_array j = Some xs \<longleftrightarrow> j = JArray xs"
  by (cases j) auto

lemma as_object_Some [simp]: "as_object j = Some m \<longleftrightarrow> j = JObject m"
  by (cases j) auto

lemma as_str_Some [simp]: "as_str j = Some s \<longleftrightarrow> j = JString s"
  by (cases j) auto

section \<open>Properties of every object of a value\<close>

fun all_objects :: "(json_object \<Rightarrow> bool) \<Rightarrow> json \<Rightarrow> bool" where
  "all_objects P (JArray xs) = list_all (all_objects P) xs"
| "all_objects P (JObject m) = (P m \<and> list_all (\<lambda>kv. all_objects P (snd kv)) m)"
| "all_objects P j = True"

definition json_wf :: "json \<Rightarrow> bool" where
  "json_wf j \<longleftrightarrow> all_objects bt_invar j"

definition map_values :: "('a \<Rightarrow> 'b) \<Rightarrow> ('k \<times> 'a) list \<Rightarrow> ('k \<times> 'b) list" where
  "map_values f m = map (\<lambda>kv. (fst kv, f (snd kv))) m"

definition max_list :: "nat list \<Rightarrow> nat" where
  "max_list xs = foldr max xs 0"

text \<open>
  A rank that bounds the recursion of the passes: it grows with depth, by more than one per
  object, and by a further step for an object whose \<open>$ref\<close> has siblings.
\<close>

fun json_rank :: "json \<Rightarrow> nat" where
  "json_rank (JArray xs) = 1 + max_list (map json_rank xs)"
| "json_rank (JObject m) =
     (if contains_key m ''$ref'' \<and> 1 < length m then 10 else 4)
     + max_list (map (\<lambda>kv. json_rank (snd kv)) m)"
| "json_rank j = 0"

lemma max_list_mem: "x \<in> set xs \<Longrightarrow> x \<le> max_list xs"
  by (induction xs) (auto simp: max_list_def)

lemma max_list_leI: "(\<And>x. x \<in> set xs \<Longrightarrow> x \<le> b) \<Longrightarrow> max_list xs \<le> b"
  by (induction xs) (auto simp: max_list_def)

lemma max_list_Nil [simp]: "max_list [] = 0"
  and max_list_Cons [simp]: "max_list (x # xs) = max x (max_list xs)"
  by (simp_all add: max_list_def)

lemma json_rank_array: "x \<in> set xs \<Longrightarrow> json_rank x < json_rank (JArray xs)"
  using max_list_mem [of "json_rank x" "map json_rank xs"] by simp

lemma json_rank_value: "(k, v) \<in> set m \<Longrightarrow> json_rank v \<le> max_list (map (\<lambda>kv. json_rank (snd kv)) m)"
  by (rule max_list_mem) force

lemma json_rank_object: "(k, v) \<in> set m \<Longrightarrow> json_rank v + 4 \<le> json_rank (JObject m)"
  using json_rank_value [of k v m] by simp

lemma fst_map_values [simp]: "map fst (map_values f m) = map fst m"
  by (simp add: map_values_def comp_def)

lemma map_of_map_values [simp]: "map_of (map_values f m) k = map_option f (map_of m k)"
  by (induction m) (auto simp: map_values_def)

lemma bt_invar_map_values [simp]: "bt_invar (map_values f m) \<longleftrightarrow> bt_invar m"
  by (simp add: bt_invar_def)

lemma length_map_values [simp]: "length (map_values f m) = length m"
  by (simp add: map_values_def)

lemma contains_key_map_values [simp]: "contains_key (map_values f m) k \<longleftrightarrow> contains_key m k"
  by (simp add: contains_key_def)

lemma map_values_cong [fundef_cong]:
  "m = m' \<Longrightarrow> (\<And>kv. kv \<in> set m' \<Longrightarrow> f (snd kv) = g (snd kv)) \<Longrightarrow> map_values f m = map_values g m'"
  by (simp add: map_values_def)

lemma all_objects_mono: "(\<And>m. P m \<Longrightarrow> Q m) \<Longrightarrow> all_objects P j \<Longrightarrow> all_objects Q j"
  by (induction P j rule: all_objects.induct) (auto simp: list_all_iff)

lemma all_objects_value: "all_objects P (JObject m) \<Longrightarrow> map_of m k = Some v \<Longrightarrow> all_objects P v"
  by (auto simp: list_all_iff dest!: map_of_SomeD)

text \<open>A property of every value of an object.\<close>

definition values_sat :: "(json \<Rightarrow> bool) \<Rightarrow> json_object \<Rightarrow> bool" where
  "values_sat R m \<longleftrightarrow> (\<forall>(k, v) \<in> set m. R v)"

lemma values_sat_Nil [simp]: "values_sat R []"
  and values_sat_Cons [simp]: "values_sat R (kv # m) \<longleftrightarrow> R (snd kv) \<and> values_sat R m"
  by (auto simp: values_sat_def)

lemma values_sat_lookup: "values_sat R m \<Longrightarrow> map_of m k = Some v \<Longrightarrow> R v"
  by (auto simp: values_sat_def dest: map_of_SomeD)

lemma values_sat_insert [intro]: "values_sat R m \<Longrightarrow> R v \<Longrightarrow> values_sat R (bt_insert k v m)"
  unfolding values_sat_def using set_bt_insert [of k v m] by fastforce

lemma values_sat_remove [intro]: "values_sat R m \<Longrightarrow> values_sat R (bt_remove k m)"
  unfolding values_sat_def using set_bt_remove [of k m] by fastforce

lemma values_sat_mono: "values_sat R m \<Longrightarrow> (\<And>v. R v \<Longrightarrow> R' v) \<Longrightarrow> values_sat R' m"
  unfolding values_sat_def by fastforce

lemma all_objects_object [simp]: "all_objects P (JObject m) \<longleftrightarrow> P m \<and> values_sat (all_objects P) m"
  by (auto simp: values_sat_def list_all_iff)

declare all_objects.simps(2) [simp del]

section \<open>Recursive rewriting passes\<close>

locale json_rewrite =
  fixes step :: "json_object \<Rightarrow> json_object"
    and pass :: "json \<Rightarrow> json"
  assumes pass_object: "pass (JObject m) = JObject (map_values pass (step m))"
    and pass_array: "pass (JArray xs) = JArray (map pass xs)"
    and pass_leaf: "\<lbrakk>\<not> is_object j; \<not> is_array j\<rbrakk> \<Longrightarrow> pass j = j"
    and step_rank: "(k, v) \<in> set (step m) \<Longrightarrow> json_rank v < json_rank (JObject m)"
begin

text \<open>Induction along the recursion of the pass.\<close>

lemma pass_induct:
  assumes obj: "\<And>m. (\<And>k v. (k, v) \<in> set (step m) \<Longrightarrow> P v) \<Longrightarrow> P (JObject m)"
    and arr: "\<And>xs. (\<And>x. x \<in> set xs \<Longrightarrow> P x) \<Longrightarrow> P (JArray xs)"
    and leaf: "\<And>j. \<lbrakk>\<not> is_object j; \<not> is_array j\<rbrakk> \<Longrightarrow> P j"
  shows "P j"
proof (induction j rule: measure_induct_rule [of json_rank])
  case (less j)
  show ?case
  proof (cases j)
    case (JArray xs)
    with less show ?thesis using arr json_rank_array by blast
  next
    case (JObject m)
    with less show ?thesis using obj step_rank by blast
  qed (auto intro: leaf simp: is_object_def is_array_def)
qed

text \<open>What the local step establishes of its object, for any values below, holds everywhere.\<close>

lemma pass_establishes:
  assumes "\<And>m. Q (map_values pass (step m))"
  shows "all_objects Q (pass j)"
proof (induction j rule: pass_induct)
  case (1 m)
  then show ?case
    using assms by (auto simp: pass_object values_sat_def map_values_def)
next
  case (2 xs)
  then show ?case by (auto simp: pass_array list_all_iff)
next
  case (3 j)
  then show ?case by (cases j) (auto simp: pass_leaf is_object_def is_array_def)
qed

text \<open>
  A property \<open>P\<close> of objects that the step keeps in the values it hands on, and that makes the
  rewritten object satisfy \<open>Q\<close>, takes \<open>P\<close> everywhere to \<open>Q\<close> everywhere.
\<close>

lemma pass_transforms:
  assumes "\<And>m. \<lbrakk>P m; values_sat (all_objects P) m\<rbrakk> \<Longrightarrow> Q (map_values pass (step m))"
    and "\<And>m. \<lbrakk>P m; values_sat (all_objects P) m\<rbrakk> \<Longrightarrow> values_sat (all_objects P) (step m)"
    and "all_objects P j"
  shows "all_objects Q (pass j)"
  using assms(3)
proof (induction j rule: pass_induct)
  case (1 m)
  then have "P m" "values_sat (all_objects P) m" by auto
  with assms(1,2) have "Q (map_values pass (step m))" "values_sat (all_objects P) (step m)"
    by blast+
  with 1 show ?case
    by (fastforce simp: pass_object values_sat_def map_values_def)
next
  case (2 xs)
  then show ?case by (auto simp: pass_array list_all_iff)
next
  case (3 j)
  then show ?case by (cases j) (auto simp: pass_leaf is_object_def is_array_def)
qed

end

end
