(* ===== verification/Ir.thy ===== *)
theory Ir
  imports Maps
begin

text \<open>
  The language-neutral intermediate representation of crates/specforge-core/src/ir.rs and the
  error enums of error.rs. Structs are records whose fields carry a prefix for their struct
  (\<open>op_\<close> for \<open>Operation\<close>, \<open>om_\<close> for \<open>ObjectModel\<close>, \<dots>), since record fields share one
  name space. \<open>Type\<close> and \<open>Composition\<close> are mutually recursive in the source; the fields of
  \<open>Composition\<close> (kind, members, discriminator) are the arguments of the constructor
  \<open>TComposition\<close>. The schema registry is an \<open>IndexMap\<close>.
\<close>

section \<open>Errors (error.rs)\<close>

datatype spec_error =
    SpecIo string
  | SpecJson string
  | SpecYaml string
  | SpecInvalid string

datatype resolve_error =
    InvalidRef string
  | UnresolvedRef string
  | RefDepthExceeded string nat
  | UntypedSchema string

section \<open>Types\<close>

datatype scalar =
    ScString | ScDateTime | ScUuid | ScInteger | ScInteger64 | ScFloat | ScBoolean
  | ScBase64 | ScBinary

datatype composition_kind = AllOf | OneOf | AnyOf

record discriminator =
  disc_property_name :: string
  disc_mapping :: "(string \<times> string) list option"

datatype ir_type =
    TScalar scalar
  | TStringEnum "string list" bool
  | TArray ir_type bool
  | TMap ir_type
  | TReference string bool "string option"
  | TComposition composition_kind "ir_type list" "discriminator option"
  | TAny
  | TUnknown

record property =
  prop_name :: string
  prop_ty :: ir_type
  prop_required :: bool
  prop_description :: "string option"

record object_model =
  om_name :: string
  om_description :: "string option"
  om_properties :: "property list"
  om_additional_properties :: "ir_type option"
  om_shape_type :: "ir_type option"
  om_base_type :: "ir_type option"

record enum_variant =
  ev_value :: string
  ev_description :: "string option"

record enum_model =
  em_name :: string
  em_description :: "string option"
  em_variants :: "enum_variant list"

datatype model = MObject object_model | MEnum enum_model

fun model_name :: "model \<Rightarrow> string" where
  "model_name (MObject o') = om_name o'"
| "model_name (MEnum e) = em_name e"

type_synonym schema_registry = "(string \<times> model) list"

definition registry_get :: "schema_registry \<Rightarrow> string \<Rightarrow> model option" where
  "registry_get r n = map_of r n"

section \<open>Operations and the document\<close>

datatype http_method = Get | Post | Put | Patch | Delete | Head | Options

fun method_as_str :: "http_method \<Rightarrow> string" where
  "method_as_str Get = ''get''"
| "method_as_str Post = ''post''"
| "method_as_str Put = ''put''"
| "method_as_str Patch = ''patch''"
| "method_as_str Delete = ''delete''"
| "method_as_str Head = ''head''"
| "method_as_str Options = ''options''"

fun method_upper :: "http_method \<Rightarrow> string" where
  "method_upper Get = ''GET''"
| "method_upper Post = ''POST''"
| "method_upper Put = ''PUT''"
| "method_upper Patch = ''PATCH''"
| "method_upper Delete = ''DELETE''"
| "method_upper Head = ''HEAD''"
| "method_upper Options = ''OPTIONS''"

datatype param_location = InPath | InQuery | InHeader

record parameter =
  par_name :: string
  par_location :: param_location
  par_ty :: ir_type
  par_required :: bool
  par_description :: "string option"

record response =
  resp_status :: string
  resp_description :: "string option"
  resp_body :: "ir_type option"

record request_body =
  rb_ty :: ir_type
  rb_required :: bool
  rb_description :: "string option"

record retry_policy =
  rp_max_retries :: "32 word option"
  rp_retryable :: bool

record operation =
  op_operation_id :: string
  op_method :: http_method
  op_path :: string
  op_tag :: "string option"
  op_summary :: "string option"
  op_description :: "string option"
  op_parameters :: "parameter list"
  op_request_body :: "request_body option"
  op_responses :: "response list"
  op_retry_policy :: "retry_policy option"

record webhook =
  wh_name :: string
  wh_method :: http_method
  wh_path :: string
  wh_summary :: "string option"
  wh_description :: "string option"
  wh_request_body :: "request_body option"
  wh_responses :: "response list"

datatype security_scheme = HttpBearer | ApiKey string

definition IR_VERSION :: string where
  "IR_VERSION = ''1.0''"

record document =
  doc_ir_version :: string
  doc_title :: string
  doc_version :: string
  doc_base_url :: "string option"
  doc_security :: "security_scheme list"
  doc_schemas :: schema_registry
  doc_operations :: "operation list"
  doc_webhooks :: "webhook list"

section \<open>References of a type\<close>

text \<open>The names a type refers to, in left-to-right order.\<close>

fun type_refs :: "ir_type \<Rightarrow> string list" where
  "type_refs (TReference n _ _) = [n]"
| "type_refs (TArray t _) = type_refs t"
| "type_refs (TMap t) = type_refs t"
| "type_refs (TComposition _ ts _) = concat (map type_refs ts)"
| "type_refs _ = []"

text \<open>The number of nodes of a type expression.\<close>

fun type_nodes :: "ir_type \<Rightarrow> nat" where
  "type_nodes (TArray t _) = Suc (type_nodes t)"
| "type_nodes (TMap t) = Suc (type_nodes t)"
| "type_nodes (TComposition _ ts _) = Suc (sum_list (map type_nodes ts))"
| "type_nodes _ = 1"

text \<open>
  Several components walk a type and record the names it refers to in a set they thread through.
  The locale is what their walks have in common; it is interpreted by each of them.
\<close>

locale ref_collector =
  fixes collect :: "ir_type \<Rightarrow> string set \<Rightarrow> string set"
  assumes collect_reference: "collect (TReference n nl d) s = insert n s"
    and collect_array: "collect (TArray t nl) s = collect t s"
    and collect_map: "collect (TMap t) s = collect t s"
    and collect_composition: "collect (TComposition k ts disc) s = fold collect ts s"
    and collect_scalar: "collect (TScalar sc) s = s"
    and collect_enum: "collect (TStringEnum vs nl) s = s"
    and collect_any: "collect TAny s = s"
    and collect_unknown: "collect TUnknown s = s"
begin

lemma collect_eq: "collect t s = s \<union> set (type_refs t)"
proof (induction t arbitrary: s rule: type_refs.induct)
  case (4 k ts d)
  have "fold collect us s = s \<union> (\<Union>t \<in> set us. set (type_refs t))" if "set us \<subseteq> set ts" for us
    using that
  proof (induction us arbitrary: s)
    case (Cons u us)
    then show ?case using 4 by auto
  qed simp
  then show ?case by (simp add: collect_composition)
qed (auto simp: collect_reference collect_array collect_map collect_scalar collect_enum collect_any collect_unknown)

lemma fold_collect_eq: "fold (\<lambda>x. collect (f x)) xs s = s \<union> (\<Union>x \<in> set xs. set (type_refs (f x)))"
  by (induction xs arbitrary: s) (auto simp: collect_eq)

lemma collect_opt_eq:
  "(case b of None \<Rightarrow> s | Some t \<Rightarrow> collect t s) =
   s \<union> (case b of None \<Rightarrow> {} | Some t \<Rightarrow> set (type_refs t))"
  by (simp add: collect_eq split: option.split)

lemma fold_collect_opt_eq:
  "fold (\<lambda>x s. case f x of None \<Rightarrow> s | Some t \<Rightarrow> collect t s) xs s =
   s \<union> (\<Union>x \<in> set xs. case f x of None \<Rightarrow> {} | Some t \<Rightarrow> set (type_refs t))"
  by (induction xs arbitrary: s) (auto simp: collect_eq split: option.splits)

end

lemma method_upper_to_uppercase: "method_upper m = to_uppercase (method_as_str m)"
  by (cases m) (simp_all, code_simp+)

lemma method_as_str_inject [simp]: "method_as_str m = method_as_str n \<longleftrightarrow> m = n"
  by (cases m; cases n) simp_all

end
