(* ===== verification/OpenApi.thy ===== *)
theory OpenApi
  imports Ir
begin

text \<open>
  The input vocabulary of the resolver: the data types of the \<open>openapiv3\<close> crate, restricted to
  the constructors and fields that resolve.rs and security.rs match on or read. They carry no
  behaviour; maps are the crate's \<open>IndexMap\<close>s. A field the sources skip with \<open>..\<close> is left out,
  and the payload of \<open>SchemaKind::Any(_)\<close> and \<open>SchemaKind::Not { .. }\<close> is not read.
\<close>

datatype 'a reference_or = Reference string | Item 'a

datatype string_format = FmtDate | FmtDateTime | FmtPassword | FmtByte | FmtBinary

datatype 'a variant_or_unknown_or_empty = VItem 'a | VUnknown string | VEmpty

record oapi_discriminator =
  od_property_name :: string
  od_mapping :: "(string \<times> string) list"

record schema_data =
  sd_description :: "string option"
  sd_title :: "string option"
  sd_deprecated :: bool
  sd_nullable :: bool
  sd_discriminator :: "oapi_discriminator option"

record string_type =
  st_enumeration :: "string option list"
  st_format :: "string_format variant_or_unknown_or_empty"

text \<open>
  \<open>Schema\<close> pairs \<open>schema_data\<close> with \<open>schema_kind\<close>; \<open>OObject\<close> has the fields properties,
  required and additional properties of \<open>ObjectType\<close>; \<open>OArray\<close> the items of \<open>ArrayType\<close>.
\<close>

datatype oapi_schema = Schema (schema_data: schema_data) (schema_kind: schema_kind)
and schema_kind =
    KType oapi_type
  | KOneOf "oapi_schema reference_or list"
  | KAllOf "oapi_schema reference_or list"
  | KAnyOf "oapi_schema reference_or list"
  | KNot
  | KAny
and oapi_type =
    OString string_type
  | ONumber
  | OInteger
  | OBoolean
  | OArray "oapi_schema reference_or option"
  | OObject "(string \<times> oapi_schema reference_or) list" "string list" "additional_properties option"
and additional_properties =
    APAny bool
  | APSchema "oapi_schema reference_or"

record media_type =
  mt_schema :: "oapi_schema reference_or option"

record oapi_request_body =
  orb_description :: "string option"
  orb_content :: "(string \<times> media_type) list"
  orb_required :: bool

record oapi_response =
  oresp_description :: string
  oresp_content :: "(string \<times> media_type) list"

datatype status_code = Code "16 word" | Range "16 word"

record oapi_responses =
  oresps_default :: "oapi_response reference_or option"
  oresps_responses :: "(status_code \<times> oapi_response reference_or) list"

datatype parameter_format = PSchema "oapi_schema reference_or" | PContent

record parameter_data =
  pd_name :: string
  pd_description :: "string option"
  pd_required :: bool
  pd_format :: parameter_format

datatype oapi_parameter =
    PQuery parameter_data
  | PHeader parameter_data
  | PPath parameter_data
  | PCookie parameter_data

type_synonym security_requirement = "(string \<times> string list) list"

record oapi_operation =
  oop_tags :: "string list"
  oop_summary :: "string option"
  oop_description :: "string option"
  oop_operation_id :: "string option"
  oop_parameters :: "oapi_parameter reference_or list"
  oop_request_body :: "oapi_request_body reference_or option"
  oop_responses :: oapi_responses
  oop_security :: "security_requirement list option"

record path_item =
  pi_get :: "oapi_operation option"
  pi_put :: "oapi_operation option"
  pi_post :: "oapi_operation option"
  pi_delete :: "oapi_operation option"
  pi_options :: "oapi_operation option"
  pi_head :: "oapi_operation option"
  pi_patch :: "oapi_operation option"
  pi_parameters :: "oapi_parameter reference_or list"

datatype api_key_location = KeyQuery | KeyHeader | KeyCookie

record oauth2_flows =
  fl_implicit :: bool
  fl_password :: bool
  fl_client_credentials :: bool
  fl_authorization_code :: bool

datatype oapi_security_scheme =
    SchemeApiKey api_key_location string
  | SchemeHttp string "string option"
  | SchemeOAuth2 oauth2_flows
  | SchemeOpenIdConnect

record components =
  co_schemas :: "(string \<times> oapi_schema reference_or) list"
  co_parameters :: "(string \<times> oapi_parameter reference_or) list"
  co_security_schemes :: "(string \<times> oapi_security_scheme reference_or) list"

record oapi_spec =
  spec_title :: string
  spec_version :: string
  spec_servers :: "string list"
  spec_paths :: "(string \<times> path_item reference_or) list"
  spec_components :: "components option"
  spec_security :: "security_requirement list option"

section \<open>Size of a schema\<close>

text \<open>The nodes of a schema that can become nodes of a type (properties of objects cannot).\<close>

function (sequential) schema_nodes :: "oapi_schema \<Rightarrow> nat"
  and kind_nodes :: "schema_kind \<Rightarrow> nat"
  and otype_nodes :: "oapi_type \<Rightarrow> nat"
  and ref_nodes :: "oapi_schema reference_or \<Rightarrow> nat" where
  "schema_nodes (Schema d k) = kind_nodes k"
| "kind_nodes (KType t) = otype_nodes t"
| "kind_nodes (KOneOf ms) = Suc (sum_list (map ref_nodes ms))"
| "kind_nodes (KAnyOf ms) = Suc (sum_list (map ref_nodes ms))"
| "kind_nodes (KAllOf ms) = Suc (sum_list (map ref_nodes ms))"
| "kind_nodes _ = 1"
| "otype_nodes (OArray (Some r)) = Suc (ref_nodes r)"
| "otype_nodes (OArray None) = 2"
| "otype_nodes (OObject _ _ (Some (APSchema r))) = Suc (ref_nodes r)"
| "otype_nodes (OObject _ _ (Some (APAny True))) = 2"
| "otype_nodes _ = 1"
| "ref_nodes (Item s) = schema_nodes s"
| "ref_nodes (Reference _) = 1"
  by pat_completeness auto
termination
  by (relation "measure (case_sum (case_sum size size) (case_sum size (size_reference_or size)))")
    (auto simp: less_Suc_eq_le intro: size_list_estimation')

end
