(* ===== verification/Spec_Parse.thy ===== *)
theory Spec_Parse
  imports Json OpenApi
begin

text \<open>
  crates/specforge-core/src/spec.rs: reading a document. The text decoders
  (\<open>serde_json::from_str\<close>, \<open>serde_yaml::from_str\<close>, \<open>serde_json::from_value::<OpenAPI>\<close>,
  \<open>std::str::from_utf8\<close>, \<open>std::fs::read\<close>) are arguments of the definitions that call them, each
  returning its error text on the left. What spec.rs does itself is modelled in full: line-ending
  normalisation, the JSON-then-YAML fallback, the extraction of webhooks, the 3.1 test and the
  two recursive passes that downgrade 3.1 constructs, and the 3.1 feature scan.
\<close>

section \<open>Line endings\<close>

definition normalize_line_endings :: "string \<Rightarrow> string" where
  "normalize_line_endings text =
     (if CHR 13 \<notin> set text then text
      else replace_char (CHR 13) [CHR 10] (replace_sub [CHR 13, CHR 10] [CHR 10] text))"

section \<open>Webhooks and the version test\<close>

text \<open>Returns the webhooks and the document with the field removed.\<close>

definition extract_webhooks :: "json \<Rightarrow> json option \<times> json" where
  "extract_webhooks j =
     (case j of
        JObject m \<Rightarrow>
          (case map_of m ''webhooks'' of
             None \<Rightarrow> (None, j)
           | Some w \<Rightarrow> (if is_object w then Some w else None, JObject (bt_remove ''webhooks'' m)))
      | _ \<Rightarrow> (None, j))"

definition is_31 :: "json \<Rightarrow> bool" where
  "is_31 j =
     (case Option.bind (json_get j ''openapi'') as_str of
        None \<Rightarrow> False
      | Some v \<Rightarrow> starts_with v ''3.1'')"

section \<open>Pass one: siblings of a reference\<close>

text \<open>The rewriting of one object: a non-empty string \<open>$ref\<close> with siblings becomes an allOf.\<close>

definition ref_siblings_step :: "json_object \<Rightarrow> json_object" where
  "ref_siblings_step obj =
     (case map_of obj ''$ref'' of
        None \<Rightarrow> obj
      | Some ref_val \<Rightarrow>
          let ref_str = (case as_str ref_val of None \<Rightarrow> [] | Some s \<Rightarrow> s) in
          if ref_str = [] then obj
          else
            let siblings = filter (\<lambda>(k, v). k \<noteq> ''$ref'') obj in
            if siblings = [] then obj
            else bt_insert ''allOf''
                   (JArray [JObject [(''$ref'', ref_val)], JObject (bt_insert_all siblings [])]) [])"

lemma set_bt_insert_all: "set (bt_insert_all kvs m) \<subseteq> set kvs \<union> set m"
proof (induction kvs arbitrary: m)
  case Nil
  show ?case by (simp add: bt_insert_all_def)
next
  case (Cons kv kvs)
  have "set (bt_insert_all kvs (bt_insert (fst kv) (snd kv) m)) \<subseteq>
      set kvs \<union> set (bt_insert (fst kv) (snd kv) m)"
    by (rule Cons.IH)
  with set_bt_insert [of "fst kv" "snd kv" m] show ?case
    by (auto simp: bt_insert_all_def split_def)
qed

lemma bt_insert_all_no_key:
  "k \<notin> fst ` set kvs \<Longrightarrow> \<not> contains_key (bt_insert_all kvs []) k"
  using set_bt_insert_all [of kvs "[]"] by (auto simp: contains_key_iff)

lemma ref_siblings_step_rank:
  assumes "(k, v) \<in> set (ref_siblings_step m)"
  shows "json_rank v < json_rank (JObject m)"
proof (cases "ref_siblings_step m = m")
  case True
  with assms show ?thesis using json_rank_object [of k v m] by simp
next
  case False
  define sib where "sib = filter (\<lambda>(k, v). k \<noteq> ''$ref'') m"
  let ?M = "max_list (map (\<lambda>kv. json_rank (snd kv)) m)"
  from False obtain r s where r: "map_of m ''$ref'' = Some r" "as_str r = Some s" and "sib \<noteq> []"
    and v: "v = JArray [JObject [(''$ref'', r)], JObject (bt_insert_all sib [])]"
    using assms by (auto simp: ref_siblings_step_def sib_def Let_def split: option.splits if_splits)
  have ref_in: "(''$ref'', r) \<in> set m" using r(1) by (rule map_of_SomeD)
  from \<open>sib \<noteq> []\<close> obtain kv where kv: "kv \<in> set m" "fst kv \<noteq> ''$ref''"
    unfolding sib_def by (auto simp: filter_empty_conv)
  have "length m \<noteq> 1"
    using kv ref_in by (auto simp: length_Suc_conv)
  then have big: "json_rank (JObject m) = 10 + ?M"
    using r(1) ref_in by (cases m) (auto simp: contains_key_def)
  have "\<not> contains_key (bt_insert_all sib []) ''$ref''"
    by (rule bt_insert_all_no_key) (auto simp: sib_def)
  moreover have "max_list (map (\<lambda>kv. json_rank (snd kv)) (bt_insert_all sib [])) \<le> ?M"
    using set_bt_insert_all [of sib "[]"]
    by (intro max_list_leI) (force simp: sib_def intro: json_rank_value max_list_mem)
  ultimately have "json_rank v \<le> 5 + ?M"
    using r(2) by (simp add: v)
  with big show ?thesis by simp
qed

function extract_ref_siblings :: "json \<Rightarrow> json" where
  "extract_ref_siblings (JObject obj) =
     JObject (map_values extract_ref_siblings (ref_siblings_step obj))"
| "extract_ref_siblings (JArray arr) = JArray (map extract_ref_siblings arr)"
| "extract_ref_siblings JNull = JNull"
| "extract_ref_siblings (JBool b) = JBool b"
| "extract_ref_siblings (JNumber n) = JNumber n"
| "extract_ref_siblings (JString s) = JString s"
  by pat_completeness auto
termination
  by (relation "measure json_rank")
    (auto simp: json_rank_array simp del: json_rank.simps intro: ref_siblings_step_rank)

section \<open>Pass two: keywords of 3.1\<close>

text \<open>\<open>type: ["X", "null"]\<close> becomes \<open>type: X\<close> with \<open>nullable: true\<close>.\<close>

definition downgrade_type :: "json_object \<Rightarrow> json_object" where
  "downgrade_type obj =
     (case Option.bind (map_of obj ''type'') as_array of
        None \<Rightarrow> obj
      | Some arr \<Rightarrow>
          let has_null = list_ex (\<lambda>v. as_str v = Some ''null'') arr;
              non_null = filter (\<lambda>v. as_str v \<noteq> Some ''null'') arr
          in if has_null \<and> length non_null = 1
             then bt_insert ''nullable'' (JBool True) (bt_insert ''type'' (non_null ! 0) obj)
             else if has_null \<and> non_null = []
             then bt_insert ''nullable'' (JBool True) (bt_remove ''type'' obj)
             else obj)"

definition downgrade_exclusive :: "string \<Rightarrow> json_object \<Rightarrow> json_object" where
  "downgrade_exclusive field obj =
     (case map_of obj field of
        None \<Rightarrow> obj
      | Some val \<Rightarrow> if is_number val then bt_insert field (JBool True) obj else obj)"

definition downgrade_const :: "json_object \<Rightarrow> json_object" where
  "downgrade_const obj =
     (case map_of obj ''const'' of
        None \<Rightarrow> obj
      | Some const_val \<Rightarrow> bt_insert ''enum'' (JArray [const_val]) (bt_remove ''const'' obj))"

definition dependent_names :: "json_object \<Rightarrow> string list" where
  "dependent_names dep_map =
     concat (map (\<lambda>(_, deps). case as_array deps of
                     None \<Rightarrow> [] | Some arr \<Rightarrow> List.map_filter as_str arr) dep_map)"

text \<open>Push each string unless the array already contains it.\<close>

fun push_new :: "json list \<Rightarrow> string list \<Rightarrow> json list" where
  "push_new arr [] = arr"
| "push_new arr (s # ss) =
     push_new (if JString s \<in> set arr then arr else arr @ [JString s]) ss"

definition downgrade_dependent_required :: "json_object \<Rightarrow> json_object" where
  "downgrade_dependent_required obj0 =
     (case map_of obj0 ''dependentRequired'' of
        None \<Rightarrow> obj0
      | Some dep_req \<Rightarrow>
          let obj = bt_remove ''dependentRequired'' obj0 in
          (case as_object dep_req of
             None \<Rightarrow> obj
           | Some dep_map \<Rightarrow>
               let extra = dependent_names dep_map in
               if extra = [] then obj
               else
                 let required = (case map_of obj ''required'' of None \<Rightarrow> JArray [] | Some r \<Rightarrow> r) in
                 (case as_array required of
                    None \<Rightarrow> obj
                  | Some req_arr \<Rightarrow> bt_insert ''required'' (JArray (push_new req_arr extra)) obj)))"

definition downgrade_prefix_items :: "json_object \<Rightarrow> json_object" where
  "downgrade_prefix_items obj0 =
     (case map_of obj0 ''prefixItems'' of
        None \<Rightarrow> obj0
      | Some prefix \<Rightarrow>
          let obj = bt_remove ''prefixItems'' obj0 in
          (case as_array prefix of
             None \<Rightarrow> obj
           | Some arr \<Rightarrow> (case arr of [] \<Rightarrow> obj | a # _ \<Rightarrow> bt_insert ''items'' a obj)))"

definition downgrade_step :: "json_object \<Rightarrow> json_object" where
  "downgrade_step obj =
     downgrade_prefix_items
       (downgrade_dependent_required
         (downgrade_const
           (downgrade_exclusive ''exclusiveMaximum''
             (downgrade_exclusive ''exclusiveMinimum''
               (downgrade_type obj)))))"

text \<open>
  Every value the step leaves in the object is at most one array above a value, or an element
  of a value, of the object it started from: bounded by the height of the entries plus one.
\<close>

abbreviation values_below :: "nat \<Rightarrow> json_object \<Rightarrow> bool" where
  "values_below h \<equiv> values_sat (\<lambda>v. json_rank v \<le> h)"

lemmas values_below_lookup = values_sat_lookup [where R = "\<lambda>v. json_rank v \<le> h" for h]

lemma downgrade_type_below: "values_below h m \<Longrightarrow> values_below h (downgrade_type m)"
proof -
  assume m: "values_below h m"
  { fix arr v
    assume "map_of m ''type'' = Some (JArray arr)" "v \<in> set arr"
    then have "json_rank v \<le> h"
      using values_below_lookup [OF m] json_rank_array [of v arr] by fastforce }
  moreover have "filter P xs ! 0 \<in> set xs" if "length (filter P xs) = 1" for P and xs :: "json list"
    using that nth_mem [of 0 "filter P xs"] by auto
  ultimately show ?thesis
    using m unfolding downgrade_type_def Let_def
    by (auto simp: bind_eq_Some_conv intro!: values_sat_insert values_sat_remove split: option.splits)
qed

lemma downgrade_exclusive_below: "values_below h m \<Longrightarrow> values_below h (downgrade_exclusive f m)"
  by (auto simp: downgrade_exclusive_def intro!: values_sat_insert values_sat_remove split: option.splits)

lemma downgrade_const_below:
  assumes "values_below h m"
  shows "values_below (Suc h) (downgrade_const m)"
proof -
  have "values_below (Suc h) m" using assms by (rule values_sat_mono) simp
  with assms show ?thesis
    by (auto simp: downgrade_const_def intro!: values_sat_insert values_sat_remove split: option.splits
        dest: values_below_lookup)
qed

lemma push_new_strings: "set (push_new arr ss) = set arr \<union> JString ` set ss"
  by (induction arr ss rule: push_new.induct) auto

lemma downgrade_dependent_required_below:
  assumes m: "values_below h m" and "1 \<le> h"
  shows "values_below h (downgrade_dependent_required m)"
proof -
  have "json_rank (JArray (push_new arr ss)) \<le> h"
    if "map_of (bt_remove ''dependentRequired'' m) ''required'' = Some (JArray arr)" for arr ss
  proof -
    have "json_rank (JArray arr) \<le> h"
      using that m values_sat_remove values_below_lookup by blast
    then have "\<And>x. x \<in> set (push_new arr ss) \<Longrightarrow> json_rank x \<le> h - 1"
      using json_rank_array [of _ arr] by (fastforce simp: push_new_strings)
    then have "max_list (map json_rank (push_new arr ss)) \<le> h - 1"
      by (intro max_list_leI) auto
    with \<open>1 \<le> h\<close> show ?thesis by simp
  qed
  moreover have "json_rank (JArray (push_new [] ss)) \<le> h" for ss
  proof -
    have "max_list (map json_rank (push_new [] ss)) \<le> 0"
      by (intro max_list_leI) (auto simp: push_new_strings)
    with \<open>1 \<le> h\<close> show ?thesis by simp
  qed
  ultimately show ?thesis
    using m unfolding downgrade_dependent_required_def Let_def
    by (auto simp del: json_rank.simps intro!: values_sat_insert values_sat_remove split: option.splits)
qed

lemma downgrade_prefix_items_below:
  assumes m: "values_below h m"
  shows "values_below h (downgrade_prefix_items m)"
proof -
  have "json_rank a \<le> h" if "map_of m ''prefixItems'' = Some (JArray (a # arr))" for a arr
    using values_below_lookup [OF m that] by simp
  with m show ?thesis
    unfolding downgrade_prefix_items_def Let_def
    by (auto simp del: json_rank.simps intro!: values_sat_insert values_sat_remove split: option.splits list.splits)
qed

lemma downgrade_step_below:
  assumes "values_below h m"
  shows "values_below (Suc h) (downgrade_step m)"
  unfolding downgrade_step_def
  by (intro downgrade_prefix_items_below downgrade_dependent_required_below downgrade_const_below
      downgrade_exclusive_below downgrade_type_below assms) simp

lemma downgrade_step_rank:
  assumes "(k, v) \<in> set (downgrade_step m)"
  shows "json_rank v < json_rank (JObject m)"
proof -
  let ?M = "max_list (map (\<lambda>kv. json_rank (snd kv)) m)"
  have "values_below ?M m"
    by (auto simp: values_sat_def intro: json_rank_value)
  then have "values_below (Suc ?M) (downgrade_step m)"
    by (rule downgrade_step_below)
  with assms show ?thesis by (auto simp: values_sat_def)
qed

function downgrade_value :: "json \<Rightarrow> json" where
  "downgrade_value (JObject obj) = JObject (map_values downgrade_value (downgrade_step obj))"
| "downgrade_value (JArray arr) = JArray (map downgrade_value arr)"
| "downgrade_value JNull = JNull"
| "downgrade_value (JBool b) = JBool b"
| "downgrade_value (JNumber n) = JNumber n"
| "downgrade_value (JString s) = JString s"
  by pat_completeness auto
termination
  by (relation "measure json_rank")
    (auto simp: json_rank_array simp del: json_rank.simps intro: downgrade_step_rank)

section \<open>Downgrading and parsing a document\<close>

definition downgrade_31_to_30 :: "json \<Rightarrow> json" where
  "downgrade_31_to_30 j =
     (let j' = (case json_get j ''paths'' of
                  Some _ \<Rightarrow> j
                | None \<Rightarrow> (case j of JObject m \<Rightarrow> JObject (bt_insert ''paths'' (JObject []) m) | _ \<Rightarrow> j))
      in downgrade_value (extract_ref_siblings j'))"

text \<open>The decoders: JSON text, YAML text, and a JSON value into the OpenAPI data types.\<close>

definition load_json ::
  "(string \<Rightarrow> json option) \<Rightarrow> (string \<Rightarrow> (string, json) result) \<Rightarrow> string \<Rightarrow> (spec_error, json) result" where
  "load_json json_from_str yaml_from_str text =
     (case json_from_str (trim_start text) of
        Some v \<Rightarrow> Ok v
      | None \<Rightarrow> (case yaml_from_str text of Inl e \<Rightarrow> Err (SpecYaml e) | Inr v \<Rightarrow> Ok v))"

definition parse_str ::
  "(string \<Rightarrow> json option) \<Rightarrow> (string \<Rightarrow> (string, json) result) \<Rightarrow> (json \<Rightarrow> (string, 'o) result)
   \<Rightarrow> string \<Rightarrow> (spec_error, 'o) result" where
  "parse_str json_from_str yaml_from_str from_value text =
     (case load_json json_from_str yaml_from_str text of
        Inl e \<Rightarrow> Err e
      | Inr j \<Rightarrow>
          (case from_value (if is_31 j then downgrade_31_to_30 j else j) of
             Inl e \<Rightarrow> Err (SpecJson e)
           | Inr spec \<Rightarrow> Ok spec))"

record 'o parsed_spec =
  ps_spec :: 'o
  ps_webhooks :: "json option"

definition parse_str_full ::
  "(string \<Rightarrow> json option) \<Rightarrow> (string \<Rightarrow> (string, json) result) \<Rightarrow> (json \<Rightarrow> (string, 'o) result)
   \<Rightarrow> string \<Rightarrow> (spec_error, 'o parsed_spec) result" where
  "parse_str_full json_from_str yaml_from_str from_value text =
     (case load_json json_from_str yaml_from_str text of
        Inl e \<Rightarrow> Err e
      | Inr j0 \<Rightarrow>
          (case extract_webhooks j0 of
             (webhooks, j) \<Rightarrow>
               (case from_value (if is_31 j then downgrade_31_to_30 j else j) of
                  Inl e \<Rightarrow> Err (SpecJson e)
                | Inr spec \<Rightarrow> Ok \<lparr>ps_spec = spec, ps_webhooks = webhooks\<rparr>)))"

definition parse_bytes ::
  "(string \<Rightarrow> (string, string) result) \<Rightarrow> (string \<Rightarrow> (spec_error, 'o) result)
   \<Rightarrow> string \<Rightarrow> (spec_error, 'o) result" where
  "parse_bytes from_utf8 parse bytes =
     (case from_utf8 bytes of
        Inl e \<Rightarrow> Err (SpecInvalid (''spec is not valid UTF-8: '' @ e))
      | Inr text \<Rightarrow> parse (normalize_line_endings text))"

definition parse_file ::
  "(string \<Rightarrow> (string, string) result) \<Rightarrow> (string \<Rightarrow> (spec_error, 'o) result)
   \<Rightarrow> string \<Rightarrow> (spec_error, 'o) result" where
  "parse_file read parse_b path =
     (case read path of Inl e \<Rightarrow> Err (SpecIo path) | Inr bytes \<Rightarrow> parse_b bytes)"

text \<open>What reading a spec from a file depends on: the file system and the decoders.\<close>

record 'o spec_readers =
  rd_read :: "string \<Rightarrow> (string, string) result"
  rd_from_utf8 :: "string \<Rightarrow> (string, string) result"
  rd_json :: "string \<Rightarrow> json option"
  rd_yaml :: "string \<Rightarrow> (string, json) result"
  rd_from_value :: "json \<Rightarrow> (string, 'o) result"

definition read_text :: "'o spec_readers \<Rightarrow> string \<Rightarrow> (spec_error, 'o) result" where
  "read_text rd = parse_str (rd_json rd) (rd_yaml rd) (rd_from_value rd)"

definition read_spec :: "'o spec_readers \<Rightarrow> string \<Rightarrow> (spec_error, 'o) result" where
  "read_spec rd = parse_file (rd_read rd) (parse_bytes (rd_from_utf8 rd) (read_text rd))"

definition extract_info_version :: "json \<Rightarrow> string option" where
  "extract_info_version j =
     Option.bind (Option.bind (json_get j ''info'') (\<lambda>info. json_get info ''version'')) as_str"

section \<open>The 3.1 feature scan\<close>

record spec31_features =
  uses_type_array :: bool
  uses_ref_siblings :: bool
  uses_const :: bool
  uses_prefix_items :: bool
  uses_dependent_required :: bool
  uses_numeric_exclusive_bounds :: bool

definition no_features :: spec31_features where
  "no_features = \<lparr>uses_type_array = False, uses_ref_siblings = False, uses_const = False,
     uses_prefix_items = False, uses_dependent_required = False,
     uses_numeric_exclusive_bounds = False\<rparr>"

definition numeric_field :: "json_object \<Rightarrow> string \<Rightarrow> bool" where
  "numeric_field obj field = (case map_of obj field of None \<Rightarrow> False | Some v \<Rightarrow> is_number v)"

definition features_of_object :: "json_object \<Rightarrow> spec31_features \<Rightarrow> spec31_features" where
  "features_of_object obj f =
     \<lparr>uses_type_array = uses_type_array f \<or>
        (case map_of obj ''type'' of None \<Rightarrow> False | Some t \<Rightarrow> is_array t),
      uses_ref_siblings = uses_ref_siblings f \<or> (contains_key obj ''$ref'' \<and> length obj > 1),
      uses_const = uses_const f \<or> contains_key obj ''const'',
      uses_prefix_items = uses_prefix_items f \<or> contains_key obj ''prefixItems'',
      uses_dependent_required = uses_dependent_required f \<or> contains_key obj ''dependentRequired'',
      uses_numeric_exclusive_bounds = uses_numeric_exclusive_bounds f \<or>
        numeric_field obj ''exclusiveMinimum'' \<or> numeric_field obj ''exclusiveMaximum''\<rparr>"

fun detect_31_features_walk :: "json \<Rightarrow> spec31_features \<Rightarrow> spec31_features" where
  "detect_31_features_walk (JObject obj) f =
     fold (\<lambda>kv. detect_31_features_walk (snd kv)) obj (features_of_object obj f)"
| "detect_31_features_walk (JArray arr) f = fold detect_31_features_walk arr f"
| "detect_31_features_walk _ f = f"

definition detect_31_features :: "json \<Rightarrow> spec31_features" where
  "detect_31_features j = detect_31_features_walk j no_features"

section \<open>Line endings: the two replacements equal one left-to-right scan\<close>

function collapse_eol :: "string \<Rightarrow> string" where
  "collapse_eol s =
     (case s of
        [] \<Rightarrow> []
      | c # cs \<Rightarrow>
          if c = CHR 13
          then CHR 10 # collapse_eol (case cs of d # ds \<Rightarrow> if d = CHR 10 then ds else cs | [] \<Rightarrow> [])
          else c # collapse_eol cs)"
  by pat_completeness auto
termination
  by (relation "measure length") (auto split: list.splits)

declare collapse_eol.simps [simp del]

lemma two_replacements:
  "replace_char (CHR 13) [CHR 10] (replace_sub [CHR 13, CHR 10] [CHR 10] s) = collapse_eol s"
proof (induction s rule: collapse_eol.induct)
  case (1 s)
  show ?case
  proof (cases s)
    case Nil
    then show ?thesis by (simp add: collapse_eol.simps [of "[]"] replace_char_def)
  next
    case (Cons c cs)
    show ?thesis
    proof (cases "c = CHR 13")
      case False
      with 1 Cons show ?thesis
        by (simp add: collapse_eol.simps [of "c # cs"] replace_sub.simps [of _ _ "c # cs"]
            starts_with_def replace_char_def)
    next
      case True
      show ?thesis
      proof (cases cs)
        case Nil
        with True Cons show ?thesis
          by (simp add: collapse_eol.simps replace_sub.simps starts_with_def replace_char_def)
      next
        case (Cons d ds)
        with True \<open>s = c # cs\<close> 1 show ?thesis
          by (cases "d = CHR 10")
            (simp_all add: collapse_eol.simps [of "CHR 13 # _"]
              replace_sub.simps [of _ _ "CHR 13 # _"] starts_with_def replace_char_def)
      qed
    qed
  qed
qed

lemma collapse_eol_idle: "CHR 13 \<notin> set s \<Longrightarrow> collapse_eol s = s"
proof (induction s)
  case Nil
  show ?case by (simp add: collapse_eol.simps)
next
  case (Cons c s)
  then show ?case by (auto simp: collapse_eol.simps [of "c # s"])
qed

section \<open>The passes as instances of the rewriting interface\<close>

interpretation ref_pass: json_rewrite ref_siblings_step extract_ref_siblings
proof unfold_locales
  show "extract_ref_siblings j = j" if "\<not> is_object j" "\<not> is_array j" for j
    using that by (cases j) (auto simp: is_object_def is_array_def)
qed (auto intro: ref_siblings_step_rank simp del: json_rank.simps)

interpretation down_pass: json_rewrite downgrade_step downgrade_value
proof unfold_locales
  show "downgrade_value j = j" if "\<not> is_object j" "\<not> is_array j" for j
    using that by (cases j) (auto simp: is_object_def is_array_def)
qed (auto intro: downgrade_step_rank simp del: json_rank.simps)

lemma is_number_downgrade_value [simp]: "is_number (downgrade_value j) = is_number j"
  by (cases j) auto

subsection \<open>What each sub-step leaves of the other fields\<close>

named_theorems step_lookup \<open>lookups after a downgrade step\<close>

lemma downgrade_type_lookup [step_lookup]:
  "k \<noteq> ''type'' \<Longrightarrow> k \<noteq> ''nullable'' \<Longrightarrow> map_of (downgrade_type m) k = map_of m k"
  by (auto simp: downgrade_type_def Let_def map_laws split: option.splits)

lemma downgrade_exclusive_lookup [step_lookup]:
  "k \<noteq> f \<Longrightarrow> map_of (downgrade_exclusive f m) k = map_of m k"
  by (auto simp: downgrade_exclusive_def map_laws split: option.splits)

lemma downgrade_const_lookup [step_lookup]:
  "k \<noteq> ''const'' \<Longrightarrow> k \<noteq> ''enum'' \<Longrightarrow> map_of (downgrade_const m) k = map_of m k"
  by (auto simp: downgrade_const_def map_laws split: option.splits)

lemma downgrade_dependent_required_lookup [step_lookup]:
  "k \<noteq> ''dependentRequired'' \<Longrightarrow> k \<noteq> ''required'' \<Longrightarrow>
   map_of (downgrade_dependent_required m) k = map_of m k"
  by (auto simp: downgrade_dependent_required_def Let_def map_laws split: option.splits)

lemma downgrade_prefix_items_lookup [step_lookup]:
  "k \<noteq> ''prefixItems'' \<Longrightarrow> k \<noteq> ''items'' \<Longrightarrow> map_of (downgrade_prefix_items m) k = map_of m k"
  by (auto simp: downgrade_prefix_items_def Let_def map_laws split: option.splits list.splits)

lemma downgrade_const_gone [step_lookup]: "map_of (downgrade_const m) ''const'' = None"
  by (auto simp: downgrade_const_def map_laws split: option.splits)

lemma downgrade_dependent_required_gone [step_lookup]:
  "map_of (downgrade_dependent_required m) ''dependentRequired'' = None"
  by (auto simp: downgrade_dependent_required_def Let_def map_laws split: option.splits)

lemma downgrade_prefix_items_gone [step_lookup]:
  "map_of (downgrade_prefix_items m) ''prefixItems'' = None"
  by (auto simp: downgrade_prefix_items_def Let_def map_laws split: option.splits list.splits)

lemma downgrade_exclusive_boolean: "\<not> numeric_field (downgrade_exclusive f m) f"
  by (auto simp: downgrade_exclusive_def numeric_field_def map_laws split: option.splits)

lemma downgrade_step_keywords:
  "\<not> contains_key (downgrade_step m) ''const''"
  "\<not> contains_key (downgrade_step m) ''prefixItems''"
  "\<not> contains_key (downgrade_step m) ''dependentRequired''"
  "\<not> numeric_field (downgrade_step m) ''exclusiveMinimum''"
  "\<not> numeric_field (downgrade_step m) ''exclusiveMaximum''"
  using downgrade_exclusive_boolean [of "''exclusiveMaximum''"]
    downgrade_exclusive_boolean [of "''exclusiveMinimum''"]
  by (simp_all add: downgrade_step_def contains_key_def numeric_field_def step_lookup)

lemma downgrade_step_ref: "map_of (downgrade_step m) ''$ref'' = map_of m ''$ref''"
  by (simp add: downgrade_step_def step_lookup)

lemma downgrade_step_lone_ref: "downgrade_step [(''$ref'', v)] = [(''$ref'', v)]"
  by (simp add: downgrade_step_def downgrade_type_def downgrade_exclusive_def downgrade_const_def
      downgrade_dependent_required_def downgrade_prefix_items_def)

subsection \<open>Values and key order through a step\<close>

lemma all_objects_array_elem: "all_objects P (JArray xs) \<Longrightarrow> x \<in> set xs \<Longrightarrow> all_objects P x"
  by (simp add: list_all_iff)

lemma all_objects_push_new: "all_objects P (JArray (push_new arr ss)) = all_objects P (JArray arr)"
  by (auto simp: list_all_iff push_new_strings)

lemma downgrade_type_values:
  assumes m: "values_sat (all_objects P) m"
  shows "values_sat (all_objects P) (downgrade_type m)"
proof -
  have "all_objects P (filter Q arr ! 0)"
    if "map_of m ''type'' = Some (JArray arr)" "length (filter Q arr) = 1" for Q arr
    using that values_sat_lookup [OF m that(1)] nth_mem [of 0 "filter Q arr"]
    by (auto simp: list_all_iff)
  with m show ?thesis
    unfolding downgrade_type_def Let_def
    by (auto simp: bind_eq_Some_conv intro!: values_sat_insert split: option.splits)
qed

lemma downgrade_exclusive_values:
  "values_sat (all_objects P) m \<Longrightarrow> values_sat (all_objects P) (downgrade_exclusive f m)"
  by (auto simp: downgrade_exclusive_def split: option.splits)

lemma downgrade_const_values:
  "values_sat (all_objects P) m \<Longrightarrow> values_sat (all_objects P) (downgrade_const m)"
  by (auto simp: downgrade_const_def split: option.splits dest: values_sat_lookup
      intro!: values_sat_insert)

lemma downgrade_dependent_required_values:
  assumes m: "values_sat (all_objects P) m"
  shows "values_sat (all_objects P) (downgrade_dependent_required m)"
proof -
  let ?o = "bt_remove ''dependentRequired'' m"
  have o: "values_sat (all_objects P) ?o" using m by blast
  have "all_objects P (JArray (push_new arr ss))" if "map_of ?o ''required'' = Some (JArray arr)"
    for arr ss
    using values_sat_lookup [OF o that] by (simp only: all_objects_push_new)
  moreover have "all_objects P (JArray (push_new [] ss))" for ss
    by (simp only: all_objects_push_new) simp
  ultimately show ?thesis
    using m o unfolding downgrade_dependent_required_def Let_def
    by (auto simp del: all_objects.simps(1) intro!: values_sat_insert split: option.splits)
qed

lemma downgrade_prefix_items_values:
  assumes m: "values_sat (all_objects P) m"
  shows "values_sat (all_objects P) (downgrade_prefix_items m)"
proof -
  have "all_objects P a" if "map_of m ''prefixItems'' = Some (JArray (a # arr))" for a arr
    using values_sat_lookup [OF m that] by simp
  with m show ?thesis
    unfolding downgrade_prefix_items_def Let_def
    by (auto intro!: values_sat_insert split: option.splits list.splits)
qed

lemma downgrade_step_values:
  "values_sat (all_objects P) m \<Longrightarrow> values_sat (all_objects P) (downgrade_step m)"
  unfolding downgrade_step_def
  by (intro downgrade_prefix_items_values downgrade_dependent_required_values
      downgrade_const_values downgrade_exclusive_values downgrade_type_values)

lemma downgrade_sorted:
  assumes "bt_invar m"
  shows "bt_invar (downgrade_type m)" and "bt_invar (downgrade_exclusive f m)"
    and "bt_invar (downgrade_const m)" and "bt_invar (downgrade_dependent_required m)"
    and "bt_invar (downgrade_prefix_items m)"
  using assms
  by (simp_all add: downgrade_type_def downgrade_exclusive_def downgrade_const_def
      downgrade_dependent_required_def downgrade_prefix_items_def Let_def bt_invar_insert
      bt_invar_remove split: option.split list.split)

lemma downgrade_step_sorted: "bt_invar m \<Longrightarrow> bt_invar (downgrade_step m)"
  by (simp add: downgrade_step_def downgrade_sorted)

lemma bt_invar_Nil [simp]: "bt_invar []" and bt_invar_single [simp]: "bt_invar [kv]"
  by (simp_all add: bt_invar_def)

text \<open>The shape of the rewritten object when a reference has siblings.\<close>

lemma ref_siblings_step_cases:
  obtains (same) "ref_siblings_step m = m"
      "\<And>s. map_of m ''$ref'' = Some (JString s) \<Longrightarrow> s \<noteq> [] \<Longrightarrow> \<forall>(k, v) \<in> set m. k = ''$ref''"
  | (wrap) s sib where "map_of m ''$ref'' = Some (JString s)" "s \<noteq> []"
      "sib = filter (\<lambda>(k, v). k \<noteq> ''$ref'') m" "sib \<noteq> []"
      "ref_siblings_step m = [(''allOf'',
         JArray [JObject [(''$ref'', JString s)], JObject (bt_insert_all sib [])])]"
proof (cases "ref_siblings_step m = m \<and>
    (\<forall>s. map_of m ''$ref'' = Some (JString s) \<longrightarrow> s \<noteq> [] \<longrightarrow> (\<forall>(k, v) \<in> set m. k = ''$ref''))")
  case True
  then show thesis using same by blast
next
  case False
  then obtain s where s: "map_of m ''$ref'' = Some (JString s)" "s \<noteq> []"
    "filter (\<lambda>(k, v). k \<noteq> ''$ref'') m \<noteq> []"
    by (auto simp: ref_siblings_step_def Let_def filter_empty_conv
        split: option.splits if_splits)
  then show thesis
    by (intro wrap [OF s(1,2) refl s(3)]) (simp add: ref_siblings_step_def Let_def)
qed

lemma values_sat_siblings:
  "values_sat R m \<Longrightarrow> values_sat R (bt_insert_all (filter Q m) [])"
  using set_bt_insert_all [of "filter Q m" "[]"] by (fastforce simp: values_sat_def)

section \<open>The feature scan as a property of all objects\<close>

lemma fold_flag:
  assumes "\<And>x f. x \<in> set xs \<Longrightarrow> g (h x f) \<longleftrightarrow> g f \<or> B x"
  shows "g (fold h xs f) \<longleftrightarrow> g f \<or> (\<exists>x \<in> set xs. B x)"
  using assms by (induction xs arbitrary: f) auto

text \<open>
  A flag that one object sets exactly when it satisfies \<open>L\<close> is set by the walk exactly when
  some object at some depth satisfies \<open>L\<close>.
\<close>

lemma walk_flag:
  assumes g: "\<And>m f. g (features_of_object m f) \<longleftrightarrow> g f \<or> L m"
  shows "g (detect_31_features_walk j f) \<longleftrightarrow> g f \<or> \<not> all_objects (\<lambda>m. \<not> L m) j"
proof (induction j arbitrary: f)
  case (JArray xs)
  then show ?case
    by (simp add: fold_flag [where g = g and B = "\<lambda>x. \<not> all_objects (\<lambda>m. \<not> L m) x"] list_all_iff)
next
  case (JObject m)
  have "g (detect_31_features_walk (snd kv) f) \<longleftrightarrow> g f \<or> \<not> all_objects (\<lambda>m. \<not> L m) (snd kv)"
    if "kv \<in> set m" for kv f
    using JObject [OF that] by (cases kv) auto
  then show ?case
    by (simp add: g values_sat_def split_beta
        fold_flag [where g = g and B = "\<lambda>kv. \<not> all_objects (\<lambda>m. \<not> L m) (snd kv)"])
qed simp_all

lemma features_iff:
  "uses_const (detect_31_features j) \<longleftrightarrow> \<not> all_objects (\<lambda>m. \<not> contains_key m ''const'') j"
  "uses_prefix_items (detect_31_features j) \<longleftrightarrow>
     \<not> all_objects (\<lambda>m. \<not> contains_key m ''prefixItems'') j"
  "uses_dependent_required (detect_31_features j) \<longleftrightarrow>
     \<not> all_objects (\<lambda>m. \<not> contains_key m ''dependentRequired'') j"
  "uses_numeric_exclusive_bounds (detect_31_features j) \<longleftrightarrow>
     \<not> all_objects (\<lambda>m. \<not> (numeric_field m ''exclusiveMinimum'' \<or> numeric_field m ''exclusiveMaximum'')) j"
  "uses_ref_siblings (detect_31_features j) \<longleftrightarrow>
     \<not> all_objects (\<lambda>m. \<not> (contains_key m ''$ref'' \<and> length m > 1)) j"
  "uses_type_array (detect_31_features j) \<longleftrightarrow>
     \<not> all_objects (\<lambda>m. \<not> (case map_of m ''type'' of None \<Rightarrow> False | Some t \<Rightarrow> is_array t)) j"
  unfolding detect_31_features_def
  by (subst walk_flag, simp add: features_of_object_def, simp add: no_features_def)+

section \<open>Properties\<close>

lemma downgrade_removes_keywords:
  "\<not> uses_const (detect_31_features (downgrade_31_to_30 j)) \<and>
   \<not> uses_prefix_items (detect_31_features (downgrade_31_to_30 j)) \<and>
   \<not> uses_dependent_required (detect_31_features (downgrade_31_to_30 j)) \<and>
   \<not> uses_numeric_exclusive_bounds (detect_31_features (downgrade_31_to_30 j))"
proof -
  have keep: "numeric_field (map_values downgrade_value m) f = numeric_field m f" for m f
    by (auto simp: numeric_field_def split: option.splits)
  show ?thesis
    unfolding features_iff downgrade_31_to_30_def Let_def
    using downgrade_step_keywords
    by (auto intro!: down_pass.pass_establishes simp: keep)
qed

text \<open>Every \<open>$ref\<close> of the document is a non-empty string.\<close>

definition refs_are_strings :: "json_object \<Rightarrow> bool" where
  "refs_are_strings m \<longleftrightarrow>
     (case map_of m ''$ref'' of
        None \<Rightarrow> True
      | Some v \<Rightarrow> (case as_str v of None \<Rightarrow> False | Some s \<Rightarrow> s \<noteq> []))"

lemma refs_are_strings_wrapper:
  "refs_are_strings [(''$ref'', JString s)] \<longleftrightarrow> s \<noteq> []"
  "refs_are_strings (bt_insert_all (filter (\<lambda>(k, v). k \<noteq> ''$ref'') m) [])"
proof -
  show "refs_are_strings [(''$ref'', JString s)] \<longleftrightarrow> s \<noteq> []"
    by (simp add: refs_are_strings_def)
  have "\<not> contains_key (bt_insert_all (filter (\<lambda>(k, v). k \<noteq> ''$ref'') m) []) ''$ref''"
    by (rule bt_insert_all_no_key) auto
  then show "refs_are_strings (bt_insert_all (filter (\<lambda>(k, v). k \<noteq> ''$ref'') m) [])"
    by (simp add: refs_are_strings_def contains_key_def)
qed

lemma ref_siblings_values:
  assumes lone: "\<And>s. s \<noteq> [] \<Longrightarrow> P [(''$ref'', JString s)]"
    and sib: "P (bt_insert_all (filter (\<lambda>(k, v). k \<noteq> ''$ref'') m) [])"
    and m: "values_sat (all_objects P) m"
  shows "values_sat (all_objects P) (ref_siblings_step m)"
proof (cases m rule: ref_siblings_step_cases)
  case same
  with m show ?thesis by simp
next
  case (wrap s sib')
  with m sib lone show ?thesis
    by (simp add: values_sat_siblings)
qed

lemma extract_removes_siblings:
  assumes "all_objects (\<lambda>m. bt_invar m \<and> refs_are_strings m) j"
  shows "all_objects (\<lambda>m. \<not> (contains_key m ''$ref'' \<and> length m > 1)) (extract_ref_siblings j)"
  using _ _ assms
proof (rule ref_pass.pass_transforms)
  fix m
  assume m: "bt_invar m \<and> refs_are_strings m"
    and vals: "values_sat (all_objects (\<lambda>m. bt_invar m \<and> refs_are_strings m)) m"
  show "values_sat (all_objects (\<lambda>m. bt_invar m \<and> refs_are_strings m)) (ref_siblings_step m)"
    using vals
    by (intro ref_siblings_values) (auto simp: refs_are_strings_wrapper bt_invar_insert_all)
  show "\<not> (contains_key (map_values extract_ref_siblings (ref_siblings_step m)) ''$ref'' \<and>
      1 < length (map_values extract_ref_siblings (ref_siblings_step m)))"
  proof (cases m rule: ref_siblings_step_cases)
    case same
    { assume ref: "contains_key m ''$ref''"
      with m obtain s where "map_of m ''$ref'' = Some (JString s)" "s \<noteq> []"
        by (auto simp: contains_key_def refs_are_strings_def split: option.splits)
      with same(2) have "fst ` set m \<subseteq> {''$ref''}" by auto
      moreover have "distinct (map fst m)" using m by (simp add: bt_invar_distinct)
      ultimately have "length m \<le> 1"
        using card_mono [of "{''$ref''}" "fst ` set m"] distinct_card [of "map fst m"] by simp }
    with same(1) show ?thesis by auto
  next
    case (wrap s sib)
    then show ?thesis by (simp add: contains_key_def)
  qed
qed

lemma all_objects_conj:
  "all_objects (\<lambda>m. P m \<and> Q m) j \<longleftrightarrow> all_objects P j \<and> all_objects Q j"
  by (induction "\<lambda>m. P m \<and> Q m" j rule: all_objects.induct)
    (auto simp: list_all_iff all_objects.simps(2) simp del: all_objects_object)

lemma downgrade_keeps_lone_refs:
  assumes "all_objects (\<lambda>m. \<not> (contains_key m ''$ref'' \<and> length m > 1)) j"
  shows "all_objects (\<lambda>m. \<not> (contains_key m ''$ref'' \<and> length m > 1)) (downgrade_value j)"
  using _ _ assms
proof (rule down_pass.pass_transforms)
  fix m :: json_object
  assume m: "\<not> (contains_key m ''$ref'' \<and> 1 < length m)"
  have "length (downgrade_step m) \<le> 1" if "contains_key (downgrade_step m) ''$ref''"
  proof -
    from that have "contains_key m ''$ref''" by (simp add: contains_key_def downgrade_step_ref)
    with m obtain v where "m = [(''$ref'', v)]"
      by (cases m) (auto simp: contains_key_def split: if_splits)
    then show ?thesis by (simp add: downgrade_step_lone_ref)
  qed
  then show "\<not> (contains_key (map_values downgrade_value (downgrade_step m)) ''$ref'' \<and>
      1 < length (map_values downgrade_value (downgrade_step m)))" by auto
qed (rule downgrade_step_values)

text \<open>The document with an empty \<open>paths\<close> object added where it has none.\<close>

lemma with_paths_all_objects:
  assumes "all_objects P j" and "\<And>m. P m \<Longrightarrow> P (bt_insert ''paths'' (JObject []) m)" and "P []"
  shows "all_objects P (case json_get j ''paths'' of Some _ \<Rightarrow> j
    | None \<Rightarrow> (case j of JObject m \<Rightarrow> JObject (bt_insert ''paths'' (JObject []) m) | _ \<Rightarrow> j))"
  using assms by (auto split: option.splits json.splits intro!: values_sat_insert)

text \<open>
  In a document whose \<open>$ref\<close>s are non-empty strings, downgrading leaves no \<open>$ref\<close> with
  siblings, so the OpenAPI 3.0 decoder drops no sibling data.
\<close>

lemma downgrade_removes_ref_siblings:
  assumes "json_wf j" and "all_objects refs_are_strings j"
  shows "\<not> uses_ref_siblings (detect_31_features (downgrade_31_to_30 j))"
proof -
  let ?P = "\<lambda>m. bt_invar m \<and> refs_are_strings m"
  have "all_objects ?P j" using assms by (simp add: all_objects_conj json_wf_def)
  then have "all_objects ?P (case json_get j ''paths'' of Some _ \<Rightarrow> j
    | None \<Rightarrow> (case j of JObject m \<Rightarrow> JObject (bt_insert ''paths'' (JObject []) m) | _ \<Rightarrow> j))"
    by (rule with_paths_all_objects)
      (auto simp: bt_invar_insert refs_are_strings_def map_laws)
  then show ?thesis
    unfolding features_iff downgrade_31_to_30_def Let_def not_not
    by (intro downgrade_keeps_lone_refs extract_removes_siblings)
qed

lemma bt_insert_last: "(\<And>a b. (a, b) \<in> set m \<Longrightarrow> a < k) \<Longrightarrow> bt_insert k v m = m @ [(k, v)]"
  by (induction k v m rule: bt_insert.induct) (auto simp: less_le_not_le)

lemma bt_insert_all_sorted: "bt_invar (m @ kvs) \<Longrightarrow> bt_insert_all kvs m = m @ kvs"
proof (induction kvs arbitrary: m)
  case Nil
  show ?case by (simp add: bt_insert_all_def)
next
  case (Cons kv kvs)
  then have "bt_insert (fst kv) (snd kv) m = m @ [kv]"
    by (subst bt_insert_last) (force simp: bt_invar_def sorted_wrt_append)+
  with Cons show ?case
    by (simp add: bt_insert_all_def split_beta)
qed

lemma filter_not_ref: "filter (\<lambda>(k, v). k \<noteq> ''$ref'') m = bt_remove ''$ref'' m"
  by (simp add: bt_remove_def)

text \<open>The type of an object is no array, or one that pass two converts: "null" and at most one other type.\<close>

definition convertible_types :: "json list \<Rightarrow> bool" where
  "convertible_types arr \<longleftrightarrow>
     JString ''null'' \<in> set arr \<and> length (filter (\<lambda>v. v \<noteq> JString ''null'') arr) \<le> 1 \<and> list_all (\<lambda>v. \<not> is_array v) arr"

definition nullable_types :: "json_object \<Rightarrow> bool" where
  "nullable_types m \<longleftrightarrow> (\<forall>arr. map_of m ''type'' = Some (JArray arr) \<longrightarrow> convertible_types arr)"

lemma convertible_types_map:
  assumes "\<And>v. f v = JString ''null'' \<longleftrightarrow> v = JString ''null''" and "\<And>v. is_array (f v) = is_array v"
  shows "convertible_types (map f arr) = convertible_types arr"
proof -
  have null: "JString ''null'' = f v \<longleftrightarrow> JString ''null'' = v" for v using assms(1) [of v] by auto
  have "filter (\<lambda>v. v \<noteq> JString ''null'') (map f arr) = map f (filter (\<lambda>v. v \<noteq> JString ''null'') arr)"
    by (induction arr) (simp_all add: assms(1))
  moreover have "JString ''null'' \<in> set (map f arr) \<longleftrightarrow> JString ''null'' \<in> set arr"
    by (induction arr) (simp_all add: null)
  ultimately show ?thesis by (simp add: convertible_types_def list_all_iff assms(2))
qed

lemma passes_keep_form:
  "extract_ref_siblings v = JString s \<longleftrightarrow> v = JString s" "downgrade_value v = JString s \<longleftrightarrow> v = JString s"
  "is_array (extract_ref_siblings v) = is_array v" "is_array (downgrade_value v) = is_array v"
  by (cases v; auto simp: is_array_def)+

lemma extract_array: "extract_ref_siblings v = JArray arr \<longleftrightarrow> (\<exists>arr'. v = JArray arr' \<and> arr = map extract_ref_siblings arr')"
  by (cases v) auto

lemma nullable_types_map_values:
  "nullable_types (map_values extract_ref_siblings m) = nullable_types m"
proof -
  have "convertible_types (map extract_ref_siblings arr) = convertible_types arr" for arr
    using convertible_types_map passes_keep_form by blast
  then show ?thesis
    by (cases "map_of m ''type''") (auto simp: nullable_types_def extract_array)
qed

lemma extract_keeps_nullable_types:
  assumes "all_objects (\<lambda>m. bt_invar m \<and> nullable_types m) j"
  shows "all_objects nullable_types (extract_ref_siblings j)"
  using _ _ assms
proof (rule ref_pass.pass_transforms)
  fix m
  assume m: "bt_invar m \<and> nullable_types m" and vals: "values_sat (all_objects (\<lambda>m. bt_invar m \<and> nullable_types m)) m"
  have "bt_insert_all (filter (\<lambda>(k, v). k \<noteq> ''$ref'') m) [] = bt_remove ''$ref'' m"
    using m bt_insert_all_sorted [of "[]" "bt_remove ''$ref'' m"] by (simp add: filter_not_ref bt_invar_remove)
  then have "nullable_types (bt_insert_all (filter (\<lambda>(k, v). k \<noteq> ''$ref'') m) [])"
    using m by (simp add: nullable_types_def map_laws)
  with vals show "values_sat (all_objects (\<lambda>m. bt_invar m \<and> nullable_types m)) (ref_siblings_step m)"
    by (intro ref_siblings_values) (auto simp: nullable_types_def bt_invar_insert_all)
  show "nullable_types (map_values extract_ref_siblings (ref_siblings_step m))"
    unfolding nullable_types_map_values
    using m by (cases m rule: ref_siblings_step_cases) (auto simp: nullable_types_def)
qed

lemma downgrade_type_of_step: "map_of (downgrade_step m) ''type'' = map_of (downgrade_type m) ''type''"
  by (simp add: downgrade_step_def step_lookup)

lemma downgrade_type_scalar:
  assumes "nullable_types m"
  shows "\<not> (case map_of (map_values downgrade_value (downgrade_step m)) ''type'' of None \<Rightarrow> False | Some t \<Rightarrow> is_array t)"
proof -
  have "\<not> is_array t" if "map_of (downgrade_type m) ''type'' = Some t" for t
  proof (cases "Option.bind (map_of m ''type'') as_array")
    case None
    then have "map_of m ''type'' = Some t" using that by (simp add: downgrade_type_def)
    with None show ?thesis by (simp add: is_array_def)
  next
    case (Some arr)
    define non_null where "non_null = filter (\<lambda>v. v \<noteq> JString ''null'') arr"
    from Some assms have arr: "convertible_types arr" by (auto simp: nullable_types_def bind_eq_Some_conv)
    have "list_ex (\<lambda>v. v = JString ''null'') arr" using arr by (auto simp: convertible_types_def list_ex_iff)
    then have "downgrade_type m = (if length non_null = 1
        then bt_insert ''nullable'' (JBool True) (bt_insert ''type'' (non_null ! 0) m)
        else bt_insert ''nullable'' (JBool True) (bt_remove ''type'' m))"
      using Some arr by (auto simp: downgrade_type_def non_null_def convertible_types_def Let_def le_Suc_eq)
    with that have "t \<in> set non_null" by (auto simp: map_laws split: if_splits intro: nth_mem)
    with arr show ?thesis by (auto simp: convertible_types_def list_all_iff non_null_def)
  qed
  then show ?thesis by (auto simp: downgrade_type_of_step passes_keep_form split: option.split)
qed

lemma downgrade_scalar_types:
  assumes "all_objects nullable_types j"
  shows "all_objects (\<lambda>m. \<not> (case map_of m ''type'' of None \<Rightarrow> False | Some t \<Rightarrow> is_array t)) (downgrade_value j)"
  using _ _ assms by (rule down_pass.pass_transforms) (rule downgrade_type_scalar downgrade_step_values; assumption)+

lemma downgrade_removes_type_arrays:
  assumes "json_wf j" and "all_objects nullable_types j"
  shows "\<not> uses_type_array (detect_31_features (downgrade_31_to_30 j))"
proof -
  let ?P = "\<lambda>m. bt_invar m \<and> nullable_types m"
  have "all_objects ?P j" using assms by (simp add: all_objects_conj json_wf_def)
  then have "all_objects ?P (case json_get j ''paths'' of Some _ \<Rightarrow> j
    | None \<Rightarrow> (case j of JObject m \<Rightarrow> JObject (bt_insert ''paths'' (JObject []) m) | _ \<Rightarrow> j))"
    by (rule with_paths_all_objects) (auto simp: bt_invar_insert nullable_types_def map_laws)
  then have "all_objects nullable_types (extract_ref_siblings (case json_get j ''paths'' of Some _ \<Rightarrow> j
    | None \<Rightarrow> (case j of JObject m \<Rightarrow> JObject (bt_insert ''paths'' (JObject []) m) | _ \<Rightarrow> j)))"
    by (rule extract_keeps_nullable_types)
  then show ?thesis
    unfolding features_iff downgrade_31_to_30_def Let_def not_not by (rule downgrade_scalar_types)
qed

lemma downgrade_type_other:
  assumes "map_of m ''type'' = Some (JArray arr)" and "\<not> convertible_types arr"
  shows "\<exists>t. map_of (downgrade_type m) ''type'' = Some t \<and> is_array t"
proof (cases "JString ''null'' \<in> set arr \<and> length (filter (\<lambda>v. v \<noteq> JString ''null'') arr) \<le> 1")
  case True
  then obtain v where v: "v \<in> set arr" "is_array v" using assms(2) by (auto simp: convertible_types_def list_all_iff)
  then have "v \<in> set (filter (\<lambda>v. v \<noteq> JString ''null'') arr)" by (auto simp: is_array_def)
  with True have "filter (\<lambda>v. v \<noteq> JString ''null'') arr = [v]"
    by (cases "filter (\<lambda>v. v \<noteq> JString ''null'') arr") auto
  with True assms(1) v(2) show ?thesis by (auto simp: downgrade_type_def Let_def list_ex_iff map_laws)
next
  case False
  with assms(1) have "downgrade_type m = m" by (auto simp: downgrade_type_def Let_def list_ex_iff)
  with assms(1) show ?thesis by (simp add: is_array_def)
qed

lemma downgrade_keeps_other_types:
  assumes "map_of m ''type'' = Some (JArray arr)" and "\<not> convertible_types arr" and "map_of m ''$ref'' = None"
  shows "uses_type_array (detect_31_features (downgrade_31_to_30 (JObject m)))"
proof -
  define m' where "m' = (case map_of m ''paths'' of Some _ \<Rightarrow> m | None \<Rightarrow> bt_insert ''paths'' (JObject []) m)"
  define m'' where "m'' = map_values extract_ref_siblings m'"
  have m': "map_of m' ''type'' = Some (JArray arr)" "map_of m' ''$ref'' = None"
    using assms(1,3) by (auto simp: m'_def map_laws split: option.split)
  then have step: "ref_siblings_step m' = m'" by (simp add: ref_siblings_step_def)
  have "\<not> convertible_types (map extract_ref_siblings arr)" using assms(2) convertible_types_map passes_keep_form by blast
  moreover have "map_of m'' ''type'' = Some (JArray (map extract_ref_siblings arr))" using m'(1) by (simp add: m''_def)
  ultimately have "\<exists>t. map_of (downgrade_type m'') ''type'' = Some t \<and> is_array t" using downgrade_type_other by blast
  then have "\<not> all_objects (\<lambda>m. \<not> (case map_of m ''type'' of None \<Rightarrow> False | Some t \<Rightarrow> is_array t)) (downgrade_value (JObject m''))"
    by (auto simp: downgrade_type_of_step passes_keep_form)
  moreover have "downgrade_31_to_30 (JObject m) = downgrade_value (extract_ref_siblings (JObject m'))"
    by (simp add: downgrade_31_to_30_def m'_def split: option.split)
  ultimately show ?thesis unfolding features_iff by (simp add: step m''_def)
qed



text \<open>
  Downgrading keeps the representation invariant of JSON objects: keys stay strictly sorted
  at every depth.
\<close>

theorem downgrade_keeps_wf:
  assumes "json_wf j"
  shows "json_wf (downgrade_31_to_30 j)"
proof -
  have ref: "all_objects bt_invar (extract_ref_siblings i)" if "all_objects bt_invar i" for i
    using _ _ that
  proof (rule ref_pass.pass_transforms)
    fix m assume "bt_invar m" "values_sat (all_objects bt_invar) m"
    then show "values_sat (all_objects bt_invar) (ref_siblings_step m)"
      by (intro ref_siblings_values) (auto simp: bt_invar_insert_all)
    show "bt_invar (map_values extract_ref_siblings (ref_siblings_step m))"
      using \<open>bt_invar m\<close> by (cases m rule: ref_siblings_step_cases) auto
  qed
  have down: "all_objects bt_invar (downgrade_value i)" if "all_objects bt_invar i" for i
    using _ _ that
    by (rule down_pass.pass_transforms) (auto intro: downgrade_step_values downgrade_step_sorted)
  from assms show ?thesis
    unfolding json_wf_def downgrade_31_to_30_def Let_def
    by (intro down ref with_paths_all_objects) (auto simp: bt_invar_insert)
qed

theorem downgrade_keeps_wf_witness:
  "json_wf (downgrade_31_to_30 (JObject [(''const'', JNull), (''type'', JArray [JString ''null''])]))"
  by (rule downgrade_keeps_wf) code_simp

text \<open>
  A reference with siblings becomes an allOf of the bare reference and an object that holds
  exactly the siblings (each processed in turn): no sibling is lost.
\<close>

theorem ref_siblings_become_allOf:
  assumes "bt_invar m" and "map_of m ''$ref'' = Some (JString s)" and "s \<noteq> []"
    and "bt_remove ''$ref'' m \<noteq> []"
  shows "extract_ref_siblings (JObject m) =
    JObject [(''allOf'', JArray [JObject [(''$ref'', JString s)],
                                  extract_ref_siblings (JObject (bt_remove ''$ref'' m))])]"
proof -
  have "ref_siblings_step m = [(''allOf'',
      JArray [JObject [(''$ref'', JString s)], JObject (bt_remove ''$ref'' m)])]"
    using assms bt_insert_all_sorted [of "[]" "bt_remove ''$ref'' m"]
    by (simp add: ref_siblings_step_def filter_not_ref bt_invar_remove)
  moreover have "ref_siblings_step [(''$ref'', JString s)] = [(''$ref'', JString s)]"
    by (simp add: ref_siblings_step_def)
  ultimately show ?thesis by (simp add: map_values_def)
qed

theorem ref_siblings_become_allOf_witness:
  "extract_ref_siblings (JObject [(''$ref'', JString ''#/P''), (''summary'', JNull)]) =
   JObject [(''allOf'', JArray [JObject [(''$ref'', JString ''#/P'')],
     extract_ref_siblings (JObject (bt_remove ''$ref'' [(''$ref'', JString ''#/P''), (''summary'', JNull)]))])]"
  by (rule ref_siblings_become_allOf) code_simp+

text \<open>
  A nullable type array \<open>["X", "null"]\<close> becomes the single type X with
  \<open>nullable: true\<close>, whatever else the schema holds.
\<close>

theorem downgrade_nullable_type:
  assumes "map_of m ''type'' = Some (JArray arr)"
    and "JString ''null'' \<in> set arr" and "filter (\<lambda>v. v \<noteq> JString ''null'') arr = [t]"
  shows "\<exists>m'. downgrade_value (JObject m) = JObject m' \<and>
    map_of m' ''type'' = Some (downgrade_value t) \<and> map_of m' ''nullable'' = Some (JBool True)"
proof -
  have "downgrade_type m = bt_insert ''nullable'' (JBool True) (bt_insert ''type'' t m)"
    using assms by (auto simp: downgrade_type_def Let_def list_ex_iff)
  then have "map_of (downgrade_step m) ''type'' = Some t"
    "map_of (downgrade_step m) ''nullable'' = Some (JBool True)"
    by (simp_all add: downgrade_step_def step_lookup map_laws)
  then show ?thesis by simp
qed

theorem downgrade_nullable_type_witness:
  "\<exists>m'. downgrade_value (JObject [(''type'', JArray [JString ''string'', JString ''null''])]) = JObject m' \<and>
    map_of m' ''type'' = Some (downgrade_value (JString ''string'')) \<and>
    map_of m' ''nullable'' = Some (JBool True)"
  by (rule downgrade_nullable_type [where arr = "[JString ''string'', JString ''null'']"]) simp_all

text \<open>
  Line-ending normalisation equals a single left-to-right scan that turns CRLF and lone CR
  into LF, and its result holds no carriage return.
\<close>

theorem normalize_line_endings_collapses:
  "normalize_line_endings s = collapse_eol s \<and> CHR 13 \<notin> set (normalize_line_endings s)"
proof
  show eq: "normalize_line_endings s = collapse_eol s"
    by (simp add: normalize_line_endings_def two_replacements collapse_eol_idle)
  show "CHR 13 \<notin> set (normalize_line_endings s)"
    using set_replace_char [of "CHR 13" "[CHR 10]" "replace_sub [CHR 13, CHR 10] [CHR 10] s"]
    by (auto simp: normalize_line_endings_def)
qed

text \<open>
  On a document without a \<open>webhooks\<close> field, \<open>parse_str_full\<close> returns exactly what
  \<open>parse_str\<close> returns, with no webhooks; the errors are the same too.
\<close>

theorem parse_str_full_agrees:
  assumes "load_json dj dy text = Ok j" and "json_get j ''webhooks'' = None"
  shows "parse_str_full dj dy dv text =
    (case parse_str dj dy dv text of
       Inl e \<Rightarrow> Err e | Inr spec \<Rightarrow> Ok \<lparr>ps_spec = spec, ps_webhooks = None\<rparr>)"
proof -
  have "extract_webhooks j = (None, j)"
    using assms(2) by (cases j) (auto simp: extract_webhooks_def)
  with assms(1) show ?thesis
    by (simp add: parse_str_full_def parse_str_def split: sum.split)
qed

theorem parse_str_full_agrees_witness:
  "parse_str_full (\<lambda>t. Some (JObject [])) (\<lambda>t. Err ''yaml'') (\<lambda>j. Ok j) ''{}'' =
    (case parse_str (\<lambda>t. Some (JObject [])) (\<lambda>t. Err ''yaml'') (\<lambda>j. Ok j) ''{}'' of
       Inl e \<Rightarrow> Err e | Inr spec \<Rightarrow> Ok \<lparr>ps_spec = spec, ps_webhooks = None\<rparr>)"
  by (rule parse_str_full_agrees [where j = "JObject []"]) (simp_all add: load_json_def)

text \<open>
  A property that happens to be called \<open>const\<close> is taken for the keyword: the pass does not
  know that the keys of \<open>properties\<close> are names. The property is renamed and turned into an array.
\<close>

theorem property_named_const_is_rewritten:
  "downgrade_value (JObject [(''properties'', JObject [(''const'', JObject [(''type'', JString ''string'')])])]) =
   JObject [(''properties'', JObject [(''enum'', JArray [JObject [(''type'', JString ''string'')]])])]"
  by code_simp

end
