(* ===== verification/Resolve.thy ===== *)
theory Resolve
  imports Json OpenApi
begin

text \<open>
  crates/specforge-core/src/resolve.rs: from the parsed OpenAPI document to the IR. One definition
  per function of the source, in its order. Named schemas become models in an \<open>IndexMap\<close>
  registry; references stay names; \<open>allOf\<close> members are merged; operations, parameters, responses
  and webhooks are walked in document order. Loops that use \<open>?\<close> stop at the first error.
\<close>

section \<open>Names of references\<close>

definition ref_name :: "string \<Rightarrow> string" where
  "ref_name reference = last (split_on (CHR ''/'') reference)"

section \<open>Base URL and security\<close>

definition pick_base_url :: "string list \<Rightarrow> string option" where
  "pick_base_url servers = (case servers of [] \<Rightarrow> None | s # _ \<Rightarrow> Some s)"

fun map_security_scheme :: "oapi_security_scheme \<Rightarrow> security_scheme option" where
  "map_security_scheme (SchemeHttp scheme _) =
     (if eq_ignore_ascii_case scheme ''bearer'' then Some HttpBearer else None)"
| "map_security_scheme (SchemeApiKey location name) =
     Some (ApiKey (case location of KeyQuery \<Rightarrow> name | KeyCookie \<Rightarrow> name | KeyHeader \<Rightarrow> name))"
| "map_security_scheme _ = None"

definition resolve_security :: "oapi_spec \<Rightarrow> components option \<Rightarrow> security_scheme list" where
  "resolve_security spec comps =
     (case spec_security spec of
        None \<Rightarrow> []
      | Some reqs \<Rightarrow>
          (case comps of
             None \<Rightarrow> []
           | Some c \<Rightarrow>
               concat (map (\<lambda>req.
                 List.map_filter (\<lambda>(name, _).
                   (case map_of (co_security_schemes c) name of
                      Some (Item scheme) \<Rightarrow> map_security_scheme scheme
                    | _ \<Rightarrow> None)) req) reqs)))"

section \<open>Schemas to types\<close>

text \<open>
  The reference of an allOf of one \<open>$ref\<close> and one metadata-only member, with the member's
  description (or title) as its own.
\<close>

definition allof_ref_sibling_description :: "oapi_schema reference_or list \<Rightarrow> ir_type option" where
  "allof_ref_sibling_description all_of =
     (case (case all_of of
              [Reference r, Item s] \<Rightarrow> Some (r, s)
            | [Item s, Reference r] \<Rightarrow> Some (r, s)
            | _ \<Rightarrow> None) of
        None \<Rightarrow> None
      | Some (r, Schema data kind) \<Rightarrow>
          if kind = KAny \<and>
             (sd_description data \<noteq> None \<or> sd_title data \<noteq> None \<or> sd_deprecated data)
          then Some (TReference (ref_name r) False
                 (case sd_description data of Some d \<Rightarrow> Some d | None \<Rightarrow> sd_title data))
          else None)"

definition resolve_discriminator :: "oapi_discriminator \<Rightarrow> discriminator" where
  "resolve_discriminator d =
     \<lparr>disc_property_name = od_property_name d,
      disc_mapping =
        (if od_mapping d = [] then None
         else Some (map (\<lambda>(k, v). (k, ref_name v)) (od_mapping d)))\<rparr>"

function (sequential) schema_to_type :: "oapi_schema \<Rightarrow> ir_type option"
  and schema_kind_to_type :: "schema_kind \<Rightarrow> bool \<Rightarrow> oapi_discriminator option \<Rightarrow> ir_type"
  and type_to_ir :: "oapi_type \<Rightarrow> bool \<Rightarrow> ir_type"
  and ref_or_boxed_schema_to_type :: "oapi_schema reference_or \<Rightarrow> ir_type"
  and boxed_ref_or_schema_to_type :: "oapi_schema reference_or \<Rightarrow> ir_type"
  and composition ::
    "composition_kind \<Rightarrow> oapi_schema reference_or list \<Rightarrow> oapi_discriminator option \<Rightarrow> ir_type"
where
  "schema_to_type (Schema data kind) =
     Some (schema_kind_to_type kind (sd_nullable data) (sd_discriminator data))"
| "schema_kind_to_type (KType t) nullable disc = type_to_ir t nullable"
| "schema_kind_to_type (KOneOf one_of) nullable disc = composition OneOf one_of disc"
| "schema_kind_to_type (KAnyOf any_of) nullable disc = composition AnyOf any_of disc"
| "schema_kind_to_type (KAllOf all_of) nullable disc =
     (case allof_ref_sibling_description all_of of
        Some desc \<Rightarrow> desc
      | None \<Rightarrow> composition AllOf all_of disc)"
| "schema_kind_to_type KAny nullable disc = TAny"
| "schema_kind_to_type KNot nullable disc = TAny"
| "type_to_ir (OString s) nullable =
     (let variants = List.map_filter id (st_enumeration s) in
      if variants \<noteq> [] then TStringEnum variants nullable
      else TScalar (case st_format s of
                      VItem FmtDate \<Rightarrow> ScDateTime
                    | VItem FmtDateTime \<Rightarrow> ScDateTime
                    | VUnknown fmt \<Rightarrow> if eq_ignore_ascii_case fmt ''uuid'' then ScUuid else ScString
                    | _ \<Rightarrow> ScString))"
| "type_to_ir OInteger nullable = TScalar ScInteger"
| "type_to_ir ONumber nullable = TScalar ScFloat"
| "type_to_ir OBoolean nullable = TScalar ScBoolean"
| "type_to_ir (OArray items) nullable =
     TArray (case items of None \<Rightarrow> TUnknown | Some i \<Rightarrow> ref_or_boxed_schema_to_type i) nullable"
| "type_to_ir (OObject _ _ additional) nullable =
     (case additional of
        Some (APAny True) \<Rightarrow> TMap TAny
      | Some (APAny False) \<Rightarrow> TAny
      | None \<Rightarrow> TAny
      | Some (APSchema boxed) \<Rightarrow> TMap (boxed_ref_or_schema_to_type boxed))"
| "ref_or_boxed_schema_to_type (Item s) =
     (case schema_to_type s of None \<Rightarrow> TUnknown | Some t \<Rightarrow> t)"
| "ref_or_boxed_schema_to_type (Reference reference) = TReference (ref_name reference) False None"
| "boxed_ref_or_schema_to_type (Item s) =
     (case schema_to_type s of None \<Rightarrow> TUnknown | Some t \<Rightarrow> t)"
| "boxed_ref_or_schema_to_type (Reference reference) = TReference (ref_name reference) False None"
| "composition kind members disc =
     TComposition kind
       (map (\<lambda>m. case m of
                   Item s \<Rightarrow> (case schema_to_type s of None \<Rightarrow> TUnknown | Some t \<Rightarrow> t)
                 | Reference reference \<Rightarrow> TReference (ref_name reference) False None) members)
       (map_option resolve_discriminator disc)"
  by pat_completeness auto
termination
  by (relation "measure (case_sum
        (case_sum size (case_sum (\<lambda>(k, _). size k) (\<lambda>(t, _). size t)))
        (case_sum (size_reference_or size)
          (case_sum (size_reference_or size) (\<lambda>(_, ms, _). size_list (size_reference_or size) ms))))")
    (auto simp: less_Suc_eq_le intro: size_list_estimation size_list_estimation')

definition additional_to_type :: "additional_properties \<Rightarrow> ir_type option" where
  "additional_to_type ap =
     (case ap of
        APAny True \<Rightarrow> Some TAny
      | APAny False \<Rightarrow> None
      | APSchema boxed \<Rightarrow> Some (boxed_ref_or_schema_to_type boxed))"

fun ref_or_schema_to_type :: "oapi_schema reference_or \<Rightarrow> ir_type" where
  "ref_or_schema_to_type (Item s) = (case schema_to_type s of None \<Rightarrow> TUnknown | Some t \<Rightarrow> t)"
| "ref_or_schema_to_type (Reference reference) = TReference (ref_name reference) False None"

section \<open>Models\<close>

text \<open>
  The properties of an object schema: one per entry, required when its name is listed. The
  source repeats this loop in \<open>build_model\<close> and twice in \<open>properties_from_allof_member\<close>.
\<close>

definition object_properties ::
  "(string \<times> oapi_schema reference_or) list \<Rightarrow> string list \<Rightarrow> property list" where
  "object_properties properties required =
     map (\<lambda>(prop_name, prop_schema_or).
       \<lparr>prop_name = prop_name,
        prop_ty = ref_or_boxed_schema_to_type prop_schema_or,
        prop_required = (prop_name \<in> set required),
        prop_description =
          (case prop_schema_or of Item s \<Rightarrow> sd_description (schema_data s) | Reference _ \<Rightarrow> None)\<rparr>)
       properties"

definition deref_schema :: "oapi_schema reference_or \<Rightarrow> (resolve_error, oapi_schema) result" where
  "deref_schema schema_or =
     (case schema_or of
        Item s \<Rightarrow> Ok s
      | Reference reference \<Rightarrow>
          Err (InvalidRef (''top-level component schema '' @ debug_str reference
                 @ '' should be inline, not a $ref'')))"

text \<open>The properties an allOf member contributes, and its required names.\<close>

definition properties_from_allof_member ::
  "oapi_schema reference_or \<Rightarrow> components \<Rightarrow> schema_registry
   \<Rightarrow> (resolve_error, property list \<times> string list) result" where
  "properties_from_allof_member member comps registry =
     (case member of
        Reference reference \<Rightarrow>
          let name = ref_name reference in
          (case map_of (co_schemas comps) name of
             Some (Item (Schema _ (KType (OObject properties required _)))) \<Rightarrow>
               Ok (object_properties properties required, required)
           | _ \<Rightarrow>
               (case registry_get registry name of
                  Some (MObject obj) \<Rightarrow>
                    Ok (om_properties obj,
                        map prop_name (filter prop_required (om_properties obj)))
                | _ \<Rightarrow> Ok ([], [])))
      | Item (Schema _ (KType (OObject properties required _))) \<Rightarrow>
          Ok (object_properties properties required, required)
      | Item _ \<Rightarrow> Ok ([], []))"

text \<open>The loop of \<open>merge_allof_properties\<close>: the merged map and the union of required names.\<close>

fun merge_members ::
  "oapi_schema reference_or list \<Rightarrow> components \<Rightarrow> schema_registry
   \<Rightarrow> (string \<times> property) list \<Rightarrow> string list
   \<Rightarrow> (resolve_error, (string \<times> property) list \<times> string list) result" where
  "merge_members [] comps registry merged all_required = Ok (merged, all_required)"
| "merge_members (member # ms) comps registry merged all_required =
     (case properties_from_allof_member member comps registry of
        Inl e \<Rightarrow> Err e
      | Inr (props, required) \<Rightarrow>
          merge_members ms comps registry
            (im_insert_all (map (\<lambda>p. (prop_name p, p)) props) merged) (all_required @ required))"

definition merge_allof_properties ::
  "oapi_schema reference_or list \<Rightarrow> components \<Rightarrow> schema_registry
   \<Rightarrow> (resolve_error, property list \<times> ir_type option) result" where
  "merge_allof_properties all_of comps registry =
     (case merge_members all_of comps registry [] [] of
        Inl e \<Rightarrow> Err e
      | Inr (merged, all_required) \<Rightarrow>
          Ok (map (\<lambda>p. p\<lparr>prop_required := (prop_name p \<in> set all_required)\<rparr>) (map snd merged), None))"

definition allof_base_type :: "oapi_schema reference_or list \<Rightarrow> ir_type option" where
  "allof_base_type all_of =
     (case List.map_filter (\<lambda>m. case m of Reference r \<Rightarrow> Some (ref_name r) | Item _ \<Rightarrow> None) all_of of
        [n] \<Rightarrow> Some (TReference n False None)
      | _ \<Rightarrow> None)"

definition build_model ::
  "string \<Rightarrow> schema_data \<Rightarrow> schema_kind \<Rightarrow> components \<Rightarrow> schema_registry
   \<Rightarrow> (resolve_error, model) result" where
  "build_model name data kind comps registry =
     (let variants =
        (case kind of
           KType (OString s) \<Rightarrow>
             map (\<lambda>raw. \<lparr>ev_value = raw, ev_description = None\<rparr>)
               (List.map_filter id (st_enumeration s))
         | _ \<Rightarrow> [])
      in
      if variants \<noteq> []
      then Ok (MEnum \<lparr>em_name = name, em_description = sd_description data, em_variants = variants\<rparr>)
      else
        (case (case kind of
                 KType (OObject properties required additional_properties) \<Rightarrow>
                   Ok (object_properties properties required,
                       Option.bind additional_properties additional_to_type)
               | KAllOf all_of \<Rightarrow> merge_allof_properties all_of comps registry
               | _ \<Rightarrow> Ok ([], None)) of
           Inl e \<Rightarrow> Err e
         | Inr (properties, additional) \<Rightarrow>
             Ok (MObject
               \<lparr>om_name = name,
                om_description = sd_description data,
                om_properties = properties,
                om_additional_properties = additional,
                om_shape_type = Some (schema_kind_to_type kind (sd_nullable data) (sd_discriminator data)),
                om_base_type = (case kind of KAllOf all_of \<Rightarrow> allof_base_type all_of | _ \<Rightarrow> None)\<rparr>)))"

fun resolve_schemas_loop ::
  "(string \<times> oapi_schema reference_or) list \<Rightarrow> components \<Rightarrow> schema_registry
   \<Rightarrow> (resolve_error, schema_registry) result" where
  "resolve_schemas_loop [] comps registry = Ok registry"
| "resolve_schemas_loop ((name, schema_or) # rest) comps registry =
     (case deref_schema schema_or of
        Inl e \<Rightarrow> Err e
      | Inr schema \<Rightarrow>
          (case build_model name (schema_data schema) (schema_kind schema) comps registry of
             Inl e \<Rightarrow> Err e
           | Inr model \<Rightarrow> resolve_schemas_loop rest comps (im_insert name model registry)))"

definition resolve_schemas :: "components option \<Rightarrow> (resolve_error, schema_registry) result" where
  "resolve_schemas comps =
     (case comps of None \<Rightarrow> Ok [] | Some c \<Rightarrow> resolve_schemas_loop (co_schemas c) c [])"

section \<open>Operations\<close>

definition iter_methods :: "path_item \<Rightarrow> (http_method \<times> oapi_operation) list" where
  "iter_methods item =
     List.map_filter (\<lambda>(m, op). map_option (\<lambda>o'. (m, o')) op)
       [(Get, pi_get item), (Post, pi_post item), (Put, pi_put item), (Patch, pi_patch item),
        (Delete, pi_delete item), (Head, pi_head item), (Options, pi_options item)]"

definition synthesize_operation_id :: "http_method \<Rightarrow> string \<Rightarrow> string" where
  "synthesize_operation_id method path =
     method_as_str method @
     join ''_'' (map (\<lambda>seg. trim_end_matches (CHR ''}'') (trim_start_matches (CHR ''{'') seg))
                  (split_on (CHR ''/'') (trim_matches (CHR ''/'') path)))"

definition resolve_parameter_item :: "oapi_parameter \<Rightarrow> (resolve_error, parameter option) result" where
  "resolve_parameter_item param =
     (case (case param of
              PQuery d \<Rightarrow> (InQuery, d)
            | PHeader d \<Rightarrow> (InHeader, d)
            | PPath d \<Rightarrow> (InPath, d)
            | PCookie d \<Rightarrow> (InHeader, d)) of
        (location, data) \<Rightarrow>
          Ok (Some \<lparr>par_name = pd_name data,
                    par_location = location,
                    par_ty = (case pd_format data of
                                PSchema s \<Rightarrow> ref_or_schema_to_type s | PContent \<Rightarrow> TUnknown),
                    par_required = pd_required data,
                    par_description = pd_description data\<rparr>))"

definition resolve_parameter ::
  "oapi_parameter reference_or \<Rightarrow> components option \<Rightarrow> (resolve_error, parameter option) result" where
  "resolve_parameter p comps =
     (case p of
        Item param \<Rightarrow> resolve_parameter_item param
      | Reference reference \<Rightarrow>
          (case comps of
             None \<Rightarrow> Ok None
           | Some c \<Rightarrow>
               (case map_of (co_parameters c) (ref_name reference) of
                  None \<Rightarrow> Ok None
                | Some (Item param) \<Rightarrow> resolve_parameter_item param
                | Some (Reference _) \<Rightarrow> Ok None)))"

text \<open>The two nested loops over path-level and operation-level parameters, with the seen names.\<close>

fun collect_parameters ::
  "oapi_parameter reference_or list \<Rightarrow> components option \<Rightarrow> string list \<Rightarrow> parameter list
   \<Rightarrow> (resolve_error, parameter list) result" where
  "collect_parameters [] comps seen parameters = Ok parameters"
| "collect_parameters (p # ps) comps seen parameters =
     (case resolve_parameter p comps of
        Inl e \<Rightarrow> Err e
      | Inr None \<Rightarrow> collect_parameters ps comps seen parameters
      | Inr (Some ir) \<Rightarrow>
          if par_name ir \<in> set seen then collect_parameters ps comps seen parameters
          else collect_parameters ps comps (par_name ir # seen) (parameters @ [ir]))"

definition json_body :: "(string \<times> media_type) list \<Rightarrow> ir_type option" where
  "json_body content =
     map_option ref_or_schema_to_type
       (Option.bind (map_of content ''application/json'') mt_schema)"

definition status_code_str :: "status_code \<Rightarrow> string" where
  "status_code_str code =
     (case code of Code n \<Rightarrow> show_nat (unat n) | Range n \<Rightarrow> show_nat (unat n) @ ''XX'')"

definition resolve_responses :: "oapi_responses \<Rightarrow> (resolve_error, response list) result" where
  "resolve_responses responses =
     Ok (map (\<lambda>(status, resp_or).
            \<lparr>resp_status = status_code_str status,
             resp_description = None,
             resp_body = (case resp_or of Item r \<Rightarrow> json_body (oresp_content r) | Reference _ \<Rightarrow> None)\<rparr>)
          (oresps_responses responses)
        @ (case oresps_default responses of
             Some (Item r) \<Rightarrow>
               [\<lparr>resp_status = ''default'',
                 resp_description = Some (oresp_description r),
                 resp_body = json_body (oresp_content r)\<rparr>]
           | _ \<Rightarrow> []))"

definition resolve_operation ::
  "http_method \<Rightarrow> string \<Rightarrow> oapi_operation \<Rightarrow> oapi_parameter reference_or list \<Rightarrow> components option
   \<Rightarrow> (resolve_error, operation) result" where
  "resolve_operation method path op path_item_params comps =
     (case collect_parameters (path_item_params @ oop_parameters op) comps [] [] of
        Inl e \<Rightarrow> Err e
      | Inr parameters \<Rightarrow>
          (case resolve_responses (oop_responses op) of
             Inl e \<Rightarrow> Err e
           | Inr responses \<Rightarrow>
               Ok \<lparr>op_operation_id =
                     (case oop_operation_id op of
                        Some i \<Rightarrow> i | None \<Rightarrow> synthesize_operation_id method path),
                   op_method = method,
                   op_path = path,
                   op_tag = (case oop_tags op of [] \<Rightarrow> None | t # _ \<Rightarrow> Some t),
                   op_summary = oop_summary op,
                   op_description = oop_description op,
                   op_parameters = parameters,
                   op_request_body =
                     (case oop_request_body op of
                        Some (Item b) \<Rightarrow>
                          map_option (\<lambda>s. \<lparr>rb_ty = ref_or_schema_to_type s,
                                            rb_required = orb_required b,
                                            rb_description = orb_description b\<rparr>)
                            (Option.bind (map_of (orb_content b) ''application/json'') mt_schema)
                      | _ \<Rightarrow> None),
                   op_responses = responses,
                   op_retry_policy = None\<rparr>))"

text \<open>The (path, item, method, operation) steps of the two nested loops, in order.\<close>

definition operation_steps ::
  "(string \<times> path_item reference_or) list \<Rightarrow> (string \<times> path_item \<times> http_method \<times> oapi_operation) list" where
  "operation_steps paths =
     concat (map (\<lambda>(path, item_or).
       (case item_or of
          Item item \<Rightarrow> map (\<lambda>(m, op). (path, item, m, op)) (iter_methods item)
        | Reference _ \<Rightarrow> [])) paths)"

definition resolve_operations ::
  "(string \<times> path_item reference_or) list \<Rightarrow> components option
   \<Rightarrow> (resolve_error, operation list) result" where
  "resolve_operations paths comps =
     try_map (\<lambda>(path, item, m, op). resolve_operation m path op (pi_parameters item) comps)
       (operation_steps paths)"

section \<open>Webhooks\<close>

function webhook_json_to_type :: "json \<Rightarrow> ir_type" where
  "webhook_json_to_type schema =
     (case as_object schema of
        None \<Rightarrow> TUnknown
      | Some obj \<Rightarrow>
          (case Option.bind (map_of obj ''$ref'') as_str of
             Some ref_val \<Rightarrow> TReference (ref_name ref_val) False None
           | None \<Rightarrow>
               (case Option.bind (map_of obj ''type'') as_str of
                  None \<Rightarrow> TUnknown
                | Some t \<Rightarrow>
                    if t = ''string'' then TScalar ScString
                    else if t = ''integer'' then TScalar ScInteger
                    else if t = ''number'' then TScalar ScFloat
                    else if t = ''boolean'' then TScalar ScBoolean
                    else if t = ''array''
                    then TArray (case map_of obj ''items'' of
                                   None \<Rightarrow> TUnknown | Some i \<Rightarrow> webhook_json_to_type i) False
                    else if t = ''object'' then TAny
                    else TUnknown)))"
  by pat_completeness auto
termination
proof (relation "measure json_rank")
  fix schema obj i
  assume "as_object schema = Some obj" and "map_of obj ''items'' = Some i"
  then show "(i, schema) \<in> measure json_rank"
    using json_rank_object [of "''items''" i obj]
    by (auto dest: map_of_SomeD simp del: json_rank.simps)
qed simp

declare webhook_json_to_type.simps [simp del]

definition resolve_webhook_request_body :: "json_object \<Rightarrow> request_body option" where
  "resolve_webhook_request_body op_obj =
     Option.bind (Option.bind (map_of op_obj ''requestBody'') as_object) (\<lambda>rb_obj.
     Option.bind (Option.bind (map_of rb_obj ''content'') as_object) (\<lambda>content.
     Option.bind (Option.bind (map_of content ''application/json'') as_object) (\<lambda>json_content.
     Option.bind (map_of json_content ''schema'') (\<lambda>schema_json.
       Some \<lparr>rb_ty = webhook_json_to_type schema_json,
             rb_required =
               (case Option.bind (map_of rb_obj ''required'') as_bool of None \<Rightarrow> False | Some b \<Rightarrow> b),
             rb_description = Option.bind (map_of rb_obj ''description'') as_str\<rparr>))))"

definition resolve_webhook_responses :: "json_object \<Rightarrow> response list" where
  "resolve_webhook_responses op_obj =
     (case Option.bind (map_of op_obj ''responses'') as_object of
        None \<Rightarrow> []
      | Some responses_obj \<Rightarrow>
          map (\<lambda>(status, resp_json).
            \<lparr>resp_status = status,
             resp_description = Option.bind (json_get resp_json ''description'') as_str,
             resp_body =
               map_option webhook_json_to_type
                 (Option.bind (json_get resp_json ''content'') (\<lambda>c.
                  Option.bind (json_get c ''application/json'') (\<lambda>m. json_get m ''schema'')))\<rparr>)
            responses_obj)"

definition webhook_methods :: "(string \<times> http_method) list" where
  "webhook_methods =
     [(''get'', Get), (''post'', Post), (''put'', Put), (''patch'', Patch), (''delete'', Delete),
      (''head'', Head), (''options'', Options)]"

definition resolve_webhooks :: "json \<Rightarrow> (resolve_error, webhook list) result" where
  "resolve_webhooks webhooks_json =
     (case as_object webhooks_json of
        None \<Rightarrow> Ok []
      | Some obj \<Rightarrow>
          Ok (concat (map (\<lambda>(name, path_item).
            (case as_object path_item of
               None \<Rightarrow> []
             | Some path_obj \<Rightarrow>
                 List.map_filter (\<lambda>(method_str, method).
                   map_option (\<lambda>op_obj.
                     \<lparr>wh_name = name,
                      wh_method = method,
                      wh_path = ''/webhooks/'' @ name,
                      wh_summary = Option.bind (map_of op_obj ''summary'') as_str,
                      wh_description = Option.bind (map_of op_obj ''description'') as_str,
                      wh_request_body = resolve_webhook_request_body op_obj,
                      wh_responses = resolve_webhook_responses op_obj\<rparr>)
                     (Option.bind (map_of path_obj method_str) as_object))
                   webhook_methods)) obj)))"

section \<open>The document\<close>

definition resolve_with_webhooks :: "oapi_spec \<Rightarrow> json option \<Rightarrow> (resolve_error, document) result" where
  "resolve_with_webhooks spec webhooks_json =
     (let comps = spec_components spec in
      case resolve_schemas comps of
        Inl e \<Rightarrow> Err e
      | Inr schemas \<Rightarrow>
          (case resolve_operations (spec_paths spec) comps of
             Inl e \<Rightarrow> Err e
           | Inr operations \<Rightarrow>
               (case (case webhooks_json of None \<Rightarrow> Ok [] | Some wh \<Rightarrow> resolve_webhooks wh) of
                  Inl e \<Rightarrow> Err e
                | Inr webhooks \<Rightarrow>
                    Ok \<lparr>doc_ir_version = IR_VERSION,
                        doc_title = spec_title spec,
                        doc_version = spec_version spec,
                        doc_base_url = pick_base_url (spec_servers spec),
                        doc_security = resolve_security spec comps,
                        doc_schemas = schemas,
                        doc_operations = operations,
                        doc_webhooks = webhooks\<rparr>)))"

definition resolve :: "oapi_spec \<Rightarrow> (resolve_error, document) result" where
  "resolve spec = resolve_with_webhooks spec None"

section \<open>Which steps can fail\<close>

lemma properties_from_allof_member_total:
  "\<exists>ps req. properties_from_allof_member m comps registry = Ok (ps, req)"
  by (auto simp: properties_from_allof_member_def Let_def
      split: reference_or.split oapi_schema.split schema_kind.split oapi_type.split
        option.split model.split)

lemma merge_members_total:
  "\<exists>r. merge_members ms comps registry merged req = Ok r"
proof (induction ms arbitrary: merged req)
  case Nil
  show ?case by simp
next
  case (Cons m ms)
  obtain ps r where "properties_from_allof_member m comps registry = Ok (ps, r)"
    using properties_from_allof_member_total by blast
  with Cons show ?case by simp
qed

lemma merge_allof_properties_total: "\<exists>ps. merge_allof_properties ms comps registry = Ok (ps, None)"
proof -
  obtain m r where "merge_members ms comps registry [] [] = Ok (m, r)"
    using merge_members_total by fastforce
  then show ?thesis by (simp add: merge_allof_properties_def)
qed

lemma build_model_total: "\<exists>m. build_model name data kind comps registry = Ok m"
  using merge_allof_properties_total
  by (auto simp: build_model_def Let_def split: schema_kind.split oapi_type.split sum.split)
    (metis Inl_Inr_False)

lemma resolve_parameter_total: "\<exists>p. resolve_parameter q comps = Ok p"
  by (auto simp: resolve_parameter_def resolve_parameter_item_def
      split: reference_or.split option.split oapi_parameter.split)

lemma collect_parameters_total: "\<exists>ps. collect_parameters qs comps seen acc = Ok ps"
proof (induction qs arbitrary: seen acc)
  case Nil
  show ?case by simp
next
  case (Cons q qs)
  obtain p where "resolve_parameter q comps = Ok p" using resolve_parameter_total by blast
  with Cons show ?case by (auto split: option.split)
qed

lemma resolve_operation_total: "\<exists>o'. resolve_operation m path op ps comps = Ok o'"
proof -
  obtain qs where "collect_parameters (ps @ oop_parameters op) comps [] [] = Ok qs"
    using collect_parameters_total by blast
  then show ?thesis by (simp add: resolve_operation_def resolve_responses_def)
qed

lemma resolve_operations_total: "\<exists>ops. resolve_operations paths comps = Ok ops"
  unfolding resolve_operations_def
  by (rule try_map_ok) (auto simp: resolve_operation_total)

lemma resolve_webhooks_total: "\<exists>ws. resolve_webhooks j = Ok ws"
  by (auto simp: resolve_webhooks_def split: option.split)

text \<open>The error of a top-level component schema that is itself a reference.\<close>

definition top_level_ref_error :: "string \<Rightarrow> resolve_error" where
  "top_level_ref_error r = InvalidRef (''top-level component schema '' @ debug_str r
     @ '' should be inline, not a $ref'')"

lemma deref_schema_simps:
  "deref_schema (Item s) = Ok s"
  "deref_schema (Reference r) = Err (top_level_ref_error r)"
  by (simp_all add: deref_schema_def top_level_ref_error_def)

text \<open>The first component schema that is a bare reference.\<close>

fun first_ref_schema :: "(string \<times> oapi_schema reference_or) list \<Rightarrow> string option" where
  "first_ref_schema [] = None"
| "first_ref_schema ((n, Reference r) # ss) = Some r"
| "first_ref_schema ((n, Item s) # ss) = first_ref_schema ss"

lemma resolve_schemas_loop_Inl_iff:
  "resolve_schemas_loop ss comps registry = Err e \<longleftrightarrow>
     (\<exists>r. first_ref_schema ss = Some r \<and> e = top_level_ref_error r)"
proof (induction ss arbitrary: registry rule: first_ref_schema.induct)
  case (3 n s ss)
  obtain m where "build_model n (schema_data s) (schema_kind s) comps registry = Ok m"
    using build_model_total by blast
  with 3 show ?case by (simp add: deref_schema_simps)
qed (auto simp: deref_schema_simps)

text \<open>
  C9. Resolving fails exactly when a top-level component schema is a bare reference, and then
  with the error of the first such schema; every other document resolves. (The variants
  \<open>UnresolvedRef\<close>, \<open>RefDepthExceeded\<close> and \<open>UntypedSchema\<close> of the error type never occur.)
\<close>

theorem resolve_fails_iff:
  "resolve_with_webhooks spec webhooks = Err e \<longleftrightarrow>
     (\<exists>c r. spec_components spec = Some c \<and> first_ref_schema (co_schemas c) = Some r \<and>
        e = top_level_ref_error r)"
proof -
  obtain ops where ops: "resolve_operations (spec_paths spec) (spec_components spec) = Ok ops"
    using resolve_operations_total by blast
  obtain ws where ws: "(case webhooks of None \<Rightarrow> Ok [] | Some wh \<Rightarrow> resolve_webhooks wh) = Ok ws"
    using resolve_webhooks_total by (cases webhooks) auto
  have "resolve_with_webhooks spec webhooks = Err e \<longleftrightarrow> resolve_schemas (spec_components spec) = Err e"
    by (simp add: resolve_with_webhooks_def Let_def ops ws split: sum.split)
  also have "\<dots> \<longleftrightarrow> (\<exists>c r. spec_components spec = Some c \<and>
      first_ref_schema (co_schemas c) = Some r \<and> e = top_level_ref_error r)"
    by (cases "spec_components spec") (simp_all add: resolve_schemas_def resolve_schemas_loop_Inl_iff)
  finally show ?thesis .
qed

section \<open>The registry\<close>

lemma build_model_name: "build_model name data kind comps registry = Ok m \<Longrightarrow> model_name m = name"
  by (auto simp: build_model_def Let_def split: if_splits sum.splits)

lemma resolve_schemas_loop_registry:
  assumes "resolve_schemas_loop ss comps registry = Ok reg"
    and "distinct (map fst (registry @ map (\<lambda>(n, s). (n, undefined)) ss))"
    and "\<forall>(n, m) \<in> set registry. model_name m = n"
  shows "map fst reg = map fst registry @ map fst ss \<and> (\<forall>(n, m) \<in> set reg. model_name m = n)"
  using assms
proof (induction ss arbitrary: registry)
  case Nil
  then show ?case by simp
next
  case (Cons x ss)
  obtain n s where x: "x = (n, s)" by (cases x)
  from Cons.prems(1) x obtain sch m where
    m: "build_model n (schema_data sch) (schema_kind sch) comps registry = Ok m" and
    rec: "resolve_schemas_loop ss comps (im_insert n m registry) = Ok reg"
    by (auto split: sum.splits)
  have fresh: "n \<notin> fst ` set registry" using Cons.prems(2) x by auto
  then have keys: "map fst (im_insert n m registry) = map fst registry @ [n]"
    by (simp add: keys_im_insert)
  moreover have "\<forall>(n, m) \<in> set (im_insert n m registry). model_name m = n"
    using set_im_insert [of n m registry] Cons.prems(3) build_model_name [OF m] by fastforce
  ultimately show ?case
    using Cons.IH [OF rec] Cons.prems(2) x by (auto simp: comp_def)
qed

text \<open>
  The registry of a resolved document has exactly the component schemas of the spec, in
  their order, and every model carries the name it is registered under.
\<close>

theorem resolve_registry:
  assumes "resolve_with_webhooks spec webhooks = Ok doc" and "spec_components spec = Some c"
    and "im_invar (co_schemas c)"
  shows "map fst (doc_schemas doc) = map fst (co_schemas c) \<and>
    (\<forall>(n, m) \<in> set (doc_schemas doc). model_name m = n)"
proof -
  have "resolve_schemas_loop (co_schemas c) c [] = Ok (doc_schemas doc)"
    using assms(1,2)
    by (auto simp: resolve_with_webhooks_def Let_def resolve_schemas_def split: sum.splits)
  from resolve_schemas_loop_registry [OF this] assms(3) show ?thesis
    by (simp add: im_invar_def comp_def split_def)
qed

text \<open>A small specification used by the witnesses: one object schema and one GET operation.\<close>

definition example_schema :: oapi_schema where
  "example_schema = Schema
     \<lparr>sd_description = None, sd_title = None, sd_deprecated = False, sd_nullable = False,
      sd_discriminator = None\<rparr>
     (KType (OObject [(''id'', Reference ''#/components/schemas/Id'')] [''id''] None))"

definition example_param :: "bool \<Rightarrow> oapi_parameter reference_or" where
  "example_param req = Item (PQuery \<lparr>pd_name = ''q'', pd_description = None, pd_required = req,
     pd_format = PContent\<rparr>)"

definition example_operation :: oapi_operation where
  "example_operation =
     \<lparr>oop_tags = [], oop_summary = None, oop_description = None, oop_operation_id = None,
      oop_parameters = [example_param True], oop_request_body = None,
      oop_responses = \<lparr>oresps_default = None, oresps_responses = []\<rparr>, oop_security = None\<rparr>"

definition example_item :: path_item where
  "example_item =
     \<lparr>pi_get = Some example_operation, pi_put = None, pi_post = None, pi_delete = None,
      pi_options = None, pi_head = None, pi_patch = None, pi_parameters = [example_param False]\<rparr>"

definition example_components :: components where
  "example_components =
     \<lparr>co_schemas = [(''Pet'', Item example_schema)], co_parameters = [], co_security_schemes = []\<rparr>"

definition example_spec :: oapi_spec where
  "example_spec =
     \<lparr>spec_title = ''T'', spec_version = ''1'', spec_servers = [],
      spec_paths = [(''/pets'', Item example_item)], spec_components = Some example_components,
      spec_security = None\<rparr>"

definition example_document :: document where
  "example_document =
     \<lparr>doc_ir_version = IR_VERSION, doc_title = ''T'', doc_version = ''1'', doc_base_url = None, doc_security = [],
      doc_schemas = [(''Pet'', MObject
        \<lparr>om_name = ''Pet'', om_description = None,
         om_properties = [\<lparr>prop_name = ''id'', prop_ty = TReference ''Id'' False None, prop_required = True, prop_description = None\<rparr>],
         om_additional_properties = None, om_shape_type = Some TAny, om_base_type = None\<rparr>)],
      doc_operations = [\<lparr>op_operation_id = ''getpets'', op_method = Get, op_path = ''/pets'', op_tag = None,
         op_summary = None, op_description = None, op_parameters = [\<lparr>par_name = ''q'', par_location = InQuery, par_ty = TUnknown, par_required = False, par_description = None\<rparr>],
         op_request_body = None,
         op_responses = [], op_retry_policy = None\<rparr>],
      doc_webhooks = []\<rparr>"

lemma example_resolved: "resolve_with_webhooks example_spec None = Ok example_document"
  by code_simp

theorem resolve_registry_witness:
  "\<exists>doc. resolve_with_webhooks example_spec None = Ok doc \<and>
     map fst (doc_schemas doc) = [''Pet''] \<and> (\<forall>(n, m) \<in> set (doc_schemas doc). model_name m = n)"
proof -
  obtain doc where "resolve_with_webhooks example_spec None = Ok doc"
    using example_resolved by blast
  with resolve_registry [of example_spec None doc example_components] show ?thesis
    by (auto simp: example_spec_def example_components_def im_invar_def)
qed

section \<open>Types do not grow\<close>

lemma allof_ref_sibling_nodes:
  "allof_ref_sibling_description ms = Some t \<Longrightarrow> type_nodes t = 1"
  by (auto simp: allof_ref_sibling_description_def
      split: list.splits reference_or.splits option.splits oapi_schema.splits if_splits)

lemma schema_to_type_Some: "schema_to_type s \<noteq> None"
  by (cases s) simp

lemma nodes_bounds:
  "schema_to_type s = Some t \<Longrightarrow> type_nodes t \<le> schema_nodes s"
  "type_nodes (schema_kind_to_type k n d) \<le> kind_nodes k"
  "type_nodes (type_to_ir ot n) \<le> otype_nodes ot"
  "type_nodes (ref_or_boxed_schema_to_type r) \<le> ref_nodes r"
  "type_nodes (boxed_ref_or_schema_to_type r) \<le> ref_nodes r"
  "type_nodes (composition ck ms d) \<le> Suc (sum_list (map ref_nodes ms))"
proof (induction s and k n d and ot n and r and r and ck ms d arbitrary: t
    rule: schema_to_type_schema_kind_to_type_type_to_ir_ref_or_boxed_schema_to_type_boxed_ref_or_schema_to_type_composition.induct)
  case (5 ms n d)
  then show ?case
    by (cases "allof_ref_sibling_description ms") (auto dest: allof_ref_sibling_nodes)
next
  case (18 ck ms d)
  have "type_nodes (case m of
          Item s \<Rightarrow> (case schema_to_type s of None \<Rightarrow> TUnknown | Some t \<Rightarrow> t)
        | Reference r \<Rightarrow> TReference (ref_name r) False None) \<le> ref_nodes m" if "m \<in> set ms" for m
    using 18 [OF that] schema_to_type_Some by (cases m) (auto split: option.split)
  then show ?case by (simp add: comp_def sum_list_mono)
qed (auto simp: Let_def schema_to_type_Some
    split: option.split variant_or_unknown_or_empty.split additional_properties.split bool.split)

text \<open>
  Translating a schema always yields a type, and the type has no more nodes than the schema
  has: references are kept as names and never expanded.
\<close>

theorem schema_to_type_bounded:
  "\<exists>t. schema_to_type s = Some t \<and> type_nodes t \<le> schema_nodes s"
  using schema_to_type_Some [of s] nodes_bounds(1) by fastforce

section \<open>Merging allOf members\<close>

text \<open>What a member contributes; every member contributes, as the source's function never fails.\<close>

definition member_part ::
  "components \<Rightarrow> schema_registry \<Rightarrow> oapi_schema reference_or \<Rightarrow> property list \<times> string list" where
  "member_part comps registry m = projr (properties_from_allof_member m comps registry)"

lemma properties_from_allof_member_part:
  "properties_from_allof_member m comps registry = Ok (member_part comps registry m)"
  using properties_from_allof_member_total [of m comps registry] by (auto simp: member_part_def)

definition keyed_props :: "property list \<Rightarrow> (string \<times> property) list" where
  "keyed_props ps = map (\<lambda>p. (prop_name p, p)) ps"

lemma merge_members_eq:
  "merge_members ms comps registry merged req =
     Ok (im_insert_all (concat (map (\<lambda>m. keyed_props (fst (member_part comps registry m))) ms)) merged,
         req @ concat (map (\<lambda>m. snd (member_part comps registry m)) ms))"
proof (induction ms arbitrary: merged req)
  case Nil
  show ?case by (simp add: im_insert_all_def)
next
  case (Cons m ms)
  obtain ps r where "member_part comps registry m = (ps, r)" by fastforce
  with Cons show ?case
    by (simp add: properties_from_allof_member_part keyed_props_def im_insert_all_def)
qed

lemma set_im_insert_all: "set (im_insert_all kvs m) \<subseteq> set kvs \<union> set m"
proof (induction kvs arbitrary: m)
  case Nil
  show ?case by (simp add: im_insert_all_def)
next
  case (Cons kv kvs)
  obtain k v where kv: "kv = (k, v)" by (cases kv)
  have "set (im_insert_all kvs (im_insert k v m)) \<subseteq> set kvs \<union> set (im_insert k v m)"
    by (rule Cons.IH)
  then show ?case
    using set_im_insert [of k v m] by (auto simp: im_insert_all_def kv)
qed

lemma keyed_props_im_insert_all:
  "\<forall>(k, p) \<in> set kvs. prop_name p = k \<Longrightarrow>
   map (\<lambda>p. (prop_name p, p)) (map snd (im_insert_all kvs [])) = im_insert_all kvs []"
  using set_im_insert_all [of kvs "[]"] by (fastforce simp: comp_def intro!: map_idI)

lemma im_invar_Nil [simp]: "im_invar []"
  by (simp add: im_invar_def)

text \<open>
  C5. Merging the members of an allOf always succeeds. The merged properties have distinct
  names; the property of a name is the one the last contributing member gives it, except for its
  required flag, which is set exactly when some member lists the name as required.
\<close>

theorem merge_allof_last_wins:
  "\<exists>ps. merge_allof_properties ms comps registry = Ok (ps, None) \<and>
     distinct (map prop_name ps) \<and>
     (\<forall>n. map_of (keyed_props ps) n =
        map_option (\<lambda>p. p\<lparr>prop_required := (\<exists>m \<in> set ms. n \<in> set (snd (member_part comps registry m)))\<rparr>)
          (map_of (rev (concat (map (\<lambda>m. keyed_props (fst (member_part comps registry m))) ms))) n))"
proof -
  define kvs where "kvs = concat (map (\<lambda>m. keyed_props (fst (member_part comps registry m))) ms)"
  define req where "req = concat (map (\<lambda>m. snd (member_part comps registry m)) ms)"
  define f where "f p = p\<lparr>prop_required := (prop_name p \<in> set req)\<rparr>" for p :: property
  define merged where "merged = im_insert_all kvs []"
  have named: "\<forall>(k, p) \<in> set kvs. prop_name p = k"
    by (auto simp: kvs_def keyed_props_def)
  then have key: "map (\<lambda>p. (prop_name p, p)) (map snd merged) = merged"
    unfolding merged_def by (rule keyed_props_im_insert_all)
  have inv: "im_invar merged"
    unfolding merged_def by (rule im_invar_insert_all) simp
  have names: "map prop_name (map snd merged) = map fst merged"
    by (metis (no_types, lifting) key comp_apply fst_conv list.map_comp map_eq_conv)
  have res: "merge_allof_properties ms comps registry = Ok (map f (map snd merged), None)"
    by (simp add: merge_allof_properties_def merge_members_eq f_def merged_def kvs_def req_def)
  have "keyed_props (map f (map snd merged)) = map (\<lambda>(k, p). (k, f p)) merged"
    using arg_cong [OF key, of "map (\<lambda>(k, p). (k, f p))"]
    by (simp add: keyed_props_def comp_def split_def f_def)
  then have "map_of (keyed_props (map f (map snd merged))) n = map_option f (map_of (rev kvs) n)" for n
    by (simp add: map_of_map merged_def im_get_insert_all split: option.split)
  moreover have "map_option f (map_of (rev kvs) n) =
      map_option (\<lambda>p. p\<lparr>prop_required := (\<exists>m \<in> set ms. n \<in> set (snd (member_part comps registry m)))\<rparr>)
        (map_of (rev kvs) n)" for n
    using named by (auto simp: f_def req_def dest!: map_of_SomeD intro!: option.map_cong0)
  moreover have "distinct (map prop_name (map f (map snd merged)))"
  proof -
    have "map prop_name (map f (map snd merged)) = map fst merged"
      unfolding names [symmetric] by (simp add: f_def)
    with inv show ?thesis by (simp only: im_invar_def)
  qed
  ultimately show ?thesis
    using res unfolding kvs_def by auto
qed

section \<open>Parameters\<close>

definition resolved_parameters :: "oapi_parameter reference_or list \<Rightarrow> components option \<Rightarrow> parameter list" where
  "resolved_parameters qs comps = List.map_filter (\<lambda>q. projr (resolve_parameter q comps)) qs"

lemma collect_parameters_spec:
  "collect_parameters qs comps seen acc = Ok ps \<Longrightarrow> set seen = par_name ` set acc \<Longrightarrow>
   distinct (map par_name acc) \<Longrightarrow>
   distinct (map par_name ps) \<and>
   map_of (map (\<lambda>p. (par_name p, p)) ps) =
     map_of (map (\<lambda>p. (par_name p, p)) (acc @ resolved_parameters qs comps))"
proof (induction qs arbitrary: seen acc)
  case Nil
  then show ?case by (simp add: resolved_parameters_def)
next
  case (Cons q qs)
  obtain r where r: "resolve_parameter q comps = Ok r" using resolve_parameter_total by blast
  show ?case
  proof (cases r)
    case None
    with Cons r show ?thesis by (simp add: resolved_parameters_def List.map_filter_simps)
  next
    case (Some p)
    show ?thesis
    proof (cases "par_name p \<in> set seen")
      case True
      then have "map_of (map (\<lambda>p. (par_name p, p)) acc) (par_name p) \<noteq> None"
        using Cons.prems(2) unfolding map_of_eq_None_iff by (auto simp: comp_def image_image)
      then have "map_of (map (\<lambda>p. (par_name p, p)) (acc @ p # resolved_parameters qs comps)) =
          map_of (map (\<lambda>p. (par_name p, p)) (acc @ resolved_parameters qs comps))"
        by (auto simp: map_add_def fun_eq_iff split: option.split)
      with Cons True Some r show ?thesis
        by (simp add: resolved_parameters_def List.map_filter_simps)
    next
      case False
      with Cons Some r show ?thesis
        by (auto simp: resolved_parameters_def List.map_filter_simps)
    qed
  qed
qed

text \<open>
  The parameters of an operation have distinct names, and each name keeps its first
  declaration, with the path-level declarations coming first: on a conflict the path-level
  declaration wins, whatever the location of the two.
\<close>

theorem path_level_parameter_wins:
  assumes "resolve_operation m path op item_params comps = Ok o'"
  shows "distinct (map par_name (op_parameters o')) \<and>
    map_of (map (\<lambda>p. (par_name p, p)) (op_parameters o')) =
      map_of (map (\<lambda>p. (par_name p, p)) (resolved_parameters (oop_parameters op) comps)) ++
      map_of (map (\<lambda>p. (par_name p, p)) (resolved_parameters item_params comps))"
proof -
  have "collect_parameters (item_params @ oop_parameters op) comps [] [] = Ok (op_parameters o')"
    using assms by (auto simp: resolve_operation_def resolve_responses_def split: sum.splits)
  from collect_parameters_spec [OF this] show ?thesis
    by (simp add: resolved_parameters_def List.map_filter_def)
qed

text \<open>In the example the path-level \<open>q\<close> is optional and the operation requires it.\<close>

theorem path_level_parameter_wins_witness:
  "\<exists>o'. resolve_operation Get ''/pets'' example_operation [example_param False] None = Ok o' \<and>
     map (\<lambda>p. (par_name p, par_required p)) (op_parameters o') = [(''q'', False)] \<and>
     distinct (map par_name (op_parameters o'))"
proof -
  obtain o' where "resolve_operation Get ''/pets'' example_operation [example_param False] None = Ok o'"
    "map (\<lambda>p. (par_name p, par_required p)) (op_parameters o') = [(''q'', False)]"
    by (rule that [of "projr (resolve_operation Get ''/pets'' example_operation [example_param False] None)"])
      code_simp+
  with path_level_parameter_wins [of Get "''/pets''" example_operation "[example_param False]" None o']
  show ?thesis by auto
qed

section \<open>Operations\<close>

lemma distinct_iter_methods: "distinct (map fst (iter_methods item))"
  by (cases "pi_get item"; cases "pi_post item"; cases "pi_put item"; cases "pi_patch item";
      cases "pi_delete item"; cases "pi_head item"; cases "pi_options item")
    (simp_all add: iter_methods_def List.map_filter_simps)

lemma operation_steps_Cons:
  "operation_steps ((path, item_or) # paths) =
     (case item_or of
        Item item \<Rightarrow> map (\<lambda>(m, op). (path, item, m, op)) (iter_methods item)
      | Reference _ \<Rightarrow> []) @ operation_steps paths"
  by (simp add: operation_steps_def)

definition step_key :: "string \<times> path_item \<times> http_method \<times> oapi_operation \<Rightarrow> string \<times> http_method" where
  "step_key st = (fst st, fst (snd (snd st)))"

lemma step_key_path: "st \<in> set (operation_steps paths) \<Longrightarrow> fst (step_key st) \<in> fst ` set paths"
  by (force simp: operation_steps_def step_key_def split: reference_or.splits)

lemma distinct_operation_steps:
  "distinct (map fst paths) \<Longrightarrow> distinct (map step_key (operation_steps paths))"
proof (induction paths)
  case Nil
  show ?case by (simp add: operation_steps_def)
next
  case (Cons x paths)
  obtain path item_or where x: "x = (path, item_or)" by (cases x)
  show ?case
  proof (cases item_or)
    case (Reference r)
    with Cons x show ?thesis by (simp add: operation_steps_Cons)
  next
    case (Item item)
    have "distinct (map (Pair path) (map fst (iter_methods item)))"
      using distinct_iter_methods [of item] by (simp add: distinct_map inj_on_def)
    moreover have "map step_key (map (\<lambda>(m, op). (path, item, m, op)) (iter_methods item)) =
        map (Pair path) (map fst (iter_methods item))"
      by (simp add: step_key_def split_def)
    moreover have "set (map (Pair path) (map fst (iter_methods item))) \<inter>
        set (map step_key (operation_steps paths)) = {}"
      using Cons.prems x step_key_path [of _ paths] by auto (metis fst_conv)
    ultimately show ?thesis
      using Cons.IH Cons.prems
      by (simp only: x Item operation_steps_Cons reference_or.case map_append distinct_append
          list.map distinct.simps)
  qed
qed

lemma resolve_operation_key:
  "resolve_operation m path op ps comps = Ok o' \<Longrightarrow> op_path o' = path \<and> op_method o' = m"
  by (auto simp: resolve_operation_def split: sum.splits)

text \<open>
  A resolved document has one operation per method of every inline path item, in path order
  and, within a path, in the order get, post, put, patch, delete, head, options; no two of them
  share path and method.
\<close>

theorem resolve_operations_order:
  assumes "im_invar (spec_paths spec)" and "resolve_with_webhooks spec webhooks = Ok doc"
  shows "map (\<lambda>o'. (op_path o', op_method o')) (doc_operations doc) =
      map step_key (operation_steps (spec_paths spec)) \<and>
    distinct (map (\<lambda>o'. (op_path o', op_method o')) (doc_operations doc))"
proof -
  have "resolve_operations (spec_paths spec) (spec_components spec) = Ok (doc_operations doc)"
    using assms(2) by (auto simp: resolve_with_webhooks_def Let_def split: sum.splits)
  then have "list_all2 (\<lambda>st o'. step_key st = (op_path o', op_method o'))
      (operation_steps (spec_paths spec)) (doc_operations doc)"
    unfolding resolve_operations_def try_map_Inr_iff
    by (rule list_all2_mono) (auto simp: step_key_def dest: resolve_operation_key)
  then have "map step_key (operation_steps (spec_paths spec)) =
      map (\<lambda>o'. (op_path o', op_method o')) (doc_operations doc)"
    by (induction rule: list_all2_induct) auto
  with distinct_operation_steps assms(1) show ?thesis
    by (metis im_invar_def)
qed

theorem resolve_operations_order_witness:
  "\<exists>doc. resolve_with_webhooks example_spec None = Ok doc \<and>
     map (\<lambda>o'. (op_path o', op_method o')) (doc_operations doc) = [(''/pets'', Get)]"
proof -
  obtain doc where "resolve_with_webhooks example_spec None = Ok doc"
    using example_resolved by blast
  moreover have "im_invar (spec_paths example_spec)"
    by (simp add: example_spec_def im_invar_def)
  moreover have "map step_key (operation_steps (spec_paths example_spec)) = [(''/pets'', Get)]"
    by code_simp
  ultimately show ?thesis
    using resolve_operations_order [of example_spec None doc] by auto
qed

text \<open>Synthesised ids: two different paths can share one.\<close>

lemma synthesize_operation_id_collides:
  "synthesize_operation_id Get ''/a/b'' = synthesize_operation_id Get ''/a_b''"
  by code_simp

lemma ref_name_component: "CHR ''/'' \<notin> set n \<Longrightarrow> ref_name (''#/components/schemas/'' @ n) = n"
  using split_on_append_sep [of "CHR ''/''" "''#/components/schemas''" n]
  by (simp add: ref_name_def split_on_no_sep)

end
