(* ===== verification/Spec_Merge.thy ===== *)
theory Spec_Merge
  imports Json Ir
begin

text \<open>
  crates/specforge-core/src/merge.rs: merging several specs, as JSON values, into the first one.
  \<open>merge_into\<close> is the composition of its blocks in source order: paths, the components object,
  component schemas, security schemes, tags, security, servers. \<open>get_mut(key)\<close> on a value is
  \<open>json_update key\<close>: it changes the entry in place and does nothing when there is none.

  The locale \<open>overlay\<close> states the contract of one merged section (a lookup sees the source first,
  then the target); folding it over a list of specs gives "the last spec that defines a key
  wins", which paths, schemas and security schemes then inherit by interpretation.
\<close>

section \<open>Blocks of merge\_into\<close>

fun json_update :: "string \<Rightarrow> (json \<Rightarrow> json) \<Rightarrow> json \<Rightarrow> json" where
  "json_update k f (JObject m) = JObject (map (\<lambda>(a, b). (a, if a = k then f b else b)) m)"
| "json_update k f j = j"

fun json_insert :: "string \<Rightarrow> json \<Rightarrow> json \<Rightarrow> json" where
  "json_insert k v (JObject m) = JObject (bt_insert k v m)"
| "json_insert k v j = j"

fun extend_object :: "json \<Rightarrow> json \<Rightarrow> json" where
  "extend_object (JObject s) (JObject t) = JObject (bt_insert_all s t)"
| "extend_object s t = t"

definition merge_paths :: "json \<Rightarrow> json \<Rightarrow> json" where
  "merge_paths target source =
     (case json_get source ''paths'' of
        None \<Rightarrow> target
      | Some s_paths \<Rightarrow> json_update ''paths'' (extend_object s_paths) target)"

definition ensure_components :: "json \<Rightarrow> json \<Rightarrow> json" where
  "ensure_components target source =
     (if json_get source ''components'' \<noteq> None \<and> json_get target ''components'' = None
      then json_insert ''components'' (JObject []) target
      else target)"

text \<open>The blocks for \<open>components.schemas\<close> and \<open>components.securitySchemes\<close> differ in the key only.\<close>

definition component_section :: "json \<Rightarrow> string \<Rightarrow> json option" where
  "component_section spec key = Option.bind (json_get spec ''components'') (\<lambda>c. json_get c key)"

definition merge_component_section :: "string \<Rightarrow> json \<Rightarrow> json \<Rightarrow> json" where
  "merge_component_section key target source =
     (case component_section source key of
        None \<Rightarrow> target
      | Some s_sec \<Rightarrow>
          let target' =
            (if component_section target key = None
             then json_update ''components'' (json_insert key (JObject [])) target
             else target)
          in json_update ''components'' (json_update key (extend_object s_sec)) target')"

definition tag_name :: "json \<Rightarrow> string option" where
  "tag_name t = Option.bind (json_get t ''name'') as_str"

fun append_tags :: "json \<Rightarrow> json \<Rightarrow> json" where
  "append_tags (JArray s_arr) (JArray t_arr) =
     (let existing_names = List.map_filter tag_name t_arr in
      JArray (t_arr @
        filter (\<lambda>tag. case tag_name tag of None \<Rightarrow> True | Some n \<Rightarrow> n \<notin> set existing_names) s_arr))"
| "append_tags s t = t"

fun append_unique :: "json \<Rightarrow> json \<Rightarrow> json" where
  "append_unique (JArray s_arr) (JArray t_arr) =
     JArray (fold (\<lambda>entry t. if entry \<in> set t then t else t @ [entry]) s_arr t_arr)"
| "append_unique s t = t"

definition merge_array :: "string \<Rightarrow> (json \<Rightarrow> json \<Rightarrow> json) \<Rightarrow> json \<Rightarrow> json \<Rightarrow> json" where
  "merge_array key app target source =
     (case json_get source key of
        None \<Rightarrow> target
      | Some s \<Rightarrow> json_update key (app s) target)"

definition merge_into :: "json \<Rightarrow> json \<Rightarrow> json" where
  "merge_into target source =
     (let t1 = merge_paths target source;
          t2 = ensure_components t1 source;
          t3 = merge_component_section ''schemas'' t2 source;
          t4 = merge_component_section ''securitySchemes'' t3 source;
          t5 = merge_array ''tags'' append_tags t4 source;
          t6 = merge_array ''security'' append_unique t5 source
      in merge_array ''servers'' append_unique t6 source)"

definition merge_specs :: "json list \<Rightarrow> (spec_error, json) result" where
  "merge_specs specs =
     (case specs of
        [] \<Rightarrow> Err (SpecInvalid ''no specs to merge'')
      | s # ss \<Rightarrow> Ok (foldl merge_into s ss))"

section \<open>The overlay contract\<close>

locale overlay =
  fixes merge :: "'a \<Rightarrow> 'a \<Rightarrow> 'a"
    and look :: "'a \<Rightarrow> 'k \<Rightarrow> 'v option"
    and base :: "'a \<Rightarrow> bool"
    and src :: "'a \<Rightarrow> bool"
  assumes look_merge: "\<lbrakk>base t; src s\<rbrakk> \<Longrightarrow>
      look (merge t s) k = (case look s k of None \<Rightarrow> look t k | Some v \<Rightarrow> Some v)"
    and base_merge: "\<lbrakk>base t; src s\<rbrakk> \<Longrightarrow> base (merge t s)"
begin

lemma base_foldl: "\<lbrakk>base t; \<forall>s \<in> set ss. src s\<rbrakk> \<Longrightarrow> base (foldl merge t ss)"
  by (induction ss arbitrary: t) (auto intro: base_merge)

lemma look_foldl:
  "\<lbrakk>base t; \<forall>s \<in> set ss. src s\<rbrakk> \<Longrightarrow>
   look (foldl merge t ss) k = Some v \<longleftrightarrow>
     (\<exists>us s vs. t # ss = us @ s # vs \<and> look s k = Some v \<and> (\<forall>s' \<in> set vs. look s' k = None))"
proof (induction ss rule: rev_induct)
  case Nil
  then show ?case by (auto simp: Cons_eq_append_conv)
next
  case (snoc x ss)
  then have *: "look (foldl merge t (ss @ [x])) k =
      (case look x k of None \<Rightarrow> look (foldl merge t ss) k | Some v \<Rightarrow> Some v)"
    by (simp add: look_merge base_foldl)
  have split: "(\<exists>us s vs. t # ss @ [x] = us @ s # vs \<and> P s \<and> (\<forall>s' \<in> set vs. Q s')) \<longleftrightarrow>
      P x \<or> Q x \<and> (\<exists>us s vs. t # ss = us @ s # vs \<and> P s \<and> (\<forall>s' \<in> set vs. Q s'))" for P Q
  proof
    assume "\<exists>us s vs. t # ss @ [x] = us @ s # vs \<and> P s \<and> (\<forall>s' \<in> set vs. Q s')"
    then obtain us s vs where d: "(t # ss) @ [x] = us @ s # vs" "P s" "\<forall>s' \<in> set vs. Q s'" by auto
    then show "P x \<or> Q x \<and> (\<exists>us s vs. t # ss = us @ s # vs \<and> P s \<and> (\<forall>s' \<in> set vs. Q s'))"
    proof (cases vs rule: rev_cases)
      case Nil
      with d show ?thesis by simp
    next
      case (snoc ws w)
      with d(1) have "(t # ss) @ [x] = (us @ s # ws) @ [w]" by simp
      then have "t # ss = us @ s # ws \<and> w = x" by (simp only: append1_eq_conv)
      with d snoc show ?thesis by auto
    qed
  next
    assume "P x \<or> Q x \<and> (\<exists>us s vs. t # ss = us @ s # vs \<and> P s \<and> (\<forall>s' \<in> set vs. Q s'))"
    then show "\<exists>us s vs. t # ss @ [x] = us @ s # vs \<and> P s \<and> (\<forall>s' \<in> set vs. Q s')"
    proof
      assume "P x"
      then show ?thesis by (intro exI [of _ "t # ss"] exI [of _ x] exI [of _ "[]"]) simp
    next
      assume "Q x \<and> (\<exists>us s vs. t # ss = us @ s # vs \<and> P s \<and> (\<forall>s' \<in> set vs. Q s'))"
      then obtain us s vs where "t # ss = us @ s # vs" "P s" "\<forall>s' \<in> set vs. Q s'" "Q x" by blast
      then show ?thesis
        by (intro exI [of _ us] exI [of _ s] exI [of _ "vs @ [x]"])
          (simp flip: append_Cons)
    qed
  qed
  show ?case
    unfolding * split using snoc by (auto split: option.split)
qed

end

section \<open>What each block does to a lookup\<close>

lemma map_of_update: "map_of (map (\<lambda>(a, b). (a, if a = k then f b else b)) m) k' =
    (if k' = k then map_option f (map_of m k) else map_of m k')"
  by (induction m) auto

lemma json_get_update:
  "json_get (json_update k f j) k' = (if k' = k then map_option f (json_get j k) else json_get j k')"
  by (cases j) (simp_all add: map_of_update)

lemma json_get_insert:
  "is_object j \<Longrightarrow> json_get (json_insert k v j) k' = (if k' = k then Some v else json_get j k')"
  by (cases j) (simp_all add: is_object_def map_laws)

lemma is_object_update [simp]: "is_object (json_update k f j) \<longleftrightarrow> is_object j"
  by (cases j) (simp_all add: is_object_def)

lemma is_object_insert [simp]: "is_object (json_insert k f j) \<longleftrightarrow> is_object j"
  by (cases j) (simp_all add: is_object_def)

lemma is_object_extend [simp]: "is_object (extend_object s t) \<longleftrightarrow> is_object t"
  by (cases s; cases t) (simp_all add: is_object_def)

lemma json_wf_object: "json_wf (JObject m) \<longleftrightarrow> bt_invar m \<and> values_sat json_wf m"
  by (simp add: json_wf_def [abs_def])

lemma json_wf_get: "json_wf j \<Longrightarrow> json_get j k = Some v \<Longrightarrow> json_wf v"
  by (cases j) (auto simp: json_wf_object dest: values_sat_lookup)

lemma json_get_extend:
  assumes "json_wf s" and "json_wf t" and "is_object t"
  shows "json_get (extend_object s t) k = (case json_get s k of None \<Rightarrow> json_get t k | Some v \<Rightarrow> Some v)"
  using assms
  by (cases s; cases t)
    (simp_all add: json_wf_object is_object_def bt_get_insert_all_distinct bt_invar_distinct
      split: option.split)

lemma json_wf_insert: "json_wf j \<Longrightarrow> json_wf v \<Longrightarrow> json_wf (json_insert k v j)"
  by (cases j) (auto simp: json_wf_object bt_invar_insert)

lemma json_wf_update:
  assumes "json_wf j" and "\<And>v. json_wf v \<Longrightarrow> json_wf (f v)"
  shows "json_wf (json_update k f j)"
proof (cases j)
  case (JObject m)
  have "fst \<circ> (\<lambda>(a, b). (a, if a = k then f b else b)) = fst" by auto
  with JObject assms show ?thesis
    by (auto simp: json_wf_object bt_invar_def values_sat_def)
qed (use assms in simp_all)

lemma values_sat_insert_all: "values_sat R kvs \<Longrightarrow> values_sat R m \<Longrightarrow> values_sat R (bt_insert_all kvs m)"
proof (induction kvs arbitrary: m)
  case Nil
  then show ?case by (simp add: bt_insert_all_def)
next
  case (Cons kv kvs)
  have "values_sat R (bt_insert (fst kv) (snd kv) m)" using Cons.prems by auto
  with Cons show ?case by (simp add: bt_insert_all_def split_def)
qed

lemma json_wf_extend: "json_wf s \<Longrightarrow> json_wf t \<Longrightarrow> json_wf (extend_object s t)"
  by (cases s; cases t) (auto simp: json_wf_object bt_invar_insert_all intro: values_sat_insert_all)

lemma json_wf_array: "json_wf (JArray xs) \<longleftrightarrow> (\<forall>x \<in> set xs. json_wf x)"
  by (simp add: json_wf_def list_all_iff)

lemma json_wf_append_tags: "json_wf s \<Longrightarrow> json_wf t \<Longrightarrow> json_wf (append_tags s t)"
  by (cases s; cases t) (auto simp: json_wf_array Let_def)

lemma set_append_unique_fold:
  "set (fold (\<lambda>entry t. if entry \<in> set t then t else t @ [entry]) s t) = set t \<union> set s"
  by (induction s arbitrary: t) auto

lemma distinct_append_unique_fold:
  "distinct t \<Longrightarrow> distinct (fold (\<lambda>entry t. if entry \<in> set t then t else t @ [entry]) s t)"
  by (induction s arbitrary: t) auto

lemma json_wf_append_unique: "json_wf s \<Longrightarrow> json_wf t \<Longrightarrow> json_wf (append_unique s t)"
  by (cases s; cases t) (auto simp: json_wf_array set_append_unique_fold)

lemmas merge_blocks = merge_paths_def ensure_components_def merge_component_section_def
  merge_array_def Let_def

lemma is_object_blocks [simp]:
  "is_object (merge_paths t s) \<longleftrightarrow> is_object t"
  "is_object (ensure_components t s) \<longleftrightarrow> is_object t"
  "is_object (merge_component_section key t s) \<longleftrightarrow> is_object t"
  "is_object (merge_array key app t s) \<longleftrightarrow> is_object t"
  by (simp_all add: merge_blocks split: option.split)

lemma is_object_merge_into [simp]: "is_object (merge_into t s) \<longleftrightarrow> is_object t"
  by (simp add: merge_into_def Let_def)

lemma component_section_wf: "json_wf s \<Longrightarrow> component_section s key = Some v \<Longrightarrow> json_wf v"
  by (auto simp: component_section_def bind_eq_Some_conv dest: json_wf_get)

lemma merge_into_wf: "json_wf t \<Longrightarrow> json_wf s \<Longrightarrow> json_wf (merge_into t s)"
proof -
  assume t: "json_wf t" and s: "json_wf s"
  have empty: "json_wf (JObject [])" by (simp add: json_wf_object bt_invar_def)
  have p: "json_wf (merge_paths x s)" if "json_wf x" for x
    using that s by (auto simp: merge_blocks intro!: json_wf_update json_wf_extend dest: json_wf_get
        split: option.split)
  have c: "json_wf (ensure_components x s)" if "json_wf x" for x
    using that empty by (auto simp: merge_blocks intro!: json_wf_insert)
  have m: "json_wf (merge_component_section key x s)" if "json_wf x" for key x
    using that s empty
    by (auto simp: merge_blocks intro!: json_wf_update json_wf_extend json_wf_insert
        dest: component_section_wf split: option.split)
  have a: "json_wf (merge_array key app x s)"
    if "json_wf x" "\<And>u v. json_wf u \<Longrightarrow> json_wf v \<Longrightarrow> json_wf (app u v)" for key app x
    using that s by (auto simp: merge_blocks intro!: json_wf_update dest: json_wf_get split: option.split)
  show ?thesis
    unfolding merge_into_def Let_def
    by (intro a m c p t json_wf_append_tags json_wf_append_unique)
qed

section \<open>Sections\<close>

definition path_lookup :: "json \<Rightarrow> string \<Rightarrow> json option" where
  "path_lookup spec p = Option.bind (json_get spec ''paths'') (\<lambda>ps. json_get ps p)"

definition component_lookup :: "string \<Rightarrow> json \<Rightarrow> string \<Rightarrow> json option" where
  "component_lookup key spec n = Option.bind (component_section spec key) (\<lambda>c. json_get c n)"

text \<open>A base that has a \<open>paths\<close> object, and a base whose components (if any) are objects.\<close>

definition has_paths :: "json \<Rightarrow> bool" where
  "has_paths t \<longleftrightarrow> json_wf t \<and> (\<exists>ps. json_get t ''paths'' = Some (JObject ps))"

definition components_ok :: "json \<Rightarrow> bool" where
  "components_ok t \<longleftrightarrow> json_wf t \<and> is_object t \<and>
     (\<forall>c. json_get t ''components'' = Some c \<longrightarrow> is_object c) \<and>
     (\<forall>key \<in> {''schemas'', ''securitySchemes''}. \<forall>c. component_section t key = Some c \<longrightarrow> is_object c)"

lemma json_get_component_section_other [simp]:
  "k \<noteq> ''components'' \<Longrightarrow> json_get (merge_component_section key t s) k = json_get t k"
  by (simp add: merge_blocks json_get_update split: option.split)

lemma json_get_ensure_components_other [simp]:
  "k \<noteq> ''components'' \<Longrightarrow> json_get (ensure_components t s) k = json_get t k"
  by (cases t) (auto simp: merge_blocks map_laws)

lemma json_get_merge_array_other [simp]:
  "k \<noteq> key \<Longrightarrow> json_get (merge_array key app t s) k = json_get t k"
  by (simp add: merge_blocks json_get_update split: option.split)

lemma json_get_merge_array:
  "json_get s key = Some v \<Longrightarrow>
   json_get (merge_array key app t s) key = map_option (app v) (json_get t key)"
  by (simp add: merge_array_def json_get_update)

lemma json_get_merge_paths_other [simp]:
  "k \<noteq> ''paths'' \<Longrightarrow> json_get (merge_paths t s) k = json_get t k"
  by (simp add: merge_blocks json_get_update split: option.split)

lemma merge_into_paths: "json_get (merge_into t s) ''paths'' = json_get (merge_paths t s) ''paths''"
  by (simp add: merge_into_def Let_def)

lemma path_lookup_merge_into:
  assumes "has_paths t" and "json_wf s"
  shows "path_lookup (merge_into t s) p =
    (case path_lookup s p of None \<Rightarrow> path_lookup t p | Some v \<Rightarrow> Some v)"
proof -
  obtain ps where ps: "json_get t ''paths'' = Some (JObject ps)" "json_wf (JObject ps)"
    using assms(1) json_wf_get unfolding has_paths_def by blast
  show ?thesis
  proof (cases "json_get s ''paths''")
    case None
    then show ?thesis by (simp add: path_lookup_def merge_into_paths merge_paths_def)
  next
    case (Some q)
    then have "json_wf q" using assms(2) json_wf_get by blast
    with Some ps show ?thesis
      using json_get_extend [of q "JObject ps" p]
      by (simp add: path_lookup_def merge_into_paths merge_paths_def json_get_update is_object_def
          split: option.split)
  qed
qed

lemma is_object_JObject: "is_object j \<longleftrightarrow> (\<exists>m. j = JObject m)"
  by (auto simp: is_object_def)

lemma has_paths_iff: "has_paths t \<longleftrightarrow> json_wf t \<and> (\<exists>p. json_get t ''paths'' = Some p \<and> is_object p)"
  by (auto simp: has_paths_def is_object_JObject)

lemma has_paths_merge_into: "has_paths t \<Longrightarrow> json_wf s \<Longrightarrow> has_paths (merge_into t s)"
  unfolding has_paths_iff
  by (auto simp: merge_into_wf merge_into_paths merge_paths_def json_get_update split: option.split)

interpretation paths_overlay: overlay merge_into path_lookup has_paths json_wf
  by unfold_locales (auto simp: path_lookup_merge_into has_paths_merge_into)

lemma component_section_ensure:
  "is_object t \<Longrightarrow> component_section (ensure_components t s) key = component_section t key"
  by (auto simp: component_section_def ensure_components_def json_get_insert)

lemma component_section_merge_paths [simp]:
  "component_section (merge_paths t s) key = component_section t key"
  by (simp add: component_section_def)

lemma component_section_merge_array [simp]:
  "key' \<noteq> ''components'' \<Longrightarrow> component_section (merge_array key' app t s) key = component_section t key"
  by (simp add: component_section_def)

text \<open>The components object of the target once \<open>ensure_components\<close> has run.\<close>

definition components_ready :: "json \<Rightarrow> json \<Rightarrow> bool" where
  "components_ready s t \<longleftrightarrow> json_get s ''components'' \<noteq> None \<longrightarrow>
     (\<exists>c. json_get t ''components'' = Some c \<and> is_object c)"

lemma components_ready_ensure:
  "\<lbrakk>is_object t; \<forall>c. json_get t ''components'' = Some c \<longrightarrow> is_object c\<rbrakk> \<Longrightarrow>
   components_ready s (ensure_components t s)"
  by (auto simp: components_ready_def ensure_components_def json_get_insert is_object_JObject)

lemma components_ready_section:
  "components_ready s t \<Longrightarrow> components_ready s (merge_component_section key t s)"
  by (auto simp: components_ready_def merge_component_section_def Let_def json_get_update
      split: option.split)

lemma component_section_merge:
  assumes "components_ready s t"
  shows "component_section (merge_component_section key t s) key' =
    (case component_section s key of
       None \<Rightarrow> component_section t key'
     | Some v \<Rightarrow>
         if key' = key
         then Some (extend_object v (case component_section t key of None \<Rightarrow> JObject [] | Some x \<Rightarrow> x))
         else component_section t key')"
proof (cases "component_section s key")
  case None
  then show ?thesis by (simp add: merge_component_section_def)
next
  case (Some v)
  then have "json_get s ''components'' \<noteq> None"
    by (cases "json_get s ''components''") (simp_all add: component_section_def)
  then obtain c where "json_get t ''components'' = Some c" "is_object c"
    using assms unfolding components_ready_def by blast
  with Some show ?thesis
    by (auto simp: merge_component_section_def component_section_def json_get_update json_get_insert Let_def)
qed

lemma component_section_merge_into:
  assumes "components_ok t" and "key = ''schemas'' \<or> key = ''securitySchemes''"
  shows "component_section (merge_into t s) key =
    (case component_section s key of
       None \<Rightarrow> component_section t key
     | Some v \<Rightarrow>
         Some (extend_object v (case component_section t key of None \<Rightarrow> JObject [] | Some x \<Rightarrow> x)))"
proof -
  define t2 where "t2 = ensure_components (merge_paths t s) s"
  have obj: "is_object (merge_paths t s)"
    using assms(1) by (simp add: components_ok_def merge_paths_def split: option.split)
  moreover have "\<forall>c. json_get (merge_paths t s) ''components'' = Some c \<longrightarrow> is_object c"
    using assms(1) by (simp add: components_ok_def)
  ultimately have r: "components_ready s t2"
    unfolding t2_def by (rule components_ready_ensure)
  have "component_section t2 k = component_section t k" for k
    unfolding t2_def using obj by (simp add: component_section_ensure)
  with r assms(2) show ?thesis
    unfolding merge_into_def Let_def t2_def [symmetric]
    by (auto simp: component_section_merge components_ready_section split: option.split)
qed

lemma component_lookup_merge_into:
  assumes "components_ok t" and "json_wf s" and "key = ''schemas'' \<or> key = ''securitySchemes''"
  shows "component_lookup key (merge_into t s) n =
    (case component_lookup key s n of None \<Rightarrow> component_lookup key t n | Some v \<Rightarrow> Some v)"
proof (cases "component_section s key")
  case None
  with assms show ?thesis by (simp add: component_lookup_def component_section_merge_into)
next
  case (Some v)
  define x where "x = (case component_section t key of None \<Rightarrow> JObject [] | Some x \<Rightarrow> x)"
  have "json_wf x \<and> is_object x"
    using assms(1,3) component_section_wf [of t key]
    by (auto simp: x_def components_ok_def json_wf_object bt_invar_def is_object_JObject
        split: option.split)
  moreover have "json_wf v" using component_section_wf assms(2) Some by blast
  moreover have "json_get x n = component_lookup key t n"
    by (simp add: x_def component_lookup_def split: option.split)
  ultimately show ?thesis
    using assms Some json_get_extend [of v x n]
    by (simp add: component_lookup_def component_section_merge_into x_def split: option.split)
qed

lemma components_ok_merge_into:
  assumes "components_ok t" and "json_wf s"
  shows "components_ok (merge_into t s)"
proof -
  have "is_object c" if c: "json_get (merge_into t s) ''components'' = Some c" for c
  proof -
    have *: "is_object c" if "json_get (merge_component_section key x s) ''components'' = Some c"
      "\<And>c. json_get x ''components'' = Some c \<Longrightarrow> is_object c" for key x c
      using that by (auto simp: merge_component_section_def Let_def json_get_update
          split: option.splits if_splits)
    have "is_object c" if "json_get (ensure_components (merge_paths t s) s) ''components'' = Some c" for c
    proof -
      have "is_object (merge_paths t s)" "json_get (merge_paths t s) ''components'' = Some c \<Longrightarrow> is_object c"
        using assms(1) by (auto simp: components_ok_def merge_paths_def json_get_update split: option.splits)
      moreover have "is_object (JObject [])" by (simp add: is_object_def)
      ultimately show ?thesis
        using that by (auto simp: ensure_components_def json_get_insert split: if_splits)
    qed
    with c show ?thesis
      unfolding merge_into_def Let_def by (auto dest!: *)
  qed
  moreover have "is_object c" if "component_section (merge_into t s) key = Some c"
    "key = ''schemas'' \<or> key = ''securitySchemes''" for key c
    using that assms(1)
    by (auto simp: component_section_merge_into components_ok_def is_object_JObject [of "JObject []"]
        split: option.splits)
  ultimately show ?thesis
    using assms merge_into_wf unfolding components_ok_def by auto
qed

interpretation schemas_overlay: overlay merge_into "component_lookup ''schemas''" components_ok json_wf
  by unfold_locales (auto simp: component_lookup_merge_into components_ok_merge_into)

interpretation security_overlay:
  overlay merge_into "component_lookup ''securitySchemes''" components_ok json_wf
  by unfold_locales (auto simp: component_lookup_merge_into components_ok_merge_into)

section \<open>Merging a list of specs\<close>

text \<open>
  When the first spec has a paths object, a path of the merged spec is the one of the last
  spec that defines it, and no path of any spec is lost.
\<close>

theorem merge_paths_last_wins:
  assumes "has_paths spec" and "\<forall>s \<in> set specs. json_wf s"
  shows "\<exists>merged. merge_specs (spec # specs) = Ok merged \<and> has_paths merged \<and>
    (\<forall>p v. path_lookup merged p = Some v \<longleftrightarrow>
       (\<exists>us s vs. spec # specs = us @ s # vs \<and> path_lookup s p = Some v \<and>
          (\<forall>s' \<in> set vs. path_lookup s' p = None)))"
  using paths_overlay.look_foldl [OF assms] paths_overlay.base_foldl [OF assms]
  by (simp add: merge_specs_def)

definition spec_with_paths :: "json_object \<Rightarrow> json" where
  "spec_with_paths ps = JObject [(''paths'', JObject ps)]"

theorem merge_paths_last_wins_witness:
  "\<exists>merged. merge_specs [spec_with_paths [(''/a'', JNull)], spec_with_paths [(''/a'', JBool True)]] = Ok merged
     \<and> path_lookup merged ''/a'' = Some (JBool True)"
proof -
  have "has_paths (spec_with_paths [(''/a'', JNull)])"
    "\<forall>s \<in> set [spec_with_paths [(''/a'', JBool True)]]. json_wf s"
    by (simp_all add: has_paths_def json_wf_def spec_with_paths_def bt_invar_def)
  from merge_paths_last_wins [OF this] obtain merged where
    m: "merge_specs [spec_with_paths [(''/a'', JNull)], spec_with_paths [(''/a'', JBool True)]] = Ok merged"
    and l: "\<And>p v. path_lookup merged p = Some v \<longleftrightarrow>
       (\<exists>us s vs. [spec_with_paths [(''/a'', JNull)], spec_with_paths [(''/a'', JBool True)]] = us @ s # vs \<and>
          path_lookup s p = Some v \<and> (\<forall>s' \<in> set vs. path_lookup s' p = None))"
    by auto
  have "path_lookup merged ''/a'' = Some (JBool True)"
    unfolding l
    by (rule exI [of _ "[spec_with_paths [(''/a'', JNull)]]"],
        rule exI [of _ "spec_with_paths [(''/a'', JBool True)]"], rule exI [of _ "[]"])
      (simp add: spec_with_paths_def path_lookup_def)
  with m show ?thesis by blast
qed

text \<open>
  C8. Component schemas and security schemes are merged the same way, also into a first spec
  that has no components or no such section: the last spec that defines a name wins.
\<close>

theorem merge_components_last_wins:
  assumes "components_ok spec" and "\<forall>s \<in> set specs. json_wf s"
    and "key = ''schemas'' \<or> key = ''securitySchemes''"
  shows "\<exists>merged. merge_specs (spec # specs) = Ok merged \<and> components_ok merged \<and>
    (\<forall>n v. component_lookup key merged n = Some v \<longleftrightarrow>
       (\<exists>us s vs. spec # specs = us @ s # vs \<and> component_lookup key s n = Some v \<and>
          (\<forall>s' \<in> set vs. component_lookup key s' n = None)))"
proof -
  have "component_lookup key (foldl merge_into spec specs) n = Some v \<longleftrightarrow>
       (\<exists>us s vs. spec # specs = us @ s # vs \<and> component_lookup key s n = Some v \<and>
          (\<forall>s' \<in> set vs. component_lookup key s' n = None))" for n v
    using assms(3) schemas_overlay.look_foldl [OF assms(1,2)] security_overlay.look_foldl [OF assms(1,2)]
    by blast
  with schemas_overlay.base_foldl [OF assms(1,2)] show ?thesis by (simp add: merge_specs_def)
qed

theorem merge_components_last_wins_witness:
  "\<exists>merged. merge_specs [JObject [], JObject [(''components'', JObject [(''schemas'', JObject [(''A'', JNull)])])]]
       = Ok merged \<and> component_lookup ''schemas'' merged ''A'' = Some JNull"
proof -
  let ?s = "JObject [(''components'', JObject [(''schemas'', JObject [(''A'', JNull)])])]"
  have "components_ok (JObject [])" "\<forall>s \<in> set [?s]. json_wf s"
    by (simp_all add: components_ok_def json_wf_def bt_invar_def component_section_def is_object_def)
  from merge_components_last_wins [OF this, of "''schemas''"] obtain merged where
    m: "merge_specs [JObject [], ?s] = Ok merged"
    and l: "\<And>n v. component_lookup ''schemas'' merged n = Some v \<longleftrightarrow>
       (\<exists>us s vs. [JObject [], ?s] = us @ s # vs \<and> component_lookup ''schemas'' s n = Some v \<and>
          (\<forall>s' \<in> set vs. component_lookup ''schemas'' s' n = None))"
    by auto
  have "component_lookup ''schemas'' merged ''A'' = Some JNull"
    unfolding l
    by (rule exI [of _ "[JObject []]"], rule exI [of _ ?s], rule exI [of _ "[]"])
      (simp add: component_lookup_def component_section_def)
  with m show ?thesis by blast
qed

text \<open>Keys outside the merged sections keep the value of the first spec.\<close>

lemma merge_into_other_key:
  "k \<notin> {''paths'', ''components'', ''tags'', ''security'', ''servers''} \<Longrightarrow>
   json_get (merge_into t s) k = json_get t k"
  by (simp add: merge_into_def Let_def)

lemma merge_into_absent:
  "k \<noteq> ''components'' \<Longrightarrow> json_get t k = None \<Longrightarrow> json_get (merge_into t s) k = None"
  by (auto simp: merge_into_def Let_def merge_array_def merge_paths_def json_get_update split: option.split)

text \<open>
  Merging fails exactly on the empty list. Otherwise a key outside paths, components, tags,
  security and servers (info, openapi, \<dots>) keeps the value of the first spec, and a top-level
  section other than components that the first spec lacks is absent from the result, whatever
  the later specs define.
\<close>

theorem merge_specs_top_level:
  "(merge_specs specs = Err e \<longleftrightarrow> specs = [] \<and> e = SpecInvalid ''no specs to merge'') \<and>
   (\<forall>merged k. merge_specs specs = Ok merged \<longrightarrow>
      (k \<notin> {''paths'', ''components'', ''tags'', ''security'', ''servers''} \<longrightarrow>
         json_get merged k = json_get (hd specs) k) \<and>
      (k \<noteq> ''components'' \<longrightarrow> json_get (hd specs) k = None \<longrightarrow> json_get merged k = None))"
proof (cases specs)
  case Nil
  then show ?thesis by (auto simp: merge_specs_def)
next
  case (Cons s ss)
  have "k \<notin> {''paths'', ''components'', ''tags'', ''security'', ''servers''} \<Longrightarrow>
      json_get (foldl merge_into s ss) k = json_get s k" for k
    by (induction ss arbitrary: s) (simp_all add: merge_into_other_key)
  moreover have "k \<noteq> ''components'' \<Longrightarrow> json_get s k = None \<Longrightarrow> json_get (foldl merge_into s ss) k = None" for k
    by (induction ss arbitrary: s) (simp_all add: merge_into_absent)
  ultimately show ?thesis using Cons by (auto simp: merge_specs_def)
qed

theorem merge_specs_top_level_witness:
  "\<exists>merged. merge_specs [JObject [(''info'', JNull)], spec_with_paths [(''/a'', JNull)]] = Ok merged \<and>
     json_get merged ''info'' = Some JNull \<and> json_get merged ''paths'' = None"
proof -
  let ?specs = "[JObject [(''info'', JNull)], spec_with_paths [(''/a'', JNull)]]"
  obtain merged where m: "merge_specs ?specs = Ok merged"
    by (simp add: merge_specs_def)
  with merge_specs_top_level [of ?specs undefined] have
    "json_get merged ''info'' = json_get (hd ?specs) ''info''" "json_get merged ''paths'' = None"
    by auto
  with m show ?thesis by simp
qed

text \<open>
  The top-level security requirements of the merged spec are those of the two, and merging
  into a list without repetitions gives one without repetitions; the same for the servers.
\<close>

theorem merge_into_appends_unique:
  assumes "key = ''security'' \<or> key = ''servers''"
    and "json_get t key = Some (JArray ts)" and "json_get s key = Some (JArray ss)"
  shows "\<exists>us. json_get (merge_into t s) key = Some (JArray us) \<and> set us = set ts \<union> set ss \<and>
    take (length ts) us = ts \<and> (distinct ts \<longrightarrow> distinct us)"
proof -
  let ?us = "fold (\<lambda>entry t. if entry \<in> set t then t else t @ [entry]) ss ts"
  have "json_get (merge_into t s) key = Some (JArray ?us)"
    using assms by (auto simp: merge_into_def Let_def json_get_merge_array)
  moreover have "\<exists>vs. ?us = ts @ vs"
  proof (induction ss arbitrary: ts)
    case (Cons x ss)
    from Cons [of "if x \<in> set ts then ts else ts @ [x]"] show ?case by auto
  qed simp
  then have "take (length ts) ?us = ts" by auto
  ultimately show ?thesis
    using set_append_unique_fold [of ss ts] distinct_append_unique_fold [of ts ss] by blast
qed

theorem merge_into_appends_unique_witness:
  "\<exists>us. json_get (merge_into (JObject [(''servers'', JArray [JNull])])
       (JObject [(''servers'', JArray [JNull, JBool True])])) ''servers'' = Some (JArray us) \<and>
     set us = {JNull, JBool True} \<and> distinct us"
  using merge_into_appends_unique [of "''servers''" "JObject [(''servers'', JArray [JNull])]" "[JNull]"
      "JObject [(''servers'', JArray [JNull, JBool True])]" "[JNull, JBool True]"]
  by auto

end
