(* ===== verification/Validate.thy ===== *)
theory Validate
  imports Json Ir
begin

text \<open>
  crates/specforge-core/src/validate.rs: checking a JSON value against an IR type. The source
  recurses through the registry without a depth limit, so the model carries fuel, one unit per
  call of \<open>validate_inner\<close>, and \<open>None\<close> stands for a run that needs more of it (in the
  program, a stack overflow when no fuel is enough). The accumulated error vector of the source
  is the returned list, in the order the source pushes.

  \<open>conforms\<close> is the meaning of the types, as an inductive predicate; the lemmas relate the
  validator to it, show that it returns on every registry without alias cycles, and that it
  never returns on a cyclic alias.
\<close>

section \<open>The validator\<close>

record validation_error =
  ve_path :: string
  ve_message :: string

abbreviation verr :: "string \<Rightarrow> string \<Rightarrow> validation_error" where
  "verr p m \<equiv> \<lparr>ve_path = p, ve_message = m\<rparr>"

fun value_type_name :: "json \<Rightarrow> string" where
  "value_type_name JNull = ''null''"
| "value_type_name (JBool _) = ''boolean''"
| "value_type_name (JNumber _) = ''number''"
| "value_type_name (JString _) = ''string''"
| "value_type_name (JArray _) = ''array''"
| "value_type_name (JObject _) = ''object''"

text \<open>The \<open>{:?}\<close> form of a vector of strings.\<close>

definition debug_strs :: "string list \<Rightarrow> string" where
  "debug_strs ss = ''['' @ join '', '' (map debug_str ss) @ '']''"

fun validate_scalar :: "json \<Rightarrow> scalar \<Rightarrow> string \<Rightarrow> validation_error list" where
  "validate_scalar value s path =
     (if s \<in> {ScString, ScDateTime, ScUuid, ScBase64, ScBinary}
      then if \<not> is_string value
           then [verr path (''expected string, got '' @ value_type_name value)] else []
      else if s \<in> {ScInteger, ScInteger64}
      then if \<not> is_i64 value \<and> \<not> is_u64 value
           then [verr path (''expected integer, got '' @ value_type_name value)] else []
      else if s = ScFloat
      then if \<not> is_number value
           then [verr path (''expected number, got '' @ value_type_name value)] else []
      else if s = ScBoolean \<and> \<not> is_boolean value
      then [verr path (''expected boolean, got '' @ value_type_name value)]
      else [])"

text \<open>Running sub-validations one after the other: the first one that does not return wins.\<close>

fun concat_opt :: "'a list option list \<Rightarrow> 'a list option" where
  "concat_opt [] = Some []"
| "concat_opt (x # xs) =
     (case x of None \<Rightarrow> None | Some a \<Rightarrow> map_option (\<lambda>b. a @ b) (concat_opt xs))"

text \<open>\<open>validate_object\<close>, given the validator for the property values.\<close>

definition validate_object ::
  "(json \<Rightarrow> ir_type \<Rightarrow> string \<Rightarrow> validation_error list option) \<Rightarrow> json \<Rightarrow> property list \<Rightarrow> string
   \<Rightarrow> validation_error list option" where
  "validate_object inner value properties path =
     (case as_object value of
        None \<Rightarrow> Some [verr path (''expected object, got '' @ value_type_name value)]
      | Some obj \<Rightarrow>
          concat_opt (map (\<lambda>prop.
            let prop_path = path @ ''.'' @ prop_name prop in
            (case map_of obj (prop_name prop) of
               Some val \<Rightarrow> inner val (prop_ty prop) prop_path
             | None \<Rightarrow>
                 if prop_required prop then Some [verr prop_path ''missing required property'']
                 else Some [])) properties))"

definition validate_enum :: "json \<Rightarrow> enum_model \<Rightarrow> string \<Rightarrow> string \<Rightarrow> validation_error list" where
  "validate_enum value e name path =
     (case as_str value of
        Some s \<Rightarrow>
          if s \<in> set (map ev_value (em_variants e)) then []
          else [verr path (''invalid enum variant '' @ [CHR 34] @ s @ [CHR 34])]
      | None \<Rightarrow>
          [verr path (''expected string for enum '' @ [CHR 34] @ name @ [CHR 34] @ '', got ''
             @ value_type_name value)])"

definition one_of_errors :: "string \<Rightarrow> validation_error list list \<Rightarrow> validation_error list" where
  "one_of_errors path sub_errors =
     (if \<not> list_ex (\<lambda>es. es = []) sub_errors \<and> sub_errors \<noteq> []
      then [verr path ''value does not match any oneOf/anyOf variant''] else [])"

text \<open>
  The body of \<open>validate_inner\<close>, over the function its recursive calls go to, and the function
  itself, which hands each recursive call one unit of fuel less.
\<close>

definition validate_body ::
  "(json \<Rightarrow> ir_type \<Rightarrow> string \<Rightarrow> validation_error list option) \<Rightarrow> schema_registry
   \<Rightarrow> json \<Rightarrow> ir_type \<Rightarrow> string \<Rightarrow> validation_error list option" where
  "validate_body inner registry value ty path =
     (case ty of
        TScalar s \<Rightarrow> Some (validate_scalar value s path)
      | TStringEnum variants nullable \<Rightarrow>
          Some (if nullable \<and> is_null value then []
                else case as_str value of
                       Some s \<Rightarrow>
                         if s \<in> set variants then []
                         else [verr path (''expected one of '' @ debug_strs variants
                                 @ '', got '' @ [CHR 34] @ s @ [CHR 34])]
                     | None \<Rightarrow> [verr path (''expected string, got '' @ value_type_name value)])
      | TArray item nullable \<Rightarrow>
          if nullable \<and> is_null value then Some []
          else (case as_array value of
                  Some arr \<Rightarrow>
                    concat_opt (map (\<lambda>(i, v).
                      inner v item (path @ ''['' @ show_nat i @ '']''))
                      (List.enumerate 0 arr))
                | None \<Rightarrow> Some [verr path (''expected array, got '' @ value_type_name value)])
      | TMap val_ty \<Rightarrow>
          (case as_object value of
             Some obj \<Rightarrow>
               concat_opt (map (\<lambda>(k, v).
                 inner v val_ty (path @ ''.'' @ k)) obj)
           | None \<Rightarrow> Some [])
      | TReference name nullable _ \<Rightarrow>
          if nullable \<and> is_null value then Some []
          else (case registry_get registry name of
                  None \<Rightarrow> Some []
                | Some (MObject obj) \<Rightarrow>
                    (case om_shape_type obj of
                       Some shape \<Rightarrow> inner value shape path
                     | None \<Rightarrow>
                         validate_object inner
                           value (om_properties obj) path)
                | Some (MEnum e) \<Rightarrow> Some (validate_enum value e name path))
      | TComposition kind members _ \<Rightarrow>
          (case kind of
             AllOf \<Rightarrow> concat_opt (map (\<lambda>m. inner value m path) members)
           | _ \<Rightarrow>
               map_option (one_of_errors path)
                 (concat_opt (map (\<lambda>m. map_option (\<lambda>es. [es])
                    (inner value m path)) members)))
      | TAny \<Rightarrow> Some []
      | TUnknown \<Rightarrow> Some [])"

fun validate_inner ::
  "nat \<Rightarrow> schema_registry \<Rightarrow> json \<Rightarrow> ir_type \<Rightarrow> string \<Rightarrow> validation_error list option" where
  "validate_inner 0 registry value ty path = None"
| "validate_inner (Suc fuel) registry value ty path =
     validate_body (validate_inner fuel registry) registry value ty path"

definition validate :: "nat \<Rightarrow> json \<Rightarrow> ir_type \<Rightarrow> schema_registry \<Rightarrow> validation_error list option" where
  "validate fuel value ty registry = validate_inner fuel registry value ty []"

section \<open>The meaning of types\<close>

fun scalar_conforms :: "json \<Rightarrow> scalar \<Rightarrow> bool" where
  "scalar_conforms v ScInteger \<longleftrightarrow> is_i64 v \<or> is_u64 v"
| "scalar_conforms v ScInteger64 \<longleftrightarrow> is_i64 v \<or> is_u64 v"
| "scalar_conforms v ScFloat \<longleftrightarrow> is_number v"
| "scalar_conforms v ScBoolean \<longleftrightarrow> is_boolean v"
| "scalar_conforms v _ \<longleftrightarrow> is_string v"

inductive conforms :: "schema_registry \<Rightarrow> json \<Rightarrow> ir_type \<Rightarrow> bool" for registry where
  scalar: "scalar_conforms v s \<Longrightarrow> conforms registry v (TScalar s)"
| string_enum: "s \<in> set variants \<Longrightarrow> conforms registry (JString s) (TStringEnum variants n)"
| null_enum: "conforms registry JNull (TStringEnum variants True)"
| array: "(\<And>v. v \<in> set vs \<Longrightarrow> conforms registry v item) \<Longrightarrow> conforms registry (JArray vs) (TArray item n)"
| null_array: "conforms registry JNull (TArray item True)"
| map_object: "(\<And>k v. (k, v) \<in> set m \<Longrightarrow> conforms registry v t) \<Longrightarrow> conforms registry (JObject m) (TMap t)"
| map_other: "\<not> is_object v \<Longrightarrow> conforms registry v (TMap t)"
| null_ref: "conforms registry JNull (TReference name True d)"
| dangling: "registry_get registry name = None \<Longrightarrow> conforms registry v (TReference name n d)"
| shape_ref: "\<lbrakk>registry_get registry name = Some (MObject obj); om_shape_type obj = Some shape;
    conforms registry v shape\<rbrakk> \<Longrightarrow> conforms registry v (TReference name n d)"
| struct: "\<lbrakk>registry_get registry name = Some (MObject obj); om_shape_type obj = None;
    \<And>p. p \<in> set (om_properties obj) \<Longrightarrow> map_of m (prop_name p) = None \<Longrightarrow> \<not> prop_required p;
    \<And>p v. p \<in> set (om_properties obj) \<Longrightarrow> map_of m (prop_name p) = Some v \<Longrightarrow>
      conforms registry v (prop_ty p)\<rbrakk> \<Longrightarrow>
    conforms registry (JObject m) (TReference name n d)"
| enum_ref: "\<lbrakk>registry_get registry name = Some (MEnum e); s \<in> ev_value ` set (em_variants e)\<rbrakk> \<Longrightarrow>
    conforms registry (JString s) (TReference name n d)"
| all_of: "(\<And>m. m \<in> set members \<Longrightarrow> conforms registry v m) \<Longrightarrow>
    conforms registry v (TComposition AllOf members disc)"
| some_of: "\<lbrakk>kind \<noteq> AllOf; m \<in> set members; conforms registry v m\<rbrakk> \<Longrightarrow>
    conforms registry v (TComposition kind members disc)"
| none_of: "kind \<noteq> AllOf \<Longrightarrow> conforms registry v (TComposition kind [] disc)"
| any: "conforms registry v TAny"
| unknown: "conforms registry v TUnknown"

inductive_cases conforms_scalarE: "conforms registry v (TScalar s)"
inductive_cases conforms_enumE: "conforms registry v (TStringEnum vs n)"
inductive_cases conforms_arrayE: "conforms registry v (TArray t n)"
inductive_cases conforms_mapE: "conforms registry v (TMap t)"
inductive_cases conforms_refE: "conforms registry v (TReference name n d)"
inductive_cases conforms_compE: "conforms registry v (TComposition k ms d)"

section \<open>Running out of fuel\<close>

lemma concat_opt_None_iff: "concat_opt xs = None \<longleftrightarrow> None \<in> set xs"
  by (induction xs) (auto split: option.split)

lemma concat_opt_total: "(\<And>x. x \<in> set xs \<Longrightarrow> x \<noteq> None) \<Longrightarrow> \<exists>ys. concat_opt xs = Some ys"
  by (metis concat_opt_None_iff not_None_eq)

lemma concat_opt_empty_iff: "concat_opt xs = Some [] \<longleftrightarrow> (\<forall>x \<in> set xs. x = Some [])"
  by (induction xs) (auto split: option.split)

lemma concat_opt_map_mono:
  assumes "concat_opt (map f xs) = Some ys" and "\<And>x y. x \<in> set xs \<Longrightarrow> f x = Some y \<Longrightarrow> g x = Some y"
  shows "concat_opt (map g xs) = Some ys"
proof -
  have "f x = g x" if "x \<in> set xs" for x
  proof -
    have "None \<notin> f ` set xs"
      using assms(1) concat_opt_None_iff [of "map f xs"] by auto
    then obtain y where "f x = Some y" using \<open>x \<in> set xs\<close> by (cases "f x") force+
    with assms(2) that show ?thesis by simp
  qed
  then have "map f xs = map g xs" by simp
  with assms(1) show ?thesis by simp
qed

text \<open>More fuel does not change a result.\<close>

lemma validate_object_mono:
  assumes "validate_object f v ps path = Some es" and "\<And>v t p e. f v t p = Some e \<Longrightarrow> g v t p = Some e"
  shows "validate_object g v ps path = Some es"
proof (cases "as_object v")
  case None
  with assms(1) show ?thesis by (simp add: validate_object_def)
next
  case (Some obj)
  from assms(1) Some show ?thesis
    unfolding validate_object_def
    by (auto simp: Let_def elim!: concat_opt_map_mono split: option.splits intro: assms(2))
qed

lemma validate_body_mono:
  assumes "validate_body f reg v t path = Some es"
    and le: "\<And>v t p e. f v t p = Some e \<Longrightarrow> g v t p = Some e"
  shows "validate_body g reg v t path = Some es"
proof (cases t)
  case (TArray item nl)
  with assms(1) show ?thesis
    by (auto simp: validate_body_def elim!: concat_opt_map_mono intro: le split: option.splits if_splits)
next
  case (TMap vt)
  with assms(1) show ?thesis
    by (auto simp: validate_body_def elim!: concat_opt_map_mono intro: le split: option.splits)
next
  case (TReference name nl d)
  with assms(1) show ?thesis
    by (auto simp: validate_body_def elim!: validate_object_mono intro: le
        split: option.splits if_splits model.splits)
next
  case (TComposition k ms d)
  define r where "r h x = map_option (\<lambda>es. [es]) (h v x path)"
    for h :: "json \<Rightarrow> ir_type \<Rightarrow> string \<Rightarrow> validation_error list option" and x
  show ?thesis
  proof (cases "k = AllOf")
    case True
    with TComposition assms(1) show ?thesis
      by (auto simp: validate_body_def elim!: concat_opt_map_mono intro: le)
  next
    case False
    with TComposition assms(1) obtain es' where
      "concat_opt (map (r f) ms) = Some es'" "es = one_of_errors path es'"
      by (cases k) (auto simp: r_def [abs_def] validate_body_def)
    moreover from this(1) have "concat_opt (map (r g) ms) = Some es'"
      by (rule concat_opt_map_mono) (auto simp: r_def dest: le)
    ultimately show ?thesis
      using False TComposition by (cases k) (auto simp: r_def [abs_def] validate_body_def)
  qed
qed (use assms(1) in \<open>simp_all add: validate_body_def\<close>)

lemma validate_inner_Suc:
  "validate_inner n reg v t path = Some es \<Longrightarrow> validate_inner (Suc n) reg v t path = Some es"
proof (induction n arbitrary: v t path es)
  case (Suc n)
  then have "validate_body (validate_inner n reg) reg v t path = Some es" by simp
  then have "validate_body (validate_inner (Suc n) reg) reg v t path = Some es"
    by (rule validate_body_mono) (rule Suc.IH)
  then show ?case by (subst validate_inner.simps(2))
qed simp

lemma validate_inner_mono:
  "validate_inner n reg v t path = Some es \<Longrightarrow> n \<le> m \<Longrightarrow> validate_inner m reg v t path = Some es"
  by (induction m) (auto simp: le_Suc_eq simp del: validate_inner.simps intro: validate_inner_Suc)

text \<open>Fuel that is enough for each of finitely many runs is enough for all of them.\<close>

definition halts :: "nat \<Rightarrow> schema_registry \<Rightarrow> json \<Rightarrow> ir_type \<Rightarrow> string \<Rightarrow> bool" where
  "halts n reg v t path \<longleftrightarrow> validate_inner n reg v t path \<noteq> None"

lemma halts_mono: "halts n reg v t path \<Longrightarrow> n \<le> m \<Longrightarrow> halts m reg v t path"
  unfolding halts_def using validate_inner_mono by blast

lemma haltsI: "validate_body (validate_inner n reg) reg v t path \<noteq> None \<Longrightarrow> halts (Suc n) reg v t path"
  by (simp add: halts_def)

lemma common_fuel:
  assumes "\<And>x. x \<in> set xs \<Longrightarrow> \<exists>n. halts n reg (fv x) (ft x) (fp x)"
  shows "\<exists>n. \<forall>x \<in> set xs. halts n reg (fv x) (ft x) (fp x)"
  using assms
proof (induction xs)
  case (Cons x xs)
  obtain n where "\<forall>x \<in> set xs. halts n reg (fv x) (ft x) (fp x)"
    using Cons by auto
  moreover obtain m where "halts m reg (fv x) (ft x) (fp x)"
    using Cons.prems [of x] by auto
  ultimately show ?case
    using halts_mono [of n reg _ _ _ "max n m"] halts_mono [of m reg _ _ _ "max n m"]
    by (intro exI [of _ "max n m"]) auto
qed simp

lemma concat_opt_halts:
  "\<forall>x \<in> set xs. halts n reg (fv x) (ft x) (fp x) \<Longrightarrow>
   concat_opt (map (\<lambda>x. validate_inner n reg (fv x) (ft x) (fp x)) xs) \<noteq> None"
  unfolding concat_opt_None_iff halts_def by force

section \<open>Termination\<close>

text \<open>The names a value is checked against directly, before descending into the value.\<close>

fun alias_refs :: "ir_type \<Rightarrow> string list" where
  "alias_refs (TReference n _ _) = [n]"
| "alias_refs (TComposition _ ts _) = concat (map alias_refs ts)"
| "alias_refs _ = []"

text \<open>No chain of shapes leads back to where it started: aliases go down in \<open>rank\<close>.\<close>

definition alias_ranked :: "(string \<Rightarrow> nat) \<Rightarrow> schema_registry \<Rightarrow> bool" where
  "alias_ranked rank registry \<longleftrightarrow>
     (\<forall>(name, m) \<in> set registry.
        case m of
          MObject obj \<Rightarrow>
            (case om_shape_type obj of
               None \<Rightarrow> True
             | Some shape \<Rightarrow> \<forall>r \<in> set (alias_refs shape). rank r < rank name)
        | MEnum _ \<Rightarrow> True)"

lemma alias_ranked_shape:
  "\<lbrakk>alias_ranked rank reg; registry_get reg name = Some (MObject obj); om_shape_type obj = Some shape;
    r \<in> set (alias_refs shape)\<rbrakk> \<Longrightarrow> rank r < rank name"
  by (fastforce simp: alias_ranked_def registry_get_def dest: map_of_SomeD)

definition returns :: "schema_registry \<Rightarrow> json \<Rightarrow> ir_type \<Rightarrow> bool" where
  "returns reg v t \<longleftrightarrow> (\<forall>path. \<exists>n. halts n reg v t path)"

lemma returnsI: "(\<And>path. \<exists>n. validate_body (validate_inner n reg) reg v t path \<noteq> None) \<Longrightarrow> returns reg v t"
  unfolding returns_def using haltsI by blast

lemma returns_fuel:
  assumes "\<And>x. x \<in> set xs \<Longrightarrow> returns reg (fv x) (ft x)"
  obtains n where "\<forall>x \<in> set xs. halts n reg (fv x) (ft x) (fp x)"
  using common_fuel [of xs reg fv ft fp] assms unfolding returns_def by blast

lemma returns_array:
  assumes "\<And>v. v \<in> set vs \<Longrightarrow> returns reg v item"
  shows "returns reg (JArray vs) (TArray item nl)"
proof (rule returnsI)
  fix path
  have "returns reg (snd iv) item" if "iv \<in> set (List.enumerate 0 vs)" for iv
    using that assms enumerate_elem by blast
  then obtain n where "\<forall>iv \<in> set (List.enumerate 0 vs).
      halts n reg (snd iv) item (path @ ''['' @ show_nat (fst iv) @ '']'')"
    by (rule returns_fuel)
  from concat_opt_halts [OF this]
  show "\<exists>n. validate_body (validate_inner n reg) reg (JArray vs) (TArray item nl) path \<noteq> None"
    by (intro exI [of _ n]) (simp add: validate_body_def split_def is_null_def)
qed

lemma returns_map:
  assumes "\<And>k v. (k, v) \<in> set m \<Longrightarrow> returns reg v t"
  shows "returns reg (JObject m) (TMap t)"
proof (rule returnsI)
  fix path
  have "returns reg (snd kv) t" if "kv \<in> set m" for kv
    using assms [of "fst kv" "snd kv"] that by simp
  then obtain n where "\<forall>kv \<in> set m. halts n reg (snd kv) t (path @ ''.'' @ fst kv)"
    by (rule returns_fuel)
  from concat_opt_halts [OF this]
  show "\<exists>n. validate_body (validate_inner n reg) reg (JObject m) (TMap t) path \<noteq> None"
    by (intro exI [of _ n]) (simp add: validate_body_def split_def)
qed

lemma returns_object:
  assumes "\<And>k v t. (k, v) \<in> set m \<Longrightarrow> returns reg v t"
  shows "\<exists>n. validate_object (validate_inner n reg) (JObject m) ps path \<noteq> None"
proof -
  let ?present = "filter (\<lambda>p. map_of m (prop_name p) \<noteq> None) ps"
  have "returns reg (the (map_of m (prop_name p))) (prop_ty p)" if "p \<in> set ?present" for p
  proof -
    obtain u where "map_of m (prop_name p) = Some u" using \<open>p \<in> set ?present\<close> by auto
    then show ?thesis using assms [of "prop_name p" u] by (simp add: map_of_SomeD)
  qed
  then obtain n where *: "\<forall>p \<in> set ?present. halts n reg (the (map_of m (prop_name p))) (prop_ty p)
      (path @ ''.'' @ prop_name p)"
    by (rule returns_fuel)
  define g where "g p = (case map_of m (prop_name p) of
        Some val \<Rightarrow> validate_inner n reg val (prop_ty p) (path @ ''.'' @ prop_name p)
      | None \<Rightarrow>
          if prop_required p then Some [verr (path @ ''.'' @ prop_name p) ''missing required property'']
          else Some [])" for p :: property
  have "g p \<noteq> None" if "p \<in> set ps" for p
  proof (cases "map_of m (prop_name p)")
    case (Some u)
    with * \<open>p \<in> set ps\<close> have "halts n reg u (prop_ty p) (path @ ''.'' @ prop_name p)" by force
    with Some show ?thesis by (simp add: halts_def g_def)
  qed (simp add: g_def)
  then have "None \<notin> set (map g ps)" by force
  then have "concat_opt (map g ps) \<noteq> None" by (simp only: concat_opt_None_iff not_False_eq_True)
  then show ?thesis
    by (intro exI [of _ n])
      (simp only: validate_object_def Let_def g_def [abs_def] as_object.simps option.case simp_thms)
qed

lemma returns_composition:
  assumes "\<And>m. m \<in> set ms \<Longrightarrow> returns reg v m"
  shows "returns reg v (TComposition k ms d)"
proof (rule returnsI)
  fix path
  obtain n where n: "\<forall>m \<in> set ms. halts n reg v m path"
    using returns_fuel [of ms reg "\<lambda>_. v" "\<lambda>m. m" "\<lambda>_. path"] assms by blast
  have "None \<notin> (\<lambda>m. validate_inner n reg v m path) ` set ms"
    using n unfolding halts_def by force
  moreover from this have "None \<notin> (\<lambda>m. map_option (\<lambda>es. [es]) (validate_inner n reg v m path)) ` set ms"
    by force
  ultimately show "\<exists>n. validate_body (validate_inner n reg) reg v (TComposition k ms d) path \<noteq> None"
    by (intro exI [of _ n])
      (cases k; simp add: validate_body_def concat_opt_None_iff del: not_None_eq)
qed

lemma returns_leaf:
  "(\<And>path. validate_body (\<lambda>_ _ _. None) reg v t path \<noteq> None) \<Longrightarrow> returns reg v t"
  using validate_body_mono [of "\<lambda>_ _ _. None" reg v t _ _ "validate_inner 0 reg"]
  by (intro returnsI) blast

lemma returns_ref:
  assumes "\<And>obj shape. registry_get reg name = Some (MObject obj) \<Longrightarrow> om_shape_type obj = Some shape \<Longrightarrow>
      returns reg v shape"
    and "\<And>m k u t. v = JObject m \<Longrightarrow> (k, u) \<in> set m \<Longrightarrow> returns reg u t"
  shows "returns reg v (TReference name nl d)"
proof (rule returnsI)
  fix path
  have props: "\<exists>n. validate_object (validate_inner n reg) v ps path \<noteq> None" for ps
  proof (cases v)
    case (JObject m)
    then show ?thesis using assms(2) returns_object by metis
  qed (simp_all add: validate_object_def)
  show "\<exists>n. validate_body (validate_inner n reg) reg v (TReference name nl d) path \<noteq> None"
  proof (cases "\<exists>obj. registry_get reg name = Some (MObject obj)")
    case False
    then show ?thesis
      by (cases "registry_get reg name") (auto simp: validate_body_def split: model.splits)
  next
    case True
    then obtain obj where obj: "registry_get reg name = Some (MObject obj)" ..
    show ?thesis
    proof (cases "om_shape_type obj")
      case None
      with obj props [of "om_properties obj"] show ?thesis by (auto simp: validate_body_def)
    next
      case (Some shape)
      with obj assms(1) obtain k where "validate_inner k reg v shape path \<noteq> None"
        unfolding returns_def halts_def by blast
      with obj Some show ?thesis by (intro exI [of _ k]) (simp add: validate_body_def)
    qed
  qed
qed

lemma returns_all:
  assumes "alias_ranked rank reg"
  shows "\<forall>r \<in> set (alias_refs t). rank r < b \<Longrightarrow> returns reg v t"
proof (induction "json_rank v" arbitrary: v t b rule: less_induct)
  case less
  note sub = less.hyps
  have entry: "returns reg u t" if "v = JObject m" "(k, u) \<in> set m" for m k u t
  proof (rule sub)
    show "json_rank u < json_rank v"
      using that json_rank_object [of k u m] by (simp del: json_rank.simps)
    show "\<forall>r \<in> set (alias_refs t). rank r < Suc (Max (insert 0 (rank ` set (alias_refs t))))"
      by (auto simp: less_Suc_eq_le)
  qed
  have item: "returns reg u t" if "v = JArray vs" "u \<in> set vs" for vs u t
  proof (rule sub)
    show "json_rank u < json_rank v"
      using that json_rank_array [of u vs] by (simp del: json_rank.simps)
    show "\<forall>r \<in> set (alias_refs t). rank r < Suc (Max (insert 0 (rank ` set (alias_refs t))))"
      by (auto simp: less_Suc_eq_le)
  qed
  from less.prems show ?case
  proof (induction b arbitrary: t rule: less_induct)
    case (less b)
    note below = less.IH
    from less.prems show ?case
    proof (induction t)
      case (TArray t nl)
      show ?case
      proof (cases v)
        case (JArray vs)
        then show ?thesis using item returns_array by metis
      qed (auto intro!: returns_leaf simp: validate_body_def)
    next
      case (TMap t)
      show ?case
      proof (cases v)
        case (JObject m)
        then show ?thesis using entry returns_map by metis
      qed (auto intro!: returns_leaf simp: validate_body_def)
    next
      case (TReference name nl d)
      show ?case
      proof (rule returns_ref)
        fix obj shape
        assume "registry_get reg name = Some (MObject obj)" "om_shape_type obj = Some shape"
        with assms have "\<forall>r \<in> set (alias_refs shape). rank r < rank name"
          using alias_ranked_shape by blast
        with below TReference.prems show "returns reg v shape" by simp
      qed (use entry in blast)
    next
      case (TComposition k ms d)
      then show ?case by (intro returns_composition) auto
    qed (auto intro!: returns_leaf simp: validate_body_def)
  qed
qed

section \<open>Soundness and completeness\<close>

lemma validate_scalar_ok: "validate_scalar v s path = [] \<longleftrightarrow> scalar_conforms v s"
  by (cases s) auto

lemma concat_opt_map_empty: "concat_opt (map f xs) = Some [] \<longleftrightarrow> (\<forall>x \<in> set xs. f x = Some [])"
  by (simp add: concat_opt_empty_iff)

lemma one_of_members:
  assumes "concat_opt (map (\<lambda>m. map_option (\<lambda>es. [es]) (f m)) ms) = Some sub"
  shows "one_of_errors path sub = [] \<longleftrightarrow> ms = [] \<or> (\<exists>m \<in> set ms. f m = Some [])"
proof -
  have "map f ms = map Some sub"
    using assms by (induction ms arbitrary: sub) (auto split: option.splits)
  then have len: "length sub = length ms" and mem: "(\<exists>m \<in> set ms. f m = Some []) \<longleftrightarrow> [] \<in> set sub"
    by (metis length_map, metis (no_types, lifting) image_iff list.set_map option.inject)
  have "list_ex (\<lambda>es. es = []) sub \<longleftrightarrow> [] \<in> set sub" by (auto simp: list_ex_iff)
  with len mem show ?thesis by (auto simp: one_of_errors_def)
qed

lemma validate_inner_sound:
  "validate_inner n reg v t path = Some [] \<Longrightarrow> conforms reg v t"
proof (induction n arbitrary: v t path)
  case (Suc n)
  note body = Suc.prems [unfolded validate_inner.simps validate_body_def]
  show ?case
  proof (cases t)
    case (TScalar s)
    with body show ?thesis by (auto simp: validate_scalar_ok simp del: validate_scalar.simps intro: conforms.scalar)
  next
    case (TStringEnum vs nl)
    with body show ?thesis
      by (auto simp: is_null_def intro: conforms.intros split: if_splits option.splits)
  next
    case (TArray item nl)
    show ?thesis
    proof (cases "nl \<and> v = JNull")
      case True
      with TArray show ?thesis by (auto intro: conforms.null_array)
    next
      case False
      with body TArray obtain vs where v: "v = JArray vs"
        by (auto simp: is_null_def split: option.splits if_splits)
      have "conforms reg u item" if "u \<in> set vs" for u
      proof -
        obtain i where "(i, u) \<in> set (List.enumerate 0 vs)"
          using elem_enumerate [OF \<open>u \<in> set vs\<close>] by blast
        moreover have "\<forall>iv \<in> set (List.enumerate 0 vs). (case iv of (i, v) \<Rightarrow>
            validate_inner n reg v item (path @ ''['' @ show_nat i @ '']'')) = Some []"
          using body TArray v by (simp add: concat_opt_map_empty is_null_def)
        ultimately have "validate_inner n reg u item (path @ ''['' @ show_nat i @ '']'') = Some []"
          by auto
        then show ?thesis by (rule Suc.IH)
      qed
      then show ?thesis using TArray v by (auto intro: conforms.array)
    qed
  next
    case (TMap vt)
    then show ?thesis
    proof (cases v)
      case (JObject m)
      with TMap body have "conforms reg u vt" if "(k, u) \<in> set m" for k u
        using that Suc.IH by (fastforce simp: concat_opt_map_empty)
      with TMap JObject show ?thesis by (auto intro: conforms.map_object)
    qed (auto intro: conforms.map_other simp: is_object_def)
  next
    case (TReference name nl d)
    then show ?thesis
    proof (cases "nl \<and> v = JNull")
      case True
      with TReference show ?thesis by (auto intro: conforms.null_ref)
    next
      case nonnull: False
      show ?thesis
      proof (cases "registry_get reg name")
        case None
        with TReference show ?thesis by (auto intro: conforms.dangling)
      next
        case (Some md)
        show ?thesis
        proof (cases md)
          case (MEnum e)
          with body TReference Some nonnull show ?thesis
            by (auto simp: validate_enum_def is_null_def intro: conforms.enum_ref
                split: option.splits if_splits)
        next
          case (MObject obj)
          show ?thesis
          proof (cases "om_shape_type obj")
            case shape: (Some shape)
            with body TReference Some MObject nonnull Suc.IH show ?thesis
              by (auto simp: is_null_def intro: conforms.shape_ref)
          next
            case None
            with body TReference Some MObject nonnull
            have vo: "validate_object (validate_inner n reg) v (om_properties obj) path = Some []"
              by (auto simp: is_null_def)
            then obtain m where v: "v = JObject m"
              by (auto simp: validate_object_def split: option.splits)
            have p: "\<not> prop_required p" if "p \<in> set (om_properties obj)" "map_of m (prop_name p) = None" for p
              using vo v that by (fastforce simp: validate_object_def Let_def concat_opt_map_empty
                  split: if_splits)
            have q: "conforms reg u (prop_ty p)"
              if "p \<in> set (om_properties obj)" "map_of m (prop_name p) = Some u" for p u
              using vo v that Suc.IH
              by (fastforce simp: validate_object_def Let_def concat_opt_map_empty)
            show ?thesis
              unfolding TReference v using Some MObject None p q by (auto intro!: conforms.struct)
          qed
        qed
      qed
    qed
  next
    case (TComposition k ms d)
    show ?thesis
    proof (cases "k = AllOf")
      case True
      with body TComposition Suc.IH show ?thesis
        by (auto simp: concat_opt_map_empty intro!: conforms.all_of)
    next
      case False
      with body TComposition obtain sub where
        sub: "concat_opt (map (\<lambda>m. map_option (\<lambda>es. [es]) (validate_inner n reg v m path)) ms) = Some sub"
        "one_of_errors path sub = []"
        by (cases k) auto
      with one_of_members [OF sub(1), of path]
      have "ms = [] \<or> (\<exists>m \<in> set ms. validate_inner n reg v m path = Some [])" using sub(2) by simp
      with False TComposition Suc.IH show ?thesis
        by (auto intro: conforms.none_of conforms.some_of)
    qed
  qed (auto intro: conforms.intros)
qed simp

text \<open>
  Completeness: by rule induction, no run on a conforming value reports an error. A sequence of
  runs that each report nothing reports nothing.
\<close>

lemma concat_opt_all_empty:
  assumes "concat_opt (map f xs) = Some es" and "\<And>x e. x \<in> set xs \<Longrightarrow> f x = Some e \<Longrightarrow> e = []"
  shows "es = []"
  using assms
proof (induction xs arbitrary: es)
  case (Cons x xs)
  from Cons.prems(1) obtain a b where *: "f x = Some a" "concat_opt (map f xs) = Some b" "es = a @ b"
    by (auto split: option.splits)
  from Cons.prems(2) [OF _ *(1)] have "a = []" by simp
  moreover from Cons.IH [OF *(2)] Cons.prems(2) have "b = []" by (meson list.set_intros(2))
  ultimately show ?case using *(3) by simp
qed simp

abbreviation silent :: "schema_registry \<Rightarrow> json \<Rightarrow> ir_type \<Rightarrow> bool" where
  "silent reg v t \<equiv> \<forall>n path es. validate_inner n reg v t path = Some es \<longrightarrow> es = []"

lemma silentI:
  assumes "\<And>n path es. validate_body (validate_inner n reg) reg v t path = Some es \<Longrightarrow> es = []"
  shows "silent reg v t"
proof (intro allI impI)
  fix n path es
  assume "validate_inner n reg v t path = Some es"
  with assms show "es = []" by (cases n) auto
qed

lemma silent_object:
  assumes "\<And>p. p \<in> set ps \<Longrightarrow> map_of m (prop_name p) = None \<Longrightarrow> \<not> prop_required p"
    and "\<And>p u. p \<in> set ps \<Longrightarrow> map_of m (prop_name p) = Some u \<Longrightarrow> silent reg u (prop_ty p)"
    and "validate_object (validate_inner n reg) (JObject m) ps path = Some es"
  shows "es = []"
proof (rule concat_opt_all_empty)
  show "concat_opt (map (\<lambda>prop.
      let prop_path = path @ ''.'' @ prop_name prop in
      (case map_of m (prop_name prop) of
         Some val \<Rightarrow> validate_inner n reg val (prop_ty prop) prop_path
       | None \<Rightarrow>
           if prop_required prop then Some [verr prop_path ''missing required property'']
           else Some [])) ps) = Some es"
    using assms(3) by (simp add: validate_object_def)
  show "e = []" if "p \<in> set ps" "(let prop_path = path @ ''.'' @ prop_name p in
      (case map_of m (prop_name p) of
         Some val \<Rightarrow> validate_inner n reg val (prop_ty p) prop_path
       | None \<Rightarrow>
           if prop_required p then Some [verr prop_path ''missing required property'']
           else Some [])) = Some e" for p e
    using that assms(1) [of p] assms(2) [of p] by (auto simp: Let_def split: option.splits)
qed

lemma silent_some_of:
  assumes "kind \<noteq> AllOf" and "m \<in> set members" and "silent reg v m"
  shows "silent reg v (TComposition kind members disc)"
proof (rule silentI)
  fix n path es
  assume "validate_body (validate_inner n reg) reg v (TComposition kind members disc) path = Some es"
  with assms(1) obtain sub where
    sub: "concat_opt (map (\<lambda>m. map_option (\<lambda>es. [es]) (validate_inner n reg v m path)) members) = Some sub"
    and es: "es = one_of_errors path sub"
    by (cases kind) (auto simp: validate_body_def)
  have "map_option (\<lambda>es. [es]) (validate_inner n reg v m path) \<noteq> None"
    using sub assms(2) concat_opt_None_iff
    by (metis (no_types, lifting) image_eqI list.set_map option.distinct(1))
  then have "validate_inner n reg v m path = Some []"
    using assms(3) by auto
  with one_of_members [OF sub] assms(2) es show "es = []" by blast
qed

lemma validate_inner_complete: "conforms reg v t \<Longrightarrow> silent reg v t"
proof (induction rule: conforms.induct)
  case (scalar v s)
  then show ?case
    by (intro silentI) (auto simp: validate_body_def validate_scalar_ok simp del: validate_scalar.simps)
next
  case (array vs item n)
  then show ?case
    by (intro silentI) (auto simp: validate_body_def is_null_def elim!: concat_opt_all_empty
        dest: enumerate_elem split: if_splits)
next
  case (map_object m t)
  then show ?case
    by (intro silentI) (auto simp: validate_body_def elim!: concat_opt_all_empty)
next
  case (struct name obj m n d)
  show ?case
  proof (rule silentI)
    fix k path es
    assume "validate_body (validate_inner k reg) reg (JObject m) (TReference name n d) path = Some es"
    with struct(1,2) have "validate_object (validate_inner k reg) (JObject m) (om_properties obj) path = Some es"
      by (simp add: validate_body_def is_null_def)
    from silent_object [OF _ _ this] struct(3,5) show "es = []" by blast
  qed
next
  case (all_of members v disc)
  then show ?case
    by (intro silentI) (auto simp: validate_body_def elim!: concat_opt_all_empty)
next
  case (some_of kind m members v disc)
  then show ?case by (intro silent_some_of) auto
next
  case (none_of kind v disc)
  then show ?case by (intro silentI) (cases kind; auto simp: validate_body_def one_of_errors_def)
qed (intro silentI; auto simp: validate_body_def is_null_def is_object_def validate_enum_def
      split: option.splits if_splits; fail)+

section \<open>Where errors are reported\<close>

abbreviation below :: "string \<Rightarrow> validation_error list option \<Rightarrow> bool" where
  "below path r \<equiv> \<forall>es. r = Some es \<longrightarrow> (\<forall>e \<in> set es. starts_with (ve_path e) path)"

lemma below_concat: "(\<And>x. x \<in> set xs \<Longrightarrow> below path (f x)) \<Longrightarrow> below path (concat_opt (map f xs))"
proof (induction xs)
  case (Cons x xs)
  from Cons.prems [of x] Cons.IH Cons.prems show ?case
    by (auto split: option.splits) blast
qed simp

lemma below_longer: "below (path @ q) r \<Longrightarrow> below path r"
  by (auto simp: starts_with_iff)

lemma below_object:
  assumes "\<And>v t p. below p (f v t p)"
  shows "below path (validate_object f v ps path)"
proof (cases "as_object v")
  case None
  then show ?thesis by (simp add: validate_object_def starts_with_def)
next
  case (Some m)
  have "below path (let prop_path = path @ ''.'' @ prop_name p in
      (case map_of m (prop_name p) of
         Some val \<Rightarrow> f val (prop_ty p) prop_path
       | None \<Rightarrow>
           if prop_required p then Some [verr prop_path ''missing required property'']
           else Some []))" for p
    using below_longer [OF assms [where p = "path @ ''.'' @ prop_name p"]]
    by (auto simp: Let_def starts_with_iff split: option.splits)
  then show ?thesis
    unfolding validate_object_def Some option.case by (rule below_concat)
qed

lemma below_validate_inner: "below path (validate_inner n reg v t path)"
proof (induction n arbitrary: v t path)
  case (Suc n)
  have idx: "below path (validate_inner n reg u t (path @ q))" for u t q
    using below_longer [OF Suc.IH] .
  have err: "below path (Some (if b then [] else [verr path msg]))" for b msg
    by (simp add: starts_with_def)
  show ?case
  proof (cases t)
    case (TArray item nl)
    have "below path (concat_opt (map (\<lambda>(i, v). validate_inner n reg v item
        (path @ ''['' @ show_nat i @ '']'')) (List.enumerate 0 vs)))" for vs
      by (rule below_concat) (use idx in \<open>auto split: prod.splits\<close>)
    with TArray show ?thesis
      by (auto simp: validate_body_def starts_with_def split: option.splits if_splits)
  next
    case (TMap vt)
    have "below path (concat_opt (map (\<lambda>(k, v). validate_inner n reg v vt (path @ ''.'' @ k)) m))" for m
      by (rule below_concat) (use idx in \<open>auto split: prod.splits\<close>)
    with TMap show ?thesis by (auto simp: validate_body_def split: option.splits)
  next
    case (TReference name nl d)
    have "below path (validate_object (validate_inner n reg) v ps path)" for ps
      by (rule below_object) (rule Suc.IH)
    with TReference Suc.IH [where v = v and path = path] show ?thesis
      by (auto simp: validate_body_def validate_enum_def starts_with_def
          split: option.splits if_splits model.splits)
  next
    case (TComposition k ms d)
    have "below path (concat_opt (map (\<lambda>m. validate_inner n reg v m path) ms))"
      by (rule below_concat) (rule Suc.IH)
    with TComposition show ?thesis
      by (cases k) (auto simp: validate_body_def one_of_errors_def starts_with_def)
  qed (auto simp: validate_body_def starts_with_def split: option.splits if_splits)
qed simp

section \<open>Properties\<close>

text \<open>
  C2. On a registry whose aliases do not run in a circle, the validator returns on every value
  and type, and it reports no error exactly when the value conforms to the type. (Fuel beyond
  what a run needs does not change its result.)
\<close>

theorem validate_decides_conforms:
  assumes "alias_ranked rank reg"
  shows "\<exists>n es. (\<forall>m \<ge> n. validate m v t reg = Some es) \<and> (es = [] \<longleftrightarrow> conforms reg v t)"
proof -
  have "returns reg v t"
    by (rule returns_all [OF assms, of _ "Suc (Max (insert 0 (rank ` set (alias_refs t))))"])
      (auto simp: less_Suc_eq_le)
  then obtain n es where es: "validate_inner n reg v t [] = Some es"
    unfolding returns_def halts_def by blast
  moreover have "es = [] \<longleftrightarrow> conforms reg v t"
    using es validate_inner_sound validate_inner_complete by blast
  ultimately show ?thesis
    using validate_inner_mono [OF es] by (intro exI [of _ n] exI [of _ es]) (simp add: validate_def)
qed

definition pet_model :: "ir_type option \<Rightarrow> model" where
  "pet_model shape = MObject
     \<lparr>om_name = ''Pet'', om_description = None,
      om_properties = [\<lparr>prop_name = ''id'', prop_ty = TScalar ScString, prop_required = True,
        prop_description = None\<rparr>],
      om_additional_properties = None, om_shape_type = shape, om_base_type = None\<rparr>"

theorem validate_decides_conforms_witness:
  "\<exists>n es. (\<forall>m \<ge> n. validate m JNull (TReference ''Pet'' False None) [(''Pet'', pet_model None)] = Some es) \<and>
     es \<noteq> []"
proof -
  have "alias_ranked (\<lambda>_. 0) [(''Pet'', pet_model None)]" by code_simp
  from validate_decides_conforms [OF this] obtain n es where
    es: "\<forall>m \<ge> n. validate m JNull (TReference ''Pet'' False None) [(''Pet'', pet_model None)] = Some es"
      "es = [] \<longleftrightarrow> conforms [(''Pet'', pet_model None)] JNull (TReference ''Pet'' False None)"
    by blast
  have "\<not> conforms [(''Pet'', pet_model None)] JNull (TReference ''Pet'' False None)"
    by (auto elim!: conforms_refE simp: registry_get_def pet_model_def)
  with es show ?thesis by blast
qed

text \<open>
  A schema that is an alias of itself, through any one composition, makes the validator
  recurse without end: no amount of fuel gives a result.
\<close>

theorem validate_diverges_on_alias_cycle:
  assumes "registry_get reg name = Some (MObject obj)"
    and "om_shape_type obj = Some (TComposition k members disc)"
    and "TReference name False d \<in> set members" and "v \<noteq> JNull"
  shows "validate n v (TReference name False d) reg = None"
proof -
  have "validate_inner n reg v (TReference name False d) path = None \<and>
      validate_inner n reg v (TComposition k members disc) path = None" for path
  proof (induction n)
    case (Suc n)
    have "None \<in> (\<lambda>m. validate_inner n reg v m path) ` set members"
      using Suc assms(3) by force
    moreover from this
    have "None \<in> (\<lambda>m. map_option (\<lambda>es. [es]) (validate_inner n reg v m path)) ` set members"
      by force
    ultimately show ?case
      using Suc assms(1,2)
      by (cases k) (simp_all add: validate_body_def concat_opt_None_iff)
  qed simp
  then show ?thesis by (simp add: validate_def)
qed

theorem validate_diverges_on_alias_cycle_witness:
  "\<forall>n. validate n (JBool True) (TReference ''Pet'' False None)
     [(''Pet'', pet_model (Some (TComposition OneOf [TReference ''Pet'' False None, TAny] None)))] = None"
proof
  fix n
  show "validate n (JBool True) (TReference ''Pet'' False None)
     [(''Pet'', pet_model (Some (TComposition OneOf [TReference ''Pet'' False None, TAny] None)))] = None"
    unfolding pet_model_def
    by (rule validate_diverges_on_alias_cycle [where k = OneOf and disc = None
          and members = "[TReference ''Pet'' False None, TAny]"])
      (simp add: registry_get_def, simp_all)
qed

text \<open>
  Every error is reported at a path below the one validation started from.
\<close>

theorem validate_error_paths:
  "validate_inner n reg v t path = Some es \<Longrightarrow> e \<in> set es \<Longrightarrow> starts_with (ve_path e) path"
  using below_validate_inner by blast

theorem validate_error_paths_witness:
  "\<exists>e. validate_inner 2 [] (JArray [JNull]) (TArray (TScalar ScString) False) ''.a'' = Some [e] \<and>
     ve_path e = ''.a[0]'' \<and> starts_with (ve_path e) ''.a''"
proof -
  have run: "validate_inner 2 [] (JArray [JNull]) (TArray (TScalar ScString) False) ''.a'' =
      Some [verr ''.a[0]'' ''expected string, got null'']"
    by code_simp
  from validate_error_paths [OF this] show ?thesis unfolding run by simp
qed

end
