(* ===== verification/Spec_Diff.thy ===== *)
theory Spec_Diff
  imports Ir "HOL-Library.Multiset"
begin

text \<open>
  crates/specforge-core/src/diff.rs: comparing two IR documents. The findings vector the source
  threads through its functions is the returned list. The source keys operations and schema
  names by \<open>HashMap\<close>/\<open>HashSet\<close>, whose iteration order is unspecified and differs between two
  maps of one run; the record \<open>iter_orders\<close> carries one iteration order per table, and
  \<open>orders_ok\<close> says that each enumerates the keys of its table once. \<open>diff\<close> and the
  formatters follow in the order of the source; the JSON writer is a parameter.

  \<open>doc_compatible\<close> is the contract: what must hold for a client of the old document to keep
  working with the new one, as far as the tool looks.
\<close>

section \<open>Data\<close>

datatype diff_severity = Breaking | Info

fun severity_str :: "diff_severity \<Rightarrow> string" where
  "severity_str Breaking = ''breaking''"
| "severity_str Info = ''info''"

record diff_finding =
  df_severity :: diff_severity
  df_message :: string
  df_path :: string

definition finding_str :: "diff_finding \<Rightarrow> string" where
  "finding_str f = severity_str (df_severity f) @ '': '' @ df_message f @ '' ['' @ df_path f @ '']''"

datatype property_change_kind =
    Added string
  | AddedRequired string
  | Removed string
  | TypeChanged string string
  | RequiredChanged bool bool

record property_change =
  pc_property :: string
  pc_change :: property_change_kind

text \<open>The UTF-8 bytes of the arrow and of the two marks the formatters print.\<close>

definition arrow :: string where
  "arrow = [CHR 0xE2, CHR 0x86, CHR 0x92]"

definition cross_mark :: string where
  "cross_mark = [CHR 0xE2, CHR 0x9D, CHR 0x8C]"

definition check_mark :: string where
  "check_mark = [CHR 0xE2, CHR 0x9C, CHR 0x85]"

definition required_str :: "bool \<Rightarrow> string" where
  "required_str b = (if b then ''required'' else ''optional'')"

definition property_change_str :: "property_change \<Rightarrow> string" where
  "property_change_str c =
     (case pc_change c of
        Added ty \<Rightarrow> ''+ '' @ pc_property c @ '': '' @ ty @ '' (new property)''
      | AddedRequired ty \<Rightarrow> ''+ '' @ pc_property c @ '': '' @ ty @ '' (new property, required)''
      | Removed ty \<Rightarrow> ''- '' @ pc_property c @ '': '' @ ty @ '' (removed)''
      | TypeChanged old_type new_type \<Rightarrow>
          ''~ '' @ pc_property c @ '': '' @ old_type @ '' '' @ arrow @ '' '' @ new_type
      | RequiredChanged old_required new_required \<Rightarrow>
          ''~ '' @ pc_property c @ '': '' @ required_str old_required @ '' '' @ arrow @ '' ''
            @ required_str new_required @ '' (required changed)'')"

record schema_diff_detail =
  sdd_name :: string
  sdd_changes :: "property_change list"

definition schema_diff_str :: "schema_diff_detail \<Rightarrow> string" where
  "schema_diff_str d =
     ''Schema '' @ sdd_name d @ '':'' @ newline
     @ concat (map (\<lambda>c. ''  '' @ property_change_str c @ newline) (sdd_changes d))"

record diff_result =
  dr_findings :: "diff_finding list"
  dr_schema_diffs :: "schema_diff_detail list"

fun type_to_string :: "ir_type \<Rightarrow> string" where
  "type_to_string (TScalar s) =
     (case s of
        ScString \<Rightarrow> ''string''
      | ScDateTime \<Rightarrow> ''date-time''
      | ScUuid \<Rightarrow> ''uuid''
      | ScInteger \<Rightarrow> ''integer''
      | ScInteger64 \<Rightarrow> ''integer (int64)''
      | ScFloat \<Rightarrow> ''number''
      | ScBoolean \<Rightarrow> ''boolean''
      | _ \<Rightarrow> ''other'')"
| "type_to_string (TReference name _ _) = name"
| "type_to_string (TStringEnum _ _) = ''string (enum)''"
| "type_to_string (TArray _ _) = ''array''"
| "type_to_string (TMap _) = ''object''"
| "type_to_string (TComposition _ _ _) = ''composition''"
| "type_to_string TAny = ''any''"
| "type_to_string TUnknown = ''unknown''"

section \<open>Comparing documents\<close>

definition ir_major_version :: "string \<Rightarrow> nat" where
  "ir_major_version version =
     (case parse_unsigned 64 (hd (split_on (CHR ''.'') version)) of None \<Rightarrow> 0 | Some n \<Rightarrow> n)"

definition diff_ir_version :: "document \<Rightarrow> document \<Rightarrow> diff_finding list" where
  "diff_ir_version old new =
     (if doc_ir_version old \<noteq> doc_ir_version new
      then
        let msg = ''IR version changed: '' @ doc_ir_version old @ '' '' @ arrow @ '' '' @ doc_ir_version new in
        if ir_major_version (doc_ir_version old) \<noteq> ir_major_version (doc_ir_version new)
        then [\<lparr>df_severity = Breaking,
               df_message = msg @ '' (major version bump indicates breaking IR schema changes)'',
               df_path = ''ir_version''\<rparr>]
        else [\<lparr>df_severity = Info, df_message = msg, df_path = ''ir_version''\<rparr>]
      else [])"

record iter_orders =
  ord_old_ops :: "string list \<Rightarrow> string list"
  ord_new_ops :: "string list \<Rightarrow> string list"
  ord_old_schemas :: "string list \<Rightarrow> string list"
  ord_new_schemas :: "string list \<Rightarrow> string list"

definition enumerates :: "(string list \<Rightarrow> string list) \<Rightarrow> bool" where
  "enumerates ord \<longleftrightarrow> (\<forall>ks. distinct (ord ks) \<and> set (ord ks) = set ks)"

definition orders_ok :: "iter_orders \<Rightarrow> bool" where
  "orders_ok ords \<longleftrightarrow> enumerates (ord_old_ops ords) \<and> enumerates (ord_new_ops ords) \<and>
     enumerates (ord_old_schemas ords) \<and> enumerates (ord_new_schemas ords)"

text \<open>Collecting operations into a map by id: a later operation replaces an earlier one.\<close>

definition op_index :: "operation list \<Rightarrow> string \<Rightarrow> operation option" where
  "op_index ops = map_of (rev (map (\<lambda>op. (op_operation_id op, op)) ops))"

definition op_ids :: "operation list \<Rightarrow> string list" where
  "op_ids ops = map op_operation_id ops"

definition diff_operation :: "operation \<Rightarrow> operation \<Rightarrow> diff_finding list" where
  "diff_operation old new =
     (let path = ''operations.'' @ op_operation_id old in
      map (\<lambda>p. \<lparr>df_severity = Breaking,
                 df_message = ''new required parameter: '' @ par_name p,
                 df_path = path @ ''.params.'' @ par_name p\<rparr>)
        (filter (\<lambda>p. par_required p \<and> \<not> list_ex (\<lambda>x. par_name x = par_name p) (op_parameters old))
           (op_parameters new))
      @ map (\<lambda>p. \<lparr>df_severity = Breaking,
                   df_message = ''parameter removed: '' @ par_name p,
                   df_path = path @ ''.params.'' @ par_name p\<rparr>)
          (filter (\<lambda>p. \<not> list_ex (\<lambda>x. par_name x = par_name p) (op_parameters new))
             (op_parameters old))
      @ (case (op_request_body new, op_request_body old) of
           (Some rb, None) \<Rightarrow>
             if rb_required rb
             then [\<lparr>df_severity = Breaking, df_message = ''new required request body'',
                    df_path = path @ ''.requestBody''\<rparr>]
             else []
         | _ \<Rightarrow> [])
      @ map (\<lambda>r. \<lparr>df_severity = Breaking,
                   df_message = ''response removed: '' @ resp_status r,
                   df_path = path @ ''.responses.'' @ resp_status r\<rparr>)
          (filter (\<lambda>r. \<not> list_ex (\<lambda>x. resp_status x = resp_status r) (op_responses new))
             (op_responses old)))"

definition diff_operations :: "iter_orders \<Rightarrow> document \<Rightarrow> document \<Rightarrow> diff_finding list" where
  "diff_operations ords old new =
     (let old_ops = op_index (doc_operations old);
          new_ops = op_index (doc_operations new);
          old_keys = ord_old_ops ords (op_ids (doc_operations old));
          new_keys = ord_new_ops ords (op_ids (doc_operations new))
      in
      map (\<lambda>i. \<lparr>df_severity = Breaking, df_message = ''operation removed: '' @ i,
                 df_path = ''operations.'' @ i\<rparr>)
        (filter (\<lambda>i. new_ops i = None) old_keys)
      @ map (\<lambda>i. \<lparr>df_severity = Info, df_message = ''operation added: '' @ i,
                   df_path = ''operations.'' @ i\<rparr>)
          (filter (\<lambda>i. old_ops i = None) new_keys)
      @ concat (map (\<lambda>i.
          (case (old_ops i, new_ops i) of
             (Some o', Some n) \<Rightarrow> diff_operation o' n
           | _ \<Rightarrow> [])) old_keys))"

text \<open>\<open>std::mem::discriminant\<close> of a type: which variant it is.\<close>

fun type_discriminant :: "ir_type \<Rightarrow> nat" where
  "type_discriminant (TScalar _) = 0"
| "type_discriminant (TStringEnum _ _) = 1"
| "type_discriminant (TArray _ _) = 2"
| "type_discriminant (TMap _) = 3"
| "type_discriminant (TReference _ _ _) = 4"
| "type_discriminant (TComposition _ _ _) = 5"
| "type_discriminant TAny = 6"
| "type_discriminant TUnknown = 7"

primrec type_changed :: "ir_type \<Rightarrow> ir_type \<Rightarrow> bool" where
  "type_changed (TScalar a) new =
     (case new of TScalar b \<Rightarrow> a \<noteq> b | _ \<Rightarrow> type_discriminant (TScalar a) \<noteq> type_discriminant new)"
| "type_changed (TReference a n d) new =
     (case new of TReference b _ _ \<Rightarrow> a \<noteq> b
      | _ \<Rightarrow> type_discriminant (TReference a n d) \<noteq> type_discriminant new)"
| "type_changed (TStringEnum a n) new =
     (case new of TStringEnum b _ \<Rightarrow> a \<noteq> b
      | _ \<Rightarrow> type_discriminant (TStringEnum a n) \<noteq> type_discriminant new)"
| "type_changed (TArray a n) new =
     (case new of TArray b _ \<Rightarrow> type_changed a b
      | _ \<Rightarrow> type_discriminant (TArray a n) \<noteq> type_discriminant new)"
| "type_changed (TMap v) new = (type_discriminant (TMap v) \<noteq> type_discriminant new)"
| "type_changed (TComposition k ms d) new =
     (type_discriminant (TComposition k ms d) \<noteq> type_discriminant new)"
| "type_changed TAny new = (type_discriminant TAny \<noteq> type_discriminant new)"
| "type_changed TUnknown new = (type_discriminant TUnknown \<noteq> type_discriminant new)"

text \<open>
  The four loops of \<open>diff_schema\<close>; each pushes a finding and a change together, so the model
  returns pairs.
\<close>

definition property_diffs ::
  "string \<Rightarrow> property list \<Rightarrow> property list \<Rightarrow> (diff_finding \<times> property_change) list" where
  "property_diffs name op np =
     (let path = ''schemas.'' @ name in
      map (\<lambda>p. (\<lparr>df_severity = Breaking,
                  df_message = ''new required property: '' @ prop_name p,
                  df_path = path @ ''.'' @ prop_name p\<rparr>,
                 \<lparr>pc_property = prop_name p, pc_change = AddedRequired (type_to_string (prop_ty p))\<rparr>))
        (filter (\<lambda>p. prop_required p \<and> \<not> list_ex (\<lambda>x. prop_name x = prop_name p) op) np)
      @ map (\<lambda>p. (\<lparr>df_severity = Info,
                    df_message = ''new optional property: '' @ prop_name p,
                    df_path = path @ ''.'' @ prop_name p\<rparr>,
                   \<lparr>pc_property = prop_name p, pc_change = Added (type_to_string (prop_ty p))\<rparr>))
          (filter (\<lambda>p. \<not> prop_required p \<and> \<not> list_ex (\<lambda>x. prop_name x = prop_name p) op) np)
      @ map (\<lambda>p. (\<lparr>df_severity = Breaking,
                    df_message = ''property removed: '' @ prop_name p,
                    df_path = path @ ''.'' @ prop_name p\<rparr>,
                   \<lparr>pc_property = prop_name p, pc_change = Removed (type_to_string (prop_ty p))\<rparr>))
          (filter (\<lambda>p. \<not> list_ex (\<lambda>x. prop_name x = prop_name p) np) op)
      @ concat (map (\<lambda>p.
          (case List.find (\<lambda>x. prop_name x = prop_name p) np of
             None \<Rightarrow> []
           | Some q \<Rightarrow>
               if type_changed (prop_ty p) (prop_ty q)
               then [(\<lparr>df_severity = Breaking,
                       df_message = ''type changed for property: '' @ prop_name p,
                       df_path = path @ ''.'' @ prop_name p\<rparr>,
                      \<lparr>pc_property = prop_name p,
                       pc_change = TypeChanged (type_to_string (prop_ty p)) (type_to_string (prop_ty q))\<rparr>)]
               else if prop_required p \<noteq> prop_required q
               then [(\<lparr>df_severity = (if prop_required q then Breaking else Info),
                       df_message = ''required changed for property: '' @ prop_name p @ '' (''
                         @ required_str (prop_required p) @ '' '' @ arrow @ '' ''
                         @ required_str (prop_required q) @ '')'',
                       df_path = path @ ''.'' @ prop_name p\<rparr>,
                      \<lparr>pc_property = prop_name p,
                       pc_change = RequiredChanged (prop_required p) (prop_required q)\<rparr>)]
               else [])) op))"

definition diff_schema ::
  "string \<Rightarrow> model \<Rightarrow> model \<Rightarrow> diff_finding list \<times> schema_diff_detail option" where
  "diff_schema name old new =
     (case (old, new) of
        (MObject o', MObject n) \<Rightarrow>
          let ds = property_diffs name (om_properties o') (om_properties n);
              changes = map snd ds
          in (map fst ds,
              if changes = [] then None else Some \<lparr>sdd_name = name, sdd_changes = changes\<rparr>)
      | _ \<Rightarrow> ([], None))"

text \<open>\<open>HashSet::intersection\<close> walks the smaller of the two sets, the first one on a tie.\<close>

definition schema_intersection :: "string list \<Rightarrow> string list \<Rightarrow> string list" where
  "schema_intersection old_s new_s =
     (if length old_s \<le> length new_s
      then filter (\<lambda>n. n \<in> set new_s) old_s
      else filter (\<lambda>n. n \<in> set old_s) new_s)"

definition diff_schemas ::
  "iter_orders \<Rightarrow> document \<Rightarrow> document \<Rightarrow> diff_finding list \<times> schema_diff_detail list" where
  "diff_schemas ords old new =
     (let old_s = ord_old_schemas ords (map fst (doc_schemas old));
          new_s = ord_new_schemas ords (map fst (doc_schemas new));
          shared = map (\<lambda>n. diff_schema n (the (registry_get (doc_schemas old) n))
                               (the (registry_get (doc_schemas new) n)))
                     (schema_intersection old_s new_s)
      in
      (map (\<lambda>n. \<lparr>df_severity = Breaking, df_message = ''schema removed: '' @ n,
                  df_path = ''schemas.'' @ n\<rparr>)
         (filter (\<lambda>n. n \<notin> set new_s) old_s)
       @ map (\<lambda>n. \<lparr>df_severity = Info, df_message = ''schema added: '' @ n,
                    df_path = ''schemas.'' @ n\<rparr>)
           (filter (\<lambda>n. n \<notin> set old_s) new_s)
       @ concat (map fst shared),
       List.map_filter snd shared))"

definition diff_detailed :: "iter_orders \<Rightarrow> document \<Rightarrow> document \<Rightarrow> diff_result" where
  "diff_detailed ords old new =
     (case diff_schemas ords old new of
        (schema_findings, schema_diffs) \<Rightarrow>
          \<lparr>dr_findings = diff_ir_version old new @ diff_operations ords old new @ schema_findings,
           dr_schema_diffs = schema_diffs\<rparr>)"

definition diff :: "iter_orders \<Rightarrow> document \<Rightarrow> document \<Rightarrow> diff_finding list" where
  "diff ords old new = dr_findings (diff_detailed ords old new)"

section \<open>Reports\<close>

definition breaking_of :: "diff_finding list \<Rightarrow> diff_finding list" where
  "breaking_of fs = filter (\<lambda>f. df_severity f = Breaking) fs"

definition info_of :: "diff_finding list \<Rightarrow> diff_finding list" where
  "info_of fs = filter (\<lambda>f. df_severity f = Info) fs"

definition format_text :: "diff_finding list \<Rightarrow> string" where
  "format_text findings =
     (let bc = length (breaking_of findings); ic = length findings - bc in
      concat (map (\<lambda>f. severity_str (df_severity f) @ '': '' @ finding_str f @ newline) findings)
      @ (if findings \<noteq> []
         then newline @ show_nat bc @ '' breaking change(s), '' @ show_nat ic @ '' info finding(s)'' @ newline
         else []))"

definition sgr :: "string \<Rightarrow> string" where
  "sgr code = [CHR 0x1B] @ ''['' @ code @ ''m''"

definition format_colored :: "diff_finding list \<Rightarrow> schema_diff_detail list \<Rightarrow> string" where
  "format_colored findings schema_diffs =
     (let RED = sgr ''31''; GREEN = sgr ''32''; YELLOW = sgr ''33''; BOLD = sgr ''1''; DIM = sgr ''2'';
          RESET = sgr ''0''; bc = length (breaking_of findings); ic = length findings - bc in
      concat (map (\<lambda>f. (case df_severity f of
           Breaking \<Rightarrow> RED @ BOLD @ ''breaking'' @ RESET @ '' '' @ RED @ df_message f @ newline @ RESET
         | Info \<Rightarrow> GREEN @ BOLD @ ''info'' @ RESET @ '' '' @ GREEN @ df_message f @ newline @ RESET)) findings)
      @ (if schema_diffs \<noteq> []
         then newline @ concat (map (\<lambda>d.
             BOLD @ ''Schema '' @ sdd_name d @ '':'' @ RESET @ newline
             @ concat (map (\<lambda>c.
                 (let (col, pre) = (case pc_change c of
                        Added _ \<Rightarrow> (GREEN, ''+'')
                      | AddedRequired _ \<Rightarrow> (GREEN, ''+'')
                      | Removed _ \<Rightarrow> (RED, ''-'')
                      | _ \<Rightarrow> (YELLOW, ''~''))
                  in ''  '' @ col @ pre @ '' '' @ property_change_str c @ RESET @ newline)) (sdd_changes d)))
             schema_diffs)
         else [])
      @ (if findings \<noteq> []
         then newline @ DIM @ show_nat bc @ '' breaking change(s), '' @ show_nat ic
           @ '' info finding(s)'' @ RESET @ newline
         else []))"

definition quoted :: "string \<Rightarrow> string" where
  "quoted s = ''`'' @ s @ ''`''"

text \<open>The prefixes \<open>fmt_md_msg\<close> recognises, in order, with the text around the rest of the message.\<close>

definition md_templates :: "(string \<times> (string \<Rightarrow> string)) list" where
  "md_templates =
     [(''IR version changed: '', \<lambda>r. ''IR version changed: '' @ r),
      (''operation removed: '', \<lambda>r. ''Operation '' @ quoted r @ '' removed''),
      (''operation added: '', \<lambda>r. ''Operation '' @ quoted r @ '' added''),
      (''schema removed: '', \<lambda>r. ''Schema '' @ quoted r @ '' removed''),
      (''schema added: '', \<lambda>r. ''Schema '' @ quoted r @ '' added''),
      (''new required property: '', \<lambda>r. ''New required property '' @ quoted r),
      (''new optional property: '', \<lambda>r. ''New optional property '' @ quoted r),
      (''property removed: '', \<lambda>r. ''Property '' @ quoted r @ '' removed''),
      (''type changed for property: '', \<lambda>r. ''Type changed for property '' @ quoted r),
      (''new required parameter: '', \<lambda>r. ''New required parameter '' @ quoted r),
      (''parameter removed: '', \<lambda>r. ''Parameter '' @ quoted r @ '' removed''),
      (''response removed: '', \<lambda>r. ''Response '' @ quoted r @ '' removed''),
      (''required changed for property: '', \<lambda>r. ''Required status changed for property '' @ quoted r)]"

fun apply_template :: "(string \<times> (string \<Rightarrow> string)) list \<Rightarrow> string \<Rightarrow> string option" where
  "apply_template [] msg = None"
| "apply_template ((prefix, template) # ts) msg =
     (case strip_prefix prefix msg of Some rest \<Rightarrow> Some (template rest) | None \<Rightarrow> apply_template ts msg)"

definition fmt_md_msg :: "string \<Rightarrow> string" where
  "fmt_md_msg msg =
     (case apply_template md_templates msg of
        Some s \<Rightarrow> s
      | None \<Rightarrow>
          if msg = ''new required request body'' then ''New required request body''
          else (case msg of [] \<Rightarrow> [] | c # cs \<Rightarrow> to_ascii_upper c # cs))"

definition md_change :: "property_change_kind \<Rightarrow> string \<times> string" where
  "md_change k =
     (case k of
        Added ty \<Rightarrow> (''Added'', ''new property ('' @ quoted ty @ '')'')
      | AddedRequired ty \<Rightarrow> (''Added'', ''new required property ('' @ quoted ty @ '')'')
      | Removed ty \<Rightarrow> (''Removed'', ''was '' @ quoted ty)
      | TypeChanged old_type new_type \<Rightarrow>
          (''Changed'', quoted old_type @ '' '' @ arrow @ '' '' @ quoted new_type)
      | RequiredChanged old_required new_required \<Rightarrow>
          (''Changed'', required_str old_required @ '' '' @ arrow @ '' '' @ required_str new_required))"

definition md_section :: "string \<Rightarrow> diff_finding list \<Rightarrow> string" where
  "md_section mark fs =
     (if fs = [] then ''_None._'' @ newline @ newline
      else concat (map (\<lambda>f. ''- '' @ mark @ '' '' @ fmt_md_msg (df_message f) @ newline) fs) @ newline)"

definition format_markdown ::
  "diff_finding list \<Rightarrow> schema_diff_detail list \<Rightarrow> string \<Rightarrow> string \<Rightarrow> string" where
  "format_markdown findings schema_diffs old_version new_version =
     (let brk = breaking_of findings; inf = info_of findings in
      ''# API Changes: '' @ old_version @ '' '' @ arrow @ '' '' @ new_version @ newline @ newline
      @ ''## Breaking Changes'' @ newline @ newline @ md_section cross_mark brk
      @ ''## Non-Breaking Changes'' @ newline @ newline @ md_section check_mark inf
      @ (if schema_diffs \<noteq> []
         then ''## Schema Changes'' @ newline @ newline
           @ concat (map (\<lambda>d.
               ''### '' @ quoted (sdd_name d) @ newline @ newline
               @ ''| Change | Property | Details |'' @ newline
               @ ''|--------|----------|--------|'' @ newline
               @ concat (map (\<lambda>c.
                   (let (icon, det) = md_change (pc_change c)
                    in ''| '' @ icon @ '' | '' @ quoted (pc_property c) @ '' | '' @ det @ '' |'' @ newline))
                   (sdd_changes d))
               @ newline) schema_diffs)
         else [])
      @ ''## Summary'' @ newline @ newline
      @ ''- **'' @ show_nat (length brk) @ ''** breaking change(s)'' @ newline
      @ ''- **'' @ show_nat (length inf) @ ''** non-breaking change(s)'' @ newline
      @ (if schema_diffs \<noteq> []
         then ''- **'' @ show_nat (length schema_diffs) @ ''** schema(s) modified'' @ newline
         else []))"

record diff_json_output =
  dj_breaking :: "diff_finding list"
  dj_info :: "diff_finding list"
  dj_schema_diffs :: "schema_diff_detail list"
  dj_breaking_count :: nat
  dj_info_count :: nat

text \<open>\<open>format_json\<close>, over the pretty-printer of serde.\<close>

definition format_json ::
  "(diff_json_output \<Rightarrow> ('e, string) result) \<Rightarrow> diff_finding list \<Rightarrow> schema_diff_detail list
   \<Rightarrow> ('e, string) result" where
  "format_json to_string_pretty findings schema_diffs =
     to_string_pretty
       \<lparr>dj_breaking = breaking_of findings,
        dj_info = info_of findings,
        dj_schema_diffs = schema_diffs,
        dj_breaking_count = length (breaking_of findings),
        dj_info_count = length (info_of findings)\<rparr>"

section \<open>Comparing types\<close>

lemma type_changed_refl [simp]: "\<not> type_changed t t"
  by (induction t) auto

lemma type_changed_sym: "type_changed s t \<longleftrightarrow> type_changed t s"
proof (induction s arbitrary: t)
  case (TArray a n)
  then show ?case by (cases t) simp_all
qed (case_tac t; auto; fail)+

lemma type_unchanged_trans: "\<lbrakk>\<not> type_changed r s; \<not> type_changed s t\<rbrakk> \<Longrightarrow> \<not> type_changed r t"
proof (induction r arbitrary: s t)
  case (TArray a n)
  then show ?case by (cases s) (simp_all, cases t, auto)
qed (case_tac s; simp split: ir_type.splits; fail)+

section \<open>Hash order\<close>

lemma enumerates_mset: "\<lbrakk>enumerates f; enumerates g\<rbrakk> \<Longrightarrow> mset (f ks) = mset (g ks)"
  unfolding enumerates_def by (metis set_eq_iff_mset_eq_distinct)

lemma mset_concat_map: "mset xs = mset ys \<Longrightarrow> mset (concat (map f xs)) = mset (concat (map f ys))"
  by (simp add: mset_concat) (metis mset_map sum_mset_sum_list)

lemma mset_map_filter_cong: "mset xs = mset ys \<Longrightarrow> mset (List.map_filter f xs) = mset (List.map_filter f ys)"
  by (simp add: List.map_filter_def)

lemma mset_schema_intersection:
  "\<lbrakk>distinct xs; distinct ys\<rbrakk> \<Longrightarrow> mset (schema_intersection xs ys) = mset_set (set xs \<inter> set ys)"
  by (auto simp: schema_intersection_def mset_set_set [symmetric] simp del: mset_filter
      intro!: arg_cong [of _ _ mset_set])

lemma mset_filter_map_cong:
  "mset xs = mset ys \<Longrightarrow> mset (map f (filter P xs)) = mset (map f (filter P ys))"
  by simp

lemma diff_operations_mset:
  assumes "orders_ok a" and "orders_ok b"
  shows "mset (diff_operations a old new) = mset (diff_operations b old new)"
proof -
  have o: "mset (ord_old_ops a ks) = mset (ord_old_ops b ks)"
    and n: "mset (ord_new_ops a ks) = mset (ord_new_ops b ks)" for ks
    using assms enumerates_mset by (auto simp: orders_ok_def)
  show ?thesis
    unfolding diff_operations_def Let_def mset_append
    by (intro arg_cong2 [of _ _ _ _ "(+)"] mset_filter_map_cong mset_concat_map o n)
qed

lemma diff_schemas_mset:
  assumes "orders_ok a" and "orders_ok b"
  shows "mset (fst (diff_schemas a old new)) = mset (fst (diff_schemas b old new))"
    and "mset (snd (diff_schemas a old new)) = mset (snd (diff_schemas b old new))"
proof -
  have o: "mset (ord_old_schemas a ks) = mset (ord_old_schemas b ks)"
    and n: "mset (ord_new_schemas a ks) = mset (ord_new_schemas b ks)"
    and sets: "set (ord_old_schemas a ks) = set ks" "set (ord_old_schemas b ks) = set ks"
      "set (ord_new_schemas a ks) = set ks" "set (ord_new_schemas b ks) = set ks"
    and dist: "distinct (ord_old_schemas a ks)" "distinct (ord_old_schemas b ks)"
      "distinct (ord_new_schemas a ks)" "distinct (ord_new_schemas b ks)" for ks
    using assms enumerates_mset by (auto simp: orders_ok_def enumerates_def)
  have i: "mset (schema_intersection (ord_old_schemas a ks) (ord_new_schemas a ls)) =
      mset (schema_intersection (ord_old_schemas b ks) (ord_new_schemas b ls))" for ks ls
    by (simp add: mset_schema_intersection dist sets)
  show "mset (fst (diff_schemas a old new)) = mset (fst (diff_schemas b old new))"
    unfolding diff_schemas_def Let_def mset_append fst_conv sets
    by (intro arg_cong2 [of _ _ _ _ "(+)"] mset_filter_map_cong mset_concat_map o n)
      (simp add: i)
  show "mset (snd (diff_schemas a old new)) = mset (snd (diff_schemas b old new))"
    unfolding diff_schemas_def Let_def snd_conv
    by (rule mset_map_filter_cong) (simp add: i)
qed

text \<open>
  The hash maps' iteration orders change only the order of the findings and of the schema
  details, never what is reported.
\<close>

theorem diff_order_independent:
  assumes "orders_ok a" and "orders_ok b"
  shows "mset (diff a old new) = mset (diff b old new) \<and>
    mset (dr_schema_diffs (diff_detailed a old new)) = mset (dr_schema_diffs (diff_detailed b old new))"
  using diff_operations_mset [OF assms, of old new] diff_schemas_mset [OF assms, of old new]
  by (simp add: diff_def diff_detailed_def split_def)

text \<open>Iterating in the order of first occurrence, or of last occurrence, as example orders.\<close>

definition remdups_orders :: iter_orders where
  "remdups_orders =
     \<lparr>ord_old_ops = remdups, ord_new_ops = remdups, ord_old_schemas = remdups, ord_new_schemas = remdups\<rparr>"

definition rev_orders :: iter_orders where
  "rev_orders =
     \<lparr>ord_old_ops = \<lambda>ks. rev (remdups ks), ord_new_ops = \<lambda>ks. rev (remdups ks),
      ord_old_schemas = \<lambda>ks. rev (remdups ks), ord_new_schemas = \<lambda>ks. rev (remdups ks)\<rparr>"

lemma orders_ok_examples: "orders_ok remdups_orders" "orders_ok rev_orders"
  by (simp_all add: orders_ok_def enumerates_def remdups_orders_def rev_orders_def)

definition empty_doc :: document where
  "empty_doc =
     \<lparr>doc_ir_version = IR_VERSION, doc_title = [], doc_version = [], doc_base_url = None,
      doc_security = [], doc_schemas = [], doc_operations = [], doc_webhooks = []\<rparr>"

definition doc_with_enums :: "string list \<Rightarrow> document" where
  "doc_with_enums names = empty_doc\<lparr>doc_schemas :=
     map (\<lambda>n. (n, MEnum \<lparr>em_name = n, em_description = None, em_variants = []\<rparr>)) names\<rparr>"

theorem diff_order_independent_witness:
  "mset (diff remdups_orders (doc_with_enums [''A'', ''B'']) empty_doc) =
     mset (diff rev_orders (doc_with_enums [''A'', ''B'']) empty_doc) \<and>
   length (diff rev_orders (doc_with_enums [''A'', ''B'']) empty_doc) = 2"
proof
  show "mset (diff remdups_orders (doc_with_enums [''A'', ''B'']) empty_doc) =
      mset (diff rev_orders (doc_with_enums [''A'', ''B'']) empty_doc)"
    using diff_order_independent [OF orders_ok_examples] by simp
  show "length (diff rev_orders (doc_with_enums [''A'', ''B'']) empty_doc) = 2"
    by code_simp
qed

section \<open>Breaking changes against the contract\<close>

definition op_compatible :: "operation \<Rightarrow> operation \<Rightarrow> bool" where
  "op_compatible old new \<longleftrightarrow>
     (\<forall>p \<in> set (op_parameters new). par_required p \<longrightarrow> par_name p \<in> par_name ` set (op_parameters old)) \<and>
     (\<forall>p \<in> set (op_parameters old). par_name p \<in> par_name ` set (op_parameters new)) \<and>
     (\<forall>rb. op_request_body new = Some rb \<longrightarrow> op_request_body old = None \<longrightarrow> \<not> rb_required rb) \<and>
     (\<forall>r \<in> set (op_responses old). resp_status r \<in> resp_status ` set (op_responses new))"

definition props_compatible :: "property list \<Rightarrow> property list \<Rightarrow> bool" where
  "props_compatible old new \<longleftrightarrow>
     (\<forall>p \<in> set new. prop_required p \<longrightarrow> prop_name p \<in> prop_name ` set old) \<and>
     (\<forall>p \<in> set old. \<exists>q. List.find (\<lambda>x. prop_name x = prop_name p) new = Some q \<and>
        \<not> type_changed (prop_ty p) (prop_ty q) \<and> (prop_required q \<longrightarrow> prop_required p))"

fun model_compatible :: "model \<Rightarrow> model \<Rightarrow> bool" where
  "model_compatible (MObject o') (MObject n) = props_compatible (om_properties o') (om_properties n)"
| "model_compatible _ _ = True"

definition doc_compatible :: "document \<Rightarrow> document \<Rightarrow> bool" where
  "doc_compatible old new \<longleftrightarrow>
     ir_major_version (doc_ir_version old) = ir_major_version (doc_ir_version new) \<and>
     (\<forall>i o'. op_index (doc_operations old) i = Some o' \<longrightarrow>
        (\<exists>n. op_index (doc_operations new) i = Some n \<and> op_compatible o' n)) \<and>
     (\<forall>n m. registry_get (doc_schemas old) n = Some m \<longrightarrow>
        (\<exists>m'. registry_get (doc_schemas new) n = Some m' \<and> model_compatible m m'))"

lemma list_ex_key: "list_ex (\<lambda>x. f x = y) xs \<longleftrightarrow> y \<in> f ` set xs"
  by (auto simp: list_ex_iff)

lemma find_key: "y \<in> f ` set xs \<longleftrightarrow> (\<exists>q. List.find (\<lambda>x. f x = y) xs = Some q)"
  by (induction xs) auto

lemma breaking_of_append [simp]: "breaking_of (xs @ ys) = breaking_of xs @ breaking_of ys"
  by (simp add: breaking_of_def)

lemma breaking_of_concat: "breaking_of (concat xss) = [] \<longleftrightarrow> (\<forall>xs \<in> set xss. breaking_of xs = [])"
  by (induction xss) (auto simp: breaking_of_def)

lemma breaking_of_map_Breaking:
  "(\<And>x. df_severity (f x) = Breaking) \<Longrightarrow> breaking_of (map f xs) = [] \<longleftrightarrow> xs = []"
  by (cases xs) (simp_all add: breaking_of_def)

lemma breaking_of_map_Info: "(\<And>x. df_severity (f x) = Info) \<Longrightarrow> breaking_of (map f xs) = []"
  by (simp add: breaking_of_def)

lemmas breaking_simps = breaking_of_map_Breaking breaking_of_map_Info

lemma diff_operation_breaking: "breaking_of (diff_operation old new) = [] \<longleftrightarrow> op_compatible old new"
proof -
  have "breaking_of (case (op_request_body new, op_request_body old) of
           (Some rb, None) \<Rightarrow>
             if rb_required rb
             then [\<lparr>df_severity = Breaking, df_message = ''new required request body'', df_path = q\<rparr>]
             else []
         | _ \<Rightarrow> []) = [] \<longleftrightarrow>
      (\<forall>rb. op_request_body new = Some rb \<longrightarrow> op_request_body old = None \<longrightarrow> \<not> rb_required rb)" for q
    by (auto simp: breaking_of_def split: option.splits)
  then show ?thesis
    by (simp add: diff_operation_def Let_def breaking_simps op_compatible_def filter_empty_conv
        list_ex_key)
qed

lemma shared_breaking:
  "breaking_of (map fst (case List.find P np of
      None \<Rightarrow> []
    | Some q \<Rightarrow>
        if type_changed t (prop_ty q) then [(\<lparr>df_severity = Breaking, df_message = m q, df_path = d q\<rparr>, c q)]
        else if r \<noteq> prop_required q
        then [(\<lparr>df_severity = (if prop_required q then Breaking else Info), df_message = m' q, df_path = d' q\<rparr>,
               c' q)]
        else [])) = [] \<longleftrightarrow>
   (\<forall>q. List.find P np = Some q \<longrightarrow> \<not> type_changed t (prop_ty q) \<and> (prop_required q \<longrightarrow> r))"
  by (cases "List.find P np") (auto simp: breaking_of_def)

lemma property_diffs_breaking:
  "breaking_of (map fst (property_diffs name op np)) = [] \<longleftrightarrow> props_compatible op np"
proof -
  have "(\<forall>p \<in> set op. prop_name p \<in> prop_name ` set np) \<and>
      (\<forall>p \<in> set op. \<forall>q. List.find (\<lambda>x. prop_name x = prop_name p) np = Some q \<longrightarrow>
         \<not> type_changed (prop_ty p) (prop_ty q) \<and> (prop_required q \<longrightarrow> prop_required p)) \<longleftrightarrow>
      (\<forall>p \<in> set op. \<exists>q. List.find (\<lambda>x. prop_name x = prop_name p) np = Some q \<and>
         \<not> type_changed (prop_ty p) (prop_ty q) \<and> (prop_required q \<longrightarrow> prop_required p))"
    unfolding find_key by fastforce
  then show ?thesis
    unfolding property_diffs_def Let_def map_append map_concat map_map breaking_of_append
    by (simp add: breaking_simps comp_def breaking_of_concat shared_breaking filter_empty_conv
        list_ex_key props_compatible_def)
qed

lemma diff_schema_breaking: "breaking_of (fst (diff_schema n m m')) = [] \<longleftrightarrow> model_compatible m m'"
  by (cases m; cases m')
    (simp_all add: diff_schema_def Let_def property_diffs_breaking, simp_all add: breaking_of_def)

lemma op_index_dom: "op_index ops i = None \<longleftrightarrow> i \<notin> set (op_ids ops)"
  by (auto simp: op_index_def op_ids_def map_of_eq_None_iff image_image)

lemma diff_operations_breaking:
  assumes "orders_ok ords"
  shows "breaking_of (diff_operations ords old new) = [] \<longleftrightarrow>
    (\<forall>i o'. op_index (doc_operations old) i = Some o' \<longrightarrow>
        (\<exists>n. op_index (doc_operations new) i = Some n \<and> op_compatible o' n))"
proof -
  let ?old = "op_index (doc_operations old)" and ?new = "op_index (doc_operations new)"
  have keys: "set (ord_old_ops ords (op_ids (doc_operations old))) = {i. ?old i \<noteq> None}"
    using assms op_index_dom by (force simp: orders_ok_def enumerates_def)
  have both: "breaking_of (case ?old i of
        None \<Rightarrow> []
      | Some o' \<Rightarrow> (case ?new i of None \<Rightarrow> [] | Some n \<Rightarrow> diff_operation o' n)) = [] \<longleftrightarrow>
      (\<forall>o' n. ?old i = Some o' \<longrightarrow> ?new i = Some n \<longrightarrow> op_compatible o' n)" for i
    by (cases "?old i"; cases "?new i") (simp_all add: diff_operation_breaking, simp_all add: breaking_of_def)
  have "breaking_of (diff_operations ords old new) = [] \<longleftrightarrow>
      (\<forall>i. ?old i \<noteq> None \<longrightarrow> ?new i \<noteq> None) \<and>
      (\<forall>i. ?old i \<noteq> None \<longrightarrow> (\<forall>o' n. ?old i = Some o' \<longrightarrow> ?new i = Some n \<longrightarrow> op_compatible o' n))"
    unfolding diff_operations_def Let_def breaking_of_append
    by (simp add: breaking_simps breaking_of_concat filter_empty_conv keys both del: not_None_eq)
  then show ?thesis by (metis not_None_eq option.inject)
qed

lemma diff_schemas_breaking:
  assumes "orders_ok ords"
  shows "breaking_of (fst (diff_schemas ords old new)) = [] \<longleftrightarrow>
    (\<forall>n m. registry_get (doc_schemas old) n = Some m \<longrightarrow>
        (\<exists>m'. registry_get (doc_schemas new) n = Some m' \<and> model_compatible m m'))"
proof -
  let ?old = "registry_get (doc_schemas old)" and ?new = "registry_get (doc_schemas new)"
  have keys: "set (ord_old_schemas ords (map fst (doc_schemas old))) = {n. ?old n \<noteq> None}"
    "set (ord_new_schemas ords (map fst (doc_schemas new))) = {n. ?new n \<noteq> None}"
    using assms by (auto simp: orders_ok_def enumerates_def registry_get_def map_of_eq_None_iff
        simp del: not_None_eq)
  then have inter: "set (schema_intersection (ord_old_schemas ords (map fst (doc_schemas old)))
      (ord_new_schemas ords (map fst (doc_schemas new)))) = {n. ?old n \<noteq> None \<and> ?new n \<noteq> None}"
    by (auto simp: schema_intersection_def)
  have "breaking_of (fst (diff_schemas ords old new)) = [] \<longleftrightarrow>
      (\<forall>n. ?old n \<noteq> None \<longrightarrow> ?new n \<noteq> None) \<and>
      (\<forall>n. ?old n \<noteq> None \<and> ?new n \<noteq> None \<longrightarrow> model_compatible (the (?old n)) (the (?new n)))"
    unfolding diff_schemas_def Let_def fst_conv breaking_of_append
    by (simp add: breaking_simps breaking_of_concat filter_empty_conv keys inter diff_schema_breaking
        del: not_None_eq)
  then show ?thesis by (metis not_None_eq option.sel)
qed

lemma diff_ir_version_breaking:
  "breaking_of (diff_ir_version old new) = [] \<longleftrightarrow>
     ir_major_version (doc_ir_version old) = ir_major_version (doc_ir_version new)"
  by (auto simp: diff_ir_version_def Let_def breaking_of_def)

lemma diff_compatible:
  assumes "orders_ok ords"
  shows "breaking_of (diff ords old new) = [] \<longleftrightarrow> doc_compatible old new"
  using assms
  by (simp add: diff_def diff_detailed_def split_def doc_compatible_def diff_ir_version_breaking
      diff_operations_breaking diff_schemas_breaking)

text \<open>
  C1. The diff reports no breaking change exactly when the new document is compatible with the
  old one: same IR major version; every old operation is still there, with all its parameters
  and response codes, no new required parameter and no newly required body; every old schema is
  still there, and between two object schemas every property is kept with an unchanged type and
  none becomes required or is added as required. This holds for every hash order.
\<close>

theorem diff_breaking_iff_incompatible:
  assumes "orders_ok ords"
  shows "breaking_of (diff ords old new) = [] \<longleftrightarrow> doc_compatible old new"
  using assms by (rule diff_compatible)

theorem diff_breaking_iff_incompatible_witness:
  "\<not> doc_compatible (doc_with_enums [''A'']) empty_doc \<and> doc_compatible empty_doc (doc_with_enums [''A''])"
proof -
  have "breaking_of (diff remdups_orders (doc_with_enums [''A'']) empty_doc) \<noteq> []"
    "breaking_of (diff remdups_orders empty_doc (doc_with_enums [''A''])) = []"
    by code_simp+
  with diff_breaking_iff_incompatible [OF orders_ok_examples(1)] show ?thesis by simp
qed

section \<open>Comparing a document with itself\<close>

lemma property_diffs_self:
  assumes "distinct (map prop_name ps)"
  shows "property_diffs name ps ps = []"
proof -
  have "List.find (\<lambda>x. prop_name x = prop_name p) ps = Some p" if "p \<in> set ps" for p
    using assms that by (induction ps) auto
  then show ?thesis
    by (auto simp: property_diffs_def Let_def filter_empty_conv list_ex_key)
qed

text \<open>
  A document compared with itself gives no findings and no schema details, provided the
  properties of each object model have distinct names.
\<close>

theorem diff_self:
  assumes "orders_ok ords"
    and "\<forall>(n, m) \<in> set (doc_schemas doc). case m of MObject o' \<Rightarrow> distinct (map prop_name (om_properties o'))
           | MEnum _ \<Rightarrow> True"
  shows "diff_detailed ords doc doc = \<lparr>dr_findings = [], dr_schema_diffs = []\<rparr>"
proof -
  have op: "diff_operation o' o' = []" for o'
    by (auto simp: diff_operation_def filter_empty_conv list_ex_key split: option.split)
  have ops: "diff_operations ords doc doc = []"
    using assms(1)
    by (auto simp: diff_operations_def Let_def orders_ok_def enumerates_def op_index_dom filter_empty_conv op
        split: option.splits)
  have model: "diff_schema n m m = ([], None)" if "registry_get (doc_schemas doc) n = Some m" for n m
    using assms(2) that
    by (cases m) (fastforce simp: registry_get_def diff_schema_def Let_def property_diffs_self
        dest: map_of_SomeD)+
  have "diff_schema n (the (registry_get (doc_schemas doc) n)) (the (registry_get (doc_schemas doc) n)) =
      ([], None)" if "n \<in> fst ` set (doc_schemas doc)" for n
  proof -
    obtain m where "registry_get (doc_schemas doc) n = Some m"
      using \<open>n \<in> _\<close> by (auto simp: registry_get_def map_of_eq_None_iff dest: weak_map_of_SomeI)
    with model show ?thesis by simp
  qed
  then have "diff_schemas ords doc doc = ([], [])"
    using assms(1)
    by (auto simp: diff_schemas_def Let_def orders_ok_def enumerates_def filter_empty_conv
        schema_intersection_def List.map_filter_def split: if_splits)
  with ops show ?thesis
    by (simp add: diff_detailed_def diff_ir_version_def)
qed

theorem diff_self_witness:
  "diff_detailed rev_orders (doc_with_enums [''A'', ''B'']) (doc_with_enums [''A'', ''B'']) =
     \<lparr>dr_findings = [], dr_schema_diffs = []\<rparr>"
  by (rule diff_self [OF orders_ok_examples(2)]) (simp add: doc_with_enums_def)

section \<open>Reports keep every finding\<close>

lemma breaking_info_partition: "mset (breaking_of fs) + mset (info_of fs) = mset fs"
proof -
  have "info_of fs = filter (\<lambda>f. df_severity f \<noteq> Breaking) fs"
    unfolding info_of_def by (rule filter_cong) (auto intro: diff_severity.exhaust)
  then show ?thesis by (simp add: breaking_of_def)
qed

definition has_template :: "string \<Rightarrow> bool" where
  "has_template msg \<longleftrightarrow> msg = ''new required request body'' \<or> apply_template md_templates msg \<noteq> None"

lemma apply_template_prefix:
  "(prefix, f) \<in> set ts \<Longrightarrow> apply_template ts (prefix @ rest) \<noteq> None"
  by (induction ts) (auto split: option.split)

lemma has_template_prefix: "prefix \<in> set (map fst md_templates) \<Longrightarrow> has_template (prefix @ rest)"
  unfolding has_template_def using apply_template_prefix by fastforce

lemma has_template_messages:
  "has_template (''IR version changed: '' @ r)" "has_template (''operation removed: '' @ r)"
  "has_template (''operation added: '' @ r)" "has_template (''schema removed: '' @ r)"
  "has_template (''schema added: '' @ r)" "has_template (''new required property: '' @ r)"
  "has_template (''new optional property: '' @ r)" "has_template (''property removed: '' @ r)"
  "has_template (''type changed for property: '' @ r)" "has_template (''new required parameter: '' @ r)"
  "has_template (''parameter removed: '' @ r)" "has_template (''response removed: '' @ r)"
  "has_template (''required changed for property: '' @ r)" "has_template ''new required request body''"
  by (rule has_template_prefix, simp add: md_templates_def)+ (simp add: has_template_def)

abbreviation templated :: "diff_finding list \<Rightarrow> bool" where
  "templated fs \<equiv> \<forall>f \<in> set fs. has_template (df_message f)"

lemma templated_ir_version: "templated (diff_ir_version old new)"
  by (auto simp: diff_ir_version_def Let_def has_template_messages simp flip: append_assoc
      simp del: append_Cons append.simps)
    (simp_all only: append_assoc has_template_messages)

lemma templated_operation: "templated (diff_operation old new)"
  by (auto simp: diff_operation_def Let_def has_template_messages simp del: append_Cons append.simps
      split: option.splits if_splits)

lemma templated_operations: "templated (diff_operations ords old new)"
  using templated_operation
  by (auto simp: diff_operations_def Let_def has_template_messages simp del: append_Cons append.simps
      split: option.splits)

lemma templated_properties: "templated (map fst (property_diffs name op np))"
  by (auto simp: property_diffs_def Let_def has_template_messages simp del: append_Cons append.simps
      split: option.splits if_splits)

lemma templated_schema: "templated (fst (diff_schema n m m'))"
  using templated_properties by (auto simp: diff_schema_def Let_def split: model.splits)

lemma templated_schemas: "templated (fst (diff_schemas ords old new))"
  using templated_schema
  by (auto simp: diff_schemas_def Let_def has_template_messages simp del: append_Cons append.simps)

text \<open>
  The Markdown report has a sentence for every message the diff produces: each is the
  missing-body message or starts with a known prefix, so the fall-back that only capitalises
  the first letter is never taken.
\<close>

theorem diff_messages_have_templates:
  assumes "f \<in> set (diff ords old new)"
  shows "has_template (df_message f)"
  using assms templated_ir_version [of old new] templated_operations [of ords old new]
    templated_schemas [of ords old new]
  by (auto simp: diff_def diff_detailed_def split_def)

theorem diff_messages_have_templates_witness:
  "\<exists>f. diff remdups_orders (doc_with_enums [''A'']) empty_doc = [f] \<and> has_template (df_message f) \<and>
     fmt_md_msg (df_message f) = ''Schema `A` removed''"
proof -
  obtain f where f: "diff remdups_orders (doc_with_enums [''A'']) empty_doc = [f]"
    "fmt_md_msg (df_message f) = ''Schema `A` removed''"
    by (rule that [of "hd (diff remdups_orders (doc_with_enums [''A'']) empty_doc)"]) code_simp+
  with diff_messages_have_templates [of f remdups_orders "doc_with_enums [''A'']" empty_doc]
  show ?thesis by auto
qed

end
