(* ===== verification/Lint.thy ===== *)
theory Lint
  imports Json Ir
begin

text \<open>
  crates/specforge-core/src/lint.rs and lint\_config.rs: the rule configuration and the checks on
  a resolved document. Each check returns the diagnostics it pushes, in order. The set of
  referenced schema names is a set; its \<open>while changed\<close> loop is a function whose
  termination measure is the number of names that properties refer to and that are not marked
  yet. Reading the configuration file is left out (file system).
\<close>

section \<open>Configuration (lint\_config.rs)\<close>

datatype severity = Warning | Error

datatype rule_severity = RError | RWarning | ROff

record lint_rule =
  lr_name :: string
  lr_enabled :: bool
  lr_severity :: rule_severity

type_synonym lint_config = "lint_rule list"

abbreviation rule :: "string \<Rightarrow> bool \<Rightarrow> rule_severity \<Rightarrow> lint_rule" where
  "rule n e s \<equiv> \<lparr>lr_name = n, lr_enabled = e, lr_severity = s\<rparr>"

definition default_config :: lint_config where
  "default_config =
     [rule ''duplicate-operation-ids'' True RError,
      rule ''missing-response-description'' True RWarning,
      rule ''missing-operation-summary'' True RWarning,
      rule ''unused-schema'' True RWarning,
      rule ''missing-operation-id'' True RWarning,
      rule ''missing-schema-description'' False RWarning,
      rule ''path-trailing-slash'' True RWarning,
      rule ''deprecated-operation'' True RWarning]"

definition swagger_editor_profile :: lint_config where
  "swagger_editor_profile =
     [rule ''duplicate-operation-ids'' True RError,
      rule ''missing-response-description'' True RWarning,
      rule ''missing-operation-summary'' True RWarning,
      rule ''unused-schema'' True RWarning,
      rule ''missing-operation-id'' True RError,
      rule ''missing-schema-description'' True RWarning,
      rule ''path-trailing-slash'' True RWarning,
      rule ''deprecated-operation'' True RWarning]"

definition find_rule :: "lint_config \<Rightarrow> string \<Rightarrow> lint_rule option" where
  "find_rule config rule_name = List.find (\<lambda>r. lr_name r = rule_name) config"

definition is_enabled :: "lint_config \<Rightarrow> string \<Rightarrow> bool" where
  "is_enabled config rule_name =
     (case find_rule config rule_name of
        Some r \<Rightarrow> lr_enabled r \<and> lr_severity r \<noteq> ROff
      | None \<Rightarrow> True)"

definition config_severity :: "lint_config \<Rightarrow> string \<Rightarrow> severity" where
  "config_severity config rule_name =
     (case (case find_rule config rule_name of Some r \<Rightarrow> lr_severity r | None \<Rightarrow> RWarning) of
        RError \<Rightarrow> Error
      | RWarning \<Rightarrow> Warning
      | ROff \<Rightarrow> Warning)"

text \<open>\<open>iter_mut().find(\<dots>)\<close>: update the first rule of that name.\<close>

fun update_rule :: "string \<Rightarrow> (lint_rule \<Rightarrow> lint_rule) \<Rightarrow> lint_config \<Rightarrow> lint_config" where
  "update_rule n f [] = []"
| "update_rule n f (r # rs) = (if lr_name r = n then f r # rs else r # update_rule n f rs)"

definition set_enabled :: "lint_config \<Rightarrow> string \<Rightarrow> bool \<Rightarrow> lint_config" where
  "set_enabled config rule_name enabled =
     (if find_rule config rule_name \<noteq> None
      then update_rule rule_name (\<lambda>r. r\<lparr>lr_enabled := enabled\<rparr>) config
      else config @ [rule rule_name enabled RWarning])"

definition set_severity :: "lint_config \<Rightarrow> string \<Rightarrow> rule_severity \<Rightarrow> lint_config" where
  "set_severity config rule_name sev =
     (if find_rule config rule_name \<noteq> None
      then update_rule rule_name (\<lambda>r. r\<lparr>lr_severity := sev\<rparr>) config
      else config @ [rule rule_name (sev \<noteq> ROff) sev])"

section \<open>Checks (lint.rs)\<close>

record diagnostic =
  di_severity :: severity
  di_message :: string
  di_path :: string

abbreviation diag :: "severity \<Rightarrow> string \<Rightarrow> string \<Rightarrow> diagnostic" where
  "diag s m p \<equiv> \<lparr>di_severity = s, di_message = m, di_path = p\<rparr>"

definition diagnostic_str :: "diagnostic \<Rightarrow> string" where
  "diagnostic_str d =
     (case di_severity d of Warning \<Rightarrow> ''warning'' | Error \<Rightarrow> ''error'') @ '': '' @ di_message d
     @ '' ['' @ di_path d @ '']''"

text \<open>The loop of \<open>check_duplicate_operation_ids\<close>, with the first path of every id seen.\<close>

fun duplicate_ids_loop :: "severity \<Rightarrow> operation list \<Rightarrow> (string \<times> string) list \<Rightarrow> diagnostic list" where
  "duplicate_ids_loop sev [] seen = []"
| "duplicate_ids_loop sev (op # ops) seen =
     (case map_of seen (op_operation_id op) of
        Some first_path \<Rightarrow>
          diag sev (''duplicate operationId '' @ debug_str (op_operation_id op)
              @ '' (first seen at '' @ first_path @ '')'')
            (''operations.'' @ op_operation_id op)
          # duplicate_ids_loop sev ops seen
      | None \<Rightarrow> duplicate_ids_loop sev ops ((op_operation_id op, op_path op) # seen))"

definition check_duplicate_operation_ids :: "document \<Rightarrow> lint_config \<Rightarrow> diagnostic list" where
  "check_duplicate_operation_ids doc config =
     duplicate_ids_loop (config_severity config ''duplicate-operation-ids'') (doc_operations doc) []"

definition check_missing_response_descriptions :: "document \<Rightarrow> lint_config \<Rightarrow> diagnostic list" where
  "check_missing_response_descriptions doc config =
     concat (map (\<lambda>op.
       map (\<lambda>resp. diag (config_severity config ''missing-response-description'')
              (''response '' @ resp_status resp @ '' has no description'')
              (''operations.'' @ op_operation_id op @ ''.responses.'' @ resp_status resp))
         (filter (\<lambda>resp. resp_description resp = None) (op_responses op))) (doc_operations doc))"

definition check_missing_operation_summaries :: "document \<Rightarrow> lint_config \<Rightarrow> diagnostic list" where
  "check_missing_operation_summaries doc config =
     map (\<lambda>op. diag (config_severity config ''missing-operation-summary'')
            ''operation has no summary'' (''operations.'' @ op_operation_id op))
       (filter (\<lambda>op. op_summary op = None) (doc_operations doc))"

fun collect_type_refs :: "ir_type \<Rightarrow> string set \<Rightarrow> string set" where
  "collect_type_refs (TReference name _ _) names = insert name names"
| "collect_type_refs (TArray item _) names = collect_type_refs item names"
| "collect_type_refs (TMap value) names = collect_type_refs value names"
| "collect_type_refs (TComposition _ members _) names = fold collect_type_refs members names"
| "collect_type_refs _ names = names"

definition collect_op_refs :: "operation \<Rightarrow> string set \<Rightarrow> string set" where
  "collect_op_refs op names =
     (let n1 = (case op_request_body op of None \<Rightarrow> names | Some body \<Rightarrow> collect_type_refs (rb_ty body) names);
          n2 = fold (\<lambda>param. collect_type_refs (par_ty param)) (op_parameters op) n1
      in fold (\<lambda>resp ns. case resp_body resp of None \<Rightarrow> ns | Some body \<Rightarrow> collect_type_refs body ns)
           (op_responses op) n2)"

text \<open>One step of the \<open>for\<close> loop over the schemas, on the marked names and the \<open>changed\<close> flag.\<close>

definition mark_property :: "property \<Rightarrow> string set \<times> bool \<Rightarrow> string set \<times> bool" where
  "mark_property prop st =
     (case prop_ty prop of
        TReference name _ _ \<Rightarrow> (insert name (fst st), snd st \<or> name \<notin> fst st)
      | _ \<Rightarrow> st)"

definition mark_schema :: "string \<times> model \<Rightarrow> string set \<times> bool \<Rightarrow> string set \<times> bool" where
  "mark_schema entry st =
     (if fst entry \<in> fst st
      then (case snd entry of
              MObject obj \<Rightarrow>
                (let st' = fold mark_property (om_properties obj) st in
                 (case om_shape_type obj of
                    None \<Rightarrow> st'
                  | Some shape \<Rightarrow> (collect_type_refs shape (fst st'), snd st')))
            | MEnum _ \<Rightarrow> st)
      else st)"

definition mark_pass :: "schema_registry \<Rightarrow> string set \<Rightarrow> string set \<times> bool" where
  "mark_pass schemas names = fold mark_schema schemas (names, False)"

text \<open>The names that properties refer to directly: the only ones that set the flag.\<close>

definition property_refs :: "schema_registry \<Rightarrow> string set" where
  "property_refs schemas =
     (\<Union>(n, m) \<in> set schemas. case m of
        MObject obj \<Rightarrow> {r. \<exists>p \<in> set (om_properties obj). \<exists>nl d. prop_ty p = TReference r nl d}
      | MEnum _ \<Rightarrow> {})"

section \<open>The marking loop terminates\<close>

interpretation lint_refs: ref_collector collect_type_refs
  by unfold_locales simp_all

lemmas collect_type_refs_eq = lint_refs.collect_eq

definition direct_refs :: "property list \<Rightarrow> string set" where
  "direct_refs ps = {r. \<exists>p \<in> set ps. \<exists>nl d. prop_ty p = TReference r nl d}"

lemma direct_refs_Cons:
  "direct_refs (p # ps) = (case prop_ty p of TReference r _ _ \<Rightarrow> {r} | _ \<Rightarrow> {}) \<union> direct_refs ps"
  by (auto simp: direct_refs_def split: ir_type.splits)

lemma fold_mark_property:
  "fold mark_property ps st = (fst st \<union> direct_refs ps, snd st \<or> \<not> direct_refs ps \<subseteq> fst st)"
proof (induction ps arbitrary: st)
  case Nil
  show ?case by (simp add: direct_refs_def)
next
  case (Cons p ps)
  then show ?case
    by (cases "prop_ty p") (auto simp: mark_property_def direct_refs_Cons)
qed

lemma finite_direct_refs: "finite (direct_refs ps)"
  by (induction ps) (auto simp: direct_refs_Cons direct_refs_def [of "[]"] split: ir_type.split)

definition schema_refs :: "model \<Rightarrow> string set" where
  "schema_refs m =
     (case m of
        MObject obj \<Rightarrow> direct_refs (om_properties obj) \<union>
          (case om_shape_type obj of None \<Rightarrow> {} | Some shape \<Rightarrow> set (type_refs shape))
      | MEnum _ \<Rightarrow> {})"

definition model_direct_refs :: "model \<Rightarrow> string set" where
  "model_direct_refs m = (case m of MObject obj \<Rightarrow> direct_refs (om_properties obj) | MEnum _ \<Rightarrow> {})"

lemma mark_schema_eq:
  "mark_schema (n, m) st =
     (if n \<in> fst st
      then (fst st \<union> schema_refs m, snd st \<or> \<not> model_direct_refs m \<subseteq> fst st)
      else st)"
  by (auto simp: mark_schema_def schema_refs_def model_direct_refs_def fold_mark_property Let_def
      collect_type_refs_eq split: model.split option.split)

lemma property_refs_eq: "property_refs schemas = (\<Union>(n, m) \<in> set schemas. model_direct_refs m)"
  by (auto simp: property_refs_def model_direct_refs_def direct_refs_def split: model.splits)

lemma finite_property_refs: "finite (property_refs schemas)"
  by (auto simp: property_refs_eq model_direct_refs_def finite_direct_refs split: model.split)

lemma mark_schema_grows: "fst st \<subseteq> fst (mark_schema (n, m) st)"
  by (auto simp: mark_schema_eq)

lemma mark_schema_changed:
  "\<lbrakk>snd (mark_schema (n, m) st); \<not> snd st\<rbrakk> \<Longrightarrow>
   \<exists>r \<in> model_direct_refs m. r \<notin> fst st \<and> r \<in> fst (mark_schema (n, m) st)"
  by (auto simp: mark_schema_eq schema_refs_def model_direct_refs_def split: if_splits model.splits)

lemma fold_mark_schema_grows: "fst st \<subseteq> fst (fold mark_schema schemas st)"
proof (induction schemas arbitrary: st)
  case (Cons e schemas)
  show ?case
    using Cons.IH [of "mark_schema e st"] mark_schema_grows [of st "fst e" "snd e"] by auto
qed simp

lemma fold_mark_schema_changed:
  "\<lbrakk>snd (fold mark_schema schemas st); \<not> snd st\<rbrakk> \<Longrightarrow>
   \<exists>r \<in> property_refs schemas. r \<notin> fst st \<and> r \<in> fst (fold mark_schema schemas st)"
proof (induction schemas arbitrary: st)
  case (Cons e schemas)
  obtain n m where e: "e = (n, m)" by (cases e)
  show ?case
  proof (cases "snd (mark_schema (n, m) st)")
    case True
    with mark_schema_changed Cons.prems(2) obtain r where
      "r \<in> model_direct_refs m" "r \<notin> fst st" "r \<in> fst (mark_schema (n, m) st)" by blast
    with fold_mark_schema_grows [of "mark_schema (n, m) st" schemas] show ?thesis
      by (auto simp: property_refs_eq e)
  next
    case False
    with Cons.IH [of "mark_schema (n, m) st"] Cons.prems(1) obtain r where
      "r \<in> property_refs schemas" "r \<notin> fst (mark_schema (n, m) st)"
      "r \<in> fst (fold mark_schema schemas (mark_schema (n, m) st))"
      by (auto simp: e)
    with mark_schema_grows [of st n m] show ?thesis by (auto simp: property_refs_eq e)
  qed
qed simp

function mark_loop :: "schema_registry \<Rightarrow> string set \<Rightarrow> string set" where
  "mark_loop schemas names =
     (let p = mark_pass schemas names in
      if snd p then mark_loop schemas (fst p) else fst p)"
  by pat_completeness auto
termination
proof (relation "measure (\<lambda>(schemas, names). card (property_refs schemas - names))")
  fix schemas names p
  assume p: "p = mark_pass schemas names" "snd p"
  from fold_mark_schema_grows [of "(names, False)" schemas]
    fold_mark_schema_changed [of schemas "(names, False)"] p
  obtain r where "names \<subseteq> fst p" "r \<in> property_refs schemas" "r \<notin> names" "r \<in> fst p"
    by (auto simp: mark_pass_def)
  then have "property_refs schemas - fst p \<subset> property_refs schemas - names" by blast
  then show "((schemas, fst p), (schemas, names)) \<in> measure (\<lambda>(schemas, names). card (property_refs schemas - names))"
    by (simp add: psubset_card_mono finite_property_refs)
qed simp

declare mark_loop.simps [simp del]

definition collect_referenced_schema_names :: "document \<Rightarrow> string set" where
  "collect_referenced_schema_names doc =
     mark_loop (doc_schemas doc) (fold collect_op_refs (doc_operations doc) {})"

section \<open>The remaining checks\<close>

definition check_unused_schemas :: "document \<Rightarrow> lint_config \<Rightarrow> diagnostic list" where
  "check_unused_schemas doc config =
     (let referenced = collect_referenced_schema_names doc in
      map (\<lambda>name. diag (config_severity config ''unused-schema'')
             (''schema '' @ debug_str name @ '' is not referenced by any operation'') (''schemas.'' @ name))
        (filter (\<lambda>name. name \<notin> referenced) (map fst (doc_schemas doc))))"

definition check_missing_operation_ids :: "document \<Rightarrow> lint_config \<Rightarrow> diagnostic list" where
  "check_missing_operation_ids doc config =
     map (\<lambda>op. diag (config_severity config ''missing-operation-id'')
            (''operation '' @ method_as_str (op_method op) @ '' '' @ op_path op @ '' has no operationId'')
            (''operations.'' @ method_as_str (op_method op) @ ''.'' @ op_path op))
       (filter (\<lambda>op. op_operation_id op = []) (doc_operations doc))"

fun model_description :: "model \<Rightarrow> string option" where
  "model_description (MObject o') = om_description o'"
| "model_description (MEnum e) = em_description e"

definition check_missing_schema_descriptions :: "document \<Rightarrow> lint_config \<Rightarrow> diagnostic list" where
  "check_missing_schema_descriptions doc config =
     map (\<lambda>(name, model). diag (config_severity config ''missing-schema-description'')
            (''schema '' @ debug_str name @ '' has no description'') (''schemas.'' @ name))
       (filter (\<lambda>(name, model). model_description model = None) (doc_schemas doc))"

definition check_path_trailing_slash :: "document \<Rightarrow> lint_config \<Rightarrow> diagnostic list" where
  "check_path_trailing_slash doc config =
     map (\<lambda>op. diag (config_severity config ''path-trailing-slash'')
            (''path '' @ debug_str (op_path op) @ '' has a trailing slash'')
            (''operations.'' @ op_operation_id op))
       (filter (\<lambda>op. 1 < length (op_path op) \<and> ends_with (op_path op) ''/'') (doc_operations doc))"

text \<open>A placeholder in the source: the IR has no flag to look at.\<close>

definition check_deprecated_operations :: "document \<Rightarrow> lint_config \<Rightarrow> diagnostic list" where
  "check_deprecated_operations doc config = []"

text \<open>The rules in the order \<open>lint_with_config\<close> runs them.\<close>

definition lint_with_config :: "document \<Rightarrow> lint_config \<Rightarrow> diagnostic list" where
  "lint_with_config doc config =
     (if is_enabled config ''duplicate-operation-ids'' then check_duplicate_operation_ids doc config else [])
     @ (if is_enabled config ''missing-response-description''
        then check_missing_response_descriptions doc config else [])
     @ (if is_enabled config ''missing-operation-summary''
        then check_missing_operation_summaries doc config else [])
     @ (if is_enabled config ''unused-schema'' then check_unused_schemas doc config else [])
     @ (if is_enabled config ''missing-operation-id'' then check_missing_operation_ids doc config else [])
     @ (if is_enabled config ''missing-schema-description''
        then check_missing_schema_descriptions doc config else [])
     @ (if is_enabled config ''path-trailing-slash'' then check_path_trailing_slash doc config else [])
     @ (if is_enabled config ''deprecated-operation'' then check_deprecated_operations doc config else [])"

definition lint :: "document \<Rightarrow> diagnostic list" where
  "lint doc = lint_with_config doc default_config"

section \<open>Swagger Editor compatibility\<close>

function (sequential) collect_ref_paths :: "json \<Rightarrow> string \<Rightarrow> (string \<times> string) list" where
  "collect_ref_paths (JObject obj) current_path =
     (case Option.bind (map_of obj ''$ref'') as_str of
        Some ref_val \<Rightarrow> [(current_path, ref_val)] | None \<Rightarrow> [])
     @ concat (map (\<lambda>kv. collect_ref_paths (snd kv)
         (if current_path = [] then fst kv else current_path @ ''.'' @ fst kv)) obj)"
| "collect_ref_paths (JArray arr) current_path =
     concat (map (\<lambda>(i, val). collect_ref_paths val (current_path @ ''['' @ show_nat i @ '']''))
       (List.enumerate 0 arr))"
| "collect_ref_paths _ current_path = []"
  by pat_completeness auto
termination
proof (relation "measure (\<lambda>(value, path). json_rank value)")
  fix obj path and kv :: "string \<times> json"
  assume "kv \<in> set obj"
  then show "((snd kv, if path = [] then fst kv else path @ ''.'' @ fst kv), JObject obj, path)
      \<in> measure (\<lambda>(value, path). json_rank value)"
    using json_rank_object [of "fst kv" "snd kv" obj] by (simp del: json_rank.simps)
next
  fix arr path and iv :: "nat \<times> json" and i val
  assume "iv \<in> set (List.enumerate 0 arr)" and "(i, val) = iv"
  then have "val \<in> set arr" using enumerate_elem by force
  then show "((val, path @ ''['' @ show_nat i @ '']''), JArray arr, path)
      \<in> measure (\<lambda>(value, path). json_rank value)"
    using json_rank_array by (simp del: json_rank.simps)
qed simp

definition check_external_refs :: "json \<Rightarrow> diagnostic list" where
  "check_external_refs spec =
     concat (map (\<lambda>(path, reference).
       if \<not> starts_with reference ''#/''
       then [diag Error (''external $ref not supported by Swagger Editor: '' @ debug_str reference)
               (trim_start_matches (CHR ''.'') path)]
       else if \<not> starts_with reference ''#/components/''
       then [diag Warning (''$ref outside components may not resolve in Swagger Editor: '' @ debug_str reference)
               (trim_start_matches (CHR ''.'') path)]
       else []) (collect_ref_paths spec []))"

definition lint_swagger_editor :: "document \<Rightarrow> json option \<Rightarrow> diagnostic list" where
  "lint_swagger_editor doc raw_spec =
     lint_with_config doc swagger_editor_profile
     @ (case raw_spec of None \<Rightarrow> [] | Some spec \<Rightarrow> check_external_refs spec)"

section \<open>Configuration laws\<close>

lemma find_rule_update:
  "find_rule (update_rule n f config) m =
     (if m = n then map_option f (find_rule config n) else find_rule config m)"
  if "\<And>r. lr_name (f r) = lr_name r"
  using that by (induction config) (auto simp: find_rule_def)

lemma find_rule_snoc:
  "find_rule (config @ [r]) m =
     (case find_rule config m of Some q \<Rightarrow> Some q | None \<Rightarrow> if lr_name r = m then Some r else None)"
  by (induction config) (auto simp: find_rule_def)

text \<open>
  Overriding a rule affects that rule only: after \<open>set_enabled\<close> the rule is enabled exactly
  when asked for and its severity is not off, and \<open>set_severity\<close> sets the severity reported for
  it; every other rule keeps its state.
\<close>

theorem lint_config_overrides:
  "is_enabled (set_enabled config r e) r' =
     (if r' = r then e \<and> (\<forall>q. find_rule config r = Some q \<longrightarrow> lr_severity q \<noteq> ROff)
      else is_enabled config r') \<and>
   config_severity (set_enabled config r e) r' = config_severity config r' \<and>
   config_severity (set_severity config r s) r' =
     (if r' = r then (if s = RError then Error else Warning) else config_severity config r') \<and>
   (is_enabled (set_severity config r s) r \<longrightarrow> s \<noteq> ROff)"
proof -
  have n: "lr_name (r\<lparr>lr_enabled := b\<rparr>) = lr_name r" "lr_name (r\<lparr>lr_severity := x\<rparr>) = lr_name r"
    for r :: lint_rule and b x
    by simp_all
  note find = find_rule_update [OF n(1)] find_rule_update [OF n(2)] find_rule_snoc
  have "is_enabled (set_enabled config r e) r' =
     (if r' = r then e \<and> (\<forall>q. find_rule config r = Some q \<longrightarrow> lr_severity q \<noteq> ROff)
      else is_enabled config r')"
    by (auto simp: is_enabled_def set_enabled_def find split: option.split)
  moreover have "config_severity (set_enabled config r e) r' = config_severity config r'"
    by (auto simp: config_severity_def set_enabled_def find split: option.split rule_severity.split)
  moreover have "config_severity (set_severity config r s) r' =
     (if r' = r then (if s = RError then Error else Warning) else config_severity config r')"
    by (cases s) (auto simp: config_severity_def set_severity_def find split: option.split)
  moreover have "is_enabled (set_severity config r s) r \<longrightarrow> s \<noteq> ROff"
    by (auto simp: is_enabled_def set_severity_def find split: option.splits)
  ultimately show ?thesis by blast
qed

theorem lint_config_overrides_witness:
  "is_enabled default_config ''unused-schema'' \<and>
   \<not> is_enabled (set_enabled default_config ''unused-schema'' False) ''unused-schema'' \<and>
   is_enabled (set_enabled default_config ''unused-schema'' False) ''missing-operation-id''"
proof -
  have "is_enabled default_config ''unused-schema''" "is_enabled default_config ''missing-operation-id''"
    by code_simp+
  with lint_config_overrides [of default_config "''unused-schema''" False]
  show ?thesis by simp
qed

section \<open>Duplicate operation ids\<close>

lemma duplicate_ids_loop_length:
  "length (duplicate_ids_loop sev ops seen) + card (set (map op_operation_id ops) - fst ` set seen) =
     length ops"
proof (induction ops arbitrary: seen)
  case (Cons op ops)
  let ?i = "op_operation_id op" and ?S = "set (map op_operation_id ops)"
  show ?case
  proof (cases "map_of seen ?i")
    case None
    then have "?i \<notin> fst ` set seen" by (simp add: map_of_eq_None_iff)
    then have "set (map op_operation_id (op # ops)) - fst ` set seen =
        insert ?i (?S - insert ?i (fst ` set seen))"
      by auto
    then have "card (set (map op_operation_id (op # ops)) - fst ` set seen) =
        Suc (card (?S - insert ?i (fst ` set seen)))"
      by simp
    with None Cons.IH [of "(?i, op_path op) # seen"] show ?thesis by simp
  next
    case (Some p)
    then have "?i \<in> fst ` set seen" by (force dest: map_of_SomeD)
    then have "set (map op_operation_id (op # ops)) - fst ` set seen = ?S - fst ` set seen" by auto
    with Some Cons.IH [of seen] show ?thesis by simp
  qed
qed simp

text \<open>
  The duplicate-id check reports one diagnostic per operation beyond the first of its id;
  in particular it is silent exactly when all operation ids differ.
\<close>

theorem duplicate_ids_exact:
  "length (check_duplicate_operation_ids doc config) + card (op_operation_id ` set (doc_operations doc)) =
     length (doc_operations doc) \<and>
   (check_duplicate_operation_ids doc config = [] \<longleftrightarrow> distinct (map op_operation_id (doc_operations doc)))"
proof -
  have len: "length (check_duplicate_operation_ids doc config) + card (op_operation_id ` set (doc_operations doc)) =
      length (doc_operations doc)"
    using duplicate_ids_loop_length [of _ "doc_operations doc" "[]"]
    by (simp add: check_duplicate_operation_ids_def)
  then have "check_duplicate_operation_ids doc config = [] \<longleftrightarrow>
      card (set (map op_operation_id (doc_operations doc))) = length (map op_operation_id (doc_operations doc))"
    by auto
  also have "\<dots> \<longleftrightarrow> distinct (map op_operation_id (doc_operations doc))"
    using card_distinct distinct_card by blast
  finally show ?thesis using len by blast
qed

section \<open>Unused schemas\<close>

text \<open>What is reachable from the operations, through any reference of a model.\<close>

definition op_refs :: "operation \<Rightarrow> string set" where
  "op_refs op =
     (case op_request_body op of None \<Rightarrow> {} | Some b \<Rightarrow> set (type_refs (rb_ty b))) \<union>
     (\<Union>p \<in> set (op_parameters op). set (type_refs (par_ty p))) \<union>
     (\<Union>r \<in> set (op_responses op). case resp_body r of None \<Rightarrow> {} | Some b \<Rightarrow> set (type_refs b))"

inductive_set reachable :: "document \<Rightarrow> string set" for doc where
  from_op: "op \<in> set (doc_operations doc) \<Longrightarrow> r \<in> op_refs op \<Longrightarrow> r \<in> reachable doc"
| from_schema: "n \<in> reachable doc \<Longrightarrow> (n, m) \<in> set (doc_schemas doc) \<Longrightarrow> r \<in> schema_refs m \<Longrightarrow>
    r \<in> reachable doc"

lemma collect_op_refs_eq: "collect_op_refs op names = names \<union> op_refs op"
  by (auto simp: collect_op_refs_def Let_def op_refs_def lint_refs.fold_collect_eq
      lint_refs.fold_collect_opt_eq lint_refs.collect_eq split: option.splits)

lemma fold_collect_op_refs: "fold collect_op_refs ops names = names \<union> (\<Union>op \<in> set ops. op_refs op)"
  by (induction ops arbitrary: names) (auto simp: collect_op_refs_eq)

lemma mark_pass_sound:
  assumes "\<And>n m r. n \<in> R \<Longrightarrow> (n, m) \<in> set schemas \<Longrightarrow> r \<in> schema_refs m \<Longrightarrow> r \<in> R" and "fst st \<subseteq> R"
  shows "fst (fold mark_schema schemas st) \<subseteq> R"
  using assms
proof (induction schemas arbitrary: st)
  case (Cons e schemas)
  obtain n m where e: "e = (n, m)" by (cases e)
  have "fst (mark_schema (n, m) st) \<subseteq> R"
    using Cons.prems(1) [of n m] Cons.prems(2) by (auto simp: mark_schema_eq e)
  with Cons.IH [of "mark_schema (n, m) st"] Cons.prems(1) show ?case by (auto simp: e)
qed simp

lemma mark_loop_sound:
  "\<lbrakk>names \<subseteq> R; \<And>n m r. n \<in> R \<Longrightarrow> (n, m) \<in> set schemas \<Longrightarrow> r \<in> schema_refs m \<Longrightarrow> r \<in> R\<rbrakk> \<Longrightarrow>
   mark_loop schemas names \<subseteq> R"
proof (induction schemas names rule: mark_loop.induct)
  case (1 schemas names)
  have "fst (mark_pass schemas names) \<subseteq> R"
    unfolding mark_pass_def using 1(2,3) by (intro mark_pass_sound) auto
  with 1 show ?case by (subst mark_loop.simps) (simp add: Let_def)
qed

lemma mark_loop_grows: "names \<subseteq> mark_loop schemas names"
proof (induction schemas names rule: mark_loop.induct)
  case (1 schemas names)
  have "names \<subseteq> fst (mark_pass schemas names)"
    unfolding mark_pass_def using fold_mark_schema_grows [of "(names, False)" schemas] by simp
  with 1 show ?case by (subst mark_loop.simps) (auto simp: Let_def)
qed

lemma collect_referenced_sound: "collect_referenced_schema_names doc \<subseteq> reachable doc"
  unfolding collect_referenced_schema_names_def fold_collect_op_refs
  by (rule mark_loop_sound) (auto intro: reachable.intros)

text \<open>
  The unused-schema rule misses nothing: every schema that no chain of references connects
  to an operation is reported. It never reports a schema an operation refers to itself.
\<close>

theorem unused_schemas_reported:
  "(\<forall>name \<in> fst ` set (doc_schemas doc). name \<notin> reachable doc \<longrightarrow>
      ''schemas.'' @ name \<in> di_path ` set (check_unused_schemas doc config)) \<and>
   (\<forall>op \<in> set (doc_operations doc). \<forall>name \<in> op_refs op.
      ''schemas.'' @ name \<notin> di_path ` set (check_unused_schemas doc config))"
proof -
  have paths: "''schemas.'' @ name \<in> di_path ` set (check_unused_schemas doc config) \<longleftrightarrow>
      name \<in> fst ` set (doc_schemas doc) \<and> name \<notin> collect_referenced_schema_names doc" for name
    by (force simp: check_unused_schemas_def Let_def)
  have "name \<in> collect_referenced_schema_names doc"
    if "op \<in> set (doc_operations doc)" "name \<in> op_refs op" for op name
  proof -
    have "name \<in> {} \<union> (\<Union>op \<in> set (doc_operations doc). op_refs op)" using that by blast
    then show ?thesis
      unfolding collect_referenced_schema_names_def fold_collect_op_refs
      by (rule subsetD [OF mark_loop_grows])
  qed
  with paths collect_referenced_sound show ?thesis by blast
qed

text \<open>
  The converse fails: references reached through a shape do not set the \<open>changed\<close> flag, so the
  loop can stop before an earlier schema's properties are followed.
\<close>

definition ref_to :: "string \<Rightarrow> ir_type" where
  "ref_to n = TReference n False None"

definition obj_model :: "string \<Rightarrow> property list \<Rightarrow> ir_type option \<Rightarrow> model" where
  "obj_model n ps shape = MObject
     \<lparr>om_name = n, om_description = None, om_properties = ps, om_additional_properties = None,
      om_shape_type = shape, om_base_type = None\<rparr>"

definition get_op :: "string \<Rightarrow> ir_type \<Rightarrow> operation" where
  "get_op i t =
     \<lparr>op_operation_id = i, op_method = Get, op_path = ''/'' @ i, op_tag = None, op_summary = None,
      op_description = None, op_parameters = [], op_request_body = None,
      op_responses = [\<lparr>resp_status = ''200'', resp_description = None, resp_body = Some t\<rparr>],
      op_retry_policy = None\<rparr>"

text \<open>An operation returns A, the alias A is an array of B, and B has a property of type C.\<close>

definition chain_doc :: document where
  "chain_doc =
     \<lparr>doc_ir_version = IR_VERSION, doc_title = [], doc_version = [], doc_base_url = None, doc_security = [],
      doc_schemas =
        [(''B'', obj_model ''B'' [\<lparr>prop_name = ''c'', prop_ty = ref_to ''C'', prop_required = True,
            prop_description = None\<rparr>] (Some TAny)),
         (''A'', obj_model ''A'' [] (Some (TArray (ref_to ''B'') False))),
         (''C'', obj_model ''C'' [] (Some TAny))],
      doc_operations = [get_op ''a'' (ref_to ''A'')], doc_webhooks = []\<rparr>"

text \<open>
  The unused-schema rule can report a schema that is in use: C is reachable from the
  operation through A and B, and is reported nevertheless.
\<close>

theorem unused_schema_false_alarm:
  "''C'' \<in> reachable chain_doc \<and>
   ''schemas.C'' \<in> di_path ` set (check_unused_schemas chain_doc default_config)"
proof
  have "''A'' \<in> reachable chain_doc"
    by (rule reachable.from_op [of "get_op ''a'' (ref_to ''A'')"])
      (simp_all add: chain_doc_def get_op_def op_refs_def ref_to_def)
  then have "''B'' \<in> reachable chain_doc"
    by (rule reachable.from_schema [of _ _ "obj_model ''A'' [] (Some (TArray (ref_to ''B'') False))"])
      (simp_all add: chain_doc_def schema_refs_def obj_model_def ref_to_def)
  then show "''C'' \<in> reachable chain_doc"
    by (rule reachable.from_schema [of _ _ "obj_model ''B'' [\<lparr>prop_name = ''c'', prop_ty = ref_to ''C'',
        prop_required = True, prop_description = None\<rparr>] (Some TAny)"])
      (auto simp: chain_doc_def schema_refs_def obj_model_def ref_to_def direct_refs_def)
  have "''C'' \<notin> collect_referenced_schema_names chain_doc" by code_simp
  then show "''schemas.C'' \<in> di_path ` set (check_unused_schemas chain_doc default_config)"
    by (force simp: check_unused_schemas_def Let_def chain_doc_def)
qed

theorem unused_schemas_reported_witness:
  "''schemas.A'' \<in> di_path ` set (check_unused_schemas (chain_doc\<lparr>doc_operations := []\<rparr>) default_config) \<and>
   ''schemas.A'' \<notin> di_path ` set (check_unused_schemas chain_doc default_config)"
proof
  let ?doc = "chain_doc\<lparr>doc_operations := []\<rparr>"
  have "n \<notin> reachable ?doc" for n
  proof
    assume "n \<in> reachable ?doc"
    then show False by induction auto
  qed
  then have "''A'' \<notin> reachable ?doc" .
  moreover have "''A'' \<in> fst ` set (doc_schemas ?doc)" by (simp add: chain_doc_def)
  ultimately show "''schemas.A'' \<in> di_path ` set (check_unused_schemas ?doc default_config)"
    using unused_schemas_reported [of ?doc default_config] by auto
  have "get_op ''a'' (ref_to ''A'') \<in> set (doc_operations chain_doc)" by (simp add: chain_doc_def)
  moreover have "''A'' \<in> op_refs (get_op ''a'' (ref_to ''A''))"
    by (simp add: get_op_def op_refs_def ref_to_def)
  ultimately show "''schemas.A'' \<notin> di_path ` set (check_unused_schemas chain_doc default_config)"
    using unused_schemas_reported [of chain_doc default_config] by fastforce
qed

section \<open>External references\<close>

lemma collect_ref_paths_snd:
  "(\<forall>(p, r) \<in> set (collect_ref_paths j path). P r) \<longleftrightarrow>
     all_objects (\<lambda>m. \<forall>r. map_of m ''$ref'' = Some (JString r) \<longrightarrow> P r) j"
proof (induction j path rule: collect_ref_paths.induct)
  case (1 obj path)
  have "(\<forall>(p, r) \<in> set (case Option.bind (map_of obj ''$ref'') as_str of Some v \<Rightarrow> [(path, v)] | None \<Rightarrow> []). P r)
      \<longleftrightarrow> (\<forall>r. map_of obj ''$ref'' = Some (JString r) \<longrightarrow> P r)"
  proof (cases "map_of obj ''$ref''")
    case (Some v)
    then show ?thesis by (cases v) simp_all
  qed simp
  with 1 show ?case
    by (auto simp: values_sat_def ball_Un)
next
  case (2 arr path)
  have "(\<forall>(p, r) \<in> set (collect_ref_paths (JArray arr) path). P r) \<longleftrightarrow>
      (\<forall>iv \<in> set (List.enumerate 0 arr).
         all_objects (\<lambda>m. \<forall>r. map_of m ''$ref'' = Some (JString r) \<longrightarrow> P r) (snd iv))"
    using 2 by fastforce
  also have "\<dots> \<longleftrightarrow> (\<forall>v \<in> snd ` set (List.enumerate 0 arr).
         all_objects (\<lambda>m. \<forall>r. map_of m ''$ref'' = Some (JString r) \<longrightarrow> P r) v)"
    by blast
  finally show ?case by (simp add: set_enumerate_snd list_all_iff)
qed simp_all

text \<open>
  The Swagger Editor check raises an error exactly when some object of the raw spec has a
  \<open>$ref\<close> string that does not start with \<open>#/\<close>, and says nothing exactly when all of them
  start with \<open>#/components/\<close>.
\<close>

theorem external_refs_exact:
  "((\<forall>d \<in> set (check_external_refs spec). di_severity d \<noteq> Error) \<longleftrightarrow>
      all_objects (\<lambda>m. \<forall>r. map_of m ''$ref'' = Some (JString r) \<longrightarrow> starts_with r ''#/'') spec) \<and>
   (check_external_refs spec = [] \<longleftrightarrow>
      all_objects (\<lambda>m. \<forall>r. map_of m ''$ref'' = Some (JString r) \<longrightarrow> starts_with r ''#/components/'') spec)"
proof
  have "starts_with r ''#/''" if "starts_with r ''#/components/''" for r
    using that by (auto simp: starts_with_iff)
  then show "check_external_refs spec = [] \<longleftrightarrow>
      all_objects (\<lambda>m. \<forall>r. map_of m ''$ref'' = Some (JString r) \<longrightarrow> starts_with r ''#/components/'') spec"
    unfolding collect_ref_paths_snd [of spec "[]", symmetric]
    by (fastforce simp: check_external_refs_def split: if_splits)
  show "(\<forall>d \<in> set (check_external_refs spec). di_severity d \<noteq> Error) \<longleftrightarrow>
      all_objects (\<lambda>m. \<forall>r. map_of m ''$ref'' = Some (JString r) \<longrightarrow> starts_with r ''#/'') spec"
    unfolding collect_ref_paths_snd [of spec "[]", symmetric]
    by (fastforce simp: check_external_refs_def split: if_splits)
qed

theorem external_refs_exact_witness:
  "\<exists>d \<in> set (check_external_refs (JObject [(''$ref'', JString ''other.yaml'')])). di_severity d = Error"
  using external_refs_exact [of "JObject [(''$ref'', JString ''other.yaml'')]"]
  by (simp add: starts_with_def)

end
