(* ===== verification/Versioning.thy ===== *)
theory Versioning
  imports Ir
begin

text \<open>
  crates/specforge-core/src/versioning.rs: adding an API version to every operation of a
  document, as a path prefix, a header parameter or a query parameter. The in-place loops over
  \<open>doc.operations\<close> are maps over the list.
\<close>

datatype version_strategy = UrlPath | Header | QueryParam | NoVersioning

record versioning_config =
  vc_strategy :: version_strategy
  vc_prefix :: "string option"
  vc_header_name :: "string option"

definition version_path :: "string \<Rightarrow> operation \<Rightarrow> operation" where
  "version_path prefix_path op =
     (if \<not> starts_with (op_path op) prefix_path then op\<lparr>op_path := prefix_path @ op_path op\<rparr> else op)"

definition version_header :: "string \<Rightarrow> operation \<Rightarrow> operation" where
  "version_header header_name op =
     (if list_ex (\<lambda>p. to_lowercase (par_name p) = to_lowercase header_name \<and> par_location p = InHeader)
           (op_parameters op)
      then op
      else op\<lparr>op_parameters := op_parameters op @
             [\<lparr>par_name = header_name, par_location = InHeader, par_ty = TScalar ScString,
               par_required = True, par_description = Some ''API version''\<rparr>]\<rparr>)"

definition version_query :: "string \<Rightarrow> operation \<Rightarrow> operation" where
  "version_query param_name op =
     (if list_ex (\<lambda>p. par_name p = param_name \<and> par_location p = InQuery) (op_parameters op)
      then op
      else op\<lparr>op_parameters := op_parameters op @
             [\<lparr>par_name = param_name, par_location = InQuery, par_ty = TScalar ScString,
               par_required = False, par_description = Some ''API version''\<rparr>]\<rparr>)"

definition version_operation :: "versioning_config \<Rightarrow> operation \<Rightarrow> operation" where
  "version_operation config op =
     (case vc_strategy config of
        UrlPath \<Rightarrow>
          (case vc_prefix config of None \<Rightarrow> op | Some prefix \<Rightarrow> version_path (''/'' @ prefix) op)
      | Header \<Rightarrow>
          version_header (case vc_header_name config of None \<Rightarrow> ''API-Version'' | Some h \<Rightarrow> h) op
      | QueryParam \<Rightarrow>
          version_query (case vc_prefix config of None \<Rightarrow> ''version'' | Some p \<Rightarrow> p) op
      | NoVersioning \<Rightarrow> op)"

definition apply_versioning :: "document \<Rightarrow> versioning_config \<Rightarrow> document" where
  "apply_versioning doc config =
     doc\<lparr>doc_operations := map (version_operation config) (doc_operations doc)\<rparr>"

lemma version_path_idem: "version_path p (version_path p op) = version_path p op"
  by (simp add: version_path_def)

lemma version_header_idem: "version_header h (version_header h op) = version_header h op"
  by (simp add: version_header_def)

lemma version_query_idem: "version_query n (version_query n op) = version_query n op"
  by (simp add: version_query_def)

lemma version_operation_idem:
  "version_operation config (version_operation config op) = version_operation config op"
  by (simp add: version_operation_def version_path_idem version_header_idem version_query_idem
      split: version_strategy.split option.split)

text \<open>
  Applying a versioning configuration twice is the same as applying it once, and it changes
  nothing outside the operations, nor their number, ids, methods and bodies.
\<close>

theorem apply_versioning_idempotent:
  "apply_versioning (apply_versioning doc config) config = apply_versioning doc config \<and>
   (apply_versioning doc config)\<lparr>doc_operations := []\<rparr> = doc\<lparr>doc_operations := []\<rparr> \<and>
   map (\<lambda>op. op\<lparr>op_path := [], op_parameters := []\<rparr>) (doc_operations (apply_versioning doc config)) =
     map (\<lambda>op. op\<lparr>op_path := [], op_parameters := []\<rparr>) (doc_operations doc)"
proof -
  have "(version_operation config op)\<lparr>op_path := [], op_parameters := []\<rparr> =
      op\<lparr>op_path := [], op_parameters := []\<rparr>" for op
    by (simp add: version_operation_def version_path_def version_header_def version_query_def
        split: version_strategy.split option.split)
  then show ?thesis
    by (simp add: apply_versioning_def version_operation_idem comp_def)
qed

text \<open>
  With a path prefix every operation's path starts with the prefix afterwards; with a header
  or a query parameter every operation has that parameter.
\<close>

theorem apply_versioning_effect:
  assumes "op \<in> set (doc_operations (apply_versioning doc config))"
  shows "case vc_strategy config of
      UrlPath \<Rightarrow> (\<forall>p. vc_prefix config = Some p \<longrightarrow> starts_with (op_path op) (''/'' @ p))
    | Header \<Rightarrow> (\<exists>p \<in> set (op_parameters op). par_location p = InHeader \<and>
        to_lowercase (par_name p) =
          to_lowercase (case vc_header_name config of None \<Rightarrow> ''API-Version'' | Some h \<Rightarrow> h))
    | QueryParam \<Rightarrow> (\<exists>p \<in> set (op_parameters op). par_location p = InQuery \<and>
        par_name p = (case vc_prefix config of None \<Rightarrow> ''version'' | Some p \<Rightarrow> p))
    | NoVersioning \<Rightarrow> op \<in> set (doc_operations doc)"
proof -
  obtain o' where o': "o' \<in> set (doc_operations doc)" and op: "op = version_operation config o'"
    using assms by (auto simp: apply_versioning_def)
  have path: "starts_with (op_path (version_path q o')) q" for q
    by (simp add: version_path_def)
  have header: "\<exists>p \<in> set (op_parameters (version_header h o')). par_location p = InHeader \<and>
      to_lowercase (par_name p) = to_lowercase h" for h
    by (auto simp: version_header_def list_ex_iff)
  have query: "\<exists>p \<in> set (op_parameters (version_query n o')). par_location p = InQuery \<and> par_name p = n" for n
    by (auto simp: version_query_def list_ex_iff)
  show ?thesis
    using o' path header query
    by (cases "vc_strategy config") (simp_all add: op version_operation_def split: option.split)
qed

definition plain_op :: "string \<Rightarrow> operation" where
  "plain_op path =
     \<lparr>op_operation_id = ''x'', op_method = Get, op_path = path, op_tag = None, op_summary = None,
      op_description = None, op_parameters = [], op_request_body = None, op_responses = [],
      op_retry_policy = None\<rparr>"

definition plain_doc :: "string \<Rightarrow> document" where
  "plain_doc path =
     \<lparr>doc_ir_version = IR_VERSION, doc_title = [], doc_version = [], doc_base_url = None,
      doc_security = [], doc_schemas = [], doc_operations = [plain_op path], doc_webhooks = []\<rparr>"

definition v1_config :: versioning_config where
  "v1_config = \<lparr>vc_strategy = UrlPath, vc_prefix = Some ''v1'', vc_header_name = None\<rparr>"

theorem apply_versioning_effect_witness:
  "\<exists>op. doc_operations (apply_versioning (plain_doc ''/pets'') v1_config) = [op] \<and>
     op_path op = ''/v1/pets'' \<and> starts_with (op_path op) ''/v1''"
proof -
  obtain op where op: "doc_operations (apply_versioning (plain_doc ''/pets'') v1_config) = [op]"
    "op_path op = ''/v1/pets''"
    by (rule that [of "hd (doc_operations (apply_versioning (plain_doc ''/pets'') v1_config))"]) code_simp+
  with apply_versioning_effect [of op "plain_doc ''/pets''" v1_config] have
    "starts_with (op_path op) (''/'' @ ''v1'')"
    by (simp add: v1_config_def)
  with op show ?thesis by simp
qed

text \<open>The prefix test is on characters, not on path segments: \<open>/v10/pets\<close> is left without \<open>/v1\<close>.\<close>

lemma prefix_test_ignores_segments:
  "map op_path (doc_operations (apply_versioning (plain_doc ''/v10/pets'') v1_config)) = [''/v10/pets'']"
  by code_simp

end
