(* ===== verification/Security.thy ===== *)
theory Security
  imports Resolve
begin

text \<open>
  crates/specforge-core/src/security.rs: the security report of a document, from the IR alone and
  with the OpenAPI spec at hand. Strings are built as the source's \<open>format!\<close> calls do; the
  \<open>HashSet\<close> of schemes in use is only asked for its size and for membership.
\<close>

section \<open>Reports\<close>

record scheme_info =
  si_name :: string
  si_kind :: string
  si_header :: "string option"
  si_bearer_format :: "string option"

record operation_security =
  os_operation_id :: string
  os_method :: string
  os_path :: string
  os_requires_auth :: bool
  os_scheme :: "string option"
  os_has_override :: bool

record security_issue =
  iss_severity :: string
  iss_message :: string
  iss_path :: string

record security_report =
  sr_schemes :: "scheme_info list"
  sr_operations :: "operation_security list"
  sr_issues :: "security_issue list"

abbreviation issue :: "string \<Rightarrow> string \<Rightarrow> string \<Rightarrow> security_issue" where
  "issue s m p \<equiv> \<lparr>iss_severity = s, iss_message = m, iss_path = p\<rparr>"

fun scheme_info_from_ir :: "security_scheme \<Rightarrow> scheme_info" where
  "scheme_info_from_ir HttpBearer =
     \<lparr>si_name = ''BearerAuth'', si_kind = ''bearer'', si_header = Some ''Authorization'',
      si_bearer_format = None\<rparr>"
| "scheme_info_from_ir (ApiKey header) =
     \<lparr>si_name = ''ApiKey('' @ header @ '')'', si_kind = ''apikey'', si_header = Some header,
      si_bearer_format = None\<rparr>"

fun scheme_info_from_raw :: "string \<Rightarrow> oapi_security_scheme \<Rightarrow> scheme_info" where
  "scheme_info_from_raw name (SchemeHttp scheme bearer_format) =
     \<lparr>si_name = name, si_kind = to_lowercase scheme,
      si_header = (if eq_ignore_ascii_case scheme ''bearer'' then Some ''Authorization'' else None),
      si_bearer_format = bearer_format\<rparr>"
| "scheme_info_from_raw name (SchemeApiKey _ kn) =
     \<lparr>si_name = name, si_kind = ''apikey'', si_header = Some kn, si_bearer_format = None\<rparr>"
| "scheme_info_from_raw name (SchemeOAuth2 _) =
     \<lparr>si_name = name, si_kind = ''oauth2'', si_header = None, si_bearer_format = None\<rparr>"
| "scheme_info_from_raw name SchemeOpenIdConnect =
     \<lparr>si_name = name, si_kind = ''openidconnect'', si_header = None, si_bearer_format = None\<rparr>"

fun scheme_label :: "security_scheme \<Rightarrow> string" where
  "scheme_label HttpBearer = ''bearer''"
| "scheme_label (ApiKey header) = ''apikey ('' @ header @ '')''"

definition extract_scheme_names :: "security_requirement list option \<Rightarrow> string list" where
  "extract_scheme_names security =
     (case security of None \<Rightarrow> [] | Some reqs \<Rightarrow> concat (map (map fst) reqs))"

definition op_key :: "string \<Rightarrow> string \<Rightarrow> string" where
  "op_key method path = to_uppercase method @ '' '' @ path"

definition build_op_security_map ::
  "oapi_spec \<Rightarrow> (string \<times> security_requirement list option) list" where
  "build_op_security_map spec =
     bt_insert_all
       (concat (map (\<lambda>(path, item_or).
          (case item_or of
             Item item \<Rightarrow>
               List.map_filter (\<lambda>(m, op_opt).
                 map_option (\<lambda>op. (to_uppercase m @ '' '' @ path, oop_security op)) op_opt)
                 [(''get'', pi_get item), (''post'', pi_post item), (''put'', pi_put item),
                  (''patch'', pi_patch item), (''delete'', pi_delete item), (''head'', pi_head item),
                  (''options'', pi_options item)]
           | Reference _ \<Rightarrow> [])) (spec_paths spec))) []"

definition analyze_common_issues ::
  "scheme_info list \<Rightarrow> operation_security list \<Rightarrow> security_issue list" where
  "analyze_common_issues schemes operations =
     (if schemes = []
      then [issue ''warning'' ''No security schemes defined in the specification'' ''/''] else [])
     @ map (\<lambda>op. issue ''warning''
              (''Write operation '' @ os_method op @ '' '' @ os_path op @ '' does not require authentication'')
              (os_path op))
         (filter (\<lambda>op. os_method op \<in> {''POST'', ''PUT'', ''PATCH'', ''DELETE''} \<and> \<not> os_requires_auth op)
            operations)
     @ (if 1 < length (remdups (map os_scheme (filter os_requires_auth operations)))
        then [issue ''info'' ''Operations use mixed authentication schemes'' ''/''] else [])"

definition analyze_detailed_issues ::
  "oapi_spec \<Rightarrow> operation_security list \<Rightarrow> string list \<Rightarrow> security_issue list" where
  "analyze_detailed_issues spec operations global_names =
     (let used = List.map_filter os_scheme (filter os_requires_auth operations) in
      map (\<lambda>op. issue ''info''
             (''Operation '' @ os_method op @ '' '' @ os_path op @ '' explicitly disables authentication'')
             (os_path op))
        (filter (\<lambda>op. os_has_override op \<and> \<not> os_requires_auth op) operations)
      @ (case spec_components spec of
           None \<Rightarrow> []
         | Some comps \<Rightarrow>
             concat (map (\<lambda>(name, scheme_or).
               (case scheme_or of
                  Item _ \<Rightarrow>
                    if name \<notin> set used \<and> name \<notin> set global_names
                    then [issue ''info''
                            (''Security scheme '' @ [CHR 39] @ name @ [CHR 39]
                              @ '' is defined but not referenced by any operation'')
                            (''/components/securitySchemes/'' @ name)]
                    else []
                | Reference _ \<Rightarrow> [])
               @ (case scheme_or of
                    Item (SchemeOAuth2 flows) \<Rightarrow>
                      if \<not> fl_implicit flows \<and> \<not> fl_password flows \<and> \<not> fl_client_credentials flows
                         \<and> \<not> fl_authorization_code flows
                      then [issue ''warning''
                              (''OAuth2 scheme '' @ [CHR 39] @ name @ [CHR 39] @ '' has no configured flows'')
                              (''/components/securitySchemes/'' @ name)]
                      else []
                  | _ \<Rightarrow> [])) (co_security_schemes comps)))
      @ (case spec_components spec of
           None \<Rightarrow> []
         | Some comps \<Rightarrow>
             map (\<lambda>name. issue ''error''
                    (''Global security references undefined scheme '' @ [CHR 39] @ name @ [CHR 39]) ''/security'')
               (filter (\<lambda>name. \<not> contains_key (co_security_schemes comps) name) global_names)))"

definition analyze_security :: "document \<Rightarrow> security_report" where
  "analyze_security doc =
     (let schemes = map scheme_info_from_ir (doc_security doc);
          has_global_auth = (doc_security doc \<noteq> []);
          operations = map (\<lambda>op.
            \<lparr>os_operation_id = op_operation_id op, os_method = method_as_str (op_method op),
             os_path = op_path op, os_requires_auth = has_global_auth,
             os_scheme = (case doc_security doc of [] \<Rightarrow> None | s # _ \<Rightarrow> Some (scheme_label s)),
             os_has_override = False\<rparr>) (doc_operations doc)
      in \<lparr>sr_schemes = schemes, sr_operations = operations,
          sr_issues = analyze_common_issues schemes operations\<rparr>)"

definition first_opt :: "'a list \<Rightarrow> 'a option" where
  "first_opt xs = (case xs of [] \<Rightarrow> None | x # _ \<Rightarrow> Some x)"

text \<open>The \<open>match\<close> on the operation's own security: requires auth, scheme, has an override.\<close>

definition op_auth ::
  "security_requirement list option option \<Rightarrow> string list \<Rightarrow> bool \<times> string option \<times> bool" where
  "op_auth entry global_names =
     (case entry of
        Some (Some r) \<Rightarrow>
          if r = [] then (False, None, True)
          else (True, first_opt (concat (map (map fst) r)), True)
      | _ \<Rightarrow> (global_names \<noteq> [], first_opt global_names, False))"

definition analyze_security_detailed :: "document \<Rightarrow> oapi_spec \<Rightarrow> security_report" where
  "analyze_security_detailed doc spec =
     (let scheme_map =
            (case spec_components spec of
               None \<Rightarrow> []
             | Some comps \<Rightarrow>
                 bt_insert_all
                   (List.map_filter (\<lambda>(name, scheme_or).
                      (case scheme_or of Item scheme \<Rightarrow> Some (name, scheme) | Reference _ \<Rightarrow> None))
                      (co_security_schemes comps)) []);
          schemes = map (\<lambda>(n, s). scheme_info_from_raw n s) scheme_map;
          global_names = extract_scheme_names (spec_security spec);
          op_map = build_op_security_map spec;
          operations = map (\<lambda>ir_op.
            (case op_auth (map_of op_map (op_key (method_as_str (op_method ir_op)) (op_path ir_op))) global_names of
               (req_auth, sch, ov) \<Rightarrow>
                 \<lparr>os_operation_id = op_operation_id ir_op, os_method = method_as_str (op_method ir_op),
                  os_path = op_path ir_op, os_requires_auth = req_auth, os_scheme = sch,
                  os_has_override = ov\<rparr>)) (doc_operations doc)
      in \<lparr>sr_schemes = schemes, sr_operations = operations,
          sr_issues = analyze_common_issues schemes operations
            @ analyze_detailed_issues spec operations global_names\<rparr>)"

section \<open>Finding an operation's own security\<close>

lemma method_upper_no_space: "CHR '' '' \<notin> set (method_upper m)"
  by (cases m) simp_all

lemma op_key_eq: "op_key (method_as_str m) path = method_upper m @ '' '' @ path"
  by (simp add: op_key_def method_upper_to_uppercase)

lemma no_space_split: "\<lbrakk>c \<notin> set u; c \<notin> set v; u @ c # s = v @ c # t\<rbrakk> \<Longrightarrow> u = v \<and> s = t"
proof (induction u arbitrary: v)
  case Nil
  then show ?case by (cases v) auto
next
  case (Cons x u)
  then show ?case by (cases v) auto
qed

lemma op_key_inject: "op_key (method_as_str m) p = op_key (method_as_str n) q \<longleftrightarrow> m = n \<and> p = q"
proof
  assume "op_key (method_as_str m) p = op_key (method_as_str n) q"
  then have "method_upper m @ CHR '' '' # p = method_upper n @ CHR '' '' # q"
    by (simp add: op_key_eq)
  from no_space_split [OF method_upper_no_space method_upper_no_space this]
  have "method_upper m = method_upper n \<and> p = q" .
  then show "m = n \<and> p = q" by (cases m; cases n) simp_all
qed simp

text \<open>The entries of the map are the steps of the resolver, keyed by method and path.\<close>

definition step_entry ::
  "string \<times> path_item \<times> http_method \<times> oapi_operation \<Rightarrow> string \<times> security_requirement list option" where
  "step_entry st = (case st of (path, item, m, op) \<Rightarrow> (op_key (method_as_str m) path, oop_security op))"

lemma map_filter_keyed:
  "List.map_filter (\<lambda>(k, opt). map_option (g k) opt) (map (\<lambda>(m, opt). (h m, opt)) xs) =
     map (\<lambda>(m, v). g (h m) v) (List.map_filter (\<lambda>(m, opt). map_option (\<lambda>v. (m, v)) opt) xs)"
proof (induction xs)
  case (Cons x xs)
  obtain m opt where "x = (m, opt)" by (cases x)
  with Cons show ?case by (cases opt) (simp_all add: List.map_filter_simps)
qed (simp add: List.map_filter_simps)

lemma security_entries_eq_steps:
  "build_op_security_map spec = bt_insert_all (map step_entry (operation_steps (spec_paths spec))) []"
proof -
  have "List.map_filter (\<lambda>(m, op_opt).
        map_option (\<lambda>op. (to_uppercase m @ '' '' @ path, oop_security op)) op_opt)
        [(''get'', pi_get item), (''post'', pi_post item), (''put'', pi_put item),
         (''patch'', pi_patch item), (''delete'', pi_delete item), (''head'', pi_head item),
         (''options'', pi_options item)] =
      map step_entry (map (\<lambda>(m, op). (path, item, m, op)) (iter_methods item))" for path item
    using map_filter_keyed [of "\<lambda>m op. (to_uppercase m @ '' '' @ path, oop_security op)" method_as_str
        "[(Get, pi_get item), (Post, pi_post item), (Put, pi_put item), (Patch, pi_patch item),
          (Delete, pi_delete item), (Head, pi_head item), (Options, pi_options item)]"]
    by (simp add: iter_methods_def step_entry_def op_key_def split_def comp_def)
  then show ?thesis
    unfolding build_op_security_map_def operation_steps_def
    by (auto simp: map_concat comp_def intro!: arg_cong2 [of _ _ _ _ bt_insert_all] arg_cong [of _ _ concat]
        split: reference_or.split)
qed

lemma step_entries_distinct:
  assumes "im_invar paths"
  shows "distinct (map fst (map step_entry (operation_steps paths)))"
proof -
  have "distinct (map step_key (operation_steps paths))"
    using assms distinct_operation_steps by (simp add: im_invar_def)
  moreover have "map fst (map step_entry (operation_steps paths)) =
      map (\<lambda>(p, m). op_key (method_as_str m) p) (map step_key (operation_steps paths))"
    by (auto simp: step_entry_def step_key_def)
  moreover have "inj (\<lambda>(p, m). op_key (method_as_str m) p)"
    by (auto intro!: injI simp: op_key_inject)
  ultimately show ?thesis by (metis distinct_map inj_on_subset subset_UNIV)
qed

lemma security_map_lookup:
  assumes "im_invar (spec_paths spec)" and "(path, item, m, op) \<in> set (operation_steps (spec_paths spec))"
  shows "map_of (build_op_security_map spec) (op_key (method_as_str m) path) = Some (oop_security op)"
proof -
  let ?es = "map step_entry (operation_steps (spec_paths spec))"
  have d: "distinct (map fst ?es)" using step_entries_distinct assms(1) by blast
  moreover have "(op_key (method_as_str m) path, oop_security op) \<in> set ?es"
    using assms(2) by (force simp: step_entry_def)
  ultimately have "map_of ?es (op_key (method_as_str m) path) = Some (oop_security op)"
    by (rule map_of_is_SomeI)
  with bt_get_insert_all_distinct [of "[]" ?es] d show ?thesis
    by (simp add: security_entries_eq_steps bt_invar_def)
qed

lemma resolve_operation_steps:
  assumes "resolve_with_webhooks spec wh = Ok doc"
  shows "list_all2 (\<lambda>st o'. step_key st = (op_path o', op_method o'))
      (operation_steps (spec_paths spec)) (doc_operations doc)"
proof -
  have "resolve_operations (spec_paths spec) (spec_components spec) = Ok (doc_operations doc)"
    using assms by (auto simp: resolve_with_webhooks_def Let_def split: sum.splits)
  then show ?thesis
    unfolding resolve_operations_def try_map_Inr_iff
    by (rule list_all2_mono) (auto simp: step_key_def dest: resolve_operation_key)
qed

text \<open>
  C6. For a document resolved from the spec, the report has one entry per operation, in order,
  and its authentication is the operation's own: none when its security list is present and
  empty, required when it is present and non-empty, and the global default (is any scheme named
  globally?) when the operation has no security of its own.
\<close>

theorem operation_auth_exact:
  assumes "resolve_with_webhooks spec wh = Ok doc" and "im_invar (spec_paths spec)"
  shows "map (\<lambda>o'. (os_requires_auth o', os_has_override o')) (sr_operations (analyze_security_detailed doc spec)) =
    map (\<lambda>(path, item, m, op).
      (case oop_security op of
         Some reqs \<Rightarrow> (reqs \<noteq> [], True)
       | None \<Rightarrow> (extract_scheme_names (spec_security spec) \<noteq> [], False)))
      (operation_steps (spec_paths spec))"
proof -
  let ?auth = "\<lambda>o'. op_auth (map_of (build_op_security_map spec)
      (op_key (method_as_str (op_method o')) (op_path o'))) (extract_scheme_names (spec_security spec))"
  have "list_all2 (\<lambda>st o'. step_key st = (op_path o', op_method o') \<and> st \<in> set (operation_steps (spec_paths spec)))
      (operation_steps (spec_paths spec)) (doc_operations doc)"
    using resolve_operation_steps [OF assms(1)] by (auto simp: list_all2_conv_all_nth)
  then have "list_all2 (\<lambda>st o'. (case st of (path, item, m, op) \<Rightarrow>
      (case oop_security op of
         Some reqs \<Rightarrow> (reqs \<noteq> [], True)
       | None \<Rightarrow> (extract_scheme_names (spec_security spec) \<noteq> [], False))) =
      (fst (?auth o'), snd (snd (?auth o')))) (operation_steps (spec_paths spec)) (doc_operations doc)"
    by (rule list_all2_mono)
      (auto simp: step_key_def security_map_lookup [OF assms(2)] op_auth_def split: option.splits)
  then show ?thesis
    by (simp add: analyze_security_detailed_def Let_def split_def comp_def list_all2_conv_all_nth
        list_eq_iff_nth_eq)
qed

theorem operation_auth_exact_witness:
  "\<exists>doc. resolve_with_webhooks example_spec None = Ok doc \<and>
     map (\<lambda>o'. (os_requires_auth o', os_has_override o'))
       (sr_operations (analyze_security_detailed doc example_spec)) = [(False, False)]"
proof -
  obtain doc where doc: "resolve_with_webhooks example_spec None = Ok doc"
    using example_resolved by blast
  moreover have "im_invar (spec_paths example_spec)"
    by (simp add: example_spec_def im_invar_def)
  ultimately have "map (\<lambda>o'. (os_requires_auth o', os_has_override o'))
      (sr_operations (analyze_security_detailed doc example_spec)) =
    map (\<lambda>(path, item, m, op).
      (case oop_security op of
         Some reqs \<Rightarrow> (reqs \<noteq> [], True)
       | None \<Rightarrow> (extract_scheme_names (spec_security example_spec) \<noteq> [], False)))
      (operation_steps (spec_paths example_spec))"
    by (rule operation_auth_exact)
  also have "\<dots> = [(False, False)]" by code_simp
  finally show ?thesis by (intro exI [of _ doc] conjI doc)
qed

section \<open>Unauthenticated write operations\<close>

definition write_warning :: "security_issue \<Rightarrow> bool" where
  "write_warning i \<longleftrightarrow> starts_with (iss_message i) ''Write operation ''"

lemma lowercase_not_write: "method_as_str m \<notin> {''POST'', ''PUT'', ''PATCH'', ''DELETE''}"
  by (cases m) simp_all

lemma common_issues_no_write_warning:
  assumes "\<forall>op \<in> set ops. \<exists>m. os_method op = method_as_str m"
    and "i \<in> set (analyze_common_issues schemes ops)"
  shows "\<not> write_warning i"
proof -
  have "os_method op \<notin> {''POST'', ''PUT'', ''PATCH'', ''DELETE''}" if "op \<in> set ops" for op
    using assms(1) that lowercase_not_write by metis
  then have none: "filter (\<lambda>op. os_method op \<in> {''POST'', ''PUT'', ''PATCH'', ''DELETE''} \<and> \<not> os_requires_auth op) ops = []"
    by (simp add: filter_empty_conv)
  from assms(2) show ?thesis
    unfolding analyze_common_issues_def none list.map append_Nil
    by (auto simp: write_warning_def starts_with_def split: if_splits)
qed

lemma detailed_issues_no_write_warning:
  "i \<in> set (analyze_detailed_issues spec ops names) \<Longrightarrow> \<not> write_warning i"
  by (auto simp: analyze_detailed_issues_def Let_def write_warning_def starts_with_def
      split: option.splits reference_or.splits oapi_security_scheme.splits if_splits)

text \<open>
  Neither report ever warns about a write operation without authentication: the check
  compares the method with upper-case names, and the reports carry it in lower case.
\<close>

theorem write_warning_never_raised:
  "filter write_warning (sr_issues (analyze_security doc)) = [] \<and>
   filter write_warning (sr_issues (analyze_security_detailed doc spec)) = []"
proof
  define ops where "ops = sr_operations (analyze_security doc)"
  have "\<forall>op \<in> set ops. \<exists>m. os_method op = method_as_str m"
    by (auto simp: ops_def analyze_security_def Let_def)
  from common_issues_no_write_warning [OF this]
  show "filter write_warning (sr_issues (analyze_security doc)) = []"
    by (auto simp: filter_empty_conv ops_def analyze_security_def Let_def)
next
  define ops where "ops = sr_operations (analyze_security_detailed doc spec)"
  have "\<forall>op \<in> set ops. \<exists>m. os_method op = method_as_str m"
    by (auto simp: ops_def analyze_security_detailed_def Let_def split: prod.split)
  moreover have "\<exists>schemes names. sr_issues (analyze_security_detailed doc spec) =
      analyze_common_issues schemes ops @ analyze_detailed_issues spec ops names"
    by (simp add: ops_def analyze_security_detailed_def Let_def) blast
  ultimately show "filter write_warning (sr_issues (analyze_security_detailed doc spec)) = []"
    using common_issues_no_write_warning detailed_issues_no_write_warning
    by (fastforce simp: filter_empty_conv)
qed

end
