(* ===== verification/Graph.thy ===== *)
theory Graph
  imports Ir "HOL-Library.Product_Lexorder" "HOL-Library.Option_ord"
begin

text \<open>
  crates/specforge-core/src/graph.rs: the schema dependency graph and its Mermaid and Graphviz
  renderings. An edge is the triple (from, to, label) the source sorts by; \<open>None\<close> sorts before
  any label, as in Rust. \<open>sort_by\<close> is a stable sort and \<open>dedup_by\<close> removes equal neighbours.
\<close>

section \<open>The graph\<close>

datatype graph_format = Mermaid | Dot

datatype node_shape = ShapeDefault | ShapeDiamond

record node =
  nd_id :: string
  nd_label :: string
  nd_shape :: node_shape

type_synonym edge = "string \<times> string \<times> string option"

record graph =
  gr_nodes :: "node list"
  gr_edges :: "edge list"

fun collect_references :: "ir_type \<Rightarrow> string list" where
  "collect_references (TReference name _ _) = [name]"
| "collect_references (TArray item _) = collect_references item"
| "collect_references (TMap value) = collect_references value"
| "collect_references (TComposition _ members _) = concat (map collect_references members)"
| "collect_references _ = []"

definition add_edges :: "string \<Rightarrow> string option \<Rightarrow> ir_type \<Rightarrow> edge list" where
  "add_edges name label ty = map (\<lambda>d. (name, d, label)) (collect_references ty)"

fun model_node :: "string \<Rightarrow> model \<Rightarrow> node" where
  "model_node name (MObject obj) =
     \<lparr>nd_id = name,
      nd_label = (case om_description obj of None \<Rightarrow> name | Some d \<Rightarrow> name @ [CHR 10] @ d),
      nd_shape = (if om_shape_type obj \<noteq> None \<and> om_properties obj = [] then ShapeDiamond else ShapeDefault)\<rparr>"
| "model_node name (MEnum e) =
     \<lparr>nd_id = em_name e, nd_label = em_name e @ '' (enum)'', nd_shape = ShapeDefault\<rparr>"

fun model_edges :: "string \<Rightarrow> model \<Rightarrow> edge list" where
  "model_edges name (MObject obj) =
     (case om_shape_type obj of None \<Rightarrow> [] | Some ty \<Rightarrow> add_edges name None ty)
     @ (case om_base_type obj of None \<Rightarrow> [] | Some base \<Rightarrow> add_edges name (Some ''extends'') base)
     @ concat (map (\<lambda>prop. add_edges name None (prop_ty prop)) (om_properties obj))
     @ (case om_additional_properties obj of None \<Rightarrow> [] | Some ap \<Rightarrow> add_edges name (Some ''values'') ap)"
| "model_edges name (MEnum e) = []"

definition build_graph :: "document \<Rightarrow> graph" where
  "build_graph doc =
     \<lparr>gr_nodes = map (\<lambda>(name, model). model_node name model) (doc_schemas doc),
      gr_edges = remdups_adj (sort (concat (map (\<lambda>(name, model). model_edges name model) (doc_schemas doc))))\<rparr>"

section \<open>Rendering\<close>

text \<open>
  \<open>replace\<close> with a predicate on characters: a multi-byte character is one character, so its
  continuation bytes disappear with it.
\<close>

definition mid :: "string \<Rightarrow> string" where
  "mid name = ''N_'' @ concat (map (\<lambda>c.
     if 128 \<le> byte c \<and> byte c < 192 then []
     else if is_ascii_alphanumeric c \<or> c = CHR ''_'' then [c] else ''_'') name)"

definition mlbl :: "string \<Rightarrow> string" where
  "mlbl l = replace_char (CHR 34) ''#quot;'' (replace_char (CHR 92) [CHR 92, CHR 92] l)"

definition did :: "string \<Rightarrow> string" where
  "did name = [CHR 34] @ replace_char (CHR 34) [CHR 92, CHR 34] name @ [CHR 34]"

definition dlbl :: "string \<Rightarrow> string" where
  "dlbl l = replace_char (CHR 10) [CHR 92, CHR ''l'']
     (replace_char (CHR 34) [CHR 92, CHR 34] (replace_char (CHR 92) [CHR 92, CHR 92] l))"

definition nl :: string where
  "nl = [CHR 10]"

definition render_mermaid :: "graph \<Rightarrow> string" where
  "render_mermaid g =
     ''graph TD'' @ nl
     @ concat (map (\<lambda>n.
         (case nd_shape n of
            ShapeDefault \<Rightarrow> ''    '' @ mid (nd_id n) @ ''['' @ [CHR 34] @ mlbl (nd_label n) @ [CHR 34] @ '']''
          | ShapeDiamond \<Rightarrow> ''    '' @ mid (nd_id n) @ ''{'' @ [CHR 34] @ mlbl (nd_label n) @ [CHR 34] @ ''}'')
         @ nl) (gr_nodes g))
     @ concat (map (\<lambda>(f, t, label).
         (case label of
            Some l \<Rightarrow> ''    '' @ mid f @ '' -->|'' @ l @ ''| '' @ mid t
          | None \<Rightarrow> ''    '' @ mid f @ '' --> '' @ mid t) @ nl) (gr_edges g))"

definition render_dot :: "graph \<Rightarrow> string \<Rightarrow> string" where
  "render_dot g title =
     ''digraph '' @ [CHR 34] @ title @ [CHR 34] @ '' {'' @ nl @ ''    rankdir=TB;'' @ nl
     @ ''    node [shape=box, style=filled, fillcolor='' @ [CHR 34] @ ''#f0f0f0'' @ [CHR 34] @ ''];'' @ nl
     @ ''    edge [color='' @ [CHR 34] @ ''#555555'' @ [CHR 34] @ ''];'' @ nl @ nl
     @ concat (map (\<lambda>n.
         ''    '' @ did (nd_id n) @ '' [label='' @ [CHR 34] @ dlbl (nd_label n) @ [CHR 34]
         @ (case nd_shape n of
              ShapeDefault \<Rightarrow> ''];''
            | ShapeDiamond \<Rightarrow> '', shape=diamond, fillcolor='' @ [CHR 34] @ ''#e8e0f0'' @ [CHR 34] @ ''];'')
         @ nl) (gr_nodes g))
     @ nl
     @ concat (map (\<lambda>(f, t, label).
         ''    '' @ did f @ '' -> '' @ did t
         @ (case label of Some l \<Rightarrow> '' [label='' @ [CHR 34] @ l @ [CHR 34] @ ''];'' | None \<Rightarrow> '';'')
         @ nl) (gr_edges g))
     @ ''}'' @ nl"

definition generate_graph :: "document \<Rightarrow> graph_format \<Rightarrow> string" where
  "generate_graph doc format =
     (let graph = build_graph doc in
      case format of Mermaid \<Rightarrow> render_mermaid graph | Dot \<Rightarrow> render_dot graph (doc_title doc))"

section \<open>Properties\<close>

lemma collect_references_eq: "collect_references t = type_refs t"
  by (induction t rule: collect_references.induct) (auto intro!: arg_cong [of _ _ concat])

text \<open>The references of a model, with the label the graph gives them.\<close>

inductive model_ref :: "model \<Rightarrow> string \<Rightarrow> string option \<Rightarrow> bool" where
  shape_ref: "om_shape_type obj = Some t \<Longrightarrow> r \<in> set (type_refs t) \<Longrightarrow> model_ref (MObject obj) r None"
| base_ref: "om_base_type obj = Some t \<Longrightarrow> r \<in> set (type_refs t) \<Longrightarrow> model_ref (MObject obj) r (Some ''extends'')"
| prop_ref: "p \<in> set (om_properties obj) \<Longrightarrow> r \<in> set (type_refs (prop_ty p)) \<Longrightarrow> model_ref (MObject obj) r None"
| additional_ref: "om_additional_properties obj = Some t \<Longrightarrow> r \<in> set (type_refs t) \<Longrightarrow>
    model_ref (MObject obj) r (Some ''values'')"

inductive_simps model_ref_object: "model_ref (MObject obj) r l"
inductive_simps model_ref_enum: "model_ref (MEnum e) r l"

lemma set_model_edges: "set (model_edges name m) = {(name, r, l) | r l. model_ref m r l}"
  by (cases m) (auto simp: add_edges_def collect_references_eq model_ref_object model_ref_enum split: option.split, metis+)

lemma distinct_remdups_adj_sorted: "sorted xs \<Longrightarrow> distinct (remdups_adj xs)"
  by (induction xs rule: remdups_adj.induct) (auto simp: order.antisym)

text \<open>
  The edges of the graph are sorted, without repetitions, and exactly the labelled
  references of the document's models.
\<close>

theorem graph_edges_exact:
  "sorted (gr_edges (build_graph doc)) \<and> distinct (gr_edges (build_graph doc)) \<and>
   ((f, t, l) \<in> set (gr_edges (build_graph doc)) \<longleftrightarrow>
      (\<exists>m. (f, m) \<in> set (doc_schemas doc) \<and> model_ref m t l))"
proof -
  have "(f, t, l) \<in> set (gr_edges (build_graph doc)) \<longleftrightarrow>
      (\<exists>m. (f, m) \<in> set (doc_schemas doc) \<and> model_ref m t l)"
    by (auto simp: build_graph_def set_model_edges)
  then show ?thesis
    by (simp add: build_graph_def sorted_remdups_adj distinct_remdups_adj_sorted)
qed

text \<open>Two schemas whose names differ in a special character share one Mermaid node id.\<close>

lemma mid_collides: "mid ''a-b'' = mid ''a_b''"
  by code_simp

text \<open>A label is free of raw quotes and line breaks in a Graphviz file.\<close>

lemma dlbl_no_newline: "CHR 10 \<notin> set (dlbl l)"
  using set_replace_char [of "CHR 10" "[CHR 92, CHR ''l'']"] unfolding dlbl_def by fastforce

end
