(* ===== verification/Infer.thy ===== *)
theory Infer
  imports Json
begin

text \<open>
  crates/specforge-core/src/infer.rs: a schema, and a one-operation OpenAPI document, from a
  sample JSON value. The \<open>json!\<close> literals are objects built by insertion, so their entries are in
  key order. \<open>accepts\<close> gives the emitted keywords (type, nullable, items, properties, required)
  their JSON Schema meaning; the inferred schema is checked against it.
\<close>

definition json_obj :: "(string \<times> json) list \<Rightarrow> json" where
  "json_obj kvs = JObject (bt_insert_all kvs [])"

definition infer_string_schema :: "string \<Rightarrow> json" where
  "infer_string_schema s =
     (if CHR ''T'' \<in> set s \<and> CHR ''Z'' \<in> set s
      then json_obj [(''type'', JString ''string''), (''format'', JString ''date-time'')]
      else if length s = 36 \<and> CHR ''-'' \<in> set s
      then json_obj [(''type'', JString ''string''), (''format'', JString ''uuid'')]
      else json_obj [(''type'', JString ''string'')])"

fun infer_schema :: "json \<Rightarrow> json" where
  "infer_schema JNull = json_obj [(''type'', JString ''string''), (''nullable'', JBool True)]"
| "infer_schema (JBool _) = json_obj [(''type'', JString ''boolean'')]"
| "infer_schema (JNumber n) =
     (if number_is_i64 n \<or> number_is_u64 n
      then json_obj [(''type'', JString ''integer'')]
      else json_obj [(''type'', JString ''number'')])"
| "infer_schema (JString s) = infer_string_schema s"
| "infer_schema (JArray arr) =
     json_obj [(''type'', JString ''array''),
       (''items'', (case arr of [] \<Rightarrow> json_obj [(''type'', JString ''string'')] | v # _ \<Rightarrow> infer_schema v))]"
| "infer_schema (JObject obj) =
     json_obj [(''type'', JString ''object''),
       (''properties'', JObject (bt_insert_all (map (\<lambda>kv. (fst kv, infer_schema (snd kv))) obj) [])),
       (''required'', JArray (map (\<lambda>kv. JString (fst kv)) obj))]"

record infer_options =
  io_schema_name :: string
  io_title :: string
  io_version :: string

definition default_infer_options :: infer_options where
  "default_infer_options =
     \<lparr>io_schema_name = ''Inferred'', io_title = ''Inferred API'', io_version = ''1.0.0''\<rparr>"

definition schema_ref :: "infer_options \<Rightarrow> json" where
  "schema_ref opts = json_obj [(''$ref'', JString (''#/components/schemas/'' @ io_schema_name opts))]"

definition json_content :: "infer_options \<Rightarrow> json" where
  "json_content opts =
     json_obj [(''application/json'', json_obj [(''schema'', schema_ref opts)])]"

definition infer_openapi :: "json \<Rightarrow> infer_options \<Rightarrow> json" where
  "infer_openapi json opts =
     json_obj
       [(''openapi'', JString ''3.0.3''),
        (''info'', json_obj
           [(''title'', JString (io_title opts)),
            (''version'', JString (io_version opts)),
            (''description'', JString ''OpenAPI spec inferred from sample JSON by specforge.'')]),
        (''paths'', json_obj
           [(''/sample'', json_obj
               [(''post'', json_obj
                   [(''operationId'', JString ''createSample''),
                    (''summary'', JString ''Create a sample resource''),
                    (''tags'', JArray [JString ''inferred'']),
                    (''requestBody'', json_obj
                       [(''required'', JBool True), (''content'', json_content opts)]),
                    (''responses'', json_obj
                       [(''200'', json_obj
                           [(''description'', JString ''Successful response''),
                            (''content'', json_content opts)])])])])]),
        (''components'', json_obj
           [(''schemas'', json_obj [(io_schema_name opts, infer_schema json)])])]"

section \<open>The meaning of the emitted schemas\<close>

definition type_is :: "json \<Rightarrow> string \<Rightarrow> bool" where
  "type_is sch t \<longleftrightarrow> json_get sch ''type'' = Some (JString t)"

function accepts :: "json \<Rightarrow> json \<Rightarrow> bool" where
  "accepts sch v =
     (case v of
        JNull \<Rightarrow> json_get sch ''nullable'' = Some (JBool True)
      | JBool _ \<Rightarrow> type_is sch ''boolean''
      | JNumber n \<Rightarrow>
          type_is sch ''number'' \<or> type_is sch ''integer'' \<and> (number_is_i64 n \<or> number_is_u64 n)
      | JString _ \<Rightarrow> type_is sch ''string''
      | JArray vs \<Rightarrow>
          type_is sch ''array'' \<and>
          (case json_get sch ''items'' of
             None \<Rightarrow> True
           | Some item \<Rightarrow> list_all (accepts item) vs)
      | JObject m \<Rightarrow>
          type_is sch ''object'' \<and>
          (case json_get sch ''required'' of
             Some (JArray rs) \<Rightarrow> list_all (\<lambda>r. case r of JString k \<Rightarrow> contains_key m k | _ \<Rightarrow> True) rs
           | _ \<Rightarrow> True) \<and>
          list_all (\<lambda>kv. case Option.bind (json_get sch ''properties'') (\<lambda>ps. json_get ps (fst kv)) of
                           None \<Rightarrow> True
                         | Some psch \<Rightarrow> accepts psch (snd kv)) m)"
  by pat_completeness auto
termination
proof (relation "measure (\<lambda>(sch, v). json_rank v)")
  fix sch v :: json and vs item x
  assume "v = JArray vs" "x \<in> set vs"
  then show "((item, x), sch, v) \<in> measure (\<lambda>(sch, v). json_rank v)"
    using json_rank_array by (simp del: json_rank.simps)
next
  fix sch v :: json and m psch and kv :: "string \<times> json"
  assume "v = JObject m" "kv \<in> set m"
  then show "((psch, snd kv), sch, v) \<in> measure (\<lambda>(sch, v). json_rank v)"
    using json_rank_object [of "fst kv" "snd kv" m] by (simp del: json_rank.simps)
qed simp

declare accepts.simps [simp del]

text \<open>Every array's items fit the schema of its first item, which is the one the source looks at.\<close>

fun homogeneous :: "json \<Rightarrow> bool" where
  "homogeneous (JArray vs) =
     ((case vs of [] \<Rightarrow> True | v # _ \<Rightarrow> list_all (accepts (infer_schema v)) vs) \<and> list_all homogeneous vs)"
| "homogeneous (JObject m) = list_all (\<lambda>kv. homogeneous (snd kv)) m"
| "homogeneous _ = True"

lemma json_get_obj: "json_get (json_obj kvs) k = map_of (rev kvs) k"
  by (simp add: json_obj_def bt_get_insert_all bt_invar_def split: option.split)

lemma accepts_string: "accepts (infer_string_schema s) (JString t)"
  by (simp add: accepts.simps infer_string_schema_def type_is_def json_get_obj)

lemma accepts_object:
  assumes "bt_invar m" and "\<And>k v. (k, v) \<in> set m \<Longrightarrow> accepts (infer_schema v) v"
  shows "accepts (infer_schema (JObject m)) (JObject m)"
proof -
  let ?ps = "map (\<lambda>kv. (fst kv, infer_schema (snd kv))) m"
  have dist: "distinct (map fst ?ps)" "\<And>k. map_of ?ps k = map_option infer_schema (map_of m k)"
    using bt_invar_distinct [OF assms(1)] map_of_map_values [of infer_schema m]
    by (simp_all add: comp_def map_values_def)
  have props: "json_get (JObject (bt_insert_all ?ps [])) k = map_option infer_schema (map_of m k)" for k
    using dist bt_get_insert_all_distinct [of "[]" ?ps] by (simp add: bt_invar_def split: option.split)
  have "map_of m (fst kv) = Some (snd kv)" if "kv \<in> set m" for kv
    using that bt_invar_distinct [OF assms(1)] by (simp add: map_of_is_SomeI)
  with props assms(2) show ?thesis
    by (subst accepts.simps)
      (auto simp: type_is_def json_get_obj list_all_iff contains_key_iff simp del: json_get.simps)
qed

text \<open>
  The schema inferred from a well-formed sample accepts the sample, provided the items of
  each of its arrays fit the schema of the array's first item.
\<close>

theorem inferred_schema_accepts_sample:
  assumes "json_wf j" and "homogeneous j"
  shows "accepts (infer_schema j) j"
  using assms
proof (induction j rule: homogeneous.induct)
  case (1 vs)
  then show ?case
    by (cases vs) (simp_all add: accepts.simps [of _ "JArray _"] type_is_def json_get_obj)
next
  case (2 m)
  then show ?case
    by (intro accepts_object) (auto simp: json_wf_def values_sat_def list_all_iff)
qed (simp_all add: accepts_string, simp_all add: accepts.simps type_is_def json_get_obj)

theorem inferred_schema_accepts_sample_witness:
  "accepts (infer_schema (JObject [(''ids'', JArray [JBool True, JBool False])]))
     (JObject [(''ids'', JArray [JBool True, JBool False])])"
  by (rule inferred_schema_accepts_sample)
    (simp_all add: json_wf_def bt_invar_def accepts.simps [of _ "JBool _"] type_is_def json_get_obj)

text \<open>Without the proviso it can reject its own sample.\<close>

lemma inferred_schema_rejects_mixed_array:
  "\<not> accepts (infer_schema (JArray [JBool True, JString ''x''])) (JArray [JBool True, JString ''x''])"
  by (simp add: accepts.simps type_is_def json_get_obj)

end
