(* ===== verification/Analyzer.thy ===== *)
theory Analyzer
  imports Ir "HOL-Library.Product_Lexorder" "HOL-Library.Multiset"
begin

text \<open>
  crates/specforge-core/src/analyzer.rs: unused, duplicate, large and deeply nested schemas of a
  resolved document. Hash sets are sets with an explicit visiting order (\<open>ord\<close>, and \<open>ord_fps\<close> for the
  table of fingerprints), \<open>visits_all\<close> says that an order enumerates every finite set once. The loop that closes
  the referenced names is \<open>closure_loop\<close>, whose measure is the number of names still to be found;
  \<open>ref_depth\<close> threads the memo table, and its measure is the number of names not yet in it. The
  counterpart in the linter (theory Lint) stops early; this loop computes exactly \<open>used_names\<close>.
\<close>

section \<open>References\<close>

fun collect_refs_from_type :: "ir_type \<Rightarrow> string set \<Rightarrow> string set" where
  "collect_refs_from_type (TReference name _ _) refs = insert name refs"
| "collect_refs_from_type (TArray item _) refs = collect_refs_from_type item refs"
| "collect_refs_from_type (TMap value) refs = collect_refs_from_type value refs"
| "collect_refs_from_type (TComposition _ members _) refs = fold collect_refs_from_type members refs"
| "collect_refs_from_type _ refs = refs"

fun collect_refs_from_model :: "model \<Rightarrow> string set \<Rightarrow> string set" where
  "collect_refs_from_model (MObject obj) refs =
     (let r1 = fold (\<lambda>prop. collect_refs_from_type (prop_ty prop)) (om_properties obj) refs;
          r2 = (case om_additional_properties obj of None \<Rightarrow> r1 | Some ap \<Rightarrow> collect_refs_from_type ap r1);
          r3 = (case om_shape_type obj of None \<Rightarrow> r2 | Some shape \<Rightarrow> collect_refs_from_type shape r2)
      in (case om_base_type obj of None \<Rightarrow> r3 | Some base \<Rightarrow> collect_refs_from_type base r3))"
| "collect_refs_from_model (MEnum _) refs = refs"

definition collect_body_refs :: "request_body option \<Rightarrow> response list \<Rightarrow> string set \<Rightarrow> string set" where
  "collect_body_refs body responses refs =
     fold (\<lambda>resp refs. case resp_body resp of None \<Rightarrow> refs | Some b \<Rightarrow> collect_refs_from_type b refs) responses
       (case body of None \<Rightarrow> refs | Some b \<Rightarrow> collect_refs_from_type (rb_ty b) refs)"

definition seed_refs :: "document \<Rightarrow> string set" where
  "seed_refs doc =
     fold (\<lambda>wh. collect_body_refs (wh_request_body wh) (wh_responses wh)) (doc_webhooks doc)
       (fold (\<lambda>op. collect_body_refs (op_request_body op) (op_responses op)) (doc_operations doc) {})"

section \<open>The closure loop\<close>

definition add_ref :: "string \<Rightarrow> string set \<times> bool \<Rightarrow> string set \<times> bool" where
  "add_ref r st = (insert r (fst st), snd st \<or> r \<notin> fst st)"

definition expand_name ::
  "(string set \<Rightarrow> string list) \<Rightarrow> schema_registry \<Rightarrow> string \<Rightarrow> string set \<times> bool \<Rightarrow> string set \<times> bool" where
  "expand_name ord schemas name st =
     (case registry_get schemas name of
        None \<Rightarrow> st
      | Some model \<Rightarrow> fold add_ref (ord (collect_refs_from_model model {})) st)"

definition closure_pass ::
  "(string set \<Rightarrow> string list) \<Rightarrow> schema_registry \<Rightarrow> string set \<Rightarrow> string set \<times> bool" where
  "closure_pass ord schemas referenced =
     fold (expand_name ord schemas) (ord referenced) (referenced, False)"

lemma fold_add_ref:
  "fold add_ref rs st = (fst st \<union> set rs, snd st \<or> \<not> set rs \<subseteq> fst st)"
  by (induction rs arbitrary: st) (auto simp: add_ref_def)

text \<open>The names one pass can add from one name, and from a list of names.\<close>

definition expansion :: "(string set \<Rightarrow> string list) \<Rightarrow> schema_registry \<Rightarrow> string \<Rightarrow> string set" where
  "expansion ord schemas name =
     (case registry_get schemas name of
        None \<Rightarrow> {} | Some model \<Rightarrow> set (ord (collect_refs_from_model model {})))"

lemma expand_name_eq:
  "expand_name ord schemas n st =
     (fst st \<union> expansion ord schemas n, snd st \<or> \<not> expansion ord schemas n \<subseteq> fst st)"
  by (auto simp: expand_name_def expansion_def fold_add_ref split: option.split)

lemma fold_expand_name:
  "fold (expand_name ord schemas) ns st =
     (fst st \<union> (\<Union>n \<in> set ns. expansion ord schemas n),
      snd st \<or> \<not> (\<Union>n \<in> set ns. expansion ord schemas n) \<subseteq> fst st)"
  by (induction ns arbitrary: st) (auto simp: expand_name_eq)

lemma closure_pass_eq:
  "closure_pass ord schemas names =
     (names \<union> (\<Union>n \<in> set (ord names). expansion ord schemas n),
      \<not> (\<Union>n \<in> set (ord names). expansion ord schemas n) \<subseteq> names)"
  by (simp add: closure_pass_def fold_expand_name)

definition all_expansions :: "(string set \<Rightarrow> string list) \<Rightarrow> schema_registry \<Rightarrow> string set" where
  "all_expansions ord schemas = (\<Union>n \<in> fst ` set schemas. expansion ord schemas n)"

lemma finite_all_expansions: "finite (all_expansions ord schemas)"
  by (auto simp: all_expansions_def expansion_def split: option.split)

lemma expansion_subset: "expansion ord schemas n \<subseteq> all_expansions ord schemas"
proof (cases "registry_get schemas n")
  case (Some m)
  then have "n \<in> fst ` set schemas" by (auto simp: registry_get_def dest!: map_of_SomeD intro: rev_image_eqI)
  then show ?thesis by (auto simp: all_expansions_def)
qed (simp add: expansion_def)

function closure_loop ::
  "(string set \<Rightarrow> string list) \<Rightarrow> schema_registry \<Rightarrow> string set \<Rightarrow> string set" where
  "closure_loop ord schemas referenced =
     (let p = closure_pass ord schemas referenced in
      if snd p then closure_loop ord schemas (fst p) else fst p)"
  by pat_completeness auto
termination
proof (relation "measure (\<lambda>(ord, schemas, names). card (all_expansions ord schemas - names))")
  fix ord schemas names p
  assume "p = closure_pass ord schemas names" "snd p"
  then have "all_expansions ord schemas - fst p \<subset> all_expansions ord schemas - names"
    using expansion_subset [of ord schemas] by (fastforce simp: closure_pass_eq)
  then show "((ord, schemas, fst p), ord, schemas, names)
      \<in> measure (\<lambda>(ord, schemas, names). card (all_expansions ord schemas - names))"
    by (simp add: psubset_card_mono finite_all_expansions)
qed simp

declare closure_loop.simps [simp del]


section \<open>Duplicate and large schemas\<close>

definition large_schemas :: "schema_registry \<Rightarrow> (string \<times> nat) list" where
  "large_schemas schemas =
     sort_key (\<lambda>a. - int (snd a))
       (List.map_filter (\<lambda>(name, model).
          case model of
            MObject obj \<Rightarrow> if length (om_properties obj) > 20 then Some (name, length (om_properties obj)) else None
          | MEnum _ \<Rightarrow> None) schemas)"

definition fingerprint :: "object_model \<Rightarrow> string list" where
  "fingerprint obj = sort (map prop_name (om_properties obj))"

definition add_fingerprint ::
  "string \<times> model \<Rightarrow> (string list \<times> string list) list \<Rightarrow> (string list \<times> string list) list" where
  "add_fingerprint entry fps =
     (case snd entry of
        MObject obj \<Rightarrow>
          (let props = fingerprint obj;
               group = (case map_of fps props of None \<Rightarrow> [] | Some g \<Rightarrow> g)
           in im_insert props (group @ [fst entry]) fps)
      | MEnum _ \<Rightarrow> fps)"

text \<open>The two nested index loops over a group: each name with every later one.\<close>

fun group_pairs :: "'a list \<Rightarrow> ('a \<times> 'a) list" where
  "group_pairs [] = []"
| "group_pairs (x # xs) = map (\<lambda>y. (x, y)) xs @ group_pairs xs"

definition duplicate_schemas ::
  "(string list set \<Rightarrow> string list list) \<Rightarrow> schema_registry \<Rightarrow> (string \<times> string) list" where
  "duplicate_schemas ord schemas =
     (let fps = fold add_fingerprint schemas [] in
      sort (concat (map (\<lambda>k. let group = the (map_of fps k) in
                           if length group > 1 then group_pairs group else [])
        (ord (set (map fst fps))))))"

section \<open>Depth of references\<close>

type_synonym ref_graph = "(string \<times> string list) list"

definition build_ref_graph :: "(string set \<Rightarrow> string list) \<Rightarrow> document \<Rightarrow> ref_graph" where
  "build_ref_graph ord doc =
     map (\<lambda>(name, model). (name, ord (collect_refs_from_model model {}))) (doc_schemas doc)"

text \<open>
  \<open>ref_depth\<close> with its memo table, and the loop of its \<open>map\<close> over the targets, which threads the table.
\<close>

function (sequential)
  ref_depth :: "ref_graph \<Rightarrow> string \<Rightarrow> (string \<rightharpoonup> nat) \<Rightarrow> nat \<times> (string \<rightharpoonup> nat)" and
  ref_depths :: "ref_graph \<Rightarrow> string list \<Rightarrow> (string \<rightharpoonup> nat) \<Rightarrow> nat list \<times> (string \<rightharpoonup> nat)" where
  "ref_depth graph name memo =
     (case memo name of
        Some cached \<Rightarrow> (cached, memo)
      | None \<Rightarrow>
          (let memo0 = memo(name \<mapsto> 0);
               (depth, memo1) =
                 (case map_of graph name of
                    None \<Rightarrow> (0, memo0)
                  | Some targets \<Rightarrow>
                      if targets = [] then (0, memo0)
                      else (case ref_depths graph targets memo0 of
                              (ds, m) \<Rightarrow> (Max (set ds) + 1, m)))
           in (depth, memo1(name \<mapsto> depth))))"
| "ref_depths graph [] memo = ([], memo)"
| "ref_depths graph (t # ts) memo =
     (case ref_depth graph t memo of
        (d, memo1) \<Rightarrow> (case ref_depths graph ts memo1 of (ds, memo2) \<Rightarrow> (d # ds, memo2)))"
  by pat_completeness auto

lemma ref_depth_grows_dom:
  "ref_depth_ref_depths_dom (Inl (g, n, memo)) \<Longrightarrow> dom memo \<subseteq> dom (snd (ref_depth g n memo))"
  "ref_depth_ref_depths_dom (Inr (g, ts, memo)) \<Longrightarrow> dom memo \<subseteq> dom (snd (ref_depths g ts memo))"
proof (induction g n memo and g ts memo rule: ref_depth_ref_depths.pinduct)
  case (1 g n memo)
  show ?case
  proof (cases "memo n")
    case None
    show ?thesis
    proof (cases "map_of g n")
      case None
      then show ?thesis using \<open>memo n = None\<close> 1(1)
        by (auto simp: ref_depth.psimps Let_def)
    next
      case (Some targets)
      obtain ds m where dm: "ref_depths g targets (memo(n \<mapsto> 0)) = (ds, m)"
        by (cases "ref_depths g targets (memo(n \<mapsto> 0))")
      have "dom memo \<subseteq> dom m" if "targets \<noteq> []"
      proof -
        have "dom (memo(n \<mapsto> 0)) \<subseteq> dom m"
          using 1(2) [OF \<open>memo n = None\<close> refl Some that] dm by (simp add: fun_upd_def)
        then show ?thesis by simp
      qed
      then show ?thesis using \<open>memo n = None\<close> Some 1(1) dm
        by (cases "targets = []") (auto simp: ref_depth.psimps Let_def dom_def)
    qed
  qed (use 1(1) in \<open>simp add: ref_depth.psimps\<close>)
next
  case (2 g memo)
  then show ?case by (simp add: ref_depths.psimps)
next
  case (3 g t ts memo)
  obtain d m where dm: "ref_depth g t memo = (d, m)" by (cases "ref_depth g t memo")
  have "dom memo \<subseteq> dom m" using 3(2) dm by simp
  moreover have "dom m \<subseteq> dom (snd (ref_depths g ts m))" using 3(3) [OF dm [symmetric]] by simp
  ultimately have "dom memo \<subseteq> dom (snd (ref_depths g ts m))" by (rule subset_trans)
  then show ?case using 3(1) dm by (cases "ref_depths g ts m") (simp add: ref_depths.psimps)
qed


text \<open>The names a call can still put into the table; its size bounds the recursion.\<close>

definition graph_names :: "ref_graph \<Rightarrow> string set" where
  "graph_names graph = (\<Union>(n, ts) \<in> set graph. set ts)"

lemma finite_graph_names [simp]: "finite (graph_names graph)"
  by (auto simp: graph_names_def)

lemma targets_in_graph: "map_of graph n = Some ts \<Longrightarrow> set ts \<subseteq> graph_names graph"
  by (force simp: graph_names_def dest: map_of_SomeD)

definition depth_measure :: "(ref_graph \<times> string \<times> (string \<rightharpoonup> nat)) + (ref_graph \<times> string list \<times> (string \<rightharpoonup> nat)) \<Rightarrow> nat" where
  "depth_measure x = (case x of
     Inl (g, n, memo) \<Rightarrow> card ((graph_names g \<union> {n}) - dom memo)
   | Inr (g, ts, memo) \<Rightarrow> card ((graph_names g \<union> set ts) - dom memo))"

termination ref_depth
proof (relation "measures [depth_measure, \<lambda>x. case x of Inl _ \<Rightarrow> 0 | Inr (g, ts, memo) \<Rightarrow> Suc (length ts)]", simp, goal_cases)
  case (1 g n memo memo0 targets)
  then have "graph_names g \<union> set targets - dom memo0 \<subset> graph_names g \<union> {n} - dom memo"
    using targets_in_graph [of g n targets] by auto
  then show ?case
    by (simp add: depth_measure_def psubset_card_mono)
next
  case (2 g t ts memo)
  have "card (graph_names g \<union> {t} - dom memo) \<le> card (graph_names g \<union> set (t # ts) - dom memo)"
    by (rule card_mono) auto
  then show ?case by (auto simp: depth_measure_def)
next
  case (3 g t ts memo d memo1)
  then have "dom memo \<subseteq> dom memo1" using ref_depth_grows_dom(1) [of g t memo] by (metis snd_conv)
  then have "card (graph_names g \<union> set ts - dom memo1) \<le> card (graph_names g \<union> set (t # ts) - dom memo)"
    by (intro card_mono) auto
  then show ?case by (auto simp: depth_measure_def)
qed


declare ref_depth.simps [simp del]

section \<open>What the closure loop computes\<close>

interpretation analyzer_refs: ref_collector collect_refs_from_type
  by unfold_locales simp_all

text \<open>The names a model refers to.\<close>

definition model_refs :: "model \<Rightarrow> string set" where
  "model_refs m = collect_refs_from_model m {}"

text \<open>The names in use: referred to by a body of an operation or a webhook, or by a model in use.\<close>

definition body_refs :: "request_body option \<Rightarrow> response list \<Rightarrow> string set" where
  "body_refs body responses =
     (case body of None \<Rightarrow> {} | Some b \<Rightarrow> set (type_refs (rb_ty b))) \<union>
     (\<Union>r \<in> set responses. case resp_body r of None \<Rightarrow> {} | Some b \<Rightarrow> set (type_refs b))"

inductive_set used_names :: "document \<Rightarrow> string set" for doc where
  operation: "op \<in> set (doc_operations doc) \<Longrightarrow> r \<in> body_refs (op_request_body op) (op_responses op) \<Longrightarrow>
    r \<in> used_names doc"
| webhook: "wh \<in> set (doc_webhooks doc) \<Longrightarrow> r \<in> body_refs (wh_request_body wh) (wh_responses wh) \<Longrightarrow>
    r \<in> used_names doc"
| model: "n \<in> used_names doc \<Longrightarrow> registry_get (doc_schemas doc) n = Some m \<Longrightarrow> r \<in> model_refs m \<Longrightarrow>
    r \<in> used_names doc"

lemma collect_body_refs_eq: "collect_body_refs body rs refs = refs \<union> body_refs body rs"
  by (auto simp: collect_body_refs_def body_refs_def analyzer_refs.fold_collect_opt_eq
      analyzer_refs.collect_eq split: option.splits)

lemma fold_collect_body_refs:
  "fold (\<lambda>x. collect_body_refs (f x) (g x)) xs s = s \<union> (\<Union>x \<in> set xs. body_refs (f x) (g x))"
  by (induction xs arbitrary: s) (auto simp: collect_body_refs_eq)

lemma seed_refs_eq:
  "seed_refs doc =
     (\<Union>op \<in> set (doc_operations doc). body_refs (op_request_body op) (op_responses op)) \<union>
     (\<Union>wh \<in> set (doc_webhooks doc). body_refs (wh_request_body wh) (wh_responses wh))"
  by (simp add: seed_refs_def fold_collect_body_refs)

lemma finite_body_refs: "finite (body_refs b rs)"
  by (auto simp: body_refs_def split: option.splits)

lemma finite_seed_refs: "finite (seed_refs doc)"
  by (simp add: seed_refs_eq finite_body_refs)

lemma model_refs_eq:
  "model_refs m = (case m of
     MObject obj \<Rightarrow>
       (\<Union>p \<in> set (om_properties obj). set (type_refs (prop_ty p))) \<union>
       (case om_additional_properties obj of None \<Rightarrow> {} | Some t \<Rightarrow> set (type_refs t)) \<union>
       (case om_shape_type obj of None \<Rightarrow> {} | Some t \<Rightarrow> set (type_refs t)) \<union>
       (case om_base_type obj of None \<Rightarrow> {} | Some t \<Rightarrow> set (type_refs t))
   | MEnum e \<Rightarrow> {})"
  by (cases m) (auto simp: model_refs_def Let_def analyzer_refs.fold_collect_eq analyzer_refs.collect_opt_eq)

lemma finite_model_refs: "finite (model_refs m)"
  by (auto simp: model_refs_eq split: model.split option.split)

lemma expansion_eq:
  "visits_all ord \<Longrightarrow> expansion ord schemas n =
     (case registry_get schemas n of None \<Rightarrow> {} | Some m \<Rightarrow> model_refs m)"
  using finite_model_refs by (auto simp: expansion_def visits_all_def model_refs_def split: option.split)

text \<open>One round of the loop, seen as adding the references of every name found so far.\<close>

lemma closure_loop_round:
  assumes "visits_all ord" and "finite names"
  shows "fst (closure_pass ord schemas names) = names \<union> (\<Union>n \<in> names. expansion ord schemas n)"
    and "snd (closure_pass ord schemas names) \<longleftrightarrow> \<not> (\<Union>n \<in> names. expansion ord schemas n) \<subseteq> names"
    and "finite (fst (closure_pass ord schemas names))"
proof -
  have "set (ord names) = names" using assms by (simp add: visits_all_def)
  then show 1: "fst (closure_pass ord schemas names) = names \<union> (\<Union>n \<in> names. expansion ord schemas n)"
    and "snd (closure_pass ord schemas names) \<longleftrightarrow> \<not> (\<Union>n \<in> names. expansion ord schemas n) \<subseteq> names"
    by (simp_all add: closure_pass_eq)
  show "finite (fst (closure_pass ord schemas names))"
    unfolding 1 using assms(2) by (auto intro: finite_subset [OF expansion_subset finite_all_expansions])
qed

lemma closure_loop_contains:
  "visits_all ord \<Longrightarrow> finite names \<Longrightarrow> names \<subseteq> closure_loop ord schemas names"
proof (induction ord schemas names rule: closure_loop.induct)
  case (1 ord schemas names)
  with closure_loop_round [OF 1(2,3), of schemas] show ?case
    by (subst closure_loop.simps) (auto simp: Let_def)
qed

lemma closure_loop_closed:
  "visits_all ord \<Longrightarrow> finite names \<Longrightarrow> n \<in> closure_loop ord schemas names \<Longrightarrow>
   expansion ord schemas n \<subseteq> closure_loop ord schemas names"
proof (induction ord schemas names rule: closure_loop.induct)
  case (1 ord schemas names)
  note round = closure_loop_round [OF 1(2,3), of schemas]
  have loop: "closure_loop ord schemas names = (let p = closure_pass ord schemas names in
      if snd p then closure_loop ord schemas (fst p) else fst p)"
    by (rule closure_loop.simps)
  show ?case
  proof (cases "snd (closure_pass ord schemas names)")
    case True
    with 1 round(3) loop show ?thesis by simp
  next
    case False
    with 1(4) round(1,2) loop show ?thesis by auto
  qed
qed

lemma closure_loop_least:
  "visits_all ord \<Longrightarrow> finite names \<Longrightarrow> names \<subseteq> R \<Longrightarrow> (\<And>n. n \<in> R \<Longrightarrow> expansion ord schemas n \<subseteq> R) \<Longrightarrow>
   closure_loop ord schemas names \<subseteq> R"
proof (induction ord schemas names rule: closure_loop.induct)
  case (1 ord schemas names)
  note round = closure_loop_round [OF 1(2,3), of schemas]
  have "fst (closure_pass ord schemas names) \<subseteq> R" using 1(4,5) round(1) by auto
  with 1 round(3) show ?case by (subst closure_loop.simps) (simp add: Let_def)
qed

lemma closure_loop_used_names:
  assumes "visits_all ord"
  shows "closure_loop ord (doc_schemas doc) (seed_refs doc) = used_names doc"
proof
  show "closure_loop ord (doc_schemas doc) (seed_refs doc) \<subseteq> used_names doc"
    using assms finite_seed_refs
    by (rule closure_loop_least)
      (auto simp: seed_refs_eq expansion_eq assms split: option.splits intro: used_names.intros)
next
  note contains = closure_loop_contains [OF assms finite_seed_refs, of doc "doc_schemas doc"]
  show "used_names doc \<subseteq> closure_loop ord (doc_schemas doc) (seed_refs doc)"
  proof
    fix n
    assume "n \<in> used_names doc"
    then show "n \<in> closure_loop ord (doc_schemas doc) (seed_refs doc)"
    proof induction
      case (model n m r)
      with closure_loop_closed [OF assms finite_seed_refs model(4)] show ?case
        by (auto simp: expansion_eq assms)
    qed (use contains in \<open>auto simp: seed_refs_eq\<close>)
  qed
qed

section \<open>Longest chains\<close>

definition ref_edge :: "ref_graph \<Rightarrow> string \<Rightarrow> string \<Rightarrow> bool" where
  "ref_edge graph n t \<longleftrightarrow> (case map_of graph n of None \<Rightarrow> False | Some ts \<Rightarrow> t \<in> set ts)"

text \<open>\<open>chain R n k\<close>: a chain of \<open>k\<close> references starts at \<open>n\<close>.\<close>

inductive chain :: "(string \<Rightarrow> string \<Rightarrow> bool) \<Rightarrow> string \<Rightarrow> nat \<Rightarrow> bool" for R where
  stop: "chain R n 0"
| step: "R n t \<Longrightarrow> chain R t k \<Longrightarrow> chain R n (Suc k)"

inductive_cases chain_SucE: "chain R n (Suc k)"

definition longest_chain :: "(string \<Rightarrow> string \<Rightarrow> bool) \<Rightarrow> string \<Rightarrow> nat \<Rightarrow> bool" where
  "longest_chain R n d \<longleftrightarrow> chain R n d \<and> (\<forall>k. chain R n k \<longrightarrow> k \<le> d)"

definition acyclic_refs :: "(string \<Rightarrow> string \<Rightarrow> bool) \<Rightarrow> bool" where
  "acyclic_refs R \<longleftrightarrow> (\<forall>n. \<not> R\<^sup>+\<^sup>+ n n)"

lemma longest_chain_leaf: "(\<And>t. \<not> ref_edge graph n t) \<Longrightarrow> longest_chain (ref_edge graph) n 0"
  unfolding longest_chain_def by (metis chain.cases chain.stop le0 le_refl)

lemma longest_chain_step:
  assumes "list_all2 (longest_chain (ref_edge graph)) ts ds" and "ts \<noteq> []" and "\<And>t. ref_edge graph n t \<longleftrightarrow> t \<in> set ts"
  shows "longest_chain (ref_edge graph) n (Max (set ds) + 1)"
proof -
  have "ds \<noteq> []" using assms(1,2) by auto
  then have "Max (set ds) \<in> set ds" by simp
  then obtain t where "t \<in> set ts" "longest_chain (ref_edge graph) t (Max (set ds))"
    using assms(1) by (auto simp: list_all2_conv_all_nth in_set_conv_nth) metis
  then have "chain (ref_edge graph) n (Max (set ds) + 1)"
    using assms(3) by (auto simp: longest_chain_def intro: chain.step)
  moreover have "k \<le> Max (set ds) + 1" if "chain (ref_edge graph) n k" for k
  proof (cases k)
    case (Suc j)
    with that obtain t where t: "t \<in> set ts" "chain (ref_edge graph) t j"
      using assms(3) by (auto elim: chain_SucE)
    then obtain d where "d \<in> set ds" "longest_chain (ref_edge graph) t d"
      using assms(1) by (auto simp: list_all2_conv_all_nth in_set_conv_nth) metis
    with t show ?thesis using Suc by (auto simp: longest_chain_def intro: le_trans Max_ge)
  qed simp
  ultimately show ?thesis by (simp add: longest_chain_def)
qed


text \<open>Names from which a name of the stack \<open>S\<close> can be reached are never asked for on acyclic graphs.\<close>

definition avoids :: "ref_graph \<Rightarrow> string \<Rightarrow> string set \<Rightarrow> bool" where
  "avoids graph n S \<longleftrightarrow> (\<forall>t. (ref_edge graph)\<^sup>*\<^sup>* n t \<longrightarrow> t \<notin> S)"

definition memo_ok :: "ref_graph \<Rightarrow> string set \<Rightarrow> (string \<rightharpoonup> nat) \<Rightarrow> bool" where
  "memo_ok graph S memo \<longleftrightarrow> (\<forall>n d. n \<notin> S \<longrightarrow> memo n = Some d \<longrightarrow> longest_chain (ref_edge graph) n d)"

lemma avoids_target:
  assumes "acyclic_refs (ref_edge graph)" and "avoids graph n S" and "ref_edge graph n t"
  shows "avoids graph t (insert n S)"
  using assms unfolding avoids_def acyclic_refs_def
  by (metis converse_rtranclp_into_rtranclp insertE rtranclp_into_tranclp2)

lemma memo_ok_upd: "memo_ok graph (insert n S) memo \<Longrightarrow> longest_chain (ref_edge graph) n d \<Longrightarrow> memo_ok graph S (memo(n \<mapsto> d))"
  by (auto simp: memo_ok_def)

lemma memo_ok_push: "memo_ok graph S memo \<Longrightarrow> memo_ok graph (insert n S) (memo(n \<mapsto> d))"
  by (auto simp: memo_ok_def)

lemma ref_depth_longest:
  assumes "acyclic_refs (ref_edge graph)"
  shows "ref_depth graph n memo = (d, memo') \<Longrightarrow> avoids graph n S \<Longrightarrow> memo_ok graph S memo \<Longrightarrow>
      longest_chain (ref_edge graph) n d \<and> memo_ok graph S memo'"
    and "ref_depths graph ts memo = (ds, memo') \<Longrightarrow> (\<And>t. t \<in> set ts \<Longrightarrow> avoids graph t S) \<Longrightarrow> memo_ok graph S memo \<Longrightarrow>
      list_all2 (longest_chain (ref_edge graph)) ts ds \<and> memo_ok graph S memo'"
  using assms
proof (induction graph n memo and graph ts memo arbitrary: d memo' S and ds memo' S rule: ref_depth_ref_depths.induct)
  case (1 graph n memo)
  have "n \<notin> S" using 1(3) by (auto simp: avoids_def)
  show ?case
  proof (cases "memo n")
    case (Some c)
    with 1(2,4) \<open>n \<notin> S\<close> show ?thesis by (auto simp: ref_depth.simps memo_ok_def)
  next
    case None
    note push = memo_ok_push [OF 1(4), of n 0]
    show ?thesis
    proof (cases "map_of graph n = None \<or> map_of graph n = Some []")
      case True
      then have "longest_chain (ref_edge graph) n 0" by (intro longest_chain_leaf) (auto simp: ref_edge_def)
      moreover have "d = 0" "memo' = memo(n \<mapsto> 0)"
        using True None 1(2) by (auto simp: ref_depth.simps Let_def)
      ultimately show ?thesis using memo_ok_upd [of graph n S memo 0] 1(4) by (auto simp: memo_ok_def)
    next
      case False
      then obtain targets where t: "map_of graph n = Some targets" "targets \<noteq> []" by auto
      obtain ds m where dm: "ref_depths graph targets (memo(n \<mapsto> 0)) = (ds, m)"
        by (cases "ref_depths graph targets (memo(n \<mapsto> 0))")
      have edges: "ref_edge graph n t \<longleftrightarrow> t \<in> set targets" for t using t by (simp add: ref_edge_def)
      have "list_all2 (longest_chain (ref_edge graph)) targets ds \<and> memo_ok graph (insert n S) m"
        using 1(1) [OF None refl t dm _ push 1(5)] avoids_target [OF 1(5,3)] edges by simp
      moreover from this have "longest_chain (ref_edge graph) n (Max (set ds) + 1)"
        using longest_chain_step edges t(2) by blast
      moreover have "d = Max (set ds) + 1" "memo' = m(n \<mapsto> d)"
        using None t dm 1(2) by (auto simp: ref_depth.simps Let_def fun_upd_def)
      ultimately show ?thesis using memo_ok_upd by blast
    qed
  qed
next
  case (2 graph memo)
  then show ?case by simp
next
  case (3 graph t ts memo)
  obtain e m where dm: "ref_depth graph t memo = (e, m)" by (cases "ref_depth graph t memo")
  obtain es m' where dm': "ref_depths graph ts m = (es, m')" by (cases "ref_depths graph ts m")
  have "longest_chain (ref_edge graph) t e \<and> memo_ok graph S m" using 3(1) [OF dm, of S] 3(4,5,6) by simp
  moreover from this have "list_all2 (longest_chain (ref_edge graph)) ts es \<and> memo_ok graph S m'"
    using 3(2) [OF dm [symmetric] dm', of S] 3(4,6) by simp
  ultimately show ?case using 3(3) dm dm' by auto
qed


section \<open>The report\<close>

record analysis_report =
  ar_total_schemas :: nat
  ar_total_operations :: nat
  ar_total_size_bytes :: nat
  ar_unused_schemas :: "string list"
  ar_duplicate_schemas :: "(string \<times> string) list"
  ar_deep_refs :: "(string \<times> nat) list"
  ar_large_schemas :: "(string \<times> nat) list"
  ar_recommendations :: "string list"

definition unused_schemas :: "(string set \<Rightarrow> string list) \<Rightarrow> document \<Rightarrow> string list" where
  "unused_schemas ord doc =
     (let referenced = closure_loop ord (doc_schemas doc) (seed_refs doc) in
      sort (filter (\<lambda>name. name \<notin> referenced) (map fst (doc_schemas doc))))"

text \<open>The loop over the schema names, which shares one memo table.\<close>

fun deep_refs_loop :: "ref_graph \<Rightarrow> string list \<Rightarrow> (string \<rightharpoonup> nat) \<Rightarrow> (string \<times> nat) list" where
  "deep_refs_loop graph [] memo = []"
| "deep_refs_loop graph (name # names) memo =
     (case ref_depth graph name memo of
        (depth, memo') \<Rightarrow>
          (if depth > 2 then [(name, depth)] else []) @ deep_refs_loop graph names memo')"

definition deep_refs :: "(string set \<Rightarrow> string list) \<Rightarrow> document \<Rightarrow> (string \<times> nat) list" where
  "deep_refs ord doc =
     sort_key (\<lambda>a. - int (snd a))
       (deep_refs_loop (build_ref_graph ord doc) (map fst (doc_schemas doc)) Map.empty)"

definition recommendations ::
  "string list \<Rightarrow> (string \<times> string) list \<Rightarrow> (string \<times> nat) list \<Rightarrow> (string \<times> nat) list \<Rightarrow> string list" where
  "recommendations unused duplicates large deep =
     (if unused \<noteq> []
      then [''Remove '' @ show_nat (length unused) @ '' unused schema(s): '' @ join '', '' unused] else [])
     @ (if duplicates \<noteq> []
        then [''Found '' @ show_nat (length duplicates) @ '' pair(s) of schemas with identical property sets.'']
        else [])
     @ map (\<lambda>(name, props). ''Schema '' @ [CHR 39] @ name @ [CHR 39] @ '' has '' @ show_nat props
              @ '' properties. Consider splitting.'') large
     @ map (\<lambda>(name, depth). ''Schema '' @ [CHR 39] @ name @ [CHR 39]
              @ '' has deep reference chain (depth '' @ show_nat depth @ '').'') deep"

text \<open>The size of the serialised document is that of the JSON writer, a parameter.\<close>

definition analyze_spec ::
  "(document \<Rightarrow> nat option) \<Rightarrow> (string set \<Rightarrow> string list) \<Rightarrow> (string list set \<Rightarrow> string list list)
   \<Rightarrow> document \<Rightarrow> analysis_report" where
  "analyze_spec to_vec_len ord ord_fps doc =
     (let unused = unused_schemas ord doc;
          large = large_schemas (doc_schemas doc);
          dupes = duplicate_schemas ord_fps (doc_schemas doc);
          deep = deep_refs ord doc
      in \<lparr>ar_total_schemas = length (doc_schemas doc),
          ar_total_operations = length (doc_operations doc),
          ar_total_size_bytes = (case to_vec_len doc of None \<Rightarrow> 0 | Some n \<Rightarrow> n),
          ar_unused_schemas = unused,
          ar_duplicate_schemas = dupes,
          ar_deep_refs = deep,
          ar_large_schemas = large,
          ar_recommendations = recommendations unused dupes large deep\<rparr>)"

lemma deep_refs_loop_longest:
  assumes "acyclic_refs (ref_edge graph)" and "memo_ok graph {} memo"
  shows "set (deep_refs_loop graph ns memo) = {(n, d). n \<in> set ns \<and> longest_chain (ref_edge graph) n d \<and> d > 2}"
  using assms(2)
proof (induction ns arbitrary: memo)
  case (Cons n ns)
  obtain d m where dm: "ref_depth graph n memo = (d, m)" by (cases "ref_depth graph n memo")
  have "longest_chain (ref_edge graph) n d \<and> memo_ok graph {} m"
    using ref_depth_longest(1) [OF assms(1) dm _ Cons.prems] by (simp add: avoids_def)
  moreover from this have "longest_chain (ref_edge graph) n d' \<longleftrightarrow> d' = d" for d'
    by (auto simp: longest_chain_def intro: le_antisym)
  ultimately show ?case using Cons.IH [of m] dm by auto
qed simp

lemma memo_ok_empty: "memo_ok graph S Map.empty"
  by (simp add: memo_ok_def)

text \<open>A schema refers to another when its model mentions it.\<close>

definition refers :: "document \<Rightarrow> string \<Rightarrow> string \<Rightarrow> bool" where
  "refers doc n t \<longleftrightarrow> (case registry_get (doc_schemas doc) n of None \<Rightarrow> False | Some m \<Rightarrow> t \<in> model_refs m)"

lemma map_of_build_ref_graph:
  "map_of (build_ref_graph ord doc) n =
     map_option (\<lambda>m. ord (collect_refs_from_model m {})) (registry_get (doc_schemas doc) n)"
proof -
  have "map_of (map (\<lambda>(name, model). (name, f model)) ms) n = map_option f (map_of ms n)" for ms and f :: "model \<Rightarrow> string list"
    by (induction ms) auto
  then show ?thesis by (simp add: build_ref_graph_def registry_get_def)
qed

lemma ref_edge_refers: "visits_all ord \<Longrightarrow> ref_edge (build_ref_graph ord doc) = refers doc"
  using finite_model_refs unfolding model_refs_def
  by (intro ext) (auto simp: ref_edge_def refers_def map_of_build_ref_graph visits_all_def model_refs_def split: option.splits)

section \<open>Duplicates\<close>

text \<open>The group of a fingerprint: the object schemas with it, in registry order.\<close>

definition fp_group :: "schema_registry \<Rightarrow> string list \<Rightarrow> string list" where
  "fp_group schemas fp = List.map_filter (\<lambda>(n, m). case m of
     MObject obj \<Rightarrow> if fingerprint obj = fp then Some n else None | MEnum _ \<Rightarrow> None) schemas"

lemma fold_add_fingerprint:
  "map_of (fold add_fingerprint schemas fps) fp =
     (let g = fp_group schemas fp in
      if g = [] then map_of fps fp
      else Some ((case map_of fps fp of None \<Rightarrow> [] | Some h \<Rightarrow> h) @ g))"
proof (induction schemas arbitrary: fps)
  case Nil
  show ?case by (simp add: fp_group_def map_filter_simps)
next
  case (Cons e schemas)
  obtain n m where e: "e = (n, m)" by (cases e)
  show ?case
  proof (cases m)
    case (MObject obj)
    then show ?thesis
      using Cons.IH by (auto simp: e add_fingerprint_def fp_group_def map_filter_simps Let_def map_laws split: option.splits)
  next
    case (MEnum en)
    then show ?thesis
      using Cons.IH by (auto simp: e add_fingerprint_def fp_group_def map_filter_simps)
  qed
qed

lemma map_of_fingerprints:
  "map_of (fold add_fingerprint schemas []) fp = (let g = fp_group schemas fp in if g = [] then None else Some g)"
  by (simp add: fold_add_fingerprint Let_def)


lemma keys_fingerprints:
  "fp \<in> set (map fst (fold add_fingerprint schemas [])) \<longleftrightarrow> fp_group schemas fp \<noteq> []"
  using map_of_fingerprints [of schemas fp] map_of_eq_None_iff [of "fold add_fingerprint schemas []" fp]
  by (auto simp: Let_def split: if_splits)

lemma set_group_pairs:
  "(a, b) \<in> set (group_pairs xs) \<longleftrightarrow> (\<exists>us vs ws. xs = us @ a # vs @ b # ws)"
proof (induction xs)
  case (Cons x xs)
  have "(a, b) \<in> set (group_pairs (x # xs)) \<longleftrightarrow> (a = x \<and> b \<in> set xs) \<or> (a, b) \<in> set (group_pairs xs)" by auto
  also have "\<dots> \<longleftrightarrow> (\<exists>us vs ws. x # xs = us @ a # vs @ b # ws)" (is "?L \<longleftrightarrow> ?R")
  proof
    assume ?L
    then show ?R
    proof
      assume "a = x \<and> b \<in> set xs"
      then obtain vs ws where "xs = vs @ b # ws" by (auto dest: split_list)
      with \<open>a = x \<and> b \<in> set xs\<close> show ?R by (intro exI [of _ "[]"] exI [of _ vs] exI [of _ ws]) simp
    next
      assume "(a, b) \<in> set (group_pairs xs)"
      then show ?R unfolding Cons.IH by (metis append_Cons)
    qed
  next
    assume ?R
    then obtain us vs ws where "x # xs = us @ a # vs @ b # ws" by blast
    then show ?L unfolding Cons.IH by (cases us) auto
  qed
  finally show ?case .
qed simp

text \<open>\<open>a\<close> comes before \<open>b\<close> in the registry and both are objects with the same property names.\<close>

definition same_properties :: "schema_registry \<Rightarrow> string \<Rightarrow> string \<Rightarrow> bool" where
  "same_properties schemas a b \<longleftrightarrow>
     (\<exists>us x vs y ws. schemas = us @ (a, MObject x) # vs @ (b, MObject y) # ws \<and>
        mset (map prop_name (om_properties x)) = mset (map prop_name (om_properties y)))"

lemma fp_group_append: "fp_group (xs @ ys) fp = fp_group xs fp @ fp_group ys fp"
  by (simp add: fp_group_def map_filter_def)

lemma fp_group_split:
  assumes "fp_group schemas fp = us @ a # vs"
  shows "\<exists>xs obj ys. schemas = xs @ (a, MObject obj) # ys \<and> fingerprint obj = fp \<and> fp_group ys fp = vs"
  using assms
proof (induction schemas arbitrary: us)
  case Nil
  then show ?case by (simp add: fp_group_def map_filter_simps)
next
  case (Cons e schemas)
  obtain n m where e: "e = (n, m)" by (cases e)
  show ?case
  proof (cases "\<exists>obj. m = MObject obj \<and> fingerprint obj = fp")
    case True
    then obtain obj where obj: "m = MObject obj" "fingerprint obj = fp" by blast
    then have "n # fp_group schemas fp = us @ a # vs"
      using Cons.prems by (simp add: e fp_group_def map_filter_simps)
    then consider "us = []" "n = a" "fp_group schemas fp = vs"
      | us' where "us = n # us'" "fp_group schemas fp = us' @ a # vs" by (cases us) auto
    then show ?thesis
    proof cases
      case 1
      with obj e show ?thesis by (intro exI [of _ "[]"] exI [of _ obj] exI [of _ schemas]) simp
    next
      case 2
      with Cons.IH obtain xs obj' ys where "schemas = xs @ (a, MObject obj') # ys" "fingerprint obj' = fp" "fp_group ys fp = vs"
        by blast
      then show ?thesis by (intro exI [of _ "e # xs"] exI [of _ obj'] exI [of _ ys]) simp
    qed
  next
    case False
    then have "fp_group schemas fp = us @ a # vs"
      using Cons.prems by (cases m) (auto simp: e fp_group_def map_filter_simps)
    with Cons.IH obtain xs obj ys where "schemas = xs @ (a, MObject obj) # ys" "fingerprint obj = fp" "fp_group ys fp = vs"
      by blast
    then show ?thesis by (intro exI [of _ "e # xs"] exI [of _ obj] exI [of _ ys]) simp
  qed
qed

lemma group_pairs_same_properties:
  "(\<exists>fp. (a, b) \<in> set (group_pairs (fp_group schemas fp))) \<longleftrightarrow> same_properties schemas a b" (is "?L \<longleftrightarrow> ?R")
proof
  assume ?L
  then obtain fp us vs ws where "fp_group schemas fp = us @ a # vs @ b # ws" by (auto simp: set_group_pairs)
  from fp_group_split [OF this] obtain xs x ys where
    1: "schemas = xs @ (a, MObject x) # ys" "fingerprint x = fp" "fp_group ys fp = vs @ b # ws" by blast
  from fp_group_split [OF 1(3)] obtain ys' y zs where
    "ys = ys' @ (b, MObject y) # zs" "fingerprint y = fp" by blast
  with 1 show ?R unfolding same_properties_def fingerprint_def
    by (metis mset_sort)
next
  assume ?R
  then obtain us x vs y ws where s: "schemas = us @ (a, MObject x) # vs @ (b, MObject y) # ws"
    and eq: "mset (map prop_name (om_properties x)) = mset (map prop_name (om_properties y))"
    unfolding same_properties_def by blast
  from eq have fp: "fingerprint y = fingerprint x"
    unfolding fingerprint_def by (metis properties_for_sort sorted_sort mset_sort)
  have cons: "fp_group ((n, MObject obj) # rest) fp = (if fingerprint obj = fp then [n] else []) @ fp_group rest fp"
    for n obj rest fp by (simp add: fp_group_def map_filter_simps)
  have "fp_group schemas (fingerprint x) = fp_group us (fingerprint x) @ a # fp_group vs (fingerprint x) @ b # fp_group ws (fingerprint x)"
    by (simp add: s fp_group_append cons fp)
  then show ?L unfolding set_group_pairs by blast
qed

lemma duplicate_schemas_pairs:
  assumes "visits_all ord"
  shows "sorted (duplicate_schemas ord schemas) \<and>
    ((a, b) \<in> set (duplicate_schemas ord schemas) \<longleftrightarrow> same_properties schemas a b)"
proof -
  let ?fps = "fold add_fingerprint schemas []"
  have small: "group_pairs g = []" if "\<not> length g > 1" for g :: "string list"
  proof (cases g)
    case (Cons x xs)
    with that show ?thesis by simp
  qed simp
  have "set (ord (set (map fst ?fps))) = set (map fst ?fps)"
    using assms unfolding visits_all_def by (meson List.finite_set)
  moreover have "(let group = the (map_of ?fps k) in if length group > 1 then group_pairs group else []) =
      group_pairs (fp_group schemas k)" if "k \<in> set (map fst ?fps)" for k
    using that small [of "fp_group schemas k"] unfolding keys_fingerprints
    by (simp add: map_of_fingerprints Let_def)
  ultimately have "(a, b) \<in> set (duplicate_schemas ord schemas) \<longleftrightarrow>
      (\<exists>fp \<in> set (map fst ?fps). (a, b) \<in> set (group_pairs (fp_group schemas fp)))"
    unfolding duplicate_schemas_def Let_def [of ?fps] by auto
  also have "\<dots> \<longleftrightarrow> (\<exists>fp. (a, b) \<in> set (group_pairs (fp_group schemas fp)))"
    unfolding keys_fingerprints [symmetric]
    by (metis (no_types) empty_iff empty_set group_pairs.simps(1) keys_fingerprints)
  finally show ?thesis
    by (simp add: group_pairs_same_properties) (simp add: duplicate_schemas_def Let_def)
qed

section \<open>Examples\<close>

definition ref_property :: "string \<Rightarrow> property" where
  "ref_property n =
     \<lparr>prop_name = n, prop_ty = TReference n False None, prop_required = True, prop_description = None\<rparr>"

definition ref_schema :: "string \<Rightarrow> string list \<Rightarrow> string \<times> model" where
  "ref_schema n ts =
     (n, MObject \<lparr>om_name = n, om_description = None, om_properties = map ref_property ts,
                  om_additional_properties = None, om_shape_type = None, om_base_type = None\<rparr>)"

definition schema_doc :: "schema_registry \<Rightarrow> string list \<Rightarrow> document" where
  "schema_doc schemas used =
     \<lparr>doc_ir_version = IR_VERSION, doc_title = [], doc_version = [], doc_base_url = None, doc_security = [],
      doc_schemas = schemas, doc_operations = [], doc_webhooks =
        map (\<lambda>n. \<lparr>wh_name = n, wh_method = Post, wh_path = n, wh_summary = None, wh_description = None,
          wh_request_body = Some \<lparr>rb_ty = TReference n False None, rb_required = True, rb_description = None\<rparr>,
          wh_responses = []\<rparr>) used\<rparr>"

definition chain_doc :: document where
  "chain_doc = schema_doc [ref_schema ''A'' [''B''], ref_schema ''B'' [''C''], ref_schema ''C'' [''D''],
     ref_schema ''D'' [], ref_schema ''E'' [''B'']] [''A'']"

definition cyclic_doc :: document where
  "cyclic_doc = schema_doc [ref_schema ''A'' [''B'', ''C''], ref_schema ''B'' [''C'', ''D''],
     ref_schema ''C'' [''B''], ref_schema ''D'' [''E'']] []"

lemma visits_all_sorted: "visits_all (sorted_list_of_set :: string set \<Rightarrow> string list)"
  by (simp add: visits_all_def)

lemma visits_all_sorted_fps: "visits_all (sorted_list_of_set :: string list set \<Rightarrow> string list list)"
  by (simp add: visits_all_def)

lemma visits_all_rev: "visits_all ord \<Longrightarrow> visits_all (rev \<circ> ord)"
  by (simp add: visits_all_def)

lemma acyclic_refsI: "(\<And>n t. R n t \<Longrightarrow> (rank t :: nat) < rank n) \<Longrightarrow> acyclic_refs R"
proof -
  assume dec: "\<And>n t. R n t \<Longrightarrow> rank t < rank n"
  have "rank t < rank n" if "R\<^sup>+\<^sup>+ n t" for n t
    using that by (induction rule: tranclp_induct) (auto dest: dec intro: less_trans)
  then show ?thesis unfolding acyclic_refs_def by blast
qed

lemma acyclic_chain_doc: "acyclic_refs (refers chain_doc)"
  by (rule acyclic_refsI [of _ "\<lambda>n. if n = ''A'' \<or> n = ''E'' then 4 else if n = ''B'' then 3 else if n = ''C'' then 2 else 0"])
    (auto simp: refers_def chain_doc_def schema_doc_def ref_schema_def ref_property_def registry_get_def
      model_refs_eq split: if_splits)

section \<open>Properties\<close>

text \<open>
  C16. The analyzer's unused schemas are, in sorted order and once each, exactly the registered
  schemas that no request or response body of an operation or webhook reaches through references
  of models; the order in which hash sets are visited does not matter.
\<close>

theorem unused_schemas_exact:
  assumes "visits_all ord" and "im_invar (doc_schemas doc)"
  shows "sorted (ar_unused_schemas (analyze_spec len ord ord_fps doc)) \<and>
    distinct (ar_unused_schemas (analyze_spec len ord ord_fps doc)) \<and>
    (n \<in> set (ar_unused_schemas (analyze_spec len ord ord_fps doc)) \<longleftrightarrow>
       n \<in> fst ` set (doc_schemas doc) \<and> n \<notin> used_names doc)"
  using assms
  by (auto simp: analyze_spec_def unused_schemas_def Let_def closure_loop_used_names im_invar_def)

theorem unused_schemas_exact_witness:
  "ar_unused_schemas (analyze_spec (\<lambda>_. None) sorted_list_of_set sorted_list_of_set chain_doc) = [''E''] \<and>
   ''E'' \<notin> used_names chain_doc \<and> ''D'' \<in> used_names chain_doc"
proof -
  let ?report = "analyze_spec (\<lambda>_. None) sorted_list_of_set sorted_list_of_set chain_doc"
  have run: "ar_unused_schemas ?report = [''E'']" by code_simp
  have "n \<in> set (ar_unused_schemas ?report) \<longleftrightarrow> n \<in> fst ` set (doc_schemas chain_doc) \<and> n \<notin> used_names chain_doc" for n
    using unused_schemas_exact [OF visits_all_sorted, of chain_doc "\<lambda>_. None" sorted_list_of_set n]
    by (simp add: im_invar_def chain_doc_def schema_doc_def ref_schema_def)
  from this [of "''E''"] this [of "''D''"] run show ?thesis
    by (simp add: chain_doc_def schema_doc_def ref_schema_def)
qed

text \<open>
  When schemas do not refer to each other in a cycle, the memoised depth search is exact: the
  deep-reference report lists a schema with depth \<open>d\<close> exactly when its longest chain of references
  has \<open>d\<close> links and \<open>d\<close> exceeds two.
\<close>

theorem deep_refs_exact:
  assumes "visits_all ord" and "acyclic_refs (refers doc)"
  shows "(n, d) \<in> set (ar_deep_refs (analyze_spec len ord ord_fps doc)) \<longleftrightarrow>
    n \<in> fst ` set (doc_schemas doc) \<and> longest_chain (refers doc) n d \<and> d > 2"
proof -
  have edge: "ref_edge (build_ref_graph ord doc) = refers doc" using assms(1) by (rule ref_edge_refers)
  show ?thesis
    using deep_refs_loop_longest [OF _ memo_ok_empty, of "build_ref_graph ord doc"] assms(2)
    by (simp add: analyze_spec_def Let_def deep_refs_def edge)
qed

theorem deep_refs_exact_witness:
  "ar_deep_refs (analyze_spec (\<lambda>_. None) sorted_list_of_set sorted_list_of_set chain_doc) =
     [(''A'', 3), (''E'', 3)] \<and> longest_chain (refers chain_doc) ''A'' 3"
proof -
  let ?report = "analyze_spec (\<lambda>_. None) sorted_list_of_set sorted_list_of_set chain_doc"
  have run: "ar_deep_refs ?report = [(''A'', 3), (''E'', 3)]" by code_simp
  then have "longest_chain (refers chain_doc) ''A'' 3"
    using deep_refs_exact [OF visits_all_sorted acyclic_chain_doc, of "''A''" 3 "\<lambda>_. None" sorted_list_of_set] by simp
  with run show ?thesis by simp
qed

text \<open>
  The duplicate report is sorted and lists exactly the pairs of object schemas, the earlier
  one first, whose property names agree as multisets.
\<close>

theorem duplicate_schemas_exact:
  assumes "visits_all ord_fps"
  shows "sorted (ar_duplicate_schemas (analyze_spec len ord ord_fps doc)) \<and>
    ((a, b) \<in> set (ar_duplicate_schemas (analyze_spec len ord ord_fps doc)) \<longleftrightarrow> same_properties (doc_schemas doc) a b)"
  using duplicate_schemas_pairs [OF assms] by (simp add: analyze_spec_def Let_def)

theorem duplicate_schemas_exact_witness:
  "ar_duplicate_schemas (analyze_spec (\<lambda>_. None) sorted_list_of_set sorted_list_of_set chain_doc) = [(''A'', ''E'')] \<and>
   same_properties (doc_schemas chain_doc) ''A'' ''E''"
proof -
  let ?report = "analyze_spec (\<lambda>_. None) sorted_list_of_set sorted_list_of_set chain_doc"
  have run: "ar_duplicate_schemas ?report = [(''A'', ''E'')]" by code_simp
  with duplicate_schemas_exact [OF visits_all_sorted_fps, of "\<lambda>_. None" sorted_list_of_set chain_doc "''A''" "''E''"]
  show ?thesis by simp
qed

text \<open>
  On schemas that refer to each other in a cycle the depths depend on the order in which hash
  sets are visited: the same document gets two different deep-reference reports.
\<close>

theorem deep_refs_order_dependent:
  "\<exists>ord1 ord2. visits_all ord1 \<and> visits_all ord2 \<and>
     ar_deep_refs (analyze_spec len ord1 ord_fps cyclic_doc) = [(''A'', 3)] \<and>
     ar_deep_refs (analyze_spec len ord2 ord_fps cyclic_doc) = [(''A'', 4), (''C'', 3)]"
proof (intro exI conjI)
  show "visits_all (sorted_list_of_set :: string set \<Rightarrow> string list)" by (rule visits_all_sorted)
  then show "visits_all (rev \<circ> sorted_list_of_set :: string set \<Rightarrow> string list)" by (rule visits_all_rev)
  have "deep_refs sorted_list_of_set cyclic_doc = [(''A'', 3)]" by code_simp
  then show "ar_deep_refs (analyze_spec len sorted_list_of_set ord_fps cyclic_doc) = [(''A'', 3)]"
    by (simp add: analyze_spec_def Let_def)
  have "deep_refs (rev \<circ> sorted_list_of_set) cyclic_doc = [(''A'', 4), (''C'', 3)]" by code_simp
  then show "ar_deep_refs (analyze_spec len (rev \<circ> sorted_list_of_set) ord_fps cyclic_doc) = [(''A'', 4), (''C'', 3)]"
    by (simp add: analyze_spec_def Let_def)
qed

text \<open>The types of parameters are not looked at: a schema only they use is reported as unused.\<close>

lemma unused_schemas_ignore_parameters:
  "ar_unused_schemas (analyze_spec len ord ord_fps
       (doc\<lparr>doc_operations := map (\<lambda>op. op\<lparr>op_parameters := ps op\<rparr>) (doc_operations doc)\<rparr>)) =
   ar_unused_schemas (analyze_spec len ord ord_fps doc)"
  by (simp add: analyze_spec_def Let_def unused_schemas_def seed_refs_def fold_map o_def)

end
