(* ===== verification/Calendar.thy ===== *)
theory Calendar
  imports Prelude
begin

text \<open>
  Dates without a date library: \<open>current_date\<close> of crates/specforge-core/src/changelog.rs and
  \<open>chrono_free_timestamp\<close> of the three emitters, which share its loops. The system clock is the
  argument \<open>secs\<close>, a \<open>u64\<close>; the counters of the loops are \<open>i64\<close> in the source and stay far below its
  bound, so they are integers here.
\<close>

section \<open>The loops\<close>

definition is_leap :: "int \<Rightarrow> bool" where
  "is_leap y \<longleftrightarrow> (y mod 4 = 0 \<and> y mod 100 \<noteq> 0) \<or> y mod 400 = 0"

definition days_in_year :: "int \<Rightarrow> int" where
  "days_in_year y = (if is_leap y then 366 else 365)"

function year_loop :: "int \<Rightarrow> int \<Rightarrow> int \<times> int" where
  "year_loop y remaining =
     (if remaining < days_in_year y then (y, remaining)
      else year_loop (y + 1) (remaining - days_in_year y))"
  by pat_completeness auto
termination
  by (relation "measure (\<lambda>(y, remaining). nat (remaining + 1))") (auto simp: days_in_year_def split: if_splits)

declare year_loop.simps [simp del]

definition month_days :: "int \<Rightarrow> int list" where
  "month_days y = [31, if is_leap y then 29 else 28, 31, 30, 31, 30, 31, 31, 30, 31, 30, 31]"

fun month_loop :: "int list \<Rightarrow> nat \<Rightarrow> int \<Rightarrow> nat \<times> int" where
  "month_loop [] m remaining = (m, remaining)"
| "month_loop (md # mds) m remaining =
     (if remaining < md then (m, remaining) else month_loop mds (m + 1) (remaining - md))"

definition civil :: "int \<Rightarrow> int \<times> nat \<times> int" where
  "civil days =
     (let (y, remaining) = year_loop 1970 days;
          (m, remaining') = month_loop (month_days y) 1 remaining
      in (y, m, remaining' + 1))"

text \<open>\<open>{:0w}\<close> of a non-negative number.\<close>

definition pad0 :: "nat \<Rightarrow> nat \<Rightarrow> string" where
  "pad0 w n = replicate (w - length (show_nat n)) (CHR ''0'') @ show_nat n"

definition date_str :: "int \<times> nat \<times> int \<Rightarrow> string" where
  "date_str ymd = (case ymd of (y, m, d) \<Rightarrow> pad0 4 (nat y) @ ''-'' @ pad0 2 m @ ''-'' @ pad0 2 (nat d))"

definition current_date :: "64 word \<Rightarrow> string" where
  "current_date secs = date_str (civil (uint (secs div 86400)))"

definition chrono_free_timestamp :: "64 word \<Rightarrow> string" where
  "chrono_free_timestamp secs =
     (let days = secs div 86400;
          time_of_day = secs mod 86400;
          hours = time_of_day div 3600;
          minutes = (time_of_day mod 3600) div 60;
          seconds = time_of_day mod 60
      in date_str (civil (uint days)) @ ''T'' @ pad0 2 (unat hours) @ '':'' @ pad0 2 (unat minutes)
           @ '':'' @ pad0 2 (unat seconds) @ ''Z'')"

section \<open>The calendar they compute\<close>

text \<open>
  The Gregorian calendar by formula: the number of leap years before a year, and the day number of
  a date counted from the first of January 1970.
\<close>

definition leaps_before :: "int \<Rightarrow> int" where
  "leaps_before y = (y - 1) div 4 - (y - 1) div 100 + (y - 1) div 400"

definition day_number :: "int \<Rightarrow> nat \<Rightarrow> int \<Rightarrow> int" where
  "day_number y m d =
     365 * (y - 1970) + (leaps_before y - leaps_before 1970) + sum_list (take (m - 1) (month_days y)) + (d - 1)"

definition valid_date :: "int \<Rightarrow> nat \<Rightarrow> int \<Rightarrow> bool" where
  "valid_date y m d \<longleftrightarrow> 1970 \<le> y \<and> 1 \<le> m \<and> m \<le> 12 \<and> 1 \<le> d \<and> d \<le> month_days y ! (m - 1)"

lemma div_step: "k > 0 \<Longrightarrow> y div k = (y - 1) div k + (if y mod k = 0 then 1 else 0)" for y k :: int
proof -
  assume k: "k > 0"
  have y: "y = k * (y div k) + y mod k" by simp
  show ?thesis
  proof (cases "y mod k = 0")
    case True
    then have "(y - 1) div k = y div k - 1"
      using k y by (intro int_div_pos_eq [of _ _ _ "k - 1"]) (auto simp: algebra_simps)
    with True show ?thesis by simp
  next
    case False
    then have "0 < y mod k" using k by (simp add: le_neq_trans)
    then have "(y - 1) div k = y div k"
      using k y pos_mod_bound [OF k, of y] by (intro int_div_pos_eq [of _ _ _ "y mod k - 1"]) (auto simp: algebra_simps)
    with False show ?thesis by simp
  qed
qed

lemma leaps_before_step: "leaps_before (y + 1) = leaps_before y + (if is_leap y then 1 else 0)"
proof -
  have "400 dvd y \<Longrightarrow> 100 dvd y" "100 dvd y \<Longrightarrow> 4 dvd y"
    using dvd_trans [of 100 400 y] dvd_trans [of 4 100 y] by simp_all
  moreover have "leaps_before (y + 1) = leaps_before y + ((if 4 dvd y then 1 else 0)
      - (if 100 dvd y then 1 else 0) + (if 400 dvd y then 1 else 0))"
    using div_step [of 4 y] div_step [of 100 y] div_step [of 400 y]
    unfolding leaps_before_def mod_eq_0_iff_dvd by simp
  ultimately show ?thesis
    unfolding is_leap_def mod_eq_0_iff_dvd by (cases "4 dvd y"; cases "100 dvd y"; cases "400 dvd y") simp_all
qed

definition year_start :: "int \<Rightarrow> int" where
  "year_start y = 365 * (y - 1970) + (leaps_before y - leaps_before 1970)"

lemma year_start_step: "year_start (y + 1) = year_start y + days_in_year y"
  by (simp add: year_start_def leaps_before_step days_in_year_def)

lemma year_loop_spec:
  "0 \<le> remaining \<Longrightarrow> year_loop y remaining = (y', r) \<Longrightarrow>
   y \<le> y' \<and> 0 \<le> r \<and> r < days_in_year y' \<and> year_start y' + r = year_start y + remaining"
proof (induction y remaining rule: year_loop.induct)
  case (1 y remaining)
  show ?case
  proof (cases "remaining < days_in_year y")
    case True
    with 1 show ?thesis by (simp add: year_loop.simps [of y])
  next
    case False
    with 1 have "y + 1 \<le> y' \<and> 0 \<le> r \<and> r < days_in_year y' \<and>
        year_start y' + r = year_start (y + 1) + (remaining - days_in_year y)"
      by (simp add: year_loop.simps [of y])
    then show ?thesis by (simp add: year_start_step)
  qed
qed

lemma month_loop_spec:
  "0 \<le> remaining \<Longrightarrow> remaining < sum_list mds \<Longrightarrow> \<exists>k r. month_loop mds m remaining = (m + k, r) \<and>
   k < length mds \<and> 0 \<le> r \<and> r < mds ! k \<and> sum_list (take k mds) + r = remaining"
proof (induction mds arbitrary: m remaining)
  case (Cons md mds)
  show ?case
  proof (cases "remaining < md")
    case True
    with Cons.prems show ?thesis by (intro exI [of _ 0] exI [of _ remaining]) simp
  next
    case False
    with Cons.prems Cons.IH [of "remaining - md" "m + 1"] obtain k r where
      "month_loop mds (m + 1) (remaining - md) = (m + 1 + k, r)" "k < length mds" "0 \<le> r" "r < mds ! k"
      "sum_list (take k mds) + r = remaining - md" by auto
    with False show ?thesis by (intro exI [of _ "Suc k"] exI [of _ r]) simp
  qed
qed simp

lemma sum_month_days: "sum_list (month_days y) = days_in_year y"
  by (simp add: month_days_def days_in_year_def)

lemma length_month_days [simp]: "length (month_days y) = 12"
  by (simp add: month_days_def)

lemma civil_day_number:
  assumes "0 \<le> days" and "civil days = (y, m, d)"
  shows "valid_date y m d \<and> day_number y m d = days"
proof -
  obtain r where yl: "year_loop 1970 days = (y, r)"
    using assms(2) by (cases "year_loop 1970 days") (auto simp: civil_def split: prod.splits)
  from year_loop_spec [OF assms(1) yl] have y: "1970 \<le> y" "0 \<le> r" "r < days_in_year y"
    "year_start y + r = days" by (simp_all add: year_start_def)
  with month_loop_spec [of r "month_days y" 1] obtain k r' where
    "month_loop (month_days y) 1 r = (1 + k, r')" "k < 12" "0 \<le> r'" "r' < month_days y ! k"
    "sum_list (take k (month_days y)) + r' = r" by (auto simp: sum_month_days)
  moreover from this have "m = 1 + k" "d = r' + 1" using assms(2) yl by (auto simp: civil_def)
  ultimately show ?thesis using y by (auto simp: valid_date_def day_number_def year_start_def)
qed


text \<open>Later dates have larger day numbers.\<close>

lemma year_start_mono: "y < y' \<Longrightarrow> year_start y + days_in_year y \<le> year_start y'"
proof (induction "nat (y' - y)" arbitrary: y')
  case (Suc k)
  show ?case
  proof (cases "y' = y + 1")
    case False
    with Suc have "year_start y + days_in_year y \<le> year_start (y' - 1)" by auto
    also have "\<dots> \<le> year_start y'" using year_start_step [of "y' - 1"] by (simp add: days_in_year_def)
    finally show ?thesis .
  qed (simp add: year_start_step)
qed simp

lemma month_days_nonneg: "x \<in> set (month_days y) \<Longrightarrow> 0 \<le> x"
  by (auto simp: month_days_def split: if_splits)

lemma sum_take_mono:
  assumes "\<And>x. x \<in> set xs \<Longrightarrow> (0 :: int) \<le> x" and "i \<le> j"
  shows "sum_list (take i xs) \<le> sum_list (take j xs)"
proof -
  have "take j xs = take i xs @ take (j - i) (drop i xs)" using assms(2) by (metis le_add_diff_inverse take_add)
  moreover have "0 \<le> sum_list (take (j - i) (drop i xs))"
    by (rule sum_list_nonneg) (use assms(1) in \<open>auto dest: in_set_takeD in_set_dropD\<close>)
  ultimately show ?thesis by simp
qed

lemma sum_take_Suc: "i < length xs \<Longrightarrow> sum_list (take (Suc i) xs) = sum_list (take i xs) + xs ! i" for xs :: "int list"
  by (simp add: take_Suc_conv_app_nth)

definition year_day :: "int \<Rightarrow> nat \<Rightarrow> int \<Rightarrow> int" where
  "year_day y m d = sum_list (take (m - 1) (month_days y)) + (d - 1)"

lemma month_end_le:
  assumes "1 \<le> m" and "m \<le> 12" and "m \<le> k"
  shows "sum_list (take (m - 1) (month_days y)) + month_days y ! (m - 1) \<le> sum_list (take k (month_days y))"
proof -
  have "sum_list (take (m - 1) (month_days y)) + month_days y ! (m - 1) = sum_list (take (Suc (m - 1)) (month_days y))"
    using assms by (intro sum_take_Suc [symmetric]) simp
  also have "\<dots> \<le> sum_list (take k (month_days y))"
    using assms month_days_nonneg by (intro sum_take_mono) auto
  finally show ?thesis .
qed

lemma year_day_bounds: "valid_date y m d \<Longrightarrow> 0 \<le> year_day y m d \<and> year_day y m d < days_in_year y"
proof -
  assume v: "valid_date y m d"
  have "0 \<le> sum_list (take (m - 1) (month_days y))"
    by (rule sum_list_nonneg) (auto dest: in_set_takeD month_days_nonneg)
  moreover have "sum_list (take (m - 1) (month_days y)) + month_days y ! (m - 1) \<le> sum_list (month_days y)"
    using v month_end_le [of m 12 y] by (simp add: valid_date_def)
  ultimately show ?thesis using v by (simp add: year_day_def valid_date_def sum_month_days)
qed

lemma day_number_eq: "day_number y m d = year_start y + year_day y m d"
  by (simp add: day_number_def year_start_def year_day_def)

lemma year_day_less:
  assumes "valid_date y m d" and "valid_date y m' d'" and "m < m' \<or> m = m' \<and> d < d'"
  shows "year_day y m d < year_day y m' d'"
  using assms(3)
proof
  assume "m < m'"
  then have "sum_list (take (m - 1) (month_days y)) + month_days y ! (m - 1) \<le> sum_list (take (m' - 1) (month_days y))"
    using assms(1,2) by (intro month_end_le) (auto simp: valid_date_def)
  with assms(1,2) show ?thesis by (simp add: year_day_def valid_date_def)
qed (simp add: year_day_def)

definition date_less :: "int \<times> nat \<times> int \<Rightarrow> int \<times> nat \<times> int \<Rightarrow> bool" where
  "date_less a b \<longleftrightarrow> (case (a, b) of ((y, m, d), (y', m', d')) \<Rightarrow>
     y < y' \<or> y = y' \<and> (m < m' \<or> m = m' \<and> d < d'))"

lemma day_number_mono:
  assumes "valid_date y m d" and "valid_date y' m' d'" and "date_less (y, m, d) (y', m', d')"
  shows "day_number y m d < day_number y' m' d'"
proof (cases "y < y'")
  case True
  with year_start_mono [of y y'] year_day_bounds [OF assms(1)] year_day_bounds [OF assms(2)] show ?thesis
    by (simp add: day_number_eq)
next
  case False
  with assms year_day_less [of y m d m' d'] show ?thesis by (auto simp: day_number_eq date_less_def)
qed

lemma date_less_linear: "a = b \<or> date_less a b \<or> date_less b a"
  by (cases a; cases b) (auto simp: date_less_def)

lemma civil_mono:
  assumes "0 \<le> i" and "i < j"
  shows "date_less (civil i) (civil j)"
proof -
  obtain y m d where ci: "civil i = (y, m, d)" by (cases "civil i")
  obtain y' m' d' where cj: "civil j = (y', m', d')" by (cases "civil j")
  have vi: "valid_date y m d" "day_number y m d = i" using civil_day_number [OF assms(1) ci] by auto
  have vj: "valid_date y' m' d'" "day_number y' m' d' = j" using civil_day_number [OF _ cj] assms by auto
  have "\<not> date_less (y', m', d') (y, m, d)" using day_number_mono [OF vj(1) vi(1)] vi vj assms(2) by auto
  moreover have "(y, m, d) \<noteq> (y', m', d')" using vi vj assms(2) by auto
  ultimately show ?thesis using date_less_linear ci cj by metis
qed

lemma valid_day_number_nonneg: "valid_date y m d \<Longrightarrow> 0 \<le> day_number y m d"
  using year_start_mono [of 1970 y] year_day_bounds [of y m d]
  by (cases "y = 1970") (auto simp: day_number_eq valid_date_def year_start_def days_in_year_def split: if_splits)

lemma civil_of_day_number: "valid_date y m d \<Longrightarrow> civil (day_number y m d) = (y, m, d)"
proof -
  assume v: "valid_date y m d"
  obtain y' m' d' where c: "civil (day_number y m d) = (y', m', d')" by (cases "civil (day_number y m d)")
  have "valid_date y' m' d' \<and> day_number y' m' d' = day_number y m d"
    using civil_day_number [OF valid_day_number_nonneg [OF v] c] .
  with v have "\<not> date_less (y, m, d) (y', m', d')" "\<not> date_less (y', m', d') (y, m, d)"
    using day_number_mono [of y m d y' m' d'] day_number_mono [of y' m' d' y m d] by auto
  with date_less_linear c show ?thesis by metis
qed

section \<open>Timestamps sort by time\<close>

text \<open>The last \<open>w\<close> decimal digits of a number.\<close>

fun fixed_digits :: "nat \<Rightarrow> nat \<Rightarrow> string" where
  "fixed_digits 0 n = []"
| "fixed_digits (Suc w) n = fixed_digits w (n div 10) @ [digit_char (n mod 10)]"

lemma length_fixed_digits [simp]: "length (fixed_digits w n) = w"
  by (induction w n rule: fixed_digits.induct) auto

lemma fixed_digits_0: "fixed_digits w 0 = replicate w (CHR ''0'')"
proof -
  have "digit_char 0 = CHR ''0''" by code_simp
  then show ?thesis by (induction w) (auto simp: replicate_append_same)
qed

lemma show_nat_fixed: "n < 10 ^ Suc w \<Longrightarrow> \<exists>k \<le> w. show_nat n = fixed_digits (Suc k) n \<and> n < 10 ^ Suc k"
proof (induction w arbitrary: n)
  case 0
  then show ?case by (simp add: show_nat.simps [of n])
next
  case (Suc w)
  show ?case
  proof (cases "n < 10")
    case True
    then show ?thesis by (intro exI [of _ 0]) (simp add: show_nat.simps [of n])
  next
    case False
    have "n div 10 < 10 ^ Suc w" using Suc.prems by (simp add: less_mult_imp_div_less mult.commute)
    with Suc.IH obtain k where k: "k \<le> w" "show_nat (n div 10) = fixed_digits (Suc k) (n div 10)" "n div 10 < 10 ^ Suc k"
      by blast
    from k(3) have "n < 10 ^ Suc (Suc k)" by (simp add: div_less_iff_less_mult mult.commute)
    with False k show ?thesis by (intro exI [of _ "Suc k"]) (simp add: show_nat.simps [of n])
  qed
qed

lemma fixed_digits_pad: "n < 10 ^ k \<Longrightarrow> k \<le> w \<Longrightarrow> fixed_digits w n = replicate (w - k) (CHR ''0'') @ fixed_digits k n"
proof (induction k arbitrary: w n)
  case 0
  then show ?case by (simp add: fixed_digits_0)
next
  case (Suc k)
  then obtain v where w: "w = Suc v" by (cases w) auto
  have "n div 10 < 10 ^ k" using Suc.prems(1) by (simp add: less_mult_imp_div_less mult.commute)
  with Suc.IH [of "n div 10" v] Suc.prems w show ?case by simp
qed

lemma pad0_fixed: "n < 10 ^ Suc w \<Longrightarrow> pad0 (Suc w) n = fixed_digits (Suc w) n"
proof -
  assume "n < 10 ^ Suc w"
  then obtain k where "k \<le> w" "show_nat n = fixed_digits (Suc k) n" "n < 10 ^ Suc k"
    using show_nat_fixed by blast
  then show ?thesis using fixed_digits_pad [of n "Suc k" "Suc w"] by (simp add: pad0_def del: fixed_digits.simps power_Suc)
qed

lemma less_append_suffix: "a < b \<Longrightarrow> length a = length b \<Longrightarrow> a @ x < b @ y" for a b :: string
  unfolding list_less_def by (simp add: lexord_sufI)

lemma less_append_prefix: "x < y \<Longrightarrow> a @ x < a @ y" for a :: string
  unfolding list_less_def by (rule lexord_append_leftI)

lemma digit_char_less: "i < j \<Longrightarrow> j < 10 \<Longrightarrow> [digit_char i] < [digit_char j]"
  by (simp add: digit_char_def less_char_def)

lemma fixed_digits_less: "n < m \<Longrightarrow> m < 10 ^ w \<Longrightarrow> fixed_digits w n < fixed_digits w m"
proof (induction w arbitrary: n m)
  case (Suc w)
  have m: "m div 10 < 10 ^ w" using Suc.prems(2) by (simp add: less_mult_imp_div_less mult.commute)
  show ?case
  proof (cases "n div 10 < m div 10")
    case True
    with Suc.IH m show ?thesis by (auto intro: less_append_suffix)
  next
    case False
    then have "n div 10 = m div 10" using Suc.prems(1) by (meson div_le_mono le_antisym less_imp_le not_less)
    moreover from this have "n mod 10 < m mod 10" using Suc.prems(1)
      by (metis div_mult_mod_eq nat_add_left_cancel_less)
    ultimately show ?thesis using less_append_prefix [OF digit_char_less [of "n mod 10" "m mod 10"]] by simp
  qed
qed simp


lemma pad0_less: "n < m \<Longrightarrow> m < 10 ^ Suc w \<Longrightarrow> pad0 (Suc w) n < pad0 (Suc w) m"
  using fixed_digits_less [of n m "Suc w"] by (simp add: pad0_fixed del: fixed_digits.simps power_Suc)

lemma length_pad0: "n < 10 ^ Suc w \<Longrightarrow> length (pad0 (Suc w) n) = Suc w"
  by (simp add: pad0_fixed del: fixed_digits.simps power_Suc)

lemmas pad0_2_less = pad0_less [of _ _ 1, simplified, folded numeral_2_eq_2]
lemmas pad0_4_less = pad0_less [of _ _ 3, simplified]
lemmas length_pad0_2 = length_pad0 [of _ 1, simplified, folded numeral_2_eq_2]
lemmas length_pad0_4 = length_pad0 [of _ 3, simplified]

lemma valid_date_small: "valid_date y m d \<Longrightarrow> 1 \<le> m \<and> m < 100 \<and> 1 \<le> d \<and> d < 100"
proof -
  assume v: "valid_date y m d"
  have "month_days y ! (m - 1) \<in> set (month_days y)"
    using v by (intro nth_mem) (auto simp: valid_date_def)
  then have "month_days y ! (m - 1) \<le> 31" by (auto simp: month_days_def split: if_splits)
  with v show ?thesis by (simp add: valid_date_def)
qed

lemma date_str_less:
  assumes "valid_date y m d" and "valid_date y' m' d'" and "y' < 10000" and "date_less (y, m, d) (y', m', d')"
  shows "date_str (y, m, d) < date_str (y', m', d')"
proof -
  note small = valid_date_small [OF assms(1)] valid_date_small [OF assms(2)]
  have y: "0 \<le> y" "y \<le> y'" using assms(1,4) by (auto simp: valid_date_def date_less_def)
  consider "y < y'" | "y = y'" "m < m'" | "y = y'" "m = m'" "d < d'"
    using assms(4) by (auto simp: date_less_def)
  then show ?thesis
  proof cases
    case 1
    then have "pad0 4 (nat y) < pad0 4 (nat y')" using y assms(3) by (intro pad0_4_less) auto
    then show ?thesis unfolding date_str_def
      using y assms(3) by (auto intro!: less_append_suffix simp: length_pad0_4)
  next
    case 2
    then have "pad0 2 m < pad0 2 m'" using small by (intro pad0_2_less) auto
    with 2 show ?thesis unfolding date_str_def
      using small by (auto intro!: less_append_prefix less_append_suffix simp: length_pad0_2)
  next
    case 3
    then have "pad0 2 (nat d) < pad0 2 (nat d')" using small by (intro pad0_2_less) auto
    with 3 show ?thesis unfolding date_str_def by (auto intro!: less_append_prefix)
  qed
qed

lemma length_date_str: "valid_date y m d \<Longrightarrow> y < 10000 \<Longrightarrow> length (date_str (y, m, d)) = 10"
  using valid_date_small [of y m d] by (simp add: date_str_def length_pad0_2 length_pad0_4 valid_date_def)

definition time_str :: "nat \<Rightarrow> string" where
  "time_str t = pad0 2 (t div 3600) @ '':'' @ pad0 2 (t mod 3600 div 60) @ '':'' @ pad0 2 (t mod 60)"

lemma hms_less:
  fixes h h' m m' s s' :: nat
  assumes "h \<le> h'" and "3600 * h + (60 * m + s) < 3600 * h' + (60 * m' + s')" and "s < 60" and "s' < 60"
  shows "h < h' \<or> h = h' \<and> (m < m' \<or> m = m' \<and> s < s')"
proof (cases "h < h'")
  case False
  then have eq: "h = h'" using assms(1) by simp
  then have less: "60 * m + s < 60 * m' + s'" using assms(2) by simp
  have "\<not> m' + 1 \<le> m"
  proof
    assume "m' + 1 \<le> m"
    then have "60 * (m' + 1) \<le> 60 * m" by (rule mult_le_mono2)
    with less assms(4) show False by simp
  qed
  with less eq show ?thesis by auto
qed simp

lemma time_str_less:
  assumes "a < b" and "b < 86400"
  shows "time_str a < time_str b"
proof -
  have split: "x = 3600 * (x div 3600) + (60 * (x mod 3600 div 60) + x mod 60)" for x :: nat
  proof -
    have "x mod 3600 mod 60 = x mod 60" by (rule mod_mod_cancel) simp
    then show ?thesis using mult_div_mod_eq [of 3600 x] mult_div_mod_eq [of 60 "x mod 3600"] by simp
  qed
  have hours: "x div 3600 < 100" if "x < 86400" for x :: nat using that by (simp add: less_mult_imp_div_less)
  have minutes: "x mod 3600 div 60 < 60" for x :: nat by (simp add: less_mult_imp_div_less)
  have seconds: "x mod 60 < 60" for x :: nat by simp
  have bounds: "b div 3600 < 100" "b mod 3600 div 60 < 100" "b mod 60 < 100" "a div 3600 < 100" "a mod 3600 div 60 < 100"
    using assms hours [of a] hours [of b] minutes [of a] minutes [of b] seconds [of b] by linarith+
  have "a div 3600 \<le> b div 3600" using assms(1) by (intro div_le_mono) simp
  then consider "a div 3600 < b div 3600" | "a div 3600 = b div 3600" "a mod 3600 div 60 < b mod 3600 div 60"
    | "a div 3600 = b div 3600" "a mod 3600 div 60 = b mod 3600 div 60" "a mod 60 < b mod 60"
    using hms_less [of "a div 3600" "b div 3600" "a mod 3600 div 60" "a mod 60" "b mod 3600 div 60" "b mod 60"]
      split [of a] split [of b] assms(1) seconds [of a] seconds [of b] by metis
  then show ?thesis
  proof cases
    case 1
    then show ?thesis unfolding time_str_def
      using bounds by (intro less_append_suffix pad0_2_less) (auto simp: length_pad0_2)
  next
    case 2
    then show ?thesis unfolding time_str_def
      using bounds by (auto intro!: less_append_prefix less_append_suffix pad0_2_less simp: length_pad0_2)
  next
    case 3
    then show ?thesis unfolding time_str_def
      using bounds by (auto intro!: less_append_prefix less_append_suffix pad0_2_less simp: length_pad0_2)
  qed
qed


lemma timestamp_eq:
  "chrono_free_timestamp secs =
     date_str (civil (int (unat secs div 86400))) @ ''T'' @ time_str (unat secs mod 86400) @ ''Z''"
proof -
  have div: "unat (x div numeral k) = unat x div unat (numeral k :: 64 word)"
    and mod: "unat (x mod numeral k) = unat x mod unat (numeral k :: 64 word)" for x :: "64 word" and k
    by (rule unat_div, rule unat_mod)
  have num: "unat (86400 :: 64 word) = 86400" "unat (3600 :: 64 word) = 3600" "unat (60 :: 64 word) = 60"
    by simp_all
  have "uint (secs div 86400) = int (unat secs div 86400)"
    by (simp only: uint_nat div num of_nat_div)
  then show ?thesis
    unfolding chrono_free_timestamp_def time_str_def Let_def div mod num by (simp only: append_assoc)
qed

lemma civil_before_10000:
  assumes "0 \<le> days" and "days < 2932897"
  shows "fst (civil days) < 10000"
proof -
  obtain y m d where c: "civil days = (y, m, d)" by (cases "civil days")
  have v: "valid_date y m d" "day_number y m d = days" using civil_day_number [OF assms(1) c] by auto
  have "valid_date 10000 1 1" by (simp add: valid_date_def month_days_def)
  moreover have "day_number 10000 1 1 = 2932897" by (simp add: day_number_def leaps_before_def)
  ultimately have "\<not> (10000 < y \<or> (y, m, d) = (10000, 1, 1) \<or> date_less (10000, 1, 1) (y, m, d))"
    using v assms(2) day_number_mono [of 10000 1 1 y m d] by (auto simp: date_less_def)
  then show ?thesis using v(1) c by (auto simp: date_less_def valid_date_def)
qed

section \<open>Properties\<close>

text \<open>
  The loops that turn a day count into a date compute the Gregorian calendar: the date is
  valid and its day number, given by the closed formula with the leap-year divisions, is the count;
  and every valid date is found from its day number.
\<close>

theorem civil_roundtrip:
  assumes "0 \<le> days" and "valid_date y m d"
  shows "(case civil days of (y', m', d') \<Rightarrow> valid_date y' m' d' \<and> day_number y' m' d' = days) \<and>
    civil (day_number y m d) = (y, m, d)"
proof -
  obtain y' m' d' where c: "civil days = (y', m', d')" by (cases "civil days")
  with civil_day_number [OF assms(1) c] civil_of_day_number [OF assms(2)] show ?thesis by simp
qed

theorem civil_roundtrip_witness:
  "valid_date 2024 2 29 \<and> day_number 2024 2 29 = 19782 \<and> civil 19782 = (2024, 2, 29)"
proof -
  have v: "valid_date 2024 2 29" by (simp add: valid_date_def month_days_def is_leap_def)
  have n: "day_number 2024 2 29 = 19782" by (simp add: day_number_def leaps_before_def month_days_def)
  from civil_roundtrip [OF _ v, of 0] v n show ?thesis by simp
qed

text \<open>
  Until the year 9999 the generated timestamps have twenty characters and sort as text the
  way they follow each other in time.
\<close>

theorem timestamps_sort_by_time:
  assumes "s < t" and "t < 253402300800"
  shows "chrono_free_timestamp s < chrono_free_timestamp t \<and> length (chrono_free_timestamp t) = 20"
proof -
  have t: "unat t < 253402300800" "unat s < unat t" using assms by (simp_all add: word_less_nat_alt)
  have small: "fst (civil (int (n div 86400))) < 10000" if "n < 253402300800" for n
    using that by (intro civil_before_10000) (auto simp: less_mult_imp_div_less)
  obtain y m d where cs: "civil (int (unat s div 86400)) = (y, m, d)" by (cases "civil (int (unat s div 86400))")
  obtain y' m' d' where ct: "civil (int (unat t div 86400)) = (y', m', d')" by (cases "civil (int (unat t div 86400))")
  have vs: "valid_date y m d" using civil_day_number [OF _ cs] by simp
  have vt: "valid_date y' m' d'" using civil_day_number [OF _ ct] by simp
  have y: "y < 10000" "y' < 10000" using small [of "unat s"] small [of "unat t"] t cs ct by simp_all
  have "length (time_str (unat t mod 86400)) = 8"
    by (simp add: time_str_def length_pad0_2 less_mult_imp_div_less)
  then have len: "length (chrono_free_timestamp t) = 20"
    by (simp add: timestamp_eq ct length_date_str [OF vt y(2)])
  have "chrono_free_timestamp s < chrono_free_timestamp t"
  proof (cases "unat s div 86400 < unat t div 86400")
    case True
    then have "date_less (y, m, d) (y', m', d')" using civil_mono [of "int (unat s div 86400)"] cs ct by (metis of_nat_0_le_iff of_nat_less_iff)
    then have "date_str (y, m, d) < date_str (y', m', d')" using date_str_less vs vt y by blast
    then show ?thesis
      unfolding timestamp_eq cs ct using vs vt y by (intro less_append_suffix) (simp_all add: length_date_str)
  next
    case False
    then have eq: "unat s div 86400 = unat t div 86400" using t(2) by (meson div_le_mono le_antisym less_imp_le not_less)
    then have "unat s mod 86400 < unat t mod 86400" using t(2)
      by (metis div_mult_mod_eq nat_add_left_cancel_less)
    then have "time_str (unat s mod 86400) < time_str (unat t mod 86400)" by (intro time_str_less) auto
    then have "time_str (unat s mod 86400) @ ''Z'' < time_str (unat t mod 86400) @ ''Z''"
      by (intro less_append_suffix) (simp_all add: time_str_def length_pad0_2 less_mult_imp_div_less)
    then show ?thesis unfolding timestamp_eq eq by (intro less_append_prefix)
  qed
  with len show ?thesis by simp
qed

theorem timestamps_sort_by_time_witness:
  "chrono_free_timestamp 1709164799 = ''2024-02-28T23:59:59Z'' \<and>
   chrono_free_timestamp 1709164800 = ''2024-02-29T00:00:00Z'' \<and>
   chrono_free_timestamp 1709164799 < chrono_free_timestamp 1709164800"
proof -
  have "chrono_free_timestamp 1709164799 < chrono_free_timestamp 1709164800"
    using timestamps_sort_by_time [of 1709164799 1709164800] by simp
  moreover have "civil 19781 = (2024, 2, 28)" "civil 19782 = (2024, 2, 29)"
    using civil_of_day_number [of 2024 2 28] civil_of_day_number [of 2024 2 29]
    by (simp_all add: day_number_def leaps_before_def month_days_def valid_date_def is_leap_def)
  moreover have "date_str (2024, 2, 28) = ''2024-02-28''" "date_str (2024, 2, 29) = ''2024-02-29''"
    "time_str 86399 = ''23:59:59''" "time_str 0 = ''00:00:00''"
    by (simp_all add: date_str_def time_str_def pad0_def show_nat.simps digit_char_def char_of_def bit_0)
  ultimately show ?thesis by (simp add: timestamp_eq)
qed

end
