(* ===== verification/Changelog.thy ===== *)
theory Changelog
  imports Spec_Diff Spec_Parse Resolve Calendar
begin

text \<open>
  crates/specforge-core/src/changelog.rs: the changelog of a document, with the changes against a
  previous spec. The clock is an argument; reading the previous spec goes through the readers of
  Spec_Parse, the resolver and the diff; the JSON printer is a parameter.
\<close>

section \<open>Data\<close>

datatype changelog_format = FmtMarkdown | FmtJson

datatype change_impact = ImpactBreaking | ImpactFeature | ImpactFix

fun impact_label :: "change_impact \<Rightarrow> string" where
  "impact_label ImpactBreaking = ''BREAKING''"
| "impact_label ImpactFeature = ''Added''"
| "impact_label ImpactFix = ''Fix''"

datatype change_type = ChangeAdded | ChangeRemoved | ChangeModified

record operation_entry =
  oe_method :: string
  oe_path :: string
  oe_operation_id :: string
  oe_summary :: "string option"
  oe_change_type :: change_type
  oe_impact :: change_impact
  oe_details :: "string list"

record property_change_entry =
  pce_property :: string
  pce_description :: string
  pce_impact :: change_impact

record schema_change_entry =
  sce_schema_name :: string
  sce_impact :: change_impact
  sce_property_changes :: "property_change_entry list"

datatype version_bump = BumpNone | BumpPatch | BumpMinor | BumpMajor

fun bump_label :: "version_bump \<Rightarrow> string" where
  "bump_label BumpNone = ''none''"
| "bump_label BumpPatch = ''patch''"
| "bump_label BumpMinor = ''minor''"
| "bump_label BumpMajor = ''major''"

record changelog_result =
  cr_version :: string
  cr_date :: string
  cr_operation_entries :: "operation_entry list"
  cr_schema_entries :: "schema_change_entry list"
  cr_findings :: "diff_finding list"
  cr_schema_diffs :: "schema_diff_detail list"
  cr_suggested_bump :: version_bump
  cr_breaking_count :: nat
  cr_non_breaking_count :: nat
  cr_schemas_modified_count :: nat

record changelog_options =
  clo_version :: "string option"
  clo_previous_spec :: "string option"
  clo_suggest_version :: bool
  clo_format :: changelog_format

section \<open>Classification\<close>

definition compute_suggested_bump :: "diff_finding list \<Rightarrow> version_bump" where
  "compute_suggested_bump findings =
     (let has_breaking = list_ex (\<lambda>f. df_severity f = Breaking) findings;
          has_additions = list_ex (\<lambda>f. df_severity f = Info) findings
      in if has_breaking then BumpMajor else if has_additions then BumpMinor else BumpNone)"

definition classify_finding :: "diff_finding \<Rightarrow> change_impact" where
  "classify_finding f =
     (case df_severity f of
        Breaking \<Rightarrow> ImpactBreaking
      | Info \<Rightarrow>
          if starts_with (df_message f) ''operation added'' \<or> starts_with (df_message f) ''schema added'' \<or>
             starts_with (df_message f) ''new optional property'' \<or> starts_with (df_message f) ''new required property''
          then ImpactFeature else ImpactFix)"

definition property_change_entry_of :: "property_change \<Rightarrow> property_change_entry" where
  "property_change_entry_of pc =
     (let (description, impact) =
        (case pc_change pc of
           Added ty \<Rightarrow> (''New optional property ('' @ quoted ty @ '')'', ImpactFeature)
         | AddedRequired ty \<Rightarrow> (''New required property ('' @ quoted ty @ '')'', ImpactBreaking)
         | Removed ty \<Rightarrow> (''Property removed (was '' @ quoted ty @ '')'', ImpactBreaking)
         | TypeChanged old_type new_type \<Rightarrow>
             (''Type changed: '' @ quoted old_type @ '' to '' @ quoted new_type, ImpactBreaking)
         | RequiredChanged old_required new_required \<Rightarrow>
             (''Changed from '' @ required_str old_required @ '' to '' @ required_str new_required,
              if new_required then ImpactBreaking else ImpactFix))
      in \<lparr>pce_property = pc_property pc, pce_description = description, pce_impact = impact\<rparr>)"

definition build_schema_entries :: "schema_diff_detail list \<Rightarrow> schema_change_entry list" where
  "build_schema_entries schema_diffs =
     map (\<lambda>sd.
       let property_changes = map property_change_entry_of (sdd_changes sd);
           has_breaking = list_ex (\<lambda>pc. pce_impact pc = ImpactBreaking) property_changes
       in \<lparr>sce_schema_name = sdd_name sd,
           sce_impact = (if has_breaking then ImpactBreaking else ImpactFeature),
           sce_property_changes = property_changes\<rparr>) schema_diffs"

section \<open>Operation entries\<close>

text \<open>The entry pushed for an operation id, with the method and path looked up in the current document.\<close>

definition find_operation :: "document \<Rightarrow> string \<Rightarrow> operation option" where
  "find_operation doc op_id = List.find (\<lambda>o'. op_operation_id o' = op_id) (doc_operations doc)"

definition operation_entry_for ::
  "document \<Rightarrow> string \<Rightarrow> change_type \<Rightarrow> change_impact \<Rightarrow> string list \<Rightarrow> operation_entry" where
  "operation_entry_for doc op_id ct impact details =
     (case find_operation doc op_id of
        Some op \<Rightarrow>
          \<lparr>oe_method = method_upper (op_method op), oe_path = op_path op, oe_operation_id = op_id,
           oe_summary = op_summary op, oe_change_type = ct, oe_impact = impact, oe_details = details\<rparr>
      | None \<Rightarrow>
          \<lparr>oe_method = ''UNKNOWN'', oe_path = ''UNKNOWN'', oe_operation_id = op_id,
           oe_summary = None, oe_change_type = ct, oe_impact = impact, oe_details = details\<rparr>)"

text \<open>\<open>iter_mut().find(..)\<close>: the first entry with the id gets the detail and keeps the worst impact.\<close>

fun amend_entry :: "string \<Rightarrow> diff_finding \<Rightarrow> operation_entry list \<Rightarrow> operation_entry list" where
  "amend_entry op_id f [] = []"
| "amend_entry op_id f (e # es) =
     (if oe_operation_id e = op_id
      then (let e' = e\<lparr>oe_details := oe_details e @ [df_message f]\<rparr>
            in (if classify_finding f = ImpactBreaking then e'\<lparr>oe_impact := ImpactBreaking\<rparr> else e')) # es
      else e # amend_entry op_id f es)"

definition add_finding :: "document \<Rightarrow> diff_finding \<Rightarrow> operation_entry list \<Rightarrow> operation_entry list" where
  "add_finding doc f entries =
     (case strip_prefix ''operation removed: '' (df_message f) of
        Some op_id \<Rightarrow> entries @ [operation_entry_for doc op_id ChangeRemoved ImpactBreaking [df_message f]]
      | None \<Rightarrow>
     (case strip_prefix ''operation added: '' (df_message f) of
        Some op_id \<Rightarrow> entries @ [operation_entry_for doc op_id ChangeAdded ImpactFeature [df_message f]]
      | None \<Rightarrow>
     (case strip_prefix ''operations.'' (df_path f) of
        Some rest \<Rightarrow>
          (let op_id = hd (split_on (CHR ''.'') rest) in
           if \<not> list_ex (\<lambda>e. oe_operation_id e = op_id) entries
           then entries @ [operation_entry_for doc op_id ChangeModified (classify_finding f) [df_message f]]
           else amend_entry op_id f entries)
      | None \<Rightarrow> entries)))"

definition build_operation_entries_from_findings ::
  "diff_finding list \<Rightarrow> document \<Rightarrow> operation_entry list" where
  "build_operation_entries_from_findings findings doc = fold (add_finding doc) findings []"

section \<open>The result\<close>

text \<open>\<open>load_and_diff\<close>; its error texts are dropped by the caller.\<close>

definition load_and_diff ::
  "oapi_spec spec_readers \<Rightarrow> iter_orders \<Rightarrow> string \<Rightarrow> document \<Rightarrow> diff_result option" where
  "load_and_diff readers ords prev_path current_doc =
     (case read_spec readers prev_path of
        Inl _ \<Rightarrow> None
      | Inr prev_spec \<Rightarrow>
          (case resolve prev_spec of
             Inl _ \<Rightarrow> None
           | Inr prev_doc \<Rightarrow> Some (diff_detailed ords prev_doc current_doc)))"

definition added_entry :: "operation \<Rightarrow> operation_entry" where
  "added_entry op =
     \<lparr>oe_method = method_upper (op_method op), oe_path = op_path op, oe_operation_id = op_operation_id op,
      oe_summary = op_summary op, oe_change_type = ChangeAdded, oe_impact = ImpactFeature, oe_details = []\<rparr>"

definition generate_changelog_result ::
  "oapi_spec spec_readers \<Rightarrow> iter_orders \<Rightarrow> 64 word \<Rightarrow> document \<Rightarrow> changelog_options
   \<Rightarrow> changelog_result" where
  "generate_changelog_result readers ords secs doc opts =
     (let version = (case clo_version opts of Some v \<Rightarrow> v | None \<Rightarrow> doc_version doc);
          today = current_date secs;
          (findings, schema_diffs, operation_entries, schema_entries) =
            (case clo_previous_spec opts of
               Some prev_path \<Rightarrow>
                 (case load_and_diff readers ords prev_path doc of
                    Some dr \<Rightarrow>
                      (dr_findings dr, dr_schema_diffs dr,
                       build_operation_entries_from_findings (dr_findings dr) doc,
                       build_schema_entries (dr_schema_diffs dr))
                  | None \<Rightarrow> ([], [], [], []))
             | None \<Rightarrow> ([], [], map added_entry (doc_operations doc), []));
          breaking_count = length (filter (\<lambda>f. df_severity f = Breaking) findings)
      in \<lparr>cr_version = version, cr_date = today, cr_operation_entries = operation_entries,
          cr_schema_entries = schema_entries, cr_findings = findings, cr_schema_diffs = schema_diffs,
          cr_suggested_bump = compute_suggested_bump findings, cr_breaking_count = breaking_count,
          cr_non_breaking_count = length findings - breaking_count,
          cr_schemas_modified_count = length schema_entries\<rparr>)"

section \<open>Rendering\<close>

definition format_operation_entry :: "operation_entry \<Rightarrow> string" where
  "format_operation_entry e =
     ''- '' @ quoted (oe_method e) @ '' '' @ quoted (oe_path e) @ '' -- '' @ oe_operation_id e
     @ (case oe_summary e of Some s \<Rightarrow> '': '' @ s | None \<Rightarrow> []) @ newline
     @ concat (map (\<lambda>d. ''  - '' @ d @ newline) (oe_details e))"

definition impact_section :: "string \<Rightarrow> change_impact \<Rightarrow> operation_entry list \<Rightarrow> string" where
  "impact_section title impact entries =
     (let group = sort_key oe_operation_id (filter (\<lambda>e. oe_impact e = impact) entries) in
      if group \<noteq> []
      then title @ newline @ newline @ concat (map format_operation_entry group) @ newline
      else [])"

definition render_markdown :: "changelog_result \<Rightarrow> changelog_options \<Rightarrow> string" where
  "render_markdown result opts =
     ''# Changelog'' @ newline @ newline
     @ ''## ['' @ cr_version result @ ''] -- '' @ cr_date result @ newline @ newline
     @ (if clo_suggest_version opts \<and> cr_suggested_bump result \<noteq> BumpNone
        then ''**Suggested version bump: '' @ quoted (bump_label (cr_suggested_bump result)) @ ''**'' @ newline @ newline
        else [])
     @ ''### Summary'' @ newline @ newline
     @ ''- **'' @ show_nat (length (cr_operation_entries result)) @ ''** operation(s) changed'' @ newline
     @ ''- **'' @ show_nat (cr_schemas_modified_count result) @ ''** schema(s) modified'' @ newline
     @ (if cr_findings result \<noteq> []
        then ''- **'' @ show_nat (cr_breaking_count result) @ ''** breaking change(s)'' @ newline
          @ ''- **'' @ show_nat (cr_non_breaking_count result) @ ''** non-breaking change(s)'' @ newline
        else [])
     @ newline
     @ ''### Operations'' @ newline @ newline
     @ (if cr_operation_entries result \<noteq> []
        then impact_section ''#### Breaking Changes'' ImpactBreaking (cr_operation_entries result)
          @ impact_section ''#### New Features'' ImpactFeature (cr_operation_entries result)
          @ impact_section ''#### Fixes & Modifications'' ImpactFix (cr_operation_entries result)
        else ''_No operations._'' @ newline)
     @ (if cr_schema_entries result \<noteq> []
        then ''### Schema Changes'' @ newline @ newline
          @ concat (map (\<lambda>entry.
              ''#### '' @ quoted (sce_schema_name entry) @ '' ('' @ impact_label (sce_impact entry) @ '')'' @ newline @ newline
              @ ''| Property | Change | Impact |'' @ newline
              @ ''|----------|--------|--------|'' @ newline
              @ concat (map (\<lambda>pc. ''| '' @ quoted (pce_property pc) @ '' | '' @ pce_description pc @ '' | ''
                    @ impact_label (pce_impact pc) @ '' |'' @ newline) (sce_property_changes entry))
              @ newline) (cr_schema_entries result))
        else [])
     @ ''### Schemas'' @ newline @ newline
     @ ''_See schema changes above for details._'' @ newline"

definition render_json :: "(changelog_result \<Rightarrow> string option) \<Rightarrow> changelog_result \<Rightarrow> string" where
  "render_json to_string_pretty result =
     (case to_string_pretty result of
        Some json \<Rightarrow> json
      | None \<Rightarrow> ''{'' @ [CHR 34] @ ''error'' @ [CHR 34] @ '': '' @ [CHR 34] @ ''failed to serialize changelog'' @ [CHR 34] @ ''}'')"

definition generate_changelog ::
  "oapi_spec spec_readers \<Rightarrow> (changelog_result \<Rightarrow> string option) \<Rightarrow> iter_orders \<Rightarrow> 64 word
   \<Rightarrow> document \<Rightarrow> changelog_options \<Rightarrow> string" where
  "generate_changelog readers to_string_pretty ords secs doc opts =
     (let result = generate_changelog_result readers ords secs doc opts in
      case clo_format opts of
        FmtMarkdown \<Rightarrow> render_markdown result opts
      | FmtJson \<Rightarrow> render_json to_string_pretty result)"


section \<open>What the diff reports about operations\<close>

text \<open>
  The facts about a finding that decide its entry: a removed operation is not in the current
  document, and a finding located at an operation, other than its addition, is breaking.
\<close>

definition diff_shaped :: "document \<Rightarrow> diff_finding \<Rightarrow> bool" where
  "diff_shaped doc f \<longleftrightarrow>
     (\<forall>i. strip_prefix ''operation removed: '' (df_message f) = Some i \<longrightarrow> find_operation doc i = None) \<and>
     (strip_prefix ''operation added: '' (df_message f) = None \<longrightarrow> starts_with (df_path f) ''operations.'' \<longrightarrow>
        df_severity f = Breaking)"

lemmas shape_simps = diff_shaped_def strip_prefix_def starts_with_def

lemma find_operation_None: "op_index (doc_operations doc) i = None \<Longrightarrow> find_operation doc i = None"
  by (auto simp: op_index_dom op_ids_def find_operation_def find_None_iff)

lemma diff_shaped_operation: "f \<in> set (diff_operation o' n) \<Longrightarrow> diff_shaped doc f"
  by (auto simp: diff_operation_def Let_def shape_simps split: option.splits if_splits)

lemma diff_shaped_operations: "f \<in> set (diff_operations ords old doc) \<Longrightarrow> diff_shaped doc f"
  using diff_shaped_operation find_operation_None
  by (fastforce simp: diff_operations_def Let_def shape_simps split: option.splits)

lemma diff_shaped_schema: "f \<in> set (fst (diff_schema n m m')) \<Longrightarrow> diff_shaped doc f"
  by (auto simp: diff_schema_def property_diffs_def Let_def shape_simps split: model.splits option.splits if_splits)

lemma diff_shaped_detailed: "f \<in> set (dr_findings (diff_detailed ords old doc)) \<Longrightarrow> diff_shaped doc f"
proof -
  assume "f \<in> set (dr_findings (diff_detailed ords old doc))"
  then consider "f \<in> set (diff_ir_version old doc)" | "f \<in> set (diff_operations ords old doc)"
    | "f \<in> set (fst (diff_schemas ords old doc))"
    by (auto simp: diff_detailed_def split: prod.splits)
  then show ?thesis
  proof cases
    case 1
    then show ?thesis by (auto simp: diff_ir_version_def Let_def shape_simps split: if_splits)
  next
    case 2
    then show ?thesis by (rule diff_shaped_operations)
  next
    case 3
    then show ?thesis using diff_shaped_schema by (auto simp: diff_schemas_def Let_def shape_simps)
  qed
qed

section \<open>Invariants of the entries\<close>

lemma operation_entry_for_sel [simp]:
  "oe_operation_id (operation_entry_for doc i ct im ds) = i"
  "oe_change_type (operation_entry_for doc i ct im ds) = ct"
  "oe_impact (operation_entry_for doc i ct im ds) = im"
  "oe_details (operation_entry_for doc i ct im ds) = ds"
  by (simp_all add: operation_entry_for_def split: option.split)

lemma operation_entry_for_unknown:
  "find_operation doc i = None \<Longrightarrow> oe_method (operation_entry_for doc i ct im ds) = ''UNKNOWN''"
  by (simp add: operation_entry_for_def)

text \<open>Amending keeps everything but details and impact, and these only grow.\<close>

definition amends :: "operation_entry \<Rightarrow> operation_entry \<Rightarrow> bool" where
  "amends e e' \<longleftrightarrow> oe_operation_id e' = oe_operation_id e \<and> oe_method e' = oe_method e \<and> oe_path e' = oe_path e \<and>
     oe_change_type e' = oe_change_type e \<and> set (oe_details e) \<subseteq> set (oe_details e') \<and>
     (oe_impact e' = oe_impact e \<or> oe_impact e' = ImpactBreaking)"

lemma amends_refl [simp]: "amends e e"
  by (simp add: amends_def)

lemma amend_entry_amends: "list_all2 amends es (amend_entry i f es)"
proof (induction i f es rule: amend_entry.induct)
  case (2 i f e es)
  then show ?case by (auto simp: amends_def Let_def list_all2_refl)
qed simp

lemma amend_entry_hit:
  "list_ex (\<lambda>e. oe_operation_id e = i) es \<Longrightarrow>
   \<exists>e \<in> set (amend_entry i f es). df_message f \<in> set (oe_details e) \<and>
     (classify_finding f = ImpactBreaking \<longrightarrow> oe_impact e = ImpactBreaking)"
  by (induction i f es rule: amend_entry.induct) (auto simp: Let_def)

text \<open>Which new entry a finding asks for.\<close>

definition entry_for :: "diff_finding \<Rightarrow> string \<Rightarrow> change_type \<Rightarrow> change_impact \<Rightarrow> bool" where
  "entry_for f i ct im \<longleftrightarrow>
     (case ct of
        ChangeRemoved \<Rightarrow> im = ImpactBreaking \<and> strip_prefix ''operation removed: '' (df_message f) = Some i
      | ChangeAdded \<Rightarrow> im = ImpactFeature \<and> strip_prefix ''operation removed: '' (df_message f) = None \<and>
          strip_prefix ''operation added: '' (df_message f) = Some i
      | ChangeModified \<Rightarrow> im = classify_finding f \<and> strip_prefix ''operation added: '' (df_message f) = None \<and>
          starts_with (df_path f) ''operations.'' \<and> CHR ''.'' \<notin> set i)"

lemma add_finding_cases:
  obtains (push) i ct im where "add_finding doc f es = es @ [operation_entry_for doc i ct im [df_message f]]"
      "entry_for f i ct im"
  | (amend) i where "add_finding doc f es = amend_entry i f es" "list_ex (\<lambda>e. oe_operation_id e = i) es"
      "strip_prefix ''operation removed: '' (df_message f) = None"
      "strip_prefix ''operation added: '' (df_message f) = None" "starts_with (df_path f) ''operations.''"
  | (skip) "add_finding doc f es = es" "strip_prefix ''operation removed: '' (df_message f) = None"
      "strip_prefix ''operation added: '' (df_message f) = None" "\<not> starts_with (df_path f) ''operations.''"
proof (cases "strip_prefix ''operation removed: '' (df_message f)")
  case (Some i)
  then show ?thesis by (intro push) (auto simp: add_finding_def entry_for_def)
next
  case rem: None
  show ?thesis
  proof (cases "strip_prefix ''operation added: '' (df_message f)")
    case (Some i)
    with rem show ?thesis by (intro push) (auto simp: add_finding_def entry_for_def)
  next
    case add: None
    show ?thesis
    proof (cases "strip_prefix ''operations.'' (df_path f)")
      case None
      with rem add show ?thesis by (intro skip) (auto simp: add_finding_def strip_prefix_def split: if_splits)
    next
      case (Some rest)
      then have at: "starts_with (df_path f) ''operations.''" by (auto simp: strip_prefix_def split: if_splits)
      let ?i = "hd (split_on (CHR ''.'') rest)"
      have "CHR ''.'' \<notin> set ?i" using split_on_pieces [of ?i "CHR ''.''" rest] by simp
      with rem add Some at show ?thesis
        by (cases "list_ex (\<lambda>e. oe_operation_id e = ?i) es") (auto simp: add_finding_def Let_def entry_for_def intro: push amend)
    qed
  qed
qed

lemma entries_invariant:
  assumes push: "\<And>f i ct im. f \<in> set fs \<Longrightarrow> entry_for f i ct im \<Longrightarrow>
      P (operation_entry_for doc i ct im [df_message f])"
    and amend: "\<And>e e'. P e \<Longrightarrow> amends e e' \<Longrightarrow> P e'"
    and start: "\<forall>e \<in> set es. P e"
  shows "\<forall>e \<in> set (fold (add_finding doc) fs es). P e"
  using push start
proof (induction fs arbitrary: es)
  case (Cons f fs)
  have "\<forall>e \<in> set (add_finding doc f es). P e"
  proof (rule add_finding_cases [where doc = doc and f = f and es = es], goal_cases)
    case (2 i)
    have "list_all2 amends es (amend_entry i f es)" by (rule amend_entry_amends)
    with 2(1) Cons.prems(2) amend show ?case by (metis list_all2_right)
  qed (use Cons.prems in auto)
  with Cons show ?case by simp
qed simp


text \<open>A finding about an operation is recorded, and what is recorded stays.\<close>

definition about_operation :: "diff_finding \<Rightarrow> bool" where
  "about_operation f \<longleftrightarrow> starts_with (df_message f) ''operation removed: '' \<or>
     starts_with (df_message f) ''operation added: '' \<or> starts_with (df_path f) ''operations.''"

definition recorded :: "operation_entry list \<Rightarrow> diff_finding \<Rightarrow> bool" where
  "recorded es f \<longleftrightarrow> (\<exists>e \<in> set es. df_message f \<in> set (oe_details e) \<and>
     (df_severity f = Breaking \<longrightarrow> starts_with (df_message f) ''operation added: '' \<or> oe_impact e = ImpactBreaking))"

lemma classify_breaking: "classify_finding f = ImpactBreaking \<longleftrightarrow> df_severity f = Breaking"
  by (auto simp: classify_finding_def split: diff_severity.split if_splits)

lemma recorded_amends:
  assumes "list_all2 amends es es'" and "recorded es f"
  shows "recorded es' f"
proof -
  obtain e where e: "e \<in> set es" "df_message f \<in> set (oe_details e)"
    "df_severity f = Breaking \<Longrightarrow> starts_with (df_message f) ''operation added: '' \<or> oe_impact e = ImpactBreaking"
    using assms(2) unfolding recorded_def by blast
  have "list_all2 (\<lambda>x y. amends y x) es' es" using assms(1) by (simp add: list_all2_conv_all_nth)
  from list_all2_right [OF this e(1)] obtain e' where e': "e' \<in> set es'" "amends e e'" by blast
  then have "df_message f \<in> set (oe_details e')" "oe_impact e = ImpactBreaking \<Longrightarrow> oe_impact e' = ImpactBreaking"
    using e(2) by (auto simp: amends_def)
  with e(3) e'(1) show ?thesis unfolding recorded_def by (intro bexI [of _ e']) auto
qed

lemma recorded_keep: "recorded es g \<Longrightarrow> recorded (add_finding doc f es) g"
proof (rule add_finding_cases [where doc = doc and f = f and es = es], goal_cases)
  case (1 i ct im)
  then show ?case by (auto simp: recorded_def)
next
  case (2 i)
  then show ?case using recorded_amends [OF amend_entry_amends] by simp
qed simp

lemma recorded_new: "about_operation f \<Longrightarrow> recorded (add_finding doc f es) f"
proof (rule add_finding_cases [where doc = doc and f = f and es = es], goal_cases)
  case (1 i ct im)
  then show ?case
    by (auto simp: recorded_def entry_for_def classify_breaking strip_prefix_def split: change_type.splits if_splits)
next
  case (2 i)
  with amend_entry_hit [of i es f] show ?case by (auto simp: recorded_def classify_breaking)
next
  case 3
  then show ?case by (auto simp: about_operation_def strip_prefix_def split: if_splits)
qed

lemma recorded_fold:
  "f \<in> set fs \<Longrightarrow> about_operation f \<Longrightarrow> recorded (fold (add_finding doc) fs es) f"
proof (induction fs arbitrary: es)
  case (Cons g fs)
  have keep: "recorded es f \<Longrightarrow> recorded (fold (add_finding doc) hs es) f" for hs es
    by (induction hs arbitrary: es) (auto intro: recorded_keep)
  show ?case
  proof (cases "f = g")
    case True
    then show ?thesis using keep recorded_new [OF Cons.prems(2)] by simp
  qed (use Cons in auto)
qed simp

section \<open>Properties\<close>

lemma result_of_previous:
  assumes "clo_previous_spec opts = Some path" and "read_spec readers path = Ok prev_spec" and "resolve prev_spec = Ok prev"
  shows "cr_findings (generate_changelog_result readers ords secs doc opts) = diff ords prev doc"
    and "cr_operation_entries (generate_changelog_result readers ords secs doc opts) =
      build_operation_entries_from_findings (diff ords prev doc) doc"
    and "cr_suggested_bump (generate_changelog_result readers ords secs doc opts) =
      compute_suggested_bump (diff ords prev doc)"
  using assms by (simp_all add: generate_changelog_result_def load_and_diff_def Spec_Diff.diff_def Let_def)

lemma result_of_counts:
  assumes "clo_previous_spec opts = Some path" and "read_spec readers path = Ok prev_spec" and "resolve prev_spec = Ok prev"
  shows "cr_breaking_count (generate_changelog_result readers ords secs doc opts) = length (breaking_of (diff ords prev doc))"
    and "cr_non_breaking_count (generate_changelog_result readers ords secs doc opts) = length (info_of (diff ords prev doc))"
proof -
  have "length (filter (\<lambda>f. df_severity f = Breaking) fs) + length (info_of fs) = length fs" for fs
  proof (induction fs)
    case (Cons f fs)
    then show ?case by (cases "df_severity f") (simp_all add: info_of_def)
  qed (simp add: info_of_def)
  from this [of "diff ords prev doc"] assms show
    "cr_breaking_count (generate_changelog_result readers ords secs doc opts) = length (breaking_of (diff ords prev doc))"
    "cr_non_breaking_count (generate_changelog_result readers ords secs doc opts) = length (info_of (diff ords prev doc))"
    by (simp_all add: generate_changelog_result_def load_and_diff_def Spec_Diff.diff_def Let_def breaking_of_def)
qed

lemma result_counts:
  "cr_breaking_count (generate_changelog_result readers ords secs doc opts) +
   cr_non_breaking_count (generate_changelog_result readers ords secs doc opts) =
   length (cr_findings (generate_changelog_result readers ords secs doc opts))"
  by (simp add: generate_changelog_result_def Let_def split: prod.split)

text \<open>
  What a new document adds to an old one: an IR version of the same major number, an operation, a schema, or, in an object
  schema of both, an optional property or a property of unchanged type that is no longer required.
\<close>

definition props_extended :: "property list \<Rightarrow> property list \<Rightarrow> bool" where
  "props_extended old new \<longleftrightarrow>
     (\<exists>q \<in> set new. \<not> prop_required q \<and> prop_name q \<notin> prop_name ` set old) \<or>
     (\<exists>p \<in> set old. \<exists>q. List.find (\<lambda>x. prop_name x = prop_name p) new = Some q \<and>
        \<not> type_changed (prop_ty p) (prop_ty q) \<and> prop_required p \<and> \<not> prop_required q)"

definition doc_extended :: "document \<Rightarrow> document \<Rightarrow> bool" where
  "doc_extended old new \<longleftrightarrow>
     doc_ir_version old \<noteq> doc_ir_version new \<and>
       ir_major_version (doc_ir_version old) = ir_major_version (doc_ir_version new) \<or>
     \<not> op_operation_id ` set (doc_operations new) \<subseteq> op_operation_id ` set (doc_operations old) \<or>
     \<not> fst ` set (doc_schemas new) \<subseteq> fst ` set (doc_schemas old) \<or>
     (\<exists>n obj obj'. registry_get (doc_schemas old) n = Some (MObject obj) \<and> registry_get (doc_schemas new) n = Some (MObject obj') \<and>
        props_extended (om_properties obj) (om_properties obj'))"

lemma info_of_append [simp]: "info_of (xs @ ys) = info_of xs @ info_of ys"
  by (simp add: info_of_def)

lemma info_of_concat: "info_of (concat xss) = [] \<longleftrightarrow> (\<forall>xs \<in> set xss. info_of xs = [])"
  by (induction xss) (auto simp: info_of_def)

lemma info_of_map_Info: "(\<And>x. df_severity (f x) = Info) \<Longrightarrow> info_of (map f xs) = [] \<longleftrightarrow> xs = []"
  by (cases xs) (simp_all add: info_of_def)

lemma info_of_map_Breaking: "(\<And>x. df_severity (f x) = Breaking) \<Longrightarrow> info_of (map f xs) = []"
  by (simp add: info_of_def)

lemmas info_simps = info_of_map_Info info_of_map_Breaking

lemma diff_operation_info: "info_of (diff_operation old new) = []"
  by (auto simp: diff_operation_def Let_def info_simps info_of_def split: option.splits)

lemma diff_operations_info:
  assumes "orders_ok ords"
  shows "info_of (diff_operations ords old new) = [] \<longleftrightarrow>
    op_operation_id ` set (doc_operations new) \<subseteq> op_operation_id ` set (doc_operations old)"
proof -
  have "info_of (case op_index (doc_operations old) i of None \<Rightarrow> []
      | Some o' \<Rightarrow> (case op_index (doc_operations new) i of None \<Rightarrow> [] | Some n \<Rightarrow> diff_operation o' n)) = []" for i
    by (auto simp: diff_operation_info split: option.split) (simp_all add: info_of_def)
  moreover have "set (ord_new_ops ords ks) = set ks" for ks using assms by (simp add: orders_ok_def enumerates_def)
  ultimately show ?thesis
    by (auto simp: diff_operations_def Let_def info_simps info_of_concat filter_empty_conv op_index_dom op_ids_def)
qed

lemma property_diffs_info: "info_of (map fst (property_diffs name old new)) = [] \<longleftrightarrow> \<not> props_extended old new"
proof -
  have shared: "info_of (map fst (case List.find P new of None \<Rightarrow> []
        | Some q \<Rightarrow>
            if type_changed t (prop_ty q) then [(\<lparr>df_severity = Breaking, df_message = m q, df_path = d q\<rparr>, c q)]
            else if r \<noteq> prop_required q
            then [(\<lparr>df_severity = (if prop_required q then Breaking else Info), df_message = m' q, df_path = d' q\<rparr>, c' q)]
            else [])) = [] \<longleftrightarrow>
      \<not> (\<exists>q. List.find P new = Some q \<and> \<not> type_changed t (prop_ty q) \<and> r \<and> \<not> prop_required q)"
    for P t r m d c m' d' c'
    by (auto simp: info_of_def split: option.split)
  show ?thesis
    unfolding property_diffs_def Let_def map_append map_concat map_map info_of_append
    by (simp add: info_simps comp_def info_of_concat shared filter_empty_conv list_ex_key props_extended_def)
qed

lemma diff_schemas_info:
  assumes "orders_ok ords"
  shows "info_of (fst (diff_schemas ords old new)) = [] \<longleftrightarrow>
    fst ` set (doc_schemas new) \<subseteq> fst ` set (doc_schemas old) \<and>
    \<not> (\<exists>n obj obj'. registry_get (doc_schemas old) n = Some (MObject obj) \<and> registry_get (doc_schemas new) n = Some (MObject obj') \<and>
        props_extended (om_properties obj) (om_properties obj'))"
proof -
  let ?old = "registry_get (doc_schemas old)" and ?new = "registry_get (doc_schemas new)"
  have keys: "set (ord_old_schemas ords (map fst (doc_schemas old))) = {n. ?old n \<noteq> None}"
    "set (ord_new_schemas ords (map fst (doc_schemas new))) = {n. ?new n \<noteq> None}"
    using assms by (auto simp: orders_ok_def enumerates_def registry_get_def map_of_eq_None_iff simp del: not_None_eq)
  then have inter: "set (schema_intersection (ord_old_schemas ords (map fst (doc_schemas old)))
      (ord_new_schemas ords (map fst (doc_schemas new)))) = {n. ?old n \<noteq> None \<and> ?new n \<noteq> None}"
    by (auto simp: schema_intersection_def)
  have model: "info_of (fst (diff_schema n m m')) = [] \<longleftrightarrow>
      \<not> (\<exists>obj obj'. m = MObject obj \<and> m' = MObject obj' \<and> props_extended (om_properties obj) (om_properties obj'))" for n m m'
    by (cases m; cases m') (simp_all add: diff_schema_def Let_def property_diffs_info, simp_all add: info_of_def)
  have "info_of (fst (diff_schemas ords old new)) = [] \<longleftrightarrow>
      (\<forall>n. ?new n \<noteq> None \<longrightarrow> ?old n \<noteq> None) \<and>
      (\<forall>n. ?old n \<noteq> None \<and> ?new n \<noteq> None \<longrightarrow> info_of (fst (diff_schema n (the (?old n)) (the (?new n)))) = [])"
    unfolding diff_schemas_def Let_def fst_conv info_of_append
    by (simp add: info_simps info_of_concat filter_empty_conv keys inter del: not_None_eq)
  also have "(\<forall>n. ?new n \<noteq> None \<longrightarrow> ?old n \<noteq> None) \<longleftrightarrow> fst ` set (doc_schemas new) \<subseteq> fst ` set (doc_schemas old)"
    unfolding registry_get_def map_of_eq_None_iff by blast
  also have "(\<forall>n. ?old n \<noteq> None \<and> ?new n \<noteq> None \<longrightarrow> info_of (fst (diff_schema n (the (?old n)) (the (?new n)))) = []) \<longleftrightarrow>
      (\<forall>n m m'. ?old n = Some m \<longrightarrow> ?new n = Some m' \<longrightarrow> info_of (fst (diff_schema n m m')) = [])"
    by (metis not_None_eq option.sel)
  also have "\<dots> \<longleftrightarrow> \<not> (\<exists>n obj obj'. ?old n = Some (MObject obj) \<and> ?new n = Some (MObject obj') \<and>
        props_extended (om_properties obj) (om_properties obj'))"
    unfolding model by blast
  finally show ?thesis .
qed

lemma diff_extended:
  assumes "orders_ok ords"
  shows "info_of (diff ords old new) = [] \<longleftrightarrow> \<not> doc_extended old new"
proof -
  have "info_of (diff_ir_version old new) = [] \<longleftrightarrow> \<not> (doc_ir_version old \<noteq> doc_ir_version new \<and>
      ir_major_version (doc_ir_version old) = ir_major_version (doc_ir_version new))"
    by (auto simp: diff_ir_version_def Let_def info_of_def)
  with assms show ?thesis
    by (simp add: diff_def diff_detailed_def split_def doc_extended_def diff_operations_info diff_schemas_info) blast
qed


text \<open>Readers that find one spec under every path, and the document compared with it.\<close>

definition example_readers :: "oapi_spec spec_readers" where
  "example_readers =
     \<lparr>rd_read = Ok, rd_from_utf8 = Ok, rd_json = (\<lambda>_. Some (JObject [])), rd_yaml = (\<lambda>_. Err []),
      rd_from_value = (\<lambda>_. Ok example_spec)\<rparr>"

definition example_opts :: changelog_options where
  "example_opts = \<lparr>clo_version = None, clo_previous_spec = Some ''old.json'', clo_suggest_version = True,
     clo_format = FmtMarkdown\<rparr>"

lemma example_reads: "read_spec example_readers ''old.json'' = Ok example_spec"
  unfolding example_readers_def by code_simp

lemma example_resolves: "resolve example_spec = Ok example_document"
  by (simp add: resolve_def example_resolved)

lemmas example_previous = example_reads example_resolves

lemma example_changelog:
  defines "result \<equiv> generate_changelog_result example_readers remdups_orders 0 empty_doc example_opts"
  shows "cr_suggested_bump result = BumpMajor \<and>
    list_ex (\<lambda>e. oe_change_type e = ChangeRemoved) (cr_operation_entries result)"
proof -
  have "compute_suggested_bump (dr_findings (diff_detailed remdups_orders example_document empty_doc)) = BumpMajor \<and>
      list_ex (\<lambda>e. oe_change_type e = ChangeRemoved)
        (build_operation_entries_from_findings (dr_findings (diff_detailed remdups_orders example_document empty_doc)) empty_doc)"
    by code_simp
  then show ?thesis
    by (simp add: result_def generate_changelog_result_def load_and_diff_def example_previous example_opts_def Let_def)
qed

definition example_extended :: document where
  "example_extended = example_document\<lparr>doc_schemas := doc_schemas example_document @ doc_schemas (doc_with_enums [''Extra''])\<rparr>"


text \<open>
  No finding about an operation is lost: its message is a detail of some entry, and when
  the finding is breaking, and not the addition of an operation, that entry is in the breaking
  section. In particular this holds of every finding of the diff.
\<close>

theorem operation_findings_recorded:
  assumes "f \<in> set findings" and "about_operation f"
  shows "\<exists>e \<in> set (build_operation_entries_from_findings findings doc). df_message f \<in> set (oe_details e) \<and>
    (df_severity f = Breaking \<longrightarrow> starts_with (df_message f) ''operation added: '' \<or> oe_impact e = ImpactBreaking)"
  using recorded_fold [OF assms, of doc "[]"]
  by (simp add: build_operation_entries_from_findings_def recorded_def)

theorem operation_findings_recorded_witness:
  "\<exists>e \<in> set (build_operation_entries_from_findings
      [\<lparr>df_severity = Breaking, df_message = ''response removed: 200'', df_path = ''operations.a.responses.200''\<rparr>] empty_doc).
    ''response removed: 200'' \<in> set (oe_details e) \<and> oe_impact e = ImpactBreaking"
  using operation_findings_recorded [of "\<lparr>df_severity = Breaking, df_message = ''response removed: 200'',
      df_path = ''operations.a.responses.200''\<rparr>"
      "[\<lparr>df_severity = Breaking, df_message = ''response removed: 200'', df_path = ''operations.a.responses.200''\<rparr>]" empty_doc]
  by (simp add: about_operation_def starts_with_def)

text \<open>
  What the changelog cannot say: removed operations are looked up in the new document,
  where they are missing, so their method and path are always the word UNKNOWN; every other entry
  is a feature or breaking, so the section on fixes is never printed and a patch bump never
  suggested; and the id of a modified operation is cut at its first dot.
\<close>

theorem changelog_entry_limits:
  fixes readers ords secs doc opts
  defines "result \<equiv> generate_changelog_result readers ords secs doc opts"
  assumes "e \<in> set (cr_operation_entries result)"
  shows "(oe_change_type e = ChangeRemoved \<longrightarrow> oe_method e = ''UNKNOWN'' \<and> oe_path e = ''UNKNOWN'') \<and>
    oe_impact e \<noteq> ImpactFix \<and> cr_suggested_bump result \<noteq> BumpPatch \<and>
    (oe_change_type e = ChangeModified \<longrightarrow> CHR ''.'' \<notin> set (oe_operation_id e))"
proof -
  define P where "P e \<longleftrightarrow> (oe_change_type e = ChangeRemoved \<longrightarrow> oe_method e = ''UNKNOWN'' \<and> oe_path e = ''UNKNOWN'') \<and>
    oe_impact e \<noteq> ImpactFix \<and> (oe_change_type e = ChangeModified \<longrightarrow> CHR ''.'' \<notin> set (oe_operation_id e))" for e :: operation_entry
  have entries: "\<forall>e \<in> set (build_operation_entries_from_findings (dr_findings (diff_detailed ords prev doc)) doc). P e" for prev
    unfolding build_operation_entries_from_findings_def
  proof (rule entries_invariant)
    fix f i ct im
    assume f: "f \<in> set (dr_findings (diff_detailed ords prev doc))" and e: "entry_for f i ct im"
    from diff_shaped_detailed [OF f] e have "ct = ChangeRemoved \<Longrightarrow> find_operation doc i = None"
      "ct = ChangeModified \<Longrightarrow> im = ImpactBreaking \<and> CHR ''.'' \<notin> set i"
      by (auto simp: entry_for_def diff_shaped_def classify_breaking)
    then show "P (operation_entry_for doc i ct im [df_message f])"
      using e by (cases ct) (auto simp: P_def entry_for_def operation_entry_for_def split: option.split)
  qed (auto simp: P_def amends_def)
  have "P (added_entry op)" for op by (simp add: P_def added_entry_def)
  with entries assms(2) have "P e"
    by (auto simp: result_def generate_changelog_result_def load_and_diff_def Let_def
        split: option.splits sum.splits)
  moreover have "compute_suggested_bump fs \<noteq> BumpPatch" for fs by (simp add: compute_suggested_bump_def Let_def)
  ultimately show ?thesis by (simp add: P_def result_def generate_changelog_result_def Let_def split: prod.split)
qed

theorem changelog_entry_limits_witness:
  "\<exists>e \<in> set (cr_operation_entries (generate_changelog_result example_readers remdups_orders 0 empty_doc example_opts)).
     oe_change_type e = ChangeRemoved \<and> oe_path e = ''UNKNOWN'' \<and> oe_impact e \<noteq> ImpactFix"
proof -
  let ?r = "generate_changelog_result example_readers remdups_orders 0 empty_doc example_opts"
  have "list_ex (\<lambda>e. oe_change_type e = ChangeRemoved) (cr_operation_entries ?r)" using example_changelog by simp
  then obtain e where "e \<in> set (cr_operation_entries ?r)" "oe_change_type e = ChangeRemoved" by (auto simp: list_ex_iff)
  with changelog_entry_limits [of e example_readers remdups_orders 0 empty_doc example_opts] show ?thesis by auto
qed

end
