(* ===== verification/Deprecation.thy ===== *)
theory Deprecation
  imports Spec_Diff
begin

text \<open>
  crates/specforge-core/src/deprecation.rs: deprecated elements of a document, the alternative
  named in a deprecation text, and the migration guide between two documents; with the copies of
  the text search in the Go and Rust emitters. Sets of names are hash sets with an explicit
  visiting order. Lower-casing is that of ASCII, so an offset into the lower-cased text is an offset
  into the text.
\<close>

section \<open>Text\<close>

text \<open>\<open>after.find(['.', ',', '\n', ';']).unwrap_or(after.len())\<close>, and the text before that offset.\<close>

definition before_punctuation :: "string \<Rightarrow> string" where
  "before_punctuation s = takeWhile (\<lambda>c. c \<notin> {CHR ''.'', CHR '','', CHR 10, CHR '';''}) s"

section \<open>Deprecated elements\<close>

datatype deprecation_kind = DepOperation | DepSchema | DepParameter | DepResponse

fun deprecation_kind_str :: "deprecation_kind \<Rightarrow> string" where
  "deprecation_kind_str DepOperation = ''operation''"
| "deprecation_kind_str DepSchema = ''schema''"
| "deprecation_kind_str DepParameter = ''parameter''"
| "deprecation_kind_str DepResponse = ''response''"

record deprecation_info =
  dep_kind :: deprecation_kind
  dep_name :: string
  dep_path :: string
  dep_message :: "string option"
  dep_alternative :: "string option"

definition deprecation_info_str :: "deprecation_info \<Rightarrow> string" where
  "deprecation_info_str d =
     ''['' @ deprecation_kind_str (dep_kind d) @ ''] '' @ dep_name d
     @ (case dep_message d of Some msg \<Rightarrow> '' -- '' @ msg | None \<Rightarrow> [])
     @ (case dep_alternative d of Some alt \<Rightarrow> '' (use '' @ alt @ '' instead)'' | None \<Rightarrow> [])"

definition contains_deprecated :: "string \<Rightarrow> bool" where
  "contains_deprecated text \<longleftrightarrow> contains_sub (to_lowercase text) ''deprecated''"

text \<open>Byte offsets at which a character starts, and \<open>lower_to_text\<close>: the first of them not before an offset.\<close>

definition char_starts :: "string \<Rightarrow> nat list" where
  "char_starts s = filter (\<lambda>i. \<not> (128 \<le> byte (s ! i) \<and> byte (s ! i) < 192)) [0..<length s]"

definition lower_to_text :: "string \<Rightarrow> nat \<Rightarrow> nat" where
  "lower_to_text text lower_pos =
     (case List.find (\<lambda>i. lower_pos \<le> i) (char_starts text) of Some i \<Rightarrow> i | None \<Rightarrow> length text)"

definition non_empty :: "string \<Rightarrow> string option" where
  "non_empty alt = (if alt \<noteq> [] then Some alt else None)"

text \<open>
  The searches of \<open>extract_alternative\<close>, over the offset \<open>off\<close> gives for the end of a match:
  the text between a pattern and \<open>instead\<close>, and the text after a pattern up to punctuation.
\<close>

definition alternative_instead :: "(nat \<Rightarrow> nat) \<Rightarrow> string \<Rightarrow> string option" where
  "alternative_instead off text =
     (case find_sub ''use '' (to_lowercase text) of
        None \<Rightarrow> None
      | Some pos \<Rightarrow>
          (let after = drop (off (pos + 4)) text in
           case find_sub '' instead'' (to_lowercase after) of
             None \<Rightarrow> None
           | Some end_pos \<Rightarrow> non_empty (trim (take end_pos after))))"

definition alternative_after :: "(nat \<Rightarrow> nat) \<Rightarrow> string \<Rightarrow> string \<Rightarrow> string option" where
  "alternative_after off pattern text =
     (case find_sub pattern (to_lowercase text) of
        None \<Rightarrow> None
      | Some pos \<Rightarrow> non_empty (trim (before_punctuation (drop (off (pos + length pattern)) text))))"

fun or_else :: "'a option \<Rightarrow> 'a option \<Rightarrow> 'a option" where
  "or_else (Some x) y = Some x"
| "or_else None y = y"

definition extract_alternative :: "string \<Rightarrow> string option" where
  "extract_alternative text =
     (let off = lower_to_text text in
      or_else (alternative_instead off text)
       (or_else (alternative_after off ''replaced by '' text)
         (or_else (alternative_after off ''replaced with '' text)
           (alternative_after off ''migrate to '' text))))"

definition deprecated_operation :: "operation \<Rightarrow> deprecation_info list" where
  "deprecated_operation op =
     (let from_summary = (case op_summary op of Some s \<Rightarrow> if contains_deprecated s then Some s else None | None \<Rightarrow> None);
          dep_msg = (case from_summary of
                       Some s \<Rightarrow> Some s
                     | None \<Rightarrow> (case op_description op of
                                  Some d \<Rightarrow> if contains_deprecated d then Some d else None
                                | None \<Rightarrow> None))
      in case dep_msg of
           None \<Rightarrow> []
         | Some msg \<Rightarrow>
             [\<lparr>dep_kind = DepOperation, dep_name = op_operation_id op, dep_path = ''operations.'' @ op_operation_id op,
               dep_message = Some msg, dep_alternative = extract_alternative msg\<rparr>])"

text \<open>The entry for a description that mentions deprecation.\<close>

definition deprecated_text ::
  "deprecation_kind \<Rightarrow> string \<Rightarrow> string \<Rightarrow> string option \<Rightarrow> deprecation_info list" where
  "deprecated_text kind name path description =
     (case description of
        Some desc \<Rightarrow>
          if contains_deprecated desc
          then [\<lparr>dep_kind = kind, dep_name = name, dep_path = path, dep_message = Some desc,
                 dep_alternative = extract_alternative desc\<rparr>]
          else []
      | None \<Rightarrow> [])"

fun deprecated_model_text :: "model \<Rightarrow> string option" where
  "deprecated_model_text (MObject o') = om_description o'"
| "deprecated_model_text (MEnum e) = em_description e"

definition find_deprecations :: "document \<Rightarrow> deprecation_info list" where
  "find_deprecations doc =
     concat (map (\<lambda>op.
       deprecated_operation op
       @ concat (map (\<lambda>param. deprecated_text DepParameter (par_name param)
           (''operations.'' @ op_operation_id op @ ''.params.'' @ par_name param) (par_description param)) (op_parameters op))
       @ concat (map (\<lambda>resp. deprecated_text DepResponse (resp_status resp @ '' '' @ op_operation_id op)
           (''operations.'' @ op_operation_id op @ ''.responses.'' @ resp_status resp) (resp_description resp)) (op_responses op)))
       (doc_operations doc))
     @ concat (map (\<lambda>(name, model). deprecated_text DepSchema name (''schemas.'' @ name) (deprecated_model_text model))
         (doc_schemas doc))"

section \<open>The copies in the emitters\<close>

text \<open>
  \<open>is_operation_deprecated\<close>, \<open>go_deprecation_alternative\<close> and \<open>go_schema_deprecation_alternative\<close> (and
  their Rust twins, which have the same text).
\<close>

definition is_operation_deprecated :: "operation \<Rightarrow> bool" where
  "is_operation_deprecated op \<longleftrightarrow>
     (case op_summary op of Some s \<Rightarrow> contains_deprecated s | None \<Rightarrow> False) \<or>
     (case op_description op of Some d \<Rightarrow> contains_deprecated d | None \<Rightarrow> False)"

definition emitter_schema_alternative :: "string \<Rightarrow> string option" where
  "emitter_schema_alternative desc =
     or_else (alternative_instead (\<lambda>i. i) desc)
       (or_else (alternative_after (\<lambda>i. i) ''replaced by '' desc) (alternative_after (\<lambda>i. i) ''replaced with '' desc))"

definition emitter_deprecation_alternative :: "operation \<Rightarrow> string option" where
  "emitter_deprecation_alternative op =
     emitter_schema_alternative
       (case op_summary op of Some s \<Rightarrow> s | None \<Rightarrow> (case op_description op of Some d \<Rightarrow> d | None \<Rightarrow> []))"

section \<open>The migration guide\<close>

record guide_orders =
  go_removed_ops :: "string set \<Rightarrow> string list"
  go_removed_schemas :: "string set \<Rightarrow> string list"
  go_new_ops :: "string set \<Rightarrow> string list"
  go_shared_schemas :: "string set \<Rightarrow> string list"
  go_added_ops :: "string set \<Rightarrow> string list"
  go_added_schemas :: "string set \<Rightarrow> string list"

definition section_lines :: "string \<Rightarrow> string list \<Rightarrow> string" where
  "section_lines title ls =
     (if ls = [] then [] else title @ newline @ newline @ concat (map (\<lambda>l. l @ newline) ls) @ newline)"

definition endpoint :: "operation \<Rightarrow> string" where
  "endpoint op = method_upper (op_method op) @ '' '' @ op_path op"

definition find_op :: "document \<Rightarrow> string \<Rightarrow> operation option" where
  "find_op doc i = List.find (\<lambda>o'. op_operation_id o' = i) (doc_operations doc)"

definition deprecated_op_line :: "document \<Rightarrow> deprecation_info \<Rightarrow> string" where
  "deprecated_op_line new_doc dep =
     (case find_op new_doc (dep_name dep) of
        Some op \<Rightarrow>
          (case dep_alternative dep of
             Some alt \<Rightarrow> ''- '' @ quoted (dep_name dep) @ '' ('' @ endpoint op @ '') -- Use '' @ quoted alt @ '' instead''
           | None \<Rightarrow> ''- '' @ quoted (dep_name dep) @ '' ('' @ endpoint op @ '') -- Deprecated'')
      | None \<Rightarrow> ''- '' @ quoted (dep_name dep) @ '' -- Deprecated'')"

definition deprecated_schema_line :: "deprecation_info \<Rightarrow> string" where
  "deprecated_schema_line dep =
     (case dep_alternative dep of
        Some alt \<Rightarrow> ''- '' @ quoted (dep_name dep) @ '' -- Use '' @ quoted alt @ '' instead''
      | None \<Rightarrow> ''- '' @ quoted (dep_name dep) @ '' -- Deprecated'')"

definition removed_op_line :: "document \<Rightarrow> string \<Rightarrow> string" where
  "removed_op_line old_doc i =
     (case find_op old_doc i of
        Some op \<Rightarrow> ''- '' @ quoted i @ '' ('' @ endpoint op @ '') was removed''
      | None \<Rightarrow> ''- '' @ quoted i @ '' was removed'')"

text \<open>The required parameters of the new operation that the old one does not have.\<close>

definition required_param_lines :: "document \<Rightarrow> document \<Rightarrow> string \<Rightarrow> string list" where
  "required_param_lines old_doc new_doc i =
     (case (op_index (doc_operations new_doc) i, op_index (doc_operations old_doc) i) of
        (Some new_op, Some old_op) \<Rightarrow>
          map (\<lambda>param. ''- '' @ quoted i @ '' ('' @ endpoint new_op @ '') now requires '' @ quoted (par_name param) @ '' parameter'')
            (filter (\<lambda>param. par_required param \<and> \<not> list_ex (\<lambda>p. par_name p = par_name param) (op_parameters old_op))
               (op_parameters new_op))
      | _ \<Rightarrow> [])"

text \<open>
  The source compares the \<open>{:?}\<close> forms of two types; the derived form prints every field, strings
  quoted and escaped, so it differs exactly when the types do.
\<close>

definition schema_change_lines :: "document \<Rightarrow> document \<Rightarrow> string \<Rightarrow> string list" where
  "schema_change_lines old_doc new_doc name =
     (case (registry_get (doc_schemas old_doc) name, registry_get (doc_schemas new_doc) name) of
        (Some (MObject old_obj), Some (MObject new_obj)) \<Rightarrow>
          map (\<lambda>p. ''- '' @ quoted (name @ ''.'' @ prop_name p) @ '' was removed'')
            (filter (\<lambda>p. \<not> list_ex (\<lambda>q. prop_name q = prop_name p) (om_properties new_obj)) (om_properties old_obj))
          @ List.map_filter (\<lambda>p.
              case List.find (\<lambda>q. prop_name q = prop_name p) (om_properties new_obj) of
                Some q \<Rightarrow> if prop_ty p \<noteq> prop_ty q
                          then Some (''- '' @ quoted (name @ ''.'' @ prop_name p) @ '' type changed'') else None
              | None \<Rightarrow> None) (om_properties old_obj)
          @ map (\<lambda>p. ''- '' @ quoted (name @ ''.'' @ prop_name p) @ '' was added as required'')
              (filter (\<lambda>p. prop_required p \<and> \<not> list_ex (\<lambda>q. prop_name q = prop_name p) (om_properties old_obj))
                 (om_properties new_obj))
      | _ \<Rightarrow> [])"

definition added_op_lines :: "document \<Rightarrow> string \<Rightarrow> string list" where
  "added_op_lines new_doc i =
     (case find_op new_doc i of Some op \<Rightarrow> [''- '' @ quoted i @ '' ('' @ endpoint op @ '')''] | None \<Rightarrow> [])"

text \<open>The sections of the guide in order, each with its title and lines.\<close>

definition guide_sections :: "guide_orders \<Rightarrow> document \<Rightarrow> document \<Rightarrow> (string \<times> string list) list" where
  "guide_sections ords old_doc new_doc =
     (let deps = find_deprecations new_doc;
          old_op_ids = set (op_ids (doc_operations old_doc));
          new_op_ids = set (op_ids (doc_operations new_doc));
          old_names = set (map fst (doc_schemas old_doc));
          new_names = set (map fst (doc_schemas new_doc))
      in
      [(''## Deprecated Operations'',
          map (deprecated_op_line new_doc) (filter (\<lambda>d. dep_kind d = DepOperation) deps)),
       (''## Deprecated Schemas'',
          map deprecated_schema_line (filter (\<lambda>d. dep_kind d = DepSchema) deps)),
       (''## Removed Operations'',
          map (removed_op_line old_doc) (go_removed_ops ords (old_op_ids - new_op_ids))),
       (''## Removed Schemas'',
          map (\<lambda>n. ''- '' @ quoted n @ '' was removed'') (go_removed_schemas ords (old_names - new_names))),
       (''## New Required Parameters'',
          concat (map (required_param_lines old_doc new_doc) (go_new_ops ords new_op_ids))),
       (''## Schema Changes'',
          concat (map (schema_change_lines old_doc new_doc) (go_shared_schemas ords (old_names \<inter> new_names)))),
       (''## New Operations'',
          concat (map (added_op_lines new_doc) (go_added_ops ords (new_op_ids - old_op_ids)))),
       (''## New Schemas'',
          map (\<lambda>n. ''- '' @ quoted n) (go_added_schemas ords (new_names - old_names)))])"

definition guide_header :: "string \<Rightarrow> string \<Rightarrow> string" where
  "guide_header old_version new_version =
     ''# Migration Guide: '' @ old_version @ '' -> '' @ new_version @ newline @ newline"

definition guide_note :: string where
  "guide_note = ''No breaking changes or deprecations detected.'' @ newline"

definition generate_migration_guide ::
  "guide_orders \<Rightarrow> document \<Rightarrow> document \<Rightarrow> string \<Rightarrow> string \<Rightarrow> string" where
  "generate_migration_guide ords old_doc new_doc old_version new_version =
     (let out = guide_header old_version new_version
            @ concat (map (\<lambda>(title, ls). section_lines title ls) (guide_sections ords old_doc new_doc))
      in if length (str_lines out) \<le> 2 then out @ guide_note else out)"

section \<open>Lemmas on the text functions\<close>

lemma infix_append: "(\<exists>u v. x = u @ a @ v) \<Longrightarrow> (\<exists>u v. y = u @ x @ v) \<Longrightarrow> \<exists>u v. y = u @ a @ v"
  by (metis append_assoc)

lemma infix_take_drop: "\<exists>u v. s = u @ take n (drop m s) @ v"
  by (metis append_take_drop_id append_assoc)

lemma non_empty_Some: "non_empty s = Some a \<longleftrightarrow> s = a \<and> a \<noteq> []"
  by (auto simp: non_empty_def)

lemma or_else_Some: "or_else x y = Some a \<longleftrightarrow> x = Some a \<or> (x = None \<and> y = Some a)"
  by (cases x) auto

lemma alternative_instead_infix: "alternative_instead off t = Some a \<Longrightarrow> a \<noteq> [] \<and> (\<exists>u v. t = u @ a @ v)"
  unfolding alternative_instead_def
  by (auto simp: Let_def non_empty_Some split: option.splits)
    (metis infix_append infix_take_drop trim_infix)

lemma before_punctuation_prefix: "\<exists>v. s = before_punctuation s @ v"
  unfolding before_punctuation_def by (metis takeWhile_dropWhile_id)

lemma alternative_after_infix: "alternative_after off p t = Some a \<Longrightarrow> a \<noteq> [] \<and> (\<exists>u v. t = u @ a @ v)"
proof -
  assume "alternative_after off p t = Some a"
  then obtain k where a: "a \<noteq> []" "trim (before_punctuation (drop k t)) = a"
    by (auto simp: alternative_after_def non_empty_Some split: option.splits)
  obtain u v where 1: "before_punctuation (drop k t) = u @ a @ v" using trim_infix a(2) by metis
  obtain w where "drop k t = before_punctuation (drop k t) @ w" using before_punctuation_prefix by blast
  with 1 have "t = (take k t @ u) @ a @ (v @ w)" by (metis append_assoc append_take_drop_id)
  with a(1) show ?thesis by blast
qed

lemma extract_alternative_infix: "extract_alternative t = Some a \<Longrightarrow> a \<noteq> [] \<and> (\<exists>u v. t = u @ a @ v)"
  unfolding extract_alternative_def Let_def or_else_Some
  using alternative_instead_infix alternative_after_infix by blast

lemma length_to_lowercase [simp]: "length (to_lowercase s) = length s"
  by (simp add: to_lowercase_def)

lemma to_lowercase_append: "to_lowercase (s @ t) = to_lowercase s @ to_lowercase t"
  by (simp add: to_lowercase_def)

text \<open>An offset where a character starts, or the end of the text, is kept.\<close>

lemma lower_to_text_id:
  assumes "i < length t \<Longrightarrow> \<not> (128 \<le> byte (t ! i) \<and> byte (t ! i) < 192)" and "i \<le> length t"
  shows "lower_to_text t i = i"
proof (cases "i < length t")
  case True
  have "[0..<length t] = [0..<i] @ i # [Suc i..<length t]"
    using True upt_add_eq_append [of 0 i "length t - i"] by (simp add: upt_conv_Cons)
  then have starts: "char_starts t = filter (\<lambda>i. \<not> (128 \<le> byte (t ! i) \<and> byte (t ! i) < 192)) [0..<i]
      @ i # filter (\<lambda>i. \<not> (128 \<le> byte (t ! i) \<and> byte (t ! i) < 192)) [Suc i..<length t]"
    using assms(1) True by (simp add: char_starts_def)
  have skip: "List.find (\<lambda>j. i \<le> j) (xs @ ys) = List.find (\<lambda>j. i \<le> j) ys" if "\<forall>x \<in> set xs. x < i" for xs ys
    using that by (induction xs) auto
  show ?thesis unfolding lower_to_text_def starts by (subst skip) auto
next
  case False
  then have "i = length t" using assms(2) by simp
  moreover have "List.find (\<lambda>j. length t \<le> j) (char_starts t) = None"
    by (auto simp: char_starts_def find_None_iff)
  ultimately show ?thesis by (simp add: lower_to_text_def)
qed

lemma find_sub_length: "find_sub p s = Some i \<Longrightarrow> i + length p \<le> length s"
  using find_sub_Some [of p s i] by auto

definition ascii :: "string \<Rightarrow> bool" where
  "ascii s \<longleftrightarrow> (\<forall>c \<in> set s. byte c < 128)"

lemma lower_to_text_ascii: "ascii t \<Longrightarrow> i \<le> length t \<Longrightarrow> lower_to_text t i = i"
  by (rule lower_to_text_id) (auto simp: ascii_def in_set_conv_nth dest!: bspec)

lemma alternative_ascii:
  assumes "ascii t"
  shows "alternative_instead (lower_to_text t) t = alternative_instead (\<lambda>i. i) t"
    and "alternative_after (lower_to_text t) p t = alternative_after (\<lambda>i. i) p t"
proof -
  have "i + length p \<le> length t" if "find_sub p (to_lowercase t) = Some i" for p i
    using find_sub_length [OF that] by simp
  from this [of "''use ''"] this [of p] lower_to_text_ascii [OF assms]
  show "alternative_instead (lower_to_text t) t = alternative_instead (\<lambda>i. i) t"
    and "alternative_after (lower_to_text t) p t = alternative_after (\<lambda>i. i) p t"
    by (auto simp: alternative_instead_def alternative_after_def split: option.split)
qed

lemma or_else_assoc: "or_else (or_else x y) z = or_else x (or_else y z)"
  by (cases x) auto


section \<open>Which operations are deprecated\<close>

lemma deprecated_text_kind: "d \<in> set (deprecated_text k n p desc) \<Longrightarrow> dep_kind d = k"
  by (auto simp: deprecated_text_def split: option.splits if_splits)

lemma deprecated_operation_iff:
  "(\<exists>d \<in> set (deprecated_operation op). dep_name d = n) \<longleftrightarrow> is_operation_deprecated op \<and> op_operation_id op = n"
  by (auto simp: deprecated_operation_def is_operation_deprecated_def Let_def split: option.splits)

lemma deprecated_operation_kind: "d \<in> set (deprecated_operation op) \<Longrightarrow> dep_kind d = DepOperation"
  by (auto simp: deprecated_operation_def Let_def split: option.splits)

lemma find_deprecations_operations:
  "d \<in> set (find_deprecations doc) \<and> dep_kind d = DepOperation \<longleftrightarrow>
   (\<exists>op \<in> set (doc_operations doc). d \<in> set (deprecated_operation op))"
  by (auto simp: find_deprecations_def dest: deprecated_text_kind deprecated_operation_kind)

section \<open>When the guide is silent\<close>

lemma length_str_lines: "length (str_lines (s @ newline)) = count_list s (CHR 10) + 1"
proof -
  have "split_on (CHR 10) (s @ newline) = split_on (CHR 10) s @ [[]]"
    using split_on_append_sep [of "CHR 10" s "[]"] by (simp add: newline_def)
  then show ?thesis by (simp add: str_lines_def Let_def length_split_on)
qed

lemma section_lines_newlines: "ls \<noteq> [] \<Longrightarrow> \<exists>s. section_lines t ls = s @ newline \<and> 1 \<le> count_list s (CHR 10)"
proof -
  assume "ls \<noteq> []"
  then have "section_lines t ls = (t @ newline @ newline @ concat (map (\<lambda>l. l @ newline) ls)) @ newline"
    by (simp add: section_lines_def)
  moreover have "1 \<le> count_list (t @ newline @ newline @ concat (map (\<lambda>l. l @ newline) ls)) (CHR 10)"
    by (simp add: newline_def)
  ultimately show ?thesis by blast
qed

lemma section_lines_empty [simp]: "section_lines t [] = []"
  by (simp add: section_lines_def)

lemma sections_newlines:
  assumes "\<exists>(t, ls) \<in> set secs. ls \<noteq> []"
  shows "\<exists>s. concat (map (\<lambda>(t, ls). section_lines t ls) secs) = s @ newline \<and> 1 \<le> count_list s (CHR 10)"
  using assms
proof (induction secs rule: rev_induct)
  case (snoc x secs)
  obtain t ls where x: "x = (t, ls)" by (cases x)
  show ?case
  proof (cases "ls = []")
    case True
    with snoc x show ?thesis by auto
  next
    case False
    with section_lines_newlines [of ls t] x obtain s where "section_lines t ls = s @ newline" "1 \<le> count_list s (CHR 10)"
      by blast
    then show ?thesis
      by (intro exI [of _ "concat (map (\<lambda>(t, ls). section_lines t ls) secs) @ s"]) (simp add: x)
  qed
qed simp

definition orders_visit :: "guide_orders \<Rightarrow> bool" where
  "orders_visit ords \<longleftrightarrow> visits_all (go_removed_ops ords) \<and> visits_all (go_removed_schemas ords) \<and>
     visits_all (go_new_ops ords) \<and> visits_all (go_shared_schemas ords) \<and> visits_all (go_added_ops ords) \<and>
     visits_all (go_added_schemas ords)"

text \<open>What the guide looks at, and finds nothing to say about.\<close>

definition guide_silent :: "document \<Rightarrow> document \<Rightarrow> bool" where
  "guide_silent old new \<longleftrightarrow>
     (\<forall>d \<in> set (find_deprecations new). dep_kind d \<noteq> DepOperation \<and> dep_kind d \<noteq> DepSchema) \<and>
     set (op_ids (doc_operations old)) = set (op_ids (doc_operations new)) \<and>
     fst ` set (doc_schemas old) = fst ` set (doc_schemas new) \<and>
     (\<forall>i \<in> set (op_ids (doc_operations new)). required_param_lines old new i = []) \<and>
     (\<forall>n \<in> fst ` set (doc_schemas new). schema_change_lines old new n = [])"

lemma visits_all_empty: "visits_all ord \<Longrightarrow> finite A \<Longrightarrow> ord A = [] \<longleftrightarrow> A = {}"
  unfolding visits_all_def by (metis set_empty2 empty_set)

lemma find_op_ids: "find_op doc i = None \<longleftrightarrow> i \<notin> set (op_ids (doc_operations doc))"
  by (auto simp: find_op_def find_None_iff op_ids_def)

lemma added_op_lines_iff: "added_op_lines doc i = [] \<longleftrightarrow> i \<notin> set (op_ids (doc_operations doc))"
  using find_op_ids [of doc i] by (cases "find_op doc i") (auto simp: added_op_lines_def)

lemma set_visits: "visits_all ord \<Longrightarrow> set (ord (set xs)) = set xs"
  by (simp add: visits_all_def)


lemma silent_iff:
  "((\<forall>d \<in> D. dep_kind d \<noteq> DepOperation) \<and> (\<forall>d \<in> D. dep_kind d \<noteq> DepSchema) \<and> os \<subseteq> os' \<and> ns \<subseteq> fst ` S \<and> C \<and>
    (\<forall>n \<in> ns \<inter> fst ` S. R n) \<and> (\<forall>i. i \<in> os' \<longrightarrow> i \<in> os) \<and> fst ` S \<subseteq> ns) \<longleftrightarrow>
   ((\<forall>d \<in> D. dep_kind d \<noteq> DepOperation \<and> dep_kind d \<noteq> DepSchema) \<and> os = os' \<and> ns = fst ` S \<and> C \<and> (\<forall>x \<in> S. R (fst x)))"
  by (auto, force)

lemma guide_sections_silent:
  assumes "orders_visit ords"
  shows "(\<forall>(t, ls) \<in> set (guide_sections ords old new). ls = []) \<longleftrightarrow> guide_silent old new"
proof -
  note v = assms [unfolded orders_visit_def]
  let ?ops = "set (op_ids (doc_operations old))" and ?ops' = "set (op_ids (doc_operations new))"
  let ?ns = "fst ` set (doc_schemas old)" and ?ns' = "fst ` set (doc_schemas new)"
  have "set (go_added_ops ords (?ops' - ?ops)) = ?ops' - ?ops" "set (go_new_ops ords ?ops') = ?ops'"
    "set (go_shared_schemas ords (?ns \<inter> ?ns')) = ?ns \<inter> ?ns'"
    using v by (simp_all add: visits_all_def)
  then show ?thesis
    unfolding guide_silent_def guide_sections_def Let_def set_map
    using v by (simp add: visits_all_empty filter_empty_conv added_op_lines_iff) (rule silent_iff)
qed

lemma guide_cases:
  assumes "orders_visit ords" and "CHR 10 \<notin> set old_version" and "CHR 10 \<notin> set new_version"
  shows "generate_migration_guide ords old new old_version new_version =
    (if guide_silent old new then guide_header old_version new_version @ guide_note
     else guide_header old_version new_version
       @ concat (map (\<lambda>(title, ls). section_lines title ls) (guide_sections ords old new)))"
proof -
  define h where "h = ''# Migration Guide: '' @ old_version @ '' -> '' @ new_version @ newline"
  have h: "guide_header old_version new_version = h @ newline" "count_list h (CHR 10) = 1"
    using assms(2,3) by (simp_all add: h_def guide_header_def newline_def)
  show ?thesis
  proof (cases "guide_silent old new")
    case True
    then have none: "concat (map (\<lambda>(title, ls). section_lines title ls) (guide_sections ords old new)) = []"
      using guide_sections_silent [OF assms(1)] by fastforce
    show ?thesis
      unfolding generate_migration_guide_def Let_def none using True h by (simp add: length_str_lines)
  next
    case False
    then have "\<exists>(t, ls) \<in> set (guide_sections ords old new). ls \<noteq> []"
      using guide_sections_silent [OF assms(1), of old new] by auto
    from sections_newlines [OF this] obtain s where
      s: "concat (map (\<lambda>(t, ls). section_lines t ls) (guide_sections ords old new)) = s @ newline" "1 \<le> count_list s (CHR 10)"
      by blast
    have "length (str_lines ((h @ newline @ s) @ newline)) = count_list (h @ newline @ s) (CHR 10) + 1"
      by (rule length_str_lines)
    also have "\<dots> > 2" using h s by (simp add: newline_def)
    finally show ?thesis using False h s by (simp add: generate_migration_guide_def Let_def)
  qed
qed


section \<open>Properties\<close>

definition guide_op :: "string list \<Rightarrow> operation" where
  "guide_op codes =
     \<lparr>op_operation_id = ''a'', op_method = Get, op_path = ''/a'', op_tag = None, op_summary = None, op_description = None,
      op_parameters = [], op_request_body = None,
      op_responses = map (\<lambda>c. \<lparr>resp_status = c, resp_description = None, resp_body = None\<rparr>) codes, op_retry_policy = None\<rparr>"

definition guide_doc :: "string list \<Rightarrow> document" where
  "guide_doc codes = empty_doc\<lparr>doc_operations := [guide_op codes]\<rparr>"

text \<open>
  The migration guide says that nothing changed exactly when there is no deprecation among
  operations and schemas, operations and schemas have the same names, no operation has a new required
  parameter and no shared object schema lost, retyped or gained (as required) a property. That is
  not the compatibility contract of the diff: an operation that loses a response is a breaking change
  about which the guide says that there is none.
\<close>

theorem migration_guide_silent:
  assumes "orders_visit ords" and "CHR 10 \<notin> set old_version" and "CHR 10 \<notin> set new_version"
  shows "(generate_migration_guide ords old new old_version new_version =
      guide_header old_version new_version @ guide_note \<longleftrightarrow> guide_silent old new) \<and>
    guide_silent (guide_doc [''200'', ''404'']) (guide_doc [''200'']) \<and>
    \<not> doc_compatible (guide_doc [''200'', ''404'']) (guide_doc [''200''])"
proof (intro conjI)
  show "generate_migration_guide ords old new old_version new_version =
      guide_header old_version new_version @ guide_note \<longleftrightarrow> guide_silent old new"
  proof (cases "guide_silent old new")
    case False
    then obtain t ls where sec: "(t, ls) \<in> set (guide_sections ords old new)" "ls \<noteq> []"
      using guide_sections_silent [OF assms(1), of old new] by auto
    then have hash: "CHR ''#'' \<in> set (concat (map (\<lambda>(title, ls). section_lines title ls) (guide_sections ords old new)))"
      by (auto simp: guide_sections_def Let_def section_lines_def)
    have "CHR ''#'' \<notin> set guide_note" by (simp add: guide_note_def newline_def)
    with hash have "concat (map (\<lambda>(title, ls). section_lines title ls) (guide_sections ords old new)) \<noteq> guide_note"
      by metis
    with False show ?thesis by (simp add: guide_cases [OF assms])
  qed (simp add: guide_cases [OF assms])
  show "guide_silent (guide_doc [''200'', ''404'']) (guide_doc [''200''])" by code_simp
  have "breaking_of (diff remdups_orders (guide_doc [''200'', ''404'']) (guide_doc [''200''])) \<noteq> []" by code_simp
  with diff_compatible [OF orders_ok_examples(1)] show "\<not> doc_compatible (guide_doc [''200'', ''404'']) (guide_doc [''200''])"
    by simp
qed

definition sorted_guide_orders :: guide_orders where
  "sorted_guide_orders =
     \<lparr>go_removed_ops = sorted_list_of_set, go_removed_schemas = sorted_list_of_set, go_new_ops = sorted_list_of_set,
      go_shared_schemas = sorted_list_of_set, go_added_ops = sorted_list_of_set, go_added_schemas = sorted_list_of_set\<rparr>"

theorem migration_guide_silent_witness:
  "generate_migration_guide sorted_guide_orders (guide_doc [''200'', ''404'']) (guide_doc [''200'']) ''1'' ''2'' =
     guide_header ''1'' ''2'' @ guide_note"
proof -
  have "orders_visit sorted_guide_orders" by (simp add: orders_visit_def sorted_guide_orders_def visits_all_def)
  from migration_guide_silent [OF this, of "''1''" "''2''"] show ?thesis by simp
qed

text \<open>
  The report and the emitters agree on which operations are deprecated, and an alternative the
  report names is a non-empty piece of the text. On ASCII text the emitters find the same
  alternative, except that they do not know the phrase "migrate to".
\<close>

theorem deprecation_report_agrees:
  "((\<exists>d \<in> set (find_deprecations doc). dep_kind d = DepOperation \<and> dep_name d = n) \<longleftrightarrow>
     (\<exists>op \<in> set (doc_operations doc). is_operation_deprecated op \<and> op_operation_id op = n)) \<and>
   (extract_alternative text = Some a \<longrightarrow> a \<noteq> [] \<and> (\<exists>u v. text = u @ a @ v)) \<and>
   (ascii text \<longrightarrow> extract_alternative text =
      or_else (emitter_schema_alternative text) (alternative_after (\<lambda>i. i) ''migrate to '' text))"
proof (intro conjI impI)
  have "(\<exists>d \<in> set (find_deprecations doc). dep_kind d = DepOperation \<and> dep_name d = n) \<longleftrightarrow>
      (\<exists>op \<in> set (doc_operations doc). \<exists>d \<in> set (deprecated_operation op). dep_name d = n)"
    using find_deprecations_operations [of _ doc] by blast
  then show "(\<exists>d \<in> set (find_deprecations doc). dep_kind d = DepOperation \<and> dep_name d = n) \<longleftrightarrow>
      (\<exists>op \<in> set (doc_operations doc). is_operation_deprecated op \<and> op_operation_id op = n)"
    by (simp add: deprecated_operation_iff)
  show "a \<noteq> []" "\<exists>u v. text = u @ a @ v" if "extract_alternative text = Some a"
    using extract_alternative_infix [OF that] by auto
  show "extract_alternative text =
      or_else (emitter_schema_alternative text) (alternative_after (\<lambda>i. i) ''migrate to '' text)" if "ascii text"
    by (simp add: extract_alternative_def emitter_schema_alternative_def Let_def alternative_ascii [OF that] or_else_assoc)
qed

lemma list_all_alternative: "extract_alternative ''Deprecated: use listAll instead.'' = Some ''listAll''"
  by code_simp

lemma list_pets_alternative:
  "emitter_schema_alternative ''List pets'' = None \<and> \<not> contains_deprecated ''List pets'' \<and>
   contains_deprecated ''Deprecated: use listAll instead.''"
  by code_simp

theorem deprecation_report_agrees_witness:
  "extract_alternative ''Deprecated: use listAll instead.'' = Some ''listAll'' \<and>
   (\<exists>u v. ''Deprecated: use listAll instead.'' = u @ ''listAll'' @ v) \<and>
   emitter_schema_alternative ''Deprecated: use listAll instead.'' = Some ''listAll''"
proof -
  let ?t = "''Deprecated: use listAll instead.''"
  note x = list_all_alternative
  have "emitter_schema_alternative ?t = Some ''listAll''" by code_simp
  with x deprecation_report_agrees [of empty_doc "[]" ?t "''listAll''"] show ?thesis by simp
qed

text \<open>The emitters read the summary when there is one, even if the description is the deprecated text.\<close>

lemma emitter_alternative_from_summary:
  "\<exists>op. is_operation_deprecated op \<and> emitter_deprecation_alternative op = None \<and>
     map dep_alternative (deprecated_operation op) = [Some ''listAll'']"
  by (rule exI [of _ "(guide_op [])\<lparr>op_summary := Some ''List pets'',
      op_description := Some ''Deprecated: use listAll instead.''\<rparr>"])
    (simp add: is_operation_deprecated_def emitter_deprecation_alternative_def deprecated_operation_def
      list_all_alternative list_pets_alternative)

end
