(* ===== verification/Evolution.thy ===== *)
theory Evolution
  imports Spec_Parse Resolve Spec_Diff
begin

text \<open>
  The history of a spec (crates/specforge-core/src/evolution.rs): the commits that touched it, the versions that can be
  read, and the breaking changes between neighbours. The output of \<open>git log\<close> and \<open>git show\<close>, the decoders of
  \<open>parse_str\<close>, serde's pretty printer and the hash orders of every comparison are parameters. This component composes
  parsing, resolution and comparison.
\<close>

record version_snapshot =
  vs_commit :: string
  vs_date :: string
  vs_schema_count :: nat
  vs_operation_count :: nat
  vs_breaking_changes :: nat

datatype evolution_format = EvoText | EvoJson | EvoMarkdown

section \<open>The commits\<close>

text \<open>\<open>split_once(',')\<close>\<close>

definition commit_line :: "string \<Rightarrow> (string \<times> string) option" where
  "commit_line l =
     (let t = trim l; hash = takeWhile (\<lambda>c. c \<noteq> CHR '','') t
      in if t = [] \<or> hash = t then None else Some (hash, drop (Suc (length hash)) t))"

definition git_log_for_file :: "(string, string) result \<Rightarrow> (string, (string \<times> string) list) result" where
  "git_log_for_file history =
     (case history of
        Inl e \<Rightarrow> Inl (''git log failed: '' @ e)
      | Inr stdout \<Rightarrow> Inr (rev (List.map_filter commit_line (str_lines stdout))))"

section \<open>The timeline\<close>

text \<open>The document of a commit, when the file is there, parses and resolves.\<close>

definition document_at ::
  "(string \<Rightarrow> (string, string) result) \<Rightarrow> (string \<Rightarrow> (spec_error, oapi_spec) result) \<Rightarrow> string \<Rightarrow> document option" where
  "document_at git_show parse hash =
     (case git_show hash of
        Inl e \<Rightarrow> None
      | Inr content \<Rightarrow>
          (case parse content of
             Inl e \<Rightarrow> None
           | Inr spec \<Rightarrow> (case resolve spec of Inl e \<Rightarrow> None | Inr doc \<Rightarrow> Some doc)))"

definition snapshots ::
  "(string \<Rightarrow> (string, string) result) \<Rightarrow> (string \<Rightarrow> (spec_error, oapi_spec) result) \<Rightarrow> (string \<times> string) list
     \<Rightarrow> (string \<times> string \<times> document) list" where
  "snapshots git_show parse commits =
     List.map_filter (\<lambda>(hash, date). map_option (\<lambda>doc. (hash, date, doc)) (document_at git_show parse hash)) commits"

definition snapshot_at :: "(nat \<Rightarrow> iter_orders) \<Rightarrow> (string \<times> string \<times> document) list \<Rightarrow> nat \<Rightarrow> version_snapshot" where
  "snapshot_at ords snaps i =
     (case snaps ! i of (commit, date, doc) \<Rightarrow>
        \<lparr>vs_commit = commit, vs_date = date, vs_schema_count = length (doc_schemas doc),
         vs_operation_count = length (doc_operations doc),
         vs_breaking_changes =
           (if 0 < i then length (breaking_of (diff (ords i) (snd (snd (snaps ! (i - 1)))) doc)) else 0)\<rparr>)"

definition versions_of :: "(nat \<Rightarrow> iter_orders) \<Rightarrow> (string \<times> string \<times> document) list \<Rightarrow> version_snapshot list" where
  "versions_of ords snaps = map (snapshot_at ords snaps) [0..<length snaps]"

definition track_evolution ::
  "(nat \<Rightarrow> iter_orders) \<Rightarrow> (string, string) result \<Rightarrow> (string \<Rightarrow> (string, string) result)
     \<Rightarrow> (string \<Rightarrow> (spec_error, oapi_spec) result) \<Rightarrow> (string, version_snapshot list) result" where
  "track_evolution ords history git_show parse =
     (case git_log_for_file history of
        Inl e \<Rightarrow> Inl e
      | Inr commits \<Rightarrow> Inr (if commits = [] then [] else versions_of ords (snapshots git_show parse commits)))"

section \<open>Reports\<close>

definition short_hash :: "string \<Rightarrow> string" where
  "short_hash commit = take 8 commit"

definition total_breaking :: "version_snapshot list \<Rightarrow> nat" where
  "total_breaking vs = sum_list (map vs_breaking_changes vs)"

definition evolution_text :: "version_snapshot list \<Rightarrow> string" where
  "evolution_text vs =
     (if vs = [] then ''No evolution history found.'' @ newline
      else ''Schema Evolution Timeline'' @ newline @ ''========================'' @ newline @ newline
        @ concat (map (\<lambda>v.
            ''  '' @ short_hash (vs_commit v) @ '' '' @ show_nat (vs_schema_count v) @ '' schemas, ''
            @ show_nat (vs_operation_count v) @ '' ops''
            @ (if 0 < vs_breaking_changes v then '' ['' @ show_nat (vs_breaking_changes v) @ '' BREAKING]'' else [])
            @ newline @ ''  date: '' @ vs_date v @ newline @ newline) vs)
        @ show_nat (length vs) @ '' version(s), '' @ show_nat (total_breaking vs) @ '' total breaking change(s)'' @ newline)"

definition evolution_row :: "version_snapshot \<Rightarrow> string" where
  "evolution_row v =
     ''| `'' @ short_hash (vs_commit v) @ ''` | '' @ vs_date v @ '' | '' @ show_nat (vs_schema_count v) @ '' | ''
     @ show_nat (vs_operation_count v) @ '' | '' @ show_nat (vs_breaking_changes v) @ '' |'' @ newline"

definition evolution_markdown :: "version_snapshot list \<Rightarrow> string" where
  "evolution_markdown vs =
     (if vs = [] then ''_No evolution history found._'' @ newline
      else ''# Schema Evolution'' @ newline @ newline
        @ ''| Commit | Date | Schemas | Operations | Breaking Changes |'' @ newline
        @ ''|--------|------|---------|------------|------------------|'' @ newline
        @ concat (map evolution_row vs)
        @ newline @ ''**'' @ show_nat (length vs) @ ''** version(s), **'' @ show_nat (total_breaking vs)
        @ ''** total breaking change(s)'' @ newline)"

section \<open>What the timeline shows\<close>

text \<open>
  C33. The timeline has one version for each commit at which the spec can be read, oldest first. The first has no
  breaking changes; each later one has none exactly when its document meets the compatibility contract with that of the
  last readable version before it, however hash maps are iterated.
\<close>

theorem evolution_exact:
  assumes "\<And>i. orders_ok (ords i)" and "git_log_for_file history = Inr commits"
  shows "\<exists>docs vs. track_evolution ords history git_show parse = Inr vs
     \<and> docs = List.map_filter (\<lambda>(hash, date). document_at git_show parse hash) commits
     \<and> map vs_commit vs = map fst (filter (\<lambda>(hash, date). document_at git_show parse hash \<noteq> None) commits)
     \<and> length vs = length docs
     \<and> (\<forall>i < length vs. vs_schema_count (vs ! i) = length (doc_schemas (docs ! i))
          \<and> vs_operation_count (vs ! i) = length (doc_operations (docs ! i))
          \<and> (vs_breaking_changes (vs ! i) = 0 \<longleftrightarrow> i = 0 \<or> doc_compatible (docs ! (i - 1)) (docs ! i)))"
proof -
  let ?snaps = "snapshots git_show parse commits"
  have docs: "List.map_filter (\<lambda>(hash, date). document_at git_show parse hash) commits = map (snd \<circ> snd) ?snaps"
    by (induction commits) (auto simp: snapshots_def List.map_filter_def)
  have names: "map fst (filter (\<lambda>(hash, date). document_at git_show parse hash \<noteq> None) commits) = map fst ?snaps"
    by (induction commits) (auto simp: snapshots_def List.map_filter_def)
  have track: "track_evolution ords history git_show parse = Inr (versions_of ords ?snaps)"
    using assms(2) by (simp add: track_evolution_def versions_of_def snapshots_def List.map_filter_def)
  have commit: "map vs_commit (versions_of ords ?snaps) = map fst ?snaps"
    by (rule nth_equalityI) (simp_all add: versions_of_def snapshot_at_def case_prod_beta)
  have version: "vs_schema_count (versions_of ords ?snaps ! i) = length (doc_schemas (map (snd \<circ> snd) ?snaps ! i))
      \<and> vs_operation_count (versions_of ords ?snaps ! i) = length (doc_operations (map (snd \<circ> snd) ?snaps ! i))
      \<and> (vs_breaking_changes (versions_of ords ?snaps ! i) = 0 \<longleftrightarrow>
           i = 0 \<or> doc_compatible (map (snd \<circ> snd) ?snaps ! (i - 1)) (map (snd \<circ> snd) ?snaps ! i))"
    if "i < length (versions_of ords ?snaps)" for i
    using that diff_compatible [OF assms(1) [of i]]
    by (simp add: versions_of_def snapshot_at_def case_prod_beta)
  have len: "length (versions_of ords ?snaps) = length (map (snd \<circ> snd) ?snaps)" by (simp add: versions_of_def)
  show ?thesis
  proof (intro exI conjI)
    show "track_evolution ords history git_show parse = Inr (versions_of ords ?snaps)" by (rule track)
    show "map (snd \<circ> snd) ?snaps = List.map_filter (\<lambda>(hash, date). document_at git_show parse hash) commits"
      by (rule docs [symmetric])
    show "map vs_commit (versions_of ords ?snaps) =
        map fst (filter (\<lambda>(hash, date). document_at git_show parse hash \<noteq> None) commits)"
      by (simp only: commit names)
    show "length (versions_of ords ?snaps) = length (map (snd \<circ> snd) ?snaps)" by (rule len)
  qed (use version in blast)
qed

text \<open>Three commits; at the second one the spec cannot be parsed.\<close>

definition sample_history :: string where
  "sample_history = ''c3,d3'' @ newline @ ''c2,d2'' @ newline @ ''c1,d1'' @ newline"

definition bare_spec :: oapi_spec where
  "bare_spec = \<lparr>spec_title = ''t'', spec_version = ''1'', spec_servers = [], spec_paths = [], spec_components = None,
     spec_security = None\<rparr>"

theorem evolution_exact_witness:
  "\<exists>vs. track_evolution (\<lambda>i. remdups_orders) (Inr sample_history) Inr
       (\<lambda>t. if t = ''c2'' then Inl (SpecJson ''bad'') else Inr bare_spec) = Inr vs
     \<and> map vs_commit vs = [''c1'', ''c3''] \<and> vs_breaking_changes (vs ! 1) = 0"
proof -
  let ?parse = "\<lambda>t. if t = ''c2'' then Inl (SpecJson ''bad'') else Inr bare_spec"
  have commits: "git_log_for_file (Inr sample_history) = Inr [(''c1'', ''d1''), (''c2'', ''d2''), (''c3'', ''d3'')]"
    by code_simp
  obtain doc where doc: "resolve bare_spec = Inr doc" "doc_compatible doc doc"
  proof -
    have "case resolve bare_spec of Inr d \<Rightarrow> doc_schemas d = [] \<and> doc_operations d = [] | Inl e \<Rightarrow> False"
      by code_simp
    then obtain d where d: "resolve bare_spec = Inr d" "doc_schemas d = []" "doc_operations d = []"
      by (auto split: sum.splits)
    show thesis by (rule that [of d]) (simp_all add: d doc_compatible_def op_index_def registry_get_def)
  qed
  have docs: "document_at Inr ?parse ''c1'' = Some doc" "document_at Inr ?parse ''c2'' = None" "document_at Inr ?parse ''c3'' = Some doc"
    using doc by (simp_all add: document_at_def)
  have readable: "List.map_filter (\<lambda>(hash, date). document_at Inr ?parse hash) [(''c1'', ''d1''), (''c2'', ''d2''), (''c3'', ''d3'')] = [doc, doc]"
    "map fst (filter (\<lambda>(hash, date). document_at Inr ?parse hash \<noteq> None) [(''c1'', ''d1''), (''c2'', ''d2''), (''c3'', ''d3'')]) = [''c1'', ''c3'']"
    using docs by (simp_all add: List.map_filter_simps)
  obtain vs where vs: "track_evolution (\<lambda>i. remdups_orders) (Inr sample_history) Inr ?parse = Inr vs"
    "map vs_commit vs = [''c1'', ''c3'']" "length vs = 2"
    and versions: "\<forall>i < length vs. vs_breaking_changes (vs ! i) = 0 \<longleftrightarrow> i = 0 \<or> doc_compatible ([doc, doc] ! (i - 1)) ([doc, doc] ! i)"
    using evolution_exact [of "\<lambda>i. remdups_orders", OF orders_ok_examples(1) commits, of Inr ?parse] unfolding readable by auto
  have "vs_breaking_changes (vs ! 1) = 0" using versions [rule_format, of 1] vs(3) doc(2) by simp
  then show ?thesis using vs(1,2) by (intro exI [of _ vs] conjI)
qed

end
