(* ===== verification/Workspace.thy ===== *)
theory Workspace
  imports Ir
begin

text \<open>
  Workspaces (crates/specforge-core/src/workspace.rs): the configuration of several specs and their outputs, the paths
  resolved against it, and the scan of a directory that writes one. The directory listing, the YAML codec and the result
  of writing are parameters.
\<close>

section \<open>Paths\<close>

text \<open>
  \<open>std::path::Path\<close> on Unix, up to its equality: whether the path is absolute, and its components. \<open>read_path\<close> drops
  empty components, and dots other than one at the start of a relative path, as \<open>Path::components\<close> does.
\<close>

record path =
  pa_absolute :: bool
  pa_components :: "string list"

definition read_path :: "string \<Rightarrow> path" where
  "read_path s =
     (let parts = split_on (CHR ''/'') s;
          named = filter (\<lambda>p. p \<noteq> [] \<and> p \<noteq> ''.'') parts
      in if starts_with s ''/'' then \<lparr>pa_absolute = True, pa_components = named\<rparr>
         else \<lparr>pa_absolute = False, pa_components = (if hd parts = ''.'' then [''.''] else []) @ named\<rparr>)"

definition show_path :: "path \<Rightarrow> string" where
  "show_path p = (if pa_absolute p then ''/'' else []) @ join ''/'' (pa_components p)"

definition parent :: "path \<Rightarrow> path option" where
  "parent p = (if pa_components p = [] then None else Some (p\<lparr>pa_components := butlast (pa_components p)\<rparr>))"

text \<open>\<open>Path::join\<close>: an absolute path replaces the base; a dot at the start of the other is dropped after a component.\<close>

definition join_path :: "path \<Rightarrow> path \<Rightarrow> path" where
  "join_path base p =
     (if pa_absolute p then p
      else base\<lparr>pa_components := pa_components base @
        (if (pa_absolute base \<or> pa_components base \<noteq> []) \<and> pa_components p \<noteq> [] \<and> hd (pa_components p) = ''.''
         then tl (pa_components p) else pa_components p)\<rparr>)"

text \<open>\<open>Path::strip_prefix\<close>: the empty path is a prefix of every path.\<close>

definition strip_base :: "path \<Rightarrow> path \<Rightarrow> path option" where
  "strip_base base p =
     (if \<not> pa_absolute base \<and> pa_components base = [] then Some p
      else if pa_absolute base = pa_absolute p \<and> take (length (pa_components base)) (pa_components p) = pa_components base
      then Some \<lparr>pa_absolute = False, pa_components = drop (length (pa_components base)) (pa_components p)\<rparr>
      else None)"

text \<open>\<open>file_stem\<close> and \<open>extension\<close> of a file name: the part before and after the last dot that is not the first character.\<close>

definition file_parts :: "string \<Rightarrow> string \<times> string option" where
  "file_parts name =
     (let after = takeWhile (\<lambda>c. c \<noteq> CHR ''.'') (rev name);
          before = drop (Suc (length after)) (rev name)
      in if name = ''..'' \<or> length after = length name \<or> before = [] then (name, None)
         else (rev before, Some (rev after)))"

definition file_stem :: "string \<Rightarrow> string" where "file_stem name = fst (file_parts name)"

definition extension :: "string \<Rightarrow> string option" where "extension name = snd (file_parts name)"

section \<open>The configuration\<close>

record plugin_config =
  pc_name :: string
  pc_path :: string
  pc_enabled :: bool

record workspace_output =
  wo_lang :: string
  wo_out :: string
  wo_name :: "string option"

record workspace_spec =
  ws_name :: string
  ws_spec :: string
  ws_outputs :: "workspace_output list"

record specforge_config =
  sc_specs :: "workspace_spec list"
  sc_plugins :: "plugin_config list"

text \<open>Loading: the text of the file or the error of reading it, and \<open>serde_yaml::from_str\<close>.\<close>

definition load_config :: "(string \<Rightarrow> (string, 'a) result) \<Rightarrow> (string, string) result \<Rightarrow> (spec_error, 'a) result" where
  "load_config from_yaml content =
     (case content of
        Inl e \<Rightarrow> Err (SpecIo e)
      | Inr t \<Rightarrow> (case from_yaml t of Inl e \<Rightarrow> Err (SpecYaml e) | Inr c \<Rightarrow> Ok c))"

definition enabled_plugins :: "specforge_config \<Rightarrow> plugin_config list" where
  "enabled_plugins c = filter pc_enabled (sc_plugins c)"

definition find_plugin :: "string \<Rightarrow> specforge_config \<Rightarrow> plugin_config option" where
  "find_plugin name c = find (\<lambda>p. to_lowercase (pc_name p) = to_lowercase name) (sc_plugins c)"

definition base_of :: "path \<Rightarrow> path" where
  "base_of config_path = (case parent config_path of Some b \<Rightarrow> b | None \<Rightarrow> read_path ''.'')"

definition resolve_path :: "path \<Rightarrow> string \<Rightarrow> path" where
  "resolve_path config_path relative = join_path (base_of config_path) (read_path relative)"

definition resolved_spec_path :: "path \<Rightarrow> workspace_spec \<Rightarrow> path" where
  "resolved_spec_path config_path s = resolve_path config_path (ws_spec s)"

definition resolved_out_path :: "path \<Rightarrow> workspace_output \<Rightarrow> path" where
  "resolved_out_path config_path o' = resolve_path config_path (wo_out o')"

section \<open>The scan\<close>

text \<open>An entry of the directory: its name, whether it is a file, and its text when it can be read.\<close>

record dir_entry =
  de_name :: string
  de_is_file :: bool
  de_content :: "string option"

definition spec_file :: "dir_entry \<Rightarrow> bool" where
  "spec_file e \<longleftrightarrow> de_is_file e \<and> extension (de_name e) \<in> {Some ''yaml'', Some ''yml'', Some ''json''}"

definition mentions_openapi :: "string \<Rightarrow> string \<Rightarrow> bool" where
  "mentions_openapi name content =
     (if extension name = Some ''json'' then contains_sub content (dquote @ ''openapi'' @ dquote)
      else contains_sub content ''openapi:'')"

definition entry_path :: "path \<Rightarrow> string \<Rightarrow> path" where
  "entry_path dir name = join_path dir \<lparr>pa_absolute = False, pa_components = [name]\<rparr>"

definition stored_spec :: "path \<Rightarrow> path \<Rightarrow> string" where
  "stored_spec out p = show_path (case strip_base (base_of out) p of Some rel \<Rightarrow> rel | None \<Rightarrow> p)"

definition scanned_spec :: "path \<Rightarrow> path \<Rightarrow> dir_entry \<Rightarrow> workspace_spec option" where
  "scanned_spec dir out e =
     (case de_content e of
        None \<Rightarrow> None
      | Some t \<Rightarrow>
          if \<not> mentions_openapi (de_name e) t then None
          else let name = file_stem (de_name e)
               in Some \<lparr>ws_name = name, ws_spec = stored_spec out (entry_path dir (de_name e)),
                        ws_outputs = [\<lparr>wo_lang = ''ts'', wo_out = ''sdks/'' @ name @ ''-ts'', wo_name = None\<rparr>,
                                      \<lparr>wo_lang = ''go'', wo_out = ''sdks/'' @ name @ ''-go'', wo_name = None\<rparr>]\<rparr>)"

definition workspace_specs :: "path \<Rightarrow> path \<Rightarrow> dir_entry list \<Rightarrow> workspace_spec list" where
  "workspace_specs dir out entries =
     List.map_filter (scanned_spec dir out) (sort_key de_name (filter spec_file entries))"

text \<open>The result is the number of specs and the path of the file; the second component is what was written.\<close>

definition init_workspace ::
  "(string, dir_entry list) result option \<Rightarrow> (workspace_spec list \<Rightarrow> (string, string) result) \<Rightarrow> string option
     \<Rightarrow> path \<Rightarrow> path \<Rightarrow> (spec_error, nat \<times> path) result \<times> (path \<times> string) option" where
  "init_workspace listing to_yaml write_error dir out =
     (case listing of
        None \<Rightarrow> (Err (SpecInvalid (show_path dir @ '' is not a directory'')), None)
      | Some (Inl e) \<Rightarrow> (Err (SpecIo e), None)
      | Some (Inr entries) \<Rightarrow>
          let specs = workspace_specs dir out entries
          in case to_yaml specs of
               Inl e \<Rightarrow> (Err (SpecYaml e), None)
             | Inr yaml \<Rightarrow>
                 (case write_error of
                    Some e \<Rightarrow> (Err (SpecIo e), None)
                  | None \<Rightarrow> (Ok (length specs, out), Some (out, ''# Generated by `specforge workspace init`'' @ newline @ yaml))))"

section \<open>Paths are found again\<close>

text \<open>Paths as \<open>read_path\<close> gives them.\<close>

definition name_ok :: "string \<Rightarrow> bool" where
  "name_ok c \<longleftrightarrow> c \<noteq> [] \<and> c \<noteq> ''.'' \<and> CHR ''/'' \<notin> set c"

definition path_ok :: "path \<Rightarrow> bool" where
  "path_ok p \<longleftrightarrow>
     list_all name_ok (pa_components p)
     \<or> \<not> pa_absolute p \<and> pa_components p \<noteq> [] \<and> hd (pa_components p) = ''.'' \<and> list_all name_ok (tl (pa_components p))"

lemma split_on_join: "ps \<noteq> [] \<Longrightarrow> \<forall>p \<in> set ps. c \<notin> set p \<Longrightarrow> split_on c (join [c] ps) = ps"
proof (induction ps)
  case (Cons p ps)
  then show ?case
    by (cases ps) (simp_all add: split_on_no_sep split_on_append_sep)
qed simp

lemma read_path_name: "name_ok c \<Longrightarrow> read_path c = \<lparr>pa_absolute = False, pa_components = [c]\<rparr>"
  by (cases c) (auto simp: read_path_def name_ok_def split_on_no_sep starts_with_def Let_def)

lemma join_first:
  assumes "list_all name_ok (c # cs)"
  shows "\<not> starts_with (join ''/'' (c # cs)) ''/''"
proof -
  from assms obtain x y where "c = x # y" "x \<noteq> CHR ''/''" by (cases c) (auto simp: name_ok_def)
  then show ?thesis by (cases cs) (simp_all add: starts_with_def)
qed

lemma split_on_components: "list_all name_ok cs \<Longrightarrow> cs \<noteq> [] \<Longrightarrow> split_on (CHR ''/'') (join ''/'' cs) = cs"
  by (rule split_on_join) (auto simp: list_all_iff name_ok_def)

lemma filter_components: "list_all name_ok cs \<Longrightarrow> filter (\<lambda>p. p \<noteq> [] \<and> p \<noteq> ''.'') cs = cs"
  by (rule filter_True) (auto simp: list_all_iff name_ok_def)

lemma read_show_path:
  assumes "path_ok p"
  shows "read_path (show_path p) = p"
proof (cases "list_all name_ok (pa_components p)")
  case all: True
  show ?thesis
  proof (cases "pa_absolute p")
    case True
    have "split_on (CHR ''/'') (''/'' @ join ''/'' (pa_components p)) = [] # split_on (CHR ''/'') (join ''/'' (pa_components p))"
      by simp
    moreover have "filter (\<lambda>p. p \<noteq> [] \<and> p \<noteq> ''.'') (split_on (CHR ''/'') (join ''/'' (pa_components p))) = pa_components p"
      using all split_on_components filter_components by (cases "pa_components p = []") simp_all
    ultimately show ?thesis using True by (simp add: read_path_def show_path_def starts_with_def Let_def)
  next
    case False
    show ?thesis
    proof (cases "pa_components p")
      case Nil
      then show ?thesis using False by (simp add: read_path_def show_path_def starts_with_def)
    next
      case (Cons c cs)
      then have "c \<noteq> ''.''" using all by (simp add: name_ok_def)
      then show ?thesis
        using False Cons all join_first [of c cs] split_on_components [of "c # cs"] filter_components [of "c # cs"]
        by (simp add: read_path_def show_path_def Let_def)
    qed
  qed
next
  case False
  then obtain cs where p: "\<not> pa_absolute p" "pa_components p = ''.'' # cs" and ok: "list_all name_ok cs"
    using assms by (cases "pa_components p") (auto simp: path_ok_def)
  have "split_on (CHR ''/'') (join ''/'' (''.'' # cs)) = ''.'' # cs"
    using ok by (intro split_on_join) (auto simp: list_all_iff name_ok_def)
  moreover have "\<not> starts_with (join ''/'' (''.'' # cs)) ''/''" by (cases cs) (simp_all add: starts_with_def)
  ultimately show ?thesis
    using p filter_components [OF ok] by (simp add: read_path_def show_path_def Let_def)
qed

lemma strip_base_join:
  assumes "strip_base base p = Some rel" and "path_ok p"
  shows "path_ok rel" and "join_path base rel = p"
proof -
  have names: "list_all name_ok (drop n (pa_components p))" if "0 < n" for n
    using assms(2) that by (cases n; cases "pa_components p") (auto simp: path_ok_def list_all_iff dest: in_set_dropD)
  have "path_ok rel \<and> join_path base rel = p"
  proof (cases "\<not> pa_absolute base \<and> pa_components base = []")
    case True
    then show ?thesis using assms by (auto simp: strip_base_def join_path_def)
  next
    case False
    let ?rest = "drop (length (pa_components base)) (pa_components p)"
    have rel: "rel = \<lparr>pa_absolute = False, pa_components = ?rest\<rparr>" "pa_absolute base = pa_absolute p"
      and prefix: "take (length (pa_components base)) (pa_components p) = pa_components base"
      using assms(1) False by (auto simp: strip_base_def split: if_splits)
    have whole: "pa_components base @ ?rest = pa_components p"
      using append_take_drop_id [of "length (pa_components base)" "pa_components p"] unfolding prefix .
    have ok: "list_all name_ok ?rest"
      using names [of "length (pa_components base)"] assms(2) False rel(2)
      by (cases "pa_components base = []") (auto simp: path_ok_def)
    then have "?rest \<noteq> [] \<Longrightarrow> hd ?rest \<noteq> ''.''" by (cases ?rest) (simp_all add: name_ok_def)
    then show ?thesis using rel whole ok by (auto simp: path_ok_def join_path_def)
  qed
  then show "path_ok rel" and "join_path base rel = p" by simp_all
qed

lemma join_elsewhere:
  assumes "strip_base base p = None" and "\<not> pa_absolute p"
  shows "join_path base p \<noteq> p"
proof
  assume same: "join_path base p = p"
  then have "pa_absolute base = pa_absolute p" using assms(2) by (auto simp: join_path_def dest: arg_cong [where f = pa_absolute])
  moreover have "take (length (pa_components base)) (pa_components p) = pa_components base"
    using arg_cong [OF same, of pa_components] assms(2) by (auto simp: join_path_def split: if_splits) (metis append_eq_conv_conj)+
  ultimately show False using assms(1) by (auto simp: strip_base_def split: if_splits)
qed

text \<open>
  C39. The path a scan writes for a spec is resolved, from the place of the configuration file, to the file that was
  found exactly when that file is named by an absolute path or lies below the directory of the configuration file;
  otherwise to the path of the file taken from that directory once more.
\<close>

theorem workspace_paths_resolve:
  assumes "path_ok p"
  shows "(resolve_path out (stored_spec out p) = p \<longleftrightarrow> pa_absolute p \<or> strip_base (base_of out) p \<noteq> None)
     \<and> (\<not> pa_absolute p \<and> strip_base (base_of out) p = None \<longrightarrow>
          resolve_path out (stored_spec out p) = join_path (base_of out) p)"
proof (cases "strip_base (base_of out) p")
  case None
  then have "resolve_path out (stored_spec out p) = join_path (base_of out) p"
    using read_show_path [OF assms] by (simp add: resolve_path_def stored_spec_def)
  then show ?thesis using None join_elsewhere [OF None] by (auto simp: join_path_def)
next
  case (Some rel)
  then have "resolve_path out (stored_spec out p) = p"
    using read_show_path [OF strip_base_join(1) [OF Some assms]] strip_base_join(2) [OF Some assms]
    by (simp add: resolve_path_def stored_spec_def)
  then show ?thesis using Some by simp
qed

theorem workspace_paths_resolve_witness:
  "resolve_path (read_path ''conf/ws.yaml'') (stored_spec (read_path ''conf/ws.yaml'') (read_path ''specs/a.yaml'')) =
     read_path ''conf/specs/a.yaml''"
proof -
  have "path_ok (read_path ''specs/a.yaml'')" "\<not> pa_absolute (read_path ''specs/a.yaml'')"
    "strip_base (base_of (read_path ''conf/ws.yaml'')) (read_path ''specs/a.yaml'') = None"
    "join_path (base_of (read_path ''conf/ws.yaml'')) (read_path ''specs/a.yaml'') = read_path ''conf/specs/a.yaml''"
    by code_simp+
  with workspace_paths_resolve [of "read_path ''specs/a.yaml''" "read_path ''conf/ws.yaml''"] show ?thesis by simp
qed

lemma distinct_outputs:
  "distinct (concat (map (\<lambda>n. [''sdks/'' @ n @ ''-ts'', ''sdks/'' @ n @ ''-go'']) names)) \<longleftrightarrow> distinct names"
proof (induction names)
  case (Cons n names)
  have suffix: "''sdks/'' @ a @ ''-ts'' \<noteq> ''sdks/'' @ b @ ''-go''" for a b :: string
    by (auto dest: arg_cong [where f = last])
  then have "''sdks/'' @ b @ ''-go'' \<noteq> ''sdks/'' @ a @ ''-ts''" for a b :: string by metis
  with suffix Cons show ?case by auto
qed simp

text \<open>
  The output directories of the specs a scan finds are distinct exactly when no two of the spec files have the same
  name up to the extension.
\<close>

theorem workspace_outputs_distinct:
  "distinct (map wo_out (concat (map ws_outputs (workspace_specs dir out entries)))) \<longleftrightarrow>
   distinct (map ws_name (workspace_specs dir out entries))"
proof -
  let ?specs = "workspace_specs dir out entries"
  have outs: "map wo_out (ws_outputs s) = [''sdks/'' @ ws_name s @ ''-ts'', ''sdks/'' @ ws_name s @ ''-go'']" if "s \<in> set ?specs" for s
    using that by (auto simp: workspace_specs_def List.map_filter_def scanned_spec_def Let_def split: option.splits if_splits)
  have "map wo_out (concat (map ws_outputs ?specs)) =
      concat (map (\<lambda>n. [''sdks/'' @ n @ ''-ts'', ''sdks/'' @ n @ ''-go'']) (map ws_name ?specs))"
    using outs by (simp add: map_concat comp_def cong: map_cong)
  then show ?thesis by (simp only: distinct_outputs)
qed

end
