(* ===== verification/Marketplace.thy ===== *)
theory Marketplace
  imports Workspace Maps "HOL-Library.Multiset"
begin

text \<open>
  The two indexes of crates/specforge-core/src/marketplace.rs, of shared specs and of emitter plugins: merging, searching,
  finding, and installing a plugin. The iteration order of a hash map is a parameter (\<open>iter\<close>, which permutes its
  values); the network, the file system and the parser of specs are parameters too. \<open>to_lowercase\<close> is that of ASCII text.
\<close>

section \<open>Entries\<close>

record spec_entry =
  se_name :: string
  se_description :: string
  se_version :: string
  se_author :: string
  se_tags :: "string list"
  se_downloads :: "64 word"
  se_rating :: rat
  se_url :: string
  se_spec_url :: string
  se_verified :: bool

record plugin_entry =
  pe_name :: string
  pe_description :: string
  pe_version :: string
  pe_author :: string
  pe_language :: string
  pe_url :: string
  pe_verified :: bool
  pe_downloads :: "64 word"
  pe_rating :: rat

section \<open>Operations\<close>

text \<open>The hash map of both \<open>merge\<close> functions, and the stable sort by falling downloads.\<close>

definition entries_by_name :: "('a \<Rightarrow> string) \<Rightarrow> 'a list \<Rightarrow> 'a list \<Rightarrow> (string \<times> 'a) list" where
  "entries_by_name name own other = im_insert_all (map (\<lambda>e. (name e, e)) (own @ other)) []"

definition by_downloads :: "('a \<Rightarrow> 64 word) \<Rightarrow> 'a list \<Rightarrow> 'a list" where
  "by_downloads downloads es = sort_key (\<lambda>e. - uint (downloads e)) es"

definition spec_index_merge :: "(spec_entry list \<Rightarrow> spec_entry list) \<Rightarrow> spec_entry list \<Rightarrow> spec_entry list \<Rightarrow> spec_entry list" where
  "spec_index_merge iter own other = by_downloads se_downloads (iter (map snd (entries_by_name se_name own other)))"

definition plugin_index_merge ::
  "(plugin_entry list \<Rightarrow> plugin_entry list) \<Rightarrow> plugin_entry list \<Rightarrow> plugin_entry list \<Rightarrow> plugin_entry list" where
  "plugin_index_merge iter own other = by_downloads pe_downloads (iter (map snd (entries_by_name pe_name own other)))"

definition spec_index_search :: "string \<Rightarrow> spec_entry list \<Rightarrow> spec_entry list" where
  "spec_index_search query entries =
     (let q = to_lowercase query
      in filter (\<lambda>e. contains_sub (to_lowercase (se_name e)) q \<or> contains_sub (to_lowercase (se_description e)) q
           \<or> contains_sub (to_lowercase (se_author e)) q \<or> list_ex (\<lambda>t. contains_sub (to_lowercase t) q) (se_tags e)) entries)"

definition plugin_index_search :: "string \<Rightarrow> plugin_entry list \<Rightarrow> plugin_entry list" where
  "plugin_index_search query plugins =
     (let q = to_lowercase query
      in filter (\<lambda>p. contains_sub (to_lowercase (pe_name p)) q \<or> contains_sub (to_lowercase (pe_description p)) q
           \<or> contains_sub (to_lowercase (pe_language p)) q \<or> contains_sub (to_lowercase (pe_author p)) q) plugins)"

definition spec_index_find :: "string \<Rightarrow> spec_entry list \<Rightarrow> spec_entry option" where
  "spec_index_find name entries = find (\<lambda>e. to_lowercase (se_name e) = to_lowercase name) entries"

definition plugin_index_find :: "string \<Rightarrow> plugin_entry list \<Rightarrow> plugin_entry option" where
  "plugin_index_find name plugins = find (\<lambda>p. to_lowercase (pe_name p) = to_lowercase name) plugins"

definition spec_sorted_by_downloads :: "spec_entry list \<Rightarrow> spec_entry list" where
  "spec_sorted_by_downloads entries = by_downloads se_downloads entries"

definition plugin_sorted_by_downloads :: "plugin_entry list \<Rightarrow> plugin_entry list" where
  "plugin_sorted_by_downloads plugins = by_downloads pe_downloads plugins"

text \<open>The title, description and version of a parsed spec; the name of its file.\<close>

record spec_info =
  si_title :: string
  si_description :: "string option"
  si_version :: string

definition generate_metadata :: "(string, spec_info) result \<Rightarrow> string option \<Rightarrow> (string, spec_entry) result" where
  "generate_metadata parsed file_name =
     (case parsed of
        Inl e \<Rightarrow> Inl (''failed to parse spec: '' @ e)
      | Inr info \<Rightarrow>
          let fallback_name = (case file_name of Some f \<Rightarrow> file_stem f | None \<Rightarrow> ''unknown'');
              name = (if si_title info = [] then fallback_name else si_title info)
          in Inr \<lparr>se_name = name,
                  se_description = (case si_description info of Some d \<Rightarrow> d | None \<Rightarrow> ''OpenAPI spec: '' @ name),
                  se_version = si_version info, se_author = ''community'', se_tags = [], se_downloads = 0, se_rating = 0,
                  se_url = [], se_spec_url = (case file_name of Some f \<Rightarrow> f | None \<Rightarrow> ''spec.json''), se_verified = False\<rparr>)"

section \<open>Installing a plugin\<close>

text \<open>What a download gives: an error, or a status with the body or the error of reading it.\<close>

type_synonym download = "(string, nat \<times> (string, string) result) result"

definition placeholder :: "string \<Rightarrow> plugin_entry \<Rightarrow> string" where
  "placeholder name p =
     ''// placeholder for '' @ name @ '' v'' @ pe_version p @ newline @ ''// download URL: '' @ pe_url p @ newline"

text \<open>
  \<open>mkdir\<close> and \<open>write\<close> are the errors of creating the directory and of writing a file, if any. The second component is the
  file written, with its content.
\<close>

definition install_plugin ::
  "(string \<Rightarrow> download) \<Rightarrow> string option \<Rightarrow> (path \<Rightarrow> string option) \<Rightarrow> plugin_entry list \<Rightarrow> string \<Rightarrow> path
     \<Rightarrow> (string, path) result \<times> (path \<times> string) option" where
  "install_plugin get mkdir write plugins name dir =
     (case plugin_index_find name plugins of
        None \<Rightarrow> (Inl (''plugin not found: '' @ name), None)
      | Some p \<Rightarrow>
          if pe_url p = [] then (Inl (''plugin '' @ name @ '' has no download URL''), None)
          else case mkdir of
            Some e \<Rightarrow> (Inl (''failed to create '' @ show_path dir @ '': '' @ e), None)
          | None \<Rightarrow>
              let dest = join_path dir (read_path (pe_name p @ ''.wasm''));
                  put = (\<lambda>content. case write dest of
                           Some e \<Rightarrow> (Inl (''failed to write '' @ show_path dest @ '': '' @ e), None)
                         | None \<Rightarrow> (Inr dest, Some (dest, content)))
              in case get (pe_url p) of
                   Inr (status, body) \<Rightarrow>
                     if 200 \<le> status \<and> status < 300
                     then (case body of Inl e \<Rightarrow> (Inl (''failed to read response body: '' @ e), None) | Inr b \<Rightarrow> put b)
                     else put (placeholder name p)
                 | Inl e \<Rightarrow> put (placeholder name p))"

section \<open>The map of entries\<close>

lemma find_split: "find P xs = Some x \<Longrightarrow> \<exists>us vs. xs = us @ x # vs \<and> P x \<and> (\<forall>u \<in> set us. \<not> P u)"
proof (induction xs)
  case (Cons a xs)
  show ?case
  proof (cases "P a")
    case True
    with Cons.prems show ?thesis by (intro exI [of _ "[]"] exI [of _ xs]) simp
  next
    case False
    with Cons obtain us vs where "xs = us @ x # vs \<and> P x \<and> (\<forall>u \<in> set us. \<not> P u)" by auto
    with False show ?thesis by (intro exI [of _ "a # us"] exI [of _ vs]) simp
  qed
qed simp

lemma map_of_named: "map_of (map (\<lambda>e. (name e, e)) es) k = find (\<lambda>e. name e = k) es"
  by (induction es) auto

lemma entries_lookup: "map_of (entries_by_name name own other) k = find (\<lambda>e. name e = k) (rev (own @ other))"
  unfolding entries_by_name_def
  by (simp add: im_get_insert_all im_invar_def rev_map map_of_named del: rev_append map_append split: option.splits)

lemma entries_invar: "distinct (map fst (entries_by_name name own other))"
  using im_invar_insert_all [of "[]"] by (simp add: entries_by_name_def im_invar_def)

lemma entries_members:
  "(k, e) \<in> set (entries_by_name name own other) \<longleftrightarrow> find (\<lambda>a. name a = k) (rev (own @ other)) = Some e"
  using entries_invar [of name own other] by (metis entries_lookup map_of_eq_Some_iff)

lemma entries_key: "(k, e) \<in> set (entries_by_name name own other) \<Longrightarrow> k = name e"
  unfolding entries_members by (auto dest: find_split)

lemma entries_values: "map fst (entries_by_name name own other) = map (name \<circ> snd) (entries_by_name name own other)"
  by (auto dest: entries_key)

lemma entries_names: "name ` snd ` set (entries_by_name name own other) = name ` set (own @ other)"
proof -
  have "k \<in> fst ` set (entries_by_name name own other) \<longleftrightarrow> k \<in> name ` set (own @ other)" for k
  proof -
    have "k \<in> fst ` set (entries_by_name name own other) \<longleftrightarrow> find (\<lambda>a. name a = k) (rev (own @ other)) \<noteq> None"
      using entries_lookup [of name own other k] by (metis map_of_eq_None_iff)
    then show ?thesis by (auto simp: find_None_iff)
  qed
  moreover have "fst ` set (entries_by_name name own other) = name ` snd ` set (entries_by_name name own other)"
    using arg_cong [OF entries_values [of name own other], of set] by (simp add: image_image comp_def)
  ultimately show ?thesis by blast
qed

section \<open>The contract of both indexes\<close>

text \<open>
  What the two merges promise: the entries of the map, ranked by downloads. Everything below about merged indexes is
  proved from it once.
\<close>

locale ranked_index =
  fixes name :: "'a \<Rightarrow> string" and downloads :: "'a \<Rightarrow> 64 word"
    and merge :: "'a list \<Rightarrow> 'a list \<Rightarrow> 'a list" and search :: "string \<Rightarrow> 'a list \<Rightarrow> 'a option"
  assumes merged_entries: "mset (merge own other) = mset (map snd (entries_by_name name own other))"
    and merged_ranked: "sorted_wrt (\<lambda>a b. downloads b \<le> downloads a) (merge own other)"
    and search_first: "search q es = find (\<lambda>e. to_lowercase (name e) = to_lowercase q) es"
begin

lemma merged_set: "set (merge own other) = snd ` set (entries_by_name name own other)"
  using merged_entries [where own = own and other = other] by (metis set_map set_mset_mset)

text \<open>One entry per name: the last one of both lists.\<close>

lemma merged_distinct: "distinct (map name (merge own other))"
proof -
  have "mset (map name (merge own other)) = image_mset name (mset (map snd (entries_by_name name own other)))"
    by (simp only: mset_map merged_entries)
  also have "\<dots> = mset (map (name \<circ> snd) (entries_by_name name own other))" by (simp flip: mset_map)
  also have "\<dots> = mset (map fst (entries_by_name name own other))" by (simp only: entries_values)
  finally have "mset (map name (merge own other)) = mset (map fst (entries_by_name name own other))" .
  then show ?thesis using entries_invar [of name own other] by (metis mset_eq_imp_distinct_iff)
qed

lemma merged_members: "e \<in> set (merge own other) \<longleftrightarrow> find (\<lambda>a. name a = name e) (rev (own @ other)) = Some e"
proof -
  have "e \<in> set (merge own other) \<longleftrightarrow> (name e, e) \<in> set (entries_by_name name own other)"
    unfolding merged_set using entries_key by (metis (no_types, lifting) imageE image_eqI prod.collapse snd_conv)
  then show ?thesis by (simp only: entries_members)
qed

text \<open>A search finds the entry with most downloads among those whose names differ from the query only in case.\<close>

lemma search_most_downloaded:
  assumes "search q (merge own other) = Some e"
  shows "e \<in> set (merge own other)" and "to_lowercase (name e) = to_lowercase q"
    and "\<forall>e' \<in> set (merge own other). to_lowercase (name e') = to_lowercase q \<longrightarrow> downloads e' \<le> downloads e"
proof -
  obtain before after where split: "merge own other = before @ e # after" "to_lowercase (name e) = to_lowercase q"
    and first: "\<forall>e' \<in> set before. to_lowercase (name e') \<noteq> to_lowercase q"
    using assms unfolding search_first find_Some_iff2 by (auto dest!: find_split)
  show "e \<in> set (merge own other)" "to_lowercase (name e) = to_lowercase q" using split by simp_all
  show "\<forall>e' \<in> set (merge own other). to_lowercase (name e') = to_lowercase q \<longrightarrow> downloads e' \<le> downloads e"
    using merged_ranked [of own other] first by (auto simp: split(1) sorted_wrt_append)
qed

lemma search_none:
  "search q (merge own other) = None \<longleftrightarrow> (\<forall>e \<in> set (own @ other). to_lowercase (name e) \<noteq> to_lowercase q)"
proof -
  have "name ` set (merge own other) = name ` set (own @ other)"
    using merged_set entries_names by metis
  then have "(\<forall>n \<in> name ` set (merge own other). to_lowercase n \<noteq> to_lowercase q) \<longleftrightarrow>
      (\<forall>n \<in> name ` set (own @ other). to_lowercase n \<noteq> to_lowercase q)" by simp
  then show ?thesis unfolding search_first find_None_iff by auto
qed

end

section \<open>Both indexes keep the contract\<close>

lemma by_downloads_ranked: "sorted_wrt (\<lambda>a b. downloads b \<le> downloads a) (by_downloads downloads es)"
proof -
  have "sorted (map (\<lambda>e. - uint (downloads e)) (by_downloads downloads es))"
    by (simp add: by_downloads_def)
  then show ?thesis by (simp add: sorted_wrt_map word_le_def)
qed

lemma by_downloads_mset [simp]: "mset (by_downloads downloads es) = mset es"
  by (simp add: by_downloads_def)

lemma spec_index_ranked:
  "(\<And>es. mset (iter es) = mset es) \<Longrightarrow> ranked_index se_name se_downloads (spec_index_merge iter) spec_index_find"
  by unfold_locales (simp_all add: spec_index_merge_def by_downloads_ranked spec_index_find_def)

lemma plugin_index_ranked:
  "(\<And>es. mset (iter es) = mset es) \<Longrightarrow> ranked_index pe_name pe_downloads (plugin_index_merge iter) plugin_index_find"
  by unfold_locales (simp_all add: plugin_index_merge_def by_downloads_ranked plugin_index_find_def)

text \<open>The indexes with the map iterated in the order of insertion.\<close>

interpretation specs: ranked_index se_name se_downloads "spec_index_merge (\<lambda>es. es)" spec_index_find
  by (rule spec_index_ranked) simp

interpretation emitters: ranked_index pe_name pe_downloads "plugin_index_merge (\<lambda>es. es)" plugin_index_find
  by (rule plugin_index_ranked) simp

text \<open>
  However the hash map is iterated, the merged index of specs has one entry for each name of both indexes, the last
  one of the other index or else of this one, and its entries are in the order of falling downloads.
\<close>

theorem spec_index_merge_exact:
  assumes "\<And>es. mset (iter es) = mset es"
  shows "distinct (map se_name (spec_index_merge iter own other))
     \<and> (\<forall>e. e \<in> set (spec_index_merge iter own other) \<longleftrightarrow> find (\<lambda>a. se_name a = se_name e) (rev (own @ other)) = Some e)
     \<and> sorted_wrt (\<lambda>a b. se_downloads b \<le> se_downloads a) (spec_index_merge iter own other)"
  using ranked_index.merged_distinct [OF spec_index_ranked [OF assms]] ranked_index.merged_members [OF spec_index_ranked [OF assms]]
    ranked_index.merged_ranked [OF spec_index_ranked [OF assms]]
  by blast

definition sample_spec :: "string \<Rightarrow> string \<Rightarrow> 64 word \<Rightarrow> spec_entry" where
  "sample_spec name version downloads =
     \<lparr>se_name = name, se_description = [], se_version = version, se_author = [], se_tags = [], se_downloads = downloads,
      se_rating = 0, se_url = [], se_spec_url = [], se_verified = False\<rparr>"

theorem spec_index_merge_exact_witness:
  "spec_index_merge rev [sample_spec ''x'' ''1'' 5, sample_spec ''y'' ''1'' 9] [sample_spec ''x'' ''2'' 7] =
     [sample_spec ''y'' ''1'' 9, sample_spec ''x'' ''2'' 7]
   \<and> distinct (map se_name (spec_index_merge rev [sample_spec ''x'' ''1'' 5, sample_spec ''y'' ''1'' 9] [sample_spec ''x'' ''2'' 7]))"
proof
  show "spec_index_merge rev [sample_spec ''x'' ''1'' 5, sample_spec ''y'' ''1'' 9] [sample_spec ''x'' ''2'' 7] =
     [sample_spec ''y'' ''1'' 9, sample_spec ''x'' ''2'' 7]"
    by (simp add: spec_index_merge_def by_downloads_def entries_by_name_def im_insert_all_def sample_spec_def)
  show "distinct (map se_name (spec_index_merge rev [sample_spec ''x'' ''1'' 5, sample_spec ''y'' ''1'' 9] [sample_spec ''x'' ''2'' 7]))"
    using spec_index_merge_exact [of rev "[sample_spec ''x'' ''1'' 5, sample_spec ''y'' ''1'' 9]" "[sample_spec ''x'' ''2'' 7]"]
    by simp
qed

text \<open>
  In a merged index of plugins a name is found, whatever its case, exactly when one of the indexes has it, and what
  is found has the most downloads of all plugins whose names differ from it only in case: not always the plugin of
  exactly that name.
\<close>

theorem plugin_find_most_downloaded:
  assumes "\<And>es. mset (iter es) = mset es"
  shows "(plugin_index_find q (plugin_index_merge iter own other) = None \<longleftrightarrow>
           (\<forall>p \<in> set (own @ other). to_lowercase (pe_name p) \<noteq> to_lowercase q))
     \<and> (\<forall>p. plugin_index_find q (plugin_index_merge iter own other) = Some p \<longrightarrow>
           to_lowercase (pe_name p) = to_lowercase q
           \<and> (\<forall>p' \<in> set (plugin_index_merge iter own other).
                to_lowercase (pe_name p') = to_lowercase q \<longrightarrow> pe_downloads p' \<le> pe_downloads p))"
  using ranked_index.search_none [OF plugin_index_ranked [OF assms]]
    ranked_index.search_most_downloaded [OF plugin_index_ranked [OF assms]]
  by blast

definition sample_plugin :: "string \<Rightarrow> string \<Rightarrow> 64 word \<Rightarrow> plugin_entry" where
  "sample_plugin name url downloads =
     \<lparr>pe_name = name, pe_description = [], pe_version = ''1'', pe_author = [], pe_language = [], pe_url = url,
      pe_verified = False, pe_downloads = downloads, pe_rating = 0\<rparr>"

theorem plugin_find_most_downloaded_witness:
  "plugin_index_find ''kt'' (plugin_index_merge rev [sample_plugin ''kt'' ''u'' 1] [sample_plugin ''Kt'' ''v'' 2]) =
     Some (sample_plugin ''Kt'' ''v'' 2)
   \<and> plugin_index_find ''go'' (plugin_index_merge rev [sample_plugin ''kt'' ''u'' 1] [sample_plugin ''Kt'' ''v'' 2]) = None"
proof
  have lower: "to_lowercase ''Kt'' = ''kt''" "to_lowercase ''kt'' = ''kt''" "to_lowercase ''go'' = ''go''" by code_simp+
  show "plugin_index_find ''kt'' (plugin_index_merge rev [sample_plugin ''kt'' ''u'' 1] [sample_plugin ''Kt'' ''v'' 2]) =
     Some (sample_plugin ''Kt'' ''v'' 2)"
    by (simp add: plugin_index_find_def plugin_index_merge_def by_downloads_def entries_by_name_def im_insert_all_def
        sample_plugin_def lower)
  show "plugin_index_find ''go'' (plugin_index_merge rev [sample_plugin ''kt'' ''u'' 1] [sample_plugin ''Kt'' ''v'' 2]) = None"
    using plugin_find_most_downloaded [of rev "''go''" "[sample_plugin ''kt'' ''u'' 1]" "[sample_plugin ''Kt'' ''v'' 2]"] lower
    by (simp add: sample_plugin_def)
qed

text \<open>
  Installing a plugin whose URL is known never fails because of the network: unless the body of a successful
  response cannot be read or a file cannot be written, a file is written and its path returned, with the body of a
  successful response or a placeholder text; the file is in the directory when the name of the plugin has no slash.
\<close>

theorem install_plugin_exact:
  assumes "plugin_index_find name plugins = Some p" and "pe_url p \<noteq> []" and "\<And>d. write d = None"
    and "dest = join_path dir (read_path (pe_name p @ ''.wasm''))"
  shows "install_plugin get None write plugins name dir =
      (case get (pe_url p) of
         Inl e \<Rightarrow> (Inr dest, Some (dest, placeholder name p))
       | Inr (status, body) \<Rightarrow>
           if status < 200 \<or> 300 \<le> status then (Inr dest, Some (dest, placeholder name p))
           else (case body of
                   Inl e \<Rightarrow> (Inl (''failed to read response body: '' @ e), None)
                 | Inr b \<Rightarrow> (Inr dest, Some (dest, b))))
    \<and> (CHR ''/'' \<notin> set (pe_name p) \<longrightarrow> parent dest = Some dir \<and> pa_components dest = pa_components dir @ [pe_name p @ ''.wasm''])"
proof
  show "install_plugin get None write plugins name dir =
      (case get (pe_url p) of
         Inl e \<Rightarrow> (Inr dest, Some (dest, placeholder name p))
       | Inr (status, body) \<Rightarrow>
           if status < 200 \<or> 300 \<le> status then (Inr dest, Some (dest, placeholder name p))
           else (case body of
                   Inl e \<Rightarrow> (Inl (''failed to read response body: '' @ e), None)
                 | Inr b \<Rightarrow> (Inr dest, Some (dest, b))))"
    using assms by (auto simp: install_plugin_def Let_def split: sum.splits prod.splits)
  show "CHR ''/'' \<notin> set (pe_name p) \<longrightarrow> parent dest = Some dir \<and> pa_components dest = pa_components dir @ [pe_name p @ ''.wasm'']"
    using read_path_name [of "pe_name p @ ''.wasm''"] assms(4) by (auto simp: join_path_def parent_def name_ok_def)
qed

theorem install_plugin_exact_witness:
  "install_plugin (\<lambda>u. Inl ''offline'') None (\<lambda>d. None) [sample_plugin ''kt'' ''u'' 1] ''kt'' (read_path ''plugins'') =
     (Inr (read_path ''plugins/kt.wasm''), Some (read_path ''plugins/kt.wasm'', placeholder ''kt'' (sample_plugin ''kt'' ''u'' 1)))"
proof -
  have found: "plugin_index_find ''kt'' [sample_plugin ''kt'' ''u'' 1] = Some (sample_plugin ''kt'' ''u'' 1)"
    by (simp add: plugin_index_find_def sample_plugin_def)
  have "read_path ''plugins/kt.wasm'' = join_path (read_path ''plugins'') (read_path (pe_name (sample_plugin ''kt'' ''u'' 1) @ ''.wasm''))"
    by code_simp
  from install_plugin_exact [OF found _ _ this, of "\<lambda>d. None" "\<lambda>u. Inl ''offline''"] show ?thesis
    by (simp add: sample_plugin_def)
qed

text \<open>With a slash in it, the name of a plugin leads out of the directory.\<close>

lemma install_plugin_escapes:
  "fst (install_plugin (\<lambda>u. Inr (200, Inr ''x'')) None (\<lambda>d. None) [sample_plugin ''/etc/cron'' ''u'' 1] ''/etc/cron'' (read_path ''plugins''))
   = Inr (read_path ''/etc/cron.wasm'')"
  by code_simp

end
