(* ===== verification/Verify.thy ===== *)
theory Verify
  imports Ir Json
begin

text \<open>
  crates/specforge-core/src/verify.rs: probing a live API against a document. The HTTP client is the
  argument \<open>send\<close> (method, URL and \<open>Authorization\<close> value to an error text, or a status and body text) and the
  JSON parser the argument \<open>from_str\<close>. \<open>substitute_path_params\<close> is also a function of profiler.rs.
  The lightweight validator follows references only into the properties of object models, so each
  call has a smaller value or the same value and a smaller type: it terminates on every document.
\<close>

section \<open>Path parameters\<close>

text \<open>\<open>str::find\<close> of one character.\<close>

definition find_char :: "char \<Rightarrow> string \<Rightarrow> nat option" where
  "find_char c s = find_sub [c] s"

definition dummy_value :: "string \<Rightarrow> string" where
  "dummy_value param = (if contains_sub param ''id'' \<or> contains_sub param ''Id'' then ''1'' else ''test'')"

lemma find_char_Some: "find_char c s = Some i \<Longrightarrow> \<exists>u v. s = u @ c # v \<and> length u = i \<and> c \<notin> set u"
proof (induction s arbitrary: i)
  case (Cons x s)
  then show ?case
    by (cases "x = c") (auto simp: find_char_def starts_with_def split: if_splits,
      metis append_Cons length_Cons set_ConsD)
qed (simp add: find_char_def)

lemma find_char_None: "find_char c s = None \<longleftrightarrow> c \<notin> set s"
proof (induction s)
  case (Cons x s)
  then show ?case by (auto simp: find_char_def starts_with_def split: if_splits)
qed (simp add: find_char_def)

lemma find_char_append: "c \<notin> set u \<Longrightarrow> find_char c (u @ c # v) = Some (length u)"
  by (induction u) (auto simp: find_char_def starts_with_def)

lemma braces_dummy_value [simp]: "CHR ''{'' \<notin> set (dummy_value p)" "CHR ''}'' \<notin> set (dummy_value p)"
  by (simp_all add: dummy_value_def)

function substitute_path_params :: "string \<Rightarrow> string" where
  "substitute_path_params s =
     (case find_char (CHR ''{'') s of
        None \<Rightarrow> s
      | Some start \<Rightarrow>
          (case find_char (CHR ''}'') (drop start s) of
             None \<Rightarrow> s
           | Some len \<Rightarrow>
               (let param = take (len - 1) (drop (start + 1) s) in
                substitute_path_params (take start s @ dummy_value param @ drop (start + len + 1) s))))"
  by pat_completeness auto
termination
proof (relation "measure (\<lambda>s. count_list s (CHR ''{''))", simp, goal_cases)
  case (1 s start len param)
  then obtain u v where s: "s = u @ CHR ''{'' # v" "length u = start" using find_char_Some by blast
  have "count_list (drop len v) (CHR ''{'') \<le> count_list v (CHR ''{'')"
    by (metis append_take_drop_id count_list_append le_add2)
  with s 1 show ?case by (simp add: count_list_0_iff)
qed

declare substitute_path_params.simps [simp del]

section \<open>Lightweight validation\<close>

text \<open>\<open>is_f64\<close>: a number that is stored as a float.\<close>

fun is_f64 :: "json \<Rightarrow> bool" where
  "is_f64 (JNumber (Float r)) = True"
| "is_f64 _ = False"

fun scalar_matches :: "json \<Rightarrow> scalar \<Rightarrow> bool" where
  "scalar_matches v ScInteger = (is_i64 v \<or> is_u64 v)"
| "scalar_matches v ScInteger64 = (is_i64 v \<or> is_u64 v)"
| "scalar_matches v ScFloat = (is_f64 v \<or> is_i64 v)"
| "scalar_matches v ScBoolean = is_boolean v"
| "scalar_matches v ScBinary = (is_string v \<or> is_object v)"
| "scalar_matches v _ = is_string v"

text \<open>The checks of \<open>validate_json_against_object\<close>, given the validator for the property values.\<close>

definition object_matches :: "(json \<Rightarrow> ir_type \<Rightarrow> bool) \<Rightarrow> json_object \<Rightarrow> object_model \<Rightarrow> bool" where
  "object_matches rec kvs obj \<longleftrightarrow>
     (\<forall>prop \<in> set (om_properties obj). prop_required prop \<longrightarrow> contains_key kvs (prop_name prop)) \<and>
     (\<forall>prop \<in> set (om_properties obj).
        case map_of kvs (prop_name prop) of Some val \<Rightarrow> rec val (prop_ty prop) | None \<Rightarrow> True)"

lemma object_matches_cong [fundef_cong]:
  assumes "m = m'" and "obj = obj'"
    and "\<And>v t. v \<in> snd ` set m' \<Longrightarrow> f v t = g v t"
  shows "object_matches f m obj = object_matches g m' obj'"
proof -
  have "(case map_of m' k of Some v \<Rightarrow> f v t | None \<Rightarrow> True) = (case map_of m' k of Some v \<Rightarrow> g v t | None \<Rightarrow> True)" for k t
    using assms(3) by (cases "map_of m' k") (auto dest!: map_of_SomeD simp: rev_image_eqI)
  then show ?thesis unfolding object_matches_def assms(1,2) by simp
qed

function (sequential) validate_json_against_type :: "json \<Rightarrow> ir_type \<Rightarrow> schema_registry \<Rightarrow> bool" where
  "validate_json_against_type value (TScalar s) schemas = scalar_matches value s"
| "validate_json_against_type value (TStringEnum _ _) schemas = is_string value"
| "validate_json_against_type value (TArray item _) schemas =
     (case value of
        JArray arr \<Rightarrow> list_all (\<lambda>v. validate_json_against_type v item schemas) arr
      | _ \<Rightarrow> False)"
| "validate_json_against_type value (TMap map_val) schemas =
     (case value of
        JObject obj \<Rightarrow> list_all (\<lambda>kv. validate_json_against_type (snd kv) map_val schemas) obj
      | _ \<Rightarrow> False)"
| "validate_json_against_type value (TReference name _ _) schemas =
     (case registry_get schemas name of
        Some (MObject obj_model) \<Rightarrow>
          (case value of
             JObject kvs \<Rightarrow> object_matches (\<lambda>v t. validate_json_against_type v t schemas) kvs obj_model
           | _ \<Rightarrow> False)
      | Some (MEnum enum_model) \<Rightarrow>
          (case value of
             JString s \<Rightarrow> list_ex (\<lambda>v. ev_value v = s) (em_variants enum_model)
           | _ \<Rightarrow> False)
      | None \<Rightarrow> True)"
| "validate_json_against_type value (TComposition _ members _) schemas =
     list_ex (\<lambda>m. validate_json_against_type value m schemas) members"
| "validate_json_against_type value TAny schemas = True"
| "validate_json_against_type value TUnknown schemas = True"
  by pat_completeness auto
termination
proof (relation "measures [\<lambda>(v, t, schemas). json_rank v, \<lambda>(v, t, schemas). type_nodes t]", goal_cases)
  case (2 v item n schemas arr x)
  then show ?case using json_rank_array by simp
next
  case (3 v t schemas obj x)
  then show ?case using json_rank_object [of "fst x" "snd x" obj] by simp
next
  case (4 v name n d schemas m obj_model kvs x xa)
  then obtain a where "(a, x) \<in> set kvs" by auto
  then have "json_rank x + 4 \<le> json_rank (JObject kvs)" by (rule json_rank_object)
  with 4 show ?case by (simp del: json_rank.simps)
next
  case (5 v k members d schemas m)
  then have "type_nodes m \<le> sum_list (map type_nodes members)" by (intro member_le_sum_list) auto
  then show ?case by simp
qed simp

section \<open>Verifying an operation\<close>

record verify_result =
  vr_endpoint :: string
  vr_method :: string
  vr_status :: string
  vr_schema_match :: bool
  vr_issues :: "string list"

record verify_options =
  vo_base_url :: string
  vo_auth :: "string option"

type_synonym http_client = "http_method \<Rightarrow> string \<Rightarrow> string option \<Rightarrow> (string, 16 word \<times> string) result"

definition expected_status :: "operation \<Rightarrow> string" where
  "expected_status op = (case op_responses op of [] \<Rightarrow> ''200'' | r # _ \<Rightarrow> resp_status r)"

definition verify_operation ::
  "http_client \<Rightarrow> (string \<Rightarrow> json option) \<Rightarrow> document \<Rightarrow> operation \<Rightarrow> verify_options \<Rightarrow> verify_result" where
  "verify_operation send from_str doc op opts =
     (let path = substitute_path_params (op_path op);
          url = trim_end_matches (CHR ''/'') (vo_base_url opts) @ path;
          result = (\<lambda>status schema_match issues.
            \<lparr>vr_endpoint = op_path op, vr_method = method_upper (op_method op), vr_status = status,
             vr_schema_match = schema_match, vr_issues = issues\<rparr>)
      in case send (op_method op) url (vo_auth opts) of
           Inl e \<Rightarrow> result ''error'' False [''request failed: '' @ e]
         | Inr (status, body_text) \<Rightarrow>
             (let actual = show_nat (unat status);
                  code = (case parse_unsigned 16 (expected_status op) of Some n \<Rightarrow> n | None \<Rightarrow> 200);
                  issues = (if unat status \<noteq> code
                            then [''status mismatch: expected '' @ show_nat code @ '', got '' @ actual] else [])
              in case from_str body_text of
                   None \<Rightarrow>
                     if 200 \<le> code \<and> code < 300
                     then result actual False (issues @ [''response body is not valid JSON''])
                     else result actual True issues
                 | Some response_body \<Rightarrow>
                     (case Option.bind (List.find (\<lambda>r. resp_status r = expected_status op \<or> resp_status r = actual)
                             (op_responses op)) resp_body of
                        Some expected_type \<Rightarrow>
                          if validate_json_against_type response_body expected_type (doc_schemas doc)
                          then result actual True issues
                          else result actual False (issues @ [''response body does not match declared schema''])
                      | None \<Rightarrow> result actual True issues)))"

definition verify_api ::
  "http_client \<Rightarrow> (string \<Rightarrow> json option) \<Rightarrow> document \<Rightarrow> verify_options \<Rightarrow> verify_result list" where
  "verify_api send from_str doc opts = map (\<lambda>op. verify_operation send from_str doc op opts) (doc_operations doc)"


section \<open>Substitution as one pass over the parts of a template\<close>

datatype path_part = Lit string | Param string

fun part_str :: "path_part \<Rightarrow> string" where
  "part_str (Lit s) = s"
| "part_str (Param p) = ''{'' @ p @ ''}''"

fun part_filled :: "path_part \<Rightarrow> string" where
  "part_filled (Lit s) = s"
| "part_filled (Param p) = dummy_value p"

fun part_ok :: "path_part \<Rightarrow> bool" where
  "part_ok (Lit s) \<longleftrightarrow> CHR ''{'' \<notin> set s"
| "part_ok (Param p) \<longleftrightarrow> CHR ''}'' \<notin> set p"

lemma substitute_no_brace: "CHR ''{'' \<notin> set s \<Longrightarrow> substitute_path_params s = s"
  using find_char_None [of "CHR ''{''" s] by (simp add: substitute_path_params.simps [of s])

lemma substitute_step:
  assumes "CHR ''{'' \<notin> set pre" and "CHR ''}'' \<notin> set p"
  shows "substitute_path_params (pre @ ''{'' @ p @ ''}'' @ rest) = substitute_path_params (pre @ dummy_value p @ rest)"
proof -
  have open_at: "find_char (CHR ''{'') (pre @ ''{'' @ p @ ''}'' @ rest) = Some (length pre)"
    using find_char_append [OF assms(1)] by simp
  have "find_char (CHR ''}'') ((CHR ''{'' # p) @ CHR ''}'' # rest) = Some (length (CHR ''{'' # p))"
    using assms(2) by (intro find_char_append) simp
  with open_at show ?thesis
    by (subst substitute_path_params.simps) simp
qed

lemma substitute_parts:
  "CHR ''{'' \<notin> set pre \<Longrightarrow> list_all part_ok ps \<Longrightarrow>
   substitute_path_params (pre @ concat (map part_str ps)) = pre @ concat (map part_filled ps)"
proof (induction ps arbitrary: pre)
  case Nil
  then show ?case by (simp add: substitute_no_brace)
next
  case (Cons x ps)
  show ?case
  proof (cases x)
    case (Lit s)
    with Cons.IH [of "pre @ s"] Cons.prems show ?thesis by simp
  next
    case (Param p)
    with Cons.prems have "substitute_path_params (pre @ concat (map part_str (x # ps))) =
        substitute_path_params (pre @ dummy_value p @ concat (map part_str ps))"
      using substitute_step [of pre p "concat (map part_str ps)"] by simp
    with Cons.IH [of "pre @ dummy_value p"] Cons.prems Param show ?thesis by simp
  qed
qed

lemma substitute_complete: "substitute_path_params s = u @ CHR ''{'' # v \<Longrightarrow> CHR ''}'' \<notin> set v"
proof (induction s rule: substitute_path_params.induct)
  case (1 s)
  show ?case
  proof (cases "find_char (CHR ''{'') s")
    case None
    with 1(2) show ?thesis by (simp add: substitute_path_params.simps [of s] find_char_None)
  next
    case (Some start)
    show ?thesis
    proof (cases "find_char (CHR ''}'') (drop start s)")
      case None
      then have "substitute_path_params s = s"
        using Some by (simp add: substitute_path_params.simps [of s])
      with 1(2) None have s: "s = u @ CHR ''{'' # v" "CHR ''}'' \<notin> set (drop start s)"
        by (simp_all add: find_char_None)
      obtain u' v' where u': "s = u' @ CHR ''{'' # v'" "length u' = start" "CHR ''{'' \<notin> set u'"
        using find_char_Some [OF Some] by blast
      have "start \<le> length u"
      proof (rule ccontr)
        assume "\<not> start \<le> length u"
        then have "u' ! length u = CHR ''{''" using s(1) u' by (metis linorder_not_le nth_append nth_append_length)
        with \<open>\<not> start \<le> length u\<close> u' show False by (metis linorder_not_le nth_mem)
      qed
      then have "set v \<subseteq> set (drop start s)" using s(1) by auto
      with s(2) show ?thesis by blast
    next
      case (Some len)
      with 1 \<open>find_char (CHR ''{'') s = Some start\<close> show ?thesis
        by (simp add: substitute_path_params.simps [of s] Let_def)
    qed
  qed
qed

section \<open>Properties\<close>

text \<open>
  Filling the placeholders of a path by repeated search and replacement is the one-pass
  filling of its parts, each placeholder by the dummy value for its name, and leaves no placeholder;
  the loop ends because the number of opening braces goes down.
\<close>

theorem substitute_path_params_exact:
  assumes "list_all part_ok ps"
  shows "substitute_path_params (concat (map part_str ps)) = concat (map part_filled ps) \<and>
    (\<forall>u v. substitute_path_params s = u @ CHR ''{'' # v \<longrightarrow> CHR ''}'' \<notin> set v)"
  using substitute_parts [of "[]" ps] substitute_complete assms by auto

theorem substitute_path_params_exact_witness:
  "substitute_path_params ''/orgs/{orgId}/search/{query}'' = ''/orgs/1/search/test''"
proof -
  let ?ps = "[Lit ''/orgs/'', Param ''orgId'', Lit ''/search/'', Param ''query'']"
  have "dummy_value ''orgId'' = ''1''" "dummy_value ''query'' = ''test''" by code_simp+
  with substitute_path_params_exact [of ?ps] show ?thesis by simp
qed

text \<open>
  The verifier does not follow the shape of a model: for a reference to a schema that
  resolves to an object model it only accepts JSON objects, so a schema that is an alias of an array or
  a scalar makes every correct response fail.
\<close>

theorem verifier_rejects_aliases:
  assumes "registry_get (doc_schemas doc) name = Some (MObject obj)" and "\<not> is_object value"
    and "send (op_method op) (trim_end_matches (CHR ''/'') (vo_base_url opts) @ substitute_path_params (op_path op)) (vo_auth opts) =
      Ok (status, body)"
    and "from_str body = Some value" and "op_responses op = [r]" and "resp_body r = Some (TReference name n d)"
  shows "\<not> vr_schema_match (verify_operation send from_str doc op opts)"
proof -
  have "\<not> validate_json_against_type value (TReference name n d) (doc_schemas doc)"
    using assms(1,2) by (cases "value") (auto simp: is_object_def)
  with assms(3-6) show ?thesis
    by (simp add: verify_operation_def Let_def expected_status_def)
qed

theorem verifier_rejects_aliases_witness:
  "\<exists>doc op. registry_get (doc_schemas doc) ''Ids'' =
      Some (MObject \<lparr>om_name = ''Ids'', om_description = None, om_properties = [], om_additional_properties = None,
        om_shape_type = Some (TArray (TScalar ScString) False), om_base_type = None\<rparr>) \<and>
    \<not> vr_schema_match (verify_operation (\<lambda>m url auth. Inr (200, ''[]'')) (\<lambda>t. Some (JArray [])) doc op
        \<lparr>vo_base_url = ''http://h/'', vo_auth = None\<rparr>)"
proof -
  let ?obj = "\<lparr>om_name = ''Ids'', om_description = None, om_properties = [], om_additional_properties = None,
    om_shape_type = Some (TArray (TScalar ScString) False), om_base_type = None\<rparr>"
  let ?r = "\<lparr>resp_status = ''200'', resp_description = None, resp_body = Some (TReference ''Ids'' False None)\<rparr>"
  let ?op = "\<lparr>op_operation_id = ''listIds'', op_method = Get, op_path = ''/ids'', op_tag = None, op_summary = None,
    op_description = None, op_parameters = [], op_request_body = None, op_responses = [?r], op_retry_policy = None\<rparr>"
  let ?doc = "\<lparr>doc_ir_version = ''1'', doc_title = ''T'', doc_version = ''1'', doc_base_url = None, doc_security = [],
    doc_schemas = [(''Ids'', MObject ?obj)], doc_operations = [?op], doc_webhooks = []\<rparr>"
  have "\<not> vr_schema_match (verify_operation (\<lambda>m url auth. Inr (200, ''[]'')) (\<lambda>t. Some (JArray [])) ?doc ?op
      \<lparr>vo_base_url = ''http://h/'', vo_auth = None\<rparr>)"
    by (rule verifier_rejects_aliases [where name = "''Ids''" and obj = ?obj and r = ?r and n = False and d = None and status = 200 and body = "''[]''"])
      (simp_all add: registry_get_def is_object_def)
  moreover have "registry_get (doc_schemas ?doc) ''Ids'' = Some (MObject ?obj)" by (simp add: registry_get_def)
  ultimately show ?thesis by blast
qed

end
