(* ===== verification/Profiler.thy ===== *)
theory Profiler
  imports Verify
begin

text \<open>
  The profiler (crates/specforge-core/src/profiler.rs): requests sent one after the other to every operation, the figures
  computed from their latencies, the recommendations and the reports. Latencies, in milliseconds, are rational numbers in
  place of floating-point ones; what the service answers, the clock and the printing of numbers are parameters.
  \<open>substitute_path_params\<close> is the one of \<open>Verify\<close>, whose code profiler.rs repeats.
\<close>

record profile_result =
  pr_endpoint :: string
  pr_method :: string
  pr_avg_latency_ms :: rat
  pr_p50_latency_ms :: rat
  pr_p95_latency_ms :: rat
  pr_p99_latency_ms :: rat
  pr_throughput_rps :: rat
  pr_error_rate :: rat
  pr_cache_hit_rate :: rat
  pr_success_count :: nat
  pr_error_count :: nat
  pr_total_requests :: nat
  pr_min_latency_ms :: rat
  pr_max_latency_ms :: rat

record profile_report =
  pf_results :: "profile_result list"
  pf_total_requests :: nat
  pf_total_duration_ms :: rat
  pf_overall_throughput_rps :: rat
  pf_recommendations :: "string list"

record profile_options =
  po_base_url :: string
  po_auth :: "string option"
  po_requests :: nat
  po_concurrency :: nat
  po_endpoint_filter :: "string option"

section \<open>One endpoint\<close>

text \<open>The \<open>f64\<close> rounding of \<open>round()\<close>, on numbers that are not negative: halves are rounded up.\<close>

definition percentile :: "rat list \<Rightarrow> rat \<Rightarrow> rat" where
  "percentile sorted_ms p =
     (if sorted_ms = [] then 0
      else sorted_ms ! nat \<lfloor>(of_nat (length sorted_ms) - 1) * p + 1 / 2\<rfloor>)"

definition failed :: "nat option \<Rightarrow> bool" where
  "failed status = (case status of Some s \<Rightarrow> 400 \<le> s | None \<Rightarrow> True)"

text \<open>The request: method, URL, and the headers added to it. A response is its latency and its status, if there is one.\<close>

definition profile_request :: "profile_options \<Rightarrow> operation \<Rightarrow> string \<times> string \<times> (string \<times> string) list" where
  "profile_request opts op =
     (method_upper (op_method op),
      trim_end_matches (CHR ''/'') (po_base_url opts) @ substitute_path_params (op_path op),
      (case po_auth opts of Some a \<Rightarrow> [(''Authorization'', a)] | None \<Rightarrow> []) @ [(''Cache-Control'', ''no-cache'')])"

definition profile_endpoint ::
  "(nat \<Rightarrow> string \<times> string \<times> (string \<times> string) list \<Rightarrow> rat \<times> nat option) \<Rightarrow> operation \<Rightarrow> profile_options \<Rightarrow> profile_result" where
  "profile_endpoint send op opts =
     (let responses = map (\<lambda>i. send i (profile_request opts op)) [0..<po_requests opts];
          latencies = sort (map fst responses);
          error_count = length (filter (failed \<circ> snd) responses);
          total = length latencies;
          wall_secs = sum_list latencies / 1000
      in \<lparr>pr_endpoint = op_path op, pr_method = method_upper (op_method op),
          pr_avg_latency_ms = (if 0 < total then sum_list latencies / of_nat total else 0),
          pr_p50_latency_ms = percentile latencies (50 / 100), pr_p95_latency_ms = percentile latencies (95 / 100),
          pr_p99_latency_ms = percentile latencies (99 / 100),
          pr_throughput_rps = (if 0 < wall_secs then of_nat total / wall_secs else 0),
          pr_error_rate = (if 0 < total then of_nat error_count / of_nat total else 0),
          pr_cache_hit_rate = 0 / of_nat (max total 1),
          pr_success_count = total - error_count, pr_error_count = error_count, pr_total_requests = total,
          pr_min_latency_ms = (case latencies of [] \<Rightarrow> 0 | l # ls \<Rightarrow> l),
          pr_max_latency_ms = (if latencies = [] then 0 else last latencies)\<rparr>)"

section \<open>Recommendations\<close>

text \<open>\<open>show k x\<close> prints \<open>x\<close> with \<open>k\<close> decimals.\<close>

definition endpoint_recommendations :: "(nat \<Rightarrow> rat \<Rightarrow> string) \<Rightarrow> profile_result \<Rightarrow> string list" where
  "endpoint_recommendations show r =
     (let name = pr_method r @ '' '' @ pr_endpoint r;
          jitter = pr_max_latency_ms r - pr_min_latency_ms r
      in (if 500 < pr_p95_latency_ms r
          then [name @ '' has high p95 latency ('' @ show 1 (pr_p95_latency_ms r)
                @ ''ms). Consider adding pagination, caching, or response compression.''] else [])
       @ (if 1 / 10 < pr_error_rate r
          then [name @ '' has a high error rate ('' @ show 1 (pr_error_rate r * 100)
                @ ''%). Investigate server-side errors or client request construction.''] else [])
       @ (if pr_throughput_rps r < 10 \<and> 10 \<le> pr_total_requests r
          then [name @ '' has low throughput ('' @ show 1 (pr_throughput_rps r)
                @ '' rps). Consider connection pooling or HTTP/2 multiplexing.''] else [])
       @ (if 1000 < jitter \<and> 10 \<le> pr_total_requests r
          then [name @ '' has high latency jitter ('' @ show 0 jitter
                @ ''ms range). This may indicate GC pauses or resource contention.''] else [])
       @ (if pr_method r = ''GET'' \<and> pr_cache_hit_rate r = 0 \<and> pr_error_rate r = 0
          then [name @ '' does not appear to use caching. Consider adding ETag/If-None-Match or Cache-Control headers.'']
          else []))"

text \<open>\<open>max_by\<close>: the last of the greatest elements.\<close>

fun last_max :: "('a \<Rightarrow> rat) \<Rightarrow> 'a list \<Rightarrow> 'a option" where
  "last_max f [] = None"
| "last_max f (x # xs) =
     (case last_max f xs of None \<Rightarrow> Some x | Some y \<Rightarrow> if f y < f x then Some x else Some y)"

definition generate_recommendations :: "(nat \<Rightarrow> rat \<Rightarrow> string) \<Rightarrow> profile_result list \<Rightarrow> string list" where
  "generate_recommendations show results =
     concat (map (endpoint_recommendations show) results)
     @ (if 1 < length results
        then (case last_max pr_p95_latency_ms results of
                Some s \<Rightarrow> if 200 < pr_p95_latency_ms s
                  then [''Slowest endpoint is '' @ pr_method s @ '' '' @ pr_endpoint s @ '' (p95: '' @ show 1 (pr_p95_latency_ms s)
                        @ ''ms). Prioritise optimising this endpoint first.''] else []
              | None \<Rightarrow> [])
          @ (case last_max pr_error_rate (filter (\<lambda>r. 0 < pr_error_rate r) results) of
                Some e \<Rightarrow> [''Highest error rate is '' @ pr_method e @ '' '' @ pr_endpoint e @ '' ('' @ show 1 (pr_error_rate e * 100)
                        @ ''%). Investigate root cause.'']
              | None \<Rightarrow> [])
        else [])"

section \<open>The whole API\<close>

definition profiled :: "profile_options \<Rightarrow> operation list \<Rightarrow> operation list" where
  "profiled opts ops =
     filter (\<lambda>op. case po_endpoint_filter opts of Some f \<Rightarrow> contains_sub (op_path op) f | None \<Rightarrow> True) ops"

text \<open>\<open>duration\<close> is the time the whole profile took, in milliseconds.\<close>

definition profile_api ::
  "(nat \<Rightarrow> rat \<Rightarrow> string) \<Rightarrow> (nat \<Rightarrow> string \<times> string \<times> (string \<times> string) list \<Rightarrow> rat \<times> nat option) \<Rightarrow> rat \<Rightarrow> document
     \<Rightarrow> profile_options \<Rightarrow> profile_report" where
  "profile_api show send duration doc opts =
     (let results = map (\<lambda>op. profile_endpoint send op opts) (profiled opts (doc_operations doc));
          total = sum_list (map pr_total_requests results)
      in \<lparr>pf_results = results, pf_total_requests = total, pf_total_duration_ms = duration,
          pf_overall_throughput_rps = (if 0 < duration then of_nat total / (duration / 1000) else 0),
          pf_recommendations = generate_recommendations show results\<rparr>)"

section \<open>Reports\<close>

definition numbered :: "string \<Rightarrow> string list \<Rightarrow> string" where
  "numbered indent recs =
     concat (map (\<lambda>(i, rec). indent @ show_nat (Suc i) @ ''. '' @ rec @ newline) (enumerate 0 recs))"

definition profile_text :: "(nat \<Rightarrow> rat \<Rightarrow> string) \<Rightarrow> profile_report \<Rightarrow> string" where
  "profile_text show report =
     ''=== SDK Performance Profile ==='' @ newline @ newline
     @ concat (map (\<lambda>r.
         pr_method r @ '' '' @ pr_endpoint r @ newline
         @ ''  Requests:       '' @ show_nat (pr_total_requests r) @ newline
         @ ''  Success/Error:  '' @ show_nat (pr_success_count r) @ '' / '' @ show_nat (pr_error_count r) @ newline
         @ ''  Error rate:     '' @ show 1 (pr_error_rate r * 100) @ ''%'' @ newline
         @ ''  Latency (ms):'' @ newline
         @ ''    avg:   '' @ show 1 (pr_avg_latency_ms r) @ newline
         @ ''    p50:   '' @ show 1 (pr_p50_latency_ms r) @ newline
         @ ''    p95:   '' @ show 1 (pr_p95_latency_ms r) @ newline
         @ ''    p99:   '' @ show 1 (pr_p99_latency_ms r) @ newline
         @ ''    min:   '' @ show 1 (pr_min_latency_ms r) @ newline
         @ ''    max:   '' @ show 1 (pr_max_latency_ms r) @ newline
         @ ''  Throughput:     '' @ show 1 (pr_throughput_rps r) @ '' rps'' @ newline
         @ ''  Cache hit rate: '' @ show 1 (pr_cache_hit_rate r * 100) @ ''%'' @ newline @ newline) (pf_results report))
     @ ''Total requests: '' @ show_nat (pf_total_requests report) @ newline
     @ ''Total duration: '' @ show 1 (pf_total_duration_ms report) @ ''ms'' @ newline
     @ ''Overall throughput: '' @ show 1 (pf_overall_throughput_rps report) @ '' rps'' @ newline @ newline
     @ (if pf_recommendations report = [] then []
        else ''Recommendations ('' @ show_nat (length (pf_recommendations report)) @ ''):'' @ newline
          @ numbered ''  '' (pf_recommendations report))"

definition profile_markdown :: "(nat \<Rightarrow> rat \<Rightarrow> string) \<Rightarrow> profile_report \<Rightarrow> string" where
  "profile_markdown show report =
     ''# SDK Performance Profile'' @ newline @ newline
     @ ''| Endpoint | Method | Avg (ms) | p50 (ms) | p95 (ms) | p99 (ms) | Throughput (rps) | Error Rate |'' @ newline
     @ ''|----------|--------|----------|----------|----------|----------|-------------------|------------|'' @ newline
     @ concat (map (\<lambda>r.
         ''| '' @ pr_endpoint r @ '' | '' @ pr_method r @ '' | '' @ show 1 (pr_avg_latency_ms r) @ '' | ''
         @ show 1 (pr_p50_latency_ms r) @ '' | '' @ show 1 (pr_p95_latency_ms r) @ '' | '' @ show 1 (pr_p99_latency_ms r)
         @ '' | '' @ show 1 (pr_throughput_rps r) @ '' | '' @ show 1 (pr_error_rate r * 100) @ ''% |'' @ newline)
         (pf_results report))
     @ newline
     @ ''**Total requests:** '' @ show_nat (pf_total_requests report) @ newline
     @ ''**Total duration:** '' @ show 1 (pf_total_duration_ms report) @ ''ms'' @ newline
     @ ''**Overall throughput:** '' @ show 1 (pf_overall_throughput_rps report) @ '' rps'' @ newline @ newline
     @ (if pf_recommendations report = [] then []
        else ''## Recommendations'' @ newline @ newline @ numbered [] (pf_recommendations report))"

section \<open>The figures are consistent\<close>

definition percentile_index :: "nat \<Rightarrow> rat \<Rightarrow> nat" where
  "percentile_index n p = nat \<lfloor>(of_nat n - 1) * p + 1 / 2\<rfloor>"

lemma percentile_index_less:
  assumes "0 < n" and "0 \<le> p" and "p \<le> 1"
  shows "percentile_index n p < n"
proof -
  have "(of_nat n - 1) * p \<le> (of_nat n - 1) * (1 :: rat)" using assms by (intro mult_left_mono) auto
  then have "(of_nat n - 1) * p + 1 / 2 < (of_nat n :: rat)" by simp
  then have "\<lfloor>(of_nat n - 1) * p + 1 / 2\<rfloor> < int n" by (simp add: floor_less_iff)
  with assms(1) show ?thesis by (simp add: percentile_index_def nat_less_iff)
qed

lemma percentile_index_mono:
  assumes "0 < n" and "p \<le> q"
  shows "percentile_index n p \<le> percentile_index n q"
  using assms by (auto simp: percentile_index_def intro!: nat_mono floor_mono mult_left_mono)

lemma percentile_nth: "xs \<noteq> [] \<Longrightarrow> percentile xs p = xs ! percentile_index (length xs) p"
  by (simp add: percentile_def percentile_index_def)

lemma percentile_mono:
  assumes "sorted xs" and "0 \<le> p" and "p \<le> q" and "q \<le> 1"
  shows "percentile xs p \<le> percentile xs q"
proof (cases "xs = []")
  case False
  then show ?thesis
    using assms percentile_index_mono [of "length xs" p q] percentile_index_less [of "length xs" q]
    by (simp add: percentile_nth sorted_nth_mono)
qed (simp add: percentile_def)

lemma percentile_range:
  assumes "sorted xs" and "xs \<noteq> []" and "0 \<le> p" and "p \<le> 1"
  shows "hd xs \<le> percentile xs p" and "percentile xs p \<le> last xs"
proof -
  have i: "percentile_index (length xs) p < length xs" using assms percentile_index_less by simp
  then show "hd xs \<le> percentile xs p"
    using assms sorted_nth_mono [OF assms(1), of 0 "percentile_index (length xs) p"] by (simp add: percentile_nth hd_conv_nth)
  show "percentile xs p \<le> last xs"
    using i assms sorted_nth_mono [OF assms(1), of "percentile_index (length xs) p" "length xs - 1"]
    by (simp add: percentile_nth last_conv_nth)
qed

lemma average_range:
  fixes xs :: "rat list"
  assumes "sorted xs" and "xs \<noteq> []"
  shows "hd xs \<le> sum_list xs / of_nat (length xs)" and "sum_list xs / of_nat (length xs) \<le> last xs"
proof -
  have bounds: "\<forall>x \<in> set xs. hd xs \<le> x \<and> x \<le> last xs"
    using assms by (auto simp: in_set_conv_nth hd_conv_nth last_conv_nth intro!: sorted_nth_mono)
  have "sum_list (map (\<lambda>x. hd xs) xs) \<le> sum_list (map (\<lambda>x. x) xs)" using bounds by (intro sum_list_mono) blast
  then show "hd xs \<le> sum_list xs / of_nat (length xs)"
    using assms(2) by (simp add: sum_list_triv pos_le_divide_eq mult.commute)
  have "sum_list (map (\<lambda>x. x) xs) \<le> sum_list (map (\<lambda>x. last xs) xs)" using bounds by (intro sum_list_mono) blast
  then show "sum_list xs / of_nat (length xs) \<le> last xs"
    using assms(2) by (simp add: sum_list_triv pos_divide_le_eq mult.commute)
qed

text \<open>
  For whatever the service answers, the figures of an endpoint fit together: every request is counted as a success
  or an error, the error rate lies between zero and one, the percentiles rise with their rank, and they and the average
  lie between the smallest and the largest latency.
\<close>

theorem profile_figures_consistent:
  "let r = profile_endpoint send op opts in
     pr_success_count r + pr_error_count r = pr_total_requests r \<and> pr_total_requests r = po_requests opts
     \<and> 0 \<le> pr_error_rate r \<and> pr_error_rate r \<le> 1
     \<and> pr_min_latency_ms r \<le> pr_p50_latency_ms r \<and> pr_p50_latency_ms r \<le> pr_p95_latency_ms r
     \<and> pr_p95_latency_ms r \<le> pr_p99_latency_ms r \<and> pr_p99_latency_ms r \<le> pr_max_latency_ms r
     \<and> pr_min_latency_ms r \<le> pr_avg_latency_ms r \<and> pr_avg_latency_ms r \<le> pr_max_latency_ms r"
proof -
  define responses where "responses = map (\<lambda>i. send i (profile_request opts op)) [0..<po_requests opts]"
  define xs where "xs = sort (map fst responses)"
  define errors where "errors = length (filter (failed \<circ> snd) responses)"
  have len: "length xs = po_requests opts" by (simp add: xs_def responses_def)
  have errors: "errors \<le> length xs" using length_filter_le [of "failed \<circ> snd" responses] by (simp add: errors_def xs_def)
  have sorted: "sorted xs" by (simp add: xs_def)
  have minimum: "(case xs of [] \<Rightarrow> 0 | l # ls \<Rightarrow> l) = (if xs = [] then 0 else hd xs)" by (cases xs) simp_all
  have r: "profile_endpoint send op opts =
      \<lparr>pr_endpoint = op_path op, pr_method = method_upper (op_method op),
       pr_avg_latency_ms = (if 0 < length xs then sum_list xs / of_nat (length xs) else 0),
       pr_p50_latency_ms = percentile xs (50 / 100), pr_p95_latency_ms = percentile xs (95 / 100),
       pr_p99_latency_ms = percentile xs (99 / 100),
       pr_throughput_rps = (if 0 < sum_list xs / 1000 then of_nat (length xs) / (sum_list xs / 1000) else 0),
       pr_error_rate = (if 0 < length xs then of_nat errors / of_nat (length xs) else 0),
       pr_cache_hit_rate = 0 / of_nat (max (length xs) 1),
       pr_success_count = length xs - errors, pr_error_count = errors, pr_total_requests = length xs,
       pr_min_latency_ms = (if xs = [] then 0 else hd xs), pr_max_latency_ms = (if xs = [] then 0 else last xs)\<rparr>"
    by (simp only: profile_endpoint_def Let_def responses_def xs_def errors_def minimum [unfolded xs_def responses_def])
  have rate: "of_nat errors / of_nat (length xs) \<le> (1 :: rat)" if "xs \<noteq> []"
    using errors that by (simp add: divide_le_eq_1)
  show ?thesis
  proof (cases "xs = []")
    case True
    then show ?thesis using errors len by (simp add: r percentile_def)
  next
    case False
    then have "po_requests opts \<noteq> 0" using len by (metis length_0_conv)
    with False show ?thesis
      using errors len rate percentile_range [OF sorted False] average_range [OF sorted False]
        percentile_mono [OF sorted, of "50 / 100" "95 / 100"] percentile_mono [OF sorted, of "95 / 100" "99 / 100"]
      by (simp add: r Let_def)
  qed
qed

text \<open>
  A GET operation that always answers without an error is always told to use caching, since nothing counts cache hits,
  and its requests ask not to be served from a cache.
\<close>

lemma profile_always_recommends_caching:
  assumes "op_method op = Get" and "\<forall>i. \<not> failed (snd (send i (profile_request opts op)))"
  shows "''GET '' @ op_path op @ '' does not appear to use caching. Consider adding ETag/If-None-Match or Cache-Control headers.''
     \<in> set (endpoint_recommendations show (profile_endpoint send op opts))"
proof -
  have "filter (failed \<circ> snd) (map (\<lambda>i. send i (profile_request opts op)) [0..<po_requests opts]) = []"
    using assms(2) by (simp only: filter_empty_conv) auto
  then show ?thesis using assms(1) by (simp add: endpoint_recommendations_def profile_endpoint_def Let_def del: filter_map)
qed

end
