(* ===== verification/Mock.thy ===== *)
theory Mock
  imports Verify
begin

text \<open>
  crates/specforge-core/src/mock.rs: the mock server. Examples are generated by recursion through
  the schema registry with no guard against recursive schemas, so \<open>generate_example_json\<close> takes the
  call depth it may use and \<open>None\<close> means that the depth is exceeded; a call that exceeds every depth
  overflows the stack. \<open>to_string_pretty\<close> and \<open>to_string\<close> of serde\_json are arguments. A connection is
  the text the client sends and the text written back.
\<close>

section \<open>Examples\<close>

fun scalar_example :: "scalar \<Rightarrow> json" where
  "scalar_example ScString = JString ''string''"
| "scalar_example ScDateTime = JString ''2024-01-01T00:00:00Z''"
| "scalar_example ScUuid = JString ''00000000-0000-0000-0000-000000000000''"
| "scalar_example ScInteger = JNumber (PosInt 0)"
| "scalar_example ScInteger64 = JNumber (PosInt 0)"
| "scalar_example ScFloat = JNumber (Float 0)"
| "scalar_example ScBoolean = JBool False"
| "scalar_example ScBase64 = JString ''c2FtcGxl''"
| "scalar_example ScBinary = JString ''binary''"

text \<open>\<open>object_example\<close> and \<open>generate_example_from_model\<close>, given the generator for the property types.\<close>

definition object_example :: "(ir_type \<Rightarrow> json option) \<Rightarrow> object_model \<Rightarrow> json option" where
  "object_example gen obj =
     map_option (\<lambda>kvs. JObject (bt_insert_all kvs []))
       (those (map (\<lambda>prop. map_option (Pair (prop_name prop)) (gen (prop_ty prop))) (om_properties obj)))"

fun generate_example_from_model :: "(ir_type \<Rightarrow> json option) \<Rightarrow> model \<Rightarrow> json option" where
  "generate_example_from_model gen (MObject obj) = object_example gen obj"
| "generate_example_from_model gen (MEnum e) =
     Some (case em_variants e of v # _ \<Rightarrow> JString (ev_value v) | [] \<Rightarrow> JString ''value'')"

primrec generate_example_json :: "nat \<Rightarrow> document \<Rightarrow> ir_type \<Rightarrow> json option" where
  "generate_example_json 0 doc ty = None"
| "generate_example_json (Suc depth) doc ty =
     (case ty of
        TScalar s \<Rightarrow> Some (scalar_example s)
      | TStringEnum variants _ \<Rightarrow> Some (case variants of v # _ \<Rightarrow> JString v | [] \<Rightarrow> JString ''value'')
      | TArray item _ \<Rightarrow> map_option (\<lambda>element. JArray [element]) (generate_example_json depth doc item)
      | TMap val \<Rightarrow> map_option (\<lambda>inner. JObject (bt_insert ''key'' inner [])) (generate_example_json depth doc val)
      | TReference name _ _ \<Rightarrow>
          (case registry_get (doc_schemas doc) name of
             Some model \<Rightarrow> generate_example_from_model (generate_example_json depth doc) model
           | None \<Rightarrow> Some JNull)
      | TComposition _ members _ \<Rightarrow>
          (case members of m # _ \<Rightarrow> generate_example_json depth doc m | [] \<Rightarrow> Some JNull)
      | TAny \<Rightarrow> Some (JObject [])
      | TUnknown \<Rightarrow> Some JNull)"

lemma example_json_simps [simp]:
  "generate_example_json (Suc n) doc (TScalar s) = Some (scalar_example s)"
  "generate_example_json (Suc n) doc (TStringEnum vs b) = Some (case vs of v # _ \<Rightarrow> JString v | [] \<Rightarrow> JString ''value'')"
  "generate_example_json (Suc n) doc (TArray item b) = map_option (\<lambda>e. JArray [e]) (generate_example_json n doc item)"
  "generate_example_json (Suc n) doc (TMap val) = map_option (\<lambda>e. JObject [(''key'', e)]) (generate_example_json n doc val)"
  "generate_example_json (Suc n) doc (TReference name b d) =
     (case registry_get (doc_schemas doc) name of
        Some model \<Rightarrow> generate_example_from_model (generate_example_json n doc) model | None \<Rightarrow> Some JNull)"
  "generate_example_json (Suc n) doc (TComposition k [] di) = Some JNull"
  "generate_example_json (Suc n) doc (TComposition k (t # ts) di) = generate_example_json n doc t"
  "generate_example_json (Suc n) doc TAny = Some (JObject [])"
  "generate_example_json (Suc n) doc TUnknown = Some JNull"
  by simp_all

declare generate_example_json.simps(2) [simp del]

section \<open>Routes\<close>

record route =
  rt_method :: string
  rt_path :: string
  rt_status :: nat
  rt_body :: string

record mock_server =
  ms_port :: "16 word"
  ms_host :: string
  ms_routes :: "route list"
  ms_title :: string
  ms_version :: string

text \<open>The first response whose status is a number from 200 to 299.\<close>

fun success_response :: "response list \<Rightarrow> (nat \<times> ir_type option) option" where
  "success_response [] = None"
| "success_response (r # rs) =
     (case parse_unsigned 16 (resp_status r) of
        Some status \<Rightarrow> if 200 \<le> status \<and> status < 300 then Some (status, resp_body r) else success_response rs
      | None \<Rightarrow> success_response rs)"

definition pick_success_response ::
  "(json \<Rightarrow> string) \<Rightarrow> nat \<Rightarrow> document \<Rightarrow> operation \<Rightarrow> (nat \<times> string) option" where
  "pick_success_response to_string_pretty depth doc op =
     (case success_response (op_responses op) of
        Some (status, Some body_type) \<Rightarrow>
          map_option (\<lambda>json. (status, to_string_pretty json)) (generate_example_json depth doc body_type)
      | Some (status, None) \<Rightarrow> Some (status, ''{}'')
      | None \<Rightarrow> Some (200, ''{}''))"

definition route_for :: "(json \<Rightarrow> string) \<Rightarrow> nat \<Rightarrow> document \<Rightarrow> operation \<Rightarrow> route option" where
  "route_for to_string_pretty depth doc op =
     map_option (\<lambda>(status, body).
         \<lparr>rt_method = method_upper (op_method op), rt_path = op_path op, rt_status = status, rt_body = body\<rparr>)
       (pick_success_response to_string_pretty depth doc op)"

definition from_doc :: "(json \<Rightarrow> string) \<Rightarrow> nat \<Rightarrow> document \<Rightarrow> mock_server option" where
  "from_doc to_string_pretty depth doc =
     map_option (\<lambda>routes. \<lparr>ms_port = 0, ms_host = ''127.0.0.1'', ms_routes = routes,
         ms_title = doc_title doc, ms_version = doc_version doc\<rparr>)
       (those (map (route_for to_string_pretty depth doc) (doc_operations doc)))"

definition mock_host :: "string \<Rightarrow> mock_server \<Rightarrow> mock_server" where
  "mock_host host self = self\<lparr>ms_host := host\<rparr>"

definition mock_port :: "16 word \<Rightarrow> mock_server \<Rightarrow> mock_server" where
  "mock_port port self = self\<lparr>ms_port := port\<rparr>"

section \<open>Connections\<close>

text \<open>\<open>BufRead::read_line\<close>: up to and including the next newline, and what is left to read.\<close>

fun read_line :: "string \<Rightarrow> string \<times> string" where
  "read_line [] = ([], [])"
| "read_line (c # cs) = (if c = CHR 10 then ([c], cs) else (c # fst (read_line cs), snd (read_line cs)))"

lemma read_line_parts: "fst (read_line s) @ snd (read_line s) = s"
  by (induction s) auto

text \<open>\<open>str::split_whitespace\<close>: the runs of characters that are not white space.\<close>

fun take_word :: "string \<Rightarrow> string" where
  "take_word [] = []"
| "take_word (c # cs) = (if whitespace_len (c # cs) = 0 then c # take_word cs else [])"

lemma trim_start_no_space: "trim_start s = [] \<or> whitespace_len (trim_start s) = 0"
proof (induction s rule: trim_start.induct)
  case (1 s)
  then show ?case
    by (cases "s = [] \<or> whitespace_len s = 0") (auto simp: trim_start.simps [of s])
qed

lemma length_trim_start: "length (trim_start s) \<le> length s"
  using trim_start_suffix [of s] by (metis length_append le_add2)

lemma take_word_trim_start: "trim_start s \<noteq> [] \<Longrightarrow> take_word (trim_start s) \<noteq> []"
  using trim_start_no_space [of s] by (cases "trim_start s") auto

function split_whitespace :: "string \<Rightarrow> string list" where
  "split_whitespace s =
     (let t = trim_start s in
      if t = [] then [] else take_word t # split_whitespace (drop (length (take_word t)) t))"
  by pat_completeness auto
termination
proof (relation "measure length", simp, goal_cases)
  case (1 s t)
  then have "0 < length (take_word t)" using take_word_trim_start by simp
  moreover have "length t \<le> length s" "0 < length t" using 1 length_trim_start [of s] by auto
  ultimately have "length t - length (take_word t) < length s" by linarith
  then show ?case by simp
qed

declare split_whitespace.simps [simp del]

definition parse_request_line :: "string \<Rightarrow> (string \<times> string) option \<times> string" where
  "parse_request_line input =
     (let (line, rest) = read_line input in
      (case split_whitespace line of m # p # _ \<Rightarrow> Some (to_uppercase m, p) | _ \<Rightarrow> None, rest))"

function drain_headers :: "string \<Rightarrow> string" where
  "drain_headers input =
     (let (line, rest) = read_line input in if trim line = [] then rest else drain_headers rest)"
  by pat_completeness auto
termination
proof (relation "measure length", simp, goal_cases)
  case (1 input lr line rest)
  then have "line \<noteq> []" by (auto simp: trim_def trim_start.simps trim_end.simps)
  with 1(1,2) read_line_parts [of input] show ?case by (metis fst_conv in_measure length_append less_add_same_cancel2 length_greater_0_conv snd_conv)
qed

declare drain_headers.simps [simp del]

definition status_line :: "nat \<Rightarrow> string" where
  "status_line status =
     (if status = 200 then ''HTTP/1.1 200 OK''
      else if status = 201 then ''HTTP/1.1 201 Created''
      else if status = 204 then ''HTTP/1.1 204 No Content''
      else if status = 400 then ''HTTP/1.1 400 Bad Request''
      else if status = 404 then ''HTTP/1.1 404 Not Found''
      else if status = 500 then ''HTTP/1.1 500 Internal Server Error''
      else ''HTTP/1.1 200 OK'')"

definition not_found_body :: "string \<Rightarrow> string \<Rightarrow> json" where
  "not_found_body meth path =
     JObject [(''error'', JString ''not_found''), (''message'', JString (''No route found for '' @ meth @ '' '' @ path))]"

text \<open>The status line and body for a request.\<close>

definition respond :: "(json \<Rightarrow> string) \<Rightarrow> route list \<Rightarrow> string \<Rightarrow> string \<Rightarrow> string \<times> string" where
  "respond to_string routes meth path =
     (case List.find (\<lambda>r. rt_method r = meth \<and> rt_path r = path) routes of
        Some route \<Rightarrow> (status_line (rt_status route), rt_body route)
      | None \<Rightarrow> (''HTTP/1.1 404 Not Found'', to_string (not_found_body meth path)))"

definition crlf :: string where "crlf = [CHR 13, CHR 10]"

text \<open>The text written to the stream, or None when no request line was read.\<close>

definition handle_connection ::
  "(json \<Rightarrow> string) \<Rightarrow> string \<Rightarrow> route list \<Rightarrow> string \<Rightarrow> string \<Rightarrow> string option" where
  "handle_connection to_string stream routes title version =
     (case parse_request_line stream of
        (None, _) \<Rightarrow> None
      | (Some (meth, path), rest) \<Rightarrow>
          (let unread = drain_headers rest; (status_line, body) = respond to_string routes meth path in
           Some (status_line @ crlf @
             ''Content-Type: application/json'' @ crlf @
             ''Content-Length: '' @ show_nat (length body) @ crlf @
             ''X-Mock-Server: specforge '' @ version @ crlf @
             ''X-Mock-Title: '' @ title @ crlf @
             ''Connection: close'' @ crlf @ crlf @ body)))"

section \<open>Depth\<close>

lemma those_map_Some: "those (map f xs) = Some ys \<longleftrightarrow> map f xs = map Some ys"
  by (induction xs arbitrary: ys) (auto split: option.splits)

lemma those_map_None: "those (map f xs) = None \<longleftrightarrow> (\<exists>x \<in> set xs. f x = None)"
  by (induction xs) (auto split: option.splits)

lemma object_example_Some:
  "object_example gen obj = Some j \<longleftrightarrow>
     (\<forall>p \<in> set (om_properties obj). gen (prop_ty p) \<noteq> None) \<and>
     j = JObject (bt_insert_all (map (\<lambda>p. (prop_name p, the (gen (prop_ty p)))) (om_properties obj)) [])"
proof (cases "\<forall>p \<in> set (om_properties obj). gen (prop_ty p) \<noteq> None")
  case True
  then have "those (map (\<lambda>prop. map_option (Pair (prop_name prop)) (gen (prop_ty prop))) (om_properties obj)) =
      Some (map (\<lambda>p. (prop_name p, the (gen (prop_ty p)))) (om_properties obj))"
    by (auto simp: those_map_Some)
  with True show ?thesis by (auto simp: object_example_def)
next
  case False
  then have "those (map (\<lambda>prop. map_option (Pair (prop_name prop)) (gen (prop_ty prop))) (om_properties obj)) = None"
    by (auto simp: those_map_None)
  with False show ?thesis by (auto simp: object_example_def)
qed

lemma from_model_mono:
  assumes mono: "\<And>t j. f t = Some j \<Longrightarrow> g t = Some j" and some: "generate_example_from_model f m = Some j"
  shows "generate_example_from_model g m = Some j"
proof (cases m)
  case (MObject obj)
  with some have f: "\<forall>p \<in> set (om_properties obj). f (prop_ty p) \<noteq> None"
    and j: "j = JObject (bt_insert_all (map (\<lambda>p. (prop_name p, the (f (prop_ty p)))) (om_properties obj)) [])"
    by (auto simp: object_example_Some)
  from f mono have "\<forall>p \<in> set (om_properties obj). g (prop_ty p) = f (prop_ty p)"
    by (metis option.exhaust)
  with f have "object_example g obj = object_example f obj"
    unfolding object_example_def by (intro arg_cong [where f = "map_option _"] arg_cong [where f = those] map_cong) auto
  with MObject some show ?thesis by simp
qed (use some in simp)

lemma example_mono_Suc: "generate_example_json n doc ty = Some j \<Longrightarrow> generate_example_json (Suc n) doc ty = Some j"
proof (induction n arbitrary: ty j)
  case (Suc n)
  show ?case
  proof (cases ty)
    case (TReference name a b)
    show ?thesis
    proof (cases "registry_get (doc_schemas doc) name")
      case (Some m)
      with Suc.prems TReference have "generate_example_from_model (generate_example_json n doc) m = Some j" by simp
      then have "generate_example_from_model (generate_example_json (Suc n) doc) m = Some j"
        by (rule from_model_mono [where f = "generate_example_json n doc", rotated]) (rule Suc.IH)
      with Some TReference show ?thesis by simp
    qed (use Suc.prems TReference in simp)
  next
    case (TComposition k members d)
    with Suc show ?thesis by (cases members) auto
  qed (use Suc in auto)
qed simp

lemma example_mono: "n \<le> m \<Longrightarrow> generate_example_json n doc ty = Some j \<Longrightarrow> generate_example_json m doc ty = Some j"
  by (induction m rule: dec_induct) (blast intro: example_mono_Suc)+

text \<open>The references an example of a type descends into, and the schemas an example of a schema does.\<close>

fun example_refs :: "ir_type \<Rightarrow> string set" where
  "example_refs (TArray item _) = example_refs item"
| "example_refs (TMap val) = example_refs val"
| "example_refs (TReference name _ _) = {name}"
| "example_refs (TComposition _ members _) = (case members of m # _ \<Rightarrow> example_refs m | [] \<Rightarrow> {})"
| "example_refs _ = {}"

definition example_edges :: "document \<Rightarrow> (string \<times> string) set" where
  "example_edges doc =
     {(a, b). \<exists>obj. registry_get (doc_schemas doc) a = Some (MObject obj) \<and>
        (\<exists>p \<in> set (om_properties obj). b \<in> example_refs (prop_ty p))}"

definition example_ends :: "document \<Rightarrow> ir_type \<Rightarrow> bool" where
  "example_ends doc ty \<longleftrightarrow> (\<exists>depth. generate_example_json depth doc ty \<noteq> None)"

lemma example_endsI: "generate_example_json n doc ty = Some j \<Longrightarrow> example_ends doc ty"
  by (auto simp: example_ends_def)

lemma example_ends_simps:
  "example_ends doc (TArray item b) = example_ends doc item"
  "example_ends doc (TMap item) = example_ends doc item"
  "example_ends doc (TComposition k (t # ts) d) = example_ends doc t"
proof -
  have ex: "(\<exists>n. generate_example_json n doc ty \<noteq> None) = (\<exists>n. generate_example_json (Suc n) doc ty \<noteq> None)" for ty
    by (metis generate_example_json.simps(1) not0_implies_Suc)
  show "example_ends doc (TArray item b) = example_ends doc item"
    and "example_ends doc (TMap item) = example_ends doc item"
    and "example_ends doc (TComposition k (t # ts) d) = example_ends doc t"
    unfolding example_ends_def by (subst ex, simp)+
qed

lemma example_ends_refs: "example_ends doc ty \<longleftrightarrow> (\<forall>r \<in> example_refs ty. example_ends doc (TReference r False None))"
proof (induction ty rule: example_refs.induct)
  case (3 name a b)
  have "generate_example_json n doc (TReference name a b) = generate_example_json n doc (TReference name False None)" for n
    by (cases n) auto
  then show ?case by (simp add: example_ends_def)
next
  case (4 k members d)
  then show ?case by (cases members) (auto simp: example_ends_simps intro: example_endsI [of 1])
qed (auto simp: example_ends_simps intro: example_endsI [of 1])

lemma example_ends_missing: "registry_get (doc_schemas doc) name = None \<Longrightarrow> example_ends doc (TReference name a b)"
  by (rule example_endsI [of 1]) simp

lemma example_ends_enum: "registry_get (doc_schemas doc) name = Some (MEnum e) \<Longrightarrow> example_ends doc (TReference name a b)"
  by (rule example_endsI [of 1]) simp

lemma example_depth_object:
  assumes "registry_get (doc_schemas doc) name = Some (MObject obj)"
  shows "generate_example_json n doc (TReference name a b) \<noteq> None \<longleftrightarrow>
    (\<exists>m. n = Suc m \<and> (\<forall>p \<in> set (om_properties obj). generate_example_json m doc (prop_ty p) \<noteq> None))"
proof (cases n)
  case (Suc m)
  with assms object_example_Some [of "generate_example_json m doc" obj] show ?thesis
    by (cases "object_example (generate_example_json m doc) obj") auto
qed simp

lemma example_bounded:
  assumes "finite T" and "\<forall>t \<in> T. example_ends doc t"
  shows "\<exists>n. \<forall>t \<in> T. generate_example_json n doc t \<noteq> None"
  using assms
proof (induction T rule: finite_induct)
  case (insert t T)
  then obtain n m where "\<forall>t \<in> T. generate_example_json n doc t \<noteq> None" "generate_example_json m doc t \<noteq> None"
    by (auto simp: example_ends_def)
  then have "\<forall>u \<in> insert t T. generate_example_json (max n m) doc u \<noteq> None"
    using example_mono [of n "max n m" doc] example_mono [of m "max n m" doc] by fastforce
  then show ?case by blast
qed simp

lemma example_ends_object:
  assumes "registry_get (doc_schemas doc) name = Some (MObject obj)"
  shows "example_ends doc (TReference name a b) \<longleftrightarrow> (\<forall>p \<in> set (om_properties obj). example_ends doc (prop_ty p))"
proof
  assume "\<forall>p \<in> set (om_properties obj). example_ends doc (prop_ty p)"
  then obtain n where "\<forall>p \<in> set (om_properties obj). generate_example_json n doc (prop_ty p) \<noteq> None"
    using example_bounded [of "prop_ty ` set (om_properties obj)" doc] by auto
  then show "example_ends doc (TReference name a b)"
    using example_depth_object [OF assms, of "Suc n" a b] unfolding example_ends_def by blast
next
  assume "example_ends doc (TReference name a b)"
  then show "\<forall>p \<in> set (om_properties obj). example_ends doc (prop_ty p)"
    using example_depth_object [OF assms, of _ a b] unfolding example_ends_def by blast
qed

lemma example_ends_edges:
  "example_ends doc (TReference name a b) \<longleftrightarrow>
     (\<forall>r. (name, r) \<in> example_edges doc \<longrightarrow> example_ends doc (TReference r False None))"
proof (cases "registry_get (doc_schemas doc) name")
  case None
  then show ?thesis by (simp add: example_edges_def example_ends_missing)
next
  case (Some m)
  then show ?thesis
  proof (cases m)
    case (MObject obj)
    with Some show ?thesis
      by (simp add: example_ends_object, subst example_ends_refs) (auto simp: example_edges_def)
  qed (simp add: example_edges_def example_ends_enum)
qed

lemma example_refs_finite: "finite (example_refs ty)"
  by (induction ty rule: example_refs.induct) (auto split: list.splits)

lemma example_edges_finite: "finite (example_edges doc)"
proof -
  let ?objs = "{(a, obj). (a, MObject obj) \<in> set (doc_schemas doc)}"
  have "finite ?objs"
    by (rule finite_subset [of _ "(\<lambda>(a, m). (a, case m of MObject obj \<Rightarrow> obj | _ \<Rightarrow> undefined)) ` set (doc_schemas doc)"])
      (force simp: image_iff)+
  then have "finite (\<Union>(a, obj) \<in> ?objs. \<Union>p \<in> set (om_properties obj). Pair a ` example_refs (prop_ty p))"
    by (auto intro: example_refs_finite)
  then show ?thesis
    by (rule rev_finite_subset) (fastforce simp: example_edges_def registry_get_def dest: map_of_SomeD)
qed

text \<open>The least depth at which the example of a schema is complete: it goes down along every edge.\<close>

definition example_need :: "document \<Rightarrow> string \<Rightarrow> nat" where
  "example_need doc r = (LEAST n. generate_example_json n doc (TReference r False None) \<noteq> None)"

lemma example_refs_depth:
  "generate_example_json n doc ty \<noteq> None \<Longrightarrow> r \<in> example_refs ty \<Longrightarrow>
   generate_example_json n doc (TReference r False None) \<noteq> None"
proof (induction ty arbitrary: n rule: example_refs.induct)
  case (1 item a)
  then obtain m where "n = Suc m" "generate_example_json m doc (TReference r False None) \<noteq> None" by (cases n) auto
  then show ?case using example_mono_Suc by blast
next
  case (2 item)
  then obtain m where "n = Suc m" "generate_example_json m doc (TReference r False None) \<noteq> None" by (cases n) auto
  then show ?case using example_mono_Suc by blast
next
  case (3 name a b)
  then show ?case by (cases n) auto
next
  case (4 k members d)
  then obtain m where "n = Suc m" "generate_example_json m doc (TReference r False None) \<noteq> None"
    by (cases n; cases members) auto
  then show ?case using example_mono_Suc by blast
qed auto

lemma example_need_edge:
  assumes "(a, b) \<in> example_edges doc" and "example_ends doc (TReference a False None)"
  shows "example_need doc b < example_need doc a"
proof -
  obtain obj p where obj: "registry_get (doc_schemas doc) a = Some (MObject obj)"
      "p \<in> set (om_properties obj)" "b \<in> example_refs (prop_ty p)"
    using assms(1) by (auto simp: example_edges_def)
  have "generate_example_json (example_need doc a) doc (TReference a False None) \<noteq> None"
    using assms(2) unfolding example_need_def example_ends_def by (rule LeastI_ex)
  then obtain m where m: "example_need doc a = Suc m" "generate_example_json m doc (prop_ty p) \<noteq> None"
    using example_depth_object [OF obj(1)] obj(2) by blast
  then have "generate_example_json m doc (TReference b False None) \<noteq> None"
    using example_refs_depth obj(3) by blast
  then have "example_need doc b \<le> m" unfolding example_need_def by (rule Least_le)
  with m(1) show ?thesis by simp
qed

lemma example_need_path:
  "(a, b) \<in> (example_edges doc)\<^sup>+ \<Longrightarrow> example_ends doc (TReference a False None) \<Longrightarrow>
   example_ends doc (TReference b False None) \<and> example_need doc b < example_need doc a"
proof (induction rule: trancl_induct)
  case (base y)
  then show ?case using example_need_edge example_ends_edges [of doc a] by blast
next
  case (step y z)
  then show ?case using example_need_edge [of y z doc] example_ends_edges [of doc y] by force
qed

lemma example_ends_acyclic:
  assumes "\<forall>s. (r, s) \<in> (example_edges doc)\<^sup>* \<longrightarrow> (s, s) \<notin> (example_edges doc)\<^sup>+"
  shows "example_ends doc (TReference r False None)"
proof -
  let ?E = "example_edges doc" and ?S = "{s. (r, s) \<in> (example_edges doc)\<^sup>*}"
  let ?R = "{(a, b) \<in> ?E. a \<in> ?S}"
  have "finite ?R" by (rule finite_subset [OF _ example_edges_finite [of doc]]) auto
  moreover have "acyclic ?R"
  proof (rule acyclicI, rule allI, rule notI)
    fix x assume x: "(x, x) \<in> ?R\<^sup>+"
    then obtain y where "(x, y) \<in> ?R" by (meson tranclD)
    moreover have "(x, x) \<in> ?E\<^sup>+" using x by (rule trancl_mono) auto
    ultimately show False using assms by blast
  qed
  ultimately have "wf (?R\<inverse>)" by (rule finite_acyclic_wf_converse)
  then have "s \<in> ?S \<longrightarrow> example_ends doc (TReference s False None)" for s
  proof (induction s)
    case (less s)
    show ?case
    proof
      assume s: "s \<in> ?S"
      have "example_ends doc (TReference t False None)" if "(s, t) \<in> ?E" for t
        using less that s by (auto intro: rtrancl_into_rtrancl)
      then show "example_ends doc (TReference s False None)" using example_ends_edges [of doc s] by blast
    qed
  qed
  then show ?thesis by blast
qed

section \<open>Examples and the verifier\<close>

text \<open>
  What an example needs to be accepted: enums and compositions that are not empty and property
  names that do not repeat.
\<close>

fun type_inhabited :: "ir_type \<Rightarrow> bool" where
  "type_inhabited (TArray item _) = type_inhabited item"
| "type_inhabited (TMap val) = type_inhabited val"
| "type_inhabited (TComposition _ members _) = (case members of m # _ \<Rightarrow> type_inhabited m | [] \<Rightarrow> False)"
| "type_inhabited _ = True"

fun model_inhabited :: "model \<Rightarrow> bool" where
  "model_inhabited (MObject obj) \<longleftrightarrow>
     distinct (map prop_name (om_properties obj)) \<and> list_all (\<lambda>p. type_inhabited (prop_ty p)) (om_properties obj)"
| "model_inhabited (MEnum e) \<longleftrightarrow> em_variants e \<noteq> []"

definition registry_inhabited :: "schema_registry \<Rightarrow> bool" where
  "registry_inhabited schemas \<longleftrightarrow> list_all (\<lambda>nm. model_inhabited (snd nm)) schemas"

lemma scalar_example_matches: "scalar_matches (scalar_example s) s"
  by (cases s) (auto simp: is_string_def is_boolean_def)

lemma object_example_matches:
  assumes ex: "object_example gen obj = Some j" and dist: "distinct (map prop_name (om_properties obj))"
    and ok: "\<And>p v. p \<in> set (om_properties obj) \<Longrightarrow> gen (prop_ty p) = Some v \<Longrightarrow> rec v (prop_ty p)"
  shows "\<exists>kvs. j = JObject kvs \<and> object_matches rec kvs obj"
proof -
  let ?kvs = "map (\<lambda>p. (prop_name p, the (gen (prop_ty p)))) (om_properties obj)"
  have some: "\<forall>p \<in> set (om_properties obj). gen (prop_ty p) \<noteq> None" and j: "j = JObject (bt_insert_all ?kvs [])"
    using ex by (auto simp: object_example_Some)
  have get: "map_of (bt_insert_all ?kvs []) (prop_name p) = Some (the (gen (prop_ty p)))"
    if "p \<in> set (om_properties obj)" for p
  proof -
    have "map_of ?kvs (prop_name p) = Some (the (gen (prop_ty p)))"
      using dist that by (intro map_of_is_SomeI) (auto simp: comp_def)
    moreover have "bt_invar ([] :: json_object)" by (simp add: bt_invar_def)
    ultimately show ?thesis using dist by (simp add: bt_get_insert_all_distinct comp_def)
  qed
  then have "object_matches rec (bt_insert_all ?kvs []) obj"
    using ok some unfolding object_matches_def contains_key_def by auto
  with j show ?thesis by blast
qed

lemma example_validates:
  assumes "registry_inhabited (doc_schemas doc)"
  shows "type_inhabited ty \<Longrightarrow> generate_example_json n doc ty = Some j \<Longrightarrow>
    validate_json_against_type j ty (doc_schemas doc)"
proof (induction n arbitrary: ty j)
  case (Suc n)
  show ?case
  proof (cases ty)
    case (TReference name b d)
    show ?thesis
    proof (cases "registry_get (doc_schemas doc) name")
      case (Some m)
      with assms have m: "model_inhabited m"
        by (fastforce simp: registry_inhabited_def registry_get_def list_all_iff dest: map_of_SomeD)
      show ?thesis
      proof (cases m)
        case (MObject obj)
        have "\<exists>kvs. j = JObject kvs \<and> object_matches (\<lambda>v t. validate_json_against_type v t (doc_schemas doc)) kvs obj"
          by (rule object_example_matches [of "generate_example_json n doc"])
            (use Suc TReference Some m MObject in \<open>auto simp: list_all_iff\<close>)
        with Some MObject TReference show ?thesis by auto
      next
        case (MEnum e)
        with Some m Suc.prems TReference show ?thesis by (auto simp: neq_Nil_conv)
      qed
    qed (simp add: TReference)
  next
    case (TComposition k members d)
    with Suc show ?thesis by (cases members) auto
  qed (use Suc scalar_example_matches in \<open>auto simp: is_string_def split: list.splits\<close>)
qed simp

section \<open>The verifier against the mock server\<close>

text \<open>The status an HTTP client reads from a status line.\<close>

definition status_code :: "string \<Rightarrow> 16 word" where
  "status_code line = (case digits_val 0 (take 3 (drop 9 line)) of Some n \<Rightarrow> of_nat n | None \<Rightarrow> 0)"

text \<open>
  A path that a client sends as it is written: no character that the parser of URLs escapes, cuts off or takes for another
  one, and no dot segment.
\<close>

definition plain_path :: "string \<Rightarrow> bool" where
  "plain_path path \<longleftrightarrow> starts_with path ''/'' \<and>
     list_all (\<lambda>c. is_ascii_alphanumeric c \<or> c = CHR 39 \<or> c \<in> set ''/-._~!$&()*+,;=:@'') path \<and>
     list_all (\<lambda>seg. seg \<noteq> ''.'' \<and> seg \<noteq> ''..'') (split_on (CHR ''/'') path)"

text \<open>
  The requests of \<open>send\<close> for plain paths under \<open>base\<close> are answered by the routes of a mock server. A response 204 has no
  body, whatever the server writes; neither has the response to a HEAD request.
\<close>

definition serves :: "(json \<Rightarrow> string) \<Rightarrow> route list \<Rightarrow> string \<Rightarrow> http_client \<Rightarrow> bool" where
  "serves to_string routes base send \<longleftrightarrow>
     (\<forall>m path auth. m \<noteq> Head \<and> plain_path path \<longrightarrow>
        send m (trim_end_matches (CHR ''/'') base @ path) auth =
          (let (line, body) = respond to_string routes (method_upper m) path; code = status_code line
           in Inr (code, if unat code = 204 then [] else body)))"

lemma plain_path_no_brace: "plain_path path \<Longrightarrow> CHR ''{'' \<notin> set path"
  by (auto simp: plain_path_def list_all_iff is_ascii_alphanumeric_def is_ascii_alphabetic_def is_ascii_upper_def
      is_ascii_lower_def is_ascii_digit_def byte_def)

lemma status_codes:
  "unat (status_code (status_line n)) = (if n \<in> {201, 204, 400, 404, 500} then n else 200)"
  "unat (status_code ''HTTP/1.1 404 Not Found'') = 404"
  by (auto simp: status_code_def status_line_def parse_eval)

lemma shown_codes:
  "show_nat 200 = ''200''" "show_nat 201 = ''201''" "show_nat 404 = ''404''"
  "parse_unsigned 16 ''200'' = Some 200" "parse_unsigned 16 ''201'' = Some 201"
  by (simp_all add: parse_eval show_nat_eval)

lemma method_upper_inject [simp]: "method_upper m = method_upper m' \<longleftrightarrow> m = m'"
  by (cases m; cases m') simp_all

lemma method_upper_GET: "method_upper m = ''GET'' \<longleftrightarrow> m = Get"
  by (cases m) simp_all

lemma route_for_key:
  "route_for pretty depth doc op = Some r \<Longrightarrow> rt_method r = method_upper (op_method op) \<and> rt_path r = op_path op"
  by (auto simp: route_for_def)

lemma from_doc_routes:
  "from_doc pretty depth doc = Some server \<Longrightarrow>
   map (route_for pretty depth doc) (doc_operations doc) = map Some (ms_routes server)"
  by (auto simp: from_doc_def those_map_Some)

lemma find_route:
  assumes "map (route_for pretty depth doc) ops = map Some routes" and "op \<in> set ops"
    and "distinct (map (\<lambda>o'. (op_method o', op_path o')) ops)"
  shows "List.find (\<lambda>r. rt_method r = method_upper (op_method op) \<and> rt_path r = op_path op) routes =
    route_for pretty depth doc op"
  using assms
proof (induction ops arbitrary: routes)
  case (Cons o' ops)
  then obtain r rs where routes: "routes = r # rs" by (cases routes) auto
  with Cons.prems have r: "route_for pretty depth doc o' = Some r" by simp
  with routes Cons show ?case using route_for_key [OF r] by (auto simp: image_iff)
qed simp

lemma find_route_None:
  assumes "map (route_for pretty depth doc) ops = map Some routes" and "\<forall>o' \<in> set ops. op_path o' \<noteq> path"
  shows "List.find (\<lambda>r. rt_method r = meth \<and> rt_path r = path) routes = None"
  using assms
proof (induction ops arbitrary: routes)
  case (Cons o' ops)
  then obtain r rs where routes: "routes = r # rs" by (cases routes) auto
  with Cons.prems have r: "route_for pretty depth doc o' = Some r" by simp
  with routes Cons show ?case using route_for_key [OF r] by auto
qed simp

section \<open>Properties\<close>

text \<open>
  C14. An example is generated for a type exactly when no schema that the generation descends into is
  part of a cycle of properties; for any other type the generator recurses without end, so a document with a
  self-referencing schema in a success response has no mock server.
\<close>

theorem mock_example_ends_iff:
  "(\<exists>depth. generate_example_json depth doc ty \<noteq> None) \<longleftrightarrow>
     (\<forall>r \<in> example_refs ty. \<forall>s. (r, s) \<in> (example_edges doc)\<^sup>* \<longrightarrow> (s, s) \<notin> (example_edges doc)\<^sup>+)"
proof -
  have "example_ends doc (TReference r False None) \<longleftrightarrow>
      (\<forall>s. (r, s) \<in> (example_edges doc)\<^sup>* \<longrightarrow> (s, s) \<notin> (example_edges doc)\<^sup>+)" for r
    using example_ends_acyclic [of r doc] example_need_path [of r _ doc] example_need_path [of _ _ doc]
    by (metis nat_neq_iff rtranclD)
  then show ?thesis using example_ends_refs [of doc ty] by (simp add: example_ends_def)
qed

theorem mock_example_ends_iff_witness:
  "\<forall>depth. generate_example_json depth
     \<lparr>doc_ir_version = ''1'', doc_title = ''T'', doc_version = ''1'', doc_base_url = None, doc_security = [],
      doc_schemas = [(''Node'', MObject \<lparr>om_name = ''Node'', om_description = None,
        om_properties = [\<lparr>prop_name = ''next'', prop_ty = TReference ''Node'' True None, prop_required = False, prop_description = None\<rparr>],
        om_additional_properties = None, om_shape_type = None, om_base_type = None\<rparr>)],
      doc_operations = [], doc_webhooks = []\<rparr> (TReference ''Node'' False None) = None"
    (is "\<forall>depth. generate_example_json depth ?doc ?ty = None")
proof -
  have "(''Node'', ''Node'') \<in> example_edges ?doc" by (simp add: example_edges_def registry_get_def)
  with mock_example_ends_iff [of ?doc ?ty] show ?thesis by auto
qed

text \<open>The status the mock server answers with, for a success status other than 204.\<close>

definition answered_status :: "nat \<Rightarrow> nat" where
  "answered_status code = (if code = 201 then 201 else 200)"

lemma mock_verified:
  assumes server: "from_doc to_string_pretty depth doc = Some server"
    and client: "serves to_string (ms_routes server) (vo_base_url opts) send"
    and json: "\<And>j. generate_example_json depth doc ty = Some j \<Longrightarrow> from_str (to_string_pretty j) = Some j"
    and op: "op \<in> set (doc_operations doc)" "op_method op \<noteq> Head" "plain_path (op_path op)"
    and unique: "distinct (map (\<lambda>o'. (op_method o', op_path o')) (doc_operations doc))"
    and resp: "op_responses op = r # rs" "parse_unsigned 16 (resp_status r) = Some code" "200 \<le> code" "code < 300" "code \<noteq> 204"
      "resp_body r = Some ty"
    and inhabited: "registry_inhabited (doc_schemas doc)" "type_inhabited ty"
  shows "verify_operation send from_str doc op opts =
    \<lparr>vr_endpoint = op_path op, vr_method = method_upper (op_method op), vr_status = show_nat (answered_status code),
     vr_schema_match = True,
     vr_issues = (if code \<in> {200, 201} then []
       else [''status mismatch: expected '' @ show_nat code @ '', got 200''])\<rparr>"
proof -
  have code: "unat (status_code (status_line code)) = answered_status code"
    using resp(3-5) by (auto simp: status_codes answered_status_def)
  then have answer: "answered_status code \<noteq> 204" "answered_status code = code \<longleftrightarrow> code \<in> {200, 201}"
    using resp(3-5) by (auto simp: answered_status_def)
  have routes: "List.find (\<lambda>r. rt_method r = method_upper (op_method op) \<and> rt_path r = op_path op) (ms_routes server) =
      route_for to_string_pretty depth doc op"
    by (rule find_route [OF from_doc_routes [OF server] op(1) unique])
  have "route_for to_string_pretty depth doc op \<noteq> None"
    using from_doc_routes [OF server] op(1) by (metis (no_types, lifting) image_iff imageE list.set_map option.distinct(1))
  then obtain j where j: "generate_example_json depth doc ty = Some j"
      "route_for to_string_pretty depth doc op = Some \<lparr>rt_method = method_upper (op_method op),
        rt_path = op_path op, rt_status = code, rt_body = to_string_pretty j\<rparr>"
    using resp by (auto simp: route_for_def pick_success_response_def split: if_splits)
  then have "validate_json_against_type j ty (doc_schemas doc)" using example_validates inhabited by blast
  moreover have "send (op_method op) (trim_end_matches (CHR ''/'') (vo_base_url opts) @ op_path op) (vo_auth opts) =
      Inr (status_code (status_line code), to_string_pretty j)"
    using client op j routes code answer by (simp add: serves_def respond_def)
  moreover have "show_nat (answered_status code) = ''200''" if "code \<notin> {200, 201}"
    using that by (simp add: answered_status_def shown_codes)
  ultimately show ?thesis
    using j(1) json resp(1,2,6) plain_path_no_brace [OF op(3)]
    by (simp add: verify_operation_def substitute_no_brace Let_def expected_status_def code answer)
qed

text \<open>
  C13. The verifier against the mock server of the same document, for an operation with a plain path without parameters, not
  a HEAD request, whose first response has a success status other than 204 and a body: the body always matches the declared
  schema; the status matches, and no issue is reported, exactly when it is 200 or 201. Any other success status, such as 202,
  is answered with 200, and this mismatch is the only issue. (Operations differ in method or path, enums and compositions
  have members, property names do not repeat, JSON is printed and read back unchanged, and the client reaches the server.)
\<close>

theorem mock_satisfies_verifier:
  assumes server: "from_doc to_string_pretty depth doc = Some server"
    and client: "serves to_string (ms_routes server) (vo_base_url opts) send"
    and json: "\<And>j. generate_example_json depth doc ty = Some j \<Longrightarrow> from_str (to_string_pretty j) = Some j"
    and op: "op \<in> set (doc_operations doc)" "op_method op \<noteq> Head" "plain_path (op_path op)"
    and unique: "distinct (map (\<lambda>o'. (op_method o', op_path o')) (doc_operations doc))"
    and resp: "op_responses op = r # rs" "parse_unsigned 16 (resp_status r) = Some code" "200 \<le> code" "code < 300" "code \<noteq> 204"
      "resp_body r = Some ty"
    and inhabited: "registry_inhabited (doc_schemas doc)" "type_inhabited ty"
  shows "verify_operation send from_str doc op opts =
    \<lparr>vr_endpoint = op_path op, vr_method = method_upper (op_method op),
     vr_status = (if code = 201 then ''201'' else ''200''), vr_schema_match = True,
     vr_issues = (if code \<in> {200, 201} then []
       else [''status mismatch: expected '' @ show_nat code @ '', got 200''])\<rparr>"
  using mock_verified [OF assms] by (simp add: answered_status_def shown_codes)

theorem mock_satisfies_verifier_witness:
  "\<exists>doc ping job. doc_operations doc = [ping, job] \<and> op_path ping = ''/ping'' \<and> op_path job = ''/job'' \<and>
     (let send = \<lambda>m url auth. Inr (if m = Get \<and> url \<in> {''http://m/ping'', ''http://m/job''} then (200, ''ok'') else (404, ''no''));
          verified = \<lambda>op. verify_operation send (\<lambda>t. Some (JString ''string'')) doc op \<lparr>vo_base_url = ''http://m'', vo_auth = None\<rparr>
      in vr_issues (verified ping) = [] \<and> vr_issues (verified job) = [''status mismatch: expected 202, got 200''])"
proof -
  let ?r = "\<lambda>code. \<lparr>resp_status = code, resp_description = None, resp_body = Some (TScalar ScString)\<rparr>"
  let ?op = "\<lambda>path code. \<lparr>op_operation_id = path, op_method = Get, op_path = path, op_tag = None, op_summary = None,
    op_description = None, op_parameters = [], op_request_body = None, op_responses = [?r code], op_retry_policy = None\<rparr>"
  let ?doc = "\<lparr>doc_ir_version = ''1'', doc_title = ''T'', doc_version = ''1'', doc_base_url = None, doc_security = [],
    doc_schemas = [], doc_operations = [?op ''/ping'' ''200'', ?op ''/job'' ''202''], doc_webhooks = []\<rparr>"
  let ?route = "\<lambda>path code. \<lparr>rt_method = ''GET'', rt_path = path, rt_status = code, rt_body = ''ok''\<rparr>"
  let ?server = "\<lparr>ms_port = 0, ms_host = ''127.0.0.1'', ms_routes = [?route ''/ping'' 200, ?route ''/job'' 202],
    ms_title = ''T'', ms_version = ''1''\<rparr>"
  let ?send = "\<lambda>m url auth. Inr (if m = Get \<and> url \<in> {''http://m/ping'', ''http://m/job''} then (200, ''ok'') else (404, ''no''))"
  let ?verified = "\<lambda>op. verify_operation ?send (\<lambda>t. Some (JString ''string'')) ?doc op \<lparr>vo_base_url = ''http://m'', vo_auth = None\<rparr>"
  have "from_doc (\<lambda>j. ''ok'') (Suc 0) ?doc = Some ?server"
    by (simp add: from_doc_def route_for_def pick_success_response_def parse_eval)
  moreover have "serves (\<lambda>j. ''no'') (ms_routes ?server) ''http://m'' ?send"
    by (auto simp: serves_def respond_def trim_end_matches_def status_code_def status_line_def parse_eval
      method_upper_GET eq_commute [of "''GET''"])
  moreover have "plain_path ''/ping''" "plain_path ''/job''" by code_simp+
  moreover have "parse_unsigned 16 ''202'' = Some 202" "show_nat 202 = ''202''" by (simp_all add: parse_eval show_nat_eval)
  ultimately have "vr_issues (?verified (?op ''/ping'' ''200'')) = []"
    "vr_issues (?verified (?op ''/job'' ''202'')) = [''status mismatch: expected 202, got 200'']"
    by (subst mock_satisfies_verifier [where r = "?r ''200''" and code = 200 and ty = "TScalar ScString" and rs = "[]" and depth = "Suc 0"
        and to_string_pretty = "\<lambda>j. ''ok''" and server = ?server and to_string = "\<lambda>j. ''no''"],
        simp_all add: registry_inhabited_def shown_codes)
      (subst mock_satisfies_verifier [where r = "?r ''202''" and code = 202 and ty = "TScalar ScString" and rs = "[]" and depth = "Suc 0"
        and to_string_pretty = "\<lambda>j. ''ok''" and server = ?server and to_string = "\<lambda>j. ''no''"],
        simp_all add: registry_inhabited_def)
  then show ?thesis by (intro exI [of _ ?doc] exI [of _ "?op ''/ping'' ''200''"] exI [of _ "?op ''/job'' ''202''"]) (simp add: Let_def)
qed

text \<open>
  The mock server matches the path of a route literally, so an operation with path parameters is
  answered 404 when the parameters are filled in: the verifier reports a status mismatch for it.
\<close>

theorem mock_misses_templates:
  assumes server: "from_doc to_string_pretty depth doc = Some server"
    and client: "serves to_string (ms_routes server) (vo_base_url opts) send"
    and op: "op_method op \<noteq> Head" "plain_path (substitute_path_params (op_path op))" "\<forall>o' \<in> set (doc_operations doc). op_path o' \<noteq> substitute_path_params (op_path op)"
    and resp: "expected_status op = ''200''"
  shows "''status mismatch: expected 200, got 404'' \<in> set (vr_issues (verify_operation send from_str doc op opts))"
proof -
  have "respond to_string (ms_routes server) m (substitute_path_params (op_path op)) =
      (''HTTP/1.1 404 Not Found'', to_string (not_found_body m (substitute_path_params (op_path op))))" for m
    using find_route_None [OF from_doc_routes [OF server] op(3)] by (simp add: respond_def)
  then show ?thesis
    using client op(1,2) resp
    by (auto simp: verify_operation_def serves_def Let_def status_codes shown_codes split: option.splits)
qed

theorem mock_misses_templates_witness:
  "\<exists>doc op. op_path op = ''/pets/{petId}'' \<and> doc_operations doc = [op] \<and>
     ''status mismatch: expected 200, got 404'' \<in> set (vr_issues (verify_operation (\<lambda>m url auth. Inr (if url = ''http://m/pets/{petId}'' \<and> m = Get then (200, ''{}'') else (404, ''no'')))
       (\<lambda>t. None) doc op \<lparr>vo_base_url = ''http://m'', vo_auth = None\<rparr>))"
proof -
  let ?r = "\<lparr>resp_status = ''200'', resp_description = None, resp_body = None\<rparr>"
  let ?op = "\<lparr>op_operation_id = ''pet'', op_method = Get, op_path = ''/pets/{petId}'', op_tag = None, op_summary = None,
    op_description = None, op_parameters = [], op_request_body = None, op_responses = [?r], op_retry_policy = None\<rparr>"
  let ?doc = "\<lparr>doc_ir_version = ''1'', doc_title = ''T'', doc_version = ''1'', doc_base_url = None, doc_security = [],
    doc_schemas = [], doc_operations = [?op], doc_webhooks = []\<rparr>"
  let ?route = "\<lparr>rt_method = ''GET'', rt_path = ''/pets/{petId}'', rt_status = 200, rt_body = ''{}''\<rparr>"
  let ?server = "\<lparr>ms_port = 0, ms_host = ''127.0.0.1'', ms_routes = [?route], ms_title = ''T'', ms_version = ''1''\<rparr>"
  let ?send = "\<lambda>m url auth. Inr (if url = ''http://m/pets/{petId}'' \<and> m = Get then (200, ''{}'') else (404, ''no''))"
  have "from_doc (\<lambda>j. ''ok'') 0 ?doc = Some ?server"
    by (simp add: from_doc_def route_for_def pick_success_response_def shown_codes)
  moreover have "serves (\<lambda>j. ''no'') (ms_routes ?server) ''http://m'' ?send"
    by (auto simp: serves_def respond_def trim_end_matches_def status_code_def status_line_def parse_eval
      method_upper_GET eq_commute [of "''GET''"])
  moreover have "substitute_path_params ''/pets/{petId}'' = ''/pets/1''"
    using substitute_parts [of "[]" "[Lit ''/pets/'', Param ''petId'']"]
    by (simp add: dummy_value_def contains_sub_def starts_with_def)
  moreover have "plain_path ''/pets/1''" by code_simp
  ultimately have "''status mismatch: expected 200, got 404'' \<in> set (vr_issues (verify_operation ?send
      (\<lambda>t. None) ?doc ?op \<lparr>vo_base_url = ''http://m'', vo_auth = None\<rparr>))"
    by (intro mock_misses_templates [where depth = 0 and to_string_pretty = "\<lambda>j. ''ok''" and server = ?server
        and to_string = "\<lambda>j. ''no''"])
      (simp_all add: expected_status_def)
  then show ?thesis by (intro exI [of _ ?doc] exI [of _ ?op]) simp
qed

end
