(* ===== verification/Ts_Names.thy ===== *)
theory Ts_Names
  imports Ir
begin

text \<open>
  crates/specforge-ts/src/name.rs: identifiers, property keys and string literals of the emitted
  TypeScript. A byte of a non-ASCII character is neither an ASCII letter nor a digit, so the
  functions on characters are functions on bytes.
\<close>

section \<open>Names\<close>

text \<open>The loop of \<open>pascal\<close>: the flag is \<open>next_upper\<close>.\<close>

fun pascal_chars :: "bool \<Rightarrow> string \<Rightarrow> string" where
  "pascal_chars next_upper [] = []"
| "pascal_chars next_upper (ch # cs) =
     (if is_ascii_alphanumeric ch
      then (if next_upper then to_ascii_upper ch else ch) # pascal_chars False cs
      else pascal_chars True cs)"

definition pascal :: "string \<Rightarrow> string" where
  "pascal input =
     (let out = pascal_chars True input
      in case out of [] \<Rightarrow> ''_'' | c # _ \<Rightarrow> if is_ascii_digit c then CHR ''_'' # out else out)"

definition ts_sdk_builtin_types :: "string list" where
  "ts_sdk_builtin_types =
     [''ApiClient'', ''ApiClientOptions'', ''ApiError'', ''AuthProvider'', ''AnonymousAuthProvider'',
      ''BearerAuthProvider'', ''ApiKeyAuthProvider'', ''CacheEntry'', ''ConfigurationError'', ''ConsoleLogger'',
      ''CursorPage'', ''EndpointSchema'', ''HttpError'', ''Logger'', ''Metrics'', ''MetricsCollector'', ''Middleware'',
      ''MiddlewareRequest'', ''MiddlewareResponse'', ''NetworkError'', ''OffsetPage'', ''RateLimiter'',
      ''RequestInterceptor'', ''RequestDeduper'', ''RequestOptions'', ''ResponseCache'', ''ResponseInterceptor'',
      ''ResponseTransformer'', ''RetryOptions'', ''RouteSchemaMap'', ''SchemaType'', ''Semaphore'', ''ServerSentEvent'',
      ''ServiceContainer'', ''SlidingWindow'', ''TelemetryHooks'', ''TimeoutError'', ''TokenBucket'', ''ValidationError'',
      ''QueryRecord'']"

definition is_ts_sdk_builtin_type :: "string \<Rightarrow> bool" where
  "is_ts_sdk_builtin_type name \<longleftrightarrow> name \<in> set ts_sdk_builtin_types"

definition safe_model_name :: "string \<Rightarrow> string" where
  "safe_model_name name = (if is_ts_sdk_builtin_type name then name @ ''Model'' else name)"

definition camel :: "string \<Rightarrow> string" where
  "camel input = (case pascal input of [] \<Rightarrow> [] | c # cs \<Rightarrow> to_ascii_lower c # cs)"

section \<open>Keys and literals\<close>

definition escape_quotes :: "string \<Rightarrow> string" where
  "escape_quotes s = replace_char (CHR 34) [CHR 92, CHR 34] (replace_char (CHR 92) [CHR 92, CHR 92] s)"

definition string_literal :: "string \<Rightarrow> string" where
  "string_literal s = dquote @ escape_quotes s @ dquote"

definition is_valid_identifier :: "string \<Rightarrow> bool" where
  "is_valid_identifier s =
     (case s of
        [] \<Rightarrow> False
      | c # cs \<Rightarrow> (is_ascii_alphabetic c \<or> c = CHR ''_'' \<or> c = CHR ''$'') \<and>
          list_all (\<lambda>c. is_ascii_alphanumeric c \<or> c = CHR ''_'' \<or> c = CHR ''$'') cs)"

definition reserved_words :: "string list" where
  "reserved_words =
     [''break'', ''case'', ''catch'', ''class'', ''const'', ''continue'', ''debugger'', ''default'', ''delete'', ''do'',
      ''else'', ''enum'', ''export'', ''extends'', ''false'', ''finally'', ''for'', ''function'', ''if'', ''import'', ''in'',
      ''instanceof'', ''new'', ''null'', ''return'', ''super'', ''switch'', ''this'', ''throw'', ''true'', ''try'', ''typeof'',
      ''var'', ''void'', ''while'', ''with'', ''let'', ''static'', ''yield'', ''await'', ''async'', ''of'', ''as'', ''from'',
      ''type'', ''interface'', ''implements'', ''package'', ''private'', ''protected'', ''public'']"

definition is_reserved :: "string \<Rightarrow> bool" where
  "is_reserved s \<longleftrightarrow> s \<in> set reserved_words"

definition property_key :: "string \<Rightarrow> string" where
  "property_key name = (if is_valid_identifier name \<and> \<not> is_reserved name then name else string_literal name)"

definition member_access :: "string \<Rightarrow> string \<Rightarrow> string" where
  "member_access obj name =
     (if is_valid_identifier name \<and> \<not> is_reserved name then obj @ ''.'' @ name
      else obj @ ''['' @ dquote @ escape_quotes name @ dquote @ '']'')"

section \<open>Reading names and literals back\<close>

text \<open>
  How TypeScript reads a double-quoted literal: a line break before the closing quote is an error, a
  backslash stands for the character that follows (the letters of the other escapes never follow one
  here).
\<close>

fun read_js_chars :: "string \<Rightarrow> (string \<times> string) option" where
  "read_js_chars [] = None"
| "read_js_chars (c # cs) =
     (if c = CHR 34 then Some ([], cs)
      else if c = CHR 10 \<or> c = CHR 13 then None
      else if c = CHR 92
      then (case cs of
              [] \<Rightarrow> None
            | d # ds \<Rightarrow> if d = CHR 34 \<or> d = CHR 92 then map_option (apfst ((#) d)) (read_js_chars ds) else None)
      else map_option (apfst ((#) c)) (read_js_chars cs))"

fun read_js_string :: "string \<Rightarrow> (string \<times> string) option" where
  "read_js_string [] = None"
| "read_js_string (c # cs) = (if c = CHR 34 then read_js_chars cs else None)"

definition single_line :: "string \<Rightarrow> bool" where
  "single_line s \<longleftrightarrow> CHR 10 \<notin> set s \<and> CHR 13 \<notin> set s"

lemma escape_quotes_Nil [simp]: "escape_quotes [] = []"
  by (simp add: escape_quotes_def replace_char_def)

lemma escape_quotes_Cons [simp]:
  "escape_quotes (c # cs) =
     (if c = CHR 34 then [CHR 92, CHR 34] else if c = CHR 92 then [CHR 92, CHR 92] else [c]) @ escape_quotes cs"
  by (simp add: escape_quotes_def replace_char_def)

lemma read_js_chars_escape:
  "read_js_chars (escape_quotes s @ CHR 34 # rest) = (if single_line s then Some (s, rest) else None)"
  by (induction s) (auto simp: single_line_def)

section \<open>Identifiers\<close>

lemmas ascii_defs = is_ascii_alphanumeric_def is_ascii_alphabetic_def is_ascii_upper_def is_ascii_lower_def is_ascii_digit_def

lemma alphanumeric_upper: "is_ascii_alphanumeric c \<Longrightarrow> is_ascii_alphanumeric (to_ascii_upper c)"
  by (auto simp: ascii_defs to_ascii_upper_def)

lemma to_ascii_upper_idem [simp]: "to_ascii_upper (to_ascii_upper c) = to_ascii_upper c"
  by (auto simp: to_ascii_upper_def is_ascii_lower_def)

lemma to_ascii_upper_fixed: "to_ascii_upper c = c \<Longrightarrow> is_ascii_alphabetic c \<Longrightarrow> is_ascii_upper c"
proof (rule ccontr)
  assume c: "to_ascii_upper c = c" "is_ascii_alphabetic c" "\<not> is_ascii_upper c"
  then have low: "is_ascii_lower c" by (simp add: is_ascii_alphabetic_def)
  then have "byte (to_ascii_upper c) = byte c - 32" by (auto simp: to_ascii_upper_def is_ascii_lower_def intro!: byte_char_of)
  with c(1) have "byte c = byte c - 32" by simp
  moreover have "97 \<le> byte c" using low by (simp add: is_ascii_lower_def)
  ultimately show False by linarith
qed

lemma underscore_not_alphanumeric [simp]: "\<not> is_ascii_alphanumeric (CHR ''_'')" "\<not> is_ascii_digit (CHR ''_'')"
  by (simp_all add: ascii_defs byte_def)

lemma pascal_chars_alphanumeric: "list_all is_ascii_alphanumeric (pascal_chars u s)"
  by (induction u s rule: pascal_chars.induct) (auto simp: alphanumeric_upper)

text \<open>A word that starts with an upper-case letter or a digit and has only letters and digits.\<close>

lemma pascal_chars_idle: "list_all is_ascii_alphanumeric s \<Longrightarrow> pascal_chars False s = s"
  by (induction s) auto

lemma pascal_chars_head:
  "pascal_chars True s = c # cs \<Longrightarrow> is_ascii_alphanumeric c \<and> to_ascii_upper c = c"
proof (induction s)
  case (Cons x s)
  then show ?case by (auto split: if_splits simp: alphanumeric_upper)
qed simp

lemma pascal_idem: "pascal (pascal s) = pascal s"
proof (cases "pascal_chars True s")
  case Nil
  then show ?thesis by (simp add: pascal_def)
next
  case (Cons c cs)
  have "list_all is_ascii_alphanumeric cs" using pascal_chars_alphanumeric [of True s] Cons by simp
  with Cons pascal_chars_head [OF Cons] show ?thesis by (auto simp: pascal_def pascal_chars_idle Let_def)
qed

lemma pascal_shape:
  "\<exists>c cs. pascal s = c # cs \<and> (is_ascii_upper c \<or> c = CHR ''_'') \<and> list_all is_ascii_alphanumeric cs"
proof (cases "pascal_chars True s")
  case (Cons c cs)
  have "list_all is_ascii_alphanumeric (c # cs)" using pascal_chars_alphanumeric [of True s] Cons by simp
  moreover have "is_ascii_upper c" if "\<not> is_ascii_digit c"
    using pascal_chars_head [OF Cons] that to_ascii_upper_fixed by (simp add: is_ascii_alphanumeric_def)
  ultimately show ?thesis using Cons by (cases "is_ascii_digit c") (auto simp: pascal_def Let_def)
qed (simp add: pascal_def)

lemma pascal_valid: "is_valid_identifier (pascal s)"
proof -
  obtain c cs where "pascal s = c # cs" "is_ascii_upper c \<or> c = CHR ''_''" "list_all is_ascii_alphanumeric cs"
    using pascal_shape by blast
  then show ?thesis by (auto simp: is_valid_identifier_def is_ascii_alphabetic_def list_all_iff)
qed

lemma reserved_lower: "is_reserved (c # cs) \<Longrightarrow> is_ascii_lower c"
  by (auto simp: is_reserved_def reserved_words_def is_ascii_lower_def byte_def)

lemma pascal_not_reserved: "\<not> is_reserved (pascal s)"
proof -
  obtain c cs where "pascal s = c # cs" "is_ascii_upper c \<or> c = CHR ''_''" using pascal_shape by blast
  then show ?thesis using reserved_lower [of c cs] by (auto simp: is_ascii_upper_def is_ascii_lower_def byte_def)
qed

lemma lower_alphabetic: "is_ascii_upper c \<Longrightarrow> is_ascii_alphabetic (to_ascii_lower c)"
  by (auto simp: ascii_defs to_ascii_lower_def)

lemma camel_valid: "is_valid_identifier (camel s)"
proof -
  obtain c cs where "pascal s = c # cs" "is_ascii_upper c \<or> c = CHR ''_''" "list_all is_ascii_alphanumeric cs"
    using pascal_shape by blast
  moreover have "to_ascii_lower (CHR ''_'') = CHR ''_''" by (simp add: to_ascii_lower_def is_ascii_upper_def byte_def)
  ultimately show ?thesis
    using lower_alphabetic [of c] by (auto simp: camel_def is_valid_identifier_def list_all_iff)
qed

lemma builtin_letters: "is_ts_sdk_builtin_type name \<Longrightarrow> name \<noteq> [] \<and> list_all is_ascii_alphabetic name"
  by (auto simp: is_ts_sdk_builtin_type_def ts_sdk_builtin_types_def ascii_defs byte_def)

lemma builtin_valid: "is_ts_sdk_builtin_type name \<Longrightarrow> is_valid_identifier (name @ ''Model'')"
  using builtin_letters [of name]
  by (cases name) (auto simp: is_valid_identifier_def is_ascii_alphanumeric_def list_all_iff, auto simp: ascii_defs byte_def)

lemma builtin_suffix: "is_ts_sdk_builtin_type name \<Longrightarrow> \<not> is_ts_sdk_builtin_type (name @ ''Model'')"
proof
  assume "is_ts_sdk_builtin_type (name @ ''Model'')"
  then have "name @ ''Model'' \<in> set ts_sdk_builtin_types" by (simp add: is_ts_sdk_builtin_type_def)
  moreover have "list_all (\<lambda>n. last n \<noteq> CHR ''l'') ts_sdk_builtin_types" by (simp add: ts_sdk_builtin_types_def)
  ultimately have "last (name @ ''Model'') \<noteq> CHR ''l''" by (auto simp: list_all_iff)
  then show False by simp
qed

section \<open>Properties\<close>

text \<open>What the runtime files of the package export (the \<open>export\<close> lines of crates/specforge-ts/src/runtime.rs).\<close>

definition runtime_exports :: "string list" where
  "runtime_exports =
     [''ApiError'', ''HttpError'', ''NetworkError'', ''TimeoutError'', ''ConfigurationError'', ''isApiError'',
      ''httpError'', ''networkError'', ''timeoutError'', ''configurationError'', ''BearerAuthProvider'',
      ''bearerAuth'', ''ApiKeyAuthProvider'', ''apiKeyAuth'', ''AnonymousAuthProvider'', ''anonymousAuth'',
      ''AuthProvider'', ''applyAuth'', ''RetryOptions'', ''DEFAULT_RETRY_OPTIONS'', ''sleep'', ''backoffDelay'',
      ''isRetriableMethod'', ''CursorPage'', ''cursorPaginator'', ''OffsetPage'', ''offsetPaginator'', ''Semaphore'',
      ''createSemaphore'', ''UNLIMITED'', ''RequestDeduper'', ''isSafeMethod'', ''IDEMPOTENCY_HEADER'',
      ''isIdempotencyCandidate'', ''newIdempotencyKey'', ''MiddlewareRequest'', ''Middleware'',
      ''composeMiddleware'', ''RequestInterceptor'', ''ResponseInterceptor'', ''streamBytes'', ''streamLines'',
      ''ServerSentEvent'', ''streamSse'', ''SchemaField'', ''SchemaObject'', ''SchemaRef'', ''SchemaString'',
      ''SchemaNumber'', ''SchemaBoolean'', ''SchemaEnum'', ''SchemaArray'', ''SchemaType'', ''ValidationError'',
      ''validateValue'', ''validateRequest'', ''validateResponse'', ''EndpointSchema'', ''RouteSchemaMap'',
      ''createValidationMiddleware'', ''CacheEntry'', ''ResponseCache'', ''Logger'', ''ConsoleLogger'',
      ''NoopLogger'', ''RateLimiter'', ''TokenBucket'', ''SlidingWindow'', ''TelemetryHooks'', ''MetricsCollector'',
      ''Metrics'', ''ServiceContainer'', ''createContainer'', ''ResponseTransformer'', ''ApiClientOptions'',
      ''ApiClient'', ''QueryRecord'', ''RequestOptions'', ''encodeQuery'', ''withValidation'']"

definition unguarded_names :: "string list" where
  "unguarded_names =
     [''SchemaField'', ''SchemaObject'', ''SchemaRef'', ''SchemaString'', ''SchemaNumber'', ''SchemaBoolean'', ''SchemaEnum'',
      ''SchemaArray'', ''NoopLogger'', ''UNLIMITED'']"

lemma exports_covered:
  "list_all (\<lambda>x. last x \<noteq> CHR ''l'' \<and>
     (x \<in> set unguarded_names \<or> is_ts_sdk_builtin_type x \<or> is_ascii_lower (hd x) \<or> CHR ''_'' \<in> set (tl x))) runtime_exports"
  by code_simp

lemma unguarded_exports: "list_all (\<lambda>x. x \<in> set runtime_exports \<and> \<not> is_ts_sdk_builtin_type x) unguarded_names"
  by code_simp

lemma declared_in_exports:
  "safe_model_name (pascal s) \<in> set runtime_exports \<longleftrightarrow> pascal s \<in> set unguarded_names"
proof (cases "is_ts_sdk_builtin_type (pascal s)")
  case True
  have "last (pascal s @ ''Model'') = CHR ''l''" by simp
  then have "pascal s @ ''Model'' \<notin> set runtime_exports" using exports_covered unfolding list_all_iff by metis
  with True show ?thesis using unguarded_exports by (auto simp: safe_model_name_def list_all_iff)
next
  case False
  obtain c cs where p: "pascal s = c # cs" "is_ascii_upper c \<or> c = CHR ''_''" "list_all is_ascii_alphanumeric cs"
    using pascal_shape by blast
  have "\<not> is_ascii_lower c" using p(2) by (auto simp: is_ascii_upper_def is_ascii_lower_def byte_def)
  moreover have "CHR ''_'' \<notin> set cs" using p(3) by (auto simp: list_all_iff ascii_defs byte_def)
  ultimately have "\<not> is_ascii_lower (hd (pascal s))" "CHR ''_'' \<notin> set (tl (pascal s))" by (simp_all add: p(1))
  with False show ?thesis
    using exports_covered unguarded_exports unfolding safe_model_name_def list_all_iff by metis
qed

lemma safe_not_reserved: "\<not> is_reserved (safe_model_name (pascal s))"
proof -
  obtain c cs where p: "pascal s = c # cs" "is_ascii_upper c \<or> c = CHR ''_''" using pascal_shape by blast
  then have "\<not> is_ascii_lower c" by (auto simp: is_ascii_upper_def is_ascii_lower_def byte_def)
  then show ?thesis using reserved_lower [of c] by (auto simp: safe_model_name_def p(1))
qed

text \<open>
  C19. For any input text the name of the declared type is a valid TypeScript identifier and no reserved word, and it is the
  name of something the runtime exports exactly for the ten names that the list of runtime types leaves out; applying the
  conversion again changes nothing.
\<close>

theorem emitted_names_valid:
  "is_valid_identifier (safe_model_name (pascal s)) \<and> \<not> is_reserved (safe_model_name (pascal s)) \<and>
   (safe_model_name (pascal s) \<in> set runtime_exports \<longleftrightarrow>
      pascal s \<in> {''SchemaField'', ''SchemaObject'', ''SchemaRef'', ''SchemaString'', ''SchemaNumber'', ''SchemaBoolean'',
        ''SchemaEnum'', ''SchemaArray'', ''NoopLogger'', ''UNLIMITED''}) \<and>
   pascal (pascal s) = pascal s"
  using pascal_valid builtin_valid safe_not_reserved declared_in_exports pascal_idem
  by (auto simp: safe_model_name_def unguarded_names_def)

text \<open>The name of a method or of a factory function is an identifier as well, but it can be a reserved word.\<close>

lemma camel_names: "is_valid_identifier (camel s)" and camel_reserved: "is_reserved (camel ''delete'')" "is_reserved (camel ''Import'')"
  by (rule camel_valid) code_simp+

text \<open>
  A string literal is read back as the text it was made from, and what follows it is left alone,
  whatever quotes and backslashes the text has; a text with a line break yields a literal that cannot be read.
\<close>

theorem string_literal_roundtrip:
  "read_js_string (string_literal s @ rest) = (if single_line s then Some (s, rest) else None)"
  using read_js_chars_escape [of s rest] by (simp add: string_literal_def dquote_def)

end
