(* ===== verification/Type_Meaning.thy ===== *)
theory Type_Meaning
  imports Ir Json
begin

text \<open>
  What the types of the intermediate representation stand for: the JSON values of a type, independently of any language the
  emitters render it in. The emitters' theories compare this with what the rendered type admits in TypeScript, Rust or Go.

  \<open>int_ok\<close> says which values an integer without a width may have (the languages differ in this), \<open>decls\<close> which values the
  schema of a name has. An enum without variants is any string.
\<close>

section \<open>Values of a type\<close>

text \<open>A number written without fraction and exponent, one in the range of 32 bits, and one in the range of 64 bits.\<close>

fun is_integral :: "json \<Rightarrow> bool" where
  "is_integral (JNumber (PosInt w)) = True"
| "is_integral (JNumber (NegInt w)) = True"
| "is_integral _ = False"

fun fits_i32 :: "json \<Rightarrow> bool" where
  "fits_i32 (JNumber (PosInt w)) = (uint w < 2 ^ 31)"
| "fits_i32 (JNumber (NegInt w)) = (- (2 ^ 31) \<le> sint w)"
| "fits_i32 _ = False"

fun scalar_admits :: "(json \<Rightarrow> bool) \<Rightarrow> scalar \<Rightarrow> json \<Rightarrow> bool" where
  "scalar_admits int_ok ScInteger j = int_ok j"
| "scalar_admits int_ok ScInteger64 j = is_i64 j"
| "scalar_admits int_ok ScFloat j = is_number j"
| "scalar_admits int_ok ScBoolean j = is_boolean j"
| "scalar_admits int_ok _ j = is_string j"

fun ir_admits :: "(json \<Rightarrow> bool) \<Rightarrow> (string \<Rightarrow> json set) \<Rightarrow> ir_type \<Rightarrow> json \<Rightarrow> bool" where
  "ir_admits int_ok decls (TScalar s) j = scalar_admits int_ok s j"
| "ir_admits int_ok decls (TStringEnum variants nullable) j =
     (nullable \<and> j = JNull \<or> (\<exists>s. j = JString s \<and> (variants = [] \<or> s \<in> set variants)))"
| "ir_admits int_ok decls (TArray item nullable) j =
     (nullable \<and> j = JNull \<or> (\<exists>vs. j = JArray vs \<and> (\<forall>v \<in> set vs. ir_admits int_ok decls item v)))"
| "ir_admits int_ok decls (TMap val) j =
     (\<exists>kvs. j = JObject kvs \<and> (\<forall>v \<in> snd ` set kvs. ir_admits int_ok decls val v))"
| "ir_admits int_ok decls (TReference name nullable d) j = (nullable \<and> j = JNull \<or> j \<in> decls name)"
| "ir_admits int_ok decls (TComposition kind members d) j =
     (if kind = AllOf then \<forall>m \<in> set members. ir_admits int_ok decls m j
      else \<exists>m \<in> set members. ir_admits int_ok decls m j)"
| "ir_admits int_ok decls TAny j = True"
| "ir_admits int_ok decls TUnknown j = True"

text \<open>A value without a null at any depth.\<close>

fun null_free :: "json \<Rightarrow> bool" where
  "null_free JNull = False"
| "null_free (JArray vs) = list_all null_free vs"
| "null_free (JObject kvs) = list_all (\<lambda>kv. null_free (snd kv)) kvs"
| "null_free _ = True"

section \<open>Laws\<close>

lemma fits_i32_integral: "fits_i32 j \<Longrightarrow> is_i64 j" and is_i64_integral: "is_i64 j \<Longrightarrow> is_integral j"
  and is_integral_number: "is_integral j \<Longrightarrow> is_number j"
  by (cases j rule: fits_i32.cases; simp)+

end
