(* ===== verification/Ts_Types.thy ===== *)
theory Ts_Types
  imports Ts_Names Type_Meaning
begin

text \<open>
  crates/specforge-ts/src/types.rs: IR types as TypeScript type expressions. The reference is a
  grammar of TypeScript types: \<open>reads n s t\<close> says that the text \<open>s\<close> is read as the type \<open>t\<close> at precedence
  level \<open>n\<close> (0 unions, 1 intersections, 2 arrays and atoms). \<open>ts_admits\<close> gives the JSON values of such a type, which are
  compared with those of the IR type.
\<close>

section \<open>Rendering\<close>

fun render_scalar :: "scalar \<Rightarrow> string" where
  "render_scalar ScInteger = ''number''"
| "render_scalar ScFloat = ''number''"
| "render_scalar ScBoolean = ''boolean''"
| "render_scalar ScBinary = ''Uint8Array''"
| "render_scalar _ = ''string''"

fun needs_parens :: "ir_type \<Rightarrow> bool" where
  "needs_parens (TComposition _ _ _) = True"
| "needs_parens _ = False"

fun composition_sep :: "composition_kind \<Rightarrow> string" where
  "composition_sep AllOf = '' & ''"
| "composition_sep _ = '' | ''"

fun render :: "ir_type \<Rightarrow> string" where
  "render (TScalar s) = render_scalar s"
| "render (TStringEnum variants nullable) =
     (let arms = map string_literal variants;
          union = (if arms = [] then ''string'' else join '' | '' arms)
      in if nullable then union @ '' | null'' else union)"
| "render (TArray item _) =
     (if needs_parens item then ''('' @ render item @ '')[]'' else render item @ ''[]'')"
| "render (TMap val) = ''Record<string, '' @ render val @ ''>''"
| "render (TReference name nullable _) = (if nullable then pascal name @ '' | null'' else pascal name)"
| "render (TComposition kind members _) = join (composition_sep kind) (map render members)"
| "render TAny = ''unknown''"
| "render TUnknown = ''unknown''"

section \<open>TypeScript types\<close>

datatype ts_type =
    TsAtom string
  | TsArray ts_type
  | TsRecord ts_type
  | TsInter "ts_type list"
  | TsUnion "ts_type list"

fun union_arms :: "ts_type \<Rightarrow> ts_type list" where
  "union_arms (TsUnion ts) = ts"
| "union_arms t = [t]"

fun inter_arms :: "ts_type \<Rightarrow> ts_type list" where
  "inter_arms (TsInter ts) = ts"
| "inter_arms t = [t]"

definition ts_or :: "ts_type \<Rightarrow> ts_type \<Rightarrow> ts_type" where
  "ts_or t u = TsUnion (union_arms t @ union_arms u)"

definition ts_and :: "ts_type \<Rightarrow> ts_type \<Rightarrow> ts_type" where
  "ts_and t u = TsInter (inter_arms t @ inter_arms u)"

definition ts_atom :: "string \<Rightarrow> bool" where
  "ts_atom a \<longleftrightarrow> is_valid_identifier a \<or> (\<exists>v. single_line v \<and> a = string_literal v)"

inductive reads :: "nat \<Rightarrow> string \<Rightarrow> ts_type \<Rightarrow> bool" where
  reads_atom: "ts_atom a \<Longrightarrow> reads 2 a (TsAtom a)"
| reads_paren: "reads 0 s t \<Longrightarrow> reads 2 (''('' @ s @ '')'') t"
| reads_array: "reads 2 s t \<Longrightarrow> reads 2 (s @ ''[]'') (TsArray t)"
| reads_record: "reads 0 s t \<Longrightarrow> reads 2 (''Record<string, '' @ s @ ''>'') (TsRecord t)"
| reads_lift: "reads (Suc n) s t \<Longrightarrow> reads n s t"
| reads_inter: "reads 1 s t \<Longrightarrow> reads 2 s' t' \<Longrightarrow> reads 1 (s @ '' & '' @ s') (ts_and t t')"
| reads_union: "reads 0 s t \<Longrightarrow> reads 1 s' t' \<Longrightarrow> reads 0 (s @ '' | '' @ s') (ts_or t t')"

text \<open>The types in the documented mapping: the scalars as they are rendered, and \<open>T | null\<close> for every nullable type.\<close>

definition combine :: "(ts_type \<Rightarrow> ts_type \<Rightarrow> ts_type) \<Rightarrow> ts_type list \<Rightarrow> ts_type" where
  "combine f ts = (case ts of [] \<Rightarrow> TsAtom ''never'' | t # us \<Rightarrow> fold (\<lambda>u acc. f acc u) us t)"

definition ts_nullable :: "bool \<Rightarrow> ts_type \<Rightarrow> ts_type" where
  "ts_nullable n t = (if n then ts_or t (TsAtom ''null'') else t)"

fun to_ts :: "ir_type \<Rightarrow> ts_type" where
  "to_ts (TScalar s) = TsAtom (render_scalar s)"
| "to_ts (TStringEnum variants nullable) =
     ts_nullable nullable
       (if variants = [] then TsAtom ''string'' else combine ts_or (map (\<lambda>v. TsAtom (string_literal v)) variants))"
| "to_ts (TArray item nullable) = ts_nullable nullable (TsArray (to_ts item))"
| "to_ts (TMap val) = TsRecord (to_ts val)"
| "to_ts (TReference name nullable _) = ts_nullable nullable (TsAtom (pascal name))"
| "to_ts (TComposition kind members _) = combine (if kind = AllOf then ts_and else ts_or) (map to_ts members)"
| "to_ts TAny = TsAtom ''unknown''"
| "to_ts TUnknown = TsAtom ''unknown''"

text \<open>
  The precedence of the rendering of a type, and the types whose rendering needs no more parentheses and loses no null.
\<close>

fun type_level :: "ir_type \<Rightarrow> nat" where
  "type_level (TStringEnum variants nullable) = (if nullable \<or> 1 < length variants then 0 else 2)"
| "type_level (TReference _ nullable _) = (if nullable then 0 else 2)"
| "type_level (TComposition kind [m] _) = type_level m"
| "type_level (TComposition kind _ _) = (if kind = AllOf then 1 else 0)"
| "type_level _ = 2"

fun render_safe :: "ir_type \<Rightarrow> bool" where
  "render_safe (TStringEnum variants _) = list_all single_line variants"
| "render_safe (TArray item nullable) = (\<not> nullable \<and> render_safe item \<and> (needs_parens item \<or> type_level item = 2))"
| "render_safe (TMap val) = render_safe val"
| "render_safe (TComposition kind members _) =
     (members \<noteq> [] \<and> list_all render_safe members \<and>
      (kind = AllOf \<and> 1 < length members \<longrightarrow> list_all (\<lambda>m. 1 \<le> type_level m) members))"
| "render_safe _ = True"

section \<open>Reading a rendering\<close>

lemma ts_or_assoc: "ts_or (ts_or t u) v = ts_or t (ts_or u v)"
  by (simp add: ts_or_def)

lemma ts_and_assoc: "ts_and (ts_and t u) v = ts_and t (ts_and u v)"
  by (simp add: ts_and_def)

lemma reads_mono: "n \<le> m \<Longrightarrow> reads m s t \<Longrightarrow> reads n s t"
  by (induction rule: inc_induct) (auto intro: reads_lift)

lemma reads_union_join: "reads n s' t' \<Longrightarrow> n = 0 \<Longrightarrow> reads 0 s t \<Longrightarrow> reads 0 (s @ '' | '' @ s') (ts_or t t')"
proof (induction arbitrary: s t rule: reads.induct)
  case (reads_lift n s' t')
  then have "reads 1 s' t'" by simp
  with reads_lift.prems show ?case by (intro reads_union)
next
  case (reads_union a ta b tb)
  have "reads 0 ((s @ '' | '' @ a) @ '' | '' @ b) (ts_or (ts_or t ta) tb)"
    by (rule reads.reads_union [OF reads_union.IH(1) reads_union.hyps(2)]) (use reads_union.prems in auto)
  then show ?case by (simp only: append_assoc ts_or_assoc)
qed simp_all

lemma reads_inter_join: "reads n s' t' \<Longrightarrow> n = 1 \<Longrightarrow> reads 1 s t \<Longrightarrow> reads 1 (s @ '' & '' @ s') (ts_and t t')"
proof (induction arbitrary: s t rule: reads.induct)
  case (reads_lift n s' t')
  then have "reads 2 s' t'" by (simp add: numeral_2_eq_2)
  with reads_lift.prems show ?case by (intro reads_inter)
next
  case (reads_inter a ta b tb)
  have "reads 1 ((s @ '' & '' @ a) @ '' & '' @ b) (ts_and (ts_and t ta) tb)"
    by (rule reads.reads_inter [OF reads_inter.IH(1) reads_inter.hyps(2)]) (use reads_inter.prems in auto)
  then show ?case by (simp only: append_assoc ts_and_assoc)
qed linarith+

lemma join_snoc: "xs \<noteq> [] \<Longrightarrow> join sep (xs @ [x]) = join sep xs @ sep @ x"
  by (induction sep xs rule: join.induct) auto

text \<open>Joining texts that are each read at a level where two texts may be joined.\<close>

lemma reads_join:
  assumes step: "\<And>s t s' t'. reads n s t \<Longrightarrow> reads n s' t' \<Longrightarrow> reads n (s @ sep @ s') (f t t')"
    and all: "list_all2 (reads n) ss ts" "ss \<noteq> []"
  shows "reads n (join sep ss) (combine f ts)"
  using all
proof (induction ss arbitrary: ts rule: rev_induct)
  case (snoc x xs)
  then obtain us u where ts: "ts = us @ [u]" "list_all2 (reads n) xs us" "reads n x u"
    by (auto simp: list_all2_append1 list_all2_Cons1)
  show ?case
  proof (cases "xs = []")
    case True
    with ts show ?thesis by (simp add: combine_def)
  next
    case False
    with ts have us: "us \<noteq> []" by auto
    from snoc.IH [OF ts(2) False] step ts(3)
    have "reads n (join sep xs @ sep @ x) (f (combine f us) u)" by blast
    moreover have "combine f (us @ [u]) = f (combine f us) u"
      using us by (cases us) (auto simp: combine_def)
    ultimately show ?thesis using False ts by (simp add: join_snoc)
  qed
qed simp

lemma reads_unions: "list_all2 (reads 0) ss ts \<Longrightarrow> ss \<noteq> [] \<Longrightarrow> reads 0 (join '' | '' ss) (combine ts_or ts)"
  by (rule reads_join) (rule reads_union_join [OF _ refl], assumption+)

lemma reads_inters: "list_all2 (reads 1) ss ts \<Longrightarrow> ss \<noteq> [] \<Longrightarrow> reads 1 (join '' & '' ss) (combine ts_and ts)"
  by (rule reads_join) (rule reads_inter_join [OF _ refl], assumption+)

lemma atom_names [intro]:
  "ts_atom (render_scalar s)" "ts_atom (pascal name)" "single_line v \<Longrightarrow> ts_atom (string_literal v)"
  "ts_atom ''null''" "ts_atom ''unknown''" "ts_atom ''string''"
  using pascal_valid by (cases s; simp add: ts_atom_def is_valid_identifier_def ascii_defs byte_def; blast)+

lemma reads_nullable:
  "reads 2 s t \<Longrightarrow> reads (if n then 0 else 2) (if n then s @ '' | null'' else s) (ts_nullable n t)"
  using reads_union [of s t "''null''" "TsAtom ''null''"] reads_mono [of 0 2 s t] reads_mono [of 1 2] reads_atom [of "''null''"] atom_names(4)
  by (auto simp: ts_nullable_def)

lemma type_level_le: "type_level t \<le> 2"
  by (induction t rule: type_level.induct) auto

lemma render_reads: "render_safe ty \<Longrightarrow> reads (type_level ty) (render ty) (to_ts ty)"
proof (induction ty rule: render.induct)
  case (2 variants nullable)
  let ?lits = "map string_literal variants"
  have lits: "list_all2 (reads 2) ?lits (map TsAtom ?lits)"
    using 2 by (auto simp: list_all2_conv_all_nth list_all_length intro!: reads_atom)
  show ?case
  proof (cases "length variants \<le> 1")
    case True
    then have "reads 2 (if ?lits = [] then ''string'' else join '' | '' ?lits)
        (if variants = [] then TsAtom ''string'' else combine ts_or (map (\<lambda>v. TsAtom (string_literal v)) variants))"
      using lits by (cases variants) (auto simp: combine_def intro: reads_atom)
    from reads_nullable [OF this, of nullable] True show ?thesis by (simp add: Let_def)
  next
    case False
    then have "reads 0 (join '' | '' ?lits) (combine ts_or (map TsAtom ?lits))"
      using lits by (intro reads_unions) (auto elim!: list_all2_mono intro: reads_mono [of 0 2])
    moreover have "reads 1 ''null'' (TsAtom ''null'')" using reads_mono [of 1 2] reads_atom by auto
    ultimately show ?thesis
      using False reads_union by (auto simp: Let_def ts_nullable_def comp_def)
  qed
next
  case (3 item nullable)
  then have "reads (type_level item) (render item) (to_ts item)" by (cases "needs_parens item") simp_all
  then show ?case
    using 3 reads_array reads_array [OF reads_paren] reads_mono [of 0 "type_level item"] by (auto simp: ts_nullable_def)
next
  case (4 val)
  then show ?case using reads_record reads_mono [of 0 "type_level val"] by simp
next
  case (5 name nullable d)
  show ?case using reads_nullable [of "pascal name" "TsAtom (pascal name)" nullable] reads_atom atom_names by simp
next
  case (6 kind members d)
  have each: "list_all2 (reads n) (map render members) (map to_ts members)" if "list_all (\<lambda>m. n \<le> type_level m) members" for n
    using 6 that by (auto simp: list_all2_conv_all_nth list_all_length intro!: reads_mono [of n "type_level _"])
  show ?case
  proof (cases "length members = 1")
    case True
    then obtain m where "members = [m]" by (auto simp: length_Suc_conv)
    with 6 show ?thesis by (simp add: combine_def)
  next
    case False
    then obtain a b ms where members: "members = a # b # ms"
      using 6(2) by (cases members rule: list.exhaust; cases "tl members") auto
    show ?thesis
    proof (cases "kind = AllOf")
      case True
      with 6 members have "list_all2 (reads 1) (map render members) (map to_ts members)" by (intro each) auto
      then show ?thesis using reads_inters [of "map render members"] members True by simp
    next
      case False
      have "list_all2 (reads 0) (map render members) (map to_ts members)" by (intro each) (simp add: list_all_iff)
      then show ?thesis using reads_unions [of "map render members"] members False by (cases kind) simp_all
    qed
  qed
qed (auto intro: reads_atom)

section \<open>The values of a TypeScript type\<close>

text \<open>\<open>decl\<close> gives the values of the types that are declared, by their names.\<close>

definition ts_atom_admits :: "(string \<Rightarrow> json set) \<Rightarrow> string \<Rightarrow> json \<Rightarrow> bool" where
  "ts_atom_admits decl a j \<longleftrightarrow>
     (if a = ''string'' then is_string j
      else if a = ''number'' then is_number j
      else if a = ''boolean'' then is_boolean j
      else if a = ''null'' then j = JNull
      else if a = ''unknown'' then True
      else if a = ''never'' then False
      else case read_js_string a of Some (v, []) \<Rightarrow> j = JString v | _ \<Rightarrow> j \<in> decl a)"

fun ts_admits :: "(string \<Rightarrow> json set) \<Rightarrow> ts_type \<Rightarrow> json \<Rightarrow> bool" where
  "ts_admits decl (TsAtom a) j = ts_atom_admits decl a j"
| "ts_admits decl (TsArray t) j = (\<exists>vs. j = JArray vs \<and> (\<forall>v \<in> set vs. ts_admits decl t v))"
| "ts_admits decl (TsRecord t) j = (\<exists>kvs. j = JObject kvs \<and> (\<forall>v \<in> snd ` set kvs. ts_admits decl t v))"
| "ts_admits decl (TsInter ts) j = (\<forall>t \<in> set ts. ts_admits decl t j)"
| "ts_admits decl (TsUnion ts) j = (\<exists>t \<in> set ts. ts_admits decl t j)"

text \<open>The names a type refers to mean in TypeScript what they mean in the document, and none hides the type \<open>Record\<close>.\<close>

definition ts_names_mean :: "(string \<Rightarrow> json set) \<Rightarrow> (string \<Rightarrow> json set) \<Rightarrow> ir_type \<Rightarrow> bool" where
  "ts_names_mean decl decls ty \<longleftrightarrow> (\<forall>n \<in> set (type_refs ty). pascal n \<noteq> ''Record'' \<and> decl (pascal n) = decls n)"

text \<open>64-bit integers are rendered as strings and binary data as byte arrays, which JSON does not have.\<close>

fun ts_exact :: "ir_type \<Rightarrow> bool" where
  "ts_exact (TScalar s) \<longleftrightarrow> s \<noteq> ScInteger64 \<and> s \<noteq> ScBinary"
| "ts_exact (TArray item _) \<longleftrightarrow> ts_exact item"
| "ts_exact (TMap val) \<longleftrightarrow> ts_exact val"
| "ts_exact (TComposition _ members _) \<longleftrightarrow> list_all ts_exact members"
| "ts_exact _ \<longleftrightarrow> True"

lemma ts_admits_or: "ts_admits decl (ts_or t u) j \<longleftrightarrow> ts_admits decl t j \<or> ts_admits decl u j"
proof -
  have "(\<exists>x \<in> set (union_arms t). ts_admits decl x j) \<longleftrightarrow> ts_admits decl t j" for t by (cases t) auto
  then show ?thesis by (simp add: ts_or_def bex_Un)
qed

lemma ts_admits_and: "ts_admits decl (ts_and t u) j \<longleftrightarrow> ts_admits decl t j \<and> ts_admits decl u j"
proof -
  have "(\<forall>x \<in> set (inter_arms t). ts_admits decl x j) \<longleftrightarrow> ts_admits decl t j" for t by (cases t) auto
  then show ?thesis by (simp add: ts_and_def ball_Un)
qed

lemma ts_admits_unions: "ts_admits decl (combine ts_or ts) j \<longleftrightarrow> (\<exists>t \<in> set ts. ts_admits decl t j)"
proof (cases ts)
  case (Cons t us)
  have "ts_admits decl (fold (\<lambda>u acc. ts_or acc u) us t) j \<longleftrightarrow> ts_admits decl t j \<or> (\<exists>u \<in> set us. ts_admits decl u j)"
    by (induction us arbitrary: t) (auto simp: ts_admits_or)
  then show ?thesis by (simp add: combine_def Cons)
qed (simp add: combine_def ts_atom_admits_def)

lemma ts_admits_inters: "ts \<noteq> [] \<Longrightarrow> ts_admits decl (combine ts_and ts) j \<longleftrightarrow> (\<forall>t \<in> set ts. ts_admits decl t j)"
proof (cases ts)
  case (Cons t us)
  have "ts_admits decl (fold (\<lambda>u acc. ts_and acc u) us t) j \<longleftrightarrow> ts_admits decl t j \<and> (\<forall>u \<in> set us. ts_admits decl u j)"
    by (induction us arbitrary: t) (auto simp: ts_admits_and)
  then show ?thesis by (simp add: combine_def Cons)
qed simp

lemma ts_admits_nullable: "ts_admits decl (ts_nullable n t) j \<longleftrightarrow> n \<and> j = JNull \<or> ts_admits decl t j"
  by (auto simp: ts_nullable_def ts_admits_or ts_atom_admits_def)

lemma ts_admits_literal: "single_line v \<Longrightarrow> ts_atom_admits decl (string_literal v) j \<longleftrightarrow> j = JString v"
  using read_js_chars_escape [of v "[]"] by (simp add: ts_atom_admits_def string_literal_def dquote_def)

lemma ts_admits_pascal: "ts_atom_admits decl (pascal n) j \<longleftrightarrow> j \<in> decl (pascal n)"
proof -
  obtain c cs where p: "pascal n = c # cs" "is_ascii_upper c \<or> c = CHR ''_''" using pascal_shape by blast
  then have "\<not> is_ascii_lower c" and quote: "c \<noteq> CHR 34" by (auto simp: is_ascii_upper_def is_ascii_lower_def byte_def)
  moreover have "is_ascii_lower (hd x)" if "x \<in> {''string'', ''number'', ''boolean'', ''null'', ''unknown'', ''never''}" for x
    using that by (auto simp: is_ascii_lower_def byte_def)
  ultimately have "pascal n \<notin> {''string'', ''number'', ''boolean'', ''null'', ''unknown'', ''never''}" using p(1) by force
  moreover have "read_js_string (pascal n) = None" using quote by (simp add: p(1))
  ultimately show ?thesis by (simp add: ts_atom_admits_def)
qed

lemma to_ts_meaning:
  "render_safe ty \<Longrightarrow> ts_exact ty \<Longrightarrow> ts_names_mean decl decls ty \<Longrightarrow>
   ts_admits decl (to_ts ty) j \<longleftrightarrow> ir_admits is_number decls ty j"
proof (induction ty arbitrary: j rule: to_ts.induct)
  case (1 s)
  then show ?case by (cases s) (simp_all add: ts_atom_admits_def)
next
  case (2 variants nullable)
  have "ts_admits decl (if variants = [] then TsAtom ''string'' else combine ts_or (map (\<lambda>v. TsAtom (string_literal v)) variants)) j
      \<longleftrightarrow> (\<exists>s. j = JString s \<and> (variants = [] \<or> s \<in> set variants))"
  proof (cases "variants = []")
    case True
    then show ?thesis by (auto simp: ts_atom_admits_def is_string_def)
  next
    case False
    with 2(1) show ?thesis by (auto simp: ts_admits_unions ts_admits_literal list_all_iff)
  qed
  then show ?case by (simp add: ts_admits_nullable)
next
  case (3 item nullable)
  then show ?case by (auto simp: ts_admits_nullable ts_names_mean_def)
next
  case (4 val)
  then show ?case by (auto simp: ts_names_mean_def)
next
  case (5 name nullable d)
  then show ?case by (simp add: ts_admits_nullable ts_admits_pascal ts_names_mean_def)
next
  case (6 kind members d)
  have each: "ts_admits decl (to_ts m) j \<longleftrightarrow> ir_admits is_number decls m j" if "m \<in> set members" for m
    using 6 that by (auto simp: ts_names_mean_def list_all_iff)
  have "members \<noteq> []" using 6(2) by simp
  with each show ?case by (simp add: ts_admits_unions ts_admits_inters)
qed (simp_all add: ts_atom_admits_def)

section \<open>Properties\<close>



text \<open>A nullable array is rendered as the array without null, although null is one of its values.\<close>

lemma nullable_arrays_lose_null:
  "ir_admits int_ok decls (TArray item True) JNull" "render (TArray item True) = render (TArray item False)"
  by simp_all

text \<open>
  An array of nullable references is not parenthesised: its text is read as the reference or an
  array of nulls, and an intersection with a union among its members is read as a union.
\<close>

theorem unparenthesised_types_misread:
  "reads 0 (render (TArray (TReference name True d) n)) (TsUnion [TsAtom (pascal name), TsArray (TsAtom ''null'')]) \<and>
   to_ts (TArray (TReference name True d) False) = TsArray (TsUnion [TsAtom (pascal name), TsAtom ''null'']) \<and>
   reads 0 (render (TComposition AllOf [TComposition OneOf [TReference a False d, TReference b False d] di, TReference c False d] di))
     (TsUnion [TsAtom (pascal a), TsInter [TsAtom (pascal b), TsAtom (pascal c)]])"
proof -
  have atom: "reads 2 (pascal s) (TsAtom (pascal s))" "reads 2 ''null'' (TsAtom ''null'')" for s
    by (auto intro: reads_atom)
  have "reads 0 (pascal name @ '' | '' @ ''null'' @ ''[]'') (ts_or (TsAtom (pascal name)) (TsArray (TsAtom ''null'')))"
    using atom by (intro reads_union reads_mono [of 0 2, OF _ atom(1)] reads_mono [of 1 2, OF _ reads_array]) auto
  moreover have "reads 0 (pascal a @ '' | '' @ pascal b @ '' & '' @ pascal c)
      (ts_or (TsAtom (pascal a)) (ts_and (TsAtom (pascal b)) (TsAtom (pascal c))))"
    using atom by (intro reads_union reads_inter reads_mono [of 0 2, OF _ atom(1)] reads_mono [of 1 2, OF _ atom(1)]) auto
  ultimately show ?thesis by (simp add: ts_or_def ts_and_def ts_nullable_def)
qed

end
