(* ===== verification/Ts_Models.thy ===== *)
theory Ts_Models
  imports Ts_Types Json
begin

text \<open>
  crates/specforge-ts/src/models.rs: one TypeScript file per model, its imports, and the runtime
  guards of union aliases. A guard is built as a value of type \<open>guard\<close>, whose text is what
  \<open>arm_type_check\<close> returns and whose meaning on JSON objects is \<open>guard_holds\<close>.
\<close>

section \<open>References and imports\<close>

fun collect_refs :: "ir_type \<Rightarrow> string set \<Rightarrow> string set" where
  "collect_refs (TReference name _ _) out = insert name out"
| "collect_refs (TArray item _) out = collect_refs item out"
| "collect_refs (TMap val) out = collect_refs val out"
| "collect_refs (TComposition _ members _) out = fold collect_refs members out"
| "collect_refs _ out = out"

interpretation ts_model_refs: ref_collector collect_refs
  by unfold_locales simp_all

definition import_names :: "string set \<Rightarrow> string \<Rightarrow> string list" where
  "import_names refs self_name =
     filter (\<lambda>p. p \<noteq> pascal self_name) (map pascal (sorted_list_of_set refs))"

definition import_line :: "string \<Rightarrow> string" where
  \<open>import_line p = ''import { '' @ p @ '' } from "./'' @ p @ ''";''\<close>

definition build_imports :: "string set \<Rightarrow> string \<Rightarrow> string" where
  "build_imports refs self_name =
     (if refs = {} then [] else join newline (sort (map import_line (import_names refs self_name))))"

section \<open>Guards of unions\<close>

datatype guard =
    DiscEquals string string
  | DiscPresent string "string list"
  | HasFields "string list"

definition required_names :: "object_model \<Rightarrow> string option \<Rightarrow> string list" where
  "required_names obj extra_exclude =
     (let reqs = filter (\<lambda>n. extra_exclude \<noteq> Some n) (map prop_name (filter prop_required (om_properties obj)))
      in if reqs = [] then map prop_name (om_properties obj) else reqs)"

text \<open>The names \<open>required_field_check\<close> tests; an empty list stands for its \<open>None\<close>.\<close>

definition required_field_names :: "string \<Rightarrow> schema_registry \<Rightarrow> string option \<Rightarrow> string list" where
  "required_field_names arm_name registry extra_exclude =
     (case registry_get registry arm_name of
        Some (MObject obj) \<Rightarrow> required_names obj extra_exclude
      | _ \<Rightarrow> [])"

definition required_field_check :: "string list \<Rightarrow> string" where
  "required_field_check names = join '' && '' (map (\<lambda>n. string_literal n @ '' in (value as object)'') names)"

text \<open>The value the discriminator has for an arm, before it is quoted.\<close>

definition own_discriminant :: "string \<Rightarrow> string \<Rightarrow> schema_registry \<Rightarrow> string option" where
  "own_discriminant arm_name prop registry =
     (case registry_get registry arm_name of
        Some (MObject obj) \<Rightarrow>
          (case List.find (\<lambda>p. prop_name p = prop) (om_properties obj) of
             Some p \<Rightarrow>
               (case prop_ty p of
                  TStringEnum [v] _ \<Rightarrow> Some v
                | TReference name _ _ \<Rightarrow>
                    (case registry_get registry name of
                       Some (MEnum e) \<Rightarrow> (case em_variants e of [v] \<Rightarrow> Some (ev_value v) | _ \<Rightarrow> None)
                     | _ \<Rightarrow> None)
                | _ \<Rightarrow> None)
           | None \<Rightarrow> None)
      | _ \<Rightarrow> None)"

definition mapped_discriminant :: "string \<Rightarrow> discriminator option \<Rightarrow> string option" where
  "mapped_discriminant arm_name disc =
     (case Option.bind disc disc_mapping of
        Some mapping \<Rightarrow> map_option fst (List.find (\<lambda>(disc_value, schema_name). schema_name = arm_name) mapping)
      | None \<Rightarrow> None)"

definition discriminant_value :: "string \<Rightarrow> string \<Rightarrow> schema_registry \<Rightarrow> discriminator option \<Rightarrow> string option" where
  "discriminant_value arm_name prop registry disc =
     (case own_discriminant arm_name prop registry of Some v \<Rightarrow> Some v | None \<Rightarrow> mapped_discriminant arm_name disc)"

definition arm_guard :: "string \<Rightarrow> string option \<Rightarrow> schema_registry option \<Rightarrow> discriminator option \<Rightarrow> guard" where
  "arm_guard arm_name disc_prop registry disc =
     (case registry of
        None \<Rightarrow> HasFields []
      | Some reg \<Rightarrow>
          (case disc_prop of
             Some prop \<Rightarrow>
               (case discriminant_value arm_name prop reg disc of
                  Some v \<Rightarrow> DiscEquals prop v
                | None \<Rightarrow> DiscPresent prop (required_field_names arm_name reg (Some prop)))
           | None \<Rightarrow> HasFields (required_field_names arm_name reg None)))"

definition access_text :: "string \<Rightarrow> string" where
  "access_text prop =
     (let key = property_key prop in
      if starts_with key dquote then ''(value as unknown as Record<string, unknown>)['' @ key @ '']''
      else ''(value as unknown as Record<string, unknown>).'' @ key)"

definition object_check :: string where
  \<open>object_check = ''typeof value === "object" && value !== null''\<close>

definition and_fields :: "string list \<Rightarrow> string" where
  "and_fields names = (if names = [] then [] else '' && '' @ required_field_check names)"

fun guard_text :: "guard \<Rightarrow> string" where
  "guard_text (DiscEquals prop v) = object_check @ '' && '' @ access_text prop @ '' === '' @ string_literal v"
| "guard_text (DiscPresent prop names) =
     object_check @ '' && '' @ access_text prop @ '' !== undefined'' @ and_fields names"
| "guard_text (HasFields names) = object_check @ and_fields names"

definition arm_type_check :: "string \<Rightarrow> string option \<Rightarrow> schema_registry option \<Rightarrow> discriminator option \<Rightarrow> string" where
  "arm_type_check arm_name disc_prop registry disc = guard_text (arm_guard arm_name disc_prop registry disc)"

definition union_ref_arms :: "ir_type list \<Rightarrow> string list" where
  "union_ref_arms members = List.map_filter (\<lambda>m. case m of TReference name _ _ \<Rightarrow> Some name | _ \<Rightarrow> None) members"

definition emit_union_guards ::
  "string \<Rightarrow> ir_type list \<Rightarrow> discriminator option \<Rightarrow> schema_registry option \<Rightarrow> string option" where
  "emit_union_guards union_name members disc registry =
     (let arms = union_ref_arms members; disc_prop = map_option disc_property_name disc in
      if arms = [] then None
      else Some (
        ''/** Runtime type guards for the `'' @ union_name @ ''` union. */'' @ newline
        @ concat (map (\<lambda>arm.
            ''export function is'' @ union_name @ pascal arm @ ''(value: '' @ union_name @ ''): value is '' @ pascal arm @ '' {'' @ newline
            @ ''  return '' @ arm_type_check arm disc_prop registry disc @ '';'' @ newline
            @ ''}'' @ newline) arms)
        @ ''/** Return which `'' @ union_name @ ''` arm `value` matches, or `undefined`. */'' @ newline
        @ ''export function narrow'' @ union_name @ ''(value: '' @ union_name @ ''): ''
        @ join '' | '' (map (\<lambda>a. dquote @ pascal a @ dquote) arms) @ '' | undefined {'' @ newline
        @ concat (map (\<lambda>arm.
            ''  if (is'' @ union_name @ pascal arm @ ''(value)) return '' @ dquote @ pascal arm @ dquote @ '';'' @ newline) arms)
        @ ''  return undefined;'' @ newline
        @ ''}'' @ newline))"

section \<open>Model files\<close>

definition file_header :: string where
  "file_header = ''/* eslint-disable */'' @ newline @ ''// This file is generated by specforge. DO NOT EDIT.'' @ newline"

definition format_doc_comment :: "string \<Rightarrow> string \<Rightarrow> string" where
  "format_doc_comment text pad = concat (map (\<lambda>line. pad @ ''/// '' @ line @ newline) (str_lines text))"

definition render_property :: "property \<Rightarrow> string" where
  "render_property p =
     (case prop_description p of Some desc \<Rightarrow> format_doc_comment desc ''  '' | None \<Rightarrow> [])
     @ ''  '' @ property_key (prop_name p) @ (if prop_required p then [] else ''?'') @ '': '' @ render (prop_ty p) @ '';'' @ newline"

definition object_doc :: "object_model \<Rightarrow> string" where
  "object_doc obj =
     (case om_description obj of
        None \<Rightarrow> []
      | Some desc \<Rightarrow>
          ''/**'' @ newline @ '' * '' @ desc @ newline
          @ concat (map (\<lambda>prop.
              case prop_description prop of
                None \<Rightarrow> []
              | Some pd \<Rightarrow> '' * @property '' @ property_key (prop_name prop) @ '' - '' @ pd
                  @ (if prop_required prop then [] else '' (optional)'') @ newline) (om_properties obj))
          @ '' */'' @ newline)"

definition emit_object :: "object_model \<Rightarrow> schema_registry option \<Rightarrow> string \<times> string \<times> string set" where
  "emit_object obj registry =
     (let name = safe_model_name (pascal (om_name obj)) in
      if om_properties obj \<noteq> [] then
        let refs = fold (\<lambda>prop. collect_refs (prop_ty prop)) (om_properties obj) {} in
        (name,
         object_doc obj @ ''export interface '' @ name @ '' {'' @ newline
         @ concat (map render_property (om_properties obj))
         @ (case om_additional_properties obj of
              Some addl \<Rightarrow> ''  [key: string]: '' @ render addl @ '';'' @ newline | None \<Rightarrow> [])
         @ ''}'' @ newline,
         case om_additional_properties obj of Some addl \<Rightarrow> collect_refs addl refs | None \<Rightarrow> refs)
      else case om_shape_type obj of
             Some shape \<Rightarrow>
               (name,
                object_doc obj @ ''export type '' @ name @ '' = '' @ render shape @ '';'' @ newline
                @ (case shape of
                     TComposition kind members disc \<Rightarrow>
                       if kind = OneOf \<or> kind = AnyOf
                       then (case emit_union_guards name members disc registry of
                               Some guards \<Rightarrow> newline @ guards | None \<Rightarrow> [])
                       else []
                   | _ \<Rightarrow> []),
                collect_refs shape {})
           | None \<Rightarrow> (name, object_doc obj @ ''export interface '' @ name @ '' {}'' @ newline, {}))"

definition emit_enum :: "enum_model \<Rightarrow> string \<times> string \<times> string set" where
  "emit_enum e =
     (let name = safe_model_name (pascal (em_name e));
          arms = map (\<lambda>v. string_literal (ev_value v)) (em_variants e)
      in (name,
          (case em_description e of Some desc \<Rightarrow> format_doc_comment desc [] | None \<Rightarrow> [])
          @ ''export type '' @ name @ '' = '' @ join '' | '' arms @ '';'' @ newline
          @ ''export const '' @ name @ ''Values = ['' @ join '', '' arms @ ''] as const;'' @ newline,
          {}))"

fun emit_model :: "model \<Rightarrow> schema_registry option \<Rightarrow> string \<times> string \<times> string set" where
  "emit_model (MObject obj) registry = emit_object obj registry"
| "emit_model (MEnum e) registry = emit_enum e"

definition emit_model_file_with_registry :: "model \<Rightarrow> schema_registry option \<Rightarrow> string" where
  "emit_model_file_with_registry m registry =
     (let (name, body, refs) = emit_model m registry; imports = build_imports refs name in
      file_header @ (if imports \<noteq> [] then newline @ imports @ newline else []) @ newline @ body @ newline)"

definition emit_model_file :: "model \<Rightarrow> string" where
  "emit_model_file m = emit_model_file_with_registry m None"

text \<open>The stem of the file \<open>generate\<close> writes for a model (lib.rs).\<close>

definition model_file_stem :: "model \<Rightarrow> string" where
  "model_file_stem m = safe_model_name (pascal (model_name m))"

section \<open>What guards mean\<close>

text \<open>
  A guard on a JSON object. The \<open>in\<close> operator also sees the names of \<open>Object.prototype\<close>; a schema with a
  required property of such a name is outside this reading.
\<close>

fun guard_holds :: "guard \<Rightarrow> json_object \<Rightarrow> bool" where
  "guard_holds (DiscEquals prop v) kvs \<longleftrightarrow> map_of kvs prop = Some (JString v)"
| "guard_holds (DiscPresent prop names) kvs \<longleftrightarrow> contains_key kvs prop \<and> list_all (contains_key kvs) names"
| "guard_holds (HasFields names) kvs \<longleftrightarrow> list_all (contains_key kvs) names"

text \<open>What \<open>narrow\<close> returns: the first arm whose guard holds.\<close>

definition narrow ::
  "string list \<Rightarrow> discriminator option \<Rightarrow> schema_registry option \<Rightarrow> json_object \<Rightarrow> string option" where
  "narrow arms disc registry kvs =
     List.find (\<lambda>arm. guard_holds (arm_guard arm (map_option disc_property_name disc) registry disc) kvs) arms"

section \<open>References of a model file\<close>

definition emitted_refs :: "model \<Rightarrow> string set" where
  "emitted_refs m =
     (case m of
        MEnum e \<Rightarrow> {}
      | MObject obj \<Rightarrow>
          if om_properties obj \<noteq> []
          then (\<Union>p \<in> set (om_properties obj). set (type_refs (prop_ty p)))
            \<union> (case om_additional_properties obj of Some t \<Rightarrow> set (type_refs t) | None \<Rightarrow> {})
          else (case om_shape_type obj of Some t \<Rightarrow> set (type_refs t) | None \<Rightarrow> {}))"

lemma emit_model_refs: "snd (snd (emit_model m reg)) = emitted_refs m"
  by (cases m) (auto simp: emit_object_def emit_enum_def emitted_refs_def Let_def
    ts_model_refs.collect_eq ts_model_refs.fold_collect_eq split: option.splits)

lemma emit_model_name: "fst (emit_model m reg) = model_file_stem m"
  by (cases m) (auto simp: emit_object_def emit_enum_def model_file_stem_def Let_def split: option.splits)

lemma finite_emitted_refs: "finite (emitted_refs m)"
  by (auto simp: emitted_refs_def split: model.splits option.splits)

lemma set_import_names:
  "finite refs \<Longrightarrow> set (import_names refs self) = pascal ` refs - {pascal self}"
  by (auto simp: import_names_def)

lemma safe_model_name_not_builtin: "\<not> is_ts_sdk_builtin_type (safe_model_name n)"
  by (simp add: safe_model_name_def builtin_suffix)

section \<open>Properties\<close>

text \<open>
  C11. The imports of a model file are those of the schemas the file mentions, itself apart, and each of
  them names a model file the emitter writes exactly when the name is not one of the names of the runtime: a
  schema with such a name is written under another name and every import of it dangles.
\<close>

theorem ts_imports_resolve:
  assumes "(n, m) \<in> set registry" and "\<forall>(k, m') \<in> set registry. model_name m' = k"
    and "\<forall>r \<in> emitted_refs m. r \<in> fst ` set registry"
    and "p \<in> set (import_names (snd (snd (emit_model m (Some registry)))) (fst (emit_model m (Some registry))))"
  shows "p \<in> pascal ` emitted_refs m \<and>
    (p \<in> model_file_stem ` snd ` set registry \<longleftrightarrow> \<not> is_ts_sdk_builtin_type p)"
proof -
  obtain r where r: "r \<in> emitted_refs m" "p = pascal r"
    using assms(4) by (auto simp: emit_model_refs set_import_names finite_emitted_refs)
  then obtain m' where m': "(r, m') \<in> set registry" "model_name m' = r" using assms(2,3) by fastforce
  then have "safe_model_name p \<in> model_file_stem ` snd ` set registry"
    using r(2) by (force simp: model_file_stem_def)
  moreover have "\<not> is_ts_sdk_builtin_type q" if "q \<in> model_file_stem ` snd ` set registry" for q
    using that by (auto simp: model_file_stem_def safe_model_name_not_builtin)
  ultimately show ?thesis using r by (auto simp: safe_model_name_def split: if_splits)
qed

theorem ts_imports_resolve_witness:
  "\<exists>m registry. m \<in> snd ` set registry \<and> ''Logger'' \<in> fst ` set registry \<and>
     ''Logger'' \<in> set (import_names (snd (snd (emit_model m (Some registry)))) (fst (emit_model m (Some registry)))) \<and>
     ''Logger'' \<notin> model_file_stem ` snd ` set registry"
proof -
  let ?p = "\<lparr>prop_name = ''log'', prop_ty = TReference ''Logger'' False None, prop_required = True, prop_description = None\<rparr>"
  let ?obj = "\<lambda>n ps. MObject \<lparr>om_name = n, om_description = None, om_properties = ps, om_additional_properties = None,
    om_shape_type = None, om_base_type = None\<rparr>"
  let ?reg = "[(''Pet'', ?obj ''Pet'' [?p]), (''Logger'', ?obj ''Logger'' [])]"
  let ?m = "?obj ''Pet'' [?p]"
  have pascal: "pascal ''Logger'' = ''Logger''" "pascal ''Pet'' = ''Pet''" by code_simp+
  have "model_file_stem ?m = ''Pet''"
    by (simp add: model_file_stem_def pascal safe_model_name_def is_ts_sdk_builtin_type_def ts_sdk_builtin_types_def)
  then have imp: "''Logger'' \<in> set (import_names (snd (snd (emit_model ?m (Some ?reg)))) (fst (emit_model ?m (Some ?reg))))"
    unfolding emit_model_refs emit_model_name set_import_names [OF finite_emitted_refs]
    by (simp add: emitted_refs_def pascal)
  have "\<not> ''Logger'' \<in> model_file_stem ` snd ` set ?reg"
    using ts_imports_resolve [of "''Pet''" ?m ?reg "''Logger''", OF _ _ _ imp]
    by (simp add: emitted_refs_def is_ts_sdk_builtin_type_def ts_sdk_builtin_types_def)
  with imp show ?thesis by (intro exI [of _ ?m] exI [of _ ?reg]) simp
qed

text \<open>
  When every reference arm of a union has a discriminator value of its own and these values
  differ, exactly the arm with the value of the object's discriminator is returned by the narrowing function,
  and none when no arm has that value.
\<close>

theorem narrow_by_discriminator:
  assumes "map_of kvs (disc_property_name d) = Some (JString v)"
    and "\<forall>arm \<in> set (union_ref_arms members). discriminant_value arm (disc_property_name d) registry (Some d) = Some (val arm)"
    and "inj_on val (set (union_ref_arms members))"
  shows "narrow (union_ref_arms members) (Some d) (Some registry) kvs = Some arm \<longleftrightarrow>
    arm \<in> set (union_ref_arms members) \<and> val arm = v"
proof -
  let ?arms = "union_ref_arms members"
  have holds: "guard_holds (arm_guard a (Some (disc_property_name d)) (Some registry) (Some d)) kvs \<longleftrightarrow> val a = v"
    if "a \<in> set ?arms" for a
    using assms(1,2) that by (auto simp: arm_guard_def)
  have "List.find (\<lambda>a. val a = v) xs = Some arm \<longleftrightarrow> arm \<in> set xs \<and> val arm = v"
    if "inj_on val (set xs)" for xs
    using that by (induction xs) (auto simp: inj_on_def)
  moreover have "narrow ?arms (Some d) (Some registry) kvs = List.find (\<lambda>a. val a = v) ?arms"
    unfolding narrow_def using holds by (intro find_cong) auto
  ultimately show ?thesis using assms(3) by simp
qed

theorem narrow_by_discriminator_witness:
  "narrow [''Cat'', ''Dog''] (Some \<lparr>disc_property_name = ''kind'', disc_mapping = Some [(''c'', ''Cat''), (''d'', ''Dog'')]\<rparr>) (Some [])
     [(''kind'', JString ''d'')] = Some ''Dog''"
proof -
  let ?d = "\<lparr>disc_property_name = ''kind'', disc_mapping = Some [(''c'', ''Cat''), (''d'', ''Dog'')]\<rparr>"
  let ?members = "[TReference ''Cat'' False None, TReference ''Dog'' False None]"
  let ?val = "\<lambda>arm. if arm = ''Cat'' then ''c'' else ''d''"
  have arms: "union_ref_arms ?members = [''Cat'', ''Dog'']" by (simp add: union_ref_arms_def map_filter_simps)
  have "discriminant_value ''Cat'' ''kind'' [] (Some ?d) = Some ''c''" "discriminant_value ''Dog'' ''kind'' [] (Some ?d) = Some ''d''"
    by (simp_all add: discriminant_value_def own_discriminant_def mapped_discriminant_def registry_get_def)
  then show ?thesis
    using narrow_by_discriminator [of "[(''kind'', JString ''d'')]" ?d "''d''" ?members "[]" ?val "''Dog''"]
    by (simp add: arms inj_on_def)
qed

end
