(* ===== verification/Ts_Validate.thy ===== *)
theory Ts_Validate
  imports Ts_Models Validate
begin

text \<open>
  The validate module of the TypeScript SDK (\<open>validate_source\<close>, \<open>ts_schema_type\<close> and
  \<open>escape_ts_string\<close> of crates/specforge-ts/src/runtime.rs): the schema descriptors and validator functions emitted
  per model, and the meaning of the emitted functions \<open>validateValue\<close>, \<open>validateRequest\<close> and \<open>validateResponse\<close>
  on JSON values. A descriptor is built as a value of type \<open>schema_type\<close> whose text is emitted. The entries
  of \<open>fields\<close> are visited in the order of an object literal, for keys that are not array indices.
\<close>

section \<open>Descriptors\<close>

datatype schema_type =
    SString
  | SNumber
  | SBoolean
  | SEnum "string list"
  | SArray schema_type
  | SRef string

fun scalar_schema :: "scalar \<Rightarrow> schema_type" where
  "scalar_schema ScInteger = SNumber"
| "scalar_schema ScFloat = SNumber"
| "scalar_schema ScBoolean = SBoolean"
| "scalar_schema _ = SString"

definition first_reference :: "ir_type list \<Rightarrow> string option" where
  "first_reference members = (case union_ref_arms members of n # _ \<Rightarrow> Some n | [] \<Rightarrow> None)"

fun ts_schema :: "ir_type \<Rightarrow> schema_type" where
  "ts_schema (TScalar s) = scalar_schema s"
| "ts_schema (TStringEnum variants _) = SEnum variants"
| "ts_schema (TArray item _) = SArray (ts_schema item)"
| "ts_schema (TMap _) = SString"
| "ts_schema (TReference name _ _) = SRef (pascal name)"
| "ts_schema (TComposition kind members _) =
     (if kind = AllOf then (case members of m # _ \<Rightarrow> ts_schema m | [] \<Rightarrow> SString)
      else (case first_reference members of Some name \<Rightarrow> SRef (pascal name) | None \<Rightarrow> SString))"
| "ts_schema TAny = SString"
| "ts_schema TUnknown = SString"

fun schema_text :: "schema_type \<Rightarrow> string" where
  \<open>schema_text SString = ''{ kind: "string" }''\<close>
| \<open>schema_text SNumber = ''{ kind: "number" }''\<close>
| \<open>schema_text SBoolean = ''{ kind: "boolean" }''\<close>
| \<open>schema_text (SEnum values) = ''{ kind: "enum", values: ['' @ join '', '' (map string_literal values) @ ''] }''\<close>
| \<open>schema_text (SArray items) = ''{ kind: "array", items: '' @ schema_text items @ '' }''\<close>
| \<open>schema_text (SRef name) = ''{ kind: "ref", name: '' @ string_literal name @ '' }''\<close>

definition ts_schema_type :: "ir_type \<Rightarrow> string" where
  "ts_schema_type ty = schema_text (ts_schema ty)"

section \<open>Emitted validators\<close>

definition field_line :: "property \<Rightarrow> string" where
  "field_line prop =
     ''    '' @ string_literal (prop_name prop) @ '': { type: '' @ ts_schema_type (prop_ty prop) @ '', required: ''
     @ (if prop_required prop then ''true'' else ''false'') @ '' },'' @ newline"

definition validator_function :: "string \<Rightarrow> string \<Rightarrow> string" where
  \<open>validator_function name call =
     ''export function validate'' @ name @ ''(value: unknown, path = ""): ValidationError[] {'' @ newline
     @ ''  const errors: ValidationError[] = [];'' @ newline
     @ ''  '' @ call @ newline
     @ ''  return errors;'' @ newline
     @ ''}'' @ newline @ newline\<close>

fun model_validator :: "model \<Rightarrow> string" where
  \<open>model_validator (MObject obj) =
     (let name = pascal (om_name obj) in
      ''export const '' @ name @ ''Schema: SchemaObject = {'' @ newline
      @ ''  kind: "object",'' @ newline
      @ ''  fields: {'' @ newline
      @ concat (map field_line (om_properties obj))
      @ ''  },'' @ newline
      @ ''};'' @ newline @ newline
      @ validator_function name (''validateValue(value, '' @ name @ ''Schema, path, errors);''))\<close>
| \<open>model_validator (MEnum e) =
     (let name = pascal (em_name e) in
      ''const '' @ name @ ''Values: readonly string[] = [''
      @ join '', '' (map (\<lambda>v. string_literal (ev_value v)) (em_variants e)) @ ''] as const;'' @ newline @ newline
      @ validator_function name (''validateEnum(value, '' @ name @ ''Values, path, errors);''))\<close>

text \<open>\<open>validate_source\<close> between its fixed head and the fixed validation runtime.\<close>

definition model_validators :: "document \<Rightarrow> string" where
  "model_validators doc = concat (map (\<lambda>nm. model_validator (snd nm)) (doc_schemas doc))"

text \<open>The names the module exports for a model, and for all of them.\<close>

fun validate_exports :: "model \<Rightarrow> string list" where
  "validate_exports (MObject obj) = [pascal (om_name obj) @ ''Schema'', ''validate'' @ pascal (om_name obj)]"
| "validate_exports (MEnum e) = [''validate'' @ pascal (em_name e)]"

section \<open>The emitted validation runtime\<close>

type_synonym ts_error = "string \<times> string"

fun js_typeof :: "json \<Rightarrow> string" where
  "js_typeof (JBool _) = ''boolean''"
| "js_typeof (JNumber _) = ''number''"
| "js_typeof (JString _) = ''string''"
| "js_typeof _ = ''object''"

definition expected :: "string \<Rightarrow> json \<Rightarrow> string \<Rightarrow> ts_error list" where
  "expected what v path = [(path, ''expected '' @ what @ '', got '' @ js_typeof v)]"

definition validateEnum :: "json \<Rightarrow> string list \<Rightarrow> string \<Rightarrow> ts_error list" where
  "validateEnum v values path =
     (case v of
        JString s \<Rightarrow>
          if s \<in> set values then []
          else [(path, ''expected one of ['' @ join '', '' values @ ''], got '' @ dquote @ s @ dquote)]
      | _ \<Rightarrow> expected ''string'' v path)"

text \<open>\<open>validateValue\<close> for the kinds that can be nested in a descriptor.\<close>

function (sequential) validateValue :: "json \<Rightarrow> schema_type \<Rightarrow> string \<Rightarrow> ts_error list" where
  "validateValue JNull schema path = []"
| "validateValue v SString path = (if is_string v then [] else expected ''string'' v path)"
| "validateValue v SNumber path = (if is_number v then [] else expected ''number'' v path)"
| "validateValue v SBoolean path = (if is_boolean v then [] else expected ''boolean'' v path)"
| "validateValue v (SEnum values) path = validateEnum v values path"
| "validateValue v (SArray items) path =
     (case v of
        JArray vs \<Rightarrow>
          concat (map (\<lambda>i. validateValue (vs ! i) items (path @ ''['' @ show_nat i @ '']'')) [0..<length vs])
      | _ \<Rightarrow> expected ''array'' v path)"
| "validateValue v (SRef name) path = []"
  by pat_completeness auto
termination
  by (relation "measure (\<lambda>(v, s, p). size s)") auto

text \<open>
  The fields of an emitted descriptor, an object literal: a later property of the same name replaces an earlier one, and the
  name \<open>__proto__\<close> sets the prototype of the literal instead of a field.
\<close>

definition schema_fields :: "object_model \<Rightarrow> (string \<times> schema_type \<times> bool) list" where
  "schema_fields obj =
     im_insert_all (map (\<lambda>p. (prop_name p, ts_schema (prop_ty p), prop_required p))
       (filter (\<lambda>p. prop_name p \<noteq> ''__proto__'') (om_properties obj))) []"

text \<open>
  \<open>obj[key]\<close> finds the own properties of an object and, for the names of the methods every object has, a function that it
  inherits.
\<close>

definition object_methods :: "string set" where
  "object_methods =
     {''constructor'', ''hasOwnProperty'', ''isPrototypeOf'', ''propertyIsEnumerable'', ''toLocaleString'', ''toString'', ''valueOf'',
      ''__defineGetter__'', ''__defineSetter__'', ''__lookupGetter__'', ''__lookupSetter__''}"

datatype js_field = OwnField json | InheritedMethod | NoField

definition js_index :: "json_object \<Rightarrow> string \<Rightarrow> js_field" where
  "js_index kvs key =
     (case map_of kvs key of
        Some v \<Rightarrow> OwnField v
      | None \<Rightarrow> if key \<in> object_methods then InheritedMethod else NoField)"

text \<open>\<open>validateValue\<close> for a function.\<close>

fun method_errors :: "schema_type \<Rightarrow> string \<Rightarrow> ts_error list" where
  "method_errors SString path = [(path, ''expected string, got function'')]"
| "method_errors SNumber path = [(path, ''expected number, got function'')]"
| "method_errors SBoolean path = [(path, ''expected boolean, got function'')]"
| "method_errors (SEnum values) path = [(path, ''expected string, got function'')]"
| "method_errors (SArray items) path = [(path, ''expected array, got function'')]"
| "method_errors (SRef name) path = []"

definition validateObject :: "json \<Rightarrow> (string \<times> schema_type \<times> bool) list \<Rightarrow> string \<Rightarrow> ts_error list" where
  "validateObject v field_list path =
     (case v of
        JObject kvs \<Rightarrow>
          concat (map (\<lambda>(key, ty, req).
            let fieldPath = (if path \<noteq> [] then path @ ''.'' @ key else key) in
            case js_index kvs key of
              NoField \<Rightarrow> if req then [(fieldPath, ''missing required field'')] else []
            | OwnField field \<Rightarrow> validateValue field ty fieldPath
            | InheritedMethod \<Rightarrow> method_errors ty fieldPath) field_list)
      | JNull \<Rightarrow> [(path, ''expected object, got null'')]
      | _ \<Rightarrow> [(path, ''expected object, got '' @ js_typeof v)])"

text \<open>The errors \<open>validateRequest\<close> and \<open>validateResponse\<close> throw for a body and an object descriptor.\<close>

definition body_errors :: "json \<Rightarrow> object_model \<Rightarrow> ts_error list" where
  "body_errors body obj = (if body = JNull then [] else validateObject body (schema_fields obj) ''body'')"

section \<open>Agreement with the runtime validator\<close>

text \<open>Types whose descriptor accepts every value of the type.\<close>

fun descriptor_exact :: "ir_type \<Rightarrow> bool" where
  "descriptor_exact (TScalar s) \<longleftrightarrow> s \<noteq> ScInteger64"
| "descriptor_exact (TStringEnum _ _) \<longleftrightarrow> True"
| "descriptor_exact (TArray item _) \<longleftrightarrow> descriptor_exact item"
| "descriptor_exact (TReference _ _ _) \<longleftrightarrow> True"
| "descriptor_exact (TComposition kind members _) \<longleftrightarrow>
     (if kind = AllOf then (case members of m # _ \<Rightarrow> descriptor_exact m | [] \<Rightarrow> False)
      else first_reference members \<noteq> None)"
| "descriptor_exact _ \<longleftrightarrow> False"

lemma scalar_descriptor:
  "scalar_conforms v s \<Longrightarrow> s \<noteq> ScInteger64 \<Longrightarrow> validateValue v (scalar_schema s) path = []"
  by (cases s; cases v) (auto simp: is_string_def is_boolean_def)

lemma validateValue_ref [simp]: "validateValue v (SRef name) path = []"
  by (cases v) auto

lemma validateValue_null [simp]: "validateValue JNull s path = []"
  by (cases s) auto

lemma descriptor_accepts: "descriptor_exact ty \<Longrightarrow> conforms reg v ty \<Longrightarrow> validateValue v (ts_schema ty) path = []"
proof (induction ty arbitrary: v path rule: descriptor_exact.induct)
  case (1 s)
  then show ?case by (auto elim!: conforms_scalarE simp: scalar_descriptor)
next
  case (2 vs n)
  then show ?case by (auto elim!: conforms_enumE simp: validateEnum_def)
next
  case (3 item n)
  from 3(3) show ?case by (rule conforms_arrayE) (use 3 in auto)
next
  case (5 kind members d)
  then show ?case by (cases members) (auto elim!: conforms_compE split: if_splits)
qed auto

lemma schema_fields_mem:
  assumes "(k, ty, req) \<in> set (schema_fields obj)"
  shows "\<exists>p \<in> set (om_properties obj). k = prop_name p \<and> ty = ts_schema (prop_ty p) \<and> req = prop_required p"
proof -
  have "set (im_insert_all kvs m) \<subseteq> set kvs \<union> set m" for kvs m :: "('a \<times> 'b) list"
    unfolding im_insert_all_def
  proof (induction kvs arbitrary: m)
    case (Cons kv kvs)
    then show ?case using set_im_insert [of "fst kv" "snd kv" m] by (cases kv) force
  qed simp
  from this [of _ "[]"] assms show ?thesis unfolding schema_fields_def by fastforce
qed

section \<open>Properties\<close>



text \<open>
  An optional property called constructor or toString is rejected when it is missing, as the lookup finds the method of
  this name; a required one is not reported as missing but as a function. A property called \<open>__proto__\<close> is not looked at.
\<close>

lemma ts_validator_sees_methods:
  assumes "k \<in> object_methods" and "om_properties obj = [\<lparr>prop_name = k, prop_ty = TScalar ScString, prop_required = r, prop_description = None\<rparr>]"
  shows "body_errors (JObject []) obj = [(''body.'' @ k, ''expected string, got function'')]"
proof -
  have "k \<noteq> ''__proto__''" using assms(1) by (auto simp: object_methods_def)
  then show ?thesis using assms
    by (simp add: body_errors_def validateObject_def schema_fields_def im_insert_all_def js_index_def)
qed

lemma ts_validator_skips_proto:
  "om_properties obj = [\<lparr>prop_name = ''__proto__'', prop_ty = t, prop_required = r, prop_description = None\<rparr>] \<Longrightarrow>
   body_errors (JObject kvs) obj = []"
  by (simp add: body_errors_def validateObject_def schema_fields_def im_insert_all_def)

text \<open>
  Values that conform to their type are rejected by the emitted validator: objects of a map,
  free-form values that are not strings, 64-bit integers sent as numbers; and an array is rejected by
  the descriptor of every object model.
\<close>

theorem ts_validator_rejects_conforming:
  "(conforms reg (JObject []) (TMap t) \<and> validateValue (JObject []) (ts_schema (TMap t)) path \<noteq> []) \<and>
   (conforms reg (JBool b) TAny \<and> validateValue (JBool b) (ts_schema TAny) path \<noteq> []) \<and>
   (conforms reg (JNumber (PosInt w)) (TScalar ScInteger64) \<and>
     validateValue (JNumber (PosInt w)) (ts_schema (TScalar ScInteger64)) path \<noteq> []) \<and>
   body_errors (JArray vs) obj = [(''body'', ''expected object, got object'')]"
proof -
  have "conforms reg (JObject []) (TMap t)" by (rule conforms.map_object) simp
  moreover have "conforms reg (JNumber (PosInt w)) (TScalar ScInteger64)" by (rule conforms.scalar) simp
  ultimately show ?thesis
    by (simp add: expected_def is_string_def body_errors_def validateObject_def conforms.any)
qed

end
