(* ===== verification/Ts_Operations.thy ===== *)
theory Ts_Operations
  imports Ts_Validate Verify
begin

text \<open>
  crates/specforge-ts/src/operations.rs: the API classes, one file per tag and one method per
  operation. \<open>TypeRefs\<close> is the set of the schema names the types of a file mention.
\<close>

section \<open>Helpers\<close>

fun validator_name :: "ir_type \<Rightarrow> string option" where
  "validator_name (TReference name _ _) = Some (''validate'' @ pascal name)"
| "validator_name (TArray item _) = validator_name item"
| "validator_name (TMap val) = validator_name val"
| "validator_name _ = None"

fun schema_name :: "ir_type \<Rightarrow> string option" where
  "schema_name (TReference name _ _) = Some (pascal name @ ''Schema'')"
| "schema_name (TArray item _) = schema_name item"
| "schema_name (TMap val) = schema_name val"
| "schema_name _ = None"

definition success_responses :: "operation \<Rightarrow> response list" where
  "success_responses op = filter (\<lambda>r. starts_with (resp_status r) ''2'') (op_responses op)"

definition success_body :: "operation \<Rightarrow> ir_type option" where
  "success_body op = (case sort_key resp_status (success_responses op) of r # _ \<Rightarrow> resp_body r | [] \<Rightarrow> None)"

text \<open>\<open>Iterator::min_by_key\<close>: the first of the least elements.\<close>

fun min_by_status :: "response list \<Rightarrow> response option" where
  "min_by_status [] = None"
| "min_by_status (r # rs) =
     (case min_by_status rs of Some s \<Rightarrow> if resp_status s < resp_status r then Some s else Some r | None \<Rightarrow> Some r)"

definition success_desc :: "operation \<Rightarrow> string option" where
  "success_desc op = Option.bind (min_by_status (success_responses op)) resp_description"

fun add_type_refs :: "ir_type \<Rightarrow> string set \<Rightarrow> string set" where
  "add_type_refs (TReference name _ _) names = insert name names"
| "add_type_refs (TArray item _) names = add_type_refs item names"
| "add_type_refs (TMap val) names = add_type_refs val names"
| "add_type_refs (TComposition _ members _) names = fold add_type_refs members names"
| "add_type_refs _ names = names"

interpretation ts_operation_refs: ref_collector add_type_refs
  by unfold_locales simp_all

section \<open>Methods\<close>

definition params_at :: "param_location \<Rightarrow> operation \<Rightarrow> parameter list" where
  "params_at loc op = filter (\<lambda>p. par_location p = loc) (op_parameters op)"

definition has_params :: "operation \<Rightarrow> bool" where
  "has_params op \<longleftrightarrow> params_at InPath op \<noteq> [] \<or> params_at InQuery op \<noteq> [] \<or> params_at InHeader op \<noteq> [] \<or> op_request_body op \<noteq> None"

definition optional_mark :: "bool \<Rightarrow> string" where
  "optional_mark required = (if required then [] else ''?'')"

definition params_interface :: "operation \<Rightarrow> string option" where
  "params_interface op =
     (if has_params op
      then Some (''export interface '' @ pascal (op_operation_id op) @ ''Params {'' @ newline
        @ concat (map (\<lambda>p. ''  '' @ property_key (par_name p) @ optional_mark (par_required p) @ '': '' @ render (par_ty p) @ '';'' @ newline)
            (params_at InPath op @ params_at InQuery op @ params_at InHeader op))
        @ (case op_request_body op of
             Some body \<Rightarrow> ''  body'' @ optional_mark (rb_required body) @ '': '' @ render (rb_ty body) @ '';'' @ newline
           | None \<Rightarrow> [])
        @ ''}'' @ newline)
      else None)"

text \<open>The names the method adds to the imports of its file: parameters, request body, success body.\<close>

definition method_refs :: "operation \<Rightarrow> string set \<Rightarrow> string set" where
  "method_refs op refs =
     (let refs = fold (\<lambda>p. add_type_refs (par_ty p)) (params_at InPath op @ params_at InQuery op @ params_at InHeader op) refs;
          refs = (case op_request_body op of Some body \<Rightarrow> add_type_refs (rb_ty body) refs | None \<Rightarrow> refs)
      in case success_body op of Some t \<Rightarrow> add_type_refs t refs | None \<Rightarrow> refs)"

definition path_value :: "string \<Rightarrow> string" where
  "path_value name = ''${'' @ member_access ''params'' name @ ''}''"

definition path_subst :: "operation \<Rightarrow> string" where
  "path_subst op = fold (\<lambda>p path. replace_sub (''{'' @ par_name p @ ''}'') (path_value (par_name p)) path) (params_at InPath op) (op_path op)"

definition option_entries :: "parameter list \<Rightarrow> string" where
  "option_entries ps = join '', '' (map (\<lambda>p. dquote @ par_name p @ dquote @ '': '' @ member_access ''params'' (par_name p)) ps)"

definition retry_fields :: "retry_policy \<Rightarrow> string" where
  "retry_fields retry =
     (case (rp_max_retries retry, rp_retryable retry) of
        (Some n, False) \<Rightarrow> ''{ maxRetries: '' @ show_nat (unat n) @ '', retryable: false }''
      | (Some n, True) \<Rightarrow> ''{ maxRetries: '' @ show_nat (unat n) @ '' }''
      | (None, False) \<Rightarrow> ''{{ retryable: false }}''
      | (None, True) \<Rightarrow> [])"

definition opts_parts :: "operation \<Rightarrow> string list" where
  "opts_parts op =
     (if params_at InHeader op \<noteq> [] then [''headers: { '' @ option_entries (params_at InHeader op) @ '' }''] else [])
     @ (if params_at InQuery op \<noteq> [] then [''query: { '' @ option_entries (params_at InQuery op) @ '' }''] else [])
     @ (if op_request_body op \<noteq> None then [''body: params.body''] else [])
     @ (case op_retry_policy op of
          Some retry \<Rightarrow> if retry_fields retry \<noteq> [] then [''retry: '' @ retry_fields retry] else []
        | None \<Rightarrow> [])"

definition opts_literal :: "operation \<Rightarrow> string" where
  "opts_literal op = (if opts_parts op = [] then [] else '', { '' @ join '', '' (opts_parts op) @ '' }'')"

definition opt_list :: "'a option \<Rightarrow> 'a list" where
  "opt_list x = (case x of Some y \<Rightarrow> [y] | None \<Rightarrow> [])"

definition request_type :: "operation \<Rightarrow> ir_type option" where
  "request_type op = map_option rb_ty (op_request_body op)"

definition used_validators :: "operation \<Rightarrow> string list" where
  "used_validators op =
     opt_list (Option.bind (request_type op) validator_name)
     @ opt_list (Option.bind (success_body op) validator_name)
     @ opt_list (Option.bind (request_type op) schema_name)
     @ opt_list (Option.bind (success_body op) schema_name)
     @ (if Option.bind (request_type op) schema_name \<noteq> None then [''validateRequest''] else [])
     @ (if Option.bind (success_body op) schema_name \<noteq> None then [''validateResponse''] else [])"

definition request_check :: "operation \<Rightarrow> string" where
  "request_check op =
     (case Option.bind (request_type op) schema_name of
        Some s \<Rightarrow>
          ''    if (this.client.validate) { validateRequest('' @ dquote @ method_upper (op_method op) @ dquote @ '', `''
          @ path_subst op @ ''`, params.body, '' @ s @ ''); }'' @ newline
      | None \<Rightarrow> [])"

definition client_call :: "operation \<Rightarrow> string" where
  "client_call op = ''('' @ dquote @ method_upper (op_method op) @ dquote @ '', `'' @ path_subst op @ ''`'' @ opts_literal op @ '');''"

definition call_text :: "operation \<Rightarrow> string" where
  "call_text op =
     request_check op
     @ (case success_body op of
          None \<Rightarrow> ''    await this.client.request'' @ client_call op
        | Some ty \<Rightarrow>
            (case schema_name ty of
               Some s \<Rightarrow>
                 ''    const result = await this.client.requestJson<'' @ render ty @ ''>'' @ client_call op @ newline
                 @ ''    if (this.client.validate) { validateResponse('' @ dquote @ method_upper (op_method op) @ dquote @ '', `''
                 @ path_subst op @ ''`, 200, result, '' @ s @ ''); }'' @ newline
                 @ ''    return result;''
             | None \<Rightarrow> ''    return await this.client.requestJson<'' @ render ty @ ''>'' @ client_call op))"

definition optional_suffix :: "bool \<Rightarrow> string" where
  "optional_suffix required = (if required then [] else '' (optional)'')"

definition dash_desc :: "string option \<Rightarrow> string" where
  "dash_desc desc = (case desc of Some d \<Rightarrow> '' - '' @ d | None \<Rightarrow> [])"

definition method_doc :: "operation \<Rightarrow> string" where
  "method_doc op =
     ''/**'' @ newline
     @ (case op_summary op of
          Some s \<Rightarrow> '' * '' @ s @ newline
        | None \<Rightarrow> '' * '' @ method_upper (op_method op) @ '' '' @ op_path op @ newline)
     @ (case op_description op of
          Some d \<Rightarrow> concat (map (\<lambda>line. '' * '' @ line @ newline) (str_lines d))
        | None \<Rightarrow> [])
     @ concat (map (\<lambda>p. '' * @param '' @ member_access ''params'' (par_name p) @ dash_desc (par_description p)
          @ optional_suffix (par_required p) @ newline) (op_parameters op))
     @ (case op_request_body op of
          Some body \<Rightarrow> '' * @param params.body'' @ dash_desc (rb_description body) @ optional_suffix (rb_required body) @ newline
        | None \<Rightarrow> [])
     @ (case success_desc op of
          Some desc \<Rightarrow> '' * @returns '' @ desc @ newline
        | None \<Rightarrow> if success_body op \<noteq> None then '' * @returns The response body'' @ newline else [])
     @ concat (map (\<lambda>r.
          if \<not> starts_with (resp_status r) ''2'' \<and> resp_status r \<noteq> ''*''
          then '' * @throws {ApiError} '' @ resp_status r @ dash_desc (resp_description r) @ newline else []) (op_responses op))
     @ '' */'' @ newline"

definition method_text :: "operation \<Rightarrow> string" where
  "method_text op =
     method_doc op
     @ ''  async '' @ camel (op_operation_id op) @ ''(''
     @ (if has_params op then ''params: '' @ pascal (op_operation_id op) @ ''Params'' else ''options?: RequestOptions'')
     @ '')'' @ (case success_body op of None \<Rightarrow> '': Promise<void>'' | Some ty \<Rightarrow> '': Promise<'' @ render ty @ ''>'')
     @ '' {'' @ newline @ ''    '' @ call_text op @ newline @ ''  }'' @ newline"

definition emit_method :: "operation \<Rightarrow> string set \<Rightarrow> (string option \<times> string \<times> string list) \<times> string set" where
  "emit_method op refs = ((params_interface op, method_text op, used_validators op), method_refs op refs)"

section \<open>Tag files\<close>

fun emit_methods :: "operation list \<Rightarrow> string set \<Rightarrow> (string option \<times> string \<times> string list) list \<times> string set" where
  "emit_methods [] refs = ([], refs)"
| "emit_methods (op # ops) refs =
     (let (m, refs) = emit_method op refs; (ms, refs) = emit_methods ops refs in (m # ms, refs))"

definition model_import_names :: "string set \<Rightarrow> string list" where
  "model_import_names refs = remdups_adj (sort (map pascal (sorted_list_of_set refs)))"

definition emit_tag_file :: "string \<Rightarrow> operation list \<Rightarrow> string" where
  "emit_tag_file tag ops =
     (let class_name = pascal tag @ ''Api'';
          (ms, refs) = emit_methods ops {};
          validate_imports = sorted_list_of_set (set (concat (map (\<lambda>(_, _, vs). vs) ms)))
      in file_header @ newline
         @ ''import type { ApiClient, RequestOptions } from '' @ dquote @ ''../client'' @ dquote @ '';'' @ newline
         @ (if validate_imports \<noteq> []
            then ''import { '' @ join '', '' validate_imports @ '' } from '' @ dquote @ ''../validate'' @ dquote @ '';'' @ newline else [])
         @ concat (map (\<lambda>name. ''import type { '' @ name @ '' } from '' @ dquote @ ''../models/'' @ name @ dquote @ '';'' @ newline)
             (model_import_names refs))
         @ newline
         @ concat (map (\<lambda>(iface, _, _). case iface of Some i \<Rightarrow> i @ newline | None \<Rightarrow> []) ms)
         @ ''export class '' @ class_name @ '' {'' @ newline
         @ ''  constructor(private readonly client: ApiClient) {}'' @ newline @ newline
         @ concat (map (\<lambda>(_, body, _). body @ newline) ms)
         @ ''}'' @ newline @ newline
         @ ''/** Construct the '' @ class_name @ '' against an existing client. */'' @ newline
         @ ''export function '' @ camel class_name @ ''(deps: { client: ApiClient }): '' @ class_name @ '' {'' @ newline
         @ ''  return new '' @ class_name @ ''(deps.client);'' @ newline @ ''}'' @ newline)"

definition tag_of :: "operation \<Rightarrow> string" where
  "tag_of op = (case op_tag op of Some t \<Rightarrow> t | None \<Rightarrow> ''Default'')"

definition group_by_tag :: "operation list \<Rightarrow> (string \<times> operation list) list" where
  "group_by_tag ops =
     fold (\<lambda>op m. bt_insert (tag_of op) ((case map_of m (tag_of op) of Some os \<Rightarrow> os | None \<Rightarrow> []) @ [op]) m) ops []"

text \<open>The files of \<open>collect\<close>, by their path below the output directory.\<close>

definition collect_operations :: "document \<Rightarrow> (string \<times> string) list" where
  "collect_operations doc =
     map (\<lambda>(tag, ops). (''src/api/'' @ pascal tag @ ''.ts'', emit_tag_file tag ops)) (group_by_tag (doc_operations doc))"

section \<open>The success response\<close>

lemma min_by_status_sorted:
  "min_by_status rs = (case sort_key resp_status rs of r # _ \<Rightarrow> Some r | [] \<Rightarrow> None)"
proof (induction rs)
  case (Cons r rs)
  then show ?case by (cases "sort_key resp_status rs") auto
qed simp

lemma success_same_response: "success_body op = Option.bind (min_by_status (success_responses op)) resp_body"
  unfolding success_body_def min_by_status_sorted by (auto split: list.split)

section \<open>Replacing placeholders one name at a time\<close>

definition plain_name :: "string \<Rightarrow> bool" where
  "plain_name x \<longleftrightarrow> set x \<inter> {CHR ''{'', CHR ''}'', CHR ''.'', CHR ''[''} = {}"

lemma replace_sub_skip: "\<not> starts_with (c # s) p \<Longrightarrow> replace_sub p r (c # s) = c # replace_sub p r s"
  by (subst replace_sub.simps) simp

lemma replace_sub_lit: "CHR ''{'' \<notin> set u \<Longrightarrow> replace_sub (CHR ''{'' # q) r (u @ s) = u @ replace_sub (CHR ''{'' # q) r s"
  by (induction u) (auto simp: replace_sub_skip starts_with_def)

lemma replace_sub_hit: "p \<noteq> [] \<Longrightarrow> replace_sub p r (p @ s) = r @ replace_sub p r s"
  by (subst replace_sub.simps) (cases p; simp add: starts_with_def)

lemma upto_brace: "CHR ''}'' \<notin> set x \<Longrightarrow> CHR ''}'' \<notin> set y \<Longrightarrow> starts_with (x @ CHR ''}'' # s) (y @ ''}'') \<Longrightarrow> x = y"
proof (induction x arbitrary: y)
  case Nil
  then show ?case by (cases y) (auto simp: starts_with_def)
next
  case (Cons c x)
  then show ?case by (cases y) (auto simp: starts_with_def)
qed

text \<open>A text in braces other than the pattern is left as it is.\<close>

lemma replace_sub_braced:
  assumes "x \<noteq> y" and "CHR ''}'' \<notin> set x" "CHR ''{'' \<notin> set x" and "CHR ''}'' \<notin> set y"
  shows "replace_sub (''{'' @ y @ ''}'') r (''{'' @ x @ ''}'' @ s) = ''{'' @ x @ ''}'' @ replace_sub (''{'' @ y @ ''}'') r s"
proof -
  have "\<not> starts_with (''{'' @ x @ ''}'' @ s) (''{'' @ y @ ''}'')"
    using upto_brace [of x y s] assms by (auto simp: starts_with_def)
  then show ?thesis
    using replace_sub_lit [of "x @ ''}''" "y @ ''}''" r s] assms(3) by (simp add: replace_sub_skip)
qed

lemma set_escape_quotes: "set (escape_quotes s) \<subseteq> set s \<union> {CHR 92}"
  by (induction s) auto

lemma member_access_params:
  assumes "plain_name x"
  shows "CHR ''{'' \<notin> set (member_access ''params'' x)" "CHR ''}'' \<notin> set (member_access ''params'' x)"
    "\<not> plain_name (member_access ''params'' x)"
  using assms set_escape_quotes [of x] by (auto simp: plain_name_def member_access_def dquote_def)

definition part_value :: "string set \<Rightarrow> path_part \<Rightarrow> string" where
  "part_value names part =
     (case part of Lit s \<Rightarrow> s | Param x \<Rightarrow> if x \<in> names then path_value x else ''{'' @ x @ ''}'')"

definition template_part :: "path_part \<Rightarrow> bool" where
  "template_part part = (case part of Lit s \<Rightarrow> CHR ''{'' \<notin> set s | Param x \<Rightarrow> plain_name x)"

lemma replace_placeholder:
  assumes "plain_name y"
  shows "list_all template_part ps \<Longrightarrow>
    replace_sub (''{'' @ y @ ''}'') (path_value y) (concat (map (part_value names) ps)) =
    concat (map (part_value (insert y names)) ps)"
proof (induction ps)
  case (Cons part ps)
  let ?p = "''{'' @ y @ ''}''" and ?r = "path_value y" and ?rest = "concat (map (part_value names) ps)"
  have IH: "replace_sub ?p ?r ?rest = concat (map (part_value (insert y names)) ps)" using Cons by simp
  have y: "CHR ''}'' \<notin> set y" using assms by (auto simp: plain_name_def)
  have "replace_sub ?p ?r (part_value names part @ ?rest) = part_value (insert y names) part @ replace_sub ?p ?r ?rest"
  proof (cases part)
    case (Lit u)
    with Cons.prems show ?thesis
      using replace_sub_lit [of u "y @ ''}''" ?r ?rest] by (simp add: part_value_def template_part_def)
  next
    case (Param x)
    with Cons.prems have x: "plain_name x" by (simp add: template_part_def)
    let ?m = "member_access ''params'' x"
    have "replace_sub ?p ?r (''$'' @ ''{'' @ ?m @ ''}'' @ ?rest) = ''$'' @ ''{'' @ ?m @ ''}'' @ replace_sub ?p ?r ?rest"
      using replace_sub_lit [of "''$''" "y @ ''}''" ?r "''{'' @ ?m @ ''}'' @ ?rest"]
        replace_sub_braced [of ?m y ?r ?rest] member_access_params [OF x] assms y by auto
    moreover have "replace_sub ?p ?r (''{'' @ x @ ''}'' @ ?rest) = ''{'' @ x @ ''}'' @ replace_sub ?p ?r ?rest" if "x \<noteq> y"
      using replace_sub_braced [OF that] x y by (auto simp: plain_name_def)
    moreover have "replace_sub ?p ?r (?p @ ?rest) = ?r @ replace_sub ?p ?r ?rest" by (rule replace_sub_hit) simp
    ultimately show ?thesis using Param by (auto simp: part_value_def path_value_def)
  qed
  with IH show ?case by simp
qed (simp add: replace_sub.simps)

lemma replace_placeholders:
  "list_all template_part ps \<Longrightarrow> \<forall>p \<in> set params. plain_name (par_name p) \<Longrightarrow>
   fold (\<lambda>p path. replace_sub (''{'' @ par_name p @ ''}'') (path_value (par_name p)) path) params (concat (map (part_value names) ps)) =
   concat (map (part_value (names \<union> par_name ` set params)) ps)"
proof (induction params arbitrary: names)
  case (Cons p params)
  then show ?case using replace_placeholder [of "par_name p" ps names] by simp
qed simp

section \<open>Grouping by tag\<close>

lemma group_by_tag_step:
  "map_of (fold (\<lambda>op m. bt_insert (tag_of op) ((case map_of m (tag_of op) of Some os \<Rightarrow> os | None \<Rightarrow> []) @ [op]) m) ops m) t =
   (let xs = (case map_of m t of Some os \<Rightarrow> os | None \<Rightarrow> []) @ filter (\<lambda>op. tag_of op = t) ops
    in if map_of m t = None \<and> filter (\<lambda>op. tag_of op = t) ops = [] then None else Some xs)"
proof (induction ops arbitrary: m)
  case (Cons op ops)
  then show ?case by (cases "tag_of op = t") (auto simp: map_laws Let_def split: option.splits)
qed (auto split: option.splits)

lemma group_by_tag_lookup:
  "map_of (group_by_tag ops) t =
     (if filter (\<lambda>op. tag_of op = t) ops = [] then None else Some (filter (\<lambda>op. tag_of op = t) ops))"
  using group_by_tag_step [of ops "[]" t] by (simp add: group_by_tag_def)

lemma group_by_tag_invar: "bt_invar (group_by_tag ops)"
proof -
  have "bt_invar m \<Longrightarrow> bt_invar (fold (\<lambda>op m. bt_insert (tag_of op) ((case map_of m (tag_of op) of Some os \<Rightarrow> os | None \<Rightarrow> []) @ [op]) m) ops m)" for m
    by (induction ops arbitrary: m) (auto intro: bt_invar_insert)
  then show ?thesis unfolding group_by_tag_def by (simp add: bt_invar_def)
qed

section \<open>Imports from the validate module\<close>

fun base_ref :: "ir_type \<Rightarrow> string option" where
  "base_ref (TReference name _ _) = Some name"
| "base_ref (TArray item _) = base_ref item"
| "base_ref (TMap val) = base_ref val"
| "base_ref _ = None"

lemma schema_name_base: "schema_name ty = map_option (\<lambda>n. pascal n @ ''Schema'') (base_ref ty)"
  by (induction ty rule: schema_name.induct) auto

lemma validator_name_base: "validator_name ty = map_option (\<lambda>n. ''validate'' @ pascal n) (base_ref ty)"
  by (induction ty rule: validator_name.induct) auto

lemma pascal_not_v: "pascal s @ u \<noteq> ''validate'' @ v"
proof -
  obtain c cs where "pascal s = c # cs" "is_ascii_upper c \<or> c = CHR ''_''" using pascal_shape by blast
  then show ?thesis by (auto simp: is_ascii_upper_def byte_def)
qed

section \<open>Properties\<close>

text \<open>
  The URL template of an emitted method, made by replacing the path parameters one after the
  other, is the path of the operation with every placeholder of a declared path parameter replaced by
  the expression for that parameter, and nothing else changed.
\<close>

theorem ts_path_filled:
  assumes "op_path op = concat (map part_str ps)" and "list_all template_part ps"
    and "\<forall>p \<in> set (params_at InPath op). plain_name (par_name p)"
  shows "path_subst op = concat (map (part_value (par_name ` set (params_at InPath op))) ps)"
proof -
  have "part_str = part_value {}"
  proof
    fix part
    show "part_str part = part_value {} part" by (cases part) (simp_all add: part_value_def)
  qed
  with assms show ?thesis using replace_placeholders [of ps "params_at InPath op" "{}"] by (simp add: path_subst_def)
qed

theorem ts_path_filled_witness:
  "\<exists>op. op_path op = ''/pets/{petId}/toys/{toy-id}'' \<and> path_subst op = ''/pets/${params.petId}/toys/${params['' @ dquote @ ''toy-id'' @ dquote @ '']}''"
proof -
  let ?par = "\<lambda>n. \<lparr>par_name = n, par_location = InPath, par_ty = TScalar ScString, par_required = True, par_description = None\<rparr>"
  let ?op = "\<lparr>op_operation_id = ''getToy'', op_method = Get, op_path = ''/pets/{petId}/toys/{toy-id}'', op_tag = None, op_summary = None,
    op_description = None, op_parameters = [?par ''petId'', ?par ''toy-id''], op_request_body = None, op_responses = [], op_retry_policy = None\<rparr>"
  have "path_value ''petId'' = ''${params.petId}''" "path_value ''toy-id'' = ''${params['' @ dquote @ ''toy-id'' @ dquote @ '']}''"
    by (simp_all add: path_value_def member_access_def is_valid_identifier_def ascii_defs byte_def is_reserved_def reserved_words_def)
  moreover have "path_subst ?op = concat (map (part_value (par_name ` set (params_at InPath ?op)))
      [Lit ''/pets/'', Param ''petId'', Lit ''/toys/'', Param ''toy-id''])"
    by (rule ts_path_filled) (simp_all add: template_part_def plain_name_def params_at_def)
  ultimately show ?thesis by (intro exI [of _ ?op]) (simp add: part_value_def params_at_def)
qed

text \<open>
  An emitted method imports from the validate module a validator and a schema constant of the
  schema its body refers to. The validator is always exported; the schema constant is exported exactly when the
  schema is an object model, so a body that is an enum makes the file import a name that does not exist.
\<close>

theorem ts_validate_imports:
  assumes "base_ref ty = Some name" and "(name, m) \<in> set registry" and "model_name m = name"
    and "\<forall>(k, m') \<in> set registry. pascal (model_name m') = pascal name \<longrightarrow> m' = m"
  shows "(\<exists>v. validator_name ty = Some v \<and> v \<in> (\<Union>(k, m') \<in> set registry. set (validate_exports m'))) \<and>
    (\<exists>s. schema_name ty = Some s \<and>
      (s \<in> (\<Union>(k, m') \<in> set registry. set (validate_exports m')) \<longleftrightarrow> (\<exists>obj. m = MObject obj)))"
proof -
  let ?exports = "\<Union>(k, m') \<in> set registry. set (validate_exports m')"
  have "''validate'' @ pascal name \<in> ?exports"
    using assms(2,3) by (cases m) force+
  moreover have "\<exists>obj. m = MObject obj" if "pascal name @ ''Schema'' \<in> ?exports"
  proof -
    from that obtain k m' where m': "(k, m') \<in> set registry" "pascal name @ ''Schema'' \<in> set (validate_exports m')" by blast
    then show ?thesis
      using assms(4) pascal_not_v [of name "''Schema''"] by (cases m') fastforce+
  qed
  moreover have "pascal name @ ''Schema'' \<in> ?exports" if "m = MObject obj" for obj
    using assms(2,3) that by force
  ultimately show ?thesis using assms(1) by (auto simp: schema_name_base validator_name_base)
qed

theorem ts_validate_imports_witness:
  "schema_name (TReference ''Status'' False None) = Some ''StatusSchema'' \<and>
   ''StatusSchema'' \<notin> set (validate_exports (MEnum \<lparr>em_name = ''Status'', em_description = None, em_variants = []\<rparr>))"
proof -
  let ?m = "MEnum \<lparr>em_name = ''Status'', em_description = None, em_variants = []\<rparr>"
  have "pascal ''Status'' = ''Status''" by code_simp
  with ts_validate_imports [of "TReference ''Status'' False None" "''Status''" ?m "[(''Status'', ?m)]"]
  show ?thesis by simp
qed

text \<open>
  Each operation is emitted in the file of its tag and in no other: the tag files are sorted and
  distinct by tag, and the group of a tag is the list of the operations with that tag in document order.
\<close>

theorem operations_grouped_by_tag:
  "sorted_wrt (<) (map fst (group_by_tag ops)) \<and>
   map_of (group_by_tag ops) t =
     (if t \<in> tag_of ` set ops then Some (filter (\<lambda>op. tag_of op = t) ops) else None)"
  using group_by_tag_invar [of ops] group_by_tag_lookup [of ops t] by (auto simp: bt_invar_def filter_empty_conv image_iff)

end
