(* ===== verification/I18n.thy ===== *)
theory I18n
  imports Maps
begin

text \<open>
  crates/specforge-core/src/i18n.rs: the translations of the SDK's error messages. Both levels of
  the configuration are \<open>IndexMap\<close>s; the texts are the UTF-8 bytes of the source.
\<close>

section \<open>Built-in translations\<close>

definition messages_en :: "(string \<times> string) list" where
  "messages_en =
     [(''errors.http'', ''HTTP {status}: {body}''),
      (''errors.network'', ''Network error''),
      (''errors.timeout'', ''Request timed out after {elapsed}ms''),
      (''errors.configuration'', ''Configuration error''),
      (''errors.validation'', ''Validation failed''),
      (''errors.notFound'', ''Resource not found''),
      (''errors.unauthorized'', ''Unauthorized''),
      (''errors.forbidden'', ''Forbidden''),
      (''errors.rateLimited'', ''Rate limit exceeded''),
      (''errors.serverError'', ''Internal server error''),
      (''errors.retriesExhausted'', ''Exhausted retries without a response''),
      (''errors.requestAborted'', ''Request aborted by caller'')]"

definition messages_es :: "(string \<times> string) list" where
  "messages_es =
     [(''errors.http'', ''HTTP {status}: {body}''),
      (''errors.network'', ''Error de red''),
      (''errors.timeout'', ''La solicitud expir'' @ [CHR 0xC3, CHR 0xB3] @ '' despu'' @ [CHR 0xC3, CHR 0xA9] @ ''s de {elapsed}ms''),
      (''errors.configuration'', ''Error de configuraci'' @ [CHR 0xC3, CHR 0xB3] @ ''n''),
      (''errors.validation'', ''Validaci'' @ [CHR 0xC3, CHR 0xB3] @ ''n fallida''),
      (''errors.notFound'', ''Recurso no encontrado''),
      (''errors.unauthorized'', ''No autorizado''),
      (''errors.forbidden'', ''Prohibido''),
      (''errors.rateLimited'', ''L'' @ [CHR 0xC3, CHR 0xAD] @ ''mite de velocidad excedido''),
      (''errors.serverError'', ''Error interno del servidor''),
      (''errors.retriesExhausted'', ''Reintentos agotados sin respuesta''),
      (''errors.requestAborted'', ''Solicitud cancelada por el usuario'')]"

definition messages_fr :: "(string \<times> string) list" where
  "messages_fr =
     [(''errors.http'', ''HTTP {status} : {body}''),
      (''errors.network'', ''Erreur r'' @ [CHR 0xC3, CHR 0xA9] @ ''seau''),
      (''errors.timeout'', ''La requ'' @ [CHR 0xC3, CHR 0xAA] @ ''te a expir'' @ [CHR 0xC3, CHR 0xA9] @ '' apr'' @ [CHR 0xC3, CHR 0xA8] @ ''s {elapsed}ms''),
      (''errors.configuration'', ''Erreur de configuration''),
      (''errors.validation'', [CHR 0xC3, CHR 0x89] @ ''chec de la validation''),
      (''errors.notFound'', ''Ressource non trouv'' @ [CHR 0xC3, CHR 0xA9] @ ''e''),
      (''errors.unauthorized'', ''Non autoris'' @ [CHR 0xC3, CHR 0xA9]),
      (''errors.forbidden'', ''Interdit''),
      (''errors.rateLimited'', ''Limite de d'' @ [CHR 0xC3, CHR 0xA9] @ ''bit d'' @ [CHR 0xC3, CHR 0xA9] @ ''pass'' @ [CHR 0xC3, CHR 0xA9] @ ''e''),
      (''errors.serverError'', ''Erreur interne du serveur''),
      (''errors.retriesExhausted'', ''Tentatives '' @ [CHR 0xC3, CHR 0xA9] @ ''puis'' @ [CHR 0xC3, CHR 0xA9] @ ''es sans r'' @ [CHR 0xC3, CHR 0xA9] @ ''ponse''),
      (''errors.requestAborted'', ''Requ'' @ [CHR 0xC3, CHR 0xAA] @ ''te annul'' @ [CHR 0xC3, CHR 0xA9] @ ''e par l'' @ [CHR 0x27] @ ''utilisateur'')]"

definition messages_de :: "(string \<times> string) list" where
  "messages_de =
     [(''errors.http'', ''HTTP {status}: {body}''),
      (''errors.network'', ''Netzwerkfehler''),
      (''errors.timeout'', ''Zeit'' @ [CHR 0xC3, CHR 0xBC] @ ''berschreitung nach {elapsed}ms''),
      (''errors.configuration'', ''Konfigurationsfehler''),
      (''errors.validation'', ''Validierung fehlgeschlagen''),
      (''errors.notFound'', ''Ressource nicht gefunden''),
      (''errors.unauthorized'', ''Nicht autorisiert''),
      (''errors.forbidden'', ''Verboten''),
      (''errors.rateLimited'', ''Ratenlimit '' @ [CHR 0xC3, CHR 0xBC] @ ''berschritten''),
      (''errors.serverError'', ''Interner Serverfehler''),
      (''errors.retriesExhausted'', ''Wiederholungen ohne Antwort ersch'' @ [CHR 0xC3, CHR 0xB6] @ ''pft''),
      (''errors.requestAborted'', ''Anfrage vom Aufrufer abgebrochen'')]"

definition messages_ja :: "(string \<times> string) list" where
  "messages_ja =
     [(''errors.http'', ''HTTP {status}: {body}''),
      (''errors.network'', [CHR 0xE3, CHR 0x83, CHR 0x8D, CHR 0xE3, CHR 0x83, CHR 0x83, CHR 0xE3, CHR 0x83, CHR 0x88, CHR 0xE3, CHR 0x83, CHR 0xAF, CHR 0xE3, CHR 0x83, CHR 0xBC, CHR 0xE3, CHR 0x82, CHR 0xAF, CHR 0xE3, CHR 0x82, CHR 0xA8, CHR 0xE3, CHR 0x83, CHR 0xA9, CHR 0xE3, CHR 0x83, CHR 0xBC]),
      (''errors.timeout'', [CHR 0xE3, CHR 0x83, CHR 0xAA, CHR 0xE3, CHR 0x82, CHR 0xAF, CHR 0xE3, CHR 0x82, CHR 0xA8, CHR 0xE3, CHR 0x82, CHR 0xB9, CHR 0xE3, CHR 0x83, CHR 0x88, CHR 0xE3, CHR 0x81, CHR 0x8C] @ ''{elapsed}ms'' @ [CHR 0xE5, CHR 0xBE, CHR 0x8C, CHR 0xE3, CHR 0x81, CHR 0xAB, CHR 0xE3, CHR 0x82, CHR 0xBF, CHR 0xE3, CHR 0x82, CHR 0xA4, CHR 0xE3, CHR 0x83, CHR 0xA0, CHR 0xE3, CHR 0x82, CHR 0xA2, CHR 0xE3, CHR 0x82, CHR 0xA6, CHR 0xE3, CHR 0x83, CHR 0x88, CHR 0xE3, CHR 0x81, CHR 0x97, CHR 0xE3, CHR 0x81, CHR 0xBE, CHR 0xE3, CHR 0x81, CHR 0x97, CHR 0xE3, CHR 0x81, CHR 0x9F]),
      (''errors.configuration'', [CHR 0xE8, CHR 0xA8, CHR 0xAD, CHR 0xE5, CHR 0xAE, CHR 0x9A, CHR 0xE3, CHR 0x82, CHR 0xA8, CHR 0xE3, CHR 0x83, CHR 0xA9, CHR 0xE3, CHR 0x83, CHR 0xBC]),
      (''errors.validation'', [CHR 0xE6, CHR 0xA4, CHR 0x9C, CHR 0xE8, CHR 0xA8, CHR 0xBC, CHR 0xE3, CHR 0x81, CHR 0xAB, CHR 0xE5, CHR 0xA4, CHR 0xB1, CHR 0xE6, CHR 0x95, CHR 0x97, CHR 0xE3, CHR 0x81, CHR 0x97, CHR 0xE3, CHR 0x81, CHR 0xBE, CHR 0xE3, CHR 0x81, CHR 0x97, CHR 0xE3, CHR 0x81, CHR 0x9F]),
      (''errors.notFound'', [CHR 0xE3, CHR 0x83, CHR 0xAA, CHR 0xE3, CHR 0x82, CHR 0xBD, CHR 0xE3, CHR 0x83, CHR 0xBC, CHR 0xE3, CHR 0x82, CHR 0xB9, CHR 0xE3, CHR 0x81, CHR 0x8C, CHR 0xE8, CHR 0xA6, CHR 0x8B, CHR 0xE3, CHR 0x81, CHR 0xA4, CHR 0xE3, CHR 0x81, CHR 0x8B, CHR 0xE3, CHR 0x82, CHR 0x8A, CHR 0xE3, CHR 0x81, CHR 0xBE, CHR 0xE3, CHR 0x81, CHR 0x9B, CHR 0xE3, CHR 0x82, CHR 0x93]),
      (''errors.unauthorized'', [CHR 0xE6, CHR 0x9C, CHR 0xAA, CHR 0xE8, CHR 0xAA, CHR 0x8D, CHR 0xE8, CHR 0xA8, CHR 0xBC]),
      (''errors.forbidden'', [CHR 0xE7, CHR 0xA6, CHR 0x81, CHR 0xE6, CHR 0xAD, CHR 0xA2]),
      (''errors.rateLimited'', [CHR 0xE3, CHR 0x83, CHR 0xAC, CHR 0xE3, CHR 0x83, CHR 0xBC, CHR 0xE3, CHR 0x83, CHR 0x88, CHR 0xE5, CHR 0x88, CHR 0xB6, CHR 0xE9, CHR 0x99, CHR 0x90, CHR 0xE3, CHR 0x82, CHR 0x92, CHR 0xE8, CHR 0xB6, CHR 0x85, CHR 0xE9, CHR 0x81, CHR 0x8E, CHR 0xE3, CHR 0x81, CHR 0x97, CHR 0xE3, CHR 0x81, CHR 0xBE, CHR 0xE3, CHR 0x81, CHR 0x97, CHR 0xE3, CHR 0x81, CHR 0x9F]),
      (''errors.serverError'', [CHR 0xE5, CHR 0x86, CHR 0x85, CHR 0xE9, CHR 0x83, CHR 0xA8, CHR 0xE3, CHR 0x82, CHR 0xB5, CHR 0xE3, CHR 0x83, CHR 0xBC, CHR 0xE3, CHR 0x83, CHR 0x90, CHR 0xE3, CHR 0x83, CHR 0xBC, CHR 0xE3, CHR 0x82, CHR 0xA8, CHR 0xE3, CHR 0x83, CHR 0xA9, CHR 0xE3, CHR 0x83, CHR 0xBC]),
      (''errors.retriesExhausted'', [CHR 0xE3, CHR 0x83, CHR 0xAC, CHR 0xE3, CHR 0x82, CHR 0xB9, CHR 0xE3, CHR 0x83, CHR 0x9D, CHR 0xE3, CHR 0x83, CHR 0xB3, CHR 0xE3, CHR 0x82, CHR 0xB9, CHR 0xE3, CHR 0x81, CHR 0xAA, CHR 0xE3, CHR 0x81, CHR 0x97, CHR 0xE3, CHR 0x81, CHR 0xA7, CHR 0xE3, CHR 0x83, CHR 0xAA, CHR 0xE3, CHR 0x83, CHR 0x88, CHR 0xE3, CHR 0x83, CHR 0xA9, CHR 0xE3, CHR 0x82, CHR 0xA4, CHR 0xE3, CHR 0x81, CHR 0x8C, CHR 0xE5, CHR 0xB0, CHR 0xBD, CHR 0xE3, CHR 0x81, CHR 0x8D, CHR 0xE3, CHR 0x81, CHR 0xBE, CHR 0xE3, CHR 0x81, CHR 0x97, CHR 0xE3, CHR 0x81, CHR 0x9F]),
      (''errors.requestAborted'', [CHR 0xE5, CHR 0x91, CHR 0xBC, CHR 0xE3, CHR 0x81, CHR 0xB3, CHR 0xE5, CHR 0x87, CHR 0xBA, CHR 0xE3, CHR 0x81, CHR 0x97, CHR 0xE5, CHR 0x85, CHR 0x83, CHR 0xE3, CHR 0x81, CHR 0xAB, CHR 0xE3, CHR 0x82, CHR 0x88, CHR 0xE3, CHR 0x82, CHR 0x8A, CHR 0xE3, CHR 0x83, CHR 0xAA, CHR 0xE3, CHR 0x82, CHR 0xAF, CHR 0xE3, CHR 0x82, CHR 0xA8, CHR 0xE3, CHR 0x82, CHR 0xB9, CHR 0xE3, CHR 0x83, CHR 0x88, CHR 0xE3, CHR 0x81, CHR 0x8C, CHR 0xE4, CHR 0xB8, CHR 0xAD, CHR 0xE6, CHR 0xAD, CHR 0xA2, CHR 0xE3, CHR 0x81, CHR 0x95, CHR 0xE3, CHR 0x82, CHR 0x8C, CHR 0xE3, CHR 0x81, CHR 0xBE, CHR 0xE3, CHR 0x81, CHR 0x97, CHR 0xE3, CHR 0x81, CHR 0x9F])]"

definition messages_zh :: "(string \<times> string) list" where
  "messages_zh =
     [(''errors.http'', ''HTTP {status}: {body}''),
      (''errors.network'', [CHR 0xE7, CHR 0xBD, CHR 0x91, CHR 0xE7, CHR 0xBB, CHR 0x9C, CHR 0xE9, CHR 0x94, CHR 0x99, CHR 0xE8, CHR 0xAF, CHR 0xAF]),
      (''errors.timeout'', [CHR 0xE8, CHR 0xAF, CHR 0xB7, CHR 0xE6, CHR 0xB1, CHR 0x82, CHR 0xE5, CHR 0x9C, CHR 0xA8] @ ''{elapsed}ms'' @ [CHR 0xE5, CHR 0x90, CHR 0x8E, CHR 0xE8, CHR 0xB6, CHR 0x85, CHR 0xE6, CHR 0x97, CHR 0xB6]),
      (''errors.configuration'', [CHR 0xE9, CHR 0x85, CHR 0x8D, CHR 0xE7, CHR 0xBD, CHR 0xAE, CHR 0xE9, CHR 0x94, CHR 0x99, CHR 0xE8, CHR 0xAF, CHR 0xAF]),
      (''errors.validation'', [CHR 0xE9, CHR 0xAA, CHR 0x8C, CHR 0xE8, CHR 0xAF, CHR 0x81, CHR 0xE5, CHR 0xA4, CHR 0xB1, CHR 0xE8, CHR 0xB4, CHR 0xA5]),
      (''errors.notFound'', [CHR 0xE8, CHR 0xB5, CHR 0x84, CHR 0xE6, CHR 0xBA, CHR 0x90, CHR 0xE6, CHR 0x9C, CHR 0xAA, CHR 0xE6, CHR 0x89, CHR 0xBE, CHR 0xE5, CHR 0x88, CHR 0xB0]),
      (''errors.unauthorized'', [CHR 0xE6, CHR 0x9C, CHR 0xAA, CHR 0xE6, CHR 0x8E, CHR 0x88, CHR 0xE6, CHR 0x9D, CHR 0x83]),
      (''errors.forbidden'', [CHR 0xE7, CHR 0xA6, CHR 0x81, CHR 0xE6, CHR 0xAD, CHR 0xA2, CHR 0xE8, CHR 0xAE, CHR 0xBF, CHR 0xE9, CHR 0x97, CHR 0xAE]),
      (''errors.rateLimited'', [CHR 0xE8, CHR 0xB6, CHR 0x85, CHR 0xE8, CHR 0xBF, CHR 0x87, CHR 0xE9, CHR 0x80, CHR 0x9F, CHR 0xE7, CHR 0x8E, CHR 0x87, CHR 0xE9, CHR 0x99, CHR 0x90, CHR 0xE5, CHR 0x88, CHR 0xB6]),
      (''errors.serverError'', [CHR 0xE5, CHR 0x86, CHR 0x85, CHR 0xE9, CHR 0x83, CHR 0xA8, CHR 0xE6, CHR 0x9C, CHR 0x8D, CHR 0xE5, CHR 0x8A, CHR 0xA1, CHR 0xE5, CHR 0x99, CHR 0xA8, CHR 0xE9, CHR 0x94, CHR 0x99, CHR 0xE8, CHR 0xAF, CHR 0xAF]),
      (''errors.retriesExhausted'', [CHR 0xE9, CHR 0x87, CHR 0x8D, CHR 0xE8, CHR 0xAF, CHR 0x95, CHR 0xE6, CHR 0xAC, CHR 0xA1, CHR 0xE6, CHR 0x95, CHR 0xB0, CHR 0xE5, CHR 0xB7, CHR 0xB2, CHR 0xE7, CHR 0x94, CHR 0xA8, CHR 0xE5, CHR 0xB0, CHR 0xBD, CHR 0xEF, CHR 0xBC, CHR 0x8C, CHR 0xE6, CHR 0x97, CHR 0xA0, CHR 0xE5, CHR 0x93, CHR 0x8D, CHR 0xE5, CHR 0xBA, CHR 0x94]),
      (''errors.requestAborted'', [CHR 0xE8, CHR 0xAF, CHR 0xB7, CHR 0xE6, CHR 0xB1, CHR 0x82, CHR 0xE5, CHR 0xB7, CHR 0xB2, CHR 0xE8, CHR 0xA2, CHR 0xAB, CHR 0xE8, CHR 0xB0, CHR 0x83, CHR 0xE7, CHR 0x94, CHR 0xA8, CHR 0xE6, CHR 0x96, CHR 0xB9, CHR 0xE4, CHR 0xB8, CHR 0xAD, CHR 0xE6, CHR 0xAD, CHR 0xA2])]"

definition messages_pt :: "(string \<times> string) list" where
  "messages_pt =
     [(''errors.http'', ''HTTP {status}: {body}''),
      (''errors.network'', ''Erro de rede''),
      (''errors.timeout'', ''A requisi'' @ [CHR 0xC3, CHR 0xA7, CHR 0xC3, CHR 0xA3] @ ''o expirou ap'' @ [CHR 0xC3, CHR 0xB3] @ ''s {elapsed}ms''),
      (''errors.configuration'', ''Erro de configura'' @ [CHR 0xC3, CHR 0xA7, CHR 0xC3, CHR 0xA3] @ ''o''),
      (''errors.validation'', ''Falha na valida'' @ [CHR 0xC3, CHR 0xA7, CHR 0xC3, CHR 0xA3] @ ''o''),
      (''errors.notFound'', ''Recurso n'' @ [CHR 0xC3, CHR 0xA3] @ ''o encontrado''),
      (''errors.unauthorized'', ''N'' @ [CHR 0xC3, CHR 0xA3] @ ''o autorizado''),
      (''errors.forbidden'', ''Proibido''),
      (''errors.rateLimited'', ''Limite de taxa excedido''),
      (''errors.serverError'', ''Erro interno do servidor''),
      (''errors.retriesExhausted'', ''Tentativas esgotadas sem resposta''),
      (''errors.requestAborted'', ''Requisi'' @ [CHR 0xC3, CHR 0xA7, CHR 0xC3, CHR 0xA3] @ ''o cancelada pelo chamador'')]"

definition messages_ko :: "(string \<times> string) list" where
  "messages_ko =
     [(''errors.http'', ''HTTP {status}: {body}''),
      (''errors.network'', [CHR 0xEB, CHR 0x84, CHR 0xA4, CHR 0xED, CHR 0x8A, CHR 0xB8, CHR 0xEC, CHR 0x9B, CHR 0x8C, CHR 0xED, CHR 0x81, CHR 0xAC] @ '' '' @ [CHR 0xEC, CHR 0x98, CHR 0xA4, CHR 0xEB, CHR 0xA5, CHR 0x98]),
      (''errors.timeout'', [CHR 0xEC, CHR 0x9A, CHR 0x94, CHR 0xEC, CHR 0xB2, CHR 0xAD, CHR 0xEC, CHR 0x9D, CHR 0xB4] @ '' {elapsed}ms '' @ [CHR 0xED, CHR 0x9B, CHR 0x84, CHR 0xEC, CHR 0x97, CHR 0x90] @ '' '' @ [CHR 0xEC, CHR 0x8B, CHR 0x9C, CHR 0xEA, CHR 0xB0, CHR 0x84] @ '' '' @ [CHR 0xEC, CHR 0xB4, CHR 0x88, CHR 0xEA, CHR 0xB3, CHR 0xBC, CHR 0xEB, CHR 0x90, CHR 0xA8]),
      (''errors.configuration'', [CHR 0xEA, CHR 0xB5, CHR 0xAC, CHR 0xEC, CHR 0x84, CHR 0xB1] @ '' '' @ [CHR 0xEC, CHR 0x98, CHR 0xA4, CHR 0xEB, CHR 0xA5, CHR 0x98]),
      (''errors.validation'', [CHR 0xEA, CHR 0xB2, CHR 0x80, CHR 0xEC, CHR 0xA6, CHR 0x9D] @ '' '' @ [CHR 0xEC, CHR 0x8B, CHR 0xA4, CHR 0xED, CHR 0x8C, CHR 0xA8]),
      (''errors.notFound'', [CHR 0xEB, CHR 0xA6, CHR 0xAC, CHR 0xEC, CHR 0x86, CHR 0x8C, CHR 0xEC, CHR 0x8A, CHR 0xA4, CHR 0xEB, CHR 0xA5, CHR 0xBC] @ '' '' @ [CHR 0xEC, CHR 0xB0, CHR 0xBE, CHR 0xEC, CHR 0x9D, CHR 0x84] @ '' '' @ [CHR 0xEC, CHR 0x88, CHR 0x98] @ '' '' @ [CHR 0xEC, CHR 0x97, CHR 0x86, CHR 0xEC, CHR 0x9D, CHR 0x8C]),
      (''errors.unauthorized'', [CHR 0xEC, CHR 0x9D, CHR 0xB8, CHR 0xEC, CHR 0xA6, CHR 0x9D, CHR 0xEB, CHR 0x90, CHR 0x98, CHR 0xEC, CHR 0xA7, CHR 0x80] @ '' '' @ [CHR 0xEC, CHR 0x95, CHR 0x8A, CHR 0xEC, CHR 0x9D, CHR 0x8C]),
      (''errors.forbidden'', [CHR 0xEC, CHR 0xA0, CHR 0x91, CHR 0xEA, CHR 0xB7, CHR 0xBC] @ '' '' @ [CHR 0xEA, CHR 0xB8, CHR 0x88, CHR 0xEC, CHR 0xA7, CHR 0x80]),
      (''errors.rateLimited'', [CHR 0xEC, CHR 0x86, CHR 0x8D, CHR 0xEB, CHR 0x8F, CHR 0x84] @ '' '' @ [CHR 0xEC, CHR 0xA0, CHR 0x9C, CHR 0xED, CHR 0x95, CHR 0x9C] @ '' '' @ [CHR 0xEC, CHR 0xB4, CHR 0x88, CHR 0xEA, CHR 0xB3, CHR 0xBC]),
      (''errors.serverError'', [CHR 0xEB, CHR 0x82, CHR 0xB4, CHR 0xEB, CHR 0xB6, CHR 0x80] @ '' '' @ [CHR 0xEC, CHR 0x84, CHR 0x9C, CHR 0xEB, CHR 0xB2, CHR 0x84] @ '' '' @ [CHR 0xEC, CHR 0x98, CHR 0xA4, CHR 0xEB, CHR 0xA5, CHR 0x98]),
      (''errors.retriesExhausted'', [CHR 0xEC, CHR 0x9D, CHR 0x91, CHR 0xEB, CHR 0x8B, CHR 0xB5] @ '' '' @ [CHR 0xEC, CHR 0x97, CHR 0x86, CHR 0xEC, CHR 0x9D, CHR 0xB4] @ '' '' @ [CHR 0xEC, CHR 0x9E, CHR 0xAC, CHR 0xEC, CHR 0x8B, CHR 0x9C, CHR 0xEB, CHR 0x8F, CHR 0x84] @ '' '' @ [CHR 0xED, CHR 0x9A, CHR 0x9F, CHR 0xEC, CHR 0x88, CHR 0x98] @ '' '' @ [CHR 0xEC, CHR 0x86, CHR 0x8C, CHR 0xEC, CHR 0xA7, CHR 0x84]),
      (''errors.requestAborted'', [CHR 0xED, CHR 0x98, CHR 0xB8, CHR 0xEC, CHR 0xB6, CHR 0x9C, CHR 0xEC, CHR 0x9E, CHR 0x90, CHR 0xEC, CHR 0x97, CHR 0x90] @ '' '' @ [CHR 0xEC, CHR 0x9D, CHR 0x98, CHR 0xED, CHR 0x95, CHR 0xB4] @ '' '' @ [CHR 0xEC, CHR 0x9A, CHR 0x94, CHR 0xEC, CHR 0xB2, CHR 0xAD, CHR 0xEC, CHR 0x9D, CHR 0xB4] @ '' '' @ [CHR 0xEC, CHR 0xA4, CHR 0x91, CHR 0xEB, CHR 0x8B, CHR 0xA8, CHR 0xEB, CHR 0x90, CHR 0xA8])]"

definition error_keys :: "string list" where
  "error_keys =
     [''errors.http'', ''errors.network'', ''errors.timeout'', ''errors.configuration'', ''errors.validation'', ''errors.notFound'', ''errors.unauthorized'', ''errors.forbidden'', ''errors.rateLimited'', ''errors.serverError'', ''errors.retriesExhausted'', ''errors.requestAborted'']"

definition locale_tables :: "(string \<times> (string \<times> string) list) list" where
  "locale_tables =
     [(''en'', messages_en), (''es'', messages_es), (''fr'', messages_fr), (''de'', messages_de), (''ja'', messages_ja), (''zh'', messages_zh), (''pt'', messages_pt), (''ko'', messages_ko)]"

text \<open>The arms of the \<open>match\<close>; each builds its map by inserting into an empty one.\<close>

definition default_translations :: "string \<Rightarrow> (string \<times> string) list" where
  "default_translations l =
     im_insert_all (case map_of locale_tables l of Some table \<Rightarrow> table | None \<Rightarrow> map (\<lambda>key. (key, key)) error_keys) []"

section \<open>Configuration\<close>

record i18n_config =
  ic_default_locale :: string
  ic_translations :: "(string \<times> (string \<times> string) list) list"

definition i18n_new :: i18n_config where
  "i18n_new = \<lparr>ic_default_locale = ''en'', ic_translations = []\<rparr>"

definition from_locales :: "string list \<Rightarrow> i18n_config" where
  "from_locales ls =
     fold (\<lambda>l config. config\<lparr>ic_translations := im_insert l (default_translations l) (ic_translations config)\<rparr>) ls i18n_new"

definition i18n_t :: "i18n_config \<Rightarrow> string \<Rightarrow> string \<Rightarrow> string" where
  "i18n_t config key l =
     (case Option.bind (map_of (ic_translations config) l) (\<lambda>m. map_of m key) of Some s \<Rightarrow> s | None \<Rightarrow> key)"

definition i18n_locales :: "i18n_config \<Rightarrow> string list" where
  "i18n_locales config = map fst (ic_translations config)"

section \<open>Lookups\<close>

lemma from_locales_fold:
  "map_of (ic_translations (fold (\<lambda>l config. config\<lparr>ic_translations := im_insert l (default_translations l) (ic_translations config)\<rparr>) ls config)) k =
     (if k \<in> set ls then Some (default_translations k) else map_of (ic_translations config) k)"
  by (induction ls arbitrary: config) (auto simp: map_laws)

lemma from_locales_lookup:
  "map_of (ic_translations (from_locales ls)) k = (if k \<in> set ls then Some (default_translations k) else None)"
  using from_locales_fold [of ls i18n_new k] by (simp add: from_locales_def i18n_new_def)

lemma table_keys: "map_of locale_tables l = Some table \<Longrightarrow> map fst table = error_keys"
  by (auto simp: locale_tables_def error_keys_def messages_en_def messages_es_def messages_fr_def messages_de_def
    messages_ja_def messages_zh_def messages_pt_def messages_ko_def split: if_splits)

lemma error_keys_distinct: "distinct error_keys"
  by (simp add: error_keys_def)

lemma default_translations_lookup:
  "map_of (default_translations l) key =
     map_of (case map_of locale_tables l of Some table \<Rightarrow> table | None \<Rightarrow> map (\<lambda>key. (key, key)) error_keys) key"
    (is "_ = map_of ?table key")
proof -
  have "map fst ?table = error_keys" by (auto simp: table_keys comp_def split: option.split)
  then have "distinct (map fst ?table)" by (simp only: error_keys_distinct)
  then show ?thesis
    unfolding default_translations_def
    by (subst indexmap.get_insert_all_distinct [folded im_insert_all_def]) (auto simp: im_invar_def split: option.split)
qed

section \<open>Properties\<close>

text \<open>
  Looking up an error message: for a configured locale with built-in texts the result is the
  locale's own text and exists for every error key; every other lookup returns the key.
\<close>

theorem i18n_lookup_total:
  "i18n_t (from_locales ls) key l =
     (case map_of locale_tables l of
        Some table \<Rightarrow> if l \<in> set ls \<and> key \<in> set error_keys then the (map_of table key) else key
      | None \<Rightarrow> key)"
proof (cases "map_of locale_tables l")
  case None
  have "map_of (map (\<lambda>key. (key, key)) ks) key = (if key \<in> set ks then Some key else None)" for ks :: "string list"
    by (induction ks) auto
  with None show ?thesis by (simp add: i18n_t_def from_locales_lookup default_translations_lookup)
next
  case (Some table)
  have "key \<in> set error_keys \<longleftrightarrow> map_of table key \<noteq> None"
    using table_keys [OF Some] by (metis list.set_map map_of_eq_None_iff)
  with Some show ?thesis by (auto simp: i18n_t_def from_locales_lookup default_translations_lookup)
qed

end
