(* ===== verification/Ts_Package.thy ===== *)
theory Ts_Package
  imports Ts_Operations I18n
begin

text \<open>
  crates/specforge-ts/src/lib.rs and package.rs: the files of a generated TypeScript package. A file is
  its path below the output directory and its content. The content of the files that are fixed text
  (most of runtime.rs, tsconfig.json, tsup.config.ts, the README) and the time stamp are
  arguments; \<open>is_alphanumeric\<close> of non-ASCII characters is an argument of \<open>slug\<close>.
\<close>

section \<open>Package files (package.rs)\<close>

text \<open>The characters of a UTF-8 text.\<close>

fun utf8_chars :: "string \<Rightarrow> string list" where
  "utf8_chars [] = []"
| "utf8_chars (b # bs) =
     (let cont = takeWhile (\<lambda>c. 128 \<le> byte c \<and> byte c < 192) bs
      in (b # cont) # utf8_chars (drop (length cont) bs))"

definition slug :: "(string \<Rightarrow> bool) \<Rightarrow> string \<Rightarrow> string" where
  "slug is_alphanumeric s =
     trim_matches (CHR ''-'')
       (concat (map (\<lambda>ch. case ch of [c] \<Rightarrow> if is_ascii_alphanumeric c then ch else ''-''
                          | _ \<Rightarrow> if is_alphanumeric ch then ch else ''-'')
         (utf8_chars (to_lowercase s))))"

record generator_options =
  go_package_name :: "string option"
  go_i18n :: "i18n_config option"

definition package_name :: "(string \<Rightarrow> bool) \<Rightarrow> document \<Rightarrow> generator_options \<Rightarrow> string" where
  "package_name is_alphanumeric doc opts =
     (case go_package_name opts of Some n \<Rightarrow> n | None \<Rightarrow> ''@'' @ slug is_alphanumeric (doc_title doc) @ ''sdk'')"

section \<open>Webhooks, i18n and barrels (lib.rs)\<close>

definition webhook_doc :: "webhook \<Rightarrow> string" where
  "webhook_doc wh =
     (case wh_description wh of
        Some d \<Rightarrow> ''/**'' @ newline @ '' * '' @ d @ newline @ '' */'' @ newline
      | None \<Rightarrow>
          (case wh_summary wh of Some s \<Rightarrow> ''/**'' @ newline @ '' * '' @ s @ newline @ '' */'' @ newline | None \<Rightarrow> []))"

definition payload_name :: "webhook \<Rightarrow> string" where
  "payload_name wh = pascal (wh_name wh) @ ''WebhookPayload''"

definition collect_webhooks :: "webhook list \<Rightarrow> (string \<times> string) list" where
  "collect_webhooks webhooks =
     [(''src/webhooks.ts'',
       ''/* eslint-disable */'' @ newline @ ''// Generated webhook types. DO NOT EDIT.'' @ newline @ newline
       @ concat (map (\<lambda>wh. webhook_doc wh @ ''export type '' @ payload_name wh @ '' = ''
           @ (case wh_request_body wh of Some rb \<Rightarrow> render (rb_ty rb) | None \<Rightarrow> ''unknown'') @ '';'' @ newline @ newline) webhooks)
       @ ''/**'' @ newline @ '' * A webhook handler receives a typed payload and returns void (or a Promise<void>).'' @ newline
       @ '' */'' @ newline
       @ ''export type WebhookHandler<T> = (payload: T) => Promise<void> | void;'' @ newline @ newline
       @ concat (map (\<lambda>wh. ''/**'' @ newline @ '' * Create a typed handler for the `'' @ wh_name wh @ ''` webhook.'' @ newline @ '' */'' @ newline
           @ ''export function '' @ camel (''create_'' @ wh_name wh @ ''_webhook_handler'')
           @ ''(handler: WebhookHandler<'' @ payload_name wh @ ''>): WebhookHandler<'' @ payload_name wh @ ''> {'' @ newline
           @ ''  return handler;'' @ newline @ ''}'' @ newline @ newline) webhooks))]"

definition escape_message :: "string \<Rightarrow> string" where
  "escape_message v = replace_char (CHR 10) [CHR 92, CHR ''n''] (escape_quotes v)"

definition short_key :: "string \<Rightarrow> string" where
  "short_key key = (case strip_prefix ''errors.'' key of Some k \<Rightarrow> k | None \<Rightarrow> key)"

definition locale_const :: "string \<Rightarrow> (string \<times> string) list \<Rightarrow> string" where
  "locale_const l messages =
     ''export const '' @ l @ '' = {'' @ newline @ ''  errors: {'' @ newline
     @ concat (map (\<lambda>(key, v). ''    '' @ short_key key @ '': '' @ dquote @ escape_message v @ dquote @ '','' @ newline)
         (sort_key fst messages))
     @ ''  },'' @ newline @ ''};'' @ newline @ newline"

text \<open>\<open>src/i18n.ts\<close> up to its fixed \<open>t\<close> helper, which is an argument.\<close>

definition collect_i18n :: "string \<Rightarrow> i18n_config \<Rightarrow> (string \<times> string) list" where
  "collect_i18n t_helper config =
     [(''src/i18n.ts'',
       ''/* eslint-disable */'' @ newline @ ''// Generated i18n translations. DO NOT EDIT.'' @ newline @ newline
       @ concat (map (\<lambda>(l, messages). locale_const l messages) (ic_translations config))
       @ ''/** Available locale codes. */'' @ newline
       @ ''export type Locale = '' @ join '' | '' (map (\<lambda>l. dquote @ l @ dquote) (i18n_locales config)) @ '';'' @ newline @ newline
       @ ''/** All translation maps keyed by locale code. */'' @ newline
       @ ''export const locales: Record<Locale, typeof en> = {'' @ newline
       @ concat (map (\<lambda>l. ''  '' @ l @ '','' @ newline) (i18n_locales config))
       @ ''};'' @ newline @ newline
       @ ''/** Default locale code. */'' @ newline @ ''export const defaultLocale: Locale = '' @ dquote @ ic_default_locale config @ dquote @ '';''
       @ newline @ newline @ t_helper)]"

text \<open>The tags of the barrels: only the operations that have a tag.\<close>

definition index_tags :: "document \<Rightarrow> string list" where
  "index_tags doc = sorted_list_of_set (pascal ` set (List.map_filter op_tag (doc_operations doc)))"

definition model_exports :: "document \<Rightarrow> string" where
  "model_exports doc =
     concat (map (\<lambda>nm. ''export * from '' @ dquote @ ''./models/'' @ model_file_stem (snd nm) @ dquote @ '';'' @ newline) (doc_schemas doc))"

definition client_type :: "string list \<Rightarrow> string" where
  "client_type tags =
     (if tags = [] then ''export interface SdkClient {}'' @ newline @ newline
      else ''export interface SdkClient {'' @ newline
        @ join newline (map (\<lambda>t. ''  '' @ camel t @ '': '' @ t @ ''Api;'') tags) @ newline @ ''}'' @ newline @ newline)"

definition client_factory :: "string list \<Rightarrow> string" where
  "client_factory tags =
     (if tags = [] then ''  return {};''
      else ''  return {'' @ newline @ join newline (map (\<lambda>t. ''    '' @ camel t @ '': new '' @ t @ ''Api(client),'') tags) @ newline @ ''  };'')"

text \<open>\<open>src/index.ts\<close> without its fixed comments and runtime exports (the argument \<open>head\<close>).\<close>

definition collect_index :: "string \<Rightarrow> document \<Rightarrow> bool \<Rightarrow> (string \<times> string) list" where
  "collect_index head doc has_i18n =
     (let tags = index_tags doc in
      [(''src/index.ts'',
        head @ model_exports doc
        @ (if doc_webhooks doc \<noteq> [] then ''export * from '' @ dquote @ ''./webhooks'' @ dquote @ '';'' @ newline else [])
        @ (if has_i18n then ''export * from '' @ dquote @ ''./i18n'' @ dquote @ '';'' @ newline else [])
        @ newline
        @ concat (map (\<lambda>t. ''import { '' @ t @ ''Api } from '' @ dquote @ ''./api/'' @ t @ dquote @ '';'' @ newline) tags)
        @ (if tags \<noteq> [] then newline else [])
        @ ''import { ApiClient } from '' @ dquote @ ''./client'' @ dquote @ '';'' @ newline
        @ ''import type { ApiClientOptions } from '' @ dquote @ ''./client'' @ dquote @ '';'' @ newline @ newline
        @ client_type tags
        @ ''/**'' @ newline @ '' * Construct the SDK client. Each tag becomes a namespaced property.'' @ newline @ '' *'' @ newline
        @ '' * NOTE: This factory imports all tag modules. For tree-shakeable code,'' @ newline
        @ '' * import individual tag modules directly instead of using createClient.'' @ newline @ '' */'' @ newline
        @ ''export function createClient(options: ApiClientOptions = {}): SdkClient {'' @ newline
        @ ''  const client = new ApiClient(options);'' @ newline @ client_factory tags @ newline @ ''}'' @ newline)])"

definition collect_api_index :: "string \<Rightarrow> document \<Rightarrow> (string \<times> string) list" where
  "collect_api_index head doc =
     [(''src/api/index.ts'',
       head @ concat (map (\<lambda>tag. ''export * from '' @ dquote @ ''./'' @ tag @ dquote @ '';'' @ newline) (index_tags doc)))]"

definition collect_version_file :: "string \<Rightarrow> string \<Rightarrow> document \<Rightarrow> string \<times> string" where
  \<open>collect_version_file cargo_version timestamp doc =
     (''specforge-version.json'',
      ''{"specforge_version":"'' @ cargo_version @ ''","ir_version":"'' @ doc_ir_version doc
      @ ''","spec_version":"'' @ doc_version doc @ ''","generated_at":"'' @ timestamp @ ''"}'')\<close>

section \<open>The package\<close>

definition package_paths :: "string list" where
  "package_paths = [''package.json'', ''tsconfig.json'', ''tsup.config.ts'', ''README.md'', ''.gitignore'']"

definition runtime_paths :: "string list" where
  "runtime_paths =
     [''src/errors.ts'', ''src/auth.ts'', ''src/retry.ts'', ''src/paginate.ts'', ''src/concurrency.ts'', ''src/dedup.ts'',
      ''src/idempotency.ts'', ''src/middleware.ts'', ''src/interceptors.ts'', ''src/streaming.ts'', ''src/validate.ts'',
      ''src/cache.ts'', ''src/ratelimit.ts'', ''src/telemetry.ts'', ''src/logging.ts'', ''src/validation-middleware.ts'',
      ''src/service_container.ts'', ''src/client.ts'']"

definition model_files :: "document \<Rightarrow> (string \<times> string) list" where
  "model_files doc =
     map (\<lambda>nm. (''src/models/'' @ model_file_stem (snd nm) @ ''.ts'', emit_model_file_with_registry (snd nm) (Some (doc_schemas doc))))
       (doc_schemas doc)"

record fixed_text =
  ft_file :: "document \<Rightarrow> string \<Rightarrow> string"
  ft_index_head :: string
  ft_api_head :: string
  ft_t_helper :: string
  ft_cargo_version :: string
  ft_timestamp :: string

text \<open>The files \<open>generate\<close> writes, in the order they are collected.\<close>

definition generate_files :: "fixed_text \<Rightarrow> document \<Rightarrow> generator_options \<Rightarrow> (string \<times> string) list" where
  "generate_files ft doc opts =
     map (\<lambda>p. (p, ft_file ft doc p)) (package_paths @ runtime_paths)
     @ model_files doc
     @ collect_operations doc
     @ (if doc_webhooks doc \<noteq> [] then collect_webhooks (doc_webhooks doc) else [])
     @ (case go_i18n opts of Some i18n \<Rightarrow> collect_i18n (ft_t_helper ft) i18n | None \<Rightarrow> [])
     @ collect_index (ft_index_head ft) doc (go_i18n opts \<noteq> None)
     @ collect_api_index (ft_api_head ft) doc
     @ [collect_version_file (ft_cargo_version ft) (ft_timestamp ft) doc]"

text \<open>The paths \<open>generate\<close> returns.\<close>

definition generate_written :: "fixed_text \<Rightarrow> document \<Rightarrow> generator_options \<Rightarrow> string list" where
  "generate_written ft doc opts = sort (map fst (generate_files ft doc opts))"

section \<open>The emitted translation helper\<close>

text \<open>
  The helper \<open>t(key, locale)\<close> of the emitted i18n.ts, without interpolation parameters: the translation map of a
  locale is the emitted constant, an object whose only key is \<open>errors\<close>. None stands for the exception thrown
  when neither the locale nor the default locale has a map; the value of the key \<open>errors\<close> is an object.
\<close>

datatype t_result = Message string | ErrorsObject "(string \<times> string) list"

definition emitted_t :: "i18n_config \<Rightarrow> string \<Rightarrow> string \<Rightarrow> t_result option" where
  "emitted_t config key l =
     (case (case map_of (ic_translations config) l of
              Some m \<Rightarrow> Some m | None \<Rightarrow> map_of (ic_translations config) (ic_default_locale config)) of
        None \<Rightarrow> None
      | Some messages \<Rightarrow>
          Some (if key = ''errors'' then ErrorsObject (map (\<lambda>(k, v). (short_key k, v)) (sort_key fst messages)) else Message key))"

section \<open>Paths\<close>

lemma pascal_not_index: "pascal t \<noteq> ''index''"
  using pascal_not_reserved pascal_shape [of t] by (auto simp: is_ascii_upper_def byte_def)

lemma fst_collect_operations:
  "map fst (collect_operations doc) = map (\<lambda>t. ''src/api/'' @ pascal t @ ''.ts'') (map fst (group_by_tag (doc_operations doc)))"
  by (simp add: collect_operations_def comp_def case_prod_beta)

lemma fst_model_files:
  "map fst (model_files doc) = map (\<lambda>n. ''src/models/'' @ n @ ''.ts'') (map (\<lambda>nm. model_file_stem (snd nm)) (doc_schemas doc))"
  by (simp add: model_files_def comp_def)

text \<open>The paths that follow the tag files.\<close>

definition end_paths :: "bool \<Rightarrow> bool \<Rightarrow> string list" where
  "end_paths webhooks i18n =
     (if webhooks then [''src/webhooks.ts''] else []) @ (if i18n then [''src/i18n.ts''] else [])
     @ [''src/index.ts'', ''src/api/index.ts'', ''specforge-version.json'']"

lemma fst_generate_files:
  "map fst (generate_files ft doc opts) =
     (package_paths @ runtime_paths)
     @ map (\<lambda>n. ''src/models/'' @ n @ ''.ts'') (map (\<lambda>nm. model_file_stem (snd nm)) (doc_schemas doc))
     @ map (\<lambda>n. ''src/api/'' @ n @ ''.ts'') (map (\<lambda>g. pascal (fst g)) (group_by_tag (doc_operations doc)))
     @ end_paths (doc_webhooks doc \<noteq> []) (go_i18n opts \<noteq> None)"
  unfolding generate_files_def map_append fst_model_files fst_collect_operations
  by (auto simp: comp_def collect_webhooks_def collect_i18n_def collect_index_def collect_api_index_def collect_version_file_def
    end_paths_def Let_def split: option.splits)

lemma fixed_paths:
  "distinct (package_paths @ runtime_paths)" "distinct (end_paths w i)"
  "set (package_paths @ runtime_paths) \<inter> set (end_paths w i) = {}"
  "\<forall>p \<in> set (package_paths @ runtime_paths). \<not> starts_with p ''src/models/'' \<and> \<not> starts_with p ''src/api/''"
  "\<forall>p \<in> set (end_paths w i). \<not> starts_with p ''src/models/'' \<and> (starts_with p ''src/api/'' \<longrightarrow> p = ''src/api/index.ts'')"
  by (auto simp: package_paths_def runtime_paths_def end_paths_def starts_with_def)

lemma distinct_paths:
  assumes M: "\<forall>p \<in> set M. starts_with p ''src/models/''"
    and T: "\<forall>p \<in> set T. starts_with p ''src/api/'' \<and> p \<noteq> ''src/api/index.ts''"
  shows "distinct ((package_paths @ runtime_paths) @ M @ T @ end_paths w i) \<longleftrightarrow> distinct M \<and> distinct T"
proof -
  let ?A = "package_paths @ runtime_paths"
  have "set M \<inter> set T = {}" using M T by (force simp: starts_with_iff)
  moreover have "set ?A \<inter> set M = {}" "set ?A \<inter> set T = {}" using M T fixed_paths(4) by blast+
  moreover have "set M \<inter> set (end_paths w i) = {}" "set T \<inter> set (end_paths w i) = {}" using M T fixed_paths(5) [of w i] by blast+
  ultimately show ?thesis
    using fixed_paths(1) fixed_paths(2) [of w i] fixed_paths(3) [of w i]
    by (simp only: distinct_append [where xs = ?A] distinct_append [where xs = M] distinct_append [where xs = T]
      set_append [where xs = M] set_append [where xs = T]) blast
qed

lemma distinct_map_inj: "inj f \<Longrightarrow> distinct (map f xs) \<longleftrightarrow> distinct xs"
  by (simp add: distinct_map inj_on_subset [of f UNIV])

definition no_fixed_text :: fixed_text where
  "no_fixed_text = \<lparr>ft_file = (\<lambda>doc p. []), ft_index_head = [], ft_api_head = [], ft_t_helper = [], ft_cargo_version = [], ft_timestamp = []\<rparr>"

definition no_options :: generator_options where
  "no_options = \<lparr>go_package_name = None, go_i18n = None\<rparr>"

section \<open>Properties\<close>

text \<open>
  No two of the files that are written in parallel have the same path, exactly when the model
  names and the tag names stay different as TypeScript names; then the result of the generation does
  not depend on the order of the writes.
\<close>

theorem ts_paths_distinct:
  "distinct (map fst (generate_files ft doc opts)) \<longleftrightarrow>
     distinct (map (\<lambda>nm. model_file_stem (snd nm)) (doc_schemas doc)) \<and>
     distinct (map (\<lambda>g. pascal (fst g)) (group_by_tag (doc_operations doc)))"
proof -
  let ?models = "map (\<lambda>nm. model_file_stem (snd nm)) (doc_schemas doc)"
  let ?tags = "map (\<lambda>g. pascal (fst g)) (group_by_tag (doc_operations doc))"
  let ?M = "map (\<lambda>n. ''src/models/'' @ n @ ''.ts'') ?models" and ?T = "map (\<lambda>n. ''src/api/'' @ n @ ''.ts'') ?tags"
  have "distinct ?M = distinct ?models" "distinct ?T = distinct ?tags"
    by (rule distinct_map_inj; auto intro: injI)+
  moreover have "\<forall>p \<in> set ?M. starts_with p ''src/models/''" "\<forall>p \<in> set ?T. starts_with p ''src/api/'' \<and> p \<noteq> ''src/api/index.ts''"
    using pascal_not_index by (auto simp: starts_with_def)
  then have "distinct ((package_paths @ runtime_paths) @ ?M @ ?T @ end_paths w i) \<longleftrightarrow> distinct ?M \<and> distinct ?T" for w i
    by (rule distinct_paths)
  ultimately show ?thesis unfolding fst_generate_files by (simp add: comp_def)
qed

text \<open>
  An operation without a tag is written to a file of its own class, but the class is in no barrel
  and not part of the client, unless another operation has a tag that is written the same way.
\<close>

theorem untagged_api_unreachable:
  assumes "op \<in> set (doc_operations doc)" and "op_tag op = None"
    and "\<forall>op' \<in> set (doc_operations doc). \<forall>t. op_tag op' = Some t \<longrightarrow> pascal t \<noteq> pascal ''Default''"
  shows "''src/api/'' @ pascal ''Default'' @ ''.ts'' \<in> fst ` set (generate_files ft doc opts) \<and>
    pascal ''Default'' \<notin> set (index_tags doc)"
proof -
  have "map_of (group_by_tag (doc_operations doc)) ''Default'' \<noteq> None"
    using assms(1,2) by (auto simp: group_by_tag_lookup filter_empty_conv tag_of_def intro!: bexI [of _ op])
  then obtain g where "g \<in> set (group_by_tag (doc_operations doc))" "fst g = ''Default''"
    by (metis fst_conv map_of_SomeD option.exhaust)
  then have "''src/api/'' @ pascal ''Default'' @ ''.ts'' \<in> set (map fst (generate_files ft doc opts))"
    unfolding fst_generate_files by (force simp: image_iff)
  moreover have "pascal ''Default'' \<notin> set (index_tags doc)"
    using assms(3) by (auto simp: index_tags_def map_filter_def)
  ultimately show ?thesis by simp
qed

theorem untagged_api_unreachable_witness:
  "\<exists>doc. doc_operations doc \<noteq> [] \<and>
     ''src/api/'' @ pascal ''Default'' @ ''.ts'' \<in> fst ` set (generate_files no_fixed_text doc no_options) \<and> index_tags doc = []"
proof -
  let ?op = "\<lparr>op_operation_id = ''ping'', op_method = Get, op_path = ''/ping'', op_tag = None, op_summary = None,
    op_description = None, op_parameters = [], op_request_body = None, op_responses = [], op_retry_policy = None\<rparr>"
  let ?doc = "\<lparr>doc_ir_version = ''1'', doc_title = ''T'', doc_version = ''1'', doc_base_url = None, doc_security = [],
    doc_schemas = [], doc_operations = [?op], doc_webhooks = []\<rparr>"
  have "''src/api/'' @ pascal ''Default'' @ ''.ts'' \<in> fst ` set (generate_files no_fixed_text ?doc no_options)"
    using untagged_api_unreachable [of ?op ?doc no_fixed_text no_options] by simp
  moreover have "index_tags ?doc = []" by (simp add: index_tags_def map_filter_simps)
  ultimately show ?thesis by (intro exI [of _ ?doc]) simp
qed

text \<open>
  The helper emitted for localised messages never finds one: it looks for the dotted key among
  the keys of an object that has the single key \<open>errors\<close>, and returns the key for every locale.
\<close>

theorem emitted_i18n_never_translates:
  assumes "l \<in> set ls" and "key \<in> set error_keys"
  shows "emitted_t (from_locales ls) key l = Some (Message key)"
  using assms by (auto simp: emitted_t_def from_locales_lookup error_keys_def)

theorem emitted_i18n_never_translates_witness:
  "emitted_t (from_locales [''es'']) ''errors.network'' ''es'' = Some (Message ''errors.network'') \<and>
   i18n_t (from_locales [''es'']) ''errors.network'' ''es'' = ''Error de red''"
  using emitted_i18n_never_translates [of "''es''" "[''es'']" "''errors.network''"]
  by (simp add: error_keys_def i18n_t_def from_locales_lookup default_translations_lookup locale_tables_def messages_es_def)

end
