(* ===== verification/Emit_Common.thy ===== *)
theory Emit_Common
  imports Ts_Package Deprecation
begin

text \<open>
  What the Go and Rust emitters (crates/specforge-go/src/lib.rs, crates/specforge-rust/src/lib.rs) share: both files have
  their own copy of these functions. Names of models are written \<open>pascal\<close>; fields of one struct are kept apart by a
  counter; and a path is cut at its placeholders.
\<close>

section \<open>Text\<close>

definition tab :: string where "tab = [CHR 9]"

definition text_of_lines :: "string list \<Rightarrow> string" where
  "text_of_lines ls = concat (map (\<lambda>l. l @ newline) ls)"

section \<open>Names\<close>

text \<open>The emitters' \<open>pascal\<close> puts an \<open>X\<close> where the TypeScript one puts an underscore.\<close>

definition sdk_pascal :: "string \<Rightarrow> string" where
  "sdk_pascal input =
     (let out = pascal_chars True input
      in case out of [] \<Rightarrow> ''X'' | c # _ \<Rightarrow> if is_ascii_digit c then CHR ''X'' # out else out)"

lemma sdk_pascal_shape: "\<exists>c cs. sdk_pascal s = c # cs \<and> is_ascii_upper c \<and> list_all is_ascii_alphanumeric cs"
proof (cases "pascal_chars True s")
  case Nil
  then show ?thesis by (simp add: sdk_pascal_def ascii_defs byte_def)
next
  case (Cons c cs)
  have "is_ascii_alphanumeric c" "to_ascii_upper c = c" using pascal_chars_head [OF Cons] by auto
  moreover have "list_all is_ascii_alphanumeric (c # cs)" using pascal_chars_alphanumeric [of True s] Cons by simp
  ultimately show ?thesis
    using to_ascii_upper_fixed [of c] Cons
    by (auto simp: sdk_pascal_def is_ascii_alphanumeric_def) (auto simp: ascii_defs byte_def)
qed

lemma sdk_pascal_alphanumeric: "list_all is_ascii_alphanumeric (sdk_pascal s)"
  using sdk_pascal_shape [of s] by (auto simp: is_ascii_alphanumeric_def is_ascii_alphabetic_def)

lemma sdk_pascal_idem: "sdk_pascal (sdk_pascal s) = sdk_pascal s"
proof -
  obtain c cs where c: "sdk_pascal s = c # cs" "is_ascii_upper c" "list_all is_ascii_alphanumeric cs"
    using sdk_pascal_shape by blast
  then have "is_ascii_alphanumeric c" "to_ascii_upper c = c" "\<not> is_ascii_digit c"
    by (auto simp: ascii_defs to_ascii_upper_def)
  with c show ?thesis by (simp add: sdk_pascal_def [of "c # cs"] pascal_chars_idle)
qed

lemma alphanumeric_show_nat: "list_all is_ascii_alphanumeric (show_nat n)"
  using digits_show_nat by (auto simp: list_all_iff is_ascii_alphanumeric_def)

section \<open>Fields of one struct\<close>

text \<open>The loop of \<open>unique_field_name\<close>: \<open>sep\<close> is what stands between the name and the counter.\<close>

function unique_from :: "string \<Rightarrow> string \<Rightarrow> nat \<Rightarrow> string \<Rightarrow> string list \<Rightarrow> string" where
  "unique_from sep base n candidate used =
     (if candidate \<in> set used then unique_from sep base (Suc n) (base @ sep @ show_nat n) used else candidate)"
  by pat_completeness auto
termination
proof (relation "measure (\<lambda>(sep, base, n, candidate, used).
    card {m. n \<le> m \<and> base @ sep @ show_nat m \<in> set used} + (if candidate \<in> set used then 1 else 0))", simp, goal_cases)
  case (1 sep base n candidate used)
  then have c: "candidate \<in> set used" .
  let ?A = "\<lambda>n. {m. n \<le> m \<and> base @ sep @ show_nat m \<in> set used}"
  have "finite (?A k)" for k
  proof (rule finite_imageD)
    show "finite ((\<lambda>m. base @ sep @ show_nat m) ` ?A k)" by (rule finite_subset [of _ "set used"]) auto
    show "inj_on (\<lambda>m. base @ sep @ show_nat m) (?A k)" by (simp add: inj_on_def)
  qed
  moreover have "?A n = ?A (Suc n) \<union> (if base @ sep @ show_nat n \<in> set used then {n} else {})"
    using le_eq_less_or_eq by (auto simp: Suc_le_eq)
  ultimately have "card (?A n) = card (?A (Suc n)) + (if base @ sep @ show_nat n \<in> set used then 1 else 0)"
    by (simp add: card_insert_if)
  with c show ?case by simp
qed

declare unique_from.simps [simp del]

definition unique_name :: "string \<Rightarrow> string \<Rightarrow> string list \<Rightarrow> string" where
  "unique_name sep base used = unique_from sep base 2 base used"

text \<open>The names given to a list of fields, one after the other, with the names in use before.\<close>

fun unique_names :: "string \<Rightarrow> string list \<Rightarrow> string list \<Rightarrow> string list" where
  "unique_names sep used [] = []"
| "unique_names sep used (base # bases) =
     (let name = unique_name sep base used in name # unique_names sep (used @ [name]) bases)"

lemma unique_from_fresh: "unique_from sep base n candidate used \<notin> set used"
  by (induction sep base n candidate used rule: unique_from.induct) (subst unique_from.simps, simp)

lemma unique_from_form:
  "unique_from sep base n candidate used = candidate \<or> (\<exists>m \<ge> n. unique_from sep base n candidate used = base @ sep @ show_nat m)"
proof (induction sep base n candidate used rule: unique_from.induct)
  case (1 sep base n candidate used)
  show ?case
  proof (cases "candidate \<in> set used")
    case True
    with 1 show ?thesis by (subst (1 2) unique_from.simps) (auto intro: Suc_leD)
  next
    case False
    then show ?thesis by (simp add: unique_from.simps)
  qed
qed

lemma unique_name_form: "unique_name sep base used = base \<or> (\<exists>m \<ge> 2. unique_name sep base used = base @ sep @ show_nat m)"
  using unique_from_form [of sep base 2 base used] by (simp add: unique_name_def)

lemma unique_name_free: "base \<notin> set used \<Longrightarrow> unique_name sep base used = base"
  by (simp add: unique_name_def unique_from.simps)

lemma unique_names_distinct: "distinct (unique_names sep used bases) \<and> set (unique_names sep used bases) \<inter> set used = {}"
proof (induction bases arbitrary: used)
  case (Cons base bases)
  then show ?case
    using unique_from_fresh [of sep base 2 base used] by (fastforce simp: Let_def unique_name_def)
qed simp

lemma length_unique_names [simp]: "length (unique_names sep used bases) = length bases"
  by (induction bases arbitrary: used) (auto simp: Let_def)

lemma unique_names_idle:
  "distinct bases \<Longrightarrow> set bases \<inter> set used = {} \<Longrightarrow> unique_names sep used bases = bases"
  by (induction bases arbitrary: used) (auto simp: Let_def unique_name_free)

text \<open>Each name is the one asked for, or that name with a counter.\<close>

lemma unique_names_form:
  "i < length bases \<Longrightarrow> unique_names sep used bases ! i = bases ! i \<or>
   (\<exists>m \<ge> 2. unique_names sep used bases ! i = bases ! i @ sep @ show_nat m)"
proof (induction bases arbitrary: used i)
  case (Cons base bases)
  then show ?case using unique_name_form [of sep base used] by (cases i) (auto simp: Let_def)
qed simp

section \<open>Paths\<close>

text \<open>
  The loop of \<open>build_path_concat\<close> and \<open>build_rust_path\<close>: literal texts and the names in braces; an opening brace without a
  closing one begins a last literal. The loops leave out or keep empty literals; here they are kept.
\<close>

function cut_path :: "string \<Rightarrow> path_part list" where
  "cut_path rest =
     (case find_char (CHR ''{'') rest of
        None \<Rightarrow> [Lit rest]
      | Some start \<Rightarrow>
          (let lit = take start rest; after = drop start rest in
           case find_char (CHR ''}'') after of
             None \<Rightarrow> [Lit lit, Lit after]
           | Some len \<Rightarrow> Lit lit # Param (take (len - 1) (drop 1 after)) # cut_path (drop (len + 1) after)))"
  by pat_completeness auto
termination
proof (relation "measure length", simp, goal_cases)
  case (1 rest start lit after len)
  then obtain u v where "rest = u @ CHR ''{'' # v" "length u = start" using find_char_Some by blast
  with 1 show ?case by simp
qed

declare cut_path.simps [simp del]

lemma cut_path_step:
  assumes "CHR ''{'' \<notin> set u" and "CHR ''}'' \<notin> set p"
  shows "cut_path (u @ ''{'' @ p @ ''}'' @ rest) = Lit u # Param p # cut_path rest"
proof -
  have "find_char (CHR ''{'') (u @ ''{'' @ p @ ''}'' @ rest) = Some (length u)" using find_char_append [OF assms(1)] by simp
  moreover have "find_char (CHR ''}'') ((CHR ''{'' # p) @ CHR ''}'' # rest) = Some (length (CHR ''{'' # p))"
    using assms(2) by (intro find_char_append) simp
  ultimately show ?thesis by (simp add: cut_path.simps [of "u @ CHR ''{'' # p @ CHR ''}'' # rest"])
qed

lemma cut_path_literal: "CHR ''{'' \<notin> set u \<Longrightarrow> cut_path u = [Lit u]"
  using find_char_None [of "CHR ''{''" u] by (simp add: cut_path.simps)

lemma path_cases:
  obtains "CHR ''{'' \<notin> set rest"
  | u v where "rest = u @ CHR ''{'' # v" "CHR ''{'' \<notin> set u" "CHR ''}'' \<notin> set v"
  | u p q where "rest = u @ ''{'' @ p @ ''}'' @ q" "CHR ''{'' \<notin> set u" "CHR ''}'' \<notin> set p"
proof (cases "CHR ''{'' \<in> set rest")
  case True
  then obtain u v where r: "rest = u @ CHR ''{'' # v" "CHR ''{'' \<notin> set u" by (meson split_list_first)
  show ?thesis
  proof (cases "CHR ''}'' \<in> set v")
    case True
    then obtain p q where "v = p @ CHR ''}'' # q" "CHR ''}'' \<notin> set p" by (meson split_list_first)
    with r that(3) show ?thesis by simp
  qed (use r that(2) in blast)
qed (use that(1) in blast)

lemma cut_path_open:
  assumes "CHR ''{'' \<notin> set u" and "CHR ''}'' \<notin> set v"
  shows "cut_path (u @ CHR ''{'' # v) = [Lit u, Lit (CHR ''{'' # v)]"
  using find_char_append [OF assms(1), of v] find_char_None [of "CHR ''}''" "CHR ''{'' # v"] assms(2)
  by (simp add: cut_path.simps [of "u @ CHR ''{'' # v"])

lemma cut_path_text: "concat (map part_str (cut_path rest)) = rest"
proof (induction "length rest" arbitrary: rest rule: less_induct)
  case less
  show ?case
  proof (cases rest rule: path_cases)
    case 1
    then show ?thesis by (simp add: cut_path_literal)
  next
    case (2 u v)
    then show ?thesis by (simp add: cut_path_open)
  next
    case (3 u p q)
    then show ?thesis using less [of q] cut_path_step [of u p q] by simp
  qed
qed

section \<open>Discriminators\<close>

text \<open>Only an enum written in place counts as the own value of an arm here; the mapping is looked at next.\<close>

definition inline_discriminant :: "string \<Rightarrow> string \<Rightarrow> schema_registry \<Rightarrow> string option" where
  "inline_discriminant arm_name prop registry =
     (case registry_get registry arm_name of
        Some (MObject obj) \<Rightarrow>
          (case List.find (\<lambda>p. prop_name p = prop) (om_properties obj) of
             Some p \<Rightarrow> (case prop_ty p of TStringEnum [v] _ \<Rightarrow> Some v | _ \<Rightarrow> None)
           | None \<Rightarrow> None)
      | _ \<Rightarrow> None)"

definition sdk_discriminant :: "string \<Rightarrow> string \<Rightarrow> schema_registry \<Rightarrow> discriminator \<Rightarrow> string option" where
  "sdk_discriminant arm_name prop registry disc =
     (case inline_discriminant arm_name prop registry of
        Some v \<Rightarrow> Some v
      | None \<Rightarrow> mapped_discriminant arm_name (Some disc))"

text \<open>Where the emitters find a value of an arm's own, the TypeScript emitter finds the same.\<close>

lemma inline_discriminant_own:
  "inline_discriminant arm_name prop registry = Some v \<Longrightarrow> own_discriminant arm_name prop registry = Some v"
  by (auto simp: inline_discriminant_def own_discriminant_def split: option.splits model.splits ir_type.splits list.splits)

section \<open>Comments\<close>

text \<open>A text of several lines, each made into a line of its own.\<close>

definition comment_lines :: "(string \<Rightarrow> string) \<Rightarrow> string \<Rightarrow> string" where
  "comment_lines f text = concat (map (\<lambda>l. f l @ newline) (str_lines text))"

lemma set_replace_sub: "set (replace_sub p r s) \<subseteq> set r \<union> set s"
proof (induction "length s" arbitrary: s rule: less_induct)
  case less
  show ?case
  proof (cases s)
    case (Cons x xs)
    have "set (replace_sub p r xs) \<subseteq> set r \<union> set xs" using less Cons by simp
    moreover have "set (replace_sub p r (drop (length p) s)) \<subseteq> set r \<union> set s" if "p \<noteq> []"
      using less [of "drop (length p) s"] that Cons set_drop_subset [of "length p" s] by auto
    ultimately show ?thesis using Cons by (auto simp: replace_sub.simps [of p r "x # xs"] split: if_splits)
  qed simp
qed

lemma str_lines_single: "l \<in> set (str_lines text) \<Longrightarrow> CHR 10 \<notin> set l"
proof -
  assume l: "l \<in> set (str_lines text)"
  have "set (strip_cr x) \<subseteq> set x" for x by (auto simp: strip_cr_def dest: in_set_butlastD)
  moreover have "CHR 10 \<notin> set p" if "p \<in> set (split_on (CHR 10) text)" for p using split_on_pieces [OF that] .
  moreover have "\<exists>p \<in> set (split_on (CHR 10) text). l = p \<or> l = strip_cr p"
  proof -
    have "set (if last ps = [] then butlast ps else ps) \<subseteq> set ps" for ps :: "string list" by (auto dest: in_set_butlastD)
    then show ?thesis
      using l unfolding str_lines_def Let_def
      by (auto split: if_splits dest!: in_set_butlastD) (metis in_set_butlastD last_in_set)+
  qed
  ultimately show ?thesis by blast
qed

lemma split_comment_lines:
  assumes "\<forall>l \<in> set ls. CHR 10 \<notin> set l"
  shows "split_on (CHR 10) (concat (map (\<lambda>l. l @ newline) ls)) = ls @ [[]]"
  using assms by (induction ls) (auto simp: newline_def split_on_append_sep split_on_no_sep)

lemma comment_lines_prefixed:
  assumes "CHR 10 \<notin> set pre" and "\<And>l. CHR 10 \<notin> set l \<Longrightarrow> CHR 10 \<notin> set (f l)"
  shows "\<exists>ls. split_on (CHR 10) (comment_lines (\<lambda>l. pre @ f l) text) = ls @ [[]] \<and>
    length ls = length (str_lines text) \<and> list_all (\<lambda>l. starts_with l pre) ls"
proof -
  let ?ls = "map (\<lambda>l. pre @ f l) (str_lines text)"
  have "split_on (CHR 10) (concat (map (\<lambda>l. l @ newline) ?ls)) = ?ls @ [[]]"
    using assms str_lines_single by (intro split_comment_lines) auto
  moreover have "comment_lines (\<lambda>l. pre @ f l) text = concat (map (\<lambda>l. l @ newline) ?ls)"
    by (simp add: comment_lines_def comp_def)
  ultimately show ?thesis by (intro exI [of _ ?ls]) (simp add: list_all_iff)
qed

section \<open>Models\<close>

text \<open>A model that is a union: an alias of a \<open>oneOf\<close> or \<open>anyOf\<close>, without properties.\<close>

definition union_of :: "object_model \<Rightarrow> (ir_type list \<times> discriminator option) option" where
  "union_of obj =
     (case om_shape_type obj of
        Some (TComposition kind members disc) \<Rightarrow>
          if kind \<noteq> AllOf \<and> om_properties obj = [] then Some (members, disc) else None
      | _ \<Rightarrow> None)"

text \<open>The properties of a struct that its embedded base type does not have.\<close>

definition base_name :: "object_model \<Rightarrow> string option" where
  "base_name obj = (case om_base_type obj of Some (TReference base _ _) \<Rightarrow> Some base | _ \<Rightarrow> None)"

definition in_base :: "schema_registry \<Rightarrow> object_model \<Rightarrow> property \<Rightarrow> bool" where
  "in_base registry obj p \<longleftrightarrow>
     (case Option.bind (base_name obj) (registry_get registry) of
        Some (MObject base_obj) \<Rightarrow> (\<exists>bp \<in> set (om_properties base_obj). prop_name bp = prop_name p)
      | _ \<Rightarrow> False)"

definition own_properties :: "schema_registry \<Rightarrow> object_model \<Rightarrow> property list" where
  "own_properties registry obj = filter (\<lambda>p. \<not> in_base registry obj p) (om_properties obj)"

end
