(* ===== verification/Go_Models.thy ===== *)
theory Go_Models
  imports Emit_Common Type_Meaning
begin

text \<open>
  crates/specforge-go/src/lib.rs: names, types, models.go and validate.go of the generated Go module. The fixed texts of
  validate.go are an argument of \<open>go_emit_validate\<close>.
\<close>

section \<open>Names and literals\<close>

definition go_sdk_builtin_types :: "string list" where
  "go_sdk_builtin_types =
     [''ValidationError'', ''ValidationErrors'', ''TokenBucket'', ''TelemetryHooks'', ''StreamMiddleware'', ''SseIterator'',
      ''SlidingWindow'', ''ServiceContainer'', ''ServerSentEvent'', ''Semaphore'', ''RouteSchemaMap'', ''RetryOptions'',
      ''ResponseTransformer'', ''ResponseInterceptor'', ''ResponseCache'', ''RequestInterceptor'', ''RequestDeduper'',
      ''RateLimiter'', ''OffsetPage'', ''MiddlewareResponse'', ''MiddlewareRequest'', ''Middleware'', ''MetricsCollector'',
      ''Metrics'', ''CursorPage'', ''Client'', ''Auth'', ''Logger'', ''WebhookHandler'']"

definition go_is_sdk_builtin_type :: "string \<Rightarrow> bool" where
  "go_is_sdk_builtin_type name \<longleftrightarrow> name \<in> set go_sdk_builtin_types"

definition export_ident :: "string \<Rightarrow> string" where
  "export_ident input =
     (let name = sdk_pascal input in if go_is_sdk_builtin_type name then name @ ''Model'' else name)"

definition go_snake :: "string \<Rightarrow> string" where
  "go_snake input = concat (map (\<lambda>(i, ch).
     if is_ascii_upper ch then (if i > 0 then ''_'' else []) @ [to_ascii_lower ch]
     else if is_ascii_alphanumeric ch then [ch] else ''_'') (List.enumerate 0 input))"

definition go_reserved_words :: "string list" where
  "go_reserved_words =
     [''break'', ''default'', ''func'', ''interface'', ''select'', ''case'', ''defer'', ''go'', ''map'', ''struct'', ''chan'', ''else'',
      ''goto'', ''package'', ''switch'', ''const'', ''fallthrough'', ''if'', ''range'', ''type'', ''continue'', ''for'', ''import'',
      ''return'', ''var'', ''error'', ''string'', ''bool'', ''int'', ''any'', ''true'', ''false'', ''nil'', ''iota'', ''append'', ''cap'',
      ''close'', ''complex'', ''copy'', ''delete'', ''imag'', ''len'', ''make'', ''new'', ''panic'', ''print'', ''println'', ''real'',
      ''recover'', ''context'', ''body'', ''ctx'', ''c'', ''q'', ''query'', ''out'', ''err'', ''url'', ''http'', ''json'', ''fmt'', ''io'',
      ''strings'', ''strconv'', ''bytes'', ''time'', ''pathEscape'', ''anyString'', ''fmtInt'', ''fmtInt64'', ''fmtBool'', ''fmtFloat'']"

definition is_go_reserved :: "string \<Rightarrow> bool" where
  "is_go_reserved s \<longleftrightarrow> s \<in> set go_reserved_words"

text \<open>The symbols that \<open>field_name\<close> spells out; the minus sign U+2212 is three bytes.\<close>

definition symbol_names :: "(char \<times> string) list" where
  "symbol_names =
     [(CHR ''+'', ''Plus''), (CHR ''-'', ''Minus''), (CHR ''.'', ''Dot''), (CHR ''/'', ''Slash''), (CHR ''@'', ''At''),
      (CHR ''#'', ''Hash''), (CHR ''$'', ''Dollar''), (CHR ''%'', ''Pct''), (CHR ''&'', ''And''), (CHR ''*'', ''Star'')]"

definition minus_sign :: string where "minus_sign = [CHR 0xE2, CHR 0x88, CHR 0x92]"

fun spell_symbols :: "string \<Rightarrow> string" where
  "spell_symbols [] = []"
| "spell_symbols (ch # cs) =
     (case map_of symbol_names ch of
        Some name \<Rightarrow> name @ spell_symbols cs
      | None \<Rightarrow>
          if starts_with (ch # cs) minus_sign then ''Minus'' @ spell_symbols (drop 2 cs)
          else (if is_ascii_alphanumeric ch \<or> ch = CHR ''_'' then ch else CHR ''_'') # spell_symbols cs)"

definition go_field_name :: "string \<Rightarrow> string" where
  "go_field_name input =
     (let name = sdk_pascal (spell_symbols input) in
      if is_go_reserved (to_lowercase name) then name @ ''Field'' else name)"

definition escape_go_string :: "string \<Rightarrow> string" where
  "escape_go_string s = replace_char (CHR 34) [CHR 92, CHR 34] (replace_char (CHR 92) [CHR 92, CHR 92] s)"

definition go_string_lit :: "string \<Rightarrow> string" where
  "go_string_lit s = dquote @ escape_go_string s @ dquote"

section \<open>Comments\<close>

definition go_comment :: "string \<Rightarrow> string" where
  "go_comment l = replace_sub ''*/'' ''*&#47;'' l"

definition go_doc :: "string \<Rightarrow> string \<Rightarrow> string" where
  "go_doc text pad = comment_lines (\<lambda>l. pad @ ''// '' @ go_comment l) text"

definition go_doc_label :: "string \<Rightarrow> string \<Rightarrow> string" where
  "go_doc_label text label =
     (case str_lines text of
        [] \<Rightarrow> []
      | first # ls \<Rightarrow> text_of_lines ((''// '' @ label @ go_comment first) # map (\<lambda>l. ''// '' @ go_comment l) ls))"

definition go_inline :: "string \<Rightarrow> string" where
  "go_inline text = map (\<lambda>c. if c = CHR 10 \<or> c = CHR 13 then CHR '' '' else c) (go_comment text)"

definition go_deprecated_note :: "string \<Rightarrow> string option \<Rightarrow> string" where
  "go_deprecated_note name alt =
     (case alt of
        Some a \<Rightarrow> ''// Deprecated: Use '' @ go_inline a @ '' instead.'' @ newline
      | None \<Rightarrow> ''// Deprecated: '' @ name @ '' is deprecated.'' @ newline)"

definition go_schema_doc :: "string \<Rightarrow> string option \<Rightarrow> string" where
  "go_schema_doc name desc =
     (case desc of
        Some d \<Rightarrow> go_doc d [] @ (if contains_deprecated d then go_deprecated_note name (emitter_schema_alternative d) else [])
      | None \<Rightarrow> [])"

section \<open>Types\<close>

fun go_scalar :: "scalar \<Rightarrow> string" where
  "go_scalar ScInteger = ''int''"
| "go_scalar ScInteger64 = ''int64''"
| "go_scalar ScFloat = ''float64''"
| "go_scalar ScBoolean = ''bool''"
| "go_scalar ScBase64 = ''bool''"
| "go_scalar ScBinary = ''bool''"
| "go_scalar _ = ''string''"

fun go_render_type :: "ir_type \<Rightarrow> string" where
  "go_render_type (TScalar s) = go_scalar s"
| "go_render_type (TStringEnum _ _) = ''string''"
| "go_render_type (TArray item _) = ''[]'' @ go_render_type item"
| "go_render_type (TMap val) = ''map[string]'' @ go_render_type val"
| "go_render_type (TReference name nullable _) = (if nullable then ''*'' @ export_ident name else export_ident name)"
| "go_render_type (TComposition _ _ _) = ''map[string]any''"
| "go_render_type TAny = ''any''"
| "go_render_type TUnknown = ''any''"

section \<open>Enums and objects\<close>

definition go_enum_constant :: "string \<Rightarrow> string \<Rightarrow> string" where
  "go_enum_constant name val = name @ sdk_pascal val"

definition go_emit_enum :: "enum_model \<Rightarrow> string" where
  "go_emit_enum e =
     (let name = export_ident (em_name e) in
      go_schema_doc name (em_description e) @ ''type '' @ name @ '' string'' @ newline @ newline @ ''const ('' @ newline
      @ concat (map (\<lambda>v. tab @ go_enum_constant name (ev_value v) @ '' '' @ name @ '' = '' @ go_string_lit (ev_value v) @ newline)
          (em_variants e))
      @ '')'' @ newline)"

definition go_union_from_map :: "string \<Rightarrow> string list \<Rightarrow> discriminator \<Rightarrow> schema_registry \<Rightarrow> string" where
  "go_union_from_map union_name arms disc registry =
     ''// New'' @ union_name @ '' constructs a '' @ union_name @ '' from a map (e.g. after JSON unmarshal).'' @ newline
     @ ''func New'' @ union_name @ ''(m map[string]any) ('' @ union_name @ '', error) {'' @ newline
     @ tab @ ''disc, _ := m['' @ go_string_lit (disc_property_name disc) @ ''].(string)'' @ newline
     @ tab @ ''switch disc {'' @ newline
     @ concat (map (\<lambda>arm.
         case sdk_discriminant arm (disc_property_name disc) registry disc of
           None \<Rightarrow> []
         | Some val \<Rightarrow> text_of_lines
             [tab @ ''case '' @ go_string_lit val @ '':'',
              tab @ tab @ ''var v '' @ export_ident arm,
              tab @ tab @ ''if b, err := json.Marshal(m); err == nil {'',
              tab @ tab @ tab @ ''if err := json.Unmarshal(b, &v); err == nil {'',
              tab @ tab @ tab @ tab @ ''return v, nil'',
              tab @ tab @ tab @ ''}'',
              tab @ tab @ ''}'',
              tab @ tab @ ''return v, fmt.Errorf('' @ dquote @ ''failed to unmarshal '' @ export_ident arm @ dquote @ '')'']) arms)
     @ text_of_lines
         [tab @ ''}'',
          tab @ ''return nil, fmt.Errorf('' @ dquote @ ''unknown '' @ union_name @ '' discriminator: %v'' @ dquote @ '', disc)'',
          ''}'']"

definition go_union_discriminant :: "string \<Rightarrow> string list \<Rightarrow> discriminator \<Rightarrow> schema_registry \<Rightarrow> string" where
  "go_union_discriminant union_name arms disc registry =
     ''// '' @ union_name @ ''Discriminant returns the discriminator value for a '' @ union_name @ '' arm.'' @ newline
     @ ''func '' @ union_name @ ''Discriminant(v '' @ union_name @ '') string {'' @ newline
     @ tab @ ''switch v.(type) {'' @ newline
     @ concat (map (\<lambda>arm.
         case sdk_discriminant arm (disc_property_name disc) registry disc of
           None \<Rightarrow> []
         | Some val \<Rightarrow> tab @ ''case '' @ export_ident arm @ '':'' @ newline @ tab @ tab @ ''return '' @ go_string_lit val @ newline) arms)
     @ tab @ ''}'' @ newline @ tab @ ''return '' @ dquote @ dquote @ newline @ ''}'' @ newline"

text \<open>The identifier of a parameter; the first character is only lowered when it comes first in the name.\<close>

fun param_chars :: "bool \<Rightarrow> string \<Rightarrow> string" where
  "param_chars next_upper [] = []"
| "param_chars next_upper (ch # cs) =
     (if is_ascii_alphanumeric ch
      then (if next_upper then to_ascii_upper ch else ch) # param_chars False cs
      else param_chars True cs)"

definition go_param_ident :: "string \<Rightarrow> string" where
  "go_param_ident name =
     (let s = (case name of
          [] \<Rightarrow> []
        | ch # cs \<Rightarrow> if is_ascii_alphanumeric ch then to_ascii_lower ch # param_chars False cs else param_chars True cs)
      in if s = [] then ''p'' else if is_go_reserved s then s @ ''Val'' else s)"

definition go_union_from_json :: "string \<Rightarrow> string list \<Rightarrow> string" where
  "go_union_from_json union_name arms =
     ''// New'' @ union_name @ ''FromJSON attempts to unmarshal raw JSON into the first matching arm.'' @ newline
     @ ''func New'' @ union_name @ ''FromJSON(raw json.RawMessage) ('' @ union_name @ '', error) {'' @ newline
     @ concat (map (\<lambda>arm. text_of_lines
         [tab @ ''var '' @ go_param_ident arm @ '' '' @ export_ident arm,
          tab @ ''if err := json.Unmarshal(raw, &'' @ go_param_ident arm @ ''); err == nil {'',
          tab @ tab @ ''return '' @ go_param_ident arm @ '', nil'',
          tab @ ''}'']) arms)
     @ tab @ ''return nil, fmt.Errorf('' @ dquote @ ''no matching '' @ union_name @ '' arm'' @ dquote @ '')'' @ newline @ ''}'' @ newline"

definition go_emit_union :: "string \<Rightarrow> ir_type list \<Rightarrow> discriminator option \<Rightarrow> schema_registry \<Rightarrow> string" where
  "go_emit_union name members disc registry =
     (let arms = union_ref_arms members in
      ''// '' @ name @ '' is a oneOf/anyOf union.'' @ newline
      @ ''type '' @ name @ '' interface {'' @ newline @ tab @ ''is'' @ name @ ''()'' @ newline @ ''}'' @ newline @ newline
      @ concat (map (\<lambda>arm. ''func ('' @ export_ident arm @ '') is'' @ name @ ''() {}'' @ newline) arms) @ newline
      @ (if arms = [] then []
         else case disc of
             Some d \<Rightarrow> go_union_from_map name arms d registry @ newline @ go_union_discriminant name arms d registry @ newline
           | None \<Rightarrow> go_union_from_json name arms @ newline))"

definition go_fields :: "schema_registry \<Rightarrow> object_model \<Rightarrow> string list" where
  "go_fields registry obj = unique_names [] [] (map (\<lambda>p. go_field_name (prop_name p)) (own_properties registry obj))"

definition go_field_line :: "string \<Rightarrow> property \<Rightarrow> string" where
  "go_field_line field p =
     (case prop_description p of Some d \<Rightarrow> go_doc d tab | None \<Rightarrow> [])
     @ tab @ field @ '' '' @ go_render_type (prop_ty p) @ '' `json:'' @ dquote @ escape_go_string (prop_name p)
     @ (if prop_required p then [] else '',omitempty'') @ dquote @ ''`'' @ newline"

definition go_emit_object :: "object_model \<Rightarrow> schema_registry \<Rightarrow> string" where
  "go_emit_object obj registry =
     (let name = export_ident (om_name obj) in
      go_schema_doc name (om_description obj)
      @ (case union_of obj of
           Some (members, disc) \<Rightarrow> go_emit_union name members disc registry
         | None \<Rightarrow>
             if om_properties obj \<noteq> [] then
               ''type '' @ name @ '' struct {'' @ newline
               @ (case base_name obj of Some base \<Rightarrow> tab @ export_ident base @ newline | None \<Rightarrow> [])
               @ concat (map (\<lambda>(field, p). go_field_line field p) (zip (go_fields registry obj) (own_properties registry obj)))
               @ (case om_additional_properties obj of
                    Some addl \<Rightarrow> tab @ ''AdditionalProperties map[string]'' @ go_render_type addl @ '' `json:'' @ dquote @ ''-'' @ dquote @ ''`'' @ newline
                  | None \<Rightarrow> [])
               @ ''}'' @ newline
             else case om_shape_type obj of
                 Some shape \<Rightarrow> ''type '' @ name @ '' = '' @ go_render_type shape @ newline
               | None \<Rightarrow> ''type '' @ name @ '' struct {}'' @ newline))"

definition go_header :: "string \<Rightarrow> string" where
  "go_header pkg = ''// Code generated by specforge. DO NOT EDIT.'' @ newline @ newline @ ''package '' @ pkg @ newline @ newline"

definition is_union_model :: "model \<Rightarrow> bool" where
  "is_union_model m = (case m of MObject obj \<Rightarrow> union_of obj \<noteq> None | MEnum e \<Rightarrow> False)"

fun go_emit_model :: "schema_registry \<Rightarrow> model \<Rightarrow> string" where
  "go_emit_model registry (MEnum e) = go_emit_enum e"
| "go_emit_model registry (MObject obj) = go_emit_object obj registry"

definition go_emit_models :: "string \<Rightarrow> document \<Rightarrow> string" where
  "go_emit_models pkg doc =
     go_header pkg
     @ (if list_ex (\<lambda>(_, m). is_union_model m) (doc_schemas doc)
        then text_of_lines [''import ('', tab @ dquote @ ''encoding/json'' @ dquote, tab @ dquote @ ''fmt'' @ dquote, '')'', []] else [])
     @ concat (map (\<lambda>(_, m). go_emit_model (doc_schemas doc) m @ newline) (doc_schemas doc))"

section \<open>Valid names\<close>

definition go_exported :: "string \<Rightarrow> bool" where
  "go_exported s \<longleftrightarrow> (case s of [] \<Rightarrow> False | c # cs \<Rightarrow> is_ascii_upper c \<and> list_all is_ascii_alphanumeric cs)"

lemma go_exported_append: "go_exported s \<Longrightarrow> list_all is_ascii_alphanumeric t \<Longrightarrow> go_exported (s @ t)"
  by (cases s) (auto simp: go_exported_def)

lemma go_exported_pascal: "go_exported (sdk_pascal s)"
  using sdk_pascal_shape [of s] by (auto simp: go_exported_def)

lemma alphanumeric_suffixes: "list_all is_ascii_alphanumeric ''Model''" "list_all is_ascii_alphanumeric ''Field''"
  by (simp_all add: ascii_defs byte_def)

lemma go_builtin_suffix: "go_is_sdk_builtin_type name \<Longrightarrow> \<not> go_is_sdk_builtin_type (name @ ''Model'')"
  by (auto simp: go_is_sdk_builtin_type_def go_sdk_builtin_types_def)

lemma go_exported_field: "go_exported (go_field_name s)"
  using go_exported_pascal alphanumeric_suffixes by (auto simp: go_field_name_def Let_def intro!: go_exported_append)

lemma go_exported_unique:
  "list_all go_exported bases \<Longrightarrow> list_all go_exported (unique_names [] used bases)"
proof (induction bases arbitrary: used)
  case (Cons base bases)
  then have "go_exported (unique_name [] base used)"
    using unique_name_form [of "[]" base used] go_exported_append alphanumeric_show_nat by auto
  with Cons show ?case by (simp add: Let_def)
qed simp

lemma go_exported_export: "go_exported (export_ident s)"
  using go_exported_append [OF go_exported_pascal alphanumeric_suffixes(1)] go_exported_pascal
  by (auto simp: export_ident_def Let_def)

lemma go_exported_alphanumeric: "go_exported s \<Longrightarrow> s \<noteq> [] \<and> list_all is_ascii_alphanumeric s"
  by (cases s) (auto simp: go_exported_def is_ascii_alphanumeric_def is_ascii_alphabetic_def)

text \<open>
  The names the Go emitter declares are exported Go identifiers that avoid the names of the runtime, and the fields
  of one struct are exported identifiers that differ from each other, one for each property.
\<close>

theorem go_names_valid:
  "go_exported (export_ident s) \<and> \<not> go_is_sdk_builtin_type (export_ident s) \<and>
   distinct (go_fields registry obj) \<and> list_all go_exported (go_fields registry obj) \<and>
   length (go_fields registry obj) = length (own_properties registry obj)"
  using go_exported_export go_builtin_suffix unique_names_distinct go_exported_unique [of "map (\<lambda>p. go_field_name (prop_name p)) (own_properties registry obj)"]
    go_exported_field
  by (auto simp: export_ident_def go_fields_def Let_def list_all_iff)

text \<open>The field for additional properties takes part in none of this: a property of that name is declared twice.\<close>

lemma go_additional_properties_clash:
  assumes "own_properties registry obj = [p]" and "prop_name p = ''additionalProperties''"
  shows "go_fields registry obj = [''AdditionalProperties'']"
proof -
  have "go_field_name ''additionalProperties'' = ''AdditionalProperties''" by code_simp
  with assms show ?thesis by (simp add: go_fields_def unique_name_free)
qed

text \<open>Constants of an enum are not kept apart: values such as +1 and -1 give the same constant.\<close>

lemma go_enum_constants_clash: "go_enum_constant name ''+1'' = go_enum_constant name ''-1''"
  by (simp add: go_enum_constant_def sdk_pascal_def ascii_defs byte_def to_ascii_upper_def)

section \<open>Reading types back\<close>

datatype go_type = GoName string | GoSlice go_type | GoMap go_type | GoPtr go_type

text \<open>The grammar of these types, as a reader: what a type expression means is decided by its first characters.\<close>

function read_go :: "string \<Rightarrow> go_type option" where
  "read_go s =
     (case strip_prefix ''[]'' s of
        Some r \<Rightarrow> map_option GoSlice (read_go r)
      | None \<Rightarrow>
          (case strip_prefix ''map[string]'' s of
             Some r \<Rightarrow> map_option GoMap (read_go r)
           | None \<Rightarrow>
               (case strip_prefix ''*'' s of
                  Some r \<Rightarrow> map_option GoPtr (read_go r)
                | None \<Rightarrow> if s \<noteq> [] \<and> list_all is_ascii_alphanumeric s then Some (GoName s) else None)))"
  by pat_completeness auto
termination
  by (relation "measure length") (auto simp: strip_prefix_Some_iff)

declare read_go.simps [simp del]

lemma strip_prefix_None: "c \<in> set p \<Longrightarrow> c \<notin> set s \<Longrightarrow> strip_prefix p s = None"
  by (metis UnI1 not_None_eq set_append strip_prefix_Some_iff)

lemma read_go_name: "s \<noteq> [] \<Longrightarrow> list_all is_ascii_alphanumeric s \<Longrightarrow> read_go s = Some (GoName s)"
proof -
  assume s: "s \<noteq> []" "list_all is_ascii_alphanumeric s"
  have "CHR ''['' \<notin> set s" "CHR ''*'' \<notin> set s"
    using s(2) by (auto simp: list_all_iff ascii_defs byte_def)
  with s show "read_go s = Some (GoName s)"
    by (subst read_go.simps) (simp add: strip_prefix_None [of "CHR ''[''"] strip_prefix_None [of "CHR ''*''"])
qed

lemma read_go_slice: "read_go (''[]'' @ s) = map_option GoSlice (read_go s)"
  by (subst read_go.simps) (simp del: append.simps)

lemma read_go_map: "read_go (''map[string]'' @ s) = map_option GoMap (read_go s)"
  by (subst read_go.simps) (simp add: strip_prefix_def starts_with_def)

lemma read_go_ptr: "read_go (''*'' @ s) = map_option GoPtr (read_go s)"
  by (subst read_go.simps) (simp add: strip_prefix_def starts_with_def)

lemma read_go_export: "read_go (export_ident name) = Some (GoName (export_ident name))"
  using read_go_name go_exported_alphanumeric [OF go_exported_export] by blast


lemma go_scalar_reads: "read_go (go_scalar s) = Some (GoName (go_scalar s))"
  by (rule read_go_name) (cases s; simp add: ascii_defs byte_def)+

fun go_type_names :: "go_type \<Rightarrow> string set" where
  "go_type_names (GoName n) = {n}"
| "go_type_names (GoSlice t) = go_type_names t"
| "go_type_names (GoMap t) = go_type_names t"
| "go_type_names (GoPtr t) = go_type_names t"

definition go_predeclared :: "string set" where
  "go_predeclared = {''string'', ''int'', ''int64'', ''float64'', ''bool'', ''any''}"

definition go_declared :: "schema_registry \<Rightarrow> string set" where
  "go_declared registry = (\<lambda>(k, m). export_ident (model_name m)) ` set registry"

text \<open>
  The JSON values that \<open>encoding/json\<close> decodes into a variable of a type: null into every one (it leaves the variable as it
  is), integers of 64 bits into \<open>int\<close> and \<open>int64\<close>. \<open>decl\<close> gives the values for the types that are declared, by their names.
\<close>

definition go_name_admits :: "(string \<Rightarrow> json set) \<Rightarrow> string \<Rightarrow> json \<Rightarrow> bool" where
  "go_name_admits decl n j \<longleftrightarrow>
     (if n = ''string'' then is_string j
      else if n = ''int'' \<or> n = ''int64'' then is_i64 j
      else if n = ''float64'' then is_number j
      else if n = ''bool'' then is_boolean j
      else if n = ''any'' then True
      else j \<in> decl n)"

fun go_admits :: "(string \<Rightarrow> json set) \<Rightarrow> go_type \<Rightarrow> json \<Rightarrow> bool" where
  "go_admits decl (GoName n) j = (j = JNull \<or> go_name_admits decl n j)"
| "go_admits decl (GoSlice t) j = (j = JNull \<or> (\<exists>vs. j = JArray vs \<and> (\<forall>v \<in> set vs. go_admits decl t v)))"
| "go_admits decl (GoMap t) j = (j = JNull \<or> (\<exists>kvs. j = JObject kvs \<and> (\<forall>v \<in> snd ` set kvs. go_admits decl t v)))"
| "go_admits decl (GoPtr t) j = (j = JNull \<or> go_admits decl t j)"

text \<open>
  Types whose values are all decoded: no base64 and binary strings, which are rendered as \<open>bool\<close>, and compositions of
  objects only, as every composition is rendered as a map. Types for which nothing else is decoded: no enums, no compositions.
\<close>

fun go_readable :: "(string \<Rightarrow> json set) \<Rightarrow> ir_type \<Rightarrow> bool" where
  "go_readable decls (TScalar s) = (s \<noteq> ScBase64 \<and> s \<noteq> ScBinary)"
| "go_readable decls (TArray item _) = go_readable decls item"
| "go_readable decls (TMap val) = go_readable decls val"
| "go_readable decls (TComposition kind members d) =
     (\<forall>j. ir_admits is_i64 decls (TComposition kind members d) j \<longrightarrow> is_object j \<or> j = JNull)"
| "go_readable decls _ = True"

fun go_exact :: "ir_type \<Rightarrow> bool" where
  "go_exact (TScalar s) \<longleftrightarrow> s \<noteq> ScBase64 \<and> s \<noteq> ScBinary"
| "go_exact (TStringEnum variants _) \<longleftrightarrow> variants = []"
| "go_exact (TArray item _) \<longleftrightarrow> go_exact item"
| "go_exact (TMap val) \<longleftrightarrow> go_exact val"
| "go_exact (TComposition _ _ _) \<longleftrightarrow> False"
| "go_exact _ \<longleftrightarrow> True"

text \<open>The names a type refers to mean in Go what they mean in the document.\<close>

definition go_names_mean :: "(string \<Rightarrow> json set) \<Rightarrow> (string \<Rightarrow> json set) \<Rightarrow> ir_type \<Rightarrow> bool" where
  "go_names_mean decl decls ty \<longleftrightarrow> (\<forall>n \<in> set (type_refs ty). decl (export_ident n) = decls n)"

definition go_type_means :: "(string \<Rightarrow> json set) \<Rightarrow> (string \<Rightarrow> json set) \<Rightarrow> ir_type \<Rightarrow> go_type \<Rightarrow> bool" where
  "go_type_means decl decls ty t \<longleftrightarrow>
     (go_readable decls ty \<longrightarrow> (\<forall>j. ir_admits is_i64 decls ty j \<longrightarrow> go_admits decl t j)) \<and>
     (go_exact ty \<longrightarrow> (\<forall>j. null_free j \<longrightarrow> go_admits decl t j \<longrightarrow> ir_admits is_i64 decls ty j))"

lemma go_name_admits_export: "go_name_admits decl (export_ident n) j \<longleftrightarrow> j \<in> decl (export_ident n)"
proof -
  obtain c cs where p: "export_ident n = c # cs" "is_ascii_upper c"
    using go_exported_export [of n] by (auto simp: go_exported_def split: list.splits)
  have "\<not> is_ascii_upper (hd x)" if "x \<in> {''string'', ''int'', ''int64'', ''float64'', ''bool'', ''any''}" for x
    using that by (auto simp: is_ascii_upper_def byte_def)
  with p have "export_ident n \<notin> {''string'', ''int'', ''int64'', ''float64'', ''bool'', ''any''}" by force
  then show ?thesis by (simp add: go_name_admits_def)
qed

lemma go_scalar_means: "go_type_means decl decls (TScalar s) (GoName (go_scalar s))"
  by (cases s) (auto simp: go_type_means_def go_name_admits_def)

lemma go_slice_means: "go_type_means decl decls ty t \<Longrightarrow> go_type_means decl decls (TArray ty n) (GoSlice t)"
  by (auto simp: go_type_means_def list_all_iff)

lemma go_map_means: "go_type_means decl decls ty t \<Longrightarrow> go_type_means decl decls (TMap ty) (GoMap t)"
  by (fastforce simp: go_type_means_def list_all_iff)

lemma go_render_means:
  assumes "go_names_mean decl decls ty"
  shows "\<exists>t. read_go (go_render_type ty) = Some t \<and> go_type_means decl decls ty t \<and>
    go_type_names t \<subseteq> go_predeclared \<union> export_ident ` set (type_refs ty)"
  using assms
proof (induction ty rule: go_render_type.induct)
  case (1 s)
  have "go_scalar s \<in> go_predeclared" by (cases s) (simp_all add: go_predeclared_def)
  then show ?case by (simp add: go_scalar_reads go_scalar_means)
next
  case (2 variants n)
  have "read_go ''string'' = Some (GoName ''string'')" by (rule read_go_name) (simp_all add: ascii_defs byte_def)
  then show ?case by (auto simp: go_type_means_def go_name_admits_def go_predeclared_def is_string_def)
next
  case (3 item n)
  then obtain t where "read_go (go_render_type item) = Some t" "go_type_means decl decls item t"
    "go_type_names t \<subseteq> go_predeclared \<union> export_ident ` set (type_refs item)" by (auto simp: go_names_mean_def)
  then show ?case using read_go_slice go_slice_means by (intro exI [of _ "GoSlice t"]) simp
next
  case (4 val)
  then obtain t where "read_go (go_render_type val) = Some t" "go_type_means decl decls val t"
    "go_type_names t \<subseteq> go_predeclared \<union> export_ident ` set (type_refs val)" by (auto simp: go_names_mean_def)
  then show ?case using read_go_map go_map_means by (intro exI [of _ "GoMap t"]) simp
next
  case (5 name nullable d)
  then show ?case
    using read_go_ptr [of "export_ident name"] read_go_export [of name]
    by (auto simp: go_type_means_def go_names_mean_def go_name_admits_export)
next
  case (6 kind members d)
  have "read_go ''map[string]any'' = Some (GoMap (GoName ''any''))"
    using read_go_map [of "''any''"] read_go_name [of "''any''"] by (simp add: ascii_defs byte_def)
  moreover have "go_admits decl (GoMap (GoName ''any'')) j" if "is_object j \<or> j = JNull" for j
    using that by (auto simp: is_object_def go_name_admits_def)
  ultimately show ?case by (auto simp: go_type_means_def go_predeclared_def simp del: ir_admits.simps)
next
  case 7
  have "read_go ''any'' = Some (GoName ''any'')" by (rule read_go_name) (simp_all add: ascii_defs byte_def)
  moreover have "go_admits decl (GoName ''any'') j" for j by (simp add: go_name_admits_def)
  ultimately show ?case by (auto simp: go_type_means_def go_predeclared_def simp del: go_admits.simps)
next
  case 8
  have "read_go ''any'' = Some (GoName ''any'')" by (rule read_go_name) (simp_all add: ascii_defs byte_def)
  moreover have "go_admits decl (GoName ''any'') j" for j by (simp add: go_name_admits_def)
  ultimately show ?case by (auto simp: go_type_means_def go_predeclared_def simp del: go_admits.simps)
qed

lemma go_refs_declared:
  assumes "set (type_refs ty) \<subseteq> fst ` set registry" and "\<forall>(k, m) \<in> set registry. model_name m = k"
  shows "export_ident ` set (type_refs ty) \<subseteq> go_declared registry"
proof -
  have "export_ident n \<in> go_declared registry" if n: "n \<in> set (type_refs ty)" for n
  proof -
    obtain m where m: "(n, m) \<in> set registry" using assms(1) n by fastforce
    with assms(2) have "model_name m = n" by blast
    with m show ?thesis by (force simp: go_declared_def)
  qed
  then show ?thesis by blast
qed



text \<open>
  A base64 or binary string is never decoded, as its type is rendered as \<open>bool\<close>; neither is a string of a union, as a
  composition is rendered as a map.
\<close>

lemma go_unreadable:
  "\<exists>t. read_go (go_render_type (TScalar ScBase64)) = Some t \<and> \<not> go_admits decl t (JString s)"
  "\<exists>t. read_go (go_render_type (TScalar ScBinary)) = Some t \<and> \<not> go_admits decl t (JString s)"
  "\<exists>t. read_go (go_render_type (TComposition kind members d)) = Some t \<and> \<not> go_admits decl t (JString s)"
  using go_scalar_reads [of ScBase64] go_scalar_reads [of ScBinary] read_go_map [of "''any''"] read_go_name [of "''any''"]
  by (simp_all add: go_name_admits_def is_boolean_def ascii_defs byte_def)

section \<open>Comments stay comments\<close>

text \<open>
  Whatever a description contains, every line of the comment made from it begins with the padding and two slashes:
  no text of the document leaks into the code.
\<close>

theorem go_doc_is_comment:
  assumes pad: "CHR 10 \<notin> set pad"
  shows "\<exists>ls. split_on (CHR 10) (go_doc text pad) = ls @ [[]] \<and> length ls = length (str_lines text) \<and>
     list_all (\<lambda>l. starts_with l (pad @ ''// '')) ls"
proof -
  have "CHR 10 \<notin> set (go_comment l)" if "CHR 10 \<notin> set l" for l
    using that set_replace_sub [of "''*/''" "''*&#47;''" l] by (auto simp: go_comment_def)
  then show ?thesis
    using pad comment_lines_prefixed [of "pad @ ''// ''" go_comment "text"] by (auto simp: go_doc_def)
qed

theorem go_doc_is_comment_witness:
  "\<exists>ls. split_on (CHR 10) (go_doc (''a'' @ newline @ ''*/ func main()'') tab) = ls @ [[]] \<and>
     list_all (\<lambda>l. starts_with l (tab @ ''// '')) ls"
  using go_doc_is_comment [of tab "''a'' @ newline @ ''*/ func main()''"] by (auto simp: tab_def)

section \<open>Unions\<close>

text \<open>
  What a document says of the arms of a union: an arm has the only value that its schema allows for the discriminator, or
  else the value that the mapping gives it. \<open>arm_in_place\<close>: the property is written once and in place, and the mapping
  gives the arm one value at most.
\<close>

definition own_value :: "schema_registry \<Rightarrow> string \<Rightarrow> string \<Rightarrow> string \<Rightarrow> bool" where
  "own_value registry prop arm v \<longleftrightarrow>
     (\<exists>obj p nullable. map_of registry arm = Some (MObject obj) \<and> p \<in> set (om_properties obj) \<and> prop_name p = prop \<and>
        prop_ty p = TStringEnum [v] nullable)"

definition arm_value :: "schema_registry \<Rightarrow> discriminator \<Rightarrow> string \<Rightarrow> string \<Rightarrow> bool" where
  "arm_value registry d arm v \<longleftrightarrow>
     own_value registry (disc_property_name d) arm v \<or>
     (\<nexists>w. own_value registry (disc_property_name d) arm w) \<and> (\<exists>mapping. disc_mapping d = Some mapping \<and> (v, arm) \<in> set mapping)"

definition arm_in_place :: "schema_registry \<Rightarrow> discriminator \<Rightarrow> string \<Rightarrow> bool" where
  "arm_in_place registry d arm \<longleftrightarrow>
     (\<forall>obj. map_of registry arm = Some (MObject obj) \<longrightarrow>
        distinct (map prop_name (om_properties obj)) \<and>
        (\<forall>p \<in> set (om_properties obj). prop_name p = disc_property_name d \<longrightarrow>
           (\<forall>n nullable description. prop_ty p \<noteq> TReference n nullable description))) \<and>
     (\<forall>mapping v w. disc_mapping d = Some mapping \<longrightarrow> (v, arm) \<in> set mapping \<longrightarrow> (w, arm) \<in> set mapping \<longrightarrow> v = w)"

lemma find_distinct_key:
  "distinct (map f xs) \<Longrightarrow> x \<in> set xs \<Longrightarrow> List.find (\<lambda>y. f y = f x) xs = Some x"
  by (induction xs) (auto simp: image_iff)

lemma inline_discriminant_iff:
  assumes "arm_in_place registry d arm"
  shows "inline_discriminant arm (disc_property_name d) registry = Some v \<longleftrightarrow>
    own_value registry (disc_property_name d) arm v"
proof
  assume "inline_discriminant arm (disc_property_name d) registry = Some v"
  then show "own_value registry (disc_property_name d) arm v"
    by (auto simp: inline_discriminant_def own_value_def registry_get_def find_Some_iff
        split: option.splits model.splits ir_type.splits list.splits) (blast intro: nth_mem)
next
  assume "own_value registry (disc_property_name d) arm v"
  then obtain obj p n where p: "map_of registry arm = Some (MObject obj)" "p \<in> set (om_properties obj)"
    "prop_name p = disc_property_name d" "prop_ty p = TStringEnum [v] n" unfolding own_value_def by blast
  have "distinct (map prop_name (om_properties obj))" using assms p(1) by (simp add: arm_in_place_def)
  from find_distinct_key [OF this p(2)] show "inline_discriminant arm (disc_property_name d) registry = Some v"
    using p by (simp add: inline_discriminant_def registry_get_def)
qed

lemma own_discriminant_in_place:
  assumes "arm_in_place registry d arm"
  shows "own_discriminant arm (disc_property_name d) registry = inline_discriminant arm (disc_property_name d) registry"
proof -
  have "prop_ty p \<noteq> TReference n b e"
    if "map_of registry arm = Some (MObject obj)" "List.find (\<lambda>p. prop_name p = disc_property_name d) (om_properties obj) = Some p"
    for obj p n b e
    using assms that by (auto simp: arm_in_place_def find_Some_iff)
  then show ?thesis
    by (auto simp: own_discriminant_def inline_discriminant_def registry_get_def split: option.splits model.splits ir_type.splits)
qed

lemma find_found: "List.find P xs = Some x \<Longrightarrow> x \<in> set xs \<and> P x"
  by (induction xs) (auto split: if_splits)

lemma mapped_discriminant_iff:
  assumes "arm_in_place registry d arm"
  shows "mapped_discriminant arm (Some d) = Some v \<longleftrightarrow> (\<exists>mapping. disc_mapping d = Some mapping \<and> (v, arm) \<in> set mapping)"
proof (cases "disc_mapping d")
  case None
  then show ?thesis by (simp add: mapped_discriminant_def)
next
  case (Some mapping)
  show ?thesis
  proof (cases "List.find (\<lambda>(disc_value, schema_name). schema_name = arm) mapping")
    case None
    then have "\<forall>w. (w, arm) \<notin> set mapping" by (auto simp: find_None_iff)
    with None Some show ?thesis by (simp add: mapped_discriminant_def)
  next
    case (Some e)
    obtain w a where e: "e = (w, a)" by force
    with find_found [OF Some] have "a = arm" "(w, arm) \<in> set mapping" by auto
    moreover have "w = v" if "(v, arm) \<in> set mapping"
      using assms \<open>disc_mapping d = Some mapping\<close> calculation(2) that unfolding arm_in_place_def by blast
    ultimately show ?thesis using Some e \<open>disc_mapping d = Some mapping\<close> by (auto simp: mapped_discriminant_def)
  qed
qed

lemma sdk_discriminant_iff:
  assumes "arm_in_place registry d arm"
  shows "sdk_discriminant arm (disc_property_name d) registry d = Some v \<longleftrightarrow> arm_value registry d arm v"
  using inline_discriminant_iff [OF assms] mapped_discriminant_iff [OF assms]
  by (cases "inline_discriminant arm (disc_property_name d) registry") (auto simp: sdk_discriminant_def arm_value_def)

text \<open>
  A reader of the generated constructor. \<open>go_lit_chars\<close> reads an interpreted string literal after its opening quote, with
  the escapes of the quote and the backslash; \<open>go_case_choice\<close> goes through the cases of the switch and gives the type
  of the variable that the first case for the value declares.
\<close>

fun go_lit_chars :: "string \<Rightarrow> (string \<times> string) option" where
  "go_lit_chars [] = None"
| "go_lit_chars (c # cs) =
     (if c = CHR 34 then Some ([], cs)
      else if c = CHR 10 then None
      else if c = CHR 92 then
        (case cs of
           [] \<Rightarrow> None
         | e # es \<Rightarrow> if e = CHR 34 \<or> e = CHR 92 then map_option (\<lambda>(v, r). (e # v, r)) (go_lit_chars es) else None)
      else map_option (\<lambda>(v, r). (c # v, r)) (go_lit_chars cs))"

lemma go_lit_chars_escape:
  "CHR 10 \<notin> set s \<Longrightarrow> go_lit_chars (escape_go_string s @ CHR 34 # r) = Some (s, r)"
  by (induction s) (auto simp: escape_go_string_def replace_char_def)

fun go_disc_property :: "string list \<Rightarrow> string option" where
  "go_disc_property [] = None"
| "go_disc_property (l # ls) =
     (case Option.bind (strip_prefix (tab @ ''disc, _ := m['' @ dquote) l) go_lit_chars of
        Some (p, r) \<Rightarrow> if r = ''].(string)'' then Some p else go_disc_property ls
      | None \<Rightarrow> go_disc_property ls)"

fun go_case_choice :: "string list \<Rightarrow> string \<Rightarrow> string option" where
  "go_case_choice [] v = None"
| "go_case_choice (l # ls) v =
     (if Option.bind (strip_prefix (tab @ ''case '' @ dquote) l) go_lit_chars = Some (v, '':'')
      then (case ls of [] \<Rightarrow> None | declaration # _ \<Rightarrow> strip_prefix (tab @ tab @ ''var v '') declaration)
      else go_case_choice ls v)"

text \<open>What the text makes of an object: a discriminator that is missing or no string counts as the empty string.\<close>

definition go_union_choice :: "string \<Rightarrow> json_object \<Rightarrow> string option" where
  "go_union_choice code kvs =
     (let ls = split_on (CHR 10) code in
      Option.bind (go_disc_property ls) (\<lambda>p.
        go_case_choice ls (case map_of kvs p of Some (JString v) \<Rightarrow> v | _ \<Rightarrow> [])))"

definition go_union_head :: "string \<Rightarrow> discriminator \<Rightarrow> string list" where
  "go_union_head name d =
     [''// New'' @ name @ '' constructs a '' @ name @ '' from a map (e.g. after JSON unmarshal).'',
      ''func New'' @ name @ ''(m map[string]any) ('' @ name @ '', error) {'',
      tab @ ''disc, _ := m['' @ go_string_lit (disc_property_name d) @ ''].(string)'',
      tab @ ''switch disc {'']"

definition go_union_case :: "string \<Rightarrow> string \<Rightarrow> string list" where
  "go_union_case arm val =
     [tab @ ''case '' @ go_string_lit val @ '':'',
      tab @ tab @ ''var v '' @ export_ident arm,
      tab @ tab @ ''if b, err := json.Marshal(m); err == nil {'',
      tab @ tab @ tab @ ''if err := json.Unmarshal(b, &v); err == nil {'',
      tab @ tab @ tab @ tab @ ''return v, nil'',
      tab @ tab @ tab @ ''}'',
      tab @ tab @ ''}'',
      tab @ tab @ ''return v, fmt.Errorf('' @ dquote @ ''failed to unmarshal '' @ export_ident arm @ dquote @ '')'']"

definition go_union_tail :: "string \<Rightarrow> string list" where
  "go_union_tail name =
     [tab @ ''}'',
      tab @ ''return nil, fmt.Errorf('' @ dquote @ ''unknown '' @ name @ '' discriminator: %v'' @ dquote @ '', disc)'',
      ''}'']"

definition go_union_cases :: "string list \<Rightarrow> discriminator \<Rightarrow> schema_registry \<Rightarrow> string list" where
  "go_union_cases arms d registry = concat (map (\<lambda>arm.
     case sdk_discriminant arm (disc_property_name d) registry d of None \<Rightarrow> [] | Some val \<Rightarrow> go_union_case arm val) arms)"

lemma text_of_lines_append: "text_of_lines (xs @ ys) = text_of_lines xs @ text_of_lines ys"
  by (simp add: text_of_lines_def)

lemma text_of_lines_concat: "text_of_lines (concat xss) = concat (map text_of_lines xss)"
  by (induction xss) (simp_all add: text_of_lines_append text_of_lines_def)

lemma split_text_of_lines:
  "\<forall>l \<in> set ls. CHR 10 \<notin> set l \<Longrightarrow> split_on (CHR 10) (text_of_lines ls) = ls @ [[]]"
  by (induction ls) (simp_all add: text_of_lines_def newline_def split_on_append_sep split_on_no_sep)

lemma go_union_lines:
  "go_union_from_map name arms d registry =
   text_of_lines (go_union_head name d @ go_union_cases arms d registry @ go_union_tail name)"
proof -
  have "text_of_lines (go_union_cases arms d registry) = concat (map (\<lambda>arm.
      case sdk_discriminant arm (disc_property_name d) registry d of None \<Rightarrow> []
      | Some val \<Rightarrow> text_of_lines (go_union_case arm val)) arms)"
    unfolding go_union_cases_def text_of_lines_concat map_map comp_def
    by (intro arg_cong [where f = concat] map_cong) (auto simp: text_of_lines_def split: option.split)
  moreover have "text_of_lines (go_union_head name d) =
      ''// New'' @ name @ '' constructs a '' @ name @ '' from a map (e.g. after JSON unmarshal).'' @ newline
      @ ''func New'' @ name @ ''(m map[string]any) ('' @ name @ '', error) {'' @ newline
      @ tab @ ''disc, _ := m['' @ go_string_lit (disc_property_name d) @ ''].(string)'' @ newline
      @ tab @ ''switch disc {'' @ newline"
    by (simp add: go_union_head_def text_of_lines_def)
  ultimately show ?thesis
    unfolding go_union_from_map_def text_of_lines_append go_union_case_def go_union_tail_def by simp
qed

lemma go_lines_single:
  assumes "CHR 10 \<notin> set name" "CHR 10 \<notin> set (disc_property_name d)"
    and "\<forall>arm \<in> set arms. \<forall>v. sdk_discriminant arm (disc_property_name d) registry d = Some v \<longrightarrow> CHR 10 \<notin> set v"
  shows "\<forall>l \<in> set (go_union_head name d @ go_union_cases arms d registry @ go_union_tail name). CHR 10 \<notin> set l"
proof -
  have lit: "CHR 10 \<notin> set (go_string_lit s)" if "CHR 10 \<notin> set s" for s
    using that by (induction s) (auto simp: go_string_lit_def escape_go_string_def replace_char_def dquote_def)
  have ident: "CHR 10 \<notin> set (export_ident n)" for n
    using sdk_pascal_alphanumeric [of n] by (auto simp: export_ident_def Let_def list_all_iff ascii_defs byte_def)
  have case_lines: "CHR 10 \<notin> set l" if "l \<in> set (go_union_case arm v)" "CHR 10 \<notin> set v" for l arm v
    using that lit [of v] ident [of arm] by (auto simp: go_union_case_def tab_def dquote_def)
  have "CHR 10 \<notin> set l" if "l \<in> set (go_union_cases arms d registry)" for l
    using that assms(3) case_lines by (fastforce simp: go_union_cases_def split: option.splits)
  then show ?thesis
    using assms(1) lit [OF assms(2)] by (auto simp: go_union_head_def go_union_tail_def tab_def dquote_def)
qed

lemma go_case_skips:
  "\<not> starts_with l (tab @ ''case'') \<Longrightarrow> go_case_choice (l # ls) v = go_case_choice ls v"
  by (auto simp: strip_prefix_def starts_with_iff)

lemma go_case_found:
  assumes "CHR 10 \<notin> set w"
  shows "go_case_choice ((tab @ ''case '' @ go_string_lit w @ '':'') # (tab @ tab @ ''var v '' @ t) # ls) v =
    (if w = v then Some t else go_case_choice ls v)"
proof -
  have lit: "tab @ ''case '' @ go_string_lit w @ '':'' = (tab @ ''case '' @ dquote) @ escape_go_string w @ CHR 34 # '':''"
    by (simp add: go_string_lit_def dquote_def)
  have "strip_prefix (tab @ tab @ ''var v '') (tab @ tab @ ''var v '' @ t) = Some t"
    using strip_prefix_append [of "tab @ tab @ ''var v ''" t] by simp
  moreover have "go_case_choice ((tab @ tab @ ''var v '' @ t) # ls) v = go_case_choice ls v"
    by (rule go_case_skips) (simp add: starts_with_def tab_def)
  ultimately show ?thesis
    unfolding lit go_case_choice.simps(2) [of "(tab @ ''case '' @ dquote) @ _"] strip_prefix_append
    by (simp add: go_lit_chars_escape [OF assms])
qed

lemma go_case_choice_cases:
  assumes "\<forall>arm \<in> set arms. \<forall>v. sdk_discriminant arm (disc_property_name d) registry d = Some v \<longrightarrow> CHR 10 \<notin> set v"
  shows "go_case_choice (go_union_cases arms d registry @ go_union_tail name @ [[]]) v =
    map_option export_ident (List.find (\<lambda>arm. sdk_discriminant arm (disc_property_name d) registry d = Some v) arms)"
  using assms
proof (induction arms)
  case Nil
  show ?case
    by (simp add: go_union_cases_def go_union_tail_def go_case_skips starts_with_def tab_def strip_prefix_def)
next
  case (Cons arm arms)
  have rest: "go_union_cases (arm # arms) d registry = (case sdk_discriminant arm (disc_property_name d) registry d of
      None \<Rightarrow> [] | Some val \<Rightarrow> go_union_case arm val) @ go_union_cases arms d registry"
    by (simp add: go_union_cases_def)
  show ?case
  proof (cases "sdk_discriminant arm (disc_property_name d) registry d")
    case None
    then show ?thesis using Cons by (simp add: rest)
  next
    case (Some w)
    have w: "CHR 10 \<notin> set w" using Cons.prems Some by simp
    have "go_case_choice (go_union_case arm w @ ls) v =
        (if w = v then Some (export_ident arm) else go_case_choice ls v)" for ls
    proof -
      have "go_union_case arm w @ ls = (tab @ ''case '' @ go_string_lit w @ '':'') # (tab @ tab @ ''var v '' @ export_ident arm) #
          (drop 2 (go_union_case arm w) @ ls)" by (simp add: go_union_case_def)
      moreover have "go_case_choice (drop 2 (go_union_case arm w) @ ls) v = go_case_choice ls v"
        by (simp add: go_union_case_def go_case_skips starts_with_def tab_def del: go_case_choice.simps)
      ultimately show ?thesis by (simp only: go_case_found [OF w])
    qed
    then show ?thesis using Cons Some by (simp add: rest)
  qed
qed

text \<open>
  C32. The constructor of a Go union, read as the text it is, returns for every object the first arm whose value in the
  document is the value of the object's discriminator; and, when every arm has a value, so does the TypeScript narrowing
  function for an object whose discriminator is a string. So both choose the same arm.
\<close>

theorem union_arms_agree:
  assumes "\<forall>arm \<in> set arms. arm_in_place registry d arm"
    and "CHR 10 \<notin> set name" and "CHR 10 \<notin> set (disc_property_name d)"
    and "\<forall>arm \<in> set arms. \<forall>w. arm_value registry d arm w \<longrightarrow> CHR 10 \<notin> set w"
    and "map_of kvs (disc_property_name d) = Some (JString v)"
  shows "go_union_choice (go_union_from_map name arms d registry) kvs =
      map_option export_ident (List.find (\<lambda>arm. arm_value registry d arm v) arms) \<and>
    ((\<forall>arm \<in> set arms. \<exists>w. arm_value registry d arm w) \<longrightarrow>
     narrow arms (Some d) (Some registry) kvs = List.find (\<lambda>arm. arm_value registry d arm v) arms)"
proof
  have vals: "sdk_discriminant arm (disc_property_name d) registry d = Some w \<longleftrightarrow> arm_value registry d arm w"
    if "arm \<in> set arms" for arm w
    using sdk_discriminant_iff assms(1) that by blast
  have single: "\<forall>arm \<in> set arms. \<forall>w. sdk_discriminant arm (disc_property_name d) registry d = Some w \<longrightarrow> CHR 10 \<notin> set w"
    using vals assms(4) by blast
  have lit: "tab @ ''disc, _ := m['' @ go_string_lit (disc_property_name d) @ ''].(string)'' =
      (tab @ ''disc, _ := m['' @ dquote) @ escape_go_string (disc_property_name d) @ CHR 34 # ''].(string)''"
    by (simp add: go_string_lit_def dquote_def)
  have skip: "go_disc_property (l # ls) = go_disc_property ls" if "\<not> starts_with l tab" for l ls
    using that by (auto simp: strip_prefix_def starts_with_iff)
  have "go_disc_property ((tab @ ''disc, _ := m['' @ go_string_lit (disc_property_name d) @ ''].(string)'') # ls) =
      Some (disc_property_name d)" for ls
    unfolding lit go_disc_property.simps strip_prefix_append by (simp add: go_lit_chars_escape [OF assms(3)])
  then have "go_disc_property (go_union_head name d @ ls) = Some (disc_property_name d)" for ls
    by (simp add: go_union_head_def skip starts_with_def tab_def del: go_disc_property.simps)
  moreover have "go_case_choice (go_union_head name d @ ls) v = go_case_choice ls v" for ls
    by (simp add: go_union_head_def go_case_skips starts_with_def tab_def del: go_case_choice.simps)
  moreover have "List.find (\<lambda>arm. sdk_discriminant arm (disc_property_name d) registry d = Some v) arms =
      List.find (\<lambda>arm. arm_value registry d arm v) arms" by (intro find_cong) (simp_all add: vals)
  ultimately show "go_union_choice (go_union_from_map name arms d registry) kvs =
      map_option export_ident (List.find (\<lambda>arm. arm_value registry d arm v) arms)"
    unfolding go_union_choice_def go_union_lines split_text_of_lines [OF go_lines_single [OF assms(2,3) single]]
    using go_case_choice_cases [OF single, of name v] assms(5) by (simp add: Let_def)
next
  show "(\<forall>arm \<in> set arms. \<exists>w. arm_value registry d arm w) \<longrightarrow>
      narrow arms (Some d) (Some registry) kvs = List.find (\<lambda>arm. arm_value registry d arm v) arms"
  proof
    assume all: "\<forall>arm \<in> set arms. \<exists>w. arm_value registry d arm w"
    have "guard_holds (arm_guard arm (Some (disc_property_name d)) (Some registry) (Some d)) kvs \<longleftrightarrow> arm_value registry d arm v"
      if arm: "arm \<in> set arms" for arm
    proof -
      obtain w where w: "sdk_discriminant arm (disc_property_name d) registry d = Some w"
        using all arm sdk_discriminant_iff assms(1) by blast
      then have "discriminant_value arm (disc_property_name d) registry (Some d) = Some w"
        using own_discriminant_in_place assms(1) arm by (simp add: sdk_discriminant_def discriminant_value_def)
      then have "guard_holds (arm_guard arm (Some (disc_property_name d)) (Some registry) (Some d)) kvs \<longleftrightarrow> v = w"
        using assms(5) by (simp add: arm_guard_def)
      moreover have "arm_value registry d arm v \<longleftrightarrow> v = w" using sdk_discriminant_iff assms(1) arm w by (metis option.inject)
      ultimately show ?thesis by simp
    qed
    then show "narrow arms (Some d) (Some registry) kvs = List.find (\<lambda>arm. arm_value registry d arm v) arms"
      unfolding narrow_def by (intro find_cong) auto
  qed
qed

text \<open>Two arms of a mapping, of which the second also has the value in its schema.\<close>

theorem union_arms_agree_witness:
  "let d = \<lparr>disc_property_name = ''kind'', disc_mapping = Some [(''c'', ''Cat''), (''x'', ''Dog'')]\<rparr>;
       kind = \<lparr>prop_name = ''kind'', prop_ty = TStringEnum [''d''] False, prop_required = True, prop_description = None\<rparr>;
       dog = MObject \<lparr>om_name = ''Dog'', om_description = None, om_properties = [kind], om_additional_properties = None,
         om_shape_type = None, om_base_type = None\<rparr> in
   go_union_choice (go_union_from_map ''Pet'' [''Cat'', ''Dog''] d [(''Dog'', dog)]) [(''kind'', JString ''d'')] = Some ''Dog'' \<and>
   narrow [''Cat'', ''Dog''] (Some d) (Some [(''Dog'', dog)]) [(''kind'', JString ''d'')] = Some ''Dog''"
proof -
  define d where "d = \<lparr>disc_property_name = ''kind'', disc_mapping = Some [(''c'', ''Cat''), (''x'', ''Dog'')]\<rparr>"
  define kind where
    "kind = \<lparr>prop_name = ''kind'', prop_ty = TStringEnum [''d''] False, prop_required = True, prop_description = None\<rparr>"
  define dog where "dog = MObject \<lparr>om_name = ''Dog'', om_description = None, om_properties = [kind],
    om_additional_properties = None, om_shape_type = None, om_base_type = None\<rparr>"
  have own: "own_value [(''Dog'', dog)] ''kind'' arm w \<longleftrightarrow> arm = ''Dog'' \<and> w = ''d''" for arm w
    by (auto simp: own_value_def dog_def kind_def)
  have cat: "arm_value [(''Dog'', dog)] d ''Cat'' w \<longleftrightarrow> w = ''c''" for w
    by (auto simp: arm_value_def own d_def)
  have dog: "arm_value [(''Dog'', dog)] d ''Dog'' w \<longleftrightarrow> w = ''d''" for w
    by (auto simp: arm_value_def own d_def)
  have "arm_in_place [(''Dog'', dog)] d arm" for arm
    by (auto simp: arm_in_place_def d_def dog_def kind_def)
  moreover have "export_ident ''Dog'' = ''Dog''" by code_simp
  moreover have "disc_property_name d = ''kind''" by (simp add: d_def)
  ultimately have "go_union_choice (go_union_from_map ''Pet'' [''Cat'', ''Dog''] d [(''Dog'', dog)]) [(''kind'', JString ''d'')] =
      Some ''Dog'' \<and>
    narrow [''Cat'', ''Dog''] (Some d) (Some [(''Dog'', dog)]) [(''kind'', JString ''d'')] = Some ''Dog''"
    using union_arms_agree [of "[''Cat'', ''Dog'']" "[(''Dog'', dog)]" d "''Pet''" "[(''kind'', JString ''d'')]" "''d''"]
      exI [of "arm_value [(''Dog'', dog)] d ''Cat''" "''c''"] exI [of "arm_value [(''Dog'', dog)] d ''Dog''" "''d''"]
    by (simp add: cat dog)
  then show ?thesis unfolding Let_def d_def dog_def kind_def .
qed

end
