(* ===== verification/Go_Methods.thy ===== *)
theory Go_Methods
  imports Go_Models
begin

text \<open>
  crates/specforge-go/src/lib.rs: the methods of the API files and the set of files of a generated Go module. The fixed
  texts of the runtime files and of the README are arguments.
\<close>

section \<open>Paths\<close>

fun coerce_to_string :: "ir_type \<Rightarrow> string \<Rightarrow> string" where
  "coerce_to_string (TStringEnum _ _) ident = ident"
| "coerce_to_string (TScalar s) ident =
     (case s of
        ScInteger \<Rightarrow> ''fmtInt('' @ ident @ '')''
      | ScInteger64 \<Rightarrow> ''fmtInt64('' @ ident @ '')''
      | ScBoolean \<Rightarrow> ''fmtBool('' @ ident @ '')''
      | ScBase64 \<Rightarrow> ''fmtBool('' @ ident @ '')''
      | ScBinary \<Rightarrow> ''fmtBool('' @ ident @ '')''
      | ScFloat \<Rightarrow> ''fmtFloat('' @ ident @ '')''
      | _ \<Rightarrow> ident)"
| "coerce_to_string _ ident = ''anyString('' @ ident @ '')''"

fun zero_check :: "ir_type \<Rightarrow> string \<Rightarrow> string" where
  "zero_check (TStringEnum _ _) ident = ident @ '' != '' @ dquote @ dquote"
| "zero_check (TScalar s) ident =
     (if s \<in> {ScString, ScDateTime, ScUuid} then ident @ '' != '' @ dquote @ dquote
      else if s \<in> {ScInteger, ScInteger64, ScFloat} then ident @ '' != 0''
      else ident)"
| "zero_check (TReference _ _ _) ident = ''true /* always send ref */''"
| "zero_check (TArray _ _) ident = ''len('' @ ident @ '') > 0''"
| "zero_check (TMap _) ident = ''len('' @ ident @ '') > 0''"
| "zero_check _ ident = ''true''"

text \<open>An operand of the concatenation that builds a path: a literal, or a call of \<open>pathEscape\<close>.\<close>

definition param_named :: "parameter list \<Rightarrow> string \<Rightarrow> parameter option" where
  "param_named params name = List.find (\<lambda>p. par_name p = name) params"

definition go_path_operand :: "parameter list \<Rightarrow> path_part \<Rightarrow> string list" where
  "go_path_operand params part =
     (case part of
        Lit s \<Rightarrow> if s = [] then [] else [go_string_lit s]
      | Param name \<Rightarrow>
          (case param_named params name of
             Some p \<Rightarrow> [''pathEscape('' @ coerce_to_string (par_ty p) (go_param_ident (par_name p)) @ '')'']
           | None \<Rightarrow> [dquote @ ''{'' @ escape_go_string name @ ''}'' @ dquote]))"

definition build_path_concat :: "string \<Rightarrow> parameter list \<Rightarrow> string" where
  "build_path_concat path params =
     (let parts = concat (map (go_path_operand params) (cut_path path)) in
      if parts = [] then go_string_lit ''/'' else join '' + '' parts)"

section \<open>Methods\<close>

definition go_args :: "operation \<Rightarrow> string list" where
  "go_args op =
     [''ctx context.Context'']
     @ map (\<lambda>p. go_param_ident (par_name p) @ '' '' @ go_render_type (par_ty p)) (params_at InPath op @ params_at InQuery op)
     @ (case op_request_body op of Some b \<Rightarrow> [''body '' @ go_render_type (rb_ty b)] | None \<Rightarrow> [])"

text \<open>The signature of the result, by the rendered type.\<close>

definition go_result :: "string option \<Rightarrow> string" where
  "go_result ret_ty =
     (case ret_ty of
        Some t \<Rightarrow>
          if starts_with t ''['' \<or> starts_with t ''map['' \<or> t = ''any'' \<or> starts_with t ''*'' then ''('' @ t @ '', error)''
          else ''(*'' @ t @ '', error)''
      | None \<Rightarrow> ''error'')"

definition em_dash :: string where "em_dash = [CHR 0xE2, CHR 0x80, CHR 0x94]"

definition go_summary :: "operation \<Rightarrow> string" where
  "go_summary op =
     (case op_summary op of
        Some s \<Rightarrow> go_doc s []
      | None \<Rightarrow> ''// '' @ export_ident (op_operation_id op) @ '' '' @ em_dash @ '' '' @ method_upper (op_method op) @ '' ''
          @ op_path op @ ''.'' @ newline)"

definition go_description :: "operation \<Rightarrow> string \<Rightarrow> string" where
  "go_description op body =
     (case op_description op of
        Some d \<Rightarrow> if ends_with (trim body) (trim d) then [] else newline @ go_doc d []
      | None \<Rightarrow> [])"

definition go_param_docs :: "operation \<Rightarrow> string" where
  "go_param_docs op =
     (let all_params = params_at InPath op @ params_at InQuery op @ params_at InHeader op in
      if list_ex (\<lambda>p. par_description p \<noteq> None) all_params
      then newline @ concat (map (\<lambda>p. case par_description p of
            Some desc \<Rightarrow> go_doc_label desc (go_param_ident (par_name p) @ '': '') | None \<Rightarrow> []) all_params)
      else [])"

definition go_error_docs :: "operation \<Rightarrow> string" where
  "go_error_docs op =
     concat (map (\<lambda>r.
       if \<not> starts_with (resp_status r) ''2'' \<and> resp_status r \<noteq> ''*''
       then (case resp_description r of
               Some desc \<Rightarrow> ''// Returns '' @ go_inline desc @ '' for '' @ resp_status r @ ''.'' @ newline
             | None \<Rightarrow> ''// Returns an error for '' @ resp_status r @ ''.'' @ newline)
       else []) (op_responses op))"

definition go_method_doc :: "operation \<Rightarrow> string" where
  "go_method_doc op =
     (let body = go_summary op in
      body @ go_description op body @ go_param_docs op
      @ (case Option.bind (op_request_body op) rb_description of Some desc \<Rightarrow> go_doc_label desc ''body: '' | None \<Rightarrow> [])
      @ (case success_desc op of Some desc \<Rightarrow> newline @ go_doc_label desc ''Returns '' | None \<Rightarrow> [])
      @ go_error_docs op
      @ (if is_operation_deprecated op
         then go_deprecated_note (export_ident (op_operation_id op)) (emitter_deprecation_alternative op) else []))"

definition go_path_expr :: "operation \<Rightarrow> string" where
  "go_path_expr op =
     (if params_at InPath op \<noteq> [] then build_path_concat (op_path op) (params_at InPath op) else go_string_lit (op_path op))"

definition go_query_line :: "parameter \<Rightarrow> string" where
  "go_query_line p =
     (let ident = go_param_ident (par_name p);
          set_line = ''query.Set('' @ go_string_lit (par_name p) @ '', '' @ coerce_to_string (par_ty p) ident @ '')'' @ newline in
      if par_required p then tab @ set_line
      else tab @ ''if '' @ zero_check (par_ty p) ident @ '' {'' @ newline @ tab @ tab @ set_line @ tab @ ''}'' @ newline)"

definition go_call :: "operation \<Rightarrow> string \<Rightarrow> string" where
  "go_call op target =
     ''c.DoJSON(ctx, '' @ dquote @ method_upper (op_method op) @ dquote @ '', '' @ go_path_expr op @ '', query, ''
     @ (if op_request_body op \<noteq> None then ''body'' else ''nil'') @ '', '' @ target @ '')''"

definition go_decode :: "operation \<Rightarrow> string \<Rightarrow> string \<Rightarrow> string" where
  "go_decode op out_ty result =
     tab @ ''var out '' @ out_ty @ newline
     @ tab @ ''if err := '' @ go_call op ''&out'' @ ''; err != nil {'' @ newline
     @ tab @ tab @ ''return nil, err'' @ newline @ tab @ ''}'' @ newline
     @ tab @ ''return '' @ result @ '', nil'' @ newline"

definition go_method_body :: "operation \<Rightarrow> string" where
  "go_method_body op =
     (case map_option go_render_type (success_body op) of
        Some t \<Rightarrow>
          if starts_with t ''['' \<or> starts_with t ''map['' then go_decode op t ''out''
          else if starts_with t ''*'' then go_decode op (trim_start_matches (CHR ''*'') t) ''&out''
          else go_decode op t ''&out''
      | None \<Rightarrow> tab @ ''return '' @ go_call op ''nil'' @ newline)"

definition go_emit_method :: "operation \<Rightarrow> string" where
  "go_emit_method op =
     go_method_doc op
     @ ''func (c *Client) '' @ export_ident (op_operation_id op) @ ''('' @ join '', '' (go_args op) @ '') ''
     @ go_result (map_option go_render_type (success_body op)) @ '' {'' @ newline
     @ tab @ ''query := url.Values{}'' @ newline
     @ concat (map go_query_line (params_at InQuery op))
     @ go_method_body op
     @ ''}'' @ newline"

definition go_emit_tag_file :: "string \<Rightarrow> operation list \<Rightarrow> string" where
  "go_emit_tag_file pkg ops =
     go_header pkg
     @ text_of_lines [''import ('', tab @ dquote @ ''context'' @ dquote, tab @ dquote @ ''net/url'' @ dquote, '')'', []]
     @ concat (map (\<lambda>op. go_emit_method op @ newline) ops)"

section \<open>Webhooks\<close>

definition go_payload_name :: "webhook \<Rightarrow> string" where
  "go_payload_name wh = export_ident (sdk_pascal (wh_name wh) @ ''WebhookPayload'')"

definition go_emit_webhooks :: "string \<Rightarrow> document \<Rightarrow> string" where
  "go_emit_webhooks pkg doc =
     go_header pkg
     @ concat (map (\<lambda>wh.
         (case wh_description wh of
            Some d \<Rightarrow> go_doc d []
          | None \<Rightarrow> (case wh_summary wh of Some s \<Rightarrow> go_doc s [] | None \<Rightarrow> []))
         @ ''type '' @ go_payload_name wh @ '' = ''
         @ (case wh_request_body wh of Some rb \<Rightarrow> go_render_type (rb_ty rb) | None \<Rightarrow> ''any'') @ newline @ newline) (doc_webhooks doc))
     @ ''// WebhookHandler is a function that handles a webhook payload.'' @ newline
     @ (case doc_webhooks doc of
          [wh] \<Rightarrow> ''type WebhookHandler func(payload '' @ go_payload_name wh @ '') error'' @ newline
        | _ \<Rightarrow> ''type WebhookHandler func(payload any) error'' @ newline)
     @ newline"

section \<open>Files\<close>

record sdk_options =
  so_module_path :: "string option"
  so_package_name :: "string option"

definition go_package_name :: "sdk_options \<Rightarrow> string" where
  "go_package_name opts = (case so_package_name opts of Some n \<Rightarrow> n | None \<Rightarrow> ''sdk'')"

text \<open>\<open>to_ascii_lowercase\<close>, then every character that is not an ASCII letter or digit becomes the given one.\<close>

definition ascii_slug :: "char \<Rightarrow> string \<Rightarrow> string" where
  "ascii_slug r title =
     trim_matches r (map (\<lambda>ch. case ch of [c] \<Rightarrow> if is_ascii_alphanumeric c then c else r | _ \<Rightarrow> r) (utf8_chars (to_lowercase title)))"

definition go_module_path :: "document \<Rightarrow> sdk_options \<Rightarrow> string" where
  "go_module_path doc opts =
     (case so_module_path opts of Some m \<Rightarrow> m | None \<Rightarrow> ''github.com/example/'' @ ascii_slug (CHR ''-'') (doc_title doc) @ ''-go'')"

definition go_api_path :: "string \<Rightarrow> string" where
  "go_api_path tag = ''api_'' @ go_snake (sdk_pascal tag) @ ''.go''"

definition go_fixed_paths :: "string list" where
  "go_fixed_paths =
     [''client.go'', ''retry.go'', ''paginate.go'', ''concurrency.go'', ''dedup.go'', ''middleware.go'', ''interceptors.go'',
      ''idempotency.go'', ''streaming.go'', ''cache.go'', ''ratelimit.go'', ''telemetry.go'', ''logging.go'', ''validate.go'',
      ''validation_middleware.go'']"

text \<open>\<open>runtime path pkg\<close> is the text of a fixed file; the README and the version file depend on the document.\<close>

definition go_generate_files ::
  "(string \<Rightarrow> string \<Rightarrow> string) \<Rightarrow> (string \<Rightarrow> string) \<Rightarrow> string \<Rightarrow> document \<Rightarrow> sdk_options \<Rightarrow> (string \<times> string) list" where
  "go_generate_files runtime readme version_file doc opts =
     (let pkg = go_package_name opts; module = go_module_path doc opts in
      [(''go.mod'', ''module '' @ module @ newline @ newline @ ''go 1.22'' @ newline)]
      @ map (\<lambda>p. (p, runtime p pkg)) go_fixed_paths
      @ [(''models.go'', go_emit_models pkg doc)]
      @ (if doc_webhooks doc \<noteq> [] then [(''webhooks.go'', go_emit_webhooks pkg doc)] else [])
      @ map (\<lambda>(tag, ops). (go_api_path tag, go_emit_tag_file pkg ops)) (group_by_tag (doc_operations doc))
      @ [(''README.md'', readme module), (''specforge-version.json'', version_file)])"

text \<open>\<open>generate\<close> returns the sorted paths.\<close>

definition go_generate :: "(string \<times> string) list \<Rightarrow> string list" where
  "go_generate files = sort (map fst files)"

section \<open>Which files are written\<close>

text \<open>
  The files of a generated Go module, which are written in parallel, have distinct paths exactly when the tags stay
  distinct as file names.
\<close>

theorem go_paths_distinct:
  "distinct (map fst (go_generate_files runtime readme version_file doc opts)) \<longleftrightarrow>
   distinct (map (\<lambda>(tag, ops). go_snake (sdk_pascal tag)) (group_by_tag (doc_operations doc)))"
proof -
  let ?tags = "map (\<lambda>(tag, ops). go_api_path tag) (group_by_tag (doc_operations doc))"
  have d: "distinct ?tags \<longleftrightarrow> distinct (map (\<lambda>(tag, ops). go_snake (sdk_pascal tag)) (group_by_tag (doc_operations doc)))"
    by (simp add: distinct_map inj_on_def go_api_path_def split_def)
  let ?front = "''go.mod'' # go_fixed_paths @ ''models.go'' # (if doc_webhooks doc \<noteq> [] then [''webhooks.go''] else [])"
  let ?rest = "[''README.md'', ''specforge-version.json'']"
  have files: "map fst (go_generate_files runtime readme version_file doc opts) = ?front @ ?tags @ ?rest"
    by (simp add: go_generate_files_def Let_def split_def comp_def)
  have api: "p \<notin> set ?tags" if "\<not> starts_with p ''api_''" for p
    using that by (auto simp: go_api_path_def starts_with_def)
  have "list_all (\<lambda>p. \<not> starts_with p ''api_'') (?front @ ?rest)"
    by (simp add: go_fixed_paths_def starts_with_def)
  then have "set ?tags \<inter> set (?front @ ?rest) = {}" using api unfolding list_all_iff by blast
  moreover have "distinct ?front" "distinct ?rest" "set ?front \<inter> set ?rest = {}" by (simp_all add: go_fixed_paths_def)
  ultimately show ?thesis unfolding files d [symmetric] distinct_append set_append by blast
qed

text \<open>
  A tag can make the name of its file end in a suffix that Go reads as a condition: the file of the tag Test is taken for a
  test, the one of the tag Windows is compiled on that system only.
\<close>

lemma go_api_path_conditions:
  "go_api_path ''Test'' = ''api_test.go'' \<and> go_api_path ''Windows'' = ''api_windows.go''"
  by code_simp

section \<open>The path that is requested\<close>

definition go_ident :: "string \<Rightarrow> bool" where
  "go_ident x \<longleftrightarrow> x \<noteq> [] \<and> list_all is_ascii_alphanumeric x"

text \<open>
  The value of a Go expression of type string: a literal, the concatenation of two expressions, or a call of \<open>pathEscape\<close>,
  whose value is \<open>escape\<close> of what \<open>env\<close> gives for its operand, an identifier or a call with an identifier.
\<close>

inductive go_string_expr :: "(string \<Rightarrow> string) \<Rightarrow> (string \<Rightarrow> string) \<Rightarrow> string \<Rightarrow> string \<Rightarrow> bool" for env escape where
  expr_lit: "single_line s \<Longrightarrow> go_string_expr env escape (go_string_lit s) s"
| expr_ident: "go_ident x \<Longrightarrow> go_string_expr env escape (''pathEscape('' @ x @ '')'') (escape (env x))"
| expr_call: "go_ident f \<Longrightarrow> go_ident x \<Longrightarrow>
    go_string_expr env escape (''pathEscape('' @ f @ ''('' @ x @ ''))'') (escape (env (f @ ''('' @ x @ '')'')))"
| expr_plus: "go_string_expr env escape s u \<Longrightarrow> go_string_expr env escape t v \<Longrightarrow>
    go_string_expr env escape (s @ '' + '' @ t) (u @ v)"

lemma alphanumeric_lower: "is_ascii_alphanumeric c \<Longrightarrow> is_ascii_alphanumeric (to_ascii_lower c)"
  using lower_alphabetic [of c] by (cases "is_ascii_upper c") (simp_all add: is_ascii_alphanumeric_def to_ascii_lower_def)

lemma param_chars_alphanumeric: "list_all is_ascii_alphanumeric (param_chars up cs)"
  by (induction up cs rule: param_chars.induct) (auto simp: alphanumeric_upper)

lemma go_ident_param: "go_ident (go_param_ident name)"
proof -
  have "list_all is_ascii_alphanumeric ''p''" "list_all is_ascii_alphanumeric ''Val''" by (simp_all add: ascii_defs byte_def)
  then show ?thesis
    using param_chars_alphanumeric
    by (auto simp: go_ident_def go_param_ident_def Let_def alphanumeric_lower split: list.splits)
qed

lemma coerce_value:
  assumes "go_ident x"
  shows "go_string_expr env escape (''pathEscape('' @ coerce_to_string ty x @ '')'') (escape (env (coerce_to_string ty x)))"
proof -
  have "go_ident f" if "f \<in> {''fmtInt'', ''fmtInt64'', ''fmtBool'', ''fmtFloat'', ''anyString''}" for f
    using that by (auto simp: go_ident_def ascii_defs byte_def)
  then have "go_string_expr env escape (''pathEscape('' @ f @ ''('' @ x @ '')'' @ '')'') (escape (env (f @ ''('' @ x @ '')'')))"
    if "f \<in> {''fmtInt'', ''fmtInt64'', ''fmtBool'', ''fmtFloat'', ''anyString''}" for f
    using expr_call [of f x env escape] assms that by auto
  from this [of "''fmtInt''"] this [of "''fmtInt64''"] this [of "''fmtBool''"] this [of "''fmtFloat''"] this [of "''anyString''"]
  show ?thesis using expr_ident [OF assms, of env escape] by (cases ty) (auto split: scalar.split)
qed

definition go_part_value :: "(string \<Rightarrow> string) \<Rightarrow> (string \<Rightarrow> string) \<Rightarrow> parameter list \<Rightarrow> path_part \<Rightarrow> string" where
  "go_part_value env escape params part =
     (case part of
        Lit s \<Rightarrow> s
      | Param name \<Rightarrow>
          (case param_named params name of
             Some p \<Rightarrow> escape (env (coerce_to_string (par_ty p) (go_param_ident (par_name p))))
           | None \<Rightarrow> ''{'' @ name @ ''}''))"

lemma go_operands_value:
  assumes "list_all (\<lambda>part. single_line (part_str part)) parts"
  shows "\<exists>vs. list_all2 (go_string_expr env escape) (concat (map (go_path_operand params) parts)) vs \<and>
    concat vs = concat (map (go_part_value env escape params) parts)"
  using assms
proof (induction parts)
  case (Cons part parts)
  then obtain vs where vs: "list_all2 (go_string_expr env escape) (concat (map (go_path_operand params) parts)) vs"
    "concat vs = concat (map (go_part_value env escape params) parts)" by auto
  have lit: "dquote @ ''{'' @ escape_go_string name @ ''}'' @ dquote = go_string_lit (''{'' @ name @ ''}'')" for name
    by (simp add: go_string_lit_def escape_go_string_def replace_char_def)
  have "\<exists>us. list_all2 (go_string_expr env escape) (go_path_operand params part) us \<and> concat us = go_part_value env escape params part"
  proof (cases part)
    case (Lit s)
    then show ?thesis
      using Cons.prems expr_lit [of s env escape]
      by (cases "s = []") (auto simp: go_path_operand_def go_part_value_def intro: exI [of _ "[s]"])
  next
    case (Param name)
    show ?thesis
    proof (cases "param_named params name")
      case None
      have "single_line (''{'' @ name @ ''}'')" using Cons.prems Param by simp
      then show ?thesis
        using Param None expr_lit [of "''{'' @ name @ ''}''" env escape] lit [of name]
        by (auto simp: go_path_operand_def go_part_value_def intro!: exI [of _ "[''{'' @ name @ ''}'']"])
    next
      case (Some p)
      let ?e = "coerce_to_string (par_ty p) (go_param_ident (par_name p))"
      show ?thesis
        using Param Some coerce_value [OF go_ident_param, of env escape "par_ty p" "par_name p"]
        by (intro exI [of _ "[escape (env ?e)]"]) (simp add: go_path_operand_def go_part_value_def)
    qed
  qed
  then obtain us where "list_all2 (go_string_expr env escape) (go_path_operand params part) us"
    "concat us = go_part_value env escape params part" by blast
  with vs show ?case by (intro exI [of _ "us @ vs"]) (auto intro: list_all2_appendI)
qed simp

lemma go_join_value:
  "list_all2 (go_string_expr env escape) es vs \<Longrightarrow> es \<noteq> [] \<Longrightarrow> go_string_expr env escape (join '' + '' es) (concat vs)"
proof (induction es vs rule: list_all2_induct)
  case (Cons e es v vs)
  then show ?case
  proof (cases es)
    case (Cons e' es')
    with Cons.hyps Cons.IH Cons.prems show ?thesis using expr_plus by auto
  qed simp
qed simp

lemma concat_cut_path:
  assumes "list_all part_ok parts" and "\<And>s. f (Lit s) = s"
  shows "concat (map f (cut_path (concat (map part_str parts)))) = concat (map f parts)"
proof -
  have "concat (map f (cut_path (u @ concat (map part_str parts)))) = u @ concat (map f parts)" if "CHR ''{'' \<notin> set u" for u
    using assms(1) that
  proof (induction parts arbitrary: u)
    case Nil
    then show ?case by (simp add: cut_path_literal assms(2))
  next
    case (Cons part parts)
    show ?case
    proof (cases part)
      case (Lit s)
      then show ?thesis using Cons.IH [of "u @ s"] Cons.prems by (simp add: assms(2))
    next
      case (Param p)
      then show ?thesis using Cons.IH [of "[]"] Cons.prems cut_path_step [of u p] by (simp add: assms(2))
    qed
  qed
  from this [of "[]"] show ?thesis by simp
qed

lemma go_concat_value:
  assumes "single_line path" and "path \<noteq> []"
  shows "go_string_expr env escape (build_path_concat path params) (concat (map (go_part_value env escape params) (cut_path path)))"
proof -
  let ?ops = "concat (map (go_path_operand params) (cut_path path))"
  have "list_all (\<lambda>part. single_line (part_str part)) parts" if "single_line (concat (map part_str parts))" for parts
    using that by (induction parts) (auto simp: single_line_def)
  then have "list_all (\<lambda>part. single_line (part_str part)) (cut_path path)" using assms(1) cut_path_text [of path] by simp
  then obtain vs where vs: "list_all2 (go_string_expr env escape) ?ops vs"
    "concat vs = concat (map (go_part_value env escape params) (cut_path path))"
    using go_operands_value by blast
  have "?ops \<noteq> []"
  proof
    assume "?ops = []"
    have "part_str part = []" if "part \<in> set (cut_path path)" for part
    proof -
      have "go_path_operand params part = []" using \<open>?ops = []\<close> that by simp
      then show ?thesis by (cases part) (auto simp: go_path_operand_def split: option.splits if_splits)
    qed
    then have "concat (map part_str (cut_path path)) = []" by simp
    with assms(2) cut_path_text show False by metis
  qed
  then show ?thesis
    using vs(2) go_join_value [OF vs(1) \<open>?ops \<noteq> []\<close>] \<open>?ops \<noteq> []\<close>
    unfolding build_path_concat_def Let_def by (simp only: if_False)
qed


definition path_string_param :: "string \<Rightarrow> parameter" where
  "path_string_param n = \<lparr>par_name = n, par_location = InPath, par_ty = TScalar ScString, par_required = True, par_description = None\<rparr>"


section \<open>Arguments and results\<close>

text \<open>Parameters whose names differ can get one identifier, and one that begins with a digit none that Go accepts.\<close>

lemma go_param_idents_clash: "go_param_ident ''user-id'' = go_param_ident ''userId'' \<and> go_param_ident ''2fa'' = ''2fa''"
  by code_simp

text \<open>A method whose result is any JSON value returns a pointer to it, as the signature is looser than the body assumes.\<close>

lemma go_any_result:
  "success_body op = Some TAny \<Longrightarrow>
   go_result (map_option go_render_type (success_body op)) = ''(any, error)'' \<and> go_method_body op = go_decode op ''any'' ''&out''"
  by (simp add: go_result_def go_method_body_def starts_with_def)

end
