(* ===== verification/Rust_Models.thy ===== *)
theory Rust_Models
  imports Emit_Common Type_Meaning
begin

text \<open>
  crates/specforge-rust/src/lib.rs: names, types and models.rs of the generated Rust crate.
\<close>

section \<open>Names\<close>

definition rust_sdk_builtin_types :: "string list" where
  "rust_sdk_builtin_types =
     [''Error'', ''Client'', ''ClientBuilder'', ''ServiceContainer'', ''Semaphore'', ''RetryOptions'', ''ResponseCache'',
      ''RequestDeduper'', ''ResponseTransformer'', ''RequestInterceptor'', ''ResponseInterceptor'', ''RateLimiter'',
      ''TokenBucket'', ''SlidingWindow'', ''MetricsCollector'', ''Metrics'', ''TelemetryHooks'', ''Middleware'',
      ''MiddlewareRequest'', ''MiddlewareResponse'', ''StreamMiddleware'', ''ServerSentEvent'', ''SseStream'', ''Auth'',
      ''CursorPage'', ''OffsetPage'', ''ConsoleLogger'', ''NoopLogger'']"

definition is_rust_sdk_builtin_type :: "string \<Rightarrow> bool" where
  "is_rust_sdk_builtin_type name \<longleftrightarrow> name \<in> set rust_sdk_builtin_types"

definition rust_safe_model_name :: "string \<Rightarrow> string" where
  "rust_safe_model_name name = (if is_rust_sdk_builtin_type name then name @ ''Model'' else name)"

definition rust_reserved_words :: "string list" where
  "rust_reserved_words =
     [''as'', ''break'', ''const'', ''continue'', ''crate'', ''else'', ''enum'', ''extern'', ''false'', ''fn'', ''for'', ''if'',
      ''impl'', ''in'', ''let'', ''loop'', ''match'', ''mod'', ''move'', ''mut'', ''pub'', ''ref'', ''return'', ''self'', ''Self'',
      ''static'', ''struct'', ''super'', ''trait'', ''true'', ''type'', ''unsafe'', ''use'', ''where'', ''while'', ''async'',
      ''await'', ''dyn'', ''abstract'', ''become'', ''box'', ''do'', ''final'', ''macro'', ''override'', ''priv'', ''typeof'',
      ''unsized'', ''virtual'', ''yield'', ''try'', ''gen'', ''client'', ''path'', ''query'', ''body'', ''result'', ''ok'', ''err'',
      ''some'', ''none'', ''vec'', ''string'', ''option'']"

definition is_rust_reserved :: "string \<Rightarrow> bool" where
  "is_rust_reserved s \<longleftrightarrow> s \<in> set rust_reserved_words"

text \<open>The first loop of \<open>snake\<close> spells symbols out; U+2212 is three bytes.\<close>

definition rust_symbol_names :: "(char \<times> string) list" where
  "rust_symbol_names =
     [(CHR ''+'', ''plus_''), (CHR ''-'', ''minus_''), (CHR ''.'', ''_dot_''), (CHR ''/'', ''_slash_''), (CHR ''@'', ''_at_''),
      (CHR ''#'', ''_hash_''), (CHR ''$'', ''_dollar_''), (CHR ''%'', ''_pct_''), (CHR ''&'', ''_and_''), (CHR ''*'', ''_star_'')]"

fun expand_symbols :: "string \<Rightarrow> string" where
  "expand_symbols [] = []"
| "expand_symbols (ch # cs) =
     (case map_of rust_symbol_names ch of
        Some name \<Rightarrow> name @ expand_symbols cs
      | None \<Rightarrow>
          if starts_with (ch # cs) [CHR 0xE2, CHR 0x88, CHR 0x92] then ''minus_'' @ expand_symbols (drop 2 cs)
          else ch # expand_symbols cs)"

text \<open>A turn of the second loop, on the index, the character and the text made so far.\<close>

definition snake_step :: "nat \<times> char \<Rightarrow> string \<Rightarrow> string" where
  "snake_step ich out =
     (case ich of (i, ch) \<Rightarrow>
        if is_ascii_upper ch then out @ (if i > 0 then ''_'' else []) @ [to_ascii_lower ch]
        else if is_ascii_alphanumeric ch then out @ [to_ascii_lower ch]
        else if ch = CHR ''_'' \<and> \<not> ends_with out ''_'' then out @ ''_''
        else out)"

definition rust_snake :: "string \<Rightarrow> string" where
  "rust_snake input =
     (let out = trim_matches (CHR ''_'') (fold snake_step (List.enumerate 0 (expand_symbols input)) []);
          out = (if out = [] then ''x'' else if is_ascii_digit (hd out) then ''n_'' @ out else out)
      in if is_rust_reserved out then out @ ''_'' else out)"

section \<open>Types\<close>

fun rust_scalar :: "scalar \<Rightarrow> string" where
  "rust_scalar ScInteger = ''i32''"
| "rust_scalar ScInteger64 = ''i64''"
| "rust_scalar ScFloat = ''f64''"
| "rust_scalar ScBoolean = ''bool''"
| "rust_scalar ScBase64 = ''bool''"
| "rust_scalar ScBinary = ''bool''"
| "rust_scalar _ = ''String''"

definition hash_map_of :: string where "hash_map_of = ''::std::collections::HashMap<String, ''"

fun rust_render_type :: "ir_type \<Rightarrow> string" where
  "rust_render_type (TScalar s) = rust_scalar s"
| "rust_render_type (TStringEnum _ _) = ''String''"
| "rust_render_type (TArray item _) = ''Vec<'' @ rust_render_type item @ ''>''"
| "rust_render_type (TMap val) = hash_map_of @ rust_render_type val @ ''>''"
| "rust_render_type (TReference name nullable _) =
     (if nullable then ''Option<'' @ sdk_pascal name @ ''>'' else sdk_pascal name)"
| "rust_render_type (TComposition kind members _) =
     (case (kind, members) of (AllOf, m # _) \<Rightarrow> rust_render_type m | _ \<Rightarrow> ''serde_json::Value'')"
| "rust_render_type TAny = ''serde_json::Value''"
| "rust_render_type TUnknown = ''serde_json::Value''"

section \<open>Comments and literals\<close>

definition escape_rust_string :: "string \<Rightarrow> string" where
  "escape_rust_string s = replace_char (CHR 34) [CHR 92, CHR 34] (replace_char (CHR 92) [CHR 92, CHR 92] s)"

definition rust_string_lit :: "string \<Rightarrow> string" where
  "rust_string_lit s = dquote @ escape_rust_string s @ dquote"

definition rust_comment :: "string \<Rightarrow> string" where
  "rust_comment l = replace_char (CHR ''`'') [CHR 92, CHR ''`''] (replace_sub ''*/'' ''&#42;/'' (replace_sub ''/*'' ''/&#42;'' l))"

definition rust_doc_indented :: "string \<Rightarrow> string \<Rightarrow> string" where
  "rust_doc_indented text indent = comment_lines (\<lambda>l. (indent @ ''/// '') @ rust_comment l) text"

definition rust_doc :: "string \<Rightarrow> string" where
  "rust_doc text = rust_doc_indented text []"

definition rust_deprecated :: "string \<Rightarrow> string" where
  "rust_deprecated note = ''#[deprecated(note = '' @ dquote @ note @ dquote @ '')]'' @ newline"

definition rust_schema_deprecated :: "string \<Rightarrow> string option \<Rightarrow> string" where
  "rust_schema_deprecated name desc =
     (case desc of
        Some d \<Rightarrow>
          if contains_deprecated d
          then rust_deprecated (case emitter_schema_alternative d of
                 Some alt \<Rightarrow> ''Use '' @ alt @ '' instead'' | None \<Rightarrow> name @ '' is deprecated'')
          else []
      | None \<Rightarrow> [])"

definition opt_doc :: "string option \<Rightarrow> string" where
  "opt_doc desc = (case desc of Some d \<Rightarrow> rust_doc d | None \<Rightarrow> [])"

section \<open>Enums, unions and structs\<close>

definition rename_line :: "string \<Rightarrow> string" where
  "rename_line wire = ''    #[serde(rename = '' @ rust_string_lit wire @ '')]'' @ newline"

definition rust_variants :: "enum_model \<Rightarrow> string list" where
  "rust_variants e = unique_names [] [] (map (\<lambda>v. sdk_pascal (ev_value v)) (em_variants e))"

definition rust_emit_enum :: "enum_model \<Rightarrow> string" where
  "rust_emit_enum e =
     (let name = rust_safe_model_name (sdk_pascal (em_name e));
          meta = zip (rust_variants e) (map ev_value (em_variants e)) in
      opt_doc (em_description e) @ rust_schema_deprecated name (em_description e)
      @ ''#[derive(Debug, Clone, PartialEq, Eq, Serialize, Deserialize)]'' @ newline
      @ ''pub enum '' @ name @ '' {'' @ newline
      @ concat (map (\<lambda>(cand, wire). rename_line wire @ ''    '' @ cand @ '','' @ newline) meta)
      @ ''}'' @ newline @ newline
      @ ''impl std::fmt::Display for '' @ name @ '' {'' @ newline
      @ ''    fn fmt(&self, f: &mut std::fmt::Formatter<'' @ [CHR 39] @ ''_>) -> std::fmt::Result {'' @ newline
      @ ''        match self {'' @ newline
      @ concat (map (\<lambda>(cand, wire). ''            Self::'' @ cand @ '' => write!(f, '' @ rust_string_lit wire @ ''),'' @ newline) meta)
      @ text_of_lines [''        }'', ''    }'', ''}''])"

definition union_value :: "schema_registry \<Rightarrow> discriminator option \<Rightarrow> string \<Rightarrow> string" where
  "union_value registry disc arm =
     (case Option.bind disc (\<lambda>d. sdk_discriminant arm (disc_property_name d) registry d) of
        Some v \<Rightarrow> v
      | None \<Rightarrow> sdk_pascal arm)"

definition rust_arm_methods :: "string \<Rightarrow> string" where
  "rust_arm_methods arm =
     (let arm_ty = sdk_pascal arm; is_fn = rust_snake arm in
      text_of_lines
        [''    /// Returns `true` if this is a [`'' @ arm_ty @ ''`] variant.'',
         ''    pub fn is_'' @ is_fn @ ''(&self) -> bool {'',
         ''        matches!(self, Self::'' @ arm_ty @ ''(_))'',
         ''    }'', [],
         ''    /// Consume self and return the inner [`'' @ arm_ty @ ''`], if applicable.'',
         ''    pub fn into_'' @ is_fn @ ''(self) -> Option<'' @ arm_ty @ ''> {'',
         ''        match self { Self::'' @ arm_ty @ ''(v) => Some(v), _ => None }'',
         ''    }'', [],
         ''    /// Borrow the inner [`'' @ arm_ty @ ''`], if applicable.'',
         ''    pub fn as_'' @ is_fn @ ''(&self) -> Option<&'' @ arm_ty @ ''> {'',
         ''        match self { Self::'' @ arm_ty @ ''(v) => Some(v), _ => None }'',
         ''    }'', []])"

definition rust_emit_union_impl :: "string \<Rightarrow> string list \<Rightarrow> discriminator option \<Rightarrow> schema_registry \<Rightarrow> string" where
  "rust_emit_union_impl name arms disc registry =
     ''impl '' @ name @ '' {'' @ newline
     @ ''    /// Return the discriminator value for this '' @ rust_snake name @ '' variant.'' @ newline
     @ text_of_lines [''    pub fn discriminant(&self) -> &'' @ [CHR 39] @ ''static str {'', ''        match self {'']
     @ concat (map (\<lambda>arm. ''            Self::'' @ sdk_pascal arm @ ''(_) => '' @ rust_string_lit (union_value registry disc arm) @ '','' @ newline) arms)
     @ text_of_lines [''        }'', ''    }'', []]
     @ concat (map rust_arm_methods arms)
     @ ''}'' @ newline"

text \<open>A union is written as an untagged enum, with and without a discriminator.\<close>

definition rust_emit_union :: "string \<Rightarrow> string option \<Rightarrow> string list \<Rightarrow> discriminator option \<Rightarrow> schema_registry \<Rightarrow> string" where
  "rust_emit_union name desc arms disc registry =
     opt_doc desc @ rust_schema_deprecated name desc
     @ text_of_lines [''#[derive(Debug, Clone, PartialEq, Serialize, Deserialize)]'', ''#[serde(untagged)]'', ''pub enum '' @ name @ '' {'']
     @ concat (map (\<lambda>arm. ''    '' @ sdk_pascal arm @ ''('' @ sdk_pascal arm @ ''),'' @ newline) arms)
     @ text_of_lines [''}'', []]
     @ rust_emit_union_impl name arms disc registry"

definition rust_fields :: "schema_registry \<Rightarrow> object_model \<Rightarrow> string list" where
  "rust_fields registry obj = unique_names ''_'' [] (map (\<lambda>p. rust_snake (prop_name p)) (own_properties registry obj))"

definition rust_field_type :: "property \<Rightarrow> string" where
  "rust_field_type p =
     (let ty = rust_render_type (prop_ty p) in
      if \<not> prop_required p \<and> \<not> starts_with ty ''Option<'' then ''Option<'' @ ty @ ''>'' else ty)"

definition rust_field_lines :: "string \<Rightarrow> property \<Rightarrow> string" where
  "rust_field_lines field p =
     (case prop_description p of Some d \<Rightarrow> rust_doc_indented d ''    '' | None \<Rightarrow> [])
     @ (if field \<noteq> prop_name p then rename_line (prop_name p) else [])
     @ (if prop_required p then []
        else ''    #[serde(default, skip_serializing_if = '' @ dquote @ ''Option::is_none'' @ dquote @ '')]'' @ newline)
     @ ''    pub '' @ field @ '': '' @ rust_field_type p @ '','' @ newline"

definition rust_emit_struct :: "string \<Rightarrow> object_model \<Rightarrow> schema_registry \<Rightarrow> string" where
  "rust_emit_struct name obj registry =
     rust_schema_deprecated name (om_description obj)
     @ ''#[derive(Debug, Clone, PartialEq, Serialize, Deserialize)]'' @ newline
     @ ''pub struct '' @ name @ '' {'' @ newline
     @ (case base_name obj of
          Some base \<Rightarrow> ''    #[serde(flatten)]'' @ newline @ ''    pub '' @ rust_snake base @ '': '' @ sdk_pascal base @ '','' @ newline
        | None \<Rightarrow> [])
     @ concat (map (\<lambda>(field, p). rust_field_lines field p) (zip (rust_fields registry obj) (own_properties registry obj)))
     @ ''}'' @ newline"

definition rust_emit_object :: "object_model \<Rightarrow> schema_registry \<Rightarrow> string" where
  "rust_emit_object obj registry =
     (let name = rust_safe_model_name (sdk_pascal (om_name obj));
          union = (case union_of obj of
              Some (members, disc) \<Rightarrow> if union_ref_arms members \<noteq> [] then Some (union_ref_arms members, disc) else None
            | None \<Rightarrow> None)
      in case union of
           Some (arms, disc) \<Rightarrow> rust_emit_union name (om_description obj) arms disc registry
         | None \<Rightarrow>
             opt_doc (om_description obj)
             @ (if om_properties obj \<noteq> [] then rust_emit_struct name obj registry
                else case om_shape_type obj of
                    Some shape \<Rightarrow> ''pub type '' @ name @ '' = '' @ rust_render_type shape @ '';'' @ newline
                  | None \<Rightarrow>
                      rust_schema_deprecated name (om_description obj)
                      @ ''#[derive(Debug, Clone, PartialEq, Serialize, Deserialize, Default)]'' @ newline
                      @ ''pub struct '' @ name @ '' {}'' @ newline))"

fun rust_emit_model :: "schema_registry \<Rightarrow> model \<Rightarrow> string" where
  "rust_emit_model registry (MEnum e) = rust_emit_enum e"
| "rust_emit_model registry (MObject obj) = rust_emit_object obj registry"

definition rust_header :: string where
  "rust_header = ''// Code generated by specforge. DO NOT EDIT.'' @ newline @ newline"

definition serde_header :: string where
  "serde_header = rust_header @ ''use serde::{Deserialize, Serialize};'' @ newline @ newline"

definition rust_emit_models :: "document \<Rightarrow> string" where
  "rust_emit_models doc =
     serde_header @ concat (map (\<lambda>(_, m). rust_emit_model (doc_schemas doc) m @ newline) (doc_schemas doc))"

section \<open>Valid identifiers\<close>

definition snake_char :: "char \<Rightarrow> bool" where
  "snake_char c \<longleftrightarrow> is_ascii_lower c \<or> is_ascii_digit c \<or> c = CHR ''_''"

definition rust_ident :: "string \<Rightarrow> bool" where
  "rust_ident s \<longleftrightarrow> s \<noteq> [] \<and> is_ascii_lower (hd s) \<and> list_all snake_char s \<and> \<not> is_rust_reserved s"

lemma to_ascii_lower_cases:
  "is_ascii_upper c \<Longrightarrow> is_ascii_lower (to_ascii_lower c)"
  "is_ascii_alphanumeric c \<Longrightarrow> \<not> is_ascii_upper c \<Longrightarrow> to_ascii_lower c = c \<and> snake_char c"
  by (auto simp: to_ascii_lower_def ascii_defs snake_char_def)

lemma snake_step_chars: "list_all snake_char out \<Longrightarrow> list_all snake_char (snake_step ich out)"
  using to_ascii_lower_cases by (auto simp: snake_step_def snake_char_def split: prod.splits)

lemma fold_snake_chars: "list_all snake_char out \<Longrightarrow> list_all snake_char (fold snake_step ichs out)"
  by (induction ichs arbitrary: out) (auto simp: snake_step_chars)

lemma trim_matches_chars: "list_all P s \<Longrightarrow> list_all P (trim_matches c s)"
  by (auto simp: trim_matches_def trim_start_matches_def trim_end_matches_def list_all_iff dest!: set_dropWhileD set_takeWhileD)

lemma trim_end_matches_prefix: "\<exists>v. s = trim_end_matches c s @ v"
proof -
  have "rev s = takeWhile (\<lambda>x. x = c) (rev s) @ dropWhile (\<lambda>x. x = c) (rev s)" by simp
  then have "s = rev (dropWhile (\<lambda>x. x = c) (rev s)) @ rev (takeWhile (\<lambda>x. x = c) (rev s))"
    by (metis rev_append rev_rev_ident)
  then show ?thesis unfolding trim_end_matches_def by blast
qed

lemma trim_matches_hd:
  assumes "trim_matches c s \<noteq> []"
  shows "hd (trim_matches c s) \<noteq> c"
proof -
  let ?d = "trim_start_matches c s"
  obtain v where v: "?d = trim_matches c s @ v" using trim_end_matches_prefix [of ?d c] by (auto simp: trim_matches_def)
  with assms have "hd ?d = hd (trim_matches c s)" "?d \<noteq> []" by (metis hd_append2, auto)
  then show ?thesis using hd_dropWhile [of "\<lambda>x. x = c" s] by (simp add: trim_start_matches_def)
qed

lemma reserved_has_no_underscore: "is_rust_reserved s \<Longrightarrow> CHR ''_'' \<notin> set s"
  by (auto simp: is_rust_reserved_def rust_reserved_words_def)

lemma rust_ident_suffix:
  assumes "s \<noteq> []" "is_ascii_lower (hd s)" "list_all snake_char s" "list_all snake_char t"
  shows "rust_ident (s @ ''_'' @ t)"
  using assms reserved_has_no_underscore [of "s @ ''_'' @ t"] by (auto simp: rust_ident_def) (simp_all add: snake_char_def)

lemma rust_ident_counter: "rust_ident s \<Longrightarrow> rust_ident (s @ ''_'' @ show_nat m)"
  using digits_show_nat by (intro rust_ident_suffix) (auto simp: rust_ident_def list_all_iff snake_char_def)

lemma rust_ident_snake: "rust_ident (rust_snake s)"
proof -
  define out where "out = trim_matches (CHR ''_'') (fold snake_step (List.enumerate 0 (expand_symbols s)) [])"
  define out' where "out' = (if out = [] then ''x'' else if is_ascii_digit (hd out) then ''n_'' @ out else out)"
  have chars: "list_all snake_char out" unfolding out_def by (intro trim_matches_chars fold_snake_chars) simp
  have "hd out \<noteq> CHR ''_''" if "out \<noteq> []" using trim_matches_hd that unfolding out_def by blast
  with chars have "out' \<noteq> [] \<and> is_ascii_lower (hd out') \<and> list_all snake_char out'"
    by (cases out) (auto simp: out'_def snake_char_def ascii_defs byte_def)
  moreover have "rust_snake s = (if is_rust_reserved out' then out' @ ''_'' else out')"
    by (simp add: rust_snake_def out_def out'_def Let_def)
  ultimately show ?thesis using rust_ident_suffix [of out' "[]"] by (auto simp: rust_ident_def)
qed

lemma rust_builtin_suffix: "\<not> is_rust_sdk_builtin_type (name @ ''Model'')"
proof -
  have "list_all (\<lambda>b. \<not> ends_with b ''Model'') rust_sdk_builtin_types"
    by (simp add: rust_sdk_builtin_types_def ends_with_def starts_with_def)
  then show ?thesis by (auto simp: is_rust_sdk_builtin_type_def list_all_iff ends_with_def starts_with_def)
qed

lemma rust_safe_not_builtin: "\<not> is_rust_sdk_builtin_type (rust_safe_model_name n)"
  using rust_builtin_suffix by (simp add: rust_safe_model_name_def)

text \<open>
  The fields of a generated Rust struct are snake-case identifiers that are no keywords and differ from each other, one
  for each property; and no generated model takes the name of a type of the runtime.
\<close>

theorem rust_names_valid:
  "distinct (rust_fields registry obj) \<and> list_all rust_ident (rust_fields registry obj) \<and>
   length (rust_fields registry obj) = length (own_properties registry obj) \<and>
   \<not> is_rust_sdk_builtin_type (rust_safe_model_name (sdk_pascal s))"
proof -
  let ?bases = "map (\<lambda>p. rust_snake (prop_name p)) (own_properties registry obj)"
  have "rust_ident (unique_names ''_'' [] ?bases ! i)" if i: "i < length ?bases" for i
    using unique_names_form [OF i, of "''_''" "[]"] i rust_ident_snake rust_ident_counter by auto
  then have "list_all rust_ident (rust_fields registry obj)" by (simp add: rust_fields_def list_all_length)
  then show ?thesis using unique_names_distinct rust_safe_not_builtin by (simp add: rust_fields_def)
qed

text \<open>The field that holds a flattened base type takes part in none of this.\<close>

lemma rust_base_field_clash:
  assumes "own_properties registry obj = [p]" and "prop_name p = ''base''"
  shows "rust_fields registry obj = [rust_snake ''Base'']"
proof -
  have "rust_snake ''base'' = ''base''" "rust_snake ''Base'' = ''base''" by code_simp+
  with assms show ?thesis by (simp add: rust_fields_def unique_name_free)
qed

section \<open>Reading types back\<close>

datatype rust_type = RtName string | RtVec rust_type | RtMap rust_type | RtOption rust_type

definition rust_path_char :: "char \<Rightarrow> bool" where
  "rust_path_char c \<longleftrightarrow> is_ascii_alphanumeric c \<or> c = CHR ''_'' \<or> c = CHR '':''"

text \<open>The grammar of these types, as a reader: a generic type is its head, an angle bracket, its argument and the closing one.\<close>

definition closed_by :: "string \<Rightarrow> string option" where
  "closed_by r = (if r \<noteq> [] \<and> last r = CHR ''>'' then Some (butlast r) else None)"

definition argument_of :: "string \<Rightarrow> string \<Rightarrow> string option" where
  "argument_of h s = Option.bind (strip_prefix h s) closed_by"

lemma argument_shorter: "argument_of h s = Some a \<Longrightarrow> length a < length s"
  by (auto simp: argument_of_def closed_by_def strip_prefix_Some_iff bind_eq_Some_conv less_Suc_eq_le split: if_splits)
    (simp add: trans_less_add2)

function read_rust :: "string \<Rightarrow> rust_type option" where
  "read_rust s =
     (case argument_of ''Vec<'' s of
        Some a \<Rightarrow> map_option RtVec (read_rust a)
      | None \<Rightarrow>
          (case argument_of hash_map_of s of
             Some a \<Rightarrow> map_option RtMap (read_rust a)
           | None \<Rightarrow>
               (case argument_of ''Option<'' s of
                  Some a \<Rightarrow> map_option RtOption (read_rust a)
                | None \<Rightarrow> if s \<noteq> [] \<and> list_all rust_path_char s then Some (RtName s) else None)))"
  by pat_completeness auto
termination
  by (relation "measure length") (auto dest: argument_shorter)

declare read_rust.simps [simp del]

lemma argument_of_close: "argument_of h (h @ a @ ''>'') = Some a"
  by (simp add: argument_of_def closed_by_def)

lemma argument_of_None: "c \<in> set h \<Longrightarrow> c \<notin> set s \<Longrightarrow> argument_of h s = None"
  by (metis argument_of_def bind.bind_lunit UnI1 bind_eq_None_conv not_None_eq set_append strip_prefix_Some_iff)

lemma read_rust_name: "s \<noteq> [] \<Longrightarrow> list_all rust_path_char s \<Longrightarrow> read_rust s = Some (RtName s)"
proof -
  assume s: "s \<noteq> []" "list_all rust_path_char s"
  then have "CHR ''<'' \<notin> set s" by (auto simp: list_all_iff rust_path_char_def ascii_defs byte_def)
  then have "argument_of h s = None" if "CHR ''<'' \<in> set h" for h using argument_of_None that by blast
  with s show ?thesis by (subst read_rust.simps) (simp add: hash_map_of_def)
qed

lemma read_rust_vec: "read_rust (''Vec<'' @ a @ ''>'') = map_option RtVec (read_rust a)"
  by (subst read_rust.simps) (simp only: argument_of_close option.case)

lemma argument_of_other: "\<not> starts_with s h \<Longrightarrow> argument_of h s = None"
  by (simp add: argument_of_def strip_prefix_def)

lemma read_rust_map: "read_rust (hash_map_of @ a @ ''>'') = map_option RtMap (read_rust a)"
proof -
  have "argument_of ''Vec<'' (hash_map_of @ a @ ''>'') = None"
    by (rule argument_of_other) (simp add: hash_map_of_def starts_with_def)
  then show ?thesis by (subst read_rust.simps) (simp only: argument_of_close option.case)
qed

lemma read_rust_option: "read_rust (''Option<'' @ a @ ''>'') = map_option RtOption (read_rust a)"
proof -
  have "argument_of ''Vec<'' (''Option<'' @ a @ ''>'') = None" "argument_of hash_map_of (''Option<'' @ a @ ''>'') = None"
    by (rule argument_of_other; simp add: hash_map_of_def starts_with_def)+
  then show ?thesis by (subst read_rust.simps) (simp only: argument_of_close option.case)
qed

lemma rust_scalar_reads: "read_rust (rust_scalar s) = Some (RtName (rust_scalar s))"
  by (rule read_rust_name) (cases s; simp add: rust_path_char_def ascii_defs byte_def)+

lemma read_rust_value: "read_rust ''serde_json::Value'' = Some (RtName ''serde_json::Value'')"
  "read_rust ''String'' = Some (RtName ''String'')"
  by (rule read_rust_name; simp add: rust_path_char_def ascii_defs byte_def)+

lemma read_rust_pascal: "read_rust (sdk_pascal n) = Some (RtName (sdk_pascal n))"
  using sdk_pascal_shape [of n] sdk_pascal_alphanumeric [of n]
  by (intro read_rust_name) (auto simp: rust_path_char_def list_all_iff)

fun rust_type_names :: "rust_type \<Rightarrow> string set" where
  "rust_type_names (RtName n) = {n}"
| "rust_type_names (RtVec t) = rust_type_names t"
| "rust_type_names (RtMap t) = rust_type_names t"
| "rust_type_names (RtOption t) = rust_type_names t"

definition rust_predeclared :: "string set" where
  "rust_predeclared = {''String'', ''i32'', ''i64'', ''f64'', ''bool'', ''serde_json::Value''}"

definition rust_declared :: "schema_registry \<Rightarrow> string set" where
  "rust_declared registry = (\<lambda>(k, m). rust_safe_model_name (sdk_pascal (model_name m))) ` set registry"

text \<open>
  The JSON values that \<open>serde_json\<close> deserialises into a type: null into an \<open>Option\<close> only, and numbers into integers only when
  they have no fraction and fit. \<open>decl\<close> gives the values for the types that are declared, by their names.
\<close>

definition rust_name_admits :: "(string \<Rightarrow> json set) \<Rightarrow> string \<Rightarrow> json \<Rightarrow> bool" where
  "rust_name_admits decl n j \<longleftrightarrow>
     (if n = ''String'' then is_string j
      else if n = ''i32'' then fits_i32 j
      else if n = ''i64'' then is_i64 j
      else if n = ''f64'' then is_number j
      else if n = ''bool'' then is_boolean j
      else if n = ''serde_json::Value'' then True
      else j \<in> decl n)"

fun rust_admits :: "(string \<Rightarrow> json set) \<Rightarrow> rust_type \<Rightarrow> json \<Rightarrow> bool" where
  "rust_admits decl (RtName n) j = rust_name_admits decl n j"
| "rust_admits decl (RtVec t) j = (\<exists>vs. j = JArray vs \<and> (\<forall>v \<in> set vs. rust_admits decl t v))"
| "rust_admits decl (RtMap t) j = (\<exists>kvs. j = JObject kvs \<and> (\<forall>v \<in> snd ` set kvs. rust_admits decl t v))"
| "rust_admits decl (RtOption t) j = (j = JNull \<or> rust_admits decl t j)"

text \<open>
  Types whose values are all deserialised: no base64 and binary strings, which are rendered as \<open>bool\<close>, and no nullable arrays
  and enums; of an intersection only the first member counts, and unions are free-form. Types for which nothing else is
  deserialised: no enums, no unions and no intersections of several members.
\<close>

fun rust_readable :: "ir_type \<Rightarrow> bool" where
  "rust_readable (TScalar s) \<longleftrightarrow> s \<noteq> ScBase64 \<and> s \<noteq> ScBinary"
| "rust_readable (TStringEnum _ nullable) \<longleftrightarrow> \<not> nullable"
| "rust_readable (TArray item nullable) \<longleftrightarrow> \<not> nullable \<and> rust_readable item"
| "rust_readable (TMap val) \<longleftrightarrow> rust_readable val"
| "rust_readable (TComposition kind members _) \<longleftrightarrow>
     (case members of m # _ \<Rightarrow> kind = AllOf \<longrightarrow> rust_readable m | [] \<Rightarrow> True)"
| "rust_readable _ \<longleftrightarrow> True"

fun rust_exact :: "ir_type \<Rightarrow> bool" where
  "rust_exact (TScalar s) \<longleftrightarrow> s \<noteq> ScBase64 \<and> s \<noteq> ScBinary"
| "rust_exact (TStringEnum variants _) \<longleftrightarrow> variants = []"
| "rust_exact (TArray item _) \<longleftrightarrow> rust_exact item"
| "rust_exact (TMap val) \<longleftrightarrow> rust_exact val"
| "rust_exact (TComposition kind members _) \<longleftrightarrow> kind = AllOf \<and> (case members of [] \<Rightarrow> True | [m] \<Rightarrow> rust_exact m | _ \<Rightarrow> False)"
| "rust_exact _ \<longleftrightarrow> True"

text \<open>
  The names a type refers to mean in Rust what they mean in the document, and none hides a type of the prelude that
  renderings use.
\<close>

definition rust_names_mean :: "(string \<Rightarrow> json set) \<Rightarrow> (string \<Rightarrow> json set) \<Rightarrow> ir_type \<Rightarrow> bool" where
  "rust_names_mean decl decls ty \<longleftrightarrow>
     (\<forall>n \<in> set (type_refs ty). sdk_pascal n \<notin> {''String'', ''Vec'', ''Option''} \<and> decl (sdk_pascal n) = decls n)"

definition rust_type_means :: "(string \<Rightarrow> json set) \<Rightarrow> (string \<Rightarrow> json set) \<Rightarrow> ir_type \<Rightarrow> rust_type \<Rightarrow> bool" where
  "rust_type_means decl decls ty t \<longleftrightarrow> (rust_names_mean decl decls ty \<longrightarrow>
     (rust_readable ty \<longrightarrow> (\<forall>j. ir_admits fits_i32 decls ty j \<longrightarrow> rust_admits decl t j)) \<and>
     (rust_exact ty \<longrightarrow> (\<forall>j. rust_admits decl t j \<longrightarrow> ir_admits fits_i32 decls ty j)))"

lemma rust_name_admits_pascal:
  assumes "sdk_pascal n \<noteq> ''String''"
  shows "rust_name_admits decl (sdk_pascal n) j \<longleftrightarrow> j \<in> decl (sdk_pascal n)"
proof -
  obtain c cs where p: "sdk_pascal n = c # cs" "is_ascii_upper c" using sdk_pascal_shape [of n] by blast
  have "\<not> is_ascii_upper (hd x)" if "x \<in> {''i32'', ''i64'', ''f64'', ''bool'', ''serde_json::Value''}" for x
    using that by (auto simp: is_ascii_upper_def byte_def)
  with p have "sdk_pascal n \<notin> {''i32'', ''i64'', ''f64'', ''bool'', ''serde_json::Value''}" by force
  with assms show ?thesis by (simp add: rust_name_admits_def)
qed

lemma rust_scalar_means: "rust_type_means decl decls (TScalar s) (RtName (rust_scalar s))"
  by (cases s) (auto simp: rust_type_means_def rust_name_admits_def)

lemma rust_vec_means: "rust_type_means decl decls ty t \<Longrightarrow> rust_type_means decl decls (TArray ty n) (RtVec t)"
  by (auto simp: rust_type_means_def rust_names_mean_def)

lemma rust_map_means: "rust_type_means decl decls ty t \<Longrightarrow> rust_type_means decl decls (TMap ty) (RtMap t)"
  by (auto simp: rust_type_means_def rust_names_mean_def)

lemma rust_free_means: "ty \<in> {TAny, TUnknown} \<Longrightarrow> rust_type_means decl decls ty (RtName ''serde_json::Value'')"
  by (auto simp: rust_type_means_def rust_name_admits_def)

lemma rust_render_means:
  "\<exists>t. read_rust (rust_render_type ty) = Some t \<and> rust_type_means decl decls ty t \<and>
     rust_type_names t \<subseteq> rust_predeclared \<union> sdk_pascal ` set (type_refs ty)"
proof (induction ty rule: rust_render_type.induct)
  case (1 s)
  have "rust_scalar s \<in> rust_predeclared" by (cases s) (simp_all add: rust_predeclared_def)
  then show ?case by (simp add: rust_scalar_reads rust_scalar_means)
next
  case (2 variants n)
  show ?case
    by (auto simp: read_rust_value rust_type_means_def rust_name_admits_def rust_predeclared_def is_string_def)
next
  case (3 item n)
  then obtain t where "read_rust (rust_render_type item) = Some t" "rust_type_means decl decls item t"
    "rust_type_names t \<subseteq> rust_predeclared \<union> sdk_pascal ` set (type_refs item)" by blast
  then show ?case
    unfolding rust_render_type.simps read_rust_vec by (intro exI [of _ "RtVec t"]) (simp add: rust_vec_means)
next
  case (4 val)
  then obtain t where "read_rust (rust_render_type val) = Some t" "rust_type_means decl decls val t"
    "rust_type_names t \<subseteq> rust_predeclared \<union> sdk_pascal ` set (type_refs val)" by blast
  then show ?case
    unfolding rust_render_type.simps read_rust_map by (intro exI [of _ "RtMap t"]) (simp add: rust_map_means)
next
  case (5 name nullable d)
  then show ?case
    using read_rust_option [of "sdk_pascal name"] read_rust_pascal [of name]
    by (auto simp: rust_type_means_def rust_names_mean_def rust_name_admits_pascal)
next
  case (6 kind members d)
  show ?case
  proof (cases "kind = AllOf \<and> members \<noteq> []")
    case True
    then obtain m ms where m: "kind = AllOf" "members = m # ms" by (cases members) auto
    with 6 obtain t where t: "read_rust (rust_render_type m) = Some t" "rust_type_means decl decls m t"
      "rust_type_names t \<subseteq> rust_predeclared \<union> sdk_pascal ` set (type_refs m)" by blast
    from t(2) have "rust_type_means decl decls (TComposition kind members d) t"
      by (cases ms) (auto simp: m rust_type_means_def rust_names_mean_def)
    with t(1,3) show ?thesis by (auto simp: m)
  next
    case False
    then have "rust_render_type (TComposition kind members d) = ''serde_json::Value''"
      "rust_exact (TComposition kind members d) \<Longrightarrow> kind = AllOf \<and> members = []"
      by (cases kind; cases members; simp)+
    then show ?thesis
      by (auto simp: read_rust_value rust_type_means_def rust_name_admits_def rust_predeclared_def simp del: rust_render_type.simps rust_exact.simps)
  qed
next
  case 7
  show ?case by (simp add: read_rust_value rust_free_means rust_predeclared_def)
next
  case 8
  show ?case by (simp add: read_rust_value rust_free_means rust_predeclared_def)
qed

lemma rust_ref_declared_iff:
  assumes "set (type_refs ty) \<subseteq> fst ` set registry" and "\<forall>(k, m) \<in> set registry. model_name m = k" and n: "n \<in> set (type_refs ty)"
  shows "sdk_pascal n \<in> rust_declared registry \<longleftrightarrow> \<not> is_rust_sdk_builtin_type (sdk_pascal n)"
proof
  assume "sdk_pascal n \<in> rust_declared registry"
  then show "\<not> is_rust_sdk_builtin_type (sdk_pascal n)" using rust_safe_not_builtin by (auto simp: rust_declared_def)
next
  assume safe: "\<not> is_rust_sdk_builtin_type (sdk_pascal n)"
  obtain m where m: "(n, m) \<in> set registry" using assms(1) n by fastforce
  with assms(2) have "model_name m = n" by blast
  with m safe show "sdk_pascal n \<in> rust_declared registry" by (force simp: rust_declared_def rust_safe_model_name_def)
qed



text \<open>
  A base64 or binary string is never deserialised, as its type is rendered as \<open>bool\<close>; neither is the null of a nullable array
  or enum.
\<close>

lemma rust_unreadable:
  "\<exists>t. read_rust (rust_render_type (TScalar ScBase64)) = Some t \<and> \<not> rust_admits decl t (JString s)"
  "\<exists>t. read_rust (rust_render_type (TScalar ScBinary)) = Some t \<and> \<not> rust_admits decl t (JString s)"
  "\<exists>t. read_rust (rust_render_type (TStringEnum variants True)) = Some t \<and> \<not> rust_admits decl t JNull"
  "read_rust (rust_render_type (TArray item True)) = Some t \<Longrightarrow> \<not> rust_admits decl t JNull"
proof -
  have "read_rust (rust_render_type (TArray item True)) = map_option RtVec (read_rust (rust_render_type item))"
    unfolding rust_render_type.simps read_rust_vec ..
  then show "read_rust (rust_render_type (TArray item True)) = Some t \<Longrightarrow> \<not> rust_admits decl t JNull"
    by (auto simp del: rust_render_type.simps)
qed (use rust_scalar_reads [of ScBase64] rust_scalar_reads [of ScBinary] in
  \<open>simp_all add: read_rust_value rust_name_admits_def is_boolean_def is_string_def\<close>)

section \<open>Comments stay comments\<close>

lemma rust_doc_is_comment:
  assumes "CHR 10 \<notin> set indent"
  shows "\<exists>ls. split_on (CHR 10) (rust_doc_indented text indent) = ls @ [[]] \<and> length ls = length (str_lines text) \<and>
    list_all (\<lambda>l. starts_with l (indent @ ''/// '')) ls"
proof -
  have "CHR 10 \<notin> set (rust_comment l)" if "CHR 10 \<notin> set l" for l
  proof -
    have "CHR 10 \<notin> set (replace_sub ''*/'' ''&#42;/'' (replace_sub ''/*'' ''/&#42;'' l))"
      using that set_replace_sub [of "''*/''" "''&#42;/''" "replace_sub ''/*'' ''/&#42;'' l"]
        set_replace_sub [of "''/*''" "''/&#42;''" l] by auto
    then show ?thesis by (auto simp: rust_comment_def replace_char_def)
  qed
  then show ?thesis
    using assms comment_lines_prefixed [of "indent @ ''/// ''" rust_comment "text"] by (auto simp: rust_doc_indented_def)
qed

end
