(* ===== verification/Rust_Methods.thy ===== *)
theory Rust_Methods
  imports Rust_Models Go_Methods
begin

text \<open>
  crates/specforge-rust/src/lib.rs: the functions of the API files, webhooks, the manifest and the set of files of a generated
  Rust crate. The fixed texts of the runtime files and of the README are arguments.
\<close>

section \<open>Paths\<close>

definition escape_fmt :: "string \<Rightarrow> string" where
  "escape_fmt s = replace_char (CHR ''}'') ''}}'' (replace_char (CHR ''{'') ''{{'' s)"

definition rust_format_part :: "path_part \<Rightarrow> string" where
  "rust_format_part part = (case part of Lit s \<Rightarrow> escape_fmt s | Param _ \<Rightarrow> ''{}'')"

definition rust_path_arg :: "parameter list \<Rightarrow> path_part \<Rightarrow> string list" where
  "rust_path_arg params part =
     (case part of
        Lit _ \<Rightarrow> []
      | Param name \<Rightarrow>
          (case param_named params name of
             Some p \<Rightarrow> [''path_seg(&'' @ rust_snake (par_name p) @ '')'']
           | None \<Rightarrow> [dquote @ name @ dquote @ ''.to_string()'']))"

definition path_seg_text :: string where
  "path_seg_text = ''fn path_seg(v: impl std::fmt::Display) -> String { v.to_string().replace('' @ [CHR 39, CHR ''/'', CHR 39] @ '', ''
     @ dquote @ ''%2F'' @ dquote @ '') }''"

definition build_rust_path :: "string \<Rightarrow> parameter list \<Rightarrow> string" where
  "build_rust_path path params =
     (let parts = cut_path path;
          fmt = concat (map rust_format_part parts);
          args = concat (map (rust_path_arg params) parts)
      in if args = [] then dquote @ escape_rust_string path @ dquote @ ''.to_string()''
         else ''{ '' @ path_seg_text @ '' format!('' @ dquote @ fmt @ dquote @ '', '' @ join '', '' args @ '') }'')"

text \<open>\<open>rust_coerce_string\<close> for a value, \<open>rust_coerce_string_ref\<close> for what \<open>Some(ref v)\<close> binds.\<close>

definition cloned_type :: "ir_type \<Rightarrow> bool" where
  "cloned_type ty = (case ty of TScalar s \<Rightarrow> s \<in> {ScString, ScDateTime, ScUuid} | TStringEnum _ _ \<Rightarrow> True | _ \<Rightarrow> False)"

definition displayed_type :: "ir_type \<Rightarrow> bool" where
  "displayed_type ty = (case ty of TScalar s \<Rightarrow> s \<notin> {ScString, ScDateTime, ScUuid} | TReference _ _ _ \<Rightarrow> True | _ \<Rightarrow> False)"

definition rust_coerce_string :: "ir_type \<Rightarrow> string \<Rightarrow> string" where
  "rust_coerce_string ty ident =
     (if cloned_type ty then ident @ ''.clone()''
      else if displayed_type ty then ident @ ''.to_string()''
      else ''serde_json::to_string(&'' @ ident @ '').unwrap_or_default()'')"

definition rust_coerce_string_ref :: "ir_type \<Rightarrow> string" where
  "rust_coerce_string_ref ty =
     (if cloned_type ty then ''v.clone()''
      else if displayed_type ty then ''v.to_string()''
      else ''serde_json::to_string(v).unwrap_or_default()'')"

section \<open>Methods\<close>

definition rust_params :: "operation \<Rightarrow> parameter list" where
  "rust_params op = params_at InPath op @ params_at InQuery op"

definition rust_arg :: "parameter \<Rightarrow> string" where
  "rust_arg p =
     (let ident = rust_snake (par_name p); ty = rust_render_type (par_ty p) in
      if ty = ''String''
      then (if par_required p then ident @ '': impl Into<String>'' else ident @ '': Option<impl Into<String>>'')
      else if \<not> par_required p then ident @ '': Option<'' @ ty @ ''>''
      else ident @ '': '' @ ty)"

definition rust_args :: "operation \<Rightarrow> string list" where
  "rust_args op =
     [''client: &Client''] @ map rust_arg (rust_params op)
     @ (case op_request_body op of Some b \<Rightarrow> [''body: &'' @ rust_render_type (rb_ty b)] | None \<Rightarrow> [])"

definition rust_ret_type :: "operation \<Rightarrow> string" where
  "rust_ret_type op = (case success_body op of Some ty \<Rightarrow> rust_render_type ty | None \<Rightarrow> ''()'')"

definition rust_method_head :: "operation \<Rightarrow> string" where
  "rust_method_head op =
     (let fn_name = rust_snake (op_operation_id op) in
      (case op_summary op of
         Some s \<Rightarrow> rust_doc s
       | None \<Rightarrow> ''/// '' @ method_upper (op_method op) @ '' '' @ op_path op @ ''.'' @ newline)
      @ (if is_operation_deprecated op
         then rust_deprecated (''Use ''
           @ (case emitter_deprecation_alternative op of Some alt \<Rightarrow> alt | None \<Rightarrow> fn_name) @ '' instead'')
         else [])
      @ ''pub async fn '' @ fn_name @ ''('' @ join '', '' (rust_args op) @ '') -> Result<'' @ rust_ret_type op @ ''> {'' @ newline)"

definition rust_binding :: "parameter \<Rightarrow> string" where
  "rust_binding p =
     (let ident = rust_snake (par_name p) in
      if rust_render_type (par_ty p) = ''String''
      then (if par_required p then ''    let '' @ ident @ '' = '' @ ident @ ''.into();'' @ newline
            else ''    let '' @ ident @ '' = '' @ ident @ ''.map(|v| v.into());'' @ newline)
      else [])"

definition rust_query_line :: "parameter \<Rightarrow> string" where
  "rust_query_line p =
     (let ident = rust_snake (par_name p) in
      if par_required p
      then ''    query.push(('' @ rust_string_lit (par_name p) @ '', '' @ rust_coerce_string (par_ty p) ident @ ''));'' @ newline
      else ''    if let Some(ref v) = '' @ ident @ '' {'' @ newline
        @ ''        query.push(('' @ rust_string_lit (par_name p) @ '', '' @ rust_coerce_string_ref (par_ty p) @ ''));'' @ newline
        @ ''    }'' @ newline)"

definition rust_query :: "operation \<Rightarrow> string" where
  "rust_query op =
     (if params_at InQuery op = [] then ''    let query: Vec<(&str, String)> = Vec::new();'' @ newline
      else ''    let mut query: Vec<(&str, String)> = Vec::new();'' @ newline
        @ concat (map rust_query_line (params_at InQuery op)))"

definition rust_call :: "operation \<Rightarrow> string" where
  "rust_call op =
     ''(reqwest::Method::'' @ method_upper (op_method op) @ '', &path, &query, ''
     @ (if op_request_body op \<noteq> None then ''Some(body)'' else ''None::<&()>'') @ '')''"

text \<open>
  A method without a result accepts a status 204 and a body that is not JSON; the text first made for it is discarded by
  \<open>body.clear()\<close>.
\<close>

definition rust_method_end :: "operation \<Rightarrow> string" where
  "rust_method_end op =
     (if rust_ret_type op = ''()''
      then text_of_lines
        [''    let _: () = client'',
         ''        .request_json::<(), _>'' @ rust_call op,
         ''        .await'',
         ''        .or_else(|e| match &e {'',
         ''            crate::error::Error::Http { status, .. } if *status == 204 => Ok(()),'',
         ''            crate::error::Error::Serde(_) => Ok(()),'',
         ''            _ => Err(e),'',
         ''        })?;'',
         ''    Ok(())'']
      else ''    client.request_json::<'' @ rust_ret_type op @ '', _>'' @ rust_call op @ ''.await'' @ newline)"

definition rust_emit_method :: "operation \<Rightarrow> string" where
  "rust_emit_method op =
     rust_method_head op
     @ concat (map rust_binding (rust_params op))
     @ ''    let path = '' @ build_rust_path (op_path op) (params_at InPath op) @ '';'' @ newline
     @ rust_query op
     @ rust_method_end op
     @ ''}'' @ newline"

definition rust_emit_tag_file :: "operation list \<Rightarrow> string" where
  "rust_emit_tag_file ops =
     rust_header
     @ text_of_lines [''use crate::client::Client;'', ''use crate::error::Result;'', ''use crate::models::*;'', []]
     @ concat (map (\<lambda>op. rust_emit_method op @ newline) ops)"

section \<open>Webhooks\<close>

definition rust_payload_name :: "webhook \<Rightarrow> string" where
  "rust_payload_name wh = sdk_pascal (wh_name wh @ ''WebhookPayload'')"

definition rust_emit_payload :: "webhook \<Rightarrow> string" where
  "rust_emit_payload wh =
     (case wh_description wh of
        Some d \<Rightarrow> rust_doc d
      | None \<Rightarrow> (case wh_summary wh of Some s \<Rightarrow> rust_doc s | None \<Rightarrow> []))
     @ ''#[derive(Debug, Clone, Serialize, Deserialize)]'' @ newline
     @ (case wh_request_body wh of
          Some rb \<Rightarrow> text_of_lines [''pub struct '' @ rust_payload_name wh @ '' {'', ''    #[serde(flatten)]'',
            ''    pub inner: '' @ rust_render_type (rb_ty rb) @ '','', ''}'', []]
        | None \<Rightarrow> ''pub struct '' @ rust_payload_name wh @ '' {}'' @ newline @ newline)"

definition rust_emit_webhooks :: "document \<Rightarrow> string" where
  "rust_emit_webhooks doc =
     serde_header
     @ concat (map rust_emit_payload (doc_webhooks doc))
     @ ''/// Trait for handling webhook events.'' @ newline
     @ ''pub trait WebhookHandler: Send + Sync {'' @ newline
     @ concat (map (\<lambda>wh. text_of_lines
         [''    /// Handle the `'' @ wh_name wh @ ''` webhook.'',
          ''    fn '' @ rust_snake (''handle_'' @ wh_name wh) @ ''(&self, payload: '' @ rust_payload_name wh @ '') -> crate::error::Result<()>;''])
         (doc_webhooks doc))
     @ ''}'' @ newline"

section \<open>The manifest\<close>

definition semver_char :: "char \<Rightarrow> bool" where
  "semver_char c \<longleftrightarrow> is_ascii_digit c \<or> c = CHR ''.''"

text \<open>Splitting at every other character and concatenating the parts keeps the digits and dots.\<close>

definition sanitize_semver :: "string \<Rightarrow> string" where
  "sanitize_semver v =
     (case filter (\<lambda>s. s \<noteq> []) (split_on (CHR ''.'') (filter semver_char v)) of
        a # b # c # _ \<Rightarrow> join ''.'' [a, b, c]
      | [a, b] \<Rightarrow> join ''.'' [a, b, ''0'']
      | [a] \<Rightarrow> join ''.'' [a, ''0'', ''0'']
      | [] \<Rightarrow> ''0.1.0'')"

definition rust_crate_name :: "document \<Rightarrow> string option \<Rightarrow> string" where
  "rust_crate_name doc opt =
     (case opt of
        Some n \<Rightarrow> n
      | None \<Rightarrow>
          (let slug = ascii_slug (CHR ''_'') (doc_title doc);
               slug = (if slug = [] then ''generated_sdk'' else slug)
           in if is_ascii_digit (hd slug) then ''sdk_'' @ slug else slug @ ''_sdk''))"

definition emit_cargo_toml :: "document \<Rightarrow> string \<Rightarrow> string" where
  "emit_cargo_toml doc crate =
     (let q = (\<lambda>s. dquote @ s @ dquote); features = (\<lambda>fs. ''['' @ join '', '' (map q fs) @ '']'') in
      text_of_lines
        [''[package]'',
         ''name = '' @ q crate,
         ''version = '' @ q (sanitize_semver (doc_version doc)),
         ''edition = '' @ q ''2021'',
         ''description = '' @ q (''Generated Rust SDK for '' @ replace_char (CHR 34) [CHR 92, CHR 34] (doc_title doc)),
         ''license = '' @ q ''MIT'',
         ''publish = false'',
         [],
         ''[dependencies]'',
         ''reqwest = { version = '' @ q ''0.12'' @ '', default-features = false, features = ''
           @ features [''json'', ''rustls-tls'', ''stream''] @ '' }'',
         ''serde = { version = '' @ q ''1'' @ '', features = '' @ features [''derive''] @ '' }'',
         ''serde_json = '' @ q ''1'',
         ''thiserror = '' @ q ''1'',
         ''async-trait = '' @ q ''0.1'',
         ''tokio = { version = '' @ q ''1'' @ '', features = '' @ features [''rt-multi-thread'', ''macros'', ''time'', ''sync''] @ '' }'',
         ''futures-util = '' @ q ''0.3'',
         ''bytes = '' @ q ''1''])"

definition rust_modules :: "string list" where
  "rust_modules =
     [''api'', ''cache'', ''client'', ''concurrency'', ''dedup'', ''error'', ''idempotency'', ''interceptors'', ''logging'',
      ''middleware'', ''models'', ''paginate'', ''ratelimit'', ''retry'', ''streaming'', ''telemetry'', ''validate'',
      ''validation_middleware'']"

definition rust_lib_modules :: "bool \<Rightarrow> string list" where
  "rust_lib_modules has_webhooks = rust_modules @ (if has_webhooks then [''webhooks''] else [])"

definition emit_lib :: "bool \<Rightarrow> string" where
  "emit_lib has_webhooks =
     rust_header @ text_of_lines ([''//! Generated OpenAPI client.'', []]
       @ map (\<lambda>m. ''pub mod '' @ m @ '';'') (rust_lib_modules has_webhooks)
       @ [[],
          ''pub use client::{Auth, Client, ClientBuilder, ResponseTransformer, ServiceContainer};'',
          ''pub use interceptors::{RequestInterceptor, ResponseInterceptor};'',
          ''pub use concurrency::Semaphore;'',
          ''pub use dedup::RequestDeduper;'',
          ''pub use error::{Error, Result};'',
          ''pub use idempotency::{is_idempotency_candidate, new_idempotency_key, IDEMPOTENCY_HEADER};'',
          ''pub use logging::{ConsoleLogger, Logger, NoopLogger};'',
          ''pub use middleware::{Middleware, MiddlewareRequest, MiddlewareResponse, StreamMiddleware};'',
          ''pub use paginate::{cursor_paginate, offset_paginate, CursorPage, OffsetPage};'',
          ''pub use ratelimit::{RateLimiter, SlidingWindow, TokenBucket};'',
          ''pub use retry::RetryOptions;'',
          ''pub use telemetry::{MetricsCollector, TelemetryHooks};'',
          ''pub use streaming::{ServerSentEvent, SseStream};'',
          ''pub use validation_middleware::{validation_middleware, EndpointSchema, RouteSchemaMap};''])"

section \<open>Files\<close>

definition rust_tag_module :: "string \<Rightarrow> string" where
  "rust_tag_module tag = rust_snake (sdk_pascal tag)"

definition rust_src_path :: "string \<Rightarrow> string" where
  "rust_src_path m = ''src/'' @ m @ ''.rs''"

definition rust_api_path :: "string \<Rightarrow> string" where
  "rust_api_path tag = ''src/api/'' @ rust_tag_module tag @ ''.rs''"

definition rust_fixed_modules :: "string list" where
  "rust_fixed_modules =
     [''error'', ''client'', ''retry'', ''paginate'', ''concurrency'', ''dedup'', ''middleware'', ''interceptors'', ''idempotency'',
      ''streaming'', ''cache'', ''ratelimit'', ''telemetry'', ''logging'', ''validate'', ''validation_middleware'']"

definition rust_api_mod :: "string list \<Rightarrow> string" where
  "rust_api_mod mods = rust_header @ concat (map (\<lambda>m. text_of_lines [''pub mod '' @ m @ '';'', ''pub use '' @ m @ ''::*;'']) mods)"

definition rust_generate_files ::
  "(string \<Rightarrow> string) \<Rightarrow> (string \<Rightarrow> string) \<Rightarrow> string \<Rightarrow> document \<Rightarrow> string option \<Rightarrow> (string \<times> string) list" where
  "rust_generate_files runtime readme version_file doc opt =
     (let crate = rust_crate_name doc opt; by_tag = group_by_tag (doc_operations doc) in
      [(''Cargo.toml'', emit_cargo_toml doc crate)]
      @ map (\<lambda>m. (rust_src_path m, runtime m)) rust_fixed_modules
      @ [(rust_src_path ''models'', rust_emit_models doc)]
      @ (if doc_webhooks doc \<noteq> [] then [(rust_src_path ''webhooks'', rust_emit_webhooks doc)] else [])
      @ map (\<lambda>(tag, ops). (rust_api_path tag, rust_emit_tag_file ops)) by_tag
      @ [(''src/api/mod.rs'', rust_api_mod (map (\<lambda>(tag, ops). rust_tag_module tag) by_tag)),
         (''src/lib.rs'', emit_lib (doc_webhooks doc \<noteq> [])),
         (''README.md'', readme crate), (''specforge-version.json'', version_file)])"

section \<open>The path that is requested\<close>

text \<open>What \<open>format!\<close> makes of a format string and its arguments; an unused or missing argument is a compile-time error.\<close>

fun run_format :: "string \<Rightarrow> string list \<Rightarrow> string option" where
  "run_format [] args = (if args = [] then Some [] else None)"
| "run_format [c] args = (if c = CHR ''{'' \<or> c = CHR ''}'' then None else map_option ((#) c) (run_format [] args))"
| "run_format (c # d # cs) args =
     (if c = CHR ''{'' \<and> d = CHR ''}''
      then (case args of a # as \<Rightarrow> map_option ((@) a) (run_format cs as) | [] \<Rightarrow> None)
      else if c = CHR ''{'' \<or> c = CHR ''}''
      then (if d = c then map_option ((#) c) (run_format cs args) else None)
      else map_option ((#) c) (run_format (d # cs) args))"

lemma escape_fmt_Cons:
  "escape_fmt (c # s) =
     (if c = CHR ''{'' then ''{{'' @ escape_fmt s else if c = CHR ''}'' then ''}}'' @ escape_fmt s else c # escape_fmt s)"
  "escape_fmt [] = []"
  by (simp_all add: escape_fmt_def replace_char_def)

lemma run_format_plain:
  "c \<noteq> CHR ''{'' \<Longrightarrow> c \<noteq> CHR ''}'' \<Longrightarrow> run_format (c # cs) args = map_option ((#) c) (run_format cs args)"
  by (cases cs) auto

lemma run_format_escaped: "run_format (escape_fmt s @ r) args = map_option ((@) s) (run_format r args)"
proof (induction s)
  case (Cons c s)
  then show ?case by (auto simp: escape_fmt_Cons run_format_plain option.map_comp comp_def)
qed (simp add: escape_fmt_Cons option.map_ident)

definition path_segment :: "string \<Rightarrow> string" where
  "path_segment v = replace_char (CHR ''/'') ''%2F'' v"

text \<open>What a part of the path of an operation becomes; \<open>env\<close> gives the text that each argument displays.\<close>

definition rust_part_value :: "(string \<Rightarrow> string) \<Rightarrow> parameter list \<Rightarrow> path_part \<Rightarrow> string" where
  "rust_part_value env params part =
     (case part of
        Lit s \<Rightarrow> s
      | Param name \<Rightarrow>
          (case param_named params name of
             Some p \<Rightarrow> path_segment (env (rust_snake (par_name p)))
           | None \<Rightarrow> name))"

text \<open>The text between the quotes of a string literal, read with the two escapes that occur; a bare quote or backslash has no reading.\<close>

fun read_rust_lit :: "string \<Rightarrow> string option" where
  "read_rust_lit [] = Some []"
| "read_rust_lit [c] = (if c = CHR 92 \<or> c = CHR 34 then None else Some [c])"
| "read_rust_lit (c # d # cs) =
     (if c = CHR 92 then (if d = CHR 92 \<or> d = CHR 34 then map_option ((#) d) (read_rust_lit cs) else None)
      else if c = CHR 34 then None else map_option ((#) c) (read_rust_lit (d # cs)))"

lemma read_rust_lit_plain: "c \<noteq> CHR 92 \<Longrightarrow> c \<noteq> CHR 34 \<Longrightarrow> read_rust_lit (c # cs) = map_option ((#) c) (read_rust_lit cs)"
  by (cases cs) auto

lemma read_rust_lit_escaped: "read_rust_lit (escape_rust_string s) = Some s"
proof (induction s)
  case (Cons c s)
  have "escape_rust_string (c # s) =
      (if c = CHR 92 then [CHR 92, CHR 92] else if c = CHR 34 then [CHR 92, CHR 34] else [c]) @ escape_rust_string s"
    by (simp add: escape_rust_string_def replace_char_def)
  with Cons show ?case by (auto simp: read_rust_lit_plain)
qed (simp add: escape_rust_string_def replace_char_def)

lemma read_rust_lit_idle: "CHR 34 \<notin> set s \<Longrightarrow> CHR 92 \<notin> set s \<Longrightarrow> read_rust_lit s = Some s"
  by (induction s) (auto simp: read_rust_lit_plain)

text \<open>The expressions for a path, and their values.\<close>

inductive rust_string_expr :: "(string \<Rightarrow> string) \<Rightarrow> string \<Rightarrow> string \<Rightarrow> bool" for env where
  expr_literal: "read_rust_lit t = Some s \<Longrightarrow> rust_string_expr env (dquote @ t @ dquote @ ''.to_string()'') s"
| expr_segment: "rust_string_expr env (''path_seg(&'' @ ident @ '')'') (path_segment (env ident))"
| expr_format: "read_rust_lit t = Some fmt \<Longrightarrow> list_all2 (rust_string_expr env) args vs \<Longrightarrow> run_format fmt vs = Some v \<Longrightarrow>
    rust_string_expr env (''{ '' @ path_seg_text @ '' format!('' @ dquote @ t @ dquote @ '', '' @ join '', '' args @ '') }'') v"

definition plain_text :: "string \<Rightarrow> bool" where
  "plain_text s \<longleftrightarrow> CHR 34 \<notin> set s \<and> CHR 92 \<notin> set s"

lemma plain_text_append: "plain_text (s @ t) \<longleftrightarrow> plain_text s \<and> plain_text t"
  by (auto simp: plain_text_def)

lemma rust_parts_value:
  assumes "list_all (\<lambda>part. plain_text (part_str part)) parts"
  shows "\<exists>vs. list_all2 (rust_string_expr env) (concat (map (rust_path_arg params) parts)) vs \<and>
    run_format (concat (map rust_format_part parts)) vs = Some (concat (map (rust_part_value env params) parts)) \<and>
    plain_text (concat (map rust_format_part parts))"
  using assms
proof (induction parts)
  case Nil
  then show ?case by (intro exI [of _ "[]"]) (simp add: plain_text_def)
next
  case (Cons part parts)
  then obtain vs where vs: "list_all2 (rust_string_expr env) (concat (map (rust_path_arg params) parts)) vs"
    "run_format (concat (map rust_format_part parts)) vs = Some (concat (map (rust_part_value env params) parts))"
    "plain_text (concat (map rust_format_part parts))" by auto
  show ?case
  proof (cases part)
    case (Lit s)
    have "plain_text (escape_fmt s)"
      using Cons.prems Lit by (auto simp: plain_text_def escape_fmt_def replace_char_def)
    moreover have "rust_format_part part = escape_fmt s" "rust_path_arg params part = []" "rust_part_value env params part = s"
      using Lit by (simp_all add: rust_format_part_def rust_path_arg_def rust_part_value_def)
    ultimately show ?thesis using vs by (intro exI [of _ vs]) (simp add: run_format_escaped plain_text_append)
  next
    case (Param name)
    have "plain_text name" using Cons.prems Param by (simp add: plain_text_def)
    then have u: "rust_string_expr env (dquote @ name @ dquote @ ''.to_string()'') name"
      using expr_literal [OF read_rust_lit_idle] by (simp add: plain_text_def)
    obtain a v where av: "rust_path_arg params part = [a]" "rust_string_expr env a v" "rust_part_value env params part = v"
      using Param u expr_segment by (cases "param_named params name") (auto simp: rust_path_arg_def rust_part_value_def)
    have "rust_format_part part = ''{}''" using Param by (simp add: rust_format_part_def)
    with av vs show ?thesis by (intro exI [of _ "v # vs"]) (simp add: plain_text_def)
  qed
qed

text \<open>
  Rust evaluates the expression for the path of a request to the path of the operation with every placeholder of a
  declared parameter replaced by the value as displayed, with its slashes escaped and nothing else, and every other
  placeholder by its bare name.
\<close>

theorem rust_path_value:
  assumes "plain_text path"
  shows "\<exists>parts. path = concat (map part_str parts) \<and>
    rust_string_expr env (build_rust_path path params) (concat (map (rust_part_value env params) parts))"
proof -
  let ?parts = "cut_path path" let ?args = "concat (map (rust_path_arg params) ?parts)"
  have "list_all (\<lambda>part. plain_text (part_str part)) ps" if "plain_text (concat (map part_str ps))" for ps
    using that by (induction ps) (auto simp: plain_text_def)
  then obtain vs where vs: "list_all2 (rust_string_expr env) ?args vs"
    "run_format (concat (map rust_format_part ?parts)) vs = Some (concat (map (rust_part_value env params) ?parts))"
    "plain_text (concat (map rust_format_part ?parts))"
    using rust_parts_value assms cut_path_text [of path] by metis
  have "rust_string_expr env (build_rust_path path params) (concat (map (rust_part_value env params) ?parts))"
  proof (cases "?args = []")
    case True
    have "rust_part_value env params part = part_str part" if "part \<in> set ?parts" for part
    proof -
      have "rust_path_arg params part = []" using True that by simp
      then show ?thesis by (cases part) (auto simp: rust_path_arg_def rust_part_value_def split: option.splits)
    qed
    then have "map (rust_part_value env params) ?parts = map part_str ?parts" by simp
    then have "concat (map (rust_part_value env params) ?parts) = path" by (simp only: cut_path_text)
    moreover have "build_rust_path path params = dquote @ escape_rust_string path @ dquote @ ''.to_string()''"
      using True unfolding build_rust_path_def Let_def by (simp only: if_P)
    ultimately show ?thesis using expr_literal [OF read_rust_lit_escaped] by (simp only:)
  next
    case False
    have "read_rust_lit (concat (map rust_format_part ?parts)) = Some (concat (map rust_format_part ?parts))"
      using vs(3) by (intro read_rust_lit_idle) (auto simp: plain_text_def)
    then have "rust_string_expr env (''{ '' @ path_seg_text @ '' format!('' @ dquote @ concat (map rust_format_part ?parts)
        @ dquote @ '', '' @ join '', '' ?args @ '') }'') (concat (map (rust_part_value env params) ?parts))"
      using expr_format vs(1,2) by blast
    with False show ?thesis unfolding build_rust_path_def Let_def by (simp only: if_False)
  qed
  then show ?thesis using cut_path_text [of path] by metis
qed

theorem rust_path_value_witness:
  "\<exists>parts. ''/pets/{petId}'' = concat (map part_str parts) \<and>
     rust_string_expr (\<lambda>e. ''a/b?c'') (build_rust_path ''/pets/{petId}'' [path_string_param ''petId''])
       (concat (map (rust_part_value (\<lambda>e. ''a/b?c'') [path_string_param ''petId'']) parts))"
  by (rule rust_path_value) (simp add: plain_text_def)

text \<open>So a question mark in a parameter begins the query of the request.\<close>

lemma path_segment_query: "path_segment ''a/b?admin=1'' = ''a%2Fb?admin=1''"
  by code_simp

section \<open>Headers\<close>

definition without_headers :: "operation \<Rightarrow> operation" where
  "without_headers op = op\<lparr>op_parameters := filter (\<lambda>p. par_location p \<noteq> InHeader) (op_parameters op)\<rparr>"

lemma without_headers_fields [simp]:
  "op_path (without_headers op) = op_path op" "op_method (without_headers op) = op_method op"
  "op_request_body (without_headers op) = op_request_body op" "op_responses (without_headers op) = op_responses op"
  "op_summary (without_headers op) = op_summary op" "op_description (without_headers op) = op_description op"
  "op_operation_id (without_headers op) = op_operation_id op" "success_body (without_headers op) = success_body op"
  "params_at InPath (without_headers op) = params_at InPath op" "params_at InQuery (without_headers op) = params_at InQuery op"
  "is_operation_deprecated (without_headers op) = is_operation_deprecated op"
  "emitter_deprecation_alternative (without_headers op) = emitter_deprecation_alternative op"
  by (auto simp: without_headers_def params_at_def success_body_def success_responses_def is_operation_deprecated_def
      emitter_deprecation_alternative_def intro!: filter_cong split: option.split)

text \<open>
  A header parameter, required or not, leaves no trace in a generated Rust function, and none in the signature and the
  body of a Go method: no argument, no request header.
\<close>

theorem sdk_methods_ignore_headers:
  "rust_emit_method (without_headers op) = rust_emit_method op \<and>
   go_args (without_headers op) = go_args op \<and> go_method_body (without_headers op) = go_method_body op \<and>
   map go_query_line (params_at InQuery (without_headers op)) = map go_query_line (params_at InQuery op)"
proof -
  have "rust_ret_type (without_headers op) = rust_ret_type op" "rust_params (without_headers op) = rust_params op"
    "rust_call (without_headers op) = rust_call op" "rust_query (without_headers op) = rust_query op"
    "rust_args (without_headers op) = rust_args op"
    by (simp_all add: rust_ret_type_def rust_params_def rust_call_def rust_query_def rust_args_def)
  then have "rust_method_head (without_headers op) = rust_method_head op" "rust_method_end (without_headers op) = rust_method_end op"
    by (simp_all only: rust_method_head_def rust_method_end_def without_headers_fields)
  moreover have "go_path_expr (without_headers op) = go_path_expr op" by (simp add: go_path_expr_def)
  then have "go_call (without_headers op) t = go_call op t" for t by (simp add: go_call_def)
  then have "go_method_body (without_headers op) = go_method_body op"
    by (simp only: go_method_body_def go_decode_def without_headers_fields)
  ultimately show ?thesis
    using \<open>rust_params (without_headers op) = rust_params op\<close> \<open>rust_query (without_headers op) = rust_query op\<close>
    by (simp add: rust_emit_method_def go_args_def)
qed

section \<open>Versions and names of crates\<close>

text \<open>
  The version of the crate is three numbers with dots between them, whatever the version of the document is; a version
  of this form is kept.
\<close>

definition digit_text :: "string \<Rightarrow> bool" where
  "digit_text s \<longleftrightarrow> s \<noteq> [] \<and> list_all is_ascii_digit s"

lemma semver_parts:
  "s \<in> set (filter (\<lambda>s. s \<noteq> []) (split_on (CHR ''.'') (filter semver_char v))) \<Longrightarrow> digit_text s"
proof -
  assume s: "s \<in> set (filter (\<lambda>s. s \<noteq> []) (split_on (CHR ''.'') (filter semver_char v)))"
  have "\<forall>p \<in> set (split_on c u). set p \<subseteq> set u" for c u
    by (induction c u rule: split_on.induct) (force split: if_splits list.splits)+
  with s have "set s \<subseteq> set (filter semver_char v)" by (metis mem_Collect_eq set_filter)
  moreover have "CHR ''.'' \<notin> set s" using s split_on_pieces by auto
  ultimately show ?thesis using s by (auto simp: digit_text_def list_all_iff semver_char_def)
qed

lemma sanitize_semver_keeps:
  assumes "digit_text a" "digit_text b" "digit_text c"
  shows "sanitize_semver (join ''.'' [a, b, c]) = join ''.'' [a, b, c]"
proof -
  have f: "filter semver_char s = s" "CHR ''.'' \<notin> set s" "s \<noteq> []" if "digit_text s" for s
    using that by (auto simp: digit_text_def list_all_iff semver_char_def ascii_defs byte_def filter_id_conv)
  have "filter semver_char (join ''.'' [a, b, c]) = a @ ''.'' @ b @ ''.'' @ c"
    using assms by (simp add: f) (simp add: semver_char_def)
  then show ?thesis
    using f [OF assms(1)] f [OF assms(2)] f [OF assms(3)]
    by (simp add: sanitize_semver_def split_on_append_sep split_on_no_sep)
qed

theorem sanitize_semver_shape:
  "(\<exists>a b c. sanitize_semver v = join ''.'' [a, b, c] \<and> digit_text a \<and> digit_text b \<and> digit_text c) \<and>
   ((\<exists>a b c. v = join ''.'' [a, b, c] \<and> digit_text a \<and> digit_text b \<and> digit_text c) \<longleftrightarrow> sanitize_semver v = v)"
proof -
  have zero: "digit_text ''0'' \<and> digit_text ''1''" by (simp add: digit_text_def ascii_defs byte_def)
  let ?ps = "filter (\<lambda>s. s \<noteq> []) (split_on (CHR ''.'') (filter semver_char v))"
  have shape: "\<exists>a b c. sanitize_semver v = join ''.'' [a, b, c] \<and> digit_text a \<and> digit_text b \<and> digit_text c"
  proof -
    consider "?ps = []" | a where "?ps = [a]" | a b where "?ps = [a, b]" | a b c r where "?ps = a # b # c # r"
      by (metis list.exhaust)
    then show ?thesis
    proof cases
      case 1
      then have "sanitize_semver v = join ''.'' [''0'', ''1'', ''0'']" by (simp add: sanitize_semver_def)
      with zero show ?thesis by blast
    next
      case (2 a)
      then have "sanitize_semver v = join ''.'' [a, ''0'', ''0'']" "digit_text a"
        using semver_parts [of a v] by (simp_all add: sanitize_semver_def)
      with zero show ?thesis by blast
    next
      case (3 a b)
      then have "sanitize_semver v = join ''.'' [a, b, ''0'']" "digit_text a" "digit_text b"
        using semver_parts [of a v] semver_parts [of b v] by (simp_all add: sanitize_semver_def)
      with zero show ?thesis by blast
    next
      case (4 a b c r)
      then have "sanitize_semver v = join ''.'' [a, b, c]" "digit_text a" "digit_text b" "digit_text c"
        using semver_parts [of a v] semver_parts [of b v] semver_parts [of c v] by (simp_all add: sanitize_semver_def)
      then show ?thesis by blast
    qed
  qed
  then show ?thesis using sanitize_semver_keeps by metis
qed

text \<open>
  A pre-release mark is not dropped: its digits join the number before it, and Cargo takes no number with a leading zero.
\<close>

lemma sanitize_semver_prerelease: "sanitize_semver ''1.0.0-rc1'' = ''1.0.01''"
  by code_simp

lemma rust_src_path_eq [simp]: "rust_src_path m = rust_src_path n \<longleftrightarrow> m = n"
  by (simp add: rust_src_path_def)

definition rust_written_modules :: "document \<Rightarrow> string list" where
  "rust_written_modules doc = rust_fixed_modules @ ''models'' # (if doc_webhooks doc \<noteq> [] then [''webhooks''] else [])"

lemma rust_path_names:
  "map fst (rust_generate_files runtime readme version_file doc opt) =
     ''Cargo.toml'' # map rust_src_path (rust_written_modules doc)
     @ map (\<lambda>(tag, ops). rust_api_path tag) (group_by_tag (doc_operations doc))
     @ [''src/api/mod.rs'', rust_src_path ''lib'', ''README.md'', ''specforge-version.json'']"
  by (simp add: rust_generate_files_def rust_written_modules_def Let_def split_def comp_def rust_src_path_def [of "''lib''"])

lemma rust_written_no_slash: "m \<in> set (rust_written_modules doc) \<Longrightarrow> CHR ''/'' \<notin> set m \<and> m \<noteq> ''lib''"
  by (auto simp: rust_written_modules_def rust_fixed_modules_def split: if_splits)

lemma rust_src_path_not_api:
  assumes "CHR ''/'' \<notin> set m"
  shows "rust_src_path m \<noteq> ''src/api/'' @ t @ ''.rs''"
proof
  assume "rust_src_path m = ''src/api/'' @ t @ ''.rs''"
  then have "m @ ''.rs'' = (''api/'' @ t) @ ''.rs''" by (simp add: rust_src_path_def)
  then have "m = ''api/'' @ t" by (simp only: append_same_eq)
  with assms show False by simp
qed

lemma rust_tag_module_not_mod: "rust_tag_module tag \<noteq> ''mod''"
  using rust_ident_snake [of "sdk_pascal tag"]
  by (auto simp: rust_tag_module_def rust_ident_def is_rust_reserved_def rust_reserved_words_def)

lemma rust_api_path_not_mod: "rust_api_path tag \<noteq> ''src/api/mod.rs''"
proof
  assume "rust_api_path tag = ''src/api/mod.rs''"
  then have "rust_tag_module tag @ ''.rs'' = ''mod'' @ ''.rs''" by (simp add: rust_api_path_def)
  then show False using rust_tag_module_not_mod by (simp only: append_same_eq)
qed

text \<open>
  The files of a generated Rust crate, which are written in parallel, have distinct paths exactly when the tags stay
  distinct as module names; and the modules that lib.rs declares are api and those that are written below src.
\<close>

theorem rust_paths_and_modules:
  "(distinct (map fst (rust_generate_files runtime readme version_file doc opt)) \<longleftrightarrow>
     distinct (map (\<lambda>(tag, ops). rust_tag_module tag) (group_by_tag (doc_operations doc)))) \<and>
   set (rust_lib_modules (doc_webhooks doc \<noteq> [])) =
     insert ''api'' ({m. CHR ''/'' \<notin> set m \<and>
       rust_src_path m \<in> fst ` set (rust_generate_files runtime readme version_file doc opt)} - {''lib''})"
proof -
  let ?tags = "map (\<lambda>(tag, ops). rust_api_path tag) (group_by_tag (doc_operations doc))"
  let ?mods = "rust_written_modules doc"
  let ?rest = "[''src/api/mod.rs'', rust_src_path ''lib'', ''README.md'', ''specforge-version.json'']"
  let ?all = "''Cargo.toml'' # map rust_src_path ?mods @ ?tags @ ?rest"
  have src: "rust_src_path m \<notin> set ?tags" if "CHR ''/'' \<notin> set m" for m
    using rust_src_path_not_api [OF that] by (auto simp: rust_api_path_def)
  have other: "p \<notin> set ?tags" if "\<not> starts_with p ''src''" for p
    using that by (auto simp: rust_api_path_def starts_with_def)
  have d: "distinct ?tags \<longleftrightarrow> distinct (map (\<lambda>(tag, ops). rust_tag_module tag) (group_by_tag (doc_operations doc)))"
    by (simp add: distinct_map inj_on_def rust_api_path_def split_def)
  have "set ?tags \<inter> set ?rest = {}"
    using src [of "''lib''"] other [of "''README.md''"] other [of "''specforge-version.json''"] rust_api_path_not_mod
    by (auto simp: starts_with_def) metis
  moreover have "set (map rust_src_path ?mods) \<inter> set ?tags = {}" 
    using src rust_written_no_slash unfolding set_map [of rust_src_path] by blast
  moreover have "distinct (''Cargo.toml'' # map rust_src_path ?mods @ ?rest)"
    by (simp add: rust_written_modules_def rust_fixed_modules_def rust_src_path_def)
  moreover have "''Cargo.toml'' \<notin> set ?tags" using other by (simp add: starts_with_def)
  ultimately have "distinct ?all \<longleftrightarrow> distinct ?tags"
    unfolding distinct.simps distinct_append set_append by blast
  then have "distinct (map fst (rust_generate_files runtime readme version_file doc opt)) \<longleftrightarrow>
     distinct (map (\<lambda>(tag, ops). rust_tag_module tag) (group_by_tag (doc_operations doc)))"
    unfolding d rust_path_names .
  moreover have "{m. CHR ''/'' \<notin> set m \<and> rust_src_path m \<in> set ?all} - {''lib''} = set ?mods"
  proof -
    have "rust_src_path m \<in> set ?all \<longleftrightarrow> m \<in> set ?mods \<or> m = ''lib''" if "CHR ''/'' \<notin> set m" for m
      using src [OF that] rust_src_path_not_api [OF that, of "''mod''"] by (auto simp: rust_src_path_def)
    then show ?thesis using rust_written_no_slash by (intro set_eqI) (simp only: Diff_iff mem_Collect_eq singleton_iff, metis)
  qed
  moreover have "set (rust_lib_modules (doc_webhooks doc \<noteq> [])) = insert ''api'' (set ?mods)"
    by (auto simp: rust_lib_modules_def rust_modules_def rust_written_modules_def rust_fixed_modules_def)
  ultimately show ?thesis unfolding set_map [of fst, symmetric] rust_path_names by simp
qed

end
