(* ===== verification/Ts_Sync.thy ===== *)
theory Ts_Sync
  imports Prelude
begin

text \<open>
  The generated concurrency.ts and ratelimit.ts (\<open>concurrency_source\<close> and \<open>ratelimit_source\<close> of
  crates/specforge-ts/src/runtime.rs). JavaScript runs one callback at a time, so an operation is atomic up to its next
  \<open>await\<close>: a step is a call, or the resumption of a call after it has waited. Times are milliseconds of a clock that
  does not go back; the numbers of the token bucket are rationals in place of doubles.
\<close>

section \<open>The semaphore\<close>

text \<open>Callers are numbers; \<open>sem_granted\<close> is the list of the callers whose promise has been resolved, in order.\<close>

record semaphore =
  sem_active :: nat
  sem_waiters :: "nat list"
  sem_granted :: "nat list"

text \<open>
  \<open>createSemaphore\<close> with the text of its argument, for the message: \<open>None\<close> stands for a number that is not finite. The
  code compares the whole number \<open>active\<close> with the maximum, which may be a fraction; the model counts the slots, which
  comes to the same.
\<close>

definition semaphore_slots :: "rat \<Rightarrow> nat" where
  "semaphore_slots maximum = nat \<lceil>maximum\<rceil>"

definition create_semaphore :: "rat option \<Rightarrow> string \<Rightarrow> (string, nat \<times> semaphore) result" where
  "create_semaphore maximum shown =
     (case maximum of
        Some m \<Rightarrow>
          if m \<le> 0 then Err (''maxConcurrent must be a positive finite number, got '' @ shown)
          else Ok (semaphore_slots m, \<lparr>sem_active = 0, sem_waiters = [], sem_granted = []\<rparr>)
      | None \<Rightarrow> Err (''maxConcurrent must be a positive finite number, got '' @ shown))"

lemma semaphore_slots_less: "of_nat n < maximum \<longleftrightarrow> n < semaphore_slots maximum"
proof -
  have "of_nat n < maximum \<longleftrightarrow> int n < \<lceil>maximum\<rceil>" by (simp add: less_ceiling_iff)
  then show ?thesis unfolding semaphore_slots_def by linarith
qed

text \<open>A semaphore that is created has a slot at least, so it meets the premise of the theorems below.\<close>

lemma create_semaphore_slots:
  "create_semaphore maximum shown = Ok (limit, s) \<Longrightarrow> 0 < limit \<and> s = \<lparr>sem_active = 0, sem_waiters = [], sem_granted = []\<rparr>"
proof (cases maximum)
  case (Some m)
  assume "create_semaphore maximum shown = Ok (limit, s)"
  then show ?thesis using semaphore_slots_less [of 0 m] by (auto simp: Some create_semaphore_def split: if_splits)
qed (simp add: create_semaphore_def)

definition sem_acquire :: "nat \<Rightarrow> nat \<Rightarrow> semaphore \<Rightarrow> semaphore" where
  "sem_acquire limit caller s =
     (if sem_active s < limit
      then s\<lparr>sem_active := sem_active s + 1, sem_granted := sem_granted s @ [caller]\<rparr>
      else s\<lparr>sem_waiters := sem_waiters s @ [caller]\<rparr>)"

text \<open>The loop of \<open>release\<close>: free slots go to the waiters in their order.\<close>

function wake_waiters :: "nat \<Rightarrow> semaphore \<Rightarrow> semaphore" where
  "wake_waiters limit s =
     (if sem_active s < limit \<and> sem_waiters s \<noteq> []
      then wake_waiters limit
             (s\<lparr>sem_waiters := tl (sem_waiters s), sem_active := sem_active s + 1,
                sem_granted := sem_granted s @ [hd (sem_waiters s)]\<rparr>)
      else s)"
  by pat_completeness auto
termination
  by (relation "measure (\<lambda>(limit, s). length (sem_waiters s))") auto

declare wake_waiters.simps [simp del]

definition sem_release :: "nat \<Rightarrow> semaphore \<Rightarrow> semaphore" where
  "sem_release limit s =
     (if sem_active s = 0 then s else wake_waiters limit (s\<lparr>sem_active := sem_active s - 1\<rparr>))"

text \<open>
  Clients: each caller asks once and, when it has been granted a slot, releases it once (as \<open>request\<close> does in its
  \<open>finally\<close>). A run counts the releases.
\<close>

record sem_system =
  sys_sem :: semaphore
  sys_requested :: "nat list"
  sys_released :: "nat list"

definition sem_init :: sem_system where
  "sem_init = \<lparr>sys_sem = \<lparr>sem_active = 0, sem_waiters = [], sem_granted = []\<rparr>, sys_requested = [], sys_released = []\<rparr>"

inductive sem_run :: "nat \<Rightarrow> sem_system \<Rightarrow> nat \<Rightarrow> sem_system \<Rightarrow> bool" for limit where
  run_refl: "sem_run limit s 0 s"
| run_acquire: "sem_run limit s n t \<Longrightarrow> c \<notin> set (sys_requested t) \<Longrightarrow>
    sem_run limit s n (t\<lparr>sys_sem := sem_acquire limit c (sys_sem t), sys_requested := sys_requested t @ [c]\<rparr>)"
| run_release: "sem_run limit s n t \<Longrightarrow> h \<in> set (sem_granted (sys_sem t)) \<Longrightarrow> h \<notin> set (sys_released t) \<Longrightarrow>
    sem_run limit s (Suc n) (t\<lparr>sys_sem := sem_release limit (sys_sem t), sys_released := sys_released t @ [h]\<rparr>)"

definition sem_ok :: "nat \<Rightarrow> sem_system \<Rightarrow> bool" where
  "sem_ok limit t \<longleftrightarrow>
     distinct (sys_requested t) \<and> distinct (sys_released t) \<and> set (sys_released t) \<subseteq> set (sem_granted (sys_sem t)) \<and>
     sys_requested t = sem_granted (sys_sem t) @ sem_waiters (sys_sem t) \<and>
     sem_active (sys_sem t) + length (sys_released t) = length (sem_granted (sys_sem t)) \<and>
     sem_active (sys_sem t) \<le> limit \<and> (sem_waiters (sys_sem t) \<noteq> [] \<longrightarrow> sem_active (sys_sem t) = limit)"

lemma sem_ok_init: "0 < limit \<Longrightarrow> sem_ok limit sem_init"
  by (simp add: sem_ok_def sem_init_def)

lemma sem_ok_acquire:
  "sem_ok limit t \<Longrightarrow> c \<notin> set (sys_requested t) \<Longrightarrow>
   sem_ok limit (t\<lparr>sys_sem := sem_acquire limit c (sys_sem t), sys_requested := sys_requested t @ [c]\<rparr>)"
  by (auto simp: sem_ok_def sem_acquire_def)

text \<open>With full occupancy, a release hands the slot to the first waiter.\<close>

lemma sem_release_eq:
  assumes "sem_active s \<le> limit" and "0 < sem_active s" and "sem_waiters s \<noteq> [] \<longrightarrow> sem_active s = limit"
  shows "sem_release limit s =
    (case sem_waiters s of
       [] \<Rightarrow> s\<lparr>sem_active := sem_active s - 1\<rparr>
     | w # ws \<Rightarrow> s\<lparr>sem_waiters := ws, sem_granted := sem_granted s @ [w]\<rparr>)"
proof (cases "sem_waiters s")
  case Nil
  with assms show ?thesis by (simp add: sem_release_def wake_waiters.simps)
next
  case (Cons w ws)
  with assms show ?thesis
    by (simp add: sem_release_def wake_waiters.simps [of limit "s\<lparr>sem_active := limit - 1\<rparr>"])
      (simp add: wake_waiters.simps)
qed

lemma sem_ok_holder:
  assumes "sem_ok limit t" and "h \<in> set (sem_granted (sys_sem t))" and "h \<notin> set (sys_released t)"
  shows "0 < sem_active (sys_sem t)"
proof -
  have "distinct (sem_granted (sys_sem t))" using assms(1) by (auto simp: sem_ok_def)
  then have "length (sys_released t) = card (set (sys_released t))" "length (sem_granted (sys_sem t)) = card (set (sem_granted (sys_sem t)))"
    using assms(1) by (auto simp: sem_ok_def distinct_card)
  moreover have "set (sys_released t) \<subset> set (sem_granted (sys_sem t))" using assms by (auto simp: sem_ok_def)
  ultimately have "length (sys_released t) < length (sem_granted (sys_sem t))" by (simp add: psubset_card_mono)
  with assms(1) show ?thesis by (simp add: sem_ok_def)
qed

lemma sem_ok_release:
  assumes ok: "sem_ok limit t" and h: "h \<in> set (sem_granted (sys_sem t))" "h \<notin> set (sys_released t)"
  shows "sem_ok limit (t\<lparr>sys_sem := sem_release limit (sys_sem t), sys_released := sys_released t @ [h]\<rparr>)"
proof -
  have "0 < sem_active (sys_sem t)" by (rule sem_ok_holder [OF ok h])
  with ok have eq: "sem_release limit (sys_sem t) =
      (case sem_waiters (sys_sem t) of
         [] \<Rightarrow> (sys_sem t)\<lparr>sem_active := sem_active (sys_sem t) - 1\<rparr>
       | w # ws \<Rightarrow> (sys_sem t)\<lparr>sem_waiters := ws, sem_granted := sem_granted (sys_sem t) @ [w]\<rparr>)"
    by (intro sem_release_eq) (auto simp: sem_ok_def)
  show ?thesis
    using ok h \<open>0 < sem_active (sys_sem t)\<close> unfolding sem_ok_def
    by (cases "sem_waiters (sys_sem t)") (auto simp: eq)
qed

lemma sem_run_ok: "sem_run limit s n t \<Longrightarrow> sem_ok limit s \<Longrightarrow> sem_ok limit t"
  by (induction rule: sem_run.induct) (auto intro: sem_ok_acquire sem_ok_release)

text \<open>A waiter moves up by one place with each release.\<close>

lemma sem_run_progress:
  assumes "sem_run limit s n t" and "sem_ok limit s" and "sem_waiters (sys_sem s) = u @ c # v"
  shows "c \<in> set (sem_granted (sys_sem t)) \<or> (\<exists>u' v'. sem_waiters (sys_sem t) = u' @ c # v' \<and> length u' + n \<le> length u)"
  using assms(1,2,3)
proof (induction rule: sem_run.induct)
  case (run_acquire s n t c')
  then show ?case by (auto simp: sem_acquire_def) force+
next
  case (run_release s n t h)
  have ok: "sem_ok limit t" using sem_run_ok run_release by blast
  then have "0 < sem_active (sys_sem t)" using sem_ok_holder run_release by blast
  with ok have eq: "sem_release limit (sys_sem t) =
      (case sem_waiters (sys_sem t) of
         [] \<Rightarrow> (sys_sem t)\<lparr>sem_active := sem_active (sys_sem t) - 1\<rparr>
       | w # ws \<Rightarrow> (sys_sem t)\<lparr>sem_waiters := ws, sem_granted := sem_granted (sys_sem t) @ [w]\<rparr>)"
    by (intro sem_release_eq) (auto simp: sem_ok_def)
  from run_release.IH [OF run_release.prems] show ?case
  proof
    assume "c \<in> set (sem_granted (sys_sem t))"
    then show ?thesis using eq by (auto split: list.splits)
  next
    assume "\<exists>u' v'. sem_waiters (sys_sem t) = u' @ c # v' \<and> length u' + n \<le> length u"
    then obtain u' v' where w: "sem_waiters (sys_sem t) = u' @ c # v'" "length u' + n \<le> length u" by blast
    then show ?thesis using eq by (cases u') auto
  qed
qed auto

lemma sem_ok_can_release:
  assumes "sem_ok limit t" and "0 < limit" and "sem_waiters (sys_sem t) \<noteq> []"
  shows "\<exists>h \<in> set (sem_granted (sys_sem t)). h \<notin> set (sys_released t)"
proof (rule ccontr)
  assume "\<not> ?thesis"
  with assms(1) have "set (sys_released t) = set (sem_granted (sys_sem t))" by (auto simp: sem_ok_def)
  moreover have "distinct (sem_granted (sys_sem t))" "distinct (sys_released t)" using assms(1) by (auto simp: sem_ok_def)
  ultimately have "length (sys_released t) = length (sem_granted (sys_sem t))" by (metis distinct_card)
  with assms show False by (simp add: sem_ok_def)
qed

lemma sem_run_trans: "sem_run limit t n u \<Longrightarrow> sem_run limit s m t \<Longrightarrow> sem_run limit s (m + n) u"
  by (induction rule: sem_run.induct) (auto intro: sem_run.intros)

lemma sem_run_can_grant:
  "sem_ok limit t \<Longrightarrow> 0 < limit \<Longrightarrow> sem_waiters (sys_sem t) = u @ c # v \<Longrightarrow>
   \<exists>n t'. sem_run limit t n t' \<and> c \<in> set (sem_granted (sys_sem t'))"
proof (induction "length u" arbitrary: t u v rule: less_induct)
  case less
  have "sem_waiters (sys_sem t) \<noteq> []" using less.prems(3) by simp
  then obtain h where h: "h \<in> set (sem_granted (sys_sem t))" "h \<notin> set (sys_released t)"
    using sem_ok_can_release [OF less.prems(1,2)] by blast
  define t1 where "t1 = t\<lparr>sys_sem := sem_release limit (sys_sem t), sys_released := sys_released t @ [h]\<rparr>"
  have step: "sem_run limit t 1 t1" unfolding t1_def using run_release [OF run_refl h] by simp
  from sem_run_progress [OF step less.prems(1) less.prems(3)] show ?case
  proof
    assume "c \<in> set (sem_granted (sys_sem t1))"
    then show ?thesis using step by (intro exI conjI)
  next
    assume "\<exists>u' v'. sem_waiters (sys_sem t1) = u' @ c # v' \<and> length u' + 1 \<le> length u"
    then obtain u' v' where u': "sem_waiters (sys_sem t1) = u' @ c # v'" "length u' < length u" by auto
    from less.hyps [OF u'(2) sem_run_ok [OF step less.prems(1)] less.prems(2) u'(1)] obtain n t'
      where "sem_run limit t1 n t'" "c \<in> set (sem_granted (sys_sem t'))" by blast
    then show ?thesis using sem_run_trans [OF \<open>sem_run limit t1 n t'\<close> step] by blast
  qed
qed

text \<open>
  C20. However callers interleave, at most \<open>limit\<close> slots are held; the slots are granted in the order in which they
  were asked for, no slot stays free while somebody waits, and every slot granted is held or has been released.
\<close>

theorem semaphore_invariant:
  assumes "0 < limit" and "sem_run limit sem_init n t"
  shows "sem_active (sys_sem t) \<le> limit \<and> sys_requested t = sem_granted (sys_sem t) @ sem_waiters (sys_sem t) \<and>
    sem_active (sys_sem t) + length (sys_released t) = length (sem_granted (sys_sem t)) \<and>
    (sem_waiters (sys_sem t) = [] \<or> sem_active (sys_sem t) = limit)"
  using sem_run_ok [OF assms(2) sem_ok_init [OF assms(1)]] by (auto simp: sem_ok_def)

lemma sem_run_three:
  "sem_run 1 sem_init 0
     \<lparr>sys_sem = \<lparr>sem_active = 1, sem_waiters = [2, 3], sem_granted = [1]\<rparr>, sys_requested = [1, 2, 3], sys_released = []\<rparr>"
  using run_acquire [OF run_acquire [OF run_acquire [OF run_refl [of 1 sem_init]]], of 1 2 3]
  by (simp add: sem_init_def sem_acquire_def)

theorem semaphore_invariant_witness:
  "sem_run 1 sem_init 0
     \<lparr>sys_sem = \<lparr>sem_active = 1, sem_waiters = [2, 3], sem_granted = [1]\<rparr>, sys_requested = [1, 2, 3], sys_released = []\<rparr> \<and>
   (1::nat) \<le> 1 \<and> ([2, 3] = ([] :: nat list) \<or> (1::nat) = 1)"
  using semaphore_invariant [OF _ sem_run_three] sem_run_three by simp

text \<open>
  C22. A caller that waits is granted its slot no later than after as many releases as there are callers ahead of it,
  and one more; and such releases are always possible, as somebody holds a slot whenever somebody waits.
\<close>

theorem semaphore_no_starvation:
  assumes "0 < limit" and "sem_run limit sem_init m s" and "sem_waiters (sys_sem s) = u @ c # v"
  shows "(\<forall>n t. sem_run limit s n t \<and> length u < n \<longrightarrow> c \<in> set (sem_granted (sys_sem t))) \<and>
    (\<exists>n t. sem_run limit s n t \<and> c \<in> set (sem_granted (sys_sem t)))"
proof -
  have ok: "sem_ok limit s" by (rule sem_run_ok [OF assms(2) sem_ok_init [OF assms(1)]])
  then show ?thesis using sem_run_progress [OF _ ok assms(3)] sem_run_can_grant [OF ok assms(1,3)] by fastforce
qed

theorem semaphore_no_starvation_witness:
  "\<exists>n t. sem_run 1
     \<lparr>sys_sem = \<lparr>sem_active = 1, sem_waiters = [2, 3], sem_granted = [1]\<rparr>, sys_requested = [1, 2, 3], sys_released = []\<rparr> n t
     \<and> 3 \<in> set (sem_granted (sys_sem t))"
  using semaphore_no_starvation [OF _ sem_run_three, of "[2]" 3 "[]"] by simp

text \<open>
  \<open>release\<close> does not remember that it was called: a holder that calls it twice frees a slot that another one holds, and
  one caller too many runs (here with a limit of two, three callers of which none has released more than its own).
\<close>

lemma release_twice_frees_another_slot:
  "sem_active ((sem_acquire 2 3 \<circ> sem_acquire 2 4 \<circ> sem_release 2 \<circ> sem_release 2 \<circ> sem_acquire 2 2 \<circ> sem_acquire 2 1)
       (sys_sem sem_init)) = 2 \<and>
   sem_granted ((sem_acquire 2 3 \<circ> sem_acquire 2 4 \<circ> sem_release 2 \<circ> sem_release 2 \<circ> sem_acquire 2 2 \<circ> sem_acquire 2 1)
       (sys_sem sem_init)) = [1, 2, 4, 3]"
  by (simp add: sem_init_def sem_acquire_def sem_release_def wake_waiters.simps)

section \<open>The token bucket\<close>

record token_bucket =
  tb_tokens :: rat
  tb_last_refill :: int

definition new_token_bucket :: "rat \<Rightarrow> int \<Rightarrow> token_bucket" where
  "new_token_bucket max_tokens now = \<lparr>tb_tokens = max_tokens, tb_last_refill = now\<rparr>"

definition tb_refill :: "rat \<Rightarrow> rat \<Rightarrow> int \<Rightarrow> token_bucket \<Rightarrow> token_bucket" where
  "tb_refill max_tokens rate now b =
     \<lparr>tb_tokens = min max_tokens (tb_tokens b + of_int (now - tb_last_refill b) / 1000 * rate), tb_last_refill = now\<rparr>"

text \<open>The delay before the next attempt; with a rate of zero the quotient is \<open>Infinity\<close>, here \<open>None\<close>.\<close>

definition tb_wait :: "rat \<Rightarrow> token_bucket \<Rightarrow> int option" where
  "tb_wait rate b = (if rate = 0 then None else Some (max \<lceil>(1 - tb_tokens b) / rate * 1000\<rceil> 10))"

text \<open>
  One turn of \<open>acquire\<close>, from its call or the end of a wait up to the next wait or the return: true when the request is let
  through.
\<close>

definition tb_turn :: "rat \<Rightarrow> rat \<Rightarrow> int \<Rightarrow> token_bucket \<Rightarrow> token_bucket \<times> bool" where
  "tb_turn max_tokens rate now b =
     (let b = tb_refill max_tokens rate now b in
      if tb_tokens b < 1 then (b, False) else (b\<lparr>tb_tokens := tb_tokens b - 1\<rparr>, True))"

text \<open>The turns of all callers at the given moments, in their order; the number of the requests let through.\<close>

fun tb_turns :: "rat \<Rightarrow> rat \<Rightarrow> int list \<Rightarrow> token_bucket \<Rightarrow> token_bucket \<times> nat" where
  "tb_turns max_tokens rate [] b = (b, 0)"
| "tb_turns max_tokens rate (now # moments) b =
     (let (b, passed) = tb_turn max_tokens rate now b; (b, n) = tb_turns max_tokens rate moments b
      in (b, n + (if passed then 1 else 0)))"

lemma tb_turn_bound:
  "tb_turn max_tokens rate now b = (b', passed) \<Longrightarrow> tb_last_refill b' = now \<and>
   tb_tokens b' + (if passed then 1 else 0) \<le> tb_tokens b + of_int (now - tb_last_refill b) / 1000 * rate"
  by (auto simp: tb_turn_def tb_refill_def Let_def split: if_splits)

lemma tb_turn_range:
  "tb_turn max_tokens rate now b = (b', passed) \<Longrightarrow> 0 \<le> rate \<Longrightarrow> 0 \<le> max_tokens \<Longrightarrow> tb_last_refill b \<le> now \<Longrightarrow>
   0 \<le> tb_tokens b \<Longrightarrow> 0 \<le> tb_tokens b' \<and> tb_tokens b' \<le> max_tokens"
  by (auto simp: tb_turn_def tb_refill_def Let_def min_def split: if_splits)

lemma tb_turns_bound:
  "tb_turns max_tokens rate moments b = (b', n) \<Longrightarrow>
   tb_tokens b' + of_nat n \<le> tb_tokens b + of_int (last (tb_last_refill b # moments) - tb_last_refill b) / 1000 * rate \<and>
   tb_last_refill b' = last (tb_last_refill b # moments)"
proof (induction moments arbitrary: b b' n)
  case (Cons now moments)
  obtain b1 passed where t: "tb_turn max_tokens rate now b = (b1, passed)" by force
  obtain b2 m where u: "tb_turns max_tokens rate moments b1 = (b2, m)" by force
  have bn: "b' = b2" "n = m + (if passed then 1 else 0)" using Cons.prems t u by (auto simp: Let_def)
  have l: "last (now # moments) = last (tb_last_refill b # now # moments)" by simp
  show ?case
    using tb_turn_bound [OF t] Cons.IH [OF u] unfolding bn l [symmetric]
    by (auto simp: field_simps split: if_splits)
qed simp

lemma tb_turns_range:
  "tb_turns max_tokens rate moments b = (b', n) \<Longrightarrow> 0 \<le> rate \<Longrightarrow> 0 \<le> max_tokens \<Longrightarrow> sorted (tb_last_refill b # moments) \<Longrightarrow>
   0 \<le> tb_tokens b \<Longrightarrow> tb_tokens b \<le> max_tokens \<Longrightarrow> 0 \<le> tb_tokens b' \<and> tb_tokens b' \<le> max_tokens"
proof (induction moments arbitrary: b b' n)
  case (Cons now moments)
  obtain b1 passed where t: "tb_turn max_tokens rate now b = (b1, passed)" by force
  obtain b2 m where u: "tb_turns max_tokens rate moments b1 = (b2, m)" by force
  have bn: "b' = b2" using Cons.prems t u by (auto simp: Let_def)
  show ?case
    using Cons.IH [OF u] tb_turn_range [OF t] tb_turn_bound [OF t] Cons.prems unfolding bn by auto
qed simp

text \<open>
  Whatever the moments of the attempts, a token bucket lets through at most its capacity of requests and what the
  rate allows in the time passed since it was made, and its balance stays between zero and the capacity.
\<close>

theorem token_bucket_bound:
  assumes "0 \<le> rate" and "0 \<le> max_tokens" and "sorted (start # moments)"
    and "tb_turns max_tokens rate moments (new_token_bucket max_tokens start) = (b, n)"
  shows "of_nat n \<le> max_tokens + of_int (last (start # moments) - start) / 1000 * rate \<and>
    0 \<le> tb_tokens b \<and> tb_tokens b \<le> max_tokens"
  using tb_turns_bound [OF assms(4)] tb_turns_range [OF assms(4)] assms(1-3)
  by (auto simp: new_token_bucket_def)

theorem token_bucket_bound_witness:
  "tb_turns 2 1 [0, 0, 0, 500, 1000] (new_token_bucket 2 0) = (\<lparr>tb_tokens = 0, tb_last_refill = 1000\<rparr>, 3) \<and>
   (of_nat 3 :: rat) \<le> 2 + of_int (last [0, 0, 0, 0, 500, 1000] - 0) / 1000 * 1"
proof -
  have run: "tb_turns 2 1 [0, 0, 0, 500, 1000] (new_token_bucket 2 0) = (\<lparr>tb_tokens = 0, tb_last_refill = 1000\<rparr>, 3)"
    by (simp add: new_token_bucket_def tb_turn_def tb_refill_def Let_def)
  show ?thesis using token_bucket_bound [OF _ _ _ run] run by simp
qed

text \<open>A caller that waits as long as computed is let through, unless another one has taken the tokens meanwhile.\<close>

lemma tb_wait_suffices:
  assumes "0 < rate" and "1 \<le> max_tokens" and "tb_wait rate b = Some w" and "tb_last_refill b + w \<le> now"
  shows "snd (tb_turn max_tokens rate now b)"
proof -
  have "(1 - tb_tokens b) / rate * 1000 \<le> of_int w"
    using assms by (auto simp: tb_wait_def le_of_int_ceiling) (metis le_of_int_ceiling of_int_le_iff max.cobounded1 order_trans)
  also have "(of_int w :: rat) \<le> of_int (now - tb_last_refill b)" using assms(4) by linarith
  finally have "(1 - tb_tokens b) / rate * 1000 * rate \<le> of_int (now - tb_last_refill b) * rate"
    using assms(1) by (intro mult_right_mono) auto
  then have "(1 - tb_tokens b) * 1000 \<le> of_int (now - tb_last_refill b) * rate" using assms(1) by simp
  then have "1 \<le> tb_tokens b + of_int (now - tb_last_refill b) / 1000 * rate"
    unfolding times_divide_eq_left by (simp only: field_simps) simp
  with assms(2) show ?thesis by (auto simp: tb_turn_def tb_refill_def Let_def)
qed

text \<open>A capacity below one never lets a request through: the callers wait for ever.\<close>

lemma small_bucket_never_grants: "max_tokens < 1 \<Longrightarrow> snd (tb_turns max_tokens rate moments b) = 0"
  by (induction moments arbitrary: b) (auto simp: tb_turn_def tb_refill_def Let_def split: prod.splits)

section \<open>The sliding window\<close>

definition sw_evict :: "int \<Rightarrow> int \<Rightarrow> int list \<Rightarrow> int list" where
  "sw_evict window now requests = dropWhile (\<lambda>t. t \<le> now - window) requests"

text \<open>
  The first part of \<open>acquire\<close>: the request passes, or waits for the given time. An empty list at the limit (a limit of
  zero) has no oldest request: the comparison with \<open>NaN\<close> is false and the request passes.
\<close>

definition sw_begin :: "nat \<Rightarrow> int \<Rightarrow> int \<Rightarrow> int list \<Rightarrow> int list \<times> int option" where
  "sw_begin max_requests window now requests =
     (let requests = sw_evict window now requests in
      if length requests < max_requests then (requests @ [now], None)
      else case requests of
          [] \<Rightarrow> (sw_evict window now requests @ [now], None)
        | oldest # _ \<Rightarrow>
            (let wait = window - (now - oldest) in
             if wait > 0 then (requests, Some wait) else (sw_evict window now requests @ [now], None)))"

text \<open>The part after the wait: the limit is not looked at again.\<close>

definition sw_resume :: "int \<Rightarrow> int \<Rightarrow> int list \<Rightarrow> int list" where
  "sw_resume window now requests = sw_evict window now requests @ [now]"

text \<open>A single caller, whose requests follow each other: each waits, when it has to, for exactly the time computed.\<close>

definition sw_acquire_alone :: "nat \<Rightarrow> int \<Rightarrow> int \<Rightarrow> int list \<Rightarrow> int list" where
  "sw_acquire_alone max_requests window now requests =
     (case sw_begin max_requests window now requests of
        (requests, None) \<Rightarrow> requests
      | (requests, Some wait) \<Rightarrow> sw_resume window (now + wait) requests)"

lemma sw_evict_length: "length (sw_evict window now requests) \<le> length requests"
  by (simp add: sw_evict_def length_dropWhile_le)

lemma sw_alone_keeps_limit:
  assumes "0 < max_requests" and "length requests \<le> max_requests"
  shows "length (sw_acquire_alone max_requests window now requests) \<le> max_requests"
proof (cases "length (sw_evict window now requests) < max_requests")
  case True
  then show ?thesis by (simp add: sw_acquire_alone_def sw_begin_def Let_def)
next
  case False
  then obtain oldest rest where e: "sw_evict window now requests = oldest # rest"
    using assms(1) by (cases "sw_evict window now requests") auto
  then have "length rest < max_requests" using assms(2) sw_evict_length [of window now requests] by simp
  moreover have "now - window < oldest"
    using e by (metis sw_evict_def hd_dropWhile list.distinct(1) list.sel(1) not_le)
  moreover have "length (sw_evict window t (oldest # rest)) \<le> length rest" if "oldest \<le> t - window" for t
    using that by (simp add: sw_evict_def length_dropWhile_le)
  ultimately show ?thesis
    using False e le_less_trans [of "length (sw_evict window (window + oldest) (oldest # rest))" "length rest" max_requests]
    by (auto simp: sw_acquire_alone_def sw_begin_def sw_resume_def Let_def Suc_le_eq)
qed

text \<open>The requests of \<open>k\<close> callers that have waited for the same oldest request, resumed at the same moment.\<close>

definition sw_resume_all :: "int \<Rightarrow> int \<Rightarrow> nat \<Rightarrow> int list \<Rightarrow> int list" where
  "sw_resume_all window now k requests = (sw_resume window now ^^ k) requests"

lemma sw_resume_replicate:
  "0 < window \<Longrightarrow> sw_resume window now (replicate k now) = replicate (Suc k) now"
  by (cases k) (simp_all add: sw_resume_def sw_evict_def replicate_append_same)

text \<open>
  The sliding window does not keep its limit: after a burst that fills the window, any number of further callers
  are each told to wait until the burst has expired, and all of them then pass at the same moment, as the limit is not
  checked again after the wait.
\<close>

theorem sliding_window_overrun:
  assumes "0 < max_requests" and "burst \<le> now" and "now < burst + window"
  shows "sw_begin max_requests window now (replicate max_requests burst) =
      (replicate max_requests burst, Some (burst + window - now)) \<and>
    sw_resume_all window (burst + window) k (replicate max_requests burst) =
      (if k = 0 then replicate max_requests burst else replicate k (burst + window))"
proof -
  obtain m where m: "max_requests = Suc m" using assms(1) gr0_implies_Suc by blast
  have e: "sw_evict window now (replicate max_requests burst) = replicate max_requests burst"
    using assms by (simp add: sw_evict_def m)
  have f: "sw_evict window (burst + window) (replicate max_requests burst) = []"
    by (simp add: sw_evict_def)
  have "sw_resume_all window (burst + window) (Suc j) (replicate max_requests burst) = replicate (Suc j) (burst + window)" for j
  proof (induction j)
    case 0 then show ?case by (simp add: sw_resume_all_def sw_resume_def f)
  next
    case (Suc j)
    then show ?case using sw_resume_replicate [of window "burst + window" "Suc j"] assms
      by (simp add: sw_resume_all_def)
  qed
  then show ?thesis using assms by (cases k) (simp_all add: sw_resume_all_def sw_begin_def e Let_def, simp_all add: m)
qed

theorem sliding_window_overrun_witness:
  "sw_begin 2 1000 400 [0, 0] = ([0, 0], Some 600) \<and>
   sw_resume_all 1000 1000 5 [0, 0] = [1000, 1000, 1000, 1000, 1000]"
  using sliding_window_overrun [of 2 0 400 1000 5] by (simp add: numeral_eq_Suc)

end
