(* ===== verification/Ts_Client.thy ===== *)
theory Ts_Client
  imports Ts_Validate
begin

text \<open>
  The client of the generated TypeScript SDK (\<open>client_source\<close>, \<open>retry_source\<close>, \<open>dedup_source\<close>, \<open>idempotency_source\<close>,
  \<open>middleware_source\<close>, \<open>cache_source\<close>, \<open>paginate_source\<close>, \<open>telemetry_source\<close> and \<open>validation_middleware_source\<close> of
  crates/specforge-ts/src/runtime.rs): what a call of \<open>request\<close> sends, in which order, and what it returns.

  The network is a function from the number of the attempt and the request to an outcome: a response, or something
  thrown. The body of a response can break off while it is read, and a provider of credentials can reject.
  \<open>JSON.parse\<close>, the encoder of query records and the generator of idempotency keys are parameters. Header names
  of responses are in lower case, as \<open>Headers\<close> keeps them. Timers and log lines are left out; the telemetry hooks are kept
  as a list of events.
\<close>

section \<open>Requests, responses and errors\<close>

type_synonym headers = "(string \<times> string) list"

datatype js_body = Undefined | Parsed json | RawText string

definition parse_body :: "(string \<Rightarrow> json option) \<Rightarrow> string \<Rightarrow> js_body" where
  "parse_body json_parse text =
     (if text = [] then Undefined else case json_parse text of Some j \<Rightarrow> Parsed j | None \<Rightarrow> RawText text)"

text \<open>
  The typed errors, and what a handler can throw: one of them, the abort of a fetch (after the given time), or another
  exception with its message.
\<close>

datatype api_error =
    HttpError nat js_body string string
  | NetworkError thrown string
  | TimeoutError nat
  | ConfigurationError string
and thrown =
    ApiThrown api_error
  | AbortThrown nat
  | OtherThrown "string option"

text \<open>
  A response. \<open>jr_broken\<close> is what reading the body throws, when the connection is lost meanwhile, and whether the signal
  of the caller is aborted then; a status that has no body leaves nothing to be read.
\<close>

record js_response =
  jr_status :: nat
  jr_status_text :: string
  jr_headers :: headers
  jr_body :: string
  jr_broken :: "(bool \<times> thrown) option"

definition response_ok :: "js_response \<Rightarrow> bool" where
  "response_ok r \<longleftrightarrow> 200 \<le> jr_status r \<and> jr_status r < 300"

definition null_body_status :: "nat \<Rightarrow> bool" where
  "null_body_status status \<longleftrightarrow> status \<in> {101, 103, 204, 205, 304}"

definition read_body :: "js_response \<Rightarrow> (bool \<times> thrown, string) result" where
  "read_body r =
     (if null_body_status (jr_status r) then Ok []
      else case jr_broken r of Some broken \<Rightarrow> Err broken | None \<Rightarrow> Ok (jr_body r))"

text \<open>\<open>Threw aborted e\<close>: the flag tells whether the signal of the caller is aborted when \<open>e\<close> is caught.\<close>

datatype outcome = Replied js_response | Threw bool thrown

record mw_request =
  mw_method :: string
  mw_url :: string
  mw_headers :: headers
  mw_body :: "string option"

type_synonym handler = "mw_request \<Rightarrow> outcome"
type_synonym middleware = "mw_request \<Rightarrow> handler \<Rightarrow> outcome"

text \<open>\<open>composeMiddleware\<close>: the loop runs from the last middleware to the first.\<close>

definition composeMiddleware :: "middleware list \<Rightarrow> handler \<Rightarrow> handler" where
  "composeMiddleware middlewares dispatch = fold (\<lambda>mw next req. mw req next) (rev middlewares) dispatch"

lemma composeMiddleware_simps [simp]:
  "composeMiddleware [] dispatch = dispatch"
  "composeMiddleware (mw # mws) dispatch = (\<lambda>req. mw req (composeMiddleware mws dispatch))"
  by (simp_all add: composeMiddleware_def)

lemma composeMiddleware_append:
  "composeMiddleware (ms @ ns) dispatch = composeMiddleware ms (composeMiddleware ns dispatch)"
  by (induction ms) auto

section \<open>Headers, retries and keys\<close>

datatype auth_provider =
    AnonymousAuth
  | BearerAuth "nat \<Rightarrow> (thrown, string) result"
  | ApiKeyAuth string "nat \<Rightarrow> (thrown, string) result"

text \<open>The providers are asked for each attempt, and may reject.\<close>

fun applyAuth :: "nat \<Rightarrow> auth_provider \<Rightarrow> headers \<Rightarrow> (thrown, headers) result" where
  "applyAuth attempt AnonymousAuth h = Ok h"
| "applyAuth attempt (BearerAuth get_token) h =
     map_sum id (\<lambda>token. im_insert ''Authorization'' (''Bearer '' @ token) h) (get_token attempt)"
| "applyAuth attempt (ApiKeyAuth header get_key) h = map_sum id (\<lambda>key. im_insert header key h) (get_key attempt)"

text \<open>Whether the provider rejects does not depend on the headers.\<close>

lemma applyAuth_cases:
  "(\<exists>e. \<forall>h. applyAuth i auth h = Err e) \<or> (\<forall>h. \<exists>h'. applyAuth i auth h = Ok h')"
proof (cases auth)
  case (BearerAuth get_token) then show ?thesis by (cases "get_token i") auto
next
  case (ApiKeyAuth n get_key) then show ?thesis by (cases "get_key i") auto
qed auto

definition isRetriableMethod :: "string \<Rightarrow> bool" where
  "isRetriableMethod m \<longleftrightarrow> to_uppercase m \<in> {''GET'', ''HEAD'', ''PUT'', ''DELETE''}"

definition isIdempotencyCandidate :: "string \<Rightarrow> bool" where
  "isIdempotencyCandidate m \<longleftrightarrow> to_uppercase m \<in> {''POST'', ''PUT'', ''PATCH'', ''DELETE''}"

definition isSafeMethod :: "string \<Rightarrow> bool" where
  "isSafeMethod m \<longleftrightarrow> to_uppercase m \<in> {''GET'', ''HEAD'', ''OPTIONS''}"

definition IDEMPOTENCY_HEADER :: string where "IDEMPOTENCY_HEADER = ''Idempotency-Key''"

text \<open>\<open>random\<close> stands for the value of \<open>Math.random()\<close>, in the interval from zero to one without one.\<close>

definition backoffDelay :: "rat \<Rightarrow> nat \<Rightarrow> nat \<Rightarrow> nat \<Rightarrow> int" where
  "backoffDelay random attempt base_delay max_delay =
     \<lfloor>random * of_nat (min (base_delay * 2 ^ attempt) max_delay)\<rfloor>"

lemma backoffDelay_bounds:
  assumes "0 \<le> random" and "random < 1"
  shows "0 \<le> backoffDelay random attempt base_delay max_delay \<and> backoffDelay random attempt base_delay max_delay \<le> int max_delay"
proof -
  define c :: rat where "c = of_nat (min (base_delay * 2 ^ attempt) max_delay)"
  have c: "0 \<le> c" "c \<le> of_nat max_delay" by (simp_all add: c_def)
  have "random * c \<le> 1 * c" using assms c by (intro mult_right_mono) auto
  with c have "random * c \<le> of_int (int max_delay)" by simp
  then have "\<lfloor>random * c\<rfloor> \<le> int max_delay" by (metis floor_mono floor_of_int)
  then show ?thesis using assms c by (simp add: backoffDelay_def c_def)
qed

record api_client =
  cl_base_url :: string
  cl_auth :: auth_provider
  cl_max_retries :: int
  cl_retry_on :: "nat list"
  cl_default_headers :: headers
  cl_use_dedupe :: bool
  cl_use_idempotency :: bool
  cl_middlewares :: "middleware list"
  cl_cache_ttl :: "int option"

record request_options =
  ro_query :: "string option"
  ro_headers :: headers
  ro_body :: "string option"
  ro_max_retries :: "int option"
  ro_retryable :: "bool option"

text \<open>The constructor: one trailing slash of the base URL is dropped; the options override the default headers.\<close>

definition client_base_url :: "string option \<Rightarrow> string \<Rightarrow> string" where
  "client_base_url base_url default_base =
     (let u = (case base_url of Some u \<Rightarrow> u | None \<Rightarrow> default_base) in
      if u \<noteq> [] \<and> last u = CHR ''/'' then butlast u else u)"

definition client_default_headers :: "headers \<Rightarrow> headers" where
  "client_default_headers default_headers =
     (let h = im_insert_all default_headers [(''content-type'', ''application/json'')] in
      if contains_key h ''accept'' then h else im_insert ''accept'' ''application/json'' h)"

definition default_retry_on :: "nat list" where "default_retry_on = [408, 429, 502, 503, 504]"

section \<open>The retry loop\<close>

datatype client_event =
    RequestStart
  | Sent headers
  | Retried nat
  | RequestEnd nat
  | RequestError api_error

definition max_retries_of :: "api_client \<Rightarrow> request_options \<Rightarrow> int" where
  "max_retries_of c ro = (case ro_max_retries ro of Some n \<Rightarrow> n | None \<Rightarrow> cl_max_retries c)"

definition retryable_of :: "string \<Rightarrow> request_options \<Rightarrow> bool" where
  "retryable_of verb ro = (case ro_retryable ro of Some b \<Rightarrow> b | None \<Rightarrow> isRetriableMethod verb)"

definition with_key :: "api_client \<Rightarrow> string \<Rightarrow> string \<Rightarrow> nat \<Rightarrow> headers \<Rightarrow> headers" where
  "with_key c key verb attempt h =
     (if attempt = 0 \<and> cl_use_idempotency c \<and> isIdempotencyCandidate verb \<and> \<not> contains_key h IDEMPOTENCY_HEADER
      then im_insert IDEMPOTENCY_HEADER key h else h)"

definition attempt_headers :: "api_client \<Rightarrow> string \<Rightarrow> string \<Rightarrow> request_options \<Rightarrow> nat \<Rightarrow> (thrown, headers) result" where
  "attempt_headers c key verb ro attempt =
     map_sum id (with_key c key verb attempt)
       (applyAuth attempt (cl_auth c) (im_insert_all (ro_headers ro) (cl_default_headers c)))"

definition attempt_request :: "headers \<Rightarrow> string \<Rightarrow> string \<Rightarrow> request_options \<Rightarrow> mw_request" where
  "attempt_request h verb url ro = \<lparr>mw_method = verb, mw_url = url, mw_headers = h, mw_body = ro_body ro\<rparr>"

text \<open>
  The end of one attempt: \<open>None\<close> stands for \<open>continue\<close>, otherwise the result and the events of the attempt. An error of the
  API that the block itself throws is reported before it is thrown; one that a middleware throws is not. What the
  \<open>catch\<close> handles is thrown by the handler, or by reading the body of a response that is not repeated.
\<close>

definition status_text :: "js_response \<Rightarrow> string" where
  "status_text r = (if jr_status_text r \<noteq> [] then jr_status_text r else ''HTTP '' @ show_nat (jr_status r))"

definition caught_attempt ::
  "api_client \<Rightarrow> string \<Rightarrow> request_options \<Rightarrow> nat \<Rightarrow> bool \<Rightarrow> thrown
   \<Rightarrow> (client_event list \<times> (thrown, js_response) result) option" where
  "caught_attempt c verb ro attempt caller_aborted e =
     (let failed = (\<lambda>e. Some ([RequestError e], Err (ApiThrown e)));
          by_caller = Some ([], Err (ApiThrown (NetworkError e ''request aborted by caller''))) in
      case e of
        ApiThrown err \<Rightarrow> Some ([], Err e)
      | AbortThrown elapsed \<Rightarrow> if caller_aborted then by_caller else failed (TimeoutError elapsed)
      | OtherThrown msg \<Rightarrow>
          if caller_aborted then by_caller
          else if int attempt < max_retries_of c ro \<and> retryable_of verb ro then None
          else failed (NetworkError e (case msg of Some m \<Rightarrow> m | None \<Rightarrow> ''network error'')))"

definition finish_attempt ::
  "(string \<Rightarrow> json option) \<Rightarrow> api_client \<Rightarrow> string \<Rightarrow> string \<Rightarrow> request_options \<Rightarrow> nat \<Rightarrow> outcome
   \<Rightarrow> (client_event list \<times> (thrown, js_response) result) option" where
  "finish_attempt json_parse c verb url ro attempt out =
     (case out of
        Replied r \<Rightarrow>
          if response_ok r then Some ([RequestEnd (jr_status r)], Ok r)
          else if int attempt < max_retries_of c ro \<and> retryable_of verb ro \<and> jr_status r \<in> set (cl_retry_on c) then None
          else (case read_body r of
              Err (caller_aborted, e) \<Rightarrow> caught_attempt c verb ro attempt caller_aborted e
            | Ok body \<Rightarrow>
                (let err = HttpError (jr_status r) (parse_body json_parse body) url (status_text r)
                 in Some ([RequestError err], Err (ApiThrown err))))
      | Threw caller_aborted e \<Rightarrow> caught_attempt c verb ro attempt caller_aborted e)"

text \<open>
  The loop. The credentials are asked for before the \<open>try\<close>: when the provider rejects, what it throws leaves the loop,
  and no hook hears of the attempt.
\<close>

function dispatch_from ::
  "(string \<Rightarrow> json option) \<Rightarrow> (nat \<Rightarrow> handler) \<Rightarrow> api_client \<Rightarrow> string \<Rightarrow> string \<Rightarrow> string \<Rightarrow> request_options \<Rightarrow> nat
   \<Rightarrow> client_event list \<times> (thrown, js_response) result" where
  "dispatch_from json_parse fetch c key verb url ro attempt =
     (if int attempt \<le> max_retries_of c ro
      then case attempt_headers c key verb ro attempt of
          Err e \<Rightarrow> ([], Err e)
        | Ok h \<Rightarrow>
            (let before = (if attempt = 0 then [RequestStart] else []) @ [Sent h];
                 out = composeMiddleware (cl_middlewares c) (fetch attempt) (attempt_request h verb url ro) in
             case finish_attempt json_parse c verb url ro attempt out of
               Some (events, res) \<Rightarrow> (before @ events, res)
             | None \<Rightarrow>
                 let (events, res) = dispatch_from json_parse fetch c key verb url ro (Suc attempt)
                 in (before @ [Retried (Suc attempt)] @ events, res))
      else ([], Err (ApiThrown (ConfigurationError ''exhausted retries without a response''))))"
  by pat_completeness auto
termination
  by (relation "measure (\<lambda>(_, _, c, _, _, _, ro, attempt). nat (max_retries_of c ro + 1 - int attempt))") auto

declare dispatch_from.simps [simp del]

definition dispatchWithRetry ::
  "(string \<Rightarrow> json option) \<Rightarrow> (nat \<Rightarrow> handler) \<Rightarrow> api_client \<Rightarrow> string \<Rightarrow> string \<Rightarrow> string \<Rightarrow> request_options
   \<Rightarrow> client_event list \<times> (thrown, js_response) result" where
  "dispatchWithRetry json_parse fetch c key verb url ro = dispatch_from json_parse fetch c key verb url ro 0"

text \<open>An attempt by itself: how it ends, and its events before it is known how it ends.\<close>

definition attempt_end ::
  "(string \<Rightarrow> json option) \<Rightarrow> (nat \<Rightarrow> handler) \<Rightarrow> api_client \<Rightarrow> string \<Rightarrow> string \<Rightarrow> string \<Rightarrow> request_options \<Rightarrow> nat
   \<Rightarrow> (client_event list \<times> (thrown, js_response) result) option" where
  "attempt_end json_parse fetch c key verb url ro i =
     (case attempt_headers c key verb ro i of
        Err e \<Rightarrow> Some ([], Err e)
      | Ok h \<Rightarrow> finish_attempt json_parse c verb url ro i
          (composeMiddleware (cl_middlewares c) (fetch i) (attempt_request h verb url ro)))"

definition attempt_events :: "api_client \<Rightarrow> string \<Rightarrow> string \<Rightarrow> request_options \<Rightarrow> nat \<Rightarrow> client_event list" where
  "attempt_events c key verb ro i =
     (case attempt_headers c key verb ro i of
        Err e \<Rightarrow> []
      | Ok h \<Rightarrow> (if i = 0 then [RequestStart] else []) @ [Sent h])"

lemma finish_attempt_last:
  "int i = max_retries_of c ro \<or> \<not> retryable_of verb ro \<Longrightarrow> finish_attempt json_parse c verb url ro i out \<noteq> None"
  by (auto simp: finish_attempt_def caught_attempt_def Let_def split: outcome.splits thrown.splits sum.splits)

lemma attempt_end_last:
  "int i = max_retries_of c ro \<or> \<not> retryable_of verb ro \<Longrightarrow> attempt_end json_parse fetch c key verb url ro i \<noteq> None"
  using finish_attempt_last [of i c ro verb] by (simp add: attempt_end_def split: sum.splits)

text \<open>One round of the loop, by the way the attempt ends.\<close>

lemma dispatch_from_round:
  assumes "int attempt \<le> max_retries_of c ro"
  shows "dispatch_from json_parse fetch c key verb url ro attempt =
    (case attempt_end json_parse fetch c key verb url ro attempt of
       Some (events, res) \<Rightarrow> (attempt_events c key verb ro attempt @ events, res)
     | None \<Rightarrow> (let (events, res) = dispatch_from json_parse fetch c key verb url ro (Suc attempt)
         in (attempt_events c key verb ro attempt @ [Retried (Suc attempt)] @ events, res)))"
  using assms
  by (simp add: dispatch_from.simps [of _ _ _ _ _ _ _ attempt] attempt_end_def attempt_events_def Let_def
      split: sum.splits option.splits prod.splits)

lemma dispatch_from_exact:
  "int attempt \<le> max_retries_of c ro \<Longrightarrow>
   \<exists>k events res. attempt \<le> k \<and> int k \<le> max_retries_of c ro \<and>
     (\<forall>i. attempt \<le> i \<and> i < k \<longrightarrow> attempt_end json_parse fetch c key verb url ro i = None) \<and>
     attempt_end json_parse fetch c key verb url ro k = Some (events, res) \<and>
     dispatch_from json_parse fetch c key verb url ro attempt =
       (concat (map (\<lambda>i. attempt_events c key verb ro i @ [Retried (Suc i)]) [attempt..<k]) @
        attempt_events c key verb ro k @ events, res)"
proof (induction "nat (max_retries_of c ro - int attempt)" arbitrary: attempt rule: less_induct)
  case less
  let ?ended = "attempt_end json_parse fetch c key verb url ro"
  show ?case
  proof (cases "?ended attempt")
    case None
    with less.prems have "int attempt \<noteq> max_retries_of c ro"
      using attempt_end_last [of attempt c ro verb json_parse fetch key url] by auto
    with less.prems have lt: "int (Suc attempt) \<le> max_retries_of c ro" by simp
    then obtain k events res where k: "Suc attempt \<le> k" "int k \<le> max_retries_of c ro"
      "\<forall>i. Suc attempt \<le> i \<and> i < k \<longrightarrow> ?ended i = None" "?ended k = Some (events, res)"
      "dispatch_from json_parse fetch c key verb url ro (Suc attempt) =
        (concat (map (\<lambda>i. attempt_events c key verb ro i @ [Retried (Suc i)]) [Suc attempt..<k]) @
         attempt_events c key verb ro k @ events, res)"
      using less.hyps [of "Suc attempt"] by auto
    have "\<forall>i. attempt \<le> i \<and> i < k \<longrightarrow> ?ended i = None" using k(3) None by (metis Suc_leI le_neq_implies_less)
    moreover have "[attempt..<k] = attempt # [Suc attempt..<k]" using k(1) by (simp add: upt_conv_Cons)
    ultimately show ?thesis
      using k None less.prems
      by (intro exI [of _ k] exI [of _ events] exI [of _ res])
        (auto simp: dispatch_from_round)
  next
    case (Some er)
    obtain events res where "er = (events, res)" by (cases er)
    with Some show ?thesis
      using less.prems
      by (intro exI [of _ attempt] exI [of _ events] exI [of _ res])
        (auto simp: dispatch_from_round)
  qed
qed

lemma dispatch_ends_with_first:
  assumes "0 \<le> max_retries_of c ro"
  shows "\<exists>k events res. int k \<le> max_retries_of c ro \<and> (retryable_of verb ro \<or> k = 0) \<and>
     (\<forall>i < k. attempt_end json_parse fetch c key verb url ro i = None) \<and>
     attempt_end json_parse fetch c key verb url ro k = Some (events, res) \<and>
     dispatchWithRetry json_parse fetch c key verb url ro =
       (concat (map (\<lambda>i. attempt_events c key verb ro i @ [Retried (Suc i)]) [0..<k]) @
        attempt_events c key verb ro k @ events, res)"
proof -
  have z: "int 0 \<le> max_retries_of c ro" using assms by simp
  obtain k events res where k: "int k \<le> max_retries_of c ro"
    "\<forall>i < k. attempt_end json_parse fetch c key verb url ro i = None"
    "attempt_end json_parse fetch c key verb url ro k = Some (events, res)"
    "dispatchWithRetry json_parse fetch c key verb url ro =
       (concat (map (\<lambda>i. attempt_events c key verb ro i @ [Retried (Suc i)]) [0..<k]) @
        attempt_events c key verb ro k @ events, res)"
    using dispatch_from_exact [OF z, of json_parse fetch key verb url] unfolding dispatchWithRetry_def by auto
  have "retryable_of verb ro \<or> k = 0"
  proof (rule ccontr)
    assume n: "\<not> ?thesis"
    then have "attempt_end json_parse fetch c key verb url ro 0 = None" using k(2) by simp
    with n show False using attempt_end_last by blast
  qed
  with k show ?thesis by blast
qed

text \<open>
  C23. The retry loop ends with the first attempt that need not be repeated: there is one, at most \<open>maxRetries\<close> retries
  after the first attempt; the events are those of the attempts up to it, and the result is the one of that attempt. Without
  permission to retry there is one attempt only. An attempt whose credentials are refused, and one whose body breaks off
  while it is read, end as the code ends them.
\<close>

theorem dispatch_ends_with_first_final_attempt:
  assumes "0 \<le> max_retries_of c ro"
  shows "\<exists>k events res. int k \<le> max_retries_of c ro \<and> (retryable_of verb ro \<or> k = 0) \<and>
     (\<forall>i < k. attempt_end json_parse fetch c key verb url ro i = None) \<and>
     attempt_end json_parse fetch c key verb url ro k = Some (events, res) \<and>
     dispatchWithRetry json_parse fetch c key verb url ro =
       (concat (map (\<lambda>i. attempt_events c key verb ro i @ [Retried (Suc i)]) [0..<k]) @
        attempt_events c key verb ro k @ events, res)"
  using dispatch_ends_with_first [OF assms] .

section \<open>Telemetry\<close>

text \<open>The counters of \<open>MetricsCollector\<close>, without the durations.\<close>

record metrics =
  m_requests :: nat
  m_errors :: nat
  m_retries :: nat

fun collect_event :: "client_event \<Rightarrow> metrics \<Rightarrow> metrics" where
  "collect_event RequestStart m = m\<lparr>m_requests := m_requests m + 1\<rparr>"
| "collect_event (RequestEnd status) m = (if 400 \<le> status then m\<lparr>m_errors := m_errors m + 1\<rparr> else m)"
| "collect_event (RequestError e) m = m\<lparr>m_errors := m_errors m + 1\<rparr>"
| "collect_event (Retried n) m = m\<lparr>m_retries := m_retries m + 1\<rparr>"
| "collect_event (Sent h) m = m"

definition metrics_of :: "client_event list \<Rightarrow> metrics \<Rightarrow> metrics" where
  "metrics_of events m = fold collect_event events m"

lemma metrics_of_append: "metrics_of (xs @ ys) m = metrics_of ys (metrics_of xs m)"
  by (simp add: metrics_of_def)

lemma attempt_end_retried: "attempt_end json_parse fetch c key verb url ro i = None \<Longrightarrow> \<exists>h. attempt_headers c key verb ro i = Ok h"
  by (cases "attempt_headers c key verb ro i") (auto simp: attempt_end_def)

lemma metrics_of_attempts:
  assumes "\<forall>i<k. \<exists>h. attempt_headers c key verb ro i = Ok h"
  shows "metrics_of (concat (map (\<lambda>i. attempt_events c key verb ro i @ [Retried (Suc i)]) [0..<k])) m =
    m\<lparr>m_requests := m_requests m + (if k = 0 then 0 else 1), m_retries := m_retries m + k\<rparr>"
  using assms by (induction k) (auto simp: metrics_of_def attempt_events_def less_Suc_eq)

lemma attempt_end_metrics:
  assumes "attempt_end json_parse fetch c key verb url ro i = Some (events, res)"
  shows "m_requests (metrics_of (attempt_events c key verb ro i @ events) m) =
      m_requests m + (if i = 0 \<and> (\<exists>h. attempt_headers c key verb ro 0 = Ok h) then 1 else 0) \<and>
    m_retries (metrics_of (attempt_events c key verb ro i @ events) m) = m_retries m \<and>
    (m_errors (metrics_of (attempt_events c key verb ro i @ events) m) = m_errors m \<or>
     m_errors (metrics_of (attempt_events c key verb ro i @ events) m) = m_errors m + 1 \<and> (\<exists>e. res = Err e))"
  using assms
  by (auto simp: attempt_end_def attempt_events_def finish_attempt_def caught_attempt_def Let_def metrics_of_def response_ok_def
      split: outcome.splits thrown.splits if_splits sum.splits)

text \<open>
  The metrics count every call once unless its first credentials are refused, one error at most for a call that throws
  and none for one that returns, and as many retries as there were attempts after the first.
\<close>

theorem metrics_count_calls:
  assumes "0 \<le> max_retries_of c ro"
    and "dispatchWithRetry json_parse fetch c key verb url ro = (events, res)"
  shows "m_requests (metrics_of events m) =
      m_requests m + (if \<exists>h. attempt_headers c key verb ro 0 = Ok h then 1 else 0) \<and>
    (m_errors (metrics_of events m) = m_errors m \<or>
       m_errors (metrics_of events m) = m_errors m + 1 \<and> (\<exists>e. res = Err e)) \<and>
    int (m_retries (metrics_of events m)) \<le> int (m_retries m) + max_retries_of c ro"
proof -
  obtain k ev where k: "int k \<le> max_retries_of c ro"
    "\<forall>i < k. attempt_end json_parse fetch c key verb url ro i = None"
    "attempt_end json_parse fetch c key verb url ro k = Some (ev, res)"
    "events = concat (map (\<lambda>i. attempt_events c key verb ro i @ [Retried (Suc i)]) [0..<k]) @ attempt_events c key verb ro k @ ev"
    using dispatch_ends_with_first [OF assms(1), of verb json_parse fetch key url] assms(2) by auto
  have h: "\<forall>i<k. \<exists>h. attempt_headers c key verb ro i = Ok h" using k(2) attempt_end_retried by blast
  define n where "n = m\<lparr>m_requests := m_requests m + (if k = 0 then 0 else 1), m_retries := m_retries m + k\<rparr>"
  have "metrics_of events m = metrics_of (attempt_events c key verb ro k @ ev) n"
    unfolding k(4) metrics_of_append [of "concat _"] metrics_of_attempts [OF h] n_def ..
  with k(1) h attempt_end_metrics [OF k(3), of n] show ?thesis
    by (cases "k = 0") (auto simp: n_def)
qed

section \<open>Idempotency keys\<close>

lemma set_keys_im_insert: "fst ` set (im_insert k v m) = insert k (fst ` set m)"
  unfolding set_map [symmetric] keys_im_insert by auto

lemma keys_im_insert_all: "fst ` set (im_insert_all kvs m) = fst ` set kvs \<union> fst ` set m"
  unfolding im_insert_all_def by (induction kvs arbitrary: m) (simp_all add: set_keys_im_insert split_beta)

lemma applyAuth_keys:
  "applyAuth i auth h = Ok h' \<Longrightarrow>
   fst ` set h' \<subseteq> fst ` set h \<union> (case auth of ApiKeyAuth n _ \<Rightarrow> {n} | _ \<Rightarrow> {''Authorization''})"
proof (cases auth)
  case (BearerAuth get_token)
  moreover assume "applyAuth i auth h = Ok h'"
  ultimately obtain token where "h' = im_insert ''Authorization'' (''Bearer '' @ token) h" by (cases "get_token i") auto
  then show ?thesis using BearerAuth by (simp only: set_keys_im_insert) auto
next
  case (ApiKeyAuth n get_key)
  moreover assume "applyAuth i auth h = Ok h'"
  ultimately obtain token where "h' = im_insert n token h" by (cases "get_key i") auto
  then show ?thesis using ApiKeyAuth by (simp only: set_keys_im_insert) auto
qed auto

text \<open>
  The idempotency key is sent with the first attempt only, so that a retried PUT or DELETE reaches the server
  without it: the caller, the default headers and the authentication not supplying one, attempt \<open>i\<close> carries the header
  exactly when \<open>i\<close> is zero, keys are switched on and the method is a candidate.
\<close>

theorem idempotency_key_only_on_first_attempt:
  assumes "IDEMPOTENCY_HEADER \<notin> fst ` set (ro_headers ro) \<union> fst ` set (cl_default_headers c)"
    and "\<forall>n get_key. cl_auth c = ApiKeyAuth n get_key \<longrightarrow> n \<noteq> IDEMPOTENCY_HEADER"
    and "attempt_headers c key verb ro i = Ok h"
  shows "contains_key h IDEMPOTENCY_HEADER \<longleftrightarrow> i = 0 \<and> cl_use_idempotency c \<and> isIdempotencyCandidate verb"
proof -
  obtain h' where h': "applyAuth i (cl_auth c) (im_insert_all (ro_headers ro) (cl_default_headers c)) = Ok h'"
    "h = with_key c key verb i h'"
    using assms(3) by (auto simp: attempt_headers_def map_sum_def split: sum.splits)
  have "IDEMPOTENCY_HEADER \<notin> fst ` set h'"
    using applyAuth_keys [OF h'(1)] assms(1,2)
    by (auto simp: keys_im_insert_all IDEMPOTENCY_HEADER_def split: auth_provider.splits)
  then show ?thesis
    by (auto simp: h'(2) with_key_def contains_key_iff set_keys_im_insert)
qed

definition plain_client :: api_client where
  "plain_client = \<lparr>cl_base_url = ''https://api.example.com'', cl_auth = AnonymousAuth, cl_max_retries = 2,
     cl_retry_on = default_retry_on, cl_default_headers = client_default_headers [], cl_use_dedupe = True,
     cl_use_idempotency = True, cl_middlewares = [], cl_cache_ttl = None\<rparr>"

definition no_options :: request_options where
  "no_options = \<lparr>ro_query = None, ro_headers = [], ro_body = None, ro_max_retries = None, ro_retryable = None\<rparr>"

definition plain_response :: "nat \<Rightarrow> js_response" where
  "plain_response status = \<lparr>jr_status = status, jr_status_text = [], jr_headers = [], jr_body = [], jr_broken = None\<rparr>"

theorem dispatch_ends_with_first_final_attempt_witness:
  "\<exists>k events res. int k \<le> 2 \<and>
     attempt_end (\<lambda>_. None) (\<lambda>i req. Replied (plain_response 503)) plain_client ''k'' ''PUT'' ''/pets'' no_options k = Some (events, res)"
proof -
  have "max_retries_of plain_client no_options = 2" by (simp add: max_retries_of_def no_options_def plain_client_def)
  then show ?thesis
    using dispatch_ends_with_first_final_attempt [of plain_client no_options "''PUT''" "\<lambda>_. None"
        "\<lambda>i req. Replied (plain_response 503)" "''k''" "''/pets''"] by auto
qed

text \<open>A PUT that is answered by 503 first: the second attempt has no key.\<close>

theorem idempotency_key_only_on_first_attempt_witness:
  "\<exists>h0 h1. fst (dispatchWithRetry (\<lambda>_. None) (\<lambda>i req. Replied (plain_response (if i = 0 then 503 else 200))) plain_client
      ''k'' ''PUT'' ''/pets'' no_options) =
    [RequestStart, Sent h0, Retried 1, Sent h1, RequestEnd 200] \<and>
   contains_key h0 IDEMPOTENCY_HEADER \<and> \<not> contains_key h1 IDEMPOTENCY_HEADER"
proof -
  define h where "h i = with_key plain_client ''k'' ''PUT'' i (im_insert_all [] (client_default_headers []))" for i
  have h: "attempt_headers plain_client ''k'' ''PUT'' no_options i = Ok (h i)" for i
    by (simp add: attempt_headers_def h_def plain_client_def no_options_def)
  have k: "contains_key (h i) IDEMPOTENCY_HEADER \<longleftrightarrow> i = 0 \<and> cl_use_idempotency plain_client \<and> isIdempotencyCandidate ''PUT''" for i
    by (rule idempotency_key_only_on_first_attempt [OF _ _ h])
      (simp_all add: plain_client_def no_options_def client_default_headers_def im_insert_all_def contains_key_def IDEMPOTENCY_HEADER_def)
  have "isIdempotencyCandidate ''PUT''" "isRetriableMethod ''PUT''"
    by (code_simp)+
  moreover have "fst (dispatchWithRetry (\<lambda>_. None) (\<lambda>i req. Replied (plain_response (if i = 0 then 503 else 200))) plain_client
      ''k'' ''PUT'' ''/pets'' no_options) =
    [RequestStart, Sent (h 0), Retried 1, Sent (h 1), RequestEnd 200]"
  proof -
    have "max_retries_of plain_client no_options = 2" "503 \<in> set (cl_retry_on plain_client)" "cl_middlewares plain_client = []"
      by (simp_all add: max_retries_of_def plain_client_def no_options_def default_retry_on_def)
    moreover have "retryable_of ''PUT'' no_options"
      using \<open>isRetriableMethod ''PUT''\<close> by (simp add: retryable_of_def no_options_def)
    moreover have "\<not> response_ok (plain_response 503)" "response_ok (plain_response 200)" "jr_status (plain_response n) = n" for n
      by (simp_all add: response_ok_def plain_response_def)
    ultimately show ?thesis
      by (simp add: dispatchWithRetry_def dispatch_from.simps finish_attempt_def h)
  qed
  ultimately show ?thesis using k by (intro exI [of _ "h 0"] exI [of _ "h 1"]) (simp add: plain_client_def)
qed

section \<open>Sharing, caching and the whole call\<close>

text \<open>
  The constructor of \<open>Response\<close>: it refuses a status outside its range, and a body for the statuses that have none.
\<close>

definition new_response :: "nat \<Rightarrow> string \<Rightarrow> headers \<Rightarrow> string \<Rightarrow> (thrown, js_response) result" where
  "new_response status text h body =
     (if status < 200 \<or> 599 < status then Err (OtherThrown (Some ''RangeError''))
      else if null_body_status status then Err (OtherThrown (Some ''TypeError''))
      else Ok \<lparr>jr_status = status, jr_status_text = text, jr_headers = h, jr_body = body, jr_broken = None\<rparr>)"

text \<open>
  \<open>dedupe\<close> for a call that shares its request with no other: the body is read into a buffer, and the caller gets a new
  response made from it.
\<close>

definition dedupe_alone :: "string \<Rightarrow> (thrown, js_response) result \<Rightarrow> (thrown, js_response) result" where
  "dedupe_alone verb run =
     (if isSafeMethod verb
      then res_bind run (\<lambda>r. case read_body r of
          Err (_, e) \<Rightarrow> Err e
        | Ok body \<Rightarrow> new_response (jr_status r) (jr_status_text r) (jr_headers r) body)
      else run)"

record cache_entry =
  ce_etag :: string
  ce_data :: js_body
  ce_timestamp :: int

type_synonym response_cache = "(string \<times> cache_entry) list"

definition cache_get :: "int \<Rightarrow> int \<Rightarrow> string \<Rightarrow> response_cache \<Rightarrow> cache_entry option \<times> response_cache" where
  "cache_get ttl now url cache =
     (case map_of cache url of
        Some e \<Rightarrow> if now - ce_timestamp e < ttl then (Some e, cache) else (None, bt_remove url cache)
      | None \<Rightarrow> (None, bt_remove url cache))"

definition cache_set :: "int \<Rightarrow> string \<Rightarrow> string \<Rightarrow> js_body \<Rightarrow> response_cache \<Rightarrow> response_cache" where
  "cache_set now url etag data cache =
     im_insert url \<lparr>ce_etag = etag, ce_data = data, ce_timestamp = now\<rparr> cache"

lemma cache_get_set:
  "fst (cache_get ttl now' url (cache_set now url etag data cache)) =
   (if now' - now < ttl then Some \<lparr>ce_etag = etag, ce_data = data, ce_timestamp = now\<rparr> else None)"
  by (simp add: cache_get_def cache_set_def map_laws)

lemma cache_get_other:
  "url' \<noteq> url \<Longrightarrow> fst (cache_get ttl now' url' (cache_set now url etag data cache)) = fst (cache_get ttl now' url' cache)"
  by (auto simp: cache_get_def cache_set_def map_laws split: option.splits)

text \<open>The body that is cached: what \<open>JSON.parse\<close> gives, or the text.\<close>

definition cached_body :: "(string \<Rightarrow> json option) \<Rightarrow> string \<Rightarrow> js_body" where
  "cached_body json_parse text = (case json_parse text of Some j \<Rightarrow> Parsed j | None \<Rightarrow> RawText text)"

definition store_response ::
  "(string \<Rightarrow> json option) \<Rightarrow> int \<Rightarrow> string \<Rightarrow> js_response \<Rightarrow> response_cache \<Rightarrow> (thrown, response_cache) result" where
  "store_response json_parse later url r cache =
     (case map_of (jr_headers r) ''etag'' of
        Some etag \<Rightarrow>
          if response_ok r \<and> etag \<noteq> []
          then case read_body r of
              Err (_, e) \<Rightarrow> Err e
            | Ok body \<Rightarrow> Ok (cache_set later url etag (cached_body json_parse body) cache)
          else Ok cache
      | None \<Rightarrow> Ok cache)"

definition bad_path_message :: "string \<Rightarrow> string" where
  \<open>bad_path_message quoted = ''path must start with "/", got '' @ quoted\<close>

text \<open>
  \<open>request\<close> for one call at a time. The cache is read at the time \<open>now\<close> and written at \<open>later\<close>; \<open>json_text\<close> is
  \<open>JSON.stringify\<close>.
\<close>

definition request_url :: "api_client \<Rightarrow> string \<Rightarrow> request_options \<Rightarrow> string" where
  "request_url c path ro = cl_base_url c @ path @ (case ro_query ro of Some q \<Rightarrow> ''?'' @ q | None \<Rightarrow> [])"

definition cache_lookup :: "api_client \<Rightarrow> int \<Rightarrow> string \<Rightarrow> string \<Rightarrow> response_cache \<Rightarrow> cache_entry option \<times> response_cache" where
  "cache_lookup c now verb url cache =
     (case cl_cache_ttl c of
        Some ttl \<Rightarrow> if to_uppercase verb = ''GET'' then cache_get ttl now url cache else (None, cache)
      | None \<Rightarrow> (None, cache))"

definition conditional_options :: "cache_entry option \<Rightarrow> request_options \<Rightarrow> request_options" where
  "conditional_options cached ro =
     (case cached of
        Some e \<Rightarrow> ro\<lparr>ro_headers := im_insert ''If-None-Match'' (ce_etag e) (ro_headers ro)\<rparr>
      | None \<Rightarrow> ro)"

definition dispatched :: "api_client \<Rightarrow> string \<Rightarrow> (thrown, js_response) result \<Rightarrow> (thrown, js_response) result" where
  "dispatched c verb res = (if cl_use_dedupe c then dedupe_alone verb res else res)"

definition request ::
  "(string \<Rightarrow> json option) \<Rightarrow> (js_body \<Rightarrow> string) \<Rightarrow> (nat \<Rightarrow> handler) \<Rightarrow> api_client \<Rightarrow> string \<Rightarrow> int \<Rightarrow> int \<Rightarrow> string \<Rightarrow> string
   \<Rightarrow> request_options \<Rightarrow> response_cache \<Rightarrow> client_event list \<times> (thrown, js_response) result \<times> response_cache" where
  "request json_parse json_text fetch c key now later verb path ro cache =
     (if \<not> starts_with path ''/''
      then ([], Err (ApiThrown (ConfigurationError (bad_path_message (json_text (RawText path))))), cache)
      else
        let url = request_url c path ro;
            (cached, cache) = cache_lookup c now verb url cache;
            (events, res) = dispatchWithRetry json_parse fetch c key verb url (conditional_options cached ro)
        in case dispatched c verb res of
             Err e \<Rightarrow> (events, Err e, cache)
           | Ok r \<Rightarrow>
               if to_uppercase verb = ''GET'' \<and> cl_cache_ttl c \<noteq> None then
                 if jr_status r = 304 \<and> cached \<noteq> None
                 then (events, new_response 200 ''OK (cached)''
                        [(''content-type'', ''application/json''), (''x-cache'', ''HIT'')]
                        (json_text (ce_data (the cached))), cache)
                 else (case store_response json_parse later url r cache of
                     Err e \<Rightarrow> (events, Err e, cache)
                   | Ok stored \<Rightarrow> (events, Ok r, stored))
               else (events, Ok r, cache))"

lemma dispatch_ok_response:
  assumes "dispatchWithRetry json_parse fetch c key verb url ro = (events, Ok r)"
  shows "response_ok r"
proof (cases "0 \<le> max_retries_of c ro")
  case True
  obtain k ev where "attempt_end json_parse fetch c key verb url ro k = Some (ev, Ok r)"
    using dispatch_ends_with_first [OF True, of verb json_parse fetch key url] assms by auto
  then show ?thesis
    by (auto simp: attempt_end_def finish_attempt_def caught_attempt_def Let_def
        split: outcome.splits thrown.splits if_splits sum.splits)
next
  case False
  then show ?thesis using assms by (simp add: dispatchWithRetry_def dispatch_from.simps)
qed

lemma dedupe_alone_ok: "dedupe_alone verb res = Ok r \<Longrightarrow> \<exists>r'. res = Ok r' \<and> jr_status r' = jr_status r"
  by (cases res) (auto simp: dedupe_alone_def new_response_def split: if_splits sum.splits)

lemma dispatched_ok: "dispatched c verb res = Ok r \<Longrightarrow> \<exists>r'. res = Ok r' \<and> jr_status r' = jr_status r"
  by (auto simp: dispatched_def Let_def split: if_splits sum.splits dest!: dedupe_alone_ok)

text \<open>A call that returns a response has received it with a status of success; so the branch for 304 is never taken.\<close>

lemma request_ok_only_success:
  "request json_parse json_text fetch c key now later verb path ro cache = (events, Ok r, cache') \<Longrightarrow> response_ok r"
  by (auto simp: request_def Let_def split: if_splits prod.splits sum.splits dest!: dispatched_ok dispatch_ok_response)
    (auto simp: response_ok_def)

text \<open>
  C25. A cached entry is never served: when the server confirms it by 304, as the conditional header asks it to, the call
  fails with an error for that status, whatever is in the cache; it fails too, with what the provider of the credentials
  throws, when that rejects the first attempt.
\<close>

theorem etag_cache_never_serves:
  assumes "starts_with path ''/''" and "0 \<le> max_retries_of c ro" and "304 \<notin> set (cl_retry_on c)"
    and "cl_middlewares c = []" and "fetch 0 = (\<lambda>req. Replied r)" and "jr_status r = 304"
  shows "\<exists>body url msg. fst (snd (request json_parse json_text fetch c key now later verb path ro cache)) =
    Err (case applyAuth 0 (cl_auth c) [] of Err e \<Rightarrow> e | Ok h \<Rightarrow> ApiThrown (HttpError 304 body url msg))"
proof -
  obtain cached cache' where l: "cache_lookup c now verb (request_url c path ro) cache = (cached, cache')" by force
  have retries: "max_retries_of c (conditional_options cached ro) = max_retries_of c ro"
    by (simp add: conditional_options_def max_retries_of_def split: option.splits)
  consider (rejects) e where "\<forall>h. applyAuth 0 (cl_auth c) h = Err e" | (answers) "\<forall>h. \<exists>h'. applyAuth 0 (cl_auth c) h = Ok h'"
    using applyAuth_cases [of 0 "cl_auth c"] by blast
  then have "\<exists>body msg. snd (dispatchWithRetry json_parse fetch c key verb (request_url c path ro) (conditional_options cached ro)) =
      Err (case applyAuth 0 (cl_auth c) [] of Err e \<Rightarrow> e | Ok h \<Rightarrow> ApiThrown (HttpError 304 body (request_url c path ro) msg))"
  proof cases
    case rejects
    then show ?thesis using assms(2)
      by (simp add: dispatchWithRetry_def dispatch_from.simps retries attempt_headers_def)
  next
    case answers
    then obtain h h' where "applyAuth 0 (cl_auth c) [] = Ok h"
      "applyAuth 0 (cl_auth c) (im_insert_all (ro_headers (conditional_options cached ro)) (cl_default_headers c)) = Ok h'" by blast
    then show ?thesis using assms
      by (simp add: dispatchWithRetry_def dispatch_from.simps finish_attempt_def response_ok_def retries attempt_headers_def
          read_body_def null_body_status_def Let_def)
  qed
  then obtain events body msg where "dispatchWithRetry json_parse fetch c key verb (request_url c path ro)
      (conditional_options cached ro) = (events,
        Err (case applyAuth 0 (cl_auth c) [] of Err e \<Rightarrow> e | Ok h \<Rightarrow> ApiThrown (HttpError 304 body (request_url c path ro) msg)))"
    by (metis prod.collapse)
  then show ?thesis by (auto simp: request_def assms(1) l dispatched_def dedupe_alone_def Let_def)
qed

text \<open>The entry was stored a moment before, and the request asks for it to be confirmed.\<close>

definition caching_client :: api_client where
  "caching_client = plain_client\<lparr>cl_cache_ttl := Some 60000\<rparr>"

theorem etag_cache_never_serves_witness:
  "let url = ''https://api.example.com/pets'';
       cache = cache_set 0 url ''v1'' (RawText ''hello'') [];
       result = request (\<lambda>_. None) (\<lambda>_. []) (\<lambda>i req. Replied (plain_response 304)) caching_client ''k'' 10 20 ''GET'' ''/pets''
         no_options cache
   in fst (cache_lookup caching_client 10 ''GET'' url cache) \<noteq> None \<and>
     (\<exists>body url msg. fst (snd result) = Err (ApiThrown (HttpError 304 body url msg)))"
proof -
  have "\<exists>body url msg. fst (snd (request (\<lambda>_. None) (\<lambda>_. []) (\<lambda>i req. Replied (plain_response 304)) caching_client ''k'' 10 20
      ''GET'' ''/pets'' no_options cache)) = Err (ApiThrown (HttpError 304 body url msg))" for cache
    using etag_cache_never_serves [where r = "plain_response 304" and path = "''/pets''" and ro = no_options and c = caching_client
        and fetch = "\<lambda>i req. Replied (plain_response 304)" and json_parse = "\<lambda>_. None" and json_text = "\<lambda>_. []" and key = "''k''"
        and now = 10 and later = 20 and verb = "''GET''" and cache = cache]
    by (simp add: starts_with_def max_retries_of_def no_options_def caching_client_def plain_client_def default_retry_on_def
        plain_response_def)
  moreover have "fst (cache_lookup caching_client 10 ''GET'' ''https://api.example.com/pets''
      (cache_set 0 ''https://api.example.com/pets'' ''v1'' (RawText ''hello'') [])) \<noteq> None"
    by code_simp
  ultimately show ?thesis unfolding Let_def by blast
qed

text \<open>
  With sharing switched on, as it is by default, a safe call whose answer has no content fails: the new response is
  made from the buffered body, which the platform refuses for such a status. Without sharing the answer is returned.
\<close>

theorem dedupe_rejects_no_content:
  assumes "starts_with path ''/''" and "0 \<le> max_retries_of c ro" and "cl_middlewares c = []" and "cl_cache_ttl c = None"
    and "fetch 0 = (\<lambda>req. Replied r)" and "jr_status r \<in> {204, 205}" and "isSafeMethod verb"
    and "applyAuth 0 (cl_auth c) (im_insert_all (ro_headers ro) (cl_default_headers c)) = Ok h"
  shows "fst (snd (request json_parse json_text fetch c key now later verb path ro cache)) =
    (if cl_use_dedupe c then Err (OtherThrown (Some ''TypeError'')) else Ok r)"
proof -
  have "\<exists>events. dispatchWithRetry json_parse fetch c key verb (request_url c path ro) ro = (events, Ok r)"
    using assms by (auto simp: dispatchWithRetry_def dispatch_from.simps finish_attempt_def response_ok_def attempt_headers_def Let_def)
  then obtain events where "dispatchWithRetry json_parse fetch c key verb (request_url c path ro) ro = (events, Ok r)" by blast
  moreover have "null_body_status (jr_status r)" using assms(6) by (auto simp: null_body_status_def)
  ultimately show ?thesis
    using assms(6) by (auto simp: request_def assms(1,4,7) cache_lookup_def conditional_options_def dispatched_def
        dedupe_alone_def new_response_def read_body_def Let_def)
qed

theorem dedupe_rejects_no_content_witness:
  "fst (snd (request (\<lambda>_. None) (\<lambda>_. []) (\<lambda>i req. Replied (plain_response 204)) plain_client ''k'' 0 0 ''GET'' ''/pets''
     no_options [])) = Err (OtherThrown (Some ''TypeError''))"
proof -
  have "isSafeMethod ''GET''" by code_simp
  then show ?thesis
    using dedupe_rejects_no_content [of "''/pets''" plain_client no_options "\<lambda>i req. Replied (plain_response 204)"
        "plain_response 204" "''GET''" "im_insert_all [] (client_default_headers [])" "\<lambda>_. None" "\<lambda>_. []" "''k''" 0 0 "[]"]
    by (simp add: starts_with_def max_retries_of_def no_options_def plain_client_def plain_response_def)
qed

section \<open>The validation middleware\<close>

record endpoint_schema =
  es_request :: "schema_type option"
  es_response :: "schema_type option"

definition path_segments :: "string \<Rightarrow> string list" where
  "path_segments p = filter (\<lambda>s. s \<noteq> []) (split_on (CHR ''/'') p)"

definition is_wildcard :: "string \<Rightarrow> bool" where
  "is_wildcard s \<longleftrightarrow> starts_with s ''{'' \<and> ends_with s ''}''"

definition matchesPath :: "string \<Rightarrow> string \<Rightarrow> bool" where
  "matchesPath pattern actual \<longleftrightarrow>
     list_all2 (\<lambda>ps s. is_wildcard ps \<or> ps = s) (path_segments pattern) (path_segments actual)"

text \<open>The schemas of a request: those under its own key, else under the first pattern that matches.\<close>

definition before_char :: "char \<Rightarrow> string \<Rightarrow> string" where
  "before_char c s = takeWhile (\<lambda>x. x \<noteq> c) s"

definition after_char :: "char \<Rightarrow> string \<Rightarrow> string" where
  "after_char c s = tl (dropWhile (\<lambda>x. x \<noteq> c) s)"

definition route_schema :: "(string \<times> endpoint_schema) list \<Rightarrow> string \<Rightarrow> string \<Rightarrow> endpoint_schema option" where
  "route_schema schemas verb url =
     (let verb = to_uppercase verb; path = before_char (CHR ''?'') url in
      case map_of schemas (verb @ '' '' @ path) of
        Some s \<Rightarrow> Some s
      | None \<Rightarrow> map_option snd (List.find (\<lambda>(pattern, s).
          CHR '' '' \<in> set pattern \<and> to_uppercase (before_char (CHR '' '') pattern) = verb \<and>
          matchesPath (after_char (CHR '' '') pattern) path) schemas))"

definition validation_message :: "string \<Rightarrow> string \<Rightarrow> string \<Rightarrow> ts_error list \<Rightarrow> string" where
  "validation_message verb path what errors =
     ''[validation] '' @ verb @ '' '' @ path @ '' '' @ what @ '': '' @
     join ''; '' (map (\<lambda>(p, m). p @ '': '' @ m) errors)"

text \<open>The body of the request is a text here: it is validated when it is JSON other than a string or null.\<close>

definition checked_body :: "json option \<Rightarrow> json option" where
  "checked_body parsed = (case parsed of Some j \<Rightarrow> if is_string j \<or> j = JNull then None else Some j | None \<Rightarrow> None)"

definition createValidationMiddleware ::
  "(string \<Rightarrow> json option) \<Rightarrow> (string \<times> endpoint_schema) list \<Rightarrow> middleware" where
  "createValidationMiddleware json_parse schemas req next =
     (let verb = to_uppercase (mw_method req); path = before_char (CHR ''?'') (mw_url req);
          endpoint = route_schema schemas (mw_method req) (mw_url req);
          request_errors = (case (Option.bind endpoint es_request, Option.bind (mw_body req) (checked_body \<circ> json_parse)) of
              (Some schema, Some body) \<Rightarrow> validateValue body schema ''body''
            | _ \<Rightarrow> [])
      in if request_errors \<noteq> []
         then Threw False (OtherThrown (Some (validation_message verb path ''request body'' request_errors)))
         else case next req of
             Threw a e \<Rightarrow> Threw a e
           | Replied r \<Rightarrow>
               (case Option.bind endpoint es_response of
                  None \<Rightarrow> Replied r
                | Some schema \<Rightarrow>
                    if response_ok r \<and>
                       contains_sub (case map_of (jr_headers r) ''content-type'' of Some t \<Rightarrow> t | None \<Rightarrow> []) ''application/json''
                    then (case read_body r of
                        Err _ \<Rightarrow> Replied r
                      | Ok [] \<Rightarrow> Replied r
                      | Ok body \<Rightarrow>
                          (case json_parse body of
                             None \<Rightarrow> Replied r
                           | Some value \<Rightarrow>
                               (let errors = validateValue value schema ''body'' in
                                if errors = [] then Replied r
                                else Threw False (OtherThrown (Some
                                  (validation_message verb path (''response '' @ show_nat (jr_status r)) errors))))))
                    else Replied r))"

lemma path_segments_append: "path_segments (s @ CHR ''/'' # t) = path_segments s @ path_segments t"
  by (simp add: path_segments_def split_on_append_sep)

lemma path_segments_slash: "path_segments (CHR ''/'' # t) = path_segments t"
  using path_segments_append [of "[]" t] by (simp add: path_segments_def)

lemma matchesPath_with_base:
  assumes "matchesPath pattern path" and "starts_with path ''/''" and "path_segments base \<noteq> []"
  shows "\<not> matchesPath pattern (base @ path)"
proof
  assume m: "matchesPath pattern (base @ path)"
  obtain t where t: "path = CHR ''/'' # t" using assms(2) by (auto simp: starts_with_iff)
  have "length (path_segments pattern) = length (path_segments t)"
    using assms(1) by (auto simp: t matchesPath_def path_segments_slash dest: list_all2_lengthD)
  moreover have "length (path_segments pattern) = length (path_segments base) + length (path_segments t)"
    using m by (auto simp: t matchesPath_def path_segments_append dest: list_all2_lengthD)
  ultimately show False using assms(3) by simp
qed

lemma before_char_append: "c \<notin> set s \<Longrightarrow> before_char c (s @ c # t) = s \<and> after_char c (s @ c # t) = t"
  by (induction s) (auto simp: before_char_def after_char_def)

text \<open>
  The validation middleware never validates a call of a client whose base URL has a host: when each route of the
  schemas is either for another method, or matches the path of the call, or has fewer segments, no route is found for the
  URL, and the middleware passes the request and the answer on.
\<close>

theorem validation_routes_never_match:
  assumes "path_segments base \<noteq> []" and "hd base \<noteq> CHR ''/''" and "CHR ''?'' \<notin> set (base @ path)" and "starts_with path ''/''"
    and "list_all (\<lambda>(k, s). \<exists>m p. k = m @ '' '' @ p \<and> CHR '' '' \<notin> set m \<and> starts_with p ''/'' \<and>
      (to_uppercase m \<noteq> to_uppercase (mw_method req) \<or> matchesPath p path \<or>
       length (path_segments p) < length (path_segments path))) schemas"
    and "mw_url req = base @ path" and "CHR '' '' \<notin> set (to_uppercase (mw_method req))"
  shows "route_schema schemas (mw_method req) (mw_url req) = None \<and>
    createValidationMiddleware json_parse schemas req next = next req"
proof -
  let ?verb = "to_uppercase (mw_method req)"
  have path: "before_char (CHR ''?'') (base @ path) = base @ path"
    using assms(3) by (auto simp: before_char_def takeWhile_eq_all_conv)
  have base: "base \<noteq> []" using assms(1) by (auto simp: path_segments_def)
  have route: "k \<noteq> ?verb @ '' '' @ base @ path \<and>
      \<not> (to_uppercase (before_char (CHR '' '') k) = ?verb \<and> matchesPath (after_char (CHR '' '') k) (base @ path))"
    if mem: "(k, s) \<in> set schemas" for k s
  proof -
    obtain m p where k: "k = m @ '' '' @ p" "CHR '' '' \<notin> set m" "starts_with p ''/''"
      "to_uppercase m \<noteq> ?verb \<or> matchesPath p path \<or> length (path_segments p) < length (path_segments path)"
      using assms(5) mem unfolding list_all_iff by fast
    have split: "before_char (CHR '' '') k = m" "after_char (CHR '' '') k = p"
      using before_char_append [OF k(2), of p] by (simp_all add: k(1))
    have "k \<noteq> ?verb @ '' '' @ base @ path"
    proof
      assume "k = ?verb @ '' '' @ base @ path"
      then have "p = base @ path" using before_char_append [OF assms(7), of "base @ path"] split by simp
      with k(3) base assms(2) show False by (cases base) (auto simp: starts_with_iff)
    qed
    moreover have "\<not> matchesPath p (base @ path)" if "matchesPath p path"
      using matchesPath_with_base that assms(1,4) by blast
    moreover have "\<not> matchesPath p (base @ path)" if "length (path_segments p) < length (path_segments path)"
      using that assms(4) by (auto simp: matchesPath_def starts_with_iff path_segments_append path_segments_slash
          dest!: list_all2_lengthD)
    ultimately show ?thesis using k(4) split by auto
  qed
  have "map_of schemas (?verb @ '' '' @ base @ path) = None"
    using route by (auto simp: map_of_eq_None_iff) blast
  moreover have "List.find (\<lambda>(k, s). CHR '' '' \<in> set k \<and> to_uppercase (before_char (CHR '' '') k) = ?verb \<and>
      matchesPath (after_char (CHR '' '') k) (base @ path)) schemas = None"
    using route by (auto simp: find_None_iff)
  ultimately have none: "route_schema schemas (mw_method req) (mw_url req) = None"
    by (simp add: route_schema_def assms(6) path Let_def)
  then show ?thesis by (simp add: createValidationMiddleware_def Let_def split: outcome.splits)
qed

theorem validation_routes_never_match_witness:
  "let schemas = [(''POST /pets'', \<lparr>es_request = Some SString, es_response = None\<rparr>)] in
   route_schema schemas ''POST'' ''/pets'' \<noteq> None \<and> route_schema schemas ''POST'' ''https://api.example.com/pets'' = None"
proof -
  define schemas where "schemas = [(''POST /pets'', \<lparr>es_request = Some SString, es_response = None\<rparr>)]"
  define req where "req = \<lparr>mw_method = ''POST'', mw_url = ''https://api.example.com/pets'', mw_headers = [], mw_body = None\<rparr>"
  have "to_uppercase ''POST'' = ''POST''" "matchesPath ''/pets'' ''/pets''" "path_segments ''https://api.example.com'' \<noteq> []"
    by code_simp+
  moreover have "\<exists>m p. ''POST /pets'' = m @ '' '' @ p \<and> CHR '' '' \<notin> set m \<and> starts_with p ''/'' \<and>
      (to_uppercase m \<noteq> to_uppercase (mw_method req) \<or> matchesPath p ''/pets'' \<or>
       length (path_segments p) < length (path_segments ''/pets''))"
    using calculation(2) by (intro exI [of _ "''POST''"] exI [of _ "''/pets''"]) (simp add: starts_with_def)
  ultimately have "route_schema schemas (mw_method req) (mw_url req) = None"
    using validation_routes_never_match [of "''https://api.example.com''" "''/pets''" req schemas]
    by (simp add: schemas_def req_def starts_with_def)
  moreover have "route_schema schemas ''POST'' ''/pets'' \<noteq> None" unfolding schemas_def by code_simp
  ultimately show ?thesis by (simp add: schemas_def req_def Let_def)
qed

end
