(* ===== verification/Ts_Stream.thy ===== *)
theory Ts_Stream
  imports Prelude
begin

text \<open>
  The generated streaming.ts (\<open>streaming_source\<close> of crates/specforge-ts/src/runtime.rs): lines and server-sent events out of
  a body that arrives in chunks. Text is its UTF-8 bytes; the decoder, which holds back an incomplete character
  between chunks, is the identity on it (a byte order mark and bytes that are not UTF-8 are left out).
\<close>

section \<open>Lines\<close>

text \<open>The inner loop of \<open>streamLines\<close>: complete lines are taken off the buffer, without a carriage return at their end.\<close>

function drain_lines :: "string \<Rightarrow> string list \<times> string" where
  "drain_lines buffer =
     (if CHR 10 \<in> set buffer
      then let line = takeWhile (\<lambda>c. c \<noteq> CHR 10) buffer;
               (ls, rest) = drain_lines (tl (dropWhile (\<lambda>c. c \<noteq> CHR 10) buffer))
           in (strip_cr line # ls, rest)
      else ([], buffer))"
  by pat_completeness auto
termination
proof (relation "measure length")
  fix buffer :: string
  assume "CHR 10 \<in> set buffer"
  then have "dropWhile (\<lambda>c. c \<noteq> CHR 10) buffer \<noteq> []" by (auto simp: dropWhile_eq_Nil_conv)
  moreover have "length (dropWhile (\<lambda>c. c \<noteq> CHR 10) buffer) \<le> length buffer" by (rule length_dropWhile_le)
  ultimately show "(tl (dropWhile (\<lambda>c. c \<noteq> CHR 10) buffer), buffer) \<in> measure length"
    by (cases "dropWhile (\<lambda>c. c \<noteq> CHR 10) buffer") auto
qed simp

declare drain_lines.simps [simp del]

fun stream_lines_from :: "string \<Rightarrow> string list \<Rightarrow> string list" where
  "stream_lines_from buffer [] = (if buffer = [] then [] else [buffer])"
| "stream_lines_from buffer (chunk # chunks) =
     (let (ls, rest) = drain_lines (buffer @ chunk) in ls @ stream_lines_from rest chunks)"

definition streamLines :: "string list \<Rightarrow> string list" where
  "streamLines chunks = stream_lines_from [] chunks"

text \<open>The lines of a text that is there as a whole.\<close>

definition text_lines :: "string \<Rightarrow> string list" where
  "text_lines text =
     (let pieces = split_on (CHR 10) text in
      map strip_cr (butlast pieces) @ (if last pieces = [] then [] else [last pieces]))"

lemma drain_lines_no_newline: "CHR 10 \<notin> set s \<Longrightarrow> drain_lines s = ([], s)"
  by (simp add: drain_lines.simps)

lemma drain_lines_newline:
  "CHR 10 \<notin> set l \<Longrightarrow>
   drain_lines (l @ CHR 10 # s) = (strip_cr l # fst (drain_lines s), snd (drain_lines s))"
  by (subst drain_lines.simps) (simp add: takeWhile_append2 dropWhile_append2 takeWhile_append split_def Let_def)

lemma drain_lines_eq:
  "drain_lines s = (map strip_cr (butlast (split_on (CHR 10) s)), last (split_on (CHR 10) s))"
proof (induction "length s" arbitrary: s rule: less_induct)
  case less
  show ?case
  proof (cases "CHR 10 \<in> set s")
    case False
    then show ?thesis by (simp add: drain_lines_no_newline split_on_no_sep)
  next
    case True
    then obtain l r where s: "s = l @ CHR 10 # r" "CHR 10 \<notin> set l" by (meson split_list_first)
    then show ?thesis
      using less [of r] by (simp add: drain_lines_newline split_on_append_sep split_on_no_sep)
  qed
qed

lemma drain_lines_rest: "CHR 10 \<notin> set (snd (drain_lines s))"
  using split_on_pieces [of "last (split_on (CHR 10) s)" "CHR 10" s] by (simp add: drain_lines_eq)

lemma split_on_append_gen:
  "split_on c (s @ t) =
   butlast (split_on c s) @ (last (split_on c s) @ hd (split_on c t)) # tl (split_on c t)"
proof (induction s)
  case Nil
  then show ?case by (cases "split_on c t") (auto dest: arg_cong [of _ "[]" "\<lambda>x. x \<noteq> split_on c t"])
next
  case (Cons a s)
  obtain p ps where "split_on c s = p # ps" by (cases "split_on c s") auto
  with Cons show ?case by (auto split: list.splits)
qed

lemma drain_lines_append:
  "drain_lines (s @ t) =
   (fst (drain_lines s) @ fst (drain_lines (snd (drain_lines s) @ t)), snd (drain_lines (snd (drain_lines s) @ t)))"
proof -
  obtain p ps where t: "split_on (CHR 10) t = p # ps" by (cases "split_on (CHR 10) t") auto
  have l: "split_on (CHR 10) (last (split_on (CHR 10) s) @ t) = (last (split_on (CHR 10) s) @ p) # ps"
    using split_on_pieces [of "last (split_on (CHR 10) s)" "CHR 10" s]
    by (simp add: split_on_append_gen split_on_no_sep t)
  show ?thesis by (simp add: drain_lines_eq l split_on_append_gen [of _ s] t butlast_append)
qed

lemma stream_lines_from_eq:
  "CHR 10 \<notin> set buffer \<Longrightarrow> stream_lines_from buffer chunks = text_lines (buffer @ concat chunks)"
proof (induction chunks arbitrary: buffer)
  case Nil
  then show ?case by (simp add: text_lines_def split_on_no_sep)
next
  case (Cons chunk chunks)
  have "stream_lines_from buffer (chunk # chunks) =
      fst (drain_lines (buffer @ chunk)) @ text_lines (snd (drain_lines (buffer @ chunk)) @ concat chunks)"
    using Cons.IH [OF drain_lines_rest] by (simp add: split_def Let_def)
  also have "\<dots> = text_lines ((buffer @ chunk) @ concat chunks)"
    using drain_lines_append [of "buffer @ chunk" "concat chunks"]
    by (simp add: text_lines_def drain_lines_eq Let_def)
  finally show ?case by simp
qed

text \<open>
  The lines read from a streamed body do not depend on where the body is cut into chunks: they are the lines of the
  whole text.
\<close>

theorem stream_lines_chunking: "streamLines chunks = text_lines (concat chunks)"
  using stream_lines_from_eq [of "[]" chunks] by (simp add: streamLines_def)

section \<open>Server-sent events\<close>

record sse_event =
  sse_type :: string
  sse_data :: string
  sse_id :: "string option"

record sse_state =
  st_event :: string
  st_data :: "string list"
  st_id :: "string option"

definition sse_start :: sse_state where
  "sse_start = \<lparr>st_event = ''message'', st_data = [], st_id = None\<rparr>"

definition drop_space :: "string \<Rightarrow> string" where
  "drop_space v = (if v \<noteq> [] \<and> hd v = CHR '' '' then tl v else v)"

definition sse_field :: "string \<Rightarrow> string \<times> string" where
  "sse_field line =
     (if CHR '':'' \<in> set line
      then (takeWhile (\<lambda>c. c \<noteq> CHR '':'') line, drop_space (tl (dropWhile (\<lambda>c. c \<noteq> CHR '':'') line)))
      else (line, []))"

text \<open>One turn of the loop: the state after the line, and the event it yields.\<close>

definition sse_line :: "string \<Rightarrow> sse_state \<Rightarrow> sse_state \<times> sse_event list" where
  "sse_line line st =
     (if line = [] then
        (sse_start,
         if st_data st \<noteq> [] \<or> st_event st \<noteq> ''message''
         then [\<lparr>sse_type = st_event st, sse_data = join newline (st_data st), sse_id = st_id st\<rparr>] else [])
      else if starts_with line '':'' then (st, [])
      else let (field, val) = sse_field line in
        (if field = ''event'' then st\<lparr>st_event := val\<rparr>
         else if field = ''data'' then st\<lparr>st_data := st_data st @ [val]\<rparr>
         else if field = ''id'' then st\<lparr>st_id := Some val\<rparr>
         else st, []))"

fun sse_events :: "string list \<Rightarrow> sse_state \<Rightarrow> sse_event list" where
  "sse_events [] st = []"
| "sse_events (line # ls) st = (let (st', out) = sse_line line st in out @ sse_events ls st')"

definition streamSse :: "string list \<Rightarrow> sse_event list" where
  "streamSse chunks = sse_events (streamLines chunks) sse_start"

text \<open>The text a server writes for an event, each field on a line of its own and a blank line after them.\<close>

definition event_lines :: "sse_event \<Rightarrow> string list" where
  "event_lines e =
     (''event: '' @ sse_type e) #
     (case sse_id e of Some i \<Rightarrow> [''id: '' @ i] | None \<Rightarrow> []) @
     map (\<lambda>l. ''data: '' @ l) (split_on (CHR 10) (sse_data e)) @ [[]]"

definition event_text :: "sse_event \<Rightarrow> string" where
  "event_text e = concat (map (\<lambda>l. l @ newline) (event_lines e))"

text \<open>An event that can be written: the type and the id have no line break, and no line of the data ends in a carriage return.\<close>

definition plain_line :: "string \<Rightarrow> bool" where
  "plain_line s \<longleftrightarrow> CHR 10 \<notin> set s \<and> strip_cr s = s"

definition plain_event :: "sse_event \<Rightarrow> bool" where
  "plain_event e \<longleftrightarrow> plain_line (sse_type e) \<and> (\<forall>i. sse_id e = Some i \<longrightarrow> plain_line i) \<and>
     list_all plain_line (split_on (CHR 10) (sse_data e))"

lemma strip_cr_prefix: "p \<noteq> [] \<Longrightarrow> last p \<noteq> CHR 13 \<Longrightarrow> strip_cr s = s \<Longrightarrow> strip_cr (p @ s) = p @ s"
  by (cases s rule: rev_cases) (auto simp: strip_cr_def split: if_splits)

lemma plain_prefixed: "plain_line s \<Longrightarrow> CHR 10 \<notin> set p \<Longrightarrow> p \<noteq> [] \<Longrightarrow> last p \<noteq> CHR 13 \<Longrightarrow> plain_line (p @ s)"
  by (auto simp: plain_line_def strip_cr_prefix)

lemma plain_fields:
  "plain_line l \<Longrightarrow> plain_line (''event: '' @ l)"
  "plain_line l \<Longrightarrow> plain_line (''id: '' @ l)"
  "plain_line l \<Longrightarrow> plain_line (''data: '' @ l)"
  by (erule plain_prefixed; simp)+

lemma plain_event_lines: "plain_event e \<Longrightarrow> list_all plain_line (event_lines e)"
  by (auto simp: plain_event_def event_lines_def list_all_iff plain_fields [simplified] split: option.splits)
    (simp add: plain_line_def strip_cr_def)

lemma text_lines_lines:
  "list_all plain_line ls \<Longrightarrow> text_lines (concat (map (\<lambda>l. l @ newline) ls) @ t) = ls @ text_lines t"
proof (induction ls)
  case (Cons l ls)
  obtain p ps where "split_on (CHR 10) (concat (map (\<lambda>l. l @ newline) ls) @ t) = p # ps"
    by (cases "split_on (CHR 10) (concat (map (\<lambda>l. l @ newline) ls) @ t)") auto
  with Cons show ?case
    by (auto simp: text_lines_def newline_def split_on_append_sep split_on_no_sep plain_line_def Let_def)
qed (simp add: text_lines_def)

lemma text_lines_events:
  "list_all plain_event es \<Longrightarrow> text_lines (concat (map event_text es) @ t) = concat (map event_lines es) @ text_lines t"
proof (induction es)
  case (Cons e es)
  then show ?case
    using text_lines_lines [of "event_lines e" "concat (map event_text es) @ t"] plain_event_lines [of e]
    by (simp add: event_text_def [of e])
qed simp

lemma sse_event_line: "sse_line (''event: '' @ v) st = (st\<lparr>st_event := v\<rparr>, [])"
  by (simp add: sse_line_def sse_field_def drop_space_def starts_with_def)

lemma sse_data_line: "sse_line (''data: '' @ v) st = (st\<lparr>st_data := st_data st @ [v]\<rparr>, [])"
  by (simp add: sse_line_def sse_field_def drop_space_def starts_with_def)

lemma sse_id_line: "sse_line (''id: '' @ v) st = (st\<lparr>st_id := Some v\<rparr>, [])"
  by (simp add: sse_line_def sse_field_def drop_space_def starts_with_def)

lemma sse_data_lines:
  "sse_events (map (\<lambda>l. ''data: '' @ l) ds @ ls) st = sse_events ls (st\<lparr>st_data := st_data st @ ds\<rparr>)"
proof (induction ds arbitrary: st)
  case (Cons d ds)
  show ?case using Cons [of "st\<lparr>st_data := st_data st @ [d]\<rparr>"] by (simp add: sse_data_line [simplified])
qed simp

lemma sse_event_lines:
  "sse_events (event_lines e @ ls) sse_start = e # sse_events ls sse_start"
proof -
  have "join newline (split_on (CHR 10) (sse_data e)) = sse_data e" by (simp add: newline_def join_split_on)
  then have blank: "sse_line [] \<lparr>st_event = sse_type e, st_data = split_on (CHR 10) (sse_data e), st_id = i\<rparr> = (sse_start, [e])"
    if "sse_id e = i" for i
    using that by (simp add: sse_line_def)
  show ?thesis
    by (simp add: event_lines_def sse_event_line [simplified] sse_id_line [simplified] sse_data_lines [simplified]
        blank [unfolded sse_start_def] sse_start_def split: option.splits)
qed

lemma sse_events_of_lines:
  "sse_events (concat (map event_lines es) @ ls) sse_start = es @ sse_events ls sse_start"
  by (induction es) (auto simp: sse_event_lines)

text \<open>
  C24. The events of a stream are read back from the text a server writes for them, wherever the text is cut into
  chunks; an event whose blank line has not arrived when the body ends is lost.
\<close>

theorem sse_roundtrip:
  assumes "list_all plain_event es" and "concat chunks = concat (map event_text es)"
  shows "streamSse chunks = es"
  using text_lines_events [OF assms(1), of "[]"] sse_events_of_lines [of es "[]"]
    stream_lines_from_eq [of "[]" chunks] assms(2)
  by (simp add: streamSse_def streamLines_def text_lines_def)

theorem sse_roundtrip_witness:
  "streamSse [''event: ad'', ''d'' @ newline @ ''data: a'' @ newline @ ''da'', ''ta: b'' @ newline @ newline] =
     [\<lparr>sse_type = ''add'', sse_data = ''a'' @ newline @ ''b'', sse_id = None\<rparr>]"
  by (rule sse_roundtrip)
    (simp_all add: plain_event_def plain_line_def event_text_def event_lines_def newline_def strip_cr_def)

lemma sse_unfinished_event_lost:
  assumes "plain_line d" and "d \<noteq> []"
  shows "streamSse [''data: '' @ d] = []"
proof -
  have "streamLines [''data: '' @ d] = [''data: '' @ d]"
    using stream_lines_from_eq [of "[]" "[''data: '' @ d]"] assms
    by (simp add: streamLines_def text_lines_def plain_line_def split_on_no_sep)
  then show ?thesis using sse_data_line [of d sse_start] by (simp add: streamSse_def)
qed

end
