(* ===== verification/Ts_Paginate.thy ===== *)
theory Ts_Paginate
  imports Prelude
begin

text \<open>
  The generated paginate.ts (\<open>paginate_source\<close> of crates/specforge-ts/src/runtime.rs). A paginator is the list of the pages
  it yields, and \<open>None\<close> when it goes on for ever; the server is a parameter.
\<close>

section \<open>Cursors\<close>

partial_function (option) cursorPaginator ::
  "(string option \<Rightarrow> 'a list \<times> string option) \<Rightarrow> string option \<Rightarrow> 'a list list option" where
  "cursorPaginator fetch_page cursor =
     (case fetch_page cursor of
        (items, next_cursor) \<Rightarrow>
          (case next_cursor of
             None \<Rightarrow> Some [items]
           | Some cu \<Rightarrow>
               if cu = [] then Some [items]
               else Option.bind (cursorPaginator fetch_page (Some cu)) (\<lambda>rest. Some (items # rest))))"

section \<open>Offsets\<close>

partial_function (option) offsetPaginator :: "(nat \<Rightarrow> nat \<Rightarrow> 'a list) \<Rightarrow> nat \<Rightarrow> nat \<Rightarrow> 'a list list option" where
  "offsetPaginator fetch_page limit offset =
     (let items = fetch_page offset limit in
      if length items < limit then Some [items]
      else Option.bind (offsetPaginator fetch_page limit (offset + length items)) (\<lambda>rest. Some (items # rest)))"

text \<open>A server that holds a list and returns at most \<open>cap\<close> of its items at a time.\<close>

definition list_server :: "'a list \<Rightarrow> nat \<Rightarrow> nat \<Rightarrow> nat \<Rightarrow> 'a list" where
  "list_server xs cap offset limit = take (min cap limit) (drop offset xs)"

lemma offset_pages_complete:
  "0 < limit \<Longrightarrow> limit \<le> cap \<Longrightarrow>
   \<exists>pages. offsetPaginator (list_server xs cap) limit offset = Some pages \<and> concat pages = drop offset xs \<and>
     length pages \<le> Suc ((length xs - offset) div limit)"
proof (induction "length xs - offset" arbitrary: offset rule: less_induct)
  case less
  let ?items = "list_server xs cap offset limit"
  have items: "?items = take limit (drop offset xs)" using less.prems by (simp add: list_server_def min_def)
  show ?case
  proof (cases "length ?items < limit")
    case True
    then have "concat [?items] = drop offset xs" using items by simp
    with True show ?thesis by (subst offsetPaginator.simps) (simp add: Let_def)
  next
    case False
    then have l: "length ?items = limit" "limit \<le> length xs - offset" using items by auto
    then have "length xs - (offset + limit) < length xs - offset" using less.prems by simp
    then obtain pages where p: "offsetPaginator (list_server xs cap) limit (offset + limit) = Some pages"
      "concat pages = drop (offset + limit) xs" "length pages \<le> Suc ((length xs - (offset + limit)) div limit)"
      using less.hyps less.prems by blast
    have "Suc ((length xs - (offset + limit)) div limit) = (length xs - offset) div limit"
      using l(2) less.prems(1) le_div_geq [of limit "length xs - offset"] by simp
    moreover have "concat (?items # pages) = drop offset xs"
      using p(2) items by (simp add: add.commute flip: drop_drop)
    ultimately show ?thesis using False l p(1,3) by (subst offsetPaginator.simps) (simp add: Let_def)
  qed
qed

text \<open>
  Against a server that gives as many items as it is asked for, the offset paginator ends, yields every item once and
  in order, and makes no more requests than needed; a server that gives fewer at a time than it is asked for ends the
  iteration with its first page.
\<close>

theorem offset_paginator_complete:
  assumes "0 < limit"
  shows "(if limit \<le> cap
      then \<exists>pages. offsetPaginator (list_server xs cap) limit 0 = Some pages \<and> concat pages = xs \<and>
        length pages \<le> Suc (length xs div limit)
      else offsetPaginator (list_server xs cap) limit 0 = Some [take cap xs])"
proof (cases "limit \<le> cap")
  case True
  then show ?thesis using offset_pages_complete [OF assms True, of xs 0] by simp
next
  case False
  then show ?thesis by (subst offsetPaginator.simps) (auto simp: list_server_def min_def Let_def)
qed

theorem offset_paginator_complete_witness:
  "(\<exists>pages. offsetPaginator (list_server [1, 2, 3 :: nat] 10) 2 0 = Some pages \<and> concat pages = [1, 2, 3]) \<and>
   offsetPaginator (list_server [1, 2, 3 :: nat] 1) 2 0 = Some [[1]]"
  using offset_paginator_complete [of 2 10 "[1, 2, 3 :: nat]"] offset_paginator_complete [of 2 1 "[1, 2, 3 :: nat]"]
  by auto

text \<open>With a limit of zero no page is short enough: the paginator never ends.\<close>

lemma offset_paginator_ends_limit:
  "offsetPaginator fetch_page limit offset = Some pages \<Longrightarrow> limit \<noteq> 0"
proof (rule offsetPaginator.raw_induct [where P = "\<lambda>_ limit _ _. limit \<noteq> 0"])
  show "limit \<noteq> 0"
    if "\<And>fetch_page limit offset pages. paginator fetch_page limit offset = Some pages \<Longrightarrow> limit \<noteq> 0"
      and "(let items = fetch_page offset limit in
        if length items < limit then Some [items]
        else Option.bind (paginator fetch_page limit (offset + length items)) (\<lambda>rest. Some (items # rest))) = Some pages"
    for paginator fetch_page limit offset pages
    using that by (auto simp: Let_def bind_eq_Some_conv split: if_splits)
qed

lemma offset_paginator_zero: "offsetPaginator fetch_page 0 offset = None"
  using offset_paginator_ends_limit [of fetch_page 0 offset] by (cases "offsetPaginator fetch_page 0 offset") auto

text \<open>
  A server with a chain of pages: the cursors \<open>cs\<close> lead from each page to the next, the last one has none. Every page is
  yielded, in order.
\<close>

fun cursor_chain :: "(string option \<Rightarrow> 'a list \<times> string option) \<Rightarrow> string option \<Rightarrow> 'a list list \<Rightarrow> bool" where
  "cursor_chain fetch_page cursor [] \<longleftrightarrow> False"
| "cursor_chain fetch_page cursor [page] \<longleftrightarrow> fst (fetch_page cursor) = page \<and> snd (fetch_page cursor) \<in> {None, Some []}"
| "cursor_chain fetch_page cursor (page # pages) \<longleftrightarrow>
     fst (fetch_page cursor) = page \<and>
     (\<exists>cu. snd (fetch_page cursor) = Some cu \<and> cu \<noteq> [] \<and> cursor_chain fetch_page (Some cu) pages)"

lemma cursor_chain_pages:
  "cursor_chain fetch_page cursor pages \<Longrightarrow> cursorPaginator fetch_page cursor = Some pages"
  by (induction fetch_page cursor pages rule: cursor_chain.induct)
    (subst cursorPaginator.simps; auto split: prod.splits option.splits)+

lemma cursor_chain_Cons:
  "cursor_chain fetch_page cursor (page # pages) \<longleftrightarrow>
   fst (fetch_page cursor) = page \<and>
   (case snd (fetch_page cursor) of
      None \<Rightarrow> pages = []
    | Some cu \<Rightarrow> if cu = [] then pages = [] else cursor_chain fetch_page (Some cu) pages)"
  by (cases pages) (auto split: option.splits)

lemma cursor_paginator_chain:
  "cursorPaginator fetch_page cursor = Some pages \<Longrightarrow> cursor_chain fetch_page cursor pages"
proof (rule cursorPaginator.raw_induct [where P = "\<lambda>f c pages. cursor_chain f c pages"])
  show "cursor_chain fetch_page cursor pages"
    if "\<And>fetch_page cursor pages. paginator fetch_page cursor = Some pages \<Longrightarrow> cursor_chain fetch_page cursor pages"
      and "(case fetch_page cursor of
        (items, next_cursor) \<Rightarrow>
          (case next_cursor of
             None \<Rightarrow> Some [items]
           | Some cu \<Rightarrow>
               if cu = [] then Some [items]
               else Option.bind (paginator fetch_page (Some cu)) (\<lambda>rest. Some (items # rest)))) = Some pages"
    for paginator and fetch_page :: "string option \<Rightarrow> 'a list \<times> string option" and cursor pages
    using that
    by (cases pages) (auto simp: cursor_chain_Cons bind_eq_Some_conv split: prod.splits option.splits if_splits)
qed

text \<open>
  The cursor paginator ends exactly when the cursors lead to a page without a further one, and then yields the pages
  of that chain in order.
\<close>

theorem cursor_paginator_exact:
  "cursorPaginator fetch_page cursor = Some pages \<longleftrightarrow> cursor_chain fetch_page cursor pages"
  using cursor_chain_pages cursor_paginator_chain by blast

end
