(* ===== verification/Sdk_Validate.thy ===== *)
theory Sdk_Validate
  imports Go_Models Rust_Models
begin

text \<open>
  The validators that the Go and Rust emitters generate for each model (\<open>emit_validate\<close> of crates/specforge-go/src/lib.rs and
  crates/specforge-rust/src/lib.rs): their texts, and what they report for a JSON value. An error is a path and a message;
  a Go value of type \<open>any\<close> is one that \<open>json.Unmarshal\<close> makes.
\<close>

section \<open>Go\<close>

fun go_type_name :: "json \<Rightarrow> string" where
  "go_type_name JNull = ''<nil>''"
| "go_type_name (JBool _) = ''bool''"
| "go_type_name (JNumber _) = ''float64''"
| "go_type_name (JString _) = ''string''"
| "go_type_name (JArray _) = ''[]interface {}''"
| "go_type_name (JObject _) = ''map[string]interface {}''"

text \<open>\<open>validateObject\<close>: a value other than a map does not survive the round trip into a map.\<close>

fun go_validate_object :: "json \<Rightarrow> string \<Rightarrow> ts_error list" where
  "go_validate_object JNull path = [(path, ''expected object, got nil'')]"
| "go_validate_object (JObject _) path = []"
| "go_validate_object v path = [(path, ''expected object, got '' @ go_type_name v)]"

definition go_property_errors :: "json_object \<Rightarrow> property \<Rightarrow> ts_error list" where
  "go_property_errors obj p =
     (if prop_required p \<and> map_of obj (prop_name p) = None then [(prop_name p, ''missing required field'')] else [])
     @ (case (prop_ty p, map_of obj (prop_name p)) of
          (TStringEnum variants _, Some (JString s)) \<Rightarrow>
            if s \<in> set variants then [] else [(prop_name p, ''invalid enum value: '' @ s)]
        | _ \<Rightarrow> [])"

definition is_string_enum :: "ir_type \<Rightarrow> bool" where
  "is_string_enum ty = (case ty of TStringEnum _ _ \<Rightarrow> True | _ \<Rightarrow> False)"

definition needs_obj :: "object_model \<Rightarrow> bool" where
  "needs_obj obj \<longleftrightarrow> list_ex (\<lambda>p. prop_required p \<or> is_string_enum (prop_ty p)) (om_properties obj)"

text \<open>The value null is unmarshalled into a map without an error: it is an empty one.\<close>

definition go_object_validator :: "object_model \<Rightarrow> json \<Rightarrow> ts_error list" where
  "go_object_validator obj v =
     go_validate_object v []
     @ (if needs_obj obj
        then (case v of
            JObject kvs \<Rightarrow> concat (map (go_property_errors kvs) (om_properties obj))
          | JNull \<Rightarrow> concat (map (go_property_errors []) (om_properties obj))
          | _ \<Rightarrow> [([], ''expected object'')])
        else [])"

definition go_enum_validator :: "enum_model \<Rightarrow> json \<Rightarrow> ts_error list" where
  "go_enum_validator e v =
     (case v of
        JString s \<Rightarrow>
          if s \<in> set (map ev_value (em_variants e)) then [] else [([], ''invalid '' @ export_ident (em_name e) @ '' value: '' @ s)]
      | _ \<Rightarrow> [([], ''expected string for '' @ export_ident (em_name e) @ '', got '' @ go_type_name v)])"

fun go_validator :: "model \<Rightarrow> json \<Rightarrow> ts_error list" where
  "go_validator (MObject obj) = go_object_validator obj"
| "go_validator (MEnum e) = go_enum_validator e"

section \<open>Rust\<close>

definition field_path :: "string \<Rightarrow> string \<Rightarrow> string" where
  "field_path path field = (if path = [] then field else path @ ''.'' @ field)"

definition validate_object_fields :: "json \<Rightarrow> string list \<Rightarrow> string \<Rightarrow> ts_error list" where
  "validate_object_fields v required path =
     (case as_object v of
        None \<Rightarrow> [(path, ''expected object, got '' @ value_type_name v)]
      | Some obj \<Rightarrow>
          map (\<lambda>f. (field_path path f, ''missing required field'')) (filter (\<lambda>f. map_of obj f = None) required))"

definition validate_enum_field :: "json \<Rightarrow> string \<Rightarrow> string list \<Rightarrow> string \<Rightarrow> ts_error list" where
  "validate_enum_field v field allowed path =
     (case Option.bind (as_object v) (\<lambda>obj. map_of obj field) of
        Some (JString s) \<Rightarrow>
          if s \<in> set allowed then []
          else [(field_path path field, ''invalid enum value: '' @ dquote @ s @ dquote)]
      | _ \<Rightarrow> [])"

definition required_of :: "object_model \<Rightarrow> string list" where
  "required_of obj = map prop_name (filter prop_required (om_properties obj))"

definition rust_object_validator :: "object_model \<Rightarrow> json \<Rightarrow> ts_error list" where
  "rust_object_validator obj v =
     (if om_properties obj = [] then
        (if is_object v then [] else [([], ''expected object, got '' @ value_type_name v)])
      else
        (if required_of obj \<noteq> [] then validate_object_fields v (required_of obj) [] else [])
        @ concat (map (\<lambda>p. case prop_ty p of
            TStringEnum variants _ \<Rightarrow> validate_enum_field v (prop_name p) variants [] | _ \<Rightarrow> []) (om_properties obj)))"

definition rust_enum_validator :: "enum_model \<Rightarrow> json \<Rightarrow> ts_error list" where
  "rust_enum_validator e v =
     (case v of
        JString s \<Rightarrow>
          if s \<in> set (map ev_value (em_variants e)) then []
          else [([], ''invalid '' @ sdk_pascal (em_name e) @ '' value: '' @ dquote @ s @ dquote)]
      | _ \<Rightarrow> [([], ''expected string for '' @ sdk_pascal (em_name e) @ '', got '' @ value_type_name v)])"

fun rust_validator :: "model \<Rightarrow> json \<Rightarrow> ts_error list" where
  "rust_validator (MObject obj) = rust_object_validator obj"
| "rust_validator (MEnum e) = rust_enum_validator e"

section \<open>The texts\<close>

definition tabbed :: "nat \<Rightarrow> string \<Rightarrow> string" where
  "tabbed n s = replicate n (CHR 9) @ s"

definition go_required_check :: "property \<Rightarrow> string" where
  "go_required_check p =
     (let lit = go_string_lit (prop_name p) in
      if prop_required p then text_of_lines
        [tabbed 2 (''if _, exists := obj['' @ lit @ '']; !exists {''),
         tabbed 3 (''errs = append(errs, ValidationError{Path: '' @ lit @ '', Message: '' @ dquote @ ''missing required field'' @ dquote @ ''})''),
         tabbed 2 ''}'']
      else [])"

definition go_enum_check :: "property \<Rightarrow> string" where
  "go_enum_check p =
     (let lit = go_string_lit (prop_name p) in
      case prop_ty p of
        TStringEnum variants _ \<Rightarrow> text_of_lines (
          [tabbed 2 (''if val, exists := obj['' @ lit @ '']; exists {''),
           tabbed 3 ''if s, ok := val.(string); ok {'',
           tabbed 4 ''valid := false'']
          @ map (\<lambda>v. tabbed 4 (''if s == '' @ go_string_lit v @ '' { valid = true }'')) variants
          @ [tabbed 4 ''if !valid {'',
             tabbed 5 (''errs = append(errs, ValidationError{Path: '' @ lit @ '', Message: fmt.Sprintf('' @ dquote
               @ ''invalid enum value: %s'' @ dquote @ '', s)})''),
             tabbed 4 ''}'', tabbed 3 ''}'', tabbed 2 ''}''])
      | _ \<Rightarrow> [])"

definition go_needs_obj_text :: "object_model \<Rightarrow> string" where
  "go_needs_obj_text obj = text_of_lines
     [tabbed 1 ''obj, ok := v.(map[string]any)'',
      tabbed 1 ''if !ok {'',
      tabbed 2 ''if b, err := json.Marshal(v); err == nil {'',
      tabbed 3 ''var m map[string]any'',
      tabbed 3 ''if err := json.Unmarshal(b, &m); err == nil {'',
      tabbed 4 ''obj = m'', tabbed 4 ''ok = true'', tabbed 3 ''}'', tabbed 2 ''}'', tabbed 1 ''}'',
      tabbed 1 ''if !ok {'',
      tabbed 2 (''errs = append(errs, ValidationError{Path: '' @ dquote @ dquote @ '', Message: '' @ dquote @ ''expected object'' @ dquote @ ''})''),
      tabbed 1 ''} else {'']
     @ concat (map (\<lambda>p. go_required_check p @ go_enum_check p) (om_properties obj))
     @ tabbed 1 ''}'' @ newline"

fun go_validator_text :: "model \<Rightarrow> string" where
  "go_validator_text (MObject obj) =
     (let name = export_ident (om_name obj) in
      text_of_lines
        [''// Validate'' @ name @ '' validates v against the '' @ name @ '' schema.'',
         ''func Validate'' @ name @ ''(v any) error {'',
         tabbed 1 (''errs := validateObject(v, '' @ dquote @ dquote @ '')'')]
      @ (if needs_obj obj then go_needs_obj_text obj else [])
      @ text_of_lines [tabbed 1 ''if len(errs) > 0 {'', tabbed 2 ''return ValidationErrors(errs)'', tabbed 1 ''}'',
          tabbed 1 ''return nil'', ''}'', []])"
| "go_validator_text (MEnum e) =
     (let name = export_ident (em_name e) in
      text_of_lines (
        [''// Validate'' @ name @ '' validates v is a valid '' @ name @ '' enum value.'',
         ''func Validate'' @ name @ ''(v any) error {'',
         tabbed 1 ''s, ok := v.(string)'',
         tabbed 1 ''if !ok {'',
         tabbed 2 (''return &ValidationError{Message: fmt.Sprintf('' @ dquote @ ''expected string for '' @ name @ '', got %T'' @ dquote @ '', v)}''),
         tabbed 1 ''}'']
        @ map (\<lambda>v. tabbed 1 (''if s == '' @ go_string_lit (ev_value v) @ '' { return nil }'')) (em_variants e)
        @ [tabbed 1 (''return &ValidationError{Message: fmt.Sprintf('' @ dquote @ ''invalid '' @ name @ '' value: %s'' @ dquote @ '', s)}''),
           ''}'', []]))"

definition rust_list_lit :: "string list \<Rightarrow> string" where
  "rust_list_lit ss = ''['' @ join '', '' (map rust_string_lit ss) @ '']''"

definition rust_error_push :: "string \<Rightarrow> string list" where
  "rust_error_push message =
     [''        errors.push(ValidationError {'', ''            path: String::new(),'', ''            message: '' @ message @ '','',
      ''        });'']"

definition rust_error_vec :: "string \<Rightarrow> string list" where
  "rust_error_vec message =
     [''        Err(vec![ValidationError {'', ''            path: String::new(),'', ''            message: '' @ message @ '','',
      ''        }])'']"

definition rust_object_checks :: "object_model \<Rightarrow> string" where
  "rust_object_checks obj =
     (if om_properties obj = [] then text_of_lines (
        [''    if !v.is_object() {'']
        @ rust_error_push (''format!('' @ dquote @ ''expected object, got {}'' @ dquote @ '', value_type_name(v))'')
        @ [''    }''])
      else
        (if required_of obj \<noteq> []
         then ''    errors.extend(validate_object_fields(v, &'' @ rust_list_lit (required_of obj) @ '', '' @ dquote @ dquote @ ''));'' @ newline
         else [])
        @ concat (map (\<lambda>p. case prop_ty p of
            TStringEnum variants _ \<Rightarrow>
              ''    errors.extend(validate_enum_field(v, '' @ rust_string_lit (prop_name p) @ '', &'' @ rust_list_lit variants
              @ '', '' @ dquote @ dquote @ ''));'' @ newline
          | _ \<Rightarrow> []) (om_properties obj)))"

definition rust_validator_head :: "string \<Rightarrow> string \<Rightarrow> string list" where
  "rust_validator_head doc name =
     [doc, ''pub fn validate_'' @ rust_snake name @ ''(v: &Value) -> Result<(), Vec<ValidationError>> {'']"

fun rust_validator_text :: "model \<Rightarrow> string" where
  "rust_validator_text (MObject obj) =
     text_of_lines (rust_validator_head (''/// Validate a value against the `'' @ sdk_pascal (om_name obj) @ ''` schema.'') (om_name obj)
       @ [''    let mut errors = Vec::new();''])
     @ rust_object_checks obj
     @ text_of_lines [''    if errors.is_empty() { Ok(()) } else { Err(errors) }'', ''}'', []]"
| "rust_validator_text (MEnum e) =
     (let name = sdk_pascal (em_name e) in
      text_of_lines (
        rust_validator_head (''/// Validate a value is a valid `'' @ name @ ''` enum value.'') (em_name e)
        @ [''    if let Some(s) = v.as_str() {'',
           ''        if '' @ rust_list_lit (map ev_value (em_variants e)) @ ''.contains(&s) { return Ok(()); }'']
        @ rust_error_vec (''format!('' @ dquote @ ''invalid '' @ name @ '' value: '' @ [CHR 92, CHR 34] @ ''{s}'' @ [CHR 92, CHR 34] @ dquote @ '')'')
        @ [''    } else {'']
        @ rust_error_vec (''format!('' @ dquote @ ''expected string for '' @ name @ '', got {}'' @ dquote @ '', value_type_name(v))'')
        @ [''    }'', ''}'', []]))"

section \<open>What the validators decide\<close>

text \<open>The shape both look at: an object with the required properties, in which the texts of inline enums are variants.\<close>

definition enum_text_ok :: "json_object \<Rightarrow> property \<Rightarrow> bool" where
  "enum_text_ok kvs p \<longleftrightarrow>
     (case (prop_ty p, map_of kvs (prop_name p)) of (TStringEnum variants _, Some (JString s)) \<Rightarrow> s \<in> set variants | _ \<Rightarrow> True)"

definition object_shape :: "object_model \<Rightarrow> json \<Rightarrow> bool" where
  "object_shape obj v \<longleftrightarrow>
     (case v of
        JObject kvs \<Rightarrow>
          list_all (\<lambda>p. (if prop_required p then map_of kvs (prop_name p) \<noteq> None else True) \<and> enum_text_ok kvs p) (om_properties obj)
      | _ \<Rightarrow> False)"

lemma go_property_errors_iff:
  "go_property_errors kvs p = [] \<longleftrightarrow> (if prop_required p then map_of kvs (prop_name p) \<noteq> None else True) \<and> enum_text_ok kvs p"
  by (auto simp: go_property_errors_def enum_text_ok_def split: ir_type.splits option.splits json.splits)

lemma not_needs_obj: "\<not> needs_obj obj \<Longrightarrow> p \<in> set (om_properties obj) \<Longrightarrow> go_property_errors kvs p = []"
  by (auto simp: needs_obj_def list_ex_iff is_string_enum_def go_property_errors_def split: ir_type.splits)

lemma go_object_exact: "go_object_validator obj v = [] \<longleftrightarrow> object_shape obj v"
proof (cases v)
  case (JObject kvs)
  have "(\<forall>p \<in> set (om_properties obj). go_property_errors kvs p = []) \<longleftrightarrow> object_shape obj v"
    by (simp add: JObject object_shape_def list_all_iff go_property_errors_iff)
  then show ?thesis using not_needs_obj [of obj _ kvs] by (auto simp: JObject go_object_validator_def)
qed (auto simp: go_object_validator_def object_shape_def)

lemma enum_field_iff:
  "(case prop_ty p of TStringEnum variants _ \<Rightarrow> validate_enum_field (JObject kvs) (prop_name p) variants [] | _ \<Rightarrow> []) = []
     \<longleftrightarrow> enum_text_ok kvs p"
  by (auto simp: enum_text_ok_def validate_enum_field_def split: ir_type.splits option.splits json.splits)

lemma rust_object_exact:
  "rust_object_validator obj v = [] \<longleftrightarrow>
     (if is_object v then object_shape obj v else om_properties obj \<noteq> [] \<and> required_of obj = [])"
proof (cases "is_object v")
  case True
  then obtain kvs where v: "v = JObject kvs" by (cases v) (auto simp: is_object_def)
  have req: "validate_object_fields v (required_of obj) [] = [] \<longleftrightarrow>
      (\<forall>p \<in> set (om_properties obj). if prop_required p then map_of kvs (prop_name p) \<noteq> None else True)"
    by (auto simp: v validate_object_fields_def required_of_def filter_empty_conv)
  have none: "validate_object_fields v [] [] = []" by (simp add: v validate_object_fields_def)
  have "rust_object_validator obj v = [] \<longleftrightarrow>
      om_properties obj = [] \<or> validate_object_fields v (required_of obj) [] = [] \<and>
      (\<forall>p \<in> set (om_properties obj). enum_text_ok kvs p)"
    using True none by (auto simp: rust_object_validator_def v enum_field_iff simp del: split_paired_All)
  then show ?thesis using True req by (auto simp: v object_shape_def list_all_iff)
next
  case False
  then have "as_object v = None" by (cases v) (auto simp: is_object_def)
  moreover have "validate_enum_field v f vs p = []" for f vs p using \<open>as_object v = None\<close> by (simp add: validate_enum_field_def)
  ultimately show ?thesis using False
    by (auto simp: rust_object_validator_def validate_object_fields_def split: ir_type.splits)
qed

text \<open>
  C38. The validators generated for an object model look at the shape only: the Go one accepts exactly the objects with the
  required properties in which the texts of inline enums are variants; the Rust one the same objects, and every other value
  besides when the model has properties but requires none. For an enum both accept exactly its values.
\<close>

theorem sdk_validators_exact:
  "(go_validator (MObject obj) v = [] \<longleftrightarrow> object_shape obj v) \<and>
   (rust_validator (MObject obj) v = [] \<longleftrightarrow>
      (if is_object v then object_shape obj v else om_properties obj \<noteq> [] \<and> required_of obj = [])) \<and>
   (go_validator (MEnum e) v = [] \<longleftrightarrow> (\<exists>s \<in> ev_value ` set (em_variants e). v = JString s)) \<and>
   (rust_validator (MEnum e) v = [] \<longleftrightarrow> (\<exists>s \<in> ev_value ` set (em_variants e). v = JString s))"
  using go_object_exact rust_object_exact
  by (auto simp: go_enum_validator_def rust_enum_validator_def split: json.splits)

lemma conforming_shape:
  assumes "registry_get reg name = Some (MObject obj)" and "om_shape_type obj = None"
    and "conforms reg v (TReference name False d)"
  shows "object_shape obj v"
  using assms(3)
proof (rule conforms_refE)
  fix obj' m
  assume v: "v = JObject m" and obj: "registry_get reg name = Some (MObject obj')"
    and req: "\<And>p. p \<in> set (om_properties obj') \<Longrightarrow> map_of m (prop_name p) = None \<Longrightarrow> \<not> prop_required p"
    and val: "\<And>p v. p \<in> set (om_properties obj') \<Longrightarrow> map_of m (prop_name p) = Some v \<Longrightarrow> conforms reg v (prop_ty p)"
  have [simp]: "obj' = obj" using obj assms(1) by simp
  have "enum_text_ok m p" if p: "p \<in> set (om_properties obj)" for p
  proof -
    have "s \<in> set vs" if "prop_ty p = TStringEnum vs n" "map_of m (prop_name p) = Some (JString s)" for vs n s
      using val [of p "JString s"] p that by (auto elim: conforms_enumE)
    then show ?thesis by (auto simp: enum_text_ok_def split: ir_type.splits option.splits json.splits)
  qed
  with req show ?thesis by (auto simp: v object_shape_def list_all_iff)
qed (use assms in auto)

text \<open>
  Both generated validators accept every value that conforms to its model, for enums and for object models that are
  not aliases.
\<close>

theorem sdk_validators_accept_conforming:
  assumes "registry_get reg name = Some m" and "\<forall>obj. m = MObject obj \<longrightarrow> om_shape_type obj = None"
    and "conforms reg v (TReference name False d)"
  shows "go_validator m v = [] \<and> rust_validator m v = []"
proof (cases m)
  case (MObject obj)
  then have "object_shape obj v" using conforming_shape assms by blast
  moreover from this have "is_object v" by (cases v) (auto simp: object_shape_def is_object_def)
  ultimately show ?thesis using go_object_exact rust_object_exact MObject by simp
next
  case (MEnum e)
  from assms(3) have "\<exists>s \<in> ev_value ` set (em_variants e). v = JString s"
    by (rule conforms_refE) (use assms(1) MEnum in auto)
  then show ?thesis by (auto simp: MEnum go_enum_validator_def rust_enum_validator_def)
qed

text \<open>
  An alias of an array has no properties, so its conforming values are rejected; and the type of a property is never looked
  at.
\<close>

lemma sdk_validators_alias_and_types:
  "om_properties obj = [] \<Longrightarrow> go_validator (MObject obj) (JArray vs) \<noteq> [] \<and> rust_validator (MObject obj) (JArray vs) \<noteq> []"
  "om_properties obj = [\<lparr>prop_name = n, prop_ty = TScalar ScInteger, prop_required = True, prop_description = None\<rparr>] \<Longrightarrow>
   go_validator (MObject obj) (JObject [(n, JBool b)]) = [] \<and> rust_validator (MObject obj) (JObject [(n, JBool b)]) = []"
  using go_object_exact rust_object_exact
  by (auto simp: object_shape_def is_object_def enum_text_ok_def)

end
