(* ===== verification/Sdk_Stream.thy ===== *)
theory Sdk_Stream
  imports Ts_Stream
begin

text \<open>
  Server-sent events in the generated Go and Rust clients (streaming.go, \<open>emit_streaming\<close> of
  crates/specforge-go/src/lib.rs, and streaming.rs of crates/specforge-rust/src/lib.rs), against those of the TypeScript
  client. Go reads lines with a \<open>bufio.Scanner\<close>, whose limit on the length of a line is not modelled; Rust is given the
  chunks as decoded texts.
\<close>

section \<open>Go\<close>

text \<open>\<open>bufio.ScanLines\<close>: the text up to each line feed, and what remains, without a carriage return at the end.\<close>

definition scan_lines :: "string \<Rightarrow> string list" where
  "scan_lines text =
     (let pieces = split_on (CHR 10) text in
      map strip_cr (butlast pieces) @ (if last pieces = [] then [] else [strip_cr (last pieces)]))"

record go_event =
  ge_event :: string
  ge_data :: string
  ge_id :: string

definition go_event_of :: "sse_state \<Rightarrow> go_event option" where
  "go_event_of st =
     (if st_data st \<noteq> [] \<or> st_event st \<noteq> ''message''
      then Some \<lparr>ge_event = st_event st, ge_data = join newline (st_data st),
        ge_id = (case st_id st of Some i \<Rightarrow> i | None \<Rightarrow> [])\<rparr>
      else None)"

text \<open>A field of a line: what the switch of \<open>Next\<close> does with it.\<close>

definition go_field :: "string \<Rightarrow> sse_state \<Rightarrow> sse_state" where
  "go_field line st =
     (if starts_with line '':'' then st
      else let (field, val) = sse_field line in
        if field = ''event'' then st\<lparr>st_event := val\<rparr>
        else if field = ''data'' then st\<lparr>st_data := st_data st @ [val]\<rparr>
        else if field = ''id'' then st\<lparr>st_id := Some val\<rparr>
        else st)"

text \<open>The loop of \<open>Next\<close>: the event it finds, the lines it has not read, and whether the iterator is done.\<close>

fun go_scan :: "string list \<Rightarrow> sse_state \<Rightarrow> go_event option \<times> string list \<times> bool" where
  "go_scan [] st = (go_event_of st, [], True)"
| "go_scan (line # ls) st =
     (if line = [] then
        (case go_event_of st of Some e \<Rightarrow> (Some e, ls, False) | None \<Rightarrow> go_scan ls sse_start)
      else go_scan ls (go_field line st))"

definition go_next :: "string list \<times> bool \<Rightarrow> go_event option \<times> string list \<times> bool" where
  "go_next it = (case it of (ls, fin) \<Rightarrow> if fin then (None, ls, True) else go_scan ls sse_start)"

lemma go_scan_shorter: "go_scan ls st = (e, ls', False) \<Longrightarrow> length ls' < length ls"
proof (induction ls arbitrary: st)
  case (Cons line ls)
  then show ?case by (fastforce split: if_splits option.splits)
qed auto

text \<open>The events of the loop \<open>for it.Next()\<close>.\<close>

function go_events :: "string list \<times> bool \<Rightarrow> go_event list" where
  "go_events it = (case go_next it of (Some e, it') \<Rightarrow> e # go_events it' | (None, it') \<Rightarrow> [])"
  by pat_completeness auto
termination
proof (relation "measure (\<lambda>(ls, fin). 2 * length ls + (if fin then 0 else 1))", simp, goal_cases)
  case (1 it x it' e)
  obtain ls fin where it: "it = (ls, fin)" by (cases it)
  obtain ls' fin' where it': "it' = (ls', fin')" by (cases it')
  have n: "\<not> fin" "go_scan ls sse_start = (Some e, ls', fin')" using 1 by (auto simp: it it' go_next_def split: if_splits)
  have "length ls' \<le> length ls" if "go_scan ls st = (e', ls', d)" for ls st e' ls' d
    using that by (induction ls arbitrary: st) (fastforce split: if_splits option.splits)+
  then show ?case using n go_scan_shorter [of ls sse_start "Some e" ls'] by (cases fin') (fastforce simp: it it')+
qed

declare go_events.simps [simp del]

section \<open>Go and TypeScript\<close>

definition to_go_event :: "sse_event \<Rightarrow> go_event" where
  "to_go_event e = \<lparr>ge_event = sse_type e, ge_data = sse_data e, ge_id = (case sse_id e of Some i \<Rightarrow> i | None \<Rightarrow> [])\<rparr>"

text \<open>The state after the lines of a text: what an event without its blank line has gathered.\<close>

fun sse_rest :: "string list \<Rightarrow> sse_state \<Rightarrow> sse_state" where
  "sse_rest [] st = st"
| "sse_rest (line # ls) st = sse_rest ls (fst (sse_line line st))"

definition opt_events :: "'a option \<Rightarrow> 'a list" where
  "opt_events x = (case x of Some a \<Rightarrow> [a] | None \<Rightarrow> [])"

lemma sse_line_go:
  "line \<noteq> [] \<Longrightarrow> sse_line line st = (go_field line st, [])"
  "sse_line [] st = (sse_start, case go_event_of st of
     Some g \<Rightarrow> [\<lparr>sse_type = st_event st, sse_data = join newline (st_data st), sse_id = st_id st\<rparr>] | None \<Rightarrow> [])"
  by (auto simp: sse_line_def go_field_def go_event_of_def split: prod.splits)

lemma go_events_done: "go_events (ls, True) = []"
  by (simp add: go_events.simps go_next_def)

definition go_events_from :: "string list \<Rightarrow> sse_state \<Rightarrow> go_event list" where
  "go_events_from ls st = (case go_scan ls st of (Some e, it) \<Rightarrow> e # go_events it | (None, it) \<Rightarrow> [])"

lemma go_events_start: "go_events (ls, False) = go_events_from ls sse_start"
  by (subst go_events.simps) (simp add: go_next_def go_events_from_def split: prod.splits option.splits)

lemma go_events_from_eq:
  "go_events_from ls st = map to_go_event (sse_events ls st) @ opt_events (go_event_of (sse_rest ls st))"
proof (induction ls arbitrary: st)
  case Nil
  then show ?case by (simp add: go_events_from_def go_events_done opt_events_def split: option.splits)
next
  case (Cons line ls)
  show ?case
  proof (cases "line = []")
    case False
    then have "go_events_from (line # ls) st = go_events_from ls (go_field line st)" by (simp add: go_events_from_def)
    with Cons False show ?thesis by (simp add: sse_line_go(1))
  next
    case True
    show ?thesis
    proof (cases "go_event_of st")
      case None
      then have "go_events_from (line # ls) st = go_events_from ls sse_start" using True by (simp add: go_events_from_def)
      with Cons True None show ?thesis by (simp add: sse_line_go(2))
    next
      case (Some e)
      then have "go_events_from (line # ls) st = e # go_events_from ls sse_start"
        using True go_events_start by (simp add: go_events_from_def)
      moreover have "to_go_event \<lparr>sse_type = st_event st, sse_data = join newline (st_data st), sse_id = st_id st\<rparr> = e"
        using Some by (auto simp: go_event_of_def to_go_event_def split: if_splits)
      ultimately show ?thesis using Cons True Some by (simp add: sse_line_go(2))
    qed
  qed
qed

lemma scan_lines_text: "strip_cr (last (split_on (CHR 10) text)) = last (split_on (CHR 10) text) \<Longrightarrow> scan_lines text = text_lines text"
  by (simp add: scan_lines_def text_lines_def Let_def)

text \<open>
  On the same lines the Go iterator gives the events that the TypeScript one gives, and besides them the event that the
  end of the body leaves unfinished, which the TypeScript client loses.
\<close>

theorem go_sse_agrees:
  "go_events (ls, False) = map to_go_event (sse_events ls sse_start) @ opt_events (go_event_of (sse_rest ls sse_start))"
  by (simp add: go_events_start go_events_from_eq)

section \<open>Rust\<close>

text \<open>\<open>parse_sse_block\<close>: blank lines and comments are skipped.\<close>

definition block_line :: "string \<Rightarrow> sse_state \<Rightarrow> sse_state" where
  "block_line line st = (let line = strip_cr line in if line = [] then st else go_field line st)"

definition parse_sse_block :: "string \<Rightarrow> sse_event option" where
  "parse_sse_block block =
     (let st = fold block_line (str_lines block) sse_start in
      if st_data st = [] \<and> st_event st = ''message'' then None
      else Some \<lparr>sse_type = st_event st, sse_data = join newline (st_data st), sse_id = st_id st\<rparr>)"

definition blank_lf :: string where "blank_lf = [CHR 10, CHR 10]"
definition blank_crlf :: string where "blank_crlf = [CHR 13, CHR 10, CHR 13, CHR 10]"

definition drain_one :: "string \<Rightarrow> sse_event option \<times> string" where
  "drain_one buffer =
     (case find_sub blank_lf buffer of
        Some idx \<Rightarrow> (parse_sse_block (take idx buffer), drop (idx + 2) buffer)
      | None \<Rightarrow>
          (case find_sub blank_crlf buffer of
             Some idx \<Rightarrow> (parse_sse_block (take idx buffer), drop (idx + 4) buffer)
           | None \<Rightarrow> (None, buffer)))"

definition drain_one_force :: "string \<Rightarrow> sse_event option" where
  "drain_one_force buffer = (if trim buffer = [] then None else parse_sse_block buffer)"

text \<open>
  The loop of \<open>next_event\<close>: a block that is no event ends \<open>drain_one\<close> without one, and the next chunk is awaited whatever the
  buffer still holds. The result is the event, the buffer, the chunks that have not been read, and whether the stream is done.
\<close>

fun next_event :: "string \<Rightarrow> string list \<Rightarrow> sse_event option \<times> string \<times> string list \<times> bool" where
  "next_event buffer chunks =
     (case drain_one buffer of
        (Some e, buffer') \<Rightarrow> (Some e, buffer', chunks, False)
      | (None, buffer') \<Rightarrow>
          (case chunks of
             [] \<Rightarrow> (drain_one_force buffer', [], [], True)
           | chunk # cs \<Rightarrow> next_event (buffer' @ chunk) cs))"

declare next_event.simps [simp del]

lemma find_sub_bound: "find_sub p s = Some i \<Longrightarrow> i + length p \<le> length s"
  using find_sub_Some [of p s i] by auto

lemma drain_one_shorter: "drain_one buffer = (e, buffer') \<Longrightarrow> length buffer' \<le> length buffer \<and> (e \<noteq> None \<longrightarrow> length buffer' < length buffer)"
  using find_sub_bound [of blank_lf buffer] find_sub_bound [of blank_crlf buffer]
  by (auto simp: drain_one_def blank_lf_def blank_crlf_def split: option.splits)

lemma next_event_shorter:
  "next_event buffer chunks = (Some e, buffer', chunks', False) \<Longrightarrow>
   length buffer' + length (concat chunks') < length buffer + length (concat chunks)"
proof (induction buffer chunks rule: next_event.induct)
  case (1 buffer chunks)
  obtain e' b where d: "drain_one buffer = (e', b)" by (cases "drain_one buffer")
  show ?case
  proof (cases e')
    case None
    then obtain c cs where cs: "chunks = c # cs" using 1(2) d by (subst (asm) next_event.simps) (auto split: list.splits)
    then have "next_event (b @ c) cs = (Some e, buffer', chunks', False)"
      using 1(2) d None by (subst (asm) next_event.simps) simp
    then show ?thesis using 1(1) [OF d [symmetric] _ cs] None drain_one_shorter [OF d] cs by simp
  next
    case (Some a)
    then show ?thesis using 1(2) d drain_one_shorter [OF d] by (subst (asm) next_event.simps) auto
  qed
qed

function rust_events :: "string \<Rightarrow> string list \<Rightarrow> sse_event list" where
  "rust_events buffer chunks =
     (case next_event buffer chunks of
        (None, _) \<Rightarrow> []
      | (Some e, buffer', chunks', fin) \<Rightarrow> if fin then [e] else e # rust_events buffer' chunks')"
  by pat_completeness auto
termination
  by (relation "measure (\<lambda>(buffer, chunks). length buffer + length (concat chunks))")
    (auto dest!: next_event_shorter [OF sym])

declare rust_events.simps [simp del]

text \<open>
  A block without an event, such as a comment that keeps the connection alive, makes the stream stop looking at its buffer:
  when no further chunk comes, the events behind it are read as one.
\<close>

definition ping_text :: string where
  "ping_text = '': ping'' @ blank_lf @ ''data: a'' @ blank_lf @ ''data: b'' @ blank_lf"

lemma rust_events_behind_comment:
  "rust_events [] [ping_text] = [\<lparr>sse_type = ''message'', sse_data = ''a'' @ newline @ ''b'', sse_id = None\<rparr>] \<and>
   streamSse [ping_text] = [\<lparr>sse_type = ''message'', sse_data = ''a'', sse_id = None\<rparr>,
     \<lparr>sse_type = ''message'', sse_data = ''b'', sse_id = None\<rparr>]"
  by code_simp

section \<open>The Rust stream reads what a server writes\<close>

abbreviation unlines :: "string list \<Rightarrow> string" where
  "unlines ls \<equiv> concat (map (\<lambda>l. l @ newline) ls)"

lemma find_sub_min: "find_sub p (u @ p @ v) = Some i \<Longrightarrow> i \<le> length u"
proof (induction u arbitrary: i)
  case Nil
  have "starts_with (p @ v) p" by (simp add: starts_with_iff)
  with Nil show ?case by (cases "p @ v") auto
next
  case (Cons x u)
  then show ?case by (auto split: if_splits)
qed

lemma not_blank_start: "x \<noteq> CHR 10 \<Longrightarrow> \<not> starts_with (x # s) blank_lf"
  by (simp add: blank_lf_def starts_with_def)

lemma find_blank_skip:
  "CHR 10 \<notin> set l \<Longrightarrow> find_sub blank_lf (l @ s) = map_option ((+) (length l)) (find_sub blank_lf s)"
proof (induction l)
  case (Cons x l)
  then show ?case by (cases "find_sub blank_lf s") (auto simp: not_blank_start)
qed (cases "find_sub blank_lf s"; simp)

lemma find_blank_newline:
  "find_sub blank_lf (CHR 10 # CHR 10 # s) = Some 0"
  "x \<noteq> CHR 10 \<Longrightarrow> find_sub blank_lf (CHR 10 # x # s) = map_option Suc (find_sub blank_lf (x # s))"
  by (simp_all add: blank_lf_def starts_with_def)

lemma find_blank:
  "ls \<noteq> [] \<Longrightarrow> list_all (\<lambda>l. l \<noteq> [] \<and> CHR 10 \<notin> set l) ls \<Longrightarrow>
   find_sub blank_lf (unlines ls @ newline @ r) = Some (length (join newline ls))"
proof (induction ls)
  case (Cons l ls)
  show ?case
  proof (cases ls)
    case Nil
    then show ?thesis using Cons.prems find_blank_skip [of l "CHR 10 # CHR 10 # r"]
      by (simp add: newline_def find_blank_newline del: find_sub.simps)
  next
    case (Cons k ks)
    then obtain x k' where k: "k = x # k'" "x \<noteq> CHR 10" using Cons.prems by (cases k) auto
    have "find_sub blank_lf (CHR 10 # unlines ls @ newline @ r) = map_option Suc (find_sub blank_lf (unlines ls @ newline @ r))"
      using k Cons find_blank_newline(2) by simp
    with Cons.IH Cons.prems Cons show ?thesis
      using find_blank_skip [of l "CHR 10 # unlines ls @ newline @ r"] by (simp add: newline_def)
  qed
qed simp

lemma unlines_join: "ls \<noteq> [] \<Longrightarrow> unlines ls = join newline ls @ newline"
  by (induction ls rule: list_nonempty_induct) (auto simp: neq_Nil_conv)

definition field_lines :: "sse_event \<Rightarrow> string list" where
  "field_lines e = butlast (event_lines e)"

lemma field_lines:
  "event_lines e = field_lines e @ [[]]" "field_lines e \<noteq> []"
  "plain_event e \<Longrightarrow> list_all (\<lambda>l. l \<noteq> [] \<and> plain_line l) (field_lines e)"
proof -
  show split: "event_lines e = field_lines e @ [[]]" by (simp add: field_lines_def event_lines_def butlast_append)
  show "field_lines e \<noteq> []" by (simp add: field_lines_def event_lines_def split: option.splits)
  assume "plain_event e"
  then have "list_all plain_line (field_lines e)" using plain_event_lines [of e] unfolding split by simp
  moreover have "list_all (\<lambda>l. l \<noteq> []) (field_lines e)"
    by (auto simp: field_lines_def event_lines_def list_all_iff butlast_append split: option.splits)
  ultimately show "list_all (\<lambda>l. l \<noteq> [] \<and> plain_line l) (field_lines e)" by (auto simp: list_all_iff)
qed

lemma event_text_lines: "event_text e = join newline (field_lines e) @ blank_lf"
  using unlines_join [OF field_lines(2)] by (simp add: event_text_def field_lines(1) blank_lf_def newline_def)

lemma str_lines_join:
  assumes "ls \<noteq> []" and "list_all (\<lambda>l. l \<noteq> [] \<and> plain_line l) ls"
  shows "str_lines (join newline ls) = ls"
proof -
  have split: "split_on (CHR 10) (join newline ls) = ls"
    using assms by (induction ls rule: list_nonempty_induct)
      (auto simp: newline_def plain_line_def split_on_no_sep split_on_append_sep neq_Nil_conv)
  have "last ls \<noteq> []" using assms by (auto simp: list_all_iff)
  moreover have "map strip_cr (butlast ls) = butlast ls"
    using assms(2) by (intro map_idI) (auto simp: list_all_iff plain_line_def dest: in_set_butlastD)
  ultimately show ?thesis using assms(1) by (simp add: str_lines_def split Let_def)
qed

lemma sse_events_block:
  "list_all (\<lambda>l. l \<noteq> []) ls \<Longrightarrow> sse_events (ls @ [[]]) st = snd (sse_line [] (fold go_field ls st))"
  by (induction ls arbitrary: st) (auto simp: sse_line_go(1) split_def)

lemma parse_event_block:
  assumes "plain_event e"
  shows "parse_sse_block (join newline (field_lines e)) = Some e"
proof -
  let ?ls = "field_lines e"
  note ls = field_lines(2) [of e] field_lines(3) [OF assms]
  have "fold block_line ?ls st = fold go_field ?ls st" for st
    using ls(2) by (intro fold_cong) (auto simp: list_all_iff block_line_def plain_line_def)
  then have lines: "fold block_line (str_lines (join newline ?ls)) sse_start = fold go_field ?ls sse_start"
    using str_lines_join [OF ls] by simp
  have "list_all (\<lambda>l. l \<noteq> []) ?ls" using ls(2) by (auto simp: list_all_iff)
  from sse_events_block [OF this, of sse_start]
  have "snd (sse_line [] (fold go_field ?ls sse_start)) = [e]"
    using sse_event_lines [of e "[]"] by (simp add: field_lines(1))
  then show ?thesis by (auto simp: parse_sse_block_def lines Let_def sse_line_def split: if_splits)
qed

lemma drain_event:
  assumes "plain_event e"
  shows "drain_one (event_text e @ r) = (Some e, r)"
proof -
  have "list_all (\<lambda>l. l \<noteq> [] \<and> CHR 10 \<notin> set l) (field_lines e)"
    using field_lines(3) [OF assms] by (auto simp: list_all_iff plain_line_def)
  then have "find_sub blank_lf (unlines (field_lines e) @ newline @ r) = Some (length (join newline (field_lines e)))"
    by (rule find_blank [OF field_lines(2)])
  then have "find_sub blank_lf (join newline (field_lines e) @ blank_lf @ r) = Some (length (join newline (field_lines e)))"
    using unlines_join [OF field_lines(2)] by (simp add: newline_def blank_lf_def)
  then show ?thesis
    using parse_event_block [OF assms] by (simp add: drain_one_def event_text_lines) (simp add: blank_lf_def)
qed

lemma no_crlf_in_event:
  assumes "plain_event e"
  shows "event_text e \<noteq> u @ blank_crlf @ w"
proof
  assume s: "event_text e = u @ blank_crlf @ w"
  let ?p = "last (split_on (CHR 10) u) @ [CHR 13]"
  have "list_all plain_line ls \<Longrightarrow> split_on (CHR 10) (unlines ls) = ls @ [[]]" for ls
    by (induction ls) (auto simp: newline_def split_on_append_sep split_on_no_sep plain_line_def)
  then have "split_on (CHR 10) (event_text e) = event_lines e @ [[]]"
    using plain_event_lines [OF assms] by (simp add: event_text_def)
  moreover have "?p \<in> set (split_on (CHR 10) (u @ blank_crlf @ w))"
    by (simp add: split_on_append_gen [of _ u] blank_crlf_def)
  ultimately have "?p \<in> set (event_lines e)" by (simp add: s)
  then have "strip_cr ?p = ?p" using plain_event_lines [OF assms] by (auto simp: list_all_iff plain_line_def)
  then show False by (simp add: strip_cr_def)
qed

lemma drain_incomplete:
  assumes "plain_event e" and "event_text e = b @ c" and "c \<noteq> []"
  shows "drain_one b = (None, b)"
proof -
  have "find_sub blank_lf b = None"
  proof (rule ccontr)
    assume "find_sub blank_lf b \<noteq> None"
    then obtain u v where b: "b = u @ blank_lf @ v" using find_sub_Some by blast
    have "list_all (\<lambda>l. l \<noteq> [] \<and> CHR 10 \<notin> set l) (field_lines e)"
      using field_lines(3) [OF assms(1)] by (auto simp: list_all_iff plain_line_def)
    from find_blank [OF field_lines(2) this, of "[]"]
    have "find_sub blank_lf (event_text e) = Some (length (join newline (field_lines e)))"
      by (simp add: event_text_def field_lines(1))
    then have "length (join newline (field_lines e)) \<le> length u"
      using find_sub_min [of blank_lf u "v @ c"] by (simp add: assms(2) b)
    moreover have "length (event_text e) = length (join newline (field_lines e)) + 2" by (simp add: event_text_lines blank_lf_def)
    moreover have "0 < length c" using assms(3) by simp
    ultimately show False unfolding assms(2) b by (simp add: blank_lf_def)
  qed
  moreover have "find_sub blank_crlf b = None"
    using find_sub_Some [of blank_crlf b] no_crlf_in_event [OF assms(1)] assms(2) by (cases "find_sub blank_crlf b") fastforce+
  ultimately show ?thesis by (simp add: drain_one_def)
qed

lemma next_event_complete:
  assumes "plain_event e"
  shows "b @ concat chunks = event_text e @ r \<Longrightarrow>
    \<exists>b' chunks'. next_event b chunks = (Some e, b', chunks', False) \<and> b' @ concat chunks' = r"
proof (induction chunks arbitrary: b)
  case Nil
  then show ?case using drain_event [OF assms, of r] by (simp add: next_event.simps)
next
  case (Cons chunk chunks)
  from Cons.prems consider v where "b = event_text e @ v" "v @ concat (chunk # chunks) = r"
    | c where "event_text e = b @ c" "c \<noteq> []"
    by (metis append_Nil2 append_eq_append_conv2)
  then show ?case
  proof cases
    case (1 v)
    then show ?thesis using drain_event [OF assms, of v] by (simp add: next_event.simps)
  next
    case (2 c)
    then show ?thesis
      using Cons.IH [of "b @ chunk"] Cons.prems drain_incomplete [OF assms 2]
      by (simp add: next_event.simps [of b])
  qed
qed

lemma parse_empty_block: "parse_sse_block [] = None"
  by code_simp

lemma next_event_end: "concat chunks = [] \<Longrightarrow> fst (next_event [] chunks) = None"
  by (induction chunks) (auto simp: next_event.simps drain_one_def drain_one_force_def parse_empty_block
      blank_lf_def blank_crlf_def)

text \<open>
  The Rust stream yields the events a server writes, wherever the body is cut into chunks, when every block is an event.
\<close>

theorem rust_sse_roundtrip:
  assumes "list_all plain_event es" and "concat chunks = concat (map event_text es)"
  shows "rust_events [] chunks = es"
proof -
  have "b @ concat cs = concat (map event_text es) \<Longrightarrow> rust_events b cs = es" for b cs
    using assms(1)
  proof (induction es arbitrary: b cs)
    case Nil
    then show ?case using next_event_end [of cs] by (subst rust_events.simps) (auto split: prod.splits option.splits)
  next
    case (Cons e es)
    then obtain b' cs' where "next_event b cs = (Some e, b', cs', False)" "b' @ concat cs' = concat (map event_text es)"
      using next_event_complete [of e b cs] by auto
    with Cons show ?case by (subst rust_events.simps) simp
  qed
  with assms(2) show ?thesis by simp
qed

theorem rust_sse_roundtrip_witness:
  "rust_events [] [''event: ad'', ''d'' @ newline @ ''data: a'' @ newline @ ''da'', ''ta: b'' @ newline, newline] =
     [\<lparr>sse_type = ''add'', sse_data = ''a'' @ newline @ ''b'', sse_id = None\<rparr>]"
  by (rule rust_sse_roundtrip)
    (simp_all add: plain_event_def plain_line_def event_text_def event_lines_def newline_def strip_cr_def)

end
