(* ===== verification/Sdk_Retry.thy ===== *)
theory Sdk_Retry
  imports Prelude
begin

unbundle bit_operations_syntax

text \<open>
  What the Go and Rust clients share around a request: the retry loop (\<open>doWithRetry\<close>, \<open>do_with_retry\<close>), the pauses
  between attempts (\<open>backoffDelay\<close>, \<open>backoff_delay\<close>, as 64-bit nanoseconds) and the idempotency keys
  (\<open>NewIdempotencyKey\<close>, \<open>new_idempotency_key\<close>, on 64-bit and 8-bit words) of crates/specforge-go/src/lib.rs and
  crates/specforge-rust/src/lib.rs. The results of the attempts, the random bits and the clock are parameters.
\<close>

section \<open>The retry loop\<close>

text \<open>
  \<open>once k\<close> is the result of attempt \<open>k\<close>, \<open>wait k\<close> an error that ends the pause before it (the context of the caller is
  done). The result comes with the number of requests made and of repetitions announced to the telemetry hooks.
\<close>

fun retry_loop ::
  "(nat \<Rightarrow> ('e, 'a) result) \<Rightarrow> ('e \<Rightarrow> bool) \<Rightarrow> (nat \<Rightarrow> 'e option) \<Rightarrow> nat \<Rightarrow> nat \<Rightarrow> ('e, 'a) result \<times> nat \<times> nat" where
  "retry_loop once retriable wait attempt remaining =
     (case once attempt of
        Inr a \<Rightarrow> (Inr a, Suc attempt, attempt)
      | Inl e \<Rightarrow>
          if \<not> retriable e then (Inl e, Suc attempt, attempt)
          else (case remaining of
                  0 \<Rightarrow> (Inl e, Suc attempt, attempt)
                | Suc n \<Rightarrow>
                    (case wait (Suc attempt) of
                       Some e' \<Rightarrow> (Inl e', Suc attempt, Suc attempt)
                     | None \<Rightarrow> retry_loop once retriable wait (Suc attempt) n)))"

declare retry_loop.simps [simp del]

definition repeats :: "(nat \<Rightarrow> ('e, 'a) result) \<Rightarrow> ('e \<Rightarrow> bool) \<Rightarrow> nat \<Rightarrow> bool" where
  "repeats once retriable k \<longleftrightarrow> (\<exists>e. once k = Inl e \<and> retriable e)"

lemma retry_loop_repeat:
  "repeats once retriable k \<Longrightarrow> wait (Suc k) = None \<Longrightarrow>
   retry_loop once retriable wait k (Suc n) = retry_loop once retriable wait (Suc k) n"
  by (auto simp: repeats_def retry_loop.simps [of _ _ _ k])

lemma retry_loop_last:
  "n = 0 \<or> \<not> repeats once retriable k \<Longrightarrow> retry_loop once retriable wait k n = (once k, Suc k, k)"
  by (subst retry_loop.simps) (auto simp: repeats_def split: sum.splits nat.splits)

text \<open>
  The loop ends with the first attempt that is not to be repeated, or with the last one allowed, and its result is the
  result of that attempt.
\<close>

lemma retry_loop_ends:
  assumes "\<forall>j. wait j = None" and "m \<le> n" and "\<forall>j < m. repeats once retriable (k + j)"
    and "m = n \<or> \<not> repeats once retriable (k + m)"
  shows "retry_loop once retriable wait k n = (once (k + m), Suc (k + m), k + m)"
  using assms(2-4)
proof (induction m arbitrary: k n)
  case 0
  then show ?case by (auto simp: retry_loop_last)
next
  case (Suc m)
  then obtain n' where n: "n = Suc n'" "m \<le> n'" by (cases n) auto
  have first: "repeats once retriable k" using Suc.prems(2) by auto
  have "retry_loop once retriable wait (Suc k) n' = (once (Suc k + m), Suc (Suc k + m), Suc k + m)"
  proof (rule Suc.IH)
    show "\<forall>j < m. repeats once retriable (Suc k + j)" using Suc.prems(2) by force
    show "m = n' \<or> \<not> repeats once retriable (Suc k + m)" using Suc.prems(3) n by simp
  qed (rule n(2))
  moreover have "wait (Suc k) = None" using assms(1) by blast
  ultimately show ?case using first by (simp add: n retry_loop_repeat)
qed

lemma retry_loop_count:
  "wait = (\<lambda>_. None) \<Longrightarrow> \<exists>m \<le> n. (\<forall>j < m. repeats once retriable (k + j)) \<and> (m = n \<or> \<not> repeats once retriable (k + m))
     \<and> retry_loop once retriable wait k n = (once (k + m), Suc (k + m), k + m)"
proof -
  assume w: "wait = (\<lambda>_. None)"
  define m where "m = (LEAST m. m = n \<or> \<not> repeats once retriable (k + m))"
  have m: "m = n \<or> \<not> repeats once retriable (k + m)"
    unfolding m_def by (rule LeastI [of _ n]) simp
  have "m \<le> n" unfolding m_def by (rule Least_le) simp
  moreover have "\<forall>j < m. repeats once retriable (k + j)"
    using not_less_Least m_def by blast
  ultimately show ?thesis using m w retry_loop_ends [of wait m n once retriable k] by blast
qed

section \<open>The pauses\<close>

text \<open>
  The doubling loop of the Go client, on signed 64-bit nanoseconds; the cap is positive, so its half is rounded down.
\<close>

fun go_doubled :: "64 word \<Rightarrow> nat \<Rightarrow> 64 word \<Rightarrow> 64 word" where
  "go_doubled cap 0 limit = limit"
| "go_doubled cap (Suc n) limit =
     (if sint cap div 2 \<le> sint limit then cap else go_doubled cap n (limit * 2))"

definition go_ceiling :: "nat \<Rightarrow> 64 word \<Rightarrow> 64 word \<Rightarrow> 64 word" where
  "go_ceiling attempt base_delay max_delay =
     (let base = if sint base_delay \<le> 0 then 500000000 else base_delay;
          cap = if sint max_delay \<le> 0 then 8000000000 else max_delay;
          limit = go_doubled cap attempt base
      in if sint cap < sint limit then cap else limit)"

text \<open>\<open>rand.Int63n(n)\<close> panics unless \<open>n\<close> is positive; \<open>random\<close> is the bit source it reduces.\<close>

definition go_backoff_delay :: "nat \<Rightarrow> nat \<Rightarrow> 64 word \<Rightarrow> 64 word \<Rightarrow> 64 word" where
  "go_backoff_delay random attempt base_delay max_delay =
     (let limit = go_ceiling attempt base_delay max_delay
      in if sint limit \<le> 0 then 0 else of_nat (random mod unat limit))"

text \<open>
  Rust's \<open>Duration\<close> counts nanoseconds in a wider type: the doubled value stays below the cap, so that it does not
  saturate. The jitter is a 64-bit hash of the clock, reduced by the low 64 bits of the ceiling.
\<close>

fun rust_doubled :: "nat \<Rightarrow> nat \<Rightarrow> nat \<Rightarrow> nat" where
  "rust_doubled cap 0 limit = limit"
| "rust_doubled cap (Suc n) limit = (if cap div 2 \<le> limit then cap else rust_doubled cap n (limit * 2))"

definition rust_ceiling :: "nat \<Rightarrow> nat \<Rightarrow> nat \<Rightarrow> nat" where
  "rust_ceiling attempt base_delay max_delay =
     (let limit = rust_doubled max_delay attempt base_delay in if max_delay < limit then max_delay else limit)"

definition rust_backoff_delay :: "64 word \<Rightarrow> nat \<Rightarrow> nat \<Rightarrow> nat \<Rightarrow> 64 word" where
  "rust_backoff_delay clock attempt base_delay max_delay =
     (let limit = rust_ceiling attempt base_delay max_delay
      in if limit = 0 then 0
         else let nanos = of_nat limit :: 64 word;
                  seed = clock * 6364136223846793005 + of_nat attempt
              in if nanos = 0 then 0 else seed mod nanos)"

lemma rust_doubled_bounds:
  assumes "b \<le> cap"
  shows "min (b * 2 ^ n) cap \<le> rust_doubled cap n b \<and> rust_doubled cap n b \<le> cap"
  using assms
proof (induction n arbitrary: b)
  case 0
  then show ?case by simp
next
  case (Suc n)
  show ?case
  proof (cases "cap div 2 \<le> b")
    case True
    then show ?thesis by simp
  next
    case False
    then have "b * 2 \<le> cap" by linarith
    from Suc.IH [OF this] show ?thesis using False by (simp add: mult.assoc)
  qed
qed

lemma rust_doubled_overshoot:
  assumes "b \<le> cap"
  shows "rust_doubled cap n b \<le> Suc (min (b * 2 ^ n) cap)"
  using assms
proof (induction n arbitrary: b)
  case 0
  then show ?case by simp
next
  case (Suc n)
  show ?case
  proof (cases "cap div 2 \<le> b")
    case True
    then have "cap \<le> Suc (b * 2)" by linarith
    also have "b * 2 \<le> b * 2 ^ Suc n" by simp
    finally show ?thesis using True by simp
  next
    case False
    then have "b * 2 \<le> cap" by linarith
    from Suc.IH [OF this] show ?thesis using False by (simp add: mult.assoc)
  qed
qed

text \<open>No step of the signed loop overflows, so that it computes what the unbounded one does.\<close>

lemma go_doubled_exact:
  "0 \<le> sint b \<Longrightarrow> sint b \<le> sint cap \<Longrightarrow> 0 < sint cap \<Longrightarrow>
   sint (go_doubled cap n b) = int (rust_doubled (nat (sint cap)) n (nat (sint b)))"
proof (induction n arbitrary: b)
  case 0
  then show ?case by simp
next
  case (Suc n)
  have half: "(sint cap div 2 \<le> sint b) = (nat (sint cap) div 2 \<le> nat (sint b))"
    using Suc.prems by linarith
  show ?case
  proof (cases "sint cap div 2 \<le> sint b")
    case True
    then show ?thesis using half Suc.prems by simp
  next
    case False
    then have small: "sint b * 2 \<le> sint cap" using Suc.prems by linarith
    have "sint cap < 2 ^ 63" using sint_lt [of cap] by simp
    with small Suc.prems have "sint (b * 2) = sint b * 2"
      by (simp add: sint_word_ariths signed_take_bit_int_eq_self)
    with Suc.IH [of "b * 2"] small Suc.prems have
      "sint (go_doubled cap n (b * 2)) = int (rust_doubled (nat (sint cap)) n (nat (sint b * 2)))" by simp
    with False half Suc.prems show ?thesis by (simp add: nat_mult_distrib)
  qed
qed

lemma unat_of_nat_small: "n < 2 ^ 63 \<Longrightarrow> unat (of_nat n :: 64 word) = n"
  by (simp add: unat_of_nat take_bit_nat_eq_self)

lemma unat_of_sint:
  assumes "sint w = int n" and "n < 2 ^ 63"
  shows "unat (w :: 64 word) = n"
proof -
  have "uint w = take_bit 64 (sint w)" using uint_sint [of w] by simp
  also have "\<dots> = int n" using assms by (simp add: take_bit_int_eq_self)
  finally show ?thesis by (metis nat_uint_eq nat_int)
qed

lemma word_of_nat_eq_0_small: "n < 2 ^ 63 \<Longrightarrow> (of_nat n = (0 :: 64 word)) = (n = 0)"
  by (auto dest: arg_cong [where f = unat] simp: unat_of_nat_small)

lemma rust_ceiling_bounds:
  assumes "b \<le> cap"
  shows "min (b * 2 ^ n) cap \<le> rust_ceiling n b cap" and "rust_ceiling n b cap \<le> Suc (min (b * 2 ^ n) cap)"
    and "rust_ceiling n b cap \<le> cap"
  using rust_doubled_bounds [OF assms, of n] rust_doubled_overshoot [OF assms, of n] by (auto simp: rust_ceiling_def Let_def)

text \<open>
  C37. With a positive pause below the cap and below two to the power of 63 nanoseconds, the Go and the Rust client
  double the same ceiling without overflow: it lies between the smaller of the doubled pause and the cap, and one
  nanosecond more, never above the cap; the pause itself is below it. (Where the cap is odd and the doubled pause is the
  cap without one, the loop takes the cap.)
\<close>

theorem backoff_ceilings_agree:
  assumes "0 < sint base_delay" and "sint base_delay \<le> sint max_delay"
  shows "sint (go_ceiling attempt base_delay max_delay) =
           int (rust_ceiling attempt (nat (sint base_delay)) (nat (sint max_delay)))
     \<and> min (nat (sint base_delay) * 2 ^ attempt) (nat (sint max_delay))
           \<le> rust_ceiling attempt (nat (sint base_delay)) (nat (sint max_delay))
     \<and> rust_ceiling attempt (nat (sint base_delay)) (nat (sint max_delay))
           \<le> min (Suc (nat (sint base_delay) * 2 ^ attempt)) (nat (sint max_delay))
     \<and> unat (go_backoff_delay random attempt base_delay max_delay)
           < rust_ceiling attempt (nat (sint base_delay)) (nat (sint max_delay))
     \<and> unat (rust_backoff_delay clock attempt (nat (sint base_delay)) (nat (sint max_delay)))
           < rust_ceiling attempt (nat (sint base_delay)) (nat (sint max_delay))"
proof -
  define b cap where "b = nat (sint base_delay)" and "cap = nat (sint max_delay)"
  have le: "b \<le> cap" and pos: "0 < b" "0 < cap" using assms by (simp_all add: b_def cap_def)
  have cap_bound: "cap < 2 ^ 63" using sint_lt [of max_delay] assms by (simp add: cap_def)
  have go: "sint (go_ceiling attempt base_delay max_delay) = int (rust_ceiling attempt b cap)"
    using go_doubled_exact [of base_delay max_delay attempt] assms
    by (auto simp: go_ceiling_def rust_ceiling_def Let_def b_def cap_def)
  have c: "min (b * 2 ^ attempt) cap \<le> rust_ceiling attempt b cap" "rust_ceiling attempt b cap \<le> cap"
    "rust_ceiling attempt b cap \<le> min (Suc (b * 2 ^ attempt)) cap"
    using rust_ceiling_bounds [OF le, of attempt] by auto
  have positive: "0 < rust_ceiling attempt b cap"
  proof -
    have "0 < min (b * 2 ^ attempt) cap" using pos by simp
    with c(1) show ?thesis by linarith
  qed
  have small: "rust_ceiling attempt b cap < 2 ^ 63" using c(2) cap_bound by linarith
  have unat_go: "unat (go_ceiling attempt base_delay max_delay) = rust_ceiling attempt b cap"
    using unat_of_sint [OF go] small by simp
  have "unat (go_backoff_delay random attempt base_delay max_delay) < rust_ceiling attempt b cap"
    using go positive small unat_go
    by (simp add: go_backoff_delay_def Let_def unat_of_nat_small less_trans [OF mod_less_divisor])
  moreover have "unat (rust_backoff_delay clock attempt b cap) < rust_ceiling attempt b cap"
    using positive small
    by (simp add: rust_backoff_delay_def Let_def word_of_nat_eq_0_small unat_mod unat_of_nat_small)
  ultimately show ?thesis using go c unfolding b_def cap_def by blast
qed

theorem backoff_ceilings_agree_witness:
  "sint (go_ceiling 3 500000000 8000000000) = int (rust_ceiling 3 500000000 8000000000)
   \<and> rust_ceiling 3 500000000 8000000000 \<in> {4000000000, 4000000001}"
  using backoff_ceilings_agree [of 500000000 8000000000 3 0 0] by (auto simp: min_def)

section \<open>Idempotency keys\<close>

text \<open>The version and variant bits, and the text: five groups of two hexadecimal digits per byte.\<close>

definition uuid_bits :: "8 word list \<Rightarrow> 8 word list" where
  "uuid_bits bs = bs[6 := (bs ! 6 AND 0x0f) OR 0x40, 8 := (bs ! 8 AND 0x3f) OR 0x80]"

definition hex2 :: "8 word \<Rightarrow> string" where
  "hex2 b = [hex_digit (unat b div 16), hex_digit (unat b mod 16)]"

definition uuid_text :: "8 word list \<Rightarrow> string" where
  "uuid_text bs =
     (let hex = (\<lambda>i j. concat (map hex2 (drop i (take j bs))))
      in hex 0 4 @ ''-'' @ hex 4 6 @ ''-'' @ hex 6 8 @ ''-'' @ hex 8 10 @ ''-'' @ hex 10 16)"

text \<open>
  Go: sixteen random bytes, or, when the source of randomness fails, the number of such failures so far. Rust: bytes of
  an xorshift generator started from the clock (128 bits), the process and an address.
\<close>

definition go_idempotency_key :: "(nat \<Rightarrow> 8 word) option \<Rightarrow> nat \<Rightarrow> string" where
  "go_idempotency_key random failures =
     (case random of
        None \<Rightarrow> ''key-'' @ show_nat (Suc failures)
      | Some b \<Rightarrow> uuid_text (uuid_bits (map b [0..<16])))"

definition xorshift :: "64 word \<Rightarrow> 64 word" where
  "xorshift s0 = (let s1 = s0 XOR push_bit 13 s0; s2 = s1 XOR drop_bit 7 s1 in s2 XOR push_bit 17 s2)"

primrec key_bytes :: "nat \<Rightarrow> 64 word \<Rightarrow> 8 word list" where
  "key_bytes 0 state = []"
| "key_bytes (Suc n) state = (let state' = xorshift state in ucast (drop_bit 8 state') # key_bytes n state')"

definition rust_idempotency_key :: "128 word \<Rightarrow> 64 word \<Rightarrow> 64 word \<Rightarrow> string" where
  "rust_idempotency_key clock process address =
     uuid_text (uuid_bits (key_bytes 16 (ucast clock XOR ucast (drop_bit 64 clock) XOR process XOR address)))"

text \<open>The textual form of a version 4 UUID (RFC 4122).\<close>

definition lower_hex :: "char \<Rightarrow> bool" where
  "lower_hex c \<longleftrightarrow> c \<in> set ''0123456789abcdef''"

definition variant_char :: "char \<Rightarrow> bool" where
  "variant_char c \<longleftrightarrow> c \<in> set ''89ab''"

definition uuid_v4_text :: "string \<Rightarrow> bool" where
  "uuid_v4_text t \<longleftrightarrow> length t = 36 \<and>
     list_all (\<lambda>(i, c).
       if i \<in> {8, 13, 18, 23} then c = CHR ''-''
       else if i = 14 then c = CHR ''4''
       else if i = 19 then variant_char c
       else lower_hex c) (enumerate 0 t)"

lemma length_key_bytes [simp]: "length (key_bytes n state) = n"
  by (induction n arbitrary: state) (simp_all add: Let_def)

lemma version_nibble: "unat ((b AND 0x0f) OR 0x40 :: 8 word) div 16 = 4"
proof -
  have "drop_bit 4 ((b AND 0x0f) OR 0x40 :: 8 word) = 4"
    by (rule bit_word_eqI) (auto simp: bit_simps less_Suc_eq numeral_eq_Suc)
  then have "unat (drop_bit 4 ((b AND 0x0f) OR 0x40 :: 8 word)) = 4" by simp
  then show ?thesis by (simp only: unat_drop_bit_eq) (simp add: drop_bit_eq_div)
qed

lemma variant_nibble: "unat ((b AND 0x3f) OR 0x80 :: 8 word) div 16 \<in> {8, 9, 10, 11}"
proof -
  have "drop_bit 6 ((b AND 0x3f) OR 0x80 :: 8 word) = 2"
    by (rule bit_word_eqI) (auto simp: bit_simps less_Suc_eq numeral_eq_Suc)
  then have "unat (drop_bit 6 ((b AND 0x3f) OR 0x80 :: 8 word)) = 2" by simp
  then have "unat ((b AND 0x3f) OR 0x80 :: 8 word) div 64 = 2" by (simp only: unat_drop_bit_eq) (simp add: drop_bit_eq_div)
  then have "8 \<le> unat ((b AND 0x3f) OR 0x80 :: 8 word) div 16 \<and> unat ((b AND 0x3f) OR 0x80 :: 8 word) div 16 < 12"
    by linarith
  then show ?thesis by auto
qed

lemma hex_digit_hex: "n < 16 \<Longrightarrow> lower_hex (hex_digit n)"
proof -
  have "list_all (\<lambda>n. lower_hex (hex_digit n)) [0..<16]" by code_simp
  then show "n < 16 \<Longrightarrow> lower_hex (hex_digit n)" by (auto simp: list_all_iff)
qed

lemma hex_digits: "lower_hex (hex_digit (unat (b :: 8 word) div 16))" "lower_hex (hex_digit (unat b mod 16))"
proof -
  have "unat b < 256" using unsigned_less [of b] by simp
  then show "lower_hex (hex_digit (unat b div 16))" by (intro hex_digit_hex) linarith
  show "lower_hex (hex_digit (unat b mod 16))" by (intro hex_digit_hex) simp
qed

lemma length_16_cases:
  assumes "length bs = 16"
  obtains a b c d e f g h i j k l m n p q where "bs = [a, b, c, d, e, f, g, h, i, j, k, l, m, n, p, q]"
  using assms by (auto simp: numeral_eq_Suc length_Suc_conv)

lemma uuid_text_of_bytes:
  assumes "hex_digit (unat x div 16) = CHR ''4''" and "variant_char (hex_digit (unat y div 16))"
  shows "uuid_v4_text (uuid_text [a, b, c, d, e, f, x, h, y, j, k, l, m, n, p, q])"
  using assms by (simp add: uuid_text_def hex2_def uuid_v4_text_def hex_digits)

lemma uuid_text_shape:
  assumes "length bs = 16"
  shows "uuid_v4_text (uuid_text (uuid_bits bs))"
proof -
  have "hex_digit 4 = CHR ''4''" by code_simp
  then have four: "hex_digit (unat ((z AND 0x0f) OR 0x40 :: 8 word) div 16) = CHR ''4''" for z
    by (simp only: version_nibble)
  have digits: "list_all (\<lambda>n. variant_char (hex_digit n)) [8, 9, 10, 11]" by code_simp
  have variant: "variant_char (hex_digit (unat ((z AND 0x3f) OR 0x80 :: 8 word) div 16))" for z
    using digits variant_nibble [of z] unfolding list_all_iff by (metis list.set(1) list.set(2))
  obtain a b c d e f g h i j k l m n p q where bs: "bs = [a, b, c, d, e, f, g, h, i, j, k, l, m, n, p, q]"
    using length_16_cases [OF assms] .
  have "uuid_bits bs = [a, b, c, d, e, f, (g AND 0x0f) OR 0x40, h, (i AND 0x3f) OR 0x80, j, k, l, m, n, p, q]"
  proof -
    have six: "(6 :: nat) = Suc (Suc (Suc (Suc (Suc (Suc 0)))))" and eight: "(8 :: nat) = Suc (Suc (Suc (Suc (Suc (Suc (Suc (Suc 0)))))))"
      by simp_all
    show ?thesis
      by (simp only: bs uuid_bits_def six eight list_update.simps nat.case nth_Cons_Suc nth_Cons_0)
  qed
  then show ?thesis using uuid_text_of_bytes [OF four variant] by simp
qed

text \<open>
  Whatever the random bytes of the Go client and the clock, process and address the Rust client starts from, an
  idempotency key has the textual form of a version 4 UUID; without randomness Go numbers its keys instead.
\<close>

theorem idempotency_keys_are_uuids:
  "uuid_v4_text (go_idempotency_key (Some random) failures)
   \<and> uuid_v4_text (rust_idempotency_key clock process address)
   \<and> go_idempotency_key None failures = ''key-'' @ show_nat (Suc failures)"
  by (simp add: go_idempotency_key_def rust_idempotency_key_def uuid_text_shape)

end
