(* ===== verification/Go_Client.thy ===== *)
theory Go_Client
  imports Sdk_Retry Ts_Client
begin

text \<open>
  The client of the generated Go SDK (client.go, retry.go, cache.go, middleware.go and telemetry.go, written by
  \<open>emit_client\<close>, \<open>emit_retry\<close>, \<open>emit_cache\<close>, \<open>emit_middleware\<close>, \<open>emit_idempotency\<close> of crates/specforge-go/src/lib.rs).

  The transport is a function from the number of the attempt and the request to an error or a response. The context is
  given by the error with which it ends the pause before an attempt, the semaphore and the rate limiter by the error
  with which they refuse a call. \<open>encoding/json\<close> is a parameter. A call is made by one caller at a time, so that the
  deduplicator runs it; log lines are left out and telemetry is a list of events.
\<close>

section \<open>Headers\<close>

text \<open>
  \<open>http.Header\<close>: a map from canonical names to lists of values. \<open>CanonicalHeaderKey\<close> leaves names with other than token
  characters alone.
\<close>

type_synonym http_header = "(string \<times> string list) list"

definition token_char :: "char \<Rightarrow> bool" where
  "token_char c \<longleftrightarrow> is_ascii_alphanumeric c \<or> c \<in> set ''!#$%&*+-.^_`|~'' \<or> c = CHR 39"

fun canonical_from :: "bool \<Rightarrow> string \<Rightarrow> string" where
  "canonical_from up [] = []"
| "canonical_from up (c # cs) = (if up then to_ascii_upper c else to_ascii_lower c) # canonical_from (c = CHR ''-'') cs"

definition canonical_key :: "string \<Rightarrow> string" where
  "canonical_key k = (if list_all token_char k then canonical_from True k else k)"

definition header_get :: "string \<Rightarrow> http_header \<Rightarrow> string" where
  "header_get k h = (case map_of h (canonical_key k) of Some (v # vs) \<Rightarrow> v | _ \<Rightarrow> [])"

definition header_set :: "string \<Rightarrow> string \<Rightarrow> http_header \<Rightarrow> http_header" where
  "header_set k v h = im_insert (canonical_key k) [v] h"

definition header_add :: "string \<Rightarrow> string \<Rightarrow> http_header \<Rightarrow> http_header" where
  "header_add k v h =
     im_insert (canonical_key k) ((case map_of h (canonical_key k) of Some vs \<Rightarrow> vs | None \<Rightarrow> []) @ [v]) h"

definition header_del :: "string \<Rightarrow> http_header \<Rightarrow> http_header" where
  "header_del k h = bt_remove (canonical_key k) h"

section \<open>Errors and the decision to retry\<close>

text \<open>\<open>GoNetError\<close>: an error that implements \<open>net.Error\<close>; \<open>GoError\<close>: any other error, with its text.\<close>

datatype go_error = GoNetError string | GoApiError nat string string | GoError string

definition go_truncate :: "string \<Rightarrow> nat \<Rightarrow> string" where
  "go_truncate s n = (if length s \<le> n then s else take n s @ [CHR 0xE2, CHR 0x80, CHR 0xA6])"

fun go_error_text :: "go_error \<Rightarrow> string" where
  "go_error_text (GoApiError status body url) =
     ''HTTP '' @ show_nat status @ '' from '' @ url @ '': '' @ go_truncate body 200"
| "go_error_text (GoNetError t) = t"
| "go_error_text (GoError t) = t"

record go_retry_options =
  gr_max_retries :: int
  gr_base_delay :: "64 word"
  gr_max_delay :: "64 word"
  gr_statuses :: "nat list"

definition DefaultRetryOptions :: go_retry_options where
  "DefaultRetryOptions = \<lparr>gr_max_retries = 2, gr_base_delay = 500000000, gr_max_delay = 8000000000,
     gr_statuses = [408, 429, 502, 503, 504]\<rparr>"

definition go_effective_retry :: "go_retry_options \<Rightarrow> go_retry_options" where
  "go_effective_retry r =
     (if gr_max_retries r = 0 \<and> gr_base_delay r = 0 \<and> gr_statuses r = [] then DefaultRetryOptions else r)"

definition go_retriable_method :: "string \<Rightarrow> bool" where
  "go_retriable_method m \<longleftrightarrow> to_uppercase m \<in> {''GET'', ''HEAD'', ''PUT'', ''DELETE'', ''OPTIONS''}"

definition go_is_retriable :: "string \<Rightarrow> go_retry_options \<Rightarrow> go_error \<Rightarrow> bool" where
  "go_is_retriable m opts e \<longleftrightarrow>
     (case e of GoNetError t \<Rightarrow> True | _ \<Rightarrow>
        contains_sub (go_error_text e) ''timeout'' \<or> contains_sub (go_error_text e) ''connection reset''
        \<or> (case e of GoApiError status body url \<Rightarrow> go_retriable_method m \<and> status \<in> set (gr_statuses opts)
           | _ \<Rightarrow> False))"

section \<open>Middleware and one attempt\<close>

record go_request =
  gq_method :: string
  gq_url :: string
  gq_headers :: http_header
  gq_body :: "string option"

record go_response =
  gs_status :: nat
  gs_header :: http_header
  gs_body :: string

type_synonym go_handler = "go_request \<Rightarrow> (go_error, go_response) result"
type_synonym go_middleware = "go_request \<Rightarrow> go_handler \<Rightarrow> (go_error, go_response) result"

definition ComposeMiddleware :: "go_middleware list \<Rightarrow> go_handler \<Rightarrow> go_handler" where
  "ComposeMiddleware mws dispatch = foldr (\<lambda>mw next_handler req. mw req next_handler) mws dispatch"

text \<open>An \<open>AuthProvider\<close>, in the number of the attempt, and the two that come with the SDK.\<close>

type_synonym go_auth = "nat \<Rightarrow> http_header \<Rightarrow> (go_error, http_header) result"

definition BearerAuth_Apply :: "(nat \<Rightarrow> (go_error, string) result) option \<Rightarrow> go_auth" where
  "BearerAuth_Apply get_token attempt h =
     (case get_token of None \<Rightarrow> Inr h
      | Some get \<Rightarrow> res_bind (get attempt) (\<lambda>tok.
          Inr (if tok \<noteq> [] then header_set ''Authorization'' (''Bearer '' @ tok) h else h)))"

definition StaticBearer :: "string \<Rightarrow> go_auth" where
  "StaticBearer token = BearerAuth_Apply (Some (\<lambda>attempt. Inr token))"

definition APIKeyAuth_Apply :: "string \<Rightarrow> (nat \<Rightarrow> (go_error, string) result) option \<Rightarrow> go_auth" where
  "APIKeyAuth_Apply name get_key attempt h =
     (case get_key of None \<Rightarrow> Inr h
      | Some get \<Rightarrow> if name = [] then Inr h
          else res_bind (get attempt) (\<lambda>key. Inr (if key \<noteq> [] then header_set name key h else h)))"

record go_client =
  gc_base_url :: string
  gc_header :: http_header
  gc_auth :: "go_auth option"
  gc_bearer_token :: string
  gc_api_key :: string
  gc_api_key_header :: string
  gc_retry :: go_retry_options
  gc_idempotency :: bool
  gc_cache_ttl :: "int option"
  gc_middleware :: "go_middleware list"
  gc_response_transformers :: "(string \<Rightarrow> string option) list"
  gc_response_interceptors :: "(string \<Rightarrow> string option) list"

definition IsIdempotencyCandidate :: "string \<Rightarrow> bool" where
  "IsIdempotencyCandidate m \<longleftrightarrow> to_uppercase m \<in> {''POST'', ''PUT'', ''PATCH'', ''DELETE''}"

definition WithBaseURL :: "string \<Rightarrow> go_client \<Rightarrow> go_client" where
  "WithBaseURL u c = c\<lparr>gc_base_url := trim_end_matches (CHR ''/'') u\<rparr>"

definition WithBearerToken :: "string \<Rightarrow> go_client \<Rightarrow> go_client" where
  "WithBearerToken token c = c\<lparr>gc_bearer_token := token, gc_auth := Some (StaticBearer token)\<rparr>"

definition WithAPIKey :: "string \<Rightarrow> string \<Rightarrow> go_client \<Rightarrow> go_client" where
  "WithAPIKey header key c = c\<lparr>gc_api_key_header := header, gc_api_key := key,
     gc_auth := Some (APIKeyAuth_Apply header (Some (\<lambda>attempt. Inr key)))\<rparr>"

definition WithCache :: "int \<Rightarrow> go_client \<Rightarrow> go_client" where
  "WithCache ttl c = c\<lparr>gc_cache_ttl := Some (if ttl \<le> 0 then 60000000000 else ttl)\<rparr>"

definition go_build_headers ::
  "go_client \<Rightarrow> http_header \<Rightarrow> bool \<Rightarrow> string \<Rightarrow> nat \<Rightarrow> (go_error, http_header) result" where
  "go_build_headers c defaults has_body idem_key attempt =
     (let h0 = header_set ''Accept'' ''application/json'' [];
          h1 = if has_body then header_set ''Content-Type'' ''application/json'' h0 else h0;
          h2 = fold (\<lambda>(k, vs). fold (header_add k) vs) defaults h1;
          authorized = (case gc_auth c of
              Some apply_auth \<Rightarrow> apply_auth attempt h2
            | None \<Rightarrow>
                let h3 = if gc_bearer_token c \<noteq> [] then header_set ''Authorization'' (''Bearer '' @ gc_bearer_token c) h2
                         else h2
                in Inr (if gc_api_key c \<noteq> [] \<and> gc_api_key_header c \<noteq> []
                        then header_set (gc_api_key_header c) (gc_api_key c) h3 else h3))
      in res_bind authorized (\<lambda>h.
           Inr (if idem_key \<noteq> [] \<and> header_get IDEMPOTENCY_HEADER h = [] then header_set IDEMPOTENCY_HEADER idem_key h
                else h)))"

definition go_do_once ::
  "go_client \<Rightarrow> (nat \<Rightarrow> go_handler) \<Rightarrow> http_header \<Rightarrow> string \<Rightarrow> string \<Rightarrow> string option \<Rightarrow> string \<Rightarrow> nat
     \<Rightarrow> (go_error, string \<times> nat \<times> string) result" where
  "go_do_once c send defaults m u body idem_key attempt =
     res_bind (go_build_headers c defaults (body \<noteq> None) idem_key attempt) (\<lambda>headers.
     res_bind (ComposeMiddleware (gc_middleware c) (send attempt)
         \<lparr>gq_method = m, gq_url = u, gq_headers = headers, gq_body = body\<rparr>) (\<lambda>r.
       if gs_status r < 200 \<or> 300 \<le> gs_status r
       then if gs_status r = 304 then Inr (gs_body r, gs_status r, header_get ''Etag'' (gs_header r))
            else Inl (GoApiError (gs_status r) (gs_body r) u)
       else Inr (gs_body r, gs_status r, header_get ''Etag'' (gs_header r))))"

text \<open>
  With a negative number of retries the loop body never runs and the nil error is returned: a success without a response.
\<close>

definition go_do_with_retry ::
  "go_client \<Rightarrow> (nat \<Rightarrow> go_handler) \<Rightarrow> (nat \<Rightarrow> go_error option) \<Rightarrow> http_header \<Rightarrow> string \<Rightarrow> string \<Rightarrow> string option \<Rightarrow> string
     \<Rightarrow> (go_error, string \<times> nat \<times> string) result \<times> nat \<times> nat" where
  "go_do_with_retry c send wait defaults m u body idem_key =
     (let retry = go_effective_retry (gc_retry c)
      in if gr_max_retries retry < 0 then (Inr ([], 0, []), 0, 0)
         else retry_loop (go_do_once c send defaults m u body idem_key) (go_is_retriable m retry) wait 0
                (nat (gr_max_retries retry)))"

section \<open>The cache and a call\<close>

record go_entry =
  gce_etag :: string
  gce_data :: string
  gce_timestamp :: int

type_synonym go_cache = "(string \<times> go_entry) list"

definition ResponseCache_Get :: "int \<Rightarrow> int \<Rightarrow> string \<Rightarrow> go_cache \<Rightarrow> go_entry option \<times> go_cache" where
  "ResponseCache_Get ttl now url entries =
     (case map_of entries url of
        None \<Rightarrow> (None, entries)
      | Some e \<Rightarrow> if ttl \<le> now - gce_timestamp e then (None, bt_remove url entries) else (Some e, entries))"

definition ResponseCache_Set :: "int \<Rightarrow> string \<Rightarrow> string \<Rightarrow> string \<Rightarrow> go_cache \<Rightarrow> go_cache" where
  "ResponseCache_Set now url etag data entries =
     im_insert url \<lparr>gce_etag = etag, gce_data = data, gce_timestamp = now\<rparr> entries"

datatype go_hook_event = OnRequestStart | OnCacheHit | OnCacheMiss | OnRetry nat | OnRequestError | OnRequestEnd nat

text \<open>What the shared client keeps between calls, with the events told to the telemetry hooks.\<close>

record go_state =
  gt_header :: http_header
  gt_cache :: go_cache
  gt_events :: "go_hook_event list"

text \<open>
  A call: the body is the outcome of the request interceptors and \<open>json.Marshal\<close>, the query the encoded \<open>url.Values\<close>,
  and \<open>ga_out\<close> tells whether the caller wants the response decoded.
\<close>

record go_api_call =
  ga_method :: string
  ga_path :: string
  ga_query :: string
  ga_body :: "(string, string) result option"
  ga_out :: bool

datatype go_outcome = GoFailed go_error | GoDecoded json | GoUntouched

definition go_url :: "go_client \<Rightarrow> go_api_call \<Rightarrow> string" where
  "go_url c a = gc_base_url c @ ga_path a @ (if ga_query a = [] then [] else CHR ''?'' # ga_query a)"

definition go_transformed :: "go_client \<Rightarrow> string \<Rightarrow> string" where
  "go_transformed c data =
     fold (\<lambda>t data. case t data of Some b \<Rightarrow> b | None \<Rightarrow> data)
       (gc_response_transformers c @ gc_response_interceptors c) data"

definition go_finish :: "go_client \<Rightarrow> (string \<Rightarrow> (string, json) result) \<Rightarrow> bool \<Rightarrow> nat \<Rightarrow> string \<Rightarrow> go_outcome" where
  "go_finish c unmarshal out status data =
     (if \<not> out \<or> status = 204 \<or> data = [] then GoUntouched
      else case unmarshal (go_transformed c data) of
             Inl e \<Rightarrow> GoFailed (GoError (''decode response: '' @ e))
           | Inr j \<Rightarrow> GoDecoded j)"

definition go_is_get :: "go_api_call \<Rightarrow> bool" where
  "go_is_get a \<longleftrightarrow> to_uppercase (ga_method a) = ''GET''"

definition go_lookup :: "go_client \<Rightarrow> int \<Rightarrow> go_api_call \<Rightarrow> go_cache \<Rightarrow> go_entry option \<times> go_cache" where
  "go_lookup c now a entries =
     (case gc_cache_ttl c of
        Some ttl \<Rightarrow> if go_is_get a then ResponseCache_Get ttl now (go_url c a) entries else (None, entries)
      | None \<Rightarrow> (None, entries))"

definition go_lookup_events :: "go_client \<Rightarrow> go_api_call \<Rightarrow> go_entry option \<Rightarrow> go_hook_event list" where
  "go_lookup_events c a hit =
     (if go_is_get a \<and> gc_cache_ttl c \<noteq> None then [if hit \<noteq> None then OnCacheHit else OnCacheMiss] else [])"

text \<open>The response is served from the cache after a 304, and stored when it has a tag.\<close>

definition go_settle ::
  "go_client \<Rightarrow> int \<Rightarrow> go_api_call \<Rightarrow> go_entry option \<Rightarrow> string \<times> nat \<times> string \<Rightarrow> go_cache \<Rightarrow> (string \<times> nat) \<times> go_cache" where
  "go_settle c now a hit response entries =
     (case response of (data, status, etag) \<Rightarrow>
        if go_is_get a \<and> gc_cache_ttl c \<noteq> None
        then case hit of
               Some e \<Rightarrow> if status = 304 then ((gce_data e, 200), entries)
                 else if 200 \<le> status \<and> status < 300 \<and> etag \<noteq> []
                 then ((data, status), ResponseCache_Set now (go_url c a) etag data entries)
                 else ((data, status), entries)
             | None \<Rightarrow> if 200 \<le> status \<and> status < 300 \<and> etag \<noteq> []
                 then ((data, status), ResponseCache_Set now (go_url c a) etag data entries)
                 else ((data, status), entries)
        else ((data, status), entries))"

text \<open>
  \<open>DoJSON\<close>: \<open>refused\<close> is the error of the semaphore or the rate limiter; \<open>key\<close> a fresh idempotency key; \<open>now\<close> and
  \<open>later\<close> the times of the lookup and of the store.
\<close>

definition DoJSON ::
  "go_client \<Rightarrow> (nat \<Rightarrow> go_handler) \<Rightarrow> (nat \<Rightarrow> go_error option) \<Rightarrow> go_error option \<Rightarrow> string \<Rightarrow> int \<Rightarrow> int
     \<Rightarrow> (string \<Rightarrow> (string, json) result) \<Rightarrow> go_api_call \<Rightarrow> go_state \<Rightarrow> go_outcome \<times> go_state" where
  "DoJSON c send wait refused key now later unmarshal a st =
     (case ga_body a of
        Some (Inl e) \<Rightarrow> (GoFailed (GoError (''marshal body: '' @ e)), st)
      | body \<Rightarrow>
        case refused of
          Some e \<Rightarrow> (GoFailed e, st)
        | None \<Rightarrow>
          let m = ga_method a;
              (hit, entries) = go_lookup c now a (gt_cache st);
              defaults = (case hit of Some e \<Rightarrow> header_set ''If-None-Match'' (gce_etag e) (gt_header st) | None \<Rightarrow> gt_header st);
              idem_key = (if gc_idempotency c \<and> IsIdempotencyCandidate m then key else []);
              (res, requests, announced) = go_do_with_retry c send wait defaults m (go_url c a)
                (case body of Some (Inr b) \<Rightarrow> Some b | _ \<Rightarrow> None) idem_key;
              header' = (if hit \<noteq> None then header_del ''If-None-Match'' defaults else defaults);
              events = gt_events st @ OnRequestStart # go_lookup_events c a hit @ map (\<lambda>k. OnRetry (Suc k)) [0..<announced]
          in case res of
               Inl e \<Rightarrow> (GoFailed e, \<lparr>gt_header = header', gt_cache = entries, gt_events = events @ [OnRequestError]\<rparr>)
             | Inr response \<Rightarrow>
                 (case go_settle c later a hit response entries of
                    ((data, status), entries') \<Rightarrow>
                      (go_finish c unmarshal (ga_out a) status data,
                       \<lparr>gt_header = header', gt_cache = entries',
                        gt_events = events @ [OnRequestEnd (fst (snd response))]\<rparr>)))"

section \<open>Telemetry\<close>

text \<open>
  A call tells the hooks nothing when its body cannot be encoded or the semaphore or the rate limiter refuses it;
  otherwise it tells one start, then at most what the cache and the repetitions give, and ends with exactly one end or
  error.
\<close>

theorem go_telemetry_paired:
  "\<exists>told. gt_events (snd (DoJSON c send wait refused key now later unmarshal a st)) = gt_events st @ told
     \<and> (told = [] \<longleftrightarrow> refused \<noteq> None \<or> (\<exists>e. ga_body a = Some (Inl e)))
     \<and> (told \<noteq> [] \<longrightarrow> (\<exists>middle last. told = OnRequestStart # middle @ [last]
          \<and> list_all (\<lambda>e. e = OnCacheHit \<or> e = OnCacheMiss \<or> (\<exists>k. e = OnRetry k)) middle
          \<and> (last = OnRequestError \<or> (\<exists>status. last = OnRequestEnd status))))"
proof (cases "refused \<noteq> None \<or> (\<exists>e. ga_body a = Some (Inl e))")
  case True
  then show ?thesis by (auto simp: DoJSON_def split: option.splits sum.splits)
next
  case False
  obtain hit entries where look: "go_lookup c now a (gt_cache st) = (hit, entries)" by fastforce
  let ?defaults = "case hit of Some e \<Rightarrow> header_set ''If-None-Match'' (gce_etag e) (gt_header st) | None \<Rightarrow> gt_header st"
  let ?body = "case ga_body a of Some (Inr b) \<Rightarrow> Some b | _ \<Rightarrow> None"
  let ?key = "if gc_idempotency c \<and> IsIdempotencyCandidate (ga_method a) then key else []"
  obtain res requests announced where
    run: "go_do_with_retry c send wait ?defaults (ga_method a) (go_url c a) ?body ?key = (res, requests, announced)"
    by (metis prod_cases3)
  let ?middle = "go_lookup_events c a hit @ map (\<lambda>k. OnRetry (Suc k)) [0..<announced]"
  have middle: "list_all (\<lambda>e. e = OnCacheHit \<or> e = OnCacheMiss \<or> (\<exists>k. e = OnRetry k)) ?middle"
    by (auto simp: go_lookup_events_def list_all_iff)
  let ?last = "case res of Inl e \<Rightarrow> OnRequestError | Inr response \<Rightarrow> OnRequestEnd (fst (snd response))"
  have "refused = None" using False by blast
  moreover have "ga_body a = None \<or> (\<exists>b. ga_body a = Some (Inr b))"
    using False by (metis option.exhaust sum.exhaust)
  ultimately have told: "gt_events (snd (DoJSON c send wait refused key now later unmarshal a st)) =
      gt_events st @ OnRequestStart # ?middle @ [?last]"
    using look run by (cases res) (auto simp: DoJSON_def Let_def case_prod_beta)
  have last: "?last = OnRequestError \<or> (\<exists>status. ?last = OnRequestEnd status)" by (cases res) auto
  show ?thesis using False middle last told by blast
qed

section \<open>The cache is transparent\<close>

lemma canonical_names [simp]:
  "canonical_key ''If-None-Match'' = ''If-None-Match''" "canonical_key ''Accept'' = ''Accept''"
  "canonical_key ''Content-Type'' = ''Content-Type''" "canonical_key ''Authorization'' = ''Authorization''"
  "canonical_key ''Etag'' = ''Etag''" "canonical_key IDEMPOTENCY_HEADER = IDEMPOTENCY_HEADER"
  by code_simp+

lemma header_get_set: "header_get k (header_set k' v h) = (if canonical_key k = canonical_key k' then v else header_get k h)"
  by (simp add: header_get_def header_set_def map_laws)

lemma header_get_add_other: "canonical_key k \<noteq> canonical_key k' \<Longrightarrow> header_get k (header_add k' v h) = header_get k h"
  by (simp add: header_get_def header_add_def map_laws)

lemma header_get_add_values:
  "canonical_key k \<noteq> canonical_key k' \<Longrightarrow> header_get k (fold (header_add k') vs h) = header_get k h"
  by (induction vs arbitrary: h) (simp_all add: header_get_add_other)

lemma header_get_add_all:
  "\<forall>k' \<in> fst ` set defaults. canonical_key k' \<noteq> canonical_key k \<Longrightarrow>
   header_get k (fold (\<lambda>(k', vs). fold (header_add k') vs) defaults h) = header_get k h"
  by (induction defaults arbitrary: h) (auto simp: header_get_add_values)

lemma header_get_conditional:
  assumes "\<forall>k \<in> fst ` set defaults. canonical_key k \<noteq> ''If-None-Match''"
    and "map_of h ''If-None-Match'' = None"
  shows "header_get ''If-None-Match'' (fold (\<lambda>(k, vs). fold (header_add k) vs) (header_set ''If-None-Match'' tag defaults) h) = tag"
    and "header_del ''If-None-Match'' (header_set ''If-None-Match'' tag defaults) = defaults"
proof -
  have absent: "''If-None-Match'' \<notin> fst ` set defaults"
    using assms(1) canonical_names(1) by metis
  then have set_eq: "header_set ''If-None-Match'' tag defaults = defaults @ [(''If-None-Match'', [tag])]"
    unfolding header_set_def canonical_names(1) by (induction defaults) auto
  have keep: "map_of (fold (\<lambda>(k, vs). fold (header_add k) vs) defaults h) ''If-None-Match'' = map_of h ''If-None-Match''"
    using assms(1)
  proof (induction defaults arbitrary: h)
    case (Cons kv defaults)
    have "canonical_key k \<noteq> ''If-None-Match'' \<Longrightarrow> map_of (fold (header_add k) vs h) ''If-None-Match'' = map_of h ''If-None-Match''" for k vs h
      by (induction vs arbitrary: h) (auto simp: header_add_def map_laws)
    with Cons show ?case by (cases kv) auto
  qed simp
  show "header_get ''If-None-Match'' (fold (\<lambda>(k, vs). fold (header_add k) vs) (header_set ''If-None-Match'' tag defaults) h) = tag"
    using keep assms(2) by (simp add: set_eq header_get_def header_add_def map_laws)
  show "header_del ''If-None-Match'' (header_set ''If-None-Match'' tag defaults) = defaults"
  proof -
    have "filter (\<lambda>(k, vs). k \<noteq> ''If-None-Match'') defaults = defaults"
      using absent by (induction defaults) auto
    then show ?thesis by (simp add: set_eq header_del_def bt_remove_def)
  qed
qed

text \<open>
  Credentials leave the condition of a request alone; a server that answers 304 to a request whose condition is the tag
  of the current document and sends the document otherwise; a cache whose entries with a current tag are current.
\<close>

definition leaves_condition :: "go_client \<Rightarrow> bool" where
  "leaves_condition c \<longleftrightarrow>
     (case gc_auth c of
        Some apply_auth \<Rightarrow> \<forall>k h. \<exists>h'. apply_auth k h = Inr h' \<and> header_get ''If-None-Match'' h' = header_get ''If-None-Match'' h
      | None \<Rightarrow> canonical_key (gc_api_key_header c) \<noteq> ''If-None-Match'')"

definition conditional_server :: "(string \<Rightarrow> string \<times> string) \<Rightarrow> nat \<Rightarrow> go_handler" where
  "conditional_server doc attempt req =
     (let (tag, content) = doc (gq_url req)
      in Inr (if tag \<noteq> [] \<and> header_get ''If-None-Match'' (gq_headers req) = tag
              then \<lparr>gs_status = 304, gs_header = header_set ''Etag'' tag [], gs_body = []\<rparr>
              else \<lparr>gs_status = 200, gs_header = header_set ''Etag'' tag [], gs_body = content\<rparr>))"

definition go_coherent :: "(string \<Rightarrow> string \<times> string) \<Rightarrow> go_cache \<Rightarrow> bool" where
  "go_coherent doc entries \<longleftrightarrow>
     (\<forall>u e. map_of entries u = Some e \<longrightarrow> gce_etag e \<noteq> [] \<and> (gce_etag e = fst (doc u) \<longrightarrow> gce_data e = snd (doc u)))"

lemma build_headers_condition:
  assumes "leaves_condition c" and "\<forall>k \<in> fst ` set defaults. canonical_key k \<noteq> ''If-None-Match''"
  shows "\<exists>h. go_build_headers c defaults has_body key attempt = Inr h \<and> header_get ''If-None-Match'' h = []"
    and "\<exists>h. go_build_headers c (header_set ''If-None-Match'' tag defaults) has_body key attempt = Inr h
           \<and> header_get ''If-None-Match'' h = tag"
proof -
  have idem: "canonical_key IDEMPOTENCY_HEADER \<noteq> ''If-None-Match''" by code_simp
  let ?h1 = "if has_body then header_set ''Content-Type'' ''application/json'' (header_set ''Accept'' ''application/json'' [])
             else header_set ''Accept'' ''application/json'' []"
  have fresh: "map_of ?h1 ''If-None-Match'' = None" by (simp add: header_set_def)
  have general: "\<exists>h. go_build_headers c ds has_body key attempt = Inr h
      \<and> header_get ''If-None-Match'' h = header_get ''If-None-Match'' (fold (\<lambda>(k, vs). fold (header_add k) vs) ds ?h1)" for ds
  proof (cases "gc_auth c")
    case None
    then show ?thesis using assms(1) idem
      by (simp add: go_build_headers_def Let_def leaves_condition_def header_get_set)
  next
    case (Some apply_auth)
    then obtain h' where "apply_auth attempt (fold (\<lambda>(k, vs). fold (header_add k) vs) ds ?h1) = Inr h'"
      and "header_get ''If-None-Match'' h' = header_get ''If-None-Match'' (fold (\<lambda>(k, vs). fold (header_add k) vs) ds ?h1)"
      using assms(1) by (simp add: leaves_condition_def) blast
    then show ?thesis using Some idem
      by (simp add: go_build_headers_def Let_def header_get_set)
  qed
  have "header_get ''If-None-Match'' (fold (\<lambda>(k, vs). fold (header_add k) vs) defaults ?h1) = header_get ''If-None-Match'' ?h1"
    using assms(2) by (intro header_get_add_all) simp
  then show "\<exists>h. go_build_headers c defaults has_body key attempt = Inr h \<and> header_get ''If-None-Match'' h = []"
    using general [of defaults] fresh by (auto simp: header_get_def)
  show "\<exists>h. go_build_headers c (header_set ''If-None-Match'' tag defaults) has_body key attempt = Inr h
           \<and> header_get ''If-None-Match'' h = tag"
    using general [of "header_set ''If-None-Match'' tag defaults"] header_get_conditional(1) [OF assms(2) fresh] by simp
qed

lemma header_get_etag [simp]: "header_get ''Etag'' (header_set ''Etag'' tag []) = tag"
  by (simp add: header_get_set)

lemma go_do_once_served:
  assumes "gc_middleware c = []" and "go_build_headers c defaults (body \<noteq> None) key k = Inr h"
  shows "go_do_once c (conditional_server doc) defaults m u body key k =
     (let (tag, content) = doc u
      in Inr (if tag \<noteq> [] \<and> header_get ''If-None-Match'' h = tag then ([], 304, tag) else (content, 200, tag)))"
  using assms by (simp add: go_do_once_def ComposeMiddleware_def conditional_server_def case_prod_beta)

lemma go_do_with_retry_served:
  assumes "0 \<le> gr_max_retries (go_effective_retry (gc_retry c))"
    and "go_do_once c send defaults m u body key 0 = Inr r"
  shows "go_do_with_retry c send wait defaults m u body key = (Inr r, 1, 0)"
  using assms by (simp add: go_do_with_retry_def Let_def retry_loop.simps)

lemma go_lookup_cases:
  assumes "go_lookup c now a entries = (hit, entries')" and "go_coherent doc entries"
  shows "go_coherent doc entries'"
    and "hit = Some e \<Longrightarrow> go_is_get a \<and> gc_cache_ttl c \<noteq> None \<and> gce_etag e \<noteq> []
      \<and> (gce_etag e = fst (doc (go_url c a)) \<longrightarrow> gce_data e = snd (doc (go_url c a)))"
  using assms
  by (auto simp: go_lookup_def ResponseCache_Get_def go_coherent_def map_laws split: option.splits if_splits)

lemma go_coherent_store:
  "go_coherent doc entries \<Longrightarrow> tag \<noteq> [] \<Longrightarrow> tag = fst (doc u) \<Longrightarrow> data = snd (doc u) \<Longrightarrow>
   go_coherent doc (ResponseCache_Set now u tag data entries)"
  by (auto simp: go_coherent_def ResponseCache_Set_def map_laws)

lemma go_settle_served:
  assumes "go_coherent doc entries" and "fst (doc (go_url c a)) = tag" and "snd (doc (go_url c a)) = content"
    and "\<And>e. hit = Some e \<Longrightarrow> go_is_get a \<and> gc_cache_ttl c \<noteq> None \<and> gce_etag e \<noteq> [] \<and> (gce_etag e = tag \<longrightarrow> gce_data e = content)"
  shows "\<exists>entries'. go_settle c now a hit
      (if tag \<noteq> [] \<and> (case hit of Some e \<Rightarrow> gce_etag e | None \<Rightarrow> []) = tag then ([], 304, tag) else (content, 200, tag)) entries
      = ((content, 200), entries') \<and> go_coherent doc entries'"
proof -
  have store: "tag \<noteq> [] \<Longrightarrow> go_coherent doc (ResponseCache_Set now (go_url c a) tag content entries)"
    using assms(1-3) go_coherent_store by blast
  show ?thesis
  proof (cases hit)
    case None
    then show ?thesis using assms(1) store by (cases "tag = []") (auto simp: go_settle_def)
  next
    case (Some e)
    then show ?thesis using assms(1) assms(4) [OF Some] store
      by (cases "gce_etag e = tag") (simp_all add: go_settle_def)
  qed
qed

lemma DoJSON_reply:
  assumes "ga_body a = None \<or> (\<exists>b. ga_body a = Some (Inr b))" and "go_lookup c now a (gt_cache st) = (hit, entries)"
    and "go_do_with_retry c send wait
      (case hit of Some e \<Rightarrow> header_set ''If-None-Match'' (gce_etag e) (gt_header st) | None \<Rightarrow> gt_header st)
      (ga_method a) (go_url c a) (case ga_body a of Some (Inr b) \<Rightarrow> Some b | _ \<Rightarrow> None)
      (if gc_idempotency c \<and> IsIdempotencyCandidate (ga_method a) then key else []) = (Inr r, requests, announced)"
    and "go_settle c later a hit r entries = ((data, status), entries')"
  shows "fst (DoJSON c send wait None key now later unmarshal a st) = go_finish c unmarshal (ga_out a) status data"
    and "gt_cache (snd (DoJSON c send wait None key now later unmarshal a st)) = entries'"
    and "gt_header (snd (DoJSON c send wait None key now later unmarshal a st)) =
      (case hit of Some e \<Rightarrow> header_del ''If-None-Match'' (header_set ''If-None-Match'' (gce_etag e) (gt_header st))
         | None \<Rightarrow> gt_header st)"
  using assms by (cases hit; force simp: DoJSON_def Let_def)+

lemma go_call_served:
  assumes "\<forall>e. ga_body a \<noteq> Some (Inl e)" and "gc_middleware c = []" and "leaves_condition c"
    and "\<forall>k \<in> fst ` set (gt_header st). canonical_key k \<noteq> ''If-None-Match''"
    and "0 \<le> gr_max_retries (go_effective_retry (gc_retry c))" and "go_coherent doc (gt_cache st)"
    and run: "run = DoJSON c (conditional_server doc) wait None key now later unmarshal a st"
  shows "fst run = go_finish c unmarshal (ga_out a) 200 (snd (doc (go_url c a)))"
    and "go_coherent doc (gt_cache (snd run))" and "gt_header (snd run) = gt_header st"
proof -
  obtain tag content where doc: "doc (go_url c a) = (tag, content)" by fastforce
  obtain hit entries where look: "go_lookup c now a (gt_cache st) = (hit, entries)" by fastforce
  let ?defaults = "case hit of Some e \<Rightarrow> header_set ''If-None-Match'' (gce_etag e) (gt_header st) | None \<Rightarrow> gt_header st"
  let ?key = "if gc_idempotency c \<and> IsIdempotencyCandidate (ga_method a) then key else []"
  let ?body = "case ga_body a of Some (Inr b) \<Rightarrow> Some b | _ \<Rightarrow> None"
  let ?condition = "case hit of Some e \<Rightarrow> gce_etag e | None \<Rightarrow> []"
  have body: "ga_body a = None \<or> (\<exists>b. ga_body a = Some (Inr b))"
    using assms(1) by (metis option.exhaust sum.exhaust)
  have "\<exists>h. go_build_headers c ?defaults (?body \<noteq> None) ?key 0 = Inr h \<and> header_get ''If-None-Match'' h = ?condition"
    using build_headers_condition [OF assms(3,4)] by (cases hit) simp_all
  then have once: "go_do_once c (conditional_server doc) ?defaults (ga_method a) (go_url c a) ?body ?key 0 =
      Inr (if tag \<noteq> [] \<and> ?condition = tag then ([], 304, tag) else (content, 200, tag))"
    using go_do_once_served [OF assms(2)] doc by fastforce
  have absent: "map_of (header_set ''Accept'' v []) ''If-None-Match'' = None" for v by (simp add: header_set_def)
  have header: "(case hit of Some e \<Rightarrow> header_del ''If-None-Match'' (header_set ''If-None-Match'' (gce_etag e) (gt_header st))
         | None \<Rightarrow> gt_header st) = gt_header st"
    using header_get_conditional(2) [OF assms(4) absent] by (cases hit) simp_all
  obtain entries' where settle: "go_settle c later a hit
      (if tag \<noteq> [] \<and> ?condition = tag then ([], 304, tag) else (content, 200, tag)) entries = ((content, 200), entries')"
    and coherent: "go_coherent doc entries'"
    using go_settle_served [of doc entries c a tag content hit later] go_lookup_cases [OF look assms(6)] doc by auto
  note reply = DoJSON_reply [OF body look go_do_with_retry_served [OF assms(5) once] settle]
  show "fst run = go_finish c unmarshal (ga_out a) 200 (snd (doc (go_url c a)))"
    using reply(1) doc by (simp add: run)
  show "go_coherent doc (gt_cache (snd run))" using reply(2) coherent by (simp add: run)
  show "gt_header (snd run) = gt_header st" using reply(3) header by (simp add: run)
qed

text \<open>
  C34. Against a server that answers conditional requests with 304, and with a cache whose current entries are current,
  a GET has the outcome it has without a cache: the current document is decoded, whether it was sent or is taken from the
  cache. The cache stays coherent, and the headers of the client are as before the call.
\<close>

theorem go_cache_transparent:
  assumes "go_is_get a" and "\<forall>e. ga_body a \<noteq> Some (Inl e)" and "gc_middleware c = []" and "leaves_condition c"
    and "\<forall>k \<in> fst ` set (gt_header st). canonical_key k \<noteq> ''If-None-Match''"
    and "0 \<le> gr_max_retries (go_effective_retry (gc_retry c))" and "go_coherent doc (gt_cache st)"
  shows "case DoJSON c (conditional_server doc) wait None key now later unmarshal a st of (result, st') \<Rightarrow>
      result = go_finish c unmarshal (ga_out a) 200 (snd (doc (go_url c a)))
      \<and> result = fst (DoJSON (c\<lparr>gc_cache_ttl := None\<rparr>) (conditional_server doc) wait None key now later unmarshal a st)
      \<and> go_coherent doc (gt_cache st') \<and> gt_header st' = gt_header st"
proof -
  let ?c = "c\<lparr>gc_cache_ttl := None\<rparr>"
  have same: "go_url ?c a = go_url c a" "go_finish ?c = go_finish c" "leaves_condition ?c"
    using assms(4) by (auto simp: go_url_def go_finish_def go_transformed_def leaves_condition_def fun_eq_iff split: option.splits)
  show ?thesis
    using go_call_served [OF assms(2-7) refl, of wait key now later unmarshal]
      go_call_served(1) [of a ?c st doc, OF assms(2) _ same(3) assms(5) _ assms(7) refl, of wait key now later unmarshal]
      assms(3,6) same(1,2)
    by (simp add: case_prod_beta)
qed

definition plain_go_client :: go_client where
  "plain_go_client = \<lparr>gc_base_url = ''https://h'', gc_header = [], gc_auth = None, gc_bearer_token = [], gc_api_key = [],
     gc_api_key_header = ''X-API-Key'', gc_retry = DefaultRetryOptions, gc_idempotency = True, gc_cache_ttl = Some 60,
     gc_middleware = [], gc_response_transformers = [], gc_response_interceptors = []\<rparr>"

theorem go_cache_transparent_witness:
  "fst (DoJSON plain_go_client (conditional_server (\<lambda>u. (''v1'', ''7''))) (\<lambda>k. None) None [] 10 11 (\<lambda>t. Inr (JString t))
      \<lparr>ga_method = ''GET'', ga_path = ''/pets'', ga_query = ''page=2'', ga_body = None, ga_out = True\<rparr>
      \<lparr>gt_header = [(''X-Trace'', [''1''])],
        gt_cache = [(''https://h/pets?page=2'', \<lparr>gce_etag = ''v1'', gce_data = ''7'', gce_timestamp = 0\<rparr>)], gt_events = []\<rparr>)
   = GoDecoded (JString ''7'')"
proof -
  let ?a = "\<lparr>ga_method = ''GET'', ga_path = ''/pets'', ga_query = ''page=2'', ga_body = None, ga_out = True\<rparr>"
  let ?st = "\<lparr>gt_header = [(''X-Trace'', [''1''])],
        gt_cache = [(''https://h/pets?page=2'', \<lparr>gce_etag = ''v1'', gce_data = ''7'', gce_timestamp = 0\<rparr>)], gt_events = []\<rparr> :: go_state"
  have get: "go_is_get ?a" by code_simp
  have names: "canonical_key ''X-Trace'' \<noteq> ''If-None-Match''" "canonical_key ''X-API-Key'' \<noteq> ''If-None-Match''" by code_simp+
  have "leaves_condition plain_go_client" "gc_middleware plain_go_client = []"
    using names by (simp_all add: leaves_condition_def plain_go_client_def)
  moreover have "0 \<le> gr_max_retries (go_effective_retry (gc_retry plain_go_client))"
    by (simp add: plain_go_client_def go_effective_retry_def DefaultRetryOptions_def)
  moreover have "go_coherent (\<lambda>u. (''v1'', ''7'')) (gt_cache ?st)" by (simp add: go_coherent_def)
  ultimately show ?thesis
    using go_cache_transparent [of ?a plain_go_client ?st "\<lambda>u. (''v1'', ''7'')" "\<lambda>t. Inr (JString t)" "\<lambda>k. None" "[]" 10 11] get names
    by (simp add: case_prod_beta go_finish_def go_transformed_def plain_go_client_def)
qed

section \<open>Repetitions\<close>

text \<open>
  The errors after which a request is repeated whatever its method is: those of the transport, and those whose text
  mentions a timeout or a reset connection. The text of a refusal has the status, the URL and the start of the response
  body in it.
\<close>

definition go_always_retried :: "go_error \<Rightarrow> bool" where
  "go_always_retried e \<longleftrightarrow>
     (case e of
        GoNetError t \<Rightarrow> True
      | GoApiError status body url \<Rightarrow>
          (\<exists>word \<in> {''timeout'', ''connection reset''}.
             contains_sub (''HTTP '' @ show_nat status @ '' from '' @ url @ '': '' @ go_truncate body 200) word)
      | GoError t \<Rightarrow> contains_sub t ''timeout'' \<or> contains_sub t ''connection reset'')"

lemma go_unsafe_retriable: "\<not> go_retriable_method m \<Longrightarrow> go_is_retriable m opts e \<longleftrightarrow> go_always_retried e"
  by (cases e) (auto simp: go_is_retriable_def go_always_retried_def)

lemma retry_loop_sent:
  "Suc k < fst (snd (retry_loop once retriable (\<lambda>_. None) 0 n)) \<longleftrightarrow> k < n \<and> (\<forall>j \<le> k. repeats once retriable j)"
proof -
  obtain m where m: "m \<le> n" "\<forall>j < m. repeats once retriable j" "m = n \<or> \<not> repeats once retriable m"
    "retry_loop once retriable (\<lambda>_. None) 0 n = (once m, Suc m, m)"
    using retry_loop_count [of "\<lambda>_. None" n once retriable 0] by auto
  then show ?thesis by (auto simp: not_less [symmetric] intro: less_le_trans)
qed



end
