(* ===== verification/Rust_Client.thy ===== *)
theory Rust_Client
  imports Sdk_Retry Ts_Client
begin

text \<open>
  The client of the generated Rust crate (client.rs, error.rs, retry.rs, cache.rs, middleware.rs and telemetry.rs,
  written by \<open>emit_client\<close>, \<open>emit_error\<close>, \<open>emit_retry\<close>, \<open>emit_cache\<close> and \<open>emit_middleware\<close> of
  crates/specforge-rust/src/lib.rs).

  The transport is a function from the number of the attempt and the request to an error or a response; which texts the
  \<open>http\<close> crate takes as names and values of headers, and \<open>serde\<close>, are parameters. A call is made by one caller at a time,
  so that the deduplicator runs it; log lines are left out and telemetry is a list of events.
\<close>

section \<open>Errors and headers\<close>

text \<open>\<open>RustTransport again t\<close>: a \<open>reqwest\<close> error, with whether it is a timeout, connection or request error.\<close>

datatype rust_error =
    RustHttp nat string string
  | RustTimeout nat
  | RustTransport bool string
  | RustSerde string
  | RustMessage string

fun rust_error_status :: "rust_error \<Rightarrow> nat option" where
  "rust_error_status (RustHttp status body url) = Some status"
| "rust_error_status _ = None"

text \<open>\<open>HeaderMap\<close>: names are kept in lower case; \<open>insert\<close> replaces all values of a name, \<open>get\<close> reads the first.\<close>

type_synonym header_map = "(string \<times> string list) list"

record http_rules =
  valid_name :: "string \<Rightarrow> bool"
  valid_value :: "string \<Rightarrow> bool"

definition hm_get :: "string \<Rightarrow> header_map \<Rightarrow> string option" where
  "hm_get name h = (case map_of h name of Some (v # vs) \<Rightarrow> Some v | _ \<Rightarrow> None)"

definition hm_insert :: "string \<Rightarrow> string \<Rightarrow> header_map \<Rightarrow> header_map" where
  "hm_insert name v h = im_insert name [v] h"

definition hm_try_insert :: "http_rules \<Rightarrow> string \<Rightarrow> string \<Rightarrow> header_map \<Rightarrow> (rust_error, header_map) result" where
  "hm_try_insert rules name v h =
     (if \<not> valid_name rules name then Inl (RustMessage ''invalid HTTP header name'')
      else if \<not> valid_value rules v then Inl (RustMessage ''failed to parse header value'')
      else Inr (hm_insert (to_lowercase name) v h))"

text \<open>A value under a name that is a constant of the crate.\<close>

definition hm_set_value :: "http_rules \<Rightarrow> string \<Rightarrow> string \<Rightarrow> header_map \<Rightarrow> (rust_error, header_map) result" where
  "hm_set_value rules name v h =
     (if valid_value rules v then Inr (hm_insert name v h) else Inl (RustMessage ''failed to parse header value''))"

datatype rust_auth =
    RustBearer string
  | RustBearerFn "nat \<Rightarrow> (string, string) result"
  | RustApiKey string string
  | RustApiKeyFn string "nat \<Rightarrow> (string, string) result"
  | RustNoAuth

definition rust_message :: "(string, 'a) result \<Rightarrow> (rust_error, 'a) result" where
  "rust_message r = (case r of Inl e \<Rightarrow> Inl (RustMessage e) | Inr a \<Rightarrow> Inr a)"

fun rust_auth_apply :: "http_rules \<Rightarrow> nat \<Rightarrow> rust_auth \<Rightarrow> header_map \<Rightarrow> (rust_error, header_map) result" where
  "rust_auth_apply rules attempt RustNoAuth h = Inr h"
| "rust_auth_apply rules attempt (RustBearer tok) h = hm_set_value rules ''authorization'' (''Bearer '' @ tok) h"
| "rust_auth_apply rules attempt (RustBearerFn f) h =
     res_bind (rust_message (f attempt)) (\<lambda>tok. hm_set_value rules ''authorization'' (''Bearer '' @ tok) h)"
| "rust_auth_apply rules attempt (RustApiKey name key) h = hm_try_insert rules name key h"
| "rust_auth_apply rules attempt (RustApiKeyFn name f) h =
     res_bind (rust_message (f attempt)) (\<lambda>key. hm_try_insert rules name key h)"

section \<open>The decision to retry\<close>

record rust_retry_options =
  rr_max_retries :: "32 word"
  rr_base_delay :: nat
  rr_max_delay :: nat
  rr_statuses :: "nat list"

definition rust_default_retry :: rust_retry_options where
  "rust_default_retry = \<lparr>rr_max_retries = 2, rr_base_delay = 500000000, rr_max_delay = 8000000000,
     rr_statuses = [408, 429, 502, 503, 504]\<rparr>"

definition rust_retriable_method :: "string \<Rightarrow> bool" where
  "rust_retriable_method m \<longleftrightarrow> m \<in> {''GET'', ''HEAD'', ''PUT'', ''DELETE'', ''OPTIONS''}"

definition rust_idempotency_candidate :: "string \<Rightarrow> bool" where
  "rust_idempotency_candidate m \<longleftrightarrow> m \<in> {''POST'', ''PUT'', ''PATCH'', ''DELETE''}"

fun is_error_retriable :: "string \<Rightarrow> rust_retry_options \<Rightarrow> rust_error \<Rightarrow> bool" where
  "is_error_retriable m opts (RustTimeout ms) = True"
| "is_error_retriable m opts (RustTransport again t) = again"
| "is_error_retriable m opts (RustHttp status body url) = (rust_retriable_method m \<and> status \<in> set (rr_statuses opts))"
| "is_error_retriable m opts (RustSerde t) = False"
| "is_error_retriable m opts (RustMessage t) = False"

section \<open>The query\<close>

definition hex_digit_upper :: "nat \<Rightarrow> char" where
  "hex_digit_upper d = (if d < 10 then char_of (48 + d) else char_of (55 + d))"

definition unreserved :: "char \<Rightarrow> bool" where
  "unreserved c \<longleftrightarrow> is_ascii_alphanumeric c \<or> c \<in> set ''-_.~''"

definition urlencoding_lite :: "string \<Rightarrow> string" where
  "urlencoding_lite s = concat (map (\<lambda>c. if unreserved c then [c]
     else [CHR ''%'', hex_digit_upper (byte c div 16), hex_digit_upper (byte c mod 16)]) s)"

definition full_url :: "string \<Rightarrow> (string \<times> string) list \<Rightarrow> string" where
  "full_url url query =
     (if query = [] then url
      else url @ ''?'' @ join ''&'' (map (\<lambda>(k, v). k @ ''='' @ urlencoding_lite v) query))"

section \<open>One attempt\<close>

record rust_request =
  rq_method :: string
  rq_url :: string
  rq_headers :: header_map
  rq_body :: "string option"

record rust_response =
  rs_status :: nat
  rs_headers :: header_map
  rs_body :: string

type_synonym rust_handler = "rust_request \<Rightarrow> (rust_error, rust_response) result"
type_synonym rust_middleware = "rust_request \<Rightarrow> rust_handler \<Rightarrow> (rust_error, rust_response) result"

definition rust_compose :: "rust_middleware list \<Rightarrow> rust_handler \<Rightarrow> rust_handler" where
  "rust_compose mws dispatch = foldr (\<lambda>mw next_handler req. mw req next_handler) mws dispatch"

datatype rust_event =
  RequestStart | CacheHit | CacheMiss | RetryEvent nat | RequestError rust_error | RequestEnd nat

record rust_client =
  rc_base_url :: string
  rc_auth :: rust_auth
  rc_default_headers :: header_map
  rc_retry :: rust_retry_options
  rc_idempotency :: bool
  rc_cache_ttl :: "int option"
  rc_middlewares :: "rust_middleware list"
  rc_transformers :: "(json \<Rightarrow> json) list"
  rc_interceptors :: "(json \<Rightarrow> json) list"

text \<open>\<open>HeaderValue::to_str\<close>: visible ASCII, spaces and tabs.\<close>

definition header_to_str :: "string \<Rightarrow> string option" where
  "header_to_str v = (if list_all (\<lambda>c. 32 \<le> byte c \<and> byte c < 127 \<or> byte c = 9) v then Some v else None)"

definition insert_missing :: "http_rules \<Rightarrow> string \<Rightarrow> string option \<Rightarrow> header_map \<Rightarrow> (rust_error, header_map) result" where
  "insert_missing rules name v h =
     (case v of None \<Rightarrow> Inr h
      | Some key \<Rightarrow> if contains_key h (to_lowercase name) then Inr h else hm_try_insert rules name key h)"

definition rust_build_headers ::
  "http_rules \<Rightarrow> rust_client \<Rightarrow> bool \<Rightarrow> string option \<Rightarrow> string option \<Rightarrow> nat \<Rightarrow> (rust_error, header_map) result" where
  "rust_build_headers rules c has_body idem_key if_none_match attempt =
     res_bind (rust_auth_apply rules attempt (rc_auth c) (rc_default_headers c)) (\<lambda>h0.
     let h1 = if has_body then hm_insert ''content-type'' ''application/json'' h0 else h0
     in res_bind (insert_missing rules IDEMPOTENCY_HEADER idem_key h1) (\<lambda>h2.
        case if_none_match of None \<Rightarrow> Inr h2 | Some etag \<Rightarrow> hm_set_value rules ''if-none-match'' etag h2))"

definition response_etag :: "rust_response \<Rightarrow> string" where
  "response_etag r =
     (case hm_get ''etag'' (rs_headers r) of
        Some v \<Rightarrow> (case header_to_str v of Some t \<Rightarrow> t | None \<Rightarrow> [])
      | None \<Rightarrow> [])"

definition rust_do_once ::
  "http_rules \<Rightarrow> rust_client \<Rightarrow> (nat \<Rightarrow> rust_handler) \<Rightarrow> string \<Rightarrow> string \<Rightarrow> (string \<times> string) list \<Rightarrow> string option
     \<Rightarrow> string option \<Rightarrow> string option \<Rightarrow> nat \<Rightarrow> (rust_error, string \<times> nat \<times> string) result \<times> rust_event list" where
  "rust_do_once rules c send m url query body idem_key if_none_match attempt =
     (case rust_build_headers rules c (body \<noteq> None) idem_key if_none_match attempt of
        Inl e \<Rightarrow> (Inl e, [])
      | Inr headers \<Rightarrow>
          case rust_compose (rc_middlewares c) (send attempt)
              \<lparr>rq_method = m, rq_url = full_url url query, rq_headers = headers, rq_body = body\<rparr> of
            Inl e \<Rightarrow> (Inl e, [])
          | Inr r \<Rightarrow>
              if rs_status r < 200 \<or> 300 \<le> rs_status r
              then if rs_status r = 304 then (Inr (rs_body r, rs_status r, response_etag r), [])
                   else let e = RustHttp (rs_status r) (rs_body r) (full_url url query) in (Inl e, [RequestError e])
              else (Inr (rs_body r, rs_status r, response_etag r), [RequestEnd (rs_status r)]))"

definition do_with_retry ::
  "http_rules \<Rightarrow> rust_client \<Rightarrow> (nat \<Rightarrow> rust_handler) \<Rightarrow> string \<Rightarrow> string \<Rightarrow> (string \<times> string) list \<Rightarrow> string option
     \<Rightarrow> string option \<Rightarrow> string option \<Rightarrow> (rust_error, string \<times> nat \<times> string) result \<times> nat \<times> rust_event list" where
  "do_with_retry rules c send m url query body idem_key if_none_match =
     (let once = rust_do_once rules c send m url query body idem_key if_none_match;
          (res, requests, announced) =
            retry_loop (fst \<circ> once) (is_error_retriable m (rc_retry c)) (\<lambda>k. None) 0 (unat (rr_max_retries (rc_retry c)))
      in (res, requests,
          concat (map (\<lambda>k. snd (once k) @ (if k < announced then [RetryEvent (Suc k)] else [])) [0..<requests])))"

section \<open>The cache and a call\<close>

record rust_entry =
  rce_etag :: string
  rce_data :: string
  rce_timestamp :: int

type_synonym rust_cache = "(string \<times> rust_entry) list"

definition rust_cache_get :: "int \<Rightarrow> int \<Rightarrow> string \<Rightarrow> rust_cache \<Rightarrow> rust_entry option" where
  "rust_cache_get ttl now url entries =
     (case map_of entries url of
        Some e \<Rightarrow> if now - rce_timestamp e < ttl then Some e else None
      | None \<Rightarrow> None)"

definition rust_cache_set :: "int \<Rightarrow> int \<Rightarrow> string \<Rightarrow> string \<Rightarrow> string \<Rightarrow> rust_cache \<Rightarrow> rust_cache" where
  "rust_cache_set ttl now url etag data entries =
     im_insert url \<lparr>rce_etag = etag, rce_data = data, rce_timestamp = now\<rparr>
       (filter (\<lambda>(k, e). now - rce_timestamp e < ttl) entries)"

record rust_state =
  rt_cache :: rust_cache
  rt_events :: "rust_event list"

record rust_api_call =
  ra_method :: string
  ra_path :: string
  ra_query :: "(string \<times> string) list"
  ra_body :: "(string, string) result option"

definition rust_lookup :: "rust_client \<Rightarrow> int \<Rightarrow> rust_api_call \<Rightarrow> rust_cache \<Rightarrow> rust_entry option" where
  "rust_lookup c now a entries =
     (case rc_cache_ttl c of
        Some ttl \<Rightarrow> if ra_method a = ''GET'' then rust_cache_get ttl now (rc_base_url c @ ra_path a) entries else None
      | None \<Rightarrow> None)"

definition rust_settle ::
  "rust_client \<Rightarrow> int \<Rightarrow> rust_api_call \<Rightarrow> rust_entry option \<Rightarrow> string \<times> nat \<times> string \<Rightarrow> rust_cache \<Rightarrow> string \<times> rust_cache" where
  "rust_settle c now a hit response entries =
     (case response of (data, status, etag) \<Rightarrow>
        if ra_method a \<noteq> ''GET'' then (data, entries)
        else case rc_cache_ttl c of
               None \<Rightarrow> (data, entries)
             | Some ttl \<Rightarrow>
                 if status = 304 then (case hit of Some e \<Rightarrow> (rce_data e, entries) | None \<Rightarrow> (data, entries))
                 else if 200 \<le> status \<and> status < 300 \<and> etag \<noteq> []
                 then (data, rust_cache_set ttl now (rc_base_url c @ ra_path a) etag data entries)
                 else (data, entries))"

text \<open>\<open>from_slice\<close> and \<open>from_value\<close> are serde's, the latter for the type the caller expects.\<close>

definition rust_decode ::
  "rust_client \<Rightarrow> (string \<Rightarrow> (string, json) result) \<Rightarrow> (json \<Rightarrow> (string, 'a) result) \<Rightarrow> nat \<Rightarrow> string \<Rightarrow> (rust_error, 'a) result" where
  "rust_decode c from_slice from_value status data =
     (if status = 204 \<or> data = []
      then (case from_value JNull of
              Inr a \<Rightarrow> Inr a
            | Inl e \<Rightarrow> (case from_value (JObject []) of Inr a \<Rightarrow> Inr a | Inl e \<Rightarrow> Inl (RustSerde e)))
      else case from_slice data of
             Inl e \<Rightarrow> Inl (RustSerde e)
           | Inr j \<Rightarrow>
               (case from_value (fold (\<lambda>t v. t v) (rc_transformers c @ rc_interceptors c) j) of
                  Inl e \<Rightarrow> Inl (RustSerde e)
                | Inr a \<Rightarrow> Inr a))"

definition request_json ::
  "http_rules \<Rightarrow> rust_client \<Rightarrow> (nat \<Rightarrow> rust_handler) \<Rightarrow> rust_error option \<Rightarrow> rust_error option \<Rightarrow> string \<Rightarrow> int \<Rightarrow> int
     \<Rightarrow> (string \<Rightarrow> (string, json) result) \<Rightarrow> (json \<Rightarrow> (string, 'a) result) \<Rightarrow> rust_api_call \<Rightarrow> rust_state
     \<Rightarrow> (rust_error, 'a) result \<times> rust_state" where
  "request_json rules c send sem_closed limited key now later from_slice from_value a st =
     (case ra_body a of
        Some (Inl e) \<Rightarrow> (Inl (RustSerde e), st)
      | body \<Rightarrow>
        case sem_closed of
          Some e \<Rightarrow> (Inl e, st)
        | None \<Rightarrow>
        case limited of
          Some e \<Rightarrow> (Inl e, st\<lparr>rt_events := rt_events st @ [RequestStart]\<rparr>)
        | None \<Rightarrow>
          let m = ra_method a;
              url = rc_base_url c @ ra_path a;
              hit = rust_lookup c now a (rt_cache st);
              looked = (if m = ''GET'' \<and> rc_cache_ttl c \<noteq> None then [if hit \<noteq> None then CacheHit else CacheMiss] else []);
              idem_key = (if rc_idempotency c \<and> rust_idempotency_candidate m then Some key else None);
              (res, requests, told) = do_with_retry rules c send m url (ra_query a)
                (case body of Some (Inr b) \<Rightarrow> Some b | _ \<Rightarrow> None) idem_key (map_option rce_etag hit);
              events = rt_events st @ RequestStart # looked @ told
          in case res of
               Inl e \<Rightarrow> (Inl e, st\<lparr>rt_events := events\<rparr>)
             | Inr response \<Rightarrow>
                 (case rust_settle c later a hit response (rt_cache st) of
                    (data, entries) \<Rightarrow>
                      (rust_decode c from_slice from_value (fst (snd response)) data,
                       \<lparr>rt_cache = entries, rt_events = events\<rparr>)))"

section \<open>Percent encoding\<close>

text \<open>What a server does with a query value.\<close>

definition unhex :: "char \<Rightarrow> nat" where
  "unhex c = (if byte c < 58 then byte c - 48 else byte c - 55)"

fun url_decode :: "string \<Rightarrow> string" where
  "url_decode (c # cs) =
     (if c = CHR ''%'' then (case cs of a # b # ds \<Rightarrow> char_of (16 * unhex a + unhex b) # url_decode ds | _ \<Rightarrow> [c])
      else c # url_decode cs)"
| "url_decode [] = []"

lemma unhex_hex: "d < 16 \<Longrightarrow> unhex (hex_digit_upper d) = d"
  by (simp add: unhex_def hex_digit_upper_def byte_def)

lemma url_decode_encoded:
  "url_decode ((if unreserved c then [c] else [CHR ''%'', hex_digit_upper (byte c div 16), hex_digit_upper (byte c mod 16)]) @ t) =
   c # url_decode t"
proof (cases "unreserved c")
  case True
  have "\<not> unreserved CHR ''%''" by code_simp
  with True have "c \<noteq> CHR ''%''" by blast
  with True show ?thesis by simp
next
  case False
  have "byte c < 256" by (simp add: byte_def)
  then have "unhex (hex_digit_upper (byte c div 16)) = byte c div 16" and "unhex (hex_digit_upper (byte c mod 16)) = byte c mod 16"
    by (auto intro!: unhex_hex less_mult_imp_div_less)
  then show ?thesis using False by (simp add: byte_def)
qed

text \<open>
  A query value is read back by percent decoding, and what is sent for it has only unreserved characters and percent
  signs, so that it cannot end the value; the name of a parameter is sent as it is.
\<close>

theorem urlencoding_roundtrip:
  "url_decode (urlencoding_lite s) = s \<and> list_all (\<lambda>c. unreserved c \<or> c = CHR ''%'') (urlencoding_lite s)
   \<and> full_url url [(name, s)] = url @ ''?'' @ name @ ''='' @ urlencoding_lite s"
proof -
  have "url_decode (urlencoding_lite s) = s"
  proof (induction s)
    case (Cons c s)
    then show ?case using url_decode_encoded [of c "urlencoding_lite s"] by (simp add: urlencoding_lite_def)
  qed (simp add: urlencoding_lite_def)
  moreover have "list_all (\<lambda>c. unreserved c \<or> c = CHR ''%'') (urlencoding_lite s)"
  proof -
    have "is_ascii_alphanumeric (hex_digit_upper d)" if "d < 16" for d
      using that by (auto simp: hex_digit_upper_def is_ascii_alphanumeric_def is_ascii_alphabetic_def is_ascii_upper_def
          is_ascii_digit_def byte_def)
    then have "unreserved (hex_digit_upper d)" if "d < 16" for d
      using that by (simp add: unreserved_def)
    moreover have "byte c div 16 < 16" for c by (simp add: byte_def less_mult_imp_div_less)
    ultimately show ?thesis by (auto simp: urlencoding_lite_def list_all_iff)
  qed
  ultimately show ?thesis by (simp add: full_url_def)
qed

section \<open>Repetitions\<close>

lemma hm_try_insert_error: "hm_try_insert rules name v h = Inl e \<Longrightarrow> \<exists>t. e = RustMessage t"
  by (auto simp: hm_try_insert_def split: if_splits)

lemma hm_set_value_error: "hm_set_value rules name v h = Inl e \<Longrightarrow> \<exists>t. e = RustMessage t"
  by (auto simp: hm_set_value_def split: if_splits)

lemma rust_auth_error: "rust_auth_apply rules k auth h = Inl e \<Longrightarrow> \<exists>t. e = RustMessage t"
  by (cases auth; auto simp: rust_message_def split: sum.splits dest: hm_try_insert_error hm_set_value_error)

lemma rust_build_headers_error: "rust_build_headers rules c b key tag k = Inl e \<Longrightarrow> \<exists>t. e = RustMessage t"
proof -
  assume e: "rust_build_headers rules c b key tag k = Inl e"
  show ?thesis
  proof (cases "rust_auth_apply rules k (rc_auth c) (rc_default_headers c)")
    case (Inl e')
    then show ?thesis using e rust_auth_error by (simp add: rust_build_headers_def)
  next
    case (Inr h)
    let ?h = "if b then hm_insert ''content-type'' ''application/json'' h else h"
    show ?thesis
    proof (cases "insert_missing rules IDEMPOTENCY_HEADER key ?h")
      case (Inl e')
      then have "e' = e" using e Inr by (simp add: rust_build_headers_def Let_def)
      with Inl show ?thesis by (auto simp: insert_missing_def split: option.splits if_splits dest: hm_try_insert_error hm_set_value_error)
    next
      case Inr2: (Inr h2)
      then show ?thesis using e Inr
        by (auto simp: rust_build_headers_def Let_def split: option.splits dest: hm_try_insert_error hm_set_value_error)
    qed
  qed
qed

lemma rust_unsafe_not_repeated:
  assumes "\<not> rust_retriable_method m" and "rc_middlewares c = []" and "\<forall>k req. \<exists>r. send k req = Inr r"
  shows "\<not> repeats (fst \<circ> rust_do_once rules c send m url query body key tag) (is_error_retriable m (rc_retry c)) k"
proof
  assume "repeats (fst \<circ> rust_do_once rules c send m url query body key tag) (is_error_retriable m (rc_retry c)) k"
  then obtain e where e: "fst (rust_do_once rules c send m url query body key tag k) = Inl e"
    and again: "is_error_retriable m (rc_retry c) e" by (auto simp: repeats_def)
  show False
  proof (cases "rust_build_headers rules c (body \<noteq> None) key tag k")
    case (Inl e')
    then have "e' = e" using e by (simp add: rust_do_once_def)
    with Inl again show False using rust_build_headers_error by fastforce
  next
    case (Inr headers)
    obtain r where "send k \<lparr>rq_method = m, rq_url = full_url url query, rq_headers = headers, rq_body = body\<rparr> = Inr r"
      using assms(3) by blast
    with Inr e assms(2) have "e = RustHttp (rs_status r) (rs_body r) (full_url url query)"
      by (auto simp: rust_do_once_def rust_compose_def Let_def split: if_splits)
    with again assms(1) show False by simp
  qed
qed

lemma do_with_retry_requests:
  "fst (snd (do_with_retry rules c send m url query body key tag)) =
   fst (snd (retry_loop (fst \<circ> rust_do_once rules c send m url query body key tag) (is_error_retriable m (rc_retry c))
     (\<lambda>k. None) 0 (unat (rr_max_retries (rc_retry c)))))"
  by (simp add: do_with_retry_def Let_def case_prod_beta)

text \<open>
  A request with a method that must not be repeated is sent once by the Rust client when the server answers, with
  whatever status; no request is sent more often than the options allow.
\<close>

theorem rust_requests_bounded:
  "fst (snd (do_with_retry rules c send m url query body key tag)) \<le> Suc (unat (rr_max_retries (rc_retry c)))
   \<and> (\<not> rust_retriable_method m \<and> rc_middlewares c = [] \<and> (\<forall>k req. \<exists>r. send k req = Inr r) \<longrightarrow>
        fst (snd (do_with_retry rules c send m url query body key tag)) = 1)"
proof
  let ?once = "fst \<circ> rust_do_once rules c send m url query body key tag"
  let ?again = "is_error_retriable m (rc_retry c)"
  obtain i where "i \<le> unat (rr_max_retries (rc_retry c))"
    and "retry_loop ?once ?again (\<lambda>k. None) 0 (unat (rr_max_retries (rc_retry c))) = (?once (0 + i), Suc (0 + i), 0 + i)"
    using retry_loop_count [OF refl, of "unat (rr_max_retries (rc_retry c))" ?once ?again 0] by blast
  then show "fst (snd (do_with_retry rules c send m url query body key tag)) \<le> Suc (unat (rr_max_retries (rc_retry c)))"
    by (simp add: do_with_retry_requests)
  show "\<not> rust_retriable_method m \<and> rc_middlewares c = [] \<and> (\<forall>k req. \<exists>r. send k req = Inr r) \<longrightarrow>
        fst (snd (do_with_retry rules c send m url query body key tag)) = 1"
    using rust_unsafe_not_repeated [of m c send rules url query body key tag 0]
    by (simp add: do_with_retry_requests retry_loop_last)
qed

section \<open>The cache\<close>

definition rust_server :: "(string \<Rightarrow> string \<times> string) \<Rightarrow> nat \<Rightarrow> rust_handler" where
  "rust_server doc attempt req =
     (let (tag, content) = doc (rq_url req)
      in Inr (if tag \<noteq> [] \<and> hm_get ''if-none-match'' (rq_headers req) = Some tag
              then \<lparr>rs_status = 304, rs_headers = [(''etag'', [tag])], rs_body = []\<rparr>
              else \<lparr>rs_status = 200, rs_headers = [(''etag'', [tag])], rs_body = content\<rparr>))"

text \<open>
  The cache is keyed by the URL without its query. Against a server that answers conditional requests with 304, a
  GET whose document has the tag of the entry for its path is given the data of the entry, whatever its query; the hooks
  are told its start but no end.
\<close>

theorem rust_cache_ignores_query:
  assumes "ra_method a = ''GET''" and "ra_body a = None" and "rc_middlewares c = []"
    and "rust_auth_apply rules 0 (rc_auth c) (rc_default_headers c) = Inr h"
    and "valid_value rules (rce_etag e)" and "rce_etag e \<noteq> []"
    and "rc_cache_ttl c = Some ttl" and "map_of (rt_cache st) (rc_base_url c @ ra_path a) = Some e"
    and "now - rce_timestamp e < ttl"
    and "fst (doc (full_url (rc_base_url c @ ra_path a) (ra_query a))) = rce_etag e"
  shows "request_json rules c (rust_server doc) None None key now later from_slice from_value a st =
     (rust_decode c from_slice from_value 304 (rce_data e), st\<lparr>rt_events := rt_events st @ [RequestStart, CacheHit]\<rparr>)"
proof -
  have not_candidate: "\<not> rust_idempotency_candidate ''GET''" by (simp add: rust_idempotency_candidate_def)
  have hit: "rust_lookup c now a (rt_cache st) = Some e"
    using assms(1,7-9) by (simp add: rust_lookup_def rust_cache_get_def)
  have "rust_build_headers rules c False None (Some (rce_etag e)) 0 = Inr (hm_insert ''if-none-match'' (rce_etag e) h)"
    using assms(4,5) by (simp add: rust_build_headers_def insert_missing_def hm_set_value_def)
  then have once: "rust_do_once rules c (rust_server doc) ''GET'' (rc_base_url c @ ra_path a) (ra_query a) None None (Some (rce_etag e)) 0
      = (Inr ([], 304, response_etag \<lparr>rs_status = 304, rs_headers = [(''etag'', [rce_etag e])], rs_body = []\<rparr>), [])"
    using assms(3,6,10)
    by (simp add: rust_do_once_def rust_compose_def rust_server_def case_prod_beta hm_get_def hm_insert_def map_laws)
  then have run: "do_with_retry rules c (rust_server doc) ''GET'' (rc_base_url c @ ra_path a) (ra_query a) None None (Some (rce_etag e))
      = (Inr ([], 304, response_etag \<lparr>rs_status = 304, rs_headers = [(''etag'', [rce_etag e])], rs_body = []\<rparr>), 1, [])"
    by (simp add: do_with_retry_def Let_def retry_loop.simps)
  show ?thesis
    using assms(1,2,7) hit run not_candidate by (simp add: request_json_def Let_def rust_settle_def)
qed

definition plain_rust_client :: rust_client where
  "plain_rust_client = \<lparr>rc_base_url = ''https://h'', rc_auth = RustNoAuth, rc_default_headers = [], rc_retry = rust_default_retry,
     rc_idempotency = True, rc_cache_ttl = Some 60, rc_middlewares = [], rc_transformers = [], rc_interceptors = []\<rparr>"

definition lax_rules :: http_rules where
  "lax_rules = \<lparr>valid_name = (\<lambda>n. True), valid_value = (\<lambda>v. True)\<rparr>"

text \<open>The second page is asked for, the first one is returned.\<close>

theorem rust_cache_ignores_query_witness:
  "fst (request_json lax_rules plain_rust_client (rust_server (\<lambda>u. (''v1'', if u = ''https://h/pets?page=1'' then ''1'' else ''2'')))
      None None [] 10 11 (\<lambda>t. Inr (JString t)) Inr
      \<lparr>ra_method = ''GET'', ra_path = ''/pets'', ra_query = [(''page'', ''2'')], ra_body = None\<rparr>
      \<lparr>rt_cache = [(''https://h/pets'', \<lparr>rce_etag = ''v1'', rce_data = ''1'', rce_timestamp = 0\<rparr>)], rt_events = []\<rparr>)
   = Inr (JString ''1'')"
  using rust_cache_ignores_query [of
      "\<lparr>ra_method = ''GET'', ra_path = ''/pets'', ra_query = [(''page'', ''2'')], ra_body = None\<rparr>" plain_rust_client lax_rules
      "[]" "\<lparr>rce_etag = ''v1'', rce_data = ''1'', rce_timestamp = 0\<rparr>" 60
      "\<lparr>rt_cache = [(''https://h/pets'', \<lparr>rce_etag = ''v1'', rce_data = ''1'', rce_timestamp = 0\<rparr>)], rt_events = []\<rparr>" 10
      "\<lambda>u. (''v1'', if u = ''https://h/pets?page=1'' then ''1'' else ''2'')" "[]" 11 "\<lambda>t. Inr (JString t)" Inr]
  by (simp add: plain_rust_client_def lax_rules_def rust_decode_def)

theorem rust_requests_bounded_witness:
  "fst (snd (do_with_retry lax_rules plain_rust_client (\<lambda>k req. Inr \<lparr>rs_status = 503, rs_headers = [], rs_body = ''timeout''\<rparr>)
     ''POST'' ''https://h/timeouts'' [] (Some ''{}'') None None)) = 1"
  using rust_requests_bounded [of lax_rules plain_rust_client
      "\<lambda>k req. Inr \<lparr>rs_status = 503, rs_headers = [], rs_body = ''timeout''\<rparr>" "''POST''" "''https://h/timeouts''" "[]"
      "Some ''{}''" None None]
  by (simp add: plain_rust_client_def rust_retriable_method_def)

end
