(* ===== verification/Sdk_Limits.thy ===== *)
theory Sdk_Limits
  imports Ts_Sync
begin

text \<open>
  The limiters of the Go and Rust runtimes (\<open>emit_ratelimit\<close> and \<open>emit_concurrency\<close> of crates/specforge-go/src/lib.rs,
  \<open>emit_ratelimit\<close> of crates/specforge-rust/src/lib.rs): sliding windows, token buckets, the semaphore of Go, and the
  mutex of the Go limiters when a caller is cancelled.

  A turn is what one caller does between locking and unlocking the limiter: it is let through, told to wait, or it crashes.
  The clock is an integer of nanoseconds that is read twice in a turn; the mutex makes the turns of all callers a sequence.
  The locale \<open>token_policy\<close> is the contract of a token bucket, interpreted for the buckets of all three languages.
\<close>

section \<open>Sliding windows\<close>

datatype turn = Granted | Waits int | Spins | Crashes string

definition go_evict :: "int \<Rightarrow> int \<Rightarrow> int list \<Rightarrow> int list" where
  "go_evict window now requests = dropWhile (\<lambda>t. \<not> now - window < t) requests"

text \<open>The clock is read by \<open>evict\<close>, and again for the wait or the entry. \<open>requests[0]\<close> of an empty list panics.\<close>

definition go_window_turn :: "int \<Rightarrow> int \<Rightarrow> int \<times> int \<Rightarrow> int list \<Rightarrow> int list \<times> turn" where
  "go_window_turn max_requests window clock requests =
     (let requests = go_evict window (fst clock) requests in
      if max_requests \<le> int (length requests)
      then (case requests of
              [] \<Rightarrow> (requests, Crashes ''index out of range'')
            | oldest # _ \<Rightarrow> (requests, Waits (window - (snd clock - oldest))))
      else (requests @ [snd clock], Granted))"

text \<open>\<open>Duration\<close> subtraction panics below zero; without an oldest request the loop is entered again at once.\<close>

definition rust_window_turn :: "nat \<Rightarrow> int \<Rightarrow> int \<times> int \<Rightarrow> int list \<Rightarrow> int list \<times> turn" where
  "rust_window_turn max_requests window clock requests =
     (let requests = filter (\<lambda>t. fst clock - window < t) requests in
      if length requests < max_requests then (requests @ [snd clock], Granted)
      else (case requests of
              [] \<Rightarrow> (requests, Spins)
            | oldest # _ \<Rightarrow>
                (let elapsed = max 0 (snd clock - oldest) in
                 (requests, if window < elapsed then Crashes ''overflow when subtracting durations''
                            else Waits (window - elapsed)))))"

text \<open>The turns of all callers in their order, and the moments at which one was let through.\<close>

fun window_run :: "(int \<times> int \<Rightarrow> int list \<Rightarrow> int list \<times> turn) \<Rightarrow> (int \<times> int) list \<Rightarrow> int list \<Rightarrow> int list" where
  "window_run step [] requests = []"
| "window_run step (clock # clocks) requests =
     (case step clock requests of
        (requests', Granted) \<Rightarrow> snd clock # window_run step clocks requests'
      | (requests', _) \<Rightarrow> window_run step clocks requests')"

text \<open>A clock that does not go back.\<close>

fun clock_ok :: "int \<Rightarrow> (int \<times> int) list \<Rightarrow> bool" where
  "clock_ok t [] = True"
| "clock_ok t (c # cs) = (t \<le> fst c \<and> fst c \<le> snd c \<and> clock_ok (snd c) cs)"

lemma filter_is_evict: "sorted requests \<Longrightarrow> filter (\<lambda>t. now - window < t) requests = go_evict window now requests"
proof (induction requests)
  case (Cons t ts)
  show ?case
  proof (cases "now - window < t")
    case True
    with Cons.prems have "\<forall>u \<in> set (t # ts). now - window < u" by auto
    then show ?thesis by (simp add: go_evict_def)
  qed (use Cons in \<open>simp add: go_evict_def\<close>)
qed (simp add: go_evict_def)

lemma go_evict_simps [simp]: "go_evict window now [] = []"
  by (simp add: go_evict_def)

lemma evict_head: "go_evict window now requests = oldest # rest \<Longrightarrow> now - window < oldest"
  by (metis go_evict_def hd_dropWhile list.distinct(1) list.sel(1))

lemma evict_split: "\<exists>old. requests = old @ go_evict window now requests \<and> (\<forall>t \<in> set old. t \<le> now - window)"
  unfolding go_evict_def
  by (rule exI [of _ "takeWhile (\<lambda>t. \<not> now - window < t) requests"]) (auto dest: set_takeWhileD)

text \<open>
  The Go and the Rust window decide alike: on the same requests and the same two readings of the clock they let a
  caller through or make it wait for the same time, except that the Rust one panics when the oldest request expires
  between the two readings.
\<close>

theorem sdk_windows_agree:
  assumes "sorted requests" and "\<forall>t \<in> set requests. t \<le> fst clock" and "fst clock \<le> snd clock" and "0 < max_requests"
  shows "rust_window_turn max_requests window clock requests =
    (case go_window_turn (int max_requests) window clock requests of
       (requests', Waits w) \<Rightarrow> (requests', if w < 0 then Crashes ''overflow when subtracting durations'' else Waits w)
     | decided \<Rightarrow> decided)"
proof -
  let ?rs = "go_evict window (fst clock) requests"
  have "t \<le> snd clock" if "t \<in> set ?rs" for t
    using that assms(2,3) unfolding go_evict_def by (meson order_trans set_dropWhileD)
  moreover have "?rs \<noteq> []" if "\<not> length ?rs < max_requests" using that assms(4) by auto
  ultimately show ?thesis
    unfolding rust_window_turn_def go_window_turn_def filter_is_evict [OF assms(1)] Let_def
    by (cases ?rs) (auto simp: max_def)
qed

theorem sdk_windows_agree_witness:
  "rust_window_turn 1 1000 (999, 1001) [0] = ([0], Crashes ''overflow when subtracting durations'') \<and>
   go_window_turn 1 1000 (999, 1001) [0] = ([0], Waits (- 1)) \<and>
   rust_window_turn 1 1000 (400, 401) [0] = ([0], Waits 599)"
  using sdk_windows_agree [of "[0]" "(999, 1001)" 1 1000] sdk_windows_agree [of "[0]" "(400, 401)" 1 1000]
  by (simp add: go_window_turn_def go_evict_def Let_def)

lemma window_run_suffix:
  assumes "clock_ok now clocks" and "0 < max_requests"
    and "grants = old @ requests" and "\<forall>t \<in> set old. t \<le> now - window"
    and "length requests \<le> max_requests"
    and "\<forall>i. i + max_requests < length grants \<longrightarrow> grants ! i + window \<le> grants ! (i + max_requests)"
  shows "\<forall>i. i + max_requests < length (grants @ window_run (go_window_turn (int max_requests) window) clocks requests) \<longrightarrow>
    (grants @ window_run (go_window_turn (int max_requests) window) clocks requests) ! i + window \<le>
    (grants @ window_run (go_window_turn (int max_requests) window) clocks requests) ! (i + max_requests)"
  using assms
proof (induction clocks arbitrary: now grants old requests)
  case (Cons c cs)
  let ?rs = "go_evict window (fst c) requests"
  obtain gone where gone: "requests = gone @ ?rs" "\<forall>t \<in> set gone. t \<le> fst c - window" using evict_split by blast
  have older: "\<forall>t \<in> set (old @ gone). t \<le> snd c - window"
    using Cons.prems(1,4) gone(2) by fastforce
  show ?case
  proof (cases "length ?rs < max_requests")
    case True
    have index: "(grants @ [snd c]) ! i + window \<le> (grants @ [snd c]) ! (i + max_requests)"
      if i: "i + max_requests < length (grants @ [snd c])" for i
    proof (cases "i + max_requests < length grants")
      case False
      with i have n: "i + max_requests = length grants" by simp
      have "length (old @ gone) + length ?rs = length grants"
        using arg_cong [OF gone(1), of length] by (simp add: Cons.prems(3))
      with True n have "i < length (old @ gone)" by linarith
      moreover have "grants ! i = (old @ gone) ! i"
        using \<open>i < length (old @ gone)\<close> gone(1) by (metis Cons.prems(3) append.assoc nth_append)
      ultimately have "grants ! i \<le> snd c - window" using older by (metis nth_mem)
      then show ?thesis using n Cons.prems(2) by (simp add: nth_append)
    qed (use Cons.prems(6) in \<open>simp add: nth_append\<close>)
    have run: "window_run (go_window_turn (int max_requests) window) (c # cs) requests =
        snd c # window_run (go_window_turn (int max_requests) window) cs (?rs @ [snd c])"
      using True by (simp add: go_window_turn_def Let_def)
    have "grants @ [snd c] = (old @ gone) @ (?rs @ [snd c])" using gone(1) Cons.prems(3) by simp
    from Cons.IH [OF _ Cons.prems(2) this older] Cons.prems(1) True index show ?thesis
      unfolding run by simp
  next
    case False
    then obtain oldest rest where rs: "?rs = oldest # rest" using Cons.prems(2) by (cases ?rs) auto
    with False have run: "window_run (go_window_turn (int max_requests) window) (c # cs) requests =
        window_run (go_window_turn (int max_requests) window) cs ?rs"
      by (simp add: go_window_turn_def Let_def)
    have "grants = (old @ gone) @ ?rs" using gone(1) Cons.prems(3) by simp
    moreover have "length ?rs \<le> max_requests" using arg_cong [OF gone(1), of length] Cons.prems(5) by simp
    ultimately show ?thesis
      unfolding run using Cons.prems(1,2,6) by (intro Cons.IH [OF _ _ _ older]) auto
  qed
qed simp

text \<open>
  C26. The sliding window of the Go runtime keeps its limit, however many callers wait and wake: a request and the one
  \<open>max\<close> requests after it are at least a window apart, so no stretch shorter than the window has more than \<open>max\<close> requests.
\<close>

theorem go_window_keeps_limit:
  assumes "clock_ok start clocks" and "0 < max_requests"
    and "grants = window_run (go_window_turn (int max_requests) window) clocks []"
    and "i + max_requests < length grants"
  shows "grants ! i + window \<le> grants ! (i + max_requests)"
  using window_run_suffix [OF assms(1,2), of "[]" "[]" "[]" window] assms(3,4) by simp

theorem go_window_keeps_limit_witness:
  "window_run (go_window_turn 2 1000) [(0, 0), (1, 2), (3, 3), (1001, 1001)] [] = [0, 2, 1001] \<and>
   [0, 2, 1001] ! 0 + 1000 \<le> ([0, 2, 1001] ! 2 :: int)"
proof -
  have run: "window_run (go_window_turn 2 1000) [(0, 0), (1, 2), (3, 3), (1001, 1001)] [] = [0, 2, 1001]"
    by (simp add: go_window_turn_def go_evict_def)
  have "[0, 2, 1001] ! 0 + 1000 \<le> ([0, 2, 1001] ! (0 + 2) :: int)"
  proof (rule go_window_keeps_limit)
    show "clock_ok 0 [(0, 0), (1, 2), (3, 3), (1001, 1001)]" by simp
    show "[0, 2, 1001] = window_run (go_window_turn (int 2) 1000) [(0, 0), (1, 2), (3, 3), (1001, 1001)] []"
      using run by simp
  qed simp_all
  with run show ?thesis by simp
qed

section \<open>Token buckets\<close>

text \<open>The turns of all callers at the given moments, and the number of requests let through.\<close>

fun bucket_turns :: "(int \<Rightarrow> 's \<Rightarrow> 's \<times> bool) \<Rightarrow> int list \<Rightarrow> 's \<Rightarrow> 's \<times> nat" where
  "bucket_turns step [] s = (s, 0)"
| "bucket_turns step (now # moments) s =
     (case step now s of (s', passed) \<Rightarrow>
        (case bucket_turns step moments s' of (s'', n) \<Rightarrow> (s'', n + (if passed then 1 else 0))))"

text \<open>
  What a bucket promises of a turn: a request let through costs a token, the balance grows by at most the speed times
  the time passed, and stays between zero and the capacity.
\<close>

locale token_policy =
  fixes tokens :: "'s \<Rightarrow> rat" and last_refill :: "'s \<Rightarrow> int" and step :: "int \<Rightarrow> 's \<Rightarrow> 's \<times> bool"
    and capacity :: rat and speed :: rat
  assumes spend: "step now s = (s', passed) \<Longrightarrow> last_refill s' = now \<and>
      tokens s' + (if passed then 1 else 0) \<le> tokens s + of_int (now - last_refill s) * speed"
    and range: "step now s = (s', passed) \<Longrightarrow> 0 \<le> speed \<Longrightarrow> 0 \<le> capacity \<Longrightarrow> last_refill s \<le> now \<Longrightarrow> 0 \<le> tokens s \<Longrightarrow>
      0 \<le> tokens s' \<and> tokens s' \<le> capacity"
begin

lemma turns_spend:
  "bucket_turns step moments s = (s', n) \<Longrightarrow>
   tokens s' + of_nat n \<le> tokens s + of_int (last (last_refill s # moments) - last_refill s) * speed"
proof (induction moments arbitrary: s s' n)
  case (Cons now moments)
  obtain s1 passed where t: "step now s = (s1, passed)" by force
  obtain s2 m where u: "bucket_turns step moments s1 = (s2, m)" by force
  have bn: "s' = s2" "n = m + (if passed then 1 else 0)" using Cons.prems t u by auto
  have l: "last (now # moments) = last (last_refill s # now # moments)" by simp
  show ?case
    using spend [OF t] Cons.IH [OF u] unfolding bn l [symmetric] by (auto simp: algebra_simps split: if_splits)
qed simp

lemma turns_range:
  assumes "0 \<le> speed" "0 \<le> capacity"
  shows "bucket_turns step moments s = (s', n) \<Longrightarrow> sorted (last_refill s # moments) \<Longrightarrow> 0 \<le> tokens s \<Longrightarrow>
    tokens s \<le> capacity \<Longrightarrow> 0 \<le> tokens s' \<and> tokens s' \<le> capacity"
proof (induction moments arbitrary: s s' n)
  case (Cons now moments)
  obtain s1 passed where t: "step now s = (s1, passed)" by force
  obtain s2 m where u: "bucket_turns step moments s1 = (s2, m)" by force
  have "s' = s2" using Cons.prems(1) t u by auto
  then show ?case using Cons.IH [OF u] Cons.prems(2-4) spend [OF t] range [OF t assms] by auto
qed simp

lemma granted_bound:
  assumes "bucket_turns step moments s = (s', n)" "tokens s = capacity" "0 \<le> speed" "0 \<le> capacity"
    "sorted (last_refill s # moments)"
  shows "of_nat n \<le> capacity + of_int (last (last_refill s # moments) - last_refill s) * speed"
    and "0 \<le> tokens s'" "tokens s' \<le> capacity"
  using turns_spend [OF assms(1)] turns_range [OF assms(3,4,1,5)] assms(2,4) by simp_all

end

text \<open>The bucket of the Go and Rust runtimes counts seconds from nanoseconds.\<close>

definition sdk_refill :: "rat \<Rightarrow> rat \<Rightarrow> int \<Rightarrow> token_bucket \<Rightarrow> token_bucket" where
  "sdk_refill max_tokens rate now b =
     \<lparr>tb_tokens = min max_tokens (tb_tokens b + of_int (now - tb_last_refill b) / 10 ^ 9 * rate), tb_last_refill = now\<rparr>"

definition sdk_bucket_turn :: "rat \<Rightarrow> rat \<Rightarrow> int \<Rightarrow> token_bucket \<Rightarrow> token_bucket \<times> bool" where
  "sdk_bucket_turn max_tokens rate now b =
     (let b = sdk_refill max_tokens rate now b in
      if tb_tokens b < 1 then (b, False) else (b\<lparr>tb_tokens := tb_tokens b - 1\<rparr>, True))"

text \<open>A caller polls every 100 milliseconds until it is let through: the moment, given the fuel of polls.\<close>

fun sdk_acquire_alone :: "nat \<Rightarrow> rat \<Rightarrow> rat \<Rightarrow> int \<Rightarrow> token_bucket \<Rightarrow> (int \<times> token_bucket) option" where
  "sdk_acquire_alone 0 max_tokens rate now b = None"
| "sdk_acquire_alone (Suc polls) max_tokens rate now b =
     (case sdk_bucket_turn max_tokens rate now b of
        (b', True) \<Rightarrow> Some (now, b')
      | (b', False) \<Rightarrow> sdk_acquire_alone polls max_tokens rate (now + 10 ^ 8) b')"

interpretation sdk_bucket: token_policy tb_tokens tb_last_refill "sdk_bucket_turn max_tokens rate" max_tokens "rate / 10 ^ 9"
  for max_tokens rate
  by unfold_locales (auto simp: sdk_bucket_turn_def sdk_refill_def Let_def min_def split: if_splits)

interpretation ts_bucket: token_policy tb_tokens tb_last_refill "tb_turn max_tokens rate" max_tokens "rate / 1000"
  for max_tokens rate
proof unfold_locales
  show "tb_last_refill s' = now \<and> tb_tokens s' + (if passed then 1 else 0) \<le>
      tb_tokens s + of_int (now - tb_last_refill s) * (rate / 1000)"
    if "tb_turn max_tokens rate now s = (s', passed)" for now s s' passed
    using tb_turn_bound [OF that] by (simp split: if_splits)
  show "0 \<le> tb_tokens s' \<and> tb_tokens s' \<le> max_tokens"
    if "tb_turn max_tokens rate now s = (s', passed)" "0 \<le> rate / 1000" "0 \<le> max_tokens" "tb_last_refill s \<le> now" "0 \<le> tb_tokens s"
    for now s s' passed
    using tb_turn_range [OF that(1)] that(2-5) by simp
qed

text \<open>
  The buckets of the Go and Rust runtimes let through at most their capacity and what the rate allows, as that of the
  TypeScript runtime does.
\<close>

theorem sdk_bucket_bound:
  assumes "0 \<le> rate" and "0 \<le> max_tokens" and "sorted (start # moments)"
    and "bucket_turns (sdk_bucket_turn max_tokens rate) moments (new_token_bucket max_tokens start) = (b, n)"
  shows "of_nat n \<le> max_tokens + of_int (last (start # moments) - start) / 10 ^ 9 * rate"
    and "0 \<le> tb_tokens b" "tb_tokens b \<le> max_tokens"
  using sdk_bucket.granted_bound [OF assms(4)] assms(1-3) by (simp_all add: new_token_bucket_def)

text \<open>Polling ends: with a rate that gives a token in \<open>k\<close> polls, a single caller is let through by then.\<close>

lemma sdk_acquire_polls:
  assumes "0 < rate" "1 \<le> max_tokens" "tb_last_refill b \<le> now"
  shows "1 \<le> tb_tokens b + of_int (now - tb_last_refill b) / 10 ^ 9 * rate + of_nat k / 10 * rate \<Longrightarrow>
    \<exists>r. sdk_acquire_alone (Suc k) max_tokens rate now b = Some r"
  using assms(3)
proof (induction k arbitrary: now b)
  case 0
  then show ?case using assms(2) by (simp add: sdk_bucket_turn_def sdk_refill_def Let_def)
next
  case (Suc k)
  show ?case
  proof (cases "snd (sdk_bucket_turn max_tokens rate now b)")
    case True
    then show ?thesis by (cases "sdk_bucket_turn max_tokens rate now b") simp
  next
    case False
    let ?b = "sdk_refill max_tokens rate now b"
    have low: "tb_tokens ?b < 1" using False by (auto simp: sdk_bucket_turn_def Let_def split: if_splits)
    then have t: "tb_tokens ?b = tb_tokens b + of_int (now - tb_last_refill b) / 10 ^ 9 * rate"
      using assms(2) by (auto simp: sdk_refill_def min_def split: if_splits)
    have "\<exists>r. sdk_acquire_alone (Suc k) max_tokens rate (now + 10 ^ 8) ?b = Some r"
    proof (rule Suc.IH)
      show "1 \<le> tb_tokens ?b + of_int (now + 10 ^ 8 - tb_last_refill ?b) / 10 ^ 9 * rate + of_nat k / 10 * rate"
        using Suc.prems(1) unfolding t by (simp add: sdk_refill_def field_simps)
    qed (simp add: sdk_refill_def)
    with low show ?thesis by (simp add: sdk_bucket_turn_def Let_def)
  qed
qed

theorem sdk_acquire_ends:
  assumes "0 < rate" "1 \<le> max_tokens" "tb_last_refill b \<le> now" "0 \<le> tb_tokens b"
  shows "\<exists>r. sdk_acquire_alone (Suc (nat \<lceil>10 / rate\<rceil>)) max_tokens rate now b = Some r"
proof (rule sdk_acquire_polls [OF assms(1-3)])
  have "0 \<le> \<lceil>10 / rate\<rceil>" using assms(1) ceiling_mono [of 0 "10 / rate"] by simp
  then have "10 / rate \<le> of_nat (nat \<lceil>10 / rate\<rceil>)" using le_of_int_ceiling [of "10 / rate"] by simp
  then have "1 \<le> of_nat (nat \<lceil>10 / rate\<rceil>) / 10 * rate" using assms(1) by (simp only: pos_divide_le_eq)
  moreover have "0 \<le> of_int (now - tb_last_refill b) / 10 ^ 9 * rate" using assms(1,3) by simp
  ultimately show "1 \<le> tb_tokens b + of_int (now - tb_last_refill b) / 10 ^ 9 * rate + of_nat (nat \<lceil>10 / rate\<rceil>) / 10 * rate"
    using assms(4) by linarith
qed

section \<open>The mutex of the Go limiters\<close>

text \<open>
  \<open>Acquire\<close> locks the mutex and defers its unlocking to every return. Its waiting loop unlocks before the \<open>select\<close> and locks
  again after it, but the branch of a cancelled context returns in between, so that the deferred \<open>Unlock\<close> runs on a mutex
  this caller does not hold. Unlocking a mutex that nobody holds ends a Go program; when another caller holds it, that
  caller loses it.
\<close>

datatype caller = Outside | Inside | Parked | Passed | Cancelled

record lock_system =
  lk_locked :: bool
  lk_callers :: "nat \<Rightarrow> caller"
  lk_crashed :: bool

definition lock_init :: lock_system where
  "lock_init = \<lparr>lk_locked = False, lk_callers = (\<lambda>_. Outside), lk_crashed = False\<rparr>"

datatype lock_event = Locks nat | Returns nat | Parks nat | Wakes nat | Cancels nat

definition set_caller :: "nat \<Rightarrow> caller \<Rightarrow> bool \<Rightarrow> lock_system \<Rightarrow> lock_system" where
  "set_caller i c locked s = s\<lparr>lk_callers := (lk_callers s)(i := c), lk_locked := locked\<rparr>"

inductive lock_step :: "lock_system \<Rightarrow> lock_event \<Rightarrow> lock_system \<Rightarrow> bool" where
  locks: "\<lbrakk>\<not> lk_crashed s; lk_callers s i = Outside; \<not> lk_locked s\<rbrakk> \<Longrightarrow> lock_step s (Locks i) (set_caller i Inside True s)"
| returns: "\<lbrakk>\<not> lk_crashed s; lk_callers s i = Inside\<rbrakk> \<Longrightarrow> lock_step s (Returns i) (set_caller i Passed False s)"
| parks: "\<lbrakk>\<not> lk_crashed s; lk_callers s i = Inside\<rbrakk> \<Longrightarrow> lock_step s (Parks i) (set_caller i Parked False s)"
| wakes: "\<lbrakk>\<not> lk_crashed s; lk_callers s i = Parked; \<not> lk_locked s\<rbrakk> \<Longrightarrow> lock_step s (Wakes i) (set_caller i Inside True s)"
| cancels: "\<lbrakk>\<not> lk_crashed s; lk_callers s i = Parked\<rbrakk> \<Longrightarrow>
     lock_step s (Cancels i)
       (if lk_locked s then set_caller i Cancelled False s else (set_caller i Cancelled False s)\<lparr>lk_crashed := True\<rparr>)"

inductive lock_run :: "lock_event list \<Rightarrow> lock_system \<Rightarrow> bool" where
  "lock_run [] lock_init"
| "lock_run es s \<Longrightarrow> lock_step s e s' \<Longrightarrow> lock_run (es @ [e]) s'"

inductive_cases lock_stepE: "lock_step s e s'"

definition excluded :: "lock_system \<Rightarrow> bool" where
  "excluded s \<longleftrightarrow> \<not> lk_crashed s \<and> (\<forall>i j. lk_callers s i = Inside \<longrightarrow> lk_callers s j = Inside \<longrightarrow> i = j) \<and>
     (lk_locked s \<longleftrightarrow> (\<exists>i. lk_callers s i = Inside))"

lemma excluded_init: "excluded lock_init"
  by (simp add: excluded_def lock_init_def)

lemma excluded_step: "excluded s \<Longrightarrow> lock_step s e s' \<Longrightarrow> (\<forall>i. e \<noteq> Cancels i) \<Longrightarrow> excluded s'"
  by (erule lock_stepE) (auto simp: excluded_def set_caller_def split: if_splits)

lemma run_excluded: "lock_run es s \<Longrightarrow> (\<forall>i. Cancels i \<notin> set es) \<Longrightarrow> excluded s"
proof (induction rule: lock_run.induct)
  case (2 es s e s')
  then have "excluded s" "\<forall>i. e \<noteq> Cancels i" by auto
  with 2(2) show ?case using excluded_step by blast
qed (rule excluded_init)

text \<open>
  C31. While no caller of a Go limiter is cancelled, at most one is between locking and unlocking and the process goes on;
  the first cancellation either ends the process or takes the lock from the caller that holds it.
\<close>

theorem go_limiter_lock:
  assumes "lock_run es s" and "\<forall>i. Cancels i \<notin> set es"
  shows "\<not> lk_crashed s \<and> (\<forall>i j. lk_callers s i = Inside \<longrightarrow> lk_callers s j = Inside \<longrightarrow> i = j) \<and>
    (\<forall>k s'. lock_step s (Cancels k) s' \<longrightarrow>
       (if \<exists>i. lk_callers s i = Inside then \<not> lk_locked s' \<and> (\<exists>i. lk_callers s' i = Inside) else lk_crashed s'))"
proof (intro conjI allI impI)
  have x: "excluded s" using run_excluded assms by blast
  then show "\<not> lk_crashed s" by (simp add: excluded_def)
  show "i = j" if "lk_callers s i = Inside" "lk_callers s j = Inside" for i j
    using x that by (auto simp: excluded_def)
  show "if \<exists>i. lk_callers s i = Inside then \<not> lk_locked s' \<and> (\<exists>i. lk_callers s' i = Inside) else lk_crashed s'"
    if "lock_step s (Cancels k) s'" for k s'
    using that
  proof (cases rule: lock_step.cases)
    case cancels
    have "i \<noteq> k" if "lk_callers s i = Inside" for i using that cancels by auto
    with cancels x show ?thesis by (auto simp: excluded_def set_caller_def)
  qed
qed

text \<open>With one cancellation two callers can be inside at once: the third enters while the second still is.\<close>

lemma lock_run_snoc: "lock_run es s \<Longrightarrow> lock_step s e s' \<Longrightarrow> lock_run (es @ [e]) s'"
  by (rule lock_run.intros(2))

lemma cancelled_caller_breaks_lock:
  "\<exists>s. lock_run [Locks 0, Parks 0, Locks 1, Cancels 0, Locks 2] s \<and> lk_callers s 1 = Inside \<and> lk_callers s 2 = Inside"
proof -
  define s1 where "s1 = set_caller 0 Inside True lock_init"
  define s2 where "s2 = set_caller 0 Parked False s1"
  define s3 where "s3 = set_caller 1 Inside True s2"
  define s4 where "s4 = set_caller 0 Cancelled False s3"
  define s5 where "s5 = set_caller 2 Inside True s4"
  note defs = s1_def s2_def s3_def s4_def s5_def set_caller_def lock_init_def
  have "lock_step lock_init (Locks 0) s1" "lock_step s1 (Parks 0) s2" "lock_step s2 (Locks 1) s3" "lock_step s4 (Locks 2) s5"
    unfolding s1_def s2_def s3_def s4_def s5_def by (rule lock_step.intros; simp add: set_caller_def lock_init_def)+
  moreover have "lock_step s3 (Cancels 0) s4"
    using lock_step.cancels [of s3 0] by (simp add: defs)
  ultimately have "lock_run ([] @ [Locks 0] @ [Parks 0] @ [Locks 1] @ [Cancels 0] @ [Locks 2]) s5"
    using lock_run_snoc [OF lock_run_snoc [OF lock_run_snoc [OF lock_run_snoc [OF lock_run_snoc [OF lock_run.intros(1)]]]]] by simp
  then show ?thesis by (intro exI [of _ s5]) (simp add: s5_def s4_def s3_def set_caller_def)
qed

theorem go_limiter_lock_witness:
  "\<exists>s s'. lock_run [Locks 0, Parks 0] s \<and> lock_step s (Cancels 0) s' \<and> lk_crashed s'"
proof -
  define s where "s = set_caller 0 Parked False (set_caller 0 Inside True lock_init)"
  have "lock_step lock_init (Locks 0) (set_caller 0 Inside True lock_init)"
    "lock_step (set_caller 0 Inside True lock_init) (Parks 0) s"
    unfolding s_def by (rule lock_step.intros; simp add: set_caller_def lock_init_def)+
  then have run: "lock_run [Locks 0, Parks 0] s"
    using lock_run_snoc [OF lock_run_snoc [OF lock_run.intros(1)]] by simp
  have step: "lock_step s (Cancels 0) ((set_caller 0 Cancelled False s)\<lparr>lk_crashed := True\<rparr>)"
    using lock_step.cancels [of s 0] by (simp add: s_def set_caller_def lock_init_def)
  have "\<not> (\<exists>i. lk_callers s i = Inside)" by (auto simp: s_def set_caller_def lock_init_def)
  with go_limiter_lock [OF run] step
  have "lk_crashed ((set_caller 0 Cancelled False s)\<lparr>lk_crashed := True\<rparr>)" by auto
  with run step show ?thesis by blast
qed

section \<open>The semaphore of the Go runtime\<close>

text \<open>A buffered channel: \<open>Acquire\<close> sends when there is room, \<open>Release\<close> receives when there is something.\<close>

definition go_new_semaphore :: "int \<Rightarrow> (string, nat \<times> nat) result" where
  "go_new_semaphore n = (if n \<le> 0 then Err ''max concurrent must be > 0'' else Ok (nat n, 0))"

definition go_sem_acquire :: "nat \<times> nat \<Rightarrow> (nat \<times> nat) option" where
  "go_sem_acquire s = (if snd s < fst s then Some (fst s, Suc (snd s)) else None)"

definition go_sem_release :: "nat \<times> nat \<Rightarrow> nat \<times> nat" where
  "go_sem_release s = (fst s, snd s - 1)"

text \<open>Callers that hold a slot; a release after an \<open>Acquire\<close> that failed is \<open>StrayRelease\<close>.\<close>

datatype sem_event = Enters nat | Leaves nat | StrayRelease

inductive sem_trace :: "nat \<times> nat \<Rightarrow> sem_event list \<Rightarrow> nat \<times> nat \<Rightarrow> nat set \<Rightarrow> bool" for s0 where
  "sem_trace s0 [] s0 {}"
| "sem_trace s0 es s held \<Longrightarrow> i \<notin> held \<Longrightarrow> go_sem_acquire s = Some s' \<Longrightarrow> sem_trace s0 (es @ [Enters i]) s' (insert i held)"
| "sem_trace s0 es s held \<Longrightarrow> i \<in> held \<Longrightarrow> sem_trace s0 (es @ [Leaves i]) (go_sem_release s) (held - {i})"
| "sem_trace s0 es s held \<Longrightarrow> sem_trace s0 (es @ [StrayRelease]) (go_sem_release s) held"

lemma sem_trace_count:
  "sem_trace s0 es s held \<Longrightarrow> snd s0 = 0 \<Longrightarrow> StrayRelease \<notin> set es \<Longrightarrow>
   fst s = fst s0 \<and> finite held \<and> snd s = card held \<and> card held \<le> fst s0"
  by (induction rule: sem_trace.induct)
    (auto simp: go_sem_acquire_def go_sem_release_def card_insert_if split: if_splits)

text \<open>
  Callers that release only what they acquired keep the limit; the release after a failed \<open>Acquire\<close>, which the code's comment
  calls safe, gives away the slot of another caller.
\<close>

theorem go_semaphore_limit:
  assumes "go_new_semaphore n = Ok s0" and "sem_trace s0 es s held" and "StrayRelease \<notin> set es"
  shows "card held \<le> nat n"
  using assms sem_trace_count [OF assms(2)] by (auto simp: go_new_semaphore_def split: if_splits)

lemma stray_release_overruns:
  "\<exists>s. sem_trace (1, 0) [Enters 0, StrayRelease, Enters 1] s {0, 1}"
proof -
  have a: "sem_trace (1, 0) [Enters 0] (1, 1) {0}"
    using sem_trace.intros(2) [OF sem_trace.intros(1), of 0] by (simp add: go_sem_acquire_def)
  have b: "sem_trace (1, 0) [Enters 0, StrayRelease] (1, 0) {0}"
    using sem_trace.intros(4) [OF a] by (simp add: go_sem_release_def)
  show ?thesis
    using sem_trace.intros(2) [OF b, of 1 "(1, 1)"] by (auto simp: go_sem_acquire_def insert_commute)
qed

end
