(* ===== verification/Sdk_Dedup.thy ===== *)
theory Sdk_Dedup
  imports Prelude
begin

text \<open>
  Sharing of requests in the Go and Rust runtimes (\<open>emit_dedup\<close> of crates/specforge-go/src/lib.rs and
  crates/specforge-rust/src/lib.rs) as a step relation: concurrent callers of one key, of which the first runs the request
  and the others wait for its result. Keys do not interact, so one is modelled. A step is what a caller does under the lock
  of the map, or at one suspension point.

  The runtimes differ in one place, the parameter \<open>enter\<close>: what a caller becomes that finds a call under its key. In Go it
  waits for the call's \<open>WaitGroup\<close>; in Rust it subscribes to a broadcast channel, which gives a subscriber only what is
  sent after it has subscribed. A result is what the waiting callers are given; in Rust an error reaches them as its text.
\<close>

section \<open>Callers and calls\<close>

text \<open>A caller of call \<open>c\<close>: the one that runs it (\<open>Leads\<close>, then \<open>Clears\<close> until the entry is removed), one that waits.\<close>

datatype 'r sharer =
    Fresh
  | Leads nat
  | Clears nat 'r
  | Joins nat
  | Late nat
  | Got nat 'r
  | ChannelClosed nat
  | Dead nat

record 'r sharing =
  sh_inflight :: "nat option"
  sh_done :: "nat \<Rightarrow> 'r option"
  sh_next :: nat
  sh_callers :: "nat \<Rightarrow> 'r sharer"

definition new_deduper :: "'r sharing" where
  "new_deduper = \<lparr>sh_inflight = None, sh_done = (\<lambda>_. None), sh_next = 0, sh_callers = (\<lambda>_. Fresh)\<rparr>"

definition go_enter :: "'r sharing \<Rightarrow> nat \<Rightarrow> 'r sharer" where
  "go_enter s c = Joins c"

definition rust_enter :: "'r sharing \<Rightarrow> nat \<Rightarrow> 'r sharer" where
  "rust_enter s c = (if sh_done s c = None then Joins c else Late c)"

abbreviation become :: "nat \<Rightarrow> 'r sharer \<Rightarrow> 'r sharing \<Rightarrow> 'r sharing" where
  "become i x s \<equiv> s\<lparr>sh_callers := (sh_callers s)(i := x)\<rparr>"

datatype 'r share_event = Arrives nat | Finishes nat 'r | Removes nat | Receives nat | Closes nat | Dies nat

text \<open>\<open>Dies\<close>: the request panics (Go), or the future of its caller is dropped (Rust).\<close>

inductive share_step ::
  "('r sharing \<Rightarrow> nat \<Rightarrow> 'r sharer) \<Rightarrow> 'r sharing \<Rightarrow> 'r share_event \<Rightarrow> 'r sharing \<Rightarrow> bool" for enter where
  joins: "\<lbrakk>sh_callers s i = Fresh; sh_inflight s = Some c\<rbrakk> \<Longrightarrow> share_step enter s (Arrives i) (become i (enter s c) s)"
| leads: "\<lbrakk>sh_callers s i = Fresh; sh_inflight s = None\<rbrakk> \<Longrightarrow>
     share_step enter s (Arrives i) ((become i (Leads (sh_next s)) s)\<lparr>sh_inflight := Some (sh_next s), sh_next := Suc (sh_next s)\<rparr>)"
| finishes: "sh_callers s i = Leads c \<Longrightarrow> share_step enter s (Finishes i r) ((become i (Clears c r) s)\<lparr>sh_done := (sh_done s)(c \<mapsto> r)\<rparr>)"
| removes: "sh_callers s i = Clears c r \<Longrightarrow> share_step enter s (Removes i) ((become i (Got c r) s)\<lparr>sh_inflight := None\<rparr>)"
| receives: "\<lbrakk>sh_callers s i = Joins c; sh_done s c = Some r\<rbrakk> \<Longrightarrow> share_step enter s (Receives i) (become i (Got c r) s)"
| closes: "\<lbrakk>sh_callers s i = Late c; sh_inflight s \<noteq> Some c\<rbrakk> \<Longrightarrow> share_step enter s (Closes i) (become i (ChannelClosed c) s)"
| dies: "sh_callers s i = Leads c \<Longrightarrow> share_step enter s (Dies i) (become i (Dead c) s)"

inductive share_run :: "('r sharing \<Rightarrow> nat \<Rightarrow> 'r sharer) \<Rightarrow> 'r share_event list \<Rightarrow> 'r sharing \<Rightarrow> bool" for enter where
  "share_run enter [] new_deduper"
| "share_run enter es s \<Longrightarrow> share_step enter s e s' \<Longrightarrow> share_run enter (es @ [e]) s'"

section \<open>The invariant\<close>

fun lead_of :: "'r sharer \<Rightarrow> nat option" where
  "lead_of (Leads c) = Some c"
| "lead_of (Clears c r) = Some c"
| "lead_of (Dead c) = Some c"
| "lead_of x = None"

fun caller_ok :: "'r sharing \<Rightarrow> 'r sharer \<Rightarrow> bool" where
  "caller_ok s (Leads c) \<longleftrightarrow> sh_inflight s = Some c \<and> sh_done s c = None"
| "caller_ok s (Dead c) \<longleftrightarrow> sh_inflight s = Some c \<and> sh_done s c = None"
| "caller_ok s (Clears c r) \<longleftrightarrow> sh_inflight s = Some c \<and> sh_done s c = Some r"
| "caller_ok s (Joins c) \<longleftrightarrow> sh_done s c \<noteq> None \<or> sh_inflight s = Some c"
| "caller_ok s (Got c r) \<longleftrightarrow> sh_done s c = Some r"
| "caller_ok s (Late c) \<longleftrightarrow> sh_done s c \<noteq> None"
| "caller_ok s (ChannelClosed c) \<longleftrightarrow> sh_done s c \<noteq> None"
| "caller_ok s Fresh \<longleftrightarrow> True"

definition sharing_ok :: "'r sharing \<Rightarrow> bool" where
  "sharing_ok s \<longleftrightarrow> (\<forall>i. caller_ok s (sh_callers s i)) \<and>
     (\<forall>i j. lead_of (sh_callers s i) \<noteq> None \<longrightarrow> lead_of (sh_callers s j) \<noteq> None \<longrightarrow> i = j) \<and>
     (\<forall>c. sh_inflight s = Some c \<longrightarrow> c < sh_next s \<and> (\<exists>i. lead_of (sh_callers s i) = Some c)) \<and>
     (\<forall>c. sh_done s c \<noteq> None \<longrightarrow> c < sh_next s)"

text \<open>What \<open>enter\<close> may be: both runtimes wait for the call found, or find that it is too late.\<close>

definition enter_ok :: "('r sharing \<Rightarrow> nat \<Rightarrow> 'r sharer) \<Rightarrow> bool" where
  "enter_ok enter \<longleftrightarrow> (\<forall>s c. enter s c = Joins c \<or> (enter s c = Late c \<and> sh_done s c \<noteq> None))"

lemma enters_ok: "enter_ok go_enter" "enter_ok rust_enter"
  by (auto simp: enter_ok_def go_enter_def rust_enter_def)

lemma lead_inflight: "caller_ok s x \<Longrightarrow> lead_of x = Some c \<Longrightarrow> sh_inflight s = Some c"
  by (cases x) auto

lemma caller_ok_mono:
  assumes "caller_ok s x" and "lead_of x = None" and "\<And>c r. sh_done s c = Some r \<Longrightarrow> sh_done s' c = Some r"
    and "\<And>c. sh_inflight s = Some c \<Longrightarrow> sh_inflight s' = Some c \<or> sh_done s' c \<noteq> None"
  shows "caller_ok s' x"
  using assms by (cases x) (force+)

lemma sharing_ok_init: "sharing_ok new_deduper"
  by (simp add: sharing_ok_def new_deduper_def)

text \<open>A step changes one caller, whose new state is checked; the others keep theirs.\<close>

lemma sharing_ok_update:
  assumes ok: "sharing_ok s" and callers: "sh_callers s' = (sh_callers s)(i := x)" and x: "caller_ok s' x"
    and lead: "lead_of x = None \<or> lead_of (sh_callers s i) \<noteq> None \<or> sh_inflight s = None"
    and mono: "\<And>c r. sh_done s c = Some r \<Longrightarrow> sh_done s' c = Some r"
    and inflight: "\<And>c. sh_inflight s = Some c \<Longrightarrow> sh_inflight s' = Some c \<or> sh_done s' c \<noteq> None"
    and others: "\<And>j. j \<noteq> i \<Longrightarrow> lead_of (sh_callers s j) \<noteq> None \<Longrightarrow> sh_inflight s' = sh_inflight s \<and> sh_done s' = sh_done s"
    and led: "\<And>c. sh_inflight s' = Some c \<Longrightarrow>
      c < sh_next s' \<and> (lead_of x = Some c \<or> (sh_inflight s = Some c \<and> lead_of (sh_callers s i) = None))"
    and next_done: "\<And>c. sh_done s' c \<noteq> None \<Longrightarrow> c < sh_next s'"
  shows "sharing_ok s'"
  unfolding sharing_ok_def
proof (intro conjI allI impI)
  note ok' = ok [unfolded sharing_ok_def]
  have nobody: "lead_of (sh_callers s j) = None" if "sh_inflight s = None" for j
    using ok' that lead_inflight by (metis not_None_eq)
  show "caller_ok s' (sh_callers s' j)" for j
  proof (cases "j = i")
    case False
    show ?thesis
    proof (cases "lead_of (sh_callers s j) = None")
      case True
      then show ?thesis using False ok' mono inflight callers by (auto intro: caller_ok_mono)
    next
      case lead: False
      then have "caller_ok s' (sh_callers s j) = caller_ok s (sh_callers s j)"
        using others [OF False] by (cases "sh_callers s j") auto
      then show ?thesis using False ok' callers by simp
    qed
  qed (simp add: callers x)
  show "j = k" if "lead_of (sh_callers s' j) \<noteq> None" "lead_of (sh_callers s' k) \<noteq> None" for j k
    using that ok' lead nobody callers by (auto split: if_splits)
  show "c < sh_next s'" if "sh_inflight s' = Some c" for c using led that by blast
  show "\<exists>j. lead_of (sh_callers s' j) = Some c" if "sh_inflight s' = Some c" for c
  proof (cases "lead_of x = Some c")
    case False
    then have "sh_inflight s = Some c" "lead_of (sh_callers s i) = None" using led [OF that] by auto
    then show ?thesis using ok' callers by (metis fun_upd_other option.distinct(1))
  qed (auto simp: callers)
  show "c < sh_next s'" if "sh_done s' c \<noteq> None" for c using next_done that by blast
qed

lemma sharing_ok_step:
  assumes "enter_ok enter" and ok: "sharing_ok s" and "share_step enter s e s'"
  shows "sharing_ok s'"
  using assms(3)
proof (cases rule: share_step.cases)
  note facts = ok [unfolded sharing_ok_def]
  case (joins i c)
  then have "enter s c = Joins c \<or> enter s c = Late c \<and> sh_done s c \<noteq> None" using assms(1) by (auto simp: enter_ok_def)
  with joins facts show ?thesis by (intro sharing_ok_update [OF ok, of _ i "enter s c"]) auto
next
  case (leads i)
  have "sh_done s (sh_next s) = None" using ok by (force simp: sharing_ok_def)
  moreover have "lead_of (sh_callers s j) = None" for j
    using ok leads(4) lead_inflight unfolding sharing_ok_def by (metis not_None_eq)
  ultimately show ?thesis using leads ok
    by (intro sharing_ok_update [OF ok, of _ i "Leads (sh_next s)"])
      (auto simp: sharing_ok_def less_Suc_eq)
next
  case (finishes i c r)
  have ok_i: "sh_inflight s = Some c" "sh_done s c = None" using ok finishes by (auto simp: sharing_ok_def dest: spec [of _ i])
  have "lead_of (sh_callers s j) = None" if "j \<noteq> i" for j
    using ok finishes(3) that unfolding sharing_ok_def by (metis lead_of.simps(1) option.distinct(1))
  with finishes ok ok_i show ?thesis
    by (intro sharing_ok_update [OF ok, of _ i "Clears c r"]) (auto simp: sharing_ok_def split: if_splits)
next
  case (removes i c r)
  have ok_i: "sh_inflight s = Some c" "sh_done s c = Some r" using ok removes by (auto simp: sharing_ok_def dest: spec [of _ i])
  have "lead_of (sh_callers s j) = None" if "j \<noteq> i" for j
    using ok removes(3) that unfolding sharing_ok_def by (metis lead_of.simps(2) option.distinct(1))
  with removes ok ok_i show ?thesis
    by (intro sharing_ok_update [OF ok, of _ i "Got c r"]) (auto simp: sharing_ok_def)
next
  case (receives i c r)
  with ok show ?thesis by (intro sharing_ok_update [OF ok, of _ i "Got c r"]) (auto simp: sharing_ok_def)
next
  case (closes i c)
  have "sh_done s c \<noteq> None" using ok closes by (auto simp: sharing_ok_def dest: spec [of _ i])
  with closes ok show ?thesis by (intro sharing_ok_update [OF ok, of _ i "ChannelClosed c"]) (auto simp: sharing_ok_def)
next
  case (dies i c)
  have "sh_inflight s = Some c" "sh_done s c = None" using ok dies by (auto simp: sharing_ok_def dest: spec [of _ i])
  with dies ok show ?thesis by (intro sharing_ok_update [OF ok, of _ i "Dead c"]) (auto simp: sharing_ok_def)
qed

lemma sharing_ok_run: "share_run enter es s \<Longrightarrow> enter_ok enter \<Longrightarrow> sharing_ok s"
  by (induction rule: share_run.induct) (auto intro: sharing_ok_init sharing_ok_step)

section \<open>What callers get\<close>

text \<open>
  However callers of a key interleave, at most one request is running, and whoever gets a result gets that of the call
  it found under the key, which is the one its leader got.
\<close>

theorem shared_results:
  assumes "share_run enter es s" and "enter \<in> {go_enter, rust_enter}"
  shows "(\<forall>i j c d. sh_callers s i = Leads c \<longrightarrow> sh_callers s j = Leads d \<longrightarrow> i = j) \<and>
    (\<forall>i j c r q. sh_callers s i = Got c r \<longrightarrow> sh_callers s j = Got c q \<longrightarrow> r = q)"
proof -
  have ok: "sharing_ok s" using sharing_ok_run [OF assms(1)] assms(2) enters_ok by auto
  show ?thesis
  proof (intro conjI allI impI)
    show "i = j" if "sh_callers s i = Leads c" "sh_callers s j = Leads d" for i j c d
      using ok that unfolding sharing_ok_def by (metis lead_of.simps(1) option.distinct(1))
    show "r = q" if "sh_callers s i = Got c r" "sh_callers s j = Got c q" for i j c r q
      using ok that unfolding sharing_ok_def by (metis caller_ok.simps(5) option.inject)
  qed
qed

lemma share_run_snoc: "share_run enter es s \<Longrightarrow> share_step enter s e s' \<Longrightarrow> share_run enter (es @ [e]) s'"
  by (rule share_run.intros(2))

text \<open>In Go nobody comes too late, and without a death in the runtime's request nobody is stuck.\<close>

lemma go_never_late: "share_run go_enter es s \<Longrightarrow> sh_callers s i \<noteq> Late c \<and> sh_callers s i \<noteq> ChannelClosed c"
proof (induction arbitrary: i c rule: share_run.induct)
  case (2 es s e s')
  from 2(2) show ?case using 2(3) by (cases rule: share_step.cases) (auto simp: go_enter_def)
qed (simp add: new_deduper_def)

lemma no_death: "share_run enter es s \<Longrightarrow> (\<forall>i. Dies i \<notin> set es) \<Longrightarrow> enter_ok enter \<Longrightarrow> sh_callers s i \<noteq> Dead c"
proof (induction arbitrary: i c rule: share_run.induct)
  case (2 es s e s')
  from 2(4) have e: "\<forall>i. e \<noteq> Dies i" and none: "\<forall>i c. sh_callers s i \<noteq> Dead c" using 2(3,5) by auto
  from 2(2) show ?case
    using e none 2(5) by (cases rule: share_step.cases) (auto simp: enter_ok_def, metis sharer.distinct sharer.simps)
qed (simp add: new_deduper_def)

lemma caller_cases:
  assumes "share_run go_enter es s" and "\<forall>i. Dies i \<notin> set es"
  obtains "sh_callers s i = Fresh" | c r where "sh_callers s i = Got c r" | c where "sh_callers s i = Joins c"
    | c where "sh_callers s i = Leads c" | c r where "sh_callers s i = Clears c r"
  using go_never_late [OF assms(1), of i] no_death [OF assms enters_ok(1), of i] by (cases "sh_callers s i") auto

text \<open>
  C35. Unless a request dies, no caller of the Go runtime waits in vain: while a caller has arrived and has no result, some
  running request can finish, some entry can be removed or some waiting caller can receive its result.
\<close>

theorem go_sharing_progress:
  assumes "share_run go_enter es s" and "\<forall>i. Dies i \<notin> set es"
    and "sh_callers s i \<noteq> Fresh" and "\<forall>c r. sh_callers s i \<noteq> Got c r"
  shows "\<exists>j e s'. share_step go_enter s e s' \<and> e \<in> {Finishes j r, Removes j, Receives j}"
proof -
  have ok: "sharing_ok s" using sharing_ok_run [OF assms(1) enters_ok(1)] .
  have leader: "\<exists>e s'. share_step go_enter s e s' \<and> e \<in> {Finishes j r, Removes j, Receives j}"
    if "lead_of (sh_callers s j) = Some d" for j d
    using that no_death [OF assms(1,2) enters_ok(1), of j]
    by (cases "sh_callers s j") (auto intro: share_step.finishes share_step.removes)
  from assms(1,2) show ?thesis
  proof (cases rule: caller_cases [where i = i])
    case (3 c)
    show ?thesis
    proof (cases "sh_done s c")
      case None
      have "caller_ok s (Joins c)" using ok 3 by (metis sharing_ok_def)
      then have "sh_inflight s = Some c" using None by simp
      then obtain j where "lead_of (sh_callers s j) = Some c" using ok unfolding sharing_ok_def by blast
      from leader [OF this] show ?thesis by blast
    next
      case (Some q)
      from share_step.receives [OF 3 this] show ?thesis by blast
    qed
  next
    case (4 c)
    then show ?thesis using leader [of i c] by auto
  next
    case (5 c q)
    then show ?thesis using leader [of i c] by auto
  qed (use assms(3,4) in auto)
qed

theorem go_sharing_progress_witness:
  "\<exists>s j e s'. share_run go_enter [Arrives 0, Arrives 1] s \<and> sh_callers s 1 = Joins 0 \<and>
     share_step go_enter s e s' \<and> e \<in> {Finishes j (7 :: nat), Removes j, Receives j}"
proof -
  let ?s1 = "(become 0 (Leads 0) new_deduper)\<lparr>sh_inflight := Some 0, sh_next := Suc 0\<rparr> :: nat sharing"
  let ?s2 = "become 1 (Joins 0) ?s1"
  have "share_step go_enter new_deduper (Arrives 0) ?s1"
    using share_step.leads [of new_deduper 0 go_enter] by (simp add: new_deduper_def)
  moreover have "share_step go_enter ?s1 (Arrives 1) ?s2"
    using share_step.joins [of ?s1 1 0 go_enter] by (simp add: new_deduper_def go_enter_def)
  ultimately have run: "share_run go_enter [Arrives 0, Arrives 1] ?s2"
    using share_run_snoc [OF share_run_snoc [OF share_run.intros(1)]] by simp
  from go_sharing_progress [OF run, of 1 7] run show ?thesis by (intro exI [of _ ?s2]) simp
qed

lemma stuck_step:
  assumes "enter_ok enter" and "sharing_ok s" and "sh_callers s k = Dead c" and "share_step enter s e s'"
  shows "sh_callers s' k = Dead c \<and> (\<forall>i. sh_callers s i \<in> {Fresh, Joins c} \<longrightarrow> sh_callers s' i \<in> {Fresh, Joins c})"
proof -
  have dead: "sh_inflight s = Some c" "sh_done s c = None"
    using assms(2,3) by (metis caller_ok.simps(2) sharing_ok_def)+
  have "enter s c = Joins c" using assms(1) dead(2) unfolding enter_ok_def by metis
  with assms(4) dead show ?thesis
    by (cases rule: share_step.cases) (use assms(3) in auto)
qed

inductive share_steps ::
  "('r sharing \<Rightarrow> nat \<Rightarrow> 'r sharer) \<Rightarrow> 'r sharing \<Rightarrow> 'r sharing \<Rightarrow> bool" for enter where
  "share_steps enter s s"
| "share_steps enter s s' \<Longrightarrow> share_step enter s' e s'' \<Longrightarrow> share_steps enter s s''"

lemma stuck_steps:
  "share_steps enter s s' \<Longrightarrow> enter_ok enter \<Longrightarrow> sharing_ok s \<Longrightarrow> sh_callers s k = Dead c \<Longrightarrow>
   sharing_ok s' \<and> sh_callers s' k = Dead c \<and> (\<forall>i. sh_callers s i \<in> {Fresh, Joins c} \<longrightarrow> sh_callers s' i \<in> {Fresh, Joins c})"
proof (induction rule: share_steps.induct)
  case (2 s s' e s'')
  then show ?case using stuck_step [of enter s' k c e s''] sharing_ok_step [of enter s' e s''] by auto
qed simp

text \<open>
  A dead request blocks its key for good: in Go when it panics, in Rust when the future of the caller that runs it is
  dropped. No caller that arrives later ever gets a result, whatever happens.
\<close>

theorem dead_request_blocks:
  assumes "share_run enter es s" and "enter \<in> {go_enter, rust_enter}" and "sh_callers s k = Dead c"
    and "share_steps enter s s'" and "sh_callers s i = Fresh"
  shows "sh_callers s' i \<in> {Fresh, Joins c}"
proof -
  have "enter_ok enter" using assms(2) enters_ok by auto
  with stuck_steps [OF assms(4) this sharing_ok_run [OF assms(1)] assms(3)] assms(5) show ?thesis by auto
qed

section \<open>Coming late in Rust\<close>

text \<open>
  In Rust a caller that arrives between the leader's send and the removal of the entry is told that the channel is
  closed, though the request succeeded: it fails without a request of its own. In Go the same caller gets the result.
\<close>

theorem late_caller_differs:
  assumes "sh_inflight s = Some c" and "sh_done s c = Some r" and "sh_callers s i = Fresh" and "sh_callers s k = Clears c r"
    and "i \<noteq> k"
  shows "\<exists>s1 s2 s3. share_step rust_enter s (Arrives i) s1 \<and> share_step rust_enter s1 (Removes k) s2 \<and>
      share_step rust_enter s2 (Closes i) s3 \<and> sh_callers s3 i = ChannelClosed c \<and> sh_callers s3 k = Got c r"
    and "\<exists>s1 s2. share_step go_enter s (Arrives i) s1 \<and> share_step go_enter s1 (Receives i) s2 \<and> sh_callers s2 i = Got c r"
proof -
  let ?s1 = "become i (Late c) s"
  let ?s2 = "(become k (Got c r) ?s1)\<lparr>sh_inflight := None\<rparr>"
  have "share_step rust_enter s (Arrives i) ?s1"
    using share_step.joins [OF assms(3,1), of rust_enter] assms(2) by (simp add: rust_enter_def)
  moreover have "share_step rust_enter ?s1 (Removes k) ?s2"
    using share_step.removes [of ?s1 k c r] assms(4,5) by simp
  moreover have "share_step rust_enter ?s2 (Closes i) (become i (ChannelClosed c) ?s2)"
    using assms(5) by (intro share_step.closes) auto
  ultimately show "\<exists>s1 s2 s3. share_step rust_enter s (Arrives i) s1 \<and> share_step rust_enter s1 (Removes k) s2 \<and>
      share_step rust_enter s2 (Closes i) s3 \<and> sh_callers s3 i = ChannelClosed c \<and> sh_callers s3 k = Got c r"
    using assms(5) by (intro exI conjI) auto
  let ?g = "become i (Joins c) s"
  have "share_step go_enter s (Arrives i) ?g"
    using share_step.joins [OF assms(3,1), of go_enter] by (simp add: go_enter_def)
  moreover have "share_step go_enter ?g (Receives i) (become i (Got c r) ?g)"
    using assms(2) by (intro share_step.receives) auto
  ultimately show "\<exists>s1 s2. share_step go_enter s (Arrives i) s1 \<and> share_step go_enter s1 (Receives i) s2 \<and> sh_callers s2 i = Got c r"
    by (intro exI conjI) auto
qed

end
