(* ===== verification/Sdk_Paginate.thy ===== *)
theory Sdk_Paginate
  imports Ts_Paginate
begin

text \<open>
  The paginators of the Go and Rust runtimes (\<open>emit_paginate\<close> of crates/specforge-go/src/lib.rs and
  crates/specforge-rust/src/lib.rs). A run is the list of the pages that were handed to \<open>handle\<close> and the result, and
  \<open>None\<close> when it goes on for ever. The server and the handler are parameters; the handler may fail on a page. The context
  of Go is looked at before each request and is cancelled from some request on, counted from zero.
\<close>

section \<open>Cursors\<close>

partial_function (option) go_cursor_paginate ::
  "(nat \<Rightarrow> 'e option) \<Rightarrow> (string option \<Rightarrow> ('e, 'a list \<times> string option) result) \<Rightarrow> ('a list \<Rightarrow> 'e option) \<Rightarrow> nat
     \<Rightarrow> string option \<Rightarrow> ('a list list \<times> ('e, unit) result) option" where
  "go_cursor_paginate ctx fetch handle n cursor =
     (case ctx n of
        Some e \<Rightarrow> Some ([], Err e)
      | None \<Rightarrow>
          (case fetch cursor of
             Inl e \<Rightarrow> Some ([], Err e)
           | Inr (items, next_cursor) \<Rightarrow>
               (case handle items of
                  Some e \<Rightarrow> Some ([items], Err e)
                | None \<Rightarrow>
                    if next_cursor = None \<or> next_cursor = Some [] then Some ([items], Ok ())
                    else Option.bind (go_cursor_paginate ctx fetch handle (Suc n) next_cursor)
                           (\<lambda>(pages, r). Some (items # pages, r)))))"

text \<open>The Rust loop has no context.\<close>

definition rust_cursor_paginate ::
  "(string option \<Rightarrow> ('e, 'a list \<times> string option) result) \<Rightarrow> ('a list \<Rightarrow> 'e option) \<Rightarrow> ('a list list \<times> ('e, unit) result) option" where
  "rust_cursor_paginate fetch handle = go_cursor_paginate (\<lambda>_. None) fetch handle 0 None"

section \<open>Offsets\<close>

text \<open>The offset is advanced by \<open>add\<close>: machine addition that does not overflow here in Go, \<open>saturating_add\<close> in Rust,
  where the number of items is \<open>len() as u32\<close> (\<open>len\<close>).\<close>

partial_function (option) offset_loop ::
  "('a list \<Rightarrow> nat) \<Rightarrow> (nat \<Rightarrow> nat \<Rightarrow> nat) \<Rightarrow> (nat \<Rightarrow> 'e option) \<Rightarrow> (nat \<Rightarrow> nat \<Rightarrow> ('e, 'a list) result) \<Rightarrow> ('a list \<Rightarrow> 'e option) \<Rightarrow> nat \<Rightarrow> nat
     \<Rightarrow> nat \<Rightarrow> ('a list list \<times> ('e, unit) result) option" where
  "offset_loop len add ctx fetch handle limit n offset =
     (case ctx n of
        Some e \<Rightarrow> Some ([], Err e)
      | None \<Rightarrow>
          (case fetch offset limit of
             Inl e \<Rightarrow> Some ([], Err e)
           | Inr items \<Rightarrow>
               (case handle items of
                  Some e \<Rightarrow> Some ([items], Err e)
                | None \<Rightarrow>
                    if len items < limit then Some ([items], Ok ())
                    else Option.bind (offset_loop len add ctx fetch handle limit (Suc n) (add offset (len items)))
                           (\<lambda>(pages, r). Some (items # pages, r)))))"

definition go_offset_paginate ::
  "(nat \<Rightarrow> 'e option) \<Rightarrow> int \<Rightarrow> (nat \<Rightarrow> nat \<Rightarrow> ('e, 'a list) result) \<Rightarrow> ('a list \<Rightarrow> 'e option)
     \<Rightarrow> ('a list list \<times> ('e, unit) result) option" where
  "go_offset_paginate ctx limit fetch handle =
     offset_loop length (+) ctx fetch handle (if limit \<le> 0 then 50 else nat limit) 0 0"

definition u32_saturating_add :: "nat \<Rightarrow> nat \<Rightarrow> nat" where
  "u32_saturating_add a b = min (2 ^ 32 - 1) (a + b)"

definition rust_offset_paginate ::
  "nat \<Rightarrow> (nat \<Rightarrow> nat \<Rightarrow> ('e, 'a list) result) \<Rightarrow> ('a list \<Rightarrow> 'e option) \<Rightarrow> ('a list list \<times> ('e, unit) result) option" where
  "rust_offset_paginate limit fetch handle =
     offset_loop (\<lambda>items. length items mod 2 ^ 32) u32_saturating_add (\<lambda>_. None) fetch handle (if limit = 0 then 50 else limit) 0 0"

section \<open>Against the TypeScript paginators\<close>

text \<open>Without failures the loops hand over the pages that the generators of the TypeScript runtime yield.\<close>

lemma cursor_chain_run:
  "cursor_chain fetch_page cursor pages \<Longrightarrow>
   go_cursor_paginate (\<lambda>_. None) (Inr \<circ> fetch_page) (\<lambda>_. None) n cursor = Some (pages, Ok ())"
proof (induction fetch_page cursor pages arbitrary: n rule: cursor_chain.induct)
  case (2 fetch_page cursor page)
  then show ?case by (subst go_cursor_paginate.simps) (auto split: prod.splits)
next
  case (3 fetch_page cursor page p ps)
  then obtain cu where cu: "snd (fetch_page cursor) = Some cu" "cu \<noteq> []" "cursor_chain fetch_page (Some cu) (p # ps)"
    and page: "fst (fetch_page cursor) = page" by auto
  from 3(1) [OF cu(3), of "Suc n"] cu page show ?case
    by (subst go_cursor_paginate.simps) (auto simp: comp_def split: prod.splits)
qed simp

theorem cursor_paginators_agree:
  assumes "cursorPaginator fetch_page None = Some pages"
  shows "rust_cursor_paginate (Inr \<circ> fetch_page) (\<lambda>_. None) = Some (pages, Ok ())"
    and "go_cursor_paginate (\<lambda>_. None) (Inr \<circ> fetch_page) (\<lambda>_. None) 0 None = Some (pages, Ok ())"
  using cursor_chain_run [OF cursor_paginator_chain [OF assms], of 0] by (simp_all add: rust_cursor_paginate_def)

text \<open>Against a server that holds a list, as long as its offsets fit the addition.\<close>

lemma offset_loop_complete:
  assumes "0 < limit" "limit \<le> cap" and "\<And>a. a + limit \<le> length xs \<Longrightarrow> add a limit = a + limit"
    and len: "\<And>ys. length ys \<le> length xs \<Longrightarrow> len ys = length ys"
  shows "\<exists>pages. offset_loop len add (\<lambda>_. None) (\<lambda>offset limit. Inr (list_server xs cap offset limit)) (\<lambda>_. None) limit n offset =
      Some (pages, Ok () :: ('e, unit) result) \<and> concat pages = drop offset xs \<and> offsetPaginator (list_server xs cap) limit offset = Some pages"
proof (induction "length xs - offset" arbitrary: offset n rule: less_induct)
  case less
  let ?items = "list_server xs cap offset limit"
  have items: "?items = take limit (drop offset xs)" using assms(2) by (simp add: list_server_def min_def)
  have n: "len ?items = length ?items" using items by (intro len) simp
  show ?case
  proof (cases "length ?items < limit")
    case True
    then have "concat [?items] = drop offset xs" using items by simp
    with True n show ?thesis by (subst offset_loop.simps, subst offsetPaginator.simps) (simp add: Let_def)
  next
    case False
    then have l: "length ?items = limit" "offset + limit \<le> length xs" using items assms(1) by auto
    then have "length xs - (offset + limit) < length xs - offset" using assms(1) by simp
    then obtain pages where p: "offset_loop len add (\<lambda>_. None) (\<lambda>offset limit. Inr (list_server xs cap offset limit)) (\<lambda>_. None)
        limit (Suc n) (offset + limit) = Some (pages, Ok () :: ('e, unit) result)" "concat pages = drop (offset + limit) xs"
        "offsetPaginator (list_server xs cap) limit (offset + limit) = Some pages"
      using less(1) [of "offset + limit" "Suc n"] by blast
    have "concat (?items # pages) = drop offset xs" using p(2) items by (simp add: add.commute flip: drop_drop)
    then show ?thesis
      using False l p n assms(3) [OF l(2)] by (subst offset_loop.simps, subst offsetPaginator.simps) (simp add: Let_def)
  qed
qed

text \<open>
  C27. Against a server that gives as many items as it is asked for, both offset loops end and hand over every item once and
  in order, in the pages the TypeScript generator yields; a limit of zero, with which the generator never ends, means 50.
\<close>

theorem offset_paginators_agree:
  assumes "limit \<le> cap" and "50 \<le> cap" and "length (xs :: 'a list) < 2 ^ 32"
  shows "\<exists>pages. concat pages = xs \<and>
    go_offset_paginate (\<lambda>_. None) (int limit) (\<lambda>ofs n. Inr (list_server xs cap ofs n)) (\<lambda>_. None) = Some (pages, Ok ()) \<and>
    rust_offset_paginate limit (\<lambda>ofs n. Inr (list_server xs cap ofs n)) (\<lambda>_. None) = Some (pages, Ok ()) \<and>
    offsetPaginator (list_server xs cap) (if limit = 0 then 50 else limit) 0 = Some pages"
proof -
  define l where "l = (if limit = 0 then 50 else limit)"
  have l: "0 < l" "l \<le> cap" "(if int limit \<le> 0 then 50 else nat (int limit)) = l" using assms by (auto simp: l_def)
  have "\<And>a. a + l \<le> length xs \<Longrightarrow> u32_saturating_add a l = a + l"
    using assms(3) by (simp add: u32_saturating_add_def min_def)
  moreover have "\<And>ys :: 'a list. length ys \<le> length xs \<Longrightarrow> length ys mod 2 ^ 32 = length ys" using assms(3) by simp
  ultimately show ?thesis
    using offset_loop_complete [where add = u32_saturating_add and xs = xs and offset = 0 and n = 0
        and len = "\<lambda>items. length items mod 2 ^ 32", OF l(1,2)]
      offset_loop_complete [where add = "(+)" and len = length and xs = xs and offset = 0 and n = 0, OF l(1,2) refl refl]
    unfolding go_offset_paginate_def rust_offset_paginate_def l(3) l_def [symmetric] by auto
qed

theorem offset_paginators_agree_witness:
  "\<exists>pages. concat pages = [7, 8, 9 :: nat] \<and>
    rust_offset_paginate 2 (\<lambda>ofs n. Inr (list_server [7, 8, 9] 60 ofs n) :: (string, nat list) result) (\<lambda>_. None) = Some (pages, Ok ())"
  using offset_paginators_agree [of 2 60 "[7, 8, 9 :: nat]"] by auto

text \<open>A saturated offset does not advance: with full pages at its end the Rust loop never returns.\<close>

lemma saturated_offset: "u32_saturating_add (2 ^ 32 - 1) n = 2 ^ 32 - 1"
  by (simp add: u32_saturating_add_def)

text \<open>An error of the handler ends the run after the page it was given, and no further page is fetched.\<close>

theorem handler_error_stops:
  assumes "fetch offset limit = Inr items" and "handle items = Some e" and "ctx n = None"
  shows "offset_loop len add ctx fetch handle limit n offset = Some ([items], Err e)"
  using assms by (subst offset_loop.simps) simp

end
