(* ===== verification/Sdk_Routes.thy ===== *)
theory Sdk_Routes
  imports Go_Client Rust_Client
begin

text \<open>
  The validation middleware of the Go and Rust runtimes (\<open>emit_validation_middleware\<close> of crates/specforge-go/src/lib.rs and
  crates/specforge-rust/src/lib.rs), against the one of the TypeScript runtime (theory Ts\_Client). The maps of schemas are
  hash maps: a model takes their entries in the order in which the loop meets them. \<open>encoding/json\<close> and \<open>serde_json\<close> are
  parameters, as are the validators.
\<close>

section \<open>Matching of paths\<close>

definition segments_match :: "string list \<Rightarrow> string list \<Rightarrow> bool" where
  "segments_match ps ss \<longleftrightarrow> list_all2 (\<lambda>p s. is_wildcard p \<or> p = s) ps ss"

definition go_segments :: "string \<Rightarrow> string list" where
  "go_segments p = split_on (CHR ''/'') (trim_matches (CHR ''/'') p)"

definition go_matchesPath :: "string \<Rightarrow> string \<Rightarrow> bool" where
  "go_matchesPath pattern actual \<longleftrightarrow> segments_match (go_segments pattern) (go_segments actual)"

definition rust_segments :: "string \<Rightarrow> string list" where
  "rust_segments p = filter (\<lambda>s. s \<noteq> []) (split_on (CHR ''/'') (trim_matches (CHR ''/'') p))"

definition matches_path :: "string \<Rightarrow> string \<Rightarrow> bool" where
  "matches_path pattern actual \<longleftrightarrow> segments_match (rust_segments pattern) (rust_segments actual)"

section \<open>Lookup of the schemas\<close>

text \<open>The schemas under the key of the request itself, else those under the first pattern that matches.\<close>

definition match_route ::
  "(string \<Rightarrow> string \<Rightarrow> bool) \<Rightarrow> (string \<times> 's) list \<Rightarrow> string \<Rightarrow> string \<Rightarrow> 's option" where
  "match_route matches schemas verb path =
     map_option snd (List.find (\<lambda>(pattern, s).
       CHR '' '' \<in> set pattern \<and> to_uppercase (before_char (CHR '' '') pattern) = verb \<and>
       matches (after_char (CHR '' '') pattern) path) schemas)"

record 'e validators =
  vs_request :: "(json \<Rightarrow> 'e option) option"
  vs_response :: "(json \<Rightarrow> 'e option) option"

text \<open>A Go map may have nil pointers as values; one under the key of the request counts as absent.\<close>

definition go_route_schema :: "(string \<times> go_error validators option) list \<Rightarrow> string \<Rightarrow> string \<Rightarrow> go_error validators option" where
  "go_route_schema schemas verb path =
     (case Option.bind (map_of schemas (verb @ '' '' @ path)) id of
        Some s \<Rightarrow> Some s
      | None \<Rightarrow> Option.bind (match_route go_matchesPath schemas verb path) id)"

definition rust_route_schema :: "(string \<times> ts_error list validators) list \<Rightarrow> string \<Rightarrow> string \<Rightarrow> ts_error list validators option" where
  "rust_route_schema schemas verb path =
     (case map_of schemas (verb @ '' '' @ path) of
        Some s \<Rightarrow> Some s
      | None \<Rightarrow> match_route matches_path schemas verb path)"

section \<open>The middleware\<close>

text \<open>What a validator says of a text: nothing when there is no validator, no text, or no JSON in it.\<close>

definition check_text :: "(string \<Rightarrow> json option) \<Rightarrow> (json \<Rightarrow> 'e option) option \<Rightarrow> string \<Rightarrow> 'e option" where
  "check_text json_parse validator text =
     (case validator of None \<Rightarrow> None
      | Some v \<Rightarrow> if text = [] then None else Option.bind (json_parse text) v)"

definition body_text :: "string option \<Rightarrow> string" where
  "body_text body = (case body of None \<Rightarrow> [] | Some t \<Rightarrow> t)"

definition ValidationMiddleware ::
  "(string \<Rightarrow> json option) \<Rightarrow> (string \<times> go_error validators option) list \<Rightarrow> go_middleware" where
  "ValidationMiddleware unmarshal schemas req next_handler =
     (let verb = to_uppercase (gq_method req); path = before_char (CHR ''?'') (gq_url req);
          schema = go_route_schema schemas verb path
      in case check_text unmarshal (Option.bind schema vs_request) (body_text (gq_body req)) of
          Some e \<Rightarrow> Inl (GoError (''[validation] '' @ verb @ '' '' @ path @ '' request body: '' @ go_error_text e))
        | None \<Rightarrow> res_bind (next_handler req) (\<lambda>resp.
            case (if 200 \<le> gs_status resp \<and> gs_status resp < 300
                    \<and> contains_sub (header_get ''Content-Type'' (gs_header resp)) ''application/json''
                  then check_text unmarshal (Option.bind schema vs_response) (gs_body resp) else None) of
              Some e \<Rightarrow> Inl (GoError (''[validation] '' @ verb @ '' '' @ path @ '' response '' @ show_nat (gs_status resp) @ '': ''
                @ go_error_text e))
            | None \<Rightarrow> Inr resp))"

definition rust_validation_message :: "ts_error list \<Rightarrow> string" where
  "rust_validation_message errors = join ''; '' (map (\<lambda>(p, m). p @ '': '' @ m) errors)"

definition validation_middleware ::
  "(string \<Rightarrow> json option) \<Rightarrow> (string \<times> ts_error list validators) list \<Rightarrow> rust_middleware" where
  "validation_middleware from_slice schemas req next_handler =
     (let verb = to_uppercase (rq_method req); path = before_char (CHR ''?'') (rq_url req);
          schema = rust_route_schema schemas verb path
      in case check_text from_slice (Option.bind schema vs_request) (body_text (rq_body req)) of
          Some errors \<Rightarrow> Inl (RustMessage (''[validation] '' @ verb @ '' '' @ path @ '' request body: ''
            @ rust_validation_message errors))
        | None \<Rightarrow> res_bind (next_handler req) (\<lambda>resp.
            case (if 200 \<le> rs_status resp \<and> rs_status resp < 300
                    \<and> (case Option.bind (hm_get ''content-type'' (rs_headers resp)) header_to_str of
                         None \<Rightarrow> False | Some t \<Rightarrow> contains_sub t ''application/json'')
                  then check_text from_slice (Option.bind schema vs_response) (rs_body resp) else None) of
              Some errors \<Rightarrow> Inl (RustMessage (''[validation] '' @ verb @ '' '' @ path @ '' response '' @ show_nat (rs_status resp)
                @ '': '' @ rust_validation_message errors))
            | None \<Rightarrow> Inr resp))"

section \<open>The three matchers\<close>

lemma trim_start_matches_split: "\<exists>n. s = replicate n c @ trim_start_matches c s"
proof -
  have "takeWhile (\<lambda>x. x = c) s = replicate (length (takeWhile (\<lambda>x. x = c) s)) c"
    by (induction s) auto
  then show ?thesis using takeWhile_dropWhile_id [of "\<lambda>x. x = c" s] unfolding trim_start_matches_def by metis
qed

lemma trim_end_matches_split: "\<exists>n. s = trim_end_matches c s @ replicate n c"
proof -
  obtain n where "rev s = replicate n c @ dropWhile (\<lambda>x. x = c) (rev s)"
    using trim_start_matches_split [of "rev s" c] unfolding trim_start_matches_def by blast
  then have "s = rev (replicate n c @ dropWhile (\<lambda>x. x = c) (rev s))" by (metis rev_rev_ident)
  then have "s = trim_end_matches c s @ replicate n c" by (simp add: trim_end_matches_def)
  then show ?thesis by blast
qed

lemma path_segments_start: "path_segments (replicate n (CHR ''/'') @ s) = path_segments s"
  by (induction n) (simp_all add: path_segments_slash)

lemma path_segments_end: "path_segments (s @ replicate n (CHR ''/'')) = path_segments s"
proof (cases n)
  case (Suc m)
  have "path_segments (replicate m (CHR ''/'')) = []"
    using path_segments_start [of m "[]"] by (simp add: path_segments_def)
  with Suc show ?thesis using path_segments_append [of s "replicate m (CHR ''/'')"] by simp
qed simp

lemma rust_segments_eq: "rust_segments p = path_segments p"
proof -
  obtain m n where "p = replicate m (CHR ''/'') @ trim_matches (CHR ''/'') p @ replicate n (CHR ''/'')"
    using trim_start_matches_split [of p "CHR ''/''"] trim_end_matches_split [of "trim_start_matches (CHR ''/'') p" "CHR ''/''"]
    unfolding trim_matches_def by metis
  then have "path_segments p = path_segments (trim_matches (CHR ''/'') p)" by (metis path_segments_start path_segments_end)
  then show ?thesis by (simp add: rust_segments_def path_segments_def)
qed

lemma go_segments_filter: "filter (\<lambda>s. s \<noteq> []) (go_segments p) = path_segments p"
  using rust_segments_eq [of p] by (simp add: rust_segments_def go_segments_def)

theorem route_matchers_agree:
  "matches_path pattern actual = matchesPath pattern actual \<and>
   ([] \<notin> set (go_segments pattern) \<and> [] \<notin> set (go_segments actual) \<longrightarrow>
    go_matchesPath pattern actual = matchesPath pattern actual)"
proof -
  have "go_segments p = path_segments p" if "[] \<notin> set (go_segments p)" for p
    using go_segments_filter [of p] that by (metis (mono_tags, lifting) filter_True)
  then show ?thesis
    by (simp add: matches_path_def go_matchesPath_def segments_match_def matchesPath_def rust_segments_eq)
qed

text \<open>The root and a doubled slash have an empty segment in Go, which a placeholder matches.\<close>

lemma go_placeholder_matches_root: "go_matchesPath ''/{id}'' ''/'' \<and> \<not> matches_path ''/{id}'' ''/''"
  by code_simp

section \<open>Requests carry whole URLs\<close>

text \<open>
  The routes of a spec, for a call with this path: of each route, the method is another one or the pattern has no more
  segments than the path.
\<close>

definition routes_fit :: "(string \<Rightarrow> string list) \<Rightarrow> (string \<times> 's) list \<Rightarrow> string \<Rightarrow> string \<Rightarrow> bool" where
  "routes_fit segs schemas verb path \<longleftrightarrow>
     (\<forall>(k, s) \<in> set schemas. to_uppercase (before_char (CHR '' '') k) \<noteq> verb
        \<or> length (segs (after_char (CHR '' '') k)) \<le> length (segs path))"

text \<open>A base with at least two segments (scheme and host) makes the path of a URL longer than the path alone.\<close>

locale route_segments =
  fixes segs :: "string \<Rightarrow> string list"
  assumes base_longer: "starts_with path ''/'' \<Longrightarrow> 2 \<le> length (segs base) \<Longrightarrow> length (segs path) < length (segs (base @ path))"
begin

lemma no_pattern:
  assumes "starts_with path ''/''" "2 \<le> length (segs base)" "routes_fit segs schemas verb path"
    and matches: "\<And>p s. matches p s \<Longrightarrow> length (segs p) = length (segs s)"
  shows "match_route matches schemas verb (base @ path) = None"
proof -
  have "\<not> matches (after_char (CHR '' '') k) (base @ path)"
    if "length (segs (after_char (CHR '' '') k)) \<le> length (segs path)" for k
    using that base_longer [OF assms(1,2)] matches by fastforce
  then have "List.find (\<lambda>(pattern, s). CHR '' '' \<in> set pattern \<and> to_uppercase (before_char (CHR '' '') pattern) = verb \<and>
      matches (after_char (CHR '' '') pattern) (base @ path)) schemas = None"
    using assms(3) by (fastforce simp: find_None_iff routes_fit_def)
  then show ?thesis by (simp add: match_route_def)
qed

lemma no_key:
  assumes "starts_with path ''/''" "2 \<le> length (segs base)" "routes_fit segs schemas verb path"
    and "to_uppercase verb = verb" "CHR '' '' \<notin> set verb"
  shows "map_of schemas (verb @ '' '' @ base @ path) = None"
proof -
  have "before_char (CHR '' '') (verb @ '' '' @ base @ path) = verb \<and> after_char (CHR '' '') (verb @ '' '' @ base @ path) = base @ path"
    using before_char_append [OF assms(5), of "base @ path"] by simp
  then have "(verb @ '' '' @ base @ path, s) \<notin> set schemas" for s
    using assms(3,4) base_longer [OF assms(1,2)] by (fastforce simp: routes_fit_def)
  then show ?thesis by (auto simp: map_of_eq_None_iff)
qed

end

lemma ts_segments_longer:
  assumes "starts_with path ''/''" and "2 \<le> length (path_segments base)"
  shows "length (path_segments path) < length (path_segments (base @ path))"
proof -
  obtain t where "path = CHR ''/'' # t" using assms(1) by (auto simp: starts_with_iff)
  then show ?thesis using assms(2) by (auto simp: path_segments_append path_segments_slash)
qed

interpretation rust_routes: route_segments rust_segments
  by unfold_locales (simp add: rust_segments_eq ts_segments_longer)

definition slashes :: "string \<Rightarrow> nat" where
  "slashes s = count_list s (CHR ''/'')"

lemma slashes_append [simp]: "slashes (s @ t) = slashes s + slashes t"
  by (simp add: slashes_def)

lemma slashes_replicate [simp]: "slashes (replicate n (CHR ''/'')) = n"
  by (induction n) (simp_all add: slashes_def)

lemma length_go_segments: "length (go_segments p) = Suc (slashes (trim_matches (CHR ''/'') p))"
  by (simp add: go_segments_def length_split_on slashes_def)

lemma trim_start_append: "trim_start_matches c s \<noteq> [] \<Longrightarrow> trim_start_matches c (s @ t) = trim_start_matches c s @ t"
  by (auto simp: trim_start_matches_def dropWhile_eq_Nil_conv intro: dropWhile_append1)

lemma trim_end_append: "trim_end_matches c t \<noteq> [] \<Longrightarrow> trim_end_matches c (s @ t) = s @ trim_end_matches c t"
  using trim_start_append [of c "rev t" "rev s"] by (simp add: trim_end_matches_def trim_start_matches_def)

lemma trim_end_replicate: "trim_end_matches c (s @ replicate n c) = trim_end_matches c s"
  by (simp add: trim_end_matches_def dropWhile_append)

lemma trim_start_nonempty: "trim_matches c s \<noteq> [] \<Longrightarrow> trim_start_matches c s \<noteq> []"
  by (auto simp: trim_matches_def trim_end_matches_def)

lemma go_segments_longer:
  assumes "starts_with path ''/''" and "2 \<le> length (go_segments base)"
  shows "length (go_segments path) < length (go_segments (base @ path))"
proof -
  let ?c = "CHR ''/''"
  obtain t where t: "path = ?c # t" using assms(1) by (auto simp: starts_with_iff)
  have base: "1 \<le> slashes (trim_matches ?c base)" using assms(2) by (simp add: length_go_segments)
  then have "trim_start_matches ?c base \<noteq> []" by (intro trim_start_nonempty) (auto simp: slashes_def)
  then have start: "trim_matches ?c (base @ path) = trim_end_matches ?c (trim_start_matches ?c base @ path)"
    by (simp add: trim_matches_def trim_start_append)
  obtain n where n: "path = replicate n ?c @ trim_start_matches ?c path" using trim_start_matches_split by blast
  show ?thesis
  proof (cases "trim_start_matches ?c path = []")
    case True
    then have "trim_matches ?c (base @ path) = trim_matches ?c base" using start n
      by (simp add: trim_end_replicate trim_matches_def)
    with True base show ?thesis by (simp add: length_go_segments trim_matches_def trim_end_matches_def slashes_def)
  next
    case False
    let ?p = "trim_start_matches ?c path"
    have "hd ?p \<noteq> ?c" using False hd_dropWhile [of "\<lambda>x. x = ?c" path] by (auto simp: trim_start_matches_def)
    then have ne: "trim_end_matches ?c ?p \<noteq> []"
      using False by (cases ?p) (auto simp: trim_end_matches_def dropWhile_eq_Nil_conv)
    have "n \<noteq> 0" using \<open>hd ?p \<noteq> ?c\<close> n t by (metis list.sel(1) replicate_0 append_Nil)
    moreover have "trim_matches ?c (base @ path) = trim_start_matches ?c base @ replicate n ?c @ trim_end_matches ?c ?p"
      using start n trim_end_append [OF ne, of "trim_start_matches ?c base @ replicate n ?c"] by (metis append.assoc)
    ultimately show ?thesis by (simp add: length_go_segments trim_matches_def add.assoc)
  qed
qed

interpretation go_routes: route_segments go_segments
  by unfold_locales (rule go_segments_longer)

lemma go_segments_base: "2 \<le> length (rust_segments base) \<Longrightarrow> 2 \<le> length (go_segments base)"
  using length_filter_le [of "\<lambda>s. s \<noteq> []" "go_segments base"] by (simp add: rust_segments_eq go_segments_filter)

text \<open>
  The validation middlewares of the Go and Rust clients do nothing on the calls that the clients make: the URL they
  see has the base in it (and the query behind it), so that neither the key of the call nor a pattern of the spec is
  found, and the middleware hands the request and the answer on unchanged.
\<close>

theorem sdk_validation_never_runs:
  assumes "starts_with path ''/''" and "2 \<le> length (rust_segments base)" and "CHR ''?'' \<notin> set (base @ path)"
    and "query = [] \<or> hd query = CHR ''?''" and "to_uppercase verb = verb" and "CHR '' '' \<notin> set verb"
    and "routes_fit go_segments go_schemas verb path" and "routes_fit rust_segments rust_schemas verb path"
  shows "(gq_method greq = verb \<and> gq_url greq = base @ path @ query \<longrightarrow>
      ValidationMiddleware unmarshal go_schemas greq go_next = go_next greq) \<and>
    (rq_method rreq = verb \<and> rq_url rreq = base @ path @ query \<longrightarrow>
      validation_middleware from_slice rust_schemas rreq rust_next = rust_next rreq)"
proof -
  have path: "before_char (CHR ''?'') (base @ path @ query) = base @ path"
    using assms(3,4) before_char_append [of "CHR ''?''" "base @ path" "tl query"]
    by (cases query) (auto simp: before_char_def takeWhile_eq_all_conv)
  note base = go_segments_base [OF assms(2)]
  have "match_route go_matchesPath go_schemas verb (base @ path) = None"
    by (rule go_routes.no_pattern [OF assms(1) base assms(7)])
      (auto simp: go_matchesPath_def segments_match_def dest: list_all2_lengthD)
  then have go: "go_route_schema go_schemas verb (base @ path) = None"
    using go_routes.no_key [OF assms(1) base assms(7,5,6)] by (simp add: go_route_schema_def)
  have go_next: "gq_method greq = verb \<and> gq_url greq = base @ path @ query \<longrightarrow>
      ValidationMiddleware unmarshal go_schemas greq go_next = go_next greq"
    by (cases "go_next greq") (auto simp: ValidationMiddleware_def Let_def path assms(5) go check_text_def)
  have "match_route matches_path rust_schemas verb (base @ path) = None"
    by (rule rust_routes.no_pattern [OF assms(1,2,8)])
      (auto simp: matches_path_def segments_match_def dest: list_all2_lengthD)
  then have rust: "rust_route_schema rust_schemas verb (base @ path) = None"
    using rust_routes.no_key [OF assms(1,2,8,5,6)] by (simp add: rust_route_schema_def)
  have "rq_method rreq = verb \<and> rq_url rreq = base @ path @ query \<longrightarrow>
      validation_middleware from_slice rust_schemas rreq rust_next = rust_next rreq"
    by (cases "rust_next rreq") (auto simp: validation_middleware_def Let_def path assms(5) rust check_text_def)
  with go_next show ?thesis by blast
qed

definition create_pets :: "'e \<Rightarrow> (string \<times> 'e validators) list" where
  "create_pets e = [(''POST /pets'', \<lparr>vs_request = Some (\<lambda>v. Some e), vs_response = None\<rparr>)]"

text \<open>The validators here refuse everything; without the base they are asked, with it the request passes.\<close>

theorem sdk_validation_never_runs_witness:
  "let schemas = map (\<lambda>(k, v). (k, Some v)) (create_pets (GoError ''bad''));
       request = (\<lambda>url. \<lparr>gq_method = ''POST'', gq_url = url, gq_headers = [], gq_body = Some ''{}''\<rparr>);
       answer = \<lparr>gs_status = 201, gs_header = [], gs_body = []\<rparr>;
       run = (\<lambda>url. ValidationMiddleware (\<lambda>t. Some JNull) schemas (request url) (\<lambda>r. Inr answer))
   in run ''/pets?a=1'' = Inl (GoError ''[validation] POST /pets request body: bad'') \<and> run ''https://h/pets?a=1'' = Inr answer"
proof -
  have fits: "routes_fit go_segments (map (\<lambda>(k, v). (k, Some v)) (create_pets (GoError ''bad''))) ''POST'' ''/pets''"
    "routes_fit rust_segments (create_pets [(''body'', ''bad'')]) ''POST'' ''/pets''"
    by (simp_all add: routes_fit_def create_pets_def) (code_simp+)
  have short: "2 \<le> length (rust_segments ''https://h'')" "to_uppercase ''POST'' = ''POST''"
    "before_char (CHR ''?'') ''/pets?a=1'' = ''/pets''" by code_simp+
  have "go_route_schema (map (\<lambda>(k, v). (k, Some v)) (create_pets (GoError ''bad''))) ''POST'' ''/pets'' =
      Some \<lparr>vs_request = Some (\<lambda>v. Some (GoError ''bad'')), vs_response = None\<rparr>"
    by (simp add: go_route_schema_def create_pets_def)
  with short(2,3) have asked: "ValidationMiddleware (\<lambda>t. Some JNull)
      (map (\<lambda>(k, v). (k, Some v)) (create_pets (GoError ''bad'')))
      \<lparr>gq_method = ''POST'', gq_url = ''/pets?a=1'', gq_headers = [], gq_body = Some ''{}''\<rparr> f =
      Inl (GoError ''[validation] POST /pets request body: bad'')" for f
    by (simp add: ValidationMiddleware_def check_text_def body_text_def)
  have "ValidationMiddleware (\<lambda>t. Some JNull) (map (\<lambda>(k, v). (k, Some v)) (create_pets (GoError ''bad'')))
      \<lparr>gq_method = ''POST'', gq_url = ''https://h/pets?a=1'', gq_headers = [], gq_body = Some ''{}''\<rparr> f =
      f \<lparr>gq_method = ''POST'', gq_url = ''https://h/pets?a=1'', gq_headers = [], gq_body = Some ''{}''\<rparr>" for f
    using sdk_validation_never_runs [where base = "''https://h''" and path = "''/pets''" and query = "''?a=1''"
        and verb = "''POST''" and unmarshal = "\<lambda>_. Some JNull", OF _ _ _ _ _ _ fits] short(1,2)
    by (simp add: starts_with_def)
  with asked show ?thesis by (simp add: Let_def)
qed

end
