(* ===== verification/Cli_Base.thy ===== *)
theory Cli_Base
  imports Spec_Parse Resolve Workspace Ts_Package
begin

text \<open>
  What the commands of crates/specforge-cli/src/main.rs share: a command leaves a list of visible events (lines on the
  two output streams, files written) and ends with a value, an \<open>anyhow\<close> error with its contexts, or a panic. Log
  messages of the tracing crate are left out. The world of a command is a record of parameters: the file system and the
  decoders and printers of serde.

  The equations on \<open>cmd_bind\<close> are collected in \<open>cmd_simps\<close>, and \<open>cmd_iff\<close> says when a composed command returns a value.
\<close>

section \<open>Commands\<close>

datatype error_source =
    ReadFailed spec_error
  | ResolveFailed resolve_error
  | IoFailed string
  | DecodeFailed string
  | Message string

text \<open>The contexts of an error from the outermost to the innermost, and its cause.\<close>

datatype cli_stop =
    Failed "string list" error_source
  | Panicked string

datatype cli_event =
    Stderr string
  | Stdout string
  | CreatedDir path
  | WroteFile path string
  | Reported "string list" error_source

type_synonym 'a cmd = "cli_event list \<times> (cli_stop, 'a) result"

definition cmd_ok :: "'a \<Rightarrow> 'a cmd" where
  "cmd_ok a = ([], Ok a)"

definition bail :: "string \<Rightarrow> 'a cmd" where
  "bail m = ([], Err (Failed [] (Message m)))"

definition cmd_bind :: "'a cmd \<Rightarrow> ('a \<Rightarrow> 'b cmd) \<Rightarrow> 'b cmd" where
  "cmd_bind c f =
     (case snd c of
        Inl e \<Rightarrow> (fst c, Err e)
      | Inr a \<Rightarrow> (fst c @ fst (f a), snd (f a)))"

definition cmd_then :: "cli_event list \<Rightarrow> 'a cmd \<Rightarrow> 'a cmd" where
  "cmd_then evs c = (evs @ fst c, snd c)"

text \<open>\<open>map_err(Into::into)?\<close> and \<open>context(c)?\<close> on the result of a call.\<close>

definition lift_result :: "('e \<Rightarrow> error_source) \<Rightarrow> ('e, 'a) result \<Rightarrow> 'a cmd" where
  "lift_result src r = (case r of Inl e \<Rightarrow> ([], Err (Failed [] (src e))) | Inr a \<Rightarrow> cmd_ok a)"

definition with_context :: "string \<Rightarrow> 'a cmd \<Rightarrow> 'a cmd" where
  "with_context c m =
     (case snd m of
        Inl (Failed cs src) \<Rightarrow> (fst m, Err (Failed (c # cs) src))
      | _ \<Rightarrow> m)"

fun cmd_each :: "('a \<Rightarrow> 'b cmd) \<Rightarrow> 'a list \<Rightarrow> 'b list cmd" where
  "cmd_each f [] = cmd_ok []"
| "cmd_each f (x # xs) = cmd_bind (f x) (\<lambda>y. cmd_bind (cmd_each f xs) (\<lambda>ys. cmd_ok (y # ys)))"

definition eprintln :: "string \<Rightarrow> cli_event" where
  "eprintln s = Stderr (s @ newline)"

definition println :: "string \<Rightarrow> cli_event" where
  "println s = Stdout (s @ newline)"

named_theorems cmd_simps \<open>equations on composed commands\<close>
named_theorems cmd_iff \<open>when a composed command returns a value\<close>

lemma bind_ok [cmd_simps]: "cmd_bind (cmd_ok a) f = f a"
  and bind_bail [cmd_simps]: "cmd_bind (bail m) f = bail m"
  and bind_then [cmd_simps]: "cmd_bind (cmd_then evs c) f = cmd_then evs (cmd_bind c f)"
  by (auto simp: cmd_bind_def cmd_ok_def bail_def cmd_then_def split: sum.split)

lemma bind_assoc: "cmd_bind (cmd_bind c f) g = cmd_bind c (\<lambda>a. cmd_bind (f a) g)"
  by (auto simp: cmd_bind_def split: sum.split)

lemma bind_returns [cmd_iff]: "snd (cmd_bind c f) = Ok b \<longleftrightarrow> (\<exists>a. snd c = Ok a \<and> snd (f a) = Ok b)"
  by (auto simp: cmd_bind_def split: sum.split)

lemma then_result [cmd_iff]: "snd (cmd_then evs c) = snd c"
  and ok_result [cmd_iff]: "snd (cmd_ok a) = Ok a"
  and bail_result [cmd_iff]: "snd (bail m) = Err (Failed [] (Message m))"
  by (simp_all add: cmd_then_def cmd_ok_def bail_def)

lemma context_returns [cmd_iff]: "snd (with_context c m) = Ok a \<longleftrightarrow> snd m = Ok a"
  by (auto simp: with_context_def split: sum.split cli_stop.split)

lemma lift_returns [cmd_iff]: "snd (lift_result src r) = Ok a \<longleftrightarrow> r = Ok a"
  by (auto simp: lift_result_def cmd_ok_def split: sum.split)

lemma each_returns [cmd_iff]: "snd (cmd_each f xs) = Ok ys \<longleftrightarrow> list_all2 (\<lambda>x y. snd (f x) = Ok y) xs ys"
  by (induction xs arbitrary: ys) (auto simp: cmd_iff list_all2_Cons1)

lemma each_events: "snd (cmd_each f xs) = Ok ys \<Longrightarrow> fst (cmd_each f xs) = concat (map (\<lambda>x. fst (f x)) xs)"
  by (induction xs arbitrary: ys) (auto simp: cmd_iff cmd_bind_def cmd_ok_def split: sum.splits)

section \<open>Exit codes\<close>

datatype exit_code = ExitSuccess | ExitFailure | ExitPanic

text \<open>
  An arm of the dispatch in \<open>main\<close>: a value decides the exit code and what is printed, an error is reported and fails. A
  panic ends the process with its own code.
\<close>

definition finish :: "('a \<Rightarrow> cli_event list) \<Rightarrow> ('a \<Rightarrow> exit_code) \<Rightarrow> 'a cmd \<Rightarrow> cli_event list \<times> exit_code" where
  "finish say code m =
     (case snd m of
        Inr a \<Rightarrow> (fst m @ say a, code a)
      | Inl (Failed cs src) \<Rightarrow> (fst m @ [Reported cs src], ExitFailure)
      | Inl (Panicked w) \<Rightarrow> (fst m, ExitPanic))"

abbreviation finish_unit :: "unit cmd \<Rightarrow> cli_event list \<times> exit_code" where
  "finish_unit \<equiv> finish (\<lambda>_. []) (\<lambda>_. ExitSuccess)"

abbreviation finish_verdict :: "bool cmd \<Rightarrow> cli_event list \<times> exit_code" where
  "finish_verdict \<equiv> finish (\<lambda>_. []) (\<lambda>bad. if bad then ExitFailure else ExitSuccess)"

lemma finish_success [cmd_iff]:
  "snd (finish say code m) = ExitSuccess \<longleftrightarrow> (\<exists>a. snd m = Ok a \<and> code a = ExitSuccess)"
  by (auto simp: finish_def split: sum.split cli_stop.split)

section \<open>The world\<close>

record cli_world =
  cw_readers :: "oapi_spec spec_readers"
  cw_read_text :: "path \<Rightarrow> (string, string) result"
  cw_write_error :: "path \<Rightarrow> string \<Rightarrow> string option"
  cw_mkdir_error :: "path \<Rightarrow> string option"
  cw_exists :: "path \<Rightarrow> bool"

definition write_file :: "cli_world \<Rightarrow> path \<Rightarrow> string \<Rightarrow> unit cmd" where
  "write_file w p text =
     with_context (''failed to write '' @ show_path p)
       (case cw_write_error w p text of
          Some e \<Rightarrow> ([], Err (Failed [] (IoFailed e)))
        | None \<Rightarrow> ([WroteFile p text], Ok ()))"

definition create_dir_all :: "cli_world \<Rightarrow> path \<Rightarrow> unit cmd" where
  "create_dir_all w p =
     with_context (''failed to create output directory '' @ show_path p)
       (case cw_mkdir_error w p of
          Some e \<Rightarrow> ([], Err (Failed [] (IoFailed e)))
        | None \<Rightarrow> ([CreatedDir p], Ok ()))"

definition read_to_string :: "cli_world \<Rightarrow> string \<Rightarrow> path \<Rightarrow> string cmd" where
  "read_to_string w ctx p = with_context ctx (lift_result IoFailed (cw_read_text w p))"

text \<open>The end of many commands: the text goes to the file of \<open>--out\<close>, or to standard output.\<close>

definition write_or_print :: "cli_world \<Rightarrow> path option \<Rightarrow> string \<Rightarrow> unit cmd" where
  "write_or_print w out text =
     (case out of
        Some p \<Rightarrow> cmd_bind (write_file w p text) (\<lambda>_. ([eprintln (''Wrote '' @ show_path p)], Ok ()))
      | None \<Rightarrow> ([println text], Ok ()))"

definition parse_spec :: "cli_world \<Rightarrow> string \<Rightarrow> path \<Rightarrow> oapi_spec cmd" where
  "parse_spec w what p =
     with_context (''failed to parse '' @ what @ '' at '' @ show_path p)
       (lift_result ReadFailed (read_spec (cw_readers w) (show_path p)))"

definition resolve_spec :: "string \<Rightarrow> oapi_spec \<Rightarrow> document cmd" where
  "resolve_spec ctx spec = with_context ctx (lift_result ResolveFailed (resolve spec))"

text \<open>\<open>parse_file\<close> and \<open>resolve\<close> as nearly every command starts.\<close>

definition load_document :: "cli_world \<Rightarrow> path \<Rightarrow> document cmd" where
  "load_document w p = cmd_bind (parse_spec w ''spec'' p) (resolve_spec ''failed to resolve spec into IR'')"

text \<open>The document a file stands for, when it parses and resolves.\<close>

definition document_in :: "cli_world \<Rightarrow> path \<Rightarrow> document option" where
  "document_in w p =
     (case read_spec (cw_readers w) (show_path p) of
        Inl e \<Rightarrow> None
      | Inr spec \<Rightarrow> (case resolve spec of Inl e \<Rightarrow> None | Inr doc \<Rightarrow> Some doc))"

text \<open>The text a document is read from: its bytes are there and are UTF-8.\<close>

definition spec_text :: "cli_world \<Rightarrow> path \<Rightarrow> string \<Rightarrow> bool" where
  "spec_text w p text \<longleftrightarrow>
     (\<exists>bytes. rd_read (cw_readers w) (show_path p) = Ok bytes \<and> rd_from_utf8 (cw_readers w) bytes = Ok text)"

lemma load_document_returns [cmd_iff]: "snd (load_document w p) = Ok doc \<longleftrightarrow> document_in w p = Some doc"
  by (auto simp: load_document_def parse_spec_def resolve_spec_def document_in_def cmd_iff split: sum.splits)

lemma write_file_returns [cmd_iff]: "snd (write_file w p t) = Ok u \<longleftrightarrow> cw_write_error w p t = None"
  by (auto simp: write_file_def cmd_iff split: option.split)

lemma write_or_print_returns [cmd_iff]:
  "snd (write_or_print w out t) = Ok u \<longleftrightarrow> (\<forall>p. out = Some p \<longrightarrow> cw_write_error w p t = None)"
  by (auto simp: write_or_print_def cmd_iff split: option.split)

section \<open>Text helpers\<close>

text \<open>\<open>str::is_char_boundary\<close>, and a slice \<open>&s[..n]\<close>, which panics elsewhere.\<close>

definition char_boundary :: "string \<Rightarrow> nat \<Rightarrow> bool" where
  "char_boundary s n \<longleftrightarrow> n = length s \<or> (n < length s \<and> \<not> (128 \<le> byte (s ! n) \<and> byte (s ! n) < 192))"

definition truncate_text :: "string \<Rightarrow> nat \<Rightarrow> (cli_stop, string) result" where
  "truncate_text s max_len =
     (if length s \<le> max_len then Ok s
      else if char_boundary s (max_len - 3) then Ok (take (max_len - 3) s @ ''...'')
      else Err (Panicked ''byte index is not a char boundary''))"

text \<open>\<open>{:<w$}\<close> and \<open>{:>w}\<close>, which count characters, with a fill character.\<close>

definition pad_right :: "string \<Rightarrow> nat \<Rightarrow> string \<Rightarrow> string" where
  "pad_right fill n s = s @ concat (replicate (n - length (utf8_chars s)) fill)"

definition pad_left :: "string \<Rightarrow> nat \<Rightarrow> string \<Rightarrow> string" where
  "pad_left fill n s = concat (replicate (n - length (utf8_chars s)) fill) @ s"

text \<open>A text of ASCII characters is truncated without a panic, to at most the limit.\<close>

lemma truncate_ascii:
  assumes "\<forall>c \<in> set s. byte c < 128" and "3 \<le> max_len"
  shows "\<exists>t. truncate_text s max_len = Ok t \<and> length t \<le> max_len"
proof (cases "length s \<le> max_len")
  case False
  then have "byte (s ! (max_len - 3)) < 128" using assms by simp
  with False assms(2) show ?thesis by (auto simp: truncate_text_def char_boundary_def)
qed (simp add: truncate_text_def)

text \<open>Cut inside a character, the slice panics: a description of 79 ASCII characters around one of two bytes is enough.\<close>

lemma truncate_panics:
  "truncate_text (replicate 76 (CHR ''a'') @ [CHR 0xC3, CHR 0xA9] @ ''xyz'') 80 =
   Err (Panicked ''byte index is not a char boundary'')"
  by code_simp

section \<open>A small world\<close>

text \<open>A world in which every file holds the same document, and nothing can be written.\<close>

definition one_spec :: oapi_spec where
  "one_spec = \<lparr>spec_title = ''t'', spec_version = ''1'', spec_servers = [], spec_paths = [], spec_components = None,
     spec_security = None\<rparr>"

definition one_world :: cli_world where
  "one_world =
     \<lparr>cw_readers = \<lparr>rd_read = Ok, rd_from_utf8 = Ok, rd_json = (\<lambda>_. Some (JObject [])), rd_yaml = (\<lambda>_. Err []),
        rd_from_value = (\<lambda>_. Ok one_spec)\<rparr>,
      cw_read_text = (\<lambda>p. Err ''not found''), cw_write_error = (\<lambda>p t. Some ''read-only''),
      cw_mkdir_error = (\<lambda>p. Some ''read-only''), cw_exists = (\<lambda>p. False)\<rparr>"

definition one_doc :: document where
  "one_doc = \<lparr>doc_ir_version = IR_VERSION, doc_title = ''t'', doc_version = ''1'', doc_base_url = None,
     doc_security = [], doc_schemas = [], doc_operations = [], doc_webhooks = []\<rparr>"

lemma one_document: "document_in one_world p = Some one_doc"
proof -
  have "read_spec (cw_readers one_world) f = Ok one_spec" for f
    by (simp add: one_world_def read_spec_def parse_file_def parse_bytes_def read_text_def parse_str_def load_json_def is_31_def)
  moreover have "resolve one_spec = Ok one_doc" by code_simp
  ultimately show ?thesis by (simp add: document_in_def)
qed

end
