(* ===== verification/Spec_Versions.thy ===== *)
theory Spec_Versions
  imports Spec_Parse Workspace
begin

text \<open>
  Directories of specs (crates/specforge-core/src/spec.rs): \<open>scan_versions\<close> reads the version of every spec file of a
  directory and of its subdirectories, \<open>resolve_spec_path\<close> picks the file of a requested version. The file system is a
  parameter, \<open>file_tree\<close>: which paths are files or directories, the names in a directory in the order the system
  lists them, and the bytes of a file; \<open>Path::join\<close>, \<open>file_stem\<close> and \<open>parent\<close> are those of Workspace.
\<close>

section \<open>The file system\<close>

record file_tree =
  ft_is_file :: "path \<Rightarrow> bool"
  ft_is_dir :: "path \<Rightarrow> bool"
  ft_entries :: "path \<Rightarrow> string list option"

record version_info =
  vi_version :: string
  vi_path :: path

definition file_name :: "path \<Rightarrow> string option" where
  "file_name p =
     (if pa_components p = [] \<or> last (pa_components p) \<in> {''.'', ''..''} then None else Some (last (pa_components p)))"

text \<open>\<open>file_stem().and_then(to_str).unwrap_or("")\<close> and the name of the parent likewise.\<close>

definition stem_of :: "path \<Rightarrow> string" where
  "stem_of p = (case file_name p of Some n \<Rightarrow> file_stem n | None \<Rightarrow> [])"

definition parent_name :: "path \<Rightarrow> string" where
  "parent_name p = (case Option.bind (parent p) file_name of Some n \<Rightarrow> n | None \<Rightarrow> [])"

section \<open>The scan\<close>

definition is_spec_file :: "path \<Rightarrow> bool" where
  "is_spec_file p \<longleftrightarrow> Option.bind (file_name p) extension \<in> {Some ''yaml'', Some ''yml'', Some ''json''}"

definition try_extract_version :: "'o spec_readers \<Rightarrow> path \<Rightarrow> version_info option" where
  "try_extract_version rd p =
     (case rd_read rd (show_path p) of
        Inl e \<Rightarrow> None
      | Inr bytes \<Rightarrow>
          (case rd_from_utf8 rd bytes of
             Inl e \<Rightarrow> None
           | Inr text \<Rightarrow>
               (case load_json (rd_json rd) (rd_yaml rd) text of
                  Inl e \<Rightarrow> None
                | Inr j \<Rightarrow> map_option (\<lambda>v. \<lparr>vi_version = v, vi_path = p\<rparr>) (extract_info_version j))))"

text \<open>The first readable version of some files in order.\<close>

fun first_version :: "'o spec_readers \<Rightarrow> path list \<Rightarrow> version_info option" where
  "first_version rd [] = None"
| "first_version rd (p # ps) =
     (case try_extract_version rd p of Some info \<Rightarrow> Some info | None \<Rightarrow> first_version rd ps)"

definition scan_version_dir :: "'o spec_readers \<Rightarrow> file_tree \<Rightarrow> path \<Rightarrow> version_info option" where
  "scan_version_dir rd ft dir =
     (case first_version rd (filter (ft_is_file ft) (map (entry_path dir) [''openapi.yaml'', ''openapi.yml'', ''openapi.json''])) of
        Some info \<Rightarrow> Some info
      | None \<Rightarrow>
          (case ft_entries ft dir of
             None \<Rightarrow> None
           | Some names \<Rightarrow>
               first_version rd (filter (\<lambda>p. ft_is_file ft p \<and> is_spec_file p) (map (entry_path dir) names))))"

definition scan_entry :: "'o spec_readers \<Rightarrow> file_tree \<Rightarrow> path \<Rightarrow> version_info option" where
  "scan_entry rd ft p =
     (if ft_is_file ft p then (if is_spec_file p then try_extract_version rd p else None)
      else if ft_is_dir ft p then scan_version_dir rd ft p
      else None)"

definition scan_versions :: "'o spec_readers \<Rightarrow> file_tree \<Rightarrow> path \<Rightarrow> version_info list" where
  "scan_versions rd ft dir =
     (case ft_entries ft dir of
        None \<Rightarrow> []
      | Some names \<Rightarrow> sort_key vi_version (List.map_filter (scan_entry rd ft) (map (entry_path dir) names)))"

section \<open>Choosing a version\<close>

definition normalized_version :: "string \<Rightarrow> string" where
  "normalized_version v = (if starts_with v ''v'' then v else ''v'' @ v)"

definition resolve_spec_path ::
  "'o spec_readers \<Rightarrow> file_tree \<Rightarrow> path \<Rightarrow> string option \<Rightarrow> (spec_error, path) result" where
  "resolve_spec_path rd ft p version =
     (if ft_is_file ft p then Ok p
      else if \<not> ft_is_dir ft p then Err (SpecIo (show_path p))
      else case version of
        None \<Rightarrow> Err (SpecInvalid (''spec path is a directory; use --version to select an API version (run `specforge versions ''
          @ show_path p @ ''` to see available versions)''))
      | Some v \<Rightarrow>
          let versions = scan_versions rd ft p in
          if versions = [] then Err (SpecInvalid (''no OpenAPI spec files found in '' @ show_path p))
          else case find (\<lambda>info. vi_version info = v) versions of
            Some info \<Rightarrow> Ok (vi_path info)
          | None \<Rightarrow>
              (case find (\<lambda>info. stem_of (vi_path info) = normalized_version v
                               \<or> parent_name (vi_path info) = normalized_version v) versions of
                 Some info \<Rightarrow> Ok (vi_path info)
               | None \<Rightarrow> Err (SpecInvalid (''version '' @ debug_str v @ '' not found; available versions: ''
                   @ join '', '' (map vi_version versions)))))"

section \<open>What a scan finds\<close>

text \<open>A file of version \<open>w\<close>: it reads, decodes, and its \<open>info.version\<close> is \<open>w\<close>.\<close>

definition has_version :: "'o spec_readers \<Rightarrow> path \<Rightarrow> string \<Rightarrow> bool" where
  "has_version rd p w \<longleftrightarrow>
     (\<exists>bytes text j. rd_read rd (show_path p) = Ok bytes \<and> rd_from_utf8 rd bytes = Ok text \<and>
        load_json (rd_json rd) (rd_yaml rd) text = Ok j \<and> extract_info_version j = Some w)"

lemma try_extract_version_iff:
  "try_extract_version rd p = Some info \<longleftrightarrow> vi_path info = p \<and> has_version rd p (vi_version info)"
  by (cases info) (auto simp: try_extract_version_def has_version_def split: sum.splits)

text \<open>The places a scan looks at below a directory: files of it, or files of its subdirectories.\<close>

definition scanned_place :: "file_tree \<Rightarrow> path \<Rightarrow> path \<Rightarrow> bool" where
  "scanned_place ft dir q \<longleftrightarrow>
     ft_is_file ft q \<and>
     (\<exists>name. q = entry_path dir name \<and> is_spec_file q \<or>
       (\<exists>sub. q = entry_path (entry_path dir sub) name \<and>
          (name \<in> {''openapi.yaml'', ''openapi.yml'', ''openapi.json''} \<or> is_spec_file q)))"

lemma first_version_place:
  "first_version rd ps = Some info \<Longrightarrow> vi_path info \<in> set ps \<and> has_version rd (vi_path info) (vi_version info)"
  by (induction ps) (auto simp: try_extract_version_iff split: option.splits)

lemma scan_entry_place:
  assumes "scan_entry rd ft (entry_path dir name) = Some info"
  shows "scanned_place ft dir (vi_path info) \<and> has_version rd (vi_path info) (vi_version info)"
  using assms
  by (fastforce simp: scan_entry_def scanned_place_def try_extract_version_iff scan_version_dir_def
      split: if_splits option.splits dest!: first_version_place)

lemma set_map_filter: "set (List.map_filter f xs) = {y. \<exists>x \<in> set xs. f x = Some y}"
  by (induction xs) (auto split: option.splits)

lemma scan_versions_place:
  "info \<in> set (scan_versions rd ft dir) \<Longrightarrow>
   scanned_place ft dir (vi_path info) \<and> has_version rd (vi_path info) (vi_version info)"
  by (auto simp: scan_versions_def set_map_filter dest: scan_entry_place split: option.splits)

theorem scan_versions_sorted: "sorted (map vi_version (scan_versions rd ft dir))"
  by (simp add: scan_versions_def split: option.split)

text \<open>
  A flat directory: every spec file of it with a readable version is found once, those of equal version in the order of
  the directory.
\<close>

theorem scan_flat_directory:
  assumes "ft_entries ft dir = Some names"
    and "\<forall>name \<in> set names. ft_is_file ft (entry_path dir name)"
  shows "filter (\<lambda>info. vi_version info = w) (scan_versions rd ft dir) =
    map (\<lambda>p. \<lparr>vi_version = w, vi_path = p\<rparr>)
      (filter (\<lambda>p. is_spec_file p \<and> has_version rd p w) (map (entry_path dir) names))"
proof -
  have "filter (\<lambda>info. vi_version info = w) (List.map_filter (scan_entry rd ft) ps) =
      map (\<lambda>p. \<lparr>vi_version = w, vi_path = p\<rparr>) (filter (\<lambda>p. is_spec_file p \<and> has_version rd p w) ps)"
    if "\<forall>p \<in> set ps. ft_is_file ft p" for ps
    using that
  proof (induction ps)
    case (Cons p ps)
    show ?case
    proof (cases "is_spec_file p")
      case False
      with Cons show ?thesis by (simp add: scan_entry_def)
    next
      case True
      show ?thesis
      proof (cases "try_extract_version rd p")
        case None
        then have "\<not> has_version rd p w"
          using try_extract_version_iff [of rd p "\<lparr>vi_version = w, vi_path = p\<rparr>"] by simp
        with None True Cons show ?thesis by (simp add: scan_entry_def)
      next
        case (Some i)
        then have i: "vi_path i = p" "has_version rd p (vi_version i)" by (simp_all add: try_extract_version_iff)
        then have "has_version rd p w \<longleftrightarrow> vi_version i = w" by (auto simp: has_version_def)
        with Some True Cons i show ?thesis by (cases i) (auto simp: scan_entry_def)
      qed
    qed
  qed simp
  from this [of "map (entry_path dir) names"] assms show ?thesis
    by (simp add: scan_versions_def sort_key_stable)
qed


section \<open>The version that is chosen\<close>

text \<open>
  The files by which a subdirectory can be represented, in order of preference: those with a conventional name, then the
  spec files in the order they are listed.
\<close>

definition spec_files :: "file_tree \<Rightarrow> path \<Rightarrow> path list" where
  "spec_files ft d = filter (\<lambda>p. ft_is_file ft p \<and> is_spec_file p)
     (case ft_entries ft d of None \<Rightarrow> [] | Some names \<Rightarrow> map (entry_path d) names)"

definition representatives :: "file_tree \<Rightarrow> path \<Rightarrow> path list" where
  "representatives ft d =
     filter (ft_is_file ft) [entry_path d ''openapi.yaml'', entry_path d ''openapi.yml'', entry_path d ''openapi.json''] @ spec_files ft d"

text \<open>
  The entry \<open>p\<close> of a directory offers the file \<open>q\<close> of version \<open>w\<close>: it is this file, or a directory whose first
  representative with a version it is.
\<close>

definition offers :: "'o spec_readers \<Rightarrow> file_tree \<Rightarrow> path \<Rightarrow> path \<Rightarrow> string \<Rightarrow> bool" where
  "offers rd ft p q w \<longleftrightarrow> has_version rd q w \<and>
     (if ft_is_file ft p then is_spec_file p \<and> q = p
      else ft_is_dir ft p \<and>
        (\<exists>before after. representatives ft p = before @ q # after \<and> (\<forall>r \<in> set before. \<forall>w'. \<not> has_version rd r w')))"

lemma first_version_append:
  "first_version rd (ps @ qs) = (case first_version rd ps of Some info \<Rightarrow> Some info | None \<Rightarrow> first_version rd qs)"
  by (induction ps) (auto split: option.split)

lemma try_extract_version_None: "try_extract_version rd p = None \<longleftrightarrow> (\<forall>w. \<not> has_version rd p w)"
proof
  assume "try_extract_version rd p = None"
  then show "\<forall>w. \<not> has_version rd p w"
    using try_extract_version_iff [of rd p "\<lparr>vi_version = w, vi_path = p\<rparr>" for w] by auto
next
  assume "\<forall>w. \<not> has_version rd p w"
  then show "try_extract_version rd p = None"
    using try_extract_version_iff [of rd p] by (cases "try_extract_version rd p") auto
qed

lemma split_first_Cons:
  "(\<exists>before after. p # ps = before @ q # after \<and> (\<forall>r \<in> set before. N r)) \<longleftrightarrow>
   p = q \<or> N p \<and> (\<exists>before after. ps = before @ q # after \<and> (\<forall>r \<in> set before. N r))" (is "?left \<longleftrightarrow> ?right")
proof
  assume ?left
  then obtain before after where s: "p # ps = before @ q # after" "\<forall>r \<in> set before. N r" by blast
  then show ?right by (cases before) auto
next
  assume ?right
  then show ?left
  proof (elim disjE conjE exE)
    assume "p = q"
    then show ?left by (intro exI [of _ "[]"] exI [of _ ps]) simp
  next
    fix before after
    assume "N p" "ps = before @ q # after" "\<forall>r \<in> set before. N r"
    then show ?left by (intro exI [of _ "p # before"] exI [of _ after]) simp
  qed
qed

lemma has_version_unique: "has_version rd p v \<Longrightarrow> has_version rd p w \<Longrightarrow> v = w"
  by (auto simp: has_version_def)

lemma first_version_iff:
  "first_version rd ps = Some info \<longleftrightarrow> has_version rd (vi_path info) (vi_version info) \<and>
     (\<exists>before after. ps = before @ vi_path info # after \<and> (\<forall>r \<in> set before. \<forall>w. \<not> has_version rd r w))"
proof (induction ps)
  case (Cons p ps)
  show ?case
  proof (cases "try_extract_version rd p")
    case None
    then have "\<forall>w. \<not> has_version rd p w" by (simp add: try_extract_version_None)
    with None Cons.IH show ?thesis unfolding split_first_Cons by auto
  next
    case (Some i)
    then have i: "vi_path i = p" "has_version rd p (vi_version i)" by (simp_all add: try_extract_version_iff)
    then have "i = info \<longleftrightarrow> has_version rd (vi_path info) (vi_version info) \<and> p = vi_path info"
      using has_version_unique by (cases i; cases info) auto
    moreover have "\<not> (\<forall>w. \<not> has_version rd p w)" using i(2) by blast
    ultimately show ?thesis unfolding split_first_Cons using Some by auto
  qed
qed simp

lemma scan_entry_iff: "scan_entry rd ft p = Some info \<longleftrightarrow> offers rd ft p (vi_path info) (vi_version info)"
proof -
  have "scan_version_dir rd ft p = first_version rd (representatives ft p)"
    by (simp add: scan_version_dir_def representatives_def spec_files_def first_version_append split: option.split)
  then show ?thesis
    by (auto simp: scan_entry_def offers_def try_extract_version_iff first_version_iff)
qed

lemma scan_versions_offered:
  assumes "ft_entries ft dir = Some names"
  shows "info \<in> set (scan_versions rd ft dir) \<longleftrightarrow>
    (\<exists>name \<in> set names. offers rd ft (entry_path dir name) (vi_path info) (vi_version info))"
  using assms by (auto simp: scan_versions_def set_map_filter scan_entry_iff)

lemma offered_versions:
  assumes "ft_entries ft dir = Some names"
  shows "(\<exists>q. \<exists>name \<in> set names. offers rd ft (entry_path dir name) q w) \<longleftrightarrow> w \<in> vi_version ` set (scan_versions rd ft dir)"
proof
  assume "\<exists>q. \<exists>name \<in> set names. offers rd ft (entry_path dir name) q w"
  then obtain q where "\<exists>name \<in> set names. offers rd ft (entry_path dir name) q w" by blast
  then have "\<lparr>vi_version = w, vi_path = q\<rparr> \<in> set (scan_versions rd ft dir)" by (simp add: scan_versions_offered [OF assms])
  then show "w \<in> vi_version ` set (scan_versions rd ft dir)" by force
next
  assume "w \<in> vi_version ` set (scan_versions rd ft dir)"
  then obtain info where "info \<in> set (scan_versions rd ft dir)" "w = vi_version info" by blast
  then show "\<exists>q. \<exists>name \<in> set names. offers rd ft (entry_path dir name) q w"
    unfolding scan_versions_offered [OF assms] by blast
qed

lemma find_sorted: "sorted (map f xs) \<Longrightarrow> find P xs = Some x \<Longrightarrow> y \<in> set xs \<Longrightarrow> P y \<Longrightarrow> f x \<le> f y"
  by (induction xs) (auto split: if_splits)

text \<open>
  C15. A directory of specs answers a requested version by what its entries offer: a spec file itself, a subdirectory its
  first representative with a version, conventional names first. If some entry offers the requested version, a file of that
  version is chosen; otherwise, among the offered files whose stem, or the name of whose directory, is the request with a
  leading v, one of the lowest version; and if there is none of these either, the request fails.
\<close>

theorem chosen_version_exact:
  fixes rd ft dir names
  defines "offered \<equiv> \<lambda>q w. \<exists>name \<in> set names. offers rd ft (entry_path dir name) q w"
    and "named \<equiv> \<lambda>q v. stem_of q = normalized_version v \<or> parent_name q = normalized_version v"
  assumes "\<not> ft_is_file ft dir" and "ft_is_dir ft dir" and "ft_entries ft dir = Some names"
  shows "case resolve_spec_path rd ft dir (Some v) of
      Inr q \<Rightarrow> (\<exists>w. offered q w \<and>
        (if \<exists>q'. offered q' v then w = v
         else named q v \<and> (\<forall>q' w'. offered q' w' \<and> named q' v \<longrightarrow> w \<le> w')))
    | Inl e \<Rightarrow> \<not> (\<exists>q w. offered q w \<and> (w = v \<or> named q v))"
proof -
  let ?vs = "scan_versions rd ft dir"
  have vs: "info \<in> set ?vs \<longleftrightarrow> offered (vi_path info) (vi_version info)" for info
    using scan_versions_offered [OF assms(5)] by (simp add: offered_def)
  then have offer: "offered q w \<longleftrightarrow> \<lparr>vi_version = w, vi_path = q\<rparr> \<in> set ?vs" for q w by simp
  show ?thesis
  proof (cases "find (\<lambda>info. vi_version info = v) ?vs")
    case (Some info)
    then have info: "info \<in> set ?vs" "vi_version info = v" by (auto simp: find_Some_iff)
    then have "offered (vi_path info) v" using vs by metis
    moreover have "resolve_spec_path rd ft dir (Some v) = Ok (vi_path info)"
      using assms(3,4) Some info(1) by (auto simp: resolve_spec_path_def Let_def)
    ultimately show ?thesis by auto
  next
    case None
    then have none: "\<not> offered q v" for q by (auto simp: find_None_iff offer)
    let ?find = "find (\<lambda>info. stem_of (vi_path info) = normalized_version v \<or> parent_name (vi_path info) = normalized_version v) ?vs"
    show ?thesis
    proof (cases ?find)
      case None': None
      then have "\<not> (offered q w \<and> named q v)" for q w by (auto simp: find_None_iff offer named_def)
      moreover have "\<exists>e. resolve_spec_path rd ft dir (Some v) = Err e"
        using assms(3,4) None None' by (auto simp: resolve_spec_path_def Let_def)
      ultimately show ?thesis using none by auto
    next
      case (Some info)
      then have info: "info \<in> set ?vs" "named (vi_path info) v" by (auto simp: find_Some_iff named_def)
      have "vi_version info \<le> w'" if "offered q' w'" "named q' v" for q' w'
        using find_sorted [OF scan_versions_sorted Some, of "\<lparr>vi_version = w', vi_path = q'\<rparr>"] that
        by (auto simp: offer named_def)
      moreover have "resolve_spec_path rd ft dir (Some v) = Ok (vi_path info)"
        using assms(3,4) None Some info(1) by (auto simp: resolve_spec_path_def Let_def)
      ultimately show ?thesis using info vs none by auto
    qed
  qed
qed

text \<open>A request fails exactly when the directory has no readable spec or none of the requested version or name.\<close>

theorem version_not_found_iff:
  assumes "\<not> ft_is_file ft dir" and "ft_is_dir ft dir"
  shows "(\<exists>e. resolve_spec_path rd ft dir (Some v) = Err e) \<longleftrightarrow>
    (\<forall>info \<in> set (scan_versions rd ft dir). vi_version info \<noteq> v \<and>
       stem_of (vi_path info) \<noteq> normalized_version v \<and> parent_name (vi_path info) \<noteq> normalized_version v)"
  using assms
  by (auto simp: resolve_spec_path_def Let_def find_None_iff find_Some_iff split: option.split)

section \<open>Examples\<close>

text \<open>A directory with two flat files and one subdirectory; the text of a file stands for its version.\<close>

definition sample_tree :: "string \<Rightarrow> file_tree" where
  "sample_tree d =
     \<lparr>ft_is_file = (\<lambda>p. ends_with (show_path p) ''.yaml''),
      ft_is_dir = (\<lambda>p. p = read_path d \<or> p = entry_path (read_path d) ''v3''),
      ft_entries = (\<lambda>p. if p = read_path d then Some [''v2.yaml'', ''v1.yaml'', ''v3'', ''notes.txt'']
                        else if p = entry_path (read_path d) ''v3'' then Some [''service.yaml''] else None)\<rparr>"

definition sample_readers :: "'o \<Rightarrow> 'o spec_readers" where
  "sample_readers spec =
     \<lparr>rd_read = (\<lambda>p. if ends_with p ''v1.yaml'' then Ok ''1.0.0'' else if ends_with p ''v2.yaml'' then Ok ''1.5.0''
                      else if ends_with p ''service.yaml'' then Ok ''0.9.0'' else Err ''not found''),
      rd_from_utf8 = Ok,
      rd_json = (\<lambda>t. Some (JObject [(''info'', JObject [(''version'', JString t)])])),
      rd_yaml = (\<lambda>t. Err ''yaml''), rd_from_value = (\<lambda>j. Ok spec)\<rparr>"

lemma sample_scan:
  "map (\<lambda>i. (vi_version i, show_path (vi_path i)))
     (scan_versions (sample_readers ()) (sample_tree ''specs'') (read_path ''specs'')) =
   [(''0.9.0'', ''specs/v3/service.yaml''), (''1.0.0'', ''specs/v1.yaml''), (''1.5.0'', ''specs/v2.yaml'')]"
  by code_simp

theorem chosen_version_exact_witness:
  "has_version (sample_readers ()) (read_path ''specs/v2.yaml'') ''1.5.0'' \<and>
   stem_of (read_path ''specs/v2.yaml'') = normalized_version ''2''"
proof
  let ?rd = "sample_readers ()" and ?ft = "sample_tree ''specs''" and ?dir = "read_path ''specs''"
    and ?names = "[''v2.yaml'', ''v1.yaml'', ''v3'', ''notes.txt'']"
  have dir: "\<not> ft_is_file ?ft ?dir" "ft_is_dir ?ft ?dir" "ft_entries ?ft ?dir = Some ?names" by code_simp+
  have exact: "resolve_spec_path ?rd ?ft ?dir (Some ''1.5.0'') = Ok (read_path ''specs/v2.yaml'')"
    and named: "resolve_spec_path ?rd ?ft ?dir (Some ''2'') = Ok (read_path ''specs/v2.yaml'')" by code_simp+
  have "vi_version ` set (scan_versions ?rd ?ft ?dir) = {''0.9.0'', ''1.0.0'', ''1.5.0''}"
    using arg_cong [OF sample_scan, of "\<lambda>xs. set (map fst xs)"] by (simp add: image_image)
  then have known: "\<exists>q. \<exists>name \<in> set ?names. offers ?rd ?ft (entry_path ?dir name) q ''1.5.0''"
    and unknown: "\<not> (\<exists>q. \<exists>name \<in> set ?names. offers ?rd ?ft (entry_path ?dir name) q ''2'')"
    unfolding offered_versions [OF dir(3)] by simp_all
  from chosen_version_exact [OF dir, of ?rd "''1.5.0''"] known
  show "has_version ?rd (read_path ''specs/v2.yaml'') ''1.5.0''" unfolding exact by (auto simp: offers_def)
  have "parent_name (read_path ''specs/v2.yaml'') \<noteq> normalized_version ''2''" by code_simp
  with chosen_version_exact [OF dir, of ?rd "''2''"] unknown
  show "stem_of (read_path ''specs/v2.yaml'') = normalized_version ''2''" unfolding named by auto
qed

theorem version_not_found_iff_witness:
  "\<exists>e. resolve_spec_path (sample_readers ()) (sample_tree ''specs'') (read_path ''specs'') (Some ''7'') = Err e"
proof (subst version_not_found_iff)
  show "\<forall>info \<in> set (scan_versions (sample_readers ()) (sample_tree ''specs'') (read_path ''specs'')).
      vi_version info \<noteq> ''7'' \<and> stem_of (vi_path info) \<noteq> normalized_version ''7''
      \<and> parent_name (vi_path info) \<noteq> normalized_version ''7''"
    by code_simp
qed code_simp+

theorem scan_flat_directory_witness:
  "filter (\<lambda>info. vi_version info = ''1.0.0'')
     (scan_versions (sample_readers ()) (sample_tree ''specs'' \<lparr>ft_entries := \<lambda>p. Some [''v1.yaml'']\<rparr>) (read_path ''specs'')) =
   map (\<lambda>p. \<lparr>vi_version = ''1.0.0'', vi_path = p\<rparr>)
     (filter (\<lambda>p. is_spec_file p \<and> has_version (sample_readers ()) p ''1.0.0'')
       (map (entry_path (read_path ''specs'')) [''v1.yaml'']))"
proof (rule scan_flat_directory)
  have "ft_is_file (sample_tree ''specs'') (entry_path (read_path ''specs'') ''v1.yaml'')" by code_simp
  then show "\<forall>name \<in> set [''v1.yaml'']. ft_is_file (sample_tree ''specs'' \<lparr>ft_entries := \<lambda>p. Some [''v1.yaml'']\<rparr>)
      (entry_path (read_path ''specs'') name)" by simp
qed simp

text \<open>
  The name of the directory that is scanned counts as well: in a directory called v1 the request 1 is answered with the
  file of the lowest version, whatever it is called.
\<close>

theorem own_directory_name_matches:
  "resolve_spec_path (sample_readers ()) (sample_tree ''v1'' \<lparr>ft_entries := \<lambda>p. Some [''v2.yaml'']\<rparr>) (read_path ''v1'') (Some ''1'') =
   Ok (read_path ''v1/v2.yaml'')"
  by code_simp

end
