(* ===== verification/Cli_Projects.thy ===== *)
theory Cli_Projects
  imports Cli_Base Spec_Versions Versioning I18n Changelog Marketplace
begin

text \<open>
  The commands of crates/specforge-cli/src/main.rs that write SDKs and projects: \<open>generate\<close> with its version, webhook,
  locale, plugin and changelog options, \<open>versions\<close>, \<open>workspace\<close>, \<open>workspace-init\<close> and \<open>init\<close>. The three emitters
  are a parameter that returns the files written or an error; which files they write is modelled in Ts_Package,
  Go_Methods and Rust_Methods.
\<close>

section \<open>Emitters\<close>

datatype lang = LangTs | LangGo | LangRust

record emit_options =
  eo_out_dir :: path
  eo_name :: "string option"
  eo_i18n :: "i18n_config option"

type_synonym emitters = "lang \<Rightarrow> document \<Rightarrow> emit_options \<Rightarrow> path list cmd"

definition emit_context :: "lang \<Rightarrow> string" where
  "emit_context l =
     (case l of LangTs \<Rightarrow> ''failed to emit TypeScript SDK'' | LangGo \<Rightarrow> ''failed to emit Go SDK'' | LangRust \<Rightarrow> ''failed to emit Rust SDK'')"

section \<open>Plugins\<close>

record plugin_world =
  pw_config_yaml :: "string \<Rightarrow> (string, specforge_config) result"
  pw_built_in :: "plugin_entry list"

definition config_file_path :: path where
  "config_file_path = read_path ''.specforge.yaml''"

definition load_specforge_config :: "cli_world \<Rightarrow> plugin_world \<Rightarrow> path \<Rightarrow> (spec_error, specforge_config) result" where
  "load_specforge_config w pw p =
     load_config (pw_config_yaml pw) (case cw_read_text w p of Inl e \<Rightarrow> Inl (show_path p) | Inr t \<Rightarrow> Inr t)"

text \<open>The entry of the configuration file, when the file is there, decodes and names the plugin.\<close>

definition configured_plugin :: "cli_world \<Rightarrow> plugin_world \<Rightarrow> string \<Rightarrow> plugin_config option" where
  "configured_plugin w pw name =
     (if cw_exists w config_file_path
      then (case load_specforge_config w pw config_file_path of Inl e \<Rightarrow> None | Inr config \<Rightarrow> find_plugin name config)
      else None)"

definition marketplace_plugin :: "cli_world \<Rightarrow> plugin_world \<Rightarrow> string \<Rightarrow> path cmd" where
  "marketplace_plugin w pw name =
     (case plugin_index_find name (pw_built_in pw) of
        Some p \<Rightarrow>
          let local = join_path (read_path ''plugins'') (read_path (name @ ''.wasm'')) in
          if cw_exists w local then cmd_ok local
          else bail (''plugin '' @ [CHR 39] @ name @ [CHR 39] @ '' is available in the marketplace but not installed.'' @ newline
                 @ ''Run: specforge plugin install '' @ name)
      | None \<Rightarrow>
          (case filter (cw_exists w) [read_path (''plugins/'' @ name @ ''.wasm''), read_path (''./'' @ name @ ''.wasm'')] of
             p # _ \<Rightarrow> cmd_ok p
           | [] \<Rightarrow> bail (''unknown plugin '' @ [CHR 39] @ name @ [CHR 39] @ ''. Available plugins can be listed with:'' @ newline
                    @ ''specforge plugin list'')))"

definition resolve_plugin_path :: "cli_world \<Rightarrow> plugin_world \<Rightarrow> string \<Rightarrow> path cmd" where
  "resolve_plugin_path w pw name =
     (case configured_plugin w pw name of
        Some plugin \<Rightarrow>
          if cw_exists w (read_path (pc_path plugin)) then cmd_ok (read_path (pc_path plugin))
          else
            let resolved = join_path (base_of config_file_path) (read_path (pc_path plugin)) in
            if cw_exists w resolved then cmd_ok resolved
            else bail (''plugin '' @ [CHR 39] @ name @ [CHR 39] @ '' is configured in '' @ show_path config_file_path
                   @ '' but '' @ pc_path plugin @ '' not found'')
      | None \<Rightarrow> marketplace_plugin w pw name)"

section \<open>generate\<close>

record generate_args =
  ga_spec :: path
  ga_out :: path
  ga_lang :: lang
  ga_package_name :: "string option"
  ga_version :: "string option"
  ga_include_webhooks :: bool
  ga_locale :: "string list option"
  ga_changelog :: bool
  ga_changelog_previous :: "path option"
  ga_version_prefix :: "string option"
  ga_plugin :: "string option"

definition read_spec_full :: "'o spec_readers \<Rightarrow> string \<Rightarrow> (spec_error, 'o parsed_spec) result" where
  "read_spec_full rd =
     parse_file (rd_read rd) (parse_bytes (rd_from_utf8 rd) (parse_str_full (rd_json rd) (rd_yaml rd) (rd_from_value rd)))"

definition load_for_generate :: "cli_world \<Rightarrow> bool \<Rightarrow> path \<Rightarrow> document cmd" where
  "load_for_generate w webhooks p =
     (if webhooks
      then cmd_bind (with_context (''failed to parse spec at '' @ show_path p)
               (lift_result ReadFailed (read_spec_full (cw_readers w) (show_path p)))) (\<lambda>parsed.
             with_context ''failed to resolve spec into IR''
               (lift_result ResolveFailed (resolve_with_webhooks (ps_spec parsed) (ps_webhooks parsed))))
      else load_document w p)"

definition prefix_versioning :: "string option \<Rightarrow> document \<Rightarrow> document" where
  "prefix_versioning prefix doc =
     (case prefix of
        None \<Rightarrow> doc
      | Some p \<Rightarrow> apply_versioning doc \<lparr>vc_strategy = UrlPath, vc_prefix = Some p, vc_header_name = None\<rparr>)"

text \<open>\<open>--plugin\<close> only leaves a marker file with the path of the plugin; the built-in emitter runs all the same.\<close>

definition record_plugin :: "cli_world \<Rightarrow> plugin_world \<Rightarrow> generate_args \<Rightarrow> unit cmd" where
  "record_plugin w pw args =
     (case ga_plugin args of
        None \<Rightarrow> cmd_ok ()
      | Some name \<Rightarrow>
          cmd_bind (with_context (''failed to resolve plugin '' @ [CHR 39] @ name @ [CHR 39]) (resolve_plugin_path w pw name))
            (\<lambda>p. cmd_bind (create_dir_all w (ga_out args)) (\<lambda>_.
               write_file w (join_path (ga_out args) (read_path ''.plugin-used'')) (show_path p))))"

definition write_changelog ::
  "cli_world \<Rightarrow> (changelog_result \<Rightarrow> string option) \<Rightarrow> iter_orders \<Rightarrow> 64 word \<Rightarrow> document \<Rightarrow> generate_args \<Rightarrow> nat cmd" where
  "write_changelog w to_pretty ords secs doc args =
     (if ga_changelog args
      then cmd_bind (write_file w (join_path (ga_out args) (read_path ''CHANGELOG.md''))
             (generate_changelog (cw_readers w) to_pretty ords secs doc
               \<lparr>clo_version = ga_version args, clo_previous_spec = map_option show_path (ga_changelog_previous args),
                clo_suggest_version = False, clo_format = FmtMarkdown\<rparr>)) (\<lambda>_. cmd_ok 1)
      else cmd_ok 0)"

definition run_generate ::
  "cli_world \<Rightarrow> file_tree \<Rightarrow> plugin_world \<Rightarrow> emitters \<Rightarrow> (changelog_result \<Rightarrow> string option) \<Rightarrow> iter_orders \<Rightarrow> 64 word
     \<Rightarrow> generate_args \<Rightarrow> nat cmd" where
  "run_generate w ft pw emit to_pretty ords secs args =
     cmd_bind (with_context ''failed to resolve spec path''
         (lift_result ReadFailed (resolve_spec_path (cw_readers w) ft (ga_spec args) (ga_version args)))) (\<lambda>p.
     cmd_bind (load_for_generate w (ga_include_webhooks args) p) (\<lambda>doc0.
       let doc = prefix_versioning (ga_version_prefix args) doc0 in
     cmd_bind (record_plugin w pw args) (\<lambda>_.
     cmd_bind (with_context (emit_context (ga_lang args))
         (emit (ga_lang args) doc \<lparr>eo_out_dir = ga_out args, eo_name = ga_package_name args,
            eo_i18n = map_option from_locales (ga_locale args)\<rparr>)) (\<lambda>written.
     cmd_bind (write_changelog w to_pretty ords secs doc args) (\<lambda>extra.
       let file_count = length written + extra in
       if file_count = 0 then bail ''emitter wrote zero files'' else cmd_ok file_count)))))"

section \<open>versions\<close>

definition version_table :: "version_info list \<Rightarrow> string list" where
  "version_table versions =
     (let n = max (foldr max (map (length \<circ> vi_version) versions) 0) (length ''VERSION'')
      in [pad_right '' '' n ''VERSION'' @ ''  FILE'', pad_right ''-'' n [] @ ''  '' @ pad_right ''-'' 40 []]
         @ map (\<lambda>i. pad_right '' '' n (vi_version i) @ ''  '' @ show_path (vi_path i)) versions)"

definition run_versions :: "cli_world \<Rightarrow> file_tree \<Rightarrow> path \<Rightarrow> unit cmd" where
  "run_versions w ft p =
     (if ft_is_file ft p
      then cmd_bind (parse_spec w ''spec'' p) (\<lambda>spec.
             cmd_then [eprintln (''version: '' @ spec_version spec), eprintln (''file:    '' @ show_path p)] (cmd_ok ()))
      else if \<not> ft_is_dir ft p then bail (''path does not exist: '' @ show_path p)
      else
        let versions = scan_versions (cw_readers w) ft p in
        if versions = [] then bail (''no OpenAPI spec files found in '' @ show_path p)
        else cmd_then (map eprintln (version_table versions)
               @ [eprintln (newline @ show_nat (length versions) @ '' version(s) found'')]) (cmd_ok ()))"

section \<open>workspace\<close>

record workspace_args =
  wa_config :: path
  wa_only :: "string option"
  wa_dry_run :: bool

record workspace_run_result =
  wr_specs_processed :: nat
  wr_outputs_generated :: nat
  wr_files_written :: nat

definition lang_named :: "string \<Rightarrow> lang option" where
  "lang_named s =
     (if s \<in> {''ts'', ''typescript''} then Some LangTs
      else if s = ''go'' then Some LangGo
      else if s = ''rust'' then Some LangRust
      else None)"

definition in_brackets :: "string \<Rightarrow> string" where
  "in_brackets name = ''['' @ name @ '']''"

text \<open>One output of a spec: the number of files written.\<close>

definition run_output :: "emitters \<Rightarrow> path \<Rightarrow> string \<Rightarrow> document \<Rightarrow> workspace_output \<Rightarrow> nat cmd" where
  "run_output emit config name doc out =
     (case lang_named (wo_lang out) of
        None \<Rightarrow> bail (in_brackets name @ '' unsupported language: '' @ wo_lang out)
      | Some l \<Rightarrow>
          cmd_bind (with_context (in_brackets name @ '' '' @ emit_context l)
              (emit l doc \<lparr>eo_out_dir = resolved_out_path config out, eo_name = wo_name out, eo_i18n = None\<rparr>))
            (\<lambda>written. cmd_ok (length written)))"

definition dry_line :: "workspace_output \<Rightarrow> cli_event" where
  "dry_line out =
     eprintln (''  '' @ wo_lang out @ '' -> '' @ wo_out out @ '' (''
       @ (case wo_name out of Some n \<Rightarrow> n | None \<Rightarrow> ''(default)'') @ '')'')"

text \<open>One spec: the number of outputs and of files.\<close>

definition run_workspace_spec :: "cli_world \<Rightarrow> emitters \<Rightarrow> workspace_args \<Rightarrow> workspace_spec \<Rightarrow> (nat \<times> nat) cmd" where
  "run_workspace_spec w emit args s =
     (let p = resolved_spec_path (wa_config args) s in
      if wa_dry_run args then cmd_then (map dry_line (ws_outputs s)) (cmd_ok (length (ws_outputs s), 0))
      else
        cmd_bind (with_context (in_brackets (ws_name s) @ '' failed to parse spec at '' @ show_path p)
            (lift_result ReadFailed (read_spec (cw_readers w) (show_path p)))) (\<lambda>spec.
        cmd_bind (resolve_spec (in_brackets (ws_name s) @ '' failed to resolve spec into IR'') spec) (\<lambda>doc.
        cmd_bind (cmd_each (run_output emit (wa_config args) (ws_name s) doc) (ws_outputs s)) (\<lambda>files.
          cmd_ok (length files, sum_list files)))))"

definition selected_specs :: "workspace_args \<Rightarrow> workspace_spec list \<Rightarrow> workspace_spec list" where
  "selected_specs args specs = filter (\<lambda>s. case wa_only args of None \<Rightarrow> True | Some n \<Rightarrow> ws_name s = n) specs"

definition run_workspace ::
  "cli_world \<Rightarrow> (string \<Rightarrow> (string, workspace_spec list) result) \<Rightarrow> emitters \<Rightarrow> workspace_args \<Rightarrow> workspace_run_result cmd" where
  "run_workspace w yaml emit args =
     cmd_bind (with_context (''failed to load workspace config from '' @ show_path (wa_config args))
         (lift_result ReadFailed (load_config yaml
            (case cw_read_text w (wa_config args) of Inl e \<Rightarrow> Inl (show_path (wa_config args)) | Inr t \<Rightarrow> Inr t))))
       (\<lambda>specs.
     cmd_bind (cmd_each (run_workspace_spec w emit args) (selected_specs args specs)) (\<lambda>counts.
       if counts = [] then
         bail (if wa_only args \<noteq> None then ''no spec matched --only filter; check the name in your workspace config''
               else ''workspace config contains no specs'')
       else cmd_ok \<lparr>wr_specs_processed = length counts, wr_outputs_generated = sum_list (map fst counts),
              wr_files_written = sum_list (map snd counts)\<rparr>))"

section \<open>Workspaces\<close>

text \<open>What a run needs of an output and of a spec: it loads, and every output has a language and is emitted.\<close>

definition output_files :: "emitters \<Rightarrow> workspace_args \<Rightarrow> document \<Rightarrow> workspace_output \<Rightarrow> nat \<Rightarrow> bool" where
  "output_files emit args doc out n \<longleftrightarrow>
     (\<exists>l written. lang_named (wo_lang out) = Some l \<and> n = length written \<and>
        snd (emit l doc \<lparr>eo_out_dir = resolved_out_path (wa_config args) out, eo_name = wo_name out, eo_i18n = None\<rparr>) = Ok written)"

definition spec_runs :: "cli_world \<Rightarrow> emitters \<Rightarrow> workspace_args \<Rightarrow> workspace_spec \<Rightarrow> nat list \<Rightarrow> bool" where
  "spec_runs w emit args s files \<longleftrightarrow>
     (\<exists>doc. document_in w (resolved_spec_path (wa_config args) s) = Some doc \<and>
        list_all2 (output_files emit args doc) (ws_outputs s) files)"

lemma run_output_returns:
  "snd (run_output emit (wa_config args) name doc out) = Ok n \<longleftrightarrow> output_files emit args doc out n"
  by (auto simp: run_output_def output_files_def cmd_iff split: option.split)

lemma run_spec_returns:
  assumes "\<not> wa_dry_run args"
  shows "snd (run_workspace_spec w emit args s) = Ok c \<longleftrightarrow>
    (\<exists>files. spec_runs w emit args s files \<and> c = (length (ws_outputs s), sum_list files))"
proof -
  have "snd (run_workspace_spec w emit args s) = Ok c \<longleftrightarrow>
      (\<exists>doc files. document_in w (resolved_spec_path (wa_config args) s) = Some doc \<and>
         list_all2 (output_files emit args doc) (ws_outputs s) files \<and> c = (length files, sum_list files))"
    using assms
    by (auto simp: run_workspace_spec_def Let_def cmd_iff resolve_spec_def document_in_def run_output_returns split: sum.splits)
  then show ?thesis
    unfolding spec_runs_def by (metis list_all2_lengthD)
qed

lemma list_all2_choice:
  "list_all2 (\<lambda>s c. \<exists>fs. R s fs \<and> c = g s fs) ss cs \<longleftrightarrow> (\<exists>files. list_all2 R ss files \<and> cs = map2 g ss files)"
proof (induction ss arbitrary: cs)
  case (Cons s ss)
  show ?case
  proof
    assume "list_all2 (\<lambda>s c. \<exists>fs. R s fs \<and> c = g s fs) (s # ss) cs"
    then obtain fs cs' where "cs = g s fs # cs'" "R s fs" "list_all2 (\<lambda>s c. \<exists>fs. R s fs \<and> c = g s fs) ss cs'"
      by (auto simp: list_all2_Cons1)
    with Cons.IH obtain files where "list_all2 R ss files" "cs' = map2 g ss files" by blast
    with \<open>cs = _\<close> \<open>R s fs\<close> show "\<exists>files. list_all2 R (s # ss) files \<and> cs = map2 g (s # ss) files"
      by (intro exI [of _ "fs # files"]) simp
  qed (auto simp: list_all2_Cons1 Cons.IH)
qed simp

lemma run_spec_dry:
  assumes "wa_dry_run args"
  shows "run_workspace_spec w emit args s = (map dry_line (ws_outputs s), Ok (length (ws_outputs s), 0))"
  using assms by (simp add: run_workspace_spec_def cmd_then_def cmd_ok_def)

definition configured_specs ::
  "cli_world \<Rightarrow> (string \<Rightarrow> (string, workspace_spec list) result) \<Rightarrow> path \<Rightarrow> workspace_spec list option" where
  "configured_specs w yaml config =
     (case cw_read_text w config of Inl e \<Rightarrow> None | Inr t \<Rightarrow> (case yaml t of Inl e \<Rightarrow> None | Inr specs \<Rightarrow> Some specs))"

lemma load_config_returns:
  "load_config yaml (case cw_read_text w p of Inl e \<Rightarrow> Inl x | Inr t \<Rightarrow> Inr t) = Ok specs \<longleftrightarrow>
   configured_specs w yaml p = Some specs"
  by (auto simp: load_config_def configured_specs_def split: sum.split)

text \<open>
  A workspace run returns exactly when the configuration loads, \<open>--only\<close> leaves a spec, and every spec left loads
  and all its outputs are emitted; it counts the specs, the outputs and the files written.
\<close>

theorem workspace_run_exact:
  assumes "\<not> wa_dry_run args"
  shows "snd (run_workspace w yaml emit args) = Ok r \<longleftrightarrow>
    (\<exists>specs files. configured_specs w yaml (wa_config args) = Some specs \<and> selected_specs args specs \<noteq> [] \<and>
       list_all2 (spec_runs w emit args) (selected_specs args specs) files \<and>
       r = \<lparr>wr_specs_processed = length (selected_specs args specs),
            wr_outputs_generated = sum_list (map (length \<circ> ws_outputs) (selected_specs args specs)),
            wr_files_written = sum_list (map sum_list files)\<rparr>)"
proof -
  have counts: "list_all2 (\<lambda>s c. snd (run_workspace_spec w emit args s) = Ok c) ss cs \<longleftrightarrow>
      (\<exists>files. list_all2 (spec_runs w emit args) ss files \<and>
         cs = map2 (\<lambda>s fs. (length (ws_outputs s), sum_list fs)) ss files)" for ss cs
    unfolding run_spec_returns [OF assms] by (rule list_all2_choice)
  define cs where "cs ss files = map2 (\<lambda>s fs. (length (ws_outputs s), sum_list fs)) ss files"
    for ss :: "workspace_spec list" and files :: "nat list list"
  define res where "res cs = \<lparr>wr_specs_processed = length cs, wr_outputs_generated = sum_list (map fst cs),
      wr_files_written = sum_list (map snd cs)\<rparr>" for cs :: "(nat \<times> nat) list"
  have sums: "length ss = length files \<Longrightarrow> (cs ss files = [] \<longleftrightarrow> ss = []) \<and>
      res (cs ss files) = \<lparr>wr_specs_processed = length ss, wr_outputs_generated = sum_list (map (length \<circ> ws_outputs) ss),
        wr_files_written = sum_list (map sum_list files)\<rparr>" for ss files
    unfolding res_def cs_def by (induction ss files rule: list_induct2) auto
  have "snd (run_workspace w yaml emit args) = Ok r \<longleftrightarrow>
    (\<exists>specs xs. configured_specs w yaml (wa_config args) = Some specs \<and>
       list_all2 (\<lambda>s c. snd (run_workspace_spec w emit args s) = Ok c) (selected_specs args specs) xs \<and>
       xs \<noteq> [] \<and> r = res xs)"
    by (auto simp: run_workspace_def cmd_iff load_config_returns res_def split: if_splits)
  also have "\<dots> \<longleftrightarrow> (\<exists>specs files. configured_specs w yaml (wa_config args) = Some specs \<and>
       list_all2 (spec_runs w emit args) (selected_specs args specs) files \<and>
       cs (selected_specs args specs) files \<noteq> [] \<and> r = res (cs (selected_specs args specs) files))"
    unfolding counts cs_def by blast
  also have "\<dots> \<longleftrightarrow> (\<exists>specs files. configured_specs w yaml (wa_config args) = Some specs \<and> selected_specs args specs \<noteq> [] \<and>
       list_all2 (spec_runs w emit args) (selected_specs args specs) files \<and>
       r = \<lparr>wr_specs_processed = length (selected_specs args specs),
            wr_outputs_generated = sum_list (map (length \<circ> ws_outputs) (selected_specs args specs)),
            wr_files_written = sum_list (map sum_list files)\<rparr>)"
    using sums by (metis list_all2_lengthD)
  finally show ?thesis .
qed

text \<open>
  A dry run reads no spec: it announces what a run would do, with the same numbers of specs and outputs when the run
  returns, but also for specs that do not load and languages that do not exist.
\<close>

theorem workspace_dry_run_agrees:
  assumes "\<not> wa_dry_run args" and "snd (run_workspace w yaml emit args) = Ok r"
  shows "snd (run_workspace w yaml emit (args\<lparr>wa_dry_run := True\<rparr>)) = Ok (r\<lparr>wr_files_written := 0\<rparr>)"
proof -
  from assms(2) obtain specs where specs: "configured_specs w yaml (wa_config args) = Some specs"
    "selected_specs args specs \<noteq> []" "wr_specs_processed r = length (selected_specs args specs)"
    "wr_outputs_generated r = sum_list (map (length \<circ> ws_outputs) (selected_specs args specs))"
    unfolding workspace_run_exact [OF assms(1)] by auto
  have "snd (cmd_each (run_workspace_spec w emit (args\<lparr>wa_dry_run := True\<rparr>)) ss) = Ok (map (\<lambda>s. (length (ws_outputs s), 0)) ss)" for ss
    by (simp add: each_returns run_spec_dry list_all2_conv_all_nth)
  then have "snd (run_workspace w yaml emit (args\<lparr>wa_dry_run := True\<rparr>)) =
      Ok \<lparr>wr_specs_processed = length (selected_specs args specs),
          wr_outputs_generated = sum_list (map (length \<circ> ws_outputs) (selected_specs args specs)), wr_files_written = 0\<rparr>"
    using specs(1,2)
    by (auto simp: run_workspace_def cmd_iff load_config_returns selected_specs_def comp_def
        intro!: exI [of _ "map (\<lambda>s. (length (ws_outputs s), 0)) (selected_specs args specs)"])
  with specs(3,4) show ?thesis by (cases r) simp
qed

section \<open>Plugins\<close>

text \<open>\<open>enabled: false\<close> is not looked at: a plugin of that name is used.\<close>

theorem disabled_plugin_is_used:
  assumes "configured_plugin w pw name = Some p" and "cw_exists w (read_path (pc_path p))"
  shows "resolve_plugin_path w pw name = cmd_ok (read_path (pc_path p))"
  using assms by (simp add: resolve_plugin_path_def)

theorem disabled_plugin_is_used_witness:
  fixes w :: cli_world and pw :: plugin_world
  defines "w \<equiv> one_world\<lparr>cw_read_text := (\<lambda>p. Ok ''yaml''), cw_exists := (\<lambda>p. True)\<rparr>"
    and "pw \<equiv> \<lparr>pw_config_yaml = (\<lambda>t. Ok \<lparr>sc_specs = [], sc_plugins = [\<lparr>pc_name = ''audit'', pc_path = ''p.wasm'', pc_enabled = False\<rparr>]\<rparr>),
      pw_built_in = []\<rparr>"
  shows "resolve_plugin_path w pw ''audit'' = cmd_ok (read_path ''p.wasm'')"
  using disabled_plugin_is_used [of w pw "''audit''" "\<lparr>pc_name = ''audit'', pc_path = ''p.wasm'', pc_enabled = False\<rparr>"]
  by (simp add: w_def pw_def configured_plugin_def load_specforge_config_def load_config_def find_plugin_def)

text \<open>
  \<open>specforge plugin install\<close> names the file by the marketplace entry, \<open>generate --plugin\<close> looks for the name that
  was typed: without a configuration file an installed plugin is found exactly when its name was typed in the
  marketplace's spelling, though the marketplace itself ignores case.
\<close>

theorem installed_plugin_found_iff:
  assumes install: "install_plugin get mkdir write (pw_built_in pw) name (read_path ''./plugins'') = (Inr dest, written)"
    and entry: "plugin_index_find name (pw_built_in pw) = Some p" "name_ok (pe_name p)" "name_ok name"
    and files: "\<And>q. cw_exists w q \<longleftrightarrow>
      show_path q \<in> {''plugins/'' @ pe_name p @ ''.wasm'', ''./plugins/'' @ pe_name p @ ''.wasm''}"
  shows "dest = join_path (read_path ''./plugins'') (read_path (pe_name p @ ''.wasm'')) \<and>
    ((\<exists>q. snd (resolve_plugin_path w pw name) = Ok q) \<longleftrightarrow> name = pe_name p)"
proof -
  have wasm: "name_ok (n @ ''.wasm'')" if "name_ok n" for n
    using that by (auto simp: name_ok_def)
  have read: "join_path (read_path ''plugins'') (read_path (n @ ''.wasm'')) =
      \<lparr>pa_absolute = False, pa_components = [''plugins'', n @ ''.wasm'']\<rparr>" if "name_ok n" for n
    using read_path_name [OF wasm [OF that]] read_path_name [of "''plugins''"] wasm [OF that]
    by (auto simp: join_path_def name_ok_def)
  have "cw_exists w config_file_path = False"
    by (simp add: files config_file_path_def read_path_name name_ok_def show_path_def)
  then have none: "configured_plugin w pw name = None" by (simp add: configured_plugin_def)
  have "cw_exists w (join_path (read_path ''plugins'') (read_path (name @ ''.wasm''))) \<longleftrightarrow> name = pe_name p"
    by (simp add: files read [OF entry(3)] show_path_def)
  then have "(\<exists>q. snd (resolve_plugin_path w pw name) = Ok q) \<longleftrightarrow> name = pe_name p"
    using entry(1) by (auto simp: resolve_plugin_path_def none marketplace_plugin_def Let_def cmd_iff)
  moreover have "dest = join_path (read_path ''./plugins'') (read_path (pe_name p @ ''.wasm''))"
    using install entry(1) by (auto simp: install_plugin_def Let_def split: if_splits option.splits sum.splits prod.splits)
  ultimately show ?thesis by blast
qed

theorem installed_plugin_found_iff_witness:
  "\<exists>pw w dest. fst (install_plugin (\<lambda>u. Inl ''offline'') None (\<lambda>q. None) (pw_built_in pw) ''Audit'' (read_path ''./plugins'')) = Inr dest
     \<and> show_path dest = ''./plugins/audit.wasm'' \<and> cw_exists w dest
     \<and> (\<nexists>q. snd (resolve_plugin_path w pw ''Audit'') = Ok q)"
proof -
  let ?p = "sample_plugin ''audit'' ''rust'' 1 \<lparr>pe_url := ''u''\<rparr>"
  let ?pw = "\<lparr>pw_config_yaml = (\<lambda>t. Err ''yaml''), pw_built_in = [?p]\<rparr>"
  let ?w = "one_world\<lparr>cw_exists := \<lambda>q. show_path q \<in> {''plugins/audit.wasm'', ''./plugins/audit.wasm''}\<rparr>"
  let ?install = "install_plugin (\<lambda>u. Inl ''offline'') None (\<lambda>q. None) (pw_built_in ?pw) ''Audit'' (read_path ''./plugins'')"
  have found: "plugin_index_find ''Audit'' (pw_built_in ?pw) = Some ?p" by code_simp
  have name: "pe_name ?p = ''audit''" by code_simp
  obtain dest written where dest: "?install = (Inr dest, written)"
    using found by (simp add: install_plugin_def Let_def)
  from installed_plugin_found_iff [OF dest found, of ?w]
  have result: "dest = join_path (read_path ''./plugins'') (read_path (''audit'' @ ''.wasm''))"
    "\<nexists>q. snd (resolve_plugin_path ?w ?pw ''Audit'') = Ok q"
    by (simp_all add: name name_ok_def)
  have "show_path dest = ''./plugins/audit.wasm''" unfolding result(1) by code_simp
  moreover from this have "cw_exists ?w dest" by simp
  ultimately show ?thesis using dest result(2) by (intro exI [of _ ?pw] exI [of _ ?w] exI [of _ dest]) simp
qed

section \<open>Generating an SDK\<close>

text \<open>
  \<open>generate\<close> returns exactly when the spec is found and loads, the plugin resolves and its marker is written, the emitter
  returns, the changelog is written, and there is at least one file; the emitter is given the document with the versioned
  paths.
\<close>

theorem generate_exact:
  "snd (run_generate w ft pw emit to_pretty ords secs args) = Ok n \<longleftrightarrow>
    (\<exists>p doc written extra.
       resolve_spec_path (cw_readers w) ft (ga_spec args) (ga_version args) = Ok p \<and>
       snd (load_for_generate w (ga_include_webhooks args) p) = Ok doc \<and>
       snd (record_plugin w pw args) = Ok () \<and>
       snd (emit (ga_lang args) (prefix_versioning (ga_version_prefix args) doc)
         \<lparr>eo_out_dir = ga_out args, eo_name = ga_package_name args, eo_i18n = map_option from_locales (ga_locale args)\<rparr>) = Ok written \<and>
       snd (write_changelog w to_pretty ords secs (prefix_versioning (ga_version_prefix args) doc) args) = Ok extra \<and>
       n = length written + extra \<and> 0 < n)"
  by (auto simp: run_generate_def Let_def cmd_iff split: if_splits)

text \<open>Without webhooks in the document, \<open>--include-webhooks\<close> loads what is loaded without it.\<close>

theorem generate_webhooks_option:
  assumes "load_json (rd_json (cw_readers w)) (rd_yaml (cw_readers w)) (normalize_line_endings text) = Ok j"
    and "json_get j ''webhooks'' = None" and "spec_text w p text"
  shows "snd (load_for_generate w True p) = Ok doc \<longleftrightarrow> snd (load_for_generate w False p) = Ok doc"
proof -
  have none: "extract_webhooks j = (None, j)"
    using assms(2) by (cases j) (auto simp: extract_webhooks_def)
  show ?thesis
    by (cases "is_31 j"; use assms(1,3) in \<open>auto simp: load_for_generate_def cmd_iff document_in_def read_spec_def read_spec_full_def
        parse_file_def parse_bytes_def read_text_def parse_str_def parse_str_full_def spec_text_def none resolve_def
        split: sum.splits\<close>)
qed

end
