(* ===== verification/Cli_Market.thy ===== *)
theory Cli_Market
  imports Cli_Base Marketplace Evolution Profiler Spec_Versions
begin

text \<open>
  The remaining commands of crates/specforge-cli/src/main.rs: \<open>market\<close> and \<open>plugin\<close> with their subcommands, \<open>evolution\<close>,
  \<open>profile\<close>, \<open>workspace-init\<close> and \<open>init\<close>, and the dispatch of \<open>main\<close>, which turns the result of a command
  into the exit code. The indexes built into the program, serde's printers, and the printing of ratings with one decimal
  are parameters.
\<close>

section \<open>Indexes\<close>

text \<open>\<open>load\<close> of an extra index, and \<open>merge\<close>, which visits its hash map in the order \<open>iter\<close>.\<close>

definition load_index ::
  "string \<Rightarrow> ('e list \<Rightarrow> 'e list \<Rightarrow> 'e list) \<Rightarrow> (path \<Rightarrow> (string, 'e list) result) \<Rightarrow> 'e list \<Rightarrow> path option \<Rightarrow> 'e list cmd" where
  "load_index what merge load built_in extra =
     (case extra of
        None \<Rightarrow> cmd_ok built_in
      | Some p \<Rightarrow>
          cmd_bind (with_context (''failed to load extra '' @ what @ '' from '' @ show_path p) (lift_result DecodeFailed (load p)))
            (\<lambda>other. cmd_ok (merge built_in other)))"

text \<open>Tables: the byte length of the longest name, at least 20.\<close>

definition name_width :: "('e \<Rightarrow> string) \<Rightarrow> 'e list \<Rightarrow> nat" where
  "name_width name es = max (foldr max (map (length \<circ> name) es) 0) 20"

definition rule_char :: string where
  "rule_char = [CHR 0xE2, CHR 0x94, CHR 0x80]"

text \<open>\<open>{width:\<dots><40}\<close> prints the argument called width, a number, before the fill.\<close>

definition rule_line :: "nat \<Rightarrow> nat list \<Rightarrow> string" where
  "rule_line width columns =
     ''  '' @ pad_right rule_char width []
     @ concat (map (\<lambda>n. ''  '' @ pad_left rule_char n []) columns) @ ''  '' @ pad_right rule_char 40 (show_nat width)"

definition json_output :: "('e list \<Rightarrow> (string, string) result) \<Rightarrow> 'e list \<Rightarrow> unit cmd" where
  "json_output to_pretty es =
     cmd_bind (with_context ''failed to serialize'' (lift_result DecodeFailed (to_pretty es)))
       (\<lambda>t. cmd_then [println t] (cmd_ok ()))"

text \<open>A line with a truncated description, which may panic.\<close>

definition described :: "string \<Rightarrow> nat \<Rightarrow> (string \<Rightarrow> cli_event) \<Rightarrow> unit cmd" where
  "described text n line =
     (case truncate_text text n of Inl stop \<Rightarrow> ([], Err stop) | Inr t \<Rightarrow> ([line t], Ok ()))"

definition when_verified :: "string \<Rightarrow> bool \<Rightarrow> string" where
  "when_verified mark v = (if v then mark else [])"

section \<open>market\<close>

definition search_line :: "(rat \<Rightarrow> string) \<Rightarrow> spec_entry \<Rightarrow> unit cmd" where
  "search_line show1 e =
     described (se_description e) 80 (\<lambda>d.
       eprintln (''  '' @ se_name e @ '' v'' @ se_version e @ when_verified '' [verified]'' (se_verified e) @ newline
         @ ''    '' @ d @ '' (by '' @ se_author e @ '')'' @ newline
         @ ''    Downloads: '' @ show_nat (unat (se_downloads e)) @ '' | Rating: '' @ show1 (se_rating e) @ ''/5'' @ newline
         @ ''    Tags: '' @ join '', '' (se_tags e) @ newline))"

definition run_market_search ::
  "(spec_entry list \<Rightarrow> (string, string) result) \<Rightarrow> (rat \<Rightarrow> string) \<Rightarrow> spec_entry list \<Rightarrow> string \<Rightarrow> string \<Rightarrow> unit cmd" where
  "run_market_search to_pretty show1 index query fmt =
     (let results = spec_index_search query index in
      if results = [] then cmd_then [eprintln (''No specs found matching '' @ dquote @ query @ dquote @ ''.'')] (cmd_ok ())
      else if fmt = ''json'' then json_output to_pretty results
      else cmd_then [eprintln (''Found '' @ show_nat (length results) @ '' spec(s) matching '' @ dquote @ query @ dquote @ '':'' @ newline)]
             (cmd_bind (cmd_each (search_line show1) results) (\<lambda>_. cmd_ok ())))"

definition listed_specs :: "string option \<Rightarrow> spec_entry list \<Rightarrow> spec_entry list" where
  "listed_specs tag index =
     (case tag of
        Some t \<Rightarrow> filter (\<lambda>e. list_ex (\<lambda>u. to_lowercase u = to_lowercase t) (se_tags e)) index
      | None \<Rightarrow> spec_sorted_by_downloads index)"

definition spec_row :: "(rat \<Rightarrow> string) \<Rightarrow> nat \<Rightarrow> spec_entry \<Rightarrow> unit cmd" where
  "spec_row show1 width e =
     described (se_description e) 50 (\<lambda>d.
       eprintln (''  '' @ pad_right '' '' width (se_name e) @ ''  '' @ pad_left '' '' 10 (show_nat (unat (se_downloads e)))
         @ ''  '' @ pad_left '' '' 5 (show1 (se_rating e)) @ ''  '' @ d @ when_verified '' [v]'' (se_verified e)))"

definition run_market_list ::
  "(spec_entry list \<Rightarrow> (string, string) result) \<Rightarrow> (rat \<Rightarrow> string) \<Rightarrow> spec_entry list \<Rightarrow> string option \<Rightarrow> string \<Rightarrow> unit cmd" where
  "run_market_list to_pretty show1 index tag fmt =
     (let entries = listed_specs tag index; width = name_width se_name entries in
      if entries = [] then cmd_then [eprintln ''No specs found.''] (cmd_ok ())
      else if fmt = ''json'' then json_output to_pretty entries
      else cmd_then
             [eprintln (''Spec Marketplace -- '' @ show_nat (length entries) @ '' spec(s)'' @ newline),
              eprintln (''  '' @ pad_right '' '' width ''NAME'' @ ''  '' @ pad_left '' '' 10 ''DOWNLOADS'' @ ''  ''
                @ pad_left '' '' 5 ''RATING'' @ ''  DESCRIPTION''),
              eprintln (rule_line width [10, 5])]
             (cmd_bind (cmd_each (spec_row show1 width) entries) (\<lambda>_. cmd_ok ())))"

definition run_market_info :: "(rat \<Rightarrow> string) \<Rightarrow> spec_entry list \<Rightarrow> string \<Rightarrow> unit cmd" where
  "run_market_info show1 index name =
     (case spec_index_find name index of
        None \<Rightarrow> bail (''spec not found: '' @ name)
      | Some e \<Rightarrow>
          cmd_then (map eprintln
            ([se_name e @ newline,
              ''  Version:      '' @ se_version e, ''  Author:       '' @ se_author e,
              ''  Description:  '' @ se_description e, ''  Downloads:    '' @ show_nat (unat (se_downloads e)),
              ''  Rating:       '' @ show1 (se_rating e) @ ''/5'',
              ''  Verified:     '' @ (if se_verified e then ''Yes'' else ''No''),
              ''  Tags:         '' @ join '', '' (se_tags e)]
             @ (if se_url e = [] then [] else [''  URL:          '' @ se_url e])
             @ [''  Spec URL:     '' @ se_spec_url e])) (cmd_ok ()))"

definition run_market_add ::
  "cli_world \<Rightarrow> (path \<Rightarrow> (string, spec_info) result) \<Rightarrow> (spec_entry list \<Rightarrow> (string, string) result) \<Rightarrow> spec_entry list
     \<Rightarrow> path \<Rightarrow> path \<Rightarrow> unit cmd" where
  "run_market_add w info to_pretty index p out =
     (if \<not> cw_exists w p then bail (''file not found: '' @ show_path p)
      else cmd_bind (with_context (''failed to generate metadata from '' @ show_path p) (lift_result DecodeFailed (generate_metadata (info p) (file_name p))))
        (\<lambda>entry.
           cmd_then [eprintln (''Generated metadata for: '' @ se_name entry),
                     eprintln (''  Version:     '' @ se_version entry), eprintln (''  Description: '' @ se_description entry)]
             (cmd_bind (with_context ''failed to serialize marketplace index''
                 (lift_result DecodeFailed (to_pretty (by_downloads se_downloads (index @ [entry]))))) (\<lambda>json.
              cmd_bind (write_file w out json) (\<lambda>_. cmd_then [eprintln (''Wrote '' @ show_path out)] (cmd_ok ()))))))"

section \<open>plugin\<close>

definition listed_plugins :: "string option \<Rightarrow> plugin_entry list \<Rightarrow> plugin_entry list" where
  "listed_plugins language index =
     (case language of
        Some l \<Rightarrow> filter (\<lambda>p. to_lowercase (pe_language p) = to_lowercase l) index
      | None \<Rightarrow> plugin_sorted_by_downloads index)"

definition plugin_row :: "(rat \<Rightarrow> string) \<Rightarrow> nat \<Rightarrow> plugin_entry \<Rightarrow> unit cmd" where
  "plugin_row show1 width p =
     described (pe_description p) 45 (\<lambda>d.
       eprintln (''  '' @ pad_right '' '' width (pe_name p) @ ''  '' @ pad_left '' '' 10 (show_nat (unat (pe_downloads p)))
         @ ''  '' @ pad_left '' '' 5 (show1 (pe_rating p)) @ ''  '' @ pad_left '' '' 12 (pe_language p) @ ''  '' @ d
         @ when_verified '' [v]'' (pe_verified p)))"

definition run_plugin_list ::
  "(plugin_entry list \<Rightarrow> (string, string) result) \<Rightarrow> (rat \<Rightarrow> string) \<Rightarrow> plugin_entry list \<Rightarrow> string option \<Rightarrow> string \<Rightarrow> unit cmd" where
  "run_plugin_list to_pretty show1 index language fmt =
     (let plugins = listed_plugins language index; width = name_width pe_name plugins in
      if plugins = [] then cmd_then [eprintln ''No plugins found.''] (cmd_ok ())
      else if fmt = ''json'' then json_output to_pretty plugins
      else cmd_then
             [eprintln (''Plugin Marketplace -- '' @ show_nat (length plugins) @ '' plugin(s)'' @ newline),
              eprintln (''  '' @ pad_right '' '' width ''NAME'' @ ''  '' @ pad_left '' '' 10 ''DOWNLOADS'' @ ''  ''
                @ pad_left '' '' 5 ''RATING'' @ ''  '' @ pad_left '' '' 12 ''LANGUAGE'' @ ''  DESCRIPTION''),
              eprintln (rule_line width [10, 5, 12])]
             (cmd_bind (cmd_each (plugin_row show1 width) plugins) (\<lambda>_. cmd_ok ())))"

definition plugin_search_line :: "(rat \<Rightarrow> string) \<Rightarrow> plugin_entry \<Rightarrow> unit cmd" where
  "plugin_search_line show1 p =
     described (pe_description p) 80 (\<lambda>d.
       eprintln (''  '' @ pe_name p @ '' v'' @ pe_version p @ when_verified '' [verified]'' (pe_verified p) @ newline
         @ ''    '' @ d @ '' (by '' @ pe_author p @ '')'' @ newline
         @ ''    Language: '' @ pe_language p @ '' | Downloads: '' @ show_nat (unat (pe_downloads p)) @ '' | Rating: ''
         @ show1 (pe_rating p) @ ''/5'' @ newline))"

definition run_plugin_search ::
  "(plugin_entry list \<Rightarrow> (string, string) result) \<Rightarrow> (rat \<Rightarrow> string) \<Rightarrow> plugin_entry list \<Rightarrow> string \<Rightarrow> string \<Rightarrow> unit cmd" where
  "run_plugin_search to_pretty show1 index query fmt =
     (let results = plugin_index_search query index in
      if results = [] then cmd_then [eprintln (''No plugins found matching '' @ dquote @ query @ dquote @ ''.'')] (cmd_ok ())
      else if fmt = ''json'' then json_output to_pretty results
      else cmd_then [eprintln (''Found '' @ show_nat (length results) @ '' plugin(s) matching '' @ dquote @ query @ dquote @ '':'' @ newline)]
             (cmd_bind (cmd_each (plugin_search_line show1) results) (\<lambda>_. cmd_ok ())))"

definition run_plugin_info :: "(rat \<Rightarrow> string) \<Rightarrow> plugin_entry list \<Rightarrow> string \<Rightarrow> unit cmd" where
  "run_plugin_info show1 index name =
     (case plugin_index_find name index of
        None \<Rightarrow> bail (''plugin not found: '' @ name)
      | Some p \<Rightarrow>
          cmd_then (map eprintln
            ([pe_name p @ newline,
              ''  Version:      '' @ pe_version p, ''  Author:       '' @ pe_author p,
              ''  Description:  '' @ pe_description p, ''  Language:     '' @ pe_language p,
              ''  Downloads:    '' @ show_nat (unat (pe_downloads p)),
              ''  Rating:       '' @ show1 (pe_rating p) @ ''/5'',
              ''  Verified:     '' @ (if pe_verified p then ''Yes'' else ''No'')]
             @ (if pe_url p = [] then [] else [''  URL:          '' @ pe_url p]))) (cmd_ok ()))"

text \<open>The file that \<open>install_plugin\<close> writes, if any, and its result.\<close>

definition run_plugin_install ::
  "(string \<Rightarrow> download) \<Rightarrow> string option \<Rightarrow> (path \<Rightarrow> string option) \<Rightarrow> plugin_entry list \<Rightarrow> string \<Rightarrow> path \<Rightarrow> unit cmd" where
  "run_plugin_install get mkdir write_error index name dir =
     (case install_plugin get mkdir write_error index name dir of
        (r, written) \<Rightarrow>
          cmd_then (case written of Some (p, content) \<Rightarrow> [WroteFile p content] | None \<Rightarrow> [])
            (cmd_bind (with_context (''failed to install plugin '' @ name) (lift_result IoFailed r)) (\<lambda>dest.
               cmd_then
                 [eprintln (''Installed plugin '' @ [CHR 39] @ name @ [CHR 39] @ '' to '' @ show_path dest),
                  eprintln (newline @ ''Add to your .specforge.yaml:''),
                  eprintln (''  plugins:'' @ newline @ ''    - name: '' @ name @ newline @ ''      path: '' @ show_path dest
                    @ newline @ ''      enabled: true'')] (cmd_ok ()))))"

section \<open>evolution and profile\<close>

text \<open>The most recent versions: \<open>split_off(len - limit)\<close> when there are more.\<close>

definition limit_versions :: "nat \<Rightarrow> version_snapshot list \<Rightarrow> version_snapshot list" where
  "limit_versions limit vs = (if limit < length vs then drop (length vs - limit) vs else vs)"

definition run_evolution ::
  "(string, version_snapshot list) result \<Rightarrow> (version_snapshot list \<Rightarrow> (string, string) result) \<Rightarrow> evolution_format \<Rightarrow> nat \<Rightarrow> unit cmd" where
  "run_evolution tracked to_json fmt limit =
     cmd_bind (with_context ''failed to track schema evolution'' (lift_result Message tracked)) (\<lambda>vs0.
       let vs = limit_versions limit vs0 in
       case fmt of
         EvoText \<Rightarrow> cmd_then [Stdout (evolution_text vs)] (cmd_ok ())
       | EvoJson \<Rightarrow>
           cmd_bind (with_context ''failed to serialize evolution as JSON'' (lift_result DecodeFailed (to_json vs)))
             (\<lambda>t. cmd_then [println t] (cmd_ok ()))
       | EvoMarkdown \<Rightarrow> cmd_then [Stdout (evolution_markdown vs)] (cmd_ok ()))"

datatype profile_format = ProfileText | ProfileJson | ProfileMarkdown

definition run_profile ::
  "cli_world \<Rightarrow> (nat \<Rightarrow> string \<times> string \<times> (string \<times> string) list \<Rightarrow> rat \<times> nat option) \<Rightarrow> rat
     \<Rightarrow> (profile_report \<Rightarrow> (string, string) result)
     \<Rightarrow> (nat \<Rightarrow> rat \<Rightarrow> string) \<Rightarrow> path \<Rightarrow> profile_options \<Rightarrow> profile_format \<Rightarrow> unit cmd" where
  "run_profile w send duration to_json show_rat spec opts fmt =
     cmd_bind (load_document w spec) (\<lambda>doc.
       let report = profile_api show_rat send duration doc opts in
       case fmt of
         ProfileText \<Rightarrow> cmd_then [Stdout (profile_text show_rat report)] (cmd_ok ())
       | ProfileJson \<Rightarrow>
           cmd_bind (with_context ''failed to serialize profile report as JSON'' (lift_result DecodeFailed (to_json report)))
             (\<lambda>t. cmd_then [println t] (cmd_ok ()))
       | ProfileMarkdown \<Rightarrow> cmd_then [Stdout (profile_markdown show_rat report)] (cmd_ok ()))"

section \<open>workspace-init and init\<close>

definition run_workspace_init ::
  "(string, dir_entry list) result option \<Rightarrow> (workspace_spec list \<Rightarrow> (string, string) result) \<Rightarrow> string option
     \<Rightarrow> path \<Rightarrow> path \<Rightarrow> (nat \<times> path) cmd" where
  "run_workspace_init listing to_yaml write_error dir out =
     (case init_workspace listing to_yaml write_error dir out of
        (r, written) \<Rightarrow>
          cmd_then (case written of Some (p, content) \<Rightarrow> [WroteFile p content] | None \<Rightarrow> [])
            (cmd_bind (with_context ''failed to initialize workspace'' (lift_result ReadFailed r)) (\<lambda>res.
               cmd_then (if fst res = 0
                         then [eprintln (''warning: no OpenAPI spec files found in '' @ show_path dir)] else [])
                 (cmd_ok res))))"

record init_args =
  ina_out :: path
  ina_title :: string
  ina_version :: string
  ina_retry_default :: "nat option"
  ina_retry_on :: "string list option"

definition build_retry_yaml_block :: "nat option \<Rightarrow> string list option \<Rightarrow> string" where
  "build_retry_yaml_block max_retries retry_on =
     (if max_retries = None \<and> retry_on = None then []
      else join newline
        ([''      x-retry:'']
         @ (case max_retries of Some n \<Rightarrow> [''        maxRetries: '' @ show_nat n] | None \<Rightarrow> [])
         @ (case retry_on of
              Some methods \<Rightarrow> [''        retryable: '' @ (if list_ex (\<lambda>m. eq_ignore_ascii_case m ''GET'') methods then ''true'' else ''false'')]
            | None \<Rightarrow> [])))"

text \<open>Quotes of the title are escaped, backslashes are not.\<close>

definition escape_title :: "string \<Rightarrow> string" where
  "escape_title t = replace_char (CHR 34) [CHR 92, CHR 34] t"

definition init_yaml :: "init_args \<Rightarrow> string" where
  "init_yaml args =
     join newline
       [''openapi: '' @ dquote @ ''3.0.3'' @ dquote,
        ''info:'',
        ''  title: '' @ dquote @ escape_title (ina_title args) @ dquote,
        ''  version: '' @ dquote @ ina_version args @ dquote,
        ''  description: '' @ dquote @ ''A minimal OpenAPI spec generated by specforge.'' @ dquote,
        ''servers:'',
        ''  - url: http://localhost:3000'',
        ''    description: Local development server'',
        ''paths:'',
        ''  /health:'',
        ''    get:'',
        ''      operationId: getHealth'',
        ''      summary: Health check'',
        ''      description: Returns the health status of the API.'',
        ''      tags:'',
        ''        - system'',
        build_retry_yaml_block (ina_retry_default args) (ina_retry_on args),
        ''      responses:'',
        ''        '' @ dquote @ ''200'' @ dquote @ '':'',
        ''          description: Service is healthy'',
        ''          content:'',
        ''            application/json:'',
        ''              schema:'',
        ''                $ref: '' @ dquote @ ''#/components/schemas/HealthResponse'' @ dquote,
        ''components:'',
        ''  schemas:'',
        ''    HealthResponse:'',
        ''      type: object'',
        ''      required:'',
        ''        - status'',
        ''      properties:'',
        ''        status:'',
        ''          type: string'',
        ''          description: Current health status'',
        ''          example: '' @ dquote @ ''ok'' @ dquote,
        []]"

definition init_readme :: "string \<Rightarrow> string" where
  "init_readme title =
     join newline
       [''# '' @ title,
        [],
        ''This is a minimal OpenAPI spec scaffolded by [specforge](https://github.com/amafjarkasi/specforge-openapi-sdk-codegen).'',
        [],
        ''## Generate an SDK'',
        [],
        ''```bash'',
        ''# TypeScript'',
        ''specforge generate openapi.yaml -o ./sdk-ts -l ts'',
        [],
        ''# Go'',
        ''specforge generate openapi.yaml -o ./sdk-go -l go'',
        [],
        ''# Rust'',
        ''specforge generate openapi.yaml -o ./sdk-rust -l rust'',
        ''```'',
        [],
        ''## Lint the spec'',
        [],
        ''```bash'',
        ''specforge check openapi.yaml'',
        ''```'',
        [],
        ''## Emit the IR (for external tools)'',
        [],
        ''```bash'',
        ''specforge emit openapi.yaml'',
        ''```'',
        []]"

definition run_init :: "cli_world \<Rightarrow> init_args \<Rightarrow> unit cmd" where
  "run_init w args =
     cmd_bind (create_dir_all w (ina_out args)) (\<lambda>_.
       let yaml_path = join_path (ina_out args) (read_path ''openapi.yaml'');
           readme_path = join_path (ina_out args) (read_path ''README.md'') in
     cmd_bind (write_file w yaml_path (init_yaml args)) (\<lambda>_.
     cmd_bind (write_file w readme_path (init_readme (ina_title args))) (\<lambda>_.
       cmd_then [eprintln (''Created '' @ show_path yaml_path), eprintln (''Created '' @ show_path readme_path)] (cmd_ok ()))))"

text \<open>
  Reading a double-quoted YAML scalar up to its closing quote, for the two escapes that occur here: \<open>None\<close> when the quote
  is missing or another escape is met.
\<close>

fun read_quoted :: "string \<Rightarrow> (string \<times> string) option" where
  "read_quoted [] = None"
| "read_quoted (c # cs) =
     (if c = CHR 34 then Some ([], cs)
      else if c = CHR 92 then
        (case cs of
           d # ds \<Rightarrow> if d = CHR 34 \<or> d = CHR 92 then map_option (\<lambda>(t, r). (d # t, r)) (read_quoted ds) else None
         | [] \<Rightarrow> None)
      else map_option (\<lambda>(t, r). (c # t, r)) (read_quoted cs))"

theorem init_title_reads_back:
  assumes "CHR 92 \<notin> set t"
  shows "read_quoted (escape_title t @ dquote @ rest) = Some (t, rest)"
  using assms
proof (induction t)
  case Nil
  show ?case by (simp add: escape_title_def replace_char_def dquote_def)
next
  case (Cons c t)
  then show ?case by (auto simp: escape_title_def replace_char_def dquote_def)
qed

text \<open>A title with a backslash at its end swallows the closing quote.\<close>

theorem init_title_backslash:
  "read_quoted (escape_title (''C:'' @ [CHR 92]) @ dquote) = None"
  by code_simp

section \<open>What the lists print\<close>

definition ascii_text :: "string \<Rightarrow> bool" where
  "ascii_text s \<longleftrightarrow> (\<forall>c \<in> set s. byte c < 128)"

lemma described_ascii:
  assumes "ascii_text s" and "3 \<le> n"
  shows "\<exists>t. truncate_text s n = Ok t \<and> described s n line = ([line t], Ok ())"
  using truncate_ascii [of s n] assms by (auto simp: described_def ascii_text_def)

text \<open>A table is printed to its end when all descriptions are ASCII: one line per entry, in order.\<close>

lemma rows_printed:
  assumes "\<forall>e \<in> set es. ascii_text (desc e)" and "3 \<le> n"
  shows "\<exists>ts. length ts = length es \<and> list_all2 (\<lambda>e t. truncate_text (desc e) n = Ok t) es ts \<and>
    cmd_each (\<lambda>e. described (desc e) n (line e)) es = (map2 line es ts, Ok (map (\<lambda>_. ()) es))"
  using assms(1)
proof (induction es)
  case Nil
  show ?case by (simp add: cmd_ok_def)
next
  case (Cons e es)
  then obtain ts where ts: "length ts = length es" "list_all2 (\<lambda>e t. truncate_text (desc e) n = Ok t) es ts"
    "cmd_each (\<lambda>e. described (desc e) n (line e)) es = (map2 line es ts, Ok (map (\<lambda>_. ()) es))" by auto
  obtain t where t: "truncate_text (desc e) n = Ok t" "described (desc e) n (line e) = ([line e t], Ok ())"
    using described_ascii [of "desc e" n "line e"] Cons.prems assms(2) by auto
  show ?case
    by (rule exI [of _ "t # ts"]) (simp add: ts t cmd_bind_def cmd_ok_def)
qed

theorem market_list_complete:
  assumes "listed_specs tag index \<noteq> []" and "fmt \<noteq> ''json''" and "\<forall>e \<in> set index. ascii_text (se_description e)"
  shows "snd (run_market_list to_pretty show1 index tag fmt) = Ok () \<and>
    length (fst (run_market_list to_pretty show1 index tag fmt)) = 3 + length (listed_specs tag index)"
proof -
  let ?es = "listed_specs tag index"
  have "set ?es \<subseteq> set index"
    by (auto simp: listed_specs_def spec_sorted_by_downloads_def by_downloads_def split: option.splits)
  with assms(3) have "\<forall>e \<in> set ?es. ascii_text (se_description e)" by blast
  define line where "line e d = eprintln (''  '' @ pad_right '' '' (name_width se_name ?es) (se_name e) @ ''  ''
      @ pad_left '' '' 10 (show_nat (unat (se_downloads e))) @ ''  '' @ pad_left '' '' 5 (show1 (se_rating e)) @ ''  '' @ d
      @ when_verified '' [v]'' (se_verified e))" for e :: spec_entry and d
  have "spec_row show1 (name_width se_name ?es) = (\<lambda>e. described (se_description e) 50 (line e))"
    by (simp add: spec_row_def [abs_def] line_def [abs_def])
  moreover obtain ts where "length ts = length ?es"
    "cmd_each (\<lambda>e. described (se_description e) 50 (line e)) ?es = (map2 line ?es ts, Ok (map (\<lambda>_. ()) ?es))"
    using rows_printed [OF \<open>\<forall>e \<in> set ?es. _\<close>, of 50 line] by auto
  ultimately show ?thesis
    using assms(1,2) by (simp add: run_market_list_def Let_def cmd_then_def cmd_bind_def cmd_ok_def)
qed

text \<open>A description that is cut inside a character ends the process in the middle of the table.\<close>

theorem market_list_panics:
  "snd (run_market_list (\<lambda>es. Ok []) (\<lambda>r. ''5.0'')
     [sample_spec ''a'' ''u'' 1 \<lparr>se_description := replicate 46 (CHR ''a'') @ [CHR 0xC3, CHR 0xA9] @ ''abc''\<rparr>] None ''text'') =
   Err (Panicked ''byte index is not a char boundary'')"
  by code_simp

text \<open>The timeline is cut to its most recent versions.\<close>

theorem limit_versions_recent:
  "length (limit_versions limit vs) = min limit (length vs) \<and> (\<exists>older. vs = older @ limit_versions limit vs)"
  by (auto simp: limit_versions_def) (metis append_take_drop_id)

text \<open>
  The fill of the rule below the table is preceded by the width of the name column, where the other columns have the fill
  alone.
\<close>

theorem rule_line_prints_width:
  "rule_line 20 [] = ''  '' @ concat (replicate 20 rule_char) @ ''  20'' @ concat (replicate 38 rule_char)"
  by code_simp

end
