(* ===== verification/Cli_Check.thy ===== *)
theory Cli_Check
  imports Cli_Base Lint Spec_Diff Deprecation Verify
begin

text \<open>
  The gates of the command line: \<open>specforge check\<close>, \<open>specforge diff\<close> and \<open>specforge verify\<close>
  (crates/specforge-cli/src/main.rs), whose exit code is a verdict on a document, with the loading of lint
  configurations (lint_config.rs). Each command is composed of the models of the components it calls.
\<close>

section \<open>Lint configuration files\<close>

text \<open>\<open>serde_yaml::from_str::<LintConfig>\<close> is a parameter. A file that cannot be read or decoded gives the defaults.\<close>

definition load_from_file :: "cli_world \<Rightarrow> (string \<Rightarrow> (string, lint_config) result) \<Rightarrow> path \<Rightarrow> lint_config" where
  "load_from_file w lint_yaml p =
     (case cw_read_text w p of
        Inr content \<Rightarrow> (case lint_yaml content of Inr config \<Rightarrow> config | Inl e \<Rightarrow> default_config)
      | Inl e \<Rightarrow> default_config)"

definition load_lint_config :: "cli_world \<Rightarrow> (string \<Rightarrow> (string, lint_config) result) \<Rightarrow> lint_config" where
  "load_lint_config w lint_yaml =
     (case filter (cw_exists w) [read_path ''.specforge.yaml'', read_path ''.specforge.yml''] of
        p # _ \<Rightarrow> load_from_file w lint_yaml p
      | [] \<Rightarrow> default_config)"

section \<open>check\<close>

record check_args =
  ca_spec :: path
  ca_strict :: bool
  ca_deprecations :: bool
  ca_disable_rules :: "string list"
  ca_enable_rules :: "string list"
  ca_severity_overrides :: "string list"
  ca_config_file :: "path option"

text \<open>\<open>rsplit_once(':')\<close>: the parts before and after the last colon.\<close>

definition rsplit_colon :: "string \<Rightarrow> (string \<times> string) option" where
  "rsplit_colon s =
     (let after = rev (takeWhile (\<lambda>c. c \<noteq> CHR '':'') (rev s))
      in if CHR '':'' \<in> set s then Some (take (length s - Suc (length after)) s, after) else None)"

definition parse_severity_override :: "string \<Rightarrow> (string \<times> rule_severity) cmd" where
  "parse_severity_override s =
     (case rsplit_colon s of
        None \<Rightarrow> bail (''expected RULE:SEVERITY, got '' @ debug_str s)
      | Some (rule_name, sev) \<Rightarrow>
          let low = to_lowercase sev in
          if low = ''error'' then cmd_ok (rule_name, RError)
          else if low \<in> {''warning'', ''warn''} then cmd_ok (rule_name, RWarning)
          else if low \<in> {''off'', ''none''} then cmd_ok (rule_name, ROff)
          else bail (''unknown severity '' @ debug_str low @ '', expected error/warning/off''))"

definition rule_flags :: "check_args \<Rightarrow> lint_config \<Rightarrow> lint_config" where
  "rule_flags args cfg =
     fold (\<lambda>r c. set_enabled c r True) (ca_enable_rules args)
       (fold (\<lambda>r c. set_enabled c r False) (ca_disable_rules args) cfg)"

fun severity_flags :: "string list \<Rightarrow> lint_config \<Rightarrow> lint_config cmd" where
  "severity_flags [] cfg = cmd_ok cfg"
| "severity_flags (s # ss) cfg =
     cmd_bind (with_context (''invalid --severity value: '' @ debug_str s) (parse_severity_override s))
       (\<lambda>(rule_name, sev). severity_flags ss (set_severity cfg rule_name sev))"

definition lint_settings :: "cli_world \<Rightarrow> (string \<Rightarrow> (string, lint_config) result) \<Rightarrow> check_args \<Rightarrow> lint_config cmd" where
  "lint_settings w lint_yaml args =
     severity_flags (ca_severity_overrides args)
       (rule_flags args
         (case ca_config_file args of
            Some p \<Rightarrow> load_from_file w lint_yaml p
          | None \<Rightarrow> load_lint_config w lint_yaml))"

definition counts_as_error :: "check_args \<Rightarrow> diagnostic \<Rightarrow> bool" where
  "counts_as_error args d \<longleftrightarrow> di_severity d = Error \<or> (ca_strict args \<and> di_severity d = Warning)"

definition check_summary :: "check_args \<Rightarrow> diagnostic list \<Rightarrow> cli_event list" where
  "check_summary args ds =
     (let errors = length (filter (\<lambda>d. di_severity d = Error) ds); warnings = length ds - errors in
      if ds = [] then []
      else if 0 < errors then
        [eprintln (newline @ show_nat errors @ '' error(s), '' @ show_nat warnings @ '' warning(s)'')]
      else if ca_strict args \<and> 0 < warnings then
        [eprintln (newline @ show_nat warnings @ '' warning(s) treated as errors (--strict)'')]
      else [eprintln (newline @ show_nat warnings @ '' warning(s)'')])"

definition deprecation_scan :: "document \<Rightarrow> cli_event list" where
  "deprecation_scan doc =
     (let deps = find_deprecations doc in
      if deps = [] then [eprintln (newline @ ''no deprecations found'')]
      else eprintln (newline @ ''Deprecations ('' @ show_nat (length deps) @ ''):'' @ newline)
        # map (\<lambda>d. eprintln (''  '' @ deprecation_info_str d)) deps)"

definition run_check :: "cli_world \<Rightarrow> (string \<Rightarrow> (string, lint_config) result) \<Rightarrow> check_args \<Rightarrow> bool cmd" where
  "run_check w lint_yaml args =
     cmd_bind (load_document w (ca_spec args)) (\<lambda>doc.
     cmd_bind (lint_settings w lint_yaml args) (\<lambda>cfg.
       let ds = lint_with_config doc cfg;
           strict_warnings = ca_strict args \<and> filter (\<lambda>d. di_severity d = Error) ds = [] \<and> ds \<noteq> []
       in cmd_then
            (map (\<lambda>d. eprintln ((if counts_as_error args d then ''error: '' else ''warning: '') @ diagnostic_str d)) ds
             @ check_summary args ds
             @ (if ca_deprecations args then deprecation_scan doc else []))
            (cmd_ok (list_ex (counts_as_error args) ds \<or> strict_warnings))))"

section \<open>diff\<close>

record diff_args =
  da_old :: path
  da_new :: path
  da_breaking_only :: bool

definition finding_line :: "diff_args \<Rightarrow> diff_finding \<Rightarrow> cli_event list" where
  "finding_line args f =
     (if da_breaking_only args \<and> df_severity f \<noteq> Breaking then []
      else [eprintln ((case df_severity f of Breaking \<Rightarrow> ''breaking: '' | Info \<Rightarrow> ''info: '') @ finding_str f)])"

definition diff_summary :: "diff_finding list \<Rightarrow> cli_event list" where
  "diff_summary fs =
     (let breaking_count = length (breaking_of fs) in
      if fs = [] then []
      else [eprintln (newline @ show_nat breaking_count @ '' breaking change(s), ''
              @ show_nat (length fs - breaking_count) @ '' info finding(s)'')])"

text \<open>\<open>has_breaking\<close> is set when a breaking finding is printed; \<open>--breaking-only\<close> skips the others only.\<close>

definition run_diff :: "cli_world \<Rightarrow> iter_orders \<Rightarrow> diff_args \<Rightarrow> bool cmd" where
  "run_diff w ords args =
     cmd_bind (parse_spec w ''old spec'' (da_old args)) (\<lambda>old_spec.
     cmd_bind (resolve_spec ''failed to resolve old spec'' old_spec) (\<lambda>old_doc.
     cmd_bind (parse_spec w ''new spec'' (da_new args)) (\<lambda>new_spec.
     cmd_bind (resolve_spec ''failed to resolve new spec'' new_spec) (\<lambda>new_doc.
       let findings = diff ords old_doc new_doc;
           printed = filter (\<lambda>f. \<not> (da_breaking_only args \<and> df_severity f \<noteq> Breaking)) findings
       in cmd_then (concat (map (finding_line args) findings) @ diff_summary findings)
            (cmd_ok (list_ex (\<lambda>f. df_severity f = Breaking) printed))))))"

section \<open>verify\<close>

definition result_lines :: "verify_result \<Rightarrow> cli_event list" where
  "result_lines r =
     (let what = vr_method r @ '' '' @ vr_endpoint r @ '' ('' @ vr_status r @ '')'' in
      if vr_issues r \<noteq> [] then
        eprintln (''FAIL  '' @ what) # map (\<lambda>i. eprintln (''      - '' @ i)) (vr_issues r)
      else [eprintln (''  OK  '' @ what)])"

definition run_verify ::
  "cli_world \<Rightarrow> http_client \<Rightarrow> (string \<Rightarrow> json option) \<Rightarrow> (verify_result list \<Rightarrow> (string, string) result)
     \<Rightarrow> path \<Rightarrow> verify_options \<Rightarrow> verify_result list cmd" where
  "run_verify w send from_str to_pretty spec opts =
     cmd_bind (load_document w spec) (\<lambda>doc.
       let results = verify_api send from_str doc opts;
           n_failed = length (filter (\<lambda>r. vr_issues r \<noteq> []) results);
           n_passed = length (filter (\<lambda>r. vr_issues r = []) results)
       in cmd_then
            (concat (map result_lines results)
             @ [eprintln (newline @ show_nat n_passed @ ''/'' @ show_nat (length results) @ '' endpoint(s) passed, ''
                  @ show_nat n_failed @ '' failed'')])
            (cmd_bind (with_context ''failed to serialize results'' (lift_result DecodeFailed (to_pretty results)))
              (\<lambda>json. cmd_then [println json] (cmd_ok results))))"

section \<open>The exit codes\<close>

definition check_exit :: "cli_world \<Rightarrow> (string \<Rightarrow> (string, lint_config) result) \<Rightarrow> check_args \<Rightarrow> cli_event list \<times> exit_code" where
  "check_exit w lint_yaml args = finish_verdict (run_check w lint_yaml args)"

definition diff_exit :: "cli_world \<Rightarrow> iter_orders \<Rightarrow> diff_args \<Rightarrow> cli_event list \<times> exit_code" where
  "diff_exit w ords args = finish_verdict (run_diff w ords args)"

definition verify_exit ::
  "cli_world \<Rightarrow> http_client \<Rightarrow> (string \<Rightarrow> json option) \<Rightarrow> (verify_result list \<Rightarrow> (string, string) result)
     \<Rightarrow> path \<Rightarrow> verify_options \<Rightarrow> cli_event list \<times> exit_code" where
  "verify_exit w send from_str to_pretty spec opts =
     finish (\<lambda>_. []) (\<lambda>results. if filter (\<lambda>r. vr_issues r \<noteq> []) results \<noteq> [] then ExitFailure else ExitSuccess)
       (run_verify w send from_str to_pretty spec opts)"


lemma parse_resolve_iff:
  "snd (parse_spec w what p) = Ok spec \<and> snd (resolve_spec ctx spec) = Ok doc \<Longrightarrow> document_in w p = Some doc"
  by (auto simp: parse_spec_def resolve_spec_def document_in_def cmd_iff)

lemma parse_resolve_ex:
  "(\<exists>spec. snd (parse_spec w what p) = Ok spec \<and> snd (resolve_spec ctx spec) = Ok doc) \<longleftrightarrow> document_in w p = Some doc"
  by (auto simp: parse_spec_def resolve_spec_def document_in_def cmd_iff split: sum.splits)

lemma list_ex_breaking: "list_ex (\<lambda>f. df_severity f = Breaking) fs \<longleftrightarrow> breaking_of fs \<noteq> []"
  by (auto simp: list_ex_iff breaking_of_def filter_empty_conv)

lemma printed_breaking:
  "list_ex (\<lambda>f. df_severity f = Breaking) (filter (\<lambda>f. \<not> (b \<and> df_severity f \<noteq> Breaking)) fs) \<longleftrightarrow> breaking_of fs \<noteq> []"
  by (auto simp: list_ex_iff breaking_of_def filter_empty_conv)

lemma run_diff_returns:
  "snd (run_diff w ords args) = Ok bad \<longleftrightarrow>
     (\<exists>old new. document_in w (da_old args) = Some old \<and> document_in w (da_new args) = Some new \<and>
        bad = (breaking_of (diff ords old new) \<noteq> []))"
proof -
  have "snd (run_diff w ords args) = Ok bad \<longleftrightarrow>
     (\<exists>old new. (\<exists>spec. snd (parse_spec w ''old spec'' (da_old args)) = Ok spec \<and>
          snd (resolve_spec ''failed to resolve old spec'' spec) = Ok old) \<and>
        (\<exists>spec. snd (parse_spec w ''new spec'' (da_new args)) = Ok spec \<and>
          snd (resolve_spec ''failed to resolve new spec'' spec) = Ok new) \<and>
        bad = (breaking_of (diff ords old new) \<noteq> []))"
    unfolding run_diff_def Let_def printed_breaking by (simp only: cmd_iff) (auto simp: cmd_iff)
  then show ?thesis by (simp only: parse_resolve_ex)
qed

text \<open>
  C3. \<open>specforge diff\<close> succeeds exactly when both documents load and the new one meets the compatibility contract with
  the old one, for every iteration order of the hash tables and with or without \<open>--breaking-only\<close>.
\<close>

theorem diff_exit_exact:
  assumes "orders_ok ords"
  shows "snd (diff_exit w ords args) = ExitSuccess \<longleftrightarrow>
    (\<exists>old new. document_in w (da_old args) = Some old \<and> document_in w (da_new args) = Some new \<and> doc_compatible old new)"
  by (auto simp: diff_exit_def finish_success run_diff_returns diff_compatible [OF assms])

text \<open>
  C7. \<open>specforge check\<close> succeeds exactly when the document loads, every severity given on the command line is one, and
  the rules in force find no error and, under \<open>--strict\<close>, nothing at all.
\<close>

theorem check_exit_exact:
  "snd (check_exit w lint_yaml args) = ExitSuccess \<longleftrightarrow>
    (\<exists>doc cfg. document_in w (ca_spec args) = Some doc \<and> snd (lint_settings w lint_yaml args) = Ok cfg \<and>
       (\<forall>d \<in> set (lint_with_config doc cfg). di_severity d \<noteq> Error \<and> \<not> ca_strict args))"
proof -
  have "list_ex (counts_as_error args) ds \<or>
      (ca_strict args \<and> filter (\<lambda>d. di_severity d = Error) ds = [] \<and> ds \<noteq> []) \<longleftrightarrow>
    (\<exists>d \<in> set ds. di_severity d = Error \<or> ca_strict args)" for ds
  proof (cases "ca_strict args")
    case True
    have "counts_as_error args d" for d
      using True by (cases "di_severity d") (simp_all add: counts_as_error_def)
    then show ?thesis using True by (cases ds) auto
  next
    case False
    then show ?thesis by (simp add: list_ex_iff counts_as_error_def)
  qed
  then show ?thesis
    unfolding check_exit_def finish_success run_check_def Let_def
    by (simp only: cmd_iff) (auto simp: cmd_iff)
qed

lemma rsplit_colon_append: "CHR '':'' \<notin> set b \<Longrightarrow> rsplit_colon (a @ '':'' @ b) = Some (a, b)"
proof -
  assume b: "CHR '':'' \<notin> set b"
  have "takeWhile (\<lambda>c. c \<noteq> CHR '':'') (rev b @ CHR '':'' # rev a) = rev b"
    using b by (subst takeWhile_append2) auto
  then show ?thesis by (simp add: rsplit_colon_def)
qed

text \<open>A rule name may contain colons: the severity is what follows the last one, in any case.\<close>

theorem severity_override_parsed:
  assumes "to_lowercase sev \<in> {''error'', ''warning'', ''warn'', ''off'', ''none''}" and "CHR '':'' \<notin> set sev"
  shows "parse_severity_override (r @ '':'' @ sev) =
    cmd_ok (r, if to_lowercase sev = ''error'' then RError
               else if to_lowercase sev \<in> {''warning'', ''warn''} then RWarning else ROff)"
  unfolding parse_severity_override_def rsplit_colon_append [OF assms(2)] Let_def using assms(1) by auto

section \<open>Examples\<close>

theorem diff_exit_exact_witness:
  "snd (diff_exit one_world remdups_orders \<lparr>da_old = read_path ''a.yaml'', da_new = read_path ''a.yaml'', da_breaking_only = True\<rparr>)
   = ExitSuccess"
proof (subst diff_exit_exact [OF orders_ok_examples(1)])
  have "breaking_of (diff remdups_orders one_doc one_doc) = []" by code_simp
  then have "doc_compatible one_doc one_doc" by (simp add: diff_compatible [OF orders_ok_examples(1)])
  then show "\<exists>old new. document_in one_world (da_old \<lparr>da_old = read_path ''a.yaml'', da_new = read_path ''a.yaml'', da_breaking_only = True\<rparr>) = Some old \<and>
      document_in one_world (da_new \<lparr>da_old = read_path ''a.yaml'', da_new = read_path ''a.yaml'', da_breaking_only = True\<rparr>) = Some new \<and>
      doc_compatible old new"
    by (simp add: one_document)
qed

theorem check_exit_exact_witness:
  "snd (check_exit one_world (\<lambda>t. Err ''yaml'') \<lparr>ca_spec = read_path ''a.yaml'', ca_strict = True, ca_deprecations = False,
     ca_disable_rules = [], ca_enable_rules = [], ca_severity_overrides = [''unused-schema:error''], ca_config_file = None\<rparr>)
   = ExitSuccess"
proof (subst check_exit_exact, intro exI conjI)
  let ?args = "\<lparr>ca_spec = read_path ''a.yaml'', ca_strict = True, ca_deprecations = False, ca_disable_rules = [],
    ca_enable_rules = [], ca_severity_overrides = [''unused-schema:error''], ca_config_file = None\<rparr>"
  let ?cfg = "set_severity default_config ''unused-schema'' RError"
  show "document_in one_world (ca_spec ?args) = Some one_doc" by (rule one_document)
  show "snd (lint_settings one_world (\<lambda>t. Err ''yaml'') ?args) = Ok ?cfg" by code_simp
  show "\<forall>d \<in> set (lint_with_config one_doc ?cfg). di_severity d \<noteq> Error \<and> \<not> ca_strict ?args"
  proof -
    have "lint_with_config one_doc ?cfg = []" by code_simp
    then show ?thesis by simp
  qed
qed

theorem severity_override_parsed_witness:
  "parse_severity_override ''team:unused-schema:WARN'' = cmd_ok (''team:unused-schema'', RWarning)"
proof -
  have low: "to_lowercase ''WARN'' = ''warn''" by code_simp
  have "parse_severity_override (''team:unused-schema'' @ '':'' @ ''WARN'') = cmd_ok (''team:unused-schema'', RWarning)"
    by (subst severity_override_parsed) (simp_all add: low)
  then show ?thesis by simp
qed

end
