(* ===== verification/Cli_Main.thy ===== *)
theory Cli_Main
  imports Cli_Check Mock
begin

text \<open>
  The dispatch of \<open>main\<close> in crates/specforge-cli/src/main.rs: what a command returned decides the exit code. \<open>generate\<close> and
  \<open>test\<close> return the number of files, \<open>check\<close> and \<open>diff\<close> whether something bad was found, \<open>verify\<close> the results of the
  endpoints, \<open>workspace-init\<close> what it wrote; \<open>workspace\<close> only logs its counts, and the other commands return nothing. Last,
  the verifier is run on the mock server of the same document.
\<close>

section \<open>The dispatch\<close>

datatype command_run =
    RunGenerate "nat cmd"
  | RunTest "nat cmd"
  | RunCheck "bool cmd"
  | RunDiff "bool cmd"
  | RunVerify "verify_result list cmd"
  | RunWorkspace "(nat \<times> nat \<times> nat) cmd"
  | RunWorkspaceInit "(nat \<times> path) cmd"
  | RunUnit "unit cmd"

fun main_exit :: "command_run \<Rightarrow> cli_event list \<times> exit_code" where
  "main_exit (RunGenerate m) = finish (\<lambda>_. []) (\<lambda>_. ExitSuccess) m"
| "main_exit (RunTest m) = finish (\<lambda>_. []) (\<lambda>_. ExitSuccess) m"
| "main_exit (RunCheck m) = finish_verdict m"
| "main_exit (RunDiff m) = finish_verdict m"
| "main_exit (RunVerify m) =
     finish (\<lambda>_. []) (\<lambda>results. if 0 < length (filter (\<lambda>r. vr_issues r \<noteq> []) results) then ExitFailure else ExitSuccess) m"
| "main_exit (RunWorkspace m) = finish (\<lambda>_. []) (\<lambda>_. ExitSuccess) m"
| "main_exit (RunWorkspaceInit m) =
     finish (\<lambda>res. [eprintln (''Created '' @ show_path (snd res) @ '' with '' @ show_nat (fst res) @ '' spec(s)'')])
       (\<lambda>_. ExitSuccess) m"
| "main_exit (RunUnit m) = finish_unit m"

lemma finish_failure:
  "snd (finish say code m) = ExitFailure \<longleftrightarrow>
     (\<exists>cs src. snd m = Err (Failed cs src)) \<or> (\<exists>a. snd m = Ok a \<and> code a = ExitFailure)"
  by (auto simp: finish_def split: sum.split cli_stop.split)

lemma finish_keeps_events: "\<exists>es. fst (finish say code m) = fst m @ es"
  by (auto simp: finish_def split: sum.split cli_stop.split)

text \<open>
  An error is reported once, after everything the command printed, and it is the only way besides a verdict to fail.
\<close>

theorem error_reported_last:
  assumes "snd m = Err (Failed cs src)"
  shows "main_exit (RunUnit m) = (fst m @ [Reported cs src], ExitFailure)"
    and "main_exit (RunGenerate m') = main_exit (RunTest m')"
  using assms by (simp_all add: finish_def)

section \<open>The verifier against the mock server\<close>

lemma verify_returns:
  "snd (run_verify w send from_str to_pretty p opts) = Ok rs \<longleftrightarrow>
     (\<exists>doc json. document_in w p = Some doc \<and> to_pretty (verify_api send from_str doc opts) = Ok json
        \<and> rs = verify_api send from_str doc opts)"
  by (auto simp: run_verify_def cmd_iff Let_def)

theorem verify_exit_exact:
  "snd (main_exit (RunVerify (run_verify w send from_str to_pretty p opts))) = ExitSuccess \<longleftrightarrow>
     (\<exists>doc json. document_in w p = Some doc \<and> to_pretty (verify_api send from_str doc opts) = Ok json \<and>
        (\<forall>op \<in> set (doc_operations doc). vr_issues (verify_operation send from_str doc op opts) = []))"
proof -
  have "snd (main_exit (RunVerify (run_verify w send from_str to_pretty p opts))) = ExitSuccess \<longleftrightarrow>
      (\<exists>rs. snd (run_verify w send from_str to_pretty p opts) = Ok rs \<and> (\<forall>r \<in> set rs. vr_issues r = []))"
    by (simp add: finish_success filter_empty_conv) (meson exit_code.distinct(1))
  then show ?thesis by (force simp: verify_returns verify_api_def)
qed

text \<open>The conditions under which an operation is answered by the mock server as its document promises.\<close>

definition mockable :: "document \<Rightarrow> operation \<Rightarrow> bool" where
  "mockable doc op \<longleftrightarrow> op_method op \<noteq> Head \<and> plain_path (op_path op) \<and>
     (case op_responses op of
        [] \<Rightarrow> False
      | r # rs \<Rightarrow> resp_status r \<in> {''200'', ''201''}
          \<and> (case resp_body r of None \<Rightarrow> False | Some ty \<Rightarrow> type_inhabited ty))"

theorem verify_passes_against_mock:
  assumes doc: "document_in w p = Some doc"
    and server: "from_doc to_string_pretty depth doc = Some server"
    and client: "serves to_string (ms_routes server) (vo_base_url opts) send"
    and json: "\<And>ty j. generate_example_json depth doc ty = Some j \<Longrightarrow> from_str (to_string_pretty j) = Some j"
    and unique: "distinct (map (\<lambda>o'. (op_method o', op_path o')) (doc_operations doc))"
    and ops: "\<forall>op \<in> set (doc_operations doc). mockable doc op" and inhabited: "registry_inhabited (doc_schemas doc)"
    and printed: "to_pretty (verify_api send from_str doc opts) = Ok text"
  shows "snd (main_exit (RunVerify (run_verify w send from_str to_pretty p opts))) = ExitSuccess"
proof -
  have "vr_issues (verify_operation send from_str doc op opts) = []" if op: "op \<in> set (doc_operations doc)" for op
  proof -
    from ops op obtain r rs ty where r: "op_responses op = r # rs" "resp_status r \<in> {''200'', ''201''}"
        "resp_body r = Some ty" "type_inhabited ty" and m: "op_method op \<noteq> Head" "plain_path (op_path op)"
      by (fastforce simp: mockable_def split: list.splits option.splits)
    obtain code where "parse_unsigned 16 (resp_status r) = Some code" "code \<in> {200, 201}"
      using r(2) shown_codes(4,5) by auto
    with mock_verified [OF server client json op m unique r(1) _ _ _ _ r(3) inhabited r(4)] show ?thesis by auto
  qed
  with doc printed show ?thesis by (subst verify_exit_exact) blast
qed

end
