(* ===== verification/Convert.thy ===== *)
theory Convert
  imports Spec_Parse
begin

text \<open>
  \<open>specforge convert\<close> (crates/specforge-cli/src/main.rs): a document is rewritten from OpenAPI 3.0 to 3.1
  (\<open>upgrade_30_to_31\<close>) and back (\<open>downgrade_31_to_30\<close>, a second copy of the pass of spec.rs that leaves out
  the treatment of the siblings of a reference). The decoders and printers of JSON and YAML are parameters.

  \<open>plain_30\<close> says when an object uses the keywords of 3.0 only; on documents made of such objects the two
  directions are inverse to each other.
\<close>

section \<open>From 3.0 to 3.1\<close>

text \<open>\<open>type: X\<close> with \<open>nullable: true\<close> becomes \<open>type: [X, "null"]\<close>.\<close>

definition upgrade_type :: "json_object \<Rightarrow> json_object" where
  "upgrade_type obj =
     (case (map_of obj ''type'', map_of obj ''nullable'') of
        (Some type_val, Some nullable) \<Rightarrow>
          if as_bool nullable = Some True
          then bt_remove ''nullable''
                 (case as_str type_val of
                    Some type_str \<Rightarrow> bt_insert ''type'' (JArray [JString type_str, JString ''null'']) obj
                  | None \<Rightarrow> obj)
          else obj
      | _ \<Rightarrow> obj)"

text \<open>A bound that is exclusive by \<open>true\<close> becomes the limit of its companion.\<close>

definition upgrade_exclusive :: "string \<Rightarrow> string \<Rightarrow> json_object \<Rightarrow> json_object" where
  "upgrade_exclusive field companion obj =
     (case map_of obj field of
        None \<Rightarrow> obj
      | Some val \<Rightarrow>
          if as_bool val = Some True
          then (case map_of obj companion of
                  None \<Rightarrow> obj
                | Some limit \<Rightarrow> if is_number limit then bt_insert field limit obj else obj)
          else obj)"

definition upgrade_enum :: "json_object \<Rightarrow> json_object" where
  "upgrade_enum obj =
     (case Option.bind (map_of obj ''enum'') as_array of
        None \<Rightarrow> obj
      | Some arr \<Rightarrow>
          if length arr = 1 then bt_remove ''enum'' (bt_insert ''const'' (arr ! 0) obj) else obj)"

definition upgrade_step :: "json_object \<Rightarrow> json_object" where
  "upgrade_step obj =
     upgrade_enum
       (upgrade_exclusive ''exclusiveMaximum'' ''maximum''
         (upgrade_exclusive ''exclusiveMinimum'' ''minimum''
           (upgrade_type obj)))"

lemma upgrade_type_below: "1 \<le> h \<Longrightarrow> values_below h m \<Longrightarrow> values_below h (upgrade_type m)"
  by (auto simp: upgrade_type_def intro!: values_sat_remove values_sat_insert split: option.splits)

lemma upgrade_exclusive_below: "values_below h m \<Longrightarrow> values_below h (upgrade_exclusive f c m)"
  by (auto simp: upgrade_exclusive_def intro!: values_sat_insert dest: values_below_lookup split: option.splits)

lemma upgrade_enum_below:
  assumes "values_below h m"
  shows "values_below h (upgrade_enum m)"
proof -
  have "json_rank (arr ! 0) \<le> h" if "map_of m ''enum'' = Some (JArray arr)" "length arr = 1" for arr
    using values_below_lookup [OF assms that(1)] json_rank_array [of "arr ! 0" arr] that(2) by (simp del: json_rank.simps)
  with assms show ?thesis
    by (auto simp: upgrade_enum_def bind_eq_Some_conv intro!: values_sat_remove values_sat_insert split: option.splits)
qed

lemma upgrade_step_rank:
  assumes "(k, v) \<in> set (upgrade_step m)"
  shows "json_rank v < json_rank (JObject m)"
proof -
  let ?h = "Suc (max_list (map (\<lambda>kv. json_rank (snd kv)) m))"
  have "values_below ?h m"
    by (auto simp: values_sat_def intro: json_rank_value le_SucI)
  then have "values_below ?h (upgrade_step m)"
    unfolding upgrade_step_def by (intro upgrade_enum_below upgrade_exclusive_below upgrade_type_below) simp
  with assms show ?thesis by (auto simp: values_sat_def)
qed

function upgrade_30_to_31 :: "json \<Rightarrow> json" where
  "upgrade_30_to_31 (JObject obj) = JObject (map_values upgrade_30_to_31 (upgrade_step obj))"
| "upgrade_30_to_31 (JArray arr) = JArray (map upgrade_30_to_31 arr)"
| "upgrade_30_to_31 JNull = JNull"
| "upgrade_30_to_31 (JBool b) = JBool b"
| "upgrade_30_to_31 (JNumber n) = JNumber n"
| "upgrade_30_to_31 (JString s) = JString s"
  by pat_completeness auto
termination
  by (relation "measure json_rank")
    (auto simp: json_rank_array simp del: json_rank.simps intro: upgrade_step_rank)

interpretation up_pass: json_rewrite upgrade_step upgrade_30_to_31
proof unfold_locales
  show "upgrade_30_to_31 j = j" if "\<not> is_object j" "\<not> is_array j" for j
    using that by (cases j) (auto simp: is_object_def is_array_def)
qed (auto intro: upgrade_step_rank simp del: json_rank.simps)

section \<open>From 3.1 to 3.0\<close>

text \<open>The copy of the pass in main.rs rewrites an object as \<open>downgrade_step\<close> does.\<close>

function cli_downgrade_value :: "json \<Rightarrow> json" where
  "cli_downgrade_value (JObject obj) =
     JObject (map_values cli_downgrade_value
       (downgrade_prefix_items
         (downgrade_dependent_required
           (downgrade_const
             (downgrade_exclusive ''exclusiveMaximum''
               (downgrade_exclusive ''exclusiveMinimum''
                 (downgrade_type obj)))))))"
| "cli_downgrade_value (JArray arr) = JArray (map cli_downgrade_value arr)"
| "cli_downgrade_value JNull = JNull"
| "cli_downgrade_value (JBool b) = JBool b"
| "cli_downgrade_value (JNumber n) = JNumber n"
| "cli_downgrade_value (JString s) = JString s"
  by pat_completeness auto
termination
  by (relation "measure json_rank")
    (auto simp: json_rank_array simp del: json_rank.simps
      intro: downgrade_step_rank [unfolded downgrade_step_def])

definition ensure_paths :: "json \<Rightarrow> json" where
  "ensure_paths j =
     (case json_get j ''paths'' of
        Some _ \<Rightarrow> j
      | None \<Rightarrow> (case j of JObject m \<Rightarrow> JObject (bt_insert ''paths'' (JObject []) m) | _ \<Rightarrow> j))"

definition cli_downgrade_31_to_30 :: "json \<Rightarrow> json" where
  "cli_downgrade_31_to_30 j = cli_downgrade_value (ensure_paths j)"

section \<open>The command\<close>

datatype openapi_version = V30 | V31

definition json_set :: "string \<Rightarrow> json \<Rightarrow> json \<Rightarrow> json" where
  "json_set k v j = (case j of JObject m \<Rightarrow> JObject (bt_insert k v m) | _ \<Rightarrow> j)"

definition current_version :: "json \<Rightarrow> string" where
  "current_version j =
     (case Option.bind (json_get j ''openapi'') as_str of Some v \<Rightarrow> v | None \<Rightarrow> ''3.0.3'')"

definition convert_json :: "openapi_version \<Rightarrow> json \<Rightarrow> json" where
  "convert_json target j =
     (case target of
        V31 \<Rightarrow>
          json_set ''openapi'' (JString ''3.1.0'')
            (if starts_with (current_version j) ''3.1'' then j else upgrade_30_to_31 j)
      | V30 \<Rightarrow>
          json_set ''openapi'' (JString ''3.0.3'')
            (if starts_with (current_version j) ''3.1'' then cli_downgrade_31_to_30 j else j))"


section \<open>The copy of the downgrade\<close>

lemma cli_downgrade_value_eq: "cli_downgrade_value j = downgrade_value j"
proof (induction j rule: down_pass.pass_induct)
  case (1 m)
  then have "map_values cli_downgrade_value (downgrade_step m) = map_values downgrade_value (downgrade_step m)"
    by (intro map_values_cong refl) (metis surjective_pairing)
  then show ?case by (simp add: downgrade_step_def)
next
  case (3 j)
  then show ?case by (cases j) (auto simp: is_object_def is_array_def)
qed simp

section \<open>The two directions are inverse on plain documents\<close>

text \<open>
  An object that uses the keywords the way 3.0 has them: no keyword of 3.1, a type that is no list, booleans as
  exclusive bounds, and \<open>nullable\<close> on a named type only.
\<close>

definition plain_30 :: "json_object \<Rightarrow> bool" where
  "plain_30 m \<longleftrightarrow>
     \<not> contains_key m ''const'' \<and> \<not> contains_key m ''dependentRequired'' \<and> \<not> contains_key m ''prefixItems'' \<and>
     \<not> numeric_field m ''exclusiveMinimum'' \<and> \<not> numeric_field m ''exclusiveMaximum'' \<and>
     (case map_of m ''type'' of
        None \<Rightarrow> True
      | Some t \<Rightarrow>
          if map_of m ''nullable'' = Some (JBool True)
          then (case as_str t of None \<Rightarrow> False | Some s \<Rightarrow> s \<noteq> ''null'')
          else \<not> is_array t)"

lemma bt_eqI:
  assumes "bt_invar a" "bt_invar b" "map_of a = map_of b"
  shows "a = b"
proof -
  have d: "distinct (map fst a)" "distinct (map fst b)"
    using assms(1,2) by (simp_all add: bt_invar_distinct)
  then have "set a = set b" using assms(3) by (simp add: map_of_inject_set)
  then have "sorted_list_of_set (fst ` set a) = sorted_list_of_set (fst ` set b)" by simp
  then have "map fst a = map fst b"
    using assms(1,2) by (metis bt_invar_def sorted_list_of_set.idem_if_sorted_distinct list.set_map strict_sorted_iff)
  moreover have "map (the \<circ> map_of xs) (map fst xs) = map snd xs" if "distinct (map fst xs)" for xs :: "('a \<times> 'b) list"
    using that by (simp add: comp_def) (metis map_of_eq_Some_iff option.sel surjective_pairing)
  ultimately show ?thesis using assms(3) d by (metis pair_list_eqI)
qed

lemma as_bool_Some: "as_bool j = Some b \<longleftrightarrow> j = JBool b"
  by (cases j) auto

named_theorems up_lookup \<open>lookups after a step of the upgrade\<close>

lemma upgrade_type_lookup [up_lookup]:
  "k \<noteq> ''type'' \<Longrightarrow> k \<noteq> ''nullable'' \<Longrightarrow> map_of (upgrade_type m) k = map_of m k"
  by (auto simp: upgrade_type_def map_laws split: option.splits)

lemma upgrade_exclusive_lookup [up_lookup]:
  "k \<noteq> f \<Longrightarrow> map_of (upgrade_exclusive f c m) k = map_of m k"
  by (auto simp: upgrade_exclusive_def map_laws split: option.splits)

lemma upgrade_enum_lookup [up_lookup]:
  "k \<noteq> ''enum'' \<Longrightarrow> k \<noteq> ''const'' \<Longrightarrow> map_of (upgrade_enum m) k = map_of m k"
  by (auto simp: upgrade_enum_def map_laws split: option.splits)

lemma upgrade_exclusive_value:
  "map_of (upgrade_exclusive f c m) f =
     (case map_of m f of
        Some (JBool True) \<Rightarrow>
          (case map_of m c of Some l \<Rightarrow> Some (if is_number l then l else JBool True) | None \<Rightarrow> Some (JBool True))
      | v \<Rightarrow> v)"
  by (auto simp: upgrade_exclusive_def map_laws as_bool_Some split: option.splits json.splits bool.splits)

lemma downgrade_type_idle:
  "(\<And>xs. map_of n ''type'' \<noteq> Some (JArray xs)) \<Longrightarrow> downgrade_type n = n"
  by (auto simp: downgrade_type_def bind_eq_Some_conv split: option.splits)

lemma downgrade_type_nullable:
  "map_of n ''type'' = Some (JArray [JString s, JString ''null'']) \<Longrightarrow> s \<noteq> ''null'' \<Longrightarrow>
   downgrade_type n = bt_insert ''nullable'' (JBool True) (bt_insert ''type'' (JString s) n)"
  by (simp add: downgrade_type_def Let_def)

lemma downgrade_exclusive_value:
  "map_of (downgrade_exclusive f n) f =
     (case map_of n f of Some v \<Rightarrow> Some (if is_number v then JBool True else v) | None \<Rightarrow> None)"
  by (auto simp: downgrade_exclusive_def map_laws split: option.splits)

lemma downgrade_const_enum:
  "map_of (downgrade_const n) ''enum'' =
     (case map_of n ''const'' of Some c \<Rightarrow> Some (JArray [c]) | None \<Rightarrow> map_of n ''enum'')"
  by (auto simp: downgrade_const_def map_laws split: option.splits)

lemma downgrade_idle:
  assumes "map_of n ''dependentRequired'' = None" and "map_of n ''prefixItems'' = None"
  shows "downgrade_step n = downgrade_const (downgrade_exclusive ''exclusiveMaximum''
    (downgrade_exclusive ''exclusiveMinimum'' (downgrade_type n)))"
  using assms
  by (simp add: downgrade_step_def downgrade_dependent_required_def downgrade_prefix_items_def step_lookup)

lemma upgrade_type_sorted: "bt_invar m \<Longrightarrow> bt_invar (upgrade_type m)"
  by (auto simp: upgrade_type_def bt_invar_insert bt_invar_remove split: option.split)

lemma upgrade_exclusive_sorted: "bt_invar m \<Longrightarrow> bt_invar (upgrade_exclusive f c m)"
  by (auto simp: upgrade_exclusive_def bt_invar_insert split: option.split)

lemma upgrade_enum_sorted: "bt_invar m \<Longrightarrow> bt_invar (upgrade_enum m)"
  by (auto simp: upgrade_enum_def bt_invar_insert bt_invar_remove split: option.split)

lemma upgrade_step_sorted: "bt_invar m \<Longrightarrow> bt_invar (upgrade_step m)"
  by (simp add: upgrade_step_def upgrade_type_sorted upgrade_exclusive_sorted upgrade_enum_sorted)

definition raised_bound :: "json option \<Rightarrow> json option \<Rightarrow> json option" where
  "raised_bound bound limit =
     (case bound of
        Some (JBool True) \<Rightarrow>
          (case limit of Some l \<Rightarrow> Some (if is_number l then l else JBool True) | None \<Rightarrow> Some (JBool True))
      | v \<Rightarrow> v)"

lemma upgrade_exclusive_raised:
  "map_of (upgrade_exclusive f c m) f = raised_bound (map_of m f) (map_of m c)"
  by (simp add: upgrade_exclusive_value raised_bound_def)

lemma upgrade_step_lookups:
  "k \<in> {''type'', ''nullable''} \<Longrightarrow> map_of (upgrade_step m) k = map_of (upgrade_type m) k"
  "map_of (upgrade_step m) ''exclusiveMinimum'' = raised_bound (map_of m ''exclusiveMinimum'') (map_of m ''minimum'')"
  "map_of (upgrade_step m) ''exclusiveMaximum'' = raised_bound (map_of m ''exclusiveMaximum'') (map_of m ''maximum'')"
  "k \<notin> {''type'', ''nullable'', ''exclusiveMinimum'', ''exclusiveMaximum'', ''enum'', ''const''} \<Longrightarrow>
   map_of (upgrade_step m) k = map_of m k"
  by (auto simp: upgrade_step_def up_lookup upgrade_exclusive_raised)

lemma upgrade_step_enum:
  "map_of (upgrade_step m) ''const'' =
     (case map_of m ''enum'' of Some (JArray [v]) \<Rightarrow> Some v | e \<Rightarrow> map_of m ''const'')"
  "map_of (upgrade_step m) ''enum'' =
     (case map_of m ''enum'' of Some (JArray [v]) \<Rightarrow> None | e \<Rightarrow> e)"
  by (auto simp: upgrade_step_def upgrade_enum_def up_lookup map_laws length_Suc_conv bind_eq_Some_conv
      split: option.splits json.splits list.splits)


lemma upgrade_type_idle:
  "map_of m ''type'' = None \<or> map_of m ''nullable'' \<noteq> Some (JBool True) \<Longrightarrow> upgrade_type m = m"
  by (auto simp: upgrade_type_def as_bool_Some split: option.splits)

lemma upgrade_type_named:
  "map_of m ''type'' = Some (JString s) \<Longrightarrow> map_of m ''nullable'' = Some (JBool True) \<Longrightarrow>
   upgrade_type m = bt_remove ''nullable'' (bt_insert ''type'' (JArray [JString s, JString ''null'']) m)"
  by (simp add: upgrade_type_def)

lemma is_array_upgrade [simp]: "(upgrade_30_to_31 j = JArray xs) \<Longrightarrow> is_array j"
  by (cases j) (auto simp: is_array_def)

lemma is_number_upgrade [simp]: "is_number (upgrade_30_to_31 j) = is_number j"
  by (cases j) auto

lemma up_down_type:
  assumes m: "plain_30 m" and rec: "\<And>k v. map_of m k = Some v \<Longrightarrow> downgrade_value (upgrade_30_to_31 v) = v"
    and k: "k \<in> {''type'', ''nullable''}"
  defines "n \<equiv> map_values upgrade_30_to_31 (upgrade_step m)"
  shows "map_option downgrade_value (map_of (downgrade_type n) k) = map_of m k"
proof (cases "map_of m ''type'' = None \<or> map_of m ''nullable'' \<noteq> Some (JBool True)")
  case True
  then have n: "map_of n k = map_option upgrade_30_to_31 (map_of m k)"
    if "k \<in> {''type'', ''nullable''}" for k
    using that by (simp add: n_def upgrade_step_lookups upgrade_type_idle)
  moreover have "map_of n ''type'' \<noteq> Some (JArray xs)" for xs
    using True m n [of "''type''"] by (auto simp: plain_30_def is_array_def split: option.splits if_splits dest!: is_array_upgrade)
  then have "downgrade_type n = n" by (rule downgrade_type_idle)
  ultimately show ?thesis
    using k rec [of k] by (cases "map_of m k") auto
next
  case False
  then obtain s where s: "map_of m ''type'' = Some (JString s)" "s \<noteq> ''null''"
    using m by (auto simp: plain_30_def split: option.splits)
  with False have "map_of n ''type'' = Some (JArray [JString s, JString ''null''])"
    by (simp add: n_def upgrade_step_lookups upgrade_type_named map_laws)
  from downgrade_type_nullable [OF this s(2)] show ?thesis
    using k s False by (auto simp: map_laws)
qed

lemma up_down_bound:
  assumes "\<not> numeric_field m f" and "\<And>k v. map_of m k = Some v \<Longrightarrow> downgrade_value (upgrade_30_to_31 v) = v"
    and "map_of n f = map_option upgrade_30_to_31 (raised_bound (map_of m f) (map_of m c))"
  shows "map_option downgrade_value (map_of (downgrade_exclusive f n) f) = map_of m f"
proof (cases "map_of m f")
  case None
  with assms(3) show ?thesis by (simp add: downgrade_exclusive_value raised_bound_def)
next
  case (Some v)
  with assms(1) have "\<not> is_number v" by (simp add: numeric_field_def)
  moreover have "downgrade_value (upgrade_30_to_31 v) = v" using assms(2) Some .
  ultimately show ?thesis
    using assms(3) Some
    by (cases "v = JBool True")
      (auto simp: downgrade_exclusive_value raised_bound_def split: option.splits json.splits bool.splits)
qed

lemma up_down_enum:
  assumes m: "plain_30 m" and rec: "\<And>k v. map_of m k = Some v \<Longrightarrow> downgrade_value (upgrade_30_to_31 v) = v"
    and n: "\<And>k. k \<in> {''enum'', ''const''} \<Longrightarrow> map_of n k = map_option upgrade_30_to_31 (map_of (upgrade_step m) k)"
  shows "map_option downgrade_value (map_of (downgrade_const n) ''enum'') = map_of m ''enum''"
proof (cases "\<exists>v. map_of m ''enum'' = Some (JArray [v])")
  case True
  then obtain v where v: "map_of m ''enum'' = Some (JArray [v])" by blast
  with rec have "downgrade_value (upgrade_30_to_31 v) = v" by fastforce
  with v n show ?thesis by (simp add: downgrade_const_enum upgrade_step_enum)
next
  case False
  then have "map_of (upgrade_step m) ''enum'' = map_of m ''enum''" "map_of (upgrade_step m) ''const'' = None"
    using m by (auto simp: upgrade_step_enum plain_30_def contains_key_def split: option.splits json.splits list.splits)
  with n show ?thesis
    using rec [of "''enum''"] by (cases "map_of m ''enum''") (simp_all add: downgrade_const_enum)
qed

lemma six_keys:
  "\<lbrakk>k = a \<Longrightarrow> P; k = b \<Longrightarrow> P; k = c \<Longrightarrow> P; k = d \<Longrightarrow> P; k = e \<Longrightarrow> P; k = f \<Longrightarrow> P; k \<notin> {a, b, c, d, e, f} \<Longrightarrow> P\<rbrakk> \<Longrightarrow> P"
  by blast

lemma up_down_lookup:
  assumes m: "plain_30 m"
    and rec: "\<And>k v. map_of m k = Some v \<Longrightarrow> downgrade_value (upgrade_30_to_31 v) = v"
    and n: "n = map_values upgrade_30_to_31 (upgrade_step m)"
  shows "map_option downgrade_value (map_of (downgrade_step n) k) = map_of m k"
proof -
  have gone: "map_of m ''const'' = None" "map_of m ''dependentRequired'' = None" "map_of m ''prefixItems'' = None"
    using m by (simp_all add: plain_30_def contains_key_def)
  then have d: "downgrade_step n = downgrade_const (downgrade_exclusive ''exclusiveMaximum''
      (downgrade_exclusive ''exclusiveMinimum'' (downgrade_type n)))" (is "_ = downgrade_const ?d2")
    by (intro downgrade_idle) (simp_all add: n upgrade_step_lookups)
  have num: "\<not> numeric_field m ''exclusiveMinimum''" "\<not> numeric_field m ''exclusiveMaximum''"
    using m by (simp_all add: plain_30_def)
  consider "k = ''type''" | "k = ''nullable''" | "k = ''exclusiveMinimum''" | "k = ''exclusiveMaximum''"
    | "k = ''enum''" | "k = ''const''"
    | "k \<notin> {''type'', ''nullable'', ''exclusiveMinimum'', ''exclusiveMaximum'', ''enum'', ''const''}"
    by (rule six_keys)
  then show ?thesis
  proof cases
    case 1
    have "map_of (downgrade_step n) k = map_of (downgrade_type n) k" by (simp add: 1 d step_lookup)
    with up_down_type [OF m rec, where k = k] show ?thesis by (simp add: 1 n)
  next
    case 2
    have "map_of (downgrade_step n) k = map_of (downgrade_type n) k" by (simp add: 2 d step_lookup)
    with up_down_type [OF m rec, where k = k] show ?thesis by (simp add: 2 n)
  next
    case 3
    have "map_of (downgrade_type n) k = map_option upgrade_30_to_31 (raised_bound (map_of m k) (map_of m ''minimum''))"
      by (simp add: 3 n step_lookup upgrade_step_lookups)
    from up_down_bound [OF num(1) rec this [unfolded 3]] show ?thesis by (simp add: 3 d step_lookup)
  next
    case 4
    have "map_of (downgrade_exclusive ''exclusiveMinimum'' (downgrade_type n)) k
        = map_option upgrade_30_to_31 (raised_bound (map_of m k) (map_of m ''maximum''))"
      by (simp add: 4 n step_lookup upgrade_step_lookups)
    from up_down_bound [OF num(2) rec this [unfolded 4]] show ?thesis by (simp add: 4 d step_lookup)
  next
    case 5
    have "map_of ?d2 k = map_option upgrade_30_to_31 (map_of (upgrade_step m) k)" if "k \<in> {''enum'', ''const''}" for k
      using that by (auto simp: n step_lookup)
    from up_down_enum [OF m rec this] show ?thesis by (simp add: 5 d)
  next
    case 6
    with gone show ?thesis by (simp add: d downgrade_const_gone)
  next
    case 7
    then have "map_of (downgrade_step n) k = map_of n k" by (simp add: d step_lookup)
    also have "\<dots> = map_option upgrade_30_to_31 (map_of m k)" using 7 by (simp add: n upgrade_step_lookups)
    finally show ?thesis using rec [of k] by (cases "map_of m k") auto
  qed
qed

lemma up_down_object:
  assumes "plain_30 m" and wf: "bt_invar m"
    and "\<And>k v. map_of m k = Some v \<Longrightarrow> downgrade_value (upgrade_30_to_31 v) = v"
  shows "map_values downgrade_value (downgrade_step (map_values upgrade_30_to_31 (upgrade_step m))) = m"
proof (rule bt_eqI)
  let ?n = "map_values upgrade_30_to_31 (upgrade_step m)"
  show "bt_invar (map_values downgrade_value (downgrade_step ?n))"
    using wf by (simp add: downgrade_step_sorted upgrade_step_sorted)
  show "map_of (map_values downgrade_value (downgrade_step ?n)) = map_of m"
    using up_down_lookup [OF assms(1,3) refl] by (intro ext) simp
qed (rule wf)

lemma down_up_plain:
  assumes "json_wf j" and "all_objects plain_30 j"
  shows "cli_downgrade_value (upgrade_30_to_31 j) = j"
proof -
  have "downgrade_value (upgrade_30_to_31 j) = j"
    using assms
  proof (induction j rule: measure_induct_rule [of json_rank])
    case (less j)
    show ?case
    proof (cases j)
      case (JArray xs)
      with less show ?thesis by (auto simp: json_wf_def list_all_iff json_rank_array simp del: json_rank.simps intro!: map_idI)
    next
      case (JObject m)
      have "downgrade_value (upgrade_30_to_31 v) = v" if "map_of m k = Some v" for k v
      proof (rule less.IH)
        show "json_rank v < json_rank j" using json_rank_object [OF map_of_SomeD [OF that]] JObject by simp
        show "json_wf v" "all_objects plain_30 v"
          using less.prems that unfolding JObject json_wf_def by (blast intro: all_objects_value)+
      qed
      with less.prems show ?thesis by (simp add: JObject json_wf_def up_down_object)
    qed simp_all
  qed
  then show ?thesis by (simp add: cli_downgrade_value_eq)
qed

text \<open>
  C10. On a document that uses the keywords the way 3.0 has them, upgrading every object to 3.1 and downgrading the
  result gives the document back, whatever its nesting.
\<close>

theorem downgrade_undoes_upgrade:
  assumes "json_wf j" and "all_objects plain_30 j"
  shows "cli_downgrade_value (upgrade_30_to_31 j) = j"
  using assms by (rule down_up_plain)

definition bounded_enum :: json where
  "bounded_enum = JObject [(''enum'', JArray [JString ''a'']), (''exclusiveMinimum'', JBool True),
     (''minimum'', JNumber (PosInt 3)), (''nullable'', JBool True), (''type'', JString ''string'')]"

theorem downgrade_undoes_upgrade_witness:
  "upgrade_30_to_31 bounded_enum = JObject [(''const'', JString ''a''), (''exclusiveMinimum'', JNumber (PosInt 3)),
      (''minimum'', JNumber (PosInt 3)), (''type'', JArray [JString ''string'', JString ''null''])] \<and>
    cli_downgrade_value (upgrade_30_to_31 bounded_enum) = bounded_enum"
proof
  show "upgrade_30_to_31 bounded_enum = JObject [(''const'', JString ''a''), (''exclusiveMinimum'', JNumber (PosInt 3)),
      (''minimum'', JNumber (PosInt 3)), (''type'', JArray [JString ''string'', JString ''null''])]"
    by code_simp
  show "cli_downgrade_value (upgrade_30_to_31 bounded_enum) = bounded_enum"
    by (rule downgrade_undoes_upgrade) (unfold json_wf_def, code_simp+)
qed

section \<open>Converting a document there and back\<close>

lemma upgrade_openapi_field:
  assumes "map_of a = (map_of b)(''openapi'' \<mapsto> v)"
  shows "map_of (upgrade_step a) = (map_of (upgrade_step b))(''openapi'' \<mapsto> v)"
proof -
  have t: "map_of (upgrade_type a) = (map_of (upgrade_type b))(''openapi'' \<mapsto> v)"
    using assms by (auto simp: upgrade_type_def map_laws fun_upd_twist split: option.split)
  have e: "map_of (upgrade_exclusive f c a) = (map_of (upgrade_exclusive f c b))(''openapi'' \<mapsto> v)"
    if "map_of a = (map_of b)(''openapi'' \<mapsto> v)" "f \<noteq> ''openapi''" "c \<noteq> ''openapi''" for a b f c
    using that by (auto simp: upgrade_exclusive_def map_laws fun_upd_twist split: option.split)
  have n: "map_of (upgrade_enum a) = (map_of (upgrade_enum b))(''openapi'' \<mapsto> v)"
    if "map_of a = (map_of b)(''openapi'' \<mapsto> v)" for a b
    using that by (auto simp: upgrade_enum_def map_laws fun_upd_twist split: option.split)
  show ?thesis unfolding upgrade_step_def by (intro n e t) simp_all
qed

lemma plain_openapi_field: "plain_30 m \<Longrightarrow> plain_30 (bt_insert ''openapi'' v m)"
  by (simp add: plain_30_def contains_key_def numeric_field_def map_laws cong: option.case_cong)

lemma upgrade_set_openapi:
  assumes "bt_invar m"
  shows "json_set ''openapi'' (JString v) (upgrade_30_to_31 (JObject m)) =
    upgrade_30_to_31 (json_set ''openapi'' (JString v) (JObject m))"
proof -
  have "bt_insert ''openapi'' (JString v) (map_values upgrade_30_to_31 (upgrade_step m)) =
    map_values upgrade_30_to_31 (upgrade_step (bt_insert ''openapi'' (JString v) m))"
    using assms upgrade_openapi_field [of "bt_insert ''openapi'' (JString v) m" m "JString v"]
    by (intro bt_eqI) (auto simp: bt_invar_insert upgrade_step_sorted map_laws)
  then show ?thesis by (simp add: json_set_def)
qed

text \<open>
  The conversion to 3.1 and then to 3.0 changes nothing but the version field, for a document with paths that uses
  the keywords of 3.0.
\<close>

theorem convert_there_and_back:
  assumes wf: "json_wf (JObject m)" and plain: "all_objects plain_30 (JObject m)"
    and "contains_key m ''paths''" and "\<not> starts_with (current_version (JObject m)) ''3.1''"
  shows "convert_json V30 (convert_json V31 (JObject m)) = json_set ''openapi'' (JString ''3.0.3'') (JObject m)"
proof -
  let ?m = "bt_insert ''openapi'' (JString ''3.1.0'') m"
  have m: "bt_invar m" using wf by (simp add: json_wf_def)
  have up: "convert_json V31 (JObject m) = upgrade_30_to_31 (JObject ?m)"
    using assms(4) upgrade_set_openapi [OF m] by (simp add: convert_json_def) (simp add: json_set_def)
  have "map_of (upgrade_step ?m) ''openapi'' = Some (JString ''3.1.0'')"
    "map_of (upgrade_step ?m) ''paths'' \<noteq> None"
    using assms(3) by (simp_all add: upgrade_step_lookups map_laws contains_key_def)
  then have "current_version (upgrade_30_to_31 (JObject ?m)) = ''3.1.0''"
    "ensure_paths (upgrade_30_to_31 (JObject ?m)) = upgrade_30_to_31 (JObject ?m)"
    by (auto simp: current_version_def ensure_paths_def)
  moreover have "json_wf (JObject ?m)" "all_objects plain_30 (JObject ?m)"
    using wf plain by (auto simp: json_wf_def bt_invar_insert plain_openapi_field intro!: values_sat_insert)
  then have "cli_downgrade_value (upgrade_30_to_31 (JObject ?m)) = JObject ?m"
    by (rule down_up_plain)
  ultimately have "convert_json V30 (convert_json V31 (JObject m)) = json_set ''openapi'' (JString ''3.0.3'') (JObject ?m)"
    by (simp only: up) (simp add: convert_json_def cli_downgrade_31_to_30_def starts_with_def)
  also have "\<dots> = json_set ''openapi'' (JString ''3.0.3'') (JObject m)"
    using m by (auto simp: json_set_def bt_invar_insert map_laws intro!: bt_eqI)
  finally show ?thesis .
qed

theorem convert_there_and_back_witness:
  "convert_json V30 (convert_json V31 (JObject [(''openapi'', JString ''3.0.1''), (''paths'', JObject [])])) =
   JObject [(''openapi'', JString ''3.0.3''), (''paths'', JObject [])]"
proof -
  let ?m = "[(''openapi'', JString ''3.0.1''), (''paths'', JObject [])]"
  have "convert_json V30 (convert_json V31 (JObject ?m)) = json_set ''openapi'' (JString ''3.0.3'') (JObject ?m)"
    by (rule convert_there_and_back) (unfold json_wf_def, code_simp+)
  also have "\<dots> = JObject [(''openapi'', JString ''3.0.3''), (''paths'', JObject [])]" by code_simp
  finally show ?thesis .
qed

section \<open>What a conversion loses\<close>

text \<open>
  A limit that 3.1 gives as an exclusive bound is replaced by \<open>true\<close>, and no \<open>minimum\<close> is written in its place:
  the documents for all limits are converted to the same one.
\<close>

theorem exclusive_limit_lost:
  assumes "bt_invar m"
  shows "cli_downgrade_value (JObject (bt_insert ''exclusiveMinimum'' (JNumber a) m)) =
    cli_downgrade_value (JObject (bt_insert ''exclusiveMinimum'' (JNumber b) m))"
proof -
  let ?a = "\<lambda>x. downgrade_type (bt_insert ''exclusiveMinimum'' (JNumber x) m)"
  have "downgrade_exclusive ''exclusiveMinimum'' (?a a) = downgrade_exclusive ''exclusiveMinimum'' (?a b)"
  proof (rule bt_eqI)
    have "map_of (?a x) ''exclusiveMinimum'' = Some (JNumber x)" for x by (simp add: step_lookup map_laws)
    then have "map_of (downgrade_exclusive ''exclusiveMinimum'' (?a x)) =
        (map_of (?a x))(''exclusiveMinimum'' \<mapsto> JBool True)" for x
      by (simp add: downgrade_exclusive_def map_laws)
    moreover have "map_of (?a x) k = map_of (downgrade_type m) k" if "k \<noteq> ''exclusiveMinimum''" for x k
      using that by (simp add: downgrade_type_def Let_def map_laws cong: option.case_cong split: option.split)
    ultimately show "map_of (downgrade_exclusive ''exclusiveMinimum'' (?a a)) =
        map_of (downgrade_exclusive ''exclusiveMinimum'' (?a b))"
      by (auto simp: fun_eq_iff)
  qed (simp_all add: assms downgrade_sorted bt_invar_insert)
  then show ?thesis by (simp add: cli_downgrade_value_eq downgrade_step_def)
qed

theorem exclusive_limit_lost_witness:
  "cli_downgrade_value (JObject [(''exclusiveMinimum'', JNumber (PosInt 5)), (''type'', JString ''integer'')]) =
   cli_downgrade_value (JObject [(''exclusiveMinimum'', JNumber (PosInt 7)), (''type'', JString ''integer'')])"
  using exclusive_limit_lost [of "[(''type'', JString ''integer'')]" "PosInt 5" "PosInt 7"] by simp

text \<open>
  Reading a 3.1 document wraps a reference with siblings in an \<open>allOf\<close>; converting it to 3.0 leaves the siblings
  beside the reference, where 3.0 ignores them.
\<close>

theorem convert_leaves_reference_siblings:
  defines "j \<equiv> JObject [(''$ref'', JString ''#/components/schemas/Pet''), (''description'', JString ''A pet'')]"
  shows "cli_downgrade_value j = j \<and>
    downgrade_value (extract_ref_siblings j) = JObject [(''allOf'', JArray
      [JObject [(''$ref'', JString ''#/components/schemas/Pet'')], JObject [(''description'', JString ''A pet'')]])]"
  unfolding j_def by (intro conjI) code_simp+

end
