(* ===== verification/Swagger_Export.thy ===== *)
theory Swagger_Export
  imports Spec_Parse
begin

text \<open>
  \<open>specforge export\<close> (crates/specforge-core/src/swagger_export.rs): a document for Swagger Editor, with its references
  meant to be replaced by what they refer to. The recursion through references need not end, so it carries the depth of
  the call stack; \<open>None\<close> is an exhausted stack. The decoders and the YAML printer are parameters.
\<close>

section \<open>References\<close>

definition unescape_segment :: "string \<Rightarrow> string" where
  "unescape_segment s = replace_sub ''~0'' ''~'' (replace_sub ''~1'' ''/'' s)"

fun walk_segments :: "string list \<Rightarrow> json \<Rightarrow> json option" where
  "walk_segments [] j = Some j"
| "walk_segments (s # ss) j =
     (case json_get j (unescape_segment s) of None \<Rightarrow> None | Some v \<Rightarrow> walk_segments ss v)"

text \<open>The first segment is skipped; the components given are the component schemas.\<close>

definition resolve_ref :: "string \<Rightarrow> json \<Rightarrow> json option" where
  "resolve_ref reference components =
     (case strip_prefix ''#/'' reference of
        None \<Rightarrow> None
      | Some ref_path \<Rightarrow>
          let segments = split_on (CHR ''/'') ref_path in
          if length segments < 2 then None else walk_segments (tl segments) components)"

definition ref_target :: "json_object \<Rightarrow> json \<Rightarrow> json option" where
  "ref_target obj components =
     Option.bind (Option.bind (map_of obj ''$ref'') as_str) (\<lambda>r. resolve_ref r components)"

fun resolve_refs_in_value :: "json \<Rightarrow> nat \<Rightarrow> json \<Rightarrow> json option" where
  "resolve_refs_in_value components 0 j = None"
| "resolve_refs_in_value components (Suc n) (JObject obj) =
     (case ref_target obj components of
        Some resolved \<Rightarrow> resolve_refs_in_value components n resolved
      | None \<Rightarrow>
          map_option JObject
            (those (map (\<lambda>kv. map_option (Pair (fst kv)) (resolve_refs_in_value components n (snd kv))) obj)))"
| "resolve_refs_in_value components (Suc n) (JArray arr) =
     map_option JArray (those (map (resolve_refs_in_value components n) arr))"
| "resolve_refs_in_value components (Suc n) j = Some j"

section \<open>The export\<close>

definition component_schemas :: "json \<Rightarrow> json" where
  "component_schemas j =
     (case Option.bind (json_get j ''components'') (\<lambda>c. json_get c ''schemas'') of
        Some s \<Rightarrow> s | None \<Rightarrow> JObject [])"

definition bundle_fields :: "json \<Rightarrow> json" where
  "bundle_fields j =
     (case j of
        JObject m \<Rightarrow>
          let m' = bt_insert ''openapi'' (JString ''3.0.3'') m
          in JObject (if contains_key m' ''paths'' then m' else bt_insert ''paths'' (JObject []) m')
      | _ \<Rightarrow> j)"

definition export_bundle :: "nat \<Rightarrow> json \<Rightarrow> json option" where
  "export_bundle depth j = resolve_refs_in_value (component_schemas j) depth (bundle_fields j)"

datatype export_error = ExportSerialize string | ExportInvalid string | ExportResolve resolve_error

definition export_spec ::
  "(string \<Rightarrow> json option) \<Rightarrow> (string \<Rightarrow> (string, json) result) \<Rightarrow> (json \<Rightarrow> (string, string) result) \<Rightarrow> nat
     \<Rightarrow> string \<Rightarrow> (export_error, string) result option" where
  "export_spec json_from_str yaml_from_str to_yaml depth text =
     (case (case json_from_str (trim_start text) of
              Some v \<Rightarrow> Ok v
            | None \<Rightarrow> (case yaml_from_str text of
                         Inl e \<Rightarrow> Err (ExportInvalid (''failed to parse spec: '' @ e)) | Inr v \<Rightarrow> Ok v)) of
        Inl e \<Rightarrow> Some (Err e)
      | Inr j \<Rightarrow>
          map_option (\<lambda>bundle. case to_yaml bundle of Inl e \<Rightarrow> Err (ExportSerialize e) | Inr yaml \<Rightarrow> Ok yaml)
            (export_bundle depth j))"

section \<open>Depth\<close>

lemma those_mono:
  assumes "those (map f xs) = Some ys" and "\<And>x y. x \<in> set xs \<Longrightarrow> f x = Some y \<Longrightarrow> g x = Some y"
  shows "those (map g xs) = Some ys"
  using assms
  by (induction xs arbitrary: ys) (auto split: option.splits)

text \<open>A stack that is deep enough stays so.\<close>

lemma depth_mono: "resolve_refs_in_value c n j = Some r \<Longrightarrow> n \<le> m \<Longrightarrow> resolve_refs_in_value c m j = Some r"
proof (induction n arbitrary: m j r)
  case (Suc n)
  from Suc.prems(2) obtain k where m: "m = Suc k" and k: "n \<le> k" by (cases m) auto
  note up = Suc.IH [OF _ k]
  show ?case
  proof (cases j)
    case (JObject obj)
    show ?thesis
    proof (cases "ref_target obj c")
      case None
      then obtain kvs where kvs: "r = JObject kvs"
        "those (map (\<lambda>kv. map_option (Pair (fst kv)) (resolve_refs_in_value c n (snd kv))) obj) = Some kvs"
        using Suc.prems(1) JObject by auto
      have "those (map (\<lambda>kv. map_option (Pair (fst kv)) (resolve_refs_in_value c k (snd kv))) obj) = Some kvs"
        by (rule those_mono [OF kvs(2)]) (auto dest: up)
      with None kvs(1) show ?thesis by (simp add: m JObject)
    next
      case (Some t)
      with Suc.prems(1) show ?thesis by (simp add: m JObject up)
    qed
  next
    case (JArray arr)
    then obtain xs where xs: "r = JArray xs" "those (map (resolve_refs_in_value c n) arr) = Some xs"
      using Suc.prems(1) by auto
    have "those (map (resolve_refs_in_value c k) arr) = Some xs"
      by (rule those_mono [OF xs(2)]) (rule up)
    with xs(1) show ?thesis by (simp add: m JArray)
  qed (use Suc.prems(1) m in auto)
qed simp

section \<open>What is replaced\<close>

text \<open>The objects of a value whose references, if any, resolve to nothing.\<close>

definition ref_dangles :: "json \<Rightarrow> json_object \<Rightarrow> bool" where
  "ref_dangles components obj \<longleftrightarrow> ref_target obj components = None"

lemma those_map_id: "(\<And>x. x \<in> set xs \<Longrightarrow> f x = Some x) \<Longrightarrow> those (map f xs) = Some xs"
  by (induction xs) auto

lemma dangling_unchanged:
  "all_objects (ref_dangles c) j \<Longrightarrow> json_rank j < n \<Longrightarrow> resolve_refs_in_value c n j = Some j"
proof (induction c n j rule: resolve_refs_in_value.induct)
  case (2 c n obj)
  then have "ref_target obj c = None" by (simp add: ref_dangles_def)
  moreover have "resolve_refs_in_value c n (snd kv) = Some (snd kv)" if "kv \<in> set obj" for kv
    using 2(1)[OF calculation that] 2(3,4) that json_rank_object [of "fst kv" "snd kv" obj]
    by (auto simp: values_sat_def simp del: json_rank.simps)
  ultimately show ?case by (simp add: those_map_id)
next
  case (3 c n arr)
  have "resolve_refs_in_value c n x = Some x" if "x \<in> set arr" for x
    using 3 that json_rank_array [of x arr] by (auto simp: list_all_iff simp del: json_rank.simps)
  then show ?case by (simp add: those_map_id)
qed simp_all


text \<open>A section of the components in the sense of the standard: \<open>#/components/<section>/<name>\<close>.\<close>

definition standard_ref :: "json_object \<Rightarrow> json_object \<Rightarrow> bool" where
  "standard_ref schemas obj \<longleftrightarrow>
     (case Option.bind (map_of obj ''$ref'') as_str of
        None \<Rightarrow> True
      | Some r \<Rightarrow>
          (\<exists>sect rest. r = ''#/components/'' @ sect @ ''/'' @ rest \<and> CHR ''/'' \<notin> set sect \<and> CHR ''~'' \<notin> set sect \<and>
             \<not> contains_key schemas sect))"

lemma split_on_sep: "c \<notin> set a \<Longrightarrow> split_on c (a @ c # b) = a # split_on c b"
  by (simp add: split_on_append_sep split_on_no_sep)

lemma replace_absent: "c \<notin> set s \<Longrightarrow> replace_sub (c # p) q s = s"
proof (induction s)
  case (Cons x s)
  then have "\<not> starts_with (x # s) (c # p)" by (auto simp: starts_with_def)
  with Cons show ?case by (subst replace_sub.simps) auto
qed (simp add: replace_sub.simps)

lemma standard_ref_dangles:
  assumes "standard_ref schemas obj"
  shows "ref_dangles (JObject schemas) obj"
proof (cases "Option.bind (map_of obj ''$ref'') as_str")
  case None
  then show ?thesis by (simp add: ref_dangles_def ref_target_def)
next
  case (Some r)
  with assms obtain sect rest where r: "r = ''#/components/'' @ sect @ ''/'' @ rest"
    "CHR ''/'' \<notin> set sect" "CHR ''~'' \<notin> set sect" "\<not> contains_key schemas sect"
    by (auto simp: standard_ref_def)
  have "strip_prefix ''#/'' r = Some (''components/'' @ sect @ ''/'' @ rest)"
    by (simp add: r(1) strip_prefix_def starts_with_def)
  moreover have "split_on (CHR ''/'') (''components/'' @ sect @ ''/'' @ rest) = ''components'' # sect # split_on (CHR ''/'') rest"
    using split_on_sep [of "CHR ''/''" "''components''" "sect @ ''/'' @ rest"] split_on_sep [of "CHR ''/''" sect rest] r(2) by simp
  moreover have "unescape_segment sect = sect" using r(3) by (simp add: unescape_segment_def replace_absent)
  ultimately have "resolve_ref r (JObject schemas) = None"
    using r(4) by (simp add: resolve_ref_def contains_key_def)
  with Some show ?thesis by (simp add: ref_dangles_def ref_target_def)
qed

lemma bundle_standard:
  assumes "all_objects (standard_ref schemas) (JObject m)"
  shows "all_objects (standard_ref schemas) (bundle_fields (JObject m))"
proof -
  have "standard_ref schemas (bt_insert k v m) = standard_ref schemas m" if "k \<noteq> ''$ref''" for k v m
    using that by (simp add: standard_ref_def map_laws)
  then show ?thesis
    using assms by (auto simp: bundle_fields_def Let_def standard_ref_def [of _ "[]"] intro!: values_sat_insert)
qed

text \<open>
  C21. The export replaces no reference of the standard form: a document whose references all name a section of the
  components, such as \<open>#/components/schemas/Pet\<close>, is written back with its version and paths filled in and otherwise
  unchanged, unless a component schema happens to have the name of that section.
\<close>

theorem export_keeps_standard_references:
  assumes "component_schemas (JObject m) = JObject schemas"
    and "all_objects (standard_ref schemas) (JObject m)"
    and "json_rank (bundle_fields (JObject m)) < depth"
  shows "export_bundle depth (JObject m) = Some (bundle_fields (JObject m))"
proof -
  have "all_objects (ref_dangles (JObject schemas)) (bundle_fields (JObject m))"
    by (rule all_objects_mono [OF standard_ref_dangles bundle_standard [OF assms(2)]])
  then show ?thesis
    unfolding export_bundle_def assms(1) using assms(3) by (rule dangling_unchanged)
qed

definition pet_document :: "string \<Rightarrow> json" where
  "pet_document r =
     JObject [(''components'', JObject [(''schemas'', JObject [(''Pet'', JObject [(''type'', JString ''object'')])])]),
       (''openapi'', JString ''3.0.3''),
       (''paths'', JObject [(''/pet'', JObject [(''$ref'', JString r)])])]"

theorem export_keeps_standard_references_witness:
  "export_bundle 40 (pet_document ''#/components/schemas/Pet'') = Some (pet_document ''#/components/schemas/Pet'')"
proof -
  let ?r = "''#/components/'' @ ''schemas'' @ ''/'' @ ''Pet''"
  obtain m where m: "pet_document ?r = JObject m" by (simp add: pet_document_def)
  have "export_bundle 40 (JObject m) = Some (bundle_fields (JObject m))"
  proof (rule export_keeps_standard_references)
    show "component_schemas (JObject m) = JObject [(''Pet'', JObject [(''type'', JString ''object'')])]"
      unfolding m [symmetric] by code_simp
    have "standard_ref [(''Pet'', x)] [(''$ref'', JString ?r)]" for x
      unfolding standard_ref_def
      by (simp del: append.simps) (intro exI [of _ "''schemas''"] exI [of _ "''Pet''"], simp add: contains_key_def)
    then show "all_objects (standard_ref [(''Pet'', JObject [(''type'', JString ''object'')])]) (JObject m)"
      unfolding m [symmetric] pet_document_def by (simp add: standard_ref_def [where obj = "(_, _) # _ # _"] standard_ref_def)
    show "json_rank (bundle_fields (JObject m)) < 40"
      unfolding m [symmetric] by code_simp
  qed
  moreover have "bundle_fields (pet_document ?r) = pet_document ?r" by code_simp
  ultimately show ?thesis unfolding m [symmetric] by simp
qed

text \<open>
  What is replaced instead is a reference of two segments, as in Swagger 2, whatever its first segment; and a schema that
  refers to itself this way exhausts every stack.
\<close>

theorem two_segment_references_are_replaced:
  assumes "CHR ''/'' \<notin> set a" and "CHR ''/'' \<notin> set n" and "CHR ''~'' \<notin> set n"
  shows "resolve_ref (''#/'' @ a @ ''/'' @ n) (JObject schemas) = map_of schemas n"
proof -
  have "split_on (CHR ''/'') (a @ ''/'' @ n) = [a, n]"
    using split_on_sep [of "CHR ''/''" a n] assms by (simp add: split_on_no_sep)
  moreover have "unescape_segment n = n" using assms(3) by (simp add: unescape_segment_def replace_absent)
  ultimately show ?thesis
    by (simp add: resolve_ref_def strip_prefix_def starts_with_def split: option.split)
qed

theorem self_reference_never_ends:
  "export_bundle depth (JObject [(''components'', JObject [(''schemas'', JObject
     [(''Node'', JObject [(''$ref'', JString ''#/definitions/Node'')])])])]) = None"
proof -
  let ?schemas = "JObject [(''Node'', JObject [(''$ref'', JString ''#/definitions/Node'')])]"
  have "ref_target [(''$ref'', JString ''#/definitions/Node'')] ?schemas =
      Some (JObject [(''$ref'', JString ''#/definitions/Node'')])" by code_simp
  then have node: "resolve_refs_in_value ?schemas n (JObject [(''$ref'', JString ''#/definitions/Node'')]) = None" for n
    by (induction n) simp_all
  have "those [None] = None" "those [x, None] = None" for x :: "'a option" by (cases x; simp)+
  have inner: "resolve_refs_in_value ?schemas n ?schemas = None" for n
    by (cases n) (simp_all add: node ref_target_def)
  have "resolve_refs_in_value ?schemas n (JObject [(''schemas'', ?schemas)]) = None" for n
    by (cases n) (simp_all add: inner ref_target_def)
  then show ?thesis
    by (cases depth) (simp_all add: export_bundle_def component_schemas_def bundle_fields_def contains_key_def ref_target_def)
qed

end
