(* ===== verification/Cli_Documents.thy ===== *)
theory Cli_Documents
  imports Cli_Base Convert Spec_Merge Infer Changelog Deprecation Versioning
    Analyzer Spec_Versions Swagger_Export
begin

text \<open>
  The commands of crates/specforge-cli/src/main.rs that turn documents into documents or reports: \<open>convert\<close>, \<open>merge\<close>,
  \<open>infer\<close>, \<open>export\<close>, \<open>migrate\<close>, \<open>changelog\<close>, \<open>version\<close>, \<open>emit\<close> and \<open>analyze\<close>. The text codecs are a
  record of parameters; what happens to the values between reading and printing is the models of the components.
\<close>

record codec =
  co_json :: "string \<Rightarrow> (string, json) result"
  co_yaml :: "string \<Rightarrow> (string, json) result"
  co_json_pretty :: "json \<Rightarrow> (string, string) result"
  co_yaml_text :: "json \<Rightarrow> (string, string) result"

section \<open>convert\<close>

record convert_args =
  cva_spec :: path
  cva_to :: openapi_version
  cva_out :: "path option"

text \<open>\<open>serde_json::from_str(text.trim_start())\<close>, and the YAML decoder when it fails.\<close>

definition decode_document :: "codec \<Rightarrow> string \<Rightarrow> json cmd" where
  "decode_document co text =
     (case co_json co (trim_start text) of
        Inr v \<Rightarrow> cmd_ok v
      | Inl _ \<Rightarrow> with_context ''failed to parse spec as JSON or YAML'' (lift_result DecodeFailed (co_yaml co text)))"

definition encode_like :: "codec \<Rightarrow> string \<Rightarrow> json \<Rightarrow> string cmd" where
  "encode_like co text j =
     (case co_json co (trim_start text) of
        Inr _ \<Rightarrow> with_context ''failed to serialize'' (lift_result DecodeFailed (co_json_pretty co j))
      | Inl _ \<Rightarrow> with_context ''failed to serialize as YAML'' (lift_result DecodeFailed (co_yaml_text co j)))"

definition run_convert :: "cli_world \<Rightarrow> codec \<Rightarrow> convert_args \<Rightarrow> unit cmd" where
  "run_convert w co args =
     cmd_bind (with_context (''failed to read spec at '' @ show_path (cva_spec args))
         (lift_result IoFailed (rd_read (cw_readers w) (show_path (cva_spec args))))) (\<lambda>bytes.
     cmd_bind (with_context ''spec is not valid UTF-8''
         (lift_result DecodeFailed (rd_from_utf8 (cw_readers w) bytes))) (\<lambda>text.
     cmd_bind (decode_document co text) (\<lambda>j.
     cmd_bind (encode_like co text (convert_json (cva_to args) j)) (\<lambda>output.
       write_or_print w (cva_out args) output))))"

section \<open>merge\<close>

record merge_args =
  mga_specs :: "path list"
  mga_out :: "path option"
  mga_format :: string

definition read_value :: "cli_world \<Rightarrow> codec \<Rightarrow> path \<Rightarrow> json cmd" where
  "read_value w co p =
     cmd_bind (read_to_string w (''failed to read spec at '' @ show_path p) p) (\<lambda>text.
       if Option.bind (file_name p) extension = Some ''json''
       then with_context (''failed to parse '' @ show_path p @ '' as JSON'') (lift_result DecodeFailed (co_json co text))
       else with_context (''failed to parse '' @ show_path p @ '' as YAML'') (lift_result DecodeFailed (co_yaml co text)))"

definition run_merge :: "cli_world \<Rightarrow> codec \<Rightarrow> merge_args \<Rightarrow> unit cmd" where
  "run_merge w co args =
     cmd_bind (cmd_each (read_value w co) (mga_specs args)) (\<lambda>vs.
     cmd_bind (lift_result ReadFailed (merge_specs vs)) (\<lambda>merged.
     cmd_bind (if mga_format args = ''json''
               then with_context ''failed to serialize merged spec as JSON'' (lift_result DecodeFailed (co_json_pretty co merged))
               else with_context ''failed to serialize merged spec as YAML'' (lift_result DecodeFailed (co_yaml_text co merged)))
       (\<lambda>output. write_or_print w (mga_out args) output)))"

section \<open>infer and export\<close>

record infer_args =
  ia_input :: string
  ia_out :: "path option"
  ia_options :: infer_options

definition run_infer :: "cli_world \<Rightarrow> codec \<Rightarrow> (string, string) result \<Rightarrow> infer_args \<Rightarrow> unit cmd" where
  "run_infer w co stdin args =
     cmd_bind (if ia_input args = ''-'' then with_context ''failed to read JSON from stdin'' (lift_result IoFailed stdin)
               else read_to_string w (''failed to read '' @ show_path (read_path (ia_input args))) (read_path (ia_input args)))
       (\<lambda>text.
     cmd_bind (with_context ''failed to parse input as JSON'' (lift_result DecodeFailed (co_json co (trim text)))) (\<lambda>j.
     cmd_bind (with_context ''failed to serialize inferred spec''
         (lift_result DecodeFailed (co_json_pretty co (infer_openapi j (ia_options args)))))
       (\<lambda>output. write_or_print w (ia_out args) output)))"

definition export_message :: "export_error \<Rightarrow> error_source" where
  "export_message e =
     (case e of
        ExportSerialize m \<Rightarrow> Message (''serialization failed: '' @ m)
      | ExportInvalid m \<Rightarrow> Message (''invalid spec: '' @ m)
      | ExportResolve r \<Rightarrow> ResolveFailed r)"

text \<open>The stack is \<open>depth\<close> calls deep.\<close>

definition run_export :: "cli_world \<Rightarrow> codec \<Rightarrow> nat \<Rightarrow> path \<Rightarrow> path option \<Rightarrow> unit cmd" where
  "run_export w co depth spec out =
     cmd_bind (read_to_string w (''failed to read spec at '' @ show_path spec) spec) (\<lambda>text.
       case export_spec (\<lambda>t. case co_json co t of Inr v \<Rightarrow> Some v | Inl _ \<Rightarrow> None) (co_yaml co) (co_yaml_text co) depth text of
         None \<Rightarrow> ([], Err (Panicked ''stack overflow''))
       | Some r \<Rightarrow>
           cmd_bind (with_context ''failed to export spec for Swagger Editor'' (lift_result export_message r))
             (\<lambda>output. write_or_print w out output))"

section \<open>migrate, changelog and version\<close>

definition named_version :: "string \<Rightarrow> oapi_spec \<Rightarrow> string" where
  "named_version fallback spec = (if spec_version spec = [] then fallback else spec_version spec)"

definition run_migrate :: "cli_world \<Rightarrow> guide_orders \<Rightarrow> path \<Rightarrow> path \<Rightarrow> path option \<Rightarrow> unit cmd" where
  "run_migrate w ords old new out =
     cmd_bind (parse_spec w ''old spec'' old) (\<lambda>old_spec.
     cmd_bind (resolve_spec ''failed to resolve old spec'' old_spec) (\<lambda>old_doc.
     cmd_bind (parse_spec w ''new spec'' new) (\<lambda>new_spec.
     cmd_bind (resolve_spec ''failed to resolve new spec'' new_spec) (\<lambda>new_doc.
       write_or_print w out
         (generate_migration_guide ords old_doc new_doc (named_version ''old'' old_spec) (named_version ''new'' new_spec))))))"

record changelog_args =
  cla_spec :: path
  cla_version :: "string option"
  cla_previous :: "path option"
  cla_out :: "path option"
  cla_suggest_version :: bool
  cla_format :: changelog_format

definition default_changelog :: "changelog_format \<Rightarrow> path" where
  "default_changelog f = read_path (case f of FmtMarkdown \<Rightarrow> ''CHANGELOG.md'' | FmtJson \<Rightarrow> ''CHANGELOG.json'')"

definition run_changelog ::
  "cli_world \<Rightarrow> (changelog_result \<Rightarrow> string option) \<Rightarrow> iter_orders \<Rightarrow> 64 word \<Rightarrow> changelog_args \<Rightarrow> unit cmd" where
  "run_changelog w to_pretty ords secs args =
     cmd_bind (load_document w (cla_spec args)) (\<lambda>doc.
       write_or_print w
         (Some (case cla_out args of Some p \<Rightarrow> p | None \<Rightarrow> default_changelog (cla_format args)))
         (generate_changelog (cw_readers w) to_pretty ords secs doc
           \<lparr>clo_version = cla_version args, clo_previous_spec = map_option show_path (cla_previous args),
            clo_suggest_version = cla_suggest_version args, clo_format = cla_format args\<rparr>))"

record version_args =
  vna_spec :: path
  vna_strategy :: version_strategy
  vna_prefix :: string
  vna_header :: "string option"
  vna_out :: "path option"

definition versioning_settings :: "version_args \<Rightarrow> versioning_config" where
  "versioning_settings args =
     \<lparr>vc_strategy = vna_strategy args,
      vc_prefix = (if vna_strategy args \<in> {UrlPath, QueryParam} then Some (vna_prefix args) else None),
      vc_header_name = vna_header args\<rparr>"

definition run_version :: "cli_world \<Rightarrow> (document \<Rightarrow> (string, string) result) \<Rightarrow> version_args \<Rightarrow> unit cmd" where
  "run_version w doc_pretty args =
     cmd_bind (load_document w (vna_spec args)) (\<lambda>doc.
     cmd_bind (with_context ''failed to serialize versioned IR to JSON''
         (lift_result DecodeFailed (doc_pretty (apply_versioning doc (versioning_settings args)))))
       (\<lambda>output. write_or_print w (vna_out args) output))"

section \<open>emit\<close>

text \<open>The JSON texts of the header, of a schema and of an operation, and of the whole document.\<close>

record ir_codec =
  irc_header :: "document \<Rightarrow> (string, string) result"
  irc_schema :: "string \<times> model \<Rightarrow> (string, string) result"
  irc_operation :: "operation \<Rightarrow> (string, string) result"
  irc_document :: "document \<Rightarrow> (string, string) result"

record emit_args =
  ema_spec :: "path option"
  ema_schema :: bool
  ema_stream :: bool

definition print_line :: "(string, string) result \<Rightarrow> unit cmd" where
  "print_line r = cmd_bind (lift_result DecodeFailed r) (\<lambda>t. cmd_then [println t] (cmd_ok ()))"

definition run_emit :: "cli_world \<Rightarrow> ir_codec \<Rightarrow> string \<Rightarrow> emit_args \<Rightarrow> unit cmd" where
  "run_emit w ic ir_schema args =
     (if ema_schema args then cmd_then [println ir_schema] (cmd_ok ())
      else cmd_bind (case ema_spec args of
                       None \<Rightarrow> bail ''a spec file is required (or use --schema)''
                     | Some p \<Rightarrow> cmd_ok p) (\<lambda>p.
           cmd_bind (load_document w p) (\<lambda>doc.
             if ema_stream args
             then cmd_bind (print_line (irc_header ic doc)) (\<lambda>_.
                  cmd_bind (cmd_each (\<lambda>m. print_line (irc_schema ic m)) (doc_schemas doc)) (\<lambda>_.
                  cmd_bind (cmd_each (\<lambda>op. print_line (irc_operation ic op)) (doc_operations doc)) (\<lambda>_. cmd_ok ())))
             else cmd_bind (with_context ''failed to serialize IR to JSON'' (lift_result DecodeFailed (irc_document ic doc)))
                    (\<lambda>t. cmd_then [println t] (cmd_ok ())))))"

section \<open>analyze\<close>

datatype analyze_format = AnalyzeText | AnalyzeJson | AnalyzeMarkdown

text \<open>The size in kilobytes is printed by \<open>{:.1}\<close>, a parameter.\<close>

definition analysis_text :: "(rat \<Rightarrow> string) \<Rightarrow> analysis_report \<Rightarrow> string list" where
  "analysis_text show1 r =
     [''=== Spec Bundle Analysis ==='', [],
      ''Schemas:     '' @ show_nat (ar_total_schemas r),
      ''Operations:  '' @ show_nat (ar_total_operations r),
      ''IR size:     '' @ show1 (of_nat (ar_total_size_bytes r) / 1024) @ '' KB'', []]
     @ (if ar_unused_schemas r = [] then []
        else (''Unused schemas ('' @ show_nat (length (ar_unused_schemas r)) @ ''):'')
          # map (\<lambda>n. ''  - '' @ n) (ar_unused_schemas r) @ [[]])
     @ (if ar_duplicate_schemas r = [] then []
        else (''Duplicate schemas ('' @ show_nat (length (ar_duplicate_schemas r)) @ '' pair(s)):'')
          # map (\<lambda>(a, b). ''  - '' @ a @ '' <-> '' @ b) (ar_duplicate_schemas r) @ [[]])
     @ (if ar_large_schemas r = [] then []
        else (''Large schemas (>20 properties):'')
          # map (\<lambda>(n, c). ''  - '' @ n @ '': '' @ show_nat c @ '' properties'') (ar_large_schemas r) @ [[]])
     @ (if ar_deep_refs r = [] then []
        else (''Deep reference chains:'')
          # map (\<lambda>(n, d). ''  - '' @ n @ '': depth '' @ show_nat d) (ar_deep_refs r) @ [[]])
     @ (if ar_recommendations r = [] then [''No issues found. Spec looks healthy.'']
        else (''Recommendations ('' @ show_nat (length (ar_recommendations r)) @ ''):'')
          # map (\<lambda>(i, rec). ''  '' @ show_nat (i + 1) @ ''. '' @ rec) (enumerate 0 (ar_recommendations r)))"

definition analysis_markdown :: "(rat \<Rightarrow> string) \<Rightarrow> analysis_report \<Rightarrow> string list" where
  "analysis_markdown show1 r =
     [''# Spec Bundle Analysis'', [],
      ''| Metric | Value |'', ''|--------|-------|'',
      ''| Schemas | '' @ show_nat (ar_total_schemas r) @ '' |'',
      ''| Operations | '' @ show_nat (ar_total_operations r) @ '' |'',
      ''| IR size | '' @ show1 (of_nat (ar_total_size_bytes r) / 1024) @ '' KB |'', []]
     @ (if ar_unused_schemas r = [] then []
        else [''## Unused Schemas ('' @ show_nat (length (ar_unused_schemas r)) @ '')'', []]
          @ map (\<lambda>n. ''- `'' @ n @ ''`'') (ar_unused_schemas r) @ [[]])
     @ (if ar_duplicate_schemas r = [] then []
        else [''## Duplicate Schemas ('' @ show_nat (length (ar_duplicate_schemas r)) @ '' pair(s))'', []]
          @ map (\<lambda>(a, b). ''- `'' @ a @ ''` <-> `'' @ b @ ''`'') (ar_duplicate_schemas r) @ [[]])
     @ (if ar_large_schemas r = [] then []
        else [''## Large Schemas (>20 properties)'', []]
          @ map (\<lambda>(n, c). ''- `'' @ n @ ''`: '' @ show_nat c @ '' properties'') (ar_large_schemas r) @ [[]])
     @ (if ar_deep_refs r = [] then []
        else [''## Deep Reference Chains'', []]
          @ map (\<lambda>(n, d). ''- `'' @ n @ ''`: depth '' @ show_nat d) (ar_deep_refs r) @ [[]])
     @ (if ar_recommendations r = [] then [''No issues found. Spec looks healthy.'']
        else [''## Recommendations'', []]
          @ map (\<lambda>(i, rec). show_nat (i + 1) @ ''. '' @ rec) (enumerate 0 (ar_recommendations r)))"

definition run_analyze ::
  "cli_world \<Rightarrow> (document \<Rightarrow> nat option) \<Rightarrow> (string set \<Rightarrow> string list) \<Rightarrow> (string list set \<Rightarrow> string list list)
     \<Rightarrow> (analysis_report \<Rightarrow> (string, string) result) \<Rightarrow> (rat \<Rightarrow> string)
     \<Rightarrow> path \<Rightarrow> analyze_format \<Rightarrow> unit cmd" where
  "run_analyze w to_vec_len ord ord_fps to_pretty show1 spec fmt =
     cmd_bind (load_document w spec) (\<lambda>doc.
       let report = analyze_spec to_vec_len ord ord_fps doc in
       case fmt of
         AnalyzeJson \<Rightarrow>
           cmd_bind (with_context ''failed to serialize'' (lift_result DecodeFailed (to_pretty report)))
             (\<lambda>t. cmd_then [println t] (cmd_ok ()))
       | AnalyzeMarkdown \<Rightarrow> cmd_then (map println (analysis_markdown show1 report)) (cmd_ok ())
       | AnalyzeText \<Rightarrow> cmd_then (map eprintln (analysis_text show1 report)) (cmd_ok ()))"

section \<open>What the commands write\<close>

lemma silent_lift [simp]: "fst (lift_result src r) = []"
  by (simp add: lift_result_def cmd_ok_def split: sum.split)

lemma silent_context [simp]: "fst (with_context c m) = fst m"
  by (simp add: with_context_def split: sum.split cli_stop.split)

lemma silent_bind: "fst c = [] \<Longrightarrow> (\<And>a. fst (f a) = []) \<Longrightarrow> fst (cmd_bind c f) = []"
  by (simp add: cmd_bind_def split: sum.split)

lemma bind_value: "fst c = [] \<Longrightarrow> snd c = Ok a \<Longrightarrow> cmd_bind c f = f a"
  by (simp add: cmd_bind_def)

lemma read_value_silent: "fst (read_value w co p) = []"
  by (auto simp: read_value_def read_to_string_def intro!: silent_bind)

lemma each_silent: "(\<And>x. fst (f x) = []) \<Longrightarrow> fst (cmd_each f xs) = []"
  by (induction xs) (auto simp: cmd_ok_def intro!: silent_bind)

lemma run_convert_json:
  assumes "spec_text w (cva_spec args) text" and "co_json co (trim_start text) = Ok j"
    and "co_json_pretty co (convert_json (cva_to args) j) = Ok t"
  shows "run_convert w co args = write_or_print w (cva_out args) t"
  using assms
  by (auto simp: run_convert_def spec_text_def decode_document_def encode_like_def lift_result_def with_context_def
      cmd_simps cmd_bind_def cmd_ok_def)

text \<open>
  Converting a JSON document to 3.1 into a file and converting that file to 3.0 prints the original with its version
  field set, provided the document uses the keywords of 3.0 and has paths, and what is printed is read back.
\<close>

theorem convert_command_round_trip:
  assumes "spec_text w (read_path ''api.json'') text" and "co_json co (trim_start text) = Ok (JObject m)"
    and "json_wf (JObject m)" "all_objects plain_30 (JObject m)" "contains_key m ''paths''"
      "\<not> starts_with (current_version (JObject m)) ''3.1''"
    and "co_json_pretty co (convert_json V31 (JObject m)) = Ok up" and "co_json co (trim_start up) = Ok (convert_json V31 (JObject m))"
    and "co_json_pretty co (json_set ''openapi'' (JString ''3.0.3'') (JObject m)) = Ok down"
    and "cw_write_error w (read_path ''up.json'') up = None" and "spec_text w' (read_path ''up.json'') up"
  shows "WroteFile (read_path ''up.json'') up \<in> set (fst (run_convert w co
      \<lparr>cva_spec = read_path ''api.json'', cva_to = V31, cva_out = Some (read_path ''up.json'')\<rparr>))"
    and "run_convert w' co \<lparr>cva_spec = read_path ''up.json'', cva_to = V30, cva_out = None\<rparr> = ([println down], Ok ())"
proof -
  have "run_convert w co \<lparr>cva_spec = read_path ''api.json'', cva_to = V31, cva_out = Some (read_path ''up.json'')\<rparr> =
      write_or_print w (Some (read_path ''up.json'')) up"
    using assms(1,2,7) by (subst run_convert_json) simp_all
  then show "WroteFile (read_path ''up.json'') up \<in> set (fst (run_convert w co
      \<lparr>cva_spec = read_path ''api.json'', cva_to = V31, cva_out = Some (read_path ''up.json'')\<rparr>))"
    using assms(10) by (simp add: write_or_print_def write_file_def cmd_bind_def with_context_def)
  have "convert_json V30 (convert_json V31 (JObject m)) = json_set ''openapi'' (JString ''3.0.3'') (JObject m)"
    using assms(3-6) by (rule convert_there_and_back)
  then have "run_convert w' co \<lparr>cva_spec = read_path ''up.json'', cva_to = V30, cva_out = None\<rparr> = write_or_print w' None down"
    using assms(8,9,11) by (subst run_convert_json [where j = "convert_json V31 (JObject m)"]) simp_all
  then show "run_convert w' co \<lparr>cva_spec = read_path ''up.json'', cva_to = V30, cva_out = None\<rparr> = ([println down], Ok ())"
    by (simp add: write_or_print_def)
qed

text \<open>
  The merged document is the specs of the command line folded from the left, printed in the requested format; with one
  unreadable spec nothing is printed or written.
\<close>

theorem merge_command_writes:
  assumes "list_all2 (\<lambda>p v. snd (read_value w co p) = Ok v) (mga_specs args) (v # vs)"
    and "(if mga_format args = ''json'' then co_json_pretty co else co_yaml_text co) (foldl merge_into v vs) = Ok t"
  shows "run_merge w co args = write_or_print w (mga_out args) t"
proof -
  have "cmd_each (read_value w co) (mga_specs args) = ([], Ok (v # vs))"
    using assms(1) by (simp add: prod_eq_iff each_returns each_silent read_value_silent)
  then show ?thesis
    using assms(2) by (auto simp: run_merge_def merge_specs_def lift_result_def with_context_def cmd_bind_def cmd_ok_def)
qed

theorem merge_command_unreadable:
  assumes "p \<in> set (mga_specs args)" and "snd (read_value w co p) = Err e"
  shows "fst (run_merge w co args) = [] \<and> (\<exists>e'. snd (run_merge w co args) = Err e')"
proof -
  have "snd (cmd_each (read_value w co) (mga_specs args)) \<noteq> Ok vs" for vs
    using assms by (auto simp: each_returns list_all2_conv_all_nth in_set_conv_nth)
  then obtain e' where "snd (cmd_each (read_value w co) (mga_specs args)) = Err e'" by (metis sum.exhaust)
  then show ?thesis by (auto simp: run_merge_def cmd_bind_def each_silent read_value_silent)
qed

text \<open>
  The stream of \<open>emit --stream\<close> is the header, the schemas in the order of the registry and the operations; it stops
  before the first line that cannot be encoded.
\<close>

lemma print_line_eq:
  "print_line r = (case r of Inl e \<Rightarrow> ([], Err (Failed [] (DecodeFailed e))) | Inr t \<Rightarrow> ([println t], Ok ()))"
  by (simp add: print_line_def lift_result_def cmd_bind_def cmd_ok_def cmd_then_def split: sum.split)

lemma each_print_lines:
  "fst (cmd_each (\<lambda>x. print_line (f x)) xs) = map (\<lambda>x. println (projr (f x))) (takeWhile (\<lambda>x. \<not> isl (f x)) xs)"
  "(\<exists>ys. snd (cmd_each (\<lambda>x. print_line (f x)) xs) = Ok ys) \<longleftrightarrow> (\<forall>x \<in> set xs. \<not> isl (f x))"
  by (induction xs) (auto simp: print_line_eq cmd_bind_def cmd_ok_def split: sum.splits)

theorem emit_stream_lines:
  assumes "document_in w p = Some doc" and "irc_header ic doc = Ok h"
  shows "fst (run_emit w ic ir_schema \<lparr>ema_spec = Some p, ema_schema = False, ema_stream = True\<rparr>) =
    println h # map (\<lambda>m. println (projr (irc_schema ic m))) (takeWhile (\<lambda>m. \<not> isl (irc_schema ic m)) (doc_schemas doc))
    @ (if \<forall>m \<in> set (doc_schemas doc). \<not> isl (irc_schema ic m)
       then map (\<lambda>op. println (projr (irc_operation ic op))) (takeWhile (\<lambda>op. \<not> isl (irc_operation ic op)) (doc_operations doc))
       else [])"
proof -
  have "fst (load_document w p) = []"
    by (auto simp: load_document_def parse_spec_def resolve_spec_def intro!: silent_bind)
  moreover have "snd (load_document w p) = Ok doc" using assms(1) by (simp add: load_document_returns)
  moreover have "print_line (irc_header ic doc) = ([println h], Ok ())"
    using assms(2) by (simp add: print_line_def lift_result_def cmd_bind_def cmd_ok_def cmd_then_def)
  ultimately show ?thesis
    using each_print_lines [of "irc_schema ic" "doc_schemas doc"] each_print_lines [of "irc_operation ic" "doc_operations doc"]
    by (auto simp: run_emit_def cmd_simps bind_value) (auto simp: cmd_bind_def cmd_ok_def split: sum.splits)
qed

end
