(* ===== verification/Bindings.thy ===== *)
theory Bindings
  imports Cli_Documents Cli_Check
begin

text \<open>
  The WebAssembly bindings (crates/specforge-wasm/src/lib.rs): \<open>parse_and_resolve\<close> and \<open>lint\<close> from a text to a text, with
  errors as strings. How the error enums and serde print is a parameter. The bindings see what \<open>specforge emit\<close> and
  \<open>specforge check\<close> see of a file that holds the text.
\<close>

record wasm_printers =
  wp_spec_error :: "spec_error \<Rightarrow> string"
  wp_resolve_error :: "resolve_error \<Rightarrow> string"
  wp_document :: "document \<Rightarrow> (string, string) result"
  wp_diagnostics :: "diagnostic list \<Rightarrow> (string, string) result"

definition wasm_document :: "wasm_printers \<Rightarrow> oapi_spec spec_readers \<Rightarrow> string \<Rightarrow> (string, document) result" where
  "wasm_document wp rd text =
     (case parse_str (rd_json rd) (rd_yaml rd) (rd_from_value rd) text of
        Inl e \<Rightarrow> Err (''parse error: '' @ wp_spec_error wp e)
      | Inr spec \<Rightarrow>
          (case resolve spec of
             Inl e \<Rightarrow> Err (''resolve error: '' @ wp_resolve_error wp e)
           | Inr doc \<Rightarrow> Ok doc))"

definition parse_and_resolve :: "wasm_printers \<Rightarrow> oapi_spec spec_readers \<Rightarrow> string \<Rightarrow> (string, string) result" where
  "parse_and_resolve wp rd text =
     (case wasm_document wp rd text of
        Inl e \<Rightarrow> Err e
      | Inr doc \<Rightarrow> (case wp_document wp doc of Inl e \<Rightarrow> Err (''serialize error: '' @ e) | Inr t \<Rightarrow> Ok t))"

definition wasm_lint :: "wasm_printers \<Rightarrow> oapi_spec spec_readers \<Rightarrow> string \<Rightarrow> (string, string) result" where
  "wasm_lint wp rd text =
     (case wasm_document wp rd text of
        Inl e \<Rightarrow> Err e
      | Inr doc \<Rightarrow> (case wp_diagnostics wp (lint doc) of Inl e \<Rightarrow> Err (''serialize error: '' @ e) | Inr t \<Rightarrow> Ok t))"

section \<open>Bindings and commands\<close>

lemma load_document_silent: "fst (load_document w p) = []"
  by (auto simp: load_document_def parse_spec_def resolve_spec_def intro!: silent_bind)

lemma wasm_document_in:
  assumes "spec_text w p text"
  shows "wasm_document wp (cw_readers w) (normalize_line_endings text) = Ok doc \<longleftrightarrow> document_in w p = Some doc"
proof -
  have "read_spec (cw_readers w) (show_path p) =
      parse_str (rd_json (cw_readers w)) (rd_yaml (cw_readers w)) (rd_from_value (cw_readers w)) (normalize_line_endings text)"
    using assms by (auto simp: spec_text_def read_spec_def parse_file_def parse_bytes_def read_text_def)
  then show ?thesis by (auto simp: wasm_document_def document_in_def split: sum.split)
qed

text \<open>
  \<open>parse_and_resolve\<close> returns the text that \<open>specforge emit\<close> prints for a file with the same content, when line endings
  are normalised first: files are read with that pass, texts given to the bindings are not.
\<close>

theorem binding_agrees_with_emit:
  assumes "spec_text w p text" and "irc_document ic = wp_document wp" and "\<not> ema_schema args" "\<not> ema_stream args" "ema_spec args = Some p"
  shows "parse_and_resolve wp (cw_readers w) (normalize_line_endings text) = Ok t \<longleftrightarrow> run_emit w ic ir_schema args = ([println t], Ok ())"
proof -
  let ?text = "normalize_line_endings text"
  have "parse_and_resolve wp (cw_readers w) ?text = Ok t \<longleftrightarrow>
      (\<exists>doc. wasm_document wp (cw_readers w) ?text = Ok doc \<and> wp_document wp doc = Ok t)"
    by (auto simp: parse_and_resolve_def split: sum.split)
  also have "\<dots> \<longleftrightarrow> (\<exists>doc. document_in w p = Some doc \<and> wp_document wp doc = Ok t)"
    by (simp only: wasm_document_in [OF assms(1)])
  also have "\<dots> \<longleftrightarrow> run_emit w ic ir_schema args = ([println t], Ok ())"
  proof (cases "document_in w p")
    case None
    then have "snd (run_emit w ic ir_schema args) \<noteq> Ok ()"
      using assms(2-5) by (auto simp: run_emit_def cmd_iff)
    with None show ?thesis by auto
  next
    case (Some doc)
    then have "load_document w p = ([], Ok doc)"
      using load_document_silent [of w p] by (simp add: prod_eq_iff load_document_returns)
    then show ?thesis
      using assms(2-5) Some
      by (auto simp: run_emit_def cmd_bind_def cmd_ok_def with_context_def lift_result_def cmd_then_def println_def split: sum.split)
  qed
  finally show ?thesis .
qed

text \<open>\<open>lint\<close> of the bindings has the default rules only: a configuration file of the command line does not reach it.\<close>

theorem binding_lint_uses_defaults:
  assumes "document_in w p = Some doc" and "spec_text w p text"
    and "cw_exists w = (\<lambda>q. False)"
    and "args = \<lparr>ca_spec = p, ca_strict = s, ca_deprecations = d, ca_disable_rules = [], ca_enable_rules = [],
      ca_severity_overrides = [], ca_config_file = None\<rparr>"
  shows "wasm_lint wp (cw_readers w) (normalize_line_endings text) =
      (case wp_diagnostics wp (lint_with_config doc default_config) of Inl e \<Rightarrow> Err (''serialize error: '' @ e) | Inr t \<Rightarrow> Ok t)"
    and "snd (lint_settings w lint_yaml args) = Ok default_config"
  using wasm_document_in [OF assms(2), of wp doc] assms(1,3,4)
  by (auto simp: wasm_lint_def lint_def lint_settings_def load_lint_config_def rule_flags_def cmd_ok_def)

end
