(* ===== verification/Spec2Isabelle.thy ===== *)
theory Spec2Isabelle
  imports Spec_Parse Resolve Spec_Merge Validate Spec_Diff Lint Versioning Security Graph Infer
    Analyzer Changelog Deprecation Evolution Marketplace Profiler Mock Go_Methods Rust_Methods Ts_Package Ts_Sync Ts_Client Ts_Stream
    Ts_Paginate Sdk_Validate Sdk_Stream Go_Client Rust_Client Sdk_Limits Sdk_Dedup Sdk_Paginate Sdk_Routes
    Cli_Projects Cli_Market Cli_Main Bindings
begin

text \<open>
  \<^bold>\<open>Verification of specforge.\<close> specforge reads an OpenAPI document and generates client SDKs in TypeScript, Go and
  Rust. Its core crate (crates/specforge-core/src) parses a spec, downgrades OpenAPI 3.1 to 3.0, resolves it into a
  language-neutral intermediate representation (IR), and offers tools over raw specs (merging, inference), over the IR
  (validation, diff, lint, analysis, deprecations, versioning, graph), over pairs and histories of documents (changelog,
  migration guide, evolution), over live services (mock server, verifier, profiler) and over collections of specs
  (workspaces, marketplace). The emitter crates (specforge-ts, specforge-go, specforge-rust) write SDKs
  from the IR. The command line (specforge-cli) composes these parts into commands with an exit code, and
  specforge-wasm exports two of them. This development models those parts in a shallow embedding and proves what makes them correct; where the code
  does not do what it means to, the theorem says what it does instead.

  \<^bold>\<open>How the parts interact.\<close> Text is decoded to JSON (\<open>parse_str\<close>), rewritten when it is a 3.1 document
  (\<open>downgrade_31_to_30\<close>) and decoded to the openapiv3 data types (theory OpenApi); the resolver turns these into a
  \<open>document\<close> of the IR; the tools and the emitters read documents, and the validator reads a document's schema registry.
  The mock server makes examples from the document that the verifier checks answers against. The emitters write files: types
  and names decide whether what they write fits together, and the generated runtime is code of its own, whose meaning is
  modelled where it has behaviour.

  \<^bold>\<open>Theories, and the code they model.\<close>

  \<^item> Prelude: results (\<open>Err\<close>/\<open>Ok\<close>), loops with \<open>?\<close> (\<open>try_map\<close>), Rust's \<open>str\<close> operations on UTF-8 bytes, decimal
    numbers, and shared lemmas.
  \<^item> Maps: \<open>IndexMap\<close> and \<open>BTreeMap\<close> as association lists. The locale \<open>keyed_map\<close> is their common contract, interpreted
    for both; its bulk-insertion lemmas carry the merging proofs.
  \<^item> Json: \<open>serde_json::Value\<close>, the sorted-key invariant \<open>json_wf\<close>, and the locale \<open>json_rewrite\<close> for recursive
    rewriting passes.
  \<^item> Ir (ir.rs, error.rs) and OpenApi (the openapiv3 vocabulary read by the sources). Type_Meaning: the JSON values an IR type
    stands for (\<open>ir_admits\<close>); no emitter is used in it, and the rendered types of the three languages are compared with it.
  \<^item> Spec_Parse (spec.rs): line endings, the JSON/YAML fall-back, webhook extraction, the two downgrade passes (both
    interpretations of \<open>json_rewrite\<close>) and the feature scan.
  \<^item> Resolve (resolve.rs): security, schemas to types, models, allOf merging, operations, parameters, responses, webhooks.
  \<^item> Spec_Merge (merge.rs): the blocks of \<open>merge_into\<close>. The locale \<open>overlay\<close> is the contract of a merged section,
    interpreted for paths, schemas and security schemes.
  \<^item> Validate (validate.rs), Spec_Diff (diff.rs), Lint (lint.rs, lint_config.rs), Versioning (versioning.rs), Security
    (security.rs), Graph (graph.rs), Infer (infer.rs).
  \<^item> Analyzer (analyzer.rs): which schemas no body reaches, duplicates, large schemas, reference depth. The locale
    \<open>ref_collector\<close> (in Ir) is the contract of a recursive collector of references, interpreted for the linter, the
    analyzer and the TypeScript emitter.
  \<^item> Calendar and Changelog (changelog.rs): dates from day numbers; the classification of findings, the suggested bump and
    both renderings. Deprecation (deprecation.rs): the report, the extraction of alternatives, the migration guide.
  \<^item> Evolution (evolution.rs): the readable commits of a spec and the breaking changes between neighbours; it composes
    \<open>parse_str\<close>, \<open>resolve\<close> and \<open>diff\<close>.
  \<^item> Mock (mock.rs) and Verify (verify.rs): examples, routes and connections; path filling and verdicts. Profiler
    (profiler.rs): the figures of a profiled endpoint and the recommendations. I18n (i18n.rs).
  \<^item> Workspace (workspace.rs): paths, configuration and the scan of a directory. Marketplace (marketplace.rs): the indexes
    of specs and plugins; the locale \<open>ranked_index\<close> is the contract of both, interpreted for each.
  \<^item> Ts_Names, Ts_Types, Ts_Models, Ts_Validate, Ts_Operations, Ts_Package (specforge-ts/src): identifiers, rendered types,
    model files and guards, schema descriptors with the meaning of the generated validators, methods, and the set of files.
  \<^item> Ts_Sync, Ts_Client, Ts_Stream, Ts_Paginate (the code that runtime.rs emits): semaphore, token bucket and sliding window;
    retries, auth, cache, sharing of requests, middleware; line and event streams; paginators.
  \<^item> Emit_Common, Go_Models, Go_Methods (specforge-go/src/lib.rs), Rust_Models, Rust_Methods (specforge-rust/src/lib.rs):
    names, rendered types, comments, models and unions; methods, paths, webhooks, manifests and the set of files.
  \<^item> Sdk_Validate: the validators both emitters write, as functions and as text. Sdk_Stream: event streams of both
    runtimes. Sdk_Retry: the retry loop (\<open>retry_loop\<close>), its pauses on 64-bit words and idempotency keys. Go_Client and
    Rust_Client: headers, credentials, middleware, retries, cache, telemetry and decoding of a call of each client.
  \<^item> Sdk_Limits, Sdk_Dedup, Sdk_Paginate, Sdk_Routes (the code that \<open>emit_ratelimit\<close>, \<open>emit_concurrency\<close>, \<open>emit_dedup\<close>,
    \<open>emit_paginate\<close> and \<open>emit_validation_middleware\<close> of both crates emit): limiters, the mutex of the Go limiters and the
    sharing of requests as step relations, paginators, and the validation middleware. The locale \<open>token_policy\<close> is the contract of
    a token bucket, interpreted for both buckets, and \<open>route_segments\<close> that of a splitting of paths.
  \<^item> Convert (the rewriting of \<open>specforge convert\<close>, in main.rs), Spec_Versions (spec.rs: \<open>scan_versions\<close>,
    \<open>resolve_spec_path\<close>), Swagger_Export (swagger_export.rs).
  \<^item> Cli_Base, Cli_Check, Cli_Documents, Cli_Projects, Cli_Market, Cli_Main (specforge-cli/src/main.rs): a command is a value of
    \<open>cmd\<close>, the events it leaves and a value, an error with its contexts or a panic. Cli_Check has \<open>check\<close>, \<open>diff\<close>,
    \<open>verify\<close> and the files of lint_config.rs; Cli_Documents has \<open>convert\<close>, \<open>merge\<close>, \<open>infer\<close>, \<open>export\<close>, \<open>migrate\<close>,
    \<open>changelog\<close>, \<open>version\<close>, \<open>emit\<close>, \<open>analyze\<close>; Cli_Projects has \<open>generate\<close>, \<open>versions\<close>, \<open>workspace\<close>; Cli_Market has
    \<open>market\<close>, \<open>plugin\<close>, \<open>evolution\<close>, \<open>profile\<close>, \<open>init\<close>, \<open>workspace-init\<close>; Cli_Main has the dispatch of \<open>main\<close>.
  \<^item> Bindings (specforge-wasm/src/lib.rs): what the bindings return and what the commands print.
  \<^item> this theory: properties of two components together.

  \<^bold>\<open>State and effects.\<close> Structs are records, enums datatypes, and names are the source's. Vectors that functions push to are
  returned as lists; a loop with \<open>?\<close> stops at the first error. A \<open>HashMap\<close> or \<open>HashSet\<close> whose iteration order can be seen
  is given an explicit order (\<open>iter_orders\<close> in Spec_Diff), and theorems hold for all of them. Text decoders and printers,
  file reading, the HTTP client and \<open>fetch\<close>, clocks, random numbers and the fixed texts of generated files are parameters of
  the definitions that call them. Interleavings of asynchronous callers are sequences of steps
  (Ts_Sync, Sdk_Limits, Sdk_Dedup).

  \<^bold>\<open>What is shown.\<close>

  \<^item> Refinement: the diff reports no breaking change exactly when the new document satisfies the compatibility contract
    \<open>doc_compatible\<close>; the suggested bump is major exactly when it does not, minor exactly when it does and adds something
    (\<open>doc_extended\<close>), and never a patch; the validator decides the inductive relation
    \<open>conforms\<close>; the generated TypeScript validator accepts what conforms, for the models the theorem names; a version of a spec's history has no breaking
    changes exactly when it satisfies the compatibility contract with its predecessor; \<open>specforge diff\<close> exits successfully
    exactly when both documents load and the contract holds.
  \<^item> Functional behaviour: which 3.1 keywords a downgrade removes and which type arrays it leaves; allOf merging, operation order and the registry of the
    resolver; last-wins merging of specs; the authentication of each operation; unused schemas; what the generated Go and
    Rust validators accept; when \<open>specforge check\<close> and \<open>verify\<close> succeed, what a workspace run returns, and which file a
    requested version names.
  \<^item> Equivalence and round trips: each rendered type is parsed as the language reads it and admits the JSON values of the IR type,
    outside the cases the theorems exclude and the lemmas beside them refute (nullable arrays in TypeScript, base64 and binary
    strings in Go and Rust); path expressions evaluate to the filled path; the mock server satisfies the verifier for plain paths and
    the statuses 200 and 201, and so \<open>specforge verify\<close> succeeds against it; conversion to 3.1 and back is the identity on documents of plain 3.0 keywords; dates, string literals, workspace paths
    and event streams are read back; the Go constructor of a union, as text, and the TypeScript one choose the arm that the document
    says; the event streams of the Go and TypeScript clients agree, and so do the paginators and path matchers of all three; the cache of the
    Go client does not change what a call returns.
  \<^item> Invariants and liveness of the generated semaphore and of shared requests; mutual exclusion in the Go limiters, and how
    a cancelled caller ends it; bounds of the token buckets, of sliding windows, of retry pauses (without overflow) and
    of profiling figures; termination of retry loops, of example
    generation (exactly when no property cycle is reached) and of every pass over schemas.
  \<^item> Errors: when resolution fails and with which error; what each client does with a 304, and how often it repeats a
    request that must not be repeated.
  \<^item> Safety of what is written: files written in parallel have distinct paths exactly when names stay distinct; imports and
    modules exist, or fail to exist, exactly when the theorems say so.

  \<^bold>\<open>Fuel.\<close> The validator follows references without a limit. One unit is spent per call of \<open>validate_inner\<close>; more fuel never
  changes a result (\<open>validate_inner_mono\<close>), and on a registry whose aliases go down in some rank there is an amount from which
  every run returns. Example generation has the depth of its call stack as fuel, and \<open>mock_example_ends_iff\<close> says when some
  depth is enough. The paginators and the retry loop are \<open>partial_function\<close>s or lists over a bounded number of attempts; that
  they end is proved.

  \<^bold>\<open>Limits of the model.\<close> Strings are bytes; case mapping and the debug form of strings are those of ASCII. Floats in JSON are
  rationals, and so are the latencies of the profiler, whose figures are those of exact arithmetic. The file system of a
  command is a record of functions that does not change while the command runs. The maximum of the TypeScript semaphore may be
  a fraction; its slots are counted by a natural number (\<open>semaphore_slots_less\<close>). In the TypeScript client a provider of
  credentials may reject and the body of a response may break off while it is read. The validators know the methods that every
  JavaScript object inherits (\<open>object_methods\<close>); the guards of unions are read without them.

  \<^bold>\<open>Not modelled.\<close> The documentation, dashboard, demo and test generators and the commands \<open>docs\<close>, \<open>demo\<close> and
  \<open>test\<close>, which fill templates; \<open>specforge mock\<close> as a process (sockets and threads; the server's answers are in Mock);
  parsing of arguments, log messages and printed timings; schema31.rs, which nothing else uses; the macro of
  specforge-plugin, which exports raw memory; concurrent callers of a whole Go or Rust client, beyond its limiters and its
  sharing of requests; streaming requests of the Rust client; the loggers, declarations and READMEs of all emitters.
\<close>

section \<open>Resolved documents and the validator\<close>

lemma resolve_schemas_loop_lookup:
  assumes "resolve_schemas_loop ss comps registry = Ok reg" and "distinct (map fst ss)"
    and "(n, Item s) \<in> set ss"
  shows "\<exists>reg' m. build_model n (schema_data s) (schema_kind s) comps reg' = Ok m \<and> registry_get reg n = Some m"
  using assms
proof (induction ss arbitrary: registry)
  case (Cons x ss)
  obtain n' s' where x: "x = (n', s')" by (cases x)
  from Cons.prems(1) x obtain sch m where
    sch: "deref_schema s' = Ok sch" and
    m: "build_model n' (schema_data sch) (schema_kind sch) comps registry = Ok m" and
    rec: "resolve_schemas_loop ss comps (im_insert n' m registry) = Ok reg"
    by (auto split: sum.splits)
  have keep: "registry_get reg k = registry_get r k"
    if "resolve_schemas_loop ts comps r = Ok reg" "k \<notin> fst ` set ts" for ts r k
    using that
  proof (induction ts arbitrary: r)
    case (Cons t ts)
    obtain a b where t: "t = (a, b)" by (cases t)
    from Cons.prems(1) t obtain m' where "resolve_schemas_loop ts comps (im_insert a m' r) = Ok reg"
      by (auto split: sum.splits)
    with Cons t show ?case by (auto simp: registry_get_def map_laws)
  qed simp
  show ?case
  proof (cases "(n, Item s) = x")
    case True
    then have "n \<notin> fst ` set ss" using Cons.prems(2) x by auto
    with keep [OF rec] have "registry_get reg n = Some m"
      using True x by (simp add: registry_get_def map_laws)
    moreover have "sch = s" "n' = n" using True x sch by (auto simp: deref_schema_simps)
    ultimately show ?thesis using m by blast
  next
    case False
    with Cons.prems rec x show ?thesis by (intro Cons.IH) auto
  qed
qed simp

lemma resolved_model:
  assumes "resolve_with_webhooks spec webhooks = Ok doc" and "spec_components spec = Some c"
    and "im_invar (co_schemas c)" and "map_of (co_schemas c) n = Some (Item s)"
  shows "\<exists>reg m. build_model n (schema_data s) (schema_kind s) c reg = Ok m \<and>
    registry_get (doc_schemas doc) n = Some m"
proof -
  have "resolve_schemas_loop (co_schemas c) c [] = Ok (doc_schemas doc)"
    using assms(1,2)
    by (auto simp: resolve_with_webhooks_def Let_def resolve_schemas_def split: sum.splits)
  then show ?thesis
    using assms(3,4) by (intro resolve_schemas_loop_lookup) (auto simp: im_invar_def dest: map_of_SomeD)
qed

text \<open>
  C40. A component schema that is a plain object resolves to a model whose shape is \<open>Any\<close>, and the
  validator follows the shape: it accepts every value for a reference to that schema, whatever
  properties the schema requires.
\<close>

theorem resolved_object_accepts_everything:
  assumes "resolve_with_webhooks spec webhooks = Ok doc" and "spec_components spec = Some c"
    and "im_invar (co_schemas c)"
    and "map_of (co_schemas c) n = Some (Item (Schema data (KType (OObject ps req ap))))"
    and "ap = None \<or> ap = Some (APAny False)"
  shows "validate (Suc (Suc k)) v (TReference n nullable d) (doc_schemas doc) = Some []"
proof -
  obtain reg m where m: "build_model n data (KType (OObject ps req ap)) c reg = Ok m"
    "registry_get (doc_schemas doc) n = Some m"
    using resolved_model [OF assms(1-4)] by auto
  then obtain obj where "m = MObject obj" "om_shape_type obj = Some TAny"
    using assms(5) by (auto simp: build_model_def Let_def split: option.splits)
  with m(2) show ?thesis by (simp add: validate_def validate_body_def)
qed

theorem resolved_object_accepts_everything_witness:
  "\<exists>doc. resolve_with_webhooks example_spec None = Ok doc \<and>
     validate 2 (JObject []) (TReference ''Pet'' False None) (doc_schemas doc) = Some [] \<and>
     validate 2 (JBool True) (TReference ''Pet'' False None) (doc_schemas doc) = Some []"
proof -
  obtain doc where doc: "resolve_with_webhooks example_spec None = Ok doc"
    using example_resolved by blast
  have "validate (Suc (Suc 0)) v (TReference ''Pet'' False None) (doc_schemas doc) = Some []" for v
    by (rule resolved_object_accepts_everything [OF doc, of example_components "''Pet''"
          "schema_data example_schema" "[(''id'', Reference ''#/components/schemas/Id'')]" "[''id'']" None])
      (simp_all add: example_spec_def example_components_def example_schema_def im_invar_def)
  with doc show ?thesis by (simp add: numeral_2_eq_2)
qed

section \<open>Resolved documents and the linter\<close>

lemma digits_not_default: "starts_with s ''default'' \<Longrightarrow> s \<noteq> show_nat n @ t"
proof -
  obtain c cs where s: "show_nat n = c # cs" by (cases "show_nat n") auto
  then have "is_ascii_digit c" using digits_show_nat [of c n] by simp
  then have "c \<noteq> CHR ''d''" by (auto simp: is_ascii_digit_def byte_def)
  with s show "starts_with s ''default'' \<Longrightarrow> s \<noteq> show_nat n @ t" by (auto simp: starts_with_iff)
qed

lemma resolved_response_description:
  assumes "resolve_operation m path op ps comps = Ok o'" and "r \<in> set (op_responses o')"
  shows "resp_description r = None \<longleftrightarrow> resp_status r \<noteq> ''default''"
proof -
  have "resolve_responses (oop_responses op) = Ok (op_responses o')"
    using assms(1) by (auto simp: resolve_operation_def split: sum.splits)
  then have "Inr (op_responses o') = resolve_responses (oop_responses op)" ..
  then have "r \<in> set (projr (resolve_responses (oop_responses op)))"
    using assms(2) by (metis sum.sel(2))
  moreover have "status_code_str st \<noteq> ''default''" for st
  proof (cases st)
    case (Code w)
    then show ?thesis
      using digits_not_default [of "''default''" "unat w" "[]"] by (simp add: status_code_str_def starts_with_def)
  next
    case (Range w)
    then show ?thesis
      using digits_not_default [of "''default''" "unat w" "''XX''"]
      by (simp add: status_code_str_def starts_with_def)
  qed
  ultimately show ?thesis
    by (auto simp: resolve_responses_def split: option.splits reference_or.splits)
qed

lemma resolved_operation:
  assumes "resolve_with_webhooks spec webhooks = Ok doc" and "o' \<in> set (doc_operations doc)"
  obtains path item m op where "(path, item, m, op) \<in> set (operation_steps (spec_paths spec))"
    and "resolve_operation m path op (pi_parameters item) (spec_components spec) = Ok o'"
proof -
  have "resolve_operations (spec_paths spec) (spec_components spec) = Ok (doc_operations doc)"
    using assms(1) by (auto simp: resolve_with_webhooks_def Let_def split: sum.splits)
  then have "list_all2 (\<lambda>st o'. (case st of (path, item, m, op) \<Rightarrow>
      resolve_operation m path op (pi_parameters item) (spec_components spec)) = Ok o')
      (operation_steps (spec_paths spec)) (doc_operations doc)"
    by (simp add: resolve_operations_def try_map_Inr_iff split_def)
  then obtain st where "st \<in> set (operation_steps (spec_paths spec))" "(case st of (path, item, m, op) \<Rightarrow>
      resolve_operation m path op (pi_parameters item) (spec_components spec)) = Ok o'"
    using list_all2_right [OF _ assms(2)] by blast
  with that show ?thesis by (cases st) auto
qed

text \<open>
  On a resolved document the missing-response-description rule fires for every response
  with a status code and for no default response: the resolver keeps the description of the
  default response only, so the rule does not depend on what the spec says.
\<close>

theorem response_description_rule_on_resolved:
  assumes "resolve_with_webhooks spec webhooks = Ok doc"
  shows "length (check_missing_response_descriptions doc config) =
    length (filter (\<lambda>r. resp_status r \<noteq> ''default'') (concat (map op_responses (doc_operations doc))))"
proof -
  have "filter (\<lambda>r. resp_description r = None) (op_responses o') =
      filter (\<lambda>r. resp_status r \<noteq> ''default'') (op_responses o')" if o': "o' \<in> set (doc_operations doc)" for o'
  proof (rule filter_cong)
    fix r
    assume "r \<in> set (op_responses o')"
    moreover obtain path item m op where "(path, item, m, op) \<in> set (operation_steps (spec_paths spec))"
      and "resolve_operation m path op (pi_parameters item) (spec_components spec) = Ok o'"
      using resolved_operation [OF assms o'] .
    ultimately show "(resp_description r = None) = (resp_status r \<noteq> ''default'')"
      using resolved_response_description by blast
  qed simp
  then show ?thesis
    by (simp add: check_missing_response_descriptions_def length_concat filter_concat comp_def
        cong: map_cong)
qed

text \<open>A spec whose only response has a status code and, in the source document, a description.\<close>

definition described_spec :: oapi_spec where
  "described_spec = example_spec\<lparr>spec_paths := [(''/pets'', Item (example_item\<lparr>pi_get :=
     Some (example_operation\<lparr>oop_responses := \<lparr>oresps_default = None,
       oresps_responses = [(Code 200, Item \<lparr>oresp_description = ''All pets'', oresp_content = []\<rparr>)]\<rparr>\<rparr>)\<rparr>))]\<rparr>"

theorem response_description_rule_on_resolved_witness:
  "\<exists>doc. resolve_with_webhooks described_spec None = Ok doc \<and>
     length (check_missing_response_descriptions doc default_config) = 1"
proof -
  have "case resolve_with_webhooks described_spec None of Inl e \<Rightarrow> False
      | Inr doc \<Rightarrow> length (filter (\<lambda>r. resp_status r \<noteq> ''default'') (concat (map op_responses (doc_operations doc)))) = 1"
    by code_simp
  then obtain doc where doc: "resolve_with_webhooks described_spec None = Ok doc"
    "length (filter (\<lambda>r. resp_status r \<noteq> ''default'') (concat (map op_responses (doc_operations doc)))) = 1"
    by (cases "resolve_with_webhooks described_spec None") auto
  with response_description_rule_on_resolved [OF doc(1)] show ?thesis by auto
qed

text \<open>
  The missing-operation-id rule reports an operation of a resolved document only when the
  spec gives it an explicitly empty id: operations without an id get a non-empty one.
\<close>

theorem operation_id_rule_on_resolved:
  assumes "resolve_with_webhooks spec webhooks = Ok doc"
    and "\<forall>(path, item, m, op) \<in> set (operation_steps (spec_paths spec)). oop_operation_id op \<noteq> Some []"
  shows "check_missing_operation_ids doc config = []"
proof -
  have "op_operation_id o' \<noteq> []" if o': "o' \<in> set (doc_operations doc)" for o'
  proof -
    obtain path item m op where st: "(path, item, m, op) \<in> set (operation_steps (spec_paths spec))"
      and r: "resolve_operation m path op (pi_parameters item) (spec_components spec) = Ok o'"
      using resolved_operation [OF assms(1) o'] .
    have "synthesize_operation_id m path \<noteq> []"
      by (cases m) (simp_all add: synthesize_operation_id_def)
    moreover have "op_operation_id o' = (case oop_operation_id op of
        Some i \<Rightarrow> i | None \<Rightarrow> synthesize_operation_id m path)"
      using r by (auto simp: resolve_operation_def split: sum.splits)
    ultimately show ?thesis
      using assms(2) st by (auto split: option.splits)
  qed
  then show ?thesis by (simp add: check_missing_operation_ids_def filter_empty_conv)
qed

theorem operation_id_rule_on_resolved_witness:
  "\<exists>doc. resolve_with_webhooks example_spec None = Ok doc \<and>
     check_missing_operation_ids doc default_config = [] \<and>
     map op_operation_id (doc_operations doc) = [''getpets'']"
proof -
  obtain doc where doc: "resolve_with_webhooks example_spec None = Ok doc"
    "map op_operation_id (doc_operations doc) = [''getpets'']"
    by (rule that [OF example_resolved]) (simp add: example_document_def)
  have "\<forall>(path, item, m, op) \<in> set (operation_steps (spec_paths example_spec)). oop_operation_id op \<noteq> Some []"
    by code_simp
  from operation_id_rule_on_resolved [OF doc(1) this, of default_config] doc
  show ?thesis by (intro exI [of _ doc] conjI)
qed

end
